(* ===== verification/Prelude.thy ===== *)
theory Prelude
  imports Main "HOL-Library.Word"
begin

text \<open>
  Shared vocabulary of the development: the machine integer types of the code, byte-vector
  access, single-bit flag updates, and the generic facts on words and lists that the
  component theories use. The collections \<open>insn_defs\<close>, \<open>bus_defs\<close> and
  \<open>flag_defs\<close> gather definitions that a whole group of proofs unfolds.
\<close>

unbundle bit_operations_syntax

section \<open>Types and collections\<close>

type_synonym u8 = "8 word"
type_synonym u16 = "16 word"
type_synonym u32 = "32 word"
type_synonym u64 = "64 word"

named_theorems insn_defs
named_theorems bus_defs
named_theorems flag_defs

section \<open>Little-endian access to byte vectors\<close>

definition le16 :: "u8 list \<Rightarrow> nat \<Rightarrow> u16" where
  "le16 p i = ucast (p ! i) OR push_bit 8 (ucast (p ! (i + 1)))"

definition le32 :: "u8 list \<Rightarrow> nat \<Rightarrow> u32" where
  "le32 p i = ucast (p ! i) OR push_bit 8 (ucast (p ! (i + 1)))
     OR push_bit 16 (ucast (p ! (i + 2))) OR push_bit 24 (ucast (p ! (i + 3)))"

definition put_le16 :: "u8 list \<Rightarrow> nat \<Rightarrow> u16 \<Rightarrow> u8 list" where
  "put_le16 p i v = p[i := ucast v, i + 1 := ucast (drop_bit 8 v)]"

definition put_le32 :: "u8 list \<Rightarrow> nat \<Rightarrow> u32 \<Rightarrow> u8 list" where
  "put_le32 p i v = p[i := ucast v, i + 1 := ucast (drop_bit 8 v),
     i + 2 := ucast (drop_bit 16 v), i + 3 := ucast (drop_bit 24 v)]"

lemma length_put_le16 [simp]: "length (put_le16 p i v) = length p"
  by (simp add: put_le16_def)

lemma length_put_le32 [simp]: "length (put_le32 p i v) = length p"
  by (simp add: put_le32_def)

lemma join16_split: "ucast (ucast v :: u8) OR push_bit 8 (ucast (ucast (drop_bit 8 v) :: u8)) = (v :: u16)"
  by (rule bit_word_eqI) (auto simp: bit_simps)

lemma join32_split:
  "ucast (ucast v :: u8) OR push_bit 8 (ucast (ucast (drop_bit 8 v) :: u8))
     OR push_bit 16 (ucast (ucast (drop_bit 16 v) :: u8))
     OR push_bit 24 (ucast (ucast (drop_bit 24 v) :: u8)) = (v :: u32)"
proof (rule bit_word_eqI)
  fix n assume n: "n < LENGTH(32)"
  consider "n < 8" | "8 \<le> n" "n < 16" | "16 \<le> n" "n < 24" | "24 \<le> n" by linarith
  then show "bit (ucast (ucast v :: u8) OR push_bit 8 (ucast (ucast (drop_bit 8 v) :: u8))
     OR push_bit 16 (ucast (ucast (drop_bit 16 v) :: u8))
     OR push_bit 24 (ucast (ucast (drop_bit 24 v) :: u8)) :: u32) n = bit v n"
    using n by cases (auto simp: bit_simps)
qed

lemma le16_put_le16 [simp]: "i + 1 < length p \<Longrightarrow> le16 (put_le16 p i v) i = v"
  by (simp add: le16_def put_le16_def join16_split)

lemma le32_put_le32 [simp]: "i + 3 < length p \<Longrightarrow> le32 (put_le32 p i v) i = v"
  by (simp add: le32_def put_le32_def join32_split)

lemma le16_put_le16_other: "i + 1 < j \<or> j + 1 < i \<Longrightarrow> le16 (put_le16 p i v) j = le16 p j"
  by (auto simp: le16_def put_le16_def)

lemma le32_put_le32_other: "i + 3 < j \<or> j + 3 < i \<Longrightarrow> le32 (put_le32 p i v) j = le32 p j"
  by (auto simp: le32_def put_le32_def)

lemma put_le32_other: "k < i \<or> i + 3 < k \<Longrightarrow> put_le32 p i v ! k = p ! k"
  by (auto simp: put_le32_def)

lemma put_le16_other: "k < i \<or> i + 1 < k \<Longrightarrow> put_le16 p i v ! k = p ! k"
  by (auto simp: put_le16_def)

text \<open>A word store is the two halfword stores of a 16-bit bus.\<close>

lemma put_le32_halves:
  "put_le32 p i v = put_le16 (put_le16 p i (ucast v)) (i + 2) (ucast (drop_bit 16 v))"
proof -
  have "(ucast (drop_bit 8 (ucast v :: u16)) :: u8) = ucast (drop_bit 8 v)"
    and "(ucast (ucast v :: u16) :: u8) = ucast v"
    and "(ucast (ucast (drop_bit 16 v) :: u16) :: u8) = ucast (drop_bit 16 v)"
    and "(ucast (drop_bit 8 (ucast (drop_bit 16 v) :: u16)) :: u8) = ucast (drop_bit 24 v)"
    by (rule bit_word_eqI; auto simp: bit_simps)+
  then show ?thesis by (simp add: put_le32_def put_le16_def numeral_3_eq_3)
qed

lemma ucast_le16_or: "(ucast (ucast a OR push_bit 8 (ucast b) :: u16) :: u32) = ucast (a :: u8) OR push_bit 8 (ucast (b :: u8))"
  by (rule bit_word_eqI) (auto simp: bit_simps dest: bit_imp_le_length)

lemma le32_halves: "le32 p i = ucast (le16 p i) OR push_bit 16 (ucast (le16 p (i + 2)))"
  by (simp add: le32_def le16_def ucast_le16_or push_bit_or or.assoc numeral_3_eq_3)

section \<open>Vector fill\<close>

text \<open>\<open>std::fill(v.begin() + a, v.begin() + a + n, x)\<close>.\<close>

definition fill_range :: "'a list \<Rightarrow> nat \<Rightarrow> nat \<Rightarrow> 'a \<Rightarrow> 'a list" where
  "fill_range xs a n x = map (\<lambda>(i, y). if a \<le> i \<and> i < a + n then x else y) (enumerate 0 xs)"

lemma length_fill_range [simp]: "length (fill_range xs a n x) = length xs"
  by (simp add: fill_range_def)

lemma nth_fill_range [simp]:
  "i < length xs \<Longrightarrow> fill_range xs a n x ! i = (if a \<le> i \<and> i < a + n then x else xs ! i)"
  by (simp add: fill_range_def nth_enumerate_eq)

section \<open>Single flag bits of a status word\<close>

text \<open>\<open>raw = (raw & ~(1u<<k)) | (uint32_t(v)<<k)\<close>.\<close>

definition put_flag :: "nat \<Rightarrow> bool \<Rightarrow> u32 \<Rightarrow> u32" where
  "put_flag k b raw = (raw AND NOT (push_bit k 1)) OR push_bit k (of_bool b)"

lemma bit_put_flag [simp]:
  "bit (put_flag k b raw) n = (n < 32 \<and> (if n = k then b else bit raw n))"
  by (auto simp: put_flag_def bit_simps dest: bit_imp_le_length)

lemma put_flag_same: "bit raw k = b \<Longrightarrow> k < 32 \<Longrightarrow> put_flag k b raw = raw"
  by (rule bit_word_eqI) auto

section \<open>Sign extension\<close>

text \<open>\<open>static_cast<uint32_t>(static_cast<int8_t>(v))\<close> and the 16-bit form.\<close>

definition sx8 :: "u8 \<Rightarrow> u32" where "sx8 v = scast v"
definition sx16 :: "u16 \<Rightarrow> u32" where "sx16 v = scast v"

section \<open>Alignment masks\<close>

lemma mask_of_pow2: "(word_of_nat (2 ^ k - 1) :: u32) = mask k"
  by (simp add: mask_eq_exp_minus_1 of_nat_diff)

lemma unat_take_bit_mod: "unat (take_bit k w) = unat w mod 2 ^ k"
  by (simp only: unsigned_take_bit_eq) (rule take_bit_eq_mod)

lemma unat_align: "unat ((w :: u32) AND NOT (mask k)) = unat w div 2 ^ k * 2 ^ k"
proof -
  have le: "take_bit k w \<le> w" by (metis word_and_le2 take_bit_eq_mask)
  have "w - take_bit k w = w AND NOT (take_bit k w)"
    by (rule disjunctive_diff_eq_and_not) (rule bit_eqI, auto simp: bit_simps)
  also have "\<dots> = w AND NOT (mask k)" by (rule bit_word_eqI) (auto simp: bit_simps)
  finally have "unat (w AND NOT (mask k)) = unat w - unat w mod 2 ^ k"
    using unat_sub[OF le] by (simp only: unat_take_bit_mod)
  then show ?thesis by (simp add: minus_mod_eq_div_mult)
qed

lemma and_not1: "(w :: u32) AND NOT 1 = w AND NOT (mask 1)" by simp

lemma and_not3: "(w :: u32) AND NOT 3 = w AND NOT (mask 2)" by (simp add: mask_eq_exp_minus_1)

lemma unat_and_mask: "unat ((w :: u32) AND mask k) = unat w mod 2 ^ k"
  by (simp only: take_bit_eq_mask [symmetric] unat_take_bit_mod)

lemma unat_and_1: "unat ((w :: u32) AND 1) = unat w mod 2"
  using unat_and_mask[of w 1] by (simp add: mask_eq_exp_minus_1)

lemma unat_and_3: "unat ((w :: u32) AND 3) = unat w mod 4"
  using unat_and_mask[of w 2] by (simp add: mask_eq_exp_minus_1)

lemma u32_less: "unat (w :: u32) < 2 ^ 32"
  using unsigned_less [of w, where 'a = nat] by simp

lemma mask_literals:
  "(0xFFF :: u32) = mask 12" "(0xFFFF :: u32) = mask 16" "(0x1FFF :: u32) = mask 13"
  "(0x0FFFFFFF :: u32) = mask 28"
  by (simp_all add: mask_eq_exp_minus_1)

lemma align_room: "k \<le> 32 \<Longrightarrow> unat ((w :: u32) AND NOT (mask k)) + 2 ^ k \<le> 2 ^ 32"
proof -
  assume k: "k \<le> 32"
  have split: "(2 :: nat) ^ 32 = 2 ^ (32 - k) * 2 ^ k"
    using k by (metis le_add_diff_inverse2 power_add)
  then have "unat w div 2 ^ k < 2 ^ (32 - k)"
    using u32_less [of w] by (metis less_mult_imp_div_less)
  then have "(unat w div 2 ^ k + 1) * 2 ^ k \<le> 2 ^ (32 - k) * 2 ^ k"
    by (intro mult_le_mono1) simp
  then show ?thesis using split by (simp add: unat_align)
qed

section \<open>Unsigned and signed readings of 32-bit words\<close>

lemma u32_of_nat: "k < 2 ^ 32 \<Longrightarrow> unat (word_of_nat k :: u32) = k"
  by (simp add: unat_of_nat)

lemma u32_add: "unat (a + b :: u32) = (if unat a + unat b < 2 ^ 32 then unat a + unat b else unat a + unat b - 2 ^ 32)"
  by (simp add: unat_plus_if_size word_size)

lemma u32_sub: "unat (a - b :: u32) = (if unat b \<le> unat a then unat a - unat b else unat a + 2 ^ 32 - unat b)"
  by (simp add: unat_sub_if_size word_size)

lemma u32_neg: "unat (- d :: u32) = (if d = 0 then 0 else 2 ^ 32 - unat d)"
  using u32_sub [of 0 d] by (auto simp: unat_eq_zero)

lemma u32_not: "unat (NOT v :: u32) = 2 ^ 32 - 1 - unat v"
proof -
  have "unat (- v - 1) = 2 ^ 32 - 1 - unat v"
    using u32_less [of v] by (subst u32_sub) (auto simp: u32_neg)
  then show ?thesis by (simp add: not_eq_complement)
qed

lemma u32_ext: "unat (a :: u32) = unat b \<Longrightarrow> a = b"
  by (rule unsigned_word_eqI)

lemma or_bit0: "(push_bit 1 (v :: u32) OR b) = push_bit 1 v + b" if "\<And>n. bit b n \<Longrightarrow> n = 0"
proof (rule disjunctive_add [symmetric])
  show "\<not> bit (push_bit 1 v) n \<or> \<not> bit b n" for n
    using that [of n] by (cases n) (auto simp only: bit_push_bit_iff)
qed

lemma u32_shl1: "unat (push_bit 1 (v :: u32)) = 2 * unat v mod 2 ^ 32"
  by (simp only: unsigned_push_bit_eq) (simp add: take_bit_eq_mod push_bit_eq_mult mult.commute)

lemma u32_msb: "unat (drop_bit 31 (v :: u32)) = unat v div 2 ^ 31"
proof -
  have "unat (drop_bit 31 v) = drop_bit 31 (take_bit 32 (unat v))"
    by (simp only: unsigned_drop_bit_eq) simp
  then show ?thesis using u32_less [of v] by (simp only: take_bit_nat_eq_self drop_bit_eq_div)
qed

lemma u32_msb_bit: "bit (drop_bit 31 (v :: u32)) n \<Longrightarrow> n = 0"
  by (auto simp only: bit_drop_bit_eq comp_apply dest!: bit_imp_le_length) simp

lemma u32_shift_in:
  assumes "unat h < 2 ^ 31"
  shows "unat (push_bit 1 (h :: u32) OR drop_bit 31 l) = 2 * unat h + unat l div 2 ^ 31"
proof -
  have "unat l div 2 ^ 31 < 2" using u32_less [of l] by (intro less_mult_imp_div_less) simp
  moreover have "push_bit 1 h OR drop_bit 31 l = push_bit 1 h + drop_bit 31 l"
    by (rule or_bit0) (rule u32_msb_bit)
  ultimately show ?thesis
    using assms by (simp only: u32_add u32_shl1 u32_msb) simp
qed

lemma u32_shl_or1: "unat (push_bit 1 (l :: u32) OR of_bool q) = 2 * unat l mod 2 ^ 32 + of_bool q"
proof -
  have "push_bit 1 l OR of_bool q = push_bit 1 l + of_bool q"
    by (rule or_bit0) (cases q; simp add: bit_1_iff)
  moreover have "2 * unat l mod 2 ^ 32 < (2 :: nat) ^ 32 - 1"
    using mult_mod_right [of 2 "unat l" "2 ^ 31"] mod_less_divisor [of "2 ^ 31" "unat l"] by simp
  ultimately show ?thesis by (simp only: u32_add u32_shl1) (cases q; simp)
qed

lemma u32_uint: "0 \<le> uint (x :: u32)" "uint x < 2 ^ 32" "(uint x = 0) = (x = 0)"
  using uint_lt2p [of x] by (simp_all add: uint_0_iff)

lemma u32_sint: "sint (x :: u32) = (if bit x 31 then uint x - 2 ^ 32 else uint x)"
proof -
  have "sint x = take_bit (Suc 31) (uint x) - 2 ^ Suc 31 * of_bool (bit (uint x) 31)"
    unfolding sint_uint by (simp only: signed_take_bit_eq_take_bit_minus) simp
  also have "take_bit (Suc 31) (uint x) = uint x"
    using u32_uint [of x] by (intro take_bit_int_eq_self) simp_all
  also have "bit (uint x) 31 = bit x 31" by (simp only: bit_uint_iff) simp
  finally show ?thesis by (simp only: power_Suc) simp
qed

lemma u32_uint_neg: "uint (- x :: u32) = (if x = 0 then 0 else 2 ^ 32 - uint x)"
proof -
  have "int (unat (- x)) = (if x = 0 then 0 else 2 ^ 32 - int (unat x))"
    unfolding u32_neg using u32_less [of x] by (simp only: of_nat_diff split: if_split) simp
  then show ?thesis by simp
qed

lemma u32_msb_ge: "bit (x :: u32) 31 = (2 ^ 31 \<le> unat x)"
proof -
  have "bit x 31 = bit (unat x) 31" using bit_imp_le_length [of x 31] by (auto simp: bit_unsigned_iff)
  also have "\<dots> = odd (unat x div 2 ^ 31)" by (rule bit_iff_odd)
  finally have "bit x 31 = odd (unat x div 2 ^ 31)" .
  moreover have "unat x div 2 ^ 31 < 2" using u32_less [of x] by (intro less_mult_imp_div_less) simp
  then have "unat x div 2 ^ 31 = 0 \<or> unat x div 2 ^ 31 = 1" by linarith
  then have "odd (unat x div 2 ^ 31) = (0 < unat x div 2 ^ 31)" by fastforce
  ultimately show ?thesis by (simp only: div_greater_zero_iff) simp
qed

lemma u32_sint_abs: "\<bar>sint (x :: u32)\<bar> = uint (if bit x 31 then - x else x)"
proof -
  have "x \<noteq> 0" if "bit x 31" using that by auto
  then show ?thesis using u32_uint [of x] by (auto simp: u32_sint u32_uint_neg)
qed

lemma u32_sint_sgn: "sgn (sint (x :: u32)) = (if bit x 31 then - 1 else if x = 0 then 0 else 1)"
proof -
  have "x \<noteq> 0 \<Longrightarrow> 0 < uint x" using u32_uint [of x] by (simp add: order_less_le)
  then show ?thesis using u32_uint [of x] by (auto simp: u32_sint sgn_if)
qed

end
