(* ===== verification/Flash.thy ===== *)
theory Flash
  imports Prelude
begin

text \<open>
  The external NOR flash: the abstract device interface of
  \<^verbatim>\<open>src/core/flash_device.hpp\<close> with its read-only default
  (\<^verbatim>\<open>FlatFlashRom\<close>), and the SST39VF command state machine of
  \<^verbatim>\<open>src/board/flash_sst39vf.{hpp,cpp}\<close>. The locale \<open>flash_port\<close> is the contract
  that the bus relies on when it bypasses the virtual read in read mode; the installed device
  (either class) satisfies it. The lemmas show that operations keep a device well formed, that
  memory changes only at the end of a complete unlock sequence, and that every altered sector
  is marked dirty.
\<close>

section \<open>Sizes and offsets\<close>

definition pow2_size :: "nat \<Rightarrow> bool" where
  "pow2_size n \<longleftrightarrow> (\<exists>k. n = 2 ^ k \<and> 12 \<le> k \<and> k \<le> 32)"

text \<open>\<open>offset &= size - 1; offset &= ~1\<close>: the byte offset of the halfword the chip decodes.\<close>

definition dev_offset :: "nat \<Rightarrow> u32 \<Rightarrow> u32" where
  "dev_offset n off = (off AND word_of_nat (n - 1)) AND NOT 1"

lemma unat_dev_offset:
  assumes "pow2_size n"
  shows "unat (dev_offset n off) = unat off mod n div 2 * 2"
proof -
  from assms obtain k where n: "n = 2 ^ k" by (auto simp: pow2_size_def)
  show ?thesis
    unfolding dev_offset_def n mask_of_pow2 and_not1 unat_align unat_and_mask by simp
qed

lemma even_floor_less: "(x :: nat) < n \<Longrightarrow> even n \<Longrightarrow> x div 2 * 2 + 1 < n"
  by presburger

lemma dev_offset_bound:
  assumes "pow2_size n"
  shows "unat (dev_offset n off) + 1 < n"
proof -
  from assms obtain k where n: "n = 2 ^ k" and k: "12 \<le> k" by (auto simp: pow2_size_def)
  then have "even n" and "0 < n" by auto
  have "unat off mod n < n" using \<open>0 < n\<close> by simp
  then have "unat off mod n div 2 * 2 + 1 < n" using \<open>even n\<close> by (rule even_floor_less)
  then show ?thesis by (simp add: unat_dev_offset [OF assms])
qed

lemma pow2_size_le: "pow2_size n \<Longrightarrow> n \<le> 2 ^ 32"
  using power_increasing [of _ 32 "2 :: nat"] by (auto simp: pow2_size_def)

lemma dev_offset_even_id:
  assumes "pow2_size n" "unat off < n" "even (unat off)"
  shows "dev_offset n off = off"
proof (rule unsigned_word_eqI)
  show "unat (dev_offset n off) = unat off"
    using assms(2,3) by (simp add: unat_dev_offset [OF assms(1)])
qed

section \<open>FlatFlashRom: the read-only default device\<close>

definition flat_create :: "nat \<Rightarrow> u8 list" where
  "flat_create bytes = replicate bytes 0xFF"

definition flat_read16 :: "u32 \<Rightarrow> u8 list \<Rightarrow> u16" where
  "flat_read16 offset m = le16 m (unat (dev_offset (length m) offset))"

definition flat_write16 :: "u32 \<Rightarrow> u16 \<Rightarrow> u8 list \<Rightarrow> u8 list" where
  "flat_write16 offset value m = m"

text \<open>\<open>memcpy\<close> of a loaded image; an image that does not fit is dropped silently.\<close>

definition copy_image :: "nat \<Rightarrow> u8 list \<Rightarrow> u8 list \<Rightarrow> u8 list" where
  "copy_image off data m = take off m @ data @ drop (off + length data) m"

definition flat_load_image :: "u32 \<Rightarrow> u8 list \<Rightarrow> u8 list \<Rightarrow> u8 list" where
  "flat_load_image offset data m =
     (if unat offset + length data > length m then m else copy_image (unat offset) data m)"

lemma length_copy_image [simp]: "off + length d \<le> length m \<Longrightarrow> length (copy_image off d m) = length m"
  by (simp add: copy_image_def)

lemma nth_copy_image:
  assumes "off + length d \<le> length m" "i < length m"
  shows "copy_image off d m ! i = (if off \<le> i \<and> i < off + length d then d ! (i - off) else m ! i)"
  using assms by (auto simp: copy_image_def nth_append min_def)

section \<open>Sst39vf: state\<close>

datatype flash_state = Normal | Enter1 | Enter2 | Enter3 | Enter4 | Enter5
  | SoftwareId | CfiQuery | WordProgram

text \<open>
  \<open>on_dirty\<close> says whether a dirty callback is installed; \<open>dirty_events\<close> lists the sector
  numbers it was called with, in order.
\<close>

record sst39vf =
  fmem :: "u8 list"
  fdirty :: "bool list"
  fstate :: flash_state
  mfr_id :: u16
  dev_id :: u16
  cfi_device_size :: u8
  cfi_sector_count :: u16
  cfi_block_count :: u16
  on_dirty :: bool
  dirty_events :: "u32 list"

abbreviation (input) SECTOR_SIZE :: nat where "SECTOR_SIZE \<equiv> 4096"
abbreviation (input) BLOCK_SIZE :: nat where "BLOCK_SIZE \<equiv> 65536"
abbreviation (input) CMD_ADDR_1 :: u32 where "CMD_ADDR_1 \<equiv> 0x5555"
abbreviation (input) CMD_ADDR_2 :: u32 where "CMD_ADDR_2 \<equiv> 0x2AAA"

definition is_power_of_two :: "nat \<Rightarrow> bool" where
  "is_power_of_two n \<longleftrightarrow> n \<noteq> 0 \<and> n AND (n - 1) = 0"

function log2_loop :: "nat \<Rightarrow> nat \<Rightarrow> nat" where
  "log2_loop b n = (if 2 ^ b < n then log2_loop (b + 1) n else b)"
  by pat_completeness auto
termination
proof (relation "measure (\<lambda>(b, n). n - b)")
  fix b n :: nat
  assume "2 ^ b < n"
  moreover have "b < 2 ^ b" by (rule less_exp)
  ultimately have "b < n" by linarith
  then show "((b + 1, n), (b, n)) \<in> measure (\<lambda>(b, n). n - b)" by simp
qed simp

declare log2_loop.simps [simp del]

definition log2_size :: "nat \<Rightarrow> u8" where
  "log2_size n = word_of_nat (log2_loop 0 n)"

datatype flash_error = InvalidArgument | OutOfRange

definition sst_create :: "nat \<Rightarrow> flash_error + sst39vf" where
  "sst_create mem_size =
     (if \<not> is_power_of_two mem_size \<or> mem_size < SECTOR_SIZE then Inl InvalidArgument
      else Inr \<lparr> fmem = replicate mem_size 0xFF,
        fdirty = replicate (mem_size div SECTOR_SIZE) False,
        fstate = Normal,
        mfr_id = 0x00BF,
        dev_id = (if mem_size = 0x80000 then 0x2780
                  else if mem_size = 0x100000 then 0x2781
                  else if mem_size = 0x200000 then 0x2782 else 0x2780),
        cfi_device_size = log2_size mem_size,
        cfi_sector_count = word_of_int (int (mem_size div SECTOR_SIZE) - 1),
        cfi_block_count = word_of_int (int (mem_size div BLOCK_SIZE) - 1),
        on_dirty = False, dirty_events = [] \<rparr>)"

definition sst_for_min_bytes :: "nat \<Rightarrow> flash_error + sst39vf" where
  "sst_for_min_bytes min_bytes = sst_create (if min_bytes \<le> 0x80000 then 0x80000 else 0x200000)"

definition sst_reset :: "sst39vf \<Rightarrow> sst39vf" where
  "sst_reset f = f\<lparr>fstate := Normal\<rparr>"

section \<open>Sst39vf: reads\<close>

text \<open>The CFI table from halfword address 0x10 on; 0x27, 0x2D, 0x2E, 0x31, 0x32 are geometry.\<close>

definition cfi_query :: "u32 \<Rightarrow> sst39vf \<Rightarrow> u16" where
  "cfi_query a f =
    (if a = 0x10 then 0x0051 else if a = 0x11 then 0x0052 else if a = 0x12 then 0x0059
     else if a = 0x13 then 0x0001 else if a = 0x14 then 0x0007 else if a = 0x15 then 0x0000
     else if a = 0x16 then 0x0000 else if a = 0x17 then 0x0000 else if a = 0x18 then 0x0000
     else if a = 0x19 then 0x0000 else if a = 0x1A then 0x0000
     else if a = 0x1B then 0x0027 else if a = 0x1C then 0x0036 else if a = 0x1D then 0x0000
     else if a = 0x1E then 0x0000 else if a = 0x1F then 0x0004 else if a = 0x20 then 0x0000
     else if a = 0x21 then 0x0004 else if a = 0x22 then 0x0006 else if a = 0x23 then 0x0001
     else if a = 0x24 then 0x0000 else if a = 0x25 then 0x0001 else if a = 0x26 then 0x0001
     else if a = 0x27 then ucast (cfi_device_size f)
     else if a = 0x28 then 0x0001 else if a = 0x29 then 0x0000 else if a = 0x2A then 0x0000
     else if a = 0x2B then 0x0000 else if a = 0x2C then 0x0002
     else if a = 0x2D then cfi_sector_count f AND 0x00FF
     else if a = 0x2E then drop_bit 8 (cfi_sector_count f) AND 0x00FF
     else if a = 0x2F then 0x0010 else if a = 0x30 then 0x0000
     else if a = 0x31 then cfi_block_count f AND 0x00FF
     else if a = 0x32 then drop_bit 8 (cfi_block_count f) AND 0x00FF
     else if a = 0x33 then 0x0000 else if a = 0x34 then 0x0001
     else 0x0000)"

definition software_id :: "u32 \<Rightarrow> sst39vf \<Rightarrow> u16" where
  "software_id a f = (if a = 0 then mfr_id f else if a = 1 then dev_id f else 0x0000)"

definition sst_read16 :: "u32 \<Rightarrow> sst39vf \<Rightarrow> u16" where
  "sst_read16 off f =
    (let offset = dev_offset (length (fmem f)) off
     in case fstate f of
          CfiQuery \<Rightarrow> cfi_query (drop_bit 1 offset) f
        | SoftwareId \<Rightarrow> software_id (drop_bit 1 offset) f
        | _ \<Rightarrow> le16 (fmem f) (unat offset))"

definition sst_read8 :: "u32 \<Rightarrow> sst39vf \<Rightarrow> u8" where
  "sst_read8 off f =
    (let hw = sst_read16 (off AND NOT 1) f
     in if off AND 1 \<noteq> 0 then ucast (drop_bit 8 hw) else ucast hw)"

section \<open>Sst39vf: dirty tracking\<close>

definition mark_sector :: "nat \<Rightarrow> sst39vf \<Rightarrow> sst39vf" where
  "mark_sector s f =
    (if \<not> fdirty f ! s
     then f\<lparr>fdirty := (fdirty f)[s := True],
            dirty_events := dirty_events f @ (if on_dirty f then [word_of_nat s] else [])\<rparr>
     else f)"

text \<open>The loop \<open>for (s = start; s <= end && s < dirty_.size(); ++s)\<close>.\<close>

definition mark_dirty :: "u32 \<Rightarrow> nat \<Rightarrow> sst39vf \<Rightarrow> sst39vf" where
  "mark_dirty byte_offset span f =
    (if fmem f = [] then f
     else let start = unat byte_offset div SECTOR_SIZE;
              last_byte = byte_offset + word_of_nat span - 1;
              end = unat last_byte div SECTOR_SIZE
          in fold mark_sector [start ..< min (end + 1) (length (fdirty f))] f)"

definition any_dirty :: "sst39vf \<Rightarrow> bool" where
  "any_dirty f \<longleftrightarrow> (\<exists>b \<in> set (fdirty f). b)"

definition is_sector_dirty :: "u32 \<Rightarrow> sst39vf \<Rightarrow> bool" where
  "is_sector_dirty s f \<longleftrightarrow> unat s < length (fdirty f) \<and> fdirty f ! unat s"

definition clear_dirty :: "sst39vf \<Rightarrow> sst39vf" where
  "clear_dirty f = f\<lparr>fdirty := replicate (length (fdirty f)) False\<rparr>"

definition dirty_sectors :: "sst39vf \<Rightarrow> nat list" where
  "dirty_sectors f = filter (\<lambda>i. fdirty f ! i) [0 ..< length (fdirty f)]"

section \<open>Sst39vf: the command state machine\<close>

definition erase_range :: "u32 \<Rightarrow> nat \<Rightarrow> sst39vf \<Rightarrow> sst39vf" where
  "erase_range base n f = mark_dirty base n (f\<lparr>fmem := fill_range (fmem f) (unat base) n 0xFF\<rparr>)"

definition chip_erase :: "sst39vf \<Rightarrow> sst39vf" where
  "chip_erase f = f\<lparr>fmem := map (\<lambda>_. 0xFF) (fmem f), fdirty := map (\<lambda>_. True) (fdirty f),
     dirty_events := dirty_events f @
       (if on_dirty f then map word_of_nat [0 ..< length (fdirty f)] else [])\<rparr>"

text \<open>The sixth write of an erase sequence: chip (0x10), sector (0x30) or block (0x50) erase.\<close>

definition erase_command :: "u32 \<Rightarrow> u8 \<Rightarrow> sst39vf \<Rightarrow> sst39vf" where
  "erase_command offset cmd f =
    (if cmd = 0x10 then (if drop_bit 1 offset = CMD_ADDR_1 then chip_erase f else f)
     else if cmd = 0x30 then erase_range (offset AND NOT 0xFFF) SECTOR_SIZE f
     else if cmd = 0x50 then erase_range (offset AND NOT 0xFFFF) BLOCK_SIZE f
     else f)"

definition sst_write16 :: "u32 \<Rightarrow> u16 \<Rightarrow> sst39vf \<Rightarrow> sst39vf" where
  "sst_write16 off data f =
    (let offset = dev_offset (length (fmem f)) off;
         hw_addr = drop_bit 1 offset;
         cmd = (ucast data :: u8)
     in if fstate f \<noteq> WordProgram \<and> cmd = 0xF0 then f\<lparr>fstate := Normal\<rparr>
        else case fstate f of
          Normal \<Rightarrow> if hw_addr = CMD_ADDR_1 \<and> cmd = 0xAA then f\<lparr>fstate := Enter1\<rparr> else f
        | Enter1 \<Rightarrow> if hw_addr = CMD_ADDR_2 \<and> cmd = 0x55
                    then f\<lparr>fstate := Enter2\<rparr> else f\<lparr>fstate := Normal\<rparr>
        | Enter2 \<Rightarrow>
            (if hw_addr = CMD_ADDR_1 then
               (if cmd = 0x80 then f\<lparr>fstate := Enter3\<rparr>
                else if cmd = 0x90 then f\<lparr>fstate := SoftwareId\<rparr>
                else if cmd = 0x98 then f\<lparr>fstate := CfiQuery\<rparr>
                else if cmd = 0xA0 then f\<lparr>fstate := WordProgram\<rparr>
                else f\<lparr>fstate := Normal\<rparr>)
             else f\<lparr>fstate := Normal\<rparr>)
        | Enter3 \<Rightarrow> if hw_addr = CMD_ADDR_1 \<and> cmd = 0xAA
                    then f\<lparr>fstate := Enter4\<rparr> else f\<lparr>fstate := Normal\<rparr>
        | Enter4 \<Rightarrow> if hw_addr = CMD_ADDR_2 \<and> cmd = 0x55
                    then f\<lparr>fstate := Enter5\<rparr> else f\<lparr>fstate := Normal\<rparr>
        | Enter5 \<Rightarrow> (erase_command offset cmd f)\<lparr>fstate := Normal\<rparr>
        | SoftwareId \<Rightarrow> f
        | CfiQuery \<Rightarrow> f
        | WordProgram \<Rightarrow>
            (mark_dirty offset 2 (f\<lparr>fmem := put_le16 (fmem f) (unat offset) data\<rparr>))\<lparr>fstate := Normal\<rparr>)"

definition sst_load_image :: "u32 \<Rightarrow> u8 list \<Rightarrow> sst39vf \<Rightarrow> flash_error + sst39vf" where
  "sst_load_image offset data f =
    (if unat offset + length data > length (fmem f) then Inl OutOfRange
     else Inr (f\<lparr>fmem := copy_image (unat offset) data (fmem f)\<rparr>))"

section \<open>Frame facts\<close>

definition sst_wf :: "sst39vf \<Rightarrow> bool" where
  "sst_wf f \<longleftrightarrow> pow2_size (length (fmem f)) \<and> length (fdirty f) = length (fmem f) div SECTOR_SIZE"

lemma mark_sector_fields [simp]:
  "fmem (mark_sector s f) = fmem f" "fstate (mark_sector s f) = fstate f"
  "length (fdirty (mark_sector s f)) = length (fdirty f)"
  by (simp_all add: mark_sector_def)

lemma nth_mark_sector:
  "i < length (fdirty f) \<Longrightarrow> fdirty (mark_sector s f) ! i = (fdirty f ! i \<or> i = s)"
  by (cases "i = s") (auto simp: mark_sector_def)

lemma fold_mark_fields [simp]:
  "fmem (fold mark_sector ss f) = fmem f" "fstate (fold mark_sector ss f) = fstate f"
  "length (fdirty (fold mark_sector ss f)) = length (fdirty f)"
  by (induction ss arbitrary: f) simp_all

lemma nth_fold_mark:
  "i < length (fdirty f) \<Longrightarrow> fdirty (fold mark_sector ss f) ! i = (fdirty f ! i \<or> i \<in> set ss)"
  by (induction ss arbitrary: f) (auto simp: nth_mark_sector)

lemma mark_dirty_fields [simp]:
  "fmem (mark_dirty b n f) = fmem f" "fstate (mark_dirty b n f) = fstate f"
  "length (fdirty (mark_dirty b n f)) = length (fdirty f)"
  by (simp_all add: mark_dirty_def Let_def)

lemma nth_mark_dirty:
  assumes "i < length (fdirty f)" "fmem f \<noteq> []" "0 < n" "unat b + n \<le> 2 ^ 32"
  shows "fdirty (mark_dirty b n f) ! i =
    (fdirty f ! i \<or> unat b div SECTOR_SIZE \<le> i \<and> i \<le> (unat b + n - 1) div SECTOR_SIZE)"
proof -
  have "unat (b + word_of_nat n - 1) = unat b + n - 1"
  proof -
    have eq: "b + word_of_nat n - 1 = (word_of_nat (unat b + n - 1) :: u32)"
      using assms(3) by (simp add: of_nat_diff)
    have "unat (word_of_nat (unat b + n - 1) :: u32) = unat b + n - 1"
      by (subst unat_of_nat, rule mod_less) (use assms(3,4) in simp)
    then show ?thesis by (simp only: eq)
  qed
  then show ?thesis
    using assms(1,2) by (auto simp: mark_dirty_def Let_def nth_fold_mark simp del: One_nat_def)
qed

lemma erase_range_fields [simp]:
  "fstate (erase_range b n f) = fstate f"
  "length (fdirty (erase_range b n f)) = length (fdirty f)"
  "fmem (erase_range b n f) = fill_range (fmem f) (unat b) n 0xFF"
  by (simp_all add: erase_range_def)

lemma erase_command_fields [simp]:
  "fstate (erase_command off c f) = fstate f"
  "length (fmem (erase_command off c f)) = length (fmem f)"
  "length (fdirty (erase_command off c f)) = length (fdirty f)"
  by (simp_all add: erase_command_def chip_erase_def)

lemma sst_write16_lengths [simp]:
  "length (fmem (sst_write16 a d f)) = length (fmem f)"
  "length (fdirty (sst_write16 a d f)) = length (fdirty f)"
  by (cases "fstate f"; simp add: sst_write16_def Let_def)+

lemma sst_wf_write16 [simp]: "sst_wf (sst_write16 a d f) = sst_wf f"
  by (simp add: sst_wf_def)

definition sst_run :: "(u32 \<times> u16) list \<Rightarrow> sst39vf \<Rightarrow> sst39vf" where
  "sst_run ws f = fold (\<lambda>(a, d). sst_write16 a d) ws f"

lemma sst_run_simps [simp]:
  "sst_run [] f = f" "sst_run ((a, d) # ws) f = sst_run ws (sst_write16 a d f)"
  "sst_run (ws @ vs) f = sst_run vs (sst_run ws f)"
  by (simp_all add: sst_run_def)

lemma sst_run_lengths [simp]:
  "length (fmem (sst_run ws f)) = length (fmem f)"
  "length (fdirty (sst_run ws f)) = length (fdirty f)"
  by (induction ws arbitrary: f) auto

lemma sst_wf_run [simp]: "sst_wf (sst_run ws f) = sst_wf f"
  by (simp add: sst_wf_def)

section \<open>Memory changes only behind an unlock sequence\<close>

definition is_cmd :: "nat \<Rightarrow> u32 \<times> u8 \<Rightarrow> u32 \<times> u16 \<Rightarrow> bool" where
  "is_cmd n p w \<longleftrightarrow> drop_bit 1 (dev_offset n (fst w)) = fst p \<and> ucast (snd w) = snd p"

definition ends_with :: "nat \<Rightarrow> (u32 \<times> u8) list \<Rightarrow> (u32 \<times> u16) list \<Rightarrow> bool" where
  "ends_with n pat ws \<longleftrightarrow> length pat \<le> length ws
     \<and> list_all2 (is_cmd n) pat (drop (length ws - length pat) ws)"

lemma ends_with_Nil [simp]: "ends_with n [] ws"
  by (simp add: ends_with_def)

lemma ends_with_snoc [simp]:
  "ends_with n (pat @ [p]) (ws @ [w]) = (ends_with n pat ws \<and> is_cmd n p w)"
proof (cases "length pat \<le> length ws")
  case True
  then have "drop (length ws - length pat) (ws @ [w]) = drop (length ws - length pat) ws @ [w]"
    by simp
  with True show ?thesis
    by (auto simp: ends_with_def list_all2_append)
next
  case False
  then show ?thesis by (simp add: ends_with_def)
qed

definition unlock1 :: "(u32 \<times> u8) list" where "unlock1 = [] @ [(CMD_ADDR_1, 0xAA)]"
definition unlock2 :: "(u32 \<times> u8) list" where "unlock2 = unlock1 @ [(CMD_ADDR_2, 0x55)]"
definition program_prefix :: "(u32 \<times> u8) list" where
  "program_prefix = unlock2 @ [(CMD_ADDR_1, 0xA0)]"
definition erase_setup :: "(u32 \<times> u8) list" where "erase_setup = unlock2 @ [(CMD_ADDR_1, 0x80)]"
definition erase_unlock1 :: "(u32 \<times> u8) list" where
  "erase_unlock1 = erase_setup @ [(CMD_ADDR_1, 0xAA)]"
definition erase_prefix :: "(u32 \<times> u8) list" where
  "erase_prefix = erase_unlock1 @ [(CMD_ADDR_2, 0x55)]"

lemma ends_prefix_snoc:
  "ends_with n unlock1 (ws @ [w]) = is_cmd n (CMD_ADDR_1, 0xAA) w"
  "ends_with n unlock2 (ws @ [w]) = (ends_with n unlock1 ws \<and> is_cmd n (CMD_ADDR_2, 0x55) w)"
  "ends_with n program_prefix (ws @ [w]) = (ends_with n unlock2 ws \<and> is_cmd n (CMD_ADDR_1, 0xA0) w)"
  "ends_with n erase_setup (ws @ [w]) = (ends_with n unlock2 ws \<and> is_cmd n (CMD_ADDR_1, 0x80) w)"
  "ends_with n erase_unlock1 (ws @ [w]) = (ends_with n erase_setup ws \<and> is_cmd n (CMD_ADDR_1, 0xAA) w)"
  "ends_with n erase_prefix (ws @ [w]) = (ends_with n erase_unlock1 ws \<and> is_cmd n (CMD_ADDR_2, 0x55) w)"
  by (simp_all only: unlock1_def unlock2_def program_prefix_def erase_setup_def erase_unlock1_def
    erase_prefix_def ends_with_snoc ends_with_Nil simp_thms)

fun state_prefix :: "flash_state \<Rightarrow> (u32 \<times> u8) list" where
  "state_prefix Enter1 = unlock1"
| "state_prefix Enter2 = unlock2"
| "state_prefix Enter3 = erase_setup"
| "state_prefix Enter4 = erase_unlock1"
| "state_prefix Enter5 = erase_prefix"
| "state_prefix WordProgram = program_prefix"
| "state_prefix _ = []"

lemma sst_state_prefix:
  assumes "fstate f = Normal"
  shows "ends_with (length (fmem f)) (state_prefix (fstate (sst_run ws f))) ws"
proof (induction ws rule: rev_induct)
  case Nil
  with assms show ?case by simp
next
  case (snoc w ws)
  obtain a d where w: "w = (a, d)" by (cases w)
  show ?case
    using snoc
    by (cases "fstate (sst_run ws f)")
       (auto simp: w sst_write16_def Let_def is_cmd_def ends_prefix_snoc split: if_splits)
qed

lemma sst_write16_mem:
  assumes "fmem (sst_write16 a d f) \<noteq> fmem f"
  shows "fstate f = WordProgram \<or> fstate f = Enter5"
  using assms by (cases "fstate f") (auto simp: sst_write16_def Let_def split: if_splits)

text \<open>
  C26: from Normal mode, a write changes device memory only when the writes just before it are
  the three-write program unlock (AA, 55, A0) or the five-write erase unlock (AA, 55, 80, AA, 55).
\<close>
theorem flash_change_needs_unlock:
  assumes "fstate f = Normal"
      and "fmem (sst_write16 a d (sst_run ws f)) \<noteq> fmem (sst_run ws f)"
  shows "ends_with (length (fmem f)) program_prefix ws \<or> ends_with (length (fmem f)) erase_prefix ws"
proof -
  from assms(2) have "fstate (sst_run ws f) = WordProgram \<or> fstate (sst_run ws f) = Enter5"
    by (rule sst_write16_mem)
  then show ?thesis using sst_state_prefix [OF assms(1), of ws] by auto
qed

section \<open>Every altered sector is dirty\<close>

text \<open>\<open>dirty_covers m f\<close>: every byte that differs from \<open>m\<close> lies in a sector marked dirty.\<close>

definition dirty_covers :: "u8 list \<Rightarrow> sst39vf \<Rightarrow> bool" where
  "dirty_covers m f \<longleftrightarrow>
    (\<forall>i < length (fmem f). fmem f ! i \<noteq> m ! i \<longrightarrow> fdirty f ! (i div SECTOR_SIZE))"

lemma sector_index_bound:
  assumes "sst_wf f" "i < length (fmem f)"
  shows "i div SECTOR_SIZE < length (fdirty f)"
proof -
  from assms(1) obtain k where k: "length (fmem f) = 2 ^ k" "12 \<le> k"
    and d: "length (fdirty f) = length (fmem f) div 4096"
    by (auto simp: sst_wf_def pow2_size_def)
  have "(2 :: nat) ^ k = 2 ^ (k - 12) * 2 ^ 12"
    using k(2) by (metis le_add_diff_inverse2 power_add)
  then have "length (fmem f) = length (fdirty f) * 4096" using k(1) d by simp
  then show ?thesis using assms(2) by (simp add: less_mult_imp_div_less)
qed

lemma sst_wf_nonempty: "sst_wf f \<Longrightarrow> fmem f \<noteq> []"
  by (auto simp: sst_wf_def pow2_size_def)

lemma dirty_covers_mark:
  assumes wf: "sst_wf f" and len: "length m' = length (fmem f)"
    and cov: "dirty_covers m0 f" and n: "0 < n" "unat b + n \<le> 2 ^ 32"
    and eq: "\<And>i. i < length (fmem f) \<Longrightarrow> i < unat b \<or> unat b + n \<le> i \<Longrightarrow> m' ! i = fmem f ! i"
  shows "dirty_covers m0 (mark_dirty b n (f\<lparr>fmem := m'\<rparr>))"
  unfolding dirty_covers_def
proof (intro allI impI)
  let ?f = "f\<lparr>fmem := m'\<rparr>"
  fix i assume "i < length (fmem (mark_dirty b n ?f))"
    and ne: "fmem (mark_dirty b n ?f) ! i \<noteq> m0 ! i"
  then have i: "i < length (fmem f)" using len by simp
  then have s: "i div SECTOR_SIZE < length (fdirty ?f)" using sector_index_bound [OF wf] by simp
  have ne0: "fmem ?f \<noteq> []" using sst_wf_nonempty [OF wf] len by auto
  note mark = nth_mark_dirty [OF s ne0 n]
  show "fdirty (mark_dirty b n ?f) ! (i div SECTOR_SIZE)"
  proof (cases "unat b \<le> i \<and> i < unat b + n")
    case True
    then show ?thesis unfolding mark by (auto intro!: div_le_mono)
  next
    case False
    then have "fmem f ! i \<noteq> m0 ! i" using ne eq [OF i] by auto
    then show ?thesis using cov i unfolding mark dirty_covers_def by simp
  qed
qed

lemma dirty_covers_state [simp]: "dirty_covers m (f\<lparr>fstate := s\<rparr>) = dirty_covers m f"
  by (simp add: dirty_covers_def)

lemma dirty_covers_erase:
  assumes "sst_wf f" "dirty_covers m f" "0 < n" "unat b + n \<le> 2 ^ 32"
  shows "dirty_covers m (erase_range b n f)"
  unfolding erase_range_def
  by (rule dirty_covers_mark [OF assms(1) _ assms(2-4)]) auto

lemma dirty_covers_chip: "sst_wf f \<Longrightarrow> dirty_covers m (chip_erase f)"
  using sector_index_bound [of f] by (auto simp: dirty_covers_def chip_erase_def)

lemma dirty_covers_command:
  assumes "sst_wf f" "dirty_covers m f"
  shows "dirty_covers m (erase_command off c f)"
  using assms align_room [of 12 off] align_room [of 16 off]
  by (auto simp: erase_command_def mask_literals dirty_covers_chip intro!: dirty_covers_erase)

lemma dirty_covers_program:
  assumes wf: "sst_wf f" and cov: "dirty_covers m f"
  shows "dirty_covers m (mark_dirty (dev_offset (length (fmem f)) a) 2
           (f\<lparr>fmem := put_le16 (fmem f) (unat (dev_offset (length (fmem f)) a)) d\<rparr>))"
proof (rule dirty_covers_mark [OF wf _ cov])
  let ?o = "dev_offset (length (fmem f)) a"
  show "length (put_le16 (fmem f) (unat ?o) d) = length (fmem f)" by simp
  have p: "pow2_size (length (fmem f))" using wf by (simp add: sst_wf_def)
  then have "length (fmem f) \<le> 2 ^ 32" by (rule pow2_size_le)
  then show "unat ?o + 2 \<le> 2 ^ 32" using dev_offset_bound [OF p, of a] by linarith
  show "put_le16 (fmem f) (unat ?o) d ! i = fmem f ! i" if "i < unat ?o \<or> unat ?o + 2 \<le> i" for i
    using that by (intro put_le16_other) auto
qed simp

lemma dirty_covers_write16:
  assumes "sst_wf f" "dirty_covers m f"
  shows "dirty_covers m (sst_write16 a d f)"
  using assms by (cases "fstate f")
    (auto simp: sst_write16_def Let_def dirty_covers_command dirty_covers_program)

lemma dirty_covers_run:
  "sst_wf f \<Longrightarrow> dirty_covers m f \<Longrightarrow> dirty_covers m (sst_run ws f)"
  by (induction ws arbitrary: f) (auto simp: dirty_covers_write16)

text \<open>
  C1: after the dirty bits are cleared, any run of halfword writes that leaves some byte
  different from its old value leaves the sector of that byte marked dirty, so a writeback
  of the dirty sectors loses nothing.
\<close>
theorem flash_dirty_sound:
  assumes "sst_wf f" "i < length (fmem f)"
      and "fmem (sst_run ws (clear_dirty f)) ! i \<noteq> fmem f ! i"
  shows "is_sector_dirty (word_of_nat (i div SECTOR_SIZE)) (sst_run ws (clear_dirty f))"
proof -
  let ?g = "clear_dirty f"
  have wf: "sst_wf ?g" and len: "length (fmem ?g) = length (fmem f)"
    using assms(1) by (auto simp: clear_dirty_def sst_wf_def)
  have "dirty_covers (fmem f) ?g" by (simp add: dirty_covers_def clear_dirty_def)
  then have cov: "dirty_covers (fmem f) (sst_run ws ?g)" using wf by (rule dirty_covers_run [rotated])
  have s: "i div SECTOR_SIZE < length (fdirty (sst_run ws ?g))"
    using sector_index_bound [OF wf] assms(2) len by simp
  have "length (fmem f) \<le> 2 ^ 32"
    using assms(1) by (simp only: sst_wf_def pow2_size_le)
  then have "unat (word_of_nat (i div SECTOR_SIZE) :: u32) = i div SECTOR_SIZE"
    using assms(2) by (subst unat_of_nat, intro mod_less) auto
  then show ?thesis
    using cov s assms(2,3) len by (simp add: is_sector_dirty_def dirty_covers_def)
qed

section \<open>Functional behaviour of the command sequences\<close>

definition cmd_addr :: "u32 \<Rightarrow> u32" where "cmd_addr a = push_bit 1 a"

definition program_word :: "u32 \<Rightarrow> u16 \<Rightarrow> (u32 \<times> u16) list" where
  "program_word a d = [(cmd_addr CMD_ADDR_1, 0xAA), (cmd_addr CMD_ADDR_2, 0x55),
     (cmd_addr CMD_ADDR_1, 0xA0), (a, d)]"

definition erase_sequence :: "u32 \<Rightarrow> u16 \<Rightarrow> (u32 \<times> u16) list" where
  "erase_sequence a c = [(cmd_addr CMD_ADDR_1, 0xAA), (cmd_addr CMD_ADDR_2, 0x55),
     (cmd_addr CMD_ADDR_1, 0x80), (cmd_addr CMD_ADDR_1, 0xAA), (cmd_addr CMD_ADDR_2, 0x55), (a, c)]"

lemma cmd_addr_decode:
  assumes "pow2_size n" "2 ^ 16 \<le> n"
  shows "drop_bit 1 (dev_offset n (cmd_addr CMD_ADDR_1)) = CMD_ADDR_1"
    and "drop_bit 1 (dev_offset n (cmd_addr CMD_ADDR_2)) = CMD_ADDR_2"
proof -
  have "dev_offset n (cmd_addr CMD_ADDR_1) = cmd_addr CMD_ADDR_1"
    and "dev_offset n (cmd_addr CMD_ADDR_2) = cmd_addr CMD_ADDR_2"
    using assms by (auto simp: cmd_addr_def intro!: dev_offset_even_id)
  then show "drop_bit 1 (dev_offset n (cmd_addr CMD_ADDR_1)) = CMD_ADDR_1"
    and "drop_bit 1 (dev_offset n (cmd_addr CMD_ADDR_2)) = CMD_ADDR_2"
    by (simp_all add: cmd_addr_def)
qed

lemma run_program_unlock:
  assumes "sst_wf f" "2 ^ 16 \<le> length (fmem f)" "fstate f = Normal"
  shows "sst_run (program_word a d) f = sst_write16 a d (f\<lparr>fstate := WordProgram\<rparr>)"
  using assms cmd_addr_decode [of "length (fmem f)"]
  by (simp add: program_word_def sst_wf_def sst_write16_def Let_def)

lemma run_erase_unlock:
  assumes "sst_wf f" "2 ^ 16 \<le> length (fmem f)" "fstate f = Normal"
  shows "sst_run (erase_sequence a c) f = sst_write16 a c (f\<lparr>fstate := Enter5\<rparr>)"
  using assms cmd_addr_decode [of "length (fmem f)"]
  by (simp add: erase_sequence_def sst_wf_def sst_write16_def Let_def)

lemma sst_program:
  assumes "sst_wf f" "2 ^ 16 \<le> length (fmem f)" "fstate f = Normal"
  shows "fstate (sst_run (program_word a d) f) = Normal"
    and "fmem (sst_run (program_word a d) f) =
      put_le16 (fmem f) (unat (dev_offset (length (fmem f)) a)) d"
  by (simp_all add: run_program_unlock [OF assms] sst_write16_def Let_def)

text \<open>
  The four-write Word-Program sequence from Normal mode stores the halfword at the decoded
  offset, changes nothing else, returns to Normal mode, and the word reads back.
\<close>
theorem flash_program_word:
  assumes "sst_wf f" "2 ^ 16 \<le> length (fmem f)" "fstate f = Normal"
  shows "fstate (sst_run (program_word a d) f) = Normal
    \<and> fmem (sst_run (program_word a d) f)
        = put_le16 (fmem f) (unat (dev_offset (length (fmem f)) a)) d
    \<and> sst_read16 a (sst_run (program_word a d) f) = d"
proof -
  have "pow2_size (length (fmem f))" using assms(1) by (simp add: sst_wf_def)
  note bound = dev_offset_bound [OF this, of a]
  show ?thesis
    using bound by (simp add: sst_program [OF assms] sst_read16_def Let_def)
qed

lemma unat_align12: "unat ((w :: u32) AND NOT 0xFFF) = unat w div 4096 * 4096"
  and unat_align16: "unat ((w :: u32) AND NOT 0xFFFF) = unat w div 65536 * 65536"
  unfolding mask_literals unat_align by simp_all

lemmas unat_align_neg = unat_align12 [simplified] unat_align16 [simplified]

lemma sst_erase:
  assumes "sst_wf f" "2 ^ 16 \<le> length (fmem f)" "fstate f = Normal"
  shows "fstate (sst_run (erase_sequence a c) f) = Normal"
    and "fmem (sst_run (erase_sequence a 0x30) f) =
      fill_range (fmem f) (unat (dev_offset (length (fmem f)) a) div 4096 * 4096) SECTOR_SIZE 0xFF"
    and "fmem (sst_run (erase_sequence a 0x50) f) =
      fill_range (fmem f) (unat (dev_offset (length (fmem f)) a) div 65536 * 65536) BLOCK_SIZE 0xFF"
  by (simp_all add: run_erase_unlock [OF assms] sst_write16_def Let_def erase_command_def
    unat_align_neg)

lemma block_range:
  "(x * 4096 \<le> i \<and> i < x * 4096 + 4096) = (i div 4096 = (x :: nat))"
  "(x * 65536 \<le> i \<and> i < x * 65536 + 65536) = (i div 65536 = (x :: nat))"
  by linarith+

text \<open>
  The six-write Sector-Erase (0x30, 4 KB) and Block-Erase (0x50, 64 KB) sequences set exactly
  the bytes of the addressed sector or block to 0xFF and return to Normal mode.
\<close>
theorem flash_erase_exact:
  assumes "sst_wf f" "2 ^ 16 \<le> length (fmem f)" "fstate f = Normal" "i < length (fmem f)"
      and "c = 0x30 \<and> n = SECTOR_SIZE \<or> c = 0x50 \<and> n = BLOCK_SIZE"
  shows "fstate (sst_run (erase_sequence a c) f) = Normal
    \<and> fmem (sst_run (erase_sequence a c) f) ! i =
        (if i div n = unat (dev_offset (length (fmem f)) a) div n then 0xFF else fmem f ! i)"
  using assms(5)
proof (elim disjE conjE)
  assume "c = 0x30" "n = SECTOR_SIZE"
  then show ?thesis
    by (simp only: sst_erase [OF assms(1-3)] nth_fill_range [OF assms(4)] block_range simp_thms)
next
  assume "c = 0x50" "n = BLOCK_SIZE"
  then show ?thesis
    by (simp only: sst_erase [OF assms(1-3)] nth_fill_range [OF assms(4)] block_range simp_thms)
qed

lemma pow2_trick: "n \<noteq> 0 \<Longrightarrow> n AND (n - 1) = 0 \<Longrightarrow> \<exists>k. n = (2 :: nat) ^ k"
proof (induction n rule: less_induct)
  case (less n)
  show ?case
  proof (cases "even n")
    case True
    then obtain m where m: "n = 2 * m" by blast
    with less.prems have "m \<noteq> 0" by simp
    then have "(n - 1) div 2 = m - 1" and "odd (n - 1)" using m by presburger+
    then have "m AND (m - 1) = 0" using less.prems(2) m and_rec [of n "n - 1"] by simp
    then obtain k where "m = 2 ^ k" using less.IH [of m] m \<open>m \<noteq> 0\<close> by auto
    then have "n = 2 ^ Suc k" using m by simp
    then show ?thesis by blast
  next
    case False
    then obtain m where m: "n = 2 * m + 1" by (rule oddE)
    then have "m AND m = 0" using less.prems(2) and_rec [of n "n - 1"] by simp
    then have "n = 2 ^ 0" using m by simp
    then show ?thesis by blast
  qed
qed

lemma log2_loop_pow2: "b \<le> k \<Longrightarrow> log2_loop b (2 ^ k) = k"
proof (induction "k - b" arbitrary: b)
  case 0
  then show ?case by (subst log2_loop.simps) simp
next
  case (Suc d)
  then have "2 ^ b < (2 :: nat) ^ k" by (intro power_strict_increasing) auto
  with Suc show ?case by (subst log2_loop.simps) simp
qed

lemma sst_create_size:
  assumes "sst_create n = Inr f"
  obtains k where "n = 2 ^ k" "12 \<le> k"
proof -
  from assms have n: "is_power_of_two n" "\<not> n < 4096" by (auto simp: sst_create_def split: if_splits)
  then obtain k where k: "n = 2 ^ k" using pow2_trick [of n] by (auto simp: is_power_of_two_def)
  then have "(2 :: nat) ^ 12 \<le> 2 ^ k" using n(2) by simp
  then have "12 \<le> k" by (rule power_le_imp_le_exp [rotated]) simp
  with k show ?thesis by (rule that)
qed

lemma sst_create_wf:
  assumes "sst_create n = Inr f" "n \<le> 2 ^ 32"
  shows "sst_wf f \<and> length (fmem f) = n \<and> fstate f = Normal"
proof -
  from assms(1) obtain k where k: "n = 2 ^ k" "12 \<le> k" by (rule sst_create_size)
  from assms(2) have "k \<le> 32" unfolding k(1) by (rule power_le_imp_le_exp [rotated]) simp
  then have "pow2_size n" using k by (auto simp: pow2_size_def)
  then show ?thesis using assms(1) by (auto simp: sst_create_def sst_wf_def split: if_splits)
qed

text \<open>
  The CFI geometry of a constructed device (64 KB to 256 MB) describes it: log2 of the size,
  and the sector and block counts times their sizes, all give the device size.
\<close>
theorem flash_cfi_geometry:
  assumes "sst_create n = Inr f" "2 ^ 16 \<le> n" "n \<le> 2 ^ 28"
  shows "2 ^ unat (cfi_query 0x27 f) = n
    \<and> (unat (cfi_query 0x2D f) + 256 * unat (cfi_query 0x2E f) + 1) * SECTOR_SIZE = n
    \<and> (unat (cfi_query 0x31 f) + 256 * unat (cfi_query 0x32 f) + 1) * BLOCK_SIZE = n"
proof -
  from assms(1) obtain k where k: "n = 2 ^ k" "12 \<le> k" by (rule sst_create_size)
  have "k \<le> 28" using assms(3) unfolding k(1) by (rule power_le_imp_le_exp [rotated]) simp
  moreover have "16 \<le> k" using assms(2) unfolding k(1) by (rule power_le_imp_le_exp [rotated]) simp
  ultimately have "k \<in> {16, 17, 18, 19, 20, 21, 22, 23, 24, 25, 26, 27, 28}"
    unfolding insert_iff empty_iff by presburger
  then show ?thesis
    using assms(1) k(1)
    by (auto simp: sst_create_def cfi_query_def log2_size_def log2_loop_pow2 split: if_splits)
qed

section \<open>The device contract of the bus\<close>

text \<open>
  What \<open>Bus\<close> relies on: in read mode a halfword read at an even in-range offset is the raw
  memory halfword, so reading \<open>mem_ptr()\<close> directly is the same as the virtual call; sizes do
  not change; a byte read selects from the halfword read.
\<close>

locale flash_port =
  fixes fsize :: "'f \<Rightarrow> nat"
    and read16 :: "u32 \<Rightarrow> 'f \<Rightarrow> u16"
    and read8 :: "u32 \<Rightarrow> 'f \<Rightarrow> u8"
    and write16 :: "u32 \<Rightarrow> u16 \<Rightarrow> 'f \<Rightarrow> 'f"
    and mem_ptr :: "'f \<Rightarrow> u8 list"
    and read_mode :: "'f \<Rightarrow> bool"
    and ok :: "'f \<Rightarrow> bool"
  assumes size_mem: "fsize f = length (mem_ptr f)"
    and size_write: "fsize (write16 a d f) = fsize f"
    and ok_write: "ok f \<Longrightarrow> ok (write16 a d f)"
    and read_mode_read16: "ok f \<Longrightarrow> read_mode f \<Longrightarrow> even (unat a) \<Longrightarrow> unat a < fsize f \<Longrightarrow>
      read16 a f = le16 (mem_ptr f) (unat a)"
    and read8_half: "read8 a f = (let hw = read16 (a AND NOT 1) f
      in if odd (unat a) then ucast (drop_bit 8 hw) else ucast hw)"
begin

lemma halfword_bypass:
  assumes "ok f" "even (unat a)" "unat a < fsize f"
  shows "(if read_mode f then le16 (mem_ptr f) (unat a) else read16 a f) = read16 a f"
  using assms by (simp add: read_mode_read16)

lemma word_bypass:
  assumes "ok f" "unat a mod 4 = 0" "unat a + 2 < fsize f"
  shows "(if read_mode f then le32 (mem_ptr f) (unat a)
          else ucast (read16 a f) OR push_bit 16 (ucast (read16 (a + 2) f)))
       = ucast (read16 a f) OR push_bit 16 (ucast (read16 (a + 2) f))"
proof (cases "read_mode f")
  case True
  have "unat a + 2 < 2 ^ 32"
  proof -
    from assms(2) obtain q where q: "unat a = 4 * q" using mod_0_imp_dvd by (blast elim: dvdE)
    with u32_less [of a] have "4 * q < 4294967296" by simp
    then show ?thesis using q by simp
  qed
  then have a2: "unat (a + 2) = unat a + 2" by (simp add: unat_word_ariths)
  have "even (unat a)" using assms(2) by presburger
  then have "read16 a f = le16 (mem_ptr f) (unat a)"
    and "read16 (a + 2) f = le16 (mem_ptr f) (unat a + 2)"
    using assms a2 True read_mode_read16 [of f a] read_mode_read16 [of f "a + 2"] by auto
  then show ?thesis using True by (simp add: le32_halves)
qed simp

lemma read8_mem:
  assumes "ok f" "read_mode f" "unat a < fsize f"
  shows "read8 a f = mem_ptr f ! unat a"
proof -
  have al: "unat (a AND NOT 1) = unat a div 2 * 2" unfolding and_not1 unat_align by simp
  then have "read16 (a AND NOT 1) f = le16 (mem_ptr f) (unat a div 2 * 2)"
    using assms by (subst read_mode_read16) auto
  moreover have "(ucast (le16 p i) :: u8) = p ! i" "(ucast (drop_bit 8 (le16 p i)) :: u8) = p ! (i + 1)"
    for p i
    by (rule bit_word_eqI; auto simp: le16_def bit_simps dest: bit_imp_le_length)+
  ultimately show ?thesis
    by (auto simp: read8_half Let_def mult.commute elim!: evenE oddE)
qed

end

section \<open>The installed device: a virtual call is a case on its class\<close>

datatype flash_device = FlatFlashRom "u8 list" | Sst39vf sst39vf

primrec flash_mem :: "flash_device \<Rightarrow> u8 list" where
  "flash_mem (FlatFlashRom m) = m"
| "flash_mem (Sst39vf f) = fmem f"

definition flash_size :: "flash_device \<Rightarrow> nat" where
  "flash_size d = length (flash_mem d)"

primrec flash_read16 :: "u32 \<Rightarrow> flash_device \<Rightarrow> u16" where
  "flash_read16 a (FlatFlashRom m) = flat_read16 a m"
| "flash_read16 a (Sst39vf f) = sst_read16 a f"

text \<open>The base class's byte read; Sst39vf overrides it with the same selection.\<close>

definition default_read8 :: "u32 \<Rightarrow> flash_device \<Rightarrow> u8" where
  "default_read8 a d =
    (let hw = flash_read16 (a AND NOT 1) d
     in if a AND 1 \<noteq> 0 then ucast (drop_bit 8 hw) else ucast hw)"

primrec flash_read8 :: "u32 \<Rightarrow> flash_device \<Rightarrow> u8" where
  "flash_read8 a (FlatFlashRom m) = default_read8 a (FlatFlashRom m)"
| "flash_read8 a (Sst39vf f) = sst_read8 a f"

primrec flash_write16 :: "u32 \<Rightarrow> u16 \<Rightarrow> flash_device \<Rightarrow> flash_device" where
  "flash_write16 a v (FlatFlashRom m) = FlatFlashRom (flat_write16 a v m)"
| "flash_write16 a v (Sst39vf f) = Sst39vf (sst_write16 a v f)"

primrec flash_read_mode :: "flash_device \<Rightarrow> bool" where
  "flash_read_mode (FlatFlashRom m) = True"
| "flash_read_mode (Sst39vf f) = (fstate f = Normal)"

primrec flash_load_image :: "u32 \<Rightarrow> u8 list \<Rightarrow> flash_device \<Rightarrow> flash_error + flash_device" where
  "flash_load_image a data (FlatFlashRom m) = Inr (FlatFlashRom (flat_load_image a data m))"
| "flash_load_image a data (Sst39vf f) = map_sum id Sst39vf (sst_load_image a data f)"

primrec flash_ok :: "flash_device \<Rightarrow> bool" where
  "flash_ok (FlatFlashRom m) = pow2_size (length m)"
| "flash_ok (Sst39vf f) = sst_wf f"

lemma odd_and_1: "((a :: u32) AND 1 = 0) = even (unat a)"
  using unat_and_1 [of a] by (metis even_iff_mod_2_eq_zero unat_eq_zero)

lemma flash_size_write [simp]: "flash_size (flash_write16 a v d) = flash_size d"
  by (cases d) (simp_all add: flash_size_def flat_write16_def)

lemma flash_ok_write [simp]: "flash_ok (flash_write16 a v d) = flash_ok d"
  by (cases d) (simp_all add: flat_write16_def)

interpretation fl: flash_port flash_size flash_read16 flash_read8 flash_write16 flash_mem
  flash_read_mode flash_ok
proof unfold_locales
  fix d a
  show "flash_size d = length (flash_mem d)" by (simp add: flash_size_def)
  show "flash_ok d \<Longrightarrow> flash_read_mode d \<Longrightarrow> even (unat a) \<Longrightarrow> unat a < flash_size d \<Longrightarrow>
      flash_read16 a d = le16 (flash_mem d) (unat a)"
    by (cases d) (auto simp: flash_size_def flat_read16_def sst_read16_def sst_wf_def Let_def
        dev_offset_even_id)
  show "flash_read8 a d = (let hw = flash_read16 (a AND NOT 1) d
      in if odd (unat a) then ucast (drop_bit 8 hw) else ucast hw)"
    by (cases d) (simp_all add: default_read8_def sst_read8_def odd_and_1 Let_def)
qed simp_all

section \<open>Witnesses\<close>

definition sample_flash :: sst39vf where
  "sample_flash = (case sst_create 65536 of Inr f \<Rightarrow> f | Inl e \<Rightarrow> undefined)"

lemma sample_create: "sst_create 65536 = Inr sample_flash"
  by (simp add: sample_flash_def sst_create_def is_power_of_two_def)

lemma sample_flash_facts:
  "sst_wf sample_flash" "fmem sample_flash = replicate 65536 0xFF" "fstate sample_flash = Normal"
proof -
  show "sst_wf sample_flash" using sst_create_wf [OF sample_create] by simp
  show "fmem sample_flash = replicate 65536 0xFF" "fstate sample_flash = Normal"
    by (simp_all add: sample_flash_def sst_create_def is_power_of_two_def)
qed

lemma sample_program: "fmem (sst_run (program_word 0 0x1234) sample_flash) ! 0 = 0x34"
  using sample_flash_facts
  by (subst sst_program) (simp_all add: dev_offset_def put_le16_def)

lemma flash_change_needs_unlock_witness:
  "ends_with 65536 program_prefix (butlast (program_word 0 0x1234)) \<or>
   ends_with 65536 erase_prefix (butlast (program_word 0 0x1234))"
proof -
  let ?ws = "butlast (program_word 0 0x1234)"
  have "fmem (sst_run (?ws @ [(0, 0x1234)]) sample_flash) ! 0 \<noteq> fmem sample_flash ! 0"
    using sample_program sample_flash_facts(2) by (simp add: program_word_def)
  moreover have "fmem (sst_run ?ws sample_flash) = fmem sample_flash"
    using cmd_addr_decode [of 65536] sample_flash_facts
    by (simp add: program_word_def sst_write16_def Let_def sst_wf_def)
  ultimately have "fmem (sst_write16 0 0x1234 (sst_run ?ws sample_flash)) \<noteq> fmem (sst_run ?ws sample_flash)"
    by auto
  from flash_change_needs_unlock [OF sample_flash_facts(3) this]
  show ?thesis using sample_flash_facts(2) by simp
qed

lemma flash_dirty_sound_witness:
  "is_sector_dirty 0 (sst_run (program_word 0 0x1234) (clear_dirty sample_flash))"
proof -
  have "sst_wf (clear_dirty sample_flash)" "fstate (clear_dirty sample_flash) = Normal"
    "fmem (clear_dirty sample_flash) = fmem sample_flash"
    using sample_flash_facts by (simp_all add: clear_dirty_def sst_wf_def)
  then have "fmem (sst_run (program_word 0 0x1234) (clear_dirty sample_flash)) ! 0 \<noteq> fmem sample_flash ! 0"
    using sample_flash_facts(2) by (subst sst_program) (simp_all add: dev_offset_def put_le16_def)
  from flash_dirty_sound [OF sample_flash_facts(1) _ this]
  show ?thesis using sample_flash_facts(2) by simp
qed

lemma flash_program_word_witness:
  "sst_read16 0x10 (sst_run (program_word 0x10 0xBEEF) sample_flash) = 0xBEEF"
  using flash_program_word [of sample_flash "0x10" "0xBEEF"] sample_flash_facts
  by simp

lemma flash_erase_exact_witness:
  "fmem (sst_run (erase_sequence 0x2000 0x30) sample_flash) ! 0x2FFF = 0xFF"
proof -
  have "0x2FFF < length (fmem sample_flash)" "2 ^ 16 \<le> length (fmem sample_flash)"
    using sample_flash_facts(2) by simp_all
  from flash_erase_exact [OF sample_flash_facts(1) this(2) sample_flash_facts(3) this(1),
      where c = "0x30" and n = 4096 and a = "0x2000"]
  show ?thesis using sample_flash_facts(2) by (simp add: dev_offset_def)
qed

lemma flash_cfi_geometry_witness: "2 ^ unat (cfi_query 0x27 sample_flash) = (65536 :: nat)"
  using flash_cfi_geometry [OF sample_create] by simp

end
