(* ===== verification/Machine.thy ===== *)
theory Machine
  imports Flash
begin

text \<open>
  The state of the emulated machine: \<open>CpuState\<close> of \<^verbatim>\<open>src/core/cpu.hpp\<close>, the members of
  \<open>Bus\<close> of \<^verbatim>\<open>src/core/bus.hpp\<close>, and the diagnostic events of
  \<^verbatim>\<open>src/core/diag.hpp\<close>. The devices behind the bus are a type parameter; what the program
  installs as callbacks (the I/O handlers and the watchpoint callback) is a \<open>wiring\<close>, whose
  functions may change the whole machine, as the C++ closures can.
\<close>

section \<open>CPU state\<close>

datatype halt_mode = HaltNone | Hlt | Slp

text \<open>
  \<open>gpr\<close> is the register array \<open>r[16]\<close>; every index the code uses is a four-bit field.
  \<open>psr\<close> is \<open>Psr::raw\<close>. \<open>pending_ext\<close> is the two-element array of EXT operands.
\<close>

record cpu_state =
  gpr :: "nat \<Rightarrow> u32"
  pc :: u32
  sp :: u32
  alr :: u32
  ahr :: u32
  psr :: u32
  pending_ext :: "nat \<Rightarrow> u32"
  pending_ext_count :: nat
  deferred_trap_valid :: bool
  deferred_trap_no :: int
  deferred_trap_level :: int
  in_halt :: bool
  halt_mode :: halt_mode
  fault :: bool
  in_delay_slot :: bool
  delay_target :: u32
  delay_caller :: nat
  ttbr :: u32

text \<open>\<open>CpuState{}\<close>: the default member initialisers.\<close>

definition cpu_init :: cpu_state where
  "cpu_init = \<lparr> gpr = (\<lambda>_. 0), pc = 0, sp = 0, alr = 0, ahr = 0, psr = 0,
     pending_ext = (\<lambda>_. 0), pending_ext_count = 0,
     deferred_trap_valid = False, deferred_trap_no = 0, deferred_trap_level = 0,
     in_halt = False, halt_mode = HaltNone, fault = False,
     in_delay_slot = False, delay_target = 0, delay_caller = 0, ttbr = 0x400 \<rparr>"

section \<open>Bus state\<close>

datatype wp_type = WpWrite | WpRead | WpRW

record watchpoint =
  wp_addr :: u32
  wp_size :: u32
  wp_type :: wp_type

record bus_state =
  sram_wait :: int
  flash_wait :: int
  bus_clock_div :: int
  cycles :: u32
  debug_pc :: u32
  iram :: "u8 list"
  sram :: "u8 list"
  flash :: flash_device
  shadow_sram :: "u32 list"
  watchpoints :: "watchpoint list"
  fault_pending :: bool

section \<open>Diagnostics\<close>

datatype diag_level = DiagWarning | DiagFault

text \<open>A reported event: level, category tag and program counter. The texts are left out.\<close>

record diag_event =
  ev_level :: diag_level
  ev_category :: string
  ev_pc :: u32

section \<open>The machine and its wiring\<close>

text \<open>
  \<open>dev\<close> is the state of everything behind the callbacks; \<open>diag_log\<close> lists the events
  given to the diagnostic sink; \<open>breakpoints\<close> and \<open>strict\<close> are the members of
  \<open>Cpu\<close>.
\<close>

record 'd machine =
  cpu :: cpu_state
  bus :: bus_state
  dev :: 'd
  diag_log :: "diag_event list"
  breakpoints :: "u32 set"
  strict :: bool

record 'd io_handler =
  io_read :: "(u32 \<Rightarrow> 'd machine \<Rightarrow> u16 \<times> 'd machine) option"
  io_write :: "(u32 \<Rightarrow> u16 \<Rightarrow> 'd machine \<Rightarrow> 'd machine) option"
  io_write_byte :: "(u32 \<Rightarrow> u8 \<Rightarrow> 'd machine \<Rightarrow> 'd machine) option"

record 'd wiring =
  io_handlers :: "nat \<Rightarrow> 'd io_handler"
  wp_cb :: "(watchpoint \<Rightarrow> u32 \<Rightarrow> u32 \<Rightarrow> int \<Rightarrow> bool \<Rightarrow> 'd machine \<Rightarrow> 'd machine) option"

text \<open>An empty slot: every \<open>std::function\<close> null.\<close>

definition no_handler :: "'d io_handler" where
  "no_handler = \<lparr> io_read = None, io_write = None, io_write_byte = None \<rparr>"

definition no_wiring :: "'d wiring" where
  "no_wiring = \<lparr> io_handlers = (\<lambda>_. no_handler), wp_cb = None \<rparr>"

definition report :: "diag_level \<Rightarrow> string \<Rightarrow> u32 \<Rightarrow> 'd machine \<Rightarrow> 'd machine" where
  "report lv cat at m = m\<lparr>diag_log := diag_log m @ [\<lparr> ev_level = lv, ev_category = cat, ev_pc = at \<rparr>]\<rparr>"

lemma report_fields [simp]:
  "cpu (report lv cat at m) = cpu m" "bus (report lv cat at m) = bus m"
  "dev (report lv cat at m) = dev m" "breakpoints (report lv cat at m) = breakpoints m"
  "strict (report lv cat at m) = strict m"
  by (simp_all add: report_def)

lemma report_cpu_update [simp]: "report lv cat at (m\<lparr>cpu := c\<rparr>) = (report lv cat at m)\<lparr>cpu := c\<rparr>"
  by (simp add: report_def)

end
