(* ===== verification/Bus.thy ===== *)
theory Bus
  imports Machine
begin

text \<open>
  The memory bus of \<^verbatim>\<open>src/core/bus.{hpp,cpp}\<close>: address decoding, byte, halfword and word
  access with wait-cycle accounting, open-bus reads, misalignment faults, I/O dispatch through
  the wiring, instruction fetch, watchpoints and the shadow of last writers. The lemmas give
  the behaviour of every region, the store/load round trips, the frame of a store and the
  agreement of the fast paths with the general decoding.
\<close>

section \<open>Address map\<close>

abbreviation (input) IRAM_SIZE :: nat where "IRAM_SIZE \<equiv> 0x2000"
abbreviation (input) SRAM_BASE :: u32 where "SRAM_BASE \<equiv> 0x100000"
abbreviation (input) SRAM_WINDOW :: u32 where "SRAM_WINDOW \<equiv> 0x100000"
abbreviation (input) FLASH_BASE :: u32 where "FLASH_BASE \<equiv> 0xC00000"
abbreviation (input) AREA1_BASE :: u32 where "AREA1_BASE \<equiv> 0x030000"
abbreviation (input) IOREG_BASE :: u32 where "IOREG_BASE \<equiv> 0x040000"
abbreviation (input) IOREG_SIZE :: u32 where "IOREG_SIZE \<equiv> 0x010000"
abbreviation (input) SEMIHOST_BASE :: u32 where "SEMIHOST_BASE \<equiv> 0x060000"
abbreviation (input) SEMIHOST_SIZE :: u32 where "SEMIHOST_SIZE \<equiv> 0x020000"
abbreviation (input) IOHANDLER_SPAN :: u32 where "IOHANDLER_SPAN \<equiv> 0x040000"

datatype region = IRAM | SRAM | FLASH | IO | NONE

definition a28 :: "u32 \<Rightarrow> u32" where "a28 addr = addr AND 0x0FFFFFFF"

definition normalize_io :: "u32 \<Rightarrow> u32" where
  "normalize_io addr =
    (if addr < SEMIHOST_BASE then IOREG_BASE OR (addr AND (IOREG_SIZE - 1)) else addr)"

definition io_index :: "u32 \<Rightarrow> nat" where
  "io_index addr = unat ((normalize_io addr - IOREG_BASE) div 2)"

definition io_slots :: nat where "io_slots = unat IOHANDLER_SPAN div 2"

definition flash_end :: "bus_state \<Rightarrow> nat" where
  "flash_end b = unat FLASH_BASE + flash_size (flash b)"

definition classify :: "bus_state \<Rightarrow> u32 \<Rightarrow> region" where
  "classify b addr0 =
    (let addr = a28 addr0
     in if addr \<ge> SRAM_BASE \<and> addr < SRAM_BASE + SRAM_WINDOW then SRAM
        else if addr \<ge> FLASH_BASE \<and> unat addr < flash_end b then FLASH
        else if addr \<ge> AREA1_BASE \<and> addr < SEMIHOST_BASE + SEMIHOST_SIZE then IO
        else if addr < 0x2000 then IRAM
        else if addr \<ge> 0x002000 \<and> addr < 0x003000 then IRAM
        else NONE)"

section \<open>Construction and configuration\<close>

definition bus_create :: "nat \<Rightarrow> nat \<Rightarrow> bus_state" where
  "bus_create sram_size fl_size = \<lparr> sram_wait = 2, flash_wait = 2, bus_clock_div = 1, cycles = 0,
     debug_pc = 0, iram = replicate IRAM_SIZE 0, sram = replicate sram_size 0,
     flash = FlatFlashRom (flat_create fl_size), shadow_sram = replicate sram_size 0xFFFFFFFF,
     watchpoints = [], fault_pending = False \<rparr>"

datatype bus_error = RuntimeError

definition load_flash :: "u32 \<Rightarrow> u8 list \<Rightarrow> bus_state \<Rightarrow> bus_error + bus_state" where
  "load_flash offset data b =
    (if unat offset + length data > flash_size (flash b) then Inl RuntimeError
     else case flash_load_image offset data (flash b) of
            Inl e \<Rightarrow> Inl RuntimeError | Inr d \<Rightarrow> Inr (b\<lparr>flash := d\<rparr>))"

definition load_sram :: "u32 \<Rightarrow> u8 list \<Rightarrow> bus_state \<Rightarrow> bus_error + bus_state" where
  "load_sram offset data b =
    (if unat offset + length data > length (sram b) then Inl RuntimeError
     else Inr (b\<lparr>sram := copy_image (unat offset) data (sram b)\<rparr>))"

definition register_io :: "u32 \<Rightarrow> 'd io_handler \<Rightarrow> 'd wiring \<Rightarrow> bus_error + 'd wiring" where
  "register_io addr0 h w =
    (let addr = normalize_io addr0
     in if addr < IOREG_BASE \<or> addr \<ge> IOREG_BASE + IOHANDLER_SPAN \<or> addr AND 1 \<noteq> 0
        then Inl RuntimeError
        else Inr (w\<lparr>io_handlers := (io_handlers w)(unat ((addr - IOREG_BASE) div 2) := h)\<rparr>))"

definition install_flash_device :: "flash_device \<Rightarrow> bus_state \<Rightarrow> bus_state" where
  "install_flash_device d b = b\<lparr>flash := d\<rparr>"

definition set_bus_clock_div :: "int \<Rightarrow> bus_state \<Rightarrow> bus_state" where
  "set_bus_clock_div dv b = b\<lparr>bus_clock_div := (if dv < 1 then 1 else dv)\<rparr>"

definition ext_read_cycles :: "bus_state \<Rightarrow> int \<Rightarrow> int" where
  "ext_read_cycles b wait = (wait + 1) * bus_clock_div b"

definition ext_write_cycles :: "bus_state \<Rightarrow> int \<Rightarrow> int" where
  "ext_write_cycles b wait = (wait + 2) * bus_clock_div b"

definition take_fault :: "bus_state \<Rightarrow> bool \<times> bus_state" where
  "take_fault b = (fault_pending b, b\<lparr>fault_pending := False\<rparr>)"

text \<open>\<open>cycles += n\<close>, on the unsigned 32-bit counter.\<close>

definition charge :: "int \<Rightarrow> 'd machine \<Rightarrow> 'd machine" where
  "charge n m = m\<lparr>bus := (bus m)\<lparr>cycles := cycles (bus m) + word_of_int n\<rparr>\<rparr>"

text \<open>A misaligned access reports a fault-level event and sets \<open>fault_pending_\<close>.\<close>

definition misalign :: "string \<Rightarrow> 'd machine \<Rightarrow> 'd machine" where
  "misalign cat m = (report DiagFault cat 0 m)\<lparr>bus := (bus m)\<lparr>fault_pending := True\<rparr>\<rparr>"

section \<open>Watchpoints and shadow memory\<close>

definition add_watchpoint :: "u32 \<Rightarrow> u32 \<Rightarrow> wp_type \<Rightarrow> bus_state \<Rightarrow> bus_state" where
  "add_watchpoint addr sz ty b =
    b\<lparr>watchpoints := watchpoints b @ [\<lparr> wp_addr = addr, wp_size = sz, wp_type = ty \<rparr>]\<rparr>"

definition remove_watchpoint :: "u32 \<Rightarrow> u32 \<Rightarrow> wp_type \<Rightarrow> bus_state \<Rightarrow> bus_state" where
  "remove_watchpoint addr sz ty b =
    b\<lparr>watchpoints := filter (\<lambda>wp. \<not> (wp_addr wp = addr \<and> wp_size wp = sz \<and> wp_type wp = ty)) (watchpoints b)\<rparr>"

definition clear_watchpoints :: "bus_state \<Rightarrow> bus_state" where
  "clear_watchpoints b = b\<lparr>watchpoints := []\<rparr>"

definition shadow_last_writer :: "u32 \<Rightarrow> bus_state \<Rightarrow> u32" where
  "shadow_last_writer addr0 b =
    (let addr = a28 addr0
     in if addr \<ge> SRAM_BASE \<and> unat addr < unat SRAM_BASE + length (sram b)
        then let off = unat (addr - SRAM_BASE)
             in if off < length (shadow_sram b) then shadow_sram b ! off else 0xFFFFFFFF
        else 0xFFFFFFFF)"

definition update_shadow :: "nat \<Rightarrow> nat \<Rightarrow> bus_state \<Rightarrow> bus_state" where
  "update_shadow off width b = b\<lparr>shadow_sram := fill_range (shadow_sram b) off width (debug_pc b)\<rparr>"

definition wp_hits :: "u32 \<Rightarrow> int \<Rightarrow> bool \<Rightarrow> watchpoint \<Rightarrow> bool" where
  "wp_hits addr width is_write wp \<longleftrightarrow>
    (wp_type wp = WpRW \<or> (is_write \<and> wp_type wp = WpWrite) \<or> (\<not> is_write \<and> wp_type wp = WpRead))
    \<and> addr < wp_addr wp + wp_size wp \<and> addr + word_of_int width > wp_addr wp"

definition fire_wp :: "'d wiring \<Rightarrow> u32 \<Rightarrow> u32 \<Rightarrow> int \<Rightarrow> bool \<Rightarrow> 'd machine \<Rightarrow> 'd machine" where
  "fire_wp w addr val width is_write m =
    (case wp_cb w of None \<Rightarrow> m
     | Some cb \<Rightarrow> fold (\<lambda>wp m. if wp_hits addr width is_write wp then cb wp addr val width is_write m else m)
                    (watchpoints (bus m)) m)"

text \<open>The guarded calls before a load returns and before a store commits.\<close>

definition wp_read :: "'d wiring \<Rightarrow> u32 \<Rightarrow> u32 \<Rightarrow> nat \<Rightarrow> 'd machine \<Rightarrow> 'd machine" where
  "wp_read w addr val width m =
    (if watchpoints (bus m) \<noteq> [] then fire_wp w addr val (int width) False m else m)"

definition wp_write :: "'d wiring \<Rightarrow> u32 \<Rightarrow> u32 \<Rightarrow> nat \<Rightarrow> 'd machine \<Rightarrow> 'd machine" where
  "wp_write w addr val width m =
    (if watchpoints (bus m) \<noteq> []
     then let m1 = fire_wp w addr val (int width) True m
          in m1\<lparr>bus := update_shadow (unat (addr - SRAM_BASE)) width (bus m1)\<rparr>
     else m)"

section \<open>Loads\<close>

definition read8 :: "'d wiring \<Rightarrow> u32 \<Rightarrow> 'd machine \<Rightarrow> u8 \<times> 'd machine" where
  "read8 w addr0 m =
    (let addr = a28 addr0; b = bus m
     in case classify b addr of
          IRAM \<Rightarrow> (iram b ! unat (addr AND 0x1FFF), m)
        | SRAM \<Rightarrow>
            let m1 = charge (ext_read_cycles b (sram_wait b)) m; off = unat (addr - SRAM_BASE)
            in if off \<ge> length (sram b) then (0xFF, m1)
               else let v = sram b ! off in (v, wp_read w addr (ucast v) 1 m1)
        | FLASH \<Rightarrow> (flash_read8 (addr - FLASH_BASE) (flash b), charge (ext_read_cycles b (flash_wait b)) m)
        | IO \<Rightarrow>
            let norm = normalize_io addr; idx = io_index addr
            in (if idx < io_slots then
                  case io_read (io_handlers w idx) of
                    Some rd \<Rightarrow> (case rd (norm AND NOT 1) m of (hw, m1) \<Rightarrow>
                      (if addr AND 1 \<noteq> 0 then ucast (drop_bit 8 hw) else ucast hw, m1))
                  | None \<Rightarrow> (0xFF, m)
                else (0xFF, m))
        | NONE \<Rightarrow> (0xFF, m))"

definition sram_read16 :: "'d wiring \<Rightarrow> u32 \<Rightarrow> 'd machine \<Rightarrow> u16 \<times> 'd machine" where
  "sram_read16 w addr m =
    (let b = bus m; m1 = charge (ext_read_cycles b (sram_wait b)) m; off = unat (addr - SRAM_BASE)
     in if off \<ge> length (sram b) then (0xFFFF, m1)
        else let v = le16 (sram b) off in (v, wp_read w addr (ucast v) 2 m1))"

definition io_read16 :: "'d wiring \<Rightarrow> u32 \<Rightarrow> 'd machine \<Rightarrow> u16 \<times> 'd machine" where
  "io_read16 w addr m =
    (let idx = io_index addr
     in if idx < io_slots
        then case io_read (io_handlers w idx) of Some rd \<Rightarrow> rd addr m | None \<Rightarrow> (0xFFFF, m)
        else (0xFFFF, m))"

text \<open>
  The two fast paths come first; the SRAM and FLASH branches of the switch after them are
  there as in the code, although the fast paths have already taken every such address.
\<close>

definition read16 :: "'d wiring \<Rightarrow> u32 \<Rightarrow> 'd machine \<Rightarrow> u16 \<times> 'd machine" where
  "read16 w addr0 m0 =
    (let addr1 = a28 addr0;
         m = (if addr1 AND 1 \<noteq> 0 then misalign ''misalign_read16'' m0 else m0);
         addr = (if addr1 AND 1 \<noteq> 0 then addr1 AND NOT 1 else addr1);
         b = bus m
     in if addr - SRAM_BASE < SRAM_WINDOW then sram_read16 w addr m
        else if addr \<ge> FLASH_BASE then
          (if unat addr < flash_end b then
             (if flash_read_mode (flash b) then le16 (flash_mem (flash b)) (unat (addr - FLASH_BASE))
              else flash_read16 (addr - FLASH_BASE) (flash b),
              charge (ext_read_cycles b (flash_wait b)) m)
           else (0xFFFF, m))
        else case classify b addr of
          IRAM \<Rightarrow> (le16 (iram b) (unat (addr AND 0x1FFF)), m)
        | SRAM \<Rightarrow> sram_read16 w addr m
        | FLASH \<Rightarrow> (flash_read16 (addr - FLASH_BASE) (flash b), charge (ext_read_cycles b (flash_wait b)) m)
        | IO \<Rightarrow> io_read16 w addr m
        | NONE \<Rightarrow> (0xFFFF, m))"

definition join16 :: "u16 \<Rightarrow> u16 \<Rightarrow> u32" where
  "join16 lo hi = ucast lo OR push_bit 16 (ucast hi)"

definition read32 :: "'d wiring \<Rightarrow> u32 \<Rightarrow> 'd machine \<Rightarrow> u32 \<times> 'd machine" where
  "read32 w addr0 m0 =
    (let addr1 = a28 addr0;
         m = (if addr1 AND 3 \<noteq> 0 then misalign ''misalign_read32'' m0 else m0);
         addr = (if addr1 AND 3 \<noteq> 0 then addr1 AND NOT 3 else addr1);
         b = bus m
     in case classify b addr of
          IRAM \<Rightarrow> (le32 (iram b) (unat (addr AND 0x1FFF)), m)
        | SRAM \<Rightarrow>
            let m1 = charge (ext_read_cycles b (sram_wait b) * 2) m; off = unat (addr - SRAM_BASE)
            in if off \<ge> length (sram b) then (0xFFFFFFFF, m1)
               else let v = le32 (sram b) off in (v, wp_read w addr v 4 m1)
        | FLASH \<Rightarrow>
            let a = addr - FLASH_BASE
            in (if flash_read_mode (flash b) then le32 (flash_mem (flash b)) (unat a)
                else join16 (flash_read16 a (flash b)) (flash_read16 (a + 2) (flash b)),
                charge (ext_read_cycles b (flash_wait b) * 2) m)
        | IO \<Rightarrow> (case read16 w addr m of (lo, m1) \<Rightarrow>
                  case read16 w (addr + 2) m1 of (hi, m2) \<Rightarrow> (join16 lo hi, m2))
        | NONE \<Rightarrow> (0xFFFFFFFF, m))"

section \<open>Stores\<close>

definition store_iram :: "u8 list \<Rightarrow> 'd machine \<Rightarrow> 'd machine" where
  "store_iram xs m = m\<lparr>bus := (bus m)\<lparr>iram := xs\<rparr>\<rparr>"

definition store_sram :: "u8 list \<Rightarrow> 'd machine \<Rightarrow> 'd machine" where
  "store_sram xs m = m\<lparr>bus := (bus m)\<lparr>sram := xs\<rparr>\<rparr>"

definition store_flash16 :: "u32 \<Rightarrow> u16 \<Rightarrow> 'd machine \<Rightarrow> 'd machine" where
  "store_flash16 a v m = m\<lparr>bus := (bus m)\<lparr>flash := flash_write16 a v (flash (bus m))\<rparr>\<rparr>"

definition write8 :: "'d wiring \<Rightarrow> u32 \<Rightarrow> u8 \<Rightarrow> 'd machine \<Rightarrow> 'd machine" where
  "write8 w addr0 val m =
    (let addr = a28 addr0; b = bus m
     in case classify b addr of
          IRAM \<Rightarrow> store_iram ((iram b)[unat (addr AND 0x1FFF) := val]) m
        | SRAM \<Rightarrow>
            let m1 = charge (ext_write_cycles b (sram_wait b)) m; off = unat (addr - SRAM_BASE)
            in if off < length (sram b)
               then let m2 = wp_write w addr (ucast val) 1 m1
                    in store_sram ((sram (bus m2))[off := val]) m2
               else m1
        | FLASH \<Rightarrow> store_flash16 (addr - FLASH_BASE) (ucast val OR push_bit 8 (ucast val))
                     (charge (ext_write_cycles b (flash_wait b)) m)
        | IO \<Rightarrow>
            let norm = normalize_io addr; idx = io_index addr
            in (if idx < io_slots then
                  case io_write_byte (io_handlers w idx) of
                    Some wr \<Rightarrow> wr norm val m
                  | None \<Rightarrow> (case io_write (io_handlers w idx) of
                      Some wr \<Rightarrow> wr norm (ucast val) m | None \<Rightarrow> m)
                else m)
        | NONE \<Rightarrow> m)"

definition write16 :: "'d wiring \<Rightarrow> u32 \<Rightarrow> u16 \<Rightarrow> 'd machine \<Rightarrow> 'd machine" where
  "write16 w addr0 val m0 =
    (let addr1 = a28 addr0;
         m = (if addr1 AND 1 \<noteq> 0 then misalign ''misalign_write16'' m0 else m0);
         addr = (if addr1 AND 1 \<noteq> 0 then addr1 AND NOT 1 else addr1);
         b = bus m
     in case classify b addr of
          IRAM \<Rightarrow> store_iram (put_le16 (iram b) (unat (addr AND 0x1FFF)) val) m
        | SRAM \<Rightarrow>
            let m1 = charge (ext_write_cycles b (sram_wait b)) m; off = unat (addr - SRAM_BASE)
            in if off < length (sram b)
               then let m2 = wp_write w addr (ucast val) 2 m1
                    in store_sram (put_le16 (sram (bus m2)) off val) m2
               else m1
        | FLASH \<Rightarrow> store_flash16 (addr - FLASH_BASE) val (charge (ext_write_cycles b (flash_wait b)) m)
        | IO \<Rightarrow>
            let idx = io_index addr
            in (if idx < io_slots
                then case io_write (io_handlers w idx) of Some wr \<Rightarrow> wr addr val m | None \<Rightarrow> m
                else m)
        | NONE \<Rightarrow> m)"

definition write32 :: "'d wiring \<Rightarrow> u32 \<Rightarrow> u32 \<Rightarrow> 'd machine \<Rightarrow> 'd machine" where
  "write32 w addr0 val m0 =
    (let addr1 = a28 addr0;
         m = (if addr1 AND 3 \<noteq> 0 then misalign ''misalign_write32'' m0 else m0);
         addr = (if addr1 AND 3 \<noteq> 0 then addr1 AND NOT 3 else addr1);
         b = bus m
     in case classify b addr of
          IRAM \<Rightarrow> store_iram (put_le32 (iram b) (unat (addr AND 0x1FFF)) val) m
        | SRAM \<Rightarrow>
            let m1 = charge (ext_write_cycles b (sram_wait b) * 2) m; off = unat (addr - SRAM_BASE)
            in if off < length (sram b)
               then let m2 = wp_write w addr val 4 m1
                    in store_sram (put_le32 (sram (bus m2)) off val) m2
               else m1
        | FLASH \<Rightarrow>
            let a = addr - FLASH_BASE
            in store_flash16 (a + 2) (ucast (drop_bit 16 val))
                 (store_flash16 a (ucast val) (charge (ext_write_cycles b (flash_wait b) * 2) m))
        | IO \<Rightarrow> write16 w (addr + 2) (ucast (drop_bit 16 val)) (write16 w addr (ucast val) m)
        | NONE \<Rightarrow> m)"

section \<open>Instruction fetch\<close>

definition fetch16 :: "u32 \<Rightarrow> 'd machine \<Rightarrow> u16 \<times> 'd machine" where
  "fetch16 addr0 m =
    (let addr = a28 addr0 AND NOT 1; b = bus m
     in if addr \<ge> FLASH_BASE \<and> unat addr < flash_end b
        then (le16 (flash_mem (flash b)) (unat (addr - FLASH_BASE)), charge (ext_read_cycles b (flash_wait b)) m)
        else if addr < 0x2000 then (le16 (iram b) (unat addr), charge 1 m)
        else if addr \<ge> 0x002000 \<and> addr < 0x003000
        then (le16 (iram b) (unat (addr AND 0x1FFF)), charge 1 m)
        else if addr \<ge> SRAM_BASE \<and> addr < SRAM_BASE + SRAM_WINDOW
        then let off = unat (addr - SRAM_BASE); m1 = charge (ext_read_cycles b (sram_wait b)) m
             in (if off < length (sram b) then (le16 (sram b) off, m1) else (0xFFFF, m1))
        else (0xFFFF, charge 1 m))"

section \<open>Decoding facts\<close>

lemma a28_id: "unat a < 2 ^ 28 \<Longrightarrow> a28 a = a"
proof -
  assume "unat a < 2 ^ 28"
  then have "unat (a28 a) = unat a" unfolding a28_def mask_literals unat_and_mask by simp
  then show ?thesis by (rule unsigned_word_eqI)
qed

lemma unat_a28: "unat (a28 a) = unat a mod 2 ^ 28"
  unfolding a28_def mask_literals unat_and_mask by simp

lemma a28_idem [simp]: "a28 (a28 a) = a28 a"
  by (rule a28_id) (simp add: unat_a28)

lemma classify_a28 [simp]: "classify b (a28 a) = classify b a"
  by (simp add: classify_def)

definition in_sram :: "'d machine \<Rightarrow> u32 \<Rightarrow> nat \<Rightarrow> bool" where
  "in_sram m a n \<longleftrightarrow> 0x100000 \<le> unat a \<and> unat a + n \<le> 0x100000 + length (sram (bus m))
     \<and> length (sram (bus m)) \<le> 0x100000 \<and> 0 < n \<and> watchpoints (bus m) = []"

definition sram_off :: "u32 \<Rightarrow> nat" where "sram_off a = unat a - 0x100000"

lemma in_sramD:
  assumes "in_sram m a n"
  shows "a28 a = a" "SRAM_BASE \<le> a" "a < SRAM_BASE + SRAM_WINDOW" "a - SRAM_BASE < SRAM_WINDOW"
    "classify (bus m) a = SRAM" "unat (a - SRAM_BASE) = sram_off a"
    "sram_off a + n \<le> length (sram (bus m))" "sram_off a < length (sram (bus m))"
proof -
  note h = assms [unfolded in_sram_def]
  have hi: "unat a < 0x200000" and lo: "0x100000 \<le> unat a" using h by linarith+
  show a: "a28 a = a" using hi by (intro a28_id) simp
  show ge: "SRAM_BASE \<le> a" using lo by (simp add: word_le_nat_alt)
  show lt: "a < SRAM_BASE + SRAM_WINDOW" using hi by (simp add: word_less_nat_alt)
  show off: "unat (a - SRAM_BASE) = sram_off a" using ge by (simp add: unat_sub sram_off_def)
  show "a - SRAM_BASE < SRAM_WINDOW"
    using hi off by (simp add: word_less_nat_alt sram_off_def)
  show "classify (bus m) a = SRAM" using ge lt a by (simp add: classify_def Let_def)
  show "sram_off a + n \<le> length (sram (bus m))" "sram_off a < length (sram (bus m))"
    using h by (auto simp: sram_off_def)
qed

lemma aligned_tests:
  "((a :: u32) AND 1 = 0) = even (unat a)" "((a :: u32) AND 3 = 0) = (unat a mod 4 = 0)"
  using unat_and_1 [of a] unat_and_3 [of a]
  by (metis even_iff_mod_2_eq_zero unat_eq_zero, metis unat_eq_zero)

lemma charge_fields [simp]:
  "cpu (charge n m) = cpu m" "dev (charge n m) = dev m" "diag_log (charge n m) = diag_log m"
  "breakpoints (charge n m) = breakpoints m" "strict (charge n m) = strict m"
  "sram (bus (charge n m)) = sram (bus m)" "iram (bus (charge n m)) = iram (bus m)"
  "flash (bus (charge n m)) = flash (bus m)" "watchpoints (bus (charge n m)) = watchpoints (bus m)"
  "fault_pending (bus (charge n m)) = fault_pending (bus m)"
  "sram_wait (bus (charge n m)) = sram_wait (bus m)" "flash_wait (bus (charge n m)) = flash_wait (bus m)"
  "bus_clock_div (bus (charge n m)) = bus_clock_div (bus m)"
  "cycles (bus (charge n m)) = cycles (bus m) + word_of_int n"
  "shadow_sram (bus (charge n m)) = shadow_sram (bus m)" "debug_pc (bus (charge n m)) = debug_pc (bus m)"
  by (simp_all add: charge_def)

lemma charge_cpu_update [simp]: "charge n (m\<lparr>cpu := c\<rparr>) = (charge n m)\<lparr>cpu := c\<rparr>"
  by (simp add: charge_def)

lemma wp_none [simp]:
  "watchpoints (bus m) = [] \<Longrightarrow> wp_read w a v n m = m"
  "watchpoints (bus m) = [] \<Longrightarrow> wp_write w a v n m = m"
  by (simp_all add: wp_read_def wp_write_def)

section \<open>Access to SRAM without watchpoints\<close>

lemma read8_sram:
  assumes "in_sram m a 1"
  shows "read8 w a m = (sram (bus m) ! sram_off a, charge (ext_read_cycles (bus m) (sram_wait (bus m))) m)"
  using assms in_sramD [OF assms] by (simp add: read8_def Let_def in_sram_def)

lemma read16_sram:
  assumes "in_sram m a 2" "even (unat a)"
  shows "read16 w a m = (le16 (sram (bus m)) (sram_off a), charge (ext_read_cycles (bus m) (sram_wait (bus m))) m)"
  using assms in_sramD [OF assms(1)]
  by (simp add: read16_def Let_def in_sram_def sram_read16_def aligned_tests)

lemma read32_sram:
  assumes "in_sram m a 4" "unat a mod 4 = 0"
  shows "read32 w a m = (le32 (sram (bus m)) (sram_off a), charge (ext_read_cycles (bus m) (sram_wait (bus m)) * 2) m)"
  using assms in_sramD [OF assms(1)]
  by (simp add: read32_def Let_def in_sram_def aligned_tests)

lemma write8_sram:
  assumes "in_sram m a 1"
  shows "write8 w a v m = store_sram ((sram (bus m))[sram_off a := v])
    (charge (ext_write_cycles (bus m) (sram_wait (bus m))) m)"
  using assms in_sramD [OF assms] by (simp add: write8_def Let_def in_sram_def)

lemma write16_sram:
  assumes "in_sram m a 2" "even (unat a)"
  shows "write16 w a v m = store_sram (put_le16 (sram (bus m)) (sram_off a) v)
    (charge (ext_write_cycles (bus m) (sram_wait (bus m))) m)"
  using assms in_sramD [OF assms(1)] by (simp add: write16_def Let_def in_sram_def aligned_tests)

lemma write32_sram:
  assumes "in_sram m a 4" "unat a mod 4 = 0"
  shows "write32 w a v m = store_sram (put_le32 (sram (bus m)) (sram_off a) v)
    (charge (ext_write_cycles (bus m) (sram_wait (bus m)) * 2) m)"
  using assms in_sramD [OF assms(1)] by (simp add: write32_def Let_def in_sram_def aligned_tests)

lemma store_sram_fields [simp]:
  "cpu (store_sram xs m) = cpu m" "dev (store_sram xs m) = dev m"
  "diag_log (store_sram xs m) = diag_log m" "breakpoints (store_sram xs m) = breakpoints m"
  "strict (store_sram xs m) = strict m" "sram (bus (store_sram xs m)) = xs"
  "iram (bus (store_sram xs m)) = iram (bus m)" "flash (bus (store_sram xs m)) = flash (bus m)"
  "watchpoints (bus (store_sram xs m)) = watchpoints (bus m)"
  "fault_pending (bus (store_sram xs m)) = fault_pending (bus m)"
  "cycles (bus (store_sram xs m)) = cycles (bus m)"
  by (simp_all add: store_sram_def)

lemma store_sram_cpu_update [simp]: "store_sram xs (m\<lparr>cpu := c\<rparr>) = (store_sram xs m)\<lparr>cpu := c\<rparr>"
  by (simp add: store_sram_def)

section \<open>Round trips and frames of SRAM stores\<close>

lemma sram_byte_of_word:
  assumes "i < 4" "k + 3 < length xs"
  shows "put_le32 xs k v ! (k + i) = ucast (drop_bit (8 * i) v)"
proof -
  have "i = 0 \<or> i = 1 \<or> i = 2 \<or> i = 3" using assms(1) by linarith
  then show ?thesis using assms(2) by (elim disjE) (simp_all add: put_le32_def numeral_3_eq_3)
qed

lemma in_sram_store [simp]: "length xs = length (sram (bus m)) \<Longrightarrow> in_sram (store_sram xs m) a n = in_sram m a n"
  by (simp add: in_sram_def)

lemma in_sram_charge [simp]: "in_sram (charge k m) a n = in_sram m a n"
  by (simp add: in_sram_def)

lemma in_sram_sub: "in_sram m a n \<Longrightarrow> i + k \<le> n \<Longrightarrow> 0 < k \<Longrightarrow> unat (a + word_of_nat i) = unat a + i \<and> in_sram m (a + word_of_nat i) k \<and> sram_off (a + word_of_nat i) = sram_off a + i"
proof -
  assume h: "in_sram m a n" "i + k \<le> n" "0 < k"
  then have "unat a + i < 2 ^ 32" by (auto simp: in_sram_def)
  then have "unat (a + word_of_nat i) = unat a + i" by (simp add: unat_word_ariths unat_of_nat)
  then show ?thesis using h by (auto simp: in_sram_def sram_off_def)
qed

text \<open>
  A word stored to installed SRAM at an aligned address is read back by a word load, and its
  four bytes are read by byte loads at ascending addresses, least significant first.
\<close>
theorem bus_store_load_bytes:
  assumes "in_sram m a 4" "unat a mod 4 = 0" "i < 4"
  shows "fst (read32 w a (write32 w a v m)) = v
    \<and> fst (read8 w (a + word_of_nat i) (write32 w a v m)) = ucast (drop_bit (8 * i) v)"
proof -
  let ?m = "write32 w a v m"
  have eq: "sram (bus ?m) = put_le32 (sram (bus m)) (sram_off a) v"
    and good: "in_sram ?m b k = in_sram m b k" for b k
    using assms by (simp_all add: write32_sram)
  have room: "sram_off a + 3 < length (sram (bus m))" using in_sramD [OF assms(1)] by linarith
  have sub: "in_sram ?m (a + word_of_nat i) 1" "sram_off (a + word_of_nat i) = sram_off a + i"
    using in_sram_sub [OF assms(1), of i 1] assms(3) good by auto
  show ?thesis
    using room assms by (simp add: read8_sram [OF sub(1)] sub(2) eq sram_byte_of_word read32_sram good)
qed

text \<open>
  A word store to SRAM changes only its four bytes: the CPU, the devices, internal RAM, the
  flash and every other SRAM byte are as before, and the SRAM keeps its size.
\<close>
theorem bus_store_frame:
  assumes "in_sram m a 4" "unat a mod 4 = 0"
  shows "cpu (write32 w a v m) = cpu m \<and> dev (write32 w a v m) = dev m
    \<and> iram (bus (write32 w a v m)) = iram (bus m) \<and> flash (bus (write32 w a v m)) = flash (bus m)
    \<and> length (sram (bus (write32 w a v m))) = length (sram (bus m))
    \<and> (\<forall>k. k < sram_off a \<or> sram_off a + 4 \<le> k \<longrightarrow> sram (bus (write32 w a v m)) ! k = sram (bus m) ! k)"
  using assms by (auto simp: write32_sram put_le32_other)

lemma charge_charge: "charge b (charge a m) = charge (a + b) m"
  by (simp add: charge_def add.assoc)

lemma charge_store_sram: "charge k (store_sram xs m) = store_sram xs (charge k m)"
  by (simp add: charge_def store_sram_def)

lemma store_store_sram [simp]: "store_sram ys (store_sram xs m) = store_sram ys m"
  by (simp add: store_sram_def)

text \<open>
  On the 16-bit bus, a word load or store of SRAM is two halfword accesses at \<open>a\<close> and
  \<open>a + 2\<close>: same value, same memory and the same number of wait cycles charged.
\<close>
theorem bus_word_is_two_halfwords:
  assumes "in_sram m a 4" "unat a mod 4 = 0"
  shows "read32 w a m = (case read16 w a m of (lo, m1) \<Rightarrow>
            case read16 w (a + 2) m1 of (hi, m2) \<Rightarrow> (join16 lo hi, m2))
    \<and> write32 w a v m = write16 w (a + 2) (ucast (drop_bit 16 v)) (write16 w a (ucast v) m)"
proof -
  have ev: "even (unat a)" using assms(2) by presburger
  have g: "in_sram m a 2" using assms(1) by (auto simp: in_sram_def)
  have s2: "unat (a + 2) = unat a + 2" "in_sram m (a + 2) 2" "sram_off (a + 2) = sram_off a + 2"
    using in_sram_sub [OF assms(1), of 2 2] by auto
  have ev2: "even (unat (a + 2))" using s2(1) ev by simp
  have same: "ext_read_cycles (bus (charge k m)) x = ext_read_cycles (bus m) x"
    "ext_write_cycles (bus (store_sram xs (charge k m))) x = ext_write_cycles (bus m) x"
    "sram_wait (bus (store_sram xs (charge k m))) = sram_wait (bus m)" for k x xs
    by (simp_all add: ext_read_cycles_def ext_write_cycles_def store_sram_def)
  show ?thesis
    using assms g ev ev2 s2
    by (simp add: read32_sram read16_sram write32_sram write16_sram same charge_charge
        charge_store_sram le32_halves put_le32_halves join16_def mult.commute)
qed

text \<open>
  A misaligned word access reports the fault, sets the pending-fault flag, and is then the
  access at the address rounded down, in every region.
\<close>
theorem bus_misaligned:
  assumes "unat a mod 4 \<noteq> 0"
  shows "read32 w a m = read32 w (a28 a AND NOT 3) (misalign ''misalign_read32'' m)
    \<and> write32 w a v m = write32 w (a28 a AND NOT 3) v (misalign ''misalign_write32'' m)
    \<and> fault_pending (bus (misalign cat m))"
proof -
  have "unat (a28 a) mod 4 \<noteq> 0" using assms by (simp add: unat_a28 mod_mod_cancel)
  then have mis: "a28 a AND 3 \<noteq> 0" by (simp only: aligned_tests not_False_eq_True)
  have al: "unat (a28 a AND NOT 3) = unat (a28 a) div 4 * 4"
    unfolding and_not3 unat_align by simp
  have "unat (a28 a) < 2 ^ 28" by (simp add: unat_a28)
  then have lt: "unat (a28 a AND NOT 3) < 2 ^ 28" unfolding al by linarith
  have z: "(a28 a AND NOT 3) AND 3 = 0" by (simp only: aligned_tests al) simp
  show ?thesis
    by (simp only: read32_def write32_def Let_def mis z a28_id [OF lt] simp_thms if_True if_False)
       (simp add: misalign_def)
qed

text \<open>
  Beyond the installed SRAM, inside the decoded 1 MB window, loads of every width read all
  ones and stores change nothing (the kernel's SRAM size detection relies on it).
\<close>
theorem bus_sram_open_bus:
  assumes "SRAM_BASE \<le> a" "a < SRAM_BASE + SRAM_WINDOW" "0x100000 + length (sram (bus m)) \<le> unat a"
  shows "fst (read8 w a m) = 0xFF \<and> sram (bus (write8 w a v m)) = sram (bus m)
    \<and> (even (unat a) \<longrightarrow> fst (read16 w a m) = 0xFFFF \<and> sram (bus (write16 w a h m)) = sram (bus m))
    \<and> (unat a mod 4 = 0 \<longrightarrow> fst (read32 w a m) = 0xFFFFFFFF \<and> sram (bus (write32 w a x m)) = sram (bus m))"
proof -
  have hi: "unat a < 0x200000" using assms(2) by (simp add: word_less_nat_alt)
  then have a: "a28 a = a" by (intro a28_id) simp
  have c: "classify b a = SRAM" for b using assms(1,2) a by (simp add: classify_def Let_def)
  have off: "unat (a - SRAM_BASE) = sram_off a" using assms(1) by (simp add: unat_sub sram_off_def)
  have big: "length (sram (bus m)) \<le> sram_off a" using assms(3) by (simp add: sram_off_def)
  have win: "a - SRAM_BASE < SRAM_WINDOW" using hi off by (simp add: word_less_nat_alt sram_off_def)
  show ?thesis
    using a c off big win
    by (auto simp: read8_def write8_def read16_def write16_def read32_def write32_def Let_def
        aligned_tests sram_read16_def)
qed

section \<open>The fast paths agree with the general decoding\<close>

text \<open>The halfword read as the switch alone would do it.\<close>

definition read16_general :: "'d wiring \<Rightarrow> u32 \<Rightarrow> 'd machine \<Rightarrow> u16 \<times> 'd machine" where
  "read16_general w addr0 m0 =
    (let addr1 = a28 addr0;
         m = (if addr1 AND 1 \<noteq> 0 then misalign ''misalign_read16'' m0 else m0);
         addr = (if addr1 AND 1 \<noteq> 0 then addr1 AND NOT 1 else addr1);
         b = bus m
     in case classify b addr of
          IRAM \<Rightarrow> (le16 (iram b) (unat (addr AND 0x1FFF)), m)
        | SRAM \<Rightarrow> sram_read16 w addr m
        | FLASH \<Rightarrow> (flash_read16 (addr - FLASH_BASE) (flash b), charge (ext_read_cycles b (flash_wait b)) m)
        | IO \<Rightarrow> io_read16 w addr m
        | NONE \<Rightarrow> (0xFFFF, m))"

lemma misalign_fields [simp]:
  "cpu (misalign cat m) = cpu m" "flash (bus (misalign cat m)) = flash (bus m)"
  "sram (bus (misalign cat m)) = sram (bus m)" "iram (bus (misalign cat m)) = iram (bus m)"
  by (simp_all add: misalign_def)

lemma sram_window_iff:
  "(addr - SRAM_BASE < SRAM_WINDOW) = (SRAM_BASE \<le> addr \<and> addr < SRAM_BASE + SRAM_WINDOW)"
proof (cases "SRAM_BASE \<le> addr")
  case True
  then show ?thesis by (auto simp: word_less_nat_alt word_le_nat_alt unat_sub)
next
  case False
  then have "unat addr < 0x100000" by (simp add: word_le_nat_alt)
  then have "unat (addr - SRAM_BASE) = unat addr + 2 ^ 32 - 0x100000"
    by (simp add: unat_sub_if_size word_size)
  with False \<open>unat addr < 0x100000\<close> show ?thesis by (simp add: word_less_nat_alt word_le_nat_alt)
qed

lemma high_not_low:
  assumes "FLASH_BASE \<le> addr"
  shows "\<not> addr < SRAM_BASE + SRAM_WINDOW" "\<not> addr < SEMIHOST_BASE + SEMIHOST_SIZE"
    "\<not> addr < 0x2000" "\<not> addr < 0x3000"
  using assms by (simp_all add: word_less_nat_alt word_le_nat_alt)

text \<open>
  The two fast paths of the halfword read (SRAM window test by one subtraction, direct flash
  memory in read mode) give the same value and state as the full region decoding, at every
  address, for a well-formed flash device.
\<close>
theorem bus_read16_fast_paths:
  assumes "flash_ok (flash (bus m))"
  shows "read16 w a m = read16_general w a m"
proof -
  let ?addr1 = "a28 a"
  define m1 where "m1 = (if ?addr1 AND 1 \<noteq> 0 then misalign ''misalign_read16'' m else m)"
  define addr where "addr = (if ?addr1 AND 1 \<noteq> 0 then ?addr1 AND NOT 1 else ?addr1)"
  have ok: "flash_ok (flash (bus m1))" using assms by (simp add: m1_def)
  have al: "unat (?addr1 AND NOT 1) = unat ?addr1 div 2 * 2" unfolding and_not1 unat_align by simp
  have ev: "even (unat addr)"
    unfolding addr_def using al by (auto simp: aligned_tests)
  have lt: "unat addr < 2 ^ 28"
  proof -
    have "unat ?addr1 < 2 ^ 28" by (simp add: unat_a28)
    then show ?thesis unfolding addr_def using al by auto
  qed
  note id = a28_id [OF lt]
  have fl: "flash_read_mode (flash (bus m1)) \<Longrightarrow> FLASH_BASE \<le> addr \<Longrightarrow> unat addr < flash_end (bus m1) \<Longrightarrow>
      flash_read16 (addr - FLASH_BASE) (flash (bus m1)) = le16 (flash_mem (flash (bus m1))) (unat (addr - FLASH_BASE))"
    using fl.read_mode_read16 [OF ok, of "addr - FLASH_BASE"] ev
    by (auto simp: flash_end_def unat_sub word_le_nat_alt)
  have "read16 w a m =
     (if addr - SRAM_BASE < SRAM_WINDOW then sram_read16 w addr m1
      else if addr \<ge> FLASH_BASE then
        (if unat addr < flash_end (bus m1) then
           (if flash_read_mode (flash (bus m1)) then le16 (flash_mem (flash (bus m1))) (unat (addr - FLASH_BASE))
            else flash_read16 (addr - FLASH_BASE) (flash (bus m1)),
            charge (ext_read_cycles (bus m1) (flash_wait (bus m1))) m1)
         else (0xFFFF, m1))
      else read16_general w a m)"
    unfolding read16_def read16_general_def Let_def m1_def [symmetric] addr_def [symmetric] ..
  also have "\<dots> = read16_general w a m"
    unfolding read16_general_def Let_def m1_def [symmetric] addr_def [symmetric] sram_window_iff
    using high_not_low [of addr] fl
    by (auto simp: classify_def Let_def id)
  finally show ?thesis .
qed

text \<open>
  Outside the I/O region and with the flash in read mode, an instruction fetch returns what
  an aligned halfword data read would return, open bus and mirrors included.
\<close>
theorem bus_fetch_is_read:
  assumes "flash_ok (flash (bus m))" "flash_read_mode (flash (bus m))"
      and "classify (bus m) (a28 a AND NOT 1) \<noteq> IO"
  shows "fst (fetch16 a m) = fst (read16 w (a28 a AND NOT 1) m)"
proof -
  let ?b = "a28 a AND NOT 1"
  have al: "unat ?b = unat (a28 a) div 2 * 2" unfolding and_not1 unat_align by simp
  have "unat (a28 a) < 2 ^ 28" by (simp add: unat_a28)
  then have lt: "unat ?b < 2 ^ 28" unfolding al by linarith
  have ev: "?b AND 1 = 0" by (simp only: aligned_tests al) simp
  have low: "?b AND 0x1FFF = ?b" if "?b < 0x2000"
  proof -
    have "unat (?b AND 0x1FFF) = unat ?b"
      using that unfolding mask_literals unat_and_mask by (simp add: word_less_nat_alt)
    then show ?thesis by (rule unsigned_word_eqI)
  qed
  have "fst (fetch16 a m) = fst (read16_general w ?b m)"
  proof -
    have fr: "flash_read16 (?b - FLASH_BASE) (flash (bus m)) = le16 (flash_mem (flash (bus m))) (unat (?b - FLASH_BASE))"
      if "FLASH_BASE \<le> ?b" "unat ?b < flash_end (bus m)"
      using fl.read_mode_read16 [OF assms(1,2), of "?b - FLASH_BASE"] that al
      by (auto simp: flash_end_def unat_sub word_le_nat_alt)
    obtain b where b: "b = ?b" by simp
    show ?thesis
      using assms(3) high_not_low [of b] fr low ev a28_id [OF lt]
      unfolding fetch16_def read16_general_def Let_def b [symmetric] classify_def sram_read16_def
      by (auto simp: word_less_nat_alt word_le_nat_alt unat_sub)
  qed
  then show ?thesis by (simp only: bus_read16_fast_paths [OF assms(1)])
qed

section \<open>Word memory: the contract of the stack operations\<close>

text \<open>
  A word memory is loaded and stored at good addresses; \<open>peek\<close> is its contents. Loading
  does not change it, storing changes one cell. The stack discipline of the CPU (push, pop,
  call, return, trap entry and return) rests on nothing else.
\<close>

locale word_memory =
  fixes load :: "u32 \<Rightarrow> 'm \<Rightarrow> u32 \<times> 'm"
    and store :: "u32 \<Rightarrow> u32 \<Rightarrow> 'm \<Rightarrow> 'm"
    and good :: "'m \<Rightarrow> u32 \<Rightarrow> bool"
    and peek :: "'m \<Rightarrow> u32 \<Rightarrow> u32"
  assumes load_val: "good m a \<Longrightarrow> fst (load a m) = peek m a"
    and load_peek: "good m a \<Longrightarrow> peek (snd (load a m)) b = peek m b"
    and load_good: "good m a \<Longrightarrow> good (snd (load a m)) b = good m b"
    and store_same: "good m a \<Longrightarrow> peek (store a v m) a = v"
    and store_other: "good m a \<Longrightarrow> good m b \<Longrightarrow> a \<noteq> b \<Longrightarrow> peek (store a v m) b = peek m b"
    and store_good: "good m a \<Longrightarrow> good (store a v m) b = good m b"
begin

lemma load_store: "good m a \<Longrightarrow> fst (load a (store a v m)) = v"
  by (simp add: load_val store_good store_same)

lemma two_cells:
  assumes "good m a" "good m b" "a \<noteq> b"
  shows "fst (load a (store b y (store a x m))) = x" "fst (load b (store b y (store a x m))) = y"
    "fst (load b (snd (load a (store b y (store a x m))))) = y"
    "fst (load a (snd (load b (store b y (store a x m))))) = x"
  using assms by (simp_all add: load_val store_good store_same store_other load_peek load_good)

end

definition word_at :: "'d machine \<Rightarrow> u32 \<Rightarrow> bool" where
  "word_at m a \<longleftrightarrow> in_sram m a 4 \<and> unat a mod 4 = 0"

definition peek32 :: "'d machine \<Rightarrow> u32 \<Rightarrow> u32" where
  "peek32 m a = le32 (sram (bus m)) (sram_off a)"

lemma words_apart:
  "x \<noteq> y \<Longrightarrow> x mod 4 = 0 \<Longrightarrow> y mod 4 = 0 \<Longrightarrow> c \<le> x \<Longrightarrow> c \<le> y \<Longrightarrow> x - c + 3 < y - c \<or> y - c + 3 < x - (c :: nat)"
  by presburger

lemma word_atD: "word_at m a \<Longrightarrow> in_sram m a 4" "word_at m a \<Longrightarrow> unat a mod 4 = 0"
  by (simp_all add: word_at_def)

interpretation wm: word_memory "read32 w" "write32 w" word_at peek32 for w :: "'d wiring"
proof unfold_locales
  fix m :: "'d machine" and a b v
  assume a: "word_at m a"
  note h = read32_sram [OF word_atD [OF a]] write32_sram [OF word_atD [OF a]]
  have room: "sram_off a + 3 < length (sram (bus m))"
    using in_sramD(7) [OF word_atD(1) [OF a]] by linarith
  show "fst (read32 w a m) = peek32 m a" by (simp add: h peek32_def)
  show "peek32 (snd (read32 w a m)) b = peek32 m b" by (simp add: h peek32_def)
  show "word_at (snd (read32 w a m)) b = word_at m b" by (simp add: h word_at_def)
  show "peek32 (write32 w a v m) a = v" using room by (simp add: h peek32_def)
  show "word_at (write32 w a v m) b = word_at m b" by (simp add: h word_at_def)
  show "peek32 (write32 w a v m) b = peek32 m b" if b: "word_at m b" and ne: "a \<noteq> b"
  proof -
    have "unat a \<noteq> unat b" using ne by (auto dest: unsigned_word_eqI)
    then have "sram_off a + 3 < sram_off b \<or> sram_off b + 3 < sram_off a"
      using a b words_apart [of "unat a" "unat b" "0x100000"]
      by (simp add: word_at_def in_sram_def sram_off_def)
    then show ?thesis by (simp add: h peek32_def le32_put_le32_other)
  qed
qed

section \<open>Witnesses\<close>

definition sample_bus :: "unit machine" where
  "sample_bus = \<lparr> cpu = cpu_init, bus = bus_create 4096 65536, dev = (), diag_log = [],
     breakpoints = {}, strict = False \<rparr>"

lemma sample_bus_parts:
  "sram (bus sample_bus) = replicate 4096 0" "watchpoints (bus sample_bus) = []"
  "flash (bus sample_bus) = FlatFlashRom (replicate 65536 0xFF)" "cpu sample_bus = cpu_init"
  by (simp_all add: sample_bus_def bus_create_def flat_create_def)

lemma sample_bus_sram: "in_sram sample_bus 0x100010 4"
  by (simp add: in_sram_def sample_bus_parts)

lemma sample_bus_flash: "flash_ok (flash (bus sample_bus))" "flash_read_mode (flash (bus sample_bus))"
  by (auto simp: sample_bus_parts pow2_size_def intro!: exI [of _ 16])

lemma bus_store_load_bytes_witness:
  "fst (read32 no_wiring 0x100010 (write32 no_wiring 0x100010 0x12345678 sample_bus)) = 0x12345678"
  using bus_store_load_bytes [OF sample_bus_sram, of 0 no_wiring "0x12345678"] by simp

lemma bus_store_frame_witness:
  "cpu (write32 no_wiring 0x100010 7 sample_bus) = cpu_init"
  using bus_store_frame [OF sample_bus_sram, of no_wiring 7] by (simp add: sample_bus_parts)

lemma bus_word_is_two_halfwords_witness:
  "write32 no_wiring 0x100010 7 sample_bus
    = write16 no_wiring 0x100012 0 (write16 no_wiring 0x100010 7 sample_bus)"
  using bus_word_is_two_halfwords [OF sample_bus_sram, of no_wiring 7] by simp

lemma bus_misaligned_witness:
  "read32 no_wiring 0x100011 sample_bus =
    read32 no_wiring (a28 0x100011 AND NOT 3) (misalign ''misalign_read32'' sample_bus)"
  using bus_misaligned [of "0x100011" no_wiring sample_bus 0 "[]"] by simp

lemma bus_sram_open_bus_witness: "fst (read32 no_wiring 0x140000 sample_bus) = 0xFFFFFFFF"
  using bus_sram_open_bus [of "0x140000" sample_bus no_wiring 0 0 0] by (simp add: sample_bus_parts)

lemma bus_read16_fast_paths_witness:
  "read16 no_wiring 0xC00002 sample_bus = read16_general no_wiring 0xC00002 sample_bus"
  by (rule bus_read16_fast_paths [OF sample_bus_flash(1)])

lemma bus_fetch_is_read_witness:
  "fst (fetch16 0x100010 sample_bus) = fst (read16 no_wiring (a28 0x100010 AND NOT 1) sample_bus)"
  by (rule bus_fetch_is_read [OF sample_bus_flash])
    (simp add: classify_def a28_def Let_def)

end
