(* ===== verification/Decode.thy ===== *)
theory Decode
  imports Prelude
begin

text \<open>
  Instruction words: the field accessors of \<^verbatim>\<open>src/core/insn.hpp\<close>, the classification
  of \<^verbatim>\<open>cpu_core.cpp\<close> (which instructions take an EXT prefix, which may stand in a delay
  slot) and the dispatch table of \<^verbatim>\<open>cpu_dispatch.cpp\<close>, whose function pointers are the
  constructors of \<open>handler\<close>.
\<close>

section \<open>Fields\<close>

definition cls :: "u16 \<Rightarrow> nat" where "cls i = unat (drop_bit 13 i AND 7)"
definition op1 :: "u16 \<Rightarrow> nat" where "op1 i = unat (drop_bit 10 i AND 7)"
definition op2 :: "u16 \<Rightarrow> nat" where "op2 i = unat (drop_bit 8 i AND 3)"
definition c0_op1 :: "u16 \<Rightarrow> nat" where "c0_op1 i = unat (drop_bit 9 i AND 0xF)"
definition c0_op2 :: "u16 \<Rightarrow> nat" where "c0_op2 i = unat (drop_bit 6 i AND 3)"
definition rd :: "u16 \<Rightarrow> nat" where "rd i = unat (i AND 0xF)"
definition rs :: "u16 \<Rightarrow> nat" where "rs i = unat (drop_bit 4 i AND 0xF)"
definition rb :: "u16 \<Rightarrow> nat" where "rb i = unat (drop_bit 4 i AND 0xF)"
definition dbit :: "u16 \<Rightarrow> bool" where "dbit i = (drop_bit 8 i AND 1 \<noteq> 0)"
definition imm2 :: "u16 \<Rightarrow> nat" where "imm2 i = unat (i AND 3)"
definition imm3 :: "u16 \<Rightarrow> nat" where "imm3 i = unat (i AND 7)"
definition imm6 :: "u16 \<Rightarrow> u32" where "imm6 i = ucast (drop_bit 4 i AND 0x3F)"
definition imm10 :: "u16 \<Rightarrow> u32" where "imm10 i = ucast (i AND 0x3FF)"
definition imm13 :: "u16 \<Rightarrow> u32" where "imm13 i = ucast (i AND 0x1FFF)"
definition sign8 :: "u16 \<Rightarrow> u32" where "sign8 i = ucast (i AND 0xFF)"

definition shift_amt :: "u16 \<Rightarrow> nat" where
  "shift_amt i = (let v = drop_bit 4 i AND 0xF in if v AND 8 \<noteq> 0 then 8 else unat v)"

section \<open>EXT capability\<close>

definition ext_capable :: "u16 \<Rightarrow> bool" where
  "ext_capable i =
    (let c = cls i
     in if c = 6 then True
        else if c = 7 then False
        else if c = 0 then c0_op1 i \<ge> 4
        else if c = 1 then
          (if op2 i = 0 then True
           else if op2 i = 1 then False
           else if op2 i = 2 then op1 i \<noteq> 3 \<and> op1 i \<noteq> 7
           else False)
        else if c = 2 then True
        else if c = 3 then True
        else if c = 4 then False
        else if c = 5 then
          (if op2 i = 0 then op1 i \<ge> 2 \<and> op1 i \<le> 5 else False)
        else False)"

section \<open>Delay-slot class\<close>

datatype delay_class = DC_OK | DC_HARD | DC_SOFT

definition delay_slot_class :: "u16 \<Rightarrow> delay_class" where
  "delay_slot_class i =
    (let c = cls i
     in if c = 6 then DC_HARD
        else if c = 7 then DC_HARD
        else if c = 0 then
          (if c0_op1 i < 4 \<and> c0_op1 i = 0 \<and> c0_op2 i = 0 then DC_OK
           else if c0_op1 i < 4 \<and> c0_op1 i = 0 \<and> c0_op2 i \<le> 2 then DC_SOFT
           else DC_HARD)
        else if c = 1 then
          (if op2 i = 0 then DC_HARD
           else if op2 i = 1 then DC_HARD
           else if op2 i = 2 then DC_OK
           else DC_HARD)
        else if c = 2 then DC_HARD
        else if c = 3 then DC_OK
        else if c = 4 then
          (if op1 i \<le> 1 then DC_OK
           else if op2 i \<le> 1 then DC_OK
           else if op2 i = 2 then DC_OK
           else if op2 i = 3 then DC_SOFT
           else DC_HARD)
        else if c = 5 then
          (if op2 i = 0 then
             (if op1 i = 0 \<or> op1 i = 1 then DC_OK
              else if op1 i = 2 \<or> op1 i = 3 \<or> op1 i = 4 \<or> op1 i = 5 then DC_HARD
              else if op1 i = 6 \<or> op1 i = 7 then DC_OK
              else DC_HARD)
           else if op2 i = 1 then DC_SOFT
           else if op2 i = 2 then
             (if op1 i = 0 \<or> op1 i = 1 then DC_OK
              else if op1 i = 2 \<or> op1 i = 3 then DC_HARD
              else if op1 i = 4 then DC_HARD
              else DC_HARD)
           else DC_HARD)
        else DC_HARD)"

section \<open>Handlers and the dispatch table\<close>

text \<open>The handler functions, grouped as the files \<^verbatim>\<open>cpu_class0.cpp\<close> to \<^verbatim>\<open>cpu_class5.cpp\<close>.\<close>

datatype class0 = H_nop | H_slp | H_halt | H_pushn | H_popn | H_brk | H_retd | H_int | H_reti
  | H_call_rb | H_ret | H_jp_rb
  | H_jrgt | H_jrge | H_jrlt | H_jrle | H_jrugt | H_jruge | H_jrult | H_jrule | H_jreq | H_jrne
  | H_call_simm8 | H_jp_simm8

datatype class1 = H_ld_b_rd_rb | H_ld_ub_rd_rb | H_ld_h_rd_rb | H_ld_uh_rd_rb | H_ld_w_rd_rb
  | H_st_b_rb_rs | H_st_h_rb_rs | H_st_w_rb_rs
  | H_ld_b_rd_rbx | H_ld_ub_rd_rbx | H_ld_h_rd_rbx | H_ld_uh_rd_rbx | H_ld_w_rd_rbx
  | H_st_b_rbx_rs | H_st_h_rbx_rs | H_st_w_rbx_rs
  | H_add_rd_rs | H_sub_rd_rs | H_cmp_rd_rs | H_ld_w_rd_rs | H_and_rd_rs | H_or_rd_rs
  | H_xor_rd_rs | H_not_rd_rs

datatype class2 = H_ld_b_rd_sp | H_ld_ub_rd_sp | H_ld_h_rd_sp | H_ld_uh_rd_sp | H_ld_w_rd_sp
  | H_st_b_sp_rs | H_st_h_sp_rs | H_st_w_sp_rs

datatype class3 = H_add_rd_imm6 | H_sub_rd_imm6 | H_cmp_rd_simm6 | H_ld_w_rd_simm6
  | H_and_rd_simm6 | H_or_rd_simm6 | H_xor_rd_simm6 | H_not_rd_simm6

datatype class4 = H_add_sp_imm10 | H_sub_sp_imm10
  | H_srl_rd_imm4 | H_sll_rd_imm4 | H_sra_rd_imm4 | H_sla_rd_imm4 | H_rr_rd_imm4 | H_rl_rd_imm4
  | H_srl_rd_rs | H_sll_rd_rs | H_sra_rd_rs | H_sla_rd_rs | H_rr_rd_rs | H_rl_rd_rs
  | H_scan0 | H_scan1 | H_swap | H_mirror
  | H_div0s | H_div0u | H_div1 | H_div2s | H_div3s

datatype class5 = H_ld_w_sd_rs | H_ld_w_rd_ss | H_btst | H_bclr | H_bset | H_bnot | H_adc | H_sbc
  | H_ld_b_rd_rs2 | H_ld_ub_rd_rs2 | H_ld_h_rd_rs2 | H_ld_uh_rd_rs2
  | H_mlt_h | H_mltu_h | H_mlt_w | H_mltu_w | H_mac

datatype handler = H_undef | C0 class0 | C1 class1 | C2 class2 | C3 class3 | C4 class4 | C5 class5
  | H_ext

text \<open>A switch on a small field: the listed handlers in order, undefined past the end.\<close>

definition sel :: "('h \<Rightarrow> handler) \<Rightarrow> 'h list \<Rightarrow> nat \<Rightarrow> handler" where
  "sel f hs k = (if k < length hs then f (hs ! k) else H_undef)"

definition table_0a :: "nat \<Rightarrow> nat \<Rightarrow> handler" where
  "table_0a o1 o2 =
    (if o1 = 0 then sel C0 [H_nop, H_slp, H_halt] o2
     else if o1 = 1 then sel C0 [H_pushn, H_popn] o2
     else if o1 = 2 then sel C0 [H_brk, H_retd, H_int, H_reti] o2
     else sel C0 [H_call_rb, H_ret, H_jp_rb] o2)"

definition table_0b :: "nat \<Rightarrow> handler" where
  "table_0b o1 = sel C0 [H_jrgt, H_jrge, H_jrlt, H_jrle, H_jrugt, H_jruge, H_jrult, H_jrule,
     H_jreq, H_jrne, H_call_simm8, H_jp_simm8] (o1 - 4)"

definition table_1 :: "nat \<Rightarrow> nat \<Rightarrow> handler" where
  "table_1 o2 o1 =
    (if o2 = 0 then sel C1 [H_ld_b_rd_rb, H_ld_ub_rd_rb, H_ld_h_rd_rb, H_ld_uh_rd_rb, H_ld_w_rd_rb,
       H_st_b_rb_rs, H_st_h_rb_rs, H_st_w_rb_rs] o1
     else if o2 = 1 then sel C1 [H_ld_b_rd_rbx, H_ld_ub_rd_rbx, H_ld_h_rd_rbx, H_ld_uh_rd_rbx,
       H_ld_w_rd_rbx, H_st_b_rbx_rs, H_st_h_rbx_rs, H_st_w_rbx_rs] o1
     else if o2 = 2 then sel C1 [H_add_rd_rs, H_sub_rd_rs, H_cmp_rd_rs, H_ld_w_rd_rs, H_and_rd_rs,
       H_or_rd_rs, H_xor_rd_rs, H_not_rd_rs] o1
     else H_undef)"

definition table_2 :: "nat \<Rightarrow> handler" where
  "table_2 o1 = sel C2 [H_ld_b_rd_sp, H_ld_ub_rd_sp, H_ld_h_rd_sp, H_ld_uh_rd_sp, H_ld_w_rd_sp,
     H_st_b_sp_rs, H_st_h_sp_rs, H_st_w_sp_rs] o1"

definition table_3 :: "nat \<Rightarrow> handler" where
  "table_3 o1 = sel C3 [H_add_rd_imm6, H_sub_rd_imm6, H_cmp_rd_simm6, H_ld_w_rd_simm6,
     H_and_rd_simm6, H_or_rd_simm6, H_xor_rd_simm6, H_not_rd_simm6] o1"

text \<open>Class 4: the shift, scan and division switches start at \<open>op1 = 2\<close>.\<close>

definition table_4 :: "nat \<Rightarrow> nat \<Rightarrow> handler" where
  "table_4 o1 o2 =
    (if o1 = 0 then C4 H_add_sp_imm10
     else if o1 = 1 then C4 H_sub_sp_imm10
     else if o2 = 0 then sel C4 [H_srl_rd_imm4, H_sll_rd_imm4, H_sra_rd_imm4, H_sla_rd_imm4,
       H_rr_rd_imm4, H_rl_rd_imm4] (o1 - 2)
     else if o2 = 1 then sel C4 [H_srl_rd_rs, H_sll_rd_rs, H_sra_rd_rs, H_sla_rd_rs,
       H_rr_rd_rs, H_rl_rd_rs] (o1 - 2)
     else if o2 = 2 then sel C4 [H_scan0, H_scan1, H_swap, H_mirror] (o1 - 2)
     else sel C4 [H_div0s, H_div0u, H_div1, H_div2s, H_div3s] (o1 - 2))"

definition table_5 :: "nat \<Rightarrow> nat \<Rightarrow> handler" where
  "table_5 o2 o1 =
    (if o2 = 0 then sel C5 [H_ld_w_sd_rs, H_ld_w_rd_ss, H_btst, H_bclr, H_bset, H_bnot, H_adc, H_sbc] o1
     else if o2 = 1 then sel C5 [H_ld_b_rd_rs2, H_ld_ub_rd_rs2, H_ld_h_rd_rs2, H_ld_uh_rd_rs2] o1
     else if o2 = 2 then sel C5 [H_mlt_h, H_mltu_h, H_mlt_w, H_mltu_w, H_mac] o1
     else H_undef)"

definition dispatch :: "u16 \<Rightarrow> handler" where
  "dispatch i =
    (let c = cls i
     in if c = 6 then H_ext
        else if c = 7 then H_undef
        else if c = 0 then (if c0_op1 i < 4 then table_0a (c0_op1 i) (c0_op2 i) else table_0b (c0_op1 i))
        else if c = 1 then table_1 (op2 i) (op1 i)
        else if c = 2 then table_2 (op1 i)
        else if c = 3 then table_3 (op1 i)
        else if c = 4 then table_4 (op1 i) (op2 i)
        else if c = 5 then table_5 (op2 i) (op1 i)
        else H_undef)"

section \<open>Field bounds\<close>

lemma and_bound: "unat ((w :: u16) AND mask k) < 2 ^ k"
proof -
  have "unat (w AND mask k) = unat w mod 2 ^ k"
    by (simp only: take_bit_eq_mask [symmetric] unat_take_bit_mod)
  then show ?thesis by simp
qed

lemma field_masks: "(7 :: u16) = mask 3" "(3 :: u16) = mask 2" "(0xF :: u16) = mask 4"
  by (simp_all add: mask_eq_exp_minus_1)

lemma field_bounds:
  "cls i < 8" "op1 i < 8" "op2 i < 4" "c0_op1 i < 16" "c0_op2 i < 4" "rd i < 16" "rs i < 16" "rb i < 16"
  unfolding cls_def op1_def op2_def c0_op1_def c0_op2_def rd_def rs_def rb_def field_masks
  using and_bound [of _ 3] and_bound [of _ 2] and_bound [of _ 4] by simp_all

end
