(* ===== verification/CpuCore.thy ===== *)
theory CpuCore
  imports Bus Decode
begin

text \<open>
  The parts of \<^verbatim>\<open>cpu.hpp\<close>, \<^verbatim>\<open>cpu_impl.hpp\<close> and \<^verbatim>\<open>cpu_core.cpp\<close> that all instruction handlers share:
  the flags of the processor status register, the EXT operand helpers, the ALU core,
  diagnostics, the stack primitives and trap entry.
\<close>

section \<open>PSR\<close>

definition psr_n :: "u32 \<Rightarrow> bool" where "psr_n raw = bit raw 0"
definition psr_z :: "u32 \<Rightarrow> bool" where "psr_z raw = bit raw 1"
definition psr_v :: "u32 \<Rightarrow> bool" where "psr_v raw = bit raw 2"
definition psr_c :: "u32 \<Rightarrow> bool" where "psr_c raw = bit raw 3"
definition psr_ie :: "u32 \<Rightarrow> bool" where "psr_ie raw = bit raw 4"
definition psr_ds :: "u32 \<Rightarrow> bool" where "psr_ds raw = bit raw 6"
definition psr_mo :: "u32 \<Rightarrow> bool" where "psr_mo raw = bit raw 7"
definition psr_il :: "u32 \<Rightarrow> u32" where "psr_il raw = drop_bit 8 raw AND 0xF"

definition set_n :: "bool \<Rightarrow> u32 \<Rightarrow> u32" where "set_n b = put_flag 0 b"
definition set_z :: "bool \<Rightarrow> u32 \<Rightarrow> u32" where "set_z b = put_flag 1 b"
definition set_v :: "bool \<Rightarrow> u32 \<Rightarrow> u32" where "set_v b = put_flag 2 b"
definition set_c :: "bool \<Rightarrow> u32 \<Rightarrow> u32" where "set_c b = put_flag 3 b"
definition set_ie :: "bool \<Rightarrow> u32 \<Rightarrow> u32" where "set_ie b = put_flag 4 b"
definition set_ds :: "bool \<Rightarrow> u32 \<Rightarrow> u32" where "set_ds b = put_flag 6 b"
definition set_mo :: "bool \<Rightarrow> u32 \<Rightarrow> u32" where "set_mo b = put_flag 7 b"
definition set_il :: "u32 \<Rightarrow> u32 \<Rightarrow> u32" where
  "set_il lv raw = (raw AND NOT (push_bit 8 0xF)) OR push_bit 8 (lv AND 0xF)"

definition set_nz :: "u32 \<Rightarrow> u32 \<Rightarrow> u32" where
  "set_nz result raw = set_z (result = 0) (set_n (bit result 31) raw)"

definition set_nzvc_add :: "u32 \<Rightarrow> u32 \<Rightarrow> u64 \<Rightarrow> u32 \<Rightarrow> u32" where
  "set_nzvc_add a b r64 raw =
    (let r = (ucast r64 :: u32)
     in set_v (bit (NOT (a XOR b) AND (a XOR r)) 31)
          (set_c (drop_bit 32 r64 \<noteq> 0) (set_z (r = 0) (set_n (bit r 31) raw))))"

definition set_nzvc_sub :: "u32 \<Rightarrow> u32 \<Rightarrow> u64 \<Rightarrow> u32 \<Rightarrow> u32" where
  "set_nzvc_sub a b r64 raw =
    (let r = (ucast r64 :: u32)
     in set_v (bit ((a XOR b) AND (a XOR r)) 31)
          (set_c (drop_bit 32 r64 \<noteq> 0) (set_z (r = 0) (set_n (bit r 31) raw))))"

lemmas flag_get_defs [flag_defs] = psr_n_def psr_z_def psr_v_def psr_c_def psr_ie_def psr_ds_def psr_mo_def
lemmas flag_set_defs [flag_defs] = set_n_def set_z_def set_v_def set_c_def set_ie_def set_ds_def set_mo_def

section \<open>Register and EXT helpers\<close>

definition set_reg :: "nat \<Rightarrow> u32 \<Rightarrow> cpu_state \<Rightarrow> cpu_state" where
  "set_reg i v c = c\<lparr>gpr := (gpr c)(i := v)\<rparr>"

definition sign_ext :: "u32 \<Rightarrow> nat \<Rightarrow> u32" where
  "sign_ext v bits = (if bits \<ge> 32 then v else (v XOR 2 ^ (bits - 1)) - 2 ^ (bits - 1))"

definition ext_imm :: "cpu_state \<Rightarrow> u32 \<Rightarrow> nat \<Rightarrow> u32" where
  "ext_imm c imm width =
    (let raw = imm AND (2 ^ width - 1)
     in if pending_ext_count c = 0 then raw
        else if pending_ext_count c = 1 then push_bit width (pending_ext c 0) OR raw
        else push_bit (13 + width) (pending_ext c 0) OR push_bit width (pending_ext c 1) OR raw)"

definition ext_simm :: "cpu_state \<Rightarrow> u32 \<Rightarrow> nat \<Rightarrow> u32" where
  "ext_simm c imm width =
    (let raw = imm AND (2 ^ width - 1)
     in if pending_ext_count c = 0 then sign_ext raw width
        else if pending_ext_count c = 1
        then sign_ext (push_bit width (pending_ext c 0) OR raw) (13 + width)
        else let combined = push_bit (13 + width) (ucast (pending_ext c 0) :: u64)
                    OR push_bit width (ucast (pending_ext c 1)) OR ucast raw;
                 total_bits = 26 + width
             in if total_bits \<ge> 32 then ucast combined
                else ucast ((combined XOR 2 ^ (total_bits - 1)) - 2 ^ (total_bits - 1)))"

definition ext_rb :: "cpu_state \<Rightarrow> u32" where
  "ext_rb c =
    (if pending_ext_count c = 0 then 0
     else if pending_ext_count c = 1 then pending_ext c 0
     else push_bit 13 (pending_ext c 0) OR pending_ext c 1)"

definition ext_pcrel :: "cpu_state \<Rightarrow> u32 \<Rightarrow> u32" where
  "ext_pcrel c imm8 =
    (let raw = imm8 AND 0xFF
     in if pending_ext_count c = 0 then sign_ext raw 8
        else if pending_ext_count c = 1 then sign_ext (push_bit 8 (pending_ext c 0) OR raw) 21
        else let combined = (raw AND 0xFF) OR push_bit 8 (pending_ext c 1)
                    OR push_bit 21 (drop_bit 3 (pending_ext c 0))
             in if combined AND push_bit 30 1 \<noteq> 0 then combined OR 0x80000000 else combined)"

definition flush_ext :: "cpu_state \<Rightarrow> cpu_state" where
  "flush_ext c = c\<lparr>pending_ext_count := 0\<rparr>"

section \<open>The ALU core\<close>

datatype alu_op = AluADD | AluSUB | AluCMP | AluMOV | AluAND | AluOR | AluXOR | AluNOT

definition add64 :: "u32 \<Rightarrow> u32 \<Rightarrow> u64" where "add64 a b = ucast a + ucast b"
definition sub64 :: "u32 \<Rightarrow> u32 \<Rightarrow> u64" where "sub64 a b = ucast a - ucast b"

definition logic_result :: "nat \<Rightarrow> u32 \<Rightarrow> cpu_state \<Rightarrow> cpu_state" where
  "logic_result d r c = (set_reg d r c)\<lparr>psr := set_nz r (psr c)\<rparr>"

fun do_alu :: "alu_op \<Rightarrow> u32 \<Rightarrow> u32 \<Rightarrow> nat \<Rightarrow> cpu_state \<Rightarrow> cpu_state" where
  "do_alu AluADD a b d c = (set_reg d (ucast (add64 a b)) c)\<lparr>psr := set_nzvc_add a b (add64 a b) (psr c)\<rparr>"
| "do_alu AluSUB a b d c = (set_reg d (ucast (sub64 a b)) c)\<lparr>psr := set_nzvc_sub a b (sub64 a b) (psr c)\<rparr>"
| "do_alu AluCMP a b d c = c\<lparr>psr := set_nzvc_sub a b (sub64 a b) (psr c)\<rparr>"
| "do_alu AluMOV a b d c = set_reg d b c"
| "do_alu AluAND a b d c = logic_result d (a AND b) c"
| "do_alu AluOR a b d c = logic_result d (a OR b) c"
| "do_alu AluXOR a b d c = logic_result d (a XOR b) c"
| "do_alu AluNOT a b d c = logic_result d (NOT b) c"

section \<open>Diagnostics\<close>

definition diag_warn :: "string \<Rightarrow> u32 \<Rightarrow> 'd machine \<Rightarrow> 'd machine" where
  "diag_warn cat at m = report DiagWarning cat at m"

definition diag_fault :: "string \<Rightarrow> u32 \<Rightarrow> 'd machine \<Rightarrow> 'd machine" where
  "diag_fault cat at m = cpu_update (\<lambda>c. c\<lparr>fault := True, in_halt := True\<rparr>) (report DiagFault cat at m)"

definition diag_warn_or_fault :: "string \<Rightarrow> u32 \<Rightarrow> 'd machine \<Rightarrow> 'd machine" where
  "diag_warn_or_fault cat at m = (if strict m then diag_fault cat at m else diag_warn cat at m)"

text \<open>
  Formatting a diagnostic calls \<open>disasm\<close>, which reads the instruction through
  \<open>Bus::fetch16\<close>: the text is left out, the wait cycles it charges are not.
\<close>

definition disasm_fetch :: "u32 \<Rightarrow> 'd machine \<Rightarrow> 'd machine" where
  "disasm_fetch at m = snd (fetch16 at m)"

section \<open>Stack primitives\<close>

text \<open>\<open>sp -= 4; bus.write32(sp, v)\<close> and \<open>v = bus.read32(sp); sp += 4\<close>.\<close>

definition push32 :: "'d wiring \<Rightarrow> u32 \<Rightarrow> 'd machine \<Rightarrow> 'd machine" where
  "push32 w v m = write32 w (sp (cpu m) - 4) v (cpu_update (\<lambda>c. c\<lparr>sp := sp c - 4\<rparr>) m)"

definition pop32 :: "'d wiring \<Rightarrow> 'd machine \<Rightarrow> u32 \<times> 'd machine" where
  "pop32 w m = (case read32 w (sp (cpu m)) m of
     (v, m1) \<Rightarrow> (v, cpu_update (\<lambda>c. c\<lparr>sp := sp c + 4\<rparr>) m1))"

section \<open>Traps and branches\<close>

definition trap_masked :: "int \<Rightarrow> int \<Rightarrow> cpu_state \<Rightarrow> bool" where
  "trap_masked no level c \<longleftrightarrow>
    no \<ge> 16 \<and> (\<not> psr_ie (psr c) \<or> (word_of_int level :: u32) \<le> psr_il (psr c))"

definition trap_deferred :: "cpu_state \<Rightarrow> bool" where
  "trap_deferred c \<longleftrightarrow> pending_ext_count c > 0 \<or> in_delay_slot c"

definition enter_trap :: "'d wiring \<Rightarrow> int \<Rightarrow> int \<Rightarrow> 'd machine \<Rightarrow> 'd machine" where
  "enter_trap w no level m =
    (case read32 w (ttbr (cpu m) + word_of_int (no * 4)) m of (vec, m1) \<Rightarrow>
      let m2 = push32 w (pc (cpu m1)) m1;
          m3 = push32 w (psr (cpu m2)) m2
      in cpu_update (\<lambda>c. c\<lparr>pc := vec,
           psr := (if no \<ge> 16 then set_il (word_of_int level) (set_ie False (psr c)) else set_ie False (psr c)),
           in_halt := False, halt_mode := HaltNone\<rparr>) m3)"

definition do_trap :: "'d wiring \<Rightarrow> int \<Rightarrow> int \<Rightarrow> 'd machine \<Rightarrow> 'd machine" where
  "do_trap w no level m =
    (if trap_masked no level (cpu m) then m
     else if trap_deferred (cpu m) then
       cpu_update (\<lambda>c. c\<lparr>deferred_trap_valid := True, deferred_trap_no := no,
         deferred_trap_level := level\<rparr>) m
     else enter_trap w no level m)"

definition assert_trap :: "'d wiring \<Rightarrow> int \<Rightarrow> int \<Rightarrow> 'd machine \<Rightarrow> 'd machine" where
  "assert_trap w no level m = do_trap w no level m"

definition do_branch :: "u32 \<Rightarrow> bool \<Rightarrow> cpu_state \<Rightarrow> cpu_state" where
  "do_branch target delayed c =
    (if \<not> delayed then c\<lparr>pc := target\<rparr> else c\<lparr>in_delay_slot := True, delay_target := target\<rparr>)"

definition cpu_reset :: "'d wiring \<Rightarrow> 'd machine \<Rightarrow> 'd machine" where
  "cpu_reset w m =
    (case read32 w FLASH_BASE (m\<lparr>cpu := cpu_init\<rparr>) of (v, m1) \<Rightarrow>
      cpu_update (\<lambda>c. c\<lparr>pc := v\<rparr>) m1)"

end
