(* ===== verification/CpuInsn.thy ===== *)
theory CpuInsn
  imports CpuCore
begin

text \<open>
  The instruction handlers, one group per source file \<^verbatim>\<open>cpu_class0.cpp\<close> to
  \<^verbatim>\<open>cpu_class6.cpp\<close>, and the call through the dispatch table. A handler takes the
  wiring, the instruction word and the machine whose PC is already past the instruction.
\<close>

abbreviation (input) on_cpu :: "(cpu_state \<Rightarrow> cpu_state) \<Rightarrow> 'd machine \<Rightarrow> 'd machine" where
  "on_cpu \<equiv> cpu_update"

definition flush :: "'d machine \<Rightarrow> 'd machine" where
  "flush m = on_cpu flush_ext m"

section \<open>Class 0: control flow\<close>

definition h_undef :: "u16 \<Rightarrow> 'd machine \<Rightarrow> 'd machine" where
  "h_undef i m =
    (let fault_pc = pc (cpu m) - 2; nexts = pending_ext_count (cpu m);
         m1 = (if nexts \<ge> 2 then disasm_fetch (fault_pc - 4) m else m);
         m2 = (if nexts \<ge> 1 then disasm_fetch (fault_pc - 2) m1 else m1)
     in diag_fault ''undef'' fault_pc m2)"

definition h_slp :: "'d machine \<Rightarrow> 'd machine" where
  "h_slp m = on_cpu (\<lambda>c. c\<lparr>in_halt := True, halt_mode := Slp\<rparr>) (flush m)"

definition h_halt :: "'d machine \<Rightarrow> 'd machine" where
  "h_halt m = on_cpu (\<lambda>c. c\<lparr>in_halt := True, halt_mode := Hlt\<rparr>) (flush m)"

text \<open>\<open>for (i = n; i >= 0; i--)\<close> push \<open>r[i]\<close>; \<open>for (i = 0; i <= n; i++)\<close> pop \<open>r[i]\<close>.\<close>

fun push_regs :: "'d wiring \<Rightarrow> nat \<Rightarrow> 'd machine \<Rightarrow> 'd machine" where
  "push_regs w 0 m = push32 w (gpr (cpu m) 0) m"
| "push_regs w (Suc i) m = push_regs w i (push32 w (gpr (cpu m) (Suc i)) m)"

definition pop_reg :: "'d wiring \<Rightarrow> nat \<Rightarrow> 'd machine \<Rightarrow> 'd machine" where
  "pop_reg w i m = (case read32 w (sp (cpu m)) m of
     (v, m1) \<Rightarrow> on_cpu (\<lambda>c. (set_reg i v c)\<lparr>sp := sp c + 4\<rparr>) m1)"

definition pop_regs :: "'d wiring \<Rightarrow> nat \<Rightarrow> 'd machine \<Rightarrow> 'd machine" where
  "pop_regs w n m = fold (pop_reg w) [0 ..< n + 1] m"

definition h_pushn :: "'d wiring \<Rightarrow> u16 \<Rightarrow> 'd machine \<Rightarrow> 'd machine" where
  "h_pushn w i m = push_regs w (rd i) (flush m)"

definition h_popn :: "'d wiring \<Rightarrow> u16 \<Rightarrow> 'd machine \<Rightarrow> 'd machine" where
  "h_popn w i m = pop_regs w (rd i) (flush m)"

definition h_brk :: "'d wiring \<Rightarrow> 'd machine \<Rightarrow> 'd machine" where
  "h_brk w m = do_trap w 0 0 (flush m)"

definition h_retd :: "'d wiring \<Rightarrow> 'd machine \<Rightarrow> 'd machine" where
  "h_retd w m =
    (case pop32 w (flush m) of (ret_addr, m1) \<Rightarrow>
     case read32 w (sp (cpu m1)) m1 of (p, m2) \<Rightarrow>
       on_cpu (\<lambda>c. c\<lparr>psr := p, sp := sp c + 4, in_delay_slot := True, delay_target := ret_addr\<rparr>) m2)"

definition h_int :: "'d wiring \<Rightarrow> u16 \<Rightarrow> 'd machine \<Rightarrow> 'd machine" where
  "h_int w i m = do_trap w (12 + int (imm2 i)) 0 (flush m)"

definition h_reti :: "'d wiring \<Rightarrow> 'd machine \<Rightarrow> 'd machine" where
  "h_reti w m =
    (case read32 w (sp (cpu (flush m))) (flush m) of (p, m1) \<Rightarrow>
     case pop32 w (on_cpu (\<lambda>c. c\<lparr>psr := p, sp := sp c + 4\<rparr>) m1) of (ret_addr, m2) \<Rightarrow>
       on_cpu (\<lambda>c. c\<lparr>pc := ret_addr\<rparr>) m2)"

text \<open>The tail of \<open>call\<close>: push the return address, note the caller, jump.\<close>

definition do_call :: "'d wiring \<Rightarrow> u32 \<Rightarrow> bool \<Rightarrow> 'd machine \<Rightarrow> 'd machine" where
  "do_call w target delayed m =
    (let m1 = push32 w (pc (cpu m) + (if delayed then 2 else 0)) m
     in on_cpu (\<lambda>c. do_branch target delayed (if delayed then c\<lparr>delay_caller := 2\<rparr> else c)) m1)"

definition h_call_rb :: "'d wiring \<Rightarrow> u16 \<Rightarrow> 'd machine \<Rightarrow> 'd machine" where
  "h_call_rb w i m = do_call w (gpr (cpu m) (rd i)) (dbit i) (flush m)"

definition h_ret :: "'d wiring \<Rightarrow> u16 \<Rightarrow> 'd machine \<Rightarrow> 'd machine" where
  "h_ret w i m =
    (case pop32 w (flush m) of (target, m1) \<Rightarrow>
       on_cpu (\<lambda>c. do_branch target (dbit i) (if dbit i then c\<lparr>delay_caller := 1\<rparr> else c)) m1)"

definition h_jp_rb :: "u16 \<Rightarrow> 'd machine \<Rightarrow> 'd machine" where
  "h_jp_rb i m =
    (let m1 = flush m
     in if dbit i then diag_fault ''jp_d_rb'' (pc (cpu m1) - 2) m1
        else on_cpu (\<lambda>c. do_branch (gpr c (rd i)) False c) m1)"

text \<open>PC-relative branches: \<open>target = insn_addr + 2 * disp\<close>.\<close>

definition pcrel_target :: "cpu_state \<Rightarrow> u16 \<Rightarrow> u32" where
  "pcrel_target c i = (pc c - 2) + 2 * ext_pcrel c (sign8 i)"

definition h_jr :: "u16 \<Rightarrow> bool \<Rightarrow> 'd machine \<Rightarrow> 'd machine" where
  "h_jr i taken m =
    on_cpu (\<lambda>c. let c1 = flush_ext c in if taken then do_branch (pcrel_target c i) (dbit i) c1 else c1) m"

definition h_call_simm8 :: "'d wiring \<Rightarrow> u16 \<Rightarrow> 'd machine \<Rightarrow> 'd machine" where
  "h_call_simm8 w i m = do_call w (pcrel_target (cpu m) i) (dbit i) (flush m)"

definition h_jp_simm8 :: "u16 \<Rightarrow> 'd machine \<Rightarrow> 'd machine" where
  "h_jp_simm8 i m = on_cpu (\<lambda>c. do_branch (pcrel_target c i) (dbit i) (flush_ext c)) m"

definition cond_lt :: "u32 \<Rightarrow> bool" where "cond_lt p = (psr_n p \<noteq> psr_v p)"

primrec exec0 :: "class0 \<Rightarrow> 'd wiring \<Rightarrow> u16 \<Rightarrow> 'd machine \<Rightarrow> 'd machine" where
  "exec0 H_nop w i m = flush m"
| "exec0 H_slp w i m = h_slp m"
| "exec0 H_halt w i m = h_halt m"
| "exec0 H_pushn w i m = h_pushn w i m"
| "exec0 H_popn w i m = h_popn w i m"
| "exec0 H_brk w i m = h_brk w m"
| "exec0 H_retd w i m = h_retd w m"
| "exec0 H_int w i m = h_int w i m"
| "exec0 H_reti w i m = h_reti w m"
| "exec0 H_call_rb w i m = h_call_rb w i m"
| "exec0 H_ret w i m = h_ret w i m"
| "exec0 H_jp_rb w i m = h_jp_rb i m"
| "exec0 H_jrgt w i m = h_jr i (\<not> cond_lt (psr (cpu m)) \<and> \<not> psr_z (psr (cpu m))) m"
| "exec0 H_jrge w i m = h_jr i (\<not> cond_lt (psr (cpu m))) m"
| "exec0 H_jrlt w i m = h_jr i (cond_lt (psr (cpu m))) m"
| "exec0 H_jrle w i m = h_jr i (cond_lt (psr (cpu m)) \<or> psr_z (psr (cpu m))) m"
| "exec0 H_jrugt w i m = h_jr i (\<not> psr_c (psr (cpu m)) \<and> \<not> psr_z (psr (cpu m))) m"
| "exec0 H_jruge w i m = h_jr i (\<not> psr_c (psr (cpu m))) m"
| "exec0 H_jrult w i m = h_jr i (psr_c (psr (cpu m))) m"
| "exec0 H_jrule w i m = h_jr i (psr_c (psr (cpu m)) \<or> psr_z (psr (cpu m))) m"
| "exec0 H_jreq w i m = h_jr i (psr_z (psr (cpu m))) m"
| "exec0 H_jrne w i m = h_jr i (\<not> psr_z (psr (cpu m))) m"
| "exec0 H_call_simm8 w i m = h_call_simm8 w i m"
| "exec0 H_jp_simm8 w i m = h_jp_simm8 i m"

section \<open>Classes 1 and 2: loads and stores\<close>

datatype width = W1 | W2 | W4

primrec width_bytes :: "width \<Rightarrow> u32" where
  "width_bytes W1 = 1" | "width_bytes W2 = 2" | "width_bytes W4 = 4"

text \<open>The \<open>Size\<close>/\<open>SignExtend\<close> template body: a load of that width, extended to 32 bits.\<close>

primrec load_val :: "width \<Rightarrow> bool \<Rightarrow> 'd wiring \<Rightarrow> u32 \<Rightarrow> 'd machine \<Rightarrow> u32 \<times> 'd machine" where
  "load_val W1 sx w ea m = (case read8 w ea m of (v, m1) \<Rightarrow> (if sx then sx8 v else ucast v, m1))"
| "load_val W2 sx w ea m = (case read16 w ea m of (v, m1) \<Rightarrow> (if sx then sx16 v else ucast v, m1))"
| "load_val W4 sx w ea m = read32 w ea m"

primrec store_val :: "width \<Rightarrow> 'd wiring \<Rightarrow> u32 \<Rightarrow> u32 \<Rightarrow> 'd machine \<Rightarrow> 'd machine" where
  "store_val W1 w ea v m = write8 w ea (ucast v) m"
| "store_val W2 w ea v m = write16 w ea (ucast v) m"
| "store_val W4 w ea v m = write32 w ea v m"

definition post_inc :: "width \<Rightarrow> bool \<Rightarrow> nat \<Rightarrow> cpu_state \<Rightarrow> cpu_state" where
  "post_inc sz inc b c = (if inc then set_reg b (gpr c b + width_bytes sz) c else c)"

definition do_load_rb :: "width \<Rightarrow> bool \<Rightarrow> bool \<Rightarrow> 'd wiring \<Rightarrow> u16 \<Rightarrow> 'd machine \<Rightarrow> 'd machine" where
  "do_load_rb sz sx inc w i m =
    (let ea = gpr (cpu m) (rb i) + ext_rb (cpu m)
     in case load_val sz sx w ea (flush m) of (v, m1) \<Rightarrow>
          on_cpu (\<lambda>c. post_inc sz inc (rb i) (set_reg (rd i) v c)) m1)"

definition do_store_rb :: "width \<Rightarrow> bool \<Rightarrow> 'd wiring \<Rightarrow> u16 \<Rightarrow> 'd machine \<Rightarrow> 'd machine" where
  "do_store_rb sz inc w i m =
    (let ea = gpr (cpu m) (rb i) + ext_rb (cpu m)
     in on_cpu (post_inc sz inc (rb i)) (store_val sz w ea (gpr (cpu m) (rd i)) (flush m)))"

definition do_alu_rr :: "alu_op \<Rightarrow> bool \<Rightarrow> u16 \<Rightarrow> 'd machine \<Rightarrow> 'd machine" where
  "do_alu_rr op has_ext3 i m =
    (if has_ext3 \<and> pending_ext_count (cpu m) \<noteq> 0
     then on_cpu (\<lambda>c. do_alu op (gpr c (rs i)) (ext_rb c) (rd i) (flush_ext c)) m
     else on_cpu (\<lambda>c. do_alu op (gpr c (rd i)) (gpr c (rs i)) (rd i) (flush_ext c)) m)"

primrec exec1 :: "class1 \<Rightarrow> 'd wiring \<Rightarrow> u16 \<Rightarrow> 'd machine \<Rightarrow> 'd machine" where
  "exec1 H_ld_b_rd_rb w i m = do_load_rb W1 True False w i m"
| "exec1 H_ld_ub_rd_rb w i m = do_load_rb W1 False False w i m"
| "exec1 H_ld_h_rd_rb w i m = do_load_rb W2 True False w i m"
| "exec1 H_ld_uh_rd_rb w i m = do_load_rb W2 False False w i m"
| "exec1 H_ld_w_rd_rb w i m = do_load_rb W4 False False w i m"
| "exec1 H_st_b_rb_rs w i m = do_store_rb W1 False w i m"
| "exec1 H_st_h_rb_rs w i m = do_store_rb W2 False w i m"
| "exec1 H_st_w_rb_rs w i m = do_store_rb W4 False w i m"
| "exec1 H_ld_b_rd_rbx w i m = do_load_rb W1 True True w i m"
| "exec1 H_ld_ub_rd_rbx w i m = do_load_rb W1 False True w i m"
| "exec1 H_ld_h_rd_rbx w i m = do_load_rb W2 True True w i m"
| "exec1 H_ld_uh_rd_rbx w i m = do_load_rb W2 False True w i m"
| "exec1 H_ld_w_rd_rbx w i m = do_load_rb W4 False True w i m"
| "exec1 H_st_b_rbx_rs w i m = do_store_rb W1 True w i m"
| "exec1 H_st_h_rbx_rs w i m = do_store_rb W2 True w i m"
| "exec1 H_st_w_rbx_rs w i m = do_store_rb W4 True w i m"
| "exec1 H_add_rd_rs w i m = do_alu_rr AluADD True i m"
| "exec1 H_sub_rd_rs w i m = do_alu_rr AluSUB True i m"
| "exec1 H_cmp_rd_rs w i m = do_alu_rr AluCMP True i m"
| "exec1 H_ld_w_rd_rs w i m = do_alu_rr AluMOV False i m"
| "exec1 H_and_rd_rs w i m = do_alu_rr AluAND True i m"
| "exec1 H_or_rd_rs w i m = do_alu_rr AluOR True i m"
| "exec1 H_xor_rd_rs w i m = do_alu_rr AluXOR True i m"
| "exec1 H_not_rd_rs w i m = do_alu_rr AluNOT False i m"

definition sp_ea :: "cpu_state \<Rightarrow> u16 \<Rightarrow> u32 \<Rightarrow> u32" where
  "sp_ea c i elem_size =
    (if pending_ext_count c = 0 then sp c + imm6 i * elem_size else sp c + ext_imm c (imm6 i) 6)"

definition do_load_sp :: "width \<Rightarrow> bool \<Rightarrow> 'd wiring \<Rightarrow> u16 \<Rightarrow> 'd machine \<Rightarrow> 'd machine" where
  "do_load_sp sz sx w i m =
    (case load_val sz sx w (sp_ea (cpu m) i (width_bytes sz)) (flush m) of (v, m1) \<Rightarrow>
       on_cpu (set_reg (rd i) v) m1)"

definition do_store_sp :: "width \<Rightarrow> 'd wiring \<Rightarrow> u16 \<Rightarrow> 'd machine \<Rightarrow> 'd machine" where
  "do_store_sp sz w i m =
    store_val sz w (sp_ea (cpu m) i (width_bytes sz)) (gpr (cpu m) (rd i)) (flush m)"

primrec exec2 :: "class2 \<Rightarrow> 'd wiring \<Rightarrow> u16 \<Rightarrow> 'd machine \<Rightarrow> 'd machine" where
  "exec2 H_ld_b_rd_sp w i m = do_load_sp W1 True w i m"
| "exec2 H_ld_ub_rd_sp w i m = do_load_sp W1 False w i m"
| "exec2 H_ld_h_rd_sp w i m = do_load_sp W2 True w i m"
| "exec2 H_ld_uh_rd_sp w i m = do_load_sp W2 False w i m"
| "exec2 H_ld_w_rd_sp w i m = do_load_sp W4 False w i m"
| "exec2 H_st_b_sp_rs w i m = do_store_sp W1 w i m"
| "exec2 H_st_h_sp_rs w i m = do_store_sp W2 w i m"
| "exec2 H_st_w_sp_rs w i m = do_store_sp W4 w i m"

section \<open>Class 3: immediate ALU\<close>

definition do_alu_imm :: "alu_op \<Rightarrow> bool \<Rightarrow> u16 \<Rightarrow> 'd machine \<Rightarrow> 'd machine" where
  "do_alu_imm op sx i m =
    on_cpu (\<lambda>c. let b = (if sx then ext_simm c (imm6 i) 6 else ext_imm c (imm6 i) 6)
                in do_alu op (gpr c (rd i)) b (rd i) (flush_ext c)) m"

primrec exec3 :: "class3 \<Rightarrow> u16 \<Rightarrow> 'd machine \<Rightarrow> 'd machine" where
  "exec3 H_add_rd_imm6 i m = do_alu_imm AluADD False i m"
| "exec3 H_sub_rd_imm6 i m = do_alu_imm AluSUB False i m"
| "exec3 H_cmp_rd_simm6 i m = do_alu_imm AluCMP True i m"
| "exec3 H_ld_w_rd_simm6 i m = do_alu_imm AluMOV True i m"
| "exec3 H_and_rd_simm6 i m = do_alu_imm AluAND True i m"
| "exec3 H_or_rd_simm6 i m = do_alu_imm AluOR True i m"
| "exec3 H_xor_rd_simm6 i m = do_alu_imm AluXOR True i m"
| "exec3 H_not_rd_simm6 i m = do_alu_imm AluNOT True i m"

section \<open>Class 4: stack pointer, shifts, scans, division steps\<close>

definition h_add_sp_imm10 :: "u16 \<Rightarrow> cpu_state \<Rightarrow> cpu_state" where
  "h_add_sp_imm10 i c = (flush_ext c)\<lparr>sp := sp c + imm10 i * 4\<rparr>"

definition h_sub_sp_imm10 :: "u16 \<Rightarrow> cpu_state \<Rightarrow> cpu_state" where
  "h_sub_sp_imm10 i c = (flush_ext c)\<lparr>sp := sp c - imm10 i * 4\<rparr>"

datatype shift_op = SRL | SLL | SRA | SLA | RR | RL

text \<open>The value computed; a rotation by zero is the value itself.\<close>

primrec shift_val :: "shift_op \<Rightarrow> nat \<Rightarrow> u32 \<Rightarrow> u32" where
  "shift_val SRL n v = drop_bit n v"
| "shift_val SLL n v = push_bit n v"
| "shift_val SRA n v = signed_drop_bit n v"
| "shift_val SLA n v = push_bit n v"
| "shift_val RR n v = word_rotr n v"
| "shift_val RL n v = word_rotl n v"

definition h_shift_imm4 :: "shift_op \<Rightarrow> u16 \<Rightarrow> cpu_state \<Rightarrow> cpu_state" where
  "h_shift_imm4 op i c = logic_result (rd i) (shift_val op (shift_amt i) (gpr c (rd i))) (flush_ext c)"

definition h_shift_rs :: "shift_op \<Rightarrow> u16 \<Rightarrow> cpu_state \<Rightarrow> cpu_state" where
  "h_shift_rs op i c =
    (let n = unat (gpr c (rs i) AND 0x1F)
     in logic_result (rd i) (shift_val op n (gpr c (rd i))) (flush_ext c))"

text \<open>\<open>while (pos < 8 && bit 7-pos of top differs from the bit looked for) pos++\<close>.\<close>

function scan_loop :: "bool \<Rightarrow> u32 \<Rightarrow> nat \<Rightarrow> nat" where
  "scan_loop want hi8 pos =
    (if pos < 8 \<and> (drop_bit (7 - pos) hi8 AND 1 \<noteq> 0) \<noteq> want then scan_loop want hi8 (pos + 1) else pos)"
  by pat_completeness auto
termination by (relation "measure (\<lambda>(_, _, pos). 8 - pos)") auto

declare scan_loop.simps [simp del]

definition h_scan :: "bool \<Rightarrow> u16 \<Rightarrow> cpu_state \<Rightarrow> cpu_state" where
  "h_scan want i c =
    (let pos = scan_loop want (drop_bit 24 (gpr c (rs i))) 0
     in (set_reg (rd i) (word_of_nat pos) (flush_ext c))
        \<lparr>psr := set_n False (set_v False (set_c (pos = 8) (set_z (pos = 0) (psr c))))\<rparr>)"

definition byte_swap :: "u32 \<Rightarrow> u32" where
  "byte_swap v = push_bit 24 (v AND 0x000000FF) OR push_bit 8 (v AND 0x0000FF00)
     OR drop_bit 8 (v AND 0x00FF0000) OR drop_bit 24 (v AND 0xFF000000)"

definition h_swap :: "u16 \<Rightarrow> cpu_state \<Rightarrow> cpu_state" where
  "h_swap i c = set_reg (rd i) (byte_swap (gpr c (rs i))) (flush_ext c)"

definition mirror_step :: "nat \<Rightarrow> u32 \<Rightarrow> u32 \<Rightarrow> u32" where
  "mirror_step n mk v = (drop_bit n v AND mk) OR push_bit n (v AND mk)"

definition bit_mirror :: "u32 \<Rightarrow> u32" where
  "bit_mirror v = mirror_step 4 0x0F0F0F0F (mirror_step 2 0x33333333 (mirror_step 1 0x55555555 v))"

definition h_mirror :: "u16 \<Rightarrow> cpu_state \<Rightarrow> cpu_state" where
  "h_mirror i c = set_reg (rd i) (bit_mirror (gpr c (rs i))) (flush_ext c)"

definition h_div0s :: "'d wiring \<Rightarrow> u16 \<Rightarrow> 'd machine \<Rightarrow> 'd machine" where
  "h_div0s w i m0 =
    (let m = flush m0; divisor = gpr (cpu m) (rs i)
     in if divisor = 0 then assert_trap w 4 0 m
        else let neg_dividend = bit (alr (cpu m)) 31
             in on_cpu (\<lambda>c. c\<lparr>ahr := (if neg_dividend then 0xFFFFFFFF else 0),
                  psr := set_n (bit divisor 31) (set_ds neg_dividend (psr c))\<rparr>) m)"

definition h_div0u :: "'d wiring \<Rightarrow> u16 \<Rightarrow> 'd machine \<Rightarrow> 'd machine" where
  "h_div0u w i m0 =
    (let m = flush m0; divisor = gpr (cpu m) (rs i)
     in if divisor = 0 then assert_trap w 4 0 m
        else on_cpu (\<lambda>c. c\<lparr>ahr := 0, psr := set_n False (set_ds False (psr c))\<rparr>) m)"

text \<open>One step on {AHR, ALR}: shift left, trial add or subtract, quotient bit.\<close>

definition div1_step :: "bool \<Rightarrow> bool \<Rightarrow> u32 \<Rightarrow> u32 \<times> u32 \<Rightarrow> u32 \<times> u32" where
  "div1_step ds n divisor s =
    (let hi = push_bit 1 (fst s) OR drop_bit 31 (snd s);
         lo = push_bit 1 (snd s);
         (tmp, q_bit) =
           (if \<not> ds then
              (if \<not> n then (let t = hi - divisor in (t, t \<le> hi))
               else (let t = hi + divisor in (t, t < hi)))
            else
              (if \<not> n then (let t = hi + divisor in (t, t \<ge> hi))
               else (let t = hi - divisor in (t, t > hi))))
     in if q_bit then (tmp, lo OR 1) else (hi, lo))"

definition h_div1 :: "u16 \<Rightarrow> cpu_state \<Rightarrow> cpu_state" where
  "h_div1 i c0 =
    (let c = flush_ext c0;
         s = div1_step (psr_ds (psr c)) (psr_n (psr c)) (gpr c (rs i)) (ahr c, alr c)
     in c\<lparr>ahr := fst s, alr := snd s\<rparr>)"

definition h_div2s :: "u16 \<Rightarrow> cpu_state \<Rightarrow> cpu_state" where
  "h_div2s i c0 =
    (let c = flush_ext c0
     in if \<not> psr_ds (psr c) then c
        else let divisor = gpr c (rs i);
                 tmp = (if psr_n (psr c) then ahr c - divisor else ahr c + divisor)
             in if tmp = 0 then c\<lparr>ahr := 0, alr := alr c + 1\<rparr> else c)"

definition h_div3s :: "cpu_state \<Rightarrow> cpu_state" where
  "h_div3s c0 =
    (let c = flush_ext c0
     in if psr_ds (psr c) \<noteq> psr_n (psr c) then c\<lparr>alr := 0 - alr c\<rparr> else c)"

primrec exec4 :: "class4 \<Rightarrow> 'd wiring \<Rightarrow> u16 \<Rightarrow> 'd machine \<Rightarrow> 'd machine" where
  "exec4 H_add_sp_imm10 w i m = on_cpu (h_add_sp_imm10 i) m"
| "exec4 H_sub_sp_imm10 w i m = on_cpu (h_sub_sp_imm10 i) m"
| "exec4 H_srl_rd_imm4 w i m = on_cpu (h_shift_imm4 SRL i) m"
| "exec4 H_sll_rd_imm4 w i m = on_cpu (h_shift_imm4 SLL i) m"
| "exec4 H_sra_rd_imm4 w i m = on_cpu (h_shift_imm4 SRA i) m"
| "exec4 H_sla_rd_imm4 w i m = on_cpu (h_shift_imm4 SLA i) m"
| "exec4 H_rr_rd_imm4 w i m = on_cpu (h_shift_imm4 RR i) m"
| "exec4 H_rl_rd_imm4 w i m = on_cpu (h_shift_imm4 RL i) m"
| "exec4 H_srl_rd_rs w i m = on_cpu (h_shift_rs SRL i) m"
| "exec4 H_sll_rd_rs w i m = on_cpu (h_shift_rs SLL i) m"
| "exec4 H_sra_rd_rs w i m = on_cpu (h_shift_rs SRA i) m"
| "exec4 H_sla_rd_rs w i m = on_cpu (h_shift_rs SLA i) m"
| "exec4 H_rr_rd_rs w i m = on_cpu (h_shift_rs RR i) m"
| "exec4 H_rl_rd_rs w i m = on_cpu (h_shift_rs RL i) m"
| "exec4 H_scan0 w i m = on_cpu (h_scan False i) m"
| "exec4 H_scan1 w i m = on_cpu (h_scan True i) m"
| "exec4 H_swap w i m = on_cpu (h_swap i) m"
| "exec4 H_mirror w i m = on_cpu (h_mirror i) m"
| "exec4 H_div0s w i m = h_div0s w i m"
| "exec4 H_div0u w i m = h_div0u w i m"
| "exec4 H_div1 w i m = on_cpu (h_div1 i) m"
| "exec4 H_div2s w i m = on_cpu (h_div2s i) m"
| "exec4 H_div3s w i m = on_cpu h_div3s m"

section \<open>Class 5: special registers, bit operations, multiplication\<close>

definition special_reg :: "cpu_state \<Rightarrow> nat \<Rightarrow> u32" where
  "special_reg c n = (if n mod 4 = 0 then psr c else if n mod 4 = 1 then sp c
     else if n mod 4 = 2 then alr c else ahr c)"

definition set_special_reg :: "nat \<Rightarrow> u32 \<Rightarrow> cpu_state \<Rightarrow> cpu_state" where
  "set_special_reg n v c = (if n mod 4 = 0 then c\<lparr>psr := v\<rparr> else if n mod 4 = 1 then c\<lparr>sp := v\<rparr>
     else if n mod 4 = 2 then c\<lparr>alr := v\<rparr> else c\<lparr>ahr := v\<rparr>)"

definition h_ld_w_sd_rs :: "u16 \<Rightarrow> cpu_state \<Rightarrow> cpu_state" where
  "h_ld_w_sd_rs i c = set_special_reg (rd i) (gpr c (rs i)) (flush_ext c)"

definition h_ld_w_rd_ss :: "u16 \<Rightarrow> cpu_state \<Rightarrow> cpu_state" where
  "h_ld_w_rd_ss i c = set_reg (rd i) (special_reg c (rs i)) (flush_ext c)"

definition bit_ea :: "cpu_state \<Rightarrow> u16 \<Rightarrow> u32" where
  "bit_ea c i = gpr c (rb i) + ext_rb c"

definition h_btst :: "'d wiring \<Rightarrow> u16 \<Rightarrow> 'd machine \<Rightarrow> 'd machine" where
  "h_btst w i m =
    (case read8 w (bit_ea (cpu m) i) (flush m) of (v, m1) \<Rightarrow>
       on_cpu (\<lambda>c. c\<lparr>psr := set_z (drop_bit (imm3 i) v AND 1 = 0) (psr c)\<rparr>) m1)"

text \<open>Read-modify-write of one byte: \<open>& ~(1u << k)\<close>, \<open>| (1u << k)\<close>, \<open>^ (1u << k)\<close>.\<close>

definition rmw8 :: "(u8 \<Rightarrow> u8) \<Rightarrow> 'd wiring \<Rightarrow> u16 \<Rightarrow> 'd machine \<Rightarrow> 'd machine" where
  "rmw8 f w i m =
    (let ea = bit_ea (cpu m) i
     in case read8 w ea (flush m) of (v, m1) \<Rightarrow> write8 w ea (f v) m1)"

definition h_bclr :: "'d wiring \<Rightarrow> u16 \<Rightarrow> 'd machine \<Rightarrow> 'd machine" where
  "h_bclr w i m = rmw8 (\<lambda>v. v AND NOT (push_bit (imm3 i) 1)) w i m"
definition h_bset :: "'d wiring \<Rightarrow> u16 \<Rightarrow> 'd machine \<Rightarrow> 'd machine" where
  "h_bset w i m = rmw8 (\<lambda>v. v OR push_bit (imm3 i) 1) w i m"
definition h_bnot :: "'d wiring \<Rightarrow> u16 \<Rightarrow> 'd machine \<Rightarrow> 'd machine" where
  "h_bnot w i m = rmw8 (\<lambda>v. v XOR push_bit (imm3 i) 1) w i m"

definition h_adc :: "u16 \<Rightarrow> cpu_state \<Rightarrow> cpu_state" where
  "h_adc i c =
    (let a = gpr c (rd i); b = gpr c (rs i); r = add64 a b + of_bool (psr_c (psr c))
     in (set_reg (rd i) (ucast r) (flush_ext c))\<lparr>psr := set_nzvc_add a b r (psr c)\<rparr>)"

definition h_sbc :: "u16 \<Rightarrow> cpu_state \<Rightarrow> cpu_state" where
  "h_sbc i c =
    (let a = gpr c (rd i); b = gpr c (rs i); r = sub64 a b - of_bool (psr_c (psr c))
     in (set_reg (rd i) (ucast r) (flush_ext c))\<lparr>psr := set_nzvc_sub a b r (psr c)\<rparr>)"

definition reg_ext :: "(u32 \<Rightarrow> u32) \<Rightarrow> u16 \<Rightarrow> cpu_state \<Rightarrow> cpu_state" where
  "reg_ext f i c = set_reg (rd i) (f (gpr c (rs i))) (flush_ext c)"

definition set_product :: "u64 \<Rightarrow> cpu_state \<Rightarrow> cpu_state" where
  "set_product res c = c\<lparr>alr := ucast res, ahr := ucast (drop_bit 32 res)\<rparr>"

definition h_mlt_h :: "u16 \<Rightarrow> cpu_state \<Rightarrow> cpu_state" where
  "h_mlt_h i c =
    (let a = (ucast (gpr c (rd i)) :: u16); b = (ucast (gpr c (rs i)) :: u16)
     in set_product (word_of_int (sint a * sint b)) (flush_ext c))"

definition h_mltu_h :: "u16 \<Rightarrow> cpu_state \<Rightarrow> cpu_state" where
  "h_mltu_h i c =
    (let a = gpr c (rd i) AND 0xFFFF; b = gpr c (rs i) AND 0xFFFF
     in set_product (ucast a * ucast b) (flush_ext c))"

definition h_mlt_w :: "u16 \<Rightarrow> cpu_state \<Rightarrow> cpu_state" where
  "h_mlt_w i c = set_product (word_of_int (sint (gpr c (rd i)) * sint (gpr c (rs i)))) (flush_ext c)"

definition h_mltu_w :: "u16 \<Rightarrow> cpu_state \<Rightarrow> cpu_state" where
  "h_mltu_w i c = set_product (ucast (gpr c (rd i)) * ucast (gpr c (rs i))) (flush_ext c)"

text \<open>One accumulation: add the product of two signed halfwords, MO sticky on signed overflow.\<close>

definition acc_overflow :: "u64 \<Rightarrow> u64 \<Rightarrow> u64 \<Rightarrow> bool" where
  "acc_overflow uacc uprod usum = bit (NOT (uacc XOR uprod) AND (uacc XOR usum)) 63"

definition mac_acc :: "u16 \<Rightarrow> u16 \<Rightarrow> u64 \<times> u32 \<Rightarrow> u64 \<times> u32" where
  "mac_acc h1 h2 s =
    (let uprod = word_of_int (sint h1 * sint h2); usum = fst s + uprod
     in (usum, if \<not> psr_mo (snd s) \<and> acc_overflow (fst s) uprod usum then set_mo True (snd s) else snd s))"

text \<open>Fast path B: both arrays inside SRAM; the loop reads the backing store.\<close>

fun mac_sram :: "nat \<Rightarrow> u8 list \<Rightarrow> u32 \<Rightarrow> u32 \<Rightarrow> u64 \<times> u32 \<Rightarrow> (u64 \<times> u32) \<times> u32 \<times> u32" where
  "mac_sram 0 ram off1 off2 s = (s, off1, off2)"
| "mac_sram (Suc k) ram off1 off2 s =
     mac_sram k ram (off1 + 2) (off2 + 2) (mac_acc (le16 ram (unat off1)) (le16 ram (unat off2)) s)"

text \<open>The general loop: bus reads through the pointer registers, counting the register down.\<close>

fun mac_slow :: "nat \<Rightarrow> 'd wiring \<Rightarrow> nat \<Rightarrow> nat \<Rightarrow> nat \<Rightarrow> u64 \<Rightarrow> 'd machine \<Rightarrow> u64 \<times> 'd machine" where
  "mac_slow 0 w s r1 r2 uacc m = (uacc, m)"
| "mac_slow (Suc k) w s r1 r2 uacc m =
     (case read16 w (gpr (cpu m) r1) m of (h1, m1) \<Rightarrow>
      case read16 w (gpr (cpu m1) r2) m1 of (h2, m2) \<Rightarrow>
        let a = mac_acc h1 h2 (uacc, psr (cpu m2));
            m3 = on_cpu (\<lambda>c. set_reg s (gpr c s - 1) (let c2 = set_reg r1 (gpr c r1 + 2) (c\<lparr>psr := snd a\<rparr>)
                   in set_reg r2 (gpr c2 r2 + 2) c2)) m2
        in mac_slow k w s r1 r2 (fst a) m3)"

definition mac_open_bus :: "bus_state \<Rightarrow> u32 \<Rightarrow> u32 \<Rightarrow> u32 \<Rightarrow> bool" where
  "mac_open_bus b p1 p2 count =
    (let fe = FLASH_BASE + word_of_nat (flash_size (flash b));
         p1_end = p1 + (count - 1) * 2; p2_end = p2 + (count - 1) * 2
     in p1 \<ge> fe \<and> p1_end \<ge> fe \<and> p2 \<ge> fe \<and> p2_end \<ge> fe \<and> watchpoints b = [])"

definition mac_in_sram :: "bus_state \<Rightarrow> u32 \<Rightarrow> u32 \<Rightarrow> u32 \<Rightarrow> bool" where
  "mac_in_sram b p1 p2 count =
    (unat ((p1 - SRAM_BASE) + count * 2) \<le> length (sram b)
     \<and> unat ((p2 - SRAM_BASE) + count * 2) \<le> length (sram b) \<and> watchpoints b = [])"

definition set_acc :: "u64 \<Rightarrow> cpu_state \<Rightarrow> cpu_state" where
  "set_acc uacc c = c\<lparr>alr := ucast uacc, ahr := ucast (drop_bit 32 uacc)\<rparr>"

definition get_acc :: "cpu_state \<Rightarrow> u64" where
  "get_acc c = push_bit 32 (ucast (ahr c)) OR ucast (alr c)"

text \<open>Fast path A: every read is 0xFFFF, so each product is 1.\<close>

definition mac_fast_open :: "nat \<Rightarrow> nat \<Rightarrow> nat \<Rightarrow> u32 \<Rightarrow> cpu_state \<Rightarrow> cpu_state" where
  "mac_fast_open s r1 r2 count c =
    (let uacc = get_acc c; delta = ucast count; usum = uacc + delta;
         c1 = (if \<not> psr_mo (psr c) \<and> acc_overflow uacc delta usum
               then c\<lparr>psr := set_mo True (psr c)\<rparr> else c);
         c2 = set_reg r1 (gpr c1 r1 + count * 2) (set_acc usum c1);
         c3 = set_reg r2 (gpr c2 r2 + count * 2) c2
     in set_reg s 0 c3)"

definition mac_fast_sram :: "nat \<Rightarrow> nat \<Rightarrow> nat \<Rightarrow> u32 \<Rightarrow> u32 \<Rightarrow> u32 \<Rightarrow> 'd machine \<Rightarrow> 'd machine" where
  "mac_fast_sram s r1 r2 p1 p2 count m =
    (case mac_sram (unat count) (sram (bus m)) (p1 - SRAM_BASE) (p2 - SRAM_BASE)
            (get_acc (cpu m), psr (cpu m)) of ((uacc, p), off1, off2) \<Rightarrow>
       let m1 = charge (uint (word_of_int (ext_read_cycles (bus m) (sram_wait (bus m)) * 2) * count)) m
       in on_cpu (\<lambda>c. set_acc uacc (set_reg s 0 (set_reg r2 (SRAM_BASE + off2)
            (set_reg r1 (SRAM_BASE + off1) (c\<lparr>psr := p\<rparr>))))) m1)"

definition h_mac :: "'d wiring \<Rightarrow> u16 \<Rightarrow> 'd machine \<Rightarrow> 'd machine" where
  "h_mac w i m0 =
    (let m = flush m0; s = rs i; r1 = (s + 1) mod 16; r2 = (s + 2) mod 16;
         count = gpr (cpu m) s;
         p1 = a28 (gpr (cpu m) r1); p2 = a28 (gpr (cpu m) r2)
     in if count = 0 then m
        else if mac_open_bus (bus m) p1 p2 count then on_cpu (mac_fast_open s r1 r2 count) m
        else if mac_in_sram (bus m) p1 p2 count then mac_fast_sram s r1 r2 p1 p2 count m
        else (case mac_slow (unat count) w s r1 r2 (get_acc (cpu m)) m of
                (uacc, m1) \<Rightarrow> on_cpu (set_acc uacc) m1))"

primrec exec5 :: "class5 \<Rightarrow> 'd wiring \<Rightarrow> u16 \<Rightarrow> 'd machine \<Rightarrow> 'd machine" where
  "exec5 H_ld_w_sd_rs w i m = on_cpu (h_ld_w_sd_rs i) m"
| "exec5 H_ld_w_rd_ss w i m = on_cpu (h_ld_w_rd_ss i) m"
| "exec5 H_btst w i m = h_btst w i m"
| "exec5 H_bclr w i m = h_bclr w i m"
| "exec5 H_bset w i m = h_bset w i m"
| "exec5 H_bnot w i m = h_bnot w i m"
| "exec5 H_adc w i m = on_cpu (h_adc i) m"
| "exec5 H_sbc w i m = on_cpu (h_sbc i) m"
| "exec5 H_ld_b_rd_rs2 w i m = on_cpu (reg_ext (\<lambda>v. sx8 (ucast v)) i) m"
| "exec5 H_ld_ub_rd_rs2 w i m = on_cpu (reg_ext (\<lambda>v. v AND 0xFF) i) m"
| "exec5 H_ld_h_rd_rs2 w i m = on_cpu (reg_ext (\<lambda>v. sx16 (ucast v)) i) m"
| "exec5 H_ld_uh_rd_rs2 w i m = on_cpu (reg_ext (\<lambda>v. v AND 0xFFFF) i) m"
| "exec5 H_mlt_h w i m = on_cpu (h_mlt_h i) m"
| "exec5 H_mltu_h w i m = on_cpu (h_mltu_h i) m"
| "exec5 H_mlt_w w i m = on_cpu (h_mlt_w i) m"
| "exec5 H_mltu_w w i m = on_cpu (h_mltu_w i) m"
| "exec5 H_mac w i m = h_mac w i m"

section \<open>Class 6: EXT\<close>

definition h_ext :: "u16 \<Rightarrow> 'd machine \<Rightarrow> 'd machine" where
  "h_ext i m =
    (if pending_ext_count (cpu m) \<ge> 2
     then on_cpu (\<lambda>c. c\<lparr>pending_ext := (pending_ext c)(1 := imm13 i)\<rparr>)
            (diag_warn_or_fault ''ext_triple'' (pc (cpu m) - 2) m)
     else on_cpu (\<lambda>c. c\<lparr>pending_ext := (pending_ext c)(pending_ext_count c := imm13 i),
            pending_ext_count := pending_ext_count c + 1\<rparr>) m)"

section \<open>The call through the table\<close>

primrec exec_handler :: "handler \<Rightarrow> 'd wiring \<Rightarrow> u16 \<Rightarrow> 'd machine \<Rightarrow> 'd machine" where
  "exec_handler H_undef w i m = h_undef i m"
| "exec_handler (C0 h) w i m = exec0 h w i m"
| "exec_handler (C1 h) w i m = exec1 h w i m"
| "exec_handler (C2 h) w i m = exec2 h w i m"
| "exec_handler (C3 h) w i m = exec3 h i m"
| "exec_handler (C4 h) w i m = exec4 h w i m"
| "exec_handler (C5 h) w i m = exec5 h w i m"
| "exec_handler H_ext w i m = h_ext i m"

end
