(* ===== verification/CpuStep.thy ===== *)
theory CpuStep
  imports CpuInsn
begin

text \<open>
  \<open>Cpu::step\<close> of \<^verbatim>\<open>cpu_core.cpp\<close>: one fetch, the delay-slot and EXT checks, the call
  through the dispatch table, and what follows it (bus fault, delay-slot completion, deferred
  trap). The result is the number of cycles consumed with the machine.
\<close>

definition cycles_consumed :: "u32 \<Rightarrow> 'd machine \<Rightarrow> int" where
  "cycles_consumed before m =
    (let d = cycles (bus m) - before in if d > 0 then sint d else 1)"

definition writes_sp :: "u16 \<Rightarrow> bool" where
  "writes_sp i \<longleftrightarrow> (cls i = 4 \<and> op1 i \<le> 1) \<or> (cls i = 5 \<and> op2 i = 0 \<and> op1 i = 0 \<and> rd i = 1)"

text \<open>The checks on an instruction in a delay slot; the flag says that step returns at once.\<close>

definition slot_checks :: "u32 \<Rightarrow> u16 \<Rightarrow> 'd machine \<Rightarrow> bool \<times> 'd machine" where
  "slot_checks at i m =
    (if pending_ext_count (cpu m) > 0 then (True, diag_fault ''delay_slot_ext'' at m)
     else
       let m1 = (case delay_slot_class i of
                   DC_OK \<Rightarrow> m
                 | DC_HARD \<Rightarrow> diag_fault ''delay_slot_hard'' at (disasm_fetch at m)
                 | DC_SOFT \<Rightarrow> diag_warn_or_fault ''delay_slot_soft'' at (disasm_fetch at m))
       in if delay_slot_class i \<noteq> DC_OK \<and> in_halt (cpu m1) then (True, m1)
          else (False, if delay_caller (cpu m1) \<noteq> 0 \<and> writes_sp i
                       then diag_warn ''delay_slot_sp_clobber'' at (disasm_fetch at m1) else m1))"

definition ext_check :: "u32 \<Rightarrow> u16 \<Rightarrow> 'd machine \<Rightarrow> bool \<times> 'd machine" where
  "ext_check at i m =
    (if pending_ext_count (cpu m) > 0 \<and> \<not> ext_capable i
     then let m1 = diag_warn_or_fault ''ext_incompat'' at (disasm_fetch at m)
          in (in_halt (cpu m1), m1)
     else (False, m))"

definition bus_fault_check :: "u32 \<Rightarrow> 'd machine \<Rightarrow> 'd machine" where
  "bus_fault_check at m =
    (case take_fault (bus m) of (f, b) \<Rightarrow>
       let m1 = m\<lparr>bus := b\<rparr>
       in if f \<and> \<not> fault (cpu m1) then diag_fault ''bus_fault'' at m1 else m1)"

definition slot_complete :: "bool \<Rightarrow> u32 \<Rightarrow> cpu_state \<Rightarrow> cpu_state" where
  "slot_complete in_slot slot_target c =
    (if in_slot \<and> \<not> in_halt c
     then c\<lparr>in_delay_slot := False, delay_caller := 0, pc := slot_target\<rparr> else c)"

definition fire_deferred :: "'d wiring \<Rightarrow> 'd machine \<Rightarrow> 'd machine" where
  "fire_deferred w m =
    (let c = cpu m
     in if pending_ext_count c = 0 \<and> \<not> in_delay_slot c \<and> deferred_trap_valid c \<and> \<not> fault c
        then do_trap w (deferred_trap_no c) (deferred_trap_level c)
               (on_cpu (\<lambda>c. c\<lparr>deferred_trap_valid := False\<rparr>) m)
        else m)"

text \<open>What follows the call of the handler.\<close>

definition step_tail :: "'d wiring \<Rightarrow> u32 \<Rightarrow> bool \<Rightarrow> u32 \<Rightarrow> 'd machine \<Rightarrow> 'd machine" where
  "step_tail w at in_slot slot_target m =
    fire_deferred w (on_cpu (slot_complete in_slot slot_target) (bus_fault_check at m))"

definition step_insn :: "'d wiring \<Rightarrow> 'd machine \<Rightarrow> 'd machine" where
  "step_insn w m =
    (let at = pc (cpu m)
     in case fetch16 at m of (i, m1) \<Rightarrow>
       let in_slot = in_delay_slot (cpu m1); slot_target = delay_target (cpu m1);
           m2 = on_cpu (\<lambda>c. c\<lparr>pc := at + 2\<rparr>) m1
       in case (if in_slot then slot_checks at i m2 else (False, m2)) of (stop, m3) \<Rightarrow>
         if stop then m3
         else case ext_check at i m3 of (stop, m4) \<Rightarrow>
           if stop then m4
           else step_tail w at in_slot slot_target (exec_handler (dispatch i) w i m4))"

definition step :: "'d wiring \<Rightarrow> 'd machine \<Rightarrow> int \<times> 'd machine" where
  "step w m =
    (if in_halt (cpu m) then (1, m)
     else if pc (cpu m) \<in> breakpoints m then (1, on_cpu (\<lambda>c. c\<lparr>in_halt := True\<rparr>) m)
     else let m1 = step_insn w m in (cycles_consumed (cycles (bus m)) m1, m1))"

primrec run_steps :: "nat \<Rightarrow> 'd wiring \<Rightarrow> 'd machine \<Rightarrow> 'd machine" where
  "run_steps 0 w m = m"
| "run_steps (Suc n) w m = run_steps n w (snd (step w m))"

section \<open>Straight-line runs of handlers\<close>

text \<open>The handlers of a list of instruction words, one after the other.\<close>

definition exec_insns :: "'d wiring \<Rightarrow> u16 list \<Rightarrow> 'd machine \<Rightarrow> 'd machine" where
  "exec_insns w is m = fold (\<lambda>i. exec_handler (dispatch i) w i) is m"

lemma exec_insns_simps [simp]:
  "exec_insns w [] m = m"
  "exec_insns w (i # is) m = exec_insns w is (exec_handler (dispatch i) w i m)"
  "exec_insns w (is @ js) m = exec_insns w js (exec_insns w is m)"
  by (simp_all add: exec_insns_def)

end
