(* ===== verification/CpuDiv.thy ===== *)
theory CpuDiv
  imports CpuStep "HOL-Library.Signed_Division"
begin

text \<open>
  The step division of \<^verbatim>\<open>cpu_class4.cpp\<close>: the sequences \<open>div0u\<close>, 32 times \<open>div1\<close> and
  \<open>div0s\<close>, 32 times \<open>div1\<close>, \<open>div2s\<close>, \<open>div3s\<close> compute the quotient and the
  remainder, for every dividend and every divisor but zero.
\<close>

section \<open>One division step on numbers\<close>

text \<open>
  With the sign of the dividend in \<open>ds\<close>, the high register holds the partial remainder
  \<open>h\<close> of the magnitude, complemented for a negative dividend.
\<close>

definition tag_not :: "bool \<Rightarrow> u32 \<Rightarrow> u32" where
  "tag_not ds v = (if ds then NOT v else v)"

lemma wrap_lt:
  assumes "d \<noteq> 0" shows "(a + d < a) = (- d \<le> (a :: u32))" "(a < a - d) = (a \<le> a - d)"
    "(a \<le> a + d) = (a < - d)"
proof -
  have "unat d \<noteq> 0" using assms by (simp add: unat_eq_zero)
  then show "(a + d < a) = (- d \<le> (a :: u32))" "(a < a - d) = (a \<le> a - d)" "(a \<le> a + d) = (a < - d)"
    using assms u32_less [of a] u32_less [of d]
    by (auto simp: word_less_nat_alt word_le_nat_alt u32_add u32_sub u32_neg)
qed

lemma sub_le_iff: "d \<noteq> 0 \<Longrightarrow> (a - d \<le> a) = (d \<le> (a :: u32))" 
  using u32_less [of a] u32_less [of d]
  by (auto simp: word_le_nat_alt u32_sub)

lemma div1_negative_divisor:
  "d \<noteq> 0 \<Longrightarrow> div1_step ds True d s = div1_step ds False (- d) s"
  using sub_le_iff [of "- d"] wrap_lt [of d] by (auto simp add: div1_step_def Let_def not_less not_le)


lemma shift_in_tagged:
  assumes "unat h < 2 ^ 31"
  shows "push_bit 1 (tag_not ds h) OR drop_bit 31 l
    = tag_not ds (word_of_nat (2 * unat h + (if ds then 1 - unat l div 2 ^ 31 else unat l div 2 ^ 31)))"
proof -
  have b: "unat l div 2 ^ 31 < 2" using u32_less [of l] by (intro less_mult_imp_div_less) simp
  have eq: "push_bit 1 v OR drop_bit 31 l = push_bit 1 v + drop_bit 31 l" for v
    by (rule or_bit0) (rule u32_msb_bit)
  have sh: "2 * (2 ^ 32 - 1 - unat h) mod 2 ^ 32 = (2 :: nat) ^ 32 - 2 - 2 * unat h"
  proof -
    have "2 * (2 ^ 32 - 1 - unat h) = 2 ^ 32 + ((2 :: nat) ^ 32 - 2 - 2 * unat h)"
      using assms by simp
    then show ?thesis by (simp only: mod_add_self1) simp
  qed
  show ?thesis
  proof (cases ds)
    case False
    have "unat (push_bit 1 h OR drop_bit 31 l) = 2 * unat h + unat l div 2 ^ 31"
      by (rule u32_shift_in [OF assms])
    moreover have "2 * unat h + unat l div 2 ^ 31 < 2 ^ 32" using assms b by simp
    ultimately show ?thesis
      using False by (intro u32_ext) (simp only: tag_not_def u32_of_nat if_False)
  next
    case True
    have "unat (push_bit 1 (NOT h) OR drop_bit 31 l) = 2 ^ 32 - 1 - (2 * unat h + (1 - unat l div 2 ^ 31))"
      using assms b unfolding eq u32_add u32_shl1 u32_msb u32_not sh by auto
    moreover have "2 * unat h + (1 - unat l div 2 ^ 31) < 2 ^ 32" using assms by simp
    ultimately show ?thesis
      using True by (intro u32_ext) (simp only: tag_not_def u32_not u32_of_nat if_True)
  qed
qed

lemma div1_step_num:
  assumes d: "d \<noteq> 0" and h: "unat h < 2 ^ 31" "unat h < unat d"
    and H_def: "H = 2 * unat h + (if ds then 1 - unat l div 2 ^ 31 else unat l div 2 ^ 31)"
  shows "div1_step ds False d (tag_not ds h, l)
    = (tag_not ds (word_of_nat (H mod unat d)), word_of_nat (2 * unat l mod 2 ^ 32 + H div unat d))"
proof -
  let ?hi = "tag_not ds (word_of_nat H :: u32)"
  have b: "unat l div 2 ^ 31 < 2" using u32_less [of l] by (intro less_mult_imp_div_less) simp
  have H: "H < 2 * unat d" "H < 2 ^ 32" using h b by (auto simp: H_def)
  have uH: "unat (word_of_nat H :: u32) = H" using H(2) by (rule u32_of_nat)
  have ub: "unat d < 2 ^ 32" by (rule u32_less)
  define q where "q = (unat d \<le> H)"
  have qd: "H div unat d = of_bool q" "H mod unat d = (if q then H - unat d else H)"
    using H(1) by (auto simp: q_def div_if mod_if)
  have tst: "(if \<not> ds then ?hi - d \<le> ?hi else ?hi + d \<ge> ?hi) = q"
    using d H ub sub_le_iff [OF d, of ?hi] wrap_lt(3) [OF d, of ?hi]
    by (cases ds) (auto simp: tag_not_def word_le_nat_alt word_less_nat_alt uH u32_neg u32_not q_def)
  have tmp: "(if \<not> ds then ?hi - d else ?hi + d) = tag_not ds (word_of_nat (H mod unat d))" if q
    using that H ub
    by (intro u32_ext) (auto simp: tag_not_def u32_sub u32_add u32_not uH qd u32_of_nat q_def)
  have lo: "push_bit 1 l OR of_bool q = word_of_nat (2 * unat l mod 2 ^ 32 + H div unat d)"
  proof (rule u32_ext)
    have "unat (push_bit 1 l OR of_bool q) = 2 * unat l mod 2 ^ 32 + of_bool q" by (rule u32_shl_or1)
    moreover from this have "2 * unat l mod 2 ^ 32 + of_bool q < 2 ^ 32" by (metis u32_less)
    ultimately show "unat (push_bit 1 l OR of_bool q) = unat (word_of_nat (2 * unat l mod 2 ^ 32 + H div unat d) :: u32)"
      unfolding qd by (simp only: u32_of_nat)
  qed
  have "div1_step ds False d (tag_not ds h, l) = (if q then tag_not ds (word_of_nat (H mod unat d)) else ?hi, push_bit 1 l OR of_bool q)"
    using tst tmp unfolding div1_step_def Let_def fst_conv snd_conv shift_in_tagged [OF h(1)] H_def [symmetric]
    by (auto simp del: push_bit_of_1)
  then show ?thesis unfolding lo by (cases q) (simp_all add: qd)
qed


section \<open>Thirty-two steps\<close>

lemma dividend_shift:
  assumes "j + k = 31" "q < 2 ^ k"
  shows "(x mod 2 ^ Suc j * 2 ^ k + q) div 2 ^ 31 = x div 2 ^ j mod (2 :: nat)"
    and "2 * (x mod 2 ^ Suc j * 2 ^ k + q) mod 2 ^ 32 = x mod 2 ^ j * 2 ^ Suc k + 2 * q"
proof -
  let ?b = "x div 2 ^ j mod 2" and ?R = "x mod 2 ^ j * 2 ^ k + q"
  have split: "x mod 2 ^ Suc j = ?b * 2 ^ j + x mod 2 ^ j"
    using mod_mult2_eq [of x "2 ^ j" 2] by (simp add: mult.commute)
  have pw: "(2 :: nat) ^ j * 2 ^ k = 2 ^ 31" using assms(1) by (simp add: power_add [symmetric])
  have "x mod 2 ^ j + 1 \<le> 2 ^ j" by (simp add: Suc_leI)
  then have "(x mod 2 ^ j + 1) * 2 ^ k \<le> 2 ^ 31" unfolding pw [symmetric] by (rule mult_le_mono1)
  then have R: "?R < 2 ^ 31" using assms(2) by (simp add: algebra_simps)
  have "x mod 2 ^ Suc j * 2 ^ k + q = ?b * (2 ^ j * 2 ^ k) + ?R"
    unfolding split by (simp add: algebra_simps)
  then have eq: "x mod 2 ^ Suc j * 2 ^ k + q = ?b * 2 ^ 31 + ?R" unfolding pw .
  show "(x mod 2 ^ Suc j * 2 ^ k + q) div 2 ^ 31 = ?b" unfolding eq using R by simp
  have "2 * (?b * 2 ^ 31 + ?R) = ?b * 2 ^ 32 + 2 * ?R" by simp
  moreover have "2 * ?R < 2 ^ 32" using R by simp
  ultimately have "2 * (?b * 2 ^ 31 + ?R) mod 2 ^ 32 = 2 * ?R" by (simp only: mod_mult_self3 mod_less)
  then show "2 * (x mod 2 ^ Suc j * 2 ^ k + q) mod 2 ^ 32 = x mod 2 ^ j * 2 ^ Suc k + 2 * q"
    unfolding eq by (simp add: algebra_simps)
qed

lemma magnitude_bit:
  assumes "j < 32"
  shows "unat (tag_not ds x) div 2 ^ j mod 2
    = (if ds then 1 - unat x div 2 ^ j mod 2 else unat x div 2 ^ j mod 2)"
proof -
  have "unat w div 2 ^ j mod 2 = of_bool (bit w j)" for w :: u32
  proof -
    have "bit w j = bit (unat w) j" using bit_imp_le_length [of w j] by (auto simp: bit_unsigned_iff)
    also have "\<dots> = odd (unat w div 2 ^ j)" by (rule bit_iff_odd)
    finally have "bit w j = odd (unat w div 2 ^ j)" .
    then show ?thesis by (simp only: mod_2_eq_odd)
  qed
  then show ?thesis using assms by (simp add: tag_not_def bit_not_iff)
qed

lemma bring_down:
  fixes V b D :: nat
  shows "(2 * (V mod D) + b) mod D = (2 * V + b) mod D"
    and "2 * (V div D) + (2 * (V mod D) + b) div D = (2 * V + b) div D"
proof -
  show "(2 * (V mod D) + b) mod D = (2 * V + b) mod D" by (metis mod_add_left_eq mod_mult_right_eq)
  show "2 * (V div D) + (2 * (V mod D) + b) div D = (2 * V + b) div D"
  proof (cases "D = 0")
    case False
    have "2 * V + b = (2 * (V mod D) + b) + 2 * (V div D) * D"
      by (metis (no_types, lifting) add.commute add.left_commute distrib_left mod_mult_div_eq mult.assoc mult.commute mult_2)
    then have "(2 * V + b) div D = ((2 * (V mod D) + b) + 2 * (V div D) * D) div D" by (rule arg_cong)
    then show ?thesis using False by (simp add: add.commute)
  qed simp
qed

lemma div1_iterate:
  assumes d: "d \<noteq> 0" and "k \<le> 32"
    and v_def: "v = unat (tag_not ds x)"
  shows "(div1_step ds False d ^^ k) (tag_not ds 0, x)
    = (tag_not ds (word_of_nat (v div 2 ^ (32 - k) mod unat d)),
       word_of_nat (unat x mod 2 ^ (32 - k) * 2 ^ k + v div 2 ^ (32 - k) div unat d))"
  using \<open>k \<le> 32\<close>
proof (induction k)
  case 0
  have "v < 2 ^ 32" "unat x < 2 ^ 32" unfolding v_def by (rule u32_less)+
  then show ?case by simp
next
  case (Suc k)
  define j where "j = 31 - k"
  have jk: "j + k = 31" "32 - k = Suc j" "32 - Suc k = j" using Suc.prems by (auto simp: j_def)
  define V where "V = v div 2 ^ Suc j"
  define q where "q = V div unat d"
  have "k + Suc j = 32" using jk(1) by simp
  then have "(2 :: nat) ^ k * 2 ^ Suc j = 2 ^ 32" by (metis power_add)
  then have "v < 2 ^ k * 2 ^ Suc j" using u32_less [of "tag_not ds x"] by (simp only: v_def)
  then have V: "V < 2 ^ k" unfolding V_def by (rule less_mult_imp_div_less)
  have q: "q < 2 ^ k" unfolding q_def using V by (meson div_le_dividend le_less_trans)
  have "(2 :: nat) ^ k \<le> 2 ^ 31" using jk by (intro power_increasing) auto
  then have V31: "V < 2 ^ 31" using V by linarith
  define h :: u32 where "h = word_of_nat (V mod unat d)"
  define l :: u32 where "l = word_of_nat (unat x mod 2 ^ Suc j * 2 ^ k + q)"
  have dpos: "0 < unat d" using d by (simp add: unat_gt_0)
  have Vm: "V mod unat d < 2 ^ 31" using V31 by (rule le_less_trans [rotated]) simp
  have uh: "unat h = V mod unat d" unfolding h_def using Vm by (intro u32_of_nat) simp
  have h: "unat h < 2 ^ 31" "unat h < unat d" using uh Vm dpos by simp_all
  note sh = dividend_shift [OF jk(1) q, of "unat x"]
  have "unat x mod 2 ^ Suc j * 2 ^ k + q < 2 ^ 32"
  proof -
    have "(unat x mod 2 ^ Suc j * 2 ^ k + q) div 2 ^ 31 < 2" unfolding sh by simp
    then show ?thesis by (simp add: div_less_iff_less_mult)
  qed
  then have ul: "unat l = unat x mod 2 ^ Suc j * 2 ^ k + q" unfolding l_def by (rule u32_of_nat)
  define b where "b = v div 2 ^ j mod 2"
  have b: "b = (if ds then 1 - unat l div 2 ^ 31 else unat l div 2 ^ 31)"
    unfolding b_def v_def ul sh using jk(1) by (intro magnitude_bit) simp
  have vj: "v div 2 ^ j = 2 * V + b"
  proof -
    have "V = v div 2 ^ j div 2" unfolding V_def by (simp only: power_Suc2 div_mult2_eq)
    then show ?thesis unfolding b_def by simp
  qed
  have "(div1_step ds False d ^^ Suc k) (tag_not ds 0, x) = div1_step ds False d (tag_not ds h, l)"
    using Suc jk unfolding h_def l_def q_def V_def by simp
  also have "\<dots> = (tag_not ds (word_of_nat ((2 * unat h + b) mod unat d)),
      word_of_nat (2 * unat l mod 2 ^ 32 + (2 * unat h + b) div unat d))"
    using div1_step_num [OF d h refl, of ds l] unfolding b .
  also have "\<dots> = (tag_not ds (word_of_nat (v div 2 ^ j mod unat d)),
      word_of_nat (unat x mod 2 ^ j * 2 ^ Suc k + v div 2 ^ j div unat d))"
    unfolding uh ul sh bring_down(1) vj by (simp add: q_def bring_down(2) [of V "unat d" b, symmetric] add.assoc)
  finally show ?case unfolding jk .
qed

corollary div1_32:
  assumes "d \<noteq> 0"
  shows "(div1_step ds False d ^^ 32) (tag_not ds 0, x)
    = (tag_not ds (word_of_nat (unat (tag_not ds x) mod unat d)),
       word_of_nat (unat (tag_not ds x) div unat d))"
  using div1_iterate [OF assms, where k = 32 and ds = ds and x = x] by simp

section \<open>The instruction sequences\<close>

text \<open>The five division instructions on a register, as encoded.\<close>

datatype div_op = DIV0S | DIV0U | DIV1 | DIV2S | DIV3S

primrec div_base :: "div_op \<Rightarrow> u16" where
  "div_base DIV0S = 0x8B00" | "div_base DIV0U = 0x8F00" | "div_base DIV1 = 0x9300"
| "div_base DIV2S = 0x9700" | "div_base DIV3S = 0x9B00"

primrec div_handler :: "div_op \<Rightarrow> class4" where
  "div_handler DIV0S = H_div0s" | "div_handler DIV0U = H_div0u" | "div_handler DIV1 = H_div1"
| "div_handler DIV2S = H_div2s" | "div_handler DIV3S = H_div3s"

definition div_word :: "div_op \<Rightarrow> nat \<Rightarrow> u16" where
  "div_word op r = div_base op OR push_bit 4 (word_of_nat r)"

lemma div_word_table:
  "list_all (\<lambda>r. cls (div_word op r) = 4 \<and> op2 (div_word op r) = 3 \<and> rs (div_word op r) = r
     \<and> op1 (div_word op r) = (case op of DIV0S \<Rightarrow> 2 | DIV0U \<Rightarrow> 3 | DIV1 \<Rightarrow> 4 | DIV2S \<Rightarrow> 5 | DIV3S \<Rightarrow> 6))
     [0..<16]"
  by (cases op; simp only:; code_simp)

lemma div_word_fields:
  assumes "r < 16"
  shows "cls (div_word op r) = 4" "op2 (div_word op r) = 3" "rs (div_word op r) = r"
    "op1 (div_word op r) = (case op of DIV0S \<Rightarrow> 2 | DIV0U \<Rightarrow> 3 | DIV1 \<Rightarrow> 4 | DIV2S \<Rightarrow> 5 | DIV3S \<Rightarrow> 6)"
  using div_word_table [of op] assms unfolding list_all_iff by auto

lemma dispatch_div [simp]: "r < 16 \<Longrightarrow> dispatch (div_word op r) = C4 (div_handler op)"
  by (cases op) (simp_all add: dispatch_def div_word_fields table_4_def sel_def numeral_eq_Suc)

lemma on_cpu_pow: "(on_cpu f ^^ k) m = m\<lparr>cpu := (f ^^ k) (cpu m)\<rparr>"
  by (induction k) simp_all

lemma flush_ext_id: "pending_ext_count c = 0 \<Longrightarrow> flush_ext c = c"
  by (simp add: flush_ext_def)

lemma h_div1_pow:
  assumes "pending_ext_count c = 0"
  shows "(h_div1 i ^^ k) c = c\<lparr>
    ahr := fst ((div1_step (psr_ds (psr c)) (psr_n (psr c)) (gpr c (rs i)) ^^ k) (ahr c, alr c)),
    alr := snd ((div1_step (psr_ds (psr c)) (psr_n (psr c)) (gpr c (rs i)) ^^ k) (ahr c, alr c))\<rparr>"
  using assms by (induction k) (simp_all add: h_div1_def Let_def flush_ext_id)

lemma exec_div1s:
  assumes "r < 16" "pending_ext_count (cpu m) = 0"
  shows "exec_insns w (replicate k (div_word DIV1 r)) m = m\<lparr>cpu := (h_div1 (div_word DIV1 r) ^^ k) (cpu m)\<rparr>"
proof -
  have "exec_handler (C4 H_div1) w i = on_cpu (h_div1 i)" for i by (rule ext) simp
  then show ?thesis using assms by (simp add: exec_insns_def on_cpu_pow)
qed

lemma sr_flags [simp]:
  "psr_ds (set_n a (set_ds b p)) = b" "psr_n (set_n a (set_ds b p)) = a"
  by (simp_all add: flag_defs)

definition unsigned_division :: "nat \<Rightarrow> u16 list" where
  "unsigned_division r = div_word DIV0U r # replicate 32 (div_word DIV1 r)"

definition signed_division :: "nat \<Rightarrow> u16 list" where
  "signed_division r = div_word DIV0S r # replicate 32 (div_word DIV1 r)
     @ [div_word DIV2S r, div_word DIV3S r]"

text \<open>
  The instruction sequence \<open>div0u %r\<close>, 32 times \<open>div1 %r\<close> leaves in ALR the unsigned
  quotient and in AHR the remainder of ALR by the register, for every dividend and every nonzero
  divisor; general registers, PC, SP and the bus are as before.
\<close>
theorem cpu_unsigned_division:
  assumes r: "r < 16" and d: "gpr (cpu m) r \<noteq> 0"
  shows "alr (cpu (exec_insns w (unsigned_division r) m)) = alr (cpu m) div gpr (cpu m) r
    \<and> ahr (cpu (exec_insns w (unsigned_division r) m)) = alr (cpu m) mod gpr (cpu m) r
    \<and> gpr (cpu (exec_insns w (unsigned_division r) m)) = gpr (cpu m)
    \<and> pc (cpu (exec_insns w (unsigned_division r) m)) = pc (cpu m)
    \<and> sp (cpu (exec_insns w (unsigned_division r) m)) = sp (cpu m)
    \<and> bus (exec_insns w (unsigned_division r) m) = bus m"
proof -
  let ?d = "gpr (cpu m) r" and ?x = "alr (cpu m)"
  have "(div1_step False False ?d ^^ 32) (0, ?x)
      = (word_of_nat (unat ?x mod unat ?d), word_of_nat (unat ?x div unat ?d))"
    using div1_32 [OF d, of False ?x] by (simp add: tag_not_def)
  moreover have "word_of_nat (unat ?x mod unat ?d) = ?x mod ?d" "word_of_nat (unat ?x div unat ?d) = ?x div ?d"
    by (simp_all only: word_arith_nat_div word_arith_nat_mod)
  ultimately show ?thesis
    using r d
    by (simp add: unsigned_division_def exec_div1s h_div0u_def Let_def flush_def flush_ext_def
        h_div1_pow div_word_fields)
qed

text \<open>The magnitude of a signed register value.\<close>

definition mag :: "u32 \<Rightarrow> u32" where "mag x = (if bit x 31 then - x else x)"

lemma mag_tag: "unat (mag x) = (if bit x 31 then Suc (unat (tag_not True x)) else unat (tag_not False x))"
proof (cases "bit x 31")
  case True
  then have "x \<noteq> 0" by auto
  then show ?thesis using True u32_less [of x] by (auto simp: mag_def tag_not_def u32_neg u32_not)
qed (simp add: mag_def tag_not_def)

lemma word_sdiv:
  "word_of_int (sint x sdiv sint d)
    = (if bit x 31 \<noteq> bit d 31 then - 1 else 1) * (word_of_nat (unat (mag x) div unat (mag d)) :: u32)"
  "word_of_int (sint x smod sint d)
    = (if bit x 31 then - 1 else 1) * (word_of_nat (unat (mag x) mod unat (mag d)) :: u32)"
proof -
  have q: "word_of_int (uint a div uint b) = (word_of_nat (unat a div unat b) :: u32)"
    and r: "word_of_int (uint a mod uint b) = (word_of_nat (unat a mod unat b) :: u32)" for a b :: u32
    by (simp_all only: word_arith_nat_div [symmetric] word_arith_nat_mod [symmetric] word_div_def word_mod_def)
  have z: "mag x = 0" if "x = 0" using that by (simp add: mag_def)
  show "word_of_int (sint x sdiv sint d)
      = (if bit x 31 \<noteq> bit d 31 then - 1 else 1) * (word_of_nat (unat (mag x) div unat (mag d)) :: u32)"
    unfolding signed_divide_int_def u32_sint_abs u32_sint_sgn mag_def [symmetric] of_int_mult q
    using z by (cases "d = 0"; cases "x = 0") (simp_all add: mag_def [of 0] mag_def [of d])
  show "word_of_int (sint x smod sint d)
      = (if bit x 31 then - 1 else 1) * (word_of_nat (unat (mag x) mod unat (mag d)) :: u32)"
    unfolding signed_modulo_int_def u32_sint_abs u32_sint_sgn mag_def [symmetric] of_int_mult r
    using z by (cases "x = 0") simp_all
qed

lemma signed_steps:
  assumes d: "d \<noteq> 0"
  shows "(div1_step (bit x 31) (bit d 31) d ^^ 32) (tag_not (bit x 31) 0, x)
    = (tag_not (bit x 31) (word_of_nat (unat (tag_not (bit x 31) x) mod unat (mag d))),
       word_of_nat (unat (tag_not (bit x 31) x) div unat (mag d)))"
proof -
  have "div1_step ds (bit d 31) d = div1_step ds False (mag d)" for ds
    using div1_negative_divisor [OF d, of ds] by (intro ext) (simp add: mag_def)
  moreover have "mag d \<noteq> 0" using d by (simp add: mag_def)
  ultimately show ?thesis using div1_32 [of "mag d" "bit x 31" x] by (simp only: not_False_eq_True)
qed

text \<open>What \<open>div2s\<close> and \<open>div3s\<close> make of the registers.\<close>

lemma correction:
  assumes d: "d \<noteq> 0" and ahr: "h = tag_not (bit x 31) (word_of_nat (unat (tag_not (bit x 31) x) mod unat (mag d)))"
    and alr: "l = word_of_nat (unat (tag_not (bit x 31) x) div unat (mag d))"
  shows "(if bit x 31 then let tmp = (if bit d 31 then h - d else h + d)
            in if tmp = 0 then (0, l + 1) else (h, l) else (h, l))
    = ((if bit x 31 then - 1 else 1) * word_of_nat (unat (mag x) mod unat (mag d)),
       word_of_nat (unat (mag x) div unat (mag d)))"
proof (cases "bit x 31")
  case False
  then show ?thesis by (simp add: ahr alr mag_tag tag_not_def [of False])
next
  case True
  let ?D = "unat (mag d)" and ?v = "unat (tag_not True x)"
  have D: "0 < ?D" using d by (simp add: mag_def unat_gt_0)
  have tmp: "(if bit d 31 then h - d else h + d) = h + mag d" by (simp add: mag_def)
  have h: "h = - 1 - word_of_nat (?v mod ?D)"
    using True by (simp add: ahr tag_not_def not_eq_complement)
  have lt: "?v mod ?D < ?D" using D by simp
  have "(h + mag d = 0) = (mag d = word_of_nat (Suc (?v mod ?D)))"
    unfolding h by (simp add: algebra_simps)
  also have "\<dots> = (?D = Suc (?v mod ?D))"
  proof -
    have "Suc (?v mod ?D) < 2 ^ 32" using lt u32_less [of "mag d"] by linarith
    then have "unat (word_of_nat (Suc (?v mod ?D)) :: u32) = Suc (?v mod ?D)" by (rule u32_of_nat)
    then show ?thesis by (metis u32_ext)
  qed
  finally have z: "(h + mag d = 0) = (Suc (?v mod ?D) = ?D)" by auto
  show ?thesis
    unfolding tmp Let_def z using True
    by (auto simp: mag_tag mod_Suc div_Suc h alr)
qed

lemma signed_prepare:
  assumes "r < 16" "gpr (cpu m) r \<noteq> 0"
  shows "exec_insns w [div_word DIV0S r] m = m\<lparr>cpu := (cpu m)\<lparr>pending_ext_count := 0,
    ahr := tag_not (bit (alr (cpu m)) 31) 0,
    psr := set_n (bit (gpr (cpu m) r) 31) (set_ds (bit (alr (cpu m)) 31) (psr (cpu m)))\<rparr>\<rparr>"
  using assms by (simp add: h_div0s_def Let_def flush_def flush_ext_def div_word_fields tag_not_def)

lemma signed_finish:
  assumes "r < 16" "pending_ext_count (cpu m) = 0"
  defines "d \<equiv> gpr (cpu m) r" and "ds \<equiv> psr_ds (psr (cpu m))" and "n \<equiv> psr_n (psr (cpu m))"
  defines "p \<equiv> (if ds then let tmp = (if n then ahr (cpu m) - d else ahr (cpu m) + d)
            in if tmp = 0 then (0, alr (cpu m) + 1) else (ahr (cpu m), alr (cpu m)) else (ahr (cpu m), alr (cpu m)))"
  shows "exec_insns w [div_word DIV2S r, div_word DIV3S r] m
    = m\<lparr>cpu := (cpu m)\<lparr>ahr := fst p, alr := (if ds \<noteq> n then - snd p else snd p)\<rparr>\<rparr>"
  using assms(1,2) unfolding p_def d_def ds_def n_def
  by (cases m; cases "cpu m") (auto simp: h_div2s_def h_div3s_def Let_def flush_ext_id div_word_fields)

text \<open>
  C2: \<open>div0s %r\<close>, 32 times \<open>div1 %r\<close>, \<open>div2s %r\<close>, \<open>div3s %r\<close> leave in ALR the
  signed quotient truncated towards zero and in AHR the remainder with the sign of the dividend,
  for every dividend and every nonzero divisor (the quotient \<open>- 2^31 / -1\<close> wraps).
\<close>
theorem cpu_signed_division:
  assumes r: "r < 16" and d: "gpr (cpu m) r \<noteq> 0"
  shows "alr (cpu (exec_insns w (signed_division r) m))
      = word_of_int (sint (alr (cpu m)) sdiv sint (gpr (cpu m) r))
    \<and> ahr (cpu (exec_insns w (signed_division r) m))
      = word_of_int (sint (alr (cpu m)) smod sint (gpr (cpu m) r))
    \<and> gpr (cpu (exec_insns w (signed_division r) m)) = gpr (cpu m)
    \<and> bus (exec_insns w (signed_division r) m) = bus m"
proof -
  let ?d = "gpr (cpu m) r" and ?x = "alr (cpu m)"
  define m1 where "m1 = exec_insns w [div_word DIV0S r] m"
  note m1 = signed_prepare [OF r d, of w, folded m1_def]
  define m2 where "m2 = exec_insns w (replicate 32 (div_word DIV1 r)) m1"
  have m2: "m2 = m1\<lparr>cpu := (h_div1 (div_word DIV1 r) ^^ 32) (cpu m1)\<rparr>"
    unfolding m2_def by (rule exec_div1s [OF r]) (simp add: m1)
  have all: "exec_insns w (signed_division r) m = exec_insns w [div_word DIV2S r, div_word DIV3S r] m2"
    by (simp add: signed_division_def m1_def m2_def)
  have p: "(h_div1 (div_word DIV1 r) ^^ 32) (cpu m1) = (cpu m1)\<lparr>
      ahr := tag_not (bit ?x 31) (word_of_nat (unat (tag_not (bit ?x 31) ?x) mod unat (mag ?d))),
      alr := word_of_nat (unat (tag_not (bit ?x 31) ?x) div unat (mag ?d))\<rparr>"
    using signed_steps [OF d, of ?x] r
    by (subst h_div1_pow) (simp_all add: m1 div_word_fields)
  have pe: "pending_ext_count (cpu m2) = 0" unfolding m2 p by (simp add: m1)
  have regs: "gpr (cpu m2) = gpr (cpu m)" "bus m2 = bus m" "psr (cpu m2) = psr (cpu m1)"
    unfolding m2 p by (simp_all add: m1)
  have fl: "psr_ds (psr (cpu m1)) = bit ?x 31" "psr_n (psr (cpu m1)) = bit ?d 31" by (simp_all add: m1)
  have ha: "ahr (cpu m2) = tag_not (bit ?x 31) (word_of_nat (unat (tag_not (bit ?x 31) ?x) mod unat (mag ?d)))"
    "alr (cpu m2) = word_of_nat (unat (tag_not (bit ?x 31) ?x) div unat (mag ?d))"
    unfolding m2 p by simp_all
  show ?thesis
    unfolding all signed_finish [OF r pe, of w] regs fl correction [OF d ha] word_sdiv
    by (simp add: regs)
qed

section \<open>Witnesses\<close>

definition div_sample :: "u32 \<Rightarrow> u32 \<Rightarrow> unit machine" where
  "div_sample x d = sample_bus\<lparr>cpu := cpu_init\<lparr>alr := x, gpr := (\<lambda>_. d)\<rparr>\<rparr>"

lemma cpu_unsigned_division_witness:
  "alr (cpu (exec_insns no_wiring (unsigned_division 3) (div_sample 0xFFFFFFFF 10))) = 429496729
   \<and> ahr (cpu (exec_insns no_wiring (unsigned_division 3) (div_sample 0xFFFFFFFF 10))) = 5"
  using cpu_unsigned_division [of 3 "div_sample 0xFFFFFFFF 10" no_wiring] by (simp add: div_sample_def)

lemma cpu_signed_division_witness:
  "alr (cpu (exec_insns no_wiring (signed_division 3) (div_sample (- 7) 2))) = - 3
   \<and> ahr (cpu (exec_insns no_wiring (signed_division 3) (div_sample (- 7) 2))) = - 1"
  using cpu_signed_division [of 3 "div_sample (- 7) 2" no_wiring] by (simp add: div_sample_def)

end
