(* ===== verification/CpuStack.thy ===== *)
theory CpuStack
  imports CpuStep
begin

text \<open>
  The stack discipline of the CPU: push and pop, register lists, call and return, trap entry and
  \<open>reti\<close>. All of it rests on the word-memory facts of the bus (\<open>wm\<close>), for a stack
  in installed SRAM at aligned addresses.
\<close>

section \<open>Push and pop on SRAM\<close>

lemma word_at_update [simp]:
  "word_at (cpu_update f m) a = word_at m a" "peek32 (cpu_update f m) a = peek32 m a"
  by (simp_all add: word_at_def in_sram_def peek32_def)

lemma cpu_write_word [simp]: "word_at m a \<Longrightarrow> cpu (write32 w a v m) = cpu m"
  by (simp add: write32_sram [OF word_atD])

lemma cpu_read_word [simp]: "word_at m a \<Longrightarrow> cpu (snd (read32 w a m)) = cpu m"
  by (simp add: read32_sram [OF word_atD])

lemma read_word: "word_at m a \<Longrightarrow> read32 w a m = (peek32 m a, snd (read32 w a m))"
  using wm.load_val [of m a w] by (metis prod.collapse)

lemma push32_ok:
  assumes "word_at m (sp (cpu m) - 4)"
  shows "cpu (push32 w v m) = (cpu m)\<lparr>sp := sp (cpu m) - 4\<rparr>"
    "word_at (push32 w v m) b = word_at m b"
    "peek32 (push32 w v m) (sp (cpu m) - 4) = v"
    "word_at m b \<Longrightarrow> b \<noteq> sp (cpu m) - 4 \<Longrightarrow> peek32 (push32 w v m) b = peek32 m b"
  using assms unfolding push32_def
  by (simp_all add: wm.store_good wm.store_same wm.store_other)

lemma pop32_ok:
  assumes "word_at m (sp (cpu m))"
  shows "fst (pop32 w m) = peek32 m (sp (cpu m))"
    "cpu (snd (pop32 w m)) = (cpu m)\<lparr>sp := sp (cpu m) + 4\<rparr>"
    "word_at (snd (pop32 w m)) b = word_at m b"
    "peek32 (snd (pop32 w m)) b = peek32 m b"
  using assms unfolding pop32_def
  by (simp_all add: case_prod_beta wm.load_val wm.load_good wm.load_peek)

section \<open>Register lists\<close>

definition cell :: "u32 \<Rightarrow> nat \<Rightarrow> u32" where "cell a k = a + 4 * word_of_nat k"

lemma cell_simps [simp]: "cell a 0 = a" "cell (a + 4) k = cell a (Suc k)" "cell a k + 4 = cell a (Suc k)"
  by (simp_all add: cell_def algebra_simps)

lemma cell_below: "cell (s - 4 * word_of_nat (Suc n)) n = s - 4"
  by (simp add: cell_def algebra_simps)

lemma cell_inj: "j \<le> 16 \<Longrightarrow> k \<le> 16 \<Longrightarrow> cell a j = cell a k \<Longrightarrow> j = k"
proof -
  assume jk: "j \<le> 16" "k \<le> 16" and "cell a j = cell a k"
  then have "(4 :: u32) * word_of_nat j = 4 * word_of_nat k" by (simp add: cell_def)
  then have "unat ((4 :: u32) * word_of_nat j) = unat ((4 :: u32) * word_of_nat k)" by simp
  then show "j = k" using jk by (simp add: unat_word_ariths unat_of_nat)
qed

text \<open>The \<open>n\<close> words from \<open>a\<close> upwards are in SRAM.\<close>

definition cells_at :: "'d machine \<Rightarrow> u32 \<Rightarrow> nat \<Rightarrow> bool" where
  "cells_at m a n \<longleftrightarrow> (\<forall>k<n. word_at m (cell a k))"

lemma push_regs_ok:
  assumes "n < 16" "cells_at m (sp (cpu m) - 4 * word_of_nat (Suc n)) (Suc n)"
  defines "base \<equiv> sp (cpu m) - 4 * word_of_nat (Suc n)"
  shows "cpu (push_regs w n m) = (cpu m)\<lparr>sp := base\<rparr>
    \<and> (\<forall>b. word_at (push_regs w n m) b = word_at m b)
    \<and> (\<forall>k\<le>n. peek32 (push_regs w n m) (cell base k) = gpr (cpu m) k)
    \<and> (\<forall>b. word_at m b \<longrightarrow> (\<forall>k\<le>n. b \<noteq> cell base k) \<longrightarrow> peek32 (push_regs w n m) b = peek32 m b)"
  using assms(1,2) unfolding base_def
proof (induction n arbitrary: m)
  case 0
  then have "word_at m (sp (cpu m) - 4)" by (simp add: cells_at_def)
  then show ?case by (simp add: push32_ok)
next
  case (Suc n)
  let ?s = "sp (cpu m)" and ?base = "sp (cpu m) - 4 * word_of_nat (Suc (Suc n))"
  let ?m1 = "push32 w (gpr (cpu m) (Suc n)) m"
  have top: "cell ?base (Suc n) = ?s - 4" by (rule cell_below)
  have g: "word_at m (?s - 4)" using Suc.prems(2) top by (metis cells_at_def lessI)
  note p = push32_ok [OF g, where w = w and v = "gpr (cpu m) (Suc n)"]
  have base: "sp (cpu ?m1) - 4 * word_of_nat (Suc n) = ?base" by (simp add: p algebra_simps)
  have "cells_at ?m1 ?base (Suc n)" using Suc.prems(2) by (simp add: cells_at_def p)
  note IH = Suc.IH [of ?m1, unfolded base, OF _ this]
  have ne: "?s - 4 \<noteq> cell ?base k" if "k \<le> n" for k
    using cell_inj [of "Suc n" k ?base] that Suc.prems(1) top by auto
  have step: "push_regs w (Suc n) m = push_regs w n ?m1" by simp
  show ?case
    using IH Suc.prems(1) g ne top p unfolding step by (auto simp: le_Suc_eq)
qed

lemma pop_reg_ok:
  assumes "word_at m (sp (cpu m))"
  shows "cpu (pop_reg w i m) = (set_reg i (peek32 m (sp (cpu m))) (cpu m))\<lparr>sp := sp (cpu m) + 4\<rparr>"
    "word_at (pop_reg w i m) b = word_at m b" "peek32 (pop_reg w i m) b = peek32 m b"
  using assms unfolding pop_reg_def
  by (simp_all add: case_prod_beta wm.load_val wm.load_good wm.load_peek set_reg_def)

lemma pop_regs_ok:
  assumes "cells_at m (sp (cpu m)) n"
  shows "cpu (fold (pop_reg w) [0..<n] m) = (cpu m)\<lparr>sp := cell (sp (cpu m)) n,
      gpr := (\<lambda>k. if k < n then peek32 m (cell (sp (cpu m)) k) else gpr (cpu m) k)\<rparr>
    \<and> (\<forall>b. word_at (fold (pop_reg w) [0..<n] m) b = word_at m b)
    \<and> (\<forall>b. peek32 (fold (pop_reg w) [0..<n] m) b = peek32 m b)"
  using assms
proof (induction n)
  case 0
  show ?case by simp
next
  case (Suc n)
  let ?m1 = "fold (pop_reg w) [0..<n] m"
  have IH: "cpu ?m1 = (cpu m)\<lparr>sp := cell (sp (cpu m)) n,
      gpr := (\<lambda>k. if k < n then peek32 m (cell (sp (cpu m)) k) else gpr (cpu m) k)\<rparr>"
    "\<And>b. word_at ?m1 b = word_at m b" "\<And>b. peek32 ?m1 b = peek32 m b"
    using Suc by (auto simp: cells_at_def)
  have g: "word_at ?m1 (sp (cpu ?m1))" using Suc.prems by (simp add: IH cells_at_def)
  show ?case
    using pop_reg_ok [OF g, of w n] by (simp add: IH set_reg_def less_Suc_eq fun_eq_iff)
qed

lemma flush_parts [simp]:
  "cpu (flush m) = flush_ext (cpu m)" "bus (flush m) = bus m" "word_at (flush m) a = word_at m a"
  "peek32 (flush m) a = peek32 m a" "diag_log (flush m) = diag_log m" "dev (flush m) = dev m"
  "strict (flush m) = strict m" "breakpoints (flush m) = breakpoints m"
  by (simp_all add: flush_def)

lemma flush_ext_parts [simp]:
  "gpr (flush_ext c) = gpr c" "pc (flush_ext c) = pc c" "sp (flush_ext c) = sp c" "psr (flush_ext c) = psr c"
  "alr (flush_ext c) = alr c" "ahr (flush_ext c) = ahr c" "pending_ext_count (flush_ext c) = 0"
  "in_delay_slot (flush_ext c) = in_delay_slot c" "in_halt (flush_ext c) = in_halt c"
  "fault (flush_ext c) = fault c" "ttbr (flush_ext c) = ttbr c" "pending_ext (flush_ext c) = pending_ext c"
  "delay_target (flush_ext c) = delay_target c" "delay_caller (flush_ext c) = delay_caller c"
  "halt_mode (flush_ext c) = halt_mode c" "deferred_trap_valid (flush_ext c) = deferred_trap_valid c"
  "deferred_trap_no (flush_ext c) = deferred_trap_no c"
  "deferred_trap_level (flush_ext c) = deferred_trap_level c"
  by (simp_all add: flush_ext_def)

lemma cells_at_update [simp]:
  "cells_at (cpu_update f m) a n = cells_at m a n" "cells_at (flush m) a n = cells_at m a n"
  by (simp_all add: cells_at_def)

text \<open>
  C39: \<open>pushn %rs\<close> stores R0 to Rs below the stack pointer, R0 lowest; after any code that
  leaves that memory and SP alone, \<open>popn\<close> of the same register restores R0 to Rs and SP and
  leaves the higher registers as that code set them.
\<close>
theorem cpu_pushn_popn:
  assumes "rd j = rd i"
    and "cells_at m (sp (cpu m) - 4 * word_of_nat (Suc (rd i))) (Suc (rd i))"
    and "m1 = h_pushn w i m"
    and "sp (cpu m2) = sp (cpu m1)" "\<forall>a. word_at m1 a \<longrightarrow> word_at m2 a \<and> peek32 m2 a = peek32 m1 a"
    and "m3 = h_popn w j m2"
  shows "sp (cpu m3) = sp (cpu m)
    \<and> gpr (cpu m3) = (\<lambda>k. if k \<le> rd i then gpr (cpu m) k else gpr (cpu m2) k)
    \<and> pc (cpu m3) = pc (cpu m2)"
proof -
  let ?n = "rd i" and ?base = "sp (cpu m) - 4 * word_of_nat (Suc (rd i))"
  have P: "cpu m1 = (flush_ext (cpu m))\<lparr>sp := ?base\<rparr>" "\<And>b. word_at m1 b = word_at m b"
    "\<And>k. k \<le> ?n \<Longrightarrow> peek32 m1 (cell ?base k) = gpr (cpu m) k"
    using push_regs_ok [of ?n "flush m" w] assms(2) field_bounds(6) [of i]
    unfolding assms(3) h_pushn_def by auto
  have s: "sp (cpu m2) = ?base" using assms(4) by (simp add: P)
  have c: "cells_at (flush m2) (sp (cpu (flush m2))) (?n + 1)"
    using assms(2,5) by (simp add: s cells_at_def P(2))
  have pk: "peek32 m2 (cell ?base k) = gpr (cpu m) k" if "k \<le> ?n" for k
    using P(3) [OF that] assms(2,5) that by (simp add: cells_at_def P(2))
  have top: "cell ?base (Suc ?n) = sp (cpu m)" by (simp add: cell_def algebra_simps)
  have "cpu m3 = (flush_ext (cpu m2))\<lparr>sp := cell ?base (?n + 1),
      gpr := (\<lambda>k. if k < ?n + 1 then peek32 m2 (cell ?base k) else gpr (cpu m2) k)\<rparr>"
    using pop_regs_ok [OF c, of w, THEN conjunct1] unfolding assms(6) h_popn_def pop_regs_def assms(1)
    by (simp add: s del: upt_Suc cong: if_cong)
  then show ?thesis using pk top by (auto simp: less_Suc_eq_le)
qed

section \<open>Calls and returns\<close>

lemma do_branch_parts [simp]:
  "sp (do_branch t d c) = sp c" "gpr (do_branch t d c) = gpr c" "psr (do_branch t d c) = psr c"
  "pc (do_branch t d c) = (if d then pc c else t)"
  "in_delay_slot (do_branch t d c) = (d \<or> in_delay_slot c)"
  "delay_target (do_branch t d c) = (if d then t else delay_target c)"
  "pending_ext_count (do_branch t d c) = pending_ext_count c" "in_halt (do_branch t d c) = in_halt c"
  "fault (do_branch t d c) = fault c"
  by (simp_all add: do_branch_def)

text \<open>
  C39: \<open>call %rb\<close> pushes the address after the call (after the delay slot for \<open>call.d\<close>)
  and goes to \<open>%rb\<close>; whatever the callee does, if it leaves SP and the stacked word as it
  found them, \<open>ret\<close> goes to that address (through the delay slot for \<open>ret.d\<close>) with SP
  restored.
\<close>
theorem cpu_call_ret:
  assumes "word_at m (sp (cpu m) - 4)"
    and "m1 = h_call_rb w i m"
    and "sp (cpu m2) = sp (cpu m1)" "\<forall>a. word_at m1 a \<longrightarrow> word_at m2 a \<and> peek32 m2 a = peek32 m1 a"
    and "m3 = h_ret w j m2"
    and "ret = pc (cpu m) + (if dbit i then 2 else 0)"
  shows "sp (cpu m3) = sp (cpu m)
    \<and> (if dbit i then in_delay_slot (cpu m1) \<and> delay_target (cpu m1) = gpr (cpu m) (rd i)
       else pc (cpu m1) = gpr (cpu m) (rd i))
    \<and> (if dbit j then in_delay_slot (cpu m3) \<and> delay_target (cpu m3) = ret
         \<and> delay_caller (cpu m3) = 1
       else pc (cpu m3) = ret)"
proof -
  have g: "word_at (flush m) (sp (cpu (flush m)) - 4)" using assms(1) by simp
  note p = push32_ok [OF g, where w = w and v = ret]
  have m1: "m1 = on_cpu (\<lambda>c. do_branch (gpr (cpu m) (rd i)) (dbit i) (if dbit i then c\<lparr>delay_caller := 2\<rparr> else c))
      (push32 w ret (flush m))"
    unfolding assms(2,6) h_call_rb_def do_call_def Let_def by simp
  have s1: "sp (cpu m1) = sp (cpu m) - 4" "word_at m1 (sp (cpu m) - 4)" "peek32 m1 (sp (cpu m) - 4) = ret"
    using p assms(1) unfolding m1 by simp_all
  have g2: "word_at (flush m2) (sp (cpu (flush m2)))" "peek32 (flush m2) (sp (cpu (flush m2))) = ret"
    using s1 assms(3,4) by simp_all
  note q = pop32_ok [OF g2(1), where w = w]
  have "sp (cpu m3) = sp (cpu m)"
    unfolding assms(5) h_ret_def by (simp add: case_prod_beta q assms(3) s1)
  moreover have "if dbit j then in_delay_slot (cpu m3) \<and> delay_target (cpu m3) = ret \<and> delay_caller (cpu m3) = 1
      else pc (cpu m3) = ret"
    unfolding assms(5) h_ret_def using g2(2) by (auto simp: case_prod_beta q do_branch_def)
  moreover have "if dbit i then in_delay_slot (cpu m1) \<and> delay_target (cpu m1) = gpr (cpu m) (rd i)
      else pc (cpu m1) = gpr (cpu m) (rd i)"
    unfolding m1 by simp
  ultimately show ?thesis by simp
qed

section \<open>Traps\<close>

lemma psr_bits [simp]:
  "psr_ie (set_il lv p) = psr_ie p" "psr_ie (set_ie b p) = b"
  by (auto simp: set_il_def flag_defs bit_simps)

lemma psr_il_set [simp]: "psr_il (set_il lv p) = lv AND 0xF"
proof -
  have lit: "(0xF :: u32) = mask 4" by (simp add: mask_eq_exp_minus_1)
  show ?thesis unfolding psr_il_def set_il_def lit by (rule bit_word_eqI) (auto simp: bit_simps simp del: push_bit_mask_eq)
qed

lemma unmasked_il:
  assumes "\<not> trap_masked no level c" "16 \<le> no" shows "psr_ie (psr c)" "psr_il (psr c) < word_of_int level"
  using assms by (auto simp: trap_masked_def)

definition trap_entered :: "'d machine \<Rightarrow> int \<Rightarrow> int \<Rightarrow> u32 \<Rightarrow> 'd machine \<Rightarrow> bool" where
  "trap_entered m no level vec m1 \<longleftrightarrow>
     pc (cpu m1) = vec \<and> sp (cpu m1) = sp (cpu m) - 8
     \<and> psr (cpu m1) = (if no \<ge> 16 then set_il (word_of_int level) (set_ie False (psr (cpu m)))
         else set_ie False (psr (cpu m)))
     \<and> gpr (cpu m1) = gpr (cpu m) \<and> \<not> in_halt (cpu m1)
     \<and> word_at m1 (sp (cpu m) - 8) \<and> word_at m1 (sp (cpu m) - 4)
     \<and> peek32 m1 (sp (cpu m) - 8) = psr (cpu m) \<and> peek32 m1 (sp (cpu m) - 4) = pc (cpu m)"

lemma enter_trap_ok:
  assumes vec: "read32 w (ttbr (cpu m) + word_of_int (no * 4)) m = (vec, mv)" "cpu mv = cpu m"
    and "word_at mv (sp (cpu m) - 4)" "word_at mv (sp (cpu m) - 8)"
  shows "trap_entered m no level vec (enter_trap w no level m)"
proof -
  let ?s = "sp (cpu m)"
  define ma where "ma = push32 w (pc (cpu mv)) mv"
  define mb where "mb = push32 w (psr (cpu ma)) ma"
  have g: "word_at mv (sp (cpu mv) - 4)" using assms(3) vec(2) by simp
  note p = push32_ok [OF g, where w = w and v = "pc (cpu mv)", folded ma_def, unfolded vec(2)]
  have ga: "word_at ma (sp (cpu ma) - 4)" using assms(4) by (simp add: p)
  note q = push32_ok [OF ga, where w = w and v = "psr (cpu ma)", folded mb_def, unfolded p(1)]
  have "?s - 4 \<noteq> ?s - 8" by simp
  moreover have "?s - 4 - 4 = ?s - 8" by simp
  ultimately have mem: "word_at mb (?s - 8)" "word_at mb (?s - 4)"
    "peek32 mb (?s - 8) = psr (cpu m)" "peek32 mb (?s - 4) = pc (cpu m)"
    using q(3) q(4) [of "?s - 4"] p(3) assms(3,4) by (simp_all add: q(2) p(2))
  have "enter_trap w no level m = cpu_update (\<lambda>c. c\<lparr>pc := vec,
           psr := (if no \<ge> 16 then set_il (word_of_int level) (set_ie False (psr c)) else set_ie False (psr c)),
           in_halt := False, halt_mode := HaltNone\<rparr>) mb"
    unfolding enter_trap_def vec(1) by (simp add: ma_def mb_def Let_def)
  then show ?thesis unfolding trap_entered_def using mem by (simp add: q(1) p(1))
qed

lemma reti_ok:
  assumes "word_at m s" "word_at m (s + 4)" "sp (cpu m) = s"
  shows "psr (cpu (h_reti w m)) = peek32 m s" "pc (cpu (h_reti w m)) = peek32 m (s + 4)"
    "sp (cpu (h_reti w m)) = s + 8"
proof -
  have g: "word_at (flush m) s" using assms(1) by simp
  define mr where "mr = on_cpu (\<lambda>c. c\<lparr>psr := peek32 m s, sp := sp c + 4\<rparr>) (snd (read32 w s (flush m)))"
  have gr: "word_at mr (sp (cpu mr))" "peek32 mr (sp (cpu mr)) = peek32 m (s + 4)" "sp (cpu mr) = s + 4"
    "psr (cpu mr) = peek32 m s"
    using assms g wm.load_good [OF g] wm.load_peek [OF g] by (simp_all add: mr_def)
  have "h_reti w m = (case pop32 w mr of (ret_addr, m2) \<Rightarrow> on_cpu (\<lambda>c. c\<lparr>pc := ret_addr\<rparr>) m2)"
    unfolding h_reti_def flush_parts(1) flush_ext_parts(3) assms(3)
    by (subst read_word [OF g]) (simp add: mr_def)
  then show "psr (cpu (h_reti w m)) = peek32 m s" "pc (cpu (h_reti w m)) = peek32 m (s + 4)"
    "sp (cpu (h_reti w m)) = s + 8"
    using pop32_ok [OF gr(1), where w = w] gr by (simp_all add: case_prod_beta)
qed

text \<open>
  C22: an accepted trap pushes PC and PSR, jumps through its vector, clears IE (and for a maskable
  trap sets IL to its level) and wakes the CPU; a \<open>reti\<close> after a handler, whatever it does to the other registers
  and to memory, that brings SP back and leaves the two stacked words as they were restores PC, PSR and SP exactly. The stack is
  word-aligned in external RAM with no watchpoint set, and reading the vector leaves the CPU alone, as a table in memory does.
\<close>
theorem cpu_trap_reti:
  assumes "\<not> trap_masked no level (cpu m)" "\<not> trap_deferred (cpu m)"
    and "read32 w (ttbr (cpu m) + word_of_int (no * 4)) m = (vec, mv)" "cpu mv = cpu m"
    and "word_at mv (sp (cpu m) - 4)" "word_at mv (sp (cpu m) - 8)"
    and "m1 = do_trap w no level m"
    and "sp (cpu m2) = sp (cpu m1)"
    and "\<forall>a\<in>{sp (cpu m) - 8, sp (cpu m) - 4}. word_at m2 a \<and> peek32 m2 a = peek32 m1 a"
    and "m3 = h_reti w m2"
  shows "pc (cpu m1) = vec \<and> sp (cpu m1) = sp (cpu m) - 8 \<and> \<not> psr_ie (psr (cpu m1))
    \<and> (16 \<le> no \<longrightarrow> psr_il (psr (cpu m1)) = word_of_int level AND 0xF) \<and> \<not> in_halt (cpu m1)
    \<and> peek32 m1 (sp (cpu m) - 8) = psr (cpu m) \<and> peek32 m1 (sp (cpu m) - 4) = pc (cpu m)
    \<and> pc (cpu m3) = pc (cpu m) \<and> psr (cpu m3) = psr (cpu m) \<and> sp (cpu m3) = sp (cpu m)"
proof -
  have "m1 = enter_trap w no level m" using assms(1,2,7) by (simp add: do_trap_def)
  then have t: "trap_entered m no level vec m1" using enter_trap_ok [OF assms(3-6)] by simp
  have up: "sp (cpu m) - 8 + 4 = sp (cpu m) - 4" by simp
  have mem: "word_at m2 (sp (cpu m) - 8)" "word_at m2 (sp (cpu m) - 8 + 4)" "sp (cpu m2) = sp (cpu m) - 8"
    "peek32 m2 (sp (cpu m) - 8) = psr (cpu m)" "peek32 m2 (sp (cpu m) - 8 + 4) = pc (cpu m)"
    using t assms(8,9) unfolding trap_entered_def up by simp_all
  note r = reti_ok [OF mem(1-3), of w, folded assms(10), unfolded mem]
  show ?thesis using t r unfolding trap_entered_def by simp
qed

text \<open>
  Once a maskable trap has been entered no other maskable trap is taken until software sets IE
  again, and with IE set and nothing else changed only a trap of a higher level is taken.
\<close>
theorem cpu_trap_nesting:
  assumes "trap_entered m no level vec m1" "16 \<le> no" "16 \<le> no'" "0 \<le> level" "level < 16" "level' < 2 ^ 31"
  shows "do_trap w no' level' m1 = m1
    \<and> (0 \<le> level' \<and> level' \<le> level \<longrightarrow>
        do_trap w no' level' (m1\<lparr>cpu := (cpu m1)\<lparr>psr := set_ie True (psr (cpu m1))\<rparr>\<rparr>)
          = m1\<lparr>cpu := (cpu m1)\<lparr>psr := set_ie True (psr (cpu m1))\<rparr>\<rparr>)
    \<and> (level < level' \<longrightarrow> \<not> trap_masked no' level' ((cpu m1)\<lparr>psr := set_ie True (psr (cpu m1))\<rparr>))"
proof -
  have ie: "\<not> psr_ie (psr (cpu m1))" and il: "psr_il (psr (cpu m1)) = word_of_int level AND 0xF"
    using assms(1,2) by (simp_all add: trap_entered_def)
  have lit: "(0xF :: u32) = mask 4" by (simp add: mask_eq_exp_minus_1)
  have il': "psr_il (set_ie True p) = psr_il p" for p
    unfolding psr_il_def set_ie_def lit by (rule bit_word_eqI) (auto simp: bit_simps)
  have small: "uint (word_of_int k :: u32) = k" if "0 \<le> k" "k < 2 ^ 31" for k
    using that by (simp add: uint_word_of_int)
  have lv: "word_of_int level AND (0xF :: u32) = word_of_int level"
  proof (rule u32_ext)
    have "unat (word_of_int level AND (0xF :: u32)) = unat (word_of_int level :: u32) mod 16"
      unfolding lit unat_and_mask by simp
    moreover have "unat (word_of_int level :: u32) < 16"
      using small [of level] assms(4,5) by (simp add: unat_eq_nat_uint nat_less_iff)
    ultimately show "unat (word_of_int level AND (0xF :: u32)) = unat (word_of_int level :: u32)" by simp
  qed
  show ?thesis
    using ie il lv small [of level] small [of level'] assms
    by (auto simp: do_trap_def trap_masked_def il' word_le_def)
qed

section \<open>Witnesses\<close>

definition cpu_sample :: "unit machine" where
  "cpu_sample = sample_bus\<lparr>cpu := cpu_init\<lparr>sp := 0x100100, psr := 0x10, pc := 0xC00000,
     gpr := word_of_nat\<rparr>\<rparr>"

lemma cpu_sample_parts [simp]:
  "sp (cpu cpu_sample) = 0x100100" "psr (cpu cpu_sample) = 0x10" "pc (cpu cpu_sample) = 0xC00000"
  "gpr (cpu cpu_sample) = word_of_nat" "ttbr (cpu cpu_sample) = 0x400"
  "pending_ext_count (cpu cpu_sample) = 0" "in_delay_slot (cpu cpu_sample) = False"
  by (simp_all add: cpu_sample_def cpu_init_def)

lemma cpu_sample_words [simp]: "word_at cpu_sample a \<longleftrightarrow>
  0x100000 \<le> unat a \<and> unat a + 4 \<le> 0x101000 \<and> unat a mod 4 = 0"
  by (auto simp: word_at_def in_sram_def cpu_sample_def sample_bus_parts)

lemma cpu_sample_vector: "read32 no_wiring 0x440 cpu_sample = (0, cpu_sample)"
  by (simp add: read32_def a28_def classify_def Let_def cpu_sample_def sample_bus_def bus_create_def le32_def)

lemma cpu_pushn_popn_witness:
  "sp (cpu (h_popn no_wiring 0x0243 (h_pushn no_wiring 0x0203 cpu_sample))) = 0x100100"
proof -
  have rd: "rd 0x0203 = 3" "rd 0x0243 = 3" by (simp_all add: rd_def)
  have "cells_at cpu_sample 0x1000F0 4"
  proof (unfold cells_at_def, intro allI impI)
    fix k :: nat assume "k < 4"
    then have "k = 0 \<or> k = 1 \<or> k = 2 \<or> k = 3" by linarith
    then show "word_at cpu_sample (cell 0x1000F0 k)" by (elim disjE) (simp_all add: cell_def)
  qed
  then show ?thesis
    using cpu_pushn_popn [of "0x0243" "0x0203" cpu_sample "h_pushn no_wiring 0x0203 cpu_sample" no_wiring
        "h_pushn no_wiring 0x0203 cpu_sample" "h_popn no_wiring 0x0243 (h_pushn no_wiring 0x0203 cpu_sample)"]
    by (simp add: rd)
qed

lemma cpu_call_ret_witness:
  "pc (cpu (h_ret no_wiring 0x0640 (h_call_rb no_wiring 0x0603 cpu_sample))) = 0xC00000"
  using cpu_call_ret [of cpu_sample "h_call_rb no_wiring 0x0603 cpu_sample" no_wiring "0x0603"
      "h_call_rb no_wiring 0x0603 cpu_sample" "h_ret no_wiring 0x0640 (h_call_rb no_wiring 0x0603 cpu_sample)"
      "0x0640" "0xC00000"]
  by (simp add: dbit_def)

lemma sample_trap_entered: "trap_entered cpu_sample 16 3 0 (enter_trap no_wiring 16 3 cpu_sample)"
  by (rule enter_trap_ok [OF _ refl]) (simp_all add: cpu_sample_vector)

text \<open>The handler of the sample clears every general register and the status word.\<close>

lemma cpu_trap_reti_witness:
  "pc (cpu (h_reti no_wiring (on_cpu (\<lambda>c. c\<lparr>gpr := \<lambda>_. 0, psr := 0\<rparr>) (do_trap no_wiring 16 3 cpu_sample)))) = 0xC00000"
proof -
  have a: "\<not> trap_masked 16 3 (cpu cpu_sample)"
    by (simp add: trap_masked_def psr_ie_def psr_il_def)
  have d: "\<not> trap_deferred (cpu cpu_sample)" by (simp add: trap_deferred_def)
  have v: "read32 no_wiring (ttbr (cpu cpu_sample) + word_of_int (16 * 4)) cpu_sample = (0, cpu_sample)"
    by (simp add: cpu_sample_vector)
  have t: "trap_entered cpu_sample 16 3 0 (do_trap no_wiring 16 3 cpu_sample)"
    using sample_trap_entered a d by (simp add: do_trap_def)
  have k: "word_at (cpu_update f m) a = word_at m a" "peek32 (cpu_update f m) a = peek32 m a" for f a and m :: "unit machine"
    by (simp_all add: word_at_def in_sram_def peek32_def)
  show ?thesis
    using cpu_trap_reti [OF a d v refl _ _ refl _ _ refl,
        of "on_cpu (\<lambda>c. c\<lparr>gpr := \<lambda>_. 0, psr := 0\<rparr>) (do_trap no_wiring 16 3 cpu_sample)"] t
    by (simp add: k trap_entered_def)
qed

lemma cpu_trap_nesting_witness:
  "do_trap no_wiring 20 7 (enter_trap no_wiring 16 3 cpu_sample) = enter_trap no_wiring 16 3 cpu_sample"
  using cpu_trap_nesting [OF sample_trap_entered, of 20 7 no_wiring] by simp

end
