(* ===== verification/CpuCtl.thy ===== *)
theory CpuCtl
  imports CpuStack
begin

text \<open>
  Control around instructions: properties of the CPU state kept by every step when the callbacks
  keep them, the array indices of the CPU state, delay slots, and the deferral of traps in atomic
  sequences (EXT and its target, delayed branch and its slot).
\<close>

section \<open>CPU invariants across the callbacks\<close>

text \<open>
  A callback keeps a property of the CPU state. The program installs callbacks that end in
  \<open>assert_trap\<close> or leave the CPU alone; a property of the CPU survives a bus access when
  every installed callback keeps it.
\<close>

definition wiring_keeps :: "(cpu_state \<Rightarrow> bool) \<Rightarrow> 'd wiring \<Rightarrow> bool" where
  "wiring_keeps P w \<longleftrightarrow>
    (\<forall>k f a m. io_read (io_handlers w k) = Some f \<longrightarrow> P (cpu m) \<longrightarrow> P (cpu (snd (f a m))))
    \<and> (\<forall>k f a v m. io_write (io_handlers w k) = Some f \<longrightarrow> P (cpu m) \<longrightarrow> P (cpu (f a v m)))
    \<and> (\<forall>k f a v m. io_write_byte (io_handlers w k) = Some f \<longrightarrow> P (cpu m) \<longrightarrow> P (cpu (f a v m)))
    \<and> (\<forall>f wp a v n b m. wp_cb w = Some f \<longrightarrow> P (cpu m) \<longrightarrow> P (cpu (f wp a v n b m)))"

lemma wiring_keepsD:
  assumes "wiring_keeps P w"
  shows "io_read (io_handlers w k) = Some f \<Longrightarrow> P (cpu m) \<Longrightarrow> P (cpu (snd (f a m)))"
    "io_write (io_handlers w k) = Some g \<Longrightarrow> P (cpu m) \<Longrightarrow> P (cpu (g a v m))"
    "io_write_byte (io_handlers w k) = Some h \<Longrightarrow> P (cpu m) \<Longrightarrow> P (cpu (h a u m))"
    "wp_cb w = Some c \<Longrightarrow> P (cpu m) \<Longrightarrow> P (cpu (c wp a x n b m))"
  using assms [unfolded wiring_keeps_def, THEN conjunct1, rule_format]
    assms [unfolded wiring_keeps_def, THEN conjunct2, THEN conjunct1, rule_format]
    assms [unfolded wiring_keeps_def, THEN conjunct2, THEN conjunct2, THEN conjunct1, rule_format]
    assms [unfolded wiring_keeps_def, THEN conjunct2, THEN conjunct2, THEN conjunct2, rule_format]
  by - assumption+

lemma no_wiring_keeps: "wiring_keeps P no_wiring"
  by (simp add: wiring_keeps_def no_wiring_def no_handler_def)

lemma bus_cpu [simp]:
  "cpu (m\<lparr>bus := b\<rparr>) = cpu m" "cpu (store_iram xs m) = cpu m" "cpu (store_flash16 a x m) = cpu m"
  by (simp_all add: store_iram_def store_flash16_def)

lemma fetch16_cpu [simp]: "cpu (snd (fetch16 a m)) = cpu m"
  by (simp add: fetch16_def Let_def)

lemma disasm_fetch_cpu [simp]: "cpu (disasm_fetch a m) = cpu m"
  by (simp add: disasm_fetch_def)


lemma keeps_fire_wp:
  assumes "wiring_keeps P w" "P (cpu m)" shows "P (cpu (fire_wp w a v n b m))"
proof -
  have "P (cpu (fold (\<lambda>wp m. if wp_hits a n b wp then cb wp a v n b m else m) wps m))"
    if "wp_cb w = Some cb" "P (cpu m)" for cb wps m
    using that(2) by (induction wps arbitrary: m) (auto intro: wiring_keepsD(4) [OF assms(1) that(1)])
  then show ?thesis using assms(2) by (auto simp: fire_wp_def split: option.split)
qed

lemma keeps_wp:
  assumes "wiring_keeps P w" "P (cpu m)"
  shows "P (cpu (wp_read w a v n m))" "P (cpu (wp_write w a v n m))"
  using assms by (auto simp: wp_read_def wp_write_def Let_def intro: keeps_fire_wp)

lemma keeps_read8: "wiring_keeps P w \<Longrightarrow> P (cpu m) \<Longrightarrow> P (cpu (snd (read8 w a m)))"
  by (auto simp: read8_def Let_def case_prod_beta keeps_wp wiring_keepsD(1) split: region.split option.split)

lemma keeps_read16: "wiring_keeps P w \<Longrightarrow> P (cpu m) \<Longrightarrow> P (cpu (snd (read16 w a m)))"
  by (auto simp: read16_def sram_read16_def io_read16_def Let_def case_prod_beta keeps_wp wiring_keepsD(1)
      split: region.split option.split)

lemma keeps_read32: "wiring_keeps P w \<Longrightarrow> P (cpu m) \<Longrightarrow> P (cpu (snd (read32 w a m)))"
  by (auto simp: read32_def Let_def case_prod_beta keeps_wp keeps_read16 split: region.split option.split)

lemma keeps_write8: "wiring_keeps P w \<Longrightarrow> P (cpu m) \<Longrightarrow> P (cpu (write8 w a v m))"
  by (auto simp: write8_def Let_def case_prod_beta keeps_wp wiring_keepsD(2,3) split: region.split option.split)

lemma keeps_write16: "wiring_keeps P w \<Longrightarrow> P (cpu m) \<Longrightarrow> P (cpu (write16 w a v m))"
  by (auto simp: write16_def Let_def case_prod_beta keeps_wp wiring_keepsD(2) split: region.split option.split)

lemma keeps_write32: "wiring_keeps P w \<Longrightarrow> P (cpu m) \<Longrightarrow> P (cpu (write32 w a v m))"
  by (auto simp: write32_def Let_def case_prod_beta keeps_wp keeps_write16 split: region.split option.split)

lemmas keeps_bus = keeps_read8 keeps_read16 keeps_read32 keeps_write8 keeps_write16 keeps_write32

section \<open>Array indices of the CPU state\<close>

text \<open>
  \<open>pending_ext_count\<close> indexes the two-element EXT array, \<open>delay_caller\<close> the
  three-element table of names; the EXT operands are 13-bit fields.
\<close>

definition cpu_safe :: "cpu_state \<Rightarrow> bool" where
  "cpu_safe c \<longleftrightarrow> pending_ext_count c \<le> 2 \<and> delay_caller c \<le> 2 \<and> (\<forall>k. unat (pending_ext c k) < 2 ^ 13)"

lemma cpu_safe_updates [simp]:
  "cpu_safe (c\<lparr>gpr := g\<rparr>) = cpu_safe c" "cpu_safe (c\<lparr>pc := v\<rparr>) = cpu_safe c"
  "cpu_safe (c\<lparr>sp := v\<rparr>) = cpu_safe c" "cpu_safe (c\<lparr>psr := v\<rparr>) = cpu_safe c"
  "cpu_safe (c\<lparr>alr := v\<rparr>) = cpu_safe c" "cpu_safe (c\<lparr>ahr := v\<rparr>) = cpu_safe c"
  "cpu_safe (c\<lparr>in_halt := b\<rparr>) = cpu_safe c" "cpu_safe (c\<lparr>halt_mode := hm\<rparr>) = cpu_safe c"
  "cpu_safe (c\<lparr>fault := b\<rparr>) = cpu_safe c" "cpu_safe (c\<lparr>in_delay_slot := b\<rparr>) = cpu_safe c"
  "cpu_safe (c\<lparr>delay_target := v\<rparr>) = cpu_safe c" "cpu_safe (c\<lparr>deferred_trap_valid := b\<rparr>) = cpu_safe c"
  "cpu_safe (c\<lparr>deferred_trap_no := z\<rparr>) = cpu_safe c" "cpu_safe (c\<lparr>deferred_trap_level := z\<rparr>) = cpu_safe c"
  "cpu_safe c \<Longrightarrow> cpu_safe (c\<lparr>delay_caller := 0\<rparr>)" "cpu_safe c \<Longrightarrow> cpu_safe (c\<lparr>delay_caller := Suc 0\<rparr>)"
  "cpu_safe c \<Longrightarrow> cpu_safe (c\<lparr>delay_caller := 2\<rparr>)" "cpu_safe c \<Longrightarrow> cpu_safe (flush_ext c)"
  "cpu_safe (set_reg r v c) = cpu_safe c"
  by (simp_all add: cpu_safe_def flush_ext_def set_reg_def)

lemma cpu_safe_alu [simp]:
  "cpu_safe (logic_result d r c) = cpu_safe c" "cpu_safe (do_alu op a b d c) = cpu_safe c"
  "cpu_safe (do_branch t db c) = cpu_safe c" "cpu_safe (post_inc sz inc rn c) = cpu_safe c"
  "cpu_safe (set_product p c) = cpu_safe c" "cpu_safe (set_acc p c) = cpu_safe c"
  by (simp_all add: logic_result_def do_branch_def post_inc_def set_product_def set_acc_def)
    (cases op; simp add: logic_result_def)

lemma diag_cpu [simp]:
  "cpu (diag_warn cat at m) = cpu m" "cpu_safe (cpu (diag_fault cat at m)) = cpu_safe (cpu m)"
  "cpu_safe (cpu (diag_warn_or_fault cat at m)) = cpu_safe (cpu m)"
  by (simp_all add: diag_warn_def diag_fault_def diag_warn_or_fault_def)

lemmas safe_bus [simp] = keeps_bus [where P = cpu_safe]

lemma safe_stack [simp]:
  assumes "wiring_keeps cpu_safe w" "cpu_safe (cpu m)"
  shows "cpu_safe (cpu (push32 w v m))" "cpu_safe (cpu (snd (pop32 w m)))" "cpu_safe (cpu (pop_reg w i m))"
  using assms by (simp_all add: push32_def pop32_def pop_reg_def case_prod_beta)

lemma safe_trap [simp]:
  assumes w: "wiring_keeps cpu_safe w" and "cpu_safe (cpu m)"
  shows "cpu_safe (cpu (enter_trap w no level m))" "cpu_safe (cpu (do_trap w no level m))"
    "cpu_safe (cpu (assert_trap w no level m))"
proof -
  show e: "cpu_safe (cpu (enter_trap w no level m))"
    using assms by (simp add: enter_trap_def case_prod_beta Let_def)
  then show "cpu_safe (cpu (do_trap w no level m))" "cpu_safe (cpu (assert_trap w no level m))"
    using assms(2) by (auto simp: do_trap_def assert_trap_def)
qed

lemma safe_reg_lists [simp]:
  assumes "wiring_keeps cpu_safe w" "cpu_safe (cpu m)"
  shows "cpu_safe (cpu (push_regs w n m))" "cpu_safe (cpu (pop_regs w n m))"
proof -
  show "cpu_safe (cpu (push_regs w n m))"
    using assms(2) by (induction n arbitrary: m) (simp_all add: safe_stack [OF assms(1)])
  have "cpu_safe (cpu (fold (pop_reg w) ks m))" for ks
    using assms(2) by (induction ks arbitrary: m) (simp_all add: safe_stack [OF assms(1)])
  then show "cpu_safe (cpu (pop_regs w n m))" unfolding pop_regs_def .
qed

lemma safe_load_store [simp]:
  assumes "wiring_keeps cpu_safe w" "cpu_safe (cpu m)"
  shows "cpu_safe (cpu (snd (load_val sz sx w a m)))" "cpu_safe (cpu (store_val sz w a v m))"
  using assms by (cases sz; simp add: case_prod_beta)+

lemma safe_exec0: "wiring_keeps cpu_safe w \<Longrightarrow> cpu_safe (cpu m) \<Longrightarrow> cpu_safe (cpu (exec0 h w i m))"
  by (cases h)
    (simp_all add: h_slp_def h_halt_def h_pushn_def h_popn_def h_brk_def h_retd_def h_int_def h_reti_def
      h_call_rb_def do_call_def h_ret_def h_jp_rb_def h_jr_def h_call_simm8_def h_jp_simm8_def
      case_prod_beta Let_def)

lemma safe_exec1: "wiring_keeps cpu_safe w \<Longrightarrow> cpu_safe (cpu m) \<Longrightarrow> cpu_safe (cpu (exec1 h w i m))"
  by (cases h)
    (simp_all add: do_load_rb_def do_store_rb_def do_alu_rr_def case_prod_beta Let_def)

lemma safe_exec2: "wiring_keeps cpu_safe w \<Longrightarrow> cpu_safe (cpu m) \<Longrightarrow> cpu_safe (cpu (exec2 h w i m))"
  by (cases h) (simp_all add: do_load_sp_def do_store_sp_def case_prod_beta)

lemma safe_exec3: "cpu_safe (cpu m) \<Longrightarrow> cpu_safe (cpu (exec3 h i m))"
  by (cases h) (auto simp: do_alu_imm_def Let_def)

lemma safe_exec4: "wiring_keeps cpu_safe w \<Longrightarrow> cpu_safe (cpu m) \<Longrightarrow> cpu_safe (cpu (exec4 h w i m))"
  by (cases h)
    (simp_all add: h_add_sp_imm10_def h_sub_sp_imm10_def h_shift_imm4_def h_shift_rs_def h_scan_def h_swap_def
      h_mirror_def h_div0s_def h_div0u_def h_div1_def h_div2s_def h_div3s_def Let_def)

lemma safe_mac_slow [simp]:
  assumes "wiring_keeps cpu_safe w" "cpu_safe (cpu m)"
  shows "cpu_safe (cpu (snd (mac_slow k w s r1 r2 a m)))"
  using assms(2) by (induction k arbitrary: a m) (simp_all add: case_prod_beta Let_def assms(1))

lemma safe_h_mac [simp]: "wiring_keeps cpu_safe w \<Longrightarrow> cpu_safe (cpu m) \<Longrightarrow> cpu_safe (cpu (h_mac w i m))"
  by (simp_all add: h_mac_def mac_fast_open_def mac_fast_sram_def case_prod_beta Let_def)

lemma safe_rmw8 [simp]: "wiring_keeps cpu_safe w \<Longrightarrow> cpu_safe (cpu m) \<Longrightarrow> cpu_safe (cpu (rmw8 f w i m))"
  by (simp_all add: rmw8_def case_prod_beta Let_def)

lemma safe_exec5: "wiring_keeps cpu_safe w \<Longrightarrow> cpu_safe (cpu m) \<Longrightarrow> cpu_safe (cpu (exec5 h w i m))"
  by (cases h)
    (simp_all add: h_ld_w_sd_rs_def set_special_reg_def h_ld_w_rd_ss_def h_btst_def h_bclr_def h_bset_def h_bnot_def
      h_adc_def h_sbc_def reg_ext_def h_mlt_h_def h_mltu_h_def h_mlt_w_def h_mltu_w_def case_prod_beta Let_def)

lemma imm13_bound: "unat (imm13 i) < 2 ^ 13"
proof -
  have "unat (i AND mask 13) < 2 ^ 13" by (rule and_bound)
  then show ?thesis by (simp add: imm13_def mask_eq_exp_minus_1 unsigned_ucast_eq take_bit_nat_eq_self)
qed

lemma safe_h_ext: "cpu_safe (cpu m) \<Longrightarrow> cpu_safe (cpu (h_ext i m))"
  using imm13_bound [of i] by (auto simp: h_ext_def cpu_safe_def diag_warn_or_fault_def diag_fault_def)

lemma safe_exec_handler:
  "wiring_keeps cpu_safe w \<Longrightarrow> cpu_safe (cpu m) \<Longrightarrow> cpu_safe (cpu (exec_handler h w i m))"
  by (cases h) (auto simp: h_undef_def Let_def safe_exec0 safe_exec1 safe_exec2 safe_exec3 safe_exec4 safe_exec5 safe_h_ext)

lemma safe_step_insn:
  assumes "wiring_keeps cpu_safe w" "cpu_safe (cpu m)" shows "cpu_safe (cpu (step_insn w m))"
proof -
  have sc: "cpu_safe (cpu (snd (slot_checks a i x)))" if "cpu_safe (cpu x)" for a i and x :: "'a machine"
    using that by (auto simp: slot_checks_def Let_def split: delay_class.split)
  have ec: "cpu_safe (cpu (snd (ext_check a i x)))" if "cpu_safe (cpu x)" for a i and x :: "'a machine"
    using that by (auto simp: ext_check_def Let_def)
  have tail: "cpu_safe (cpu (step_tail w a s t x))" if "cpu_safe (cpu x)" for a s t x
    using that by (auto simp: step_tail_def fire_deferred_def bus_fault_check_def slot_complete_def
        case_prod_beta Let_def assms(1))
  show ?thesis
    unfolding step_insn_def Let_def case_prod_beta
    using assms sc ec by (auto intro!: tail safe_exec_handler ec sc)
qed

section \<open>Instructions allowed in a delay slot\<close>

text \<open>
  A step on registers only: the memory, the devices, the log, the PC, the halt and fault flags
  and the branch and trap bookkeeping are as before; no EXT is left pending.
\<close>

definition reg_only :: "'d machine \<Rightarrow> 'd machine \<Rightarrow> bool" where
  "reg_only m m' \<longleftrightarrow> m' = m\<lparr>cpu := cpu m'\<rparr> \<and> pc (cpu m') = pc (cpu m) \<and> in_halt (cpu m') = in_halt (cpu m)
     \<and> fault (cpu m') = fault (cpu m) \<and> in_delay_slot (cpu m') = in_delay_slot (cpu m)
     \<and> delay_target (cpu m') = delay_target (cpu m) \<and> delay_caller (cpu m') = delay_caller (cpu m)
     \<and> deferred_trap_valid (cpu m') = deferred_trap_valid (cpu m)
     \<and> deferred_trap_no (cpu m') = deferred_trap_no (cpu m)
     \<and> deferred_trap_level (cpu m') = deferred_trap_level (cpu m)
     \<and> ttbr (cpu m') = ttbr (cpu m) \<and> pending_ext_count (cpu m') = 0"

definition slot_handlers :: "handler list" where
  "slot_handlers = [C0 H_nop]
    @ map C1 [H_add_rd_rs, H_sub_rd_rs, H_cmp_rd_rs, H_ld_w_rd_rs, H_and_rd_rs, H_or_rd_rs, H_xor_rd_rs, H_not_rd_rs]
    @ map C3 [H_add_rd_imm6, H_sub_rd_imm6, H_cmp_rd_simm6, H_ld_w_rd_simm6, H_and_rd_simm6, H_or_rd_simm6,
        H_xor_rd_simm6, H_not_rd_simm6]
    @ map C4 [H_add_sp_imm10, H_sub_sp_imm10, H_srl_rd_imm4, H_sll_rd_imm4, H_sra_rd_imm4, H_sla_rd_imm4,
        H_rr_rd_imm4, H_rl_rd_imm4, H_srl_rd_rs, H_sll_rd_rs, H_sra_rd_rs, H_sla_rd_rs, H_rr_rd_rs,
        H_rl_rd_rs, H_scan0, H_scan1, H_swap, H_mirror]
    @ map C5 [H_ld_w_sd_rs, H_ld_w_rd_ss, H_adc, H_sbc, H_mlt_h, H_mltu_h]"

lemma op1_cases: "op1 i = 0 \<or> op1 i = 1 \<or> op1 i = 2 \<or> op1 i = 3 \<or> op1 i = 4 \<or> op1 i = 5 \<or> op1 i = 6 \<or> op1 i = 7"
  using field_bounds(2) [of i] by linarith

lemma op2_cases: "op2 i = 0 \<or> op2 i = 1 \<or> op2 i = 2 \<or> op2 i = 3"
  using field_bounds(3) [of i] by linarith

lemma cls_cases: "cls i = 0 \<or> cls i = 1 \<or> cls i = 2 \<or> cls i = 3 \<or> cls i = 4 \<or> cls i = 5 \<or> cls i = 6 \<or> cls i = 7"
  using field_bounds(1) [of i] by linarith

lemma slot_ok_dispatch:
  assumes "delay_slot_class i = DC_OK" "dispatch i \<noteq> H_undef"
  shows "dispatch i \<in> set slot_handlers"
proof -
  note [simp] = slot_handlers_def sel_def numeral_eq_Suc
  consider "cls i = 0" | "cls i = 1" | "cls i = 2" | "cls i = 3" | "cls i = 4" | "cls i = 5" | "cls i \<ge> 6"
    using cls_cases [of i] by linarith
  then show ?thesis
  proof cases
    case 1
    then show ?thesis using assms by (auto simp: delay_slot_class_def dispatch_def table_0a_def split: if_splits)
  next
    case 2
    then show ?thesis using assms op1_cases [of i]
      by (auto simp: delay_slot_class_def dispatch_def table_1_def split: if_splits)
  next
    case 3
    then show ?thesis using assms by (simp add: delay_slot_class_def)
  next
    case 4
    then show ?thesis using assms op1_cases [of i] by (auto simp: dispatch_def table_3_def)
  next
    case 5
    then show ?thesis using assms op1_cases [of i] op2_cases [of i]
      by (elim disjE) (simp_all add: delay_slot_class_def dispatch_def table_4_def)
  next
    case 6
    then show ?thesis using assms op1_cases [of i] op2_cases [of i]
      by (elim disjE) (simp_all add: delay_slot_class_def dispatch_def table_5_def)
  next
    case 7
    then show ?thesis using assms cls_cases [of i] by (auto simp: delay_slot_class_def)
  qed
qed

lemma do_alu_parts [simp]:
  "pc (do_alu op a b d c) = pc c" "in_halt (do_alu op a b d c) = in_halt c" "fault (do_alu op a b d c) = fault c"
  "in_delay_slot (do_alu op a b d c) = in_delay_slot c" "delay_target (do_alu op a b d c) = delay_target c"
  "delay_caller (do_alu op a b d c) = delay_caller c"
  "deferred_trap_valid (do_alu op a b d c) = deferred_trap_valid c"
  "deferred_trap_no (do_alu op a b d c) = deferred_trap_no c"
  "deferred_trap_level (do_alu op a b d c) = deferred_trap_level c"
  "ttbr (do_alu op a b d c) = ttbr c"
  "pending_ext_count (do_alu op a b d c) = pending_ext_count c" "sp (do_alu op a b d c) = sp c"
  "alr (do_alu op a b d c) = alr c" "ahr (do_alu op a b d c) = ahr c"
  by (cases op; simp add: set_reg_def logic_result_def)+

lemma set_special_parts [simp]:
  "pc (set_special_reg n v c) = pc c" "in_halt (set_special_reg n v c) = in_halt c"
  "fault (set_special_reg n v c) = fault c" "in_delay_slot (set_special_reg n v c) = in_delay_slot c"
  "delay_target (set_special_reg n v c) = delay_target c" "delay_caller (set_special_reg n v c) = delay_caller c"
  "deferred_trap_valid (set_special_reg n v c) = deferred_trap_valid c"
  "deferred_trap_no (set_special_reg n v c) = deferred_trap_no c"
  "deferred_trap_level (set_special_reg n v c) = deferred_trap_level c" "ttbr (set_special_reg n v c) = ttbr c"
  "pending_ext_count (set_special_reg n v c) = pending_ext_count c"
  by (simp_all add: set_special_reg_def)

lemma reg_onlyI:
  assumes "\<And>c. pc (f c) = pc c" "\<And>c. in_halt (f c) = in_halt c" "\<And>c. fault (f c) = fault c"
    "\<And>c. in_delay_slot (f c) = in_delay_slot c" "\<And>c. delay_target (f c) = delay_target c"
    "\<And>c. delay_caller (f c) = delay_caller c" "\<And>c. deferred_trap_valid (f c) = deferred_trap_valid c"
    "\<And>c. deferred_trap_no (f c) = deferred_trap_no c" "\<And>c. deferred_trap_level (f c) = deferred_trap_level c"
    "\<And>c. ttbr (f c) = ttbr c" "\<And>c. pending_ext_count (f c) = 0"
  shows "reg_only m (on_cpu f m)"
  using assms by (cases m) (simp add: reg_only_def)

lemmas slot_handler_defs = do_alu_rr_def do_alu_imm_def h_add_sp_imm10_def h_sub_sp_imm10_def h_shift_imm4_def
  h_shift_rs_def h_scan_def h_swap_def h_mirror_def h_ld_w_sd_rs_def h_ld_w_rd_ss_def h_adc_def h_sbc_def
  h_mlt_h_def h_mltu_h_def logic_result_def set_product_def set_reg_def flush_def Let_def

lemma slot_ok_reg_only:
  assumes "h \<in> set slot_handlers"
  shows "reg_only m (exec_handler h w i m)"
  using assms unfolding slot_handlers_def
  by (auto simp: slot_handler_defs intro!: reg_onlyI)

section \<open>The delay slot in a step\<close>

lemma fetch16_parts [simp]:
  "dev (snd (fetch16 a m)) = dev m" "sram (bus (snd (fetch16 a m))) = sram (bus m)"
  "iram (bus (snd (fetch16 a m))) = iram (bus m)" "flash (bus (snd (fetch16 a m))) = flash (bus m)"
  "fault_pending (bus (snd (fetch16 a m))) = fault_pending (bus m)"
  "breakpoints (snd (fetch16 a m)) = breakpoints m" "strict (snd (fetch16 a m)) = strict m"
  by (simp_all add: fetch16_def Let_def)

lemma disasm_fetch_parts [simp]:
  "dev (disasm_fetch a m) = dev m" "sram (bus (disasm_fetch a m)) = sram (bus m)"
  "iram (bus (disasm_fetch a m)) = iram (bus m)" "flash (bus (disasm_fetch a m)) = flash (bus m)"
  "fault_pending (bus (disasm_fetch a m)) = fault_pending (bus m)"
  by (simp_all add: disasm_fetch_def)

lemma diag_warn_parts [simp]:
  "dev (diag_warn cat a m) = dev m" "bus (diag_warn cat a m) = bus m"
  by (simp_all add: diag_warn_def)

text \<open>Two machines with the same memory and devices; only cycles and the log may differ.\<close>

definition same_memory :: "'d machine \<Rightarrow> 'd machine \<Rightarrow> bool" where
  "same_memory m m' \<longleftrightarrow> dev m' = dev m \<and> sram (bus m') = sram (bus m) \<and> iram (bus m') = iram (bus m)
     \<and> flash (bus m') = flash (bus m)"

lemma slot_checks_ok:
  assumes "pending_ext_count (cpu m) = 0" "delay_slot_class i = DC_OK"
  shows "\<not> fst (slot_checks a i m)" "cpu (snd (slot_checks a i m)) = cpu m"
    "same_memory m (snd (slot_checks a i m))"
    "fault_pending (bus (snd (slot_checks a i m))) = fault_pending (bus m)"
  using assms by (simp_all add: slot_checks_def same_memory_def Let_def)

text \<open>
  C25: an instruction of the allowed class in a delay slot is executed exactly once and control
  then continues at the branch target with the delayed-branch state cleared; memory and devices
  are untouched, and a trap deferred meanwhile is taken only now, from the branch target.
\<close>
theorem cpu_delay_slot:
  assumes st: "\<not> in_halt (cpu m)" "pc (cpu m) \<notin> breakpoints m" "in_delay_slot (cpu m)"
    "pending_ext_count (cpu m) = 0" "\<not> fault_pending (bus m)"
    and f: "fetch16 (pc (cpu m)) m = (i, m1)"
    and ok: "delay_slot_class i = DC_OK" "dispatch i \<noteq> H_undef"
  shows "\<exists>mx mz. snd (step w m) = fire_deferred w mz
    \<and> cpu mx = (cpu m)\<lparr>pc := pc (cpu m) + 2\<rparr>
    \<and> cpu mz = (cpu (exec_handler (dispatch i) w i mx))
        \<lparr>in_delay_slot := False, delay_caller := 0, pc := delay_target (cpu m)\<rparr>
    \<and> same_memory m mz \<and> \<not> in_halt (cpu mz)"
proof -
  let ?a = "pc (cpu m)"
  have m1: "cpu m1 = cpu m" "same_memory m m1" "\<not> fault_pending (bus m1)"
    using f fetch16_cpu [of ?a m] fetch16_parts [of ?a m] st(5) by (simp_all add: same_memory_def)
  define m2 where "m2 = on_cpu (\<lambda>c. c\<lparr>pc := ?a + 2\<rparr>) m1"
  have m2: "cpu m2 = (cpu m)\<lparr>pc := ?a + 2\<rparr>" "same_memory m m2" "\<not> fault_pending (bus m2)"
    using m1 by (simp_all add: m2_def same_memory_def)
  define mx where "mx = snd (slot_checks ?a i m2)"
  have p2: "pending_ext_count (cpu m2) = 0" using st(4) by (simp add: m2)
  have mx: "cpu mx = (cpu m)\<lparr>pc := ?a + 2\<rparr>" "same_memory m mx" "\<not> fault_pending (bus mx)"
    using slot_checks_ok [OF p2 ok(1), of ?a] m2 by (simp_all add: mx_def same_memory_def)
  have ext: "ext_check ?a i mx = (False, mx)" using st(4) mx(1) by (simp add: ext_check_def)
  define my where "my = exec_handler (dispatch i) w i mx"
  have my: "reg_only mx my" unfolding my_def by (rule slot_ok_reg_only [OF slot_ok_dispatch [OF ok]])
  then have bus_my: "bus my = bus mx" "dev my = dev mx" "in_halt (cpu my) = in_halt (cpu m)"
    unfolding reg_only_def using mx(1) by (metis machine.select_convs machine.surjective machine.update_convs(1), 
      metis machine.select_convs machine.surjective machine.update_convs(1), simp)
  define mz where "mz = on_cpu (slot_complete True (delay_target (cpu m))) (bus_fault_check ?a my)"
  have nf: "bus_fault_check ?a my = my\<lparr>bus := (bus my)\<lparr>fault_pending := False\<rparr>\<rparr>"
    using mx(3) bus_my by (simp add: bus_fault_check_def take_fault_def)
  have "snd (step w m) = fire_deferred w mz"
    using st(1-3) slot_checks_ok(1) [OF p2 ok(1), of ?a] m1(1)
    by (simp add: step_def step_insn_def f Let_def case_prod_beta m2_def [symmetric] mx_def [symmetric]
        ext my_def [symmetric] step_tail_def mz_def [symmetric])
  moreover have "cpu mz = (cpu my)\<lparr>in_delay_slot := False, delay_caller := 0, pc := delay_target (cpu m)\<rparr>"
    using bus_my(3) st(1) by (simp add: mz_def nf slot_complete_def)
  moreover have "same_memory m mz" using mx(2) bus_my by (simp add: mz_def nf same_memory_def)
  moreover have "\<not> in_halt (cpu mz)" using bus_my(3) st(1) by (simp add: mz_def nf slot_complete_def)
  ultimately show ?thesis using mx(1) my_def by blast
qed

section \<open>Traps and atomic sequences\<close>

definition record_trap :: "int \<Rightarrow> int \<Rightarrow> 'd machine \<Rightarrow> 'd machine" where
  "record_trap no level m = on_cpu (\<lambda>c. c\<lparr>deferred_trap_valid := True, deferred_trap_no := no,
     deferred_trap_level := level\<rparr>) m"

lemma trap_tests [simp]:
  "trap_masked no level (cpu (record_trap n l m)) = trap_masked no level (cpu m)"
  "trap_deferred (cpu (record_trap n l m)) = trap_deferred (cpu m)"
  "record_trap n2 l2 (record_trap n1 l1 m) = record_trap n2 l2 m"
  by (cases m; simp add: record_trap_def trap_masked_def trap_deferred_def)+

lemma assert_deferred:
  "trap_deferred (cpu m) \<Longrightarrow> \<not> trap_masked no level (cpu m) \<Longrightarrow> assert_trap w no level m = record_trap no level m"
  by (simp add: assert_trap_def do_trap_def record_trap_def)

text \<open>The end of the atomic sequence: no EXT pending, not in a delay slot.\<close>

definition sequence_done :: "'d machine \<Rightarrow> 'd machine" where
  "sequence_done m = on_cpu (\<lambda>c. c\<lparr>pending_ext_count := 0, in_delay_slot := False\<rparr>) m"

definition forget_deferred :: "'d machine \<Rightarrow> 'd machine" where
  "forget_deferred m = on_cpu (\<lambda>c. c\<lparr>deferred_trap_valid := False\<rparr>) m"

lemma fire_deferred_now:
  assumes "\<not> trap_deferred (cpu m)" "deferred_trap_valid (cpu m)" "\<not> fault (cpu m)"
    "\<not> trap_masked (deferred_trap_no (cpu m)) (deferred_trap_level (cpu m)) (cpu m)"
  shows "fire_deferred w m = enter_trap w (deferred_trap_no (cpu m)) (deferred_trap_level (cpu m)) (forget_deferred m)"
proof -
  have "\<not> trap_masked (deferred_trap_no (cpu m)) (deferred_trap_level (cpu m)) (cpu (forget_deferred m))"
    "\<not> trap_deferred (cpu (forget_deferred m))"
    using assms(1,4) by (simp_all add: trap_masked_def trap_deferred_def forget_deferred_def)
  then show ?thesis
    using assms(1-3) by (simp add: fire_deferred_def do_trap_def forget_deferred_def [symmetric] trap_deferred_def Let_def)
qed

text \<open>
  Between an EXT prefix and its target, and between a delayed branch and its slot, an
  unmasked trap request changes nothing but the record of the deferred trap, and no deferred trap
  fires; once the sequence is complete the recorded trap is entered.
\<close>
theorem cpu_traps_deferred:
  assumes "trap_deferred (cpu m)" "\<not> trap_masked no level (cpu m)"
  shows "assert_trap w no level m = record_trap no level m
    \<and> fire_deferred w (assert_trap w no level m) = assert_trap w no level m
    \<and> (\<not> fault (cpu m) \<longrightarrow> fire_deferred w (sequence_done (assert_trap w no level m))
         = enter_trap w no level (forget_deferred (sequence_done (assert_trap w no level m))))"
proof -
  let ?m = "sequence_done (record_trap no level m)"
  have "\<not> trap_deferred (cpu ?m)" "deferred_trap_valid (cpu ?m)" "deferred_trap_no (cpu ?m) = no"
    "deferred_trap_level (cpu ?m) = level" "fault (cpu ?m) = fault (cpu m)"
    "\<not> trap_masked no level (cpu ?m)"
    using assms(2) by (simp_all add: sequence_done_def record_trap_def trap_deferred_def trap_masked_def)
  then have "\<not> fault (cpu m) \<longrightarrow> fire_deferred w ?m = enter_trap w no level (forget_deferred ?m)"
    using fire_deferred_now [of ?m w] by simp
  moreover have "fire_deferred w (record_trap no level m) = record_trap no level m"
    using assms(1) by (auto simp: fire_deferred_def trap_deferred_def record_trap_def Let_def)
  ultimately show ?thesis using assert_deferred [OF assms] by simp
qed

text \<open>
  Only the last deferred trap survives: a second request inside the same atomic sequence
  replaces the first.
\<close>
theorem cpu_deferred_slot_is_single:
  assumes "trap_deferred (cpu m)" "\<not> trap_masked n1 l1 (cpu m)" "\<not> trap_masked n2 l2 (cpu m)"
  shows "assert_trap w n2 l2 (assert_trap w n1 l1 m) = assert_trap w n2 l2 m"
  using assms by (simp add: assert_deferred)

text \<open>
  \<open>slp\<close> or \<open>halt\<close> in a delay slot of a non-strict CPU leaves the delay-slot flag
  set while halted, so that every trap is only recorded: no interrupt wakes the CPU again.
\<close>
theorem cpu_halt_in_slot_sleeps:
  assumes "in_delay_slot (cpu m)" "in_halt (cpu m)"
  shows "in_halt (cpu (assert_trap w no level m)) \<and> in_delay_slot (cpu (assert_trap w no level m))
    \<and> step w (assert_trap w no level m) = (1, assert_trap w no level m)"
  using assms by (simp add: assert_trap_def do_trap_def trap_deferred_def step_def)

section \<open>Witnesses\<close>

text \<open>A CPU in the delay slot of a branch to \<open>0x100200\<close>, at a \<open>nop\<close> in zeroed SRAM.\<close>

definition slot_sample :: "unit machine" where
  "slot_sample = sample_bus\<lparr>cpu := cpu_init\<lparr>pc := 0x100010, in_delay_slot := True, delay_target := 0x100200,
     psr := 0x10\<rparr>\<rparr>"

lemma slot_sample_parts [simp]:
  "pc (cpu slot_sample) = 0x100010" "in_halt (cpu slot_sample) = False" "breakpoints slot_sample = {}"
  "in_delay_slot (cpu slot_sample) = True" "pending_ext_count (cpu slot_sample) = 0"
  "deferred_trap_valid (cpu slot_sample) = False" "fault (cpu slot_sample) = False"
  "delay_target (cpu slot_sample) = 0x100200" "psr (cpu slot_sample) = 0x10"
  by (simp_all add: slot_sample_def sample_bus_def cpu_init_def)

lemma slot_sample_fetch: "fst (fetch16 0x100010 slot_sample) = 0"
proof -
  have "replicate 4096 (0 :: u8) ! 16 = 0" "replicate 4096 (0 :: u8) ! 17 = 0" by (subst nth_replicate; simp)+
  then show ?thesis
    by (simp add: fetch16_def a28_def flash_end_def slot_sample_def sample_bus_def bus_create_def Let_def le16_def)
qed

lemma cpu_delay_slot_witness: "\<exists>mz. snd (step no_wiring slot_sample) = fire_deferred no_wiring mz
    \<and> pc (cpu mz) = 0x100200"
proof -
  have f: "fetch16 (pc (cpu slot_sample)) slot_sample = (0, snd (fetch16 0x100010 slot_sample))"
    using slot_sample_fetch by (metis prod.collapse slot_sample_parts(1))
  have nf: "\<not> fault_pending (bus slot_sample)" by (simp add: slot_sample_def sample_bus_def bus_create_def)
  have ok: "delay_slot_class 0 = DC_OK" "dispatch 0 \<noteq> H_undef"
    by (simp_all add: delay_slot_class_def dispatch_def table_0a_def sel_def cls_def c0_op1_def c0_op2_def)
  show ?thesis
    using cpu_delay_slot [OF _ _ _ _ nf f ok, of no_wiring] by auto
qed

lemma cpu_traps_deferred_witness:
  "assert_trap no_wiring 20 3 slot_sample = record_trap 20 3 slot_sample"
  using cpu_traps_deferred [of slot_sample 20 3 no_wiring]
  by (simp add: trap_deferred_def trap_masked_def psr_ie_def psr_il_def)

lemma cpu_deferred_slot_is_single_witness:
  "assert_trap no_wiring 20 3 (assert_trap no_wiring 30 7 slot_sample) = assert_trap no_wiring 20 3 slot_sample"
  using cpu_deferred_slot_is_single [of slot_sample 30 7 20 3 no_wiring]
  by (simp add: trap_deferred_def trap_masked_def psr_ie_def psr_il_def)

lemma cpu_halt_in_slot_sleeps_witness:
  "in_halt (cpu (assert_trap no_wiring 20 3 (on_cpu (\<lambda>c. c\<lparr>in_halt := True\<rparr>) slot_sample)))"
  using cpu_halt_in_slot_sleeps [of "on_cpu (\<lambda>c. c\<lparr>in_halt := True\<rparr>) slot_sample" no_wiring 20 3] by simp

end
