(* ===== verification/CpuAlu.thy ===== *)
theory CpuAlu
  imports CpuCtl
begin

text \<open>
  Results and flags: addition and subtraction, comparison and the conditional branches, carry
  chains, sign extension and EXT operands, shifts, bit and byte reversal, scans.
\<close>

section \<open>Flags of additions and subtractions\<close>

lemma u64_high: "(drop_bit 32 (x :: u64) = 0) = (unat x < 2 ^ 32)"
proof -
  have "unat (drop_bit 32 x) = drop_bit 32 (take_bit 64 (unat x))" by (simp only: unsigned_drop_bit_eq) simp
  also have "take_bit 64 (unat x) = unat x" using unsigned_less [of x, where 'a = nat] by (intro take_bit_nat_eq_self) simp
  finally have "unat (drop_bit 32 x) = unat x div 2 ^ 32" by (simp only: drop_bit_eq_div)
  moreover have "(drop_bit 32 x = 0) = (unat (drop_bit 32 x) = 0)" by (simp only: unat_eq_zero)
  ultimately show ?thesis by (simp only: div_eq_0_iff) simp
qed

lemma unat_ucast64: "unat (ucast (a :: u32) :: u64) = unat a"
  using u32_less [of a] by (simp add: unsigned_ucast_eq take_bit_nat_eq_self)

lemma unat_low: "unat (ucast (x :: u64) :: u32) = unat x mod 2 ^ 32"
  by (simp only: unsigned_ucast_eq take_bit_eq_mod) simp

lemma unat_add64: "unat (add64 a b) = unat a + unat b"
  using u32_less [of a] u32_less [of b]
  by (simp add: add64_def unat_word_ariths unat_ucast64)

lemma unat_sub64: "unat (sub64 a b) = (if unat b \<le> unat a then unat a - unat b else unat a + 2 ^ 64 - unat b)"
  using u32_less [of b]
  by (simp add: sub64_def unat_sub_if_size word_size unat_ucast64)

lemma low_add64: "ucast (add64 a b) = a + b"
  by (rule u32_ext) (simp add: unat_low unat_add64 unat_word_ariths)

lemma low_sub64: "ucast (sub64 a b) = a - b"
proof (rule u32_ext)
  have "(unat a + 2 ^ 64 - unat b) mod 2 ^ 32 = unat a + 2 ^ 32 - unat b" if "\<not> unat b \<le> unat a"
  proof -
    have "unat a + 2 ^ 64 - unat b = (unat a + 2 ^ 32 - unat b) + (2 ^ 32 - 1) * 2 ^ 32"
      using that u32_less [of b] by simp
    then have "(unat a + 2 ^ 64 - unat b) mod 2 ^ 32 = (unat a + 2 ^ 32 - unat b) mod 2 ^ 32"
      by (simp only: mod_mult_self1)
    then show ?thesis using that u32_less [of b] by simp
  qed
  then show "unat (ucast (sub64 a b) :: u32) = unat (a - b)"
    using u32_less [of a] by (simp add: unat_low unat_sub64 u32_sub)
qed

lemma sub_flags:
  "psr_z (set_nzvc_sub a b (sub64 a b) p) = (a = b)"
  "psr_c (set_nzvc_sub a b (sub64 a b) p) = (a < b)"
  "psr_n (set_nzvc_sub a b (sub64 a b) p) = bit (a - b) 31"
  "psr_v (set_nzvc_sub a b (sub64 a b) p) = (bit a 31 \<noteq> bit b 31 \<and> bit a 31 \<noteq> bit (a - b) 31)"
proof -
  have "(drop_bit 32 (sub64 a b) \<noteq> 0) = (a < b)"
    using u32_less [of a] u32_less [of b] unfolding u64_high unat_sub64 word_less_nat_alt by auto
  then show "psr_c (set_nzvc_sub a b (sub64 a b) p) = (a < b)"
    by (simp add: set_nzvc_sub_def flag_defs Let_def)
  show "psr_z (set_nzvc_sub a b (sub64 a b) p) = (a = b)"
    "psr_n (set_nzvc_sub a b (sub64 a b) p) = bit (a - b) 31"
    "psr_v (set_nzvc_sub a b (sub64 a b) p) = (bit a 31 \<noteq> bit b 31 \<and> bit a 31 \<noteq> bit (a - b) 31)"
    by (simp_all add: set_nzvc_sub_def flag_defs Let_def low_sub64 bit_simps)
qed

lemma add_flags:
  "psr_z (set_nzvc_add a b (add64 a b) p) = (a + b = 0)"
  "psr_c (set_nzvc_add a b (add64 a b) p) = (2 ^ 32 \<le> unat a + unat b)"
  "psr_n (set_nzvc_add a b (add64 a b) p) = bit (a + b) 31"
  "psr_v (set_nzvc_add a b (add64 a b) p) = (bit a 31 = bit b 31 \<and> bit a 31 \<noteq> bit (a + b) 31)"
proof -
  have "(drop_bit 32 (add64 a b) \<noteq> 0) = (2 ^ 32 \<le> unat a + unat b)"
    by (simp add: u64_high unat_add64 not_less)
  then show "psr_c (set_nzvc_add a b (add64 a b) p) = (2 ^ 32 \<le> unat a + unat b)"
    by (simp add: set_nzvc_add_def flag_defs Let_def)
  show "psr_z (set_nzvc_add a b (add64 a b) p) = (a + b = 0)"
    "psr_n (set_nzvc_add a b (add64 a b) p) = bit (a + b) 31"
    "psr_v (set_nzvc_add a b (add64 a b) p) = (bit a 31 = bit b 31 \<and> bit a 31 \<noteq> bit (a + b) 31)"
    by (auto simp: set_nzvc_add_def flag_defs Let_def low_add64 bit_simps)
qed

lemma msb_uint: "bit (x :: u32) 31 = (2 ^ 31 \<le> uint x)"
proof -
  have "(2 ^ 31 \<le> unat x) = (int (2 ^ 31) \<le> int (unat x))" by (simp only: of_nat_le_iff)
  then show ?thesis unfolding u32_msb_ge by simp
qed

lemma int_of_nat_wrap:
  "y \<le> k \<Longrightarrow> int (if y \<le> x then x - y else x + k - y) = (if int y \<le> int x then int x - int y else int x + int k - int y)"
  "int (if x + y < k then x + y else x + y - k) = (if int x + int y < int k then int x + int y else int x + int y - int k)"
  by (auto simp: of_nat_diff)

lemma uint_sub: "uint (a - b :: u32) = (if uint b \<le> uint a then uint a - uint b else uint a + 2 ^ 32 - uint b)"
proof -
  have "int (unat (a - b)) = (if int (unat b) \<le> int (unat a) then int (unat a) - int (unat b)
      else int (unat a) + int (2 ^ 32) - int (unat b))"
    unfolding u32_sub by (rule int_of_nat_wrap(1)) (rule less_imp_le [OF u32_less])
  then show ?thesis by simp
qed

lemma uint_add: "uint (a + b :: u32) = (if uint a + uint b < 2 ^ 32 then uint a + uint b else uint a + uint b - 2 ^ 32)"
proof -
  have "int (unat (a + b)) = (if int (unat a) + int (unat b) < int (2 ^ 32) then int (unat a) + int (unat b)
      else int (unat a) + int (unat b) - int (2 ^ 32))"
    unfolding u32_add by (rule int_of_nat_wrap(2))
  then show ?thesis by simp
qed

lemma int_ranges:
  fixes x y :: int
  assumes "0 \<le> x" "x < 2 ^ 32" "0 \<le> y" "y < 2 ^ 32"
  defines "s v \<equiv> if 2 ^ 31 \<le> v then v - 2 ^ 32 else (v :: int)"
  defines "d \<equiv> if y \<le> x then x - y else x + 2 ^ 32 - y"
    and "t \<equiv> if x + y < 2 ^ 32 then x + y else x + y - 2 ^ 32"
  shows "((2 ^ 31 \<le> d) \<noteq> ((2 ^ 31 \<le> x) \<noteq> (2 ^ 31 \<le> y) \<and> (2 ^ 31 \<le> x) \<noteq> (2 ^ 31 \<le> d))) = (s x < s y)"
    and "((2 ^ 31 \<le> x) = (2 ^ 31 \<le> y) \<and> (2 ^ 31 \<le> x) \<noteq> (2 ^ 31 \<le> t)) = (s t \<noteq> s x + s y)"
    and "((2 ^ 31 \<le> x) \<noteq> (2 ^ 31 \<le> y) \<and> (2 ^ 31 \<le> x) \<noteq> (2 ^ 31 \<le> d)) = (s d \<noteq> s x - s y)"
  using assms(1-4) unfolding s_def d_def t_def by auto

lemmas uint_ranges = int_ranges [OF u32_uint(1,2) u32_uint(1,2)]

lemma signed_less: "cond_lt (set_nzvc_sub a b (sub64 a b) p) = (sint a < sint b)"
  unfolding cond_lt_def sub_flags u32_sint msb_uint uint_sub by (rule uint_ranges(1))

lemma signed_overflow_add:
  "psr_v (set_nzvc_add a b (add64 a b) p) = (sint (a + b) \<noteq> sint a + sint b)"
  unfolding add_flags u32_sint msb_uint uint_add by (rule uint_ranges(2))

lemma signed_overflow_sub:
  "psr_v (set_nzvc_sub a b (sub64 a b) p) = (sint (a - b) \<noteq> sint a - sint b)"
  unfolding sub_flags u32_sint msb_uint uint_sub by (rule uint_ranges(3))

section \<open>Comparison and conditional branches\<close>

fun cmp_holds :: "class0 \<Rightarrow> u32 \<Rightarrow> u32 \<Rightarrow> bool" where
  "cmp_holds H_jrgt a b = (sint b < sint a)"
| "cmp_holds H_jrge a b = (sint b \<le> sint a)"
| "cmp_holds H_jrlt a b = (sint a < sint b)"
| "cmp_holds H_jrle a b = (sint a \<le> sint b)"
| "cmp_holds H_jrugt a b = (b < a)"
| "cmp_holds H_jruge a b = (b \<le> a)"
| "cmp_holds H_jrult a b = (a < b)"
| "cmp_holds H_jrule a b = (a \<le> b)"
| "cmp_holds H_jreq a b = (a = b)"
| "cmp_holds H_jrne a b = (a \<noteq> b)"
| "cmp_holds _ a b = False"

definition cond_branches :: "class0 set" where
  "cond_branches = {H_jrgt, H_jrge, H_jrlt, H_jrle, H_jrugt, H_jruge, H_jrult, H_jrule, H_jreq, H_jrne}"

lemma sint_eq_iff: "(sint (a :: u32) = sint b) = (a = b)"
  by (auto dest: signed_word_eqI)

lemma cond_branch_after_cmp:
  assumes "cc \<in> cond_branches" "psr (cpu m) = set_nzvc_sub a b (sub64 a b) p"
  shows "exec0 cc w j m = h_jr j (cmp_holds cc a b) m"
proof -
  have eq: "(sint b \<le> sint a \<and> a \<noteq> b) = (sint b < sint a)" "(b \<le> a \<and> a \<noteq> b) = (b < a)"
    "(sint a < sint b \<or> a = b) = (sint a \<le> sint b)" "(a < b \<or> a = b) = (a \<le> b)"
    by (auto simp: order.order_iff_strict sint_eq_iff)
  show ?thesis
    using assms unfolding cond_branches_def
    by (auto simp: signed_less sub_flags not_less eq)
qed

text \<open>
  After \<open>cmp %rd, %rs\<close> each of the ten conditional branches is taken exactly when its
  relation holds between the two registers: signed order for gt, ge, lt, le, unsigned order for
  ugt, uge, ult, ule, equality for eq and ne. The target is \<open>PC + 2 * disp\<close>, counted from the
  branch itself; the delayed form sets up the delay slot instead.
\<close>
theorem cpu_compare_branch:
  assumes "pending_ext_count (cpu m) = 0" "cc \<in> cond_branches"
    and "m1 = exec_handler (C1 H_cmp_rd_rs) w i m" "m2 = exec_handler (C0 cc) w j m1"
  shows "(cmp_holds cc (gpr (cpu m) (rd i)) (gpr (cpu m) (rs i)) \<longrightarrow>
      (if dbit j then in_delay_slot (cpu m2) \<and> delay_target (cpu m2) = (pc (cpu m) - 2) + 2 * sign_ext (sign8 j AND 0xFF) 8
         \<and> pc (cpu m2) = pc (cpu m)
       else pc (cpu m2) = (pc (cpu m) - 2) + 2 * sign_ext (sign8 j AND 0xFF) 8))
    \<and> (\<not> cmp_holds cc (gpr (cpu m) (rd i)) (gpr (cpu m) (rs i)) \<longrightarrow> m2 = m1)
    \<and> gpr (cpu m1) = gpr (cpu m)"
proof -
  let ?a = "gpr (cpu m) (rd i)" and ?b = "gpr (cpu m) (rs i)"
  have m1: "m1 = m\<lparr>cpu := (flush_ext (cpu m))\<lparr>psr := set_nzvc_sub ?a ?b (sub64 ?a ?b) (psr (cpu m))\<rparr>\<rparr>"
    using assms(1) unfolding assms(3) by (cases m) (simp add: do_alu_rr_def)
  have m2: "m2 = h_jr j (cmp_holds cc ?a ?b) m1"
    unfolding assms(4) exec_handler.simps
    by (rule cond_branch_after_cmp [OF assms(2)]) (simp add: m1)
  have tgt: "pcrel_target (cpu m1) j = (pc (cpu m) - 2) + 2 * sign_ext (sign8 j AND 0xFF) 8"
    by (simp add: m1 pcrel_target_def ext_pcrel_def Let_def)
  have "cmp_holds cc ?a ?b \<longrightarrow>
      (if dbit j then in_delay_slot (cpu m2) \<and> delay_target (cpu m2) = (pc (cpu m) - 2) + 2 * sign_ext (sign8 j AND 0xFF) 8
         \<and> pc (cpu m2) = pc (cpu m)
       else pc (cpu m2) = (pc (cpu m) - 2) + 2 * sign_ext (sign8 j AND 0xFF) 8)"
    unfolding m2 h_jr_def by (simp add: Let_def tgt) (simp add: m1)
  moreover have "\<not> cmp_holds cc ?a ?b \<longrightarrow> m2 = m1"
    unfolding m2 h_jr_def by (auto simp: Let_def m1 flush_ext_def)
  moreover have "gpr (cpu m1) = gpr (cpu m)" by (simp add: m1)
  ultimately show ?thesis by blast
qed

section \<open>Results and flags of the arithmetic instructions\<close>

text \<open>
  \<open>add\<close>, \<open>sub\<close> and \<open>cmp\<close> on two values: the result is the sum or difference
  modulo \<open>2^32\<close>, C is the unsigned carry or borrow, V the signed overflow, Z and N describe
  the result, \<open>cmp\<close> writes no register, and the other PSR bits are kept.
\<close>
theorem cpu_add_sub_flags:
  "gpr (do_alu AluADD a b d c) = (gpr c)(d := a + b)
   \<and> psr_c (psr (do_alu AluADD a b d c)) = (2 ^ 32 \<le> unat a + unat b)
   \<and> psr_v (psr (do_alu AluADD a b d c)) = (sint (a + b) \<noteq> sint a + sint b)
   \<and> psr_z (psr (do_alu AluADD a b d c)) = (a + b = 0)
   \<and> psr_n (psr (do_alu AluADD a b d c)) = (sint (a + b) < 0)
   \<and> gpr (do_alu AluSUB a b d c) = (gpr c)(d := a - b)
   \<and> psr_c (psr (do_alu AluSUB a b d c)) = (a < b)
   \<and> psr_v (psr (do_alu AluSUB a b d c)) = (sint (a - b) \<noteq> sint a - sint b)
   \<and> psr_z (psr (do_alu AluSUB a b d c)) = (a = b)
   \<and> psr_n (psr (do_alu AluSUB a b d c)) = (sint (a - b) < 0)
   \<and> do_alu AluCMP a b d c = c\<lparr>psr := psr (do_alu AluSUB a b d c)\<rparr>
   \<and> (\<forall>k\<ge>4. bit (psr (do_alu AluADD a b d c)) k = bit (psr c) k \<and> bit (psr (do_alu AluSUB a b d c)) k = bit (psr c) k)"
proof -
  have n: "bit x 31 = (sint x < 0)" for x :: u32
    unfolding u32_sint using u32_uint [of x] by auto
  have hi: "bit (set_nzvc_add a b r p) k = bit p k" "bit (set_nzvc_sub a b r p) k = bit p k" if "4 \<le> k" for r p k
    using that by (auto simp: set_nzvc_add_def set_nzvc_sub_def Let_def set_n_def set_z_def set_v_def set_c_def
        dest: bit_imp_le_length)
  show ?thesis
    by (simp add: set_reg_def low_add64 low_sub64 sub_flags(1,2) add_flags(1,2) signed_overflow_add
        signed_overflow_sub sub_flags(3) add_flags(3) hi n)
qed

section \<open>Carry chains\<close>

definition wide :: "u32 \<Rightarrow> u32 \<Rightarrow> nat" where "wide hi lo = unat lo + 2 ^ 32 * unat hi"

lemma unat64_add_bit: "unat (add64 a b + of_bool q) = unat a + unat b + of_bool q"
proof -
  have "unat a + unat b + 1 < 2 ^ 64" using u32_less [of a] u32_less [of b] by simp
  then show ?thesis by (cases q) (simp_all add: unat_word_ariths unat_add64)
qed

lemma low_add_bit: "ucast (add64 a b + of_bool q) = a + b + (of_bool q :: u32)"
  by (rule u32_ext) (simp only: unat_low unat64_add_bit, simp add: unat_word_ariths mod_simps)

lemma wide_add_nat:
  fixes a b c d M :: nat
  assumes "a < M" "b < M" "0 < M"
  shows "(a + b) mod M + M * ((c + d + (if M \<le> a + b then 1 else 0)) mod M) = (a + M * c + (b + M * d)) mod (M * M)"
proof -
  let ?q = "if M \<le> a + b then 1 else 0 :: nat"
  have "a + b = (a + b) mod M + M * ?q"
    using assms by (auto simp: mod_if)
  then have "a + M * c + (b + M * d) = (a + b) mod M + M * (c + d + ?q)" by (simp add: algebra_simps)
  then show ?thesis using assms(3) by (simp add: mod_mult2_eq)
qed

text \<open>
  \<open>add %d1, %s1\<close> followed by \<open>adc %d2, %s2\<close> adds the 64-bit numbers \<open>d2:d1\<close> and
  \<open>s2:s1\<close> modulo \<open>2^64\<close>, and C is the carry out of the 64-bit sum.
\<close>
theorem cpu_add_adc:
  assumes "pending_ext_count (cpu m) = 0" "rd i \<noteq> rd j" "rd i \<noteq> rs j"
    and "m2 = exec_handler (C5 H_adc) w j (exec_handler (C1 H_add_rd_rs) w i m)"
    and "A = wide (gpr (cpu m) (rd j)) (gpr (cpu m) (rd i))" "B = wide (gpr (cpu m) (rs j)) (gpr (cpu m) (rs i))"
  shows "wide (gpr (cpu m2) (rd j)) (gpr (cpu m2) (rd i)) = (A + B) mod 2 ^ 64
    \<and> psr_c (psr (cpu m2)) = (2 ^ 64 \<le> A + B)"
proof -
  let ?r = "gpr (cpu m)"
  let ?a = "?r (rd i)" and ?b = "?r (rs i)" and ?c = "?r (rd j)" and ?d = "?r (rs j)"
  let ?q = "2 ^ 32 \<le> unat ?a + unat ?b"
  define m1 where "m1 = exec_handler (C1 H_add_rd_rs) w i m"
  have m1: "gpr (cpu m1) = ?r(rd i := ?a + ?b)" "psr_c (psr (cpu m1)) = ?q"
    using assms(1) by (simp_all add: m1_def do_alu_rr_def set_reg_def low_add64 add_flags(2))
  have m2: "gpr (cpu m2) = ?r(rd i := ?a + ?b, rd j := ?c + ?d + of_bool ?q)"
    "psr_c (psr (cpu m2)) = (2 ^ 32 \<le> unat ?c + unat ?d + of_bool ?q)"
    using assms(2,3) m1 unfolding assms(4) m1_def [symmetric]
    by (simp_all add: h_adc_def Let_def set_reg_def low_add_bit set_nzvc_add_def flag_defs u64_high
        unat64_add_bit not_less)
  have "wide (gpr (cpu m2) (rd j)) (gpr (cpu m2) (rd i))
      = (unat ?a + unat ?b) mod 2 ^ 32 + 2 ^ 32 * ((unat ?c + unat ?d + (if 2 ^ 32 \<le> unat ?a + unat ?b then 1 else 0)) mod 2 ^ 32)"
    using assms(2) by (simp add: m2 wide_def unat_word_ariths mod_simps)
  also have "\<dots> = (unat ?a + 2 ^ 32 * unat ?c + (unat ?b + 2 ^ 32 * unat ?d)) mod (2 ^ 32 * 2 ^ 32)"
    by (rule wide_add_nat) (simp_all only: u32_less, simp)
  finally have "wide (gpr (cpu m2) (rd j)) (gpr (cpu m2) (rd i)) = (A + B) mod 2 ^ 64"
    unfolding assms(5,6) wide_def by simp
  moreover have "(2 ^ 32 \<le> unat ?c + unat ?d + of_bool ?q) = (2 ^ 64 \<le> A + B)"
    unfolding assms(5,6) wide_def using u32_less [of ?a] u32_less [of ?b] by auto
  ultimately show ?thesis using m2(2) by simp
qed

section \<open>Sign extension and EXT operands\<close>

lemma xor_pow:
  "bit (v :: u32) k \<Longrightarrow> v XOR 2 ^ k = v - 2 ^ k"
  "\<not> bit (v :: u32) k \<Longrightarrow> v XOR 2 ^ k = v + 2 ^ k"
proof -
  assume b: "bit v k"
  then have "v XOR 2 ^ k = v AND NOT (2 ^ k)"
    by (intro bit_word_eqI) (auto simp: bit_simps)
  also have "\<dots> = v - 2 ^ k"
    using b by (intro disjunctive_diff_eq_and_not [symmetric] bit_eqI) (auto simp: bit_simps)
  finally show "v XOR 2 ^ k = v - 2 ^ k" .
next
  assume b: "\<not> bit v k"
  then have "v XOR 2 ^ k = v OR 2 ^ k"
    by (intro bit_word_eqI) (auto simp: bit_simps)
  also have "\<dots> = v + 2 ^ k"
    using b by (intro disjunctive_add [symmetric]) (auto simp: bit_simps)
  finally show "v XOR 2 ^ k = v + 2 ^ k" .
qed

lemma sign_ext_eq:
  assumes "k < 31" "unat v < 2 ^ Suc k"
  shows "sign_ext v (Suc k) = word_of_int (signed_take_bit k (uint v))"
proof -
  have "uint v < 2 ^ Suc k"
  proof -
    have "int (unat v) < int (2 ^ Suc k)" using assms(2) by (simp only: of_nat_less_iff)
    then show ?thesis by simp
  qed
  then have t: "take_bit (Suc k) (uint v) = uint v" by (intro take_bit_int_eq_self) simp_all
  have b: "bit (uint v) k = bit v k" using assms(1) by (simp add: bit_uint_iff)
  have "word_of_int (signed_take_bit k (uint v)) = v - 2 ^ Suc k * of_bool (bit v k)"
    unfolding signed_take_bit_eq_take_bit_minus t b by simp
  also have "\<dots> = (v XOR 2 ^ k) - 2 ^ k"
    using xor_pow [of v k] by (cases "bit v k") simp_all
  finally show ?thesis using assms(1) by (simp add: sign_ext_def)
qed

lemma unat_concat:
  assumes "unat b < 2 ^ k" "unat a * 2 ^ k + unat b < 2 ^ 32" "k \<le> 32"
  shows "unat (push_bit k a OR b :: u32) = unat a * 2 ^ k + unat b"
proof -
  have "push_bit k a OR b = push_bit k a + b"
  proof (rule disjunctive_add [symmetric])
    have "take_bit k b = b" 
      by (rule u32_ext) (use assms(1) in \<open>simp add: unat_take_bit_mod\<close>)
    then have "n < k" if "bit b n" for n using that by (metis bit_take_bit_iff)
    then show "\<not> bit (push_bit k a) n \<or> \<not> bit b n" for n
      by (meson bit_push_bit_iff not_le)
  qed
  moreover have "unat (push_bit k a) = unat a * 2 ^ k"
  proof -
    have "unat (push_bit k a) = take_bit 32 (push_bit k (unat a))" by (simp only: unsigned_push_bit_eq) simp
    then show ?thesis using assms(2) by (simp add: push_bit_eq_mult take_bit_nat_eq_self)
  qed
  ultimately show ?thesis using assms(2) by (simp add: u32_add)
qed

text \<open>The concatenation of the pending EXT operands with a field of \<open>w\<close> bits.\<close>

definition ext_cat :: "cpu_state \<Rightarrow> nat \<Rightarrow> nat \<Rightarrow> nat" where
  "ext_cat c w x =
    (if pending_ext_count c = 0 then x
     else if pending_ext_count c = 1 then unat (pending_ext c 0) * 2 ^ w + x
     else unat (pending_ext c 0) * 2 ^ (13 + w) + unat (pending_ext c 1) * 2 ^ w + x)"

text \<open>A PC-relative branch takes only the upper ten bits of the first of two prefixes.\<close>

definition pcrel_cat :: "cpu_state \<Rightarrow> nat \<Rightarrow> nat" where
  "pcrel_cat c x =
    (if pending_ext_count c \<le> 1 then ext_cat c 8 x
     else unat (pending_ext c 0) div 8 * 2 ^ 21 + unat (pending_ext c 1) * 2 ^ 8 + x)"

lemma low_field: "unat ((x :: u32) AND (2 ^ k - 1)) = unat x mod 2 ^ k"
  using unat_and_mask [of x k] by (simp only: mask_eq_exp_minus_1)

lemma ext_cat_bound:
  assumes "cpu_safe c" "x < 2 ^ w"
  shows "ext_cat c w x < 2 ^ (13 * pending_ext_count c + w)"
proof -
  have e: "unat (pending_ext c k) + 1 \<le> 2 ^ 13" for k
  proof -
    have "unat (pending_ext c k) < 2 ^ 13" using assms(1) by (simp add: cpu_safe_def)
    then show ?thesis by linarith
  qed
  have one: "unat (pending_ext c k) * 2 ^ w + x < 2 ^ (13 + w)" for k
  proof -
    have "(unat (pending_ext c k) + 1) * 2 ^ w \<le> 2 ^ 13 * 2 ^ w" by (rule mult_le_mono1 [OF e])
    then show ?thesis using assms(2) unfolding distrib_right mult_1 power_add by linarith
  qed
  have "(unat (pending_ext c 0) + 1) * 2 ^ (13 + w) \<le> 2 ^ 13 * 2 ^ (13 + w)" by (rule mult_le_mono1 [OF e])
  moreover have "(2 :: nat) ^ 13 * 2 ^ (13 + w) = 2 ^ (26 + w)" by (simp only: power_add [symmetric]) simp
  ultimately have "unat (pending_ext c 0) * 2 ^ (13 + w) + (unat (pending_ext c 1) * 2 ^ w + x) < 2 ^ (26 + w)"
    using one [of 1] unfolding distrib_right mult_1 by linarith
  then show ?thesis
    using assms one [of 0] unfolding ext_cat_def cpu_safe_def
    by (auto simp: le_less less_Suc_eq numeral_2_eq_2)
qed

lemma ext_operand:
  "cpu_safe c \<Longrightarrow> unat (pending_ext c k) < 2 ^ 13" by (simp add: cpu_safe_def)

lemma cat_one: "unat e < 2 ^ 13 \<Longrightarrow> unat r < 2 ^ 6 \<Longrightarrow> unat (push_bit 6 e OR r :: u32) = unat e * 2 ^ 6 + unat r"
  by (rule unat_concat) simp_all

lemma cat_one8: "unat e < 2 ^ 13 \<Longrightarrow> unat r < 2 ^ 8 \<Longrightarrow> unat (push_bit 8 e OR r :: u32) = unat e * 2 ^ 8 + unat r"
  by (rule unat_concat) simp_all

lemma cat_two:
  fixes e0 e1 :: u32
  assumes "unat e0 < 2 ^ 13" "unat e1 < 2 ^ 13"
  shows "unat r < 2 ^ 6 \<Longrightarrow> unat (push_bit 19 e0 OR push_bit 6 e1 OR r) = unat e0 * 2 ^ 19 + unat e1 * 2 ^ 6 + unat r"
    and "unat (push_bit 13 e0 OR e1) = unat e0 * 2 ^ 13 + unat e1"
proof -
  assume r: "unat r < 2 ^ 6"
  note i = cat_one [OF assms(2) r]
  have "unat (push_bit 19 e0 OR (push_bit 6 e1 OR r)) = unat e0 * 2 ^ 19 + unat (push_bit 6 e1 OR r)"
  proof (rule unat_concat)
    show "unat (push_bit 6 e1 OR r) < 2 ^ 19" using assms(2) r unfolding i by simp
    show "unat e0 * 2 ^ 19 + unat (push_bit 6 e1 OR r) < 2 ^ 32" using assms r unfolding i by simp
  qed simp
  then show "unat (push_bit 19 e0 OR push_bit 6 e1 OR r) = unat e0 * 2 ^ 19 + unat e1 * 2 ^ 6 + unat r"
    unfolding i or.assoc by simp
next
  show "unat (push_bit 13 e0 OR e1) = unat e0 * 2 ^ 13 + unat e1"
    by (rule unat_concat) (use assms in simp_all)
qed

lemma ext_imm_value:
  assumes "cpu_safe c"
  shows "unat (ext_imm c x 6) = ext_cat c 6 (unat x mod 2 ^ 6)"
proof -
  let ?r = "x AND (2 ^ 6 - 1)"
  have r: "unat ?r = unat x mod 2 ^ 6" by (rule low_field)
  then have lt: "unat ?r < 2 ^ 6" by simp
  note e = ext_operand [OF assms]
  consider "pending_ext_count c = 0" | "pending_ext_count c = 1" | "pending_ext_count c = 2"
    using assms unfolding cpu_safe_def by linarith
  then show ?thesis
  proof cases
    case 1
    then show ?thesis using r by (simp add: ext_imm_def ext_cat_def Let_def)
  next
    case 2
    then have "ext_imm c x 6 = push_bit 6 (pending_ext c 0) OR ?r" by (simp add: ext_imm_def Let_def)
    then show ?thesis unfolding ext_cat_def using 2 cat_one [OF e lt] by (simp only: r) simp
  next
    case 3
    then have "ext_imm c x 6 = push_bit 19 (pending_ext c 0) OR push_bit 6 (pending_ext c 1) OR ?r"
      by (simp add: ext_imm_def Let_def)
    then show ?thesis unfolding ext_cat_def using 3 cat_two(1) [OF e e lt] by (simp only: r) simp
  qed
qed

lemma sign_ext_value:
  assumes "k < 31" "unat v < 2 ^ Suc k" "unat v = n"
  shows "sign_ext v (Suc k) = word_of_int (signed_take_bit k (int n))"
  using sign_ext_eq [OF assms(1,2)] unfolding assms(3) [symmetric] by simp

lemma ext_simm_value:
  assumes "cpu_safe c"
  shows "ext_simm c x 6 = word_of_int (signed_take_bit (min 31 (13 * pending_ext_count c + 5))
    (int (ext_cat c 6 (unat x mod 2 ^ 6))))"
proof -
  let ?r = "x AND (2 ^ 6 - 1)"
  have r: "unat ?r = unat x mod 2 ^ 6" by (rule low_field)
  then have lt: "unat ?r < 2 ^ 6" by simp
  note e = ext_operand [OF assms]
  consider "pending_ext_count c = 0" | "pending_ext_count c = 1" | "pending_ext_count c = 2"
    using assms unfolding cpu_safe_def by linarith
  then show ?thesis
  proof cases
    case 1
    have "sign_ext ?r (Suc 5) = word_of_int (signed_take_bit 5 (int (unat x mod 2 ^ 6)))"
    proof (rule sign_ext_value)
      show "unat ?r < 2 ^ Suc 5" using lt by simp
    qed (simp, rule r)
    then have "sign_ext ?r 6 = word_of_int (signed_take_bit 5 (int (unat x mod 2 ^ 6)))" by simp
    then show ?thesis unfolding ext_simm_def ext_cat_def Let_def using 1 by simp
  next
    case 2
    have "sign_ext (push_bit 6 (pending_ext c 0) OR ?r) (Suc 18)
        = word_of_int (signed_take_bit 18 (int (unat (pending_ext c 0) * 2 ^ 6 + unat x mod 2 ^ 6)))"
    proof (rule sign_ext_value)
      show "unat (push_bit 6 (pending_ext c 0) OR ?r) = unat (pending_ext c 0) * 2 ^ 6 + unat x mod 2 ^ 6"
        using cat_one [OF e lt] unfolding r .
      then show "unat (push_bit 6 (pending_ext c 0) OR ?r) < 2 ^ Suc 18"
        using ext_cat_bound [OF assms, of "unat x mod 2 ^ 6" 6] 2 by (simp add: ext_cat_def)
    qed simp
    then show ?thesis unfolding ext_simm_def ext_cat_def Let_def using 2 by simp
  next
    case 3
    have "ext_simm c x 6 = ucast (push_bit 19 (ucast (pending_ext c 0) :: u64)
        OR push_bit 6 (ucast (pending_ext c 1)) OR ucast ?r)"
      using 3 by (simp add: ext_simm_def Let_def)
    also have "\<dots> = push_bit 19 (pending_ext c 0) OR push_bit 6 (pending_ext c 1) OR ?r"
      by (rule bit_word_eqI) (simp only: bit_or_iff bit_push_bit_iff bit_ucast_iff, auto)
    also have "\<dots> = word_of_nat (ext_cat c 6 (unat x mod 2 ^ 6))"
    proof (rule u32_ext)
      have "ext_cat c 6 (unat x mod 2 ^ 6) < 2 ^ 32"
        using ext_cat_bound [OF assms, of "unat x mod 2 ^ 6" 6] 3 by simp
      then show "unat (push_bit 19 (pending_ext c 0) OR push_bit 6 (pending_ext c 1) OR ?r)
          = unat (word_of_nat (ext_cat c 6 (unat x mod 2 ^ 6)) :: u32)"
        using cat_two(1) [OF e e lt, of 0 1] 3 by (simp only: u32_of_nat) (simp only: ext_cat_def r, simp)
    qed
    also have "\<dots> = word_of_int (signed_take_bit 31 (int (ext_cat c 6 (unat x mod 2 ^ 6))))"
      by (rule bit_word_eqI) (simp add: bit_simps)
    finally show ?thesis using 3 by simp
  qed
qed

lemma concat_or_comm: "((r :: u32) OR a OR b) = b OR a OR r"
  by (simp add: or.commute or.left_commute or.assoc)

lemma bit_test: "((v :: u32) AND push_bit k 1 \<noteq> 0) = bit v k" if "k < 32"
proof -
  have "v AND push_bit k 1 = push_bit k (of_bool (bit v k))"
    using that by (intro bit_word_eqI) (auto simp: bit_simps)
  then show ?thesis using that by (cases "bit v k") (simp_all add: push_bit_eq_mult)
qed

lemma or_top: "\<not> bit (v :: u32) 31 \<Longrightarrow> v OR 2 ^ 31 = v + 2 ^ 31"
  by (intro disjunctive_add [symmetric]) (simp only: bit_exp_iff, auto)

lemma ext_pcrel_value:
  assumes "cpu_safe c"
  shows "ext_pcrel c x = word_of_int (signed_take_bit
      (if pending_ext_count c = 0 then 7 else if pending_ext_count c = 1 then 20 else 30)
      (int (pcrel_cat c (unat x mod 2 ^ 8))))"
proof -
  let ?r = "x AND 0xFF"
  have r: "unat ?r = unat x mod 2 ^ 8" using low_field [of x 8] by simp
  then have lt: "unat ?r < 2 ^ 8" by simp
  note e = ext_operand [OF assms]
  consider "pending_ext_count c = 0" | "pending_ext_count c = 1" | "pending_ext_count c = 2"
    using assms unfolding cpu_safe_def by linarith
  then show ?thesis
  proof cases
    case 1
    have "sign_ext ?r (Suc 7) = word_of_int (signed_take_bit 7 (int (unat x mod 2 ^ 8)))"
    proof (rule sign_ext_value)
      show "unat ?r < 2 ^ Suc 7" using lt by simp
    qed (simp, rule r)
    then have "sign_ext ?r 8 = word_of_int (signed_take_bit 7 (int (unat x mod 2 ^ 8)))" by simp
    then show ?thesis unfolding ext_pcrel_def pcrel_cat_def ext_cat_def Let_def using 1 by simp
  next
    case 2
    have "sign_ext (push_bit 8 (pending_ext c 0) OR ?r) (Suc 20)
        = word_of_int (signed_take_bit 20 (int (unat (pending_ext c 0) * 2 ^ 8 + unat x mod 2 ^ 8)))"
    proof (rule sign_ext_value)
      show "unat (push_bit 8 (pending_ext c 0) OR ?r) = unat (pending_ext c 0) * 2 ^ 8 + unat x mod 2 ^ 8"
        using cat_one8 [OF e lt] unfolding r .
      then show "unat (push_bit 8 (pending_ext c 0) OR ?r) < 2 ^ Suc 20"
        using ext_cat_bound [OF assms, of "unat x mod 2 ^ 8" 8] 2 by (simp add: ext_cat_def)
    qed simp
    then show ?thesis unfolding ext_pcrel_def pcrel_cat_def ext_cat_def Let_def using 2 by simp
  next
    case 3
    let ?e0 = "pending_ext c 0" and ?e1 = "pending_ext c 1"
    let ?v = "push_bit 21 (drop_bit 3 ?e0) OR push_bit 8 ?e1 OR ?r"
    have d: "unat (drop_bit 3 ?e0) = unat ?e0 div 8"
    proof -
      have "unat (drop_bit 3 ?e0) = drop_bit 3 (take_bit 32 (unat ?e0))" by (simp only: unsigned_drop_bit_eq) simp
      then show ?thesis using u32_less [of ?e0] by (simp only: take_bit_nat_eq_self drop_bit_eq_div) simp
    qed
    then have d10: "unat (drop_bit 3 ?e0) < 2 ^ 10" using e [of 0] by simp
    note in1 = cat_one8 [OF e [of 1] lt]
    have v: "unat ?v = unat ?e0 div 8 * 2 ^ 21 + unat ?e1 * 2 ^ 8 + unat x mod 2 ^ 8"
    proof -
      have "unat (push_bit 21 (drop_bit 3 ?e0) OR (push_bit 8 ?e1 OR ?r))
          = unat (drop_bit 3 ?e0) * 2 ^ 21 + unat (push_bit 8 ?e1 OR ?r)"
      proof (rule unat_concat)
        show "unat (push_bit 8 ?e1 OR ?r) < 2 ^ 21" using e [of 1] lt unfolding in1 by simp
        show "unat (drop_bit 3 ?e0) * 2 ^ 21 + unat (push_bit 8 ?e1 OR ?r) < 2 ^ 32"
          using e [of 1] lt d10 unfolding in1 by simp
      qed simp
      then show ?thesis unfolding in1 r d or.assoc by simp
    qed
    have v31: "unat ?v < 2 ^ 31" using d10 e [of 1] lt unfolding v d r by simp
    have ui: "uint ?v = int (pcrel_cat c (unat x mod 2 ^ 8))"
    proof -
      have "int (unat ?v) = int (pcrel_cat c (unat x mod 2 ^ 8))"
        unfolding v pcrel_cat_def using 3 by simp
      then show ?thesis by simp
    qed
    have t: "take_bit (Suc 30) (uint ?v) = uint ?v"
    proof (rule take_bit_int_eq_self)
      have "int (unat ?v) < int (2 ^ 31)" using v31 by (simp only: of_nat_less_iff)
      then show "uint ?v < 2 ^ Suc 30" by simp
    qed simp
    have top: "\<not> bit ?v 31" using v31 unfolding u32_msb_ge by simp
    have "ext_pcrel c x = (if ?v AND push_bit 30 1 \<noteq> 0 then ?v OR 0x80000000 else ?v)"
      using 3 by (simp only: ext_pcrel_def Let_def concat_or_comm [of ?r] and.assoc and.idem) simp
    also have "\<dots> = (if bit ?v 30 then ?v OR 2 ^ 31 else ?v)"
      by (subst bit_test) simp_all
    also have "\<dots> = ?v - 2 ^ 31 * of_bool (bit ?v 30)"
    proof (cases "bit ?v 30")
      case True
      have "?v OR 2 ^ 31 = ?v + 2 ^ 31" by (rule or_top [OF top])
      moreover have "?v + 2 ^ 31 = ?v - 2 ^ 31" 
      proof -
        have "(2 :: u32) ^ 31 + 2 ^ 31 = 0" by simp
        then show ?thesis by (simp add: algebra_simps)
      qed
      ultimately show ?thesis using True by (simp only: if_True of_bool_eq mult_1_right)
    qed simp
    also have "\<dots> = word_of_int (signed_take_bit 30 (uint ?v))"
    proof -
      have "bit (uint ?v) 30 = bit ?v 30" by (simp only: bit_uint_iff) simp
      then show ?thesis unfolding signed_take_bit_eq_take_bit_minus t by (cases "bit ?v 30") simp_all
    qed
    finally show ?thesis using 3 unfolding ui by simp
  qed
qed

text \<open>
  The operand an instruction sees is the concatenation of the pending 13-bit EXT operands and
  its own field: unsigned for \<open>imm6\<close> and displacements, sign-extended from 6, 19 or 32 bits for
  \<open>sign6\<close>, and from 8, 21 or 31 bits for PC-relative branches (the low three bits of the first
  of two prefixes are not used there).
\<close>
theorem cpu_ext_operands:
  assumes "cpu_safe c"
  shows "unat (ext_imm c x 6) = ext_cat c 6 (unat x mod 2 ^ 6)
    \<and> ext_simm c x 6 = word_of_int (signed_take_bit (min 31 (13 * pending_ext_count c + 5))
        (int (ext_cat c 6 (unat x mod 2 ^ 6))))
    \<and> unat (ext_rb c) = ext_cat c 0 0
    \<and> ext_pcrel c x = word_of_int (signed_take_bit
        (if pending_ext_count c = 0 then 7 else if pending_ext_count c = 1 then 20 else 30)
        (int (pcrel_cat c (unat x mod 2 ^ 8))))"
proof -
  note e = ext_operand [OF assms]
  have "unat (ext_rb c) = ext_cat c 0 0"
  proof -
    consider "pending_ext_count c = 0" | "pending_ext_count c = 1" | "pending_ext_count c = 2"
      using assms unfolding cpu_safe_def by linarith
    then show ?thesis
      by cases (use cat_two(2) [OF e e, of 0 1] in \<open>simp_all add: ext_rb_def ext_cat_def\<close>)
  qed
  then show ?thesis using ext_imm_value [OF assms] ext_simm_value [OF assms] ext_pcrel_value [OF assms] by blast
qed

text \<open>
  The three-instruction idiom \<open>ext\<close>, \<open>ext\<close>, \<open>ld.w %rd, sign6\<close>, with the three
  fields cut out of a 32-bit constant, loads exactly that constant and leaves no EXT pending.
\<close>
theorem cpu_load_constant:
  assumes "pending_ext_count (cpu m) = 0"
    and "imm13 i0 = drop_bit 19 v" "imm13 i1 = drop_bit 6 v AND 0x1FFF" "imm6 i2 = v AND 0x3F"
    and "m3 = exec_handler (C3 H_ld_w_rd_simm6) w i2 (exec_handler H_ext w i1 (exec_handler H_ext w i0 m))"
  shows "gpr (cpu m3) = (gpr (cpu m))(rd i2 := v) \<and> pending_ext_count (cpu m3) = 0
    \<and> psr (cpu m3) = psr (cpu m) \<and> bus m3 = bus m \<and> diag_log m3 = diag_log m"
proof -
  define c where "c = cpu (exec_handler H_ext w i1 (exec_handler H_ext w i0 m))"
  have c: "pending_ext_count c = 2" "pending_ext c 0 = drop_bit 19 v" "pending_ext c 1 = drop_bit 6 v AND 0x1FFF"
    "gpr c = gpr (cpu m)" "psr c = psr (cpu m)"
    using assms(1-3) by (simp_all add: c_def h_ext_def)
  have raw: "imm6 i2 AND (2 ^ 6 - 1) = v AND mask 6"
    unfolding assms(4) by (simp add: mask_eq_exp_minus_1 and.assoc)
  have v: "ext_simm c (imm6 i2) 6 = v"
  proof -
    have "ext_simm c (imm6 i2) 6 = ucast (push_bit 19 (ucast (drop_bit 19 v) :: u64)
        OR push_bit 6 (ucast (drop_bit 6 v AND mask 13)) OR ucast (v AND mask 6))"
      unfolding ext_simm_def Let_def raw c mask_literals [symmetric] by simp
    also have "\<dots> = v"
    proof (rule bit_word_eqI)
      fix n assume "n < LENGTH(32)"
      then show "bit (ucast (push_bit 19 (ucast (drop_bit 19 v) :: u64)
          OR push_bit 6 (ucast (drop_bit 6 v AND mask 13)) OR ucast (v AND mask 6)) :: u32) n = bit v n"
        by (cases "n < 6"; cases "n < 19")
          (simp_all only: bit_or_iff bit_push_bit_iff bit_ucast_iff bit_and_iff bit_mask_iff
            bit_drop_bit_eq comp_apply, auto simp: not_less)
    qed
    finally show ?thesis .
  qed
  have "m3 = on_cpu (\<lambda>_. do_alu AluMOV (gpr c (rd i2)) v (rd i2) (flush_ext c)) (exec_handler H_ext w i1 (exec_handler H_ext w i0 m))"
    unfolding assms(5) using v by (simp add: do_alu_imm_def Let_def c_def)
  then show ?thesis using c assms(1) by (simp add: set_reg_def h_ext_def)
qed

section \<open>Shifts, logic, bit and byte reversal\<close>

lemma logic_flags:
  "psr_z (psr (logic_result d r c)) = (r = 0)" "psr_n (psr (logic_result d r c)) = (sint r < 0)"
  "2 \<le> k \<Longrightarrow> bit (psr (logic_result d r c)) k = bit (psr c) k"
  "gpr (logic_result d r c) = (gpr c)(d := r)"
proof -
  have n: "bit r 31 = (sint r < 0)" unfolding u32_sint using u32_uint [of r] by auto
  show "psr_z (psr (logic_result d r c)) = (r = 0)" "psr_n (psr (logic_result d r c)) = (sint r < 0)"
    "2 \<le> k \<Longrightarrow> bit (psr (logic_result d r c)) k = bit (psr c) k"
    "gpr (logic_result d r c) = (gpr c)(d := r)"
    by (auto simp: logic_result_def set_nz_def flag_defs set_reg_def n dest: bit_imp_le_length)
qed

lemma shift_amt_le: "shift_amt i \<le> 8"
proof -
  have "unat (drop_bit 4 i AND mask 4) < 2 ^ 4" by (rule and_bound)
  moreover have "unat v < 8" if "v AND 8 = (0 :: u16)" "unat v < 16" for v
  proof -
    have "\<not> bit v 3" 
      using arg_cong [OF that(1), of "\<lambda>x. bit x 3"] by (simp add: bit_and_iff)
    moreover have "bit v 3 = odd (unat v div 8)"
    proof -
      have "bit v 3 = bit (unat v) 3" using bit_imp_le_length [of v 3] by (auto simp: bit_unsigned_iff)
      then show ?thesis by (simp only: bit_iff_odd) simp
    qed
    ultimately have "even (unat v div 8)" by simp
    moreover have "unat v div 8 < 2" using that(2) by simp
    ultimately show ?thesis by (cases "unat v div 8") auto
  qed
  moreover have "(0xF :: u16) = mask 4" by (simp add: mask_eq_exp_minus_1)
  ultimately show ?thesis by (auto simp: shift_amt_def Let_def intro: less_imp_le)
qed

text \<open>
  Shifts by an immediate (at most 8 places) or by the low five bits of a register: the value
  is the quotient or product by \<open>2^n\<close> (floor quotient of the signed value for \<open>sra\<close>), a
  rotation keeps every bit; Z and N describe the result and every other PSR bit, C and V included,
  is preserved.
\<close>
theorem cpu_shifts:
  "shift_amt i \<le> 8
   \<and> unat (shift_val SRL n v) = unat v div 2 ^ n
   \<and> unat (shift_val SLL n v) = unat v * 2 ^ n mod 2 ^ 32
   \<and> sint (shift_val SRA n v) = sint v div 2 ^ n
   \<and> shift_val SLA n v = shift_val SLL n v
   \<and> shift_val RL n (shift_val RR n v) = v
   \<and> gpr (h_shift_imm4 op i c) = (gpr c)(rd i := shift_val op (shift_amt i) (gpr c (rd i)))
   \<and> gpr (h_shift_rs op i c) = (gpr c)(rd i := shift_val op (unat (gpr c (rs i)) mod 32) (gpr c (rd i)))
   \<and> (\<forall>k\<ge>2. bit (psr (h_shift_imm4 op i c)) k = bit (psr c) k \<and> bit (psr (h_shift_rs op i c)) k = bit (psr c) k)"
proof -
  have "unat (drop_bit n v) = unat v div 2 ^ n"
  proof -
    have "unat (drop_bit n v) = drop_bit n (take_bit 32 (unat v))" by (simp only: unsigned_drop_bit_eq) simp
    then show ?thesis using u32_less [of v] by (simp only: take_bit_nat_eq_self drop_bit_eq_div)
  qed
  moreover have "unat (push_bit n v) = unat v * 2 ^ n mod 2 ^ 32"
  proof -
    have "unat (push_bit n v) = take_bit 32 (push_bit n (unat v))" by (simp only: unsigned_push_bit_eq) simp
    then show ?thesis by (simp only: take_bit_eq_mod push_bit_eq_mult)
  qed
  moreover have "sint (signed_drop_bit n v) = sint v div 2 ^ n"
    by (simp only: sint_signed_drop_bit_eq drop_bit_eq_div)
  moreover have "word_rotl n (word_rotr n v) = v" by simp
  moreover have "unat (x AND 0x1F) = unat x mod 32" for x :: u32
    using unat_and_mask [of x 5] by (simp add: mask_eq_exp_minus_1)
  ultimately show ?thesis
    using shift_amt_le [of i] logic_flags(3)
    by (simp add: h_shift_imm4_def h_shift_rs_def Let_def logic_flags)
qed

text \<open>The position of a bit after a reversal of bytes, and of the bits within bytes.\<close>

definition swap_index :: "nat \<Rightarrow> nat" where "swap_index n = 8 * (3 - n div 8) + n mod 8"
definition mirror_index :: "nat \<Rightarrow> nat" where "mirror_index n = 8 * (n div 8) + (7 - n mod 8)"

lemma swap_index_table:
  "list_all (\<lambda>n. swap_index n = (if n < 8 then n + 24 else if n < 16 then n + 8 else if n < 24 then n - 8 else n - 24)
     \<and> swap_index (swap_index n) = n \<and> mirror_index (mirror_index n) = n \<and> mirror_index n < 32) [0..<32]"
  by code_simp

lemma index_facts:
  assumes "n < 32"
  shows "swap_index n = (if n < 8 then n + 24 else if n < 16 then n + 8 else if n < 24 then n - 8 else n - 24)"
    "swap_index (swap_index n) = n" "mirror_index (mirror_index n) = n" "mirror_index n < 32" "swap_index n < 32"
  using swap_index_table assms unfolding list_all_iff by auto

lemma bit_byte_swap:
  assumes n: "n < 32"
  shows "bit (byte_swap v) n = bit v (swap_index n)"
proof -
  have lits: "(0x000000FF :: u32) = mask 8" "(0x0000FF00 :: u32) = push_bit 8 (mask 8)"
    "(0x00FF0000 :: u32) = push_bit 16 (mask 8)" "(0xFF000000 :: u32) = push_bit 24 (mask 8)"
    by (simp_all add: mask_eq_exp_minus_1)
  have e: "bit (byte_swap v) n = ((24 \<le> n \<and> n - 24 < 8 \<and> bit v (n - 24))
      \<or> (8 \<le> n \<and> 8 \<le> n - 8 \<and> n - 8 - 8 < 8 \<and> bit v (n - 8))
      \<or> (16 \<le> 8 + n \<and> 8 + n - 16 < 8 \<and> bit v (8 + n))
      \<or> (24 \<le> 24 + n \<and> 24 + n - 24 < 8 \<and> bit v (24 + n)))"
    using n unfolding byte_swap_def lits
    by (simp only: bit_or_iff bit_push_bit_iff bit_and_iff bit_mask_iff bit_drop_bit_eq comp_apply)
      (auto dest: bit_imp_le_length)
  consider "n < 8" | "8 \<le> n" "n < 16" | "16 \<le> n" "n < 24" | "24 \<le> n" by linarith
  then show ?thesis
    unfolding e index_facts(1) [OF n] using n by cases (auto simp: add.commute)
qed

definition step_index :: "nat \<Rightarrow> u32 \<Rightarrow> nat \<Rightarrow> nat" where
  "step_index k mk n = (if bit mk n then n + k else n - k)"

definition good_mask :: "nat \<Rightarrow> u32 \<Rightarrow> bool" where
  "good_mask k mk = list_all (\<lambda>n. (bit mk n \<longrightarrow> n + k < 32 \<and> (k \<le> n \<longrightarrow> \<not> bit mk (n - k)))
     \<and> (\<not> bit mk n \<longrightarrow> k \<le> n \<and> bit mk (n - k))) [0..<32]"

lemma mirror_masks: "good_mask 1 0x55555555" "good_mask 2 0x33333333" "good_mask 4 0x0F0F0F0F"
  by code_simp+

lemma bit_mirror_step:
  assumes "good_mask k mk" "n < 32"
  shows "bit (mirror_step k mk v) n = bit v (step_index k mk n)" "step_index k mk n < 32"
proof -
  have "(bit mk n \<longrightarrow> n + k < 32 \<and> (k \<le> n \<longrightarrow> \<not> bit mk (n - k))) \<and> (\<not> bit mk n \<longrightarrow> k \<le> n \<and> bit mk (n - k))"
    using assms unfolding good_mask_def list_all_iff by auto
  then show "bit (mirror_step k mk v) n = bit v (step_index k mk n)" "step_index k mk n < 32"
    using assms(2)
    by (auto simp: mirror_step_def step_index_def bit_or_iff bit_and_iff bit_push_bit_iff bit_drop_bit_eq add.commute)
qed

lemma mirror_table:
  "list_all (\<lambda>n. step_index 1 0x55555555 (step_index 2 0x33333333 (step_index 4 0x0F0F0F0F n)) = mirror_index n) [0..<32]"
  by code_simp

lemma bit_bit_mirror:
  assumes "n < 32" shows "bit (bit_mirror v) n = bit v (mirror_index n)"
proof -
  have "step_index 1 0x55555555 (step_index 2 0x33333333 (step_index 4 0x0F0F0F0F n)) = mirror_index n"
    using mirror_table assms unfolding list_all_iff by auto
  then show ?thesis
    unfolding bit_mirror_def
    by (simp only: bit_mirror_step [OF mirror_masks(3) assms] bit_mirror_step [OF mirror_masks(2)]
        bit_mirror_step [OF mirror_masks(1)])
qed

text \<open>
  \<open>swap\<close> moves every bit to the mirrored byte and \<open>mirror\<close> reverses the bits inside each
  byte; each is its own inverse, and both leave the flags alone.
\<close>
theorem cpu_swap_mirror:
  "(\<forall>n<32. bit (byte_swap v) n = bit v (8 * (3 - n div 8) + n mod 8)
     \<and> bit (bit_mirror v) n = bit v (8 * (n div 8) + (7 - n mod 8)))
   \<and> byte_swap (byte_swap v) = v \<and> bit_mirror (bit_mirror v) = v
   \<and> gpr (h_swap i c) = (gpr c)(rd i := byte_swap (gpr c (rs i)))
   \<and> gpr (h_mirror i c) = (gpr c)(rd i := bit_mirror (gpr c (rs i)))
   \<and> psr (h_swap i c) = psr c \<and> psr (h_mirror i c) = psr c"
proof -
  have "byte_swap (byte_swap v) = v"
    by (rule bit_word_eqI) (simp add: bit_byte_swap index_facts(2,5))
  moreover have "bit_mirror (bit_mirror v) = v"
    by (rule bit_word_eqI) (simp add: bit_bit_mirror index_facts(3,4))
  ultimately show ?thesis
    using bit_byte_swap [of _ v] bit_bit_mirror [of _ v]
    by (simp add: h_swap_def h_mirror_def set_reg_def swap_index_def mirror_index_def)
qed

section \<open>Bit scans\<close>

lemma scan_test: "((drop_bit k x :: u32) AND 1 \<noteq> 0) = bit x k"
  by (simp add: and_one_eq odd_iff_mod_2_eq_one [symmetric] bit_iff_odd_drop_bit)

lemma scan_loop_spec:
  assumes "pos \<le> 8"
  shows "pos \<le> scan_loop want x pos \<and> scan_loop want x pos \<le> 8
    \<and> (\<forall>q. pos \<le> q \<and> q < scan_loop want x pos \<longrightarrow> bit x (7 - q) \<noteq> want)
    \<and> (scan_loop want x pos < 8 \<longrightarrow> bit x (7 - scan_loop want x pos) = want)"
  using assms
proof (induction want x pos rule: scan_loop.induct)
  case (1 want x pos)
  show ?case
  proof (cases "pos < 8 \<and> bit x (7 - pos) \<noteq> want")
    case True
    then have eq: "scan_loop want x pos = scan_loop want x (pos + 1)"
      by (subst scan_loop.simps) (simp add: scan_test)
    have IH: "pos + 1 \<le> scan_loop want x (pos + 1) \<and> scan_loop want x (pos + 1) \<le> 8
      \<and> (\<forall>q. pos + 1 \<le> q \<and> q < scan_loop want x (pos + 1) \<longrightarrow> bit x (7 - q) \<noteq> want)
      \<and> (scan_loop want x (pos + 1) < 8 \<longrightarrow> bit x (7 - scan_loop want x (pos + 1)) = want)"
      using 1 True by (auto simp: scan_test)
    then show ?thesis unfolding eq using True by (metis Suc_eq_plus1 Suc_leD le_antisym not_less_eq_eq)
  next
    case False
    then have "scan_loop want x pos = pos"
      by (subst scan_loop.simps) (auto simp: scan_test)
    then show ?thesis using False 1(2) by auto
  qed
qed

text \<open>
  \<open>scan0\<close> and \<open>scan1\<close> return the distance from the top of the first 0 (1) among the upper
  eight bits, or 8 with C set when there is none; Z is set for distance 0, N and V are cleared.
\<close>
theorem cpu_scan:
  assumes "p = unat (gpr (h_scan want i c) (rd i))"
  shows "p \<le> 8
    \<and> (\<forall>q<p. bit (gpr c (rs i)) (31 - q) \<noteq> want)
    \<and> (p < 8 \<longrightarrow> bit (gpr c (rs i)) (31 - p) = want)
    \<and> psr_c (psr (h_scan want i c)) = (p = 8) \<and> psr_z (psr (h_scan want i c)) = (p = 0)
    \<and> \<not> psr_n (psr (h_scan want i c)) \<and> \<not> psr_v (psr (h_scan want i c))"
proof -
  let ?l = "scan_loop want (drop_bit 24 (gpr c (rs i))) 0"
  note s = scan_loop_spec [of 0 want "drop_bit 24 (gpr c (rs i))"]
  have p: "p = ?l"
    using s unfolding assms by (simp add: h_scan_def Let_def set_reg_def u32_of_nat)
  have b: "bit (drop_bit 24 (gpr c (rs i))) (7 - q) = bit (gpr c (rs i)) (31 - q)" if "q < 8" for q
  proof -
    have "24 + (7 - q) = 31 - q" using that by simp
    then show ?thesis by (simp only: bit_drop_bit_eq comp_apply)
  qed
  have fl: "psr_c (psr (h_scan want i c)) = (?l = 8)" "psr_z (psr (h_scan want i c)) = (?l = 0)"
    "\<not> psr_n (psr (h_scan want i c))" "\<not> psr_v (psr (h_scan want i c))"
    by (simp_all add: h_scan_def Let_def flag_defs)
  show ?thesis using s b fl unfolding p by auto
qed

section \<open>Witnesses\<close>

lemma cpu_compare_branch_witness:
  "pc (cpu (exec_handler (C0 H_jrult) no_wiring 0x0E08 (exec_handler (C1 H_cmp_rd_rs) no_wiring 0x2A43 cpu_sample)))
    = 0xC0000E"
proof -
  have f: "rd 0x2A43 = 3" "rs 0x2A43 = 4" "\<not> dbit 0x0E08" "sign8 0x0E08 = 8"
    by (simp_all add: rd_def rs_def dbit_def sign8_def)
  have cc: "H_jrult \<in> cond_branches" by (simp add: cond_branches_def)
  show ?thesis
    using cpu_compare_branch [OF _ cc refl refl, where m = cpu_sample and j = "0x0E08" and w = no_wiring and i = "0x2A43"]
    by (simp add: f sign_ext_def)
qed

lemma cpu_add_adc_witness:
  "psr_c (psr (cpu (exec_handler (C5 H_adc) no_wiring 0xB831 (exec_handler (C1 H_add_rd_rs) no_wiring 0x2242 cpu_sample)))) = False"
proof -
  have f: "rd 0x2242 = 2" "rs 0x2242 = 4" "rd 0xB831 = 1" "rs 0xB831 = 3"
    by (simp_all add: rd_def rs_def)
  show ?thesis
    using cpu_add_adc [OF _ _ _ refl refl refl, of cpu_sample "0x2242" "0xB831" no_wiring]
    by (simp add: f wide_def)
qed

lemma cpu_ext_operands_witness:
  "unat (ext_imm (cpu_init\<lparr>pending_ext_count := 1, pending_ext := (\<lambda>_. 5)\<rparr>) 7 6) = 327"
proof -
  have "cpu_safe (cpu_init\<lparr>pending_ext_count := 1, pending_ext := (\<lambda>_. 5)\<rparr>)"
    by (simp add: cpu_safe_def cpu_init_def)
  from cpu_ext_operands [OF this, of 7] show ?thesis by (simp add: ext_cat_def)
qed

lemma cpu_load_constant_witness:
  "gpr (cpu (exec_handler (C3 H_ld_w_rd_simm6) no_wiring 0x6F85 (exec_handler H_ext no_wiring 0xD159
      (exec_handler H_ext no_wiring 0xC246 cpu_sample)))) 5 = 0x12345678"
proof -
  have f: "imm13 0xC246 = drop_bit 19 0x12345678" "imm13 0xD159 = drop_bit 6 0x12345678 AND 0x1FFF"
    "imm6 0x6F85 = 0x12345678 AND 0x3F" "rd 0x6F85 = 5"
    by (simp_all add: imm13_def imm6_def rd_def)
  show ?thesis using cpu_load_constant [OF _ f(1,2,3) refl, of cpu_sample no_wiring] by (simp add: f(4))
qed

lemma cpu_scan_witness: "unat (gpr (h_scan True 0x8E31 (cpu_init\<lparr>gpr := (\<lambda>_. 0x10000000)\<rparr>)) (rd 0x8E31)) = 3"
proof -
  obtain p where p: "p = unat (gpr (h_scan True 0x8E31 (cpu_init\<lparr>gpr := (\<lambda>_. 0x10000000)\<rparr>)) (rd 0x8E31))" by blast
  have s: "p \<le> 8" "\<forall>q<p. \<not> bit (0x10000000 :: u32) (31 - q)" "p < 8 \<longrightarrow> bit (0x10000000 :: u32) (31 - p)"
    using cpu_scan [OF p] by simp_all
  have b: "bit (0x10000000 :: u32) (31 - 3)" "\<not> bit (0x10000000 :: u32) (31 - 0)"
    "\<not> bit (0x10000000 :: u32) (31 - 1)" "\<not> bit (0x10000000 :: u32) (31 - 2)"
    by code_simp+
  have "\<not> 3 < p" using s(2) b(1) by blast
  moreover have "p \<noteq> 0" using s(3) b(2) by (metis zero_less_numeral)
  moreover have "p \<noteq> 1" using s(3) b(3) by (metis one_less_numeral_iff semiring_norm(76))
  moreover have "p \<noteq> 2" using s(3) b(4) by (metis numeral_less_iff semiring_norm(76,78))
  ultimately show ?thesis unfolding p [symmetric] by linarith
qed

lemma cpu_add_sub_flags_witness:
  "psr_c (psr (do_alu AluADD 0xFFFFFFFF 1 3 cpu_init)) \<and> psr_z (psr (do_alu AluADD 0xFFFFFFFF 1 3 cpu_init))
   \<and> \<not> psr_v (psr (do_alu AluADD 0xFFFFFFFF 1 3 cpu_init))"
  using cpu_add_sub_flags [where a = "0xFFFFFFFF" and b = 1 and d = 3 and c = cpu_init] by simp

lemma cpu_shifts_witness: "bit (psr (h_shift_imm4 SLL 0x8C41 (cpu_init\<lparr>psr := 8\<rparr>))) 3"
proof -
  have "bit (8 :: u32) 3" by code_simp
  moreover have "bit (psr (h_shift_imm4 SLL 0x8C41 (cpu_init\<lparr>psr := 8\<rparr>))) 3 = bit (8 :: u32) 3"
    using cpu_shifts [where i = "0x8C41" and n = 1 and v = 1 and op = SLL and c = "cpu_init\<lparr>psr := 8\<rparr>"] by simp
  ultimately show ?thesis by simp
qed

lemma cpu_swap_mirror_witness: "bit (byte_swap 1) 24 \<and> bit (bit_mirror 1) 7"
proof -
  have "bit (byte_swap v) 24 = bit v 0" "bit (bit_mirror v) 7 = bit v 0" for v
    using cpu_swap_mirror [where v = v and i = 0 and c = cpu_init] by auto
  then show ?thesis by simp
qed

end
