(* ===== verification/CpuMac.thy ===== *)
theory CpuMac
  imports CpuAlu
begin

text \<open>
  Multiplication and \<open>mac\<close> of \<^verbatim>\<open>cpu_class5.cpp\<close>: exact products in AHR:ALR, and the two fast
  paths of \<open>mac\<close> against its general bus loop.
\<close>

section \<open>Products\<close>

text \<open>The 64-bit accumulator is AHR:ALR.\<close>

lemma get_acc_parts:
  "alr c = ucast (v :: u64) \<Longrightarrow> ahr c = ucast (drop_bit 32 v) \<Longrightarrow> get_acc c = v"
proof -
  assume a: "alr c = ucast v" "ahr c = ucast (drop_bit 32 v)"
  show "get_acc c = v"
  proof (rule bit_word_eqI)
    fix n assume "n < LENGTH(64)"
    then show "bit (get_acc c) n = bit v n"
      unfolding get_acc_def a
      by (cases "n < 32")
        (simp_all only: bit_or_iff bit_push_bit_iff bit_ucast_iff bit_drop_bit_eq comp_apply, auto simp: not_less)
  qed
qed

lemma get_acc_set_product [simp]: "get_acc (set_product v c) = v"
  by (rule get_acc_parts) (simp_all add: set_product_def)

lemma get_acc_set_acc [simp]: "get_acc (set_acc v c) = v"
  by (rule get_acc_parts) (simp_all add: set_acc_def)

lemma sint_fits64: "- (2 ^ 63) \<le> k \<Longrightarrow> k < 2 ^ 63 \<Longrightarrow> sint (word_of_int k :: u64) = k"
  by (simp add: sint_sbintrunc' signed_take_bit_int_eq_self)

lemma product_bound:
  fixes x y :: int
  assumes "- b \<le> x" "x < b" "- b \<le> y" "y < b"
  shows "\<bar>x * y\<bar> \<le> b * b"
proof -
  have "\<bar>x\<bar> \<le> b" "\<bar>y\<bar> \<le> b" using assms by auto
  then show ?thesis by (simp add: abs_mult mult_mono)
qed

text \<open>
  The four multiplications leave the exact product in AHR:ALR: signed and unsigned, of the
  registers and of their low halfwords; no multiplication overflows 64 bits.
\<close>
theorem cpu_multiply:
  "sint (get_acc (h_mlt_w i c)) = sint (gpr c (rd i)) * sint (gpr c (rs i))
   \<and> unat (get_acc (h_mltu_w i c)) = unat (gpr c (rd i)) * unat (gpr c (rs i))
   \<and> sint (get_acc (h_mlt_h i c)) = sint (ucast (gpr c (rd i)) :: u16) * sint (ucast (gpr c (rs i)) :: u16)
   \<and> unat (get_acc (h_mltu_h i c)) = unat (gpr c (rd i)) mod 2 ^ 16 * (unat (gpr c (rs i)) mod 2 ^ 16)"
proof -
  have b32: "- (2 ^ 31) \<le> sint (x :: u32)" "sint x < 2 ^ 31" for x
    using sint_ge [of x] sint_lt [of x] by simp_all
  have b16: "- (2 ^ 15) \<le> sint (x :: u16)" "sint x < 2 ^ 15" for x
    using sint_ge [of x] sint_lt [of x] by simp_all
  have "sint (get_acc (h_mlt_w i c)) = sint (gpr c (rd i)) * sint (gpr c (rs i))"
    unfolding h_mlt_w_def get_acc_set_product
    by (rule sint_fits64) (use product_bound [OF b32 [of "gpr c (rd i)"] b32 [of "gpr c (rs i)"]] in auto)
  moreover have "sint (get_acc (h_mlt_h i c)) = sint (ucast (gpr c (rd i)) :: u16) * sint (ucast (gpr c (rs i)) :: u16)"
    unfolding h_mlt_h_def get_acc_set_product Let_def
    by (rule sint_fits64) (use product_bound [OF b16 [of "ucast (gpr c (rd i))"] b16 [of "ucast (gpr c (rs i))"]] in auto)
  moreover have "unat (ucast x * ucast y :: u64) = unat x * unat y" for x y :: u32
  proof -
    have "unat x * unat y < 2 ^ 32 * 2 ^ 32" by (intro mult_strict_mono) (simp_all only: u32_less, simp_all)
    then show ?thesis by (simp add: unat_word_ariths unat_ucast64)
  qed
  moreover have "unat (x AND 0xFFFF) = unat x mod 2 ^ 16" for x :: u32
    unfolding mask_literals unat_and_mask ..
  ultimately show ?thesis by (simp add: h_mltu_w_def h_mltu_h_def Let_def)
qed

section \<open>Multiply-accumulate: the SRAM fast path\<close>

lemma mac_sram_offsets:
  "snd (mac_sram k ram o1 o2 s) = (o1 + 2 * word_of_nat k, o2 + 2 * word_of_nat k)"
  by (induction k arbitrary: o1 o2 s) (simp_all add: algebra_simps)

lemma mac_acc_fst: "fst (mac_acc h1 h2 s) = fst s + word_of_int (sint h1 * sint h2)"
  by (simp add: mac_acc_def Let_def)

text \<open>The accumulated value: the initial one plus the sum of the signed products.\<close>

definition mac_sum :: "u8 list \<Rightarrow> u32 \<Rightarrow> u32 \<Rightarrow> nat \<Rightarrow> int" where
  "mac_sum ram o1 o2 k = (\<Sum>j<k. sint (le16 ram (unat (o1 + 2 * word_of_nat j)))
     * sint (le16 ram (unat (o2 + 2 * word_of_nat j))))"

lemma mac_sum_Suc:
  "mac_sum ram o1 o2 (Suc k) = sint (le16 ram (unat o1)) * sint (le16 ram (unat o2)) + mac_sum ram (o1 + 2) (o2 + 2) k"
  unfolding mac_sum_def by (subst sum.lessThan_Suc_shift) (simp add: algebra_simps)

lemma mac_sram_value:
  "fst (fst (mac_sram k ram o1 o2 s)) = fst s + word_of_int (mac_sum ram o1 o2 k)"
proof (induction k arbitrary: o1 o2 s)
  case 0
  show ?case by (simp add: mac_sum_def)
next
  case (Suc k)
  show ?case by (simp add: Suc mac_acc_fst mac_sum_Suc add.assoc)
qed

text \<open>One iteration of the general loop on SRAM.\<close>

lemma charge_zero [simp]: "charge 0 m = m" by (simp add: charge_def)

definition mac_regs :: "nat \<Rightarrow> nat \<Rightarrow> nat \<Rightarrow> nat \<Rightarrow> u32 \<Rightarrow> cpu_state \<Rightarrow> cpu_state" where
  "mac_regs s r1 r2 k p c = c\<lparr>psr := p, gpr := (gpr c)(r1 := gpr c r1 + 2 * word_of_nat k,
     r2 := gpr c r2 + 2 * word_of_nat k, s := gpr c s - word_of_nat k)\<rparr>"

lemma mac_regs_Suc:
  assumes "r1 \<noteq> r2" "s \<noteq> r1" "s \<noteq> r2"
  shows "mac_regs s r1 r2 k p (mac_regs s r1 r2 1 q c) = mac_regs s r1 r2 (Suc k) p c"
  using assms by (simp add: mac_regs_def fun_upd_def algebra_simps cong: if_cong)

definition mac_array :: "'d machine \<Rightarrow> u32 \<Rightarrow> nat \<Rightarrow> bool" where
  "mac_array m p k \<longleftrightarrow> even (unat p) \<and> (k = 0 \<or> in_sram m p (2 * k))"

lemma mac_array_step:
  assumes "mac_array m p (Suc k)"
  shows "in_sram m p 2" "even (unat p)" "mac_array m (p + 2) k" "p + 2 - SRAM_BASE = (p - SRAM_BASE) + 2"
    "sram_off p = unat (p - SRAM_BASE)"
proof -
  have h: "even (unat p)" "in_sram m p (2 * Suc k)" using assms by (simp_all add: mac_array_def)
  then show "in_sram m p 2" "even (unat p)" by (auto simp: in_sram_def)
  show "sram_off p = unat (p - SRAM_BASE)" using in_sramD(6) [OF h(2)] by simp
  show "p + 2 - SRAM_BASE = (p - SRAM_BASE) + 2" by simp
  show "mac_array m (p + 2) k"
  proof (cases "k = 0")
    case True
    have "unat p + 2 < 2 ^ 32" using h(2) by (auto simp: in_sram_def)
    then have "unat (p + 2) = unat p + 2" by (simp add: u32_add)
    then show ?thesis using True h(1) by (simp add: mac_array_def)
  next
    case False
    then show ?thesis
      using in_sram_sub [OF h(2), of 2 "2 * k"] h(1) by (auto simp: mac_array_def)
  qed
qed

lemma mac_slow_sram:
  assumes "r1 \<noteq> r2" "s \<noteq> r1" "s \<noteq> r2"
    and "mac_array m (gpr (cpu m) r1) k" "mac_array m (gpr (cpu m) r2) k"
  shows "mac_slow k w s r1 r2 u m =
    (let a = fst (mac_sram k (sram (bus m)) (gpr (cpu m) r1 - SRAM_BASE) (gpr (cpu m) r2 - SRAM_BASE) (u, psr (cpu m)))
     in (fst a, charge (int k * (2 * ext_read_cycles (bus m) (sram_wait (bus m))))
          (on_cpu (mac_regs s r1 r2 k (snd a)) m)))"
  using assms(4,5)
proof (induction k arbitrary: u m)
  case 0
  show ?case by (simp add: mac_regs_def Let_def)
next
  case (Suc k)
  let ?p1 = "gpr (cpu m) r1" and ?p2 = "gpr (cpu m) r2" and ?e = "ext_read_cycles (bus m) (sram_wait (bus m))"
  let ?h1 = "le16 (sram (bus m)) (unat (?p1 - SRAM_BASE))" and ?h2 = "le16 (sram (bus m)) (unat (?p2 - SRAM_BASE))"
  let ?a = "mac_acc ?h1 ?h2 (u, psr (cpu m))"
  note s1 = mac_array_step [OF Suc.prems(1)] and s2 = mac_array_step [OF Suc.prems(2)]
  have e: "ext_read_cycles (bus (charge z n)) x = ext_read_cycles (bus n) x" for z n x
    by (simp add: ext_read_cycles_def)
  have r1: "read16 w ?p1 m = (?h1, charge ?e m)"
    using read16_sram [OF s1(1,2)] s1(5) by simp
  have r2: "read16 w ?p2 (charge ?e m) = (?h2, charge (?e + ?e) m)"
    using read16_sram [of "charge ?e m" ?p2] s2(1,2,5) by (simp add: e charge_charge)
  let ?m3 = "charge (?e + ?e) (on_cpu (mac_regs s r1 r2 1 (snd ?a)) m)"
  have m3: "on_cpu (\<lambda>c. set_reg s (gpr c s - 1) (let c2 = set_reg r1 (gpr c r1 + 2) (c\<lparr>psr := snd ?a\<rparr>)
                   in set_reg r2 (gpr c2 r2 + 2) c2)) (charge (?e + ?e) m) = ?m3"
    using assms(1-3) by (cases m) (simp add: charge_def set_reg_def mac_regs_def Let_def)
  have g3: "gpr (cpu ?m3) r1 = ?p1 + 2" "gpr (cpu ?m3) r2 = ?p2 + 2" "psr (cpu ?m3) = snd ?a"
    "sram (bus ?m3) = sram (bus m)" "sram_wait (bus ?m3) = sram_wait (bus m)"
    "ext_read_cycles (bus ?m3) x = ext_read_cycles (bus m) x" for x
    using assms(1-3) by (simp_all add: mac_regs_def e)
  have arr: "mac_array ?m3 (gpr (cpu ?m3) r1) k" "mac_array ?m3 (gpr (cpu ?m3) r2) k"
    using s1(3) s2(3) unfolding g3 by (simp_all add: mac_array_def in_sram_def)
  have ch: "charge (int k * (2 * ?e)) (on_cpu (mac_regs s r1 r2 k p) ?m3)
      = charge (int (Suc k) * (2 * ?e)) (on_cpu (mac_regs s r1 r2 (Suc k) p) m)" for p
  proof -
    have "on_cpu (mac_regs s r1 r2 k p) ?m3 = charge (?e + ?e) (on_cpu (mac_regs s r1 r2 (Suc k) p) m)"
      using mac_regs_Suc [OF assms(1-3), of k p "snd ?a"]
      by (cases m) (simp add: charge_def)
    then show ?thesis by (simp add: charge_charge algebra_simps)
  qed
  have "mac_slow (Suc k) w s r1 r2 u m = mac_slow k w s r1 r2 (fst ?a) ?m3"
    by (simp only: mac_slow.simps r1 r2 prod.case charge_fields(1) Let_def m3 [unfolded Let_def])
  also have "\<dots> = (let a = fst (mac_sram k (sram (bus m)) (?p1 + 2 - SRAM_BASE) (?p2 + 2 - SRAM_BASE) (fst ?a, snd ?a))
     in (fst a, charge (int k * (2 * ?e)) (on_cpu (mac_regs s r1 r2 k (snd a)) ?m3)))"
    using Suc.IH [OF arr, of "fst ?a"] unfolding g3 .
  also have "\<dots> = (let a = fst (mac_sram (Suc k) (sram (bus m)) (?p1 - SRAM_BASE) (?p2 - SRAM_BASE) (u, psr (cpu m)))
     in (fst a, charge (int k * (2 * ?e)) (on_cpu (mac_regs s r1 r2 k (snd a)) ?m3)))"
    unfolding s1(4) s2(4) by (simp only: mac_sram.simps prod.collapse)
  finally show ?case unfolding ch .
qed

text \<open>The instruction as the general loop alone would execute it.\<close>

definition mac_general :: "'d wiring \<Rightarrow> u16 \<Rightarrow> 'd machine \<Rightarrow> 'd machine" where
  "mac_general w i m0 =
    (let m = flush m0; s = rs i; r1 = (s + 1) mod 16; r2 = (s + 2) mod 16; count = gpr (cpu m) s
     in if count = 0 then m
        else (case mac_slow (unat count) w s r1 r2 (get_acc (cpu m)) m of
                (uacc, m1) \<Rightarrow> on_cpu (set_acc uacc) m1))"

lemma register_wrap:
  "list_all (\<lambda>n. (n + 1) mod 16 \<noteq> (n + 2) mod 16 \<and> n \<noteq> (n + 1) mod 16 \<and> n \<noteq> (n + 2) mod 16) [0..<16 :: nat]"
  by code_simp

lemma mac_registers: "rs i < 16" "(rs i + 1) mod 16 \<noteq> (rs i + 2) mod 16" "rs i \<noteq> (rs i + 1) mod 16" "rs i \<noteq> (rs i + 2) mod 16"
proof -
  show b: "rs i < 16" by (rule field_bounds(7))
  then show "(rs i + 1) mod 16 \<noteq> (rs i + 2) mod 16" "rs i \<noteq> (rs i + 1) mod 16" "rs i \<noteq> (rs i + 2) mod 16"
    using register_wrap unfolding list_all_iff by auto
qed

lemma charge_cong: "word_of_int a = (word_of_int b :: u32) \<Longrightarrow> charge a m = charge b m"
  by (simp add: charge_def)

lemma mac_tests:
  assumes "mac_array m p k" "k = unat count" "0 < k"
  shows "a28 p = p" "unat ((p - SRAM_BASE) + count * 2) \<le> length (sram (bus m))" "watchpoints (bus m) = []"
    "unat p < 0x200000"
proof -
  have h: "in_sram m p (2 * k)" using assms by (simp add: mac_array_def)
  show "a28 p = p" by (rule in_sramD(1) [OF h])
  show "watchpoints (bus m) = []" "unat p < 0x200000" using h by (auto simp: in_sram_def)
  have off: "unat (p - SRAM_BASE) + 2 * k \<le> length (sram (bus m))" "length (sram (bus m)) \<le> 0x100000"
    using in_sramD(6,7) [OF h] h by (simp_all add: in_sram_def)
  then have "unat (count * 2) = 2 * k" using assms(2) by (simp add: unat_word_ariths)
  then show "unat ((p - SRAM_BASE) + count * 2) \<le> length (sram (bus m))"
    using off by (simp only: u32_add) auto
qed

text \<open>
  C11: for operand arrays that lie in installed SRAM at even addresses, with no watchpoint, the
  direct-memory loop of \<open>mac\<close> leaves exactly the machine the general bus loop leaves, wait
  cycles included, and AHR:ALR has grown by the sum of the signed halfword products.
\<close>
theorem cpu_mac_fast_path:
  assumes "gpr (cpu m) (rs i) \<noteq> 0" "flash_size (flash (bus m)) < 2 ^ 28"
    and "mac_array m (gpr (cpu m) ((rs i + 1) mod 16)) (unat (gpr (cpu m) (rs i)))"
    and "mac_array m (gpr (cpu m) ((rs i + 2) mod 16)) (unat (gpr (cpu m) (rs i)))"
  shows "h_mac w i m = mac_general w i m
    \<and> get_acc (cpu (h_mac w i m)) = get_acc (cpu m) + word_of_int (mac_sum (sram (bus m))
        (gpr (cpu m) ((rs i + 1) mod 16) - SRAM_BASE) (gpr (cpu m) ((rs i + 2) mod 16) - SRAM_BASE)
        (unat (gpr (cpu m) (rs i))))"
proof -
  let ?s = "rs i" and ?r1 = "(rs i + 1) mod 16" and ?r2 = "(rs i + 2) mod 16"
  let ?count = "gpr (cpu m) ?s" and ?p1 = "gpr (cpu m) ?r1" and ?p2 = "gpr (cpu m) ?r2"
  let ?k = "unat ?count"
  define n where "n = flush m"
  have n: "cpu n = flush_ext (cpu m)" "bus n = bus m" "gpr (cpu n) = gpr (cpu m)" by (simp_all add: n_def)
  have k: "0 < ?k" using assms(1) by (simp add: unat_gt_0)
  note t1 = mac_tests [OF assms(3) refl k] and t2 = mac_tests [OF assms(4) refl k]
  have arr: "mac_array n (gpr (cpu n) ?r1) ?k" "mac_array n (gpr (cpu n) ?r2) ?k"
    using assms(3,4) by (simp_all add: n mac_array_def in_sram_def)
  have nopen: "\<not> mac_open_bus (bus n) ?p1 ?p2 ?count"
  proof -
    have "unat (FLASH_BASE + word_of_nat (flash_size (flash (bus m)))) = unat FLASH_BASE + flash_size (flash (bus m))"
      using assms(2) by (simp add: u32_add u32_of_nat)
    then have "\<not> FLASH_BASE + word_of_nat (flash_size (flash (bus m))) \<le> ?p1"
      using t1(4) by (simp add: word_le_nat_alt)
    then show ?thesis by (simp add: mac_open_bus_def n Let_def)
  qed
  have inram: "mac_in_sram (bus n) ?p1 ?p2 ?count" using t1(2,3) t2(2) by (simp add: mac_in_sram_def n)
  define r where "r = mac_sram ?k (sram (bus m)) (?p1 - SRAM_BASE) (?p2 - SRAM_BASE) (get_acc (cpu n), psr (cpu n))"
  let ?e = "ext_read_cycles (bus m) (sram_wait (bus m))"
  have slow: "mac_slow ?k w ?s ?r1 ?r2 (get_acc (cpu n)) n
      = (fst (fst r), charge (int ?k * (2 * ?e)) (on_cpu (mac_regs ?s ?r1 ?r2 ?k (snd (fst r))) n))"
    using mac_slow_sram [OF mac_registers(2-4) arr, of w "get_acc (cpu n)"] by (simp add: Let_def n r_def)
  have off: "snd r = (?p1 - SRAM_BASE + 2 * ?count, ?p2 - SRAM_BASE + 2 * ?count)"
    unfolding r_def mac_sram_offsets by simp
  have cyc: "charge (uint (word_of_int (?e * 2) * ?count)) x = charge (int ?k * (2 * ?e)) x" for x :: "'a machine"
    by (rule charge_cong) (simp add: mult.commute mult.left_commute)
  have fast: "mac_fast_sram ?s ?r1 ?r2 ?p1 ?p2 ?count n
      = on_cpu (set_acc (fst (fst r))) (charge (int ?k * (2 * ?e)) (on_cpu (mac_regs ?s ?r1 ?r2 ?k (snd (fst r))) n))"
  proof -
    have rr: "mac_sram ?k (sram (bus m)) (?p1 - SRAM_BASE) (?p2 - SRAM_BASE) (get_acc (cpu n), psr (cpu n))
        = ((fst (fst r), snd (fst r)), ?p1 - SRAM_BASE + 2 * ?count, ?p2 - SRAM_BASE + 2 * ?count)"
      unfolding r_def [symmetric] off [symmetric] prod.collapse ..
    have "mac_fast_sram ?s ?r1 ?r2 ?p1 ?p2 ?count n
      = on_cpu (\<lambda>c. set_acc (fst (fst r)) (set_reg ?s 0 (set_reg ?r2 (SRAM_BASE + (?p2 - SRAM_BASE + 2 * ?count))
            (set_reg ?r1 (SRAM_BASE + (?p1 - SRAM_BASE + 2 * ?count)) (c\<lparr>psr := snd (fst r)\<rparr>)))))
          (charge (int ?k * (2 * ?e)) n)"
      unfolding mac_fast_sram_def n(2) rr prod.case Let_def cyc ..
    also have "\<dots> = on_cpu (set_acc (fst (fst r))) (charge (int ?k * (2 * ?e)) (on_cpu (mac_regs ?s ?r1 ?r2 ?k (snd (fst r))) n))"
      using mac_registers(2-4) [of i] n(3)
      by (cases n) (simp add: charge_def set_acc_def set_reg_def mac_regs_def)
    finally show ?thesis .
  qed
  have "h_mac w i m = mac_fast_sram ?s ?r1 ?r2 ?p1 ?p2 ?count n"
    using assms(1) nopen inram t1(1) t2(1) unfolding h_mac_def Let_def n_def [symmetric] by (simp add: n)
  moreover have "mac_general w i m = on_cpu (set_acc (fst (fst r)))
      (charge (int ?k * (2 * ?e)) (on_cpu (mac_regs ?s ?r1 ?r2 ?k (snd (fst r))) n))"
    using assms(1) unfolding mac_general_def Let_def n_def [symmetric] n(3) slow by simp
  moreover have "fst (fst r) = get_acc (cpu m) + word_of_int (mac_sum (sram (bus m)) (?p1 - SRAM_BASE) (?p2 - SRAM_BASE) ?k)"
    unfolding r_def mac_sram_value by (simp add: n get_acc_def)
  ultimately show ?thesis using fast by simp
qed

section \<open>Multiply-accumulate: the open-bus fast path\<close>

lemma u64_msb: "bit (x :: u64) 63 = (2 ^ 63 \<le> unat x)"
proof -
  have "bit x 63 = bit (unat x) 63" using bit_imp_le_length [of x 63] by (auto simp: bit_unsigned_iff)
  also have "\<dots> = odd (unat x div 2 ^ 63)" by (rule bit_iff_odd)
  finally have e: "bit x 63 = odd (unat x div 2 ^ 63)" .
  have "unat x < 2 ^ 64" using unsigned_less [of x, where 'a = nat] by simp
  then have "unat x div 2 ^ 63 < 2" by (intro less_mult_imp_div_less) simp
  then have "unat x div 2 ^ 63 = 0 \<or> unat x div 2 ^ 63 = 1" by linarith
  then have "odd (unat x div 2 ^ 63) = (0 < unat x div 2 ^ 63)" by fastforce
  then show ?thesis unfolding e by (simp only: div_greater_zero_iff) simp
qed

lemma small_overflow:
  assumes "k < 2 ^ 33"
  shows "acc_overflow u (word_of_nat k) (u + word_of_nat k)
    = (unat u < 2 ^ 63 \<and> 2 ^ 63 \<le> unat u + k)"
proof -
  have uk: "unat (word_of_nat k :: u64) = k" using assms by (simp add: unat_of_nat)
  have lt: "unat u < 2 ^ 64" using unsigned_less [of u, where 'a = nat] by simp
  have "acc_overflow u (word_of_nat k) (u + word_of_nat k)
      = (\<not> bit u 63 \<and> bit (u + word_of_nat k) 63)"
  proof -
    have "\<not> bit (word_of_nat k :: u64) 63" using assms unfolding u64_msb uk by simp
    then show ?thesis by (auto simp: acc_overflow_def bit_simps)
  qed
  also have "\<dots> = (unat u < 2 ^ 63 \<and> 2 ^ 63 \<le> unat u + k)"
  proof (cases "unat u < 2 ^ 63")
    case True
    then have "unat (u + word_of_nat k) = unat u + k" using assms uk by (simp add: unat_word_ariths)
    then show ?thesis using True unfolding u64_msb by simp
  next
    case False
    then show ?thesis unfolding u64_msb by simp
  qed
  finally show ?thesis .
qed

lemma mac_acc_ones:
  "mac_acc 0xFFFF 0xFFFF (u, p) = (u + 1, if \<not> psr_mo p \<and> acc_overflow u 1 (u + 1) then set_mo True p else p)"
proof -
  have "sint (0xFFFF :: u16) = - 1" by simp
  then show ?thesis by (simp add: mac_acc_def Let_def)
qed

lemma set_mo_simps [simp]: "psr_mo (set_mo True p)" "set_mo True (set_mo True p) = set_mo True p"
  by (simp_all add: flag_defs) (rule put_flag_same; simp)

lemma unat_u64_add: "unat (u + 1 :: u64) = (if unat u + 1 < 2 ^ 64 then unat u + 1 else 0)"
  using unsigned_less [of u, where 'a = nat] by (auto simp: unat_plus_if_size word_size)

lemma mac_acc_ones_pow:
  assumes "k < 2 ^ 32"
  shows "(mac_acc 0xFFFF 0xFFFF ^^ k) (u, p) = (u + word_of_nat k,
    if \<not> psr_mo p \<and> acc_overflow u (word_of_nat k) (u + word_of_nat k) then set_mo True p else p)"
  using assms
proof (induction k arbitrary: u p)
  case 0
  have "unat u < 2 ^ 63 \<longrightarrow> \<not> 2 ^ 63 \<le> unat u + 0" by simp
  then show ?case using small_overflow [of 0 u] by auto
next
  case (Suc k)
  let ?p = "if \<not> psr_mo p \<and> acc_overflow u 1 (u + 1) then set_mo True p else p"
  have IH: "(mac_acc 0xFFFF 0xFFFF ^^ k) (u + 1, ?p) = (u + 1 + word_of_nat k,
     if \<not> psr_mo ?p \<and> acc_overflow (u + 1) (word_of_nat k) (u + 1 + word_of_nat k) then set_mo True ?p else ?p)"
    using Suc by simp
  have o1: "acc_overflow u 1 (u + 1) = (unat u < 2 ^ 63 \<and> 2 ^ 63 \<le> unat u + 1)"
    using small_overflow [of 1 u] by simp
  have ok: "acc_overflow (u + 1) (word_of_nat k) (u + 1 + word_of_nat k)
      = (unat (u + 1) < 2 ^ 63 \<and> 2 ^ 63 \<le> unat (u + 1) + k)"
    using small_overflow [of k "u + 1"] Suc.prems by simp
  have os: "acc_overflow u (word_of_nat (Suc k)) (u + word_of_nat (Suc k))
      = (unat u < 2 ^ 63 \<and> 2 ^ 63 \<le> unat u + Suc k)"
    using small_overflow [of "Suc k" u] Suc.prems by simp
  have "(unat (u + 1) < 2 ^ 63 \<and> 2 ^ 63 \<le> unat (u + 1) + k) = (unat u + 1 < 2 ^ 63 \<and> 2 ^ 63 \<le> unat u + Suc k)"
    using Suc.prems unfolding unat_u64_add by auto
  then have comb: "(acc_overflow u 1 (u + 1) \<or> acc_overflow (u + 1) (word_of_nat k) (u + 1 + word_of_nat k))
      = acc_overflow u (word_of_nat (Suc k)) (u + word_of_nat (Suc k))"
    unfolding o1 ok os by auto
  have sw: "(mac_acc 0xFFFF 0xFFFF ^^ Suc k) (u, p) = (mac_acc 0xFFFF 0xFFFF ^^ k) (mac_acc 0xFFFF 0xFFFF (u, p))"
    by (simp add: funpow_swap1)
  have w: "u + 1 + word_of_nat k = u + word_of_nat (Suc k)" by simp
  show ?case
    unfolding sw mac_acc_ones IH comb [symmetric] w
    by (cases "psr_mo p"; cases "acc_overflow u 1 (u + 1)") (simp_all add: w)
qed

text \<open>An array of \<open>k\<close> halfwords beyond the flash, not wrapping around the 28-bit bus.\<close>

definition open_array :: "'d machine \<Rightarrow> u32 \<Rightarrow> nat \<Rightarrow> bool" where
  "open_array m p k \<longleftrightarrow> even (unat p) \<and> flash_end (bus m) \<le> unat p \<and> unat p + 2 * k \<le> 2 ^ 28"

lemma read16_open:
  assumes "open_array m p (Suc k)"
  shows "read16 w p m = (0xFFFF, m)" "open_array m (p + 2) k"
proof -
  have h: "even (unat p)" "flash_end (bus m) \<le> unat p" "unat p + 2 * Suc k \<le> 2 ^ 28"
    using assms by (simp_all add: open_array_def)
  have a: "a28 p = p" using h(3) by (intro a28_id) simp
  have hi: "FLASH_BASE \<le> p" using h(2) by (simp add: flash_end_def word_le_nat_alt)
  show "read16 w p m = (0xFFFF, m)"
    using h(1,2) hi high_not_low(1) [OF hi] unfolding read16_def Let_def a sram_window_iff
    by (auto simp: aligned_tests)
  have "unat (p + 2) = unat p + 2" using h(3) by (simp add: u32_add)
  then show "open_array m (p + 2) k" using h by (simp add: open_array_def)
qed

lemma mac_slow_open:
  assumes "r1 \<noteq> r2" "s \<noteq> r1" "s \<noteq> r2"
    and "open_array m (gpr (cpu m) r1) k" "open_array m (gpr (cpu m) r2) k"
  shows "mac_slow k w s r1 r2 u m =
    (let a = (mac_acc 0xFFFF 0xFFFF ^^ k) (u, psr (cpu m))
     in (fst a, on_cpu (mac_regs s r1 r2 k (snd a)) m))"
  using assms(4,5)
proof (induction k arbitrary: u m)
  case 0
  show ?case by (simp add: mac_regs_def Let_def)
next
  case (Suc k)
  let ?p1 = "gpr (cpu m) r1" and ?p2 = "gpr (cpu m) r2"
  let ?a = "mac_acc 0xFFFF 0xFFFF (u, psr (cpu m))"
  note s1 = read16_open [OF Suc.prems(1)] and s2 = read16_open [OF Suc.prems(2)]
  let ?m3 = "on_cpu (mac_regs s r1 r2 1 (snd ?a)) m"
  have m3: "on_cpu (\<lambda>c. set_reg s (gpr c s - 1) (let c2 = set_reg r1 (gpr c r1 + 2) (c\<lparr>psr := snd ?a\<rparr>)
                   in set_reg r2 (gpr c2 r2 + 2) c2)) m = ?m3"
    using assms(1-3) by (cases m) (simp add: set_reg_def mac_regs_def Let_def)
  have g3: "gpr (cpu ?m3) r1 = ?p1 + 2" "gpr (cpu ?m3) r2 = ?p2 + 2" "psr (cpu ?m3) = snd ?a"
    using assms(1-3) by (simp_all add: mac_regs_def)
  have arr: "open_array ?m3 (gpr (cpu ?m3) r1) k" "open_array ?m3 (gpr (cpu ?m3) r2) k"
    using s1(2) s2(2) unfolding g3 by (simp_all add: open_array_def)
  have "mac_slow (Suc k) w s r1 r2 u m = mac_slow k w s r1 r2 (fst ?a) ?m3"
    by (simp only: mac_slow.simps s1(1) s2(1) prod.case Let_def m3 [unfolded Let_def])
  also have "\<dots> = (let a = (mac_acc 0xFFFF 0xFFFF ^^ k) (fst ?a, snd ?a)
      in (fst a, on_cpu (mac_regs s r1 r2 k (snd a)) ?m3))"
    using Suc.IH [OF arr, of "fst ?a"] unfolding g3 .
  also have "\<dots> = (let a = (mac_acc 0xFFFF 0xFFFF ^^ Suc k) (u, psr (cpu m))
      in (fst a, on_cpu (mac_regs s r1 r2 (Suc k) (snd a)) m))"
  proof -
    have "(mac_acc 0xFFFF 0xFFFF ^^ Suc k) (u, psr (cpu m)) = (mac_acc 0xFFFF 0xFFFF ^^ k) ?a"
      by (simp add: funpow_swap1)
    moreover have "on_cpu (mac_regs s r1 r2 k q) ?m3 = on_cpu (mac_regs s r1 r2 (Suc k) q) m" for q
      using mac_regs_Suc [OF assms(1-3), of k q "snd ?a"] by (cases m) simp
    ultimately show ?thesis unfolding Let_def prod.collapse by simp
  qed
  finally show ?case .
qed

text \<open>
  For operand arrays beyond the end of flash (the kernel's busy-wait idiom), at even addresses
  that do not wrap around the 28-bit bus, the constant-time path of \<open>mac\<close> leaves exactly the
  machine the general loop leaves, the sticky MO flag included: every product is 1.
\<close>
theorem cpu_mac_open_bus:
  assumes "gpr (cpu m) (rs i) \<noteq> 0" "watchpoints (bus m) = []"
    and "open_array m (gpr (cpu m) ((rs i + 1) mod 16)) (unat (gpr (cpu m) (rs i)))"
    and "open_array m (gpr (cpu m) ((rs i + 2) mod 16)) (unat (gpr (cpu m) (rs i)))"
  shows "h_mac w i m = mac_general w i m
    \<and> get_acc (cpu (h_mac w i m)) = get_acc (cpu m) + ucast (gpr (cpu m) (rs i))"
proof -
  let ?s = "rs i" and ?r1 = "(rs i + 1) mod 16" and ?r2 = "(rs i + 2) mod 16"
  let ?count = "gpr (cpu m) ?s" and ?p1 = "gpr (cpu m) ?r1" and ?p2 = "gpr (cpu m) ?r2"
  let ?k = "unat ?count"
  define n where "n = flush m"
  have n: "cpu n = flush_ext (cpu m)" "bus n = bus m" "gpr (cpu n) = gpr (cpu m)" by (simp_all add: n_def)
  have k: "0 < ?k" "?k < 2 ^ 32" using assms(1) u32_less [of ?count] by (simp_all add: unat_gt_0)
  have arr: "open_array n (gpr (cpu n) ?r1) ?k" "open_array n (gpr (cpu n) ?r2) ?k"
    using assms(3,4) by (simp_all add: n open_array_def)
  have pt: "a28 p = p \<and> FLASH_BASE + word_of_nat (flash_size (flash (bus m))) \<le> p
      \<and> FLASH_BASE + word_of_nat (flash_size (flash (bus m))) \<le> p + (?count - 1) * 2"
    if "open_array m p ?k" for p
  proof -
    have h: "flash_end (bus m) \<le> unat p" "unat p + 2 * ?k \<le> 2 ^ 28" using that by (simp_all add: open_array_def)
    have sz: "flash_size (flash (bus m)) < 2 ^ 28" using h by (simp add: flash_end_def)
    have fe: "unat (FLASH_BASE + word_of_nat (flash_size (flash (bus m)))) = flash_end (bus m)"
      using sz by (simp add: u32_add u32_of_nat flash_end_def)
    have "unat ((?count - 1) * 2) = 2 * (?k - 1)"
    proof -
      have e: "unat (?count - 1) = ?k - 1" using k(1) by (simp add: u32_sub)
      have dbl: "unat (x * 2) = 2 * unat x" if "2 * unat x < 2 ^ 32" for x :: u32
        using that by (simp add: unat_word_ariths)
      have "2 * unat (?count - 1) < 2 ^ 32" unfolding e using h(2) by simp
      from dbl [OF this] show ?thesis unfolding e .
    qed
    moreover have "unat p + 2 * (?k - 1) < 2 ^ 32" using h(2) by simp
    ultimately have "unat (p + (?count - 1) * 2) = unat p + 2 * (?k - 1)" by (simp only: u32_add if_True)
    then show ?thesis using h fe k(1) by (auto simp: word_le_nat_alt a28_id)
  qed
  have yopen: "mac_open_bus (bus n) ?p1 ?p2 ?count"
    using pt [OF assms(3)] pt [OF assms(4)] assms(2) by (simp add: mac_open_bus_def n Let_def)
  have ids: "a28 ?p1 = ?p1" "a28 ?p2 = ?p2" using pt [OF assms(3)] pt [OF assms(4)] by auto
  let ?u = "get_acc (cpu n)"
  define q where "q = (if \<not> psr_mo (psr (cpu n)) \<and> acc_overflow ?u (ucast ?count) (?u + ucast ?count)
    then set_mo True (psr (cpu n)) else psr (cpu n))"
  have uc: "(word_of_nat ?k :: u64) = ucast ?count" by (simp add: unsigned_ucast_eq)
  have slow: "mac_slow ?k w ?s ?r1 ?r2 ?u n = (?u + ucast ?count, on_cpu (mac_regs ?s ?r1 ?r2 ?k q) n)"
    using mac_slow_open [OF mac_registers(2-4) arr, of w ?u] mac_acc_ones_pow [OF k(2), of ?u "psr (cpu n)"]
    unfolding uc q_def by (simp add: Let_def)
  have "h_mac w i m = on_cpu (mac_fast_open ?s ?r1 ?r2 ?count) n"
    using assms(1) yopen ids unfolding h_mac_def Let_def n_def [symmetric] by (simp add: n)
  moreover have "on_cpu (mac_fast_open ?s ?r1 ?r2 ?count) n = on_cpu (set_acc (?u + ucast ?count)) (on_cpu (mac_regs ?s ?r1 ?r2 ?k q) n)"
    using mac_registers(2-4) [of i] n(3)
    by (cases n) (simp add: mac_fast_open_def Let_def q_def set_acc_def set_reg_def mac_regs_def mult.commute)
  moreover have "mac_general w i m = on_cpu (set_acc (?u + ucast ?count)) (on_cpu (mac_regs ?s ?r1 ?r2 ?k q) n)"
    using assms(1) unfolding mac_general_def Let_def n_def [symmetric] n(3) slow by simp
  moreover have "?u = get_acc (cpu m)" by (simp add: n get_acc_def)
  ultimately show ?thesis by simp
qed

section \<open>Witnesses\<close>

text \<open>\<open>mac %r1\<close> (0xB610): count in R1, pointers in R2 and R3.\<close>

lemma mac_fields: "rs 0xB610 = 1" by (simp add: rs_def)

definition mac_sample :: "u32 \<Rightarrow> unit machine" where
  "mac_sample p = sample_bus\<lparr>cpu := cpu_init\<lparr>gpr := (\<lambda>k. if k = 1 then 8 else p)\<rparr>\<rparr>"

lemma cpu_mac_fast_path_witness: "h_mac no_wiring 0xB610 (mac_sample 0x100100) = mac_general no_wiring 0xB610 (mac_sample 0x100100)"
proof -
  have g: "gpr (cpu (mac_sample 0x100100)) = (\<lambda>k. if k = 1 then 8 else 0x100100)" by (simp add: mac_sample_def)
  have "mac_array (mac_sample 0x100100) 0x100100 8"
    by (simp add: mac_array_def in_sram_def mac_sample_def sample_bus_parts)
  moreover have "flash_size (flash (bus (mac_sample 0x100100))) < 2 ^ 28"
    by (simp add: mac_sample_def sample_bus_parts flash_size_def)
  ultimately show ?thesis
    using cpu_mac_fast_path [of "mac_sample 0x100100" "0xB610" no_wiring] by (simp add: mac_fields g)
qed

lemma cpu_mac_open_bus_witness: "h_mac no_wiring 0xB610 (mac_sample 0x1000000) = mac_general no_wiring 0xB610 (mac_sample 0x1000000)"
proof -
  have g: "gpr (cpu (mac_sample 0x1000000)) = (\<lambda>k. if k = 1 then 8 else 0x1000000)" by (simp add: mac_sample_def)
  have "open_array (mac_sample 0x1000000) 0x1000000 8"
    by (simp add: open_array_def flash_end_def mac_sample_def sample_bus_parts flash_size_def)
  moreover have "watchpoints (bus (mac_sample 0x1000000)) = []" by (simp add: mac_sample_def sample_bus_parts flash_size_def)
  ultimately show ?thesis
    using cpu_mac_open_bus [of "mac_sample 0x1000000" "0xB610" no_wiring] by (simp add: mac_fields g)
qed

end
