(* ===== verification/Intc.thy ===== *)
theory Intc
  imports Prelude
begin

text \<open>
  The interrupt controller of \<^verbatim>\<open>src/soc/peripheral_intc.{hpp,cpp}\<close>: its register bytes, the
  per-source level overrides, register access with the two acknowledge modes, raising and
  polling. The lemmas show what a poll offers, what a raise does, how flags are acknowledged,
  and, for the step relation \<open>intc_step\<close>, that skipping a scan while the poll flag is clear
  loses no interrupt.
\<close>

section \<open>Sources and state\<close>

datatype irq_source =
    PORT0 | PORT1 | PORT2 | PORT3 | KEY0 | KEY1 | HSDMA0 | HSDMA1 | HSDMA2 | HSDMA3 | IDMA
  | T16_CRB0 | T16_CRA0 | T16_CRB1 | T16_CRA1 | T16_CRB2 | T16_CRA2
  | T16_CRB3 | T16_CRA3 | T16_CRB4 | T16_CRA4 | T16_CRB5 | T16_CRA5
  | T8_UF0 | T8_UF1 | T8_UF2 | T8_UF3 | SIF0_ERR | SIF0_RX | SIF0_TX | SIF1_ERR | SIF1_RX | SIF1_TX
  | AD | CLK_TIMER | PORT4 | PORT5 | PORT6 | PORT7

definition irq_sources :: "irq_source list" where
  "irq_sources = [PORT0, PORT1, PORT2, PORT3, KEY0, KEY1, HSDMA0, HSDMA1, HSDMA2, HSDMA3, IDMA,
     T16_CRB0, T16_CRA0, T16_CRB1, T16_CRA1, T16_CRB2, T16_CRA2,
     T16_CRB3, T16_CRA3, T16_CRB4, T16_CRA4, T16_CRB5, T16_CRA5,
     T8_UF0, T8_UF1, T8_UF2, T8_UF3, SIF0_ERR, SIF0_RX, SIF0_TX, SIF1_ERR, SIF1_RX, SIF1_TX,
     AD, CLK_TIMER, PORT4, PORT5, PORT6, PORT7]"

text \<open>\<open>static_cast<int>(src)\<close> and its inverse \<open>static_cast<IrqSource>(n)\<close>.\<close>

fun position :: "'a \<Rightarrow> 'a list \<Rightarrow> nat" where
  "position x [] = 0"
| "position x (y # ys) = (if x = y then 0 else Suc (position x ys))"

definition src_index :: "irq_source \<Rightarrow> nat" where "src_index s = position s irq_sources"
definition src_at :: "nat \<Rightarrow> irq_source" where "src_at n = irq_sources ! n"

abbreviation NUM_SOURCES :: nat where "NUM_SOURCES \<equiv> 39"

record src_info =
  trap_no :: int
  pri_byte :: nat
  pri_shift :: nat
  ien_byte :: nat
  ien_bit :: nat
  isr_byte :: nat
  isr_bit :: nat

definition src_row :: "int \<Rightarrow> nat \<Rightarrow> nat \<Rightarrow> nat \<Rightarrow> nat \<Rightarrow> nat \<Rightarrow> nat \<Rightarrow> src_info" where
  "src_row t p s eb e ib i = \<lparr> trap_no = t, pri_byte = p, pri_shift = s, ien_byte = eb, ien_bit = e,
     isr_byte = ib, isr_bit = i \<rparr>"

definition src_table :: "src_info list" where
  "src_table = [
     src_row 16  0 0 16 0 32 0,
     src_row 17  0 4 16 1 32 1,
     src_row 18  1 0 16 2 32 2,
     src_row 19  1 4 16 3 32 3,
     src_row 20  2 0 16 4 32 4,
     src_row 21  2 4 16 5 32 5,
     src_row 22  3 0 17 0 33 0,
     src_row 23  3 4 17 1 33 1,
     src_row 24  4 0 17 2 33 2,
     src_row 25  4 4 17 3 33 3,
     src_row 26  5 0 17 4 33 4,
     src_row 30  6 0 18 2 34 2,
     src_row 31  6 0 18 3 34 3,
     src_row 34  6 4 18 6 34 6,
     src_row 35  6 4 18 7 34 7,
     src_row 38  7 0 19 2 35 2,
     src_row 39  7 0 19 3 35 3,
     src_row 42  7 4 19 6 35 6,
     src_row 43  7 4 19 7 35 7,
     src_row 46  8 0 20 2 36 2,
     src_row 47  8 0 20 3 36 3,
     src_row 50  8 4 20 6 36 6,
     src_row 51  8 4 20 7 36 7,
     src_row 52  9 0 21 0 37 0,
     src_row 53  9 0 21 1 37 1,
     src_row 54  9 0 21 2 37 2,
     src_row 55  9 0 21 3 37 3,
     src_row 56  9 4 22 0 38 0,
     src_row 57  9 4 22 1 38 1,
     src_row 58  9 4 22 2 38 2,
     src_row 60 10 0 22 3 38 3,
     src_row 61 10 0 22 4 38 4,
     src_row 62 10 0 22 5 38 5,
     src_row 64 10 4 23 0 39 0,
     src_row 65 11 0 23 1 39 1,
     src_row 68 12 0 23 2 39 2,
     src_row 69 12 4 23 3 39 3,
     src_row 70 13 0 23 4 39 4,
     src_row 71 13 4 23 5 39 5]"

text \<open>
  The members of \<open>InterruptController\<close>. Every register offset the code uses is below
  \<open>REG_COUNT\<close> = 64 and every source index below \<open>NUM_SOURCES\<close>; \<open>level_override\<close> is
  \<open>-1\<close> for "use the priority register".
\<close>

record intc =
  regs :: "nat \<Rightarrow> u8"
  level_override :: "nat \<Rightarrow> int"
  current_il :: u32
  poll_dirty :: bool

text \<open>The constructed controller after \<open>attach\<close>, which sets the overrides; and \<open>reset\<close>.\<close>

definition intc_attached :: intc where
  "intc_attached = \<lparr> regs = (\<lambda>_. 0), level_override = (\<lambda>_. - 1), current_il = 0, poll_dirty = True \<rparr>"

definition intc_reset :: "intc \<Rightarrow> intc" where
  "intc_reset s = \<lparr> regs = (\<lambda>_. 0)(63 := 0x07), level_override = (\<lambda>_. - 1), current_il = 0, poll_dirty = True \<rparr>"

definition set_current_il :: "u32 \<Rightarrow> intc \<Rightarrow> intc" where
  "set_current_il il s =
    (let s1 = (if il < current_il s then s\<lparr>poll_dirty := True\<rparr> else s) in s1\<lparr>current_il := il\<rparr>)"

section \<open>Register access\<close>

definition intc_io_read :: "nat \<Rightarrow> intc \<Rightarrow> u16" where
  "intc_io_read off s = ucast (regs s off) OR push_bit 8 (ucast (regs s (off + 1)))"

text \<open>The loop that drops the level override of every source whose flag fell.\<close>

definition drop_overrides :: "nat \<Rightarrow> u8 \<Rightarrow> (nat \<Rightarrow> int) \<Rightarrow> (nat \<Rightarrow> int)" where
  "drop_overrides byte_off cleared ov =
    fold (\<lambda>i ov. let info = src_table ! i
                 in if isr_byte info = byte_off \<and> bit cleared (isr_bit info) then ov(i := - 1) else ov)
      [0..<NUM_SOURCES] ov"

text \<open>The lambda \<open>write_byte\<close> of \<open>io_write\<close>; \<open>io_write_byte\<close> has the same body.\<close>

definition intc_write_byte :: "bool \<Rightarrow> nat \<Rightarrow> u8 \<Rightarrow> intc \<Rightarrow> intc" where
  "intc_write_byte rstonly byte_off v s =
    (if byte_off \<ge> 32 \<and> byte_off \<le> 39 then
       let before = regs s byte_off;
           after = (if rstonly then before AND NOT v else v);
           cleared = before AND NOT after;
           s1 = s\<lparr>regs := (regs s)(byte_off := after)\<rparr>
       in if cleared \<noteq> 0 then s1\<lparr>level_override := drop_overrides byte_off cleared (level_override s1)\<rparr> else s1
     else s\<lparr>regs := (regs s)(byte_off := v)\<rparr>)"

definition rstonly :: "intc \<Rightarrow> bool" where "rstonly s \<longleftrightarrow> regs s 63 AND 0x01 \<noteq> 0"

definition intc_io_write_byte :: "nat \<Rightarrow> u32 \<Rightarrow> u8 \<Rightarrow> intc \<Rightarrow> intc" where
  "intc_io_write_byte off addr v s =
    (let byte_off = off + (if addr AND 1 \<noteq> 0 then 1 else 0);
         s1 = intc_write_byte (rstonly s) byte_off v s
     in if byte_off < 14 \<or> (byte_off \<ge> 16 \<and> byte_off < 24) \<or> (byte_off \<ge> 32 \<and> byte_off < 40)
        then s1\<lparr>poll_dirty := True\<rparr> else s1)"

definition intc_io_write :: "nat \<Rightarrow> u32 \<Rightarrow> u16 \<Rightarrow> intc \<Rightarrow> intc" where
  "intc_io_write off addr v s =
    (let r = rstonly s;
         s1 = (if addr AND 1 \<noteq> 0 then intc_write_byte r (off + 1) (ucast v) s
               else intc_write_byte r (off + 1) (ucast (drop_bit 8 v)) (intc_write_byte r off (ucast v) s));
         end_off = off + 2
     in if off < 14 \<or> (off \<ge> 16 \<and> off < 24) \<or> (end_off > 32 \<and> off < 40)
        then s1\<lparr>poll_dirty := True\<rparr> else s1)"

section \<open>Interrupt delivery\<close>

text \<open>
  The call of \<open>assert_trap_\<close> is the last action of \<open>try_deliver\<close> and of \<open>poll\<close>; here it
  is the second component of the result: the trap number and the level, or none.
\<close>

type_synonym trap_request = "(int \<times> int) option"

definition priority_level :: "nat \<Rightarrow> intc \<Rightarrow> int" where
  "priority_level i s =
    (let info = src_table ! i in uint (drop_bit (pri_shift info) (regs s (pri_byte info)) AND 0x07))"

definition isr_set :: "nat \<Rightarrow> intc \<Rightarrow> bool" where
  "isr_set i s = bit (regs s (isr_byte (src_table ! i))) (isr_bit (src_table ! i))"

definition ien_set :: "nat \<Rightarrow> intc \<Rightarrow> bool" where
  "ien_set i s = bit (regs s (ien_byte (src_table ! i))) (ien_bit (src_table ! i))"

definition low3 :: "int \<Rightarrow> int" where "low3 v = uint (word_of_int v AND 0x07 :: u32)"

definition try_deliver :: "irq_source \<Rightarrow> int \<Rightarrow> intc \<Rightarrow> intc \<times> trap_request" where
  "try_deliver src lv s =
    (let i = src_index src; info = src_table ! i;
         s1 = s\<lparr>regs := (regs s)(isr_byte info := regs s (isr_byte info) OR push_bit (isr_bit info) 1)\<rparr>;
         s2 = s1\<lparr>poll_dirty := True\<rparr>
     in if \<not> ien_set i s2 then (s2, None)
        else let level = (if lv \<ge> 0 then low3 lv else priority_level i s2)
             in if level = 0 then (s2, None) else (s2, Some (trap_no info, level)))"

definition intc_raise :: "irq_source \<Rightarrow> int \<Rightarrow> intc \<Rightarrow> intc \<times> trap_request" where
  "intc_raise src lv s =
    (let s1 = (if lv \<ge> 0 then s\<lparr>level_override := (level_override s)(src_index src := low3 lv)\<rparr> else s)
     in try_deliver src lv s1)"

definition poll_level :: "nat \<Rightarrow> intc \<Rightarrow> int" where
  "poll_level i s = (if level_override s i \<ge> 0 then level_override s i else priority_level i s)"

text \<open>
  One pass of the loop of \<open>poll\<close> over \<open>(best, best_level)\<close>; \<open>best_override\<close> is only read
  by an empty statement and is left out.
\<close>

definition poll_visit :: "intc \<Rightarrow> nat \<Rightarrow> nat option \<times> int \<Rightarrow> nat option \<times> int" where
  "poll_visit s i acc =
    (if \<not> isr_set i s then acc
     else if \<not> ien_set i s then acc
     else let level = poll_level i s
          in if level = 0 then acc
             else if (word_of_int level :: u32) \<le> current_il s then acc
             else if level > snd acc then (Some i, level) else acc)"

definition poll_scan :: "intc \<Rightarrow> nat option \<times> int" where
  "poll_scan s = fold (poll_visit s) [0..<NUM_SOURCES] (None, 0)"

definition intc_poll :: "intc \<Rightarrow> intc \<times> trap_request" where
  "intc_poll s =
    (if \<not> poll_dirty s then (s, None)
     else case poll_scan s of (best, best_level) \<Rightarrow>
       (s\<lparr>poll_dirty := False\<rparr>,
        case best of None \<Rightarrow> None | Some i \<Rightarrow> Some (trap_no (src_table ! i), best_level)))"

section \<open>Facts about the tables\<close>

lemma src_table_length [simp]: "length src_table = NUM_SOURCES" by (simp add: src_table_def)

lemma src_table_rows:
  "list_all (\<lambda>r. 16 \<le> trap_no r \<and> trap_no r \<le> 71 \<and> pri_byte r < 14 \<and> pri_shift r \<in> {0, 4}
     \<and> 16 \<le> ien_byte r \<and> ien_byte r < 24 \<and> ien_bit r < 8
     \<and> isr_byte r = ien_byte r + 16 \<and> isr_bit r = ien_bit r) src_table"
  by (simp add: src_table_def src_row_def)

lemma src_table_row:
  assumes "i < NUM_SOURCES"
  shows "16 \<le> trap_no (src_table ! i)" "trap_no (src_table ! i) \<le> 71" "pri_byte (src_table ! i) < 14"
    "16 \<le> ien_byte (src_table ! i)" "ien_byte (src_table ! i) < 24" "ien_bit (src_table ! i) < 8"
    "isr_byte (src_table ! i) = ien_byte (src_table ! i) + 16"
    "isr_bit (src_table ! i) = ien_bit (src_table ! i)"
  using src_table_rows assms by (auto simp: list_all_length)

lemma src_flags_distinct: "distinct (map (\<lambda>r. (isr_byte r, isr_bit r)) src_table)"
  by (simp add: src_table_def src_row_def)

lemma src_flag_inj:
  "i < NUM_SOURCES \<Longrightarrow> j < NUM_SOURCES \<Longrightarrow>
   (isr_byte (src_table ! i) = isr_byte (src_table ! j) \<and> isr_bit (src_table ! i) = isr_bit (src_table ! j)) = (i = j)"
  using nth_eq_iff_index_eq [OF src_flags_distinct, of i j] by auto

lemma irq_sources_length [simp]: "length irq_sources = NUM_SOURCES" by (simp add: irq_sources_def)

lemma irq_sources_distinct: "distinct irq_sources" by (simp add: irq_sources_def)

lemma irq_sources_all: "s \<in> set irq_sources" by (cases s) (simp_all add: irq_sources_def)

lemma position_less: "x \<in> set xs \<Longrightarrow> position x xs < length xs" by (induction xs) auto

lemma nth_position: "x \<in> set xs \<Longrightarrow> xs ! position x xs = x" by (induction xs) auto

lemma src_index_less [simp]: "src_index s < NUM_SOURCES"
  using position_less [OF irq_sources_all [of s]] by (simp add: src_index_def)

lemma src_at_index [simp]: "src_at (src_index s) = s"
  using nth_position [OF irq_sources_all [of s]] by (simp add: src_index_def src_at_def)

lemma src_index_at [simp]: "n < NUM_SOURCES \<Longrightarrow> src_index (src_at n) = n"
  using nth_eq_iff_index_eq [OF irq_sources_distinct, of "src_index (src_at n)" n] src_at_index [of "src_at n"]
    src_index_less [of "src_at n"]
  by (simp add: src_at_def)

section \<open>The scan finds the maximum\<close>

text \<open>What the controller may hand to the CPU: flagged, enabled, and above the current level.\<close>

definition deliverable :: "nat \<Rightarrow> intc \<Rightarrow> bool" where
  "deliverable i s \<longleftrightarrow> isr_set i s \<and> ien_set i s \<and> uint (current_il s) < poll_level i s"

text \<open>The level overrides the code stores are three-bit values or \<open>-1\<close>.\<close>

definition intc_wf :: "intc \<Rightarrow> bool" where
  "intc_wf s \<longleftrightarrow> (\<forall>i. - 1 \<le> level_override s i \<and> level_override s i \<le> 7)"

lemma uint_and7: "0 \<le> uint (x AND 7 :: 'a::len word)" "uint (x AND 7 :: 'a::len word) \<le> 7"
proof -
  show "0 \<le> uint (x AND 7)" by simp
  have "uint (x AND 7) = uint x AND uint (7 :: 'a word)" by (rule uint_and)
  also have "\<dots> \<le> uint (7 :: 'a word)" by (rule AND_upper2) simp
  also have "\<dots> \<le> 7" using uint_mod [of "7 :: 'a word"] by (simp add: uint_word_of_int_eq take_bit_eq_mod)
  finally show "uint (x AND 7) \<le> 7" .
qed

lemma low3_range: "0 \<le> low3 v" "low3 v \<le> 7"
  using uint_and7 [of "word_of_int v :: u32"] by (simp_all add: low3_def)

lemma priority_level_range: "0 \<le> priority_level i s" "priority_level i s \<le> 7"
  using uint_and7 by (simp_all add: priority_level_def Let_def)

lemma poll_level_range: "intc_wf s \<Longrightarrow> 0 \<le> poll_level i s \<and> poll_level i s \<le> 7"
  using priority_level_range [of i s] by (auto simp: poll_level_def intc_wf_def)

lemma level_le_il:
  assumes "0 \<le> l" "l \<le> 7"
  shows "((word_of_int l :: u32) \<le> il) = (l \<le> uint il)"
  using assms by (simp add: word_le_def uint_word_of_int take_bit_int_eq_self)

lemma poll_visit_eq:
  assumes "intc_wf s" "0 \<le> snd acc"
  shows "poll_visit s i acc =
    (if deliverable i s \<and> snd acc < poll_level i s then (Some i, poll_level i s) else acc)"
proof -
  have "0 \<le> poll_level i s" "poll_level i s \<le> 7" using poll_level_range [OF assms(1)] by auto
  note level_le_il [OF this]
  then show ?thesis using assms(2) by (auto simp: poll_visit_def Let_def deliverable_def)
qed

text \<open>The first maximum over a prefix of the sources.\<close>

definition best_of :: "nat \<Rightarrow> intc \<Rightarrow> nat option \<times> int \<Rightarrow> bool" where
  "best_of n s acc \<longleftrightarrow>
    (case fst acc of
       None \<Rightarrow> snd acc = 0 \<and> (\<forall>j<n. \<not> deliverable j s)
     | Some i \<Rightarrow> i < n \<and> deliverable i s \<and> snd acc = poll_level i s \<and> 0 < snd acc
         \<and> (\<forall>j<n. deliverable j s \<longrightarrow> poll_level j s \<le> snd acc)
         \<and> (\<forall>j<i. deliverable j s \<longrightarrow> poll_level j s < snd acc))"

lemma deliverable_pos: "deliverable i s \<Longrightarrow> 0 < poll_level i s"
  by (simp add: deliverable_def) (meson le_less_trans uint_ge_0)

lemma best_of_step:
  assumes "intc_wf s" "best_of n s acc"
  shows "best_of (Suc n) s (poll_visit s n acc)"
proof -
  have p: "0 \<le> snd acc" using assms(2) by (auto simp: best_of_def split: option.splits)
  show ?thesis
  proof (cases "fst acc")
    case None
    then show ?thesis
      using assms(2) deliverable_pos [of n s]
      by (auto simp: poll_visit_eq [OF assms(1) p] best_of_def less_Suc_eq)
  next
    case (Some i)
    then show ?thesis
      using assms(2) deliverable_pos [of n s]
      by (auto simp: poll_visit_eq [OF assms(1) p] best_of_def less_Suc_eq)
  qed
qed

lemma best_of_prefix: "intc_wf s \<Longrightarrow> best_of n s (fold (poll_visit s) [0..<n] (None, 0))"
proof (induction n)
  case 0 then show ?case by (simp add: best_of_def)
next
  case (Suc n) then show ?case by (simp add: best_of_step)
qed

lemma poll_scan_best: "intc_wf s \<Longrightarrow> best_of NUM_SOURCES s (poll_scan s)"
  unfolding poll_scan_def by (rule best_of_prefix)

section \<open>Well-formedness is kept\<close>

lemma drop_overrides_eq:
  "drop_overrides b c ov =
    (\<lambda>i. if i < NUM_SOURCES \<and> isr_byte (src_table ! i) = b \<and> bit c (isr_bit (src_table ! i)) then - 1 else ov i)"
proof -
  have "fold (\<lambda>i ov. let info = src_table ! i
                 in if isr_byte info = b \<and> bit c (isr_bit info) then ov(i := - 1) else ov) [0..<n] ov
    = (\<lambda>i. if i < n \<and> isr_byte (src_table ! i) = b \<and> bit c (isr_bit (src_table ! i)) then - 1 else ov i)" for n
    by (induction n) (auto simp: Let_def fun_eq_iff less_Suc_eq)
  then show ?thesis by (simp add: drop_overrides_def)
qed

lemma intc_wf_upd [simp]:
  "intc_wf (s\<lparr>regs := r\<rparr>) = intc_wf s" "intc_wf (s\<lparr>poll_dirty := d\<rparr>) = intc_wf s"
  "intc_wf (s\<lparr>current_il := l\<rparr>) = intc_wf s"
  by (simp_all add: intc_wf_def)

lemma intc_wf_reset [simp]: "intc_wf (intc_reset s)" "intc_wf intc_attached"
  by (simp_all add: intc_wf_def intc_reset_def intc_attached_def)

lemma intc_wf_il [simp]: "intc_wf s \<Longrightarrow> intc_wf (set_current_il il s)"
  by (simp add: set_current_il_def Let_def)

lemma intc_wf_write_byte [simp]: "intc_wf s \<Longrightarrow> intc_wf (intc_write_byte r b v s)"
  by (simp add: intc_write_byte_def Let_def intc_wf_def drop_overrides_eq)

lemma intc_wf_io [simp]:
  "intc_wf s \<Longrightarrow> intc_wf (intc_io_write_byte off a v s)"
  "intc_wf s \<Longrightarrow> intc_wf (intc_io_write off a x s)"
  by (simp_all add: intc_io_write_byte_def intc_io_write_def Let_def)

lemma try_deliver_fst:
  "fst (try_deliver src lv s) = s\<lparr>regs := (regs s)(isr_byte (src_table ! src_index src) :=
      regs s (isr_byte (src_table ! src_index src)) OR push_bit (isr_bit (src_table ! src_index src)) 1),
      poll_dirty := True\<rparr>"
  by (simp add: try_deliver_def Let_def)

lemma intc_wf_raise [simp]: "intc_wf s \<Longrightarrow> intc_wf (fst (intc_raise src lv s))"
  using low3_range [of lv] by (simp add: intc_raise_def try_deliver_fst Let_def intc_wf_def)

lemma intc_poll_fst: "fst (intc_poll s) = s\<lparr>poll_dirty := False\<rparr>"
  by (cases "poll_dirty s") (simp_all add: intc_poll_def case_prod_beta)

lemma intc_wf_poll [simp]: "intc_wf s \<Longrightarrow> intc_wf (fst (intc_poll s))"
  by (simp add: intc_poll_fst)

section \<open>Polling and raising\<close>

lemma poll_best:
  assumes "intc_wf s" "poll_dirty s"
  shows "case snd (intc_poll s) of
      None \<Rightarrow> \<forall>j<NUM_SOURCES. \<not> deliverable j s
    | Some (t, l) \<Rightarrow> \<exists>i<NUM_SOURCES. deliverable i s \<and> t = trap_no (src_table ! i) \<and> l = poll_level i s
        \<and> (\<forall>j<NUM_SOURCES. deliverable j s \<longrightarrow> poll_level j s \<le> l)
        \<and> (\<forall>j<i. deliverable j s \<longrightarrow> poll_level j s < l)"
  using poll_scan_best [OF assms(1)] assms(2)
  by (cases "poll_scan s") (auto simp: intc_poll_def best_of_def split: option.splits)

text \<open>
  On a controller whose poll flag is set, poll clears the flag and changes nothing else,
  and it offers the CPU exactly the right interrupt: the trap of the source that is flagged in
  ISR, enabled in IEN and has the highest level above the current IL (its override level if it
  has one, its priority register otherwise), the first in table order among equals; it offers
  nothing exactly when no source qualifies.
\<close>
theorem intc_poll_highest:
  assumes "intc_wf s" "poll_dirty s"
  shows "fst (intc_poll s) = s\<lparr>poll_dirty := False\<rparr> \<and>
    (case snd (intc_poll s) of
       None \<Rightarrow> \<forall>j<NUM_SOURCES. \<not> deliverable j s
     | Some (t, l) \<Rightarrow> \<exists>i<NUM_SOURCES. deliverable i s \<and> t = trap_no (src_table ! i) \<and> l = poll_level i s
         \<and> (\<forall>j<NUM_SOURCES. deliverable j s \<longrightarrow> poll_level j s \<le> l)
         \<and> (\<forall>j<i. deliverable j s \<longrightarrow> poll_level j s < l))"
  by (intro conjI intc_poll_fst poll_best assms)

text \<open>The effect of a raise on the four components.\<close>

definition flagged :: "irq_source \<Rightarrow> (nat \<Rightarrow> u8) \<Rightarrow> (nat \<Rightarrow> u8)" where
  "flagged src r = r(isr_byte (src_table ! src_index src) :=
     r (isr_byte (src_table ! src_index src)) OR push_bit (isr_bit (src_table ! src_index src)) 1)"

lemma flagged_other: "k < 32 \<Longrightarrow> flagged src r k = r k"
  using src_table_row [OF src_index_less [of src]] by (simp add: flagged_def)

lemma bit_or_one: "n < 8 \<Longrightarrow> bit (x OR 2 ^ k :: u8) n = (bit x n \<or> n = k)"
  by (auto simp: bit_or_iff bit_exp_iff)

lemma isr_set_flagged:
  assumes i: "i < NUM_SOURCES"
  shows "isr_set i (s\<lparr>regs := flagged src (regs s)\<rparr>) = (i = src_index src \<or> isr_set i s)"
proof -
  have b: "isr_bit (src_table ! i) < 8" using src_table_row(6,8) [OF i] by simp
  show ?thesis
    using src_flag_inj [OF i src_index_less [of src]]
    by (auto simp: isr_set_def flagged_def bit_or_one [OF b])
qed

lemma ien_set_flagged:
  "i < NUM_SOURCES \<Longrightarrow> ien_set i (s\<lparr>regs := flagged src (regs s)\<rparr>) = ien_set i s"
  using src_table_row [of i] by (simp add: ien_set_def flagged_other)

lemma priority_level_flagged:
  "i < NUM_SOURCES \<Longrightarrow> priority_level i (s\<lparr>regs := flagged src (regs s)\<rparr>) = priority_level i s"
  using src_table_row [of i] by (simp add: priority_level_def Let_def flagged_other)

lemma raise_eq:
  "intc_raise src lv s =
    (let i = src_index src;
         s' = s\<lparr>regs := flagged src (regs s), poll_dirty := True,
               level_override := (if lv \<ge> 0 then (level_override s)(i := low3 lv) else level_override s)\<rparr>;
         level = (if lv \<ge> 0 then low3 lv else priority_level i s)
     in (s', if ien_set i s \<and> level \<noteq> 0 then Some (trap_no (src_table ! i), level) else None))"
proof -
  let ?r = "src_table ! src_index src"
  have "ien_byte ?r \<noteq> isr_byte ?r" "pri_byte ?r \<noteq> isr_byte ?r"
    using src_table_row [OF src_index_less [of src]] by auto
  then show ?thesis
    by (simp add: intc_raise_def try_deliver_def Let_def flagged_def ien_set_def priority_level_def)
qed

text \<open>
  Raising a source sets its ISR flag, and no other flag, marks the controller for polling
  and records a level override only when one is given; enable bits, priorities and the other
  overrides stay as they were. The CPU is asked to take the trap at once exactly when the
  source is enabled and its level (override or priority register) is not zero; the current
  level does not matter, since the CPU checks it itself.
\<close>
theorem intc_raise_delivers:
  assumes "intc_raise src lv s = (s', request)" "i < NUM_SOURCES"
  shows "isr_set i s' = (i = src_index src \<or> isr_set i s) \<and> ien_set i s' = ien_set i s \<and>
    priority_level i s' = priority_level i s \<and> current_il s' = current_il s \<and> poll_dirty s' \<and>
    level_override s' i = (if i = src_index src \<and> 0 \<le> lv then low3 lv else level_override s i) \<and>
    request = (let level = (if 0 \<le> lv then low3 lv else priority_level (src_index src) s)
               in if ien_set (src_index src) s \<and> level \<noteq> 0
                  then Some (trap_no (src_table ! src_index src), level) else None)"
proof -
  have upd: "isr_set i (t\<lparr>poll_dirty := d, level_override := ov\<rparr>) = isr_set i t"
    "ien_set i (t\<lparr>poll_dirty := d, level_override := ov\<rparr>) = ien_set i t"
    "priority_level i (t\<lparr>poll_dirty := d, level_override := ov\<rparr>) = priority_level i t" for t d ov
    by (simp_all add: isr_set_def ien_set_def priority_level_def)
  from assms(1) show ?thesis
    unfolding raise_eq Let_def
    by (clarify, simp only: upd isr_set_flagged [OF assms(2)] ien_set_flagged [OF assms(2)]
        priority_level_flagged [OF assms(2)]) simp
qed

section \<open>Register writes\<close>

lemma rstonly_write: "b < 63 \<Longrightarrow> rstonly (intc_write_byte r b v s) = rstonly s"
  by (simp add: rstonly_def intc_write_byte_def Let_def)

text \<open>
  A byte store to the flag register \<open>b\<close> (ISR1 to ISR8 are the bytes 32 to 39) with
  RSTONLY set clears the flags written as one and keeps the others; with RSTONLY clear it
  replaces the byte. No other register changes, a source's level override is dropped exactly
  when its flag fell from one to zero, and the controller is marked for polling.
\<close>
theorem intc_acknowledge:
  assumes "32 \<le> b" "b < 40" "off + (if addr AND 1 \<noteq> 0 then 1 else 0) = b"
    "intc_io_write_byte off addr v s = s'"
  shows "(\<forall>k. bit (regs s' b) k = (if rstonly s then bit (regs s b) k \<and> \<not> bit v k else bit v k)) \<and>
    (\<forall>r. r \<noteq> b \<longrightarrow> regs s' r = regs s r) \<and> poll_dirty s' \<and> current_il s' = current_il s \<and>
    (\<forall>i<NUM_SOURCES. level_override s' i = (if isr_set i s \<and> \<not> isr_set i s' then - 1 else level_override s i))"
proof -
  define after where "after = (if rstonly s then regs s b AND NOT v else v)"
  define cleared where "cleared = regs s b AND NOT after"
  have io: "s' = (intc_write_byte (rstonly s) b v s)\<lparr>poll_dirty := True\<rparr>"
    using assms by (auto simp: intc_io_write_byte_def Let_def)
  have r: "regs s' = (regs s)(b := after)" and l: "current_il s' = current_il s" "poll_dirty s'"
    using assms(1,2) by (simp_all add: io intc_write_byte_def Let_def after_def)
  have ov: "level_override s' = drop_overrides b cleared (level_override s)"
    using assms(1,2) by (auto simp: io intc_write_byte_def Let_def after_def cleared_def drop_overrides_eq)
  have "(isr_byte (src_table ! i) = b \<and> bit cleared (isr_bit (src_table ! i))) = (isr_set i s \<and> \<not> isr_set i s')"
    if "i < NUM_SOURCES" for i
    using src_table_row(6,8) [OF that] by (auto simp: isr_set_def r cleared_def bit_and_iff bit_not_iff)
  then have "level_override s' i = (if isr_set i s \<and> \<not> isr_set i s' then - 1 else level_override s i)"
    if "i < NUM_SOURCES" for i
    using that by (simp add: ov drop_overrides_eq)
  moreover have "bit (regs s' b) k = (if rstonly s then bit (regs s b) k \<and> \<not> bit v k else bit v k)" for k
    using bit_imp_le_length [of "regs s b" k] by (auto simp: r after_def bit_and_iff bit_not_iff)
  ultimately show ?thesis by (simp add: r l)
qed

text \<open>
  A halfword store to an even register offset is the byte store of the low byte followed by
  the byte store of the high byte at the next address: the halfword handler and the
  byte-precise handler the controller registers for the same address agree.
\<close>
theorem intc_halfword_is_two_bytes:
  assumes "off < 64" "even off" "addr AND 1 = 0"
  shows "intc_io_write off addr v s =
    intc_io_write_byte off (addr OR 1) (ucast (drop_bit 8 v)) (intc_io_write_byte off addr (ucast v) s)"
proof -
  have w: "intc_write_byte r b v (t\<lparr>poll_dirty := d\<rparr>) = (intc_write_byte r b v t)\<lparr>poll_dirty := d\<rparr>" for r b v t d
    by (simp add: intc_write_byte_def Let_def)
  have bit0: "(addr OR 1) AND 1 \<noteq> 0" by (simp add: word_bw_comms word_ao_absorbs)
  have "off < 63" using assms(1,2) by (cases "off = 63") auto
  then have r: "rstonly (intc_io_write_byte off addr (ucast v) s) = rstonly s"
    using assms(3) rstonly_write [of off] by (simp add: intc_io_write_byte_def Let_def rstonly_def)
  have odd: "off \<noteq> 13" "off \<noteq> 15" "off \<noteq> 23" "off \<noteq> 31" "off \<noteq> 39" using assms(2) by auto
  show ?thesis
    unfolding intc_io_write_byte_def [of off "addr OR 1"] r
    using assms(3) bit0 odd by (simp add: intc_io_write_byte_def intc_io_write_def Let_def w)
qed

section \<open>No pending interrupt is forgotten\<close>

text \<open>Either the next poll will look, or there is nothing to deliver.\<close>

definition quiet :: "intc \<Rightarrow> bool" where
  "quiet s \<longleftrightarrow> intc_wf s \<and> (poll_dirty s \<or> (\<forall>i<NUM_SOURCES. \<not> deliverable i s))"

text \<open>
  The controller's life between the CPU and the devices: any sequence of resets, raises,
  register stores and IL notifications; polls that offer nothing; and polls whose offer the CPU
  takes, after which its IL is the offered level.
\<close>

inductive intc_step :: "intc \<Rightarrow> intc \<Rightarrow> bool" where
  step_reset: "intc_step s (intc_reset s)"
| step_raise: "intc_step s (fst (intc_raise src lv s))"
| step_byte: "intc_step s (intc_io_write_byte off addr v s)"
| step_half: "even off \<Longrightarrow> intc_step s (intc_io_write off addr x s)"
| step_il: "intc_step s (set_current_il il s)"
| step_poll_none: "intc_poll s = (s', None) \<Longrightarrow> intc_step s s'"
| step_poll_taken: "intc_poll s = (s', Some (t, l)) \<Longrightarrow> intc_step s (set_current_il (word_of_int l) s')"

inductive intc_reach :: "intc \<Rightarrow> bool" where
  reach_init: "intc_reach intc_attached"
| reach_step: "intc_reach s \<Longrightarrow> intc_step s s' \<Longrightarrow> intc_reach s'"

definition polled_offset :: "nat \<Rightarrow> bool" where
  "polled_offset k \<longleftrightarrow> k < 14 \<or> (16 \<le> k \<and> k < 24) \<or> (32 \<le> k \<and> k < 40)"

lemma deliverable_cong:
  assumes "i < NUM_SOURCES" "\<And>k. polled_offset k \<Longrightarrow> regs s' k = regs s k"
    "level_override s' = level_override s" "current_il s' = current_il s"
  shows "deliverable i s' = deliverable i s"
proof -
  have "regs s' (isr_byte (src_table ! i)) = regs s (isr_byte (src_table ! i))"
    "regs s' (ien_byte (src_table ! i)) = regs s (ien_byte (src_table ! i))"
    "regs s' (pri_byte (src_table ! i)) = regs s (pri_byte (src_table ! i))"
    using src_table_row [OF assms(1)] by (auto intro!: assms(2) simp: polled_offset_def)
  then show ?thesis
    using assms(3,4) by (simp add: deliverable_def isr_set_def ien_set_def poll_level_def priority_level_def Let_def)
qed

lemma parts_dirty [simp]:
  "isr_set i (s\<lparr>poll_dirty := d\<rparr>) = isr_set i s" "ien_set i (s\<lparr>poll_dirty := d\<rparr>) = ien_set i s"
  "poll_level i (s\<lparr>poll_dirty := d\<rparr>) = poll_level i s"
  by (simp_all add: isr_set_def ien_set_def poll_level_def priority_level_def Let_def)

lemma deliverable_dirty [simp]: "deliverable i (s\<lparr>poll_dirty := d\<rparr>) = deliverable i s"
  by (simp add: deliverable_def isr_set_def ien_set_def poll_level_def priority_level_def Let_def)

lemma deliverable_il:
  "deliverable i (s\<lparr>current_il := l\<rparr>) = (isr_set i s \<and> ien_set i s \<and> uint l < poll_level i s)"
  by (simp add: deliverable_def isr_set_def ien_set_def poll_level_def priority_level_def Let_def)

lemma write_unpolled:
  assumes "\<not> polled_offset b"
  shows "\<And>k. polled_offset k \<Longrightarrow> regs (intc_write_byte r b v s) k = regs s k"
    "level_override (intc_write_byte r b v s) = level_override s"
    "current_il (intc_write_byte r b v s) = current_il s"
    "poll_dirty (intc_write_byte r b v s) = poll_dirty s"
  using assms by (auto simp: intc_write_byte_def polled_offset_def Let_def)

lemma write_deliverable:
  "\<not> polled_offset b \<Longrightarrow> i < NUM_SOURCES \<Longrightarrow> deliverable i (intc_write_byte r b v s) = deliverable i s"
  by (rule deliverable_cong) (simp_all add: write_unpolled)

lemma quiet_write_byte: "\<not> polled_offset b \<Longrightarrow> quiet s \<Longrightarrow> quiet (intc_write_byte r b v s)"
  by (simp add: quiet_def write_unpolled write_deliverable)

lemma quiet_dirty: "intc_wf s \<Longrightarrow> quiet (s\<lparr>poll_dirty := True\<rparr>)"
  by (simp add: quiet_def)

lemma quiet_io_byte: "quiet s \<Longrightarrow> quiet (intc_io_write_byte off addr v s)"
  unfolding intc_io_write_byte_def Let_def
  by (auto simp: polled_offset_def quiet_def [of s] intro!: quiet_dirty quiet_write_byte)

lemma quiet_io_half:
  assumes "quiet s" "even off"
  shows "quiet (intc_io_write off addr x s)"
proof (cases "off < 14 \<or> (off \<ge> 16 \<and> off < 24) \<or> (off + 2 > 32 \<and> off < 40)")
  case True
  with assms show ?thesis
    unfolding intc_io_write_def Let_def by (auto simp: quiet_def [of s] intro!: quiet_dirty)
next
  case False
  moreover have "off \<noteq> 15" "off \<noteq> 31" "off \<noteq> 13" "off \<noteq> 23" "off \<noteq> 39" using assms(2) by auto
  ultimately have "\<not> polled_offset off" "\<not> polled_offset (off + 1)" by (auto simp: polled_offset_def)
  with assms(1) show ?thesis
    unfolding intc_io_write_def Let_def if_not_P [OF False] by (simp add: quiet_write_byte)
qed

lemma quiet_il:
  assumes "quiet s"
  shows "quiet (set_current_il il s)"
proof (cases "il < current_il s")
  case True
  with assms show ?thesis by (simp add: quiet_def set_current_il_def)
next
  case False
  then have "uint (current_il s) \<le> uint il" by (simp add: word_le_def not_less)
  then have "deliverable i (set_current_il il s) \<Longrightarrow> deliverable i s" for i
    using False by (simp add: set_current_il_def deliverable_il) (simp add: deliverable_def)
  with assms False show ?thesis by (auto simp: quiet_def set_current_il_def)
qed

lemma quiet_poll_none:
  assumes "quiet s" "intc_poll s = (s', None)"
  shows "quiet s'"
proof -
  have s': "s' = s\<lparr>poll_dirty := False\<rparr>" using intc_poll_fst [of s] assms(2) by simp
  have "\<forall>i<NUM_SOURCES. \<not> deliverable i s"
  proof (cases "poll_dirty s")
    case True
    with assms show ?thesis using poll_best [of s] by (simp add: quiet_def)
  qed (use assms(1) in \<open>simp add: quiet_def\<close>)
  with assms(1) show ?thesis by (simp add: quiet_def s')
qed

lemma offer_best:
  assumes "intc_wf s" "intc_poll s = (s', Some (t, l))"
  shows "\<exists>i<NUM_SOURCES. deliverable i s \<and> t = trap_no (src_table ! i) \<and> l = poll_level i s
    \<and> (\<forall>j<NUM_SOURCES. deliverable j s \<longrightarrow> poll_level j s \<le> l)"
proof -
  have "poll_dirty s" using assms(2) by (cases "poll_dirty s") (simp_all add: intc_poll_def)
  from poll_best [OF assms(1) this] assms(2) show ?thesis by auto
qed

lemma quiet_poll_taken:
  assumes "quiet s" "intc_poll s = (s', Some (t, l))"
  shows "quiet (set_current_il (word_of_int l) s')"
proof -
  have wf: "intc_wf s" using assms(1) by (simp add: quiet_def)
  have s': "s' = s\<lparr>poll_dirty := False\<rparr>" using intc_poll_fst [of s] assms(2) by simp
  obtain i where i: "i < NUM_SOURCES" "l = poll_level i s"
      and max: "\<And>j. j < NUM_SOURCES \<Longrightarrow> deliverable j s \<Longrightarrow> poll_level j s \<le> l"
      and di: "deliverable i s"
    using offer_best [OF wf assms(2)] by auto
  have l: "uint (word_of_int l :: u32) = l"
    using poll_level_range [OF wf, of i] i(2) by (simp add: uint_word_of_int take_bit_int_eq_self)
  have up: "\<not> (word_of_int l :: u32) < current_il s"
  proof -
    have "uint (current_il s) < l" using di i(2) by (simp add: deliverable_def)
    then show ?thesis by (simp add: word_less_def l)
  qed
  have il: "set_current_il (word_of_int l) s' = s\<lparr>poll_dirty := False, current_il := word_of_int l\<rparr>"
    using up by (simp add: set_current_il_def s')
  have "\<not> deliverable j (set_current_il (word_of_int l) s')" if "j < NUM_SOURCES" for j
    using max [OF that] di i(2) unfolding il deliverable_il parts_dirty l by (fastforce simp: deliverable_def)
  with wf show ?thesis by (simp add: quiet_def il)
qed

lemma quiet_raise: "quiet s \<Longrightarrow> quiet (fst (intc_raise src lv s))"
proof -
  assume "quiet s"
  then have "intc_wf (fst (intc_raise src lv s))" by (simp add: quiet_def)
  moreover have "poll_dirty (fst (intc_raise src lv s))" by (simp add: intc_raise_def try_deliver_fst Let_def)
  ultimately show ?thesis by (simp add: quiet_def)
qed

lemma quiet_start: "quiet (intc_reset s)" "quiet intc_attached"
  by (simp_all add: quiet_def intc_reset_def intc_attached_def intc_wf_def)

lemma quiet_step: "intc_step s s' \<Longrightarrow> quiet s \<Longrightarrow> quiet s'"
  by (induction rule: intc_step.induct)
    (blast intro: quiet_start quiet_raise quiet_io_byte quiet_io_half quiet_il quiet_poll_none quiet_poll_taken)+

lemma quiet_reach: "intc_reach s \<Longrightarrow> quiet s"
  by (induction rule: intc_reach.induct) (blast intro: quiet_step quiet_start)+

text \<open>
  C10: No pending interrupt is forgotten while every offer is taken: in any history of resets,
  raises, register stores, changes of the processor's level and polls, in which the processor
  takes each interrupt a poll offers and then runs at its level, the next poll offers an
  interrupt whenever some source is flagged, enabled and above the current level. Skipping the
  scan while the poll flag is clear loses nothing.
\<close>
theorem intc_no_lost_interrupt:
  assumes "intc_reach s" "i < NUM_SOURCES" "deliverable i s"
  shows "\<exists>t l. snd (intc_poll s) = Some (t, l) \<and> poll_level i s \<le> l"
proof -
  have q: "intc_wf s" "poll_dirty s" using quiet_reach [OF assms(1)] assms(2,3) by (auto simp: quiet_def)
  show ?thesis using poll_best [OF q] assms(2,3) by (auto split: option.splits)
qed

section \<open>Concrete instances\<close>

text \<open>PORT0 at priority 5 and PORT1 at priority 2, both enabled, PORT0 raised.\<close>

definition intc_sample :: intc where
  "intc_sample = fst (intc_raise PORT0 (- 1) (intc_io_write_byte 16 0x40270 0x03
     (intc_io_write_byte 0 0x40260 0x25 intc_attached)))"

lemma intc_sample_reach: "intc_reach intc_sample"
  unfolding intc_sample_def by (intro reach_step [OF _ step_raise] reach_step [OF _ step_byte] reach_init)

lemma intc_sample_wf: "intc_wf intc_sample" "poll_dirty intc_sample"
  using quiet_reach [OF intc_sample_reach] by (simp_all add: quiet_def intc_sample_def intc_raise_def try_deliver_fst Let_def)

lemma intc_sample_poll: "snd (intc_poll intc_sample) = Some (16, 5)"
  by code_simp

lemma intc_poll_highest_witness:
  "fst (intc_poll intc_sample) = intc_sample\<lparr>poll_dirty := False\<rparr> \<and> snd (intc_poll intc_sample) = Some (16, 5)
    \<and> (\<exists>i<NUM_SOURCES. deliverable i intc_sample \<and> 16 = trap_no (src_table ! i) \<and> 5 = poll_level i intc_sample)"
  using intc_poll_highest [OF intc_sample_wf] by (auto simp: intc_sample_poll)

lemma intc_raise_delivers_witness:
  "level_override (fst (intc_raise PORT1 6 intc_sample)) 1 = 6 \<and> snd (intc_raise PORT1 6 intc_sample) = Some (17, 6)"
proof -
  have i: "src_index PORT1 = 1" by code_simp
  have "low3 6 = 6" "ien_set 1 intc_sample" "trap_no (src_table ! 1) = 17" by code_simp+
  then show ?thesis
    using intc_raise_delivers [of PORT1 6 intc_sample "fst (intc_raise PORT1 6 intc_sample)"
        "snd (intc_raise PORT1 6 intc_sample)" 1]
    by (simp add: i)
qed

lemma intc_acknowledge_witness:
  "regs (intc_io_write_byte 32 0x40280 0 intc_sample) 0 = 0x25 \<and>
   poll_dirty (intc_io_write_byte 32 0x40280 0 intc_sample)"
proof -
  have "regs intc_sample 0 = 0x25" by code_simp
  then show ?thesis using intc_acknowledge [where b = 32 and off = 32 and addr = "0x40280" and v = 0 and s = intc_sample] by simp
qed

lemma intc_halfword_is_two_bytes_witness:
  "intc_io_write 32 0x40280 0x0002 intc_sample =
    intc_io_write_byte 32 0x40281 0 (intc_io_write_byte 32 0x40280 0x02 intc_sample)"
  using intc_halfword_is_two_bytes [where off = 32 and addr = "0x40280" and v = 2 and s = intc_sample] by simp

lemma intc_no_lost_interrupt_witness:
  "\<exists>t l. snd (intc_poll intc_sample) = Some (t, l) \<and> poll_level 0 intc_sample \<le> l"
proof -
  have "isr_set 0 intc_sample" "ien_set 0 intc_sample" "current_il intc_sample = 0" "poll_level 0 intc_sample = 5"
    by code_simp+
  then show ?thesis by (intro intc_no_lost_interrupt [OF intc_sample_reach]) (simp_all add: deliverable_def)
qed

end
