(* ===== verification/Ports.thy ===== *)
theory Ports
  imports Prelude
begin

text \<open>
  I/O ports: one registration of a peripheral with the bus (\<^verbatim>\<open>IoHandler\<close> of
  \<^verbatim>\<open>src/core/bus.hpp\<close>) over the members of the peripheral, and the contract \<open>byte_pair\<close> of a
  halfword that holds two independent byte registers, with what it gives a program that stores
  and loads bytes and halfwords.
\<close>

section \<open>I/O ports of a peripheral\<close>

text \<open>
  One registration \<open>bus.register_io(base, {read, write, write_byte})\<close> of a peripheral whose
  members are \<open>'s\<close>. A handler sees the offset-normalised address. What it calls outside
  the peripheral (a callback, another component) is a list of events \<open>'e\<close> the caller of
  the port performs, in order, after the members have been stored.
\<close>

record ('s, 'e) port =
  port_base :: u32
  port_rd :: "'s \<Rightarrow> u16"
  port_wr :: "u32 \<Rightarrow> u16 \<Rightarrow> 's \<Rightarrow> 's \<times> 'e list"
  port_wb :: "(u32 \<Rightarrow> u8 \<Rightarrow> 's \<Rightarrow> 's \<times> 'e list) option"

definition silent :: "'s \<Rightarrow> 's \<times> 'e list" where "silent s = (s, [])"

text \<open>A handler without side effects outside the members; a byte-precise one; an absorbing one.\<close>

definition plain_port :: "u32 \<Rightarrow> ('s \<Rightarrow> u16) \<Rightarrow> (u32 \<Rightarrow> u16 \<Rightarrow> 's \<Rightarrow> 's) \<Rightarrow> ('s, 'e) port" where
  "plain_port b r w = \<lparr> port_base = b, port_rd = r, port_wr = (\<lambda>a v s. silent (w a v s)), port_wb = None \<rparr>"

definition byte_port ::
  "u32 \<Rightarrow> ('s \<Rightarrow> u16) \<Rightarrow> (u32 \<Rightarrow> u16 \<Rightarrow> 's \<Rightarrow> 's) \<Rightarrow> (u32 \<Rightarrow> u8 \<Rightarrow> 's \<Rightarrow> 's) \<Rightarrow> ('s, 'e) port" where
  "byte_port b r w wb = \<lparr> port_base = b, port_rd = r, port_wr = (\<lambda>a v s. silent (w a v s)),
     port_wb = Some (\<lambda>a v s. silent (wb a v s)) \<rparr>"

text \<open>\<open>lo | (hi << 8)\<close>, and the two casts \<open>uint8_t(v)\<close> and \<open>uint8_t(v >> 8)\<close>.\<close>

definition join8 :: "u8 \<Rightarrow> u8 \<Rightarrow> u16" where "join8 lo hi = ucast lo OR push_bit 8 (ucast hi)"
definition lo8 :: "u16 \<Rightarrow> u8" where "lo8 v = ucast v"
definition hi8 :: "u16 \<Rightarrow> u8" where "hi8 v = ucast (drop_bit 8 v)"
definition odd_addr :: "u32 \<Rightarrow> bool" where "odd_addr a \<longleftrightarrow> a AND 1 \<noteq> 0"

lemma join8_parts [simp]: "lo8 (join8 a b) = a" "hi8 (join8 a b) = b"
proof -
  show "lo8 (join8 a b) = a"
    by (rule bit_word_eqI) (auto simp: lo8_def join8_def bit_simps)
  show "hi8 (join8 a b) = b"
    by (rule bit_word_eqI) (auto simp: hi8_def join8_def bit_simps dest: bit_imp_le_length)
qed

lemma join8_split [simp]: "join8 (lo8 v) (hi8 v) = v"
  by (simp add: join8_def lo8_def hi8_def join16_split)

text \<open>How the bus performs a byte access through a port (\<open>read8\<close> and \<open>write8\<close> on I/O).\<close>

definition port_load8 :: "('s, 'e) port \<Rightarrow> u32 \<Rightarrow> 's \<Rightarrow> u8" where
  "port_load8 p a s = (if odd_addr a then hi8 (port_rd p s) else lo8 (port_rd p s))"

definition port_store8 :: "('s, 'e) port \<Rightarrow> u32 \<Rightarrow> u8 \<Rightarrow> 's \<Rightarrow> 's \<times> 'e list" where
  "port_store8 p a v s =
    (case port_wb p of Some wb \<Rightarrow> wb a v s | None \<Rightarrow> port_wr p a (ucast v) s)"

lemma odd_addr_bit: "odd_addr a = bit a 0"
  by (simp add: odd_addr_def and_one_eq mod_2_eq_odd bit_0)

lemma odd_addr_succ [simp]: "odd_addr (a + 1) = (\<not> odd_addr a)"
  by (simp add: odd_addr_bit bit_0)

section \<open>The contract of a pair of byte registers\<close>

text \<open>
  Many halfwords of the I/O area hold two independent byte registers. The contract: the
  halfword reads as the two bytes, a byte store to one of the two addresses changes that byte
  only, a halfword store changes both, and \<open>frame\<close>, whatever else the members hold, stays.
\<close>

locale byte_pair =
  fixes p :: "('s, 'e) port"
    and lo :: "'s \<Rightarrow> u8"
    and hi :: "'s \<Rightarrow> u8"
    and frame :: "'s \<Rightarrow> 'f"
  assumes even_base: "\<not> odd_addr (port_base p)"
    and reads: "port_rd p s = join8 (lo s) (hi s)"
    and byte_lo: "s' = fst (port_store8 p (port_base p) v s) \<Longrightarrow> lo s' = v \<and> hi s' = hi s \<and> frame s' = frame s"
    and byte_hi: "s' = fst (port_store8 p (port_base p + 1) v s) \<Longrightarrow> hi s' = v \<and> lo s' = lo s \<and> frame s' = frame s"
    and half: "s' = fst (port_wr p (port_base p) x s) \<Longrightarrow> lo s' = lo8 x \<and> hi s' = hi8 x \<and> frame s' = frame s"
begin

lemma load_lo: "port_load8 p (port_base p) s = lo s"
  and load_hi: "port_load8 p (port_base p + 1) s = hi s"
  using even_base by (simp_all add: port_load8_def reads)

lemma read_after_write: "port_rd p (fst (port_wr p (port_base p) x s)) = x"
  using half [of _ x s] by (simp add: reads)

lemma half_is_bytes:
  "port_rd p (fst (port_wr p (port_base p) x s)) =
    port_rd p (fst (port_store8 p (port_base p + 1) (hi8 x) (fst (port_store8 p (port_base p) (lo8 x) s))))"
  unfolding read_after_write using byte_lo [OF refl, of "lo8 x" s] byte_hi [OF refl, of "hi8 x"]
  by (simp add: reads)

end

text \<open>What the contract gives, as one predicate on a port.\<close>

definition byte_precise :: "('s, 'e) port \<Rightarrow> ('s \<Rightarrow> 'f) \<Rightarrow> bool" where
  "byte_precise p frame \<longleftrightarrow>
    (let lo = port_base p; hi = port_base p + 1 in
     (\<forall>v s. port_load8 p lo (fst (port_store8 p lo v s)) = v \<and>
            port_load8 p hi (fst (port_store8 p lo v s)) = port_load8 p hi s \<and>
            port_load8 p hi (fst (port_store8 p hi v s)) = v \<and>
            port_load8 p lo (fst (port_store8 p hi v s)) = port_load8 p lo s \<and>
            frame (fst (port_store8 p lo v s)) = frame s \<and>
            frame (fst (port_store8 p hi v s)) = frame s) \<and>
     (\<forall>x s. port_rd p (fst (port_wr p lo x s)) = x \<and>
            frame (fst (port_wr p lo x s)) = frame s))"

context byte_pair begin

lemma precise: "byte_precise p frame"
  unfolding byte_precise_def Let_def load_lo load_hi read_after_write
  using byte_lo [OF refl] byte_hi [OF refl] half [OF refl] by auto

end

lemma byte_pair_rule:
  fixes lo hi :: "'s \<Rightarrow> u8"
  assumes "\<not> odd_addr (port_base p)" "port_wb p \<noteq> None" "\<And>s. port_rd p s = join8 (lo s) (hi s)"
    "\<And>a v s s'. s' = fst (port_wr p a v s) \<Longrightarrow> lo s' = lo8 v \<and> hi s' = hi8 v \<and> frame s' = frame s"
    "\<And>a v s s'. odd_addr a \<Longrightarrow> s' = fst (the (port_wb p) a v s) \<Longrightarrow> hi s' = v \<and> lo s' = lo s \<and> frame s' = frame s"
    "\<And>a v s s'. \<not> odd_addr a \<Longrightarrow> s' = fst (the (port_wb p) a v s) \<Longrightarrow> lo s' = v \<and> hi s' = hi s \<and> frame s' = frame s"
  shows "byte_pair p lo hi frame"
proof
  have o: "odd_addr (port_base p + 1)" using assms(1) by simp
  show "hi s' = v \<and> lo s' = lo s \<and> frame s' = frame s" if "s' = fst (port_store8 p (port_base p + 1) v s)" for s' v s
    using assms(5) [OF o] assms(2) that by (auto simp: port_store8_def)
  show "lo s' = v \<and> hi s' = hi s \<and> frame s' = frame s" if "s' = fst (port_store8 p (port_base p) v s)" for s' v s
    using assms(6) [OF assms(1)] assms(2) that by (auto simp: port_store8_def)
qed (use assms(1,3,4) in blast)+

lemma byte_pair_intro:
  fixes lo hi :: "'s \<Rightarrow> u8"
  assumes "\<not> odd_addr b" "\<And>s. r s = join8 (lo s) (hi s)"
    "\<And>a v s. lo (w a v s) = lo8 v \<and> hi (w a v s) = hi8 v \<and> frame (w a v s) = frame s"
    "\<And>a v s. odd_addr a \<Longrightarrow> hi (wb a v s) = v \<and> lo (wb a v s) = lo s \<and> frame (wb a v s) = frame s"
    "\<And>a v s. \<not> odd_addr a \<Longrightarrow> lo (wb a v s) = v \<and> hi (wb a v s) = hi s \<and> frame (wb a v s) = frame s"
  shows "byte_pair (byte_port b r w wb) lo hi frame"
  by (rule byte_pair_rule) (use assms in \<open>simp_all add: byte_port_def silent_def\<close>)

end
