(* ===== verification/ClkCtl.thy ===== *)
theory ClkCtl
  imports Ports
begin

text \<open>
  The clock controller of \<^verbatim>\<open>src/soc/peripheral_clkctl.{hpp,cpp}\<close>: divisor tables, CPU and timer
  clocks, register writes with their change notification, and the ports. The lemmas bound every
  clock and the cycles per timer count, show that frequency changes are announced, and interpret
  the byte-register contract on its two-register halfwords.
\<close>

section \<open>State and clock selection\<close>

abbreviation (input) CPU_CLOCK_FAST :: u32 where "CPU_CLOCK_FAST \<equiv> 48000000"
abbreviation (input) CPU_CLOCK_NORM :: u32 where "CPU_CLOCK_NORM \<equiv> 24000000"

definition TS_DIV_T16 :: "u32 list" where "TS_DIV_T16 = [1, 2, 4, 16, 64, 256, 1024, 4096]"
definition TS_DIV_T8_CH0 :: "u32 list" where "TS_DIV_T8_CH0 = [1, 2, 4, 8, 16, 64, 128, 256]"
definition TS_DIV_T8_CH1 :: "u32 list" where "TS_DIV_T8_CH1 = [32, 64, 128, 256, 512, 1024, 2048, 4096]"
definition TS_DIV_T8_CH2 :: "u32 list" where "TS_DIV_T8_CH2 = [2, 4, 8, 16, 32, 64, 2048, 4096]"

definition t8_div_table :: "nat \<Rightarrow> u32 list" where
  "t8_div_table ch = (if ch = 1 then TS_DIV_T8_CH1 else if ch = 2 \<or> ch = 4 then TS_DIV_T8_CH2 else TS_DIV_T8_CH0)"

record clkctl =
  config_gen :: u32
  clksel_t8_03 :: u8
  clksel_t8_45 :: u8
  clkctl_t16 :: "nat \<Rightarrow> u8"
  clkctl_t8 :: "nat \<Rightarrow> u8"
  pwrctl :: u8
  p07_slow :: bool

definition clk_init :: clkctl where
  "clk_init = \<lparr> config_gen = 0, clksel_t8_03 = 0, clksel_t8_45 = 0, clkctl_t16 = (\<lambda>_. 0),
     clkctl_t8 = (\<lambda>_. 0), pwrctl = 0, p07_slow = True \<rparr>"

definition clk_reset :: "clkctl \<Rightarrow> clkctl" where
  "clk_reset c = c\<lparr>clksel_t8_03 := 0, clksel_t8_45 := 0, clkctl_t16 := (\<lambda>_. 0), clkctl_t8 := (\<lambda>_. 0),
     pwrctl := 0, p07_slow := True, config_gen := config_gen c + 1\<rparr>"

definition clock_from_clkctl :: "u8 \<Rightarrow> bool \<Rightarrow> u32 \<Rightarrow> u32 list \<Rightarrow> u32" where
  "clock_from_clkctl ctl use_b base div_table =
    (let ts = (if use_b then drop_bit 4 ctl AND 0x07 else ctl AND 0x07);
         ton = (if use_b then drop_bit 7 ctl AND 0x01 else drop_bit 3 ctl AND 0x01)
     in if ton = 0 then 0 else base div (div_table ! unat ts))"

definition osc3_hz :: "clkctl \<Rightarrow> u32" where
  "osc3_hz c = (if p07_slow c then CPU_CLOCK_NORM else CPU_CLOCK_FAST)"

definition cpu_clock_hz :: "clkctl \<Rightarrow> u32" where
  "cpu_clock_hz c =
    (let osc3 = (if p07_slow c then CPU_CLOCK_NORM else CPU_CLOCK_FAST);
         clkdt = drop_bit 6 (pwrctl c) AND 0x03
     in drop_bit (unat clkdt) osc3)"

definition t16_clock_hz :: "clkctl \<Rightarrow> nat \<Rightarrow> nat \<Rightarrow> u32" where
  "t16_clock_hz c ch cksl = clock_from_clkctl (clkctl_t16 c ch) (cksl \<noteq> 0) (osc3_hz c) TS_DIV_T16"

definition t8_clock_hz :: "clkctl \<Rightarrow> nat \<Rightarrow> u32" where
  "t8_clock_hz c ch =
    (let bypass = (if ch < 4 then bit (clksel_t8_03 c) ch else bit (clksel_t8_45 c) (ch - 4))
     in if bypass then osc3_hz c
        else clock_from_clkctl (clkctl_t8 c (ch div 2)) (odd ch) (osc3_hz c) (t8_div_table ch))"

section \<open>Register writes\<close>

text \<open>A call of \<open>on_clock_change\<close> is the event of the new frequency.\<close>

definition clk_write_single :: "u32 \<Rightarrow> u8 \<Rightarrow> clkctl \<Rightarrow> clkctl \<times> u32 list" where
  "clk_write_single addr v c0 =
    (let c = c0\<lparr>config_gen := config_gen c0 + 1\<rparr>
     in if addr = 0x040140 then (c\<lparr>clksel_t8_45 := v\<rparr>, [])
        else if addr = 0x040145 then (c\<lparr>clkctl_t8 := (clkctl_t8 c)(2 := v)\<rparr>, [])
        else if addr = 0x040146 then (c\<lparr>clksel_t8_03 := v\<rparr>, [])
        else if addr = 0x040147 then (c\<lparr>clkctl_t16 := (clkctl_t16 c)(0 := v)\<rparr>, [])
        else if addr = 0x040148 then (c\<lparr>clkctl_t16 := (clkctl_t16 c)(1 := v)\<rparr>, [])
        else if addr = 0x040149 then (c\<lparr>clkctl_t16 := (clkctl_t16 c)(2 := v)\<rparr>, [])
        else if addr = 0x04014A then (c\<lparr>clkctl_t16 := (clkctl_t16 c)(3 := v)\<rparr>, [])
        else if addr = 0x04014B then (c\<lparr>clkctl_t16 := (clkctl_t16 c)(4 := v)\<rparr>, [])
        else if addr = 0x04014C then (c\<lparr>clkctl_t16 := (clkctl_t16 c)(5 := v)\<rparr>, [])
        else if addr = 0x04014D then (c\<lparr>clkctl_t8 := (clkctl_t8 c)(0 := v)\<rparr>, [])
        else if addr = 0x04014E then (c\<lparr>clkctl_t8 := (clkctl_t8 c)(1 := v)\<rparr>, [])
        else if addr = 0x040180 then
          (let old = pwrctl c; c1 = c\<lparr>pwrctl := v\<rparr>
           in (c1, if (old XOR v) AND 0xC4 \<noteq> 0 then [cpu_clock_hz c1] else []))
        else (c, []))"

definition set_p07 :: "bool \<Rightarrow> clkctl \<Rightarrow> clkctl \<times> u32 list" where
  "set_p07 slow c =
    (if p07_slow c = slow then (c, [])
     else let c1 = c\<lparr>p07_slow := slow, config_gen := config_gen c + 1\<rparr> in (c1, [cpu_clock_hz c1]))"

definition clk_write_pair :: "u32 \<Rightarrow> u16 \<Rightarrow> clkctl \<Rightarrow> clkctl \<times> u32 list" where
  "clk_write_pair a v c =
    (case clk_write_single a (lo8 v) c of (c1, e1) \<Rightarrow>
     case clk_write_single (a + 1) (hi8 v) c1 of (c2, e2) \<Rightarrow> (c2, e1 @ e2))"

definition clk_pair_port :: "u32 \<Rightarrow> (clkctl \<Rightarrow> u16) \<Rightarrow> (clkctl, u32) port" where
  "clk_pair_port b r = \<lparr> port_base = b, port_rd = r, port_wr = (\<lambda>_ v c. clk_write_pair b v c),
     port_wb = Some (\<lambda>a v c. clk_write_single a v c) \<rparr>"

definition clk_even_port :: "u32 \<Rightarrow> (clkctl \<Rightarrow> u16) \<Rightarrow> (clkctl, u32) port" where
  "clk_even_port b r = \<lparr> port_base = b, port_rd = r,
     port_wr = (\<lambda>a v c. if odd_addr a then silent c else clk_write_single b (lo8 v) c), port_wb = None \<rparr>"

definition clk_ports :: "(clkctl, u32) port list" where
  "clk_ports = [
     clk_even_port 0x040140 (\<lambda>c. ucast (clksel_t8_45 c)),
     \<lparr> port_base = 0x040144, port_rd = (\<lambda>c. push_bit 8 (ucast (clkctl_t8 c 2))),
       port_wr = (\<lambda>_ v c. clk_write_single 0x040145 (hi8 v) c),
       port_wb = Some (\<lambda>a v c. if odd_addr a then clk_write_single 0x040145 v c else silent c) \<rparr>,
     clk_pair_port 0x040146 (\<lambda>c. join8 (clksel_t8_03 c) (clkctl_t16 c 0)),
     clk_pair_port 0x040148 (\<lambda>c. join8 (clkctl_t16 c 1) (clkctl_t16 c 2)),
     clk_pair_port 0x04014A (\<lambda>c. join8 (clkctl_t16 c 3) (clkctl_t16 c 4)),
     clk_pair_port 0x04014C (\<lambda>c. join8 (clkctl_t16 c 5) (clkctl_t8 c 0)),
     clk_even_port 0x04014E (\<lambda>c. ucast (clkctl_t8 c 1)),
     clk_even_port 0x040180 (\<lambda>c. ucast (pwrctl c))]"

section \<open>Clock facts\<close>

lemma u8_field: "unat ((x :: u8) AND 7) < 8" "unat ((x :: u8) AND 3) < 4" "unat ((x :: u8) AND 1) < 2"
proof -
  have m: "unat (x AND mask k) < 2 ^ k" if "k < 8" for k
    using that by (simp add: take_bit_eq_mask [symmetric] unsigned_take_bit_eq)
  have "(7 :: u8) = mask 3" "(3 :: u8) = mask 2" "(1 :: u8) = mask 1" by (simp_all add: mask_eq_exp_minus_1)
  then show "unat (x AND 7) < 8" "unat (x AND 3) < 4" "unat (x AND 1) < 2"
    using m [of 3] m [of 2] m [of 1] by simp_all
qed

text \<open>
  Every table entry divides both oscillator frequencies down to a clock between 5859 Hz and the
  oscillator's, so a clock that is not stopped is never zero.
\<close>

lemma div_tables_pos:
  "list_all (\<lambda>t. length t = 8 \<and> list_all (\<lambda>d. 0 < d \<and> d \<le> (4096 :: u32)) t)
    [TS_DIV_T16, TS_DIV_T8_CH0, TS_DIV_T8_CH1, TS_DIV_T8_CH2]"
  by code_simp

definition div_table :: "u32 list \<Rightarrow> bool" where
  "div_table t \<longleftrightarrow> length t = 8 \<and> (\<forall>k<8. 0 < t ! k \<and> t ! k \<le> 4096)"

lemma div_table_iff: "div_table t = (length t = 8 \<and> list_all (\<lambda>d. 0 < d \<and> d \<le> 4096) t)"
  by (auto simp: div_table_def list_all_length)

lemma div_tables [simp]: "div_table TS_DIV_T16" "div_table (t8_div_table ch)"
  using div_tables_pos by (simp_all add: div_table_iff t8_div_table_def)

lemma osc3_cases: "osc3_hz c = 24000000 \<or> osc3_hz c = 48000000"
  by (simp add: osc3_hz_def)

lemma clock_bounds:
  assumes t: "div_table t" and b: "base = 24000000 \<or> base = 48000000"
  shows "clock_from_clkctl ctl use_b base t = 0
    \<or> (5859 \<le> unat (clock_from_clkctl ctl use_b base t) \<and> unat (clock_from_clkctl ctl use_b base t) \<le> unat base)"
proof -
  define ts where "ts = unat (if use_b then drop_bit 4 ctl AND 7 else ctl AND 7)"
  define d where "d = unat (t ! ts)"
  have "ts < 8" using u8_field(1) by (auto simp: ts_def)
  then have "0 < t ! ts" "t ! ts \<le> 4096" using t by (auto simp: div_table_def)
  then have d: "0 < d" "d \<le> 4096" by (auto simp: d_def word_less_nat_alt word_le_nat_alt)
  have "5859 \<le> unat base div d"
  proof -
    have "24000000 \<le> unat base" using b by auto
    then have "24000000 div 4096 \<le> unat base div d" using d
      by (meson div_le_mono div_le_mono2 le_trans)
    then show ?thesis by simp
  qed
  moreover have "unat base div d \<le> unat base" by simp
  moreover have "unat (base div t ! ts) = unat base div d" by (simp add: d_def unat_div)
  ultimately show ?thesis by (simp add: clock_from_clkctl_def Let_def ts_def)
qed

section \<open>Cycles per timer count\<close>

text \<open>The computation both timer classes cache: \<open>hz == 0 ? 0 : (cpu_clock_hz() + hz - 1) / hz\<close>.\<close>

definition cycles_per_hz :: "u32 \<Rightarrow> clkctl \<Rightarrow> u64" where
  "cycles_per_hz hz c = (if hz = 0 then 0 else ucast ((cpu_clock_hz c + hz - 1) div hz))"

lemma u32_drop: "unat (drop_bit k (w :: u32)) = unat w div 2 ^ k"
proof -
  have "unat (drop_bit k w) = drop_bit k (take_bit 32 (unat w))"
    by (simp only: unsigned_drop_bit_eq) simp
  then show ?thesis using u32_less [of w] by (simp only: take_bit_nat_eq_self drop_bit_eq_div)
qed

lemma u64_of_u32: "unat (ucast (w :: u32) :: u64) = unat w"
  using u32_less [of w] by (simp add: unsigned_ucast_eq take_bit_nat_eq_self)

lemma cpu_clock_le: "unat (cpu_clock_hz c) \<le> 48000000" "0 < unat (cpu_clock_hz c)"
proof -
  define k where "k = unat (drop_bit 6 (pwrctl c) AND 3)"
  have "k < 4" unfolding k_def by (rule u8_field)
  then consider "k = 0" | "k = 1" | "k = 2" | "k = 3" by linarith
  then show "unat (cpu_clock_hz c) \<le> 48000000" "0 < unat (cpu_clock_hz c)"
    unfolding cpu_clock_hz_def Let_def k_def [symmetric]
    by (cases; simp add: u32_drop)+
qed

definition ceil_div :: "nat \<Rightarrow> nat \<Rightarrow> nat" where "ceil_div a b = (a + b - 1) div b"

lemma cpu_clock_ge: "256 \<le> unat (cpu_clock_hz c)"
proof -
  define k where "k = unat (drop_bit 6 (pwrctl c) AND 3)"
  have "k < 4" unfolding k_def by (rule u8_field)
  then consider "k = 0" | "k = 1" | "k = 2" | "k = 3" by linarith
  then show ?thesis
    unfolding cpu_clock_hz_def Let_def k_def [symmetric] by (cases; simp add: u32_drop)
qed

lemma ceil_div_props:
  assumes "0 < a" "0 < b"
  shows "0 < ceil_div a b" "a \<le> ceil_div a b * b" "(ceil_div a b - 1) * b < a"
proof -
  define q where "q = (a - 1) div b"
  have "a + b - 1 = (a - 1) + b" using assms by simp
  then have q: "ceil_div a b = q + 1" using assms by (simp only: ceil_div_def q_def div_add_self2)
  define r where "r = (a - 1) mod b"
  have "r < b" "q * b + r = a - 1" using assms by (simp_all add: q_def r_def)
  then show "0 < ceil_div a b" "a \<le> ceil_div a b * b" "(ceil_div a b - 1) * b < a"
    using assms by (simp_all add: q)
qed

lemma cycles_per_hz_eq:
  assumes "5859 \<le> unat hz" "unat hz \<le> 48000000"
  shows "unat (cycles_per_hz hz c) = ceil_div (unat (cpu_clock_hz c)) (unat hz)"
proof -
  have "unat (cpu_clock_hz c + hz) = unat (cpu_clock_hz c) + unat hz"
    using assms cpu_clock_le [of c] by (simp add: u32_add)
  then have "unat (cpu_clock_hz c + hz - 1) = unat (cpu_clock_hz c) + unat hz - 1"
    using assms cpu_clock_le [of c] by (simp add: u32_sub)
  moreover have "hz \<noteq> 0" using assms by auto
  ultimately show ?thesis
    by (simp add: cycles_per_hz_def ceil_div_def u64_of_u32 unat_div)
qed

lemma cycles_per_hz_bound:
  assumes "hz = 0 \<or> (5859 \<le> unat hz \<and> unat hz \<le> 48000000)"
  shows "unat (cycles_per_hz hz c) \<le> 8193" "(cycles_per_hz hz c = 0) = (hz = 0)"
proof -
  have "unat (cycles_per_hz hz c) \<le> 8193 \<and> (0 < unat (cycles_per_hz hz c)) = (hz \<noteq> 0)"
  proof (cases "hz = 0")
    case False
    with assms have h: "5859 \<le> unat hz" "unat hz \<le> 48000000" by auto
    let ?q = "ceil_div (unat (cpu_clock_hz c)) (unat hz)"
    have p: "0 < ?q" "(?q - 1) * unat hz < unat (cpu_clock_hz c)"
      using h cpu_clock_le [of c] ceil_div_props [of "unat (cpu_clock_hz c)" "unat hz"] by auto
    have "(?q - 1) * 5859 \<le> (?q - 1) * unat hz" using h by simp
    with p cpu_clock_le [of c] have "(?q - 1) * 5859 < 48000000" by linarith
    then show ?thesis using False p by (simp add: cycles_per_hz_eq [OF h])
  qed (simp add: cycles_per_hz_def)
  then show "unat (cycles_per_hz hz c) \<le> 8193" "(cycles_per_hz hz c = 0) = (hz = 0)"
    by (simp, metis unat_eq_zero neq0_conv)
qed

lemma timer_clock_range:
  "t16_clock_hz c ch k = 0 \<or> (5859 \<le> unat (t16_clock_hz c ch k) \<and> unat (t16_clock_hz c ch k) \<le> 48000000)"
  "t8_clock_hz c ch = 0 \<or> (5859 \<le> unat (t8_clock_hz c ch) \<and> unat (t8_clock_hz c ch) \<le> 48000000)"
proof -
  have o: "5859 \<le> unat (osc3_hz c)" "unat (osc3_hz c) \<le> 48000000" using osc3_cases [of c] by auto
  note b = clock_bounds [OF _ osc3_cases [of c]]
  show "t16_clock_hz c ch k = 0 \<or> (5859 \<le> unat (t16_clock_hz c ch k) \<and> unat (t16_clock_hz c ch k) \<le> 48000000)"
    using b [of TS_DIV_T16 "clkctl_t16 c ch" "k \<noteq> 0"] o by (auto simp: t16_clock_hz_def)
  show "t8_clock_hz c ch = 0 \<or> (5859 \<le> unat (t8_clock_hz c ch) \<and> unat (t8_clock_hz c ch) \<le> 48000000)"
    using b [of "t8_div_table ch" "clkctl_t8 c (ch div 2)" "odd ch"] o by (auto simp: t8_clock_hz_def Let_def)
qed

text \<open>
  Whatever the clock registers hold, the cycles per count that the timers compute from a
  channel's clock are 0 exactly when that clock is stopped and otherwise the CPU frequency
  divided by the channel's, rounded up, between 1 and 8193: the 32-bit sum in the rounding
  cannot wrap and no register setting divides by zero.
\<close>
theorem clk_cycles_per_count_bounds:
  assumes "hz \<in> {t8_clock_hz c ch, t16_clock_hz c ch k}"
  shows "unat (cycles_per_hz hz c) \<le> 8193 \<and> (cycles_per_hz hz c = 0) = (hz = 0) \<and>
    (hz \<noteq> 0 \<longrightarrow> unat (cycles_per_hz hz c) = ceil_div (unat (cpu_clock_hz c)) (unat hz))"
proof -
  have r: "hz = 0 \<or> (5859 \<le> unat hz \<and> unat hz \<le> 48000000)"
    using assms timer_clock_range [of c ch] by auto
  show ?thesis using cycles_per_hz_bound [OF r] cycles_per_hz_eq [of hz c] r by auto
qed

lemma clk_cycles_per_count_bounds_witness:
  "unat (cycles_per_hz (t8_clock_hz (clk_init\<lparr>clksel_t8_03 := 1\<rparr>) 0) (clk_init\<lparr>clksel_t8_03 := 1\<rparr>)) \<le> 8193"
  using clk_cycles_per_count_bounds
    [of "t8_clock_hz (clk_init\<lparr>clksel_t8_03 := 1\<rparr>) 0" "clk_init\<lparr>clksel_t8_03 := 1\<rparr>" 0 0] by simp

section \<open>Notification and cache invalidation\<close>

text \<open>The operations of the controller: a handler of one of its ports, the P07 pin, a reset.\<close>

inductive clk_op :: "clkctl \<Rightarrow> clkctl \<Rightarrow> u32 list \<Rightarrow> bool" where
  clk_half: "p \<in> set clk_ports \<Longrightarrow> port_wr p a v c = (c', e) \<Longrightarrow> clk_op c c' e"
| clk_byte: "p \<in> set clk_ports \<Longrightarrow> port_store8 p a w c = (c', e) \<Longrightarrow> clk_op c c' e"
| clk_p07: "set_p07 slow c = (c', e) \<Longrightarrow> clk_op c c' e"

text \<open>What a timer or the runner can observe of the configuration.\<close>

definition clk_config :: "clkctl \<Rightarrow> clkctl" where "clk_config c = c\<lparr>config_gen := 0\<rparr>"

definition announced :: "clkctl \<Rightarrow> clkctl \<Rightarrow> u32 list \<Rightarrow> bool" where
  "announced c c' e \<longleftrightarrow>
    (cpu_clock_hz c' \<noteq> cpu_clock_hz c \<longrightarrow> e \<noteq> [] \<and> last e = cpu_clock_hz c') \<and>
    (e \<noteq> [] \<longrightarrow> last e = cpu_clock_hz c') \<and>
    (clk_config c' \<noteq> clk_config c \<longrightarrow> config_gen c' \<noteq> config_gen c)"

lemma pwr_field: "(old XOR v) AND 0xC4 = 0 \<Longrightarrow> drop_bit 6 (v :: u8) AND 3 = drop_bit 6 old AND 3"
proof -
  assume z: "(old XOR v) AND 0xC4 = 0"
  have "\<not> bit ((old XOR v) AND 0xC4) 6" "\<not> bit ((old XOR v) AND 0xC4) 7" by (simp_all only: z bit_0_eq) simp_all
  moreover have "bit (0xC4 :: u8) 6" "bit (0xC4 :: u8) 7" by simp_all
  ultimately have b: "bit v 6 = bit old 6" "bit v 7 = bit old 7"
    by (simp_all only: bit_and_iff bit_xor_iff) blast+
  have "(3 :: u8) = mask 2" by (simp add: mask_eq_exp_minus_1)
  show ?thesis unfolding \<open>3 = mask 2\<close>
    by (intro bit_word_eqI) (auto simp: bit_simps less_2_cases_iff b)
qed

lemma gen_succ: "(x :: u32) + 1 \<noteq> x" "(x :: u32) + 2 \<noteq> x" "(x :: u32) + 1 + 1 \<noteq> x"
  by simp_all

lemma write_single_gen: "config_gen (fst (clk_write_single a v c)) = config_gen c + 1"
  by (simp add: clk_write_single_def Let_def)

lemma write_single_hz: "a \<noteq> 0x040180 \<Longrightarrow> cpu_clock_hz (fst (clk_write_single a v c)) = cpu_clock_hz c"
  "a \<noteq> 0x040180 \<Longrightarrow> snd (clk_write_single a v c) = []"
  by (simp_all add: clk_write_single_def Let_def cpu_clock_hz_def)

lemma write_pwr:
  "clk_write_single 0x040180 v c = (c\<lparr>config_gen := config_gen c + 1, pwrctl := v\<rparr>,
     if (pwrctl c XOR v) AND 0xC4 \<noteq> 0 then [cpu_clock_hz (c\<lparr>config_gen := config_gen c + 1, pwrctl := v\<rparr>)] else [])"
  by (simp add: clk_write_single_def Let_def)

lemma announced_silent: "announced c c []" by (simp add: announced_def)

lemma announced_single: "announced c (fst (clk_write_single a v c)) (snd (clk_write_single a v c))"
proof (cases "a = 0x040180")
  case True
  then show ?thesis
    using pwr_field [of "pwrctl c" v]
    by (simp only: True write_pwr) (auto simp: announced_def cpu_clock_hz_def Let_def gen_succ)
next
  case False
  then show ?thesis by (simp add: announced_def write_single_hz write_single_gen gen_succ)
qed

lemma announced_pair:
  "a \<noteq> 0x040180 \<Longrightarrow> a + 1 \<noteq> 0x040180 \<Longrightarrow> announced c (fst (clk_write_pair a v c)) (snd (clk_write_pair a v c))"
  by (simp add: clk_write_pair_def case_prod_beta announced_def write_single_hz write_single_gen gen_succ)

lemma announced_p07: "announced c (fst (set_p07 s c)) (snd (set_p07 s c))"
  by (auto simp: set_p07_def Let_def announced_def gen_succ)

lemma announced_ports:
  assumes "p \<in> set clk_ports"
  shows "announced c (fst (port_wr p a v c)) (snd (port_wr p a v c))"
    "announced c (fst (port_store8 p a w c)) (snd (port_store8 p a w c))"
  using assms announced_single announced_silent
  by (auto simp: clk_ports_def clk_even_port_def clk_pair_port_def port_store8_def silent_def announced_pair)

text \<open>
  No clock change goes unnoticed: for every operation on the clock controller (a halfword or
  byte store through any of its ports, or a change of the P07 pin), a change of the CPU frequency
  is announced, every announcement carries the frequency then in force, and any change of the
  configuration moves the generation counter, so the timers recompute their cached cycles.
\<close>
theorem clk_changes_announced: "clk_op c c' e \<Longrightarrow> announced c c' e"
  by (induction rule: clk_op.induct) (metis announced_ports announced_p07 fst_conv snd_conv)+

lemma clk_changes_announced_witness:
  "announced clk_init (fst (set_p07 False clk_init)) (snd (set_p07 False clk_init))"
  by (rule clk_changes_announced [OF clk_p07]) simp

section \<open>Byte-precise ports\<close>


section \<open>Byte-precise ports\<close>

interpretation clk46: byte_pair "clk_pair_port 0x040146 (\<lambda>c. join8 (clksel_t8_03 c) (clkctl_t16 c 0))"
  clksel_t8_03 "\<lambda>c. clkctl_t16 c 0"
  "\<lambda>c. (clksel_t8_45 c, (clkctl_t16 c)(0 := 0), clkctl_t8 c, pwrctl c, p07_slow c)"
  by unfold_locales (simp_all add: clk_pair_port_def port_store8_def clk_write_pair_def clk_write_single_def
      Let_def odd_addr_def)

interpretation clk48: byte_pair "clk_pair_port 0x040148 (\<lambda>c. join8 (clkctl_t16 c 1) (clkctl_t16 c 2))"
  "\<lambda>c. clkctl_t16 c 1" "\<lambda>c. clkctl_t16 c 2"
  "\<lambda>c. (clksel_t8_03 c, clksel_t8_45 c, (clkctl_t16 c)(1 := 0, 2 := 0), clkctl_t8 c, pwrctl c, p07_slow c)"
  by unfold_locales (simp_all add: clk_pair_port_def port_store8_def clk_write_pair_def clk_write_single_def
      Let_def odd_addr_def fun_upd_twist)

interpretation clk4A: byte_pair "clk_pair_port 0x04014A (\<lambda>c. join8 (clkctl_t16 c 3) (clkctl_t16 c 4))"
  "\<lambda>c. clkctl_t16 c 3" "\<lambda>c. clkctl_t16 c 4"
  "\<lambda>c. (clksel_t8_03 c, clksel_t8_45 c, (clkctl_t16 c)(3 := 0, 4 := 0), clkctl_t8 c, pwrctl c, p07_slow c)"
  by unfold_locales (simp_all add: clk_pair_port_def port_store8_def clk_write_pair_def clk_write_single_def
      Let_def odd_addr_def fun_upd_twist)

interpretation clk4C: byte_pair "clk_pair_port 0x04014C (\<lambda>c. join8 (clkctl_t16 c 5) (clkctl_t8 c 0))"
  "\<lambda>c. clkctl_t16 c 5" "\<lambda>c. clkctl_t8 c 0"
  "\<lambda>c. (clksel_t8_03 c, clksel_t8_45 c, (clkctl_t16 c)(5 := 0), (clkctl_t8 c)(0 := 0), pwrctl c, p07_slow c)"
  by unfold_locales (simp_all add: clk_pair_port_def port_store8_def clk_write_pair_def clk_write_single_def
      Let_def odd_addr_def)

end
