(* ===== verification/Timing.thy ===== *)
theory Timing
  imports ClkCtl
begin

text \<open>
  Arithmetic of 64-bit cycle numbers, and the contract \<open>paced_counter\<close> of a counter that a tick
  advances by all the counts due since the last one. A client lemma shows once that the number of
  ticks a period is cut into does not matter; the 8-bit timer, the 16-bit timer and the RTC
  prescaler interpret it.
\<close>

section \<open>Cycle arithmetic\<close>

text \<open>\<open>(cpu_cycles - next_tick_cycle_) / cpc + 1\<close>, on unsigned 64-bit cycle numbers.\<close>

definition counts_due :: "u64 \<Rightarrow> u64 \<Rightarrow> u64 \<Rightarrow> u64" where
  "counts_due next c cpc = (c - next) div cpc + 1"

definition due_nat :: "nat \<Rightarrow> nat \<Rightarrow> nat \<Rightarrow> nat" where
  "due_nat next c cpc = (c - next) div cpc + 1"

lemma u64_less: "unat (w :: u64) < 2 ^ 64"
  using unsigned_less [of w, where 'a = nat] by simp

abbreviation UINT64_MAX :: u64 where "UINT64_MAX \<equiv> 0xFFFFFFFFFFFFFFFF"

lemma u8_less: "unat (w :: u8) < 256"
  using unsigned_less [of w, where 'a = nat] by simp

lemma u8_sub_of_nat: "k \<le> unat p \<Longrightarrow> unat (p - word_of_nat k :: u8) = unat p - k"
proof -
  assume k: "k \<le> unat p"
  then have "unat (word_of_nat k :: u8) = k" using u8_less [of p] by (simp add: unat_of_nat)
  then show ?thesis using k by (simp add: unat_sub word_le_nat_alt)
qed

lemma u8_ucast64: "unat (ucast (p :: u8) :: u64) = unat p"
  using u8_less [of p] by (simp add: unsigned_ucast_eq take_bit_nat_eq_self)

lemma u8_down: "unat (ucast (w :: u64) :: u8) = unat w mod 256"
  by (simp add: unsigned_ucast_eq take_bit_eq_mod)

lemma u8_down_of_nat: "(ucast (w :: u64) :: u8) = word_of_nat (unat w)"
  by (rule unsigned_word_eqI) (simp add: u8_down unat_of_nat)

lemma u64_sub: "b \<le> a \<Longrightarrow> unat (a - b :: u64) = unat a - unat b"
  by (rule unat_sub)

lemma u64_of_nat: "c < 2 ^ 63 \<Longrightarrow> unat (word_of_nat c :: u64) = c"
  by (simp add: unat_of_nat)

lemma u64_add: "unat a + unat b < 2 ^ 64 \<Longrightarrow> unat (a + b :: u64) = unat a + unat b"
  by (simp add: unat_plus_if_size word_size)

lemma u64_mult: "unat a * unat b < 2 ^ 64 \<Longrightarrow> unat (a * b :: u64) = unat a * unat b"
  by (simp add: unat_word_ariths(2))

lemma due_nat_next:
  assumes "0 < cpc" "next \<le> c"
  shows "c < next + due_nat next c cpc * cpc" "next + due_nat next c cpc * cpc \<le> c + cpc" "due_nat next c cpc \<le> c - next + 1"
proof -
  define q where "q = (c - next) div cpc"
  define r where "r = (c - next) mod cpc"
  have "q * cpc + r = c - next" "r < cpc" using assms(1) by (simp_all add: q_def r_def)
  moreover have "q \<le> c - next" by (simp add: q_def)
  ultimately show "c < next + due_nat next c cpc * cpc" "next + due_nat next c cpc * cpc \<le> c + cpc"
      "due_nat next c cpc \<le> c - next + 1"
    using assms(2) by (simp_all add: due_nat_def q_def [symmetric])
qed

lemma counts_due_unat:
  assumes "next \<le> c" "unat c < 2 ^ 63"
  shows "unat (counts_due next c cpc) = due_nat (unat next) (unat c) (unat cpc)"
proof -
  have sub: "unat (c - next) = unat c - unat next" using assms(1) by (rule unat_sub)
  have "unat ((c - next) div cpc) \<le> unat (c - next)" by (simp add: unat_div)
  then have "unat ((c - next) div cpc) + unat (1 :: u64) < 2 ^ 64" using assms(2) sub by simp
  then show ?thesis unfolding counts_due_def due_nat_def by (simp only: u64_add) (simp add: unat_div sub)
qed

text \<open>\<open>next_tick_cycle_ += counts * cpc\<close> does not wrap while the cycle number is below \<open>2 ^ 63\<close>.\<close>

lemma next_tick_unat:
  assumes "next \<le> c" "unat c < 2 ^ 63" "cpc \<noteq> 0" "unat cpc \<le> 2 ^ 62"
  shows "unat (next + counts_due next c cpc * cpc) = unat next + due_nat (unat next) (unat c) (unat cpc) * unat cpc"
proof -
  have n: "unat next \<le> unat c" using assms(1) by (simp add: word_le_nat_alt)
  have p: "0 < unat cpc" using assms(3) by (simp add: unat_gt_0)
  have le: "unat next + due_nat (unat next) (unat c) (unat cpc) * unat cpc < 2 ^ 64"
    using due_nat_next(2) [OF p n] assms(2,4) by simp
  then have "unat (counts_due next c cpc * cpc) = due_nat (unat next) (unat c) (unat cpc) * unat cpc"
    using counts_due_unat [OF assms(1,2)] by (subst u64_mult) simp_all
  then show ?thesis using le by (subst u64_add) simp_all
qed

text \<open>Counting in two windows is counting in one.\<close>

lemma due_nat_split:
  assumes "0 < cpc" "next \<le> c1" "c1 \<le> c2" and n': "next' = next + due_nat next c1 cpc * cpc"
  shows "c2 < next' \<Longrightarrow> due_nat next c2 cpc = due_nat next c1 cpc"
    and "next' \<le> c2 \<Longrightarrow> due_nat next c2 cpc = due_nat next c1 cpc + due_nat next' c2 cpc"
proof -
  define q where "q = due_nat next c1 cpc"
  have b: "c1 < next + q * cpc" using due_nat_next(1) [OF assms(1,2)] by (simp add: q_def)
  have q1: "q = (c1 - next) div cpc + 1" by (simp add: q_def due_nat_def)
  show "due_nat next c2 cpc = due_nat next c1 cpc" if "c2 < next'"
  proof -
    have "(c2 - next) div cpc \<le> q - 1"
    proof -
      have "c2 - next < q * cpc" using that assms(2,3) by (simp add: n' q_def [symmetric])
      then have "(c2 - next) div cpc < q" using assms(1) by (simp add: less_mult_imp_div_less)
      then show ?thesis by simp
    qed
    moreover have "(c1 - next) div cpc \<le> (c2 - next) div cpc" using assms(3) by (intro div_le_mono) simp
    ultimately show ?thesis unfolding due_nat_def using q1 by simp
  qed
  show "due_nat next c2 cpc = due_nat next c1 cpc + due_nat next' c2 cpc" if "next' \<le> c2"
  proof -
    have "c2 - next = (c2 - next') + q * cpc" using that b by (simp add: n' q_def [symmetric])
    then have "(c2 - next) div cpc = (c2 - next') div cpc + q" using assms(1) by simp
    then show ?thesis by (simp add: due_nat_def q_def [symmetric]) (simp add: q_def due_nat_def)
  qed
qed

section \<open>The contract of a paced counter\<close>

text \<open>
  T8, T16 and the RTC prescaler share one scheme: a tick before the next due cycle does
  nothing; a later one performs all counts due since, each one step of the counter, and moves
  the due cycle past the present. \<open>due\<close> and \<open>period\<close> read the state, \<open>counter\<close> is what a count
  changes, \<open>count\<close> is one count and may depend on registers (\<open>frame\<close>) that a tick keeps.
\<close>

locale paced_counter =
  fixes inv :: "'s \<Rightarrow> bool"
    and due :: "'s \<Rightarrow> nat"
    and period :: "'s \<Rightarrow> nat"
    and counter :: "'s \<Rightarrow> 'c"
    and frame :: "'s \<Rightarrow> 'f"
    and count :: "'f \<Rightarrow> 'c \<Rightarrow> 'c"
    and tick :: "nat \<Rightarrow> 's \<Rightarrow> 's"
    and horizon :: nat
  assumes period_pos: "inv s \<Longrightarrow> 0 < period s"
    and early: "inv s \<Longrightarrow> c < horizon \<Longrightarrow> c < due s \<Longrightarrow> tick c s = s"
    and late: "inv s \<Longrightarrow> c < horizon \<Longrightarrow> due s \<le> c \<Longrightarrow> s' = tick c s \<Longrightarrow>
      inv s' \<and> frame s' = frame s \<and> period s' = period s \<and>
      due s' = due s + due_nat (due s) c (period s) * period s \<and>
      counter s' = (count (frame s) ^^ due_nat (due s) c (period s)) (counter s)"
begin

lemma tick_passes: "inv s \<Longrightarrow> c < horizon \<Longrightarrow> c < due (tick c s) \<and> inv (tick c s)"
proof (cases "c < due s")
  case False
  assume a: "inv s" "c < horizon"
  from False have le: "due s \<le> c" by simp
  show ?thesis using late [OF a le refl] due_nat_next(1) [OF period_pos [OF a(1)] le] by simp
qed (simp add: early)

text \<open>How often the runner ticks does not matter.\<close>

lemma tick_split:
  assumes i: "inv s" and h: "c1 \<le> c2" "c2 < horizon"
  shows "due (tick c2 (tick c1 s)) = due (tick c2 s) \<and> counter (tick c2 (tick c1 s)) = counter (tick c2 s) \<and>
    frame (tick c2 (tick c1 s)) = frame (tick c2 s)"
proof (cases "c1 < due s")
  case True
  then show ?thesis using early [OF i _ True] h by simp
next
  case False
  define s1 where "s1 = tick c1 s"
  have le: "due s \<le> c1" "due s \<le> c2" and h1: "c1 < horizon" using False h by simp_all
  note l1 = late [OF i h1 le(1) s1_def]
  note l2 = late [OF i h(2) le(2) refl]
  note sp = due_nat_split [OF period_pos [OF i] le(1) h(1), of "due s1"]
  show ?thesis
  proof (cases "c2 < due s1")
    case True
    with sp(1) l1 l2 early [of s1 c2] h(2) show ?thesis by (simp add: s1_def [symmetric])
  next
    case False
    then have le1: "due s1 \<le> c2" by simp
    define k1 where "k1 = due_nat (due s) c1 (period s)"
    define k2 where "k2 = due_nat (due s1) c2 (period s)"
    have s1: "inv s1" "frame s1 = frame s" "period s1 = period s" "due s1 = due s + k1 * period s"
        "counter s1 = (count (frame s) ^^ k1) (counter s)"
      using l1 by (simp_all add: k1_def)
    have k: "due_nat (due s) c2 (period s) = k2 + k1"
      using sp(2) [OF _ le1] s1(4) by (simp add: k1_def k2_def add.commute)
    have t1: "due (tick c2 s1) = due s1 + k2 * period s" "frame (tick c2 s1) = frame s"
        "counter (tick c2 s1) = (count (frame s) ^^ k2) (counter s1)"
      using late [OF s1(1) h(2) le1 refl] s1(2,3) by (simp_all add: k2_def)
    have t: "due (tick c2 s) = due s + (k2 + k1) * period s" "frame (tick c2 s) = frame s"
        "counter (tick c2 s) = (count (frame s) ^^ (k2 + k1)) (counter s)"
      using l2 by (simp_all add: k)
    show ?thesis unfolding s1_def [symmetric] t t1 s1(4,5)
      by (simp add: funpow_add distrib_right)
  qed
qed

end

end
