(* ===== verification/Timer8.thy ===== *)
theory Timer8
  imports Timing Intc
begin

text \<open>
  The 8-bit timer of \<^verbatim>\<open>src/soc/peripheral_t8.{hpp,cpp}\<close>. The lemmas show that its constant-time
  tick is the count-by-count hardware, that its wake cycle is exact, and interpret the contract of
  a paced counter.
\<close>

section \<open>State and operations\<close>

record t8 =
  t8_ctl :: u8
  t8_rld :: u8
  t8_ptd :: u8
  t8_next :: u64
  t8_cpc :: u64
  t8_gen :: u32

definition t8_init :: t8 where
  "t8_init = \<lparr> t8_ctl = 0, t8_rld = 0, t8_ptd = 0, t8_next = 0, t8_cpc = 0, t8_gen = 0xFFFFFFFF \<rparr>"

text \<open>
  \<open>update_active\<close> flips the channel's bit in the parent's mask of running timers; here it is an
  event carrying the new state.
\<close>

definition t8_reset :: "t8 \<Rightarrow> t8 \<times> bool list" where
  "t8_reset t = (t8_init, [False])"

text \<open>\<open>cycles_per_count\<close> refreshes the mutable cache; the value is the cached one afterwards.\<close>

definition t8_cycles_per_count :: "nat \<Rightarrow> clkctl \<Rightarrow> t8 \<Rightarrow> t8" where
  "t8_cycles_per_count ch clk t =
    (if config_gen clk \<noteq> t8_gen t
     then t\<lparr>t8_cpc := cycles_per_hz (t8_clock_hz clk ch) clk, t8_gen := config_gen clk\<rparr> else t)"

definition t8_on_ctl_write :: "u8 \<Rightarrow> t8 \<Rightarrow> t8 \<times> bool list" where
  "t8_on_ctl_write v t =
    (let old = t8_ctl t; ctl = v AND 0x07; t1 = t\<lparr>t8_ctl := ctl\<rparr>;
         t2 = (if ctl AND 0x02 \<noteq> 0 then t1\<lparr>t8_ptd := t8_rld t1\<rparr> else t1);
         was = (old AND 0x01 \<noteq> 0); now = (ctl AND 0x01 \<noteq> 0)
     in (t2, if was \<noteq> now then [now] else []))"

definition t8_ports :: "nat \<Rightarrow> (t8, bool) port list" where
  "t8_ports ch =
    (let base = 0x040160 + word_of_nat ch * 4 in
     [\<lparr> port_base = base, port_rd = (\<lambda>t. join8 (t8_ctl t) (t8_rld t)),
        port_wr = (\<lambda>_ v t. case t8_on_ctl_write (lo8 v) t of (t1, e) \<Rightarrow> (t1\<lparr>t8_rld := hi8 v\<rparr>, e)),
        port_wb = Some (\<lambda>a v t. if odd_addr a then silent (t\<lparr>t8_rld := v\<rparr>) else t8_on_ctl_write v t) \<rparr>,
      plain_port (base + 2) (\<lambda>t. ucast (t8_ptd t)) (\<lambda>_ _ t. t)])"

definition t8_next_wake :: "nat \<Rightarrow> clkctl \<Rightarrow> t8 \<Rightarrow> u64 \<times> t8" where
  "t8_next_wake ch clk t =
    (if t8_ctl t AND 0x01 = 0 then (UINT64_MAX, t)
     else let t1 = t8_cycles_per_count ch clk t
          in if t8_cpc t1 = 0 then (UINT64_MAX, t1)
             else (t8_next t1 + ucast (t8_ptd t1) * t8_cpc t1, t1))"

definition t8_tick :: "nat \<Rightarrow> clkctl \<Rightarrow> u64 \<Rightarrow> t8 \<Rightarrow> t8 \<times> irq_source list" where
  "t8_tick ch clk cyc t =
    (if t8_ctl t AND 0x01 = 0 then (t, [])
     else if cyc < t8_next t then (t, [])
     else let t1 = t8_cycles_per_count ch clk t; cpc = t8_cpc t1
       in if cpc = 0 then (t1, [])
          else let counts = counts_due (t8_next t1) cyc cpc;
                   t2 = t1\<lparr>t8_next := t8_next t1 + counts * cpc\<rparr>
            in if counts \<le> ucast (t8_ptd t2)
               then (t2\<lparr>t8_ptd := t8_ptd t2 - ucast counts\<rparr>, [])
               else let period = ucast (t8_rld t2) + 1; remaining = counts - ucast (t8_ptd t2) - 1
                    in (t2\<lparr>t8_ptd := ucast (ucast (t8_rld t2) - remaining mod period)\<rparr>,
                        [src_at (src_index T8_UF0 + ch)]))"

section \<open>One count, and many at once\<close>

text \<open>One input clock of the down-counter, with the sticky flag of an underflow.\<close>

definition t8_count :: "u8 \<Rightarrow> u8 \<times> bool \<Rightarrow> u8 \<times> bool" where
  "t8_count rld s = (if fst s = 0 then (rld, True) else (fst s - 1, snd s))"

lemma t8_count_many:
  "(t8_count rld ^^ k) (p, r) =
    (if k \<le> unat p then (p - word_of_nat k, r)
     else (rld - word_of_nat ((k - unat p - 1) mod (unat rld + 1)), True))"
proof (induction k)
  case 0 then show ?case by simp
next
  case (Suc k)
  define R where "R = unat rld + 1"
  consider "Suc k \<le> unat p" | "k = unat p" | "unat p < k" by linarith
  then show ?case
  proof cases
    case 1
    then have "p - word_of_nat k \<noteq> 0" using u8_sub_of_nat [of k p] by auto
    with 1 Suc.IH show ?thesis by (simp add: t8_count_def algebra_simps)
  next
    case 2
    with Suc.IH show ?thesis by (simp add: t8_count_def)
  next
    case 3
    define m where "m = k - unat p - 1"
    have m: "m mod R < R" by (simp add: R_def)
    have s: "Suc k - unat p - 1 = Suc m" using 3 by (simp add: m_def)
    have x: "unat (rld - word_of_nat (m mod R)) = unat rld - m mod R"
      using m by (intro u8_sub_of_nat) (simp add: R_def)
    have st: "(t8_count rld ^^ Suc k) (p, r) = t8_count rld (rld - word_of_nat (m mod R), True)"
      using 3 Suc.IH by (simp add: m_def R_def)
    show ?thesis
    proof (cases "m mod R = unat rld")
      case True
      then have "Suc m mod R = 0" by (simp add: mod_Suc R_def)
      with True x 3 s show ?thesis unfolding st by (simp add: t8_count_def R_def unat_eq_zero)
    next
      case False
      then have "Suc m mod R = Suc (m mod R)" using m by (simp add: mod_Suc R_def)
      moreover have "m mod R < unat rld" using m False R_def by linarith
      with x have "unat (rld - word_of_nat (m mod R)) \<noteq> 0" by linarith
      then have "rld - word_of_nat (m mod R) \<noteq> 0" by (metis unat_0)
      ultimately show ?thesis using 3 s unfolding st by (simp add: t8_count_def R_def algebra_simps)
    qed
  qed
qed

section \<open>The tick is counting\<close>

definition t8_running :: "t8 \<Rightarrow> bool" where "t8_running t \<longleftrightarrow> t8_ctl t AND 0x01 \<noteq> 0"

text \<open>The cache is right whenever its generation is the current one.\<close>

definition t8_coherent :: "nat \<Rightarrow> clkctl \<Rightarrow> t8 \<Rightarrow> bool" where
  "t8_coherent ch clk t \<longleftrightarrow>
    (t8_gen t = config_gen clk \<longrightarrow> t8_cpc t = cycles_per_hz (t8_clock_hz clk ch) clk)"

definition t8_period :: "nat \<Rightarrow> clkctl \<Rightarrow> u64" where
  "t8_period ch clk = cycles_per_hz (t8_clock_hz clk ch) clk"

lemma t8_period_le: "unat (t8_period ch clk) \<le> 8193"
  unfolding t8_period_def by (rule cycles_per_hz_bound(1) [OF timer_clock_range(2)])

lemma t8_cycles: "t8_coherent ch clk t \<Longrightarrow> t8_cpc (t8_cycles_per_count ch clk t) = t8_period ch clk"
  by (auto simp: t8_cycles_per_count_def t8_coherent_def t8_period_def)

lemma t8_cycles_frame [simp]:
  "t8_ctl (t8_cycles_per_count ch clk t) = t8_ctl t" "t8_rld (t8_cycles_per_count ch clk t) = t8_rld t"
  "t8_ptd (t8_cycles_per_count ch clk t) = t8_ptd t" "t8_next (t8_cycles_per_count ch clk t) = t8_next t"
  by (simp_all add: t8_cycles_per_count_def)

lemma t8_cycles_coherent [simp]: "t8_coherent ch clk t \<Longrightarrow> t8_coherent ch clk (t8_cycles_per_count ch clk t)"
  by (simp add: t8_cycles_per_count_def t8_coherent_def)

lemma t8_coherent_upd [simp]:
  "t8_coherent ch clk (t\<lparr>t8_ptd := p\<rparr>) = t8_coherent ch clk t"
  "t8_coherent ch clk (t\<lparr>t8_next := n\<rparr>) = t8_coherent ch clk t"
  by (simp_all add: t8_coherent_def)

lemma t8_reload_eq:
  assumes "unat period = unat (rld :: u8) + 1"
  shows "(ucast (ucast rld - rest mod period :: u64) :: u8) = rld - word_of_nat (unat rest mod (unat rld + 1))"
proof (rule unsigned_word_eqI)
  define m where "m = unat rest mod (unat rld + 1)"
  have m: "m \<le> unat rld" by (simp add: m_def less_Suc_eq_le [symmetric])
  have r: "unat (rest mod period) = m" by (simp add: m_def unat_mod assms)
  have "rest mod period \<le> ucast rld" unfolding word_le_nat_alt r u8_ucast64 by (rule m)
  then have "unat (ucast rld - rest mod period :: u64) = unat rld - m" by (simp add: u64_sub u8_ucast64 r)
  then show "unat (ucast (ucast rld - rest mod period :: u64) :: u8) = unat (rld - word_of_nat m)"
    using m u8_less [of rld] by (simp add: u8_down u8_sub_of_nat)
qed

lemma t8_tick_late:
  assumes run: "t8_running t" and coh: "t8_coherent ch clk t" and p: "t8_period ch clk \<noteq> 0"
    and c: "unat cyc < 2 ^ 63" and le: "t8_next t \<le> cyc"
    and k: "k = due_nat (unat (t8_next t)) (unat cyc) (unat (t8_period ch clk))"
    and t': "t8_tick ch clk cyc t = (t', irqs)"
  shows "unat (t8_next t') = unat (t8_next t) + k * unat (t8_period ch clk)"
    and "(t8_ptd t', irqs \<noteq> []) = (t8_count (t8_rld t) ^^ k) (t8_ptd t, False)"
    and "t8_ctl t' = t8_ctl t \<and> t8_rld t' = t8_rld t \<and> t8_coherent ch clk t'"
    and "irqs = [] \<or> irqs = [src_at (src_index T8_UF0 + ch)]"
proof -
  let ?t1 = "t8_cycles_per_count ch clk t"
  define cpc where "cpc = t8_period ch clk"
  define counts where "counts = counts_due (t8_next t) cyc cpc"
  have cp: "t8_cpc ?t1 = cpc" "cpc \<noteq> 0" "unat cpc \<le> 2 ^ 62"
    using t8_cycles [OF coh] p t8_period_le [of ch clk] by (simp_all add: cpc_def)
  have uc: "unat counts = k" unfolding counts_def k cpc_def by (rule counts_due_unat [OF le c])
  have tick: "t8_tick ch clk cyc t =
     (if counts \<le> ucast (t8_ptd t)
      then (?t1\<lparr>t8_next := t8_next t + counts * cpc, t8_ptd := t8_ptd t - ucast counts\<rparr>, [])
      else (?t1\<lparr>t8_next := t8_next t + counts * cpc,
              t8_ptd := ucast (ucast (t8_rld t) - (counts - ucast (t8_ptd t) - 1) mod (ucast (t8_rld t) + 1))\<rparr>,
            [src_at (src_index T8_UF0 + ch)]))"
    using run cp leD [OF le] by (simp add: t8_tick_def t8_running_def Let_def counts_def)
  have nx: "unat (t8_next t + counts * cpc) = unat (t8_next t) + k * unat cpc"
    unfolding counts_def uc [symmetric] counts_due_unat [OF le c] by (rule next_tick_unat [OF le c cp(2,3)])
  have cmp: "(counts \<le> ucast (t8_ptd t)) = (k \<le> unat (t8_ptd t))"
    by (simp add: word_le_nat_alt uc u8_ucast64)
  have many: "(if counts \<le> ucast (t8_ptd t) then (t8_ptd t - ucast counts, False)
      else (ucast (ucast (t8_rld t) - (counts - ucast (t8_ptd t) - 1) mod (ucast (t8_rld t) + 1)), True))
      = (t8_count (t8_rld t) ^^ k) (t8_ptd t, False)"
  proof (cases "k \<le> unat (t8_ptd t)")
    case True
    then show ?thesis by (simp add: t8_count_many cmp u8_down_of_nat uc)
  next
    case False
    have "unat (ucast (t8_rld t) + 1 :: u64) = unat (t8_rld t) + 1"
      using u8_less [of "t8_rld t"] by (subst u64_add) (simp_all add: u8_ucast64)
    note rl = t8_reload_eq [OF this]
    have "unat (counts - ucast (t8_ptd t)) = k - unat (t8_ptd t)"
      using False by (subst u64_sub) (simp_all add: word_le_nat_alt uc u8_ucast64)
    then have "unat (counts - ucast (t8_ptd t) - 1) = k - unat (t8_ptd t) - 1"
      using False by (subst u64_sub) (simp_all add: word_le_nat_alt)
    then show ?thesis using False by (simp add: t8_count_many cmp rl)
  qed
  show "unat (t8_next t') = unat (t8_next t) + k * unat (t8_period ch clk)"
    using t' nx unfolding tick cpc_def by (auto split: if_splits)
  show "(t8_ptd t', irqs \<noteq> []) = (t8_count (t8_rld t) ^^ k) (t8_ptd t, False)"
    using t' unfolding many [symmetric] tick by (auto split: if_splits)
  show "t8_ctl t' = t8_ctl t \<and> t8_rld t' = t8_rld t \<and> t8_coherent ch clk t'"
    using t' coh unfolding tick by (auto split: if_splits)
  show "irqs = [] \<or> irqs = [src_at (src_index T8_UF0 + ch)]"
    using t' unfolding tick by (auto split: if_splits)
qed

text \<open>
  C35: A tick of a running 8-bit timer at a cycle past its due cycle is exactly the down-counting
  of the hardware, however many counts have gone by: with \<open>k\<close> the number of counts due (one per
  cycles-per-count since the due cycle, that one included), the counter is what \<open>k\<close> single
  counts (decrement; at zero reload and underflow) make of it, the channel's underflow interrupt
  is raised, once, exactly when one of them underflows, and the due cycle moves by \<open>k\<close> periods.
\<close>
theorem t8_tick_is_counting:
  assumes "t8_running t" "t8_coherent ch clk t" "t8_period ch clk \<noteq> 0"
    "unat cyc < 2 ^ 63" "t8_next t \<le> cyc" "t8_tick ch clk cyc t = (t', irqs)"
    "k = due_nat (unat (t8_next t)) (unat cyc) (unat (t8_period ch clk))"
  shows "(t8_ptd t', irqs \<noteq> []) = (t8_count (t8_rld t) ^^ k) (t8_ptd t, False) \<and>
    irqs \<in> {[], [src_at (src_index T8_UF0 + ch)]} \<and>
    unat (t8_next t') = unat (t8_next t) + k * unat (t8_period ch clk) \<and>
    t8_ctl t' = t8_ctl t \<and> t8_rld t' = t8_rld t \<and> t8_coherent ch clk t'"
  using t8_tick_late [OF assms(1-5,7,6)] by auto

text \<open>The timer with the record of whether it has raised, and cycle numbers as naturals.\<close>

definition t8_observe :: "nat \<Rightarrow> clkctl \<Rightarrow> nat \<Rightarrow> t8 \<times> bool \<Rightarrow> t8 \<times> bool" where
  "t8_observe ch clk c s =
    (case t8_tick ch clk (word_of_nat c) (fst s) of (t', irqs) \<Rightarrow> (t', snd s \<or> irqs \<noteq> []))"

lemma t8_count_flag:
  "(t8_count rld ^^ k) (p, r) = (fst ((t8_count rld ^^ k) (p, False)), r \<or> snd ((t8_count rld ^^ k) (p, False)))"
  by (simp add: t8_count_many)

interpretation t8p: paced_counter
  "\<lambda>s. t8_running (fst s) \<and> t8_coherent ch clk (fst s) \<and> t8_period ch clk \<noteq> 0"
  "\<lambda>s. unat (t8_next (fst s))" "\<lambda>s. unat (t8_period ch clk)" "\<lambda>s. (t8_ptd (fst s), snd s)"
  "\<lambda>s. t8_rld (fst s)" t8_count "t8_observe ch clk" "2 ^ 63" for ch :: nat and clk :: clkctl
proof
  fix s :: "t8 \<times> bool" and c
  assume i: "t8_running (fst s) \<and> t8_coherent ch clk (fst s) \<and> t8_period ch clk \<noteq> 0"
  then show "0 < unat (t8_period ch clk)" by (simp add: unat_gt_0)
  assume c: "c < (2 :: nat) ^ 63"
  note u = u64_of_nat [OF c]
  show "t8_observe ch clk c s = s" if "c < unat (t8_next (fst s))"
  proof -
    have "word_of_nat c < t8_next (fst s)" using that by (simp add: word_less_nat_alt u)
    then show ?thesis by (simp add: t8_observe_def t8_tick_def)
  qed
  fix s' assume d: "unat (t8_next (fst s)) \<le> c" and s': "s' = t8_observe ch clk c s"
  obtain t' irqs where t': "t8_tick ch clk (word_of_nat c) (fst s) = (t', irqs)" by fastforce
  have le: "t8_next (fst s) \<le> word_of_nat c" using d by (simp add: word_le_nat_alt u)
  have cc: "unat (word_of_nat c :: u64) < 2 ^ 63" using c by (simp only: u)
  note l = t8_tick_late [OF conjunct1 [OF i] conjunct1 [OF conjunct2 [OF i]] conjunct2 [OF conjunct2 [OF i]]
    cc le refl t', unfolded u]
  have e: "s' = (t', snd s \<or> irqs \<noteq> [])" by (simp add: s' t8_observe_def t')
  show "(t8_running (fst s') \<and> t8_coherent ch clk (fst s') \<and> t8_period ch clk \<noteq> 0) \<and>
    t8_rld (fst s') = t8_rld (fst s) \<and> unat (t8_period ch clk) = unat (t8_period ch clk) \<and>
    unat (t8_next (fst s')) =
      unat (t8_next (fst s)) + due_nat (unat (t8_next (fst s))) c (unat (t8_period ch clk)) * unat (t8_period ch clk) \<and>
    (t8_ptd (fst s'), snd s') =
      (t8_count (t8_rld (fst s)) ^^ due_nat (unat (t8_next (fst s))) c (unat (t8_period ch clk)))
        (t8_ptd (fst s), snd s)"
    using i l(1) l(3) l(2) [symmetric]
    unfolding t8_count_flag [of _ "t8_rld (fst s)" "t8_ptd (fst s)" "snd s"]
    by (simp add: e t8_running_def)
qed

text \<open>
  How often the runner ticks an 8-bit timer does not matter: a tick at \<open>c1\<close> followed by one at
  a later \<open>c2\<close> leaves the same counter, the same due cycle and the same answer to "has the
  underflow interrupt been raised" as the tick at \<open>c2\<close> alone.
\<close>
theorem t8_tick_split:
  assumes "t8_running t" "t8_coherent ch clk t" "t8_period ch clk \<noteq> 0" "c1 \<le> c2" "c2 < 2 ^ 63"
    "t8_observe ch clk c1 (t, r) = (t1, r1)" "t8_observe ch clk c2 (t1, r1) = (t2, r2)"
    "t8_observe ch clk c2 (t, r) = (t3, r3)"
  shows "t8_next t2 = t8_next t3 \<and> t8_ptd t2 = t8_ptd t3 \<and> r2 = r3 \<and> t8_rld t2 = t8_rld t3"
  using t8p.tick_split [where s = "(t, r)" and ch = ch and clk = clk, OF _ assms(4,5)] assms(1-3,6-8)
  by (auto intro: unsigned_word_eqI)

lemma word_zero_mult_bound: "unat (p :: u8) * unat (c :: u64) < 2 ^ 63 - 1" if "unat c \<le> 8193"
proof -
  have "unat p * unat c \<le> 255 * 8193" using that u8_less [of p] by (intro mult_le_mono) simp_all
  then show ?thesis by simp
qed

text \<open>
  The wake cycle of a running 8-bit timer is exact: at any cycle number below \<open>2 ^ 63\<close> a tick
  raises the underflow interrupt exactly when the cycle has reached the reported wake cycle, so a
  runner that jumps straight to it neither misses an underflow nor wakes early.
\<close>
theorem t8_wake_exact:
  assumes "t8_running t" "t8_coherent ch clk t" "t8_period ch clk \<noteq> 0"
    "unat cyc < 2 ^ 63" "unat (t8_next t) < 2 ^ 63"
  shows "(snd (t8_tick ch clk cyc t) \<noteq> []) = (fst (t8_next_wake ch clk t) \<le> cyc)"
proof -
  define p where "p = unat (t8_period ch clk)"
  have p: "0 < p" using assms(3) by (simp add: p_def unat_gt_0)
  have b: "unat (t8_ptd t) * p < 2 ^ 63 - 1" unfolding p_def by (rule word_zero_mult_bound [OF t8_period_le])
  have "unat (ucast (t8_ptd t) * t8_period ch clk) = unat (t8_ptd t) * p"
    using b by (subst u64_mult) (simp_all add: u8_ucast64 p_def)
  then have w: "unat (fst (t8_next_wake ch clk t)) = unat (t8_next t) + unat (t8_ptd t) * p"
    using assms(1,3,5) b t8_cycles [OF assms(2)]
    by (simp add: t8_next_wake_def t8_running_def Let_def) (subst u64_add; simp)
  show ?thesis
  proof (cases "t8_next t \<le> cyc")
    case False
    then have lt: "cyc < t8_next t" by simp
    then have "snd (t8_tick ch clk cyc t) = []" by (simp add: t8_tick_def)
    moreover have "unat cyc < unat (t8_next t)" using lt by (simp add: word_less_nat_alt)
    ultimately show ?thesis by (simp add: word_le_nat_alt w)
  next
    case True
    then have n: "unat (t8_next t) \<le> unat cyc" by (simp add: word_le_nat_alt)
    obtain t' irqs where t': "t8_tick ch clk cyc t = (t', irqs)" by fastforce
    note l = t8_tick_late(2) [OF assms(1-4) True refl t']
    then have "(irqs \<noteq> []) = (unat (t8_ptd t) < due_nat (unat (t8_next t)) (unat cyc) p)"
      unfolding p_def by (simp add: t8_count_many split: if_splits)
    also have "\<dots> = (unat (t8_ptd t) \<le> (unat cyc - unat (t8_next t)) div p)" by (simp add: due_nat_def less_Suc_eq_le)
    also have "\<dots> = (unat (t8_ptd t) * p \<le> unat cyc - unat (t8_next t))"
      using p by (simp add: less_eq_div_iff_mult_less_eq)
    finally show ?thesis using n by (simp add: t' word_le_nat_alt w le_diff_conv2 add.commute)
  qed
qed

section \<open>Concrete instances\<close>

text \<open>Channel 0 at one cycle per count, reload 9, counter 3, due at once.\<close>

definition t8_sample :: t8 where
  "t8_sample = t8_init\<lparr>t8_ctl := 1, t8_rld := 9, t8_ptd := 3\<rparr>"

definition t8_sample_clk :: clkctl where
  "t8_sample_clk = clk_init\<lparr>clksel_t8_03 := 1, config_gen := 1\<rparr>"

lemma t8_sample_ok:
  "t8_running t8_sample" "t8_coherent 0 t8_sample_clk t8_sample" "t8_period 0 t8_sample_clk \<noteq> 0"
  "unat (t8_period 0 t8_sample_clk) = 1" "t8_next t8_sample = 0"
  "t8_tick 0 t8_sample_clk 4 t8_sample =
     (t8_sample\<lparr>t8_ptd := 8, t8_next := 5, t8_cpc := 1, t8_gen := 1\<rparr>, [T8_UF0])"
  by code_simp+

lemma t8_tick_is_counting_witness: "(8, True) = (t8_count 9 ^^ 5) (3, False)"
  using t8_tick_is_counting [OF t8_sample_ok(1-3) _ _ t8_sample_ok(6) refl]
  by (simp add: t8_sample_ok(4,5)) (simp add: t8_sample_def due_nat_def)

lemma t8_observe_sample:
  "t8_observe 0 t8_sample_clk 2 (t8_sample, False) = (t8_sample\<lparr>t8_ptd := 0, t8_next := 3, t8_cpc := 1, t8_gen := 1\<rparr>, False)"
  "t8_observe 0 t8_sample_clk 4 (t8_sample, False) = (t8_sample\<lparr>t8_ptd := 8, t8_next := 5, t8_cpc := 1, t8_gen := 1\<rparr>, True)"
  "t8_observe 0 t8_sample_clk 4 (t8_sample\<lparr>t8_ptd := 0, t8_next := 3, t8_cpc := 1, t8_gen := 1\<rparr>, False) =
     (t8_sample\<lparr>t8_ptd := 8, t8_next := 5, t8_cpc := 1, t8_gen := 1\<rparr>, True)"
  by code_simp+

lemma t8_tick_split_witness:
  "t8_ptd (fst (t8_observe 0 t8_sample_clk 4 (t8_observe 0 t8_sample_clk 2 (t8_sample, False)))) =
   t8_ptd (fst (t8_observe 0 t8_sample_clk 4 (t8_sample, False)))"
  using t8_tick_split [OF t8_sample_ok(1-3), where ?c1.0 = 2 and ?c2.0 = 4 and r = False]
  by (simp add: t8_observe_sample)

lemma t8_wake_exact_witness:
  "(snd (t8_tick 0 t8_sample_clk 2 t8_sample) \<noteq> []) = (fst (t8_next_wake 0 t8_sample_clk t8_sample) \<le> 2)"
  by (rule t8_wake_exact [OF t8_sample_ok(1-3)]) (simp_all add: t8_sample_ok(5))

end
