(* ===== verification/Timer16.thy ===== *)
theory Timer16
  imports Timing Intc
begin

text \<open>
  The 16-bit timer of \<^verbatim>\<open>src/soc/peripheral_t16.{hpp,cpp}\<close>. The lemmas show what its closed-form tick
  leaves in the counter and exactly which compare interrupts it raises, against counting clock by
  clock; the last section has concrete runs where interrupts, wake cycle and clock selection
  depart from that account.
\<close>

section \<open>State and operations\<close>

record t16 =
  t16_cra :: u16
  t16_crb :: u16
  t16_tc :: u16
  t16_ctl :: u8
  t16_next :: u64
  t16_cpc :: u64
  t16_gen :: u32
  t16_wake :: u64

definition t16_init :: t16 where
  "t16_init = \<lparr> t16_cra = 0, t16_crb = 0, t16_tc = 0, t16_ctl = 0, t16_next = 0, t16_cpc = 0,
     t16_gen = 0xFFFFFFFF, t16_wake = UINT64_MAX \<rparr>"

definition t16_reset :: "t16 \<Rightarrow> t16 \<times> bool list" where "t16_reset t = (t16_init, [False])"

definition t16_cksl :: "t16 \<Rightarrow> nat" where "t16_cksl t = unat (drop_bit 3 (t16_ctl t) AND 1)"

definition t16_cycles_per_count :: "nat \<Rightarrow> clkctl \<Rightarrow> t16 \<Rightarrow> t16" where
  "t16_cycles_per_count ch clk t =
    (if config_gen clk \<noteq> t16_gen t
     then t\<lparr>t16_cpc := cycles_per_hz (t16_clock_hz clk ch (t16_cksl t)) clk, t16_gen := config_gen clk\<rparr> else t)"

definition t16_refresh_wake :: "nat \<Rightarrow> clkctl \<Rightarrow> t16 \<Rightarrow> t16" where
  "t16_refresh_wake ch clk t0 =
    (if t16_ctl t0 AND 0x01 = 0 then t0\<lparr>t16_wake := UINT64_MAX\<rparr>
     else let t = t16_cycles_per_count ch clk t0; cpc = t16_cpc t
       in if cpc = 0 then t\<lparr>t16_wake := UINT64_MAX\<rparr>
          else let tc = ucast (t16_tc t) :: u64; cra = ucast (t16_cra t); crb = ucast (t16_crb t);
                   to_crb = (if crb \<noteq> 0 then (if tc < crb then crb - tc else crb) else UINT64_MAX);
                   wake1 = (if crb \<noteq> 0 then min UINT64_MAX (t16_next t + to_crb * cpc) else UINT64_MAX);
                   to_cra = (if tc < cra then cra - tc
                             else if crb \<noteq> 0 \<and> cra \<le> crb then to_crb + cra
                             else (0x10000 - tc) + cra);
                   wake2 = (if cra \<noteq> 0 then min wake1 (t16_next t + to_cra * cpc) else wake1)
               in t\<lparr>t16_wake := wake2\<rparr>)"

definition t16_write_ctl :: "nat \<Rightarrow> clkctl \<Rightarrow> u16 \<Rightarrow> t16 \<Rightarrow> t16 \<times> bool list" where
  "t16_write_ctl ch clk v t =
    (let val = lo8 v;
         t1 = (if val AND 0x02 \<noteq> 0 then t\<lparr>t16_tc := 0, t16_next := 0\<rparr> else t);
         was = (t16_ctl t1 AND 0x01 \<noteq> 0); ctl = val AND NOT 0x02; now = (ctl AND 0x01 \<noteq> 0);
         t2 = t1\<lparr>t16_ctl := ctl\<rparr>
     in (t16_refresh_wake ch clk t2, if was \<noteq> now then [now] else []))"

definition t16_ports :: "nat \<Rightarrow> clkctl \<Rightarrow> (t16, bool) port list" where
  "t16_ports ch clk =
    (let base = 0x048180 + word_of_nat ch * 8 in
     [plain_port base t16_cra (\<lambda>_ v t. t16_refresh_wake ch clk (t\<lparr>t16_cra := v\<rparr>)),
      plain_port (base + 2) t16_crb (\<lambda>_ v t. t16_refresh_wake ch clk (t\<lparr>t16_crb := v\<rparr>)),
      plain_port (base + 4) t16_tc (\<lambda>_ v t. t16_refresh_wake ch clk (t\<lparr>t16_tc := v\<rparr>)),
      \<lparr> port_base = base + 6, port_rd = (\<lambda>t. ucast (t16_ctl t)),
        port_wr = (\<lambda>_ v t. t16_write_ctl ch clk v t), port_wb = None \<rparr>])"

definition t16_next_wake :: "t16 \<Rightarrow> u64" where "t16_next_wake t = t16_wake t"

definition t16_raise_cra :: "nat \<Rightarrow> irq_source" where "t16_raise_cra ch = src_at (src_index T16_CRA0 + ch * 2)"
definition t16_raise_crb :: "nat \<Rightarrow> irq_source" where "t16_raise_crb ch = src_at (src_index T16_CRB0 + ch * 2)"

text \<open>The iterative path: the counter runs freely, both matches are plain compare points.\<close>

primrec t16_free_run :: "nat \<Rightarrow> nat \<Rightarrow> t16 \<Rightarrow> t16 \<times> irq_source list" where
  "t16_free_run 0 ch t = (t, [])"
| "t16_free_run (Suc n) ch t =
    (let t1 = t\<lparr>t16_tc := t16_tc t + 1\<rparr>;
         e = (if t16_crb t1 \<noteq> 0 \<and> t16_tc t1 = t16_crb t1 then [t16_raise_crb ch] else [])
           @ (if t16_cra t1 \<noteq> 0 \<and> t16_tc t1 = t16_cra t1 then [t16_raise_cra ch] else [])
     in case t16_free_run n ch t1 of (t2, e2) \<Rightarrow> (t2, e @ e2))"

text \<open>The analytical path for \<open>crb \<noteq> 0\<close>.\<close>

definition t16_analytic :: "nat \<Rightarrow> u64 \<Rightarrow> t16 \<Rightarrow> t16 \<times> irq_source list" where
  "t16_analytic ch counts t =
    (let tc = ucast (t16_tc t) :: u64; cra = ucast (t16_cra t); crb = ucast (t16_crb t);
         cra_possible = (cra \<noteq> 0 \<and> cra \<le> crb);
         period = crb + 1; v_end = tc + counts;
         N = (if v_end \<ge> crb then (v_end - crb) div period + 1 else 0);
         final_tc = ucast (v_end mod period) :: u16;
         irqs = (if N = 0 then
                   (if cra_possible \<and> tc < cra \<and> cra - tc \<le> counts then [t16_raise_cra ch] else [])
                 else (if cra_possible \<and> ((tc < cra \<and> tc + counts \<ge> cra) \<or> N \<ge> 2 \<or> ucast final_tc \<ge> cra)
                       then [t16_raise_cra ch] else []) @ [t16_raise_crb ch])
     in (t\<lparr>t16_tc := final_tc\<rparr>, irqs))"

definition t16_advance :: "nat \<Rightarrow> u64 \<Rightarrow> t16 \<Rightarrow> t16 \<times> irq_source list" where
  "t16_advance ch counts t =
    (if t16_crb t \<noteq> 0 then t16_analytic ch counts t
     else if t16_cra t = 0 \<and> t16_crb t = 0 then (t\<lparr>t16_tc := ucast (ucast (t16_tc t) + counts)\<rparr>, [])
     else t16_free_run (unat counts) ch t)"

definition t16_tick :: "nat \<Rightarrow> clkctl \<Rightarrow> u64 \<Rightarrow> t16 \<Rightarrow> t16 \<times> irq_source list" where
  "t16_tick ch clk cyc t =
    (if t16_ctl t AND 0x01 = 0 then (t, [])
     else if cyc < t16_next t then (t, [])
     else let t1 = t16_cycles_per_count ch clk t; cpc = t16_cpc t1
       in if cpc = 0 then (t1, [])
          else let counts = counts_due (t16_next t1) cyc cpc
            in case t16_advance ch counts (t1\<lparr>t16_next := t16_next t1 + counts * cpc\<rparr>) of
                 (t2, irqs) \<Rightarrow> (t16_refresh_wake ch clk t2, irqs))"

section \<open>One count, and the values passed\<close>

text \<open>One clock of the counter with period \<open>crb + 1\<close>, and the values \<open>k\<close> clocks pass through.\<close>

definition t16_count :: "nat \<Rightarrow> nat \<Rightarrow> nat" where
  "t16_count crb tc = (if tc = crb then 0 else tc + 1)"

definition t16_hits :: "nat \<Rightarrow> nat \<Rightarrow> nat \<Rightarrow> nat \<Rightarrow> bool" where
  "t16_hits crb k tc v \<longleftrightarrow> (\<exists>j\<in>{1..k}. (t16_count crb ^^ j) tc = v)"

lemma t16_count_many: "tc \<le> crb \<Longrightarrow> (t16_count crb ^^ k) tc = (tc + k) mod (crb + 1)"
proof (induction k)
  case (Suc k)
  have "(tc + k) mod (crb + 1) < crb + 1" by simp
  then show ?case using Suc by (simp add: t16_count_def mod_Suc)
qed simp

lemma t16_hits_iff:
  assumes "tc \<le> crb" "v \<le> crb"
  shows "t16_hits crb k tc v = (if tc < v then v \<le> tc + k else v + (crb + 1) \<le> tc + k)"
proof -
  define R where "R = crb + 1"
  have h: "t16_hits crb k tc v = (\<exists>j\<in>{1..k}. (tc + j) mod R = v)"
    by (simp add: t16_hits_def t16_count_many [OF assms(1)] R_def)
  have vR: "v < R" "tc < R" using assms by (simp_all add: R_def)
  show ?thesis
  proof (cases "tc < v")
    case True
    have "(\<exists>j\<in>{1..k}. (tc + j) mod R = v) = (v \<le> tc + k)"
    proof
      assume "\<exists>j\<in>{1..k}. (tc + j) mod R = v"
      then obtain j where "j \<le> k" "(tc + j) mod R = v" by auto
      moreover have "(tc + j) mod R \<le> tc + j" by simp
      ultimately show "v \<le> tc + k" by linarith
    next
      assume "v \<le> tc + k"
      then show "\<exists>j\<in>{1..k}. (tc + j) mod R = v"
        using True vR by (intro bexI [of _ "v - tc"]) auto
    qed
    with True show ?thesis by (simp add: h)
  next
    case False
    have "(\<exists>j\<in>{1..k}. (tc + j) mod R = v) = (v + R \<le> tc + k)"
    proof
      assume "\<exists>j\<in>{1..k}. (tc + j) mod R = v"
      then obtain j where j: "1 \<le> j" "j \<le> k" "(tc + j) mod R = v" by auto
      define q where "q = (tc + j) div R"
      have e: "tc + j = q * R + v" using j(3) by (simp add: q_def flip: j(3))
      have "q \<noteq> 0" using e False j(1) by (cases q) auto
      then have "R \<le> q * R" by simp
      with e j(2) show "v + R \<le> tc + k" by linarith
    next
      assume "v + R \<le> tc + k"
      then show "\<exists>j\<in>{1..k}. (tc + j) mod R = v"
        using False vR by (intro bexI [of _ "v + R - tc"]) auto
    qed
    with False show ?thesis by (simp add: h R_def)
  qed
qed

section \<open>The analytical path against counting\<close>

lemma u16_less: "unat (w :: u16) < 65536"
  using unsigned_less [of w, where 'a = nat] by simp

lemma u16_up: "unat (ucast (w :: u16) :: u64) = unat w"
  using u16_less [of w] by (simp add: unsigned_ucast_eq take_bit_nat_eq_self)

lemma u16_down: "unat (ucast (w :: u64) :: u16) = unat w mod 65536"
  by (simp add: unsigned_ucast_eq take_bit_eq_mod)

text \<open>The formulas of the code, on naturals.\<close>

definition fires_n :: "nat \<Rightarrow> nat \<Rightarrow> nat" where
  "fires_n crb v = (if crb \<le> v then (v - crb) div (crb + 1) + 1 else 0)"

definition cra_fires :: "nat \<Rightarrow> nat \<Rightarrow> nat \<Rightarrow> nat \<Rightarrow> bool" where
  "cra_fires cra crb tc k \<longleftrightarrow>
    (let v = tc + k; N = fires_n crb v in
     0 < cra \<and> cra \<le> crb \<and>
     (if N = 0 then tc < cra \<and> cra - tc \<le> k
      else (tc < cra \<and> cra \<le> tc + k) \<or> 2 \<le> N \<or> cra \<le> v mod (crb + 1)))"

lemma analytic_nat:
  assumes k: "unat counts < 2 ^ 63 + 1" and crb: "t16_crb t \<noteq> 0"
    and r: "t16_analytic ch counts t = (t', irqs)"
  shows "t' = t\<lparr>t16_tc := t16_tc t'\<rparr>"
    and "unat (t16_tc t') = (unat (t16_tc t) + unat counts) mod (unat (t16_crb t) + 1)"
    and "irqs = (if cra_fires (unat (t16_cra t)) (unat (t16_crb t)) (unat (t16_tc t)) (unat counts)
                 then [t16_raise_cra ch] else [])
              @ (if fires_n (unat (t16_crb t)) (unat (t16_tc t) + unat counts) \<noteq> 0 then [t16_raise_crb ch] else [])"
proof -
  let ?tc = "ucast (t16_tc t) :: u64" and ?cra = "ucast (t16_cra t) :: u64" and ?crb = "ucast (t16_crb t) :: u64"
  define P where "P = unat (t16_crb t) + 1"
  define v where "v = unat (t16_tc t) + unat counts"
  have v: "unat (?tc + counts) = v"
    using k u16_less [of "t16_tc t"] by (subst u64_add) (simp_all add: u16_up v_def)
  have vb: "v < 2 ^ 64 - 1" using k u16_less [of "t16_tc t"] by (simp add: v_def)
  have P: "unat (?crb + 1) = P"
    using u16_less [of "t16_crb t"] by (subst u64_add) (simp_all add: u16_up P_def)
  have ft: "unat (ucast ((?tc + counts) mod (?crb + 1)) :: u16) = v mod P"
  proof -
    have "v mod P < P" by (simp add: P_def)
    moreover have "P \<le> 65536" using u16_less [of "t16_crb t"] by (simp add: P_def)
    ultimately have "v mod P < 65536" by linarith
    then show ?thesis by (simp add: u16_down unat_mod v P)
  qed
  have le: "(?crb \<le> ?tc + counts) = (unat (t16_crb t) \<le> v)" by (simp add: word_le_nat_alt u16_up v)
  have N: "unat (if ?crb \<le> ?tc + counts then (?tc + counts - ?crb) div (?crb + 1) + 1 else 0) = fires_n (unat (t16_crb t)) v"
  proof (cases "unat (t16_crb t) \<le> v")
    case True
    have "unat (?tc + counts - ?crb) = v - unat (t16_crb t)"
      using True le by (subst u64_sub) (simp_all add: u16_up v)
    then have q: "unat ((?tc + counts - ?crb) div (?crb + 1)) = (v - unat (t16_crb t)) div P"
      by (simp add: unat_div P)
    have "(v - unat (t16_crb t)) div P \<le> v" by (meson diff_le_self div_le_dividend le_trans)
    then have "unat ((?tc + counts - ?crb) div (?crb + 1) + 1) = (v - unat (t16_crb t)) div P + 1"
      using q vb by (subst u64_add) simp_all
    then show ?thesis using True le by (simp add: fires_n_def P_def)
  qed (simp add: le fires_n_def)
  have z: "\<And>x. (x = (0 :: u64)) = (unat x = 0)" by (simp add: unat_eq_zero)
  have c1: "(?cra \<noteq> 0) = (0 < unat (t16_cra t))" "(?cra \<le> ?crb) = (unat (t16_cra t) \<le> unat (t16_crb t))"
    "(?tc < ?cra) = (unat (t16_tc t) < unat (t16_cra t))"
    "(?cra \<le> ?tc + counts) = (unat (t16_cra t) \<le> v)"
    by (simp_all add: z u16_up word_le_nat_alt word_less_nat_alt v)
  have c2: "(?cra - ?tc \<le> counts) = (unat (t16_cra t) - unat (t16_tc t) \<le> unat counts)" if "?tc < ?cra"
    by (simp add: word_le_nat_alt u64_sub [OF less_imp_le [OF that]] u16_up)
  have c3: "(?cra \<le> ucast (ucast ((?tc + counts) mod (?crb + 1)) :: u16)) = (unat (t16_cra t) \<le> v mod P)"
    by (simp only: word_le_nat_alt u16_up ft)
  have two: "\<And>x. ((2 :: u64) \<le> x) = (2 \<le> unat x)" by (simp add: word_le_nat_alt)
  have cf: "cra_fires (unat (t16_cra t)) (unat (t16_crb t)) (unat (t16_tc t)) (unat counts) =
      (0 < unat (t16_cra t) \<and> unat (t16_cra t) \<le> unat (t16_crb t) \<and>
       (if fires_n (unat (t16_crb t)) v = 0
        then unat (t16_tc t) < unat (t16_cra t) \<and> unat (t16_cra t) - unat (t16_tc t) \<le> unat counts
        else (unat (t16_tc t) < unat (t16_cra t) \<and> unat (t16_cra t) \<le> v) \<or> 2 \<le> fires_n (unat (t16_crb t)) v
           \<or> unat (t16_cra t) \<le> v mod P))"
    by (simp add: cra_fires_def Let_def v_def P_def)
  have t': "t' = t\<lparr>t16_tc := ucast ((?tc + counts) mod (?crb + 1))\<rparr>"
    using r by (simp add: t16_analytic_def Let_def)
  then show "t' = t\<lparr>t16_tc := t16_tc t'\<rparr>" by simp
  show "unat (t16_tc t') = (unat (t16_tc t) + unat counts) mod (unat (t16_crb t) + 1)"
    using ft by (simp add: t' v_def P_def)
  show "irqs = (if cra_fires (unat (t16_cra t)) (unat (t16_crb t)) (unat (t16_tc t)) (unat counts)
                 then [t16_raise_cra ch] else [])
              @ (if fires_n (unat (t16_crb t)) (unat (t16_tc t) + unat counts) \<noteq> 0 then [t16_raise_crb ch] else [])"
    using r [unfolded t16_analytic_def Let_def, THEN arg_cong [where f = snd], unfolded snd_conv, symmetric]
    unfolding cf z two N c1(2-4) c3 u16_up v_def [symmetric] using c2 [unfolded c1]
    by (auto split: if_splits)
qed

lemma fires_hits:
  assumes "tc \<le> crb" "1 \<le> k"
  shows "(fires_n crb (tc + k) \<noteq> 0) = (t16_hits crb k tc crb \<or> tc = crb)"
  using assms by (auto simp: fires_n_def t16_hits_iff)

lemma cra_hits:
  assumes "tc \<le> crb" "1 \<le> k" "0 < cra"
  shows "cra_fires cra crb tc k = (cra \<le> crb \<and> (t16_hits crb k tc cra \<or> tc + k = crb \<and> cra \<le> tc))"
proof (cases "cra \<le> crb")
  case le: True
  define v where "v = tc + k"
  define R where "R = crb + 1"
  have two: "(2 \<le> fires_n crb v) = (crb + R \<le> v)"
  proof -
    have "(2 \<le> fires_n crb v) = (crb \<le> v \<and> 1 \<le> (v - crb) div R)" by (auto simp: fires_n_def R_def)
    also have "\<dots> = (crb \<le> v \<and> R \<le> v - crb)" by (simp add: R_def Suc_le_eq div_greater_zero_iff)
    finally show ?thesis by (auto simp: R_def)
  qed
  have hit: "t16_hits crb k tc cra = (if tc < cra then cra \<le> v else cra + R \<le> v)"
    using t16_hits_iff [OF assms(1) le] by (simp add: v_def R_def)
  have cf: "cra_fires cra crb tc k =
      (if v < crb then tc < cra \<and> cra \<le> v else (tc < cra \<and> cra \<le> v) \<or> crb + R \<le> v \<or> cra \<le> v mod R)"
    using assms(3) le two unfolding cra_fires_def Let_def v_def [symmetric] R_def [symmetric]
    by (auto simp: fires_n_def v_def)
  consider "v < crb" | "v = crb" | "crb < v" "v < crb + R" | "crb + R \<le> v" by linarith
  then show ?thesis
  proof cases
    case 1 then show ?thesis using le assms(2) by (auto simp: cf hit v_def R_def)
  next
    case 2
    then have "v mod R = crb" by (simp add: R_def)
    then show ?thesis using 2 le by (auto simp: cf hit v_def [symmetric] R_def)
  next
    case 3
    then have "v mod R = v - R" by (simp add: R_def mod_if)
    then show ?thesis using 3 le assms(1) by (auto simp: cf hit v_def [symmetric] R_def)
  next
    case 4 then show ?thesis using le assms(1) by (auto simp: cf hit v_def [symmetric] R_def)
  qed
qed (simp add: cra_fires_def Let_def)

section \<open>The tick is counting\<close>

definition t16_running :: "t16 \<Rightarrow> bool" where "t16_running t \<longleftrightarrow> t16_ctl t AND 0x01 \<noteq> 0"

definition t16_period :: "nat \<Rightarrow> clkctl \<Rightarrow> nat \<Rightarrow> u64" where
  "t16_period ch clk k = cycles_per_hz (t16_clock_hz clk ch k) clk"

definition t16_coherent :: "nat \<Rightarrow> clkctl \<Rightarrow> t16 \<Rightarrow> bool" where
  "t16_coherent ch clk t \<longleftrightarrow> (t16_gen t = config_gen clk \<longrightarrow> t16_cpc t = t16_period ch clk (t16_cksl t))"

lemma t16_period_le: "unat (t16_period ch clk k) \<le> 8193"
  unfolding t16_period_def by (rule cycles_per_hz_bound(1) [OF timer_clock_range(1)])

lemma t16_cycles: "t16_coherent ch clk t \<Longrightarrow> t16_cpc (t16_cycles_per_count ch clk t) = t16_period ch clk (t16_cksl t)"
  by (auto simp: t16_cycles_per_count_def t16_coherent_def t16_period_def)

lemma t16_cycles_frame [simp]:
  "t16_ctl (t16_cycles_per_count ch clk t) = t16_ctl t" "t16_cra (t16_cycles_per_count ch clk t) = t16_cra t"
  "t16_crb (t16_cycles_per_count ch clk t) = t16_crb t" "t16_tc (t16_cycles_per_count ch clk t) = t16_tc t"
  "t16_next (t16_cycles_per_count ch clk t) = t16_next t"
  "t16_cksl (t16_cycles_per_count ch clk t) = t16_cksl t"
  by (simp_all add: t16_cycles_per_count_def t16_cksl_def)

lemma t16_coherent_upd [simp]:
  "t16_coherent ch clk (t\<lparr>t16_tc := a\<rparr>) = t16_coherent ch clk t"
  "t16_coherent ch clk (t\<lparr>t16_next := n\<rparr>) = t16_coherent ch clk t"
  "t16_coherent ch clk (t\<lparr>t16_wake := n\<rparr>) = t16_coherent ch clk t"
  by (simp_all add: t16_coherent_def t16_cksl_def)

lemma t16_cycles_coherent [simp]: "t16_coherent ch clk t \<Longrightarrow> t16_coherent ch clk (t16_cycles_per_count ch clk t)"
  by (simp add: t16_cycles_per_count_def t16_coherent_def t16_cksl_def t16_period_def)

lemma t16_refresh_frame [simp]:
  "t16_ctl (t16_refresh_wake ch clk t) = t16_ctl t" "t16_cra (t16_refresh_wake ch clk t) = t16_cra t"
  "t16_crb (t16_refresh_wake ch clk t) = t16_crb t" "t16_tc (t16_refresh_wake ch clk t) = t16_tc t"
  "t16_next (t16_refresh_wake ch clk t) = t16_next t"
  by (simp_all add: t16_refresh_wake_def Let_def)

lemma t16_refresh_coherent [simp]: "t16_coherent ch clk t \<Longrightarrow> t16_coherent ch clk (t16_refresh_wake ch clk t)"
  by (simp add: t16_refresh_wake_def Let_def)

lemma t16_tick_late:
  assumes run: "t16_running t" and coh: "t16_coherent ch clk t"
    and p: "cpc = t16_period ch clk (t16_cksl t)" "cpc \<noteq> 0"
    and c: "unat cyc < 2 ^ 63" and le: "t16_next t \<le> cyc"
    and b: "t16_crb t \<noteq> 0" "t16_tc t \<le> t16_crb t"
    and k: "k = due_nat (unat (t16_next t)) (unat cyc) (unat cpc)"
    and t': "t16_tick ch clk cyc t = (t', irqs)"
  shows "unat (t16_next t') = unat (t16_next t) + k * unat cpc"
    and "unat (t16_tc t') = (t16_count (unat (t16_crb t)) ^^ k) (unat (t16_tc t))"
    and "t16_ctl t' = t16_ctl t \<and> t16_cra t' = t16_cra t \<and> t16_crb t' = t16_crb t \<and> t16_coherent ch clk t'"
    and "irqs = (if cra_fires (unat (t16_cra t)) (unat (t16_crb t)) (unat (t16_tc t)) k then [t16_raise_cra ch] else [])
              @ (if fires_n (unat (t16_crb t)) (unat (t16_tc t) + k) \<noteq> 0 then [t16_raise_crb ch] else [])"
    and "1 \<le> k"
proof -
  let ?t1 = "t16_cycles_per_count ch clk t"
  define counts where "counts = counts_due (t16_next t) cyc cpc"
  define u where "u = ?t1\<lparr>t16_next := t16_next t + counts * cpc\<rparr>"
  have cp: "t16_cpc ?t1 = cpc" "unat cpc \<le> 2 ^ 62"
    using t16_cycles [OF coh] p t16_period_le [of ch clk "t16_cksl t"] by simp_all
  have uc: "unat counts = k" unfolding counts_def k by (rule counts_due_unat [OF le c])
  have kb: "unat counts < 2 ^ 63 + 1"
  proof -
    have "k \<le> unat cyc - unat (t16_next t) + 1"
      unfolding k using p(2) le by (intro due_nat_next(3)) (simp_all add: unat_gt_0 word_le_nat_alt)
    then show ?thesis using c uc by simp
  qed
  have uf: "t16_crb u = t16_crb t" "t16_tc u = t16_tc t" "t16_cra u = t16_cra t" "t16_ctl u = t16_ctl t"
    "t16_next u = t16_next t + counts * cpc" "t16_coherent ch clk u"
    using coh by (simp_all add: u_def)
  obtain u' where an: "t16_analytic ch counts u = (u', irqs)" and t'e: "t' = t16_refresh_wake ch clk u'"
    using t' run leD [OF le] cp p(2) b(1) uf(1)
    by (auto simp: t16_tick_def t16_running_def Let_def counts_def [symmetric] t16_advance_def u_def split: prod.splits)
  note a = analytic_nat [OF kb _ an, unfolded uf uc, OF b(1)]
  have tc: "unat (t16_tc t) \<le> unat (t16_crb t)" using b(2) by (simp add: word_le_nat_alt)
  have u': "t16_next u' = t16_next u" "t16_ctl u' = t16_ctl u" "t16_cra u' = t16_cra u" "t16_crb u' = t16_crb u"
    by (subst a(1), simp)+
  have u'c: "t16_coherent ch clk u'" using uf(6) by (subst a(1)) simp
  show "unat (t16_next t') = unat (t16_next t) + k * unat cpc"
    unfolding t'e t16_refresh_frame u' uf(5) counts_def uc [symmetric] counts_due_unat [OF le c]
    by (rule next_tick_unat [OF le c p(2) cp(2)])
  show "unat (t16_tc t') = (t16_count (unat (t16_crb t)) ^^ k) (unat (t16_tc t))"
    using a(2) by (simp add: t'e t16_count_many [OF tc])
  show "t16_ctl t' = t16_ctl t \<and> t16_cra t' = t16_cra t \<and> t16_crb t' = t16_crb t \<and> t16_coherent ch clk t'"
    using u'c by (simp add: t'e u' uf)
  show "irqs = (if cra_fires (unat (t16_cra t)) (unat (t16_crb t)) (unat (t16_tc t)) k then [t16_raise_cra ch] else [])
              @ (if fires_n (unat (t16_crb t)) (unat (t16_tc t) + k) \<noteq> 0 then [t16_raise_crb ch] else [])"
    by (rule a(3))
  show "1 \<le> k" by (simp add: k due_nat_def)
qed

lemma t16_sources_distinct: "ch < 6 \<Longrightarrow> t16_raise_cra ch \<noteq> t16_raise_crb ch"
proof -
  have "list_all (\<lambda>ch. t16_raise_cra ch \<noteq> t16_raise_crb ch) [0..<6]" by code_simp
  then show "ch < 6 \<Longrightarrow> t16_raise_cra ch \<noteq> t16_raise_crb ch" by (auto simp: list_all_iff)
qed

text \<open>
  C14: A tick of a running 16-bit timer with period register CRB (not zero, the counter not above
  it) replaces the counting of \<open>k\<close> clocks by a closed form. The counter is exactly what \<open>k\<close> clocks
  of a counter that wraps from CRB to 0 leave. The compare interrupts are raised for every match
  that the \<open>k\<close> clocks pass, but not only then: CRB is raised again when the counter stood at CRB
  before the tick, and CRA is raised without a match when the tick ends exactly at CRB having
  started at or past CRA.
\<close>
theorem t16_tick_is_counting:
  assumes "t16_running t" "t16_coherent ch clk t" "cpc = t16_period ch clk (t16_cksl t)" "cpc \<noteq> 0"
    "unat cyc < 2 ^ 63" "t16_next t \<le> cyc" "t16_crb t \<noteq> 0" "t16_tc t \<le> t16_crb t" "ch < 6"
    "t16_tick ch clk cyc t = (t', irqs)"
    "k = due_nat (unat (t16_next t)) (unat cyc) (unat cpc)"
    "tc = unat (t16_tc t)" "crb = unat (t16_crb t)" "cra = unat (t16_cra t)"
  shows "unat (t16_tc t') = (t16_count crb ^^ k) tc \<and>
    (t16_raise_crb ch \<in> set irqs) = (t16_hits crb k tc crb \<or> tc = crb) \<and>
    (t16_raise_cra ch \<in> set irqs) = (0 < cra \<and> cra \<le> crb \<and> (t16_hits crb k tc cra \<or> tc + k = crb \<and> cra \<le> tc)) \<and>
    set irqs \<subseteq> {t16_raise_cra ch, t16_raise_crb ch} \<and>
    unat (t16_next t') = unat (t16_next t) + k * unat cpc"
proof -
  note l = t16_tick_late [OF assms(1-8) assms(11,10), folded assms(12-14)]
  have tc: "tc \<le> crb" using assms(8,12,13) by (simp add: word_le_nat_alt)
  have fh: "(fires_n crb (tc + k) \<noteq> 0) = (t16_hits crb k tc crb \<or> tc = crb)"
    by (rule fires_hits [OF tc l(5)])
  have ch: "cra_fires cra crb tc k = (0 < cra \<and> cra \<le> crb \<and> (t16_hits crb k tc cra \<or> tc + k = crb \<and> cra \<le> tc))"
    using cra_hits [OF tc l(5), of cra] by (cases "0 < cra") (simp_all add: cra_fires_def Let_def)
  show ?thesis
    using l(1,2) t16_sources_distinct [OF assms(9)] unfolding l(4) fh ch by auto
qed

interpretation t16p: paced_counter
  "\<lambda>t. t16_running t \<and> t16_coherent ch clk t \<and> t16_period ch clk (t16_cksl t) \<noteq> 0 \<and>
     t16_crb t \<noteq> 0 \<and> t16_tc t \<le> t16_crb t"
  "\<lambda>t. unat (t16_next t)" "\<lambda>t. unat (t16_period ch clk (t16_cksl t))" "\<lambda>t. unat (t16_tc t)"
  "\<lambda>t. unat (t16_crb t)" t16_count "\<lambda>c t. fst (t16_tick ch clk (word_of_nat c) t)" "2 ^ 63"
  for ch :: nat and clk :: clkctl
proof
  fix s c
  assume i: "t16_running s \<and> t16_coherent ch clk s \<and> t16_period ch clk (t16_cksl s) \<noteq> 0 \<and>
     t16_crb s \<noteq> 0 \<and> t16_tc s \<le> t16_crb s"
  then show "0 < unat (t16_period ch clk (t16_cksl s))" by (simp add: unat_gt_0)
  assume c: "c < (2 :: nat) ^ 63"
  note u = u64_of_nat [OF c]
  show "fst (t16_tick ch clk (word_of_nat c) s) = s" if "c < unat (t16_next s)"
  proof -
    have "word_of_nat c < t16_next s" using that by (simp add: word_less_nat_alt u)
    then show ?thesis by (simp add: t16_tick_def)
  qed
  fix s' assume d: "unat (t16_next s) \<le> c" and s': "s' = fst (t16_tick ch clk (word_of_nat c) s)"
  obtain irqs where t': "t16_tick ch clk (word_of_nat c) s = (s', irqs)" using s' by (metis prod.collapse)
  have le: "t16_next s \<le> word_of_nat c" using d by (simp add: word_le_nat_alt u)
  have cc: "unat (word_of_nat c :: u64) < 2 ^ 63" using c by (simp only: u)
  from i have a: "t16_running s" "t16_coherent ch clk s" "t16_period ch clk (t16_cksl s) \<noteq> 0"
    "t16_crb s \<noteq> 0" "t16_tc s \<le> t16_crb s" by simp_all
  note l = t16_tick_late [OF a(1,2) refl a(3) cc le a(4,5) refl t', unfolded u]
  have tc: "unat (t16_tc s) \<le> unat (t16_crb s)" using a(5) by (simp add: word_le_nat_alt)
  have "unat (t16_tc s') \<le> unat (t16_crb s)"
    unfolding l(2) t16_count_many [OF tc] by (simp add: less_Suc_eq_le [symmetric])
  with l a show "(t16_running s' \<and> t16_coherent ch clk s' \<and> t16_period ch clk (t16_cksl s') \<noteq> 0 \<and>
     t16_crb s' \<noteq> 0 \<and> t16_tc s' \<le> t16_crb s') \<and>
     unat (t16_crb s') = unat (t16_crb s) \<and>
     unat (t16_period ch clk (t16_cksl s')) = unat (t16_period ch clk (t16_cksl s)) \<and>
     unat (t16_next s') = unat (t16_next s) +
       due_nat (unat (t16_next s)) c (unat (t16_period ch clk (t16_cksl s))) * unat (t16_period ch clk (t16_cksl s)) \<and>
     unat (t16_tc s') = (t16_count (unat (t16_crb s)) ^^
       due_nat (unat (t16_next s)) c (unat (t16_period ch clk (t16_cksl s)))) (unat (t16_tc s))"
    by (auto simp: t16_running_def t16_cksl_def word_le_nat_alt)
qed

text \<open>
  How often the runner ticks a 16-bit timer with a period register does not matter for its
  counter: two ticks leave the counter, the due cycle and the period register that the later tick
  alone would have left.
\<close>
theorem t16_counter_split:
  assumes "t16_running t" "t16_coherent ch clk t" "t16_period ch clk (t16_cksl t) \<noteq> 0"
    "t16_crb t \<noteq> 0" "t16_tc t \<le> t16_crb t" "c1 \<le> c2" "c2 < 2 ^ 63"
    "t1 = fst (t16_tick ch clk (word_of_nat c1) t)" "t2 = fst (t16_tick ch clk (word_of_nat c2) t1)"
    "t3 = fst (t16_tick ch clk (word_of_nat c2) t)"
  shows "t16_tc t2 = t16_tc t3 \<and> t16_next t2 = t16_next t3 \<and> t16_crb t2 = t16_crb t3"
  using t16p.tick_split [where s = t and ch = ch and clk = clk, OF _ assms(6,7)] assms(1-5,8-10)
  by (auto intro: unsigned_word_eqI)

section \<open>Where the code departs from its own account\<close>

text \<open>Channel 0 at one cycle per count, period 10, counter standing at the period register.\<close>

definition t16_sample :: t16 where
  "t16_sample = t16_init\<lparr>t16_ctl := 1, t16_crb := 9, t16_cra := 3, t16_tc := 9\<rparr>"

definition t16_sample_clk :: clkctl where
  "t16_sample_clk = clk_init\<lparr>clkctl_t16 := (\<lambda>_. 0x18), config_gen := 1\<rparr>"

lemma t16_sample_ok:
  "t16_running t16_sample" "t16_coherent 0 t16_sample_clk t16_sample"
  "t16_period 0 t16_sample_clk (t16_cksl t16_sample) = 1" "t16_next t16_sample = 0"
  "t16_crb t16_sample = 9" "t16_tc t16_sample = 9" "t16_cra t16_sample = 3"
  by code_simp+

text \<open>One clock from CRB to 0 passes no match, and raises CRB again.\<close>

lemma t16_crb_refires:
  "snd (t16_tick 0 t16_sample_clk 0 t16_sample) = [T16_CRB0]"
  "t16_tc (fst (t16_tick 0 t16_sample_clk 0 t16_sample)) = 0"
  "\<not> t16_hits 9 1 9 9"
proof -
  show "snd (t16_tick 0 t16_sample_clk 0 t16_sample) = [T16_CRB0]" by code_simp
  show "t16_tc (fst (t16_tick 0 t16_sample_clk 0 t16_sample)) = 0" by code_simp
  show "\<not> t16_hits 9 1 9 9" by (simp add: t16_hits_iff)
qed

text \<open>Four clocks from 5 to 9 do not pass CRA = 3, and raise it.\<close>

lemma t16_cra_spurious:
  "snd (t16_tick 0 t16_sample_clk 3 (t16_sample\<lparr>t16_tc := 5\<rparr>)) = [T16_CRA0, T16_CRB0]"
  "\<not> t16_hits 9 4 5 3"
proof -
  show "snd (t16_tick 0 t16_sample_clk 3 (t16_sample\<lparr>t16_tc := 5\<rparr>)) = [T16_CRA0, T16_CRB0]" by code_simp
  show "\<not> t16_hits 9 4 5 3" by (simp add: t16_hits_iff)
qed

text \<open>The reported wake cycle is one count later than the first tick that raises.\<close>

lemma t16_wake_late:
  "t16_next_wake (t16_refresh_wake 0 t16_sample_clk (t16_sample\<lparr>t16_tc := 0, t16_cra := 0\<rparr>)) = 9"
  "snd (t16_tick 0 t16_sample_clk 8 (t16_sample\<lparr>t16_tc := 0, t16_cra := 0\<rparr>)) = [T16_CRB0]"
  by code_simp+

text \<open>A store to the control register that switches the input clock leaves the cached rate.\<close>

lemma t16_clock_select_ignored:
  assumes "t16_gen t = config_gen clk"
  shows "t16_cpc (fst (t16_write_ctl ch clk v t)) = t16_cpc t"
    "t16_gen (fst (t16_write_ctl ch clk v t)) = config_gen clk"
  using assms by (simp_all add: t16_write_ctl_def t16_refresh_wake_def t16_cycles_per_count_def Let_def)

text \<open>The byte address of the register's unused upper half reaches the control register.\<close>

lemma t16_dummy_byte_is_control:
  "port_store8 (t16_ports ch clk ! 3) a v t = t16_write_ctl ch clk (ucast v) t"
  by (simp add: t16_ports_def port_store8_def Let_def)

lemma t16_tick_is_counting_witness:
  "unat (t16_tc (fst (t16_tick 0 t16_sample_clk 3 (t16_sample\<lparr>t16_tc := 5\<rparr>)))) = 9"
proof -
  let ?t = "t16_sample\<lparr>t16_tc := 5\<rparr>"
  have a: "t16_running ?t" "t16_coherent 0 t16_sample_clk ?t" "t16_period 0 t16_sample_clk (t16_cksl ?t) = 1"
    "t16_next ?t = 0" "t16_crb ?t = 9" "t16_tc ?t = 5" by code_simp+
  have k: "due_nat 0 3 1 = 4" by (simp add: due_nat_def)
  have "unat (t16_tc (fst (t16_tick 0 t16_sample_clk 3 ?t))) = (t16_count 9 ^^ 4) 5"
    using t16_tick_is_counting [OF a(1,2) refl _ _ _ _ _ _ prod.collapse [symmetric] refl refl refl refl,
        where cyc = 3] a(3-6) k by simp
  then show ?thesis by (simp add: t16_count_many)
qed

lemma t16_counter_split_witness:
  "t16_tc (fst (t16_tick 0 t16_sample_clk (word_of_nat 4) (fst (t16_tick 0 t16_sample_clk (word_of_nat 2) t16_sample)))) =
   t16_tc (fst (t16_tick 0 t16_sample_clk (word_of_nat 4) t16_sample))"
  using t16_counter_split [OF t16_sample_ok(1,2) _ _ _ _ _ refl refl refl, where ?c1.0 = 2 and ?c2.0 = 4]
    t16_sample_ok(3-6) by simp

end
