(* ===== verification/Wdt.thy ===== *)
theory Wdt
  imports Timing
begin

text \<open>
  The watchdog of \<^verbatim>\<open>src/soc/peripheral_wdt.{hpp,cpp}\<close>, which fires the periodic NMI, with the
  spacing of its NMIs over any run of ticks.
\<close>

section \<open>State and operations\<close>

record wdt =
  wdt_wrwd :: u8
  wdt_ewd :: u8
  wdt_next :: u64

definition wdt_init :: wdt where "wdt_init = \<lparr> wdt_wrwd = 0, wdt_ewd = 0, wdt_next = 0 \<rparr>"

definition wdt_reset :: "wdt \<Rightarrow> wdt" where "wdt_reset s = wdt_init"

definition wdt_port :: "(wdt, unit) port" where
  "wdt_port = byte_port 0x040170 (\<lambda>s. join8 (wdt_wrwd s) (wdt_ewd s))
     (\<lambda>_ v s. s\<lparr>wdt_wrwd := lo8 v, wdt_ewd := hi8 v\<rparr>)
     (\<lambda>a v s. if odd_addr a then s\<lparr>wdt_ewd := v\<rparr> else s\<lparr>wdt_wrwd := v\<rparr>)"

definition nmi_period :: "clkctl \<Rightarrow> u64" where
  "nmi_period clk = (let hz = cpu_clock_hz clk in if hz = 0 then 48000 else ucast hz div 1000)"

text \<open>The events are the calls of \<open>assert_nmi_\<close>: trap number and level.\<close>

definition wdt_tick :: "clkctl \<Rightarrow> u64 \<Rightarrow> wdt \<Rightarrow> wdt \<times> (int \<times> int) list" where
  "wdt_tick clk cyc s =
    (if wdt_ewd s AND 0x02 = 0 then (s\<lparr>wdt_next := cyc + nmi_period clk\<rparr>, [])
     else if cyc \<ge> wdt_next s then (s\<lparr>wdt_next := cyc + nmi_period clk\<rparr>, [(7, 0)])
     else (s, []))"

definition wdt_next_wake :: "wdt \<Rightarrow> u64" where
  "wdt_next_wake s = (if wdt_ewd s AND 0x02 = 0 then UINT64_MAX else wdt_next s)"

interpretation wdt: byte_pair wdt_port wdt_wrwd wdt_ewd wdt_next
  unfolding wdt_port_def by (rule byte_pair_intro) (simp_all add: odd_addr_def)

section \<open>Rate of the NMI\<close>

lemma nmi_period_bounds: "0 < unat (nmi_period clk)" "unat (nmi_period clk) \<le> 48000"
proof -
  have p: "0 < unat (cpu_clock_hz clk)" "unat (cpu_clock_hz clk) \<le> 48000000" by (rule cpu_clock_le)+
  have "1000 \<le> unat (cpu_clock_hz clk)"
  proof -
    define k where "k = unat (drop_bit 6 (pwrctl clk) AND 3)"
    have "k < 4" unfolding k_def by (rule u8_field)
    then consider "k = 0" | "k = 1" | "k = 2" | "k = 3" by linarith
    then show ?thesis
      unfolding cpu_clock_hz_def Let_def k_def [symmetric] by (cases; simp add: u32_drop)
  qed
  moreover have "unat (nmi_period clk) = unat (cpu_clock_hz clk) div 1000"
    using p by (auto simp: nmi_period_def Let_def unat_div u64_of_u32)
  ultimately show "0 < unat (nmi_period clk)" "unat (nmi_period clk) \<le> 48000"
    using p by (simp_all add: div_greater_zero_iff)
qed

text \<open>The cycles at which a run of ticks fires the NMI.\<close>

primrec wdt_run :: "clkctl \<Rightarrow> nat list \<Rightarrow> wdt \<Rightarrow> nat list" where
  "wdt_run clk [] s = []"
| "wdt_run clk (c # cs) s =
    (case wdt_tick clk (word_of_nat c) s of (s', e) \<Rightarrow>
       (if e \<noteq> [] then c # wdt_run clk cs s' else wdt_run clk cs s'))"

primrec spaced :: "nat \<Rightarrow> nat \<Rightarrow> nat list \<Rightarrow> bool" where
  "spaced p from [] = True"
| "spaced p from (c # cs) = (from \<le> c \<and> spaced p (c + p) cs)"

lemma spaced_mono: "spaced p b cs \<Longrightarrow> a \<le> b \<Longrightarrow> spaced p a cs"
  by (cases cs) auto

lemma wdt_run_spaced:
  assumes "wdt_ewd s AND 0x02 \<noteq> 0" "\<forall>c\<in>set cs. c < 2 ^ 63"
  shows "spaced (unat (nmi_period clk)) (unat (wdt_next s)) (wdt_run clk cs s)"
  using assms
proof (induction cs arbitrary: s)
  case Nil then show ?case by simp
next
  case (Cons c cs)
  have c: "unat (word_of_nat c :: u64) = c" using Cons.prems(2) by (intro u64_of_nat) simp
  show ?case
  proof (cases "wdt_next s \<le> word_of_nat c")
    case True
    define s' where "s' = s\<lparr>wdt_next := word_of_nat c + nmi_period clk\<rparr>"
    have n: "unat (wdt_next s') = c + unat (nmi_period clk)"
      using Cons.prems(2) nmi_period_bounds(2) [of clk] by (simp add: s'_def) (subst u64_add; simp add: c)
    have "spaced (unat (nmi_period clk)) (unat (wdt_next s')) (wdt_run clk cs s')"
      using Cons.prems by (intro Cons.IH) (simp_all add: s'_def)
    then show ?thesis using True Cons.prems(1) n c by (simp add: wdt_tick_def s'_def [symmetric] word_le_nat_alt)
  next
    case False
    then show ?thesis using Cons.IH [of s] Cons.prems by (simp add: wdt_tick_def)
  qed
qed

text \<open>
  However the runner ticks an enabled watchdog, its NMIs are at least one NMI period (one
  thousandth of the CPU frequency, never zero) apart and none comes before the scheduled cycle;
  a tick at or past the scheduled cycle fires, and a disabled watchdog never does.
\<close>
theorem wdt_nmi_rate:
  assumes "\<forall>c\<in>set cs. c < 2 ^ 63" "wdt_ewd s AND 0x02 \<noteq> 0"
  shows "spaced (unat (nmi_period clk)) (unat (wdt_next s)) (wdt_run clk cs s) \<and>
    0 < unat (nmi_period clk) \<and>
    snd (wdt_tick clk cyc s) = (if wdt_next s \<le> cyc then [(7, 0)] else []) \<and>
    snd (wdt_tick clk cyc (s\<lparr>wdt_ewd := 0\<rparr>)) = []"
  using wdt_run_spaced [OF assms(2,1)] nmi_period_bounds(1) [of clk] assms(2) by (simp add: wdt_tick_def)

lemma wdt_nmi_rate_witness:
  "wdt_run clk_init [24000, 30000, 48000] (wdt_init\<lparr>wdt_ewd := 2\<rparr>) = [24000, 48000] \<and>
   spaced 24000 0 (wdt_run clk_init [24000, 30000, 48000] (wdt_init\<lparr>wdt_ewd := 2\<rparr>))"
proof -
  have r: "wdt_run clk_init [24000, 30000, 48000] (wdt_init\<lparr>wdt_ewd := 2\<rparr>) = [24000, 48000]"
    if "nmi_period clk_init = 24000"
    by (simp add: wdt_tick_def wdt_init_def that)
  have p: "nmi_period clk_init = 24000" by code_simp
  from r [OF p] p show ?thesis
    using wdt_nmi_rate [of "[24000, 30000, 48000]" "wdt_init\<lparr>wdt_ewd := 2\<rparr>" clk_init]
    by (simp add: wdt_init_def)
qed

end
