(* ===== verification/Rtc.thy ===== *)
theory Rtc
  imports Timing "HOL-Library.Signed_Division"
begin

text \<open>
  The clock timer of \<^verbatim>\<open>src/soc/peripheral_rtc.{hpp,cpp}\<close>: calendar routines, stop and run, the time
  registers over the host clock (an input), and the 256 Hz prescaler. The lemmas give the
  calendar round trip, setting and reading the time, and the prescaler as a paced counter.
\<close>

section \<open>The calendar\<close>

definition mtbl :: "int list" where "mtbl = [0, 31, 59, 90, 120, 151, 181, 212, 243, 273, 304, 334]"
definition mtblu :: "int list" where "mtblu = [0, 31, 60, 91, 121, 152, 182, 213, 244, 274, 305, 335]"
definition ytbl :: "int list" where "ytbl = [366, 365, 365, 365]"

definition days_from_2000 :: "int \<Rightarrow> int \<Rightarrow> int \<Rightarrow> int" where
  "days_from_2000 yy mm dd =
    (let y = yy - 2000; day = y * 365 + (y + 3) sdiv 4; leap = (y AND 3 = 0)
     in day + (if leap then mtblu ! nat (mm - 1) else mtbl ! nat (mm - 1)) + (dd - 1))"

function year_loop :: "int \<Rightarrow> int \<Rightarrow> int \<times> int" where
  "year_loop y n =
    (if y < 2100 then
       (let len = ytbl ! nat ((y - 2000) AND 3) in if n < len then (y, n) else year_loop (y + 1) (n - len))
     else (y, n))"
  by pat_completeness auto
termination by (relation "measure (\<lambda>(y, n). nat (2100 - y))") auto

function month_loop :: "int list \<Rightarrow> int \<Rightarrow> int \<Rightarrow> int \<Rightarrow> int" where
  "month_loop mt n i m =
    (if i < 12 then (if n < mt ! nat i then i else month_loop mt n (i + 1) (i + 1)) else m)"
  by pat_completeness auto
termination by (relation "measure (\<lambda>(mt, n, i, m). nat (12 - i))") auto

declare year_loop.simps [simp del] month_loop.simps [simp del]

definition days_to_ymd :: "int \<Rightarrow> int \<times> int \<times> int" where
  "days_to_ymd days =
    (case year_loop 2000 days of (y, n) \<Rightarrow>
       let mt = (if (y - 2000) AND 3 \<noteq> 0 then mtbl else mtblu);
           m = month_loop mt n 1 1
       in (y, m, n - mt ! nat (m - 1) + 1))"

section \<open>The calendar round trip\<close>

lemma and3: "(x :: int) AND 3 = x mod 4"
proof -
  have "(3 :: int) = mask 2" by (simp add: mask_eq_exp_minus_1)
  then show ?thesis by (simp only: take_bit_eq_mask [symmetric]) (simp add: take_bit_eq_mod)
qed

definition leap :: "int \<Rightarrow> bool" where "leap y \<longleftrightarrow> (y - 2000) mod 4 = 0"

definition month_len :: "int \<Rightarrow> int \<Rightarrow> int" where
  "month_len y m = (if m = 2 then (if leap y then 29 else 28) else if m \<in> {4, 6, 9, 11} then 30 else 31)"

definition valid_date :: "int \<Rightarrow> int \<Rightarrow> int \<Rightarrow> bool" where
  "valid_date y m d \<longleftrightarrow> 2000 \<le> y \<and> y < 2100 \<and> 1 \<le> m \<and> m \<le> 12 \<and> 1 \<le> d \<and> d \<le> month_len y m"

definition year_start :: "int \<Rightarrow> int" where "year_start y = (y - 2000) * 365 + (y - 2000 + 3) div 4"

definition year_len :: "int \<Rightarrow> int" where "year_len y = (if leap y then 366 else 365)"

lemma year_start_succ: "year_start (y + 1) = year_start y + year_len y"
proof -
  define q where "q = (y - 2000) div 4"
  have "y - 2000 = 4 * q + (y - 2000) mod 4" "0 \<le> (y - 2000) mod 4" "(y - 2000) mod 4 < 4"
    by (simp_all add: q_def)
  then consider "y = 2000 + 4 * q" "leap y" | "y = 2000 + 4 * q + 1" "\<not> leap y"
      | "y = 2000 + 4 * q + 2" "\<not> leap y" | "y = 2000 + 4 * q + 3" "\<not> leap y"
    unfolding leap_def by linarith
  then show ?thesis by cases (simp_all add: year_start_def year_len_def)
qed

lemma ytbl_len: "ytbl ! nat ((y - 2000) AND 3) = year_len y"
proof -
  have "0 \<le> (y - 2000) mod 4" "(y - 2000) mod 4 < 4" by simp_all
  then consider "(y - 2000) mod 4 = 0" | "(y - 2000) mod 4 = 1" | "(y - 2000) mod 4 = 2" | "(y - 2000) mod 4 = 3"
    by linarith
  then show ?thesis unfolding and3 year_len_def leap_def
    by cases (simp_all add: ytbl_def eval_nat_numeral)
qed

lemma year_loop_finds:
  "y \<le> y' \<Longrightarrow> y' < 2100 \<Longrightarrow> 0 \<le> r \<Longrightarrow> r < year_len y' \<Longrightarrow>
   year_loop y (year_start y' - year_start y + r) = (y', r)"
proof (induction "nat (y' - y)" arbitrary: y)
  case 0
  then have "y = y'" by simp
  then show ?case using 0 by (subst year_loop.simps) (simp add: Let_def ytbl_len)
next
  case (Suc n)
  have lt: "y < y'" using Suc.hyps(2) by simp
  have mono: "a \<le> b \<Longrightarrow> year_start a \<le> year_start b" for a b
    by (simp add: year_start_def zdiv_mono1 add_mono mult_right_mono)
  have e: "year_start y' - year_start y + r - year_len y = year_start y' - year_start (y + 1) + r"
    by (simp only: year_start_succ)
  have "year_len y \<le> year_start y' - year_start y + r"
    using mono [of "y + 1" y'] lt Suc.prems by (simp add: year_start_succ)
  moreover have "year_loop (y + 1) (year_start y' - year_start y + r - year_len y) = (y', r)"
    unfolding e using Suc lt by (intro Suc.hyps(1)) simp_all
  ultimately show ?case
    using lt Suc.prems(2) by (subst year_loop.simps) (simp add: Let_def ytbl_len)
qed

lemma month_cases: "1 \<le> (m :: int) \<Longrightarrow> m \<le> 12 \<Longrightarrow> 
  m = 1 \<or> m = 2 \<or> m = 3 \<or> m = 4 \<or> m = 5 \<or> m = 6 \<or> m = 7 \<or> m = 8 \<or> m = 9 \<or> m = 10 \<or> m = 11 \<or> m = 12"
  by presburger

lemma month_unrolled:
  "month_loop mt n 1 1 =
    (if n < mt ! 1 then 1 else if n < mt ! 2 then 2 else if n < mt ! 3 then 3 else if n < mt ! 4 then 4
     else if n < mt ! 5 then 5 else if n < mt ! 6 then 6 else if n < mt ! 7 then 7 else if n < mt ! 8 then 8
     else if n < mt ! 9 then 9 else if n < mt ! 10 then 10 else if n < mt ! 11 then 11 else 12)"
  by (simp add: month_loop.simps [of mt n 1] month_loop.simps [of mt n 2] month_loop.simps [of mt n 3]
      month_loop.simps [of mt n 4] month_loop.simps [of mt n 5] month_loop.simps [of mt n 6]
      month_loop.simps [of mt n 7] month_loop.simps [of mt n 8] month_loop.simps [of mt n 9]
      month_loop.simps [of mt n 10] month_loop.simps [of mt n 11] month_loop.simps [of mt n 12])

lemma month_finds:
  assumes "1 \<le> m" "m \<le> 12" "1 \<le> d" "d \<le> month_len y m" "mt = (if leap y then mtblu else mtbl)"
  shows "month_loop mt (mt ! nat (m - 1) + (d - 1)) 1 1 = m"
    "0 \<le> mt ! nat (m - 1) + (d - 1)" "mt ! nat (m - 1) + (d - 1) < year_len y"
  using month_cases [OF assms(1,2)] assms(3-5)
  by (elim disjE; simp add: month_unrolled month_len_def mtbl_def mtblu_def year_len_def eval_nat_numeral
      split: if_splits)+

lemma days_from_2000_eq:
  assumes "2000 \<le> y"
  shows "days_from_2000 y m d = year_start y + ((if leap y then mtblu else mtbl) ! nat (m - 1) + (d - 1))"
proof -
  have "(y - 2000 + 3) sdiv 4 = (y - 2000 + 3) div 4"
    using assms by (simp add: signed_divide_int_def sgn_if)
  then show ?thesis by (simp add: days_from_2000_def year_start_def leap_def and3 Let_def)
qed

lemma days_there_and_back:
  assumes "valid_date y m d"
  shows "days_to_ymd (days_from_2000 y m d) = (y, m, d)"
proof -
  define mt where "mt = (if leap y then mtblu else mtbl)"
  define r where "r = mt ! nat (m - 1) + (d - 1)"
  have v: "2000 \<le> y" "y < 2100" "1 \<le> m" "m \<le> 12" "1 \<le> d" "d \<le> month_len y m"
    using assms by (simp_all add: valid_date_def)
  note mf = month_finds [OF v(3-6) mt_def, folded r_def]
  have "days_from_2000 y m d = year_start y - year_start 2000 + r"
    by (simp add: days_from_2000_eq [OF v(1)] r_def mt_def year_start_def [of 2000])
  then have "year_loop 2000 (days_from_2000 y m d) = (y, r)"
    using year_loop_finds [OF v(1,2) mf(2,3)] by simp
  moreover have "(if (y - 2000) AND 3 \<noteq> 0 then mtbl else mtblu) = mt"
    by (simp add: mt_def leap_def and3)
  ultimately show ?thesis using mf(1) by (simp add: days_to_ymd_def Let_def) (simp add: r_def)
qed

text \<open>
  C38: The two calendar routines of the clock are inverse on every date from 2000-01-01 to
  2099-12-31: converting a valid date to its day number and back gives the date.
\<close>
theorem rtc_calendar_roundtrip:
  "valid_date y m d \<Longrightarrow> days_to_ymd (days_from_2000 y m d) = (y, m, d)"
  by (rule days_there_and_back)

lemma rtc_calendar_roundtrip_witness: "days_to_ymd (days_from_2000 2024 2 29) = (2024, 2, 29)"
  by (rule rtc_calendar_roundtrip) (simp add: valid_date_def month_len_def leap_def)

section \<open>State and operations\<close>

record rtc =
  rtcstop :: u8
  alarmc :: u8
  alarm_mi :: u8
  alarm_hh :: u8
  alarm_d :: u8
  prescaler :: u8
  next_prescaler :: u64
  set_mi :: u8
  set_hh :: u8
  set_day_lo :: u8
  set_day_hi :: u8
  offset_sec :: int
  frozen :: bool
  frozen_sec :: int
  fixed_mode :: bool
  fixed_epoch :: int

text \<open>The broken-down local time of the host (\<open>std::localtime\<close> of \<open>std::time\<close>), an input.\<close>

record host_tm =
  tm_year :: int
  tm_mon :: int
  tm_mday :: int
  tm_hour :: int
  tm_min :: int
  tm_sec :: int

definition real_host_seconds :: "host_tm \<Rightarrow> int" where
  "real_host_seconds tm =
    (let yy0 = tm_year tm + 1900; mm = tm_mon tm + 1; dd = tm_mday tm;
         yy1 = (if yy0 < 2000 then 2000 else yy0);
         yy = (if yy1 > 2099 then 2099 else yy1)
     in days_from_2000 yy mm dd * 86400 + tm_hour tm * 3600 + tm_min tm * 60 + tm_sec tm)"

definition host_seconds :: "host_tm \<Rightarrow> rtc \<Rightarrow> int" where
  "host_seconds tm r = (if fixed_mode r then fixed_epoch r else real_host_seconds tm)"

definition current_seconds :: "host_tm \<Rightarrow> rtc \<Rightarrow> int" where
  "current_seconds tm r = (if frozen r then frozen_sec r else host_seconds tm r + offset_sec r)"

definition set_fixed_epoch :: "int \<Rightarrow> rtc \<Rightarrow> rtc" where
  "set_fixed_epoch s r = r\<lparr>fixed_mode := True, fixed_epoch := s\<rparr>"

definition clear_fixed_epoch :: "rtc \<Rightarrow> rtc" where "clear_fixed_epoch r = r\<lparr>fixed_mode := False\<rparr>"

definition prescaler_period :: "u32 \<Rightarrow> u64" where
  "prescaler_period hz = (if hz = 0 then 24000000 div 256 else ucast hz div 256)"

definition set_seconds :: "rtc \<Rightarrow> int" where
  "set_seconds r =
    (let day = uint (push_bit 8 (ucast (set_day_hi r)) OR ucast (set_day_lo r) :: u64)
     in day * 86400 + uint (set_hh r) * 3600 + uint (set_mi r) * 60)"

definition apply_set_to_offset :: "host_tm \<Rightarrow> rtc \<Rightarrow> rtc" where
  "apply_set_to_offset tm r = r\<lparr>offset_sec := set_seconds r - host_seconds tm r, prescaler := 0, frozen := False\<rparr>"

definition rtc_tick :: "clkctl \<Rightarrow> u64 \<Rightarrow> rtc \<Rightarrow> rtc" where
  "rtc_tick clk cyc r =
    (if cyc < next_prescaler r then r
     else if rtcstop r AND 0x02 \<noteq> 0 then r\<lparr>next_prescaler := cyc + 1\<rparr>
     else let per0 = prescaler_period (cpu_clock_hz clk); per = (if per0 = 0 then 1 else per0);
              counts = counts_due (next_prescaler r) cyc per
          in r\<lparr>next_prescaler := next_prescaler r + counts * per,
               prescaler := ucast (ucast (prescaler r) + counts)\<rparr>)"

definition rtc_next_wake :: "rtc \<Rightarrow> u64" where "rtc_next_wake r = next_prescaler r"

definition rtc_reset :: "clkctl \<Rightarrow> rtc \<Rightarrow> rtc" where
  "rtc_reset clk r = r\<lparr>rtcstop := 0x01, alarmc := 0, alarm_mi := 0, alarm_hh := 0, alarm_d := 0, prescaler := 0,
     set_mi := 0, set_hh := 0, set_day_lo := 0, set_day_hi := 0, offset_sec := 0, frozen := False,
     frozen_sec := 0, next_prescaler := prescaler_period (cpu_clock_hz clk)\<rparr>"

text \<open>The constructed clock after \<open>attach\<close>.\<close>

definition rtc_attached :: "clkctl \<Rightarrow> rtc" where
  "rtc_attached clk = \<lparr> rtcstop = 0x01, alarmc = 0, alarm_mi = 0, alarm_hh = 0, alarm_d = 0, prescaler = 0,
     next_prescaler = prescaler_period (cpu_clock_hz clk), set_mi = 0, set_hh = 0, set_day_lo = 0,
     set_day_hi = 0, offset_sec = 0, frozen = False, frozen_sec = 0, fixed_mode = False, fixed_epoch = 0 \<rparr>"

section \<open>Registers\<close>

definition write_rtcstop :: "host_tm \<Rightarrow> u8 \<Rightarrow> rtc \<Rightarrow> rtc" where
  "write_rtcstop tm written r0 =
    (let prev = rtcstop r0; r1 = r0\<lparr>rtcstop := written\<rparr>;
         r2 = (if written AND 0x02 \<noteq> 0 then
                 (let ra = (if prev AND 0x02 = 0
                            then r1\<lparr>frozen := True, frozen_sec := host_seconds tm r1 + offset_sec r1\<rparr> else r1);
                      s = frozen_sec ra; day_total = s sdiv 86400; tod = s - day_total * 86400
                  in ra\<lparr>set_hh := word_of_int (tod sdiv 3600), set_mi := word_of_int ((tod smod 3600) sdiv 60),
                        set_day_lo := word_of_int (day_total AND 0xFF),
                        set_day_hi := word_of_int (drop_bit 8 day_total AND 0xFF)\<rparr>)
               else r1)
     in if written AND 0x01 \<noteq> 0 \<and> prev AND 0x02 \<noteq> 0 then apply_set_to_offset tm r2 else r2)"

definition rtc_read_sec_min :: "host_tm \<Rightarrow> rtc \<Rightarrow> u16" where
  "rtc_read_sec_min tm r =
    (let s = current_seconds tm r; tod = s - (s sdiv 86400) * 86400
     in join8 (word_of_int (tod smod 60)) (word_of_int ((tod sdiv 60) smod 60)))"

definition rtc_read_hour_day :: "host_tm \<Rightarrow> rtc \<Rightarrow> u16" where
  "rtc_read_hour_day tm r =
    (let s = current_seconds tm r; day_total = s sdiv 86400; tod = s - day_total * 86400
     in join8 (word_of_int (tod sdiv 3600)) (word_of_int (day_total AND 0xFF)))"

definition rtc_read_dayh_alarm :: "host_tm \<Rightarrow> rtc \<Rightarrow> u16" where
  "rtc_read_dayh_alarm tm r =
    (let s = current_seconds tm r; day_total = s sdiv 86400
     in join8 (word_of_int (drop_bit 8 day_total AND 0xFF)) (alarm_mi r))"

definition rtc_alarm_port :: "(rtc, unit) port" where
  "rtc_alarm_port = byte_port 0x04015A (\<lambda>r. join8 (alarm_hh r) (alarm_d r))
     (\<lambda>_ v r. r\<lparr>alarm_hh := lo8 v, alarm_d := hi8 v\<rparr>)
     (\<lambda>a v r. if odd_addr a then r\<lparr>alarm_d := v\<rparr> else r\<lparr>alarm_hh := v\<rparr>)"

definition rtc_ports :: "host_tm \<Rightarrow> (rtc, unit) port list" where
  "rtc_ports tm = [
     byte_port 0x040150 (\<lambda>r. push_bit 8 (ucast (rtcstop r))) (\<lambda>_ v. write_rtcstop tm (hi8 v))
       (\<lambda>a v r. if odd_addr a then write_rtcstop tm v r else r),
     plain_port 0x040152 (\<lambda>r. join8 (alarmc r) (prescaler r))
       (\<lambda>a v r. if odd_addr a then r else r\<lparr>alarmc := lo8 v\<rparr>),
     byte_port 0x040154 (rtc_read_sec_min tm) (\<lambda>_ v r. r\<lparr>set_mi := hi8 v\<rparr>)
       (\<lambda>a v r. if odd_addr a then r\<lparr>set_mi := v\<rparr> else r),
     byte_port 0x040156 (rtc_read_hour_day tm) (\<lambda>_ v r. r\<lparr>set_hh := lo8 v, set_day_lo := hi8 v\<rparr>)
       (\<lambda>a v r. if odd_addr a then r\<lparr>set_day_lo := v\<rparr> else r\<lparr>set_hh := v\<rparr>),
     byte_port 0x040158 (rtc_read_dayh_alarm tm) (\<lambda>_ v r. r\<lparr>set_day_hi := lo8 v, alarm_mi := hi8 v\<rparr>)
       (\<lambda>a v r. if odd_addr a then r\<lparr>alarm_mi := v\<rparr> else r\<lparr>set_day_hi := v\<rparr>),
     rtc_alarm_port]"

interpretation rtcalarm: byte_pair rtc_alarm_port alarm_hh alarm_d
  "\<lambda>r. (rtcstop r, current_seconds tm r, prescaler r, alarm_mi r)" for tm
  unfolding rtc_alarm_port_def
  by (rule byte_pair_intro) (simp_all add: odd_addr_def current_seconds_def host_seconds_def)

section \<open>Setting and reading the time\<close>

text \<open>The registers as the guest reads them: day number, hour, minute, second.\<close>

definition rtc_fields :: "host_tm \<Rightarrow> rtc \<Rightarrow> int \<times> int \<times> int \<times> int" where
  "rtc_fields tm r =
    (uint (hi8 (rtc_read_hour_day tm r)) + 256 * uint (lo8 (rtc_read_dayh_alarm tm r)),
     uint (lo8 (rtc_read_hour_day tm r)), uint (hi8 (rtc_read_sec_min tm r)), uint (lo8 (rtc_read_sec_min tm r)))"

definition split_seconds :: "int \<Rightarrow> int \<times> int \<times> int \<times> int" where
  "split_seconds s = (s div 86400 mod 65536, s mod 86400 div 3600, s mod 3600 div 60, s mod 60)"

lemma sdiv_pos: "0 \<le> (a :: int) \<Longrightarrow> 0 < b \<Longrightarrow> a sdiv b = a div b" "0 \<le> (a :: int) \<Longrightarrow> 0 < b \<Longrightarrow> a smod b = a mod b"
  by (simp_all add: signed_divide_int_def signed_modulo_int_def sgn_if)

lemma u8_of_int: "0 \<le> x \<Longrightarrow> x < 256 \<Longrightarrow> uint (word_of_int x :: u8) = x"
  by (simp add: uint_word_of_int)

lemma and255: "(x :: int) AND 0xFF = x mod 256"
proof -
  have "(0xFF :: int) = mask 8" by (simp add: mask_eq_exp_minus_1)
  then show ?thesis by (simp only: take_bit_eq_mask [symmetric]) (simp add: take_bit_eq_mod)
qed

lemma rtc_fields_eq:
  assumes "0 \<le> current_seconds tm r"
  shows "rtc_fields tm r = split_seconds (current_seconds tm r)"
proof -
  define s where "s = current_seconds tm r"
  have s: "0 \<le> s" using assms by (simp add: s_def)
  have d: "s sdiv 86400 = s div 86400" by (rule sdiv_pos) (use s in simp_all)
  define D where "D = s div 86400"
  define T where "T = s mod 86400"
  have D: "0 \<le> D" using s by (simp add: D_def pos_imp_zdiv_nonneg_iff)
  have T: "0 \<le> T" "T < 86400" by (simp_all add: T_def)
  have t: "s - D * 86400 = T" by (simp add: D_def T_def minus_div_mult_eq_mod)
  have h: "0 \<le> T div 3600" "T div 3600 < 256" using T by (simp_all add: pos_imp_zdiv_nonneg_iff)
  have m: "0 \<le> T div 60 mod 60" "T div 60 mod 60 < 256" "0 \<le> T mod 60" "T mod 60 < 256"
    by (simp_all add: order_less_trans [OF pos_mod_bound])
  have t60: "T div 60 mod 60 = s mod 3600 div 60" "T mod 60 = s mod 60"
  proof -
    have "T mod 3600 = s mod 3600" unfolding T_def by (simp add: mod_mod_cancel)
    moreover have "T div 60 mod 60 = T mod 3600 div 60"
      by (simp add: zmod_zmult2_eq [of 60 T 60, simplified])
    ultimately show "T div 60 mod 60 = s mod 3600 div 60" by simp
    show "T mod 60 = s mod 60" unfolding T_def by (simp add: mod_mod_cancel)
  qed
  have dd: "D mod 256 + 256 * (D div 256 mod 256) = D mod 65536"
    using zmod_zmult2_eq [of 256 D 256] by simp
  have dp: "T sdiv 60 = T div 60" "T sdiv 3600 = T div 3600" "T smod 60 = T mod 60"
    "(T div 60) smod 60 = T div 60 mod 60"
    using T by (simp_all add: sdiv_pos pos_imp_zdiv_nonneg_iff)
  show ?thesis
    unfolding rtc_fields_def rtc_read_hour_day_def rtc_read_dayh_alarm_def rtc_read_sec_min_def Let_def
      s_def [symmetric] d D_def [symmetric] t dp join8_parts and255 drop_bit_eq_div split_seconds_def T_def [symmetric]
    using h m D by (simp add: u8_of_int dd t60)
qed

text \<open>
  What the kernel does to set a stopped clock: the minute, hour and day registers by halfword
  stores, then \<open>RTCSTOP = 1\<close>.
\<close>

definition rtc_set_and_run :: "host_tm \<Rightarrow> u16 \<Rightarrow> u8 \<Rightarrow> u8 \<Rightarrow> rtc \<Rightarrow> rtc" where
  "rtc_set_and_run tm day h mi r =
    (let store = (\<lambda>k v r. fst (port_wr (rtc_ports tm ! k) (port_base (rtc_ports tm ! k)) v r))
     in store 0 (join8 0 1) (store 4 (join8 (hi8 day) 0) (store 3 (join8 h (lo8 day)) (store 2 (join8 0 mi) r))))"

lemma set_and_run_eq:
  assumes "rtcstop r AND 0x02 \<noteq> 0"
  shows "rtc_set_and_run tm day h mi r =
    apply_set_to_offset tm (r\<lparr>set_mi := mi, set_hh := h, set_day_lo := lo8 day, set_day_hi := hi8 day,
      alarm_mi := 0, rtcstop := 1\<rparr>)"
  using assms
  by (simp add: rtc_set_and_run_def rtc_ports_def byte_port_def silent_def write_rtcstop_def Let_def)

lemma day_word: "uint (push_bit 8 (ucast (hi8 d)) OR ucast (lo8 d) :: u64) = uint (d :: u16)"
proof -
  have "(push_bit 8 (ucast (hi8 d)) OR ucast (lo8 d) :: u64) = ucast d"
    by (rule bit_word_eqI) (auto simp: hi8_def lo8_def bit_simps dest: bit_imp_le_length)
  moreover have "uint (ucast d :: u64) = uint d"
    using uint_lt2p [of d] by (simp add: unsigned_ucast_eq take_bit_int_eq_self)
  ultimately show ?thesis by (simp only:)
qed

text \<open>
  Setting the clock takes: storing a day number, an hour below 24 and a minute below 60 into a
  stopped clock and starting it makes the day, hour, minute and second registers read, at any
  later host time, exactly the time set (with second 0) plus the seconds the host clock has gone
  on since, the day number modulo 65536.
\<close>
theorem rtc_set_time_reads_back:
  assumes "rtcstop r AND 0x02 \<noteq> 0" "uint h < 24" "uint mi < 60"
    "r' = rtc_set_and_run tm day h mi r" "host_seconds tm r \<le> host_seconds tm' r"
  shows "rtc_fields tm' r' =
    split_seconds (uint day * 86400 + uint h * 3600 + uint mi * 60 + (host_seconds tm' r - host_seconds tm r))"
proof -
  have c: "current_seconds tm' r' =
      uint day * 86400 + uint h * 3600 + uint mi * 60 + (host_seconds tm' r - host_seconds tm r)"
    by (simp add: assms(4) set_and_run_eq [OF assms(1)] apply_set_to_offset_def current_seconds_def
        set_seconds_def day_word host_seconds_def)
  have "0 \<le> current_seconds tm' r'" unfolding c using assms(5) by simp
  then show ?thesis by (simp only: rtc_fields_eq c)
qed

definition rtc_sample :: rtc where
  "rtc_sample = (rtc_attached clk_init)\<lparr>rtcstop := 2, fixed_mode := True, fixed_epoch := 1000\<rparr>"

lemma rtc_set_time_reads_back_witness:
  "rtc_fields undefined (rtc_set_and_run undefined 366 23 59 rtc_sample) = (366, 23, 59, 0)"
  using rtc_set_time_reads_back [of rtc_sample 23 59 "rtc_set_and_run undefined 366 23 59 rtc_sample"
      undefined 366 undefined]
  by (simp add: rtc_sample_def split_seconds_def)

text \<open>A clock stopped and then written neither run nor stop stays frozen whatever is written next but a stop.\<close>

lemma rtc_stays_frozen:
  assumes "frozen r" "rtcstop r AND 0x02 = 0" "v AND 0x02 = 0"
  shows "frozen (write_rtcstop tm v r)" "rtcstop (write_rtcstop tm v r) AND 0x02 = 0"
    "current_seconds tm' (write_rtcstop tm v r) = frozen_sec r"
  using assms by (simp_all add: write_rtcstop_def Let_def current_seconds_def)

section \<open>The prescaler\<close>

lemma prescaler_period_bounds:
  "prescaler_period (cpu_clock_hz clk) \<noteq> 0" "unat (prescaler_period (cpu_clock_hz clk)) \<le> 2 ^ 62"
proof -
  have p: "unat (cpu_clock_hz clk) \<le> 48000000" by (rule cpu_clock_le)
  have "256 \<le> unat (cpu_clock_hz clk)" by (rule cpu_clock_ge)
  moreover from this have "unat (prescaler_period (cpu_clock_hz clk)) = unat (cpu_clock_hz clk) div 256"
    by (auto simp: prescaler_period_def unat_div u64_of_u32)
  ultimately have "0 < unat (prescaler_period (cpu_clock_hz clk))" "unat (prescaler_period (cpu_clock_hz clk)) \<le> 2 ^ 62"
    using p by (simp_all add: div_greater_zero_iff)
  then show "prescaler_period (cpu_clock_hz clk) \<noteq> 0" "unat (prescaler_period (cpu_clock_hz clk)) \<le> 2 ^ 62"
    by auto
qed

lemma u8_add_many: "((\<lambda>x. x + 1) ^^ k) (p :: u8) = p + word_of_nat k"
  by (induction k) simp_all

lemma u8_mod_cong: "m mod 256 = n mod 256 \<Longrightarrow> (word_of_nat m :: u8) = word_of_nat n"
  by (simp add: word_of_nat_eq_iff take_bit_eq_mod)

interpretation rtcp: paced_counter
  "\<lambda>r. rtcstop r AND 0x02 = 0" "\<lambda>r. unat (next_prescaler r)"
  "\<lambda>r. unat (prescaler_period (cpu_clock_hz clk))" prescaler "\<lambda>r. ()" "\<lambda>_ p. p + 1"
  "\<lambda>c r. rtc_tick clk (word_of_nat c) r" "2 ^ 63" for clk :: clkctl
proof
  fix s :: rtc and c
  let ?p = "prescaler_period (cpu_clock_hz clk)"
  show "0 < unat ?p" using prescaler_period_bounds(1) by (simp add: unat_gt_0)
  assume i: "rtcstop s AND 0x02 = 0" and c: "c < (2 :: nat) ^ 63"
  note u = u64_of_nat [OF c]
  show "rtc_tick clk (word_of_nat c) s = s" if "c < unat (next_prescaler s)"
    using that by (simp add: rtc_tick_def word_less_nat_alt u)
  fix s' assume d: "unat (next_prescaler s) \<le> c" and s': "s' = rtc_tick clk (word_of_nat c) s"
  have le: "next_prescaler s \<le> word_of_nat c" using d by (simp add: word_le_nat_alt u)
  have cc: "unat (word_of_nat c :: u64) < 2 ^ 63" using c by (simp only: u)
  let ?k = "counts_due (next_prescaler s) (word_of_nat c) ?p"
  have k: "unat ?k = due_nat (unat (next_prescaler s)) c (unat ?p)"
    using counts_due_unat [OF le cc, of ?p] by (simp only: u)
  have e: "s' = s\<lparr>next_prescaler := next_prescaler s + ?k * ?p, prescaler := ucast (ucast (prescaler s) + ?k)\<rparr>"
    using i leD [OF le] prescaler_period_bounds(1) [of clk] by (simp add: s' rtc_tick_def Let_def)
  have add: "ucast (ucast (prescaler s) + ?k) = prescaler s + word_of_nat (unat ?k)"
  proof -
    have "(ucast (ucast (prescaler s) + ?k) :: u8) = word_of_nat (unat (ucast (prescaler s) + ?k))"
      by (rule u8_down_of_nat)
    also have "unat (ucast (prescaler s) + ?k) mod 256 = (unat (prescaler s) + unat ?k) mod 256"
      by (simp only: unat_word_ariths u8_ucast64) (simp add: mod_mod_cancel)
    then have "(word_of_nat (unat (ucast (prescaler s) + ?k)) :: u8) = word_of_nat (unat (prescaler s) + unat ?k)"
      by (rule u8_mod_cong)
    finally show ?thesis by simp
  qed
  show "rtcstop s' AND 0x02 = 0 \<and> () = () \<and> unat ?p = unat ?p \<and>
    unat (next_prescaler s') = unat (next_prescaler s) + due_nat (unat (next_prescaler s)) c (unat ?p) * unat ?p \<and>
    prescaler s' = ((\<lambda>x. x + 1) ^^ due_nat (unat (next_prescaler s)) c (unat ?p)) (prescaler s)"
    using i next_tick_unat [OF le cc prescaler_period_bounds] add unfolding u
    by (simp add: e u8_add_many k)
qed

end
