(* ===== verification/PortCtrl.thy ===== *)
theory PortCtrl
  imports Ports Intc
begin

text \<open>
  The port controller of \<^verbatim>\<open>src/soc/peripheral_portctrl.{hpp,cpp}\<close>: key inputs, key interrupts, the
  port registers, and the P0 line that slows the CPU clock. The lemmas show that the clock
  controller is told of every change of that line, and interpret the byte-register contract.
\<close>

section \<open>State and key interrupts\<close>

text \<open>\<open>pint\<close> has 10 bytes and \<open>pport\<close> 16; every index the code uses is below that.\<close>

record portctrl =
  cfk5 :: u8
  k5d :: u8
  cfk6 :: u8
  k6d :: u8
  pint :: "nat \<Rightarrow> u8"
  pport :: "nat \<Rightarrow> u8"

definition portctrl_init :: portctrl where
  "portctrl_init = \<lparr> cfk5 = 0, k5d = 0xFF, cfk6 = 0, k6d = 0xFF, pint = (\<lambda>_. 0), pport = (\<lambda>_. 0)(1 := 0x80) \<rparr>"

definition portctrl_reset :: "portctrl \<Rightarrow> portctrl" where "portctrl_reset p = portctrl_init"

abbreviation (input) SPPK :: nat where "SPPK \<equiv> 4"
abbreviation (input) SCPK0 :: nat where "SCPK0 \<equiv> 6"
abbreviation (input) SCPK1 :: nat where "SCPK1 \<equiv> 7"
abbreviation (input) SMPK0 :: nat where "SMPK0 \<equiv> 8"
abbreviation (input) SMPK1 :: nat where "SMPK1 \<equiv> 9"

definition key_active :: "u8 \<Rightarrow> u8 \<Rightarrow> portctrl \<Rightarrow> u8" where
  "key_active sel mk p = (if sel = 0 then k5d p AND NOT mk else if sel = 1 then k6d p AND NOT mk else 0)"

definition check_key_irq :: "portctrl \<Rightarrow> irq_source list" where
  "check_key_irq p =
    (let mask0 = pint p SMPK0; cmp0 = pint p SCPK0 AND NOT mask0;
         act0 = key_active (pint p SPPK AND 0x03) mask0 p;
         mask1 = pint p SMPK1; cmp1 = pint p SCPK1 AND NOT mask1;
         act1 = key_active (drop_bit 2 (pint p SPPK) AND 0x03) mask1 p
     in (if act0 = cmp0 then [KEY0] else []) @ (if act1 = cmp1 then [KEY1] else []))"

definition set_k5 :: "u8 \<Rightarrow> portctrl \<Rightarrow> portctrl \<times> irq_source list" where
  "set_k5 bits p = (let p1 = p\<lparr>k5d := bits\<rparr> in (p1, check_key_irq p1))"

definition set_k6 :: "u8 \<Rightarrow> portctrl \<Rightarrow> portctrl \<times> irq_source list" where
  "set_k6 bits p = (let p1 = p\<lparr>k6d := bits\<rparr> in (p1, check_key_irq p1))"

text \<open>P21, the register-select line of the display: bit 1 of the data register of port 2.\<close>

definition port_data :: "nat \<Rightarrow> portctrl \<Rightarrow> u8" where "port_data k p = pport p (k * 4 + 1)"
definition p21d :: "portctrl \<Rightarrow> bool" where "p21d p \<longleftrightarrow> bit (port_data 2 p) 1"

section \<open>Registers\<close>

text \<open>The events are the calls of \<open>ClockControl::set_p07\<close>.\<close>

definition p07_notify :: "u8 \<Rightarrow> portctrl \<Rightarrow> bool list" where
  "p07_notify old_hi p =
    (let new_hi = pport p 1
     in if (old_hi XOR new_hi) AND 0x80 \<noteq> 0 then [new_hi AND 0x80 \<noteq> 0] else [])"

definition pint_port :: "nat \<Rightarrow> (portctrl, bool) port" where
  "pint_port i = byte_port (0x0402C6 + word_of_nat (i * 2)) (\<lambda>p. join8 (pint p (i * 2)) (pint p (i * 2 + 1)))
     (\<lambda>_ v p. p\<lparr>pint := (pint p)(i * 2 := lo8 v, i * 2 + 1 := hi8 v)\<rparr>)
     (\<lambda>a v p. if odd_addr a then p\<lparr>pint := (pint p)(i * 2 + 1 := v)\<rparr> else p\<lparr>pint := (pint p)(i * 2 := v)\<rparr>)"

definition pport_port :: "nat \<Rightarrow> (portctrl, bool) port" where
  "pport_port i = \<lparr> port_base = 0x0402D0 + word_of_nat (i * 2),
     port_rd = (\<lambda>p. join8 (pport p (i * 2)) (pport p (i * 2 + 1))),
     port_wr = (\<lambda>_ v p. let old_hi = pport p (i * 2 + 1);
                             p1 = p\<lparr>pport := (pport p)(i * 2 := lo8 v, i * 2 + 1 := hi8 v)\<rparr>
                         in (p1, if i = 0 then p07_notify old_hi p1 else [])),
     port_wb = Some (\<lambda>a v p. let old_hi = pport p (i * 2 + 1);
                             p1 = (if odd_addr a then p\<lparr>pport := (pport p)(i * 2 + 1 := v)\<rparr>
                                   else p\<lparr>pport := (pport p)(i * 2 := v)\<rparr>)
                         in (p1, if i = 0 then p07_notify old_hi p1 else [])) \<rparr>"

definition portctrl_ports :: "(portctrl, bool) port list" where
  "portctrl_ports =
    [plain_port 0x0402C0 (\<lambda>p. join8 (cfk5 p) (k5d p)) (\<lambda>a v p. if \<not> odd_addr a then p\<lparr>cfk5 := lo8 v\<rparr> else p),
     byte_port 0x0402C2 (\<lambda>p. push_bit 8 (ucast (cfk6 p))) (\<lambda>_ v p. p\<lparr>cfk6 := hi8 v\<rparr>)
       (\<lambda>a v p. if odd_addr a then p\<lparr>cfk6 := v\<rparr> else p),
     plain_port 0x0402C4 (\<lambda>p. ucast (k6d p)) (\<lambda>_ _ p. p)]
    @ map pint_port [0..<5] @ map pport_port [0..<8]"

section \<open>Byte-precise ports\<close>

lemma even_port_addr: "\<not> odd_addr b \<Longrightarrow> \<not> odd_addr (b + word_of_nat (i * 2))"
proof -
  have "bit (word_of_nat (i * 2) :: u32) 0 = False" by (simp add: bit_0)
  moreover have "bit (b + c) 0 = (bit b 0 \<noteq> bit c 0)" for c :: u32 by (simp add: bit_0)
  ultimately show "\<not> odd_addr b \<Longrightarrow> ?thesis" by (simp add: odd_addr_bit)
qed

interpretation pint: byte_pair "pint_port i" "\<lambda>p. pint p (i * 2)" "\<lambda>p. pint p (i * 2 + 1)"
  "\<lambda>p. (cfk5 p, k5d p, cfk6 p, k6d p, pport p, (pint p)(i * 2 := 0, i * 2 + 1 := 0))" for i
proof (rule byte_pair_rule)
  show "\<not> odd_addr (port_base (pint_port i))"
    unfolding pint_port_def byte_port_def port.simps by (rule even_port_addr) (simp add: odd_addr_def)
qed (auto simp: pint_port_def byte_port_def silent_def fun_eq_iff)

interpretation pport: byte_pair "pport_port i" "\<lambda>p. pport p (i * 2)" "\<lambda>p. pport p (i * 2 + 1)"
  "\<lambda>p. (cfk5 p, k5d p, cfk6 p, k6d p, pint p, (pport p)(i * 2 := 0, i * 2 + 1 := 0))" for i
proof (rule byte_pair_rule)
  show "\<not> odd_addr (port_base (pport_port i))"
    unfolding pport_port_def port.simps by (rule even_port_addr) (simp add: odd_addr_def)
qed (auto simp: pport_port_def Let_def fun_eq_iff)

section \<open>P07 and the keys\<close>

text \<open>
  The clock controller is told about the oscillator pin exactly when it changes: for a store
  of a byte or a halfword to any port data or configuration register, \<open>set_p07\<close> is called
  when and only when bit 7 of the port 0 data register flips, once, with its new value.
\<close>
theorem portctrl_p07_notified:
  assumes "i < 8" "(p', e) = port_wr (pport_port i) a x p \<or> (p', e) = port_store8 (pport_port i) a v p"
  shows "e = (if bit (pport p' 1) 7 \<noteq> bit (pport p 1) 7 then [bit (pport p' 1) 7] else [])"
proof -
  have m: "((x :: u8) AND 0x80 \<noteq> 0) = bit x 7" for x
    using bit_iff_and_push_bit_not_eq_0 [of x 7] by simp
  have n: "p07_notify old q = (if bit (pport q 1) 7 \<noteq> bit old 7 then [bit (pport q 1) 7] else [])" for old q
    unfolding p07_notify_def Let_def m by (auto simp: bit_xor_iff)
  have i: "i \<noteq> 0 \<Longrightarrow> i * 2 \<noteq> 1" "(1 = i * 2 + 1) = (i = 0)" by presburger+
  show ?thesis
    using assms(2) i by (cases "i = 0") (auto simp: pport_port_def port_store8_def Let_def n split: if_splits)
qed

lemma portctrl_p07_notified_witness:
  "snd (port_store8 (pport_port 0) 0x0402D1 0 portctrl_init) = [False]"
  using portctrl_p07_notified [where i = 0 and a = "0x0402D1" and v = 0 and p = portctrl_init, OF _ disjI2, OF _ prod.collapse]
  by (simp add: pport_port_def port_store8_def odd_addr_def portctrl_init_def Let_def)

end
