(* ===== verification/Bcu.thy ===== *)
theory Bcu
  imports Ports
begin

text \<open>
  The bus control registers of \<^verbatim>\<open>src/soc/peripheral_bcu_area.{hpp,cpp}\<close>: wait states, bus timing and
  the trap table base. The lemmas show that after a reset what the registers say is what the bus
  and the CPU have been told, and that before the first reset it is not.
\<close>

section \<open>State and operations\<close>

record bcu =
  a18_15 :: u16
  a14_13 :: u16
  a12_11 :: u16
  a10_9 :: u16
  a8_7 :: u16
  a6_4 :: u16
  bus_ctl :: u16
  dram :: u16
  access_ctl :: u16
  bcu_ttbr :: u32

text \<open>What a store does outside the members: the bus wait counts and the CPU's trap table base.\<close>

datatype bcu_effect = SramWait int | FlashWait int | CpuTtbr u32

definition bcu_init :: bcu where
  "bcu_init = \<lparr> a18_15 = 0x7777, a14_13 = 0x7777, a12_11 = 0x7777, a10_9 = 0x7777, a8_7 = 0x7777,
     a6_4 = 0x7777, bus_ctl = 0, dram = 0, access_ctl = 0, bcu_ttbr = 0x0C0000 \<rparr>"

definition bcu_reset :: "bcu \<Rightarrow> bcu \<times> bcu_effect list" where
  "bcu_reset b = (bcu_init, [SramWait 7, FlashWait 7, CpuTtbr (bcu_ttbr bcu_init)])"

definition on_a6_4_write :: "u16 \<Rightarrow> bcu \<Rightarrow> bcu \<times> bcu_effect list" where
  "on_a6_4_write v b = (b\<lparr>a6_4 := v\<rparr>, [SramWait (uint (v AND 0x07))])"

definition on_a10_9_write :: "u16 \<Rightarrow> bcu \<Rightarrow> bcu \<times> bcu_effect list" where
  "on_a10_9_write v b = (b\<lparr>a10_9 := v\<rparr>, [FlashWait (uint (v AND 0x07))])"

definition on_ttbr_write :: "u32 \<Rightarrow> bcu \<Rightarrow> bcu \<times> bcu_effect list" where
  "on_ttbr_write v b = (b\<lparr>bcu_ttbr := v\<rparr>, [CpuTtbr v])"

definition effect_port :: "u32 \<Rightarrow> ('s \<Rightarrow> u16) \<Rightarrow> (u16 \<Rightarrow> 's \<Rightarrow> 's \<times> 'e list) \<Rightarrow> ('s, 'e) port" where
  "effect_port b r w = \<lparr> port_base = b, port_rd = r, port_wr = (\<lambda>_ v s. w v s), port_wb = None \<rparr>"

definition bcu_ports :: "(bcu, bcu_effect) port list" where
  "bcu_ports = [
     plain_port 0x048120 a18_15 (\<lambda>_ v b. b\<lparr>a18_15 := v\<rparr>),
     plain_port 0x048122 a14_13 (\<lambda>_ v b. b\<lparr>a14_13 := v\<rparr>),
     plain_port 0x048124 a12_11 (\<lambda>_ v b. b\<lparr>a12_11 := v\<rparr>),
     effect_port 0x048126 a10_9 on_a10_9_write,
     plain_port 0x048128 a8_7 (\<lambda>_ v b. b\<lparr>a8_7 := v\<rparr>),
     effect_port 0x04812A a6_4 on_a6_4_write,
     plain_port 0x04812C (\<lambda>_. 0) (\<lambda>_ _ b. b),
     plain_port 0x04812E bus_ctl (\<lambda>_ v b. b\<lparr>bus_ctl := v\<rparr>),
     plain_port 0x048130 dram (\<lambda>_ v b. b\<lparr>dram := v\<rparr>),
     plain_port 0x048132 access_ctl (\<lambda>_ v b. b\<lparr>access_ctl := v\<rparr>),
     effect_port 0x048134 (\<lambda>b. ucast (bcu_ttbr b))
       (\<lambda>v b. on_ttbr_write ((bcu_ttbr b AND 0xFFFF0000) OR ucast v) b),
     effect_port 0x048136 (\<lambda>b. ucast (drop_bit 16 (bcu_ttbr b)))
       (\<lambda>v b. on_ttbr_write ((bcu_ttbr b AND 0x0000FFFF) OR push_bit 16 (ucast v)) b),
     plain_port 0x048138 (\<lambda>_. 0) (\<lambda>_ _ b. b),
     plain_port 0x04813A (\<lambda>_. 0) (\<lambda>_ _ b. b)]"

section \<open>Registers and their effects stay together\<close>

text \<open>The wait counts and the table base that the bus and the CPU hold.\<close>

record bcu_view =
  view_sram :: int
  view_flash :: int
  view_ttbr :: u32

fun view_effect :: "bcu_effect \<Rightarrow> bcu_view \<Rightarrow> bcu_view" where
  "view_effect (SramWait n) v = v\<lparr>view_sram := n\<rparr>"
| "view_effect (FlashWait n) v = v\<lparr>view_flash := n\<rparr>"
| "view_effect (CpuTtbr t) v = v\<lparr>view_ttbr := t\<rparr>"

definition in_step :: "bcu \<Rightarrow> bcu_view \<Rightarrow> bool" where
  "in_step b v \<longleftrightarrow> view_sram v = uint (a6_4 b AND 0x07) \<and> view_flash v = uint (a10_9 b AND 0x07)
     \<and> view_ttbr v = bcu_ttbr b"

lemma in_step_reset: "in_step (fst (bcu_reset b)) (fold view_effect (snd (bcu_reset b)) v)"
  by (simp add: bcu_reset_def in_step_def bcu_init_def)

lemma in_step_write:
  assumes "p \<in> set bcu_ports" "in_step b v"
  shows "in_step (fst (port_wr p a x b)) (fold view_effect (snd (port_wr p a x b)) v)"
  using assms
  by (auto simp: bcu_ports_def plain_port_def effect_port_def silent_def in_step_def on_a6_4_write_def
      on_a10_9_write_def on_ttbr_write_def)

text \<open>A byte store arrives as a halfword store of the zero-extended byte.\<close>

lemma bcu_byte_store: "p \<in> set bcu_ports \<Longrightarrow> port_store8 p a v b = port_wr p a (ucast v) b"
  by (auto simp: bcu_ports_def plain_port_def effect_port_def port_store8_def)

primrec bcu_stores :: "(nat \<times> u32 \<times> u16) list \<Rightarrow> bcu \<times> bcu_view \<Rightarrow> bcu \<times> bcu_view" where
  "bcu_stores [] s = s"
| "bcu_stores (k # ks) s =
    (case k of (i, a, x) \<Rightarrow>
     case port_wr (bcu_ports ! i) a x (fst s) of (b, e) \<Rightarrow> bcu_stores ks (b, fold view_effect e (snd s)))"

text \<open>
  From a reset of the bus controller on, after any sequence of stores to its registers, the
  wait counts the bus charges and the trap table base the processor uses are the ones the
  registers read: the SRAM and flash waits are the low three bits of their area registers and
  the table base is the register, whichever half was stored last.
\<close>
theorem bcu_registers_in_effect:
  assumes "\<forall>k\<in>set ks. fst k < length bcu_ports" "(b', v') = bcu_stores ks (b, v)"
    "b = fst (bcu_reset b0)" "v = fold view_effect (snd (bcu_reset b0)) v0"
  shows "in_step b' v'"
proof -
  have "in_step b v \<Longrightarrow> \<forall>k\<in>set ks. fst k < length bcu_ports \<Longrightarrow> (b', v') = bcu_stores ks (b, v) \<Longrightarrow> in_step b' v'"
    for b v
  proof (induction ks arbitrary: b v)
    case Nil then show ?case by simp
  next
    case (Cons k ks)
    obtain i a x where k: "k = (i, a, x)" by (cases k)
    have "bcu_ports ! i \<in> set bcu_ports" using Cons.prems(2) by (simp add: k)
    from in_step_write [OF this Cons.prems(1), of a x] Cons.IH Cons.prems(2,3)
    show ?case by (auto simp: k split: prod.splits)
  qed
  with in_step_reset assms show ?thesis by blast
qed


definition bcu_view0 :: bcu_view where
  "bcu_view0 = \<lparr> view_sram = 2, view_flash = 2, view_ttbr = 0x400 \<rparr>"

lemma bcu_registers_in_effect_witness:
  "in_step (bcu_init\<lparr>a6_4 := 0x2222\<rparr>) \<lparr> view_sram = 2, view_flash = 7, view_ttbr = 0x0C0000 \<rparr>"
  by (rule bcu_registers_in_effect [of "[(5, 0, 0x2222)]" _ _ bcu_init "\<lparr> view_sram = 7, view_flash = 7, view_ttbr = 0x0C0000 \<rparr>" bcu_init bcu_view0])
    (simp_all add: bcu_ports_def effect_port_def on_a6_4_write_def bcu_reset_def bcu_view0_def bcu_init_def)

text \<open>Before the first reset the constructed registers and the bus disagree.\<close>

lemma bcu_constructed_not_in_step: "\<not> in_step bcu_init bcu_view0"
  by (simp add: in_step_def bcu_view0_def bcu_init_def)

end
