(* ===== verification/SerialDma.thy ===== *)
theory SerialDma
  imports Ports
begin

text \<open>
  The high-speed DMA of \<^verbatim>\<open>src/soc/peripheral_hsdma.{hpp,cpp}\<close> and the serial interface of
  \<^verbatim>\<open>src/soc/peripheral_sif3.{hpp,cpp}\<close>, which triggers it and feeds the display. The lemmas show what
  an inline transfer moves and that it ends.
\<close>

section \<open>HSDMA state and registers\<close>

record chan_regs =
  c_cnt :: u32
  c_sadr :: u32
  c_dadr :: u32
  c_en :: u16
  c_tf :: u16

record hsdma =
  ch0_en :: bool
  ch0_cnt :: u32
  ch0_sadr :: u32
  ch1_en :: bool
  ch1_cnt :: u32
  ch1_sadr :: u32
  chan :: "nat \<Rightarrow> chan_regs"

text \<open>The callbacks \<open>on_ch1_start\<close>, \<open>on_ch0_complete\<close> and \<open>on_ch1_complete\<close>.\<close>

datatype dma_event = Ch1Start u32 u32 | Ch0Complete | Ch1Complete

definition chan0 :: chan_regs where
  "chan0 = \<lparr> c_cnt = 0, c_sadr = 0, c_dadr = 0, c_en = 0, c_tf = 0 \<rparr>"

definition hsdma_init :: hsdma where
  "hsdma_init = \<lparr> ch0_en = False, ch0_cnt = 0, ch0_sadr = 0, ch1_en = False, ch1_cnt = 0, ch1_sadr = 0,
     chan = (\<lambda>_. chan0) \<rparr>"

definition hsdma_reset :: "hsdma \<Rightarrow> hsdma" where "hsdma_reset h = hsdma_init"

definition upd_chan :: "nat \<Rightarrow> (chan_regs \<Rightarrow> chan_regs) \<Rightarrow> hsdma \<Rightarrow> hsdma" where
  "upd_chan k f h = h\<lparr>chan := (chan h)(k := f (chan h k))\<rparr>"

definition on_en_write :: "nat \<Rightarrow> u16 \<Rightarrow> hsdma \<Rightarrow> hsdma \<times> dma_event list" where
  "on_en_write k v h =
    (let new_en = (v AND 1 \<noteq> 0); old_en = (c_en (chan h k) AND 1 \<noteq> 0);
         h1 = upd_chan k (\<lambda>c. c\<lparr>c_en := v\<rparr>) h
     in if k = 0 then
          (h1\<lparr>ch0_en := new_en, ch0_cnt := c_cnt (chan h1 0) AND 0x00FFFFFF,
              ch0_sadr := c_sadr (chan h1 0) AND 0x0FFFFFFF\<rparr>, [])
        else if k = 1 then
          (let h2 = h1\<lparr>ch1_en := new_en, ch1_cnt := c_cnt (chan h1 1) AND 0x00FFFFFF,
                       ch1_sadr := c_sadr (chan h1 1) AND 0x0FFFFFFF\<rparr>
           in (h2, if \<not> old_en \<and> new_en then [Ch1Start (ch1_sadr h2) (ch1_cnt h2)] else []))
        else (h1, []))"

definition sync_cnt :: "nat \<Rightarrow> hsdma \<Rightarrow> hsdma" where
  "sync_cnt k h = (if k = 0 then h\<lparr>ch0_cnt := c_cnt (chan h 0) AND 0x00FFFFFF\<rparr>
                   else if k = 1 then h\<lparr>ch1_cnt := c_cnt (chan h 1) AND 0x00FFFFFF\<rparr> else h)"

definition sync_sadr :: "nat \<Rightarrow> hsdma \<Rightarrow> hsdma" where
  "sync_sadr k h = (if k = 0 then h\<lparr>ch0_sadr := c_sadr (chan h 0) AND 0x0FFFFFFF\<rparr>
                    else if k = 1 then h\<lparr>ch1_sadr := c_sadr (chan h 1) AND 0x0FFFFFFF\<rparr> else h)"

definition put_lo16 :: "u16 \<Rightarrow> u32 \<Rightarrow> u32" where "put_lo16 v w = (w AND 0xFFFF0000) OR ucast v"
definition put_hi16 :: "u16 \<Rightarrow> u32 \<Rightarrow> u32" where "put_hi16 v w = (w AND 0x0000FFFF) OR push_bit 16 (ucast v)"

definition channel_ports :: "nat \<Rightarrow> (hsdma, dma_event) port list" where
  "channel_ports k =
    (let base = 0x048220 + word_of_nat k * 0x10; c = (\<lambda>h. chan h k) in
     [plain_port base (\<lambda>h. ucast (c_cnt (c h)))
        (\<lambda>_ v h. sync_cnt k (upd_chan k (\<lambda>r. r\<lparr>c_cnt := put_lo16 v (c_cnt r)\<rparr>) h)),
      plain_port (base + 2) (\<lambda>h. ucast (drop_bit 16 (c_cnt (c h))))
        (\<lambda>_ v h. sync_cnt k (upd_chan k (\<lambda>r. r\<lparr>c_cnt := put_hi16 v (c_cnt r)\<rparr>) h)),
      plain_port (base + 4) (\<lambda>h. ucast (c_sadr (c h)))
        (\<lambda>_ v h. sync_sadr k (upd_chan k (\<lambda>r. r\<lparr>c_sadr := put_lo16 v (c_sadr r)\<rparr>) h)),
      plain_port (base + 6) (\<lambda>h. ucast (drop_bit 16 (c_sadr (c h))))
        (\<lambda>_ v h. sync_sadr k (upd_chan k (\<lambda>r. r\<lparr>c_sadr := put_hi16 v (c_sadr r)\<rparr>) h)),
      plain_port (base + 8) (\<lambda>h. ucast (c_dadr (c h)))
        (\<lambda>_ v h. upd_chan k (\<lambda>r. r\<lparr>c_dadr := put_lo16 v (c_dadr r)\<rparr>) h),
      plain_port (base + 10) (\<lambda>h. ucast (drop_bit 16 (c_dadr (c h))))
        (\<lambda>_ v h. upd_chan k (\<lambda>r. r\<lparr>c_dadr := put_hi16 v (c_dadr r)\<rparr>) h),
      \<lparr> port_base = base + 12, port_rd = (\<lambda>h. c_en (c h)), port_wr = (\<lambda>_ v h. on_en_write k v h), port_wb = None \<rparr>,
      plain_port (base + 14) (\<lambda>h. c_tf (c h)) (\<lambda>_ v h. upd_chan k (\<lambda>r. r\<lparr>c_tf := c_tf r AND NOT v\<rparr>) h)])"

definition hsdma_ports :: "(hsdma, dma_event) port list" where
  "hsdma_ports = concat (map channel_ports [0..<4])"

definition finish_ch1 :: "hsdma \<Rightarrow> hsdma \<times> dma_event list" where
  "finish_ch1 h =
    (upd_chan 1 (\<lambda>r. r\<lparr>c_en := c_en r AND NOT 1, c_cnt := 0\<rparr>) (h\<lparr>ch1_en := False, ch1_cnt := 0\<rparr>), [Ch1Complete])"

section \<open>Inline transfer of channel 0\<close>

text \<open>
  \<open>do_ch0_inline\<close> over the surroundings \<open>'m\<close>: \<open>rd\<close> is the bus byte read, \<open>cb\<close> the byte sink.
\<close>

definition ch0_step :: "hsdma \<Rightarrow> hsdma" where
  "ch0_step h =
    (let sadr = ch0_sadr h + 1; cnt = ch0_cnt h - 1;
         h1 = upd_chan 0 (\<lambda>r. r\<lparr>c_sadr := sadr, c_cnt := cnt\<rparr>) (h\<lparr>ch0_sadr := sadr, ch0_cnt := cnt\<rparr>)
     in if cnt = 0 then upd_chan 0 (\<lambda>r. r\<lparr>c_en := c_en r AND NOT 1\<rparr>) (h1\<lparr>ch0_en := False\<rparr>) else h1)"

lemma ch0_step_cnt [simp]: "ch0_cnt (ch0_step h) = ch0_cnt h - 1" "ch0_sadr (ch0_step h) = ch0_sadr h + 1"
  by (simp_all add: ch0_step_def upd_chan_def Let_def)

lemma u32_pred: "0 < (c :: u32) \<Longrightarrow> unat (c - 1) = unat c - 1" "0 < (c :: u32) \<Longrightarrow> 0 < unat c"
  by (simp_all add: unat_minus_one word_gt_0 unat_gt_0)

function ch0_loop ::
  "(u32 \<Rightarrow> 'm \<Rightarrow> u8 \<times> 'm) \<Rightarrow> (u8 \<Rightarrow> 'm \<Rightarrow> 'm) \<Rightarrow> hsdma \<Rightarrow> bool \<Rightarrow> 'm \<Rightarrow> hsdma \<times> bool \<times> 'm" where
  "ch0_loop rd cb h completed m =
    (if ch0_en h \<and> ch0_cnt h > 0
     then case rd (ch0_sadr h) m of (data, m1) \<Rightarrow>
            ch0_loop rd cb (ch0_step h) (completed \<or> ch0_cnt h - 1 = 0) (cb data m1)
     else (h, completed, m))"
  by pat_completeness auto

termination
  by (relation "measure (\<lambda>(rd, cb, h, completed, m). unat (ch0_cnt h))") (auto simp: u32_pred)

declare ch0_loop.simps [simp del]

text \<open>
  The state of the unit is carried beside the machine while the transfer runs: a source that is one of the unit's own
  registers reads what they held before.
\<close>

definition do_ch0_inline ::
  "(u32 \<Rightarrow> 'm \<Rightarrow> u8 \<times> 'm) \<Rightarrow> (u8 \<Rightarrow> 'm \<Rightarrow> 'm) \<Rightarrow> hsdma \<Rightarrow> 'm \<Rightarrow> hsdma \<times> dma_event list \<times> 'm" where
  "do_ch0_inline rd cb h m =
    (case ch0_loop rd cb h False m of (h1, completed, m1) \<Rightarrow> (h1, if completed then [Ch0Complete] else [], m1))"

section \<open>What a transfer does\<close>

text \<open>The reads and sinks of \<open>n\<close> bytes from consecutive addresses, in order.\<close>

primrec transfer ::
  "(u32 \<Rightarrow> 'm \<Rightarrow> u8 \<times> 'm) \<Rightarrow> (u8 \<Rightarrow> 'm \<Rightarrow> 'm) \<Rightarrow> nat \<Rightarrow> u32 \<Rightarrow> 'm \<Rightarrow> 'm" where
  "transfer rd cb 0 a m = m"
| "transfer rd cb (Suc n) a m = (case rd a m of (data, m1) \<Rightarrow> transfer rd cb n (a + 1) (cb data m1))"

text \<open>The state a completed transfer leaves.\<close>

definition ch0_done :: "hsdma \<Rightarrow> hsdma" where
  "ch0_done h = h\<lparr>ch0_sadr := ch0_sadr h + ch0_cnt h, ch0_cnt := 0, ch0_en := False,
     chan := (chan h)(0 := (chan h 0)\<lparr>c_sadr := ch0_sadr h + ch0_cnt h, c_cnt := 0,
                                      c_en := c_en (chan h 0) AND NOT 1\<rparr>)\<rparr>"

lemma ch0_step_more: "ch0_cnt h - 1 \<noteq> 0 \<Longrightarrow> ch0_en (ch0_step h) = ch0_en h"
  by (simp add: ch0_step_def upd_chan_def Let_def)

lemma ch0_done_step: "ch0_cnt h - 1 \<noteq> 0 \<Longrightarrow> ch0_done (ch0_step h) = ch0_done h"
  by (simp add: ch0_done_def ch0_step_def upd_chan_def Let_def)

lemma ch0_step_last: "ch0_cnt h = 1 \<Longrightarrow> ch0_step h = ch0_done h"
  by (simp add: ch0_done_def ch0_step_def upd_chan_def Let_def)

lemma ch0_loop_transfer:
  assumes "ch0_en h" "unat (ch0_cnt h) = Suc n"
  shows "ch0_loop rd cb h c m = (ch0_done h, True, transfer rd cb (Suc n) (ch0_sadr h) m)"
  using assms
proof (induction n arbitrary: h c m)
  case 0
  then have c1: "ch0_cnt h = 1" by (metis One_nat_def unat_1 unsigned_word_eqI)
  have "\<not> ch0_en (ch0_done h)" by (simp add: ch0_done_def)
  then show ?case
    using 0 c1 by (simp add: ch0_loop.simps [of rd cb h] ch0_loop.simps [of rd cb "ch0_done h"] ch0_step_last
        case_prod_beta)
next
  case (Suc n)
  have pos: "0 < ch0_cnt h" using Suc.prems(2) by (metis Zero_not_Suc unat_0 word_gt_0)
  have un: "unat (ch0_cnt h - 1) = Suc n" using u32_pred(1) [OF pos] Suc.prems(2) by simp
  then have nz: "ch0_cnt h - 1 \<noteq> 0" by (metis Zero_not_Suc unat_0)
  obtain data m1 where rd: "rd (ch0_sadr h) m = (data, m1)" by fastforce
  have "ch0_loop rd cb (ch0_step h) (c \<or> ch0_cnt h - 1 = 0) (cb data m1)
      = (ch0_done h, True, transfer rd cb (Suc n) (ch0_sadr h + 1) (cb data m1))"
    using Suc.IH [of "ch0_step h"] Suc.prems(1) un nz by (simp add: ch0_step_more ch0_done_step)
  then show ?case
    using Suc.prems(1) pos rd by (subst ch0_loop.simps) (simp add: word_gt_0)
qed

text \<open>
  The inline DMA of channel 0 always stops, and does exactly the programmed transfer: enabled
  with a count \<open>n > 0\<close> it reads the bytes at \<open>n\<close> consecutive addresses from the source address
  on, hands each to the byte sink in that order with nothing in between, reports one completion,
  and leaves the channel disabled, in its copy and in the register, with count 0 and the address
  past the last byte; the other channels are untouched. Disabled or with count 0 it does nothing.
\<close>
theorem hsdma_inline_transfer:
  "do_ch0_inline rd cb h m =
    (if ch0_en h \<and> ch0_cnt h \<noteq> 0
     then (h\<lparr>ch0_sadr := ch0_sadr h + ch0_cnt h, ch0_cnt := 0, ch0_en := False,
             chan := (chan h)(0 := (chan h 0)\<lparr>c_sadr := ch0_sadr h + ch0_cnt h, c_cnt := 0,
                                              c_en := c_en (chan h 0) AND NOT 1\<rparr>)\<rparr>,
           [Ch0Complete], transfer rd cb (unat (ch0_cnt h)) (ch0_sadr h) m)
     else (h, [], m))"
proof (cases "ch0_en h \<and> ch0_cnt h \<noteq> 0")
  case True
  then obtain n where n: "unat (ch0_cnt h) = Suc n" by (metis not0_implies_Suc unat_eq_zero)
  from ch0_loop_transfer [OF _ n, of rd cb False m] True show ?thesis
    by (simp add: do_ch0_inline_def ch0_done_def n)
next
  case False
  then show ?thesis by (subst do_ch0_inline_def, subst ch0_loop.simps) auto
qed

section \<open>The serial interface\<close>

record sif3 =
  sif3_ctl :: u8
  sif3_irda :: u8
  sif3_status :: u8

definition sif3_init :: sif3 where "sif3_init = \<lparr> sif3_ctl = 0, sif3_irda = 0, sif3_status = 0x02 \<rparr>"

definition sif3_reset :: "sif3 \<Rightarrow> sif3" where "sif3_reset s = sif3_init"

text \<open>The event of a byte written to TXD, on which the owner runs \<open>on_txd_write\<close>.\<close>

definition sif3_ctl_port :: "(sif3, u8) port" where
  "sif3_ctl_port = byte_port 0x0401F8 (\<lambda>s. join8 (sif3_ctl s) (sif3_irda s))
     (\<lambda>_ v s. s\<lparr>sif3_ctl := lo8 v, sif3_irda := hi8 v\<rparr>)
     (\<lambda>a v s. if odd_addr a then s\<lparr>sif3_irda := v\<rparr> else s\<lparr>sif3_ctl := v\<rparr>)"

definition sif3_ports :: "(sif3, u8) port list" where
  "sif3_ports = [
     \<lparr> port_base = 0x0401F4, port_rd = (\<lambda>_. 0),
       port_wr = (\<lambda>a v s. if odd_addr a then (s, [lo8 v]) else (s, [])), port_wb = None \<rparr>,
     plain_port 0x0401F6 (\<lambda>s. push_bit 8 (ucast (sif3_status s))) (\<lambda>_ _ s. s),
     sif3_ctl_port]"

text \<open>\<open>on_txd_write\<close>: the byte goes to the sink, then the DMA runs if channel 0 is enabled.\<close>

definition on_txd_write ::
  "(u32 \<Rightarrow> 'm \<Rightarrow> u8 \<times> 'm) \<Rightarrow> (u8 \<Rightarrow> 'm \<Rightarrow> 'm) \<Rightarrow> u8 \<Rightarrow> hsdma \<Rightarrow> 'm \<Rightarrow> hsdma \<times> dma_event list \<times> 'm" where
  "on_txd_write rd cb data h m =
    (let m1 = cb data m in if ch0_en h then do_ch0_inline rd cb h m1 else (h, [], m1))"

interpretation sif3: byte_pair sif3_ctl_port sif3_ctl sif3_irda sif3_status
  unfolding sif3_ctl_port_def by (rule byte_pair_intro) (simp_all add: odd_addr_def)

text \<open>A halfword store to the transmit pair is absorbed, its TXD byte included.\<close>

lemma sif3_halfword_txd_lost: "port_wr (sif3_ports ! 0) 0x0401F4 v s = (s, [])"
  by (simp add: sif3_ports_def odd_addr_def)

end
