(* ===== verification/Lcd.thy ===== *)
theory Lcd
  imports Prelude
begin

text \<open>
  The display controller of \<^verbatim>\<open>src/board/s6b0741.{hpp,cpp}\<close>: commands and data over the serial line,
  and the conversion of its memory to pixels, which the lemmas relate pixel by pixel.
\<close>

section \<open>State and serial writes\<close>

record lcd =
  vram :: "nat \<Rightarrow> nat \<Rightarrow> u8"
  lcd_page :: nat
  lcd_col2 :: nat

definition lcd_init :: lcd where "lcd_init = \<lparr> vram = (\<lambda>_ _. 0), lcd_page = 0, lcd_col2 = 0 \<rparr>"

definition lcd_reset :: "lcd \<Rightarrow> lcd" where
  "lcd_reset s = s\<lparr>vram := (\<lambda>p c. if p < 16 \<and> c < 256 then 0 else vram s p c), lcd_page := 0, lcd_col2 := 0\<rparr>"

definition rev8 :: "u8 \<Rightarrow> u8" where
  "rev8 d = push_bit 7 (d AND 0x01) OR push_bit 5 (d AND 0x02) OR push_bit 3 (d AND 0x04) OR push_bit 1 (d AND 0x08)
     OR drop_bit 1 (d AND 0x10) OR drop_bit 3 (d AND 0x20) OR drop_bit 5 (d AND 0x40) OR drop_bit 7 (d AND 0x80)"

text \<open>\<open>is_data\<close> is the register-select line P21 of the port controller.\<close>

definition lcd_write :: "bool \<Rightarrow> u8 \<Rightarrow> lcd \<Rightarrow> lcd" where
  "lcd_write is_data data0 s =
    (let data = rev8 data0
     in if \<not> is_data then
          (if data AND 0xF0 = 0x00 then
             s\<lparr>lcd_col2 := (lcd_col2 s AND 0xE0) OR push_bit 1 (unat (data AND 0x0F))\<rparr>
           else if data AND 0xF0 = 0x10 then
             s\<lparr>lcd_col2 := (lcd_col2 s AND 0x1E) OR push_bit 5 (unat (data AND 0x07))\<rparr>
           else if data AND 0xF0 = 0xB0 then s\<lparr>lcd_page := unat (data AND 0x0F)\<rparr>
           else s)
        else s\<lparr>vram := (vram s)(lcd_page s := (vram s (lcd_page s))(lcd_col2 s := data)),
               lcd_col2 := (lcd_col2 s + 1) AND 0xFF\<rparr>)"

section \<open>Conversion to pixels\<close>

type_synonym frame = "nat \<Rightarrow> nat \<Rightarrow> u8"

definition put_pixel :: "nat \<Rightarrow> nat \<Rightarrow> u8 \<Rightarrow> frame \<Rightarrow> frame" where
  "put_pixel y x v out = out(y := (out y)(x := v))"

definition pixel_body :: "nat \<Rightarrow> int \<Rightarrow> nat \<Rightarrow> frame \<times> u8 \<times> u8 \<Rightarrow> frame \<times> u8 \<times> u8" where
  "pixel_body col x i st =
    (case st of (out, c1, c2) \<Rightarrow>
       (put_pixel col (nat (x - int i)) (push_bit 1 (c1 AND 1) OR (c2 AND 1)) out, drop_bit 1 c1, drop_bit 1 c2))"

definition col_body :: "lcd \<Rightarrow> nat \<Rightarrow> int \<Rightarrow> nat \<Rightarrow> frame \<Rightarrow> frame" where
  "col_body s page x col out =
    fst (fold (pixel_body col x) [0..<8] (out, vram s page (col * 2 + 0), vram s page (col * 2 + 1)))"

definition page_body :: "lcd \<Rightarrow> nat \<Rightarrow> frame \<Rightarrow> frame" where
  "page_body s page out =
    (let x = 127 - ((int page - 10) AND 0x0F) * 8 in fold (col_body s page x) [0..<88] out)"

definition to_pixels :: "lcd \<Rightarrow> frame \<Rightarrow> frame" where
  "to_pixels s out = fold (page_body s) [0..<16] out"

section \<open>Bit order and cursor bounds\<close>

lemma bit_lit8:
  "bit (0x01 :: u8) n = (n = 0)" "bit (0x02 :: u8) n = (n = 1)" "bit (0x04 :: u8) n = (n = 2)"
  "bit (0x08 :: u8) n = (n = 3)" "bit (0x10 :: u8) n = (n = 4)" "bit (0x20 :: u8) n = (n = 5)"
  "bit (0x40 :: u8) n = (n = 6)" "bit (0x80 :: u8) n = (n = 7)"
proof -
  have b: "bit (2 ^ k :: u8) n = (n = k)" if "k < 8" for k using that by (auto simp: bit_exp_iff)
  show "bit (0x01 :: u8) n = (n = 0)" "bit (0x02 :: u8) n = (n = 1)" "bit (0x04 :: u8) n = (n = 2)"
    "bit (0x08 :: u8) n = (n = 3)" "bit (0x10 :: u8) n = (n = 4)" "bit (0x20 :: u8) n = (n = 5)"
    "bit (0x40 :: u8) n = (n = 6)" "bit (0x80 :: u8) n = (n = 7)"
    using b [of 0] b [of 1] b [of 2] b [of 3] b [of 4] b [of 5] b [of 6] b [of 7] by simp_all
qed

lemma bit_rev8:
  assumes "n < 8"
  shows "bit (rev8 d) n = bit d (7 - n)"
proof -
  from assms consider "n = 0" | "n = 1" | "n = 2" | "n = 3" | "n = 4" | "n = 5" | "n = 6" | "n = 7" by linarith
  then show ?thesis
    unfolding rev8_def bit_or_iff bit_push_bit_iff bit_drop_bit_eq comp_apply bit_and_iff bit_lit8
    by cases simp_all
qed

lemma rev8_involution: "rev8 (rev8 d) = d"
  by (rule bit_word_eqI) (simp add: bit_rev8)

definition lcd_wf :: "lcd \<Rightarrow> bool" where "lcd_wf s \<longleftrightarrow> lcd_page s < 16 \<and> lcd_col2 s < 256"

lemma nat_mask_less: "(x :: nat) AND mask k < 2 ^ k"
  by (simp add: take_bit_eq_mask [symmetric])

lemma nat_bound_or: "(a :: nat) < 2 ^ k \<Longrightarrow> b < 2 ^ k \<Longrightarrow> a OR b < 2 ^ k"
  by (metis take_bit_nat_eq_self_iff take_bit_or)

lemma nat_and_le: "(a :: nat) AND b \<le> b"
proof -
  have "int a AND int b \<le> int b" by (rule AND_upper2) simp
  then show ?thesis by (simp add: and_nat_def nat_le_iff)
qed

lemma low4: "unat ((d :: u8) AND 0x0F) < 16" "unat ((d :: u8) AND 0x07) < 8"
proof -
  have m: "unat (d AND mask k) < 2 ^ k" if "k < 8" for k
    using that by (simp add: take_bit_eq_mask [symmetric] unsigned_take_bit_eq)
  have "(0x0F :: u8) = mask 4" "(0x07 :: u8) = mask 3" by (simp_all add: mask_eq_exp_minus_1)
  then show "unat (d AND 0x0F) < 16" "unat (d AND 0x07) < 8" using m [of 4] m [of 3] by simp_all
qed

text \<open>
  The display never writes outside its 16 by 256 byte memory: whatever bytes arrive over the
  serial line, as commands or data, the page stays below 16 and the column cursor below 256, and
  a byte changes at most the one memory cell under the cursor.
\<close>
theorem lcd_cursor_in_bounds:
  assumes "lcd_wf s"
  shows "lcd_wf (lcd_write is_data d s) \<and>
    (\<forall>p c. (p, c) \<noteq> (lcd_page s, lcd_col2 s) \<or> \<not> is_data \<longrightarrow> vram (lcd_write is_data d s) p c = vram s p c)"
proof -
  define b where "b = rev8 d"
  have "push_bit 1 (unat (b AND 0x0F)) < 2 ^ 8" "push_bit 5 (unat (b AND 0x07)) < 2 ^ 8"
    using low4 [of b] by (simp_all add: push_bit_eq_mult)
  moreover have "lcd_col2 s AND 0xE0 < 2 ^ 8" "lcd_col2 s AND 0x1E < 2 ^ 8" "(lcd_col2 s + 1) AND 0xFF < 2 ^ 8"
    using nat_and_le [of "lcd_col2 s" "0xE0"] nat_and_le [of "lcd_col2 s" "0x1E"]
      nat_and_le [of "lcd_col2 s + 1" "0xFF"] by simp_all
  ultimately have c: "(lcd_col2 s AND 0xE0) OR push_bit 1 (unat (b AND 0x0F)) < 2 ^ 8"
    "(lcd_col2 s AND 0x1E) OR push_bit 5 (unat (b AND 0x07)) < 2 ^ 8" "(lcd_col2 s + 1) AND 0xFF < 2 ^ 8"
    by (blast intro: nat_bound_or)+
  then show ?thesis
    using assms low4 [of b] unfolding lcd_write_def Let_def b_def [symmetric] lcd_wf_def by auto
qed

lemma lcd_cursor_in_bounds_witness: "lcd_wf (lcd_write True 0xFF lcd_init)"
proof -
  have "lcd_wf lcd_init" by (simp add: lcd_wf_def lcd_init_def)
  from lcd_cursor_in_bounds [OF this, of True "0xFF"] show ?thesis by blast
qed

section \<open>The picture\<close>

definition page_of :: "nat \<Rightarrow> nat" where "page_of x = ((127 - x) div 8 + 10) mod 16"

definition pixel_of :: "lcd \<Rightarrow> nat \<Rightarrow> nat \<Rightarrow> u8" where
  "pixel_of s y x =
    (let i = (127 - x) mod 8
     in push_bit 1 (of_bool (bit (vram s (page_of x) (y * 2)) i)) OR of_bool (bit (vram s (page_of x) (y * 2 + 1)) i))"

lemma pixel_loop:
  assumes "int n \<le> x + 1"
  shows "fold (pixel_body col x) [0..<n] (out, c1, c2) =
    (\<lambda>y x'. if y = col \<and> x - int n < int x' \<and> int x' \<le> x
       then push_bit 1 (drop_bit (nat (x - int x')) c1 AND 1) OR (drop_bit (nat (x - int x')) c2 AND 1) else out y x',
     drop_bit n c1, drop_bit n c2)"
  using assms
proof (induction n)
  case 0 then show ?case by (auto simp: fun_eq_iff)
next
  case (Suc n)
  have "nat (x - int n) = x'" if "x - int n = int x'" for x' using that by simp
  with Suc show ?case
    by (auto simp: pixel_body_def put_pixel_def fun_eq_iff drop_bit_drop_bit)
qed

lemma one_bit: "drop_bit i (c :: u8) AND 1 = of_bool (bit c i)"
  by (simp add: and_one_eq mod_2_eq_odd bit_iff_odd_drop_bit)

lemma and15: "(int page - 10) AND 0x0F = int ((page + 6) mod 16)"
proof -
  have "(0x0F :: int) = mask 4" by (simp add: mask_eq_exp_minus_1)
  then have "(int page - 10) AND 0x0F = (int page - 10) mod 16"
    by (simp only: take_bit_eq_mask [symmetric]) (simp add: take_bit_eq_mod)
  also have "\<dots> = (int page - 10 + 16) mod 16" by (simp only: mod_add_self2)
  also have "int page - 10 + 16 = int (page + 6)" by simp
  also have "int (page + 6) mod 16 = int ((page + 6) mod 16)" by (simp only: zmod_int of_nat_numeral)
  finally show ?thesis .
qed

lemma page_of_iff:
  assumes "p < 16" "x < 128"
  shows "(page_of x = p) = (120 - 8 * ((p + 6) mod 16) \<le> x \<and> x \<le> 127 - 8 * ((p + 6) mod 16))"
proof -
  define k where "k = (127 - x) div 8"
  define r where "r = (127 - x) mod 8"
  have x: "x + 8 * k + r = 127" "r < 8" using assms(2) by (simp_all add: k_def r_def)
  then have k: "k < 16" by simp
  have "(page_of x = p) = (k = (p + 6) mod 16)"
    unfolding page_of_def k_def [symmetric] using k assms(1) by (auto simp: mod_if split: if_splits)
  also have "\<dots> = (120 - 8 * ((p + 6) mod 16) \<le> x \<and> x \<le> 127 - 8 * ((p + 6) mod 16))"
  proof -
    define m where "m = (p + 6) mod 16"
    have "m < 16" by (simp add: m_def)
    then show ?thesis using x k unfolding m_def [symmetric] by linarith
  qed
  finally show ?thesis .
qed

lemma col_loop:
  assumes "p < 16"
  shows "fold (col_body s p (127 - ((int p - 10) AND 0x0F) * 8)) [0..<n] out =
    (\<lambda>y x. if y < n \<and> x < 128 \<and> page_of x = p then pixel_of s y x else out y x)"
proof -
  define k where "k = (p + 6) mod 16"
  define X where "X = 127 - int k * 8"
  have k: "k < 16" by (simp add: k_def)
  have rng: "(X - 8 < int x \<and> int x \<le> X) = (x < 128 \<and> page_of x = p)" for x
    using page_of_iff [OF assms, of x] k unfolding X_def k_def [symmetric] by (cases "x < 128") auto
  have idx: "nat (X - int x) = (127 - x) mod 8" if "X - 8 < int x" "int x \<le> X" for x
  proof -
    have "127 - x = nat (X - int x) + 8 * k" "nat (X - int x) < 8" using that k by (auto simp: X_def)
    then show ?thesis by simp
  qed
  have body: "col_body s p X col out = (\<lambda>y x. if y = col \<and> x < 128 \<and> page_of x = p then pixel_of s y x else out y x)"
    for col out
  proof (intro ext)
    fix y x
    have "int 8 \<le> X + 1" using k by (simp add: X_def)
    then show "col_body s p X col out y x = (if y = col \<and> x < 128 \<and> page_of x = p then pixel_of s y x else out y x)"
      using rng [of x] idx [of x]
      by (auto simp: col_body_def pixel_loop pixel_of_def Let_def one_bit)
  qed
  have "fold (col_body s p X) [0..<n] out = (\<lambda>y x. if y < n \<and> x < 128 \<and> page_of x = p then pixel_of s y x else out y x)"
    by (induction n) (auto simp: body fun_eq_iff less_Suc_eq)
  then show ?thesis by (simp add: and15 X_def k_def)
qed

text \<open>
  The conversion to pixels reads the display memory exactly: it fills every one of the 88 by
  128 pixels once with the two bits of its place (bit \<open>(127 - x) mod 8\<close> of the bytes \<open>2 y\<close> and
  \<open>2 y + 1\<close> of page \<open>((127 - x) div 8 + 10) mod 16\<close>) and writes nowhere else.
\<close>
theorem lcd_picture:
  "to_pixels s out y x =
    (if y < 88 \<and> x < 128
     then push_bit 1 (of_bool (bit (vram s (((127 - x) div 8 + 10) mod 16) (y * 2)) ((127 - x) mod 8)))
       OR of_bool (bit (vram s (((127 - x) div 8 + 10) mod 16) (y * 2 + 1)) ((127 - x) mod 8))
     else out y x)"
proof -
  have "n \<le> 16 \<Longrightarrow> fold (page_body s) [0..<n] out =
      (\<lambda>y x. if y < 88 \<and> x < 128 \<and> page_of x < n then pixel_of s y x else out y x)" for n
    by (induction n) (auto simp: page_body_def col_loop fun_eq_iff less_Suc_eq Let_def)
  from this [of 16] have "to_pixels s out y x = (if y < 88 \<and> x < 128 \<and> page_of x < 16 then pixel_of s y x else out y x)"
    by (simp add: to_pixels_def)
  then show ?thesis by (simp add: pixel_of_def Let_def page_of_def)
qed

end
