(* ===== verification/Sound.thy ===== *)
theory Sound
  imports ClkCtl Timing "HOL-Library.Signed_Division"
begin

text \<open>
  The sound unit of \<^verbatim>\<open>src/soc/peripheral_sound.{hpp,cpp}\<close>: the sample ring shared by the CPU thread and
  the audio thread, the conversion of pulse widths to samples, and the completion interrupt. The
  lemmas show, for every interleaving of the accesses of the two threads, that the ring is a
  first-in-first-out queue; what the conversion computes; and that completions do not drift.
\<close>

section \<open>State\<close>

text \<open>
  The members of \<open>Sound\<close>. The indices are the 64-bit \<open>size_t\<close> of the code; a slot holds the
  16 bits of a signed sample.
\<close>

record sound =
  ring :: "nat \<Rightarrow> u16"
  ring_head :: u64
  ring_tail :: u64
  drop_count :: u64
  last_push_cycle :: u64
  snd_pending :: bool
  complete_cycle :: u64
  last_irq_cycle :: u64
  snd_trace :: bool
  irq_count :: u64
  pop_count :: u64

text \<open>What the sound unit calls: the channel 1 completion, the interrupt, the \<open>on_push\<close> hook.\<close>

datatype sound_event = FinishCh1 | RaiseHsdma1 nat | Pushed u64 u32 u64 u64

definition RING_SIZE :: u64 where "RING_SIZE = 4096"
definition SAMPLE_RATE :: u64 where "SAMPLE_RATE = 32000"
definition PWMC_DEFAULT :: u16 where "PWMC_DEFAULT = 750"

definition sound_init :: sound where
  "sound_init = \<lparr> ring = (\<lambda>_. 0), ring_head = 0, ring_tail = 0, drop_count = 0, last_push_cycle = 0,
     snd_pending = False, complete_cycle = 0, last_irq_cycle = 0, snd_trace = False, irq_count = 0, pop_count = 0 \<rparr>"

definition sound_reset :: "sound \<Rightarrow> sound" where
  "sound_reset s = s\<lparr>snd_pending := False, complete_cycle := 0, last_irq_cycle := 0, irq_count := 0,
     ring_tail := ring_head s, drop_count := 0, last_push_cycle := 0\<rparr>"

text \<open>The compare register A of timer channel 1, where that timer is attached.\<close>

definition current_pwmc :: "u16 option \<Rightarrow> u16" where
  "current_pwmc cra = (case cra of Some v \<Rightarrow> (if v \<noteq> 0 then v else PWMC_DEFAULT) | None \<Rightarrow> PWMC_DEFAULT)"

section \<open>The ring\<close>

text \<open>
  The atomic accesses of \<open>try_push\<close> and \<open>pop\<close>, each a definition of its own so that the two
  threads can be interleaved between any two of them.
\<close>

definition ring_next :: "u64 \<Rightarrow> u64" where "ring_next i = (i + 1) AND (RING_SIZE - 1)"

definition put_slot :: "u64 \<Rightarrow> u16 \<Rightarrow> sound \<Rightarrow> sound" where
  "put_slot i x s = s\<lparr>ring := (ring s)(unat i := x)\<rparr>"

definition try_push :: "u16 \<Rightarrow> sound \<Rightarrow> bool \<times> sound" where
  "try_push x s =
    (let h = ring_head s; t = ring_tail s; n = ring_next h
     in if n = t then (False, s) else (True, (put_slot h x s)\<lparr>ring_head := n\<rparr>))"

fun pop_loop :: "(nat \<Rightarrow> u16) \<Rightarrow> nat \<Rightarrow> u64 \<Rightarrow> u64 \<Rightarrow> u16 list \<Rightarrow> u64 \<times> u16 list" where
  "pop_loop r 0 h t out = (t, out)"
| "pop_loop r (Suc n) h t out =
    (if t \<noteq> h then pop_loop r n h (ring_next t) (out @ [r (unat t)]) else (t, out))"

definition snd_pop :: "nat \<Rightarrow> sound \<Rightarrow> u16 list \<times> sound" where
  "snd_pop n s =
    (case pop_loop (ring s) n (ring_head s) (ring_tail s) [] of (t, out) \<Rightarrow>
       (out, s\<lparr>ring_tail := t, pop_count := (if snd_trace s then pop_count s + 1 else pop_count s)\<rparr>))"

definition available :: "sound \<Rightarrow> u64" where
  "available s = (ring_head s - ring_tail s) AND (RING_SIZE - 1)"

section \<open>Starting a transfer and its completion\<close>

definition pcm_sample :: "int \<Rightarrow> u16 \<Rightarrow> u16" where
  "pcm_sample pwmc raw =
    (let v = sint raw - pwmc;
         s = (v * 65536) sdiv pwmc;
         s1 = (if s > 32767 then 32767 else s);
         s2 = (if s1 < - 32768 then - 32768 else s1)
     in word_of_int s2)"

text \<open>The sample loop over the surroundings \<open>'m\<close>: \<open>rd\<close> is the halfword read of the bus.\<close>

fun push_samples :: "(u32 \<Rightarrow> 'm \<Rightarrow> u16 \<times> 'm) \<Rightarrow> int \<Rightarrow> nat \<Rightarrow> u32 \<Rightarrow> sound \<Rightarrow> 'm \<Rightarrow> sound \<times> 'm" where
  "push_samples rd pwmc 0 a s m = (s, m)"
| "push_samples rd pwmc (Suc n) a s m =
    (case rd a m of (raw, m1) \<Rightarrow>
     case try_push (pcm_sample pwmc raw) s of (ok, s1) \<Rightarrow>
       push_samples rd pwmc n (a + 2) (if ok then s1 else s1\<lparr>drop_count := drop_count s1 + 1\<rparr>) m1)"

definition irq_delta :: "u32 \<Rightarrow> u32 \<Rightarrow> u64" where
  "irq_delta cnt hz = ucast cnt * ucast hz div SAMPLE_RATE"

definition irq_base :: "u64 \<Rightarrow> u64 \<Rightarrow> sound \<Rightarrow> u64" where
  "irq_base now delta s =
    (if last_irq_cycle s \<noteq> 0 \<and> now \<ge> last_irq_cycle s \<and> now - last_irq_cycle s < delta
     then last_irq_cycle s else now)"

text \<open>\<open>hook\<close> says whether \<open>on_push\<close> is set; \<open>now\<close> and \<open>hz\<close> are \<open>get_cycles_()\<close> and \<open>cpu_clock_hz()\<close>.\<close>

definition handle_ch1_start ::
  "(u32 \<Rightarrow> 'm \<Rightarrow> u16 \<times> 'm) \<Rightarrow> u16 option \<Rightarrow> u64 \<Rightarrow> u32 \<Rightarrow> bool \<Rightarrow> u32 \<Rightarrow> u32 \<Rightarrow> sound \<Rightarrow> 'm
    \<Rightarrow> sound \<times> sound_event list \<times> 'm" where
  "handle_ch1_start rd cra now hz hook sadr cnt s m =
    (if cnt = 0 then (s, [], m)
     else let pwmc = uint (current_pwmc cra) in
       if pwmc \<le> 0 then (s, [], m)
       else case push_samples rd pwmc (unat cnt) sadr (s\<lparr>last_push_cycle := now\<rparr>) m of (s1, m1) \<Rightarrow>
         let delta = irq_delta cnt hz;
             s2 = s1\<lparr>complete_cycle := irq_base now delta s1 + delta, snd_pending := True\<rparr>
         in (s2, if hook then [Pushed now cnt (available s2) (drop_count s2)] else [], m1))"

definition sound_tick :: "u64 \<Rightarrow> sound \<Rightarrow> sound \<times> sound_event list" where
  "sound_tick now s =
    (if \<not> snd_pending s then (s, [])
     else if now < complete_cycle s then (s, [])
     else (s\<lparr>snd_pending := False, last_irq_cycle := complete_cycle s,
             irq_count := (if snd_trace s then irq_count s + 1 else irq_count s)\<rparr>,
           [FinishCh1, RaiseHsdma1 1]))"

definition sound_next_wake :: "sound \<Rightarrow> u64" where
  "sound_next_wake s = (if snd_pending s then complete_cycle s else UINT64_MAX)"

section \<open>Ring indices\<close>

lemma ring_mask: "(x :: u64) AND (RING_SIZE - 1) = take_bit 12 x"
  by (simp add: RING_SIZE_def take_bit_eq_mask mask_eq_exp_minus_1)

lemma unat_ring_mask: "unat ((x :: u64) AND (RING_SIZE - 1)) = unat x mod 4096"
proof -
  have "unat (take_bit 12 x) = take_bit 12 (unat x)" by (rule unsigned_take_bit_eq)
  then show ?thesis by (simp only: ring_mask) (simp add: take_bit_eq_mod)
qed

lemma ring_next_unat [simp]: "unat (ring_next i) = (unat i + 1) mod 4096"
proof -
  have "unat (ring_next i) = unat (i + 1) mod 4096"
    by (simp only: ring_next_def unat_ring_mask)
  also have "unat (i + 1) = (unat i + 1) mod 2 ^ 64" by (simp add: unat_word_ariths)
  finally show ?thesis by (simp add: mod_mod_cancel)
qed

lemma available_unat:
  assumes "unat (ring_head s) = a mod 4096" "unat (ring_tail s) = r mod 4096" "r \<le> a" "a < r + 4096"
  shows "unat (available s) = a - r"
proof -
  have e: "unat (available s) = unat (ring_head s - ring_tail s) mod 4096"
    by (simp only: available_def unat_ring_mask)
  have "int (unat (ring_head s - ring_tail s)) = (int (unat (ring_head s)) - int (unat (ring_tail s))) mod 2 ^ 64"
    by (simp add: uint_word_ariths flip: uint_nat)
  then have "int (unat (available s)) = (int (a mod 4096) - int (r mod 4096)) mod 4096"
    by (simp add: e assms zmod_int mod_mod_cancel)
  also have "\<dots> = (int a - int r) mod 4096" by (simp add: zmod_int mod_diff_eq)
  also have "\<dots> = int (a - r)" using assms by simp
  finally show ?thesis by (simp only: of_nat_eq_iff)
qed

lemma same_slot:
  assumes "(i :: nat) mod 4096 = j mod 4096" "i \<le> j" "j < i + 4096"
  shows "i = j"
  using assms by (metis add_diff_inverse_nat diff_less_mono2 le_add_diff_inverse less_diff_conv2 mod_eq_dvd_iff_nat
      nat_dvd_not_less add.commute add_diff_cancel_left' le_neq_implies_less linorder_not_le zero_less_diff)

section \<open>Two threads on the ring\<close>

text \<open>
  The CPU thread pushes, the audio thread pops. A step is one access to the shared ring or
  index, so every interleaving of the two functions is a run; the release stores and acquire
  loads of the indices are what lets the accesses be put in one order. \<open>accepted\<close> and
  \<open>received\<close> record the samples whose push has been published and whose pop has returned.
\<close>

datatype producer = Producing | Loaded u16 u64 u64 | Written u16 u64

datatype consumer = Waiting | Copying nat u64 u64 "u16 list"

record spsc =
  snd_of :: sound
  producer :: producer
  consumer :: consumer
  accepted :: "u16 list"
  received :: "u16 list"

inductive spsc_step :: "spsc \<Rightarrow> spsc \<Rightarrow> bool" where
  push_load: "producer c = Producing
    \<Longrightarrow> spsc_step c (c\<lparr>producer := Loaded x (ring_head (snd_of c)) (ring_tail (snd_of c))\<rparr>)"
| push_full: "producer c = Loaded x h t \<Longrightarrow> ring_next h = t
    \<Longrightarrow> spsc_step c (c\<lparr>producer := Producing\<rparr>)"
| push_write: "producer c = Loaded x h t \<Longrightarrow> ring_next h \<noteq> t
    \<Longrightarrow> spsc_step c (c\<lparr>snd_of := put_slot h x (snd_of c), producer := Written x h\<rparr>)"
| push_publish: "producer c = Written x h
    \<Longrightarrow> spsc_step c (c\<lparr>snd_of := (snd_of c)\<lparr>ring_head := ring_next h\<rparr>, producer := Producing,
                       accepted := accepted c @ [x]\<rparr>)"
| pop_load: "consumer c = Waiting
    \<Longrightarrow> spsc_step c (c\<lparr>consumer := Copying n (ring_head (snd_of c)) (ring_tail (snd_of c)) []\<rparr>)"
| pop_copy: "consumer c = Copying n h t out \<Longrightarrow> length out < n \<Longrightarrow> t \<noteq> h
    \<Longrightarrow> spsc_step c (c\<lparr>consumer := Copying n h (ring_next t) (out @ [ring (snd_of c) (unat t)])\<rparr>)"
| pop_store: "consumer c = Copying n h t out \<Longrightarrow> \<not> (length out < n \<and> t \<noteq> h)
    \<Longrightarrow> spsc_step c (c\<lparr>snd_of := (snd_of c)\<lparr>ring_tail := t\<rparr>, consumer := Waiting,
                       received := received c @ out\<rparr>)"

text \<open>\<open>reset\<close> runs on the CPU thread while no pop is in progress.\<close>

inductive spsc_reach :: "spsc \<Rightarrow> bool" where
  start: "spsc_reach \<lparr> snd_of = sound_init, producer = Producing, consumer = Waiting, accepted = [], received = [] \<rparr>"
| more: "spsc_reach c \<Longrightarrow> spsc_step c c' \<Longrightarrow> spsc_reach c'"
| reset: "spsc_reach c \<Longrightarrow> producer c = Producing \<Longrightarrow> consumer c = Waiting
    \<Longrightarrow> spsc_reach (c\<lparr>snd_of := sound_reset (snd_of c), accepted := received c\<rparr>)"

inductive_cases spsc_stepE: "spsc_step c c'"

section \<open>The invariant\<close>

text \<open>
  Positions are counted from the first sample ever pushed since the last reset of the counters:
  \<open>H\<close> published, \<open>T\<close> released; slot \<open>i mod 4096\<close> holds sample \<open>i\<close> of the stream \<open>f\<close>.
\<close>

definition ring_holds :: "sound \<Rightarrow> (nat \<Rightarrow> u16) \<Rightarrow> nat \<Rightarrow> nat \<Rightarrow> bool" where
  "ring_holds s f T H \<longleftrightarrow>
    unat (ring_head s) = H mod 4096 \<and> unat (ring_tail s) = T mod 4096 \<and> T \<le> H \<and> H < T + 4096 \<and>
    (\<forall>i. T \<le> i \<and> i < H \<longrightarrow> ring s (i mod 4096) = f i)"

definition producer_ok :: "sound \<Rightarrow> nat \<Rightarrow> nat \<Rightarrow> producer \<Rightarrow> bool" where
  "producer_ok s T H p \<longleftrightarrow>
    (case p of Producing \<Rightarrow> True
     | Loaded x h t \<Rightarrow> unat h = H mod 4096 \<and> (\<exists>T0 \<le> T. unat t = T0 mod 4096 \<and> H < T0 + 4096)
     | Written x h \<Rightarrow> unat h = H mod 4096 \<and> H + 1 < T + 4096 \<and> ring s (H mod 4096) = x)"

definition consumer_ok :: "(nat \<Rightarrow> u16) \<Rightarrow> nat \<Rightarrow> nat \<Rightarrow> consumer \<Rightarrow> bool" where
  "consumer_ok f T H k \<longleftrightarrow>
    (case k of Waiting \<Rightarrow> True
     | Copying n h t out \<Rightarrow> \<exists>H0. unat h = H0 mod 4096 \<and> T + length out \<le> H0 \<and> H0 \<le> H \<and>
         unat t = (T + length out) mod 4096 \<and> out = map f [T..<T + length out])"

text \<open>
  The samples of the stream: what has been accepted, and after a reset (which drops what was in
  the ring) counted on from there. \<open>z\<close> is the position of the ring where the stream now starts.
\<close>

definition spsc_at :: "nat \<Rightarrow> (nat \<Rightarrow> u16) \<Rightarrow> nat \<Rightarrow> nat \<Rightarrow> spsc \<Rightarrow> bool" where
  "spsc_at z f T H c \<longleftrightarrow>
    z \<le> T \<and> accepted c = map f [z..<H] \<and> received c = map f [z..<T] \<and>
    ring_holds (snd_of c) f T H \<and> producer_ok (snd_of c) T H (producer c) \<and> consumer_ok f T H (consumer c)"

definition spsc_inv :: "spsc \<Rightarrow> bool" where "spsc_inv c \<longleftrightarrow> (\<exists>z f T H. spsc_at z f T H c)"

lemma spsc_invI: "spsc_at z f T H c \<Longrightarrow> spsc_inv c"
  unfolding spsc_inv_def by blast

lemmas spsc_parts = spsc_at_def ring_holds_def producer_ok_def consumer_ok_def

lemma neq_unat: "(a :: u64) \<noteq> b \<Longrightarrow> unat a \<noteq> unat b"
  by (simp add: word_unat_eq_iff)

lemma upt_shift: "map (\<lambda>i. i + k) [a..<b] = [a + k..<b + k]"
  by (induction b) auto

text \<open>One lemma for each access that changes what the invariant speaks of.\<close>

lemma inv_push_load:
  assumes "spsc_at z f T H c"
  shows "spsc_at z f T H (c\<lparr>producer := Loaded x (ring_head (snd_of c)) (ring_tail (snd_of c))\<rparr>)"
  using assms by (auto simp: spsc_parts)

lemma inv_push_write:
  assumes inv: "spsc_at z f T H c" and p: "producer c = Loaded x h t" and room: "ring_next h \<noteq> t"
  shows "spsc_at z f T H (c\<lparr>snd_of := put_slot h x (snd_of c), producer := Written x h\<rparr>)"
proof -
  from inv p obtain T0 where h: "unat h = H mod 4096" and T0: "T0 \<le> T" "unat t = T0 mod 4096" "H < T0 + 4096"
    unfolding spsc_parts by auto
  have "(H + 1) mod 4096 \<noteq> (T0 + 4096) mod 4096"
    using neq_unat [OF room] by (simp add: h T0(2) mod_Suc_eq)
  then have "H + 1 \<noteq> T0 + 4096" by metis
  then have lt: "H + 1 < T + 4096" using T0 by linarith
  have keep: "i mod 4096 \<noteq> H mod 4096" if "T \<le> i" "i < H" for i
    using same_slot [of i H] that lt by auto
  show ?thesis
    using inv lt h keep unfolding spsc_parts by (auto simp: put_slot_def)
qed

lemma inv_push_publish:
  assumes inv: "spsc_at z f T H c" and p: "producer c = Written x h"
  shows "spsc_at z (f(H := x)) T (H + 1)
    (c\<lparr>snd_of := (snd_of c)\<lparr>ring_head := ring_next h\<rparr>, producer := Producing, accepted := accepted c @ [x]\<rparr>)"
proof -
  have le: "z \<le> T" "T \<le> H" using inv unfolding spsc_parts by auto
  have new: "map (f(H := x)) [a..<b] = map f [a..<b]" if "b \<le> H" for a b using that by simp
  from inv p have w: "unat h = H mod 4096" "H + 1 < T + 4096" "ring (snd_of c) (H mod 4096) = x"
    unfolding spsc_parts by auto
  have head: "unat (ring_next h) = (H + 1) mod 4096" by (simp add: w(1) mod_Suc_eq)
  have "consumer_ok (f(H := x)) T (H + 1) (consumer c)"
    using inv unfolding spsc_at_def
    by (auto simp: consumer_ok_def new split: consumer.splits intro: le_SucI)
  moreover have "ring_holds ((snd_of c)\<lparr>ring_head := ring_next h\<rparr>) (f(H := x)) T (H + 1)"
    using inv w head le unfolding spsc_at_def by (auto simp: ring_holds_def less_Suc_eq)
  ultimately show ?thesis
    using inv le unfolding spsc_at_def by (simp add: producer_ok_def new)
qed

lemma inv_pop_load:
  assumes "spsc_at z f T H c"
  shows "spsc_at z f T H (c\<lparr>consumer := Copying n (ring_head (snd_of c)) (ring_tail (snd_of c)) []\<rparr>)"
  using assms by (auto simp: spsc_parts intro!: exI [of _ H])

lemma inv_pop_copy:
  assumes inv: "spsc_at z f T H c" and k: "consumer c = Copying n h t out" and more: "t \<noteq> h"
  shows "spsc_at z f T H (c\<lparr>consumer := Copying n h (ring_next t) (out @ [ring (snd_of c) (unat t)])\<rparr>)"
proof -
  from inv k obtain H0 where H0: "unat h = H0 mod 4096" "T + length out \<le> H0" "H0 \<le> H"
    and t: "unat t = (T + length out) mod 4096" and out: "out = map f [T..<T + length out]"
    unfolding spsc_parts by auto
  have "T + length out \<noteq> H0" using neq_unat [OF more] H0(1) t by metis
  then have lt: "T + length out < H0" using H0(2) by simp
  then have slot: "ring (snd_of c) (unat t) = f (T + length out)"
  proof -
    have "\<forall>i. T \<le> i \<and> i < H \<longrightarrow> ring (snd_of c) (i mod 4096) = f i"
      using inv unfolding spsc_at_def ring_holds_def by blast
    moreover have "T \<le> T + length out" "T + length out < H" using lt H0(3) by simp_all
    ultimately show ?thesis using t by metis
  qed
  have "map f [T..<T + (length out + 1)] = map f [T..<T + length out] @ [f (T + length out)]" by simp
  then have "out @ [f (T + length out)] = map f [T..<T + (length out + 1)]" using out by metis
  then have "consumer_ok f T H (Copying n h (ring_next t) (out @ [ring (snd_of c) (unat t)]))"
    using H0 lt t by (auto simp: consumer_ok_def slot [unfolded t] mod_Suc_eq intro!: exI [of _ H0])
  then show ?thesis using inv by (simp add: spsc_at_def)
qed

lemma inv_pop_store:
  assumes inv: "spsc_at z f T H c" and k: "consumer c = Copying n h t out"
  shows "spsc_at z f (T + length out) H
    (c\<lparr>snd_of := (snd_of c)\<lparr>ring_tail := t\<rparr>, consumer := Waiting, received := received c @ out\<rparr>)"
proof -
  from inv k obtain H0 where H0: "T + length out \<le> H0" "H0 \<le> H"
    and t: "unat t = (T + length out) mod 4096" and out: "out = map f [T..<T + length out]"
    unfolding spsc_parts by auto
  have T0: "\<exists>T1\<le>T + length out. a mod 4096 = T1 mod 4096 \<and> H < T1 + 4096" if "a \<le> T" "H < a + 4096" for a
    using that by (intro exI [of _ a]) simp
  have "producer_ok ((snd_of c)\<lparr>ring_tail := t\<rparr>) (T + length out) H (producer c)"
    using inv unfolding spsc_at_def by (auto simp: producer_ok_def T0 split: producer.splits)
  moreover have "received c @ out = map f [z..<T + length out]"
    using inv out upt_add_eq_append [of z T "length out"] unfolding spsc_at_def by (metis map_append)
  moreover have "ring_holds ((snd_of c)\<lparr>ring_tail := t\<rparr>) f (T + length out) H"
    using inv H0 t unfolding spsc_at_def by (auto simp: ring_holds_def)
  ultimately show ?thesis
    using inv unfolding spsc_at_def by (auto simp: consumer_ok_def)
qed

lemma inv_reset:
  assumes inv: "spsc_at z f T H c" and idle: "producer c = Producing" "consumer c = Waiting"
  shows "spsc_inv (c\<lparr>snd_of := sound_reset (snd_of c), accepted := received c\<rparr>)"
proof -
  have le: "z \<le> T" "T \<le> H" using inv unfolding spsc_parts by auto
  define g where "g = (\<lambda>i. f (i - (H - T)))"
  have "map g [z + (H - T)..<H] = map g (map (\<lambda>i. i + (H - T)) [z..<T])"
    unfolding upt_shift using le by simp
  also have "\<dots> = map f [z..<T]" by (simp add: g_def)
  finally have "received c = map g [z + (H - T)..<H]" using inv unfolding spsc_at_def by simp
  then have "spsc_at (z + (H - T)) g H H (c\<lparr>snd_of := sound_reset (snd_of c), accepted := received c\<rparr>)"
    using inv idle le by (auto simp: spsc_parts sound_reset_def)
  then show ?thesis by (rule spsc_invI)
qed

lemma inv_step: "spsc_step c c' \<Longrightarrow> spsc_inv c \<Longrightarrow> spsc_inv c'"
proof -
  assume step: "spsc_step c c'" and "spsc_inv c"
  then obtain z f T H where inv: "spsc_at z f T H c" unfolding spsc_inv_def by blast
  from step show ?thesis
  proof cases
    case (push_full x h t)
    then show ?thesis using inv by (auto simp: spsc_parts intro!: spsc_invI [of z f T H])
  qed (use inv in \<open>blast intro: spsc_invI inv_push_load inv_push_write inv_push_publish inv_pop_load
         inv_pop_copy inv_pop_store\<close>)+
qed

lemma reach_inv: "spsc_reach c \<Longrightarrow> spsc_inv c"
proof (induction rule: spsc_reach.induct)
  case start
  show ?case by (rule spsc_invI [of 0 "\<lambda>_. 0" 0 0]) (simp add: spsc_parts sound_init_def)
next
  case (more c c')
  then show ?case using inv_step by blast
next
  case (reset c)
  then show ?case using inv_reset unfolding spsc_inv_def by blast
qed

section \<open>What the audio thread receives\<close>

definition ring_contents :: "sound \<Rightarrow> u16 list" where
  "ring_contents s = map (\<lambda>i. ring s ((unat (ring_tail s) + i) mod 4096)) [0..<unat (available s)]"

lemma contents_stream:
  assumes "ring_holds s f T H"
  shows "ring_contents s = map f [T..<H]"
proof -
  have a: "unat (available s) = H - T" using assms by (intro available_unat) (auto simp: ring_holds_def)
  have "ring s ((unat (ring_tail s) + i) mod 4096) = f (T + i)" if "i < H - T" for i
    using assms that by (simp add: ring_holds_def mod_add_left_eq)
  then have "ring_contents s = map (\<lambda>i. f (T + i)) [0..<H - T]" by (simp add: ring_contents_def a)
  also have "\<dots> = map f (map (\<lambda>i. i + T) [0..<H - T])" by (simp add: add.commute)
  also have "\<dots> = map f [T..<H]" using assms by (simp only: map_add_upt) (simp add: ring_holds_def)
  finally show ?thesis .
qed

text \<open>
  C3: No sample is lost, repeated, reordered or torn between the CPU thread and the audio thread.
  In every interleaving of the pushes and pops, access by access, what pops have returned followed
  by what the ring still holds between its two indices is exactly the sequence of samples whose
  push succeeded, and the ring never holds more than 4095.
\<close>
theorem sound_ring_fifo:
  assumes "spsc_reach c"
  shows "received c @ ring_contents (snd_of c) = accepted c \<and> unat (available (snd_of c)) \<le> 4095"
proof -
  from reach_inv [OF assms] obtain z f T H where inv: "spsc_at z f T H c" unfolding spsc_inv_def by blast
  then have ring: "ring_holds (snd_of c) f T H" "z \<le> T" "T \<le> H" "H < T + 4096"
    unfolding spsc_at_def ring_holds_def by auto
  have "unat (available (snd_of c)) = H - T"
    using ring(1) by (intro available_unat) (auto simp: ring_holds_def)
  moreover have "[z..<T] @ [T..<H] = [z..<H]" using ring upt_add_eq_append [of z T "H - T"] by simp
  then have "map f [z..<T] @ map f [T..<H] = map f [z..<H]" by (metis map_append)
  ultimately show ?thesis using inv ring by (simp add: contents_stream spsc_at_def)
qed

lemma sound_ring_fifo_witness:
  "\<exists>c. spsc_reach c \<and> accepted c = [7] \<and> received c @ ring_contents (snd_of c) = [7]"
proof -
  let ?c0 = "\<lparr> snd_of = sound_init, producer = Producing, consumer = Waiting, accepted = [], received = [] \<rparr>"
  let ?c1 = "?c0\<lparr>producer := Loaded 7 0 0\<rparr>"
  let ?c2 = "?c1\<lparr>snd_of := put_slot 0 7 sound_init, producer := Written 7 0\<rparr>"
  let ?c3 = "?c2\<lparr>snd_of := (put_slot 0 7 sound_init)\<lparr>ring_head := ring_next 0\<rparr>, producer := Producing, accepted := [7]\<rparr>"
  have "spsc_step ?c0 ?c1" using push_load [of ?c0 7] by (simp add: sound_init_def)
  moreover have "ring_next 0 \<noteq> 0" by (simp add: ring_next_def RING_SIZE_def)
  then have "spsc_step ?c1 ?c2" using push_write [of ?c1 7 0 0] by simp
  moreover have "spsc_step ?c2 ?c3" using push_publish [of ?c2 7 0] by simp
  ultimately have "spsc_reach ?c3" by (blast intro: spsc_reach.intros)
  from this sound_ring_fifo [OF this] show ?thesis by (intro exI [of _ ?c3]) simp
qed

section \<open>The functions are runs of the accesses\<close>

inductive spsc_run :: "spsc \<Rightarrow> spsc \<Rightarrow> bool" where
  run_nil: "spsc_run c c"
| run_step: "spsc_step c c' \<Longrightarrow> spsc_run c' c'' \<Longrightarrow> spsc_run c c''"

lemma record_idle: "producer c = Producing \<Longrightarrow> c\<lparr>snd_of := s, producer := Producing, accepted := a\<rparr> = c\<lparr>snd_of := s, accepted := a\<rparr>"
  by simp

lemma try_push_run:
  assumes "producer c = Producing"
  shows "spsc_run c (c\<lparr>snd_of := snd (try_push x (snd_of c)),
    accepted := accepted c @ (if fst (try_push x (snd_of c)) then [x] else [])\<rparr>)"
proof -
  let ?s = "snd_of c"
  let ?c1 = "c\<lparr>producer := Loaded x (ring_head ?s) (ring_tail ?s)\<rparr>"
  have s1: "spsc_step c ?c1" by (rule push_load [OF assms])
  show ?thesis
  proof (cases "ring_next (ring_head ?s) = ring_tail ?s")
    case True
    have "spsc_step ?c1 (?c1\<lparr>producer := Producing\<rparr>)" using push_full [of ?c1 x "ring_head ?s" "ring_tail ?s"] True by simp
    moreover have "?c1\<lparr>producer := Producing\<rparr> = c" using assms by simp
    ultimately have "spsc_run c c" using s1 run_step run_nil by metis
    then show ?thesis using True by (simp add: try_push_def Let_def)
  next
    case False
    let ?c2 = "?c1\<lparr>snd_of := put_slot (ring_head ?s) x ?s, producer := Written x (ring_head ?s)\<rparr>"
    have "spsc_step ?c1 ?c2" using push_write [of ?c1 x "ring_head ?s" "ring_tail ?s"] False by simp
    moreover have "spsc_step ?c2 (c\<lparr>snd_of := (put_slot (ring_head ?s) x ?s)\<lparr>ring_head := ring_next (ring_head ?s)\<rparr>,
        accepted := accepted c @ [x]\<rparr>)"
      using push_publish [of ?c2 x "ring_head ?s"] assms by (simp add: record_idle)
    ultimately have "spsc_run c (c\<lparr>snd_of := (put_slot (ring_head ?s) x ?s)\<lparr>ring_head := ring_next (ring_head ?s)\<rparr>,
        accepted := accepted c @ [x]\<rparr>)"
      by (rule run_step [OF s1 run_step [OF _ run_step [OF _ run_nil]]])
    then show ?thesis using False by (simp add: try_push_def Let_def)
  qed
qed

lemma pop_loop_run:
  assumes "consumer c = Copying m h t out" "length out + n = m" "pop_loop (ring (snd_of c)) n h t out = (t', out')"
  shows "spsc_run c (c\<lparr>snd_of := (snd_of c)\<lparr>ring_tail := t'\<rparr>, consumer := Waiting, received := received c @ out'\<rparr>)"
  using assms
proof (induction n arbitrary: c t out)
  case 0
  then show ?case using pop_store [of c m h t out] by (auto intro: run_step run_nil)
next
  case (Suc n)
  show ?case
  proof (cases "t = h")
    case True
    then show ?thesis using Suc.prems pop_store [of c m h t out] by (auto intro: run_step run_nil)
  next
    case False
    let ?c1 = "c\<lparr>consumer := Copying m h (ring_next t) (out @ [ring (snd_of c) (unat t)])\<rparr>"
    have "spsc_step c ?c1" using Suc.prems False by (intro pop_copy) auto
    moreover have "spsc_run ?c1 (?c1\<lparr>snd_of := (snd_of ?c1)\<lparr>ring_tail := t'\<rparr>, consumer := Waiting, received := received ?c1 @ out'\<rparr>)"
      using Suc.prems False by (intro Suc.IH) auto
    ultimately show ?thesis by (auto intro: run_step)
  qed
qed

text \<open>
  A pop hands over as many samples as it was asked for or as the ring holds, whichever is
  less, oldest first, and leaves exactly the rest in the ring.
\<close>
theorem sound_pop_takes_oldest:
  assumes "spsc_reach c" "snd_pop n (snd_of c) = (out, s')"
  shows "out = take n (ring_contents (snd_of c)) \<and> ring_contents s' = drop n (ring_contents (snd_of c))"
proof -
  from reach_inv [OF assms(1)] obtain f T H where ring: "ring_holds (snd_of c) f T H"
    unfolding spsc_inv_def spsc_at_def by blast
  let ?s = "snd_of c"
  have loop: "\<exists>k. k = min j (H - i) \<and> out' = acc @ map f [i..<i + k] \<and> unat t' = (i + k) mod 4096"
    if "pop_loop (ring ?s) j (ring_head ?s) t acc = (t', out')" "T \<le> i" "i \<le> H" "unat t = i mod 4096"
    for j t acc i t' out'
    using that
  proof (induction j arbitrary: t acc i)
    case 0 then show ?case by simp
  next
    case (Suc j)
    have eq: "t = ring_head ?s \<longleftrightarrow> i = H"
      using Suc.prems ring same_slot [of i H] unfolding ring_holds_def by (auto simp: word_unat_eq_iff)
    show ?case
    proof (cases "i = H")
      case True
      then show ?thesis using Suc.prems eq by simp
    next
      case False
      then have lt: "i < H" using Suc.prems by simp
      have slot: "ring ?s (unat t) = f i" using ring lt Suc.prems by (simp add: ring_holds_def)
      have "unat (ring_next t) = (i + 1) mod 4096" using Suc.prems by (simp add: mod_Suc_eq)
      then obtain k where "k = min j (H - (i + 1))" "out' = (acc @ [f i]) @ map f [i + 1..<i + 1 + k]"
        "unat t' = (i + 1 + k) mod 4096"
        using Suc.IH [of "ring_next t" "acc @ [f i]" "i + 1"] Suc.prems lt eq slot False by auto
      moreover have "[i..<i + (1 + k)] = i # [i + 1..<i + 1 + k]" by (simp add: upt_conv_Cons)
      ultimately show ?thesis using lt by (intro exI [of _ "1 + k"]) auto
    qed
  qed
  obtain t' where t': "pop_loop (ring ?s) n (ring_head ?s) (ring_tail ?s) [] = (t', out)"
    and s': "s' = ?s\<lparr>ring_tail := t', pop_count := (if snd_trace ?s then pop_count ?s + 1 else pop_count ?s)\<rparr>"
    using assms(2) by (auto simp: snd_pop_def split: prod.splits)
  obtain k where k: "k = min n (H - T)" "out = map f [T..<T + k]" "unat t' = (T + k) mod 4096"
    using loop [OF t', of T] ring by (auto simp: ring_holds_def)
  have "ring_holds s' f (T + k) H" using ring k by (auto simp: ring_holds_def s')
  then have "ring_contents s' = map f [T + k..<H]" by (rule contents_stream)
  moreover have "drop n [T..<H] = [T + k..<H]" "take n [T..<H] = [T..<T + k]"
    using k(1) ring take_upt [of T n H] take_upt [of T "H - T" H]
    by (auto simp: min_def ring_holds_def)
  ultimately show ?thesis using k(2) by (simp only: contents_stream [OF ring] take_map drop_map)
qed

lemma sound_pop_takes_oldest_witness:
  "snd_pop 1 sound_init = ([], sound_init)"
proof -
  let ?c = "\<lparr> snd_of = sound_init, producer = Producing, consumer = Waiting, accepted = [], received = [] \<rparr>"
  have e: "available sound_init = 0" by (simp add: available_def sound_init_def)
  have p: "snd_pop 1 (snd_of ?c) = (fst (snd_pop 1 sound_init), snd (snd_pop 1 sound_init))" by simp
  have "fst (snd_pop 1 sound_init) = []"
    using sound_pop_takes_oldest [OF spsc_reach.start p] by (simp add: ring_contents_def e)
  moreover have "snd (snd_pop 1 sound_init) = sound_init" by (simp add: snd_pop_def sound_init_def)
  ultimately show ?thesis by (simp add: prod_eq_iff)
qed

text \<open>
  A reset while a pop is between its loads and its store: the pop stores its own old index
  afterwards, so the ring that was emptied hands out dropped samples again. Here two samples are
  in the ring, the pop has copied the first, the reset empties the ring, and the store of the pop
  puts the second one back.
\<close>

lemma sound_reset_races_with_pop:
  assumes "s0 = (put_slot 1 9 (put_slot 0 7 sound_init))\<lparr>ring_head := 2\<rparr>"
    and "pop_loop (ring s0) 1 (ring_head s0) (ring_tail s0) [] = (t, out)"
  shows "ring_contents s0 = [7, 9] \<and> out = [7] \<and> ring_contents (sound_reset s0) = [] \<and>
    ring_contents ((sound_reset s0)\<lparr>ring_tail := t\<rparr>) = [9]"
proof -
  have "t = 1 \<and> out = [7]"
    using assms by (simp add: put_slot_def sound_init_def ring_next_def RING_SIZE_def)
  then show ?thesis
    using assms(1) by (simp add: ring_contents_def available_def put_slot_def sound_init_def sound_reset_def
        RING_SIZE_def upt_rec)
qed

section \<open>Sample conversion\<close>

lemma pwmc_range: "0 < uint (current_pwmc cra)" "uint (current_pwmc cra) < 65536"
proof -
  show "uint (current_pwmc cra) < 65536" using uint_lt2p [of "current_pwmc cra"] by simp
  have "current_pwmc cra \<noteq> 0" by (auto simp: current_pwmc_def PWMC_DEFAULT_def split: option.splits)
  then show "0 < uint (current_pwmc cra)" by (simp add: word_neq_0_conv [symmetric] uint_0_iff less_le)
qed

lemma sdiv_pos_mono:
  assumes "(a :: int) \<le> b" "0 < c"
  shows "a sdiv c \<le> b sdiv c"
proof -
  have neg: "x sdiv c = - ((- x) div c)" if "x < 0" for x using that assms(2) by (simp add: signed_divide_int_def)
  have pos: "x sdiv c = x div c" if "0 \<le> x" for x
    using that assms(2) by (cases "x = 0") (simp_all add: signed_divide_int_def)
  consider "0 \<le> a" | "a < 0" "0 \<le> b" | "b < 0" using assms(1) by linarith
  then show ?thesis
  proof cases
    case 1 then show ?thesis using assms pos by (simp add: zdiv_mono1)
  next
    case 2
    then have "0 \<le> (- a) div c" "0 \<le> b div c" using assms(2) by (simp_all add: pos_imp_zdiv_nonneg_iff)
    then show ?thesis using 2 neg pos by simp
  next
    case 3
    then have "(- b) div c \<le> (- a) div c" using assms by (simp add: zdiv_mono1)
    then show ?thesis using 3 assms(1) neg by simp
  qed
qed

definition clamp16 :: "int \<Rightarrow> int" where "clamp16 s = max (- 32768) (min 32767 s)"

lemma sint_pcm: "sint (pcm_sample pwmc raw) = clamp16 (((sint raw - pwmc) * 65536) sdiv pwmc)"
proof -
  have "pcm_sample pwmc raw = word_of_int (clamp16 (((sint raw - pwmc) * 65536) sdiv pwmc))"
    by (simp add: pcm_sample_def Let_def clamp16_def min_def max_def)
  moreover have "- (2 ^ 15) \<le> clamp16 s \<and> clamp16 s < 2 ^ 15" for s by (simp add: clamp16_def)
  ultimately show ?thesis
    by (simp add: sint_sbintrunc' signed_take_bit_int_eq_self)
qed

text \<open>
  The conversion of a pulse width to a signed sample is monotone and centred: a wider pulse
  never gives a smaller sample, the centre width gives silence, and every sample between the two
  saturation points, three halves and one half of the centre width, is the width times 65536 over
  the centre, less 65536, rounded towards zero; outside them it saturates at the ends of 16 bits.
\<close>
theorem sound_pcm_conversion:
  assumes "pwmc = uint (current_pwmc cra)"
  shows "(sint a \<le> sint b \<longrightarrow> sint (pcm_sample pwmc a) \<le> sint (pcm_sample pwmc b)) \<and>
    (sint a = pwmc \<longrightarrow> pcm_sample pwmc a = 0) \<and>
    (2 * sint a \<ge> 3 * pwmc \<longrightarrow> sint (pcm_sample pwmc a) = 32767) \<and>
    (2 * sint a \<le> pwmc \<longrightarrow> sint (pcm_sample pwmc a) = - 32768) \<and>
    (pwmc < 2 * sint a \<and> 2 * sint a < 3 * pwmc \<longrightarrow>
      sint (pcm_sample pwmc a) = ((sint a - pwmc) * 65536) sdiv pwmc)"
proof -
  have p: "0 < pwmc" using pwmc_range assms by simp
  have at: "(x * pwmc) sdiv pwmc = x" for x
    using p by (cases "x = 0") (simp_all add: signed_divide_int_def abs_mult sgn_mult mult.commute abs_mult_sgn)
  have mono: "((x - pwmc) * 65536) sdiv pwmc \<le> ((y - pwmc) * 65536) sdiv pwmc" if "x \<le> y" for x y
    using that p by (intro sdiv_pos_mono) simp_all
  have hi: "32768 \<le> ((x - pwmc) * 65536) sdiv pwmc" if "2 * x \<ge> 3 * pwmc" for x
    using sdiv_pos_mono [of "32768 * pwmc" "(x - pwmc) * 65536" pwmc] that p at [of 32768] by simp
  have lo: "((x - pwmc) * 65536) sdiv pwmc \<le> - 32768" if "2 * x \<le> pwmc" for x
    using sdiv_pos_mono [of "(x - pwmc) * 65536" "- 32768 * pwmc" pwmc] that p at [of "- 32768"] by simp
  have mid: "- 32768 \<le> ((x - pwmc) * 65536) sdiv pwmc \<and> ((x - pwmc) * 65536) sdiv pwmc \<le> 32767"
    if "pwmc < 2 * x" "2 * x < 3 * pwmc" for x
  proof -
    have "- 32768 * pwmc \<le> (x - pwmc) * 65536" "(x - pwmc) * 65536 \<le> 32768 * pwmc - 1" using that by simp_all
    then have "- 32768 \<le> ((x - pwmc) * 65536) sdiv pwmc"
      "((x - pwmc) * 65536) sdiv pwmc \<le> (32768 * pwmc - 1) sdiv pwmc"
      using sdiv_pos_mono [OF _ p] at [of "- 32768"] by metis+
    moreover have "(32768 * pwmc - 1) sdiv pwmc = (32768 * pwmc - 1) div pwmc"
      using p by (simp add: signed_divide_int_def)
    moreover have "(32768 * pwmc - 1) div pwmc = 32767"
      using p by (intro int_div_pos_eq [where r = "pwmc - 1"]) simp_all
    ultimately show ?thesis by simp
  qed
  have zero: "pcm_sample pwmc a = 0" if "sint a = pwmc"
    using that by (simp add: pcm_sample_def Let_def)
  show ?thesis
    using mono [of "sint a" "sint b"] hi [of "sint a"] lo [of "sint a"] mid [of "sint a"] zero
    by (auto simp: sint_pcm clamp16_def)
qed

lemma sound_pcm_conversion_witness:
  "pcm_sample 750 750 = 0 \<and> sint (pcm_sample 750 1200) = 32767"
proof -
  have p: "(750 :: int) = uint (current_pwmc None)" by (simp add: current_pwmc_def PWMC_DEFAULT_def)
  have "sint (750 :: u16) = 750" "sint (1200 :: u16) = 1200" by simp_all
  then show ?thesis
    using sound_pcm_conversion [OF p, of 750 750] sound_pcm_conversion [OF p, of 1200 1200] by simp
qed

section \<open>Completion interrupts\<close>

lemma push_samples_sched:
  "fst (push_samples rd p n a s m) = s' \<Longrightarrow>
    last_irq_cycle s' = last_irq_cycle s \<and> complete_cycle s' = complete_cycle s \<and> snd_pending s' = snd_pending s"
proof (induction n arbitrary: a s m)
  case 0 then show ?case by simp
next
  case (Suc n)
  show ?case
    using Suc.prems Suc.IH
    by (simp add: try_push_def Let_def put_slot_def split: prod.splits if_splits)
qed

text \<open>
  Playback does not drift. When channel 1 is started again with the same number of samples
  after a completion interrupt, within the time those samples play, the next interrupt is due
  exactly that time after the previous one was due, however late the interrupt was taken and the
  channel restarted; it is raised by the first tick at or after that cycle and by none before.
\<close>
theorem sound_irq_cadence:
  assumes "snd_pending s" "complete_cycle s \<le> t" "complete_cycle s \<noteq> 0"
    and "cnt \<noteq> 0" "complete_cycle s \<le> now" "now - complete_cycle s < irq_delta cnt hz"
    and "handle_ch1_start rd cra now hz hook sadr cnt (fst (sound_tick t s)) m = (s', ev, m')"
  shows "snd_pending s' \<and> complete_cycle s' = complete_cycle s + irq_delta cnt hz \<and>
    snd (sound_tick u s') = (if u < complete_cycle s + irq_delta cnt hz then [] else [FinishCh1, RaiseHsdma1 1])"
proof -
  have tick: "last_irq_cycle (fst (sound_tick t s)) = complete_cycle s"
    using assms(1,2) by (simp add: sound_tick_def not_less [symmetric])
  obtain s1 m1 where run: "push_samples rd (uint (current_pwmc cra)) (unat cnt) sadr
      ((fst (sound_tick t s))\<lparr>last_push_cycle := now\<rparr>) m = (s1, m1)" by force
  then have "last_irq_cycle s1 = complete_cycle s"
    using push_samples_sched [of rd "uint (current_pwmc cra)" "unat cnt" sadr
        "(fst (sound_tick t s))\<lparr>last_push_cycle := now\<rparr>" m s1] tick by simp
  then have "irq_base now (irq_delta cnt hz) s1 = complete_cycle s" using assms(3,5,6) by (simp add: irq_base_def)
  then have "snd_pending s' \<and> complete_cycle s' = complete_cycle s + irq_delta cnt hz"
    using assms(4,7) run pwmc_range(1) [of cra] by (auto simp: handle_ch1_start_def Let_def not_le)
  then show ?thesis by (auto simp: sound_tick_def)
qed

lemma surjective_pairing3: "x = (fst x, fst (snd x), snd (snd x))"
  by simp

lemma sound_irq_cadence_witness:
  "complete_cycle (fst (handle_ch1_start (\<lambda>a m. (750, m)) None 100500 24000000 False 0x1000 128
     (fst (sound_tick 100100 (sound_init\<lparr>snd_pending := True, complete_cycle := 100000\<rparr>))) ())) = 196000"
proof -
  let ?s = "sound_init\<lparr>snd_pending := True, complete_cycle := 100000\<rparr>"
  have d: "irq_delta 128 24000000 = 96000" by (simp add: irq_delta_def SAMPLE_RATE_def)
  show ?thesis
    using sound_irq_cadence [where s = ?s and t = 100100 and cnt = 128 and now = 100500 and hz = 24000000
        and rd = "\<lambda>a m. (750, m)" and cra = None and hook = False and sadr = "0x1000" and m = "()", OF _ _ _ _ _ _ surjective_pairing3]
    by (simp add: d)
qed

end
