(* ===== verification/Soc.thy ===== *)
theory Soc
  imports CpuCtl Timer8 Timer16 Wdt Rtc PortCtrl Bcu SerialDma Lcd Sound
begin

text \<open>
  The devices as one system, \<^verbatim>\<open>src/system/piece_peripherals.{hpp,cpp}\<close>: which device answers at
  which I/O address, which events of one device reach another (an interrupt flag, the CPU clock,
  the trap table, a byte for the display, a DMA request), the tick that advances them all, the
  next wake cycle and the resets.
\<close>

section \<open>The devices\<close>

text \<open>
  The variables of the frontend that its callbacks reach by reference: cycle counter, deadlines,
  pacing anchors and quit flag of the runner (\<open>CpuRunner::run\<close>), the number of times it has
  looked at the host (clock, buttons, requests), the frame and flags of the headless frontend, and the cached
  clock of the libretro core. No device touches them.
\<close>

record front =
  total_cycles :: u64
  next_render :: u64
  next_event_poll :: u64
  next_timer_wake :: u64
  pace_last_cycle :: u64
  pace_last_ns :: u64
  quit :: bool
  host_reads :: nat
  frame_ready :: bool
  timed_out :: bool
  frame_pixels :: frame
  cached_hz :: u32

definition front_init :: front where
  "front_init = \<lparr> total_cycles = 0, next_render = 0, next_event_poll = 0, next_timer_wake = 0,
     pace_last_cycle = 0, pace_last_ns = 0, quit = False, host_reads = 0,
     frame_ready = False, timed_out = False, frame_pixels = (\<lambda>_ _. 0),
     cached_hz = 24000000 \<rparr>"

record soc =
  s_intc :: intc
  s_clk :: clkctl
  s_t8 :: "nat \<Rightarrow> t8"
  s_t16 :: "nat \<Rightarrow> t16"
  s_portctrl :: portctrl
  s_bcu :: bcu
  s_wdt :: wdt
  s_rtc :: rtc
  s_hsdma :: hsdma
  s_sif3 :: sif3
  s_lcd :: lcd
  s_sound :: sound
  nmi_count :: u64
  wake_cached :: u64
  wake_valid :: bool
  timer_active_mask :: u32
  front :: front

text \<open>The members as they stand after \<open>attach\<close>.\<close>

definition soc_init :: soc where
  "soc_init = \<lparr> s_intc = intc_attached, s_clk = clk_init, s_t8 = (\<lambda>_. t8_init), s_t16 = (\<lambda>_. t16_init),
     s_portctrl = portctrl_init, s_bcu = bcu_init, s_wdt = wdt_init, s_rtc = rtc_attached clk_init,
     s_hsdma = hsdma_init, s_sif3 = sif3_init, s_lcd = lcd_init, s_sound = sound_init,
     nmi_count = 0, wake_cached = 0, wake_valid = False, timer_active_mask = 0, front = front_init \<rparr>"

text \<open>
  What the frontend supplies: the host time, the cycle counter of \<open>get_cycles\<close>, the callbacks
  on a clock change and on the completion of the two DMA channels, and whether \<open>on_push\<close> is set.
\<close>

record soc_env =
  env_tm :: host_tm
  env_now :: u64
  env_clock_change :: "u32 \<Rightarrow> soc machine \<Rightarrow> soc machine"
  env_frame_done :: "soc machine \<Rightarrow> soc machine"
  env_ch1_done :: "soc machine \<Rightarrow> soc machine"
  env_push_hook :: bool

definition on_dev :: "('d \<Rightarrow> 'd) \<Rightarrow> 'd machine \<Rightarrow> 'd machine" where
  "on_dev f m = m\<lparr>dev := f (dev m)\<rparr>"

section \<open>Calls between the devices\<close>

text \<open>Interrupts: the controller's request goes to \<open>assert_trap\<close> at once.\<close>

definition deliver :: "soc wiring \<Rightarrow> trap_request \<Rightarrow> soc machine \<Rightarrow> soc machine" where
  "deliver w req m = (case req of None \<Rightarrow> m | Some (no, level) \<Rightarrow> assert_trap w no level m)"

definition soc_raise :: "soc wiring \<Rightarrow> int \<Rightarrow> irq_source \<Rightarrow> soc machine \<Rightarrow> soc machine" where
  "soc_raise w lv src m =
    (case intc_raise src lv (s_intc (dev m)) of (i, req) \<Rightarrow>
       deliver w req (on_dev (\<lambda>d. d\<lparr>s_intc := i\<rparr>) m))"

definition soc_poll :: "soc wiring \<Rightarrow> soc machine \<Rightarrow> soc machine" where
  "soc_poll w m =
    (case intc_poll (s_intc (dev m)) of (i, req) \<Rightarrow> deliver w req (on_dev (\<lambda>d. d\<lparr>s_intc := i\<rparr>) m))"

text \<open>\<open>update_active\<close> of a timer: its bit of the mask of running timers.\<close>

definition soc_active :: "nat \<Rightarrow> bool \<Rightarrow> soc machine \<Rightarrow> soc machine" where
  "soc_active k running = on_dev (\<lambda>d. d\<lparr>timer_active_mask :=
     (if running then timer_active_mask d OR push_bit k 1 else timer_active_mask d AND NOT (push_bit k 1))\<rparr>)"

definition soc_p07 :: "soc_env \<Rightarrow> bool \<Rightarrow> soc machine \<Rightarrow> soc machine" where
  "soc_p07 env slow m =
    (case set_p07 slow (s_clk (dev m)) of (c, e) \<Rightarrow>
       fold (env_clock_change env) e (on_dev (\<lambda>d. d\<lparr>s_clk := c\<rparr>) m))"

fun soc_bcu_effect :: "bcu_effect \<Rightarrow> soc machine \<Rightarrow> soc machine" where
  "soc_bcu_effect (SramWait n) m = m\<lparr>bus := (bus m)\<lparr>sram_wait := n\<rparr>\<rparr>"
| "soc_bcu_effect (FlashWait n) m = m\<lparr>bus := (bus m)\<lparr>flash_wait := n\<rparr>\<rparr>"
| "soc_bcu_effect (CpuTtbr v) m = m\<lparr>cpu := (cpu m)\<lparr>ttbr := v\<rparr>\<rparr>"

fun soc_sound_event :: "soc_env \<Rightarrow> soc wiring \<Rightarrow> sound_event \<Rightarrow> soc machine \<Rightarrow> soc machine" where
  "soc_sound_event env w FinishCh1 m =
    env_ch1_done env (on_dev (\<lambda>d. d\<lparr>s_hsdma := fst (finish_ch1 (s_hsdma d))\<rparr>) m)"
| "soc_sound_event env w (RaiseHsdma1 lv) m = soc_raise w (int lv) HSDMA1 m"
| "soc_sound_event env w (Pushed _ _ _ _) m = m"

text \<open>
  The channel 1 start of the sound unit, which reads its samples over the bus, and the two
  completion callbacks.
\<close>

fun soc_dma_event :: "soc_env \<Rightarrow> soc wiring \<Rightarrow> dma_event \<Rightarrow> soc machine \<Rightarrow> soc machine" where
  "soc_dma_event env w (Ch1Start sadr cnt) m =
    (case handle_ch1_start (read16 w) (Some (t16_cra (s_t16 (dev m) 1))) (env_now env) (cpu_clock_hz (s_clk (dev m)))
            (env_push_hook env) sadr cnt (s_sound (dev m)) m of
       (s, e, m1) \<Rightarrow> fold (soc_sound_event env w) e (on_dev (\<lambda>d. d\<lparr>s_sound := s\<rparr>) m1))"
| "soc_dma_event env w Ch0Complete m = env_frame_done env m"
| "soc_dma_event env w Ch1Complete m = env_ch1_done env m"

text \<open>The display behind the serial line: \<open>lcd.write(b)\<close> with the register-select line of port P2.\<close>

definition soc_lcd_byte :: "u8 \<Rightarrow> soc machine \<Rightarrow> soc machine" where
  "soc_lcd_byte b = on_dev (\<lambda>d. d\<lparr>s_lcd := lcd_write (p21d (s_portctrl d)) b (s_lcd d)\<rparr>)"

definition soc_txd :: "soc_env \<Rightarrow> soc wiring \<Rightarrow> u8 \<Rightarrow> soc machine \<Rightarrow> soc machine" where
  "soc_txd env w b m =
    (case on_txd_write (read8 w) soc_lcd_byte b (s_hsdma (dev m)) m of
       (h, e, m1) \<Rightarrow> fold (soc_dma_event env w) e (on_dev (\<lambda>d. d\<lparr>s_hsdma := h\<rparr>) m1))"

section \<open>The register map\<close>

definition perform :: "('s \<Rightarrow> 'd \<Rightarrow> 'd) \<Rightarrow> ('e \<Rightarrow> 'd machine \<Rightarrow> 'd machine) \<Rightarrow> 's \<times> 'e list \<Rightarrow> 'd machine \<Rightarrow> 'd machine" where
  "perform put ev r m = fold ev (snd r) (on_dev (put (fst r)) m)"

text \<open>
  The ports of a device as handlers on the machine. What a port's registration depends on (the
  clock of a timer, the host time) is read from the machine at the time of the access; its address
  and whether it has a byte handler do not depend on it.
\<close>

definition lift_ports ::
  "(soc \<Rightarrow> ('s, 'e) port list) \<Rightarrow> (soc \<Rightarrow> 's) \<Rightarrow> ('s \<Rightarrow> soc \<Rightarrow> soc) \<Rightarrow> ('e \<Rightarrow> soc machine \<Rightarrow> soc machine)
    \<Rightarrow> (u32 \<times> soc io_handler) list" where
  "lift_ports ps get put ev =
    map (\<lambda>i. (port_base (ps soc_init ! i),
      \<lparr> io_read = Some (\<lambda>a m. (port_rd (ps (dev m) ! i) (get (dev m)), m)),
        io_write = Some (\<lambda>a v m. perform put ev (port_wr (ps (dev m) ! i) a v (get (dev m))) m),
        io_write_byte = (case port_wb (ps soc_init ! i) of None \<Rightarrow> None
          | Some _ \<Rightarrow> Some (\<lambda>a v m. perform put ev (port_store8 (ps (dev m) ! i) a v (get (dev m))) m)) \<rparr>))
      [0..<length (ps soc_init)]"

definition intc_ports :: "(intc, unit) port list" where
  "intc_ports = map (\<lambda>i. byte_port (0x040260 + word_of_nat (2 * i)) (intc_io_read (2 * i))
     (intc_io_write (2 * i)) (intc_io_write_byte (2 * i))) [0..<32]"

definition no_event :: "unit \<Rightarrow> soc machine \<Rightarrow> soc machine" where "no_event _ m = m"

text \<open>All registrations of \<open>PiecePeripherals::attach\<close>, in its order.\<close>

definition soc_io :: "soc_env \<Rightarrow> soc wiring \<Rightarrow> (u32 \<times> soc io_handler) list" where
  "soc_io env w =
     lift_ports (\<lambda>_. intc_ports) s_intc (\<lambda>x d. d\<lparr>s_intc := x\<rparr>) no_event
   @ lift_ports (\<lambda>_. clk_ports) s_clk (\<lambda>x d. d\<lparr>s_clk := x\<rparr>) (env_clock_change env)
   @ concat (map (\<lambda>i. lift_ports (\<lambda>_. t8_ports i) (\<lambda>d. s_t8 d i) (\<lambda>x d. d\<lparr>s_t8 := (s_t8 d)(i := x)\<rparr>) (soc_active (8 + i))) [0..<4])
   @ concat (map (\<lambda>i. lift_ports (\<lambda>d. t16_ports i (s_clk d)) (\<lambda>d. s_t16 d i) (\<lambda>x d. d\<lparr>s_t16 := (s_t16 d)(i := x)\<rparr>) (soc_active i)) [0..<6])
   @ lift_ports (\<lambda>_. portctrl_ports) s_portctrl (\<lambda>x d. d\<lparr>s_portctrl := x\<rparr>) (soc_p07 env)
   @ lift_ports (\<lambda>_. bcu_ports) s_bcu (\<lambda>x d. d\<lparr>s_bcu := x\<rparr>) soc_bcu_effect
   @ lift_ports (\<lambda>_. [wdt_port]) s_wdt (\<lambda>x d. d\<lparr>s_wdt := x\<rparr>) no_event
   @ lift_ports (\<lambda>_. rtc_ports (env_tm env)) s_rtc (\<lambda>x d. d\<lparr>s_rtc := x\<rparr>) no_event
   @ lift_ports (\<lambda>_. hsdma_ports) s_hsdma (\<lambda>x d. d\<lparr>s_hsdma := x\<rparr>) (soc_dma_event env w)
   @ lift_ports (\<lambda>_. sif3_ports) s_sif3 (\<lambda>x d. d\<lparr>s_sif3 := x\<rparr>) (soc_txd env w)"

fun attach_io :: "(u32 \<times> 'd io_handler) list \<Rightarrow> 'd wiring \<Rightarrow> bus_error + 'd wiring" where
  "attach_io [] w = Inr w"
| "attach_io ((a, h) # hs) w = (case register_io a h w of Inl e \<Rightarrow> Inl e | Inr w1 \<Rightarrow> attach_io hs w1)"

text \<open>
  The handlers reach the bus again (a DMA that reads, a trap that pushes). Level \<open>n\<close> of the wiring
  serves accesses nested \<open>n\<close> deep in handlers; level 0 has none.
\<close>

primrec soc_wiring :: "soc_env \<Rightarrow> nat \<Rightarrow> soc wiring" where
  "soc_wiring env 0 = no_wiring"
| "soc_wiring env (Suc n) =
    (case attach_io (soc_io env (soc_wiring env n)) no_wiring of Inl _ \<Rightarrow> no_wiring | Inr w \<Rightarrow> w)"

section \<open>Tick, wake and reset\<close>

text \<open>\<open>std::countr_zero\<close> and the loop over the set bits of a mask.\<close>

definition countr_zero :: "u32 \<Rightarrow> nat" where
  "countr_zero x = length (takeWhile (\<lambda>k. \<not> bit x k) [0..<32])"

lemma clear_lowest:
  assumes "bits \<noteq> 0"
  shows "bits AND (bits - 1) < (bits :: u32)"
proof -
  have "bits AND (bits - 1) \<le> bits - 1" by (simp add: word_and_le1)
  moreover have "0 < bits" using assms by (simp add: word_gt_0)
  ultimately show ?thesis using u32_pred [of bits] unfolding word_le_nat_alt word_less_nat_alt by linarith
qed

function scan_bits :: "(nat \<Rightarrow> 'm \<Rightarrow> 'm) \<Rightarrow> u32 \<Rightarrow> 'm \<Rightarrow> 'm" where
  "scan_bits f bits m = (if bits = 0 then m else scan_bits f (bits AND (bits - 1)) (f (countr_zero bits) m))"
  by pat_completeness auto

termination
  by (relation "measure (\<lambda>(f, bits, m). unat bits)") (simp_all add: clear_lowest flip: word_less_nat_alt)

declare scan_bits.simps [simp del]

definition soc_t16_tick :: "soc wiring \<Rightarrow> u64 \<Rightarrow> nat \<Rightarrow> soc machine \<Rightarrow> soc machine" where
  "soc_t16_tick w cyc i m =
    (case t16_tick i (s_clk (dev m)) cyc (s_t16 (dev m) i) of (t, irqs) \<Rightarrow>
       fold (soc_raise w (- 1)) irqs (on_dev (\<lambda>d. d\<lparr>s_t16 := (s_t16 d)(i := t)\<rparr>) m))"

definition soc_t8_tick :: "soc wiring \<Rightarrow> u64 \<Rightarrow> nat \<Rightarrow> soc machine \<Rightarrow> soc machine" where
  "soc_t8_tick w cyc i m =
    (case t8_tick i (s_clk (dev m)) cyc (s_t8 (dev m) i) of (t, irqs) \<Rightarrow>
       fold (soc_raise w (- 1)) irqs (on_dev (\<lambda>d. d\<lparr>s_t8 := (s_t8 d)(i := t)\<rparr>) m))"

definition soc_nmi :: "soc wiring \<Rightarrow> int \<times> int \<Rightarrow> soc machine \<Rightarrow> soc machine" where
  "soc_nmi w e m = assert_trap w (fst e) (snd e) (on_dev (\<lambda>d. d\<lparr>nmi_count := nmi_count d + 1\<rparr>) m)"

definition soc_wdt_tick :: "soc wiring \<Rightarrow> u64 \<Rightarrow> soc machine \<Rightarrow> soc machine" where
  "soc_wdt_tick w cyc m =
    (case wdt_tick (s_clk (dev m)) cyc (s_wdt (dev m)) of (x, e) \<Rightarrow>
       fold (soc_nmi w) e (on_dev (\<lambda>d. d\<lparr>s_wdt := x\<rparr>) m))"

definition soc_sound_tick :: "soc_env \<Rightarrow> soc wiring \<Rightarrow> u64 \<Rightarrow> soc machine \<Rightarrow> soc machine" where
  "soc_sound_tick env w cyc m =
    (case sound_tick cyc (s_sound (dev m)) of (s, e) \<Rightarrow>
       fold (soc_sound_event env w) e (on_dev (\<lambda>d. d\<lparr>s_sound := s\<rparr>) m))"

definition soc_timers :: "soc wiring \<Rightarrow> u64 \<Rightarrow> soc machine \<Rightarrow> soc machine" where
  "soc_timers w cyc m =
    (let mt16 = timer_active_mask (dev m) AND 0x003F; mt8 = drop_bit 8 (timer_active_mask (dev m)) AND 0x000F
     in scan_bits (soc_t8_tick w cyc) mt8 (scan_bits (soc_t16_tick w cyc) mt16 m))"

definition soc_tick :: "soc_env \<Rightarrow> soc wiring \<Rightarrow> u64 \<Rightarrow> soc machine \<Rightarrow> soc machine" where
  "soc_tick env w cyc m =
    on_dev (\<lambda>d. d\<lparr>wake_valid := False\<rparr>)
      (soc_sound_tick env w cyc
        (on_dev (\<lambda>d. d\<lparr>s_rtc := rtc_tick (s_clk d) cyc (s_rtc d)\<rparr>)
          (soc_wdt_tick w cyc (soc_timers w cyc m))))"

text \<open>One visit of the loop of \<open>next_wake_cycle\<close> over the 8-bit timers, which refreshes their caches.\<close>

definition wake_t8 :: "nat \<Rightarrow> u64 \<times> soc \<Rightarrow> u64 \<times> soc" where
  "wake_t8 i acc = (case acc of (wake, d) \<Rightarrow>
     case t8_next_wake i (s_clk d) (s_t8 d i) of (x, t) \<Rightarrow> (min wake x, d\<lparr>s_t8 := (s_t8 d)(i := t)\<rparr>))"

definition soc_next_wake :: "soc \<Rightarrow> u64 \<times> soc" where
  "soc_next_wake d =
    (if wake_valid d then (wake_cached d, d)
     else case fold wake_t8 [0..<4] (UINT64_MAX, d) of (w1, d1) \<Rightarrow>
       let w2 = fold (\<lambda>i w. min w (t16_next_wake (s_t16 d1 i))) [0..<6] w1;
           w3 = min w2 (rtc_next_wake (s_rtc d1));
           w4 = min w3 (wdt_next_wake (s_wdt d1));
           w5 = min w4 (sound_next_wake (s_sound d1))
       in (w5, d1\<lparr>wake_cached := w5, wake_valid := True\<rparr>))"

definition soc_sleep_wake :: "soc \<Rightarrow> u64" where "soc_sleep_wake d = rtc_next_wake (s_rtc d)"

definition soc_reset_core :: "soc \<Rightarrow> soc" where
  "soc_reset_core d =
    (let clk = clk_reset (s_clk d) in
     d\<lparr>s_intc := intc_reset (s_intc d), s_clk := clk,
       s_t8 := fold (\<lambda>i t. t(i := fst (t8_reset (t i)))) [0..<4] (s_t8 d),
       s_t16 := fold (\<lambda>i t. t(i := fst (t16_reset (t i)))) [0..<6] (s_t16 d),
       s_wdt := wdt_reset (s_wdt d), s_rtc := rtc_reset clk (s_rtc d), s_hsdma := hsdma_reset (s_hsdma d),
       s_sif3 := sif3_reset (s_sif3 d), s_sound := sound_reset (s_sound d),
       nmi_count := 0, wake_valid := False, timer_active_mask := 0\<rparr>)"

definition soc_reset :: "bool \<Rightarrow> soc machine \<Rightarrow> soc machine" where
  "soc_reset cold m =
    (let m1 = on_dev soc_reset_core m
     in if cold then
          case bcu_reset (s_bcu (dev m1)) of (b, e) \<Rightarrow>
            on_dev (\<lambda>d. d\<lparr>s_portctrl := portctrl_reset (s_portctrl d), s_lcd := lcd_reset (s_lcd d)\<rparr>)
              (fold soc_bcu_effect e (on_dev (\<lambda>d. d\<lparr>s_bcu := b\<rparr>) m1))
        else m1)"

end
