(* ===== verification/Invariant.thy ===== *)
theory Invariant
  imports Soc
begin

text \<open>
  What keeps a property of the machine, whatever the CPU executes. The CPU reaches the devices only through
  the bus and the flash only by halfword writes to its device, so \<open>machine_invariant\<close> asks that the handlers, the
  watch callback and such a write keep the property; then every bus access, trap and instruction does. A property
  of the devices alone (\<open>device_invariant\<close>) and one of the flash alone (\<open>flash_invariant\<close>) are its two cases.
\<close>

section \<open>The contract\<close>

abbreviation rom :: "'d machine \<Rightarrow> flash_device" where "rom m \<equiv> flash (bus m)"

locale machine_invariant =
  fixes w :: "'d wiring"
    and K :: "flash_device \<Rightarrow> 'd \<Rightarrow> bool"
  assumes kept_rd: "io_read (io_handlers w k) = Some f \<Longrightarrow> K (rom m) (dev m) \<Longrightarrow> K (rom (snd (f a m))) (dev (snd (f a m)))"
    and kept_wr: "io_write (io_handlers w k) = Some g \<Longrightarrow> K (rom m) (dev m) \<Longrightarrow> K (rom (g a v m)) (dev (g a v m))"
    and kept_wb: "io_write_byte (io_handlers w k) = Some h \<Longrightarrow> K (rom m) (dev m) \<Longrightarrow> K (rom (h a u m)) (dev (h a u m))"
    and kept_cb: "wp_cb w = Some c \<Longrightarrow> K (rom m) (dev m) \<Longrightarrow> K (rom (c wp a x n b m)) (dev (c wp a x n b m))"
    and kept_flash: "K fd d \<Longrightarrow> K (flash_write16 fa fv fd) d"

lemma dev_updates [simp]:
  "dev (m\<lparr>bus := b\<rparr>) = dev m" "dev (cpu_update f m) = dev m" "dev (store_iram xs m) = dev m"
  "dev (store_sram xs m) = dev m" "dev (store_flash16 a x m) = dev m" "dev (charge k m) = dev m"
  "dev (misalign cat m) = dev m" "dev (diag_warn cat at m) = dev m" "dev (diag_fault cat at m) = dev m"
  "dev (diag_warn_or_fault cat at m) = dev m" "dev (snd (fetch16 a m)) = dev m" "dev (disasm_fetch a m) = dev m"
  "dev (flush m) = dev m"
  by (simp_all add: store_iram_def store_sram_def store_flash16_def charge_def misalign_def diag_warn_def
      diag_fault_def diag_warn_or_fault_def disasm_fetch_def flush_def fetch16_def Let_def)

lemma dev_cpu_only [simp]:
  "dev (h_slp m) = dev m" "dev (h_halt m) = dev m" "dev (h_jp_rb i m) = dev m" "dev (h_jr i taken m) = dev m"
  "dev (h_jp_simm8 i m) = dev m" "dev (do_alu_rr op ext i m) = dev m" "dev (do_alu_imm op sx i m) = dev m"
  "dev (h_ext i m) = dev m" "dev (h_undef i m) = dev m"
  by (simp_all add: h_slp_def h_halt_def h_jp_rb_def h_jr_def h_jp_simm8_def do_alu_rr_def do_alu_imm_def
      h_ext_def h_undef_def Let_def)

lemma rom_updates [simp]:
  "rom (cpu_update f m) = rom m" "rom (store_iram xs m) = rom m" "rom (dev_update g m) = rom m"
  "rom (store_sram xs m) = rom m" "rom (charge k m) = rom m"
  "rom (store_flash16 a x m) = flash_write16 a x (rom m)"
  "rom (misalign cat m) = rom m" "rom (diag_warn cat at m) = rom m" "rom (diag_fault cat at m) = rom m"
  "rom (diag_warn_or_fault cat at m) = rom m" "rom (snd (fetch16 a m)) = rom m" "rom (disasm_fetch a m) = rom m"
  "rom (flush m) = rom m" "rom (on_dev h m) = rom m"
  by (simp_all add: store_iram_def store_sram_def store_flash16_def charge_def misalign_def diag_warn_def
      diag_fault_def diag_warn_or_fault_def disasm_fetch_def flush_def fetch16_def on_dev_def Let_def)

lemma flash_update_shadow [simp]: "flash (update_shadow off k b) = flash b"
  by (simp add: update_shadow_def)

lemma rom_cpu_only [simp]:
  "rom (h_slp m) = rom m" "rom (h_halt m) = rom m" "rom (h_jp_rb i m) = rom m" "rom (h_jr i taken m) = rom m"
  "rom (h_jp_simm8 i m) = rom m" "rom (do_alu_rr op ext i m) = rom m" "rom (do_alu_imm op sx i m) = rom m"
  "rom (h_ext i m) = rom m" "rom (h_undef i m) = rom m"
  by (simp_all add: h_slp_def h_halt_def h_jp_rb_def h_jr_def h_jp_simm8_def do_alu_rr_def do_alu_imm_def
      h_ext_def h_undef_def Let_def)

context machine_invariant begin

lemma kept_fire_wp: "K (rom m) (dev m) \<Longrightarrow> K (rom (fire_wp w a v n b m)) (dev (fire_wp w a v n b m))"
proof -
  have "K (rom (fold (\<lambda>wp m. if wp_hits a n b wp then cb wp a v n b m else m) wps m)) (dev (fold (\<lambda>wp m. if wp_hits a n b wp then cb wp a v n b m else m) wps m))"
    if "wp_cb w = Some cb" "K (rom m) (dev m)" for cb wps m
    using that(2) by (induction wps arbitrary: m) (auto intro: kept_cb [OF that(1)])
  then show "K (rom m) (dev m) \<Longrightarrow> K (rom (fire_wp w a v n b m)) (dev (fire_wp w a v n b m))" by (auto simp: fire_wp_def split: option.split)
qed

lemma kept_watch: "K (rom m) (dev m) \<Longrightarrow> K (rom (wp_read w a v k m)) (dev (wp_read w a v k m))" "K (rom m) (dev m) \<Longrightarrow> K (rom (wp_write w a v k m)) (dev (wp_write w a v k m))"
  by (auto simp: wp_read_def wp_write_def Let_def intro: kept_fire_wp)

lemma kept_read8: "K (rom m) (dev m) \<Longrightarrow> K (rom (snd (read8 w a m))) (dev (snd (read8 w a m)))"
  by (auto simp: read8_def Let_def case_prod_beta kept_watch kept_rd split: region.split option.split)

lemma kept_read16: "K (rom m) (dev m) \<Longrightarrow> K (rom (snd (read16 w a m))) (dev (snd (read16 w a m)))"
  by (auto simp: read16_def sram_read16_def io_read16_def Let_def case_prod_beta kept_watch kept_rd
      split: region.split option.split)

lemma kept_read32: "K (rom m) (dev m) \<Longrightarrow> K (rom (snd (read32 w a m))) (dev (snd (read32 w a m)))"
  by (auto simp: read32_def Let_def case_prod_beta kept_watch kept_read16 split: region.split option.split)

lemma kept_write8: "K (rom m) (dev m) \<Longrightarrow> K (rom (write8 w a v m)) (dev (write8 w a v m))"
  by (auto simp: write8_def Let_def case_prod_beta kept_watch kept_wr kept_wb kept_flash split: region.split option.split)

lemma kept_write16: "K (rom m) (dev m) \<Longrightarrow> K (rom (write16 w a v m)) (dev (write16 w a v m))"
  by (auto simp: write16_def Let_def case_prod_beta kept_watch kept_wr kept_flash split: region.split option.split)

lemma kept_write32: "K (rom m) (dev m) \<Longrightarrow> K (rom (write32 w a v m)) (dev (write32 w a v m))"
  by (auto simp: write32_def Let_def case_prod_beta kept_watch kept_write16 kept_flash split: region.split option.split)

lemmas kept_bus = kept_read8 kept_read16 kept_read32 kept_write8 kept_write16 kept_write32

lemma kept_stack:
  "K (rom m) (dev m) \<Longrightarrow> K (rom (push32 w v m)) (dev (push32 w v m))" "K (rom m) (dev m) \<Longrightarrow> K (rom (snd (pop32 w m))) (dev (snd (pop32 w m)))"
  "K (rom m) (dev m) \<Longrightarrow> K (rom (pop_reg w i m)) (dev (pop_reg w i m))"
  by (simp_all add: push32_def pop32_def pop_reg_def case_prod_beta kept_bus)

lemma kept_enter: "K (rom m) (dev m) \<Longrightarrow> K (rom (enter_trap w no level m)) (dev (enter_trap w no level m))"
  by (simp add: enter_trap_def case_prod_beta Let_def kept_bus kept_stack)

lemma kept_trap: "K (rom m) (dev m) \<Longrightarrow> K (rom (do_trap w no level m)) (dev (do_trap w no level m))"
  by (simp add: do_trap_def kept_enter)

lemma kept_assert: "K (rom m) (dev m) \<Longrightarrow> K (rom (assert_trap w no level m)) (dev (assert_trap w no level m))"
  by (simp add: assert_trap_def kept_trap)

lemma kept_reg_lists: "K (rom m) (dev m) \<Longrightarrow> K (rom (push_regs w k m)) (dev (push_regs w k m))" "K (rom m) (dev m) \<Longrightarrow> K (rom (pop_regs w k m)) (dev (pop_regs w k m))"
proof -
  show "K (rom m) (dev m) \<Longrightarrow> K (rom (push_regs w k m)) (dev (push_regs w k m))" by (induction k arbitrary: m) (simp_all add: kept_stack)
  have "K (rom m) (dev m) \<Longrightarrow> K (rom (fold (pop_reg w) ks m)) (dev (fold (pop_reg w) ks m))" for ks
    by (induction ks arbitrary: m) (simp_all add: kept_stack)
  then show "K (rom m) (dev m) \<Longrightarrow> K (rom (pop_regs w k m)) (dev (pop_regs w k m))" unfolding pop_regs_def .
qed

lemma kept_load_store:
  "K (rom m) (dev m) \<Longrightarrow> K (rom (snd (load_val sz sx w a m))) (dev (snd (load_val sz sx w a m)))" "K (rom m) (dev m) \<Longrightarrow> K (rom (store_val sz w a v m)) (dev (store_val sz w a v m))"
  by (cases sz; simp add: case_prod_beta kept_bus)+

lemmas kept_all = kept_bus kept_stack kept_trap kept_assert kept_reg_lists kept_load_store

lemma kept_exec0: "K (rom m) (dev m) \<Longrightarrow> K (rom (exec0 h w i m)) (dev (exec0 h w i m))"
  by (cases h)
    (simp_all add: h_pushn_def h_popn_def h_brk_def h_retd_def h_int_def h_reti_def
      h_call_rb_def do_call_def h_ret_def h_call_simm8_def case_prod_beta Let_def kept_all)

lemma kept_exec1: "K (rom m) (dev m) \<Longrightarrow> K (rom (exec1 h w i m)) (dev (exec1 h w i m))"
  by (cases h) (simp_all add: do_load_rb_def do_store_rb_def case_prod_beta Let_def kept_all)

lemma kept_exec2: "K (rom m) (dev m) \<Longrightarrow> K (rom (exec2 h w i m)) (dev (exec2 h w i m))"
  by (cases h) (simp_all add: do_load_sp_def do_store_sp_def case_prod_beta kept_all)

lemma kept_exec3: "K (rom m) (dev m) \<Longrightarrow> K (rom (exec3 h i m)) (dev (exec3 h i m))"
  by (cases h) simp_all

lemma kept_exec4: "K (rom m) (dev m) \<Longrightarrow> K (rom (exec4 h w i m)) (dev (exec4 h w i m))"
  by (cases h) (simp_all add: h_div0s_def h_div0u_def Let_def kept_all)

lemma kept_mac_slow: "K (rom m) (dev m) \<Longrightarrow> K (rom (snd (mac_slow k w s r1 r2 a m))) (dev (snd (mac_slow k w s r1 r2 a m)))"
  by (induction k arbitrary: a m) (simp_all add: case_prod_beta Let_def kept_bus)

lemma kept_exec5: "K (rom m) (dev m) \<Longrightarrow> K (rom (exec5 h w i m)) (dev (exec5 h w i m))"
  by (cases h)
    (simp_all add: h_btst_def h_bclr_def h_bset_def h_bnot_def rmw8_def h_mac_def mac_fast_open_def mac_fast_sram_def
      case_prod_beta Let_def kept_bus kept_mac_slow)

lemma kept_exec_handler: "K (rom m) (dev m) \<Longrightarrow> K (rom (exec_handler h w i m)) (dev (exec_handler h w i m))"
  by (cases h) (simp_all add: kept_exec0 kept_exec1 kept_exec2 kept_exec3 kept_exec4 kept_exec5)

lemma kept_step_insn: "K (rom m) (dev m) \<Longrightarrow> K (rom (step_insn w m)) (dev (step_insn w m))"
proof -
  have sc: "rom (snd (slot_checks a i x)) = rom x" "dev (snd (slot_checks a i x)) = dev x" for a i and x :: "'a machine"
    by (auto simp: slot_checks_def Let_def split: delay_class.split)
  have ec: "rom (snd (ext_check a i x)) = rom x" "dev (snd (ext_check a i x)) = dev x" for a i and x :: "'a machine"
    by (auto simp: ext_check_def Let_def)
  have tail: "K (rom x) (dev x) \<Longrightarrow> K (rom (step_tail w a s t x)) (dev (step_tail w a s t x))" for s t x and a
    by (auto simp: step_tail_def fire_deferred_def bus_fault_check_def take_fault_def case_prod_beta Let_def kept_trap)
  show "K (rom m) (dev m) \<Longrightarrow> K (rom (step_insn w m)) (dev (step_insn w m))"
    unfolding step_insn_def Let_def case_prod_beta
    by (auto intro!: tail kept_exec_handler simp: sc ec)
qed

lemma kept_step: "K (rom m) (dev m) \<Longrightarrow> K (rom (snd (step w m))) (dev (snd (step w m)))"
  by (auto simp: step_def Let_def kept_step_insn)

end


section \<open>Handlers and registrations\<close>

definition handler_keeps :: "(flash_device \<Rightarrow> 'd \<Rightarrow> bool) \<Rightarrow> 'd io_handler \<Rightarrow> bool" where
  "handler_keeps K h \<longleftrightarrow>
    (\<forall>f a m. io_read h = Some f \<longrightarrow> K (rom m) (dev m) \<longrightarrow> K (rom (snd (f a m))) (dev (snd (f a m)))) \<and>
    (\<forall>f a v m. io_write h = Some f \<longrightarrow> K (rom m) (dev m) \<longrightarrow> K (rom (f a v m)) (dev (f a v m))) \<and>
    (\<forall>f a v m. io_write_byte h = Some f \<longrightarrow> K (rom m) (dev m) \<longrightarrow> K (rom (f a v m)) (dev (f a v m)))"

lemma attach_keeps:
  assumes "\<forall>h\<in>snd ` set hs. handler_keeps K h" "machine_invariant w0 K" "attach_io hs w0 = Inr w"
  shows "machine_invariant w K"
  using assms
proof (induction hs arbitrary: w0)
  case Nil then show ?case by simp
next
  case (Cons ah hs)
  obtain a h where ah: "ah = (a, h)" by force
  obtain w1 where w1: "register_io a h w0 = Inr w1" "attach_io hs w1 = Inr w"
    using Cons.prems(3) by (auto simp: ah split: sum.splits)
  have h: "handler_keeps K h" using Cons.prems(1) ah by simp
  obtain j where j: "w1 = w0\<lparr>io_handlers := (io_handlers w0)(j := h)\<rparr>"
    using w1(1) by (auto simp: register_io_def Let_def split: if_splits)
  have "machine_invariant w1 K"
  proof
    fix k f and m :: "'a machine" and a assume f: "io_read (io_handlers w1 k) = Some f" "K (rom m) (dev m)"
    then show "K (rom (snd (f a m))) (dev (snd (f a m)))"
      using h machine_invariant.kept_rd [OF Cons.prems(2)] by (cases "k = j") (auto simp: j handler_keeps_def)
  next
    fix k g and m :: "'a machine" and a v assume "io_write (io_handlers w1 k) = Some g" "K (rom m) (dev m)"
    then show "K (rom (g a v m)) (dev (g a v m))"
      using h machine_invariant.kept_wr [OF Cons.prems(2)] by (cases "k = j") (auto simp: j handler_keeps_def)
  next
    fix k g and m :: "'a machine" and a v assume "io_write_byte (io_handlers w1 k) = Some g" "K (rom m) (dev m)"
    then show "K (rom (g a v m)) (dev (g a v m))"
      using h machine_invariant.kept_wb [OF Cons.prems(2)] by (cases "k = j") (auto simp: j handler_keeps_def)
  next
    show "K fd d \<Longrightarrow> K (flash_write16 fa fv fd) d" for fd d fa fv
      by (rule machine_invariant.kept_flash [OF Cons.prems(2)])
  next
    fix c and m :: "'a machine" and wp a x n b assume "wp_cb w1 = Some c" "K (rom m) (dev m)"
    then show "K (rom (c wp a x n b m)) (dev (c wp a x n b m))"
      using machine_invariant.kept_cb [OF Cons.prems(2)] by (simp add: j)
  qed
  then show ?case using Cons w1 by simp
qed

lemma no_wiring_invariant: "(\<And>fd d a v. K fd d \<Longrightarrow> K (flash_write16 a v fd) d) \<Longrightarrow> machine_invariant no_wiring K"
  by unfold_locales (simp_all add: no_wiring_def no_handler_def)

section \<open>Properties of the devices alone, and of the flash alone\<close>

locale device_invariant =
  fixes w :: "'d wiring"
    and P :: "'d \<Rightarrow> bool"
  assumes stays_rd: "io_read (io_handlers w k) = Some f \<Longrightarrow> P (dev m) \<Longrightarrow> P (dev (snd (f a m)))"
    and stays_wr: "io_write (io_handlers w k) = Some g \<Longrightarrow> P (dev m) \<Longrightarrow> P (dev (g a v m))"
    and stays_wb: "io_write_byte (io_handlers w k) = Some h \<Longrightarrow> P (dev m) \<Longrightarrow> P (dev (h a u m))"
    and stays_cb: "wp_cb w = Some c \<Longrightarrow> P (dev m) \<Longrightarrow> P (dev (c wp a x n b m))"

sublocale device_invariant \<subseteq> machine_invariant w "\<lambda>_. P"
  by unfold_locales (simp_all add: stays_rd stays_wr stays_wb stays_cb)

lemma device_invariantI: "machine_invariant w (\<lambda>_. P) \<Longrightarrow> device_invariant w P"
  by unfold_locales (auto dest: machine_invariant.kept_rd machine_invariant.kept_wr machine_invariant.kept_wb machine_invariant.kept_cb)

context device_invariant begin

lemmas stays_read8 = kept_read8
lemmas stays_read16 = kept_read16
lemmas stays_write8 = kept_write8
lemmas stays_bus = kept_bus
lemmas stays_assert = kept_assert
lemmas stays_step = kept_step

end

locale flash_invariant =
  fixes w :: "'d wiring"
    and P :: "flash_device \<Rightarrow> bool"
  assumes rom_rd: "io_read (io_handlers w k) = Some f \<Longrightarrow> P (rom m) \<Longrightarrow> P (rom (snd (f a m)))"
    and rom_wr: "io_write (io_handlers w k) = Some g \<Longrightarrow> P (rom m) \<Longrightarrow> P (rom (g a v m))"
    and rom_wb: "io_write_byte (io_handlers w k) = Some h \<Longrightarrow> P (rom m) \<Longrightarrow> P (rom (h a u m))"
    and rom_cb: "wp_cb w = Some c \<Longrightarrow> P (rom m) \<Longrightarrow> P (rom (c wp a x n b m))"
    and rom_flash: "P fd \<Longrightarrow> P (flash_write16 fa fv fd)"

sublocale flash_invariant \<subseteq> machine_invariant w "\<lambda>fd _. P fd"
  by unfold_locales (simp_all add: rom_rd rom_wr rom_wb rom_cb rom_flash)

lemma flash_invariantI: "machine_invariant w (\<lambda>fd _. P fd) \<Longrightarrow> flash_invariant w P"
  by unfold_locales (auto dest: machine_invariant.kept_rd machine_invariant.kept_wr machine_invariant.kept_wb machine_invariant.kept_cb
      machine_invariant.kept_flash)

context flash_invariant begin

lemmas rom_read8 = kept_read8
lemmas rom_read16 = kept_read16
lemmas rom_write8 = kept_write8
lemmas rom_assert = kept_assert
lemmas rom_step = kept_step

end

end
