(* ===== verification/SocWf.thy ===== *)
theory SocWf
  imports Invariant
begin

text \<open>
  Invariants of the devices as a whole: their well-formedness satisfies the contract \<open>device_invariant\<close> of Invariant,
  so it holds in every machine that can come about.
\<close>

section \<open>Well-formed devices\<close>

text \<open>
  The bitmap of running timers says of every timer whether it runs and holds no other bit, the
  display cursor is inside the display memory, the ring indices are inside the ring, and the level
  overrides are priority levels or \<open>-1\<close>.
\<close>

definition mask_exact :: "soc \<Rightarrow> bool" where
  "mask_exact d \<longleftrightarrow> (\<forall>k. bit (timer_active_mask d) k =
     (if k < 6 then t16_ctl (s_t16 d k) AND 0x01 \<noteq> 0
      else 8 \<le> k \<and> k < 12 \<and> t8_ctl (s_t8 d (k - 8)) AND 0x01 \<noteq> 0))"

definition ring_ok :: "sound \<Rightarrow> bool" where
  "ring_ok s \<longleftrightarrow> unat (ring_head s) < 4096 \<and> unat (ring_tail s) < 4096"

definition overrides_ok :: "intc \<Rightarrow> bool" where
  "overrides_ok s \<longleftrightarrow> (\<forall>i. - 1 \<le> level_override s i \<and> level_override s i \<le> 7)"

definition soc_wf :: "soc \<Rightarrow> bool" where
  "soc_wf d \<longleftrightarrow> mask_exact d \<and> lcd_wf (s_lcd d) \<and> ring_ok (s_sound d) \<and> overrides_ok (s_intc d)"

lemma soc_wf_updates [simp]:
  "soc_wf (d\<lparr>s_clk := c\<rparr>) = soc_wf d" "soc_wf (d\<lparr>s_portctrl := p\<rparr>) = soc_wf d"
  "soc_wf (d\<lparr>s_bcu := b\<rparr>) = soc_wf d" "soc_wf (d\<lparr>s_wdt := wd\<rparr>) = soc_wf d"
  "soc_wf (d\<lparr>s_rtc := r\<rparr>) = soc_wf d" "soc_wf (d\<lparr>s_hsdma := h\<rparr>) = soc_wf d"
  "soc_wf (d\<lparr>s_sif3 := s\<rparr>) = soc_wf d" "soc_wf (d\<lparr>nmi_count := n\<rparr>) = soc_wf d"
  "soc_wf (d\<lparr>wake_valid := v\<rparr>) = soc_wf d" "soc_wf (d\<lparr>wake_cached := n\<rparr>) = soc_wf d"
  "soc_wf (d\<lparr>s_lcd := l\<rparr>) = (mask_exact d \<and> lcd_wf l \<and> ring_ok (s_sound d) \<and> overrides_ok (s_intc d))"
  "soc_wf (d\<lparr>s_sound := so\<rparr>) = (mask_exact d \<and> lcd_wf (s_lcd d) \<and> ring_ok so \<and> overrides_ok (s_intc d))"
  "soc_wf (d\<lparr>s_intc := i\<rparr>) = (mask_exact d \<and> lcd_wf (s_lcd d) \<and> ring_ok (s_sound d) \<and> overrides_ok i)"
  "soc_wf (d\<lparr>front := f\<rparr>) = soc_wf d"
  by (simp_all add: soc_wf_def mask_exact_def)

lemma soc_wfD: "soc_wf d \<Longrightarrow> mask_exact d" "soc_wf d \<Longrightarrow> lcd_wf (s_lcd d)" "soc_wf d \<Longrightarrow> ring_ok (s_sound d)"
  "soc_wf d \<Longrightarrow> overrides_ok (s_intc d)"
  by (simp_all add: soc_wf_def)

text \<open>
  Well-formed devices next to a property of the frontend's variables, which no device touches: the
  lemmas below carry both through every handler, tick and reset.
\<close>

definition soc_inv :: "(front \<Rightarrow> bool) \<Rightarrow> soc \<Rightarrow> bool" where
  "soc_inv Q d \<longleftrightarrow> soc_wf d \<and> Q (front d)"

lemma soc_inv_True: "soc_inv (\<lambda>_. True) = soc_wf"
  by (simp add: fun_eq_iff soc_inv_def)

lemma soc_inv_updates [simp]:
  "soc_inv Q (d\<lparr>s_clk := c\<rparr>) = soc_inv Q d" "soc_inv Q (d\<lparr>s_portctrl := p\<rparr>) = soc_inv Q d"
  "soc_inv Q (d\<lparr>s_bcu := b\<rparr>) = soc_inv Q d" "soc_inv Q (d\<lparr>s_wdt := wd\<rparr>) = soc_inv Q d"
  "soc_inv Q (d\<lparr>s_rtc := r\<rparr>) = soc_inv Q d" "soc_inv Q (d\<lparr>s_hsdma := h\<rparr>) = soc_inv Q d"
  "soc_inv Q (d\<lparr>s_sif3 := s\<rparr>) = soc_inv Q d" "soc_inv Q (d\<lparr>nmi_count := n\<rparr>) = soc_inv Q d"
  "soc_inv Q (d\<lparr>wake_valid := v\<rparr>) = soc_inv Q d" "soc_inv Q (d\<lparr>wake_cached := n\<rparr>) = soc_inv Q d"
  by (simp_all add: soc_inv_def)

lemma soc_inv_parts [simp]:
  "soc_inv Q (d\<lparr>s_lcd := l\<rparr>) = (soc_wf (d\<lparr>s_lcd := l\<rparr>) \<and> Q (front d))"
  "soc_inv Q (d\<lparr>s_sound := so\<rparr>) = (soc_wf (d\<lparr>s_sound := so\<rparr>) \<and> Q (front d))"
  "soc_inv Q (d\<lparr>s_intc := i\<rparr>) = (soc_wf (d\<lparr>s_intc := i\<rparr>) \<and> Q (front d))"
  "soc_inv Q (d\<lparr>front := f\<rparr>) = (soc_wf d \<and> Q f)"
  by (simp_all add: soc_inv_def)

lemma soc_invD: "soc_inv Q d \<Longrightarrow> mask_exact d" "soc_inv Q d \<Longrightarrow> lcd_wf (s_lcd d)" "soc_inv Q d \<Longrightarrow> ring_ok (s_sound d)"
  "soc_inv Q d \<Longrightarrow> overrides_ok (s_intc d)" "soc_inv Q d \<Longrightarrow> Q (front d)"
  by (simp_all add: soc_inv_def soc_wfD)

lemma on_dev_dev [simp]: "dev (on_dev f m) = f (dev m)"
  by (simp add: on_dev_def)

section \<open>Each device keeps its part\<close>

lemma lcd_write_wf: "lcd_wf s \<Longrightarrow> lcd_wf (lcd_write is_data b s)"
proof -
  assume wf: "lcd_wf s"
  define x where "x = rev8 b"
  have "push_bit 1 (unat (x AND 0x0F)) < 2 ^ 8" "push_bit 5 (unat (x AND 0x07)) < 2 ^ 8"
    using low4 [of x] by (simp_all add: push_bit_eq_mult)
  moreover have "lcd_col2 s AND 0xE0 < 2 ^ 8" "lcd_col2 s AND 0x1E < 2 ^ 8" "(lcd_col2 s + 1) AND 0xFF < 2 ^ 8"
    using nat_and_le [of "lcd_col2 s" "0xE0"] nat_and_le [of "lcd_col2 s" "0x1E"]
      nat_and_le [of "lcd_col2 s + 1" "0xFF"] by simp_all
  ultimately have "(lcd_col2 s AND 0xE0) OR push_bit 1 (unat (x AND 0x0F)) < 2 ^ 8"
    "(lcd_col2 s AND 0x1E) OR push_bit 5 (unat (x AND 0x07)) < 2 ^ 8" "(lcd_col2 s + 1) AND 0xFF < 2 ^ 8"
    by (blast intro: nat_bound_or)+
  then show ?thesis
    using wf low4 [of x] unfolding lcd_write_def Let_def x_def [symmetric] lcd_wf_def by auto
qed

lemma drop_overrides_range:
  "\<forall>i. - 1 \<le> ov i \<and> ov i \<le> (7 :: int) \<Longrightarrow> - 1 \<le> drop_overrides b c ov j \<and> drop_overrides b c ov j \<le> 7"
proof -
  define g where "g = (\<lambda>i (ov :: nat \<Rightarrow> int). let info = src_table ! i
    in if isr_byte info = b \<and> bit c (isr_bit info) then ov(i := - 1) else ov)"
  have g: "\<forall>j. - 1 \<le> g i ov j \<and> g i ov j \<le> 7" if "\<forall>j. - 1 \<le> ov j \<and> ov j \<le> 7" for i ov
    using that by (simp add: g_def Let_def)
  have "\<forall>i. - 1 \<le> ov i \<and> ov i \<le> 7 \<Longrightarrow> \<forall>j. - 1 \<le> fold g ks ov j \<and> fold g ks ov j \<le> 7" for ks ov
    by (induction ks arbitrary: ov) (simp_all add: g)
  then show "\<forall>i. - 1 \<le> ov i \<and> ov i \<le> 7 \<Longrightarrow> - 1 \<le> drop_overrides b c ov j \<and> drop_overrides b c ov j \<le> 7"
    unfolding drop_overrides_def g_def by blast
qed

lemma overrides_write_byte: "overrides_ok s \<Longrightarrow> overrides_ok (intc_write_byte r off v s)"
  by (auto simp: overrides_ok_def intc_write_byte_def Let_def drop_overrides_range)

lemma overrides_io: "overrides_ok s \<Longrightarrow> overrides_ok (intc_io_write off a v s)"
  "overrides_ok s \<Longrightarrow> overrides_ok (intc_io_write_byte off a u s)"
  using overrides_write_byte
  by (simp_all add: intc_io_write_def intc_io_write_byte_def Let_def) (simp_all add: overrides_ok_def)

lemma overrides_raise: "overrides_ok s \<Longrightarrow> overrides_ok (fst (intc_raise src lv s))"
  using low3_range [of lv] order_trans [of "- 1" 0 "low3 lv"]
  by (simp add: overrides_ok_def intc_raise_def try_deliver_def Let_def)

lemma overrides_poll: "overrides_ok s \<Longrightarrow> overrides_ok (fst (intc_poll s))"
  by (auto simp: overrides_ok_def intc_poll_def split: prod.splits)

lemma ring_next_less: "unat (ring_next t) < 4096"
  by simp

lemma try_push_ok: "ring_ok s \<Longrightarrow> ring_ok (snd (try_push x s))"
  by (simp add: ring_ok_def try_push_def put_slot_def Let_def)

lemma pop_ok: "ring_ok s \<Longrightarrow> ring_ok (snd (snd_pop n s))"
proof -
  have "unat t < 4096 \<Longrightarrow> unat (fst (pop_loop r n h t out)) < 4096" for r n h t out
    by (induction r n h t out rule: pop_loop.induct) auto
  then show "ring_ok s \<Longrightarrow> ring_ok (snd (snd_pop n s))"
    by (simp add: ring_ok_def snd_pop_def case_prod_beta)
qed

text \<open>A timer port tells of every change of the running bit.\<close>

definition t8_run :: "t8 \<Rightarrow> bool" where "t8_run t \<longleftrightarrow> t8_ctl t AND 0x01 \<noteq> 0"
definition t16_run :: "t16 \<Rightarrow> bool" where "t16_run t \<longleftrightarrow> t16_ctl t AND 0x01 \<noteq> 0"

definition told :: "('t \<Rightarrow> bool) \<Rightarrow> 't \<Rightarrow> 't \<times> bool list \<Rightarrow> bool" where
  "told run t r \<longleftrightarrow> snd r = [] \<and> run (fst r) = run t \<or> snd r = [run (fst r)]"

lemma t8_ctl_write:
  "t8_ctl (fst (t8_on_ctl_write v t)) = v AND 0x07" "snd (t8_on_ctl_write v t) =
     (if t8_run t \<noteq> ((v AND 0x07) AND 0x01 \<noteq> 0) then [(v AND 0x07) AND 0x01 \<noteq> 0] else [])"
  by (simp_all add: t8_on_ctl_write_def t8_run_def Let_def)

lemma told_ctl8: "told t8_run t (t8_on_ctl_write v t)"
  unfolding told_def t8_ctl_write(2) by (simp add: t8_run_def t8_ctl_write(1))

lemma told_upd8: "told t8_run t (x, e) \<Longrightarrow> told t8_run t (x\<lparr>t8_rld := v\<rparr>, e)" "told t8_run t (t\<lparr>t8_rld := v\<rparr>, [])"
  "told t8_run t (t, [])"
  by (simp_all add: told_def t8_run_def)

lemma t8_told:
  assumes "p \<in> set (t8_ports i)"
  shows "told t8_run t (port_wr p a v t)" "told t8_run t (port_store8 p a u t)"
proof -
  have pair: "told t8_run t (case t8_on_ctl_write x t of (t1, e) \<Rightarrow> (t1\<lparr>t8_rld := y\<rparr>, e))" for x y
    using told_ctl8 [of t x] by (simp add: case_prod_beta told_upd8(1))
  show "told t8_run t (port_wr p a v t)" "told t8_run t (port_store8 p a u t)"
    using assms by (auto simp: t8_ports_def plain_port_def port_store8_def silent_def Let_def pair told_ctl8 told_upd8)
qed

lemma t16_refresh_ctl [simp]: "t16_ctl (t16_refresh_wake ch clk t) = t16_ctl t"
  by (simp add: t16_refresh_wake_def t16_cycles_per_count_def Let_def)

lemma t16_ctl_write:
  "t16_ctl (fst (t16_write_ctl ch clk v t)) = lo8 v AND NOT 0x02" "snd (t16_write_ctl ch clk v t) =
     (if t16_run t \<noteq> ((lo8 v AND NOT 0x02) AND 0x01 \<noteq> 0) then [(lo8 v AND NOT 0x02) AND 0x01 \<noteq> 0] else [])"
  by (simp add: t16_write_ctl_def Let_def) (auto simp: t16_write_ctl_def t16_run_def Let_def)

lemma told_ctl16: "told t16_run t (t16_write_ctl ch clk v t)"
  unfolding told_def t16_ctl_write(2) by (simp only: t16_run_def t16_ctl_write(1)) simp

lemma told_upd16: "told t16_run t (t16_refresh_wake ch clk (t\<lparr>t16_cra := v\<rparr>), [])"
  "told t16_run t (t16_refresh_wake ch clk (t\<lparr>t16_crb := v\<rparr>), [])"
  "told t16_run t (t16_refresh_wake ch clk (t\<lparr>t16_tc := v\<rparr>), [])"
  by (simp_all add: told_def t16_run_def)

lemma t16_told:
  assumes "p \<in> set (t16_ports i clk)"
  shows "told t16_run t (port_wr p a v t)" "told t16_run t (port_store8 p a u t)"
  using assms by (auto simp: t16_ports_def plain_port_def port_store8_def silent_def Let_def told_ctl16 told_upd16)

lemma t8_tick_ctl [simp]: "t8_ctl (fst (t8_tick ch clk cyc t)) = t8_ctl t"
  by (simp add: t8_tick_def Let_def)

lemma t16_free_run_ctl: "t16_ctl (fst (t16_free_run n ch t)) = t16_ctl t"
  by (induction n arbitrary: t) (simp_all add: Let_def case_prod_beta)

lemma t16_tick_ctl [simp]: "t16_ctl (fst (t16_tick ch clk cyc t)) = t16_ctl t"
  by (simp add: t16_tick_def t16_advance_def t16_analytic_def t16_free_run_ctl t16_cycles_per_count_def Let_def
      case_prod_beta)

lemma mask_bit: "bit (push_bit k 1 :: u32) j = (j = k \<and> k < 32)"
  by (auto simp: bit_push_bit_iff bit_1_iff bit_exp_iff push_bit_eq_mult)

lemma active_bit:
  "k < 32 \<Longrightarrow> bit (timer_active_mask (dev (soc_active k run m))) j =
    (if j = k then run else bit (timer_active_mask (dev m)) j)"
  by (auto simp: soc_active_def bit_or_iff bit_and_iff bit_not_iff bit_exp_iff dest: bit_imp_le_length)

lemma active_frame [simp]:
  "s_t8 (dev (soc_active k run m)) = s_t8 (dev m)" "s_t16 (dev (soc_active k run m)) = s_t16 (dev m)"
  "s_lcd (dev (soc_active k run m)) = s_lcd (dev m)" "s_sound (dev (soc_active k run m)) = s_sound (dev m)"
  "s_intc (dev (soc_active k run m)) = s_intc (dev m)"
  by (simp_all add: soc_active_def)

lemma mask_exact_t8:
  assumes "mask_exact (dev m)" "i < 4" "told t8_run (s_t8 (dev m) i) r"
  shows "mask_exact (dev (perform (\<lambda>x d. d\<lparr>s_t8 := (s_t8 d)(i := x)\<rparr>) (soc_active (8 + i)) r m))"
  using assms unfolding told_def
  by (elim disjE) (auto simp: perform_def mask_exact_def active_bit t8_run_def)

lemma mask_exact_t16:
  assumes "mask_exact (dev m)" "i < 6" "told t16_run (s_t16 (dev m) i) r"
  shows "mask_exact (dev (perform (\<lambda>x d. d\<lparr>s_t16 := (s_t16 d)(i := x)\<rparr>) (soc_active i) r m))"
  using assms unfolding told_def
  by (elim disjE) (auto simp: perform_def mask_exact_def active_bit t16_run_def)

lemma fold_active_frame:
  "s_lcd (dev (fold (soc_active k) es m)) = s_lcd (dev m)" "s_sound (dev (fold (soc_active k) es m)) = s_sound (dev m)"
  "s_intc (dev (fold (soc_active k) es m)) = s_intc (dev m)"
  "front (dev (fold (soc_active k) es m)) = front (dev m)"
  by (induction es arbitrary: m) (simp_all add: soc_active_def on_dev_def)

lemma t8_store_wf:
  assumes "soc_inv Q (dev m)" "i < 4" "told t8_run (s_t8 (dev m) i) r"
  shows "soc_inv Q (dev (perform (\<lambda>x d. d\<lparr>s_t8 := (s_t8 d)(i := x)\<rparr>) (soc_active (8 + i)) r m))"
  using assms mask_exact_t8 [OF soc_invD(1) [OF assms(1)] assms(2,3)]
  by (simp add: soc_inv_def soc_wf_def perform_def fold_active_frame)

lemma t16_store_wf:
  assumes "soc_inv Q (dev m)" "i < 6" "told t16_run (s_t16 (dev m) i) r"
  shows "soc_inv Q (dev (perform (\<lambda>x d. d\<lparr>s_t16 := (s_t16 d)(i := x)\<rparr>) (soc_active i) r m))"
  using assms mask_exact_t16 [OF soc_invD(1) [OF assms(1)] assms(2,3)]
  by (simp add: soc_inv_def soc_wf_def perform_def fold_active_frame)

lemma soc_init_wf: "soc_wf soc_init"
  by (simp add: soc_wf_def soc_init_def mask_exact_def lcd_wf_def lcd_init_def ring_ok_def sound_init_def
      overrides_ok_def intc_attached_def t8_init_def t16_init_def)

section \<open>Every handler keeps the devices well-formed\<close>

definition env_keeps :: "(soc \<Rightarrow> bool) \<Rightarrow> soc_env \<Rightarrow> bool" where
  "env_keeps P env \<longleftrightarrow>
    (\<forall>hz m. P (dev m) \<longrightarrow> P (dev (env_clock_change env hz m))) \<and>
    (\<forall>m. P (dev m) \<longrightarrow> P (dev (env_frame_done env m))) \<and> (\<forall>m. P (dev m) \<longrightarrow> P (dev (env_ch1_done env m)))"

abbreviation wf_wiring :: "(front \<Rightarrow> bool) \<Rightarrow> soc wiring \<Rightarrow> bool" where "wf_wiring Q w \<equiv> device_invariant w (soc_inv Q)"

lemma wf_clock_change: "env_keeps (soc_inv Q) env \<Longrightarrow> soc_inv Q (dev m) \<Longrightarrow> soc_inv Q (dev (fold (env_clock_change env) es m))"
  by (induction es arbitrary: m) (simp_all add: env_keeps_def)

lemma wf_deliver: "wf_wiring Q w \<Longrightarrow> soc_inv Q (dev m) \<Longrightarrow> soc_inv Q (dev (deliver w req m))"
  by (auto simp: deliver_def device_invariant.stays_assert split: option.split)

lemma wf_raise: "wf_wiring Q w \<Longrightarrow> soc_inv Q (dev m) \<Longrightarrow> soc_inv Q (dev (soc_raise w lv src m))"
  using overrides_raise [of "s_intc (dev m)" src lv]
  by (auto simp: soc_raise_def case_prod_beta soc_invD [of Q] intro!: wf_deliver)

lemma wf_raises: "wf_wiring Q w \<Longrightarrow> soc_inv Q (dev m) \<Longrightarrow> soc_inv Q (dev (fold (soc_raise w lv) irqs m))"
  by (induction irqs arbitrary: m) (simp_all add: wf_raise)

lemma wf_poll: "wf_wiring Q w \<Longrightarrow> soc_inv Q (dev m) \<Longrightarrow> soc_inv Q (dev (soc_poll w m))"
  using overrides_poll [of "s_intc (dev m)"]
  by (auto simp: soc_poll_def case_prod_beta soc_invD [of Q] intro!: wf_deliver)

lemma wf_p07: "env_keeps (soc_inv Q) env \<Longrightarrow> soc_inv Q (dev m) \<Longrightarrow> soc_inv Q (dev (soc_p07 env slow m))"
  by (simp add: soc_p07_def case_prod_beta wf_clock_change)

lemma wf_bcu_effect: "soc_inv Q (dev m) \<Longrightarrow> soc_inv Q (dev (soc_bcu_effect e m))"
  by (cases e) simp_all

lemma wf_sound_event:
  "env_keeps (soc_inv Q) env \<Longrightarrow> wf_wiring Q w \<Longrightarrow> soc_inv Q (dev m) \<Longrightarrow> soc_inv Q (dev (soc_sound_event env w e m))"
  by (cases e) (simp_all add: env_keeps_def wf_raise)

lemma wf_push_samples:
  assumes "wf_wiring Q w" "soc_inv Q (dev m)" "ring_ok s"
  shows "soc_inv Q (dev (snd (push_samples (read16 w) p n a s m)))" "ring_ok (fst (push_samples (read16 w) p n a s m))"
proof -
  have "soc_inv Q (dev m) \<Longrightarrow> ring_ok s \<Longrightarrow> soc_inv Q (dev (snd (push_samples (read16 w) p n a s m))) \<and>
      ring_ok (fst (push_samples (read16 w) p n a s m))" for m s a
  proof (induction n arbitrary: a s m)
    case 0 then show ?case by simp
  next
    case (Suc n)
    define s1 where "s1 = snd (try_push (pcm_sample p (fst (read16 w a m))) s)"
    have ok: "ring_ok s1" unfolding s1_def using Suc.prems(2) by (rule try_push_ok)
    moreover from ok have "ring_ok (s1\<lparr>drop_count := drop_count s1 + 1\<rparr>)" by (simp add: ring_ok_def)
    moreover have "soc_inv Q (dev (snd (read16 w a m)))"
      using device_invariant.stays_read16 [OF assms(1)] Suc.prems(1) .
    ultimately show ?case using Suc.IH by (simp add: case_prod_beta flip: s1_def)
  qed
  with assms show "soc_inv Q (dev (snd (push_samples (read16 w) p n a s m)))"
    "ring_ok (fst (push_samples (read16 w) p n a s m))" by blast+
qed

lemma wf_ch1_start:
  assumes "wf_wiring Q w" "soc_inv Q (dev m)" "ring_ok s"
  shows "soc_inv Q (dev (snd (snd (handle_ch1_start (read16 w) cra now hz hook sadr cnt s m))))"
    "ring_ok (fst (handle_ch1_start (read16 w) cra now hz hook sadr cnt s m))"
proof -
  have s: "ring_ok (s\<lparr>last_push_cycle := now\<rparr>)" using assms(3) by (simp add: ring_ok_def)
  note r = wf_push_samples [OF assms(1,2) s]
  show "soc_inv Q (dev (snd (snd (handle_ch1_start (read16 w) cra now hz hook sadr cnt s m))))"
    using assms(2) r(1) by (simp add: handle_ch1_start_def case_prod_beta Let_def)
  show "ring_ok (fst (handle_ch1_start (read16 w) cra now hz hook sadr cnt s m))"
    using assms(3) r(2) by (simp add: handle_ch1_start_def case_prod_beta Let_def ring_ok_def)
qed

lemma wf_sound_events:
  "env_keeps (soc_inv Q) env \<Longrightarrow> wf_wiring Q w \<Longrightarrow> soc_inv Q (dev m) \<Longrightarrow> soc_inv Q (dev (fold (soc_sound_event env w) es m))"
  by (induction es arbitrary: m) (simp_all add: wf_sound_event)

lemma wf_dma_event:
  assumes "env_keeps (soc_inv Q) env" "wf_wiring Q w" "soc_inv Q (dev m)"
  shows "soc_inv Q (dev (soc_dma_event env w e m))"
proof (cases e)
  case (Ch1Start sadr cnt)
  show ?thesis
    using wf_ch1_start [OF assms(2,3) soc_invD(3) [OF assms(3)]] assms
    by (auto simp: Ch1Start case_prod_beta soc_invD [of Q] intro!: wf_sound_events)
qed (use assms in \<open>simp_all add: env_keeps_def\<close>)

lemma wf_dma_events:
  "env_keeps (soc_inv Q) env \<Longrightarrow> wf_wiring Q w \<Longrightarrow> soc_inv Q (dev m) \<Longrightarrow> soc_inv Q (dev (fold (soc_dma_event env w) es m))"
  by (induction es arbitrary: m) (simp_all add: wf_dma_event)

lemma wf_lcd_byte: "soc_inv Q (dev m) \<Longrightarrow> soc_inv Q (dev (soc_lcd_byte b m))"
  by (simp add: soc_lcd_byte_def soc_invD [of Q] lcd_write_wf)

lemma wf_ch0_loop:
  assumes "wf_wiring Q w"
  shows "soc_inv Q (dev m) \<Longrightarrow> soc_inv Q (dev (snd (snd (ch0_loop (read8 w) soc_lcd_byte h c m))))"
proof (induction "unat (ch0_cnt h)" arbitrary: h c m rule: less_induct)
  case less
  show ?case
  proof (cases "ch0_en h \<and> ch0_cnt h > 0")
    case True
    have "unat (ch0_cnt (ch0_step h)) < unat (ch0_cnt h)" using True u32_pred [of "ch0_cnt h"] by simp
    moreover have "soc_inv Q (dev (soc_lcd_byte b (snd (read8 w (ch0_sadr h) m))))" for b
      using less.prems by (simp add: wf_lcd_byte device_invariant.stays_read8 [OF assms])
    ultimately show ?thesis using True less.hyps by (subst ch0_loop.simps) (simp add: case_prod_beta)
  next
    case False
    then have "ch0_loop (read8 w) soc_lcd_byte h c m = (h, c, m)" by (subst ch0_loop.simps) (rule if_not_P)
    then show ?thesis using less.prems by simp
  qed
qed

lemma wf_txd:
  assumes "env_keeps (soc_inv Q) env" "wf_wiring Q w" "soc_inv Q (dev m)"
  shows "soc_inv Q (dev (soc_txd env w b m))"
proof -
  have "soc_inv Q (dev (snd (snd (on_txd_write (read8 w) soc_lcd_byte b (s_hsdma (dev m)) m))))"
    using wf_ch0_loop [OF assms(2)] wf_lcd_byte [OF assms(3)] by (simp add: on_txd_write_def do_ch0_inline_def case_prod_beta Let_def)
  then show ?thesis unfolding soc_txd_def case_prod_beta by (intro wf_dma_events assms) simp
qed

section \<open>The wiring keeps the devices well-formed\<close>

text \<open>What a device owes: performing the result of any of its ports keeps \<open>P\<close>.\<close>

lemma lift_keeps:
  assumes len: "\<And>d. length (ps d) = length (ps soc_init)"
    and ports: "\<And>m p a v. P (dev m) \<Longrightarrow> p \<in> set (ps (dev m)) \<Longrightarrow> P (dev (perform put ev (port_wr p a v (get (dev m))) m))"
      "\<And>m p a v. P (dev m) \<Longrightarrow> p \<in> set (ps (dev m)) \<Longrightarrow> P (dev (perform put ev (port_store8 p a v (get (dev m))) m))"
  shows "\<forall>h\<in>snd ` set (lift_ports ps get put ev). handler_keeps (\<lambda>_. P) h"
proof -
  have h: "handler_keeps (\<lambda>_. P) \<lparr> io_read = Some (\<lambda>a m. (port_rd (ps (dev m) ! i) (get (dev m)), m)),
        io_write = Some (\<lambda>a v m. perform put ev (port_wr (ps (dev m) ! i) a v (get (dev m))) m),
        io_write_byte = (case port_wb (ps soc_init ! i) of None \<Rightarrow> None
          | Some _ \<Rightarrow> Some (\<lambda>a v m. perform put ev (port_store8 (ps (dev m) ! i) a v (get (dev m))) m)) \<rparr>"
    if "i < length (ps soc_init)" for i
  proof -
    have mem: "ps (dev m) ! i \<in> set (ps (dev m))" for m :: "soc machine" using that len [of "dev m"] by (metis nth_mem)
    show ?thesis
      by (cases "port_wb (ps soc_init ! i)") (simp_all add: handler_keeps_def ports [OF _ mem])
  qed
  then show ?thesis unfolding lift_ports_def by fastforce
qed

lemma perform_fold_keeps:
  assumes "\<And>e m. P (dev m) \<Longrightarrow> P (dev (ev e m))" "\<And>d. P d \<Longrightarrow> P (put (fst r) d)" "P (dev m)"
  shows "P (dev (perform put ev r m))"
proof -
  have "P (dev m) \<Longrightarrow> P (dev (fold ev es m))" for es m by (induction es arbitrary: m) (simp_all add: assms(1))
  then show ?thesis using assms(2,3) by (simp add: perform_def)
qed

lemma fold_io: "(\<forall>h\<in>snd ` set (concat (map f is)). handler_keeps K h) \<longleftrightarrow> (\<forall>i\<in>set is. \<forall>h\<in>snd ` set (f i). handler_keeps K h)"
  by auto

lemma stays_append: "(\<forall>h\<in>snd ` set (xs @ ys). handler_keeps K h) \<longleftrightarrow>
    (\<forall>h\<in>snd ` set xs. handler_keeps K h) \<and> (\<forall>h\<in>snd ` set ys. handler_keeps K h)"
  by auto

text \<open>Devices whose members the invariant does not mention.\<close>

lemma lift_silent:
  assumes len: "\<And>d. length (ps d) = length (ps soc_init)"
    and ev: "\<And>e m. soc_inv Q (dev m) \<Longrightarrow> soc_inv Q (dev (ev e m))" and put: "\<And>x d. soc_inv Q (put x d) = soc_inv Q d"
  shows "\<forall>h\<in>snd ` set (lift_ports ps get put ev). handler_keeps (\<lambda>_. soc_inv Q) h"
  by (rule lift_keeps, rule len) (rule perform_fold_keeps; simp add: ev put)+

lemma intc_ports_ok:
  assumes "p \<in> set intc_ports" "overrides_ok s"
  shows "overrides_ok (fst (port_wr p a v s))" "overrides_ok (fst (port_store8 p a u s))"
  using assms by (auto simp: intc_ports_def byte_port_def port_store8_def silent_def overrides_io)

lemma intc_keeps:
  "\<forall>h\<in>snd ` set (lift_ports (\<lambda>_. intc_ports) s_intc (\<lambda>x d. d\<lparr>s_intc := x\<rparr>) no_event). handler_keeps (\<lambda>_. soc_inv Q) h"
proof (rule lift_keeps)
  fix m :: "soc machine" and p a v
  assume wf: "soc_inv Q (dev m)" and p: "p \<in> set intc_ports"
  show "soc_inv Q (dev (perform (\<lambda>x d. d\<lparr>s_intc := x\<rparr>) no_event (port_wr p a v (s_intc (dev m))) m))"
    by (rule perform_fold_keeps) (use wf p in \<open>simp_all add: no_event_def soc_invD [of Q] intc_ports_ok\<close>)
next
  fix m :: "soc machine" and p a v
  assume wf: "soc_inv Q (dev m)" and p: "p \<in> set intc_ports"
  show "soc_inv Q (dev (perform (\<lambda>x d. d\<lparr>s_intc := x\<rparr>) no_event (port_store8 p a v (s_intc (dev m))) m))"
    by (rule perform_fold_keeps) (use wf p in \<open>simp_all add: no_event_def soc_invD [of Q] intc_ports_ok\<close>)
qed simp

lemma t8_keeps:
  "i < 4 \<Longrightarrow> \<forall>h\<in>snd ` set (lift_ports (\<lambda>_. t8_ports i) (\<lambda>d. s_t8 d i)
     (\<lambda>x d. d\<lparr>s_t8 := (s_t8 d)(i := x)\<rparr>) (soc_active (8 + i))). handler_keeps (\<lambda>_. soc_inv Q) h"
  by (rule lift_keeps) (simp_all add: t8_store_wf t8_told)

lemma t16_keeps:
  "i < 6 \<Longrightarrow> \<forall>h\<in>snd ` set (lift_ports (\<lambda>d. t16_ports i (s_clk d)) (\<lambda>d. s_t16 d i)
     (\<lambda>x d. d\<lparr>s_t16 := (s_t16 d)(i := x)\<rparr>) (soc_active i)). handler_keeps (\<lambda>_. soc_inv Q) h"
proof (rule lift_keeps)
  fix d show "length (t16_ports i (s_clk d)) = length (t16_ports i (s_clk soc_init))"
    by (simp add: t16_ports_def Let_def)
qed (simp_all add: t16_store_wf t16_told)

lemma soc_io_keeps:
  assumes env: "env_keeps (soc_inv Q) env" and w: "wf_wiring Q w"
  shows "\<forall>h\<in>snd ` set (soc_io env w). handler_keeps (\<lambda>_. soc_inv Q) h"
proof -
  have clk: "soc_inv Q (dev m) \<Longrightarrow> soc_inv Q (dev (env_clock_change env e m))" for e m
    using env by (simp add: env_keeps_def)
  have none: "soc_inv Q (dev m) \<Longrightarrow> soc_inv Q (dev (no_event e m))" for e m by (simp add: no_event_def)
  have 1: "\<forall>h\<in>snd ` set (lift_ports (\<lambda>_. clk_ports) s_clk (\<lambda>x d. d\<lparr>s_clk := x\<rparr>) (env_clock_change env)). handler_keeps (\<lambda>_. soc_inv Q) h"
    by (rule lift_silent) (simp_all add: clk)
  have 2: "\<forall>h\<in>snd ` set (lift_ports (\<lambda>_. portctrl_ports) s_portctrl (\<lambda>x d. d\<lparr>s_portctrl := x\<rparr>) (soc_p07 env)). handler_keeps (\<lambda>_. soc_inv Q) h"
    by (rule lift_silent) (simp_all add: wf_p07 [OF env])
  have 3: "\<forall>h\<in>snd ` set (lift_ports (\<lambda>_. bcu_ports) s_bcu (\<lambda>x d. d\<lparr>s_bcu := x\<rparr>) soc_bcu_effect). handler_keeps (\<lambda>_. soc_inv Q) h"
    by (rule lift_silent) (simp_all add: wf_bcu_effect)
  have 4: "\<forall>h\<in>snd ` set (lift_ports (\<lambda>_. [wdt_port]) s_wdt (\<lambda>x d. d\<lparr>s_wdt := x\<rparr>) no_event). handler_keeps (\<lambda>_. soc_inv Q) h"
    by (rule lift_silent) (simp_all add: none)
  have 5: "\<forall>h\<in>snd ` set (lift_ports (\<lambda>_. rtc_ports (env_tm env)) s_rtc (\<lambda>x d. d\<lparr>s_rtc := x\<rparr>) no_event). handler_keeps (\<lambda>_. soc_inv Q) h"
    by (rule lift_silent) (simp_all add: none)
  have 6: "\<forall>h\<in>snd ` set (lift_ports (\<lambda>_. hsdma_ports) s_hsdma (\<lambda>x d. d\<lparr>s_hsdma := x\<rparr>) (soc_dma_event env w)). handler_keeps (\<lambda>_. soc_inv Q) h"
    by (rule lift_silent) (simp_all add: wf_dma_event [OF env w])
  have 7: "\<forall>h\<in>snd ` set (lift_ports (\<lambda>_. sif3_ports) s_sif3 (\<lambda>x d. d\<lparr>s_sif3 := x\<rparr>) (soc_txd env w)). handler_keeps (\<lambda>_. soc_inv Q) h"
    by (rule lift_silent) (simp_all add: wf_txd [OF env w])
  have 8: "\<forall>i\<in>set [0..<4]. \<forall>h\<in>snd ` set (lift_ports (\<lambda>_. t8_ports i) (\<lambda>d. s_t8 d i)
      (\<lambda>x d. d\<lparr>s_t8 := (s_t8 d)(i := x)\<rparr>) (soc_active (8 + i))). handler_keeps (\<lambda>_. soc_inv Q) h"
    by (intro ballI t8_keeps [THEN bspec]) simp_all
  have 9: "\<forall>i\<in>set [0..<6]. \<forall>h\<in>snd ` set (lift_ports (\<lambda>d. t16_ports i (s_clk d)) (\<lambda>d. s_t16 d i)
      (\<lambda>x d. d\<lparr>s_t16 := (s_t16 d)(i := x)\<rparr>) (soc_active i)). handler_keeps (\<lambda>_. soc_inv Q) h"
    by (intro ballI t16_keeps [THEN bspec]) simp_all
  show ?thesis
    unfolding soc_io_def stays_append fold_io using intc_keeps 1 2 3 4 5 6 7 8 9 by blast
qed

lemma soc_wiring_wf: "env_keeps (soc_inv Q) env \<Longrightarrow> wf_wiring Q (soc_wiring env n)"
proof (induction n)
  case 0 then show ?case by (simp add: device_invariantI no_wiring_invariant)
next
  case (Suc n)
  show ?case
  proof (cases "attach_io (soc_io env (soc_wiring env n)) no_wiring")
    case (Inr w)
    then show ?thesis
      using device_invariantI [OF attach_keeps [OF soc_io_keeps no_wiring_invariant Inr]] Suc by simp
  qed (simp add: device_invariantI no_wiring_invariant)
qed

section \<open>Everything the machine does\<close>

lemma soc_reset_core_wf: "soc_inv Q d \<Longrightarrow> soc_inv Q (soc_reset_core d)"
proof -
  assume wf: "soc_inv Q d"
  have t8: "t8_ctl (fold (\<lambda>i t. t(i := fst (t8_reset (t i)))) [0..<4] f k) AND 1 = 0" if "k < 4" for f k
    using that by (simp add: upt_rec t8_reset_def t8_init_def less_Suc_eq numeral_eq_Suc) auto
  have t16: "t16_ctl (fold (\<lambda>i t. t(i := fst (t16_reset (t i)))) [0..<6] f k) AND 1 = 0" if "k < 6" for f k
    using that by (simp add: upt_rec t16_reset_def t16_init_def less_Suc_eq numeral_eq_Suc) auto
  show ?thesis
    using wf t8 t16 by (auto simp: soc_inv_def soc_wf_def soc_reset_core_def mask_exact_def ring_ok_def sound_reset_def overrides_ok_def
        intc_reset_def Let_def)
qed

lemma soc_reset_wf: "soc_inv Q (dev m) \<Longrightarrow> soc_inv Q (dev (soc_reset cold m))"
proof -
  assume wf: "soc_inv Q (dev m)"
  have "soc_inv Q (dev m) \<Longrightarrow> soc_inv Q (dev (fold soc_bcu_effect es m))" for es m
    by (induction es arbitrary: m) (simp_all add: wf_bcu_effect)
  note bcu = this
  have "lcd_wf (lcd_reset l)" for l by (simp add: lcd_wf_def lcd_reset_def)
  then show ?thesis
    using soc_reset_core_wf [OF wf] bcu
    by (simp add: soc_reset_def case_prod_beta Let_def soc_invD [of Q])
qed

section \<open>The scan of a bitmap\<close>

lemma countr_zero_props:
  assumes "x \<noteq> 0"
  shows "bit x (countr_zero x)" "countr_zero x < 32" "k < countr_zero x \<Longrightarrow> \<not> bit x k"
proof -
  let ?tw = "takeWhile (\<lambda>k. \<not> bit x k) [0..<32]"
  have "\<exists>j. bit x j" using assms by (auto simp: bit_eq_iff)
  then obtain j where j: "bit x j" ..
  then have j32: "j < 32" using bit_imp_le_length [of x j] by simp
  have len: "length ?tw < length [0..<32]"
  proof (rule ccontr)
    assume "\<not> length ?tw < length [0..<32]"
    then have "?tw = [0..<32]" by (metis length_takeWhile_le linorder_neqE_nat not_less takeWhile_eq_take take_all le_refl)
    then have "\<not> bit x j" using j32 by (metis (mono_tags, lifting) atLeastLessThan_iff le0 set_takeWhileD set_upt)
    then show False using j by simp
  qed
  then show "countr_zero x < 32" by (simp add: countr_zero_def)
  from nth_length_takeWhile [OF len] len show "bit x (countr_zero x)" by (simp add: countr_zero_def)
  show "\<not> bit x k" if "k < countr_zero x"
  proof -
    have "k < length ?tw" using that by (simp add: countr_zero_def)
    then have "?tw ! k \<in> set ?tw" by (rule nth_mem)
    moreover have "?tw ! k = k" using \<open>k < length ?tw\<close> len by (simp add: takeWhile_nth)
    ultimately show ?thesis using set_takeWhileD [of k "\<lambda>k. \<not> bit x k" "[0..<32]"] by simp
  qed
qed

lemma clear_lowest_bit:
  assumes "x \<noteq> 0"
  shows "bit (x AND (x - 1)) k = (bit x k \<and> k \<noteq> countr_zero x)"
proof -
  define t where "t = countr_zero x"
  note c = countr_zero_props [OF assms, folded t_def]
  define y where "y = x AND NOT (2 ^ t)"
  have y: "bit y k = (bit x k \<and> k \<noteq> t)" for k
    using c(2) by (auto simp: y_def bit_and_iff bit_not_iff bit_exp_iff dest: bit_imp_le_length)
  have "y + 2 ^ t = y OR 2 ^ t" using y c(2) by (intro disjunctive_add) (auto simp: bit_exp_iff)
  also have "\<dots> = x" by (rule bit_word_eqI) (use c(1) y in \<open>auto simp: bit_or_iff bit_exp_iff\<close>)
  finally have "x - 1 = y + (2 ^ t - 1)" by (metis add_diff_eq)
  also have "2 ^ t - 1 = (mask t :: u32)" by (simp add: mask_eq_exp_minus_1)
  also have "y + mask t = y OR mask t" using y c(3) by (intro disjunctive_add) (auto simp: bit_mask_iff)
  finally show ?thesis using c(3) [of k] y by (auto simp: bit_and_iff bit_or_iff bit_mask_iff t_def)
qed

lemma scan_bits_fold: "scan_bits f x m = fold f (filter (bit x) [0..<32]) m"
proof (induction f x m rule: scan_bits.induct)
  case (1 f x m)
  show ?case
  proof (cases "x = 0")
    case True then show ?thesis by (simp add: scan_bits.simps)
  next
    case False
    note c = countr_zero_props [OF False]
    have split: "[0..<32] = [0..<countr_zero x] @ countr_zero x # [Suc (countr_zero x)..<32]"
      using c(2) upt_add_eq_append [of 0 "countr_zero x" "32 - countr_zero x"] by (simp add: upt_conv_Cons)
    have lo: "filter (bit z) [0..<countr_zero x] = []" if "\<And>k. k < countr_zero x \<Longrightarrow> \<not> bit z k" for z :: u32
      using that by (simp add: filter_empty_conv)
    have "filter (bit x) [0..<32] = countr_zero x # filter (bit x) [Suc (countr_zero x)..<32]"
      unfolding split using c(1) lo [OF c(3)] by simp
    moreover have "filter (bit (x AND (x - 1))) [0..<32] = filter (bit x) [Suc (countr_zero x)..<32]"
      unfolding split using clear_lowest_bit [OF False] c(3) lo [of "x AND (x - 1)"]
      by (auto simp: intro!: filter_cong)
    ultimately show ?thesis using 1 [OF False] False by (subst scan_bits.simps) simp
  qed
qed

lemma fold_keeps: "(\<And>k m. P m \<Longrightarrow> P (f k m)) \<Longrightarrow> P m \<Longrightarrow> P (fold f ks m)"
  by (induction ks arbitrary: m) simp_all

lemma scan_bits_keeps: "(\<And>k m. P m \<Longrightarrow> P (f k m)) \<Longrightarrow> P m \<Longrightarrow> P (scan_bits f x m)"
  unfolding scan_bits_fold by (rule fold_keeps)

section \<open>Reachable machines\<close>

text \<open>Key lines, as the frontend sets them.\<close>

definition soc_set_keys :: "soc wiring \<Rightarrow> u8 \<Rightarrow> u8 \<Rightarrow> soc machine \<Rightarrow> soc machine" where
  "soc_set_keys w k5 k6 m =
    (case set_k5 k5 (s_portctrl (dev m)) of (p, irqs) \<Rightarrow>
      let m1 = fold (soc_raise w (- 1)) irqs (on_dev (\<lambda>d. d\<lparr>s_portctrl := p\<rparr>) m)
      in case set_k6 k6 (s_portctrl (dev m1)) of (p2, irqs2) \<Rightarrow>
           fold (soc_raise w (- 1)) irqs2 (on_dev (\<lambda>d. d\<lparr>s_portctrl := p2\<rparr>) m1))"

text \<open>The interrupt level of the CPU, as the runner hands it to the controller before a poll.\<close>

definition soc_sync_il :: "soc machine \<Rightarrow> soc machine" where
  "soc_sync_il m = on_dev (\<lambda>d. d\<lparr>s_intc := set_current_il (psr_il (psr (cpu m))) (s_intc d)\<rparr>) m"

text \<open>
  Whatever the CPU executes, whenever the runner ticks, polls or resets, the audio thread pops, a
  key moves, a debugger stores or the clock is pinned; and the frontend may change its own variables, and CPU and memory
  as it likes. These are the machines that can come about.
\<close>

inductive soc_reach :: "soc machine \<Rightarrow> bool" where
  power_on: "dev m = soc_init \<Longrightarrow> soc_reach m"
| insn: "soc_reach m \<Longrightarrow> env_keeps soc_wf env \<Longrightarrow> soc_reach (snd (step (soc_wiring env n) m))"
| tick: "soc_reach m \<Longrightarrow> env_keeps soc_wf env \<Longrightarrow> soc_reach (soc_tick env (soc_wiring env n) cyc m)"
| poll: "soc_reach m \<Longrightarrow> env_keeps soc_wf env \<Longrightarrow> soc_reach (soc_poll (soc_wiring env n) m)"
| level: "soc_reach m \<Longrightarrow> soc_reach (soc_sync_il m)"
| wake: "soc_reach m \<Longrightarrow> soc_reach (on_dev (\<lambda>d. snd (soc_next_wake d)) m)"
| reset: "soc_reach m \<Longrightarrow> soc_reach (soc_reset cold m)"
| keys: "soc_reach m \<Longrightarrow> env_keeps soc_wf env \<Longrightarrow> soc_reach (soc_set_keys (soc_wiring env n) k5 k6 m)"
| pop: "soc_reach m \<Longrightarrow> soc_reach (on_dev (\<lambda>d. d\<lparr>s_sound := snd (snd_pop k (s_sound d))\<rparr>) m)"
| store: "soc_reach m \<Longrightarrow> env_keeps soc_wf env \<Longrightarrow> soc_reach (write8 (soc_wiring env n) a v m)"
| pin: "soc_reach m \<Longrightarrow> soc_reach (on_dev (\<lambda>d. d\<lparr>s_rtc := set_fixed_epoch s (s_rtc d)\<rparr>) m)"
| frontend: "soc_reach m \<Longrightarrow> dev m' = (dev m)\<lparr>front := f\<rparr> \<Longrightarrow> soc_reach m'"

lemma t8_store_cache_wf:
  "soc_inv Q d \<Longrightarrow> t8_ctl t = t8_ctl (s_t8 d i) \<Longrightarrow> soc_inv Q (d\<lparr>s_t8 := (s_t8 d)(i := t)\<rparr>)"
  by (auto simp: soc_inv_def soc_wf_def mask_exact_def)

lemma t16_store_cache_wf:
  "soc_inv Q d \<Longrightarrow> t16_ctl t = t16_ctl (s_t16 d i) \<Longrightarrow> soc_inv Q (d\<lparr>s_t16 := (s_t16 d)(i := t)\<rparr>)"
  by (auto simp: soc_inv_def soc_wf_def mask_exact_def)

lemma wf_t16_tick: "wf_wiring Q w \<Longrightarrow> soc_inv Q (dev m) \<Longrightarrow> soc_inv Q (dev (soc_t16_tick w cyc i m))"
  by (auto simp: soc_t16_tick_def case_prod_beta intro!: wf_raises t16_store_cache_wf)

lemma wf_t8_tick: "wf_wiring Q w \<Longrightarrow> soc_inv Q (dev m) \<Longrightarrow> soc_inv Q (dev (soc_t8_tick w cyc i m))"
  by (auto simp: soc_t8_tick_def case_prod_beta intro!: wf_raises t8_store_cache_wf)

lemma wf_timers: "wf_wiring Q w \<Longrightarrow> soc_inv Q (dev m) \<Longrightarrow> soc_inv Q (dev (soc_timers w cyc m))"
  unfolding soc_timers_def Let_def
  by (intro scan_bits_keeps [where P = "\<lambda>m. soc_inv Q (dev m)"] wf_t8_tick wf_t16_tick)

lemma wf_wdt_tick:
  assumes "wf_wiring Q w" "soc_inv Q (dev m)"
  shows "soc_inv Q (dev (soc_wdt_tick w cyc m))"
proof -
  have "soc_inv Q (dev m) \<Longrightarrow> soc_inv Q (dev (soc_nmi w e m))" for e m
    by (simp add: soc_nmi_def device_invariant.stays_assert [OF assms(1)])
  then show ?thesis
    using assms(2) fold_keeps [where P = "\<lambda>m. soc_inv Q (dev m)" and f = "soc_nmi w"]
    by (simp add: soc_wdt_tick_def case_prod_beta)
qed

lemma sound_tick_ring: "ring_ok s \<Longrightarrow> ring_ok (fst (sound_tick cyc s))"
  by (simp add: sound_tick_def ring_ok_def)

lemma wf_tick:
  assumes "env_keeps (soc_inv Q) env" "wf_wiring Q w" "soc_inv Q (dev m)"
  shows "soc_inv Q (dev (soc_tick env w cyc m))"
proof -
  have "soc_inv Q (dev x) \<Longrightarrow> soc_inv Q (dev (soc_sound_tick env w cyc x))" for x
    using sound_tick_ring [of "s_sound (dev x)" cyc] assms(1,2)
    by (auto simp: soc_sound_tick_def case_prod_beta soc_invD [of Q] intro!: wf_sound_events)
  then show ?thesis using assms by (simp add: soc_tick_def wf_wdt_tick wf_timers)
qed

lemma wf_next_wake: "soc_inv Q d \<Longrightarrow> soc_inv Q (snd (soc_next_wake d))"
proof -
  have "soc_inv Q (snd acc) \<Longrightarrow> soc_inv Q (snd (wake_t8 i acc))" for i acc
    by (auto simp: wake_t8_def t8_next_wake_def Let_def case_prod_beta split: prod.splits intro!: t8_store_cache_wf)
  then have "soc_inv Q (snd acc) \<Longrightarrow> soc_inv Q (snd (fold wake_t8 is acc))" for "is" acc
    using fold_keeps [where P = "\<lambda>a. soc_inv Q (snd a)" and f = wake_t8] by blast
  then show "soc_inv Q d \<Longrightarrow> soc_inv Q (snd (soc_next_wake d))"
    by (simp add: soc_next_wake_def case_prod_beta Let_def)
qed

lemma set_il_overrides: "overrides_ok s \<Longrightarrow> overrides_ok (set_current_il il s)"
  by (simp add: set_current_il_def Let_def overrides_ok_def)

lemma wf_set_keys:
  assumes w: "wf_wiring Q w" and "soc_inv Q (dev m)"
  shows "soc_inv Q (dev (soc_set_keys w k5 k6 m))"
  using assms(2) by (auto simp: soc_set_keys_def case_prod_beta Let_def intro!: wf_raises [OF w])

text \<open>The same with nothing asked of the frontend's variables.\<close>

lemmas wf_plain = soc_wiring_wf [where Q = "\<lambda>_. True", unfolded soc_inv_True]
  wf_tick [where Q = "\<lambda>_. True", unfolded soc_inv_True] wf_poll [where Q = "\<lambda>_. True", unfolded soc_inv_True]
  wf_next_wake [where Q = "\<lambda>_. True", unfolded soc_inv_True] soc_reset_wf [where Q = "\<lambda>_. True", unfolded soc_inv_True]
  wf_set_keys [where Q = "\<lambda>_. True", unfolded soc_inv_True]

lemma soc_reach_wf: "soc_reach m \<Longrightarrow> soc_wf (dev m)"
proof (induction rule: soc_reach.induct)
  case (insn m env n)
  then show ?case using device_invariant.stays_step [OF wf_plain(1)] by blast
next
  case (level m)
  then show ?case by (simp add: soc_sync_il_def soc_wfD set_il_overrides)
next
  case (store m env n a v)
  then show ?case using device_invariant.stays_write8 [OF wf_plain(1)] by blast
qed (simp_all add: soc_init_wf wf_plain soc_wfD pop_ok)

text \<open>
  C12: In every machine that can come about, whatever program runs, the devices are well-formed:
  the bitmap of running timers has exactly the bits of the timers whose run bit is set, so the
  tick that follows only the bitmap misses none; the display cursor stays inside the 16 by 256
  display memory; both ring indices stay below 4096; and every level override is \<open>-1\<close> or a level.
\<close>
theorem soc_devices_well_formed:
  assumes "soc_reach m"
  shows "soc_wf (dev m)"
  using assms by (rule soc_reach_wf)

definition soc_env0 :: soc_env where
  "soc_env0 = \<lparr> env_tm = \<lparr> tm_year = 100, tm_mon = 0, tm_mday = 1, tm_hour = 0, tm_min = 0, tm_sec = 0 \<rparr>, env_now = 0,
     env_clock_change = (\<lambda>_ m. m), env_frame_done = (\<lambda>m. m), env_ch1_done = (\<lambda>m. m), env_push_hook = False \<rparr>"

lemma soc_env0_keeps: "env_keeps P soc_env0"
  by (simp add: env_keeps_def soc_env0_def)

interpretation sampled: device_invariant "soc_wiring soc_env0 n" soc_wf for n
  by (rule wf_plain(1) [OF soc_env0_keeps])

text \<open>What the interpretation gives at once: no single memory access or instruction breaks the devices.\<close>

lemmas soc_accesses_keep = sampled.stays_bus sampled.stays_step

definition soc_sample :: "soc machine" where
  "soc_sample = \<lparr> cpu = cpu_init, bus = bus_create 64 64, dev = soc_init, diag_log = [], breakpoints = {}, strict = False \<rparr>"

lemma soc_devices_well_formed_witness: "soc_wf (dev (soc_tick soc_env0 (soc_wiring soc_env0 2) 1000 soc_sample))"
proof -
  have "soc_reach soc_sample" by (rule soc_reach.power_on) (simp add: soc_sample_def)
  then show ?thesis by (intro soc_devices_well_formed soc_reach.tick soc_env0_keeps)
qed

end
