(* ===== verification/SocPaths.thy ===== *)
theory SocPaths
  imports SocWf
begin

text \<open>
  Paths through several devices: the tick over the bitmaps of running timers against the plain
  loop over all timers, the register map without overlaps, a store to the serial port that draws
  on the display, and interrupts from the controller to the CPU.
\<close>

section \<open>Bus accesses outside the I/O area\<close>

text \<open>An address where a word access touches only internal or external RAM; one that is not I/O.\<close>

definition plain_ram :: "bus_state \<Rightarrow> u32 \<Rightarrow> bool" where
  "plain_ram b a \<longleftrightarrow> classify b (a28 a AND NOT 3) \<in> {IRAM, SRAM}"

definition off_io :: "bus_state \<Rightarrow> u32 \<Rightarrow> bool" where "off_io b a \<longleftrightarrow> classify b (a28 a AND NOT 3) \<noteq> IO"

lemma classify_flash: "flash b' = flash b \<Longrightarrow> classify b' = classify b"
  by (simp add: classify_def flash_end_def fun_eq_iff Let_def)

lemma align_idem: "(x :: u32) AND 3 = 0 \<Longrightarrow> x AND NOT 3 = x"
proof -
  assume z: "x AND 3 = 0"
  have "x = (x AND 3) OR (x AND NOT 3)" by (rule bit_word_eqI) (auto simp: bit_simps)
  then show "x AND NOT 3 = x" using z by simp
qed

lemma misalign_flash [simp]: "flash (bus (misalign cat m)) = flash (bus m)" "cpu (misalign cat m) = cpu m"
  by (simp_all add: misalign_def)

lemma read32_off_io:
  assumes cb: "wp_cb w = None" and a: "off_io (bus m) a"
  shows "dev (snd (read32 w a m)) = dev m" "cpu (snd (read32 w a m)) = cpu m"
    "flash (bus (snd (read32 w a m))) = flash (bus m)"
proof -
  have wp: "wp_read w x v k y = y" for x v k y by (simp add: wp_read_def fire_wp_def cb)
  define a1 where "a1 = (if a28 a AND 3 \<noteq> 0 then a28 a AND NOT 3 else a28 a)"
  have a1: "a1 = a28 a AND NOT 3" using align_idem [of "a28 a"] by (auto simp: a1_def)
  define m1 where "m1 = (if a28 a AND 3 \<noteq> 0 then misalign ''misalign_read32'' m else m)"
  have m1: "dev m1 = dev m" "cpu m1 = cpu m" "flash (bus m1) = flash (bus m)" by (simp_all add: m1_def)
  have c: "classify (bus m1) a1 \<noteq> IO" using a classify_flash [OF m1(3)] by (simp add: off_io_def a1)
  have e: "read32 w a m = (case classify (bus m1) a1 of
          IRAM \<Rightarrow> (le32 (iram (bus m1)) (unat (a1 AND 0x1FFF)), m1)
        | SRAM \<Rightarrow>
            let m2 = charge (ext_read_cycles (bus m1) (sram_wait (bus m1)) * 2) m1; off = unat (a1 - SRAM_BASE)
            in if off \<ge> length (sram (bus m1)) then (0xFFFFFFFF, m2)
               else let v = le32 (sram (bus m1)) off in (v, wp_read w a1 v 4 m2)
        | FLASH \<Rightarrow>
            let x = a1 - FLASH_BASE
            in (if flash_read_mode (flash (bus m1)) then le32 (flash_mem (flash (bus m1))) (unat x)
                else join16 (flash_read16 x (flash (bus m1))) (flash_read16 (x + 2) (flash (bus m1))),
                charge (ext_read_cycles (bus m1) (flash_wait (bus m1)) * 2) m1)
        | IO \<Rightarrow> (case read16 w a1 m1 of (lo, m1) \<Rightarrow>
                  case read16 w (a1 + 2) m1 of (hi, m2) \<Rightarrow> (join16 lo hi, m2))
        | NONE \<Rightarrow> (0xFFFFFFFF, m1))"
    unfolding read32_def Let_def m1_def a1_def by (rule refl)
  show "dev (snd (read32 w a m)) = dev m" "cpu (snd (read32 w a m)) = cpu m"
    "flash (bus (snd (read32 w a m))) = flash (bus m)"
    using c unfolding e by (cases "classify (bus m1) a1"; simp add: m1 wp Let_def charge_def)+
qed

lemma write32_plain:
  assumes cb: "wp_cb w = None" and a: "plain_ram (bus m) a"
  shows "dev (write32 w a v m) = dev m" "cpu (write32 w a v m) = cpu m" "flash (bus (write32 w a v m)) = flash (bus m)"
proof -
  have wp: "dev (wp_write w x u k y) = dev y" "cpu (wp_write w x u k y) = cpu y"
    "flash (bus (wp_write w x u k y)) = flash (bus y)" for x u k y
    by (simp_all add: wp_write_def fire_wp_def cb Let_def update_shadow_def)
  define a1 where "a1 = (if a28 a AND 3 \<noteq> 0 then a28 a AND NOT 3 else a28 a)"
  have a1: "a1 = a28 a AND NOT 3" using align_idem [of "a28 a"] by (auto simp: a1_def)
  define m1 where "m1 = (if a28 a AND 3 \<noteq> 0 then misalign ''misalign_write32'' m else m)"
  have m1: "dev m1 = dev m" "cpu m1 = cpu m" "flash (bus m1) = flash (bus m)" by (simp_all add: m1_def)
  have c: "classify (bus m1) a1 = IRAM \<or> classify (bus m1) a1 = SRAM"
    using a classify_flash [OF m1(3)] by (simp add: plain_ram_def a1)
  have e: "write32 w a v m = (case classify (bus m1) a1 of
          IRAM \<Rightarrow> store_iram (put_le32 (iram (bus m1)) (unat (a1 AND 0x1FFF)) v) m1
        | SRAM \<Rightarrow>
            let m2 = charge (ext_write_cycles (bus m1) (sram_wait (bus m1)) * 2) m1; off = unat (a1 - SRAM_BASE)
            in if off < length (sram (bus m1))
               then let m3 = wp_write w a1 v 4 m2
                    in store_sram (put_le32 (sram (bus m3)) off v) m3
               else m2
        | FLASH \<Rightarrow>
            let x = a1 - FLASH_BASE
            in store_flash16 (x + 2) (ucast (drop_bit 16 v))
                 (store_flash16 x (ucast v) (charge (ext_write_cycles (bus m1) (flash_wait (bus m1)) * 2) m1))
        | IO \<Rightarrow> write16 w (a1 + 2) (ucast (drop_bit 16 v)) (write16 w a1 (ucast v) m1)
        | NONE \<Rightarrow> m1)"
    unfolding write32_def Let_def m1_def a1_def by (rule refl)
  show "dev (write32 w a v m) = dev m" "cpu (write32 w a v m) = cpu m" "flash (bus (write32 w a v m)) = flash (bus m)"
    using c unfolding e by (elim disjE; simp add: m1 wp Let_def charge_def store_iram_def store_sram_def)+
qed

section \<open>Traps that leave the devices alone\<close>

text \<open>
  Should the CPU take an interrupt now, it would read its vector outside the I/O area and push
  onto a stack in RAM.
\<close>

definition trap_calm :: "'d machine \<Rightarrow> bool" where
  "trap_calm m \<longleftrightarrow> (psr_ie (psr (cpu m)) \<and> \<not> trap_deferred (cpu m) \<longrightarrow>
     plain_ram (bus m) (sp (cpu m) - 4) \<and> plain_ram (bus m) (sp (cpu m) - 8) \<and>
     (\<forall>no. 16 \<le> no \<and> no \<le> 71 \<longrightarrow> off_io (bus m) (ttbr (cpu m) + word_of_int (no * 4))))"

lemma plain_ram_flash: "flash b' = flash b \<Longrightarrow> plain_ram b' a = plain_ram b a"
  by (simp add: plain_ram_def classify_flash [of b' b])

lemma enter_calm:
  assumes cb: "wp_cb w = None" and no: "16 \<le> no" "no \<le> 71"
    and st: "plain_ram (bus m) (sp (cpu m) - 4)" "plain_ram (bus m) (sp (cpu m) - 8)"
    and vec: "off_io (bus m) (ttbr (cpu m) + word_of_int (no * 4))"
  shows "dev (enter_trap w no level m) = dev m \<and> \<not> psr_ie (psr (cpu (enter_trap w no level m)))"
proof -
  obtain v m1 where r: "read32 w (ttbr (cpu m) + word_of_int (no * 4)) m = (v, m1)" by force
  have m1: "dev m1 = dev m" "cpu m1 = cpu m" "flash (bus m1) = flash (bus m)"
    using read32_off_io [OF cb vec] unfolding r by simp_all
  have push: "dev (push32 w x y) = dev y \<and> sp (cpu (push32 w x y)) = sp (cpu y) - 4 \<and> flash (bus (push32 w x y)) = flash (bus y)"
    if "plain_ram (bus y) (sp (cpu y) - 4)" for x and y :: "'a machine"
    using that write32_plain [OF cb, of "cpu_update (\<lambda>c. c\<lparr>sp := sp c - 4\<rparr>) y" "sp (cpu y) - 4"]
    by (simp add: push32_def)
  define m2 where "m2 = push32 w (pc (cpu m1)) m1"
  define m3 where "m3 = push32 w (psr (cpu m2)) m2"
  have m2: "dev m2 = dev m" "sp (cpu m2) = sp (cpu m) - 4" "flash (bus m2) = flash (bus m)"
    using push [of m1] st(1) m1 plain_ram_flash [OF m1(3)] by (simp_all add: m2_def)
  have "sp (cpu m) - 4 - 4 = sp (cpu m) - 8" by simp
  then have m3: "dev m3 = dev m"
    using push [of m2] st(2) m2 plain_ram_flash [OF m2(3)] by (simp add: m3_def)
  have "enter_trap w no level m = cpu_update (\<lambda>c. c\<lparr>pc := v,
       psr := set_il (word_of_int level) (set_ie False (psr c)), in_halt := False, halt_mode := HaltNone\<rparr>) m3"
    using no unfolding enter_trap_def r by (simp add: m2_def m3_def Let_def)
  then show ?thesis using m3 by simp
qed

lemma assert_calm:
  assumes cb: "wp_cb w = None" and no: "16 \<le> no" "no \<le> 71" and calm: "trap_calm m"
  shows "dev (assert_trap w no level m) = dev m \<and> trap_calm (assert_trap w no level m)"
proof (cases "trap_masked no level (cpu m)")
  case True
  then show ?thesis using calm by (simp add: assert_trap_def do_trap_def)
next
  case False
  then have ie: "psr_ie (psr (cpu m))" using no by (simp add: trap_masked_def)
  show ?thesis
  proof (cases "trap_deferred (cpu m)")
    case True
    then show ?thesis
      using False calm by (auto simp: assert_trap_def do_trap_def trap_calm_def trap_deferred_def)
  next
    case nd: False
    have "dev (enter_trap w no level m) = dev m \<and> \<not> psr_ie (psr (cpu (enter_trap w no level m)))"
      using calm ie nd no by (intro enter_calm [OF cb no]) (auto simp: trap_calm_def)
    then show ?thesis using False nd by (simp add: assert_trap_def do_trap_def trap_calm_def)
  qed
qed

lemma try_deliver_no:
  "intc_raise src lv s = (s', Some (no, level)) \<Longrightarrow> 16 \<le> no \<and> no \<le> 71"
  using src_table_row [of "src_index src"]
  by (auto simp: intc_raise_def try_deliver_def Let_def split: if_splits)

lemma raise_calm:
  assumes "wp_cb w = None" "trap_calm m"
  shows "dev (soc_raise w lv src m) = (dev m)\<lparr>s_intc := fst (intc_raise src lv (s_intc (dev m)))\<rparr> \<and>
    trap_calm (soc_raise w lv src m)"
proof -
  obtain i req where r: "intc_raise src lv (s_intc (dev m)) = (i, req)" by force
  have calm: "trap_calm (on_dev f m)" for f using assms(2) by (simp add: trap_calm_def on_dev_def)
  show ?thesis
  proof (cases req)
    case None
    then show ?thesis by (simp add: soc_raise_def r deliver_def calm)
  next
    case (Some nl)
    then obtain no level where req: "req = Some (no, level)" by (cases nl) auto
    have "16 \<le> no \<and> no \<le> 71" using try_deliver_no r req by blast
    then show ?thesis
      using assert_calm [OF assms(1) _ _ calm] by (simp add: soc_raise_def r req deliver_def)
  qed
qed

lemma raises_calm:
  assumes "wp_cb w = None" "trap_calm m"
  shows "trap_calm (fold (soc_raise w lv) irqs m)"
    "s_t8 (dev (fold (soc_raise w lv) irqs m)) = s_t8 (dev m)" "s_t16 (dev (fold (soc_raise w lv) irqs m)) = s_t16 (dev m)"
  using assms(2) by (induction irqs arbitrary: m) (simp_all add: raise_calm [OF assms(1)])

section \<open>The bitmap scan visits exactly the running timers\<close>

text \<open>The run bits of all timers, which a tick does not change.\<close>

definition run_bits :: "soc machine \<Rightarrow> (nat \<Rightarrow> u8) \<times> (nat \<Rightarrow> u8)" where
  "run_bits m = (\<lambda>k. t16_ctl (s_t16 (dev m) k), \<lambda>k. t8_ctl (s_t8 (dev m) k))"

lemma tick_calm:
  assumes "wp_cb w = None" "trap_calm m"
  shows "trap_calm (soc_t16_tick w cyc i m) \<and> run_bits (soc_t16_tick w cyc i m) = run_bits m"
    "trap_calm (soc_t8_tick w cyc i m) \<and> run_bits (soc_t8_tick w cyc i m) = run_bits m"
proof -
  have calm: "trap_calm (on_dev f m)" for f using assms(2) by (simp add: trap_calm_def on_dev_def)
  show "trap_calm (soc_t16_tick w cyc i m) \<and> run_bits (soc_t16_tick w cyc i m) = run_bits m"
    "trap_calm (soc_t8_tick w cyc i m) \<and> run_bits (soc_t8_tick w cyc i m) = run_bits m"
    by (auto simp: soc_t16_tick_def soc_t8_tick_def case_prod_beta raises_calm [OF assms(1) calm] run_bits_def)
qed

lemma on_dev_same: "f (dev m) = dev m \<Longrightarrow> on_dev f m = m"
  by (simp add: on_dev_def)

lemma t16_stopped: "t16_ctl (s_t16 (dev m) i) AND 1 = 0 \<Longrightarrow> soc_t16_tick w cyc i m = m"
  by (simp add: soc_t16_tick_def t16_tick_def on_dev_same)

lemma t8_stopped: "t8_ctl (s_t8 (dev m) i) AND 1 = 0 \<Longrightarrow> soc_t8_tick w cyc i m = m"
  by (simp add: soc_t8_tick_def t8_tick_def on_dev_same)

lemma fold_skip:
  assumes "\<And>k m. Inv m \<Longrightarrow> Inv (f k m)" "\<And>k m. Inv m \<Longrightarrow> k \<in> set ks \<Longrightarrow> \<not> B k \<Longrightarrow> f k m = m" "Inv m"
  shows "fold f (filter B ks) m = fold f ks m \<and> Inv (fold f ks m)"
  using assms(2,3) by (induction ks arbitrary: m) (auto simp: assms(1))

lemma filter_low: "n \<le> 32 \<Longrightarrow> filter (\<lambda>k. B k \<and> k < n) [0..<32] = filter B [0..<n]"
proof -
  assume "n \<le> 32"
  then have "[0..<32] = [0..<n] @ [n..<32]" using upt_add_eq_append [of 0 n "32 - n"] by simp
  then show ?thesis by (auto intro: filter_cong simp: filter_empty_conv)
qed

lemma soc_wiring_cb [simp]: "wp_cb (soc_wiring env n) = None"
proof -
  have "attach_io hs w0 = Inr w \<Longrightarrow> wp_cb w = wp_cb w0" for hs w0 w
    by (induction hs arbitrary: w0) (auto simp: register_io_def Let_def split: sum.splits if_splits)
  note this [dest]
  moreover have "wp_cb no_wiring = None" by (simp add: no_wiring_def)
  ultimately show ?thesis by (cases n) (auto split: sum.split)
qed

text \<open>
  C17: Scanning the bitmap is the same as ticking all ten timers: in every machine that can come
  about whose interrupt would vector and push outside the I/O area, the two loops over the set
  bits of the bitmap do exactly what ticking the six 16-bit and then the four 8-bit timers does,
  in that order; a stopped timer costs nothing because its tick would do nothing.
\<close>
theorem soc_bitmap_scan:
  assumes "mask_exact (dev m)" "trap_calm m"
  shows "soc_timers (soc_wiring env n) cyc m =
    fold (soc_t8_tick (soc_wiring env n) cyc) [0..<4] (fold (soc_t16_tick (soc_wiring env n) cyc) [0..<6] m)"
proof -
  let ?w = "soc_wiring env n"
  define Inv where "Inv m' \<longleftrightarrow> trap_calm m' \<and> run_bits m' = run_bits m" for m' :: "soc machine"
  have inv: "Inv (soc_t16_tick ?w cyc k x)" "Inv (soc_t8_tick ?w cyc k x)" if "Inv x" for k x
    using that tick_calm [of ?w x] by (simp_all add: Inv_def)
  have b16: "filter (bit (timer_active_mask (dev m) AND 0x003F)) [0..<32] =
      filter (bit (timer_active_mask (dev m))) [0..<6]"
  proof -
    have low: "bit (0x003F :: u32) k = (k < 6)" for k
      using bit_mask_iff [of 6 k, where 'a = u32] by (auto simp: mask_eq_exp_minus_1)
    have "bit (timer_active_mask (dev m) AND 0x003F) = (\<lambda>k. bit (timer_active_mask (dev m)) k \<and> k < 6)"
      by (simp only: fun_eq_iff bit_and_iff low simp_thms)
    then show ?thesis by (simp add: filter_low)
  qed
  have b8: "filter (bit (drop_bit 8 (timer_active_mask (dev m)) AND 0x000F)) [0..<32] =
      filter (\<lambda>k. bit (timer_active_mask (dev m)) (8 + k)) [0..<4]"
  proof -
    have low: "bit (0x000F :: u32) k = (k < 4)" for k
      using bit_mask_iff [of 4 k, where 'a = u32] by (auto simp: mask_eq_exp_minus_1)
    have "bit (drop_bit 8 (timer_active_mask (dev m)) AND 0x000F) = (\<lambda>k. bit (timer_active_mask (dev m)) (8 + k) \<and> k < 4)"
      by (simp only: fun_eq_iff bit_and_iff low bit_drop_bit_eq comp_apply simp_thms)
    then show ?thesis by (simp add: filter_low)
  qed
  have s16: "soc_t16_tick ?w cyc k x = x" if "Inv x" "k \<in> set [0..<6]" "\<not> bit (timer_active_mask (dev m)) k" for k x
  proof (rule t16_stopped)
    have "t16_ctl (s_t16 (dev x) k) = t16_ctl (s_t16 (dev m) k)" using that(1) by (auto simp: Inv_def run_bits_def fun_eq_iff)
    then show "t16_ctl (s_t16 (dev x) k) AND 1 = 0" using assms(1) that(2,3) by (auto simp: mask_exact_def)
  qed
  have s8: "soc_t8_tick ?w cyc k x = x" if "Inv x" "k \<in> set [0..<4]" "\<not> bit (timer_active_mask (dev m)) (8 + k)" for k x
  proof (rule t8_stopped)
    have "t8_ctl (s_t8 (dev x) k) = t8_ctl (s_t8 (dev m) k)" using that(1) by (auto simp: Inv_def run_bits_def fun_eq_iff)
    then show "t8_ctl (s_t8 (dev x) k) AND 1 = 0" using assms(1) that(2,3) by (auto simp: mask_exact_def)
  qed
  have "Inv m" using assms(2) by (simp add: Inv_def)
  then have "fold (soc_t16_tick ?w cyc) (filter (bit (timer_active_mask (dev m))) [0..<6]) m = fold (soc_t16_tick ?w cyc) [0..<6] m
      \<and> Inv (fold (soc_t16_tick ?w cyc) [0..<6] m)"
    by (intro fold_skip inv s16)
  moreover from this have "fold (soc_t8_tick ?w cyc) (filter (\<lambda>k. bit (timer_active_mask (dev m)) (8 + k)) [0..<4]) (fold (soc_t16_tick ?w cyc) [0..<6] m)
      = fold (soc_t8_tick ?w cyc) [0..<4] (fold (soc_t16_tick ?w cyc) [0..<6] m)"
    using fold_skip [of Inv "soc_t8_tick ?w cyc" "[0..<4]" "\<lambda>k. bit (timer_active_mask (dev m)) (8 + k)"] inv s8 by blast
  ultimately show ?thesis unfolding soc_timers_def Let_def scan_bits_fold b16 b8 by simp
qed

lemma soc_bitmap_scan_witness:
  "soc_timers (soc_wiring soc_env0 1) 1000 soc_sample =
    fold (soc_t8_tick (soc_wiring soc_env0 1) 1000) [0..<4] (fold (soc_t16_tick (soc_wiring soc_env0 1) 1000) [0..<6] soc_sample)"
proof (rule soc_bitmap_scan)
  show "mask_exact (dev soc_sample)" using soc_init_wf by (simp add: soc_sample_def soc_wf_def)
  show "trap_calm soc_sample" by (simp add: trap_calm_def soc_sample_def cpu_init_def psr_ie_def)
qed

section \<open>The register map\<close>

definition io_base_ok :: "u32 \<Rightarrow> bool" where
  "io_base_ok a \<longleftrightarrow> 0x040000 \<le> a \<and> a < 0x050000 \<and> a AND 1 = 0"

lemma lift_bases: "map fst (lift_ports ps get put ev) = map port_base (ps soc_init)"
  by (rule nth_equalityI) (simp_all add: lift_ports_def)

definition soc_bases :: "u32 list" where
  "soc_bases = map port_base (intc_ports :: (intc, unit) port list) @ map port_base clk_ports
     @ concat (map (\<lambda>i. map port_base (t8_ports i)) [0..<4])
     @ concat (map (\<lambda>i. map port_base (t16_ports i clk_init)) [0..<6])
     @ map port_base portctrl_ports @ map port_base bcu_ports @ [port_base wdt_port]
     @ map port_base (rtc_ports (env_tm soc_env0)) @ map port_base hsdma_ports @ map port_base sif3_ports"

lemma soc_io_bases: "map fst (soc_io env w) = soc_bases"
  by (simp add: soc_io_def soc_bases_def lift_bases map_concat comp_def soc_init_def rtc_ports_def byte_port_def
      plain_port_def rtc_alarm_port_def)

lemma soc_bases_eq: "soc_bases = map (\<lambda>i. 0x040260 + word_of_nat (2 * i)) [0..<32] @ map port_base clk_ports
     @ concat (map (\<lambda>i. [0x040160 + word_of_nat i * 4, 0x040160 + word_of_nat i * 4 + 2]) [0..<4])
     @ concat (map (\<lambda>i. let b = 0x048180 + word_of_nat i * 8 in [b, b + 2, b + 4, b + 6]) [0..<6])
     @ map port_base portctrl_ports @ map port_base bcu_ports @ [0x040170]
     @ [0x040150, 0x040152, 0x040154, 0x040156, 0x040158, 0x04015A]
     @ map port_base hsdma_ports @ [0x0401F4, 0x0401F6, 0x0401F8]"
  by (simp add: soc_bases_def intc_ports_def t8_ports_def t16_ports_def rtc_ports_def rtc_alarm_port_def
      sif3_ports_def sif3_ctl_port_def wdt_port_def byte_port_def plain_port_def comp_def Let_def)

definition soc_addrs :: "int list" where
  "soc_addrs = map (\<lambda>i. 0x40260 + 2 * i) [0..31]
     @ [0x40140, 0x40144, 0x40146, 0x40148, 0x4014A, 0x4014C, 0x4014E, 0x40180]
     @ map (\<lambda>i. 0x40160 + 2 * i) [0..7] @ map (\<lambda>i. 0x48180 + 2 * i) [0..23]
     @ map (\<lambda>i. 0x402C0 + 2 * i) [0..15] @ map (\<lambda>i. 0x48120 + 2 * i) [0..13] @ [0x40170]
     @ map (\<lambda>i. 0x40150 + 2 * i) [0..5] @ map (\<lambda>i. 0x48220 + 2 * i) [0..31] @ [0x401F4, 0x401F6, 0x401F8]"

lemma soc_bases_addrs: "soc_bases = map word_of_int soc_addrs"
proof -
  have 1: "map (\<lambda>i. 0x040260 + word_of_nat (2 * i)) [0..<32] = map (\<lambda>z. word_of_int (0x40260 + 2 * z) :: u32) [0..31]"
    by (simp add: upt_rec upto_rec1)
  have 2: "map port_base clk_ports = map word_of_int [0x40140, 0x40144, 0x40146, 0x40148, 0x4014A, 0x4014C, 0x4014E, 0x40180]"
    by (simp add: clk_ports_def clk_even_port_def clk_pair_port_def)
  have 3: "concat (map (\<lambda>i. [0x040160 + word_of_nat i * 4, 0x040160 + word_of_nat i * 4 + 2]) [0..<4]) =
      map (\<lambda>z. word_of_int (0x40160 + 2 * z) :: u32) [0..7]"
    by (simp add: upt_rec upto_rec1)
  have 4: "concat (map (\<lambda>i. let b = 0x048180 + word_of_nat i * 8 in [b, b + 2, b + 4, b + 6]) [0..<6]) =
      map (\<lambda>z. word_of_int (0x48180 + 2 * z) :: u32) [0..23]"
    by (simp add: upt_rec upto_rec1 Let_def)
  have 5: "map port_base portctrl_ports = map (\<lambda>z. word_of_int (0x402C0 + 2 * z)) [0..15]"
    by (simp add: portctrl_ports_def pint_port_def pport_port_def plain_port_def byte_port_def upt_rec upto_rec1)
  have 6: "map port_base bcu_ports = map (\<lambda>z. word_of_int (0x48120 + 2 * z)) [0..13]"
    by (simp add: bcu_ports_def effect_port_def plain_port_def upto_rec1)
  have 7: "map port_base hsdma_ports = map (\<lambda>z. word_of_int (0x48220 + 2 * z)) [0..31]"
    by (simp add: hsdma_ports_def channel_ports_def plain_port_def upt_rec upto_rec1 Let_def)
  have 8: "[0x040150, 0x040152, 0x040154, 0x040156, 0x040158, 0x04015A] = map (\<lambda>z. word_of_int (0x40150 + 2 * z) :: u32) [0..5]"
    by (simp add: upto_rec1)
  show ?thesis
    unfolding soc_bases_eq 1 2 3 4 5 6 7 8 soc_addrs_def by (simp add: comp_def del: upto.simps)
qed

lemma soc_addrs_distinct: "distinct soc_addrs"
  by code_simp

lemma soc_addrs_range: "list_all (\<lambda>z. 0x40000 \<le> z \<and> z < 0x50000 \<and> z mod 2 = 0) soc_addrs"
  by code_simp

text \<open>The slot of a register: half its offset in the I/O area.\<close>

lemma io_slot:
  assumes "0x40000 \<le> z" "z < 0x50000" "z mod 2 = 0"
  shows "normalize_io (word_of_int z) = word_of_int z" "io_index (word_of_int z) = nat ((z - 0x40000) div 2)"
    "(word_of_int z :: u32) AND 1 = 0"
proof -
  have u: "uint (word_of_int z :: u32) = z" using assms by (simp add: uint_word_of_int)
  show n: "normalize_io (word_of_int z) = word_of_int z"
  proof -
    define x where "x = (word_of_int z :: u32)"
    have lo: "0x40000 \<le> x" "x < 0x50000" using assms u by (simp_all add: x_def word_le_def word_less_def)
    define y where "y = x - 0x40000"
    have y: "unat y < 2 ^ 16" using lo by (simp add: y_def unat_sub word_le_nat_alt word_less_nat_alt)
    have yt: "take_bit 16 y = y" using y by (simp add: take_bit_eq_mod word_unat_eq_iff unat_mod)
    have nob: "bit y k \<Longrightarrow> k < 16" for k using yt by (metis bit_take_bit_iff)
    have b18: "bit (0x40000 :: u32) k = (k = 18)" for k
    proof -
      have "(0x40000 :: u32) = 2 ^ 18" by simp
      then show ?thesis by (simp only: bit_exp_iff) auto
    qed
    have x: "x = y OR 0x40000"
    proof -
      have "y + 0x40000 = y OR 0x40000" by (rule disjunctive_add) (use nob b18 in fastforce)
      then show ?thesis by (simp add: y_def)
    qed
    have "(0xFFFF :: u32) = mask 16" by (simp add: mask_eq_exp_minus_1)
    then have m: "x AND 0xFFFF = take_bit 16 x" by (simp only: take_bit_eq_mask)
    have "take_bit 16 x = y"
      by (rule bit_word_eqI) (use nob b18 x in \<open>auto simp: bit_take_bit_iff bit_or_iff dest: nob\<close>)
    then have "0x40000 OR (x AND 0xFFFF) = x" using x m by (simp add: or.commute)
    moreover have "x < 0x60000" using lo(2) by (rule order.strict_trans) simp
    ultimately show ?thesis by (simp add: normalize_io_def x_def [symmetric])
  qed
  have "unat ((word_of_int z - 0x40000 :: u32) div 2) = nat ((z - 0x40000) div 2)"
  proof -
    have "uint (word_of_int z - 0x40000 :: u32) = z - 0x40000"
      using assms u by (simp add: uint_word_ariths)
    then have "unat (word_of_int z - 0x40000 :: u32) = nat (z - 0x40000)" by (simp only: unat_eq_nat_uint)
    then show ?thesis using assms(1) by (simp add: unat_div nat_div_distrib)
  qed
  then show "io_index (word_of_int z) = nat ((z - 0x40000) div 2)" by (simp add: io_index_def n)
  have "uint ((word_of_int z :: u32) AND 1) = z AND 1" using u by (simp add: uint_and)
  also have "\<dots> = 0" using assms(3) by (simp add: and_one_eq)
  finally show "(word_of_int z :: u32) AND 1 = 0" by (simp add: uint_0_iff)
qed

text \<open>Attaching handlers at distinct slots puts each where a later access looks for it.\<close>

lemma attach_lookup:
  assumes "\<forall>a\<in>fst ` set hs. 0x40000 \<le> normalize_io a \<and> normalize_io a < 0x80000 \<and> normalize_io a AND 1 = 0"
    and "distinct (map (io_index \<circ> fst) hs)"
  shows "\<exists>w. attach_io hs w0 = Inr w \<and> wp_cb w = wp_cb w0 \<and>
    (\<forall>(a, h)\<in>set hs. io_handlers w (io_index a) = h) \<and>
    (\<forall>k. k \<notin> (io_index \<circ> fst) ` set hs \<longrightarrow> io_handlers w k = io_handlers w0 k)"
  using assms
proof (induction hs arbitrary: w0)
  case Nil then show ?case by simp
next
  case (Cons ah hs)
  obtain a h where ah: "ah = (a, h)" by force
  define w1 where "w1 = w0\<lparr>io_handlers := (io_handlers w0)(io_index a := h)\<rparr>"
  have reg: "register_io a h w0 = Inr w1"
    using Cons.prems(1) by (auto simp: ah register_io_def w1_def io_index_def Let_def dest: leD)
  obtain w where w: "attach_io hs w1 = Inr w" "wp_cb w = wp_cb w1" "\<forall>(a, h)\<in>set hs. io_handlers w (io_index a) = h"
    "\<forall>k. k \<notin> (io_index \<circ> fst) ` set hs \<longrightarrow> io_handlers w k = io_handlers w1 k"
    using Cons.IH [of w1] Cons.prems by auto
  have "io_index a \<notin> (io_index \<circ> fst) ` set hs" using Cons.prems(2) by (simp add: ah)
  then have "io_handlers w (io_index a) = h" using w(4) by (simp add: w1_def)
  then show ?case
    using w reg by (intro exI [of _ w]) (auto simp: ah w1_def)
qed

lemma soc_io_slots: "map (io_index \<circ> fst) (soc_io env w) = map (\<lambda>z. nat ((z - 0x40000) div 2)) soc_addrs"
proof -
  have "map (io_index \<circ> fst) (soc_io env w) = map io_index (map fst (soc_io env w))" by simp
  also have "\<dots> = map io_index (map word_of_int soc_addrs)" by (simp only: soc_io_bases soc_bases_addrs)
  also have "\<dots> = map (\<lambda>z. nat ((z - 0x40000) div 2)) soc_addrs"
    using soc_addrs_range io_slot(2) by (auto simp: list_all_iff)
  finally show ?thesis .
qed

lemma soc_slots_distinct: "distinct (map (\<lambda>z. nat ((z - 0x40000) div 2)) soc_addrs)"
proof (subst distinct_map, intro conjI soc_addrs_distinct inj_onI)
  fix x y assume "x \<in> set soc_addrs" "y \<in> set soc_addrs" and e: "nat ((x - 0x40000) div 2) = nat ((y - 0x40000) div 2)"
  then have "0x40000 \<le> x \<and> x mod 2 = 0" "0x40000 \<le> y \<and> y mod 2 = 0" using soc_addrs_range by (auto simp: list_all_iff)
  moreover from this e have "(x - 0x40000) div 2 = (y - 0x40000) div 2"
    by (metis diff_ge_0_iff_ge nat_0_le pos_imp_zdiv_nonneg_iff zero_less_numeral)
  ultimately show "x = y" by presburger
qed

lemma soc_attach:
  shows "attach_io (soc_io env (soc_wiring env n)) no_wiring = Inr (soc_wiring env (Suc n))"
    "(a, h) \<in> set (soc_io env (soc_wiring env n)) \<Longrightarrow> io_handlers (soc_wiring env (Suc n)) (io_index a) = h"
proof -
  let ?hs = "soc_io env (soc_wiring env n)"
  have "fst ` set ?hs = word_of_int ` set soc_addrs"
    using soc_io_bases [of env "soc_wiring env n"] soc_bases_addrs by (metis list.set_map)
  then have "\<forall>a\<in>fst ` set ?hs. 0x40000 \<le> normalize_io a \<and> normalize_io a < 0x80000 \<and> normalize_io a AND 1 = 0"
  proof -
    have "0x40000 \<le> (word_of_int z :: u32) \<and> (word_of_int z :: u32) < 0x80000" if "0x40000 \<le> z" "z < 0x50000" for z
      using that by (simp add: word_le_def word_less_def uint_word_of_int)
    then show ?thesis using \<open>fst ` set ?hs = _\<close> soc_addrs_range by (auto simp: list_all_iff io_slot)
  qed
  moreover have "distinct (map (io_index \<circ> fst) ?hs)" unfolding soc_io_slots by (rule soc_slots_distinct)
  ultimately obtain w' where w': "attach_io ?hs no_wiring = Inr w'" "\<forall>(a, h)\<in>set ?hs. io_handlers w' (io_index a) = h"
    using attach_lookup [of ?hs no_wiring] by blast
  then show "attach_io ?hs no_wiring = Inr (soc_wiring env (Suc n))" by simp
  show "io_handlers (soc_wiring env (Suc n)) (io_index a) = h" if "(a, h) \<in> set ?hs"
    using w' that by auto
qed

text \<open>
  The register map has no overlaps: the 144 registrations that \<open>attach\<close> performs all succeed,
  each at a halfword slot of its own, and an access to that slot reaches the device that
  registered it; no device's registration replaces another's.
\<close>
theorem soc_registers_disjoint:
  "distinct (map (io_index \<circ> fst) (soc_io env (soc_wiring env n))) \<and>
    attach_io (soc_io env (soc_wiring env n)) no_wiring = Inr (soc_wiring env (Suc n)) \<and>
    list_all (\<lambda>r. io_handlers (soc_wiring env (Suc n)) (io_index (fst r)) = snd r) (soc_io env (soc_wiring env n)) \<and>
    length (soc_io env (soc_wiring env n)) = 144"
proof -
  have "length (map (io_index \<circ> fst) (soc_io env (soc_wiring env n))) = length soc_addrs" by (simp only: soc_io_slots length_map)
  moreover have "length soc_addrs = 144" by (simp add: soc_addrs_def)
  moreover have "distinct (map (io_index \<circ> fst) (soc_io env (soc_wiring env n)))"
    unfolding soc_io_slots by (rule soc_slots_distinct)
  moreover have "list_all (\<lambda>r. io_handlers (soc_wiring env (Suc n)) (io_index (fst r)) = snd r) (soc_io env (soc_wiring env n))"
    using soc_attach(2) [of _ _ env n] by (auto simp: list_all_iff simp del: soc_wiring.simps)
  ultimately show ?thesis using soc_attach(1) by (simp only: length_map)
qed

section \<open>A byte to the display\<close>

lemma nth_in_set: "i < length xs \<Longrightarrow> xs ! i = x \<Longrightarrow> x \<in> set xs"
  by auto

text \<open>The registration of the transmit register, at its slot.\<close>

lemma txd_handler:
  "io_write (io_handlers (soc_wiring env (Suc n)) (io_index 0x0401F4)) =
     Some (\<lambda>a v m. perform (\<lambda>x d. d\<lparr>s_sif3 := x\<rparr>) (soc_txd env (soc_wiring env n)) (port_wr (sif3_ports ! 0) a v (s_sif3 (dev m))) m)"
  "io_write_byte (io_handlers (soc_wiring env (Suc n)) (io_index 0x0401F4)) = None"
proof -
  let ?w = "soc_wiring env n"
  let ?ps = "lift_ports (\<lambda>_. sif3_ports) s_sif3 (\<lambda>x d. d\<lparr>s_sif3 := x\<rparr>) (soc_txd env ?w)"
  define h where "h = snd (?ps ! 0)"
  have len: "length ?ps = 3" by (simp add: lift_ports_def sif3_ports_def)
  have base: "fst (?ps ! 0) = 0x0401F4" by (simp add: lift_ports_def sif3_ports_def)
  have "?ps ! 0 = (0x0401F4, h)" using base by (simp add: h_def prod_eq_iff)
  moreover have "?ps ! 0 \<in> set ?ps" using len by (intro nth_mem) simp
  moreover have "set ?ps \<subseteq> set (soc_io env ?w)" unfolding soc_io_def set_append by blast
  ultimately have "(0x0401F4, h) \<in> set (soc_io env ?w)" by auto
  then have "io_handlers (soc_wiring env (Suc n)) (io_index 0x0401F4) = h" by (rule soc_attach(2))
  then show "io_write (io_handlers (soc_wiring env (Suc n)) (io_index 0x0401F4)) =
     Some (\<lambda>a v m. perform (\<lambda>x d. d\<lparr>s_sif3 := x\<rparr>) (soc_txd env ?w) (port_wr (sif3_ports ! 0) a v (s_sif3 (dev m))) m)"
    "io_write_byte (io_handlers (soc_wiring env (Suc n)) (io_index 0x0401F4)) = None"
    by (simp_all add: h_def lift_ports_def sif3_ports_def)
qed

lemma txd_store:
  "write8 (soc_wiring env (Suc n)) 0x0401F5 b m = soc_txd env (soc_wiring env n) b m"
proof -
  have a: "a28 0x0401F5 = 0x0401F5" by (simp add: a28_def)
  have c: "classify (bus m) 0x0401F5 = IO" by (simp add: classify_def a28_def)
  have "io_index 0x0401F5 = io_index 0x0401F4" by (simp add: io_index_def normalize_io_def)
  moreover have "normalize_io 0x0401F5 = 0x0401F5" "io_index 0x0401F4 < io_slots"
    by (simp_all add: normalize_io_def io_index_def io_slots_def)
  moreover have "lo8 (ucast b) = b" unfolding lo8_def by (rule bit_word_eqI) (auto simp: bit_simps)
  ultimately show ?thesis
    by (simp add: write8_def a c txd_handler Let_def perform_def sif3_ports_def odd_addr_def on_dev_same del: soc_wiring.simps)
qed

text \<open>Bytes of SRAM, sent to the display one by one.\<close>

lemma transfer_sram:
  assumes "in_sram m a n"
  shows "dev (transfer (read8 w) soc_lcd_byte n a m) = (dev m)\<lparr>s_lcd :=
      fold (lcd_write (p21d (s_portctrl (dev m)))) (map (\<lambda>i. sram (bus m) ! (sram_off a + i)) [0..<n]) (s_lcd (dev m))\<rparr>"
  using assms
proof (induction n arbitrary: a m)
  case 0 then show ?case by (simp add: in_sram_def)
next
  case (Suc n)
  have one: "in_sram m a 1" using Suc.prems by (simp add: in_sram_def)
  define m1 where "m1 = soc_lcd_byte (sram (bus m) ! sram_off a) (charge (ext_read_cycles (bus m) (sram_wait (bus m))) m)"
  have m1: "sram (bus m1) = sram (bus m)" "watchpoints (bus m1) = watchpoints (bus m)"
    "dev m1 = (dev m)\<lparr>s_lcd := lcd_write (p21d (s_portctrl (dev m))) (sram (bus m) ! sram_off a) (s_lcd (dev m))\<rparr>"
    by (simp_all add: m1_def soc_lcd_byte_def on_dev_def charge_def)
  have step: "transfer (read8 w) soc_lcd_byte (Suc n) a m = transfer (read8 w) soc_lcd_byte n (a + 1) m1"
    by (simp add: read8_sram [OF one] m1_def)
  show ?case
  proof (cases "n = 0")
    case True
    then show ?thesis unfolding step by (simp add: m1)
  next
    case False
    have sub: "unat (a + word_of_nat 1) = unat a + 1 \<and> in_sram m (a + word_of_nat 1) n \<and> sram_off (a + word_of_nat 1) = sram_off a + 1"
      using in_sram_sub [OF Suc.prems, of 1 n] False by simp
    then have "in_sram m1 (a + 1) n" by (simp add: in_sram_def m1)
    from Suc.IH [OF this] have "dev (transfer (read8 w) soc_lcd_byte (Suc n) a m) = (dev m)\<lparr>s_lcd :=
      fold (lcd_write (p21d (s_portctrl (dev m)))) (map (\<lambda>i. sram (bus m) ! (sram_off a + 1 + i)) [0..<n])
        (lcd_write (p21d (s_portctrl (dev m))) (sram (bus m) ! sram_off a) (s_lcd (dev m)))\<rparr>"
      unfolding step using sub by (simp add: m1)
    moreover have "map (\<lambda>i. sram (bus m) ! (sram_off a + i)) [0..<Suc n] =
        sram (bus m) ! sram_off a # map (\<lambda>i. sram (bus m) ! (sram_off a + 1 + i)) [0..<n]"
      by (simp add: upt_conv_Cons del: upt_Suc) (simp add: map_Suc_upt [symmetric] del: upt_Suc)
    ultimately show ?thesis by simp
  qed
qed

text \<open>
  C40: A program draws on the display by one store. Storing \<open>b\<close> to the transmit register with
  channel 0 of the DMA armed for \<open>n\<close> bytes of external RAM sends to the display, in order, \<open>b\<close>
  and those \<open>n\<close> bytes, each as command or data according to the port line P21; it disarms the
  channel, changes no other device, and only then signals the finished frame.
\<close>
theorem soc_store_draws:
  assumes "ch0_en (s_hsdma (dev m))" "in_sram m (ch0_sadr (s_hsdma (dev m))) (unat (ch0_cnt (s_hsdma (dev m))))"
  shows "\<exists>m1. write8 (soc_wiring env (Suc n)) 0x0401F5 b m = env_frame_done env m1 \<and>
    dev m1 = (dev m)\<lparr>s_lcd := fold (lcd_write (p21d (s_portctrl (dev m))))
        (b # map (\<lambda>i. sram (bus m) ! (sram_off (ch0_sadr (s_hsdma (dev m))) + i)) [0..<unat (ch0_cnt (s_hsdma (dev m)))])
        (s_lcd (dev m)),
      s_hsdma := ch0_done (s_hsdma (dev m))\<rparr>"
proof -
  let ?h = "s_hsdma (dev m)"
  define m0 where "m0 = soc_lcd_byte b m"
  have m0: "bus m0 = bus m" "dev m0 = (dev m)\<lparr>s_lcd := lcd_write (p21d (s_portctrl (dev m))) b (s_lcd (dev m))\<rparr>"
    by (simp_all add: m0_def soc_lcd_byte_def on_dev_def)
  have "0 < unat (ch0_cnt ?h)" using assms(2) by (simp add: in_sram_def)
  then obtain k where k: "unat (ch0_cnt ?h) = Suc k" by (metis gr0_conv_Suc)
  define m1 where "m1 = on_dev (\<lambda>d. d\<lparr>s_hsdma := ch0_done ?h\<rparr>)
    (transfer (read8 (soc_wiring env n)) soc_lcd_byte (unat (ch0_cnt ?h)) (ch0_sadr ?h) m0)"
  have "soc_txd env (soc_wiring env n) b m = env_frame_done env m1"
    using assms(1) ch0_loop_transfer [OF assms(1) k, of "read8 (soc_wiring env n)" soc_lcd_byte False m0]
    by (simp add: soc_txd_def on_txd_write_def do_ch0_inline_def Let_def m0_def [symmetric] m1_def k)
  moreover have "in_sram m0 (ch0_sadr ?h) (unat (ch0_cnt ?h))" using assms(2) by (simp add: in_sram_def m0(1))
  then have "dev m1 = (dev m)\<lparr>s_lcd := fold (lcd_write (p21d (s_portctrl (dev m))))
        (b # map (\<lambda>i. sram (bus m) ! (sram_off (ch0_sadr ?h) + i)) [0..<unat (ch0_cnt ?h)]) (s_lcd (dev m)),
      s_hsdma := ch0_done ?h\<rparr>"
    by (simp add: m1_def transfer_sram m0)
  ultimately show ?thesis unfolding txd_store by blast
qed

lemma soc_store_draws_witness:
  "\<exists>m :: soc machine. \<exists>m1. write8 (soc_wiring soc_env0 1) 0x0401F5 0xFF m = m1 \<and> vram (s_lcd (dev m)) 0 0 = 0 \<and>
     vram (s_lcd (dev m1)) 0 0 = 0xFF \<and> vram (s_lcd (dev m1)) 0 1 = 0"
proof -
  define d where "d = soc_init\<lparr>s_portctrl := portctrl_init\<lparr>pport := (\<lambda>_. 2)\<rparr>,
    s_hsdma := hsdma_init\<lparr>ch0_en := True, ch0_cnt := 1, ch0_sadr := 0x100000\<rparr>\<rparr>"
  define m where "m = soc_sample\<lparr>dev := d\<rparr>"
  have dev: "dev m = d" "sram (bus m) = replicate 64 0" "watchpoints (bus m) = []"
    by (simp_all add: m_def soc_sample_def bus_create_def)
  have en: "ch0_en (s_hsdma (dev m))" by (simp add: dev d_def)
  have src: "in_sram m (ch0_sadr (s_hsdma (dev m))) (unat (ch0_cnt (s_hsdma (dev m))))"
    by (simp add: in_sram_def dev d_def)
  have rs: "p21d (s_portctrl d)" by (simp add: d_def p21d_def port_data_def bit_numeral_simps)
  have r0: "rev8 0xFF = 0xFF" "rev8 0 = 0" by (simp_all add: rev8_def)
  have bytes: "map (\<lambda>i. sram (bus m) ! (sram_off (ch0_sadr (s_hsdma (dev m))) + i)) [0..<unat (ch0_cnt (s_hsdma (dev m)))] = [0]"
    by (simp add: dev d_def sram_off_def)
  obtain m1 where m1: "write8 (soc_wiring soc_env0 (Suc 0)) 0x0401F5 0xFF m = env_frame_done soc_env0 m1"
    "dev m1 = (dev m)\<lparr>s_lcd := fold (lcd_write (p21d (s_portctrl (dev m)))) [0xFF, 0] (s_lcd (dev m)),
       s_hsdma := ch0_done (s_hsdma (dev m))\<rparr>"
    using soc_store_draws [OF en src, of soc_env0 0 "0xFF"] unfolding bytes by blast
  have "env_frame_done soc_env0 m1 = m1" by (simp add: soc_env0_def)
  moreover have "s_lcd (dev m1) = fold (lcd_write True) [0xFF, 0] lcd_init"
    using m1(2) rs by (simp add: dev(1)) (simp add: d_def soc_init_def)
  then have "vram (s_lcd (dev m1)) 0 0 = 0xFF" "vram (s_lcd (dev m1)) 0 1 = 0"
    by (simp_all add: lcd_write_def Let_def r0 lcd_init_def)
  moreover have "vram (s_lcd (dev m)) 0 0 = 0" by (simp add: dev(1) d_def soc_init_def lcd_init_def)
  ultimately show ?thesis using m1(1) by (metis One_nat_def)
qed

section \<open>An interrupt from the controller to the CPU\<close>

lemma poll_offer:
  assumes "intc_poll s = (s', Some (no, level))"
  shows "16 \<le> no" "current_il s < word_of_int level"
proof -
  obtain i where i: "poll_scan s = (Some i, level)" "no = trap_no (src_table ! i)"
    using assms by (auto simp: intc_poll_def split: if_splits prod.splits option.splits)
  define ok where "ok acc \<longleftrightarrow> (case acc of (None, _) \<Rightarrow> True
    | (Some i, lv) \<Rightarrow> i < NUM_SOURCES \<and> current_il s < word_of_int lv)" for acc :: "nat option \<times> int"
  have step: "ok (poll_visit s k acc)" if "ok acc" "k < NUM_SOURCES" for k acc
    using that by (auto simp: ok_def poll_visit_def Let_def not_le split: prod.splits option.splits)
  have "\<forall>k\<in>set ks. k < NUM_SOURCES \<Longrightarrow> ok acc \<Longrightarrow> ok (fold (poll_visit s) ks acc)" for ks acc
  proof (induction ks arbitrary: acc)
    case (Cons k ks)
    then show ?case using Cons.IH [of "poll_visit s k acc"] step by simp
  qed simp
  from this [of "[0..<NUM_SOURCES]" "(None, 0)"] have "ok (Some i, level)"
    using i(1) by (simp add: poll_scan_def ok_def)
  then show "16 \<le> no" "current_il s < word_of_int level" using src_table_row(1) i(2) by (auto simp: ok_def)
qed

text \<open>
  C39: The CPU never refuses on account of its level what the controller offers on account of it.
  When a poll offers an interrupt, and interrupts are enabled, no atomic sequence is in progress
  and the stack is in external RAM, the CPU takes it: PC and PSR are pushed, the level of the CPU
  becomes the offered one, and it continues at the vector, awake.
\<close>
theorem soc_poll_interrupts:
  assumes "intc_poll (set_current_il (psr_il (psr (cpu m))) (s_intc (dev m))) = (i, Some (no, level))"
    and "psr_ie (psr (cpu m))" "\<not> trap_deferred (cpu m)"
    and "m0 = on_dev (\<lambda>d. d\<lparr>s_intc := i\<rparr>) m"
    and "read32 w (ttbr (cpu m) + word_of_int (no * 4)) m0 = (vec, mv)" "cpu mv = cpu m"
    and "word_at mv (sp (cpu m) - 4)" "word_at mv (sp (cpu m) - 8)"
  shows "trap_entered m no level vec (soc_poll w (soc_sync_il m))"
proof -
  let ?s = "set_current_il (psr_il (psr (cpu m))) (s_intc (dev m))"
  have "current_il ?s = psr_il (psr (cpu m))" by (simp add: set_current_il_def Let_def)
  then have lv: "16 \<le> no" "psr_il (psr (cpu m)) < word_of_int level" using poll_offer [OF assms(1)] by simp_all
  have m0: "cpu m0 = cpu m" using assms(4) by (simp add: on_dev_def)
  have "soc_poll w (soc_sync_il m) = assert_trap w no level m0"
    by (simp add: soc_poll_def soc_sync_il_def assms(1) deliver_def assms(4) on_dev_def)
  also have "\<dots> = enter_trap w no level m0"
    using lv assms(2,3) by (simp add: assert_trap_def do_trap_def trap_masked_def m0)
  finally have e: "soc_poll w (soc_sync_il m) = enter_trap w no level m0" .
  have "trap_entered m0 no level vec (enter_trap w no level m0)"
    by (rule enter_trap_ok) (use assms(5-8) m0 in simp_all)
  then show ?thesis unfolding e by (simp add: trap_entered_def m0)
qed

text \<open>
  A poll while interrupts are disabled uses the offer up. It leaves CPU, memory and log as
  they were, and no later poll delivers the interrupt, interrupts enabled or not, as long as the
  controller is not written, nothing is raised and the level of the CPU does not drop; the
  interrupt stays flagged and enabled in the controller's registers all the while.
\<close>
theorem soc_masked_poll_forgets:
  assumes "\<not> psr_ie (psr (cpu m))" "m1 = soc_poll w (soc_sync_il m)"
    and "s_intc (dev m2) = s_intc (dev m1)" "psr_il (psr (cpu m)) \<le> psr_il (psr (cpu m2))"
  shows "cpu m1 = cpu m \<and> bus m1 = bus m \<and> regs (s_intc (dev m1)) = regs (s_intc (dev m)) \<and>
    cpu (soc_poll w (soc_sync_il m2)) = cpu m2 \<and> bus (soc_poll w (soc_sync_il m2)) = bus m2"
proof -
  let ?s = "set_current_il (psr_il (psr (cpu m))) (s_intc (dev m))"
  obtain i req where p: "intc_poll ?s = (i, req)" by force
  have i: "poll_dirty i = False" "regs i = regs (s_intc (dev m))" "current_il i = psr_il (psr (cpu m))"
    using p by (auto simp: intc_poll_def set_current_il_def Let_def split: if_splits prod.splits)
  define m0 where "m0 = on_dev (\<lambda>d. d\<lparr>s_intc := i\<rparr>) m"
  have m0: "cpu m0 = cpu m" "bus m0 = bus m" "s_intc (dev m0) = i" by (simp_all add: m0_def on_dev_def)
  have "m1 = deliver w req m0"
    by (simp add: assms(2) soc_poll_def soc_sync_il_def p on_dev_def m0_def)
  also have "\<dots> = m0"
  proof (cases req)
    case (Some nl)
    obtain no level where nl: "nl = (no, level)" by force
    have "trap_masked no level (cpu m0)"
      using poll_offer(1) [of ?s i no level] p assms(1) by (simp add: Some nl trap_masked_def m0)
    then show ?thesis by (simp add: Some nl deliver_def assert_trap_def do_trap_def)
  qed (simp add: deliver_def)
  finally have m1: "m1 = m0" .
  have "intc_poll (set_current_il (psr_il (psr (cpu m2))) i) = (i\<lparr>current_il := psr_il (psr (cpu m2))\<rparr>, None)"
    using leD [OF assms(4)] i by (simp add: intc_poll_def set_current_il_def Let_def)
  then have "soc_poll w (soc_sync_il m2) = on_dev (\<lambda>d. d\<lparr>s_intc := i\<lparr>current_il := psr_il (psr (cpu m2))\<rparr>\<rparr>) m2"
    using assms(3) by (simp add: soc_poll_def soc_sync_il_def m1 m0 deliver_def on_dev_def)
  then show ?thesis by (simp add: m1 m0 i on_dev_def)
qed

section \<open>Reset\<close>

text \<open>
  A hot start resets the clock controller's copy of P07 and keeps the port register: with P07
  low the controller then computes with 24 MHz where the pin selects 48 MHz. A cold start, which
  also resets the port, leaves the two in agreement.
\<close>

lemma soc_hot_reset_p07:
  "pport (s_portctrl (dev m)) 1 AND 0x80 = 0 \<Longrightarrow>
    p07_slow (s_clk (dev (soc_reset False m))) \<and> pport (s_portctrl (dev (soc_reset False m))) 1 AND 0x80 = 0"
  by (simp add: soc_reset_def soc_reset_core_def clk_reset_def Let_def)

lemma soc_cold_reset_p07:
  "p07_slow (s_clk (dev (soc_reset True m))) \<and> pport (s_portctrl (dev (soc_reset True m))) 1 AND 0x80 \<noteq> 0"
  by (simp add: soc_reset_def soc_reset_core_def clk_reset_def portctrl_reset_def portctrl_init_def bcu_reset_def
      case_prod_beta Let_def)

section \<open>A pending key interrupt\<close>

text \<open>KEY0 flagged and enabled at level 5, and a machine that has it pending.\<close>

definition intc_key :: intc where
  "intc_key = \<lparr> regs = (\<lambda>_. 0)(2 := 5, 16 := 0x10, 32 := 0x10), level_override = (\<lambda>_. - 1), current_il = 0, poll_dirty = True \<rparr>"

lemma intc_key_offer: "snd (intc_poll intc_key) = Some (20, 5)"
  by code_simp

definition key_machine :: "bool \<Rightarrow> soc machine" where
  "key_machine enabled = \<lparr> cpu = cpu_init\<lparr>sp := 0x100020, psr := (if enabled then 0x10 else 0)\<rparr>, bus = bus_create 64 64,
     dev = soc_init\<lparr>s_intc := intc_key\<rparr>, diag_log = [], breakpoints = {}, strict = False \<rparr>"

lemma key_machine_psr: "psr_ie (psr (cpu (key_machine e))) = e" "psr_il (psr (cpu (key_machine e))) = 0"
  by (simp_all add: key_machine_def psr_ie_def psr_il_def bit_numeral_simps)

lemma key_machine_il: "set_current_il 0 (s_intc (dev (key_machine e))) = intc_key"
  by (simp add: key_machine_def set_current_il_def intc_key_def Let_def)

lemma soc_poll_interrupts_witness:
  "\<exists>vec. trap_entered (key_machine True) 20 5 vec (soc_poll no_wiring (soc_sync_il (key_machine True)))"
proof -
  let ?m = "key_machine True"
  obtain i where i: "intc_poll intc_key = (i, Some (20, 5))" using intc_key_offer by (metis prod.collapse)
  define m0 where "m0 = on_dev (\<lambda>d. d\<lparr>s_intc := i\<rparr>) ?m"
  have m0: "cpu m0 = cpu ?m" "bus m0 = bus ?m" by (simp_all add: m0_def on_dev_def)
  have addr: "ttbr (cpu ?m) + word_of_int (20 * 4) = 0x450" by (simp add: key_machine_def cpu_init_def)
  have "classify (bus m0) 0x450 = IRAM" "a28 0x450 = 0x450" by (simp_all add: classify_def a28_def)
  then have rd: "read32 no_wiring 0x450 m0 = (le32 (iram (bus m0)) (unat (0x450 AND 0x1FFF :: u32)), m0)"
    by (simp add: read32_def Let_def)
  have w: "word_at m0 (sp (cpu ?m) - 4)" "word_at m0 (sp (cpu ?m) - 8)"
    by (simp_all add: word_at_def in_sram_def m0 key_machine_def bus_create_def)
  show ?thesis
    using soc_poll_interrupts [of ?m i 20 5 m0 no_wiring, OF _ _ _ m0_def, unfolded addr, OF _ _ _ rd m0(1) w]
      i key_machine_psr [of True] key_machine_il [of True]
    by (auto simp: trap_deferred_def key_machine_def cpu_init_def)
qed

lemma soc_masked_poll_forgets_witness:
  "cpu (soc_poll no_wiring (soc_sync_il ((soc_poll no_wiring (soc_sync_il (key_machine False)))\<lparr>cpu := cpu (key_machine True)\<rparr>)))
     = cpu (key_machine True) \<and> isr_set (src_index KEY0) (s_intc (dev (soc_poll no_wiring (soc_sync_il (key_machine False)))))"
proof -
  let ?m1 = "soc_poll no_wiring (soc_sync_il (key_machine False))"
  let ?m2 = "?m1\<lparr>cpu := cpu (key_machine True)\<rparr>"
  have "\<not> psr_ie (psr (cpu (key_machine False)))" by (simp add: key_machine_psr)
  note f = soc_masked_poll_forgets [OF this refl, of ?m2 no_wiring, simplified key_machine_psr]
  have "isr_set (src_index KEY0) intc_key" by code_simp
  then have "isr_set (src_index KEY0) (s_intc (dev (key_machine False)))" by (simp add: key_machine_def)
  then show ?thesis using f by (simp add: isr_set_def key_machine_psr)
qed

end
