(* ===== verification/Runner.thy ===== *)
theory Runner
  imports SocPaths
begin

text \<open>
  The loop that drives the emulation, \<^verbatim>\<open>src/system/cpu_runner.{hpp,cpp}\<close>: deadlines, bursts of
  instructions, ticking and polling, the jump of a halted CPU, pacing, the reset handshake and the
  debugger's run commands. Loops that need not end have fuel and return an option.
\<close>

section \<open>The runner's surroundings\<close>

definition EVENT_INTERVAL :: u64 where "EVENT_INTERVAL = 10000"
definition MIN_TICK_BURST :: u64 where "MIN_TICK_BURST = 2000"
definition PIECE_BCLK_HZ :: u32 where "PIECE_BCLK_HZ = 24000000"

text \<open>
  What the runner sees of the host. A look at the wall clock, the buttons, the quit flag, the reset
  request or the debugger is numbered; the \<open>k\<close>-th look finds the value at \<open>k\<close>. The local time the
  clock timer reads is given by the cycle counter. \<open>gdb_cmd_at\<close> is a pending run command, with
  whether it is a single step.
\<close>

record host =
  ns_at :: "nat \<Rightarrow> u64"
  buttons_at :: "nat \<Rightarrow> u16"
  quit_at :: "nat \<Rightarrow> bool"
  reset_at :: "nat \<Rightarrow> nat"
  gdb_client_at :: "nat \<Rightarrow> bool"
  gdb_cmd_at :: "nat \<Rightarrow> bool option"
  gdb_breaks :: "u32 set"
  tm_at :: "u64 \<Rightarrow> host_tm"
  audio_open :: bool
  push_hook :: bool

record config =
  cfg_trace :: bool
  cfg_breaks :: "u32 set"
  cfg_max :: u64

abbreviation run_of :: "soc machine \<Rightarrow> front" where "run_of m \<equiv> front (dev m)"
abbreviation total :: "soc machine \<Rightarrow> u64" where "total m \<equiv> total_cycles (run_of m)"

definition on_front :: "(front \<Rightarrow> front) \<Rightarrow> soc machine \<Rightarrow> soc machine" where
  "on_front f = on_dev (\<lambda>d. d\<lparr>front := f (front d)\<rparr>)"

definition looked :: "soc machine \<Rightarrow> soc machine" where
  "looked = on_front (\<lambda>f. f\<lparr>host_reads := host_reads f + 1\<rparr>)"

section \<open>Deadlines\<close>

definition clamp :: "u64 \<Rightarrow> u64 \<Rightarrow> u64 \<Rightarrow> u64" where
  "clamp v lo hi = (if v < lo then lo else if hi < v then hi else v)"

definition wake_deadline :: "u64 \<Rightarrow> u64 \<Rightarrow> u64" where
  "wake_deadline now w =
    (if w = UINT64_MAX then now + EVENT_INTERVAL else clamp w (now + MIN_TICK_BURST) (now + EVENT_INTERVAL))"

definition next_wake :: "soc machine \<Rightarrow> u64 \<times> soc machine" where
  "next_wake m = (case soc_next_wake (dev m) of (w, d) \<Rightarrow> (w, m\<lparr>dev := d\<rparr>))"

definition update_timer_wake :: "soc machine \<Rightarrow> soc machine" where
  "update_timer_wake m =
    (case next_wake m of (w, m1) \<Rightarrow> on_front (\<lambda>f. f\<lparr>next_timer_wake := wake_deadline (total_cycles f) w\<rparr>) m1)"

definition pace_anchor :: "host \<Rightarrow> front \<Rightarrow> front" where
  "pace_anchor h f = f\<lparr>pace_last_cycle := total_cycles f, pace_last_ns := ns_at h (host_reads f), host_reads := host_reads f + 1\<rparr>"

text \<open>The callback of the clock controller.\<close>

definition on_clock_change :: "host \<Rightarrow> u32 \<Rightarrow> soc machine \<Rightarrow> soc machine" where
  "on_clock_change h new_hz m =
    (let m1 = on_front (\<lambda>f. (pace_anchor h f)\<lparr>next_render := total_cycles f + ucast (new_hz div 60)\<rparr>) m
     in update_timer_wake (m1\<lparr>bus := set_bus_clock_div (sint (new_hz div PIECE_BCLK_HZ)) (bus m1)\<rparr>))"

definition run_env :: "host \<Rightarrow> (u32 \<Rightarrow> soc machine \<Rightarrow> soc machine) \<Rightarrow> soc machine \<Rightarrow> soc_env" where
  "run_env h cb m = \<lparr> env_tm = tm_at h (total m), env_now = total m, env_clock_change = cb,
     env_frame_done = (\<lambda>m. m), env_ch1_done = (\<lambda>m. m), env_push_hook = push_hook h \<rparr>"

definition run_wiring :: "host \<Rightarrow> nat \<Rightarrow> soc machine \<Rightarrow> soc wiring" where
  "run_wiring h n m = soc_wiring (run_env h (on_clock_change h) m) n"

definition do_tick :: "host \<Rightarrow> nat \<Rightarrow> soc machine \<Rightarrow> soc machine" where
  "do_tick h n m =
    (let m1 = soc_tick (run_env h (on_clock_change h) m) (run_wiring h n m) (total m) m
     in update_timer_wake (soc_poll (run_wiring h n m) (soc_sync_il m1)))"

definition set_keys :: "host \<Rightarrow> nat \<Rightarrow> u16 \<Rightarrow> soc machine \<Rightarrow> soc machine" where
  "set_keys h n v m = soc_set_keys (run_wiring h n m) (ucast (drop_bit 8 v)) (ucast v) m"

definition poll_buttons :: "host \<Rightarrow> nat \<Rightarrow> soc machine \<Rightarrow> soc machine" where
  "poll_buttons h n m =
    (let m1 = set_keys h n (buttons_at h (host_reads (run_of m))) (looked m)
     in on_front (\<lambda>f. f\<lparr>quit := quit_at h (host_reads f), host_reads := host_reads f + 1\<rparr>) m1)"

definition rearm_poll :: "front \<Rightarrow> front" where
  "rearm_poll f = f\<lparr>next_event_poll := total_cycles f + EVENT_INTERVAL\<rparr>"

definition rearm_render :: "soc machine \<Rightarrow> soc machine" where
  "rearm_render m = on_front (\<lambda>f. f\<lparr>next_render := total_cycles f + ucast (cpu_clock_hz (s_clk (dev m)) div 60)\<rparr>) m"

text \<open>The start of \<open>run\<close>; the clock callback is set after it.\<close>

definition runner_start :: "host \<Rightarrow> nat \<Rightarrow> soc machine \<Rightarrow> soc machine" where
  "runner_start h n m =
    (let m1 = soc_set_keys (soc_wiring (run_env h (\<lambda>_ m. m) m) n) 0xFF 0xFF m;
         m2 = on_front (\<lambda>f. pace_anchor h (rearm_poll (f\<lparr>quit := False, next_timer_wake := 0\<rparr>))) (rearm_render m1)
     in update_timer_wake m2)"

section \<open>Bursts of instructions\<close>

definition count_step :: "host \<Rightarrow> nat \<Rightarrow> soc machine \<Rightarrow> soc machine" where
  "count_step h n m =
    (case step (run_wiring h n m) m of (k, m1) \<Rightarrow>
       on_front (\<lambda>f. f\<lparr>total_cycles := total_cycles f + word_of_int k\<rparr>) m1)"

definition bursting :: "u64 \<Rightarrow> soc machine \<Rightarrow> bool" where
  "bursting stop m \<longleftrightarrow> \<not> in_halt (cpu m) \<and> \<not> fault (cpu m) \<and> total m < stop"

primrec fast_burst :: "nat \<Rightarrow> host \<Rightarrow> nat \<Rightarrow> u64 \<Rightarrow> soc machine \<Rightarrow> soc machine option" where
  "fast_burst 0 h n stop m = (if bursting stop m then None else Some m)"
| "fast_burst (Suc k) h n stop m =
     (if bursting stop m then fast_burst k h n stop (count_step h n m) else Some m)"

text \<open>What precedes an instruction outside the fast path: the trace line and the program counter.\<close>

definition announce :: "config \<Rightarrow> soc machine \<Rightarrow> soc machine" where
  "announce c m =
    (let m1 = (if cfg_trace c then disasm_fetch (pc (cpu m)) m else m)
     in m1\<lparr>bus := (bus m1)\<lparr>debug_pc := pc (cpu m1)\<rparr>\<rparr>)"

primrec slow_burst :: "nat \<Rightarrow> config \<Rightarrow> host \<Rightarrow> nat \<Rightarrow> u64 \<Rightarrow> soc machine \<Rightarrow> soc machine option" where
  "slow_burst 0 c h n stop m = (if bursting stop m then None else Some m)"
| "slow_burst (Suc k) c h n stop m =
     (if bursting stop m
      then let m1 = count_step h n (announce c m)
           in if cfg_max c \<noteq> 0 \<and> total m1 \<ge> cfg_max c then Some (on_front (\<lambda>f. f\<lparr>quit := True\<rparr>) m1)
              else slow_burst k c h n stop m1
      else Some m)"

definition fast_path :: "config \<Rightarrow> soc machine \<Rightarrow> bool" where
  "fast_path c m \<longleftrightarrow> \<not> cfg_trace c \<and> cfg_breaks c = {} \<and> cfg_max c = 0 \<and> watchpoints (bus m) = []"

section \<open>One frame\<close>

definition burst_stop :: "front \<Rightarrow> u64" where
  "burst_stop f = min (min (next_timer_wake f) (next_event_poll f)) (next_render f)"

definition event_poll :: "host \<Rightarrow> nat \<Rightarrow> soc machine \<Rightarrow> soc machine" where
  "event_poll h n m =
    (if total m \<ge> next_event_poll (run_of m) then on_front rearm_poll (poll_buttons h n m) else m)"

definition after_burst :: "host \<Rightarrow> nat \<Rightarrow> soc machine \<Rightarrow> soc machine" where
  "after_burst h n m =
    event_poll h n (if total m \<ge> next_timer_wake (run_of m) then do_tick h n m else m)"

definition halted :: "soc machine \<Rightarrow> bool" where "halted m \<longleftrightarrow> fault (cpu m) \<or> quit (run_of m)"

definition inner_pass :: "nat \<Rightarrow> bool \<Rightarrow> config \<Rightarrow> host \<Rightarrow> nat \<Rightarrow> soc machine \<Rightarrow> soc machine option" where
  "inner_pass k fast c h n m =
    (case (if fast then fast_burst k h n (burst_stop (run_of m)) m
           else slow_burst k c h n (burst_stop (run_of m)) m) of
       None \<Rightarrow> None
     | Some m1 \<Rightarrow> Some (if halted m1 then m1 else after_burst h n m1))"

definition in_frame :: "soc machine \<Rightarrow> bool" where
  "in_frame m \<longleftrightarrow> \<not> in_halt (cpu m) \<and> \<not> halted m \<and> total m < next_render (run_of m)"

primrec inner_loop :: "nat \<Rightarrow> nat \<Rightarrow> bool \<Rightarrow> config \<Rightarrow> host \<Rightarrow> nat \<Rightarrow> soc machine \<Rightarrow> soc machine option" where
  "inner_loop 0 k fast c h n m = (if in_frame m then None else Some m)"
| "inner_loop (Suc p) k fast c h n m =
     (if in_frame m
      then case inner_pass k fast c h n m of None \<Rightarrow> None | Some m1 \<Rightarrow> inner_loop p k fast c h n m1
      else Some m)"

text \<open>
  A halted CPU: the counter jumps to the next event. The flag says that the loop ends, with the
  message about a deadlock.
\<close>

definition halt_wake :: "soc machine \<Rightarrow> u64 \<times> soc machine" where
  "halt_wake m = (if halt_mode (cpu m) = Slp then (soc_sleep_wake (dev m), m) else next_wake m)"

definition halt_jump :: "host \<Rightarrow> nat \<Rightarrow> soc machine \<Rightarrow> bool \<times> soc machine" where
  "halt_jump h n m =
    (if \<not> in_halt (cpu m) then (False, m)
     else case halt_wake m of (wake, m1) \<Rightarrow>
       if wake = UINT64_MAX \<and> halt_mode (cpu m) \<noteq> Slp then (True, m1)
       else let m2 = on_front (\<lambda>f. f\<lparr>total_cycles := min (min wake (next_render f)) (next_event_poll f)\<rparr>) m1
            in (False, event_poll h n (do_tick h n m2)))"

section \<open>Pacing\<close>

definition TARGET_FILL :: u64 where "TARGET_FILL = 1600"
definition MAX_SLEEP_NS :: u64 where "MAX_SLEEP_NS = 20000000"
definition NS_PER_SAMPLE :: u64 where "NS_PER_SAMPLE = 1000000000 div SAMPLE_RATE"

definition audio_producing :: "host \<Rightarrow> soc machine \<Rightarrow> bool" where
  "audio_producing h m \<longleftrightarrow> audio_open h \<and> last_push_cycle (s_sound (dev m)) \<noteq> 0 \<and>
     total m - last_push_cycle (s_sound (dev m)) < ucast (cpu_clock_hz (s_clk (dev m))) div 10"

definition audio_sleep :: "u64 \<Rightarrow> u64" where
  "audio_sleep avail =
    (if avail > TARGET_FILL then
       let s = (avail - TARGET_FILL) * NS_PER_SAMPLE in if s > MAX_SLEEP_NS then MAX_SLEEP_NS else s
     else 0)"

definition wall_sleep :: "u64 \<Rightarrow> u32 \<Rightarrow> front \<Rightarrow> u64" where
  "wall_sleep now_ns hz f =
    (let expected = (total_cycles f - pace_last_cycle f) * 1000000000 div ucast hz; wall = now_ns - pace_last_ns f
     in if wall < expected then expected - wall else 0)"

text \<open>The nanoseconds slept, and the machine.\<close>

definition sync_realtime :: "host \<Rightarrow> soc machine \<Rightarrow> u64 \<times> soc machine" where
  "sync_realtime h m =
    (if audio_producing h m then (audio_sleep (available (s_sound (dev m))), on_front (pace_anchor h) m)
     else (wall_sleep (ns_at h (host_reads (run_of m))) (cpu_clock_hz (s_clk (dev m))) (run_of m),
           on_front (pace_anchor h) (looked m)))"

definition frame_end :: "host \<Rightarrow> soc machine \<Rightarrow> soc machine" where
  "frame_end h m =
    (if total m \<ge> next_render (run_of m)
     then let m1 = snd (sync_realtime h m)
          in on_front (\<lambda>f. f\<lparr>next_render := next_render f + ucast (cpu_clock_hz (s_clk (dev m1)) div 60)\<rparr>) m1
     else m)"

section \<open>Reset and debugger\<close>

definition reset_handshake :: "host \<Rightarrow> nat \<Rightarrow> bool \<Rightarrow> soc machine \<Rightarrow> soc machine" where
  "reset_handshake h n cold m =
    (let m1 = soc_reset cold m;
         m2 = cpu_reset (run_wiring h n m1) m1;
         m3 = set_keys h n 0xFFFF m2;
         m4 = set_keys h n (buttons_at h (host_reads (run_of m3))) (looked m3);
         m5 = on_front rearm_poll (rearm_render (on_front (pace_anchor h) m4))
     in soc_sync_il (update_timer_wake m5))"

primrec gdb_continue :: "nat \<Rightarrow> config \<Rightarrow> host \<Rightarrow> nat \<Rightarrow> soc machine \<Rightarrow> soc machine option" where
  "gdb_continue 0 c h n m = (if \<not> in_halt (cpu m) \<and> \<not> fault (cpu m) then None else Some m)"
| "gdb_continue (Suc k) c h n m =
     (if \<not> in_halt (cpu m) \<and> \<not> fault (cpu m) then
        let m1 = announce c m
        in if pc (cpu m1) \<in> cfg_breaks c then Some m1
           else let m2 = count_step h n m1;
                    m3 = (if total m2 \<ge> next_timer_wake (run_of m2) then do_tick h n m2 else m2)
                in if \<not> in_halt (cpu m3) \<and> pc (cpu m3) \<in> gdb_breaks h then Some m3
                   else let m4 = event_poll h n m3
                        in if total m3 \<ge> next_event_poll (run_of m3) \<and> quit (run_of m4)
                           then Some (on_cpu (\<lambda>c. c\<lparr>in_halt := True\<rparr>) m4)
                           else gdb_continue k c h n m4
      else Some m)"

definition gdb_halt :: "host \<Rightarrow> nat \<Rightarrow> soc machine \<Rightarrow> soc machine" where
  "gdb_halt h n m =
    (if in_halt (cpu m) \<and> \<not> fault (cpu m) then
       case halt_wake m of (wake, m1) \<Rightarrow>
         if wake \<noteq> UINT64_MAX then do_tick h n (on_front (\<lambda>f. f\<lparr>total_cycles := wake\<rparr>) m1) else m1
     else m)"

definition gdb_pass :: "nat \<Rightarrow> config \<Rightarrow> host \<Rightarrow> nat \<Rightarrow> soc machine \<Rightarrow> soc machine option" where
  "gdb_pass k c h n m =
    (case gdb_cmd_at h (host_reads (run_of m)) of
       None \<Rightarrow> Some (on_front (pace_anchor h) (poll_buttons h n (looked m)))
     | Some single \<Rightarrow>
         if single then Some (do_tick h n (count_step h n (announce c (looked m))))
         else map_option (gdb_halt h n) (gdb_continue k c h n (looked m)))"

section \<open>The loop\<close>

text \<open>One pass of the outer loop: whether the loop ends, with the machine; \<open>None\<close> when the fuel is used up.\<close>

definition outer_pass :: "nat \<Rightarrow> nat \<Rightarrow> config \<Rightarrow> host \<Rightarrow> nat \<Rightarrow> soc machine \<Rightarrow> (bool \<times> soc machine) option" where
  "outer_pass p k c h n m0 =
    (let req = reset_at h (host_reads (run_of m0)); m = looked m0
     in if req \<noteq> 0 then Some (False, reset_handshake h n (req = 2) m)
        else let client = gdb_client_at h (host_reads (run_of m)); m1 = looked m
        in if client then map_option (Pair False) (gdb_pass k c h n m1)
        else case inner_loop p k (fast_path c m1) c h n m1 of
            None \<Rightarrow> None
          | Some m2 \<Rightarrow>
              if halted m2 then Some (True, m2)
              else case halt_jump h n m2 of (stop, m3) \<Rightarrow>
                if stop then Some (True, m3) else Some (False, frame_end h m3))"

primrec runner_loop :: "nat \<Rightarrow> nat \<Rightarrow> nat \<Rightarrow> config \<Rightarrow> host \<Rightarrow> nat \<Rightarrow> soc machine \<Rightarrow> soc machine option" where
  "runner_loop 0 p k c h n m = (if halted m then Some m else None)"
| "runner_loop (Suc r) p k c h n m =
     (if halted m then Some m
      else case outer_pass p k c h n m of
          None \<Rightarrow> None
        | Some (stop, m1) \<Rightarrow> if stop then Some m1 else runner_loop r p k c h n m1)"

definition runner_run :: "nat \<Rightarrow> nat \<Rightarrow> nat \<Rightarrow> config \<Rightarrow> host \<Rightarrow> nat \<Rightarrow> soc machine \<Rightarrow> soc machine option" where
  "runner_run r p k c h n m = runner_loop r p k c h n (runner_start h n m)"

end
