(* ===== verification/RunnerLoop.thy ===== *)
theory RunnerLoop
  imports Runner
begin

text \<open>
  What the loop of the runner guarantees: deadlines stay ahead of the cycle counter, a burst ends,
  every machine it stops with is one the system can reach, and a reset starts the machine again;
  and how the jump of a halted CPU turns the counter back.
\<close>

section \<open>What the devices leave of the runner's variables\<close>

lemma on_front_simps [simp]:
  "cpu (on_front f m) = cpu m" "bus (on_front f m) = bus m" "breakpoints (on_front f m) = breakpoints m"
  "dev (on_front f m) = (dev m)\<lparr>front := f (front (dev m))\<rparr>"
  by (simp_all add: on_front_def on_dev_def)

lemma looked_simps [simp]:
  "cpu (looked m) = cpu m" "bus (looked m) = bus m" "breakpoints (looked m) = breakpoints m"
  "dev (looked m) = (dev m)\<lparr>front := (run_of m)\<lparr>host_reads := host_reads (run_of m) + 1\<rparr>\<rparr>"
  by (simp_all add: looked_def)

lemma wake_deadline_window:
  assumes "unat now + 10000 < 2 ^ 64"
  shows "unat now + 2000 \<le> unat (wake_deadline now w)" "unat (wake_deadline now w) \<le> unat now + 10000"
proof -
  have e: "unat (now + EVENT_INTERVAL) = unat now + 10000" "unat (now + MIN_TICK_BURST) = unat now + 2000"
    using assms by (simp_all add: EVENT_INTERVAL_def MIN_TICK_BURST_def u64_add)
  then show "unat now + 2000 \<le> unat (wake_deadline now w)" "unat (wake_deadline now w) \<le> unat now + 10000"
    by (auto simp: wake_deadline_def clamp_def word_less_nat_alt not_less split: if_splits)
qed

text \<open>
  A step of the devices, whatever callbacks it makes, keeps the counter, the poll deadline and the
  quit flag, and moves the tick deadline at most into its window.
\<close>

definition kept :: "front \<Rightarrow> front \<Rightarrow> bool" where
  "kept f0 f \<longleftrightarrow> total_cycles f = total_cycles f0 \<and> next_event_poll f = next_event_poll f0 \<and> quit f = quit f0 \<and>
     (next_timer_wake f = next_timer_wake f0 \<or> (\<exists>w. next_timer_wake f = wake_deadline (total_cycles f0) w))"

lemma kept_refl [simp]: "kept f f" by (simp add: kept_def)

lemma next_wake_wf: "soc_wf (dev m) \<Longrightarrow> soc_wf (dev (snd (next_wake m)))"
  using wf_plain(4) [of "dev m"] by (simp add: next_wake_def case_prod_beta)

lemma next_wake_front [simp]: "run_of (snd (next_wake m)) = run_of m"
  "cpu (snd (next_wake m)) = cpu m" "bus (snd (next_wake m)) = bus m" "breakpoints (snd (next_wake m)) = breakpoints m"
proof -
  have "front (snd (wake_t8 i acc)) = front d" if "front (snd acc) = front d" for i acc and d :: soc
    using that by (simp add: wake_t8_def case_prod_beta)
  then have "front (snd (fold wake_t8 is (x, d))) = front d" for "is" x and d :: soc
    using fold_keeps [where P = "\<lambda>a. front (snd a) = front d" and f = wake_t8] by simp
  then show "run_of (snd (next_wake m)) = run_of m"
    by (simp add: next_wake_def case_prod_beta soc_next_wake_def Let_def)
qed (simp_all add: next_wake_def case_prod_beta)

lemma update_timer_wake_simps [simp]:
  "cpu (update_timer_wake m) = cpu m" "bus (update_timer_wake m) = bus m" "breakpoints (update_timer_wake m) = breakpoints m"
  "run_of (update_timer_wake m) =
     (run_of m)\<lparr>next_timer_wake := wake_deadline (total m) (fst (next_wake m))\<rparr>"
  by (simp_all add: update_timer_wake_def case_prod_beta)

lemma update_timer_wake_wf: "soc_wf (dev m) \<Longrightarrow> soc_wf (dev (update_timer_wake m))"
  using next_wake_wf [of m] by (simp add: update_timer_wake_def case_prod_beta)

lemma clock_change_wf: "soc_wf (dev m) \<Longrightarrow> soc_wf (dev (on_clock_change h hz m))"
  unfolding on_clock_change_def Let_def by (rule update_timer_wake_wf) simp

lemma clock_change_kept:
  "soc_inv (kept f0) (dev m) \<Longrightarrow> soc_inv (kept f0) (dev (on_clock_change h hz m))"
  using clock_change_wf [of m h hz]
  by (auto simp: soc_inv_def on_clock_change_def Let_def kept_def pace_anchor_def)

lemma run_env_keeps:
  "env_keeps soc_wf (run_env h (on_clock_change h) m)"
  "env_keeps (soc_inv (kept f0)) (run_env h (on_clock_change h) m)"
  "env_keeps P (run_env h (\<lambda>_ m. m) m)"
  by (simp_all add: env_keeps_def run_env_def clock_change_wf clock_change_kept)

interpretation running: device_invariant "run_wiring h n m" soc_wf for h n m
  unfolding run_wiring_def by (rule wf_plain(1) [OF run_env_keeps(1)])

interpretation running_kept: device_invariant "run_wiring h n m" "soc_inv (kept f0)" for h n m f0
  unfolding run_wiring_def by (rule soc_wiring_wf [OF run_env_keeps(2)])

lemma kept_here: "soc_wf (dev m) \<Longrightarrow> soc_inv (kept (run_of m)) (dev m)"
  by (simp add: soc_inv_def)

lemma soc_inv_split: "soc_inv Q d \<longleftrightarrow> soc_wf d \<and> Q (front d)" by (rule soc_inv_def)

lemma sync_il_inv: "soc_inv Q (dev m) \<Longrightarrow> soc_inv Q (dev (soc_sync_il m))"
  using set_il_overrides [of "s_intc (dev m)" "psr_il (psr (cpu m))"] soc_invD [of Q "dev m"]
  by (auto simp: soc_sync_il_def)

text \<open>The operations of the runner that only the devices take part in.\<close>

lemma do_tick_kept:
  assumes "soc_wf (dev m)"
  shows "soc_wf (dev (do_tick h n m))" "total_cycles (run_of (do_tick h n m)) = total m"
    "next_event_poll (run_of (do_tick h n m)) = next_event_poll (run_of m)"
    "quit (run_of (do_tick h n m)) = quit (run_of m)"
    "\<exists>w. next_timer_wake (run_of (do_tick h n m)) = wake_deadline (total m) w"
proof -
  define x where "x = soc_poll (run_wiring h n m) (soc_sync_il (soc_tick (run_env h (on_clock_change h) m) (run_wiring h n m) (total m) m))"
  have "soc_inv (kept (run_of m)) (dev x)"
    unfolding x_def using kept_here [OF assms]
    by (intro wf_poll sync_il_inv wf_tick run_env_keeps running_kept.device_invariant_axioms)
  then have x: "soc_wf (dev x)" "kept (run_of m) (run_of x)" by (simp_all add: soc_inv_def)
  have e: "do_tick h n m = update_timer_wake x" by (simp add: do_tick_def x_def Let_def)
  show "soc_wf (dev (do_tick h n m))" unfolding e by (rule update_timer_wake_wf [OF x(1)])
  show "total_cycles (run_of (do_tick h n m)) = total m" "next_event_poll (run_of (do_tick h n m)) = next_event_poll (run_of m)"
    "quit (run_of (do_tick h n m)) = quit (run_of m)"
    "\<exists>w. next_timer_wake (run_of (do_tick h n m)) = wake_deadline (total m) w"
    using x(2) by (auto simp: e kept_def)
qed

lemma set_keys_kept:
  assumes "soc_wf (dev m)"
  shows "soc_wf (dev (set_keys h n v m))" "kept (run_of m) (run_of (set_keys h n v m))"
proof -
  have "soc_inv (kept (run_of m)) (dev (set_keys h n v m))"
    unfolding set_keys_def by (intro wf_set_keys running_kept.device_invariant_axioms kept_here assms)
  then show "soc_wf (dev (set_keys h n v m))" "kept (run_of m) (run_of (set_keys h n v m))"
    by (simp_all add: soc_inv_def)
qed

lemma poll_buttons_kept:
  assumes "soc_wf (dev m)"
  shows "soc_wf (dev (poll_buttons h n m))" "total_cycles (run_of (poll_buttons h n m)) = total m"
    "next_event_poll (run_of (poll_buttons h n m)) = next_event_poll (run_of m)"
    "next_timer_wake (run_of (poll_buttons h n m)) = next_timer_wake (run_of m) \<or>
      (\<exists>w. next_timer_wake (run_of (poll_buttons h n m)) = wake_deadline (total m) w)"
proof -
  have wf: "soc_wf (dev (looked m))" using assms by simp
  note k = set_keys_kept [OF wf, of h n "buttons_at h (host_reads (run_of m))"]
  show "soc_wf (dev (poll_buttons h n m))" using k(1) by (simp add: poll_buttons_def)
  show "total_cycles (run_of (poll_buttons h n m)) = total m"
    "next_event_poll (run_of (poll_buttons h n m)) = next_event_poll (run_of m)"
    "next_timer_wake (run_of (poll_buttons h n m)) = next_timer_wake (run_of m) \<or>
      (\<exists>w. next_timer_wake (run_of (poll_buttons h n m)) = wake_deadline (total m) w)"
    using k(2) by (auto simp: poll_buttons_def kept_def)
qed

lemma event_poll_kept:
  assumes "soc_wf (dev m)"
  shows "soc_wf (dev (event_poll h n m))" "total_cycles (run_of (event_poll h n m)) = total m"
    "next_event_poll (run_of (event_poll h n m)) =
      (if total m \<ge> next_event_poll (run_of m) then total m + EVENT_INTERVAL else next_event_poll (run_of m))"
    "next_timer_wake (run_of (event_poll h n m)) = next_timer_wake (run_of m) \<or>
      (\<exists>w. next_timer_wake (run_of (event_poll h n m)) = wake_deadline (total m) w)"
  using poll_buttons_kept [OF assms, of h n] assms by (auto simp: event_poll_def rearm_poll_def)

section \<open>No deadline stays behind\<close>

text \<open>
  C13: After the ticking and polling that follows a burst, with well-formed devices and a 64-bit counter that is not within
  10,000 of its end, both deadlines lie ahead of the cycle counter, which has not moved. The next look at the buttons is due exactly 10,000 cycles ahead when it was due,
  otherwise where it was. The next tick, when one was due, is at least 2,000 and at most 10,000 cycles ahead; when none
  was due it is where it was or, as a look at the buttons can start a handler that changes the clock, in that same
  window. When neither was due the machine is left alone.
\<close>
theorem runner_deadlines_ahead:
  assumes "soc_wf (dev m)" "unat (total m) + 10000 < 2 ^ 64" "m' = after_burst h n m"
  shows "total m' = total m \<and> total m < next_timer_wake (run_of m') \<and> total m < next_event_poll (run_of m') \<and>
    unat (next_event_poll (run_of m')) =
      (if total m \<ge> next_event_poll (run_of m) then unat (total m) + 10000 else unat (next_event_poll (run_of m))) \<and>
    (next_timer_wake (run_of m') = next_timer_wake (run_of m) \<and> total m < next_timer_wake (run_of m) \<or>
      unat (total m) + 2000 \<le> unat (next_timer_wake (run_of m')) \<and>
      unat (next_timer_wake (run_of m')) \<le> unat (total m) + 10000) \<and>
    (total m < next_timer_wake (run_of m) \<and> total m < next_event_poll (run_of m) \<longrightarrow> m' = m)"
proof -
  define x where "x = (if total m \<ge> next_timer_wake (run_of m) then do_tick h n m else m)"
  have m': "m' = event_poll h n x" unfolding assms(3) after_burst_def x_def ..
  have x: "soc_wf (dev x)" "total x = total m" "next_event_poll (run_of x) = next_event_poll (run_of m)"
    and wake: "total m < next_timer_wake (run_of m) \<and> next_timer_wake (run_of x) = next_timer_wake (run_of m) \<or>
      (\<exists>w. next_timer_wake (run_of x) = wake_deadline (total m) w)"
    using do_tick_kept [OF assms(1), of h n] assms(1) by (auto simp: x_def not_le)
  note e = event_poll_kept [OF x(1), of h n, unfolded x(2,3), folded m']
  have room: "unat (total m + EVENT_INTERVAL) = unat (total m) + 10000"
    using assms(2) by (simp add: EVENT_INTERVAL_def u64_add)
  note win = wake_deadline_window [OF assms(2)]
  have ahead: "total m < wake_deadline (total m) w" for w
    using win(1) [of w] by (simp add: word_less_nat_alt)
  have "total m < next_timer_wake (run_of m') \<and> (next_timer_wake (run_of m') = next_timer_wake (run_of m) \<and> total m < next_timer_wake (run_of m) \<or>
      unat (total m) + 2000 \<le> unat (next_timer_wake (run_of m')) \<and> unat (next_timer_wake (run_of m')) \<le> unat (total m) + 10000)"
    using wake e(4) ahead win by (elim disjE exE; simp)
  moreover have "total m < next_event_poll (run_of m') \<and> unat (next_event_poll (run_of m')) =
      (if total m \<ge> next_event_poll (run_of m) then unat (total m) + 10000 else unat (next_event_poll (run_of m)))"
    using e(3) room by (auto simp: word_le_nat_alt word_less_nat_alt)
  moreover have "total m < next_timer_wake (run_of m) \<and> total m < next_event_poll (run_of m) \<longrightarrow> m' = m"
    by (simp add: assms(3) after_burst_def event_poll_def not_le [symmetric])
  ultimately show ?thesis using e(2) by blast
qed

section \<open>A burst ends\<close>

lemma fast_burst_runs:
  assumes "\<And>j. j < k \<Longrightarrow> bursting stop ((count_step h n ^^ j) m)" "\<not> bursting stop ((count_step h n ^^ k) m)"
    and "k \<le> fuel"
  shows "fast_burst fuel h n stop m = Some ((count_step h n ^^ k) m)"
  using assms
proof (induction k arbitrary: fuel m)
  case 0 then show ?case by (cases fuel) simp_all
next
  case (Suc k)
  obtain g where g: "fuel = Suc g" using Suc.prems(3) by (cases fuel) auto
  have "bursting stop m" using Suc.prems(1) [of 0] by simp
  moreover have "fast_burst g h n stop (count_step h n m) = Some ((count_step h n ^^ k) (count_step h n m))"
    using Suc.prems(1) [of "Suc _"] Suc.prems(2,3) g by (intro Suc.IH) (simp_all add: funpow_swap1)
  ultimately show ?case by (simp add: g funpow_swap1)
qed

text \<open>The cycles an instruction is charged: at least one, and the counter does not wrap.\<close>

definition counts_on :: "host \<Rightarrow> nat \<Rightarrow> soc machine \<Rightarrow> bool" where
  "counts_on h n m \<longleftrightarrow> 0 < fst (step (run_wiring h n m) m) \<and>
     uint (total m) + fst (step (run_wiring h n m) m) < 2 ^ 64"

lemma count_step_total:
  assumes "soc_wf (dev m)"
  shows "total (count_step h n m) = total m + word_of_int (fst (step (run_wiring h n m) m))"
    "soc_wf (dev (count_step h n m))"
proof -
  have "soc_inv (kept (run_of m)) (dev (snd (step (run_wiring h n m) m)))"
    by (rule running_kept.stays_step [OF kept_here [OF assms]])
  then show "total (count_step h n m) = total m + word_of_int (fst (step (run_wiring h n m) m))"
    "soc_wf (dev (count_step h n m))"
    by (simp_all add: soc_inv_def kept_def count_step_def case_prod_beta)
qed

lemma count_step_advances:
  assumes "soc_wf (dev m)" "counts_on h n m"
  shows "total m < total (count_step h n m)"
proof -
  have "uint (total (count_step h n m)) = uint (total m) + fst (step (run_wiring h n m) m)"
    using assms by (simp add: count_step_total counts_on_def uint_word_ariths uint_word_of_int_eq
        take_bit_eq_mod mod_simps mod_pos_pos_trivial)
  then show ?thesis using assms(2) by (simp add: word_less_def counts_on_def)
qed

text \<open>
  A burst ends. As long as every instruction of it is charged at least one cycle and the
  64-bit counter does not wrap, fuel of one instruction per cycle up to the boundary is enough: the
  loop returns the machine after some number \<open>j\<close> of instructions, and it is the first at which the
  CPU is halted, faulted, or at the boundary.
\<close>
theorem runner_burst_ends:
  assumes "soc_wf (dev m)" "N = unat stop - unat (total m)"
    and "\<forall>j<N. bursting stop ((count_step h n ^^ j) m) \<longrightarrow> counts_on h n ((count_step h n ^^ j) m)"
  shows "\<exists>j\<le>N. fast_burst N h n stop m = Some ((count_step h n ^^ j) m) \<and>
    \<not> bursting stop ((count_step h n ^^ j) m) \<and> (\<forall>i<j. bursting stop ((count_step h n ^^ i) m))"
proof -
  let ?at = "\<lambda>j. (count_step h n ^^ j) m"
  have wf: "soc_wf (dev (?at j))" for j by (induction j) (simp_all add: assms(1) count_step_total)
  have up: "unat (total m) + j \<le> unat (total (?at j))" if "j \<le> N" "\<forall>i<j. bursting stop (?at i)" for j
    using that
  proof (induction j)
    case (Suc j)
    then have "counts_on h n (?at j)" using assms(3) by simp
    then have "total (?at j) < total (?at (Suc j))" using count_step_advances [OF wf] by simp
    then show ?case using Suc by (simp add: word_less_nat_alt)
  qed simp
  have "\<exists>j\<le>N. \<not> bursting stop (?at j)"
  proof (rule ccontr)
    assume "\<not> ?thesis"
    then have all: "\<forall>i\<le>N. bursting stop (?at i)" by simp
    then have "unat (total m) + N \<le> unat (total (?at N))" using up [of N] by simp
    moreover have "total (?at N) < stop" using all by (simp add: bursting_def)
    ultimately show False using assms(2) by (simp add: word_less_nat_alt)
  qed
  then obtain j0 where j0: "j0 \<le> N" "\<not> bursting stop (?at j0)" by blast
  then obtain j where j: "\<not> bursting stop (?at j)" "\<forall>i<j. bursting stop (?at i)"
    using exists_least_iff [of "\<lambda>j. \<not> bursting stop (?at j)"] by auto
  then have "j \<le> j0" using j0(2) by (metis not_less)
  with j show ?thesis using fast_burst_runs [of j stop h n m N] j0(1) by (intro exI [of _ j]) auto
qed

section \<open>The runner takes the machine only where it can go\<close>

lemma frontend_reach: "soc_reach m \<Longrightarrow> dev m' = (dev m)\<lparr>front := f\<rparr> \<Longrightarrow> soc_reach m'"
  by (rule soc_reach.frontend)

lemma on_front_reach: "soc_reach m \<Longrightarrow> soc_reach (on_front f m)"
  by (rule frontend_reach) simp_all

lemma looked_reach: "soc_reach m \<Longrightarrow> soc_reach (looked m)"
  unfolding looked_def by (rule on_front_reach)

lemma cpu_bus_reach: "soc_reach m \<Longrightarrow> dev m' = dev m \<Longrightarrow> soc_reach m'"
  by (erule frontend_reach [where f = "front (dev m)"]) (cases "dev m", simp)

lemma next_wake_reach: "soc_reach m \<Longrightarrow> soc_reach (snd (next_wake m))"
  by (drule soc_reach.wake) (erule cpu_bus_reach, simp add: next_wake_def case_prod_beta on_dev_def)

lemma update_timer_wake_reach: "soc_reach m \<Longrightarrow> soc_reach (update_timer_wake m)"
  unfolding update_timer_wake_def case_prod_beta by (intro on_front_reach next_wake_reach)

lemma do_tick_reach: "soc_reach m \<Longrightarrow> soc_reach (do_tick h n m)"
  unfolding do_tick_def Let_def run_wiring_def
  by (intro update_timer_wake_reach soc_reach.poll soc_reach.level soc_reach.tick run_env_keeps)

lemma set_keys_reach: "soc_reach m \<Longrightarrow> soc_reach (set_keys h n v m)"
  unfolding set_keys_def run_wiring_def by (intro soc_reach.keys run_env_keeps)

lemma event_poll_reach: "soc_reach m \<Longrightarrow> soc_reach (event_poll h n m)"
  unfolding event_poll_def poll_buttons_def Let_def by (simp add: on_front_reach set_keys_reach looked_reach)

lemma count_step_reach: "soc_reach m \<Longrightarrow> soc_reach (count_step h n m)"
  unfolding count_step_def case_prod_beta run_wiring_def
  by (intro on_front_reach soc_reach.insn run_env_keeps)

lemma announce_reach: "soc_reach m \<Longrightarrow> soc_reach (announce c m)"
  by (erule cpu_bus_reach) (simp add: announce_def Let_def)

lemma burst_reach:
  "soc_reach m \<Longrightarrow> fast_burst k h n stop m = Some m' \<Longrightarrow> soc_reach m'"
  "soc_reach m \<Longrightarrow> slow_burst k c h n stop m = Some m' \<Longrightarrow> soc_reach m'"
proof -
  show "soc_reach m \<Longrightarrow> fast_burst k h n stop m = Some m' \<Longrightarrow> soc_reach m'"
    by (induction k arbitrary: m) (auto intro: count_step_reach split: if_splits)
  show "soc_reach m \<Longrightarrow> slow_burst k c h n stop m = Some m' \<Longrightarrow> soc_reach m'"
    by (induction k arbitrary: m)
      (auto simp: Let_def intro: on_front_reach count_step_reach announce_reach split: if_splits)
qed

lemma after_burst_reach: "soc_reach m \<Longrightarrow> soc_reach (after_burst h n m)"
  by (simp add: after_burst_def event_poll_reach do_tick_reach)

lemma inner_pass_reach: "soc_reach m \<Longrightarrow> inner_pass k fast c h n m = Some m' \<Longrightarrow> soc_reach m'"
  by (auto simp: inner_pass_def after_burst_reach dest: burst_reach split: option.splits if_splits)

lemma inner_loop_reach: "soc_reach m \<Longrightarrow> inner_loop p k fast c h n m = Some m' \<Longrightarrow> soc_reach m'"
  by (induction p arbitrary: m) (auto dest: inner_pass_reach split: if_splits option.splits)

lemma halt_wake_reach: "soc_reach m \<Longrightarrow> soc_reach (snd (halt_wake m))"
  by (simp add: halt_wake_def next_wake_reach)

lemma halt_jump_reach: "soc_reach m \<Longrightarrow> soc_reach (snd (halt_jump h n m))"
  using halt_wake_reach [of m]
  by (auto simp: halt_jump_def case_prod_beta Let_def intro!: event_poll_reach do_tick_reach on_front_reach)

lemma frame_end_reach: "soc_reach m \<Longrightarrow> soc_reach (frame_end h m)"
  by (auto simp: frame_end_def sync_realtime_def Let_def intro!: on_front_reach looked_reach)

lemma flash_off_io: "off_io b FLASH_BASE"
  by (simp add: off_io_def classify_def Let_def a28_def)

lemma cpu_reset_dev: "dev (cpu_reset (run_wiring h n x) m) = dev m"
  using read32_off_io(1) [of "run_wiring h n x" "m\<lparr>cpu := cpu_init\<rparr>" FLASH_BASE]
  by (simp add: cpu_reset_def case_prod_beta run_wiring_def soc_wiring_cb flash_off_io)

lemma reset_handshake_reach: "soc_reach m \<Longrightarrow> soc_reach (reset_handshake h n cold m)"
proof -
  assume "soc_reach m"
  then have "soc_reach (cpu_reset (run_wiring h n (soc_reset cold m)) (soc_reset cold m))"
    by (rule cpu_bus_reach [OF soc_reach.reset cpu_reset_dev])
  then show ?thesis
    unfolding reset_handshake_def rearm_render_def Let_def
    by (intro soc_reach.level update_timer_wake_reach on_front_reach set_keys_reach looked_reach)
qed

lemma gdb_continue_reach: "soc_reach m \<Longrightarrow> gdb_continue k c h n m = Some m' \<Longrightarrow> soc_reach m'"
proof (induction k arbitrary: m)
  case (Suc k)
  define m1 where "m1 = announce c m"
  define m2 where "m2 = count_step h n m1"
  define m3 where "m3 = (if total m2 \<ge> next_timer_wake (run_of m2) then do_tick h n m2 else m2)"
  define m4 where "m4 = event_poll h n m3"
  have r1: "soc_reach m1" unfolding m1_def by (rule announce_reach [OF Suc.prems(1)])
  then have "soc_reach m2" unfolding m2_def by (rule count_step_reach)
  then have r3: "soc_reach m3" unfolding m3_def by (simp add: do_tick_reach)
  then have r4: "soc_reach m4" unfolding m4_def by (rule event_poll_reach)
  then have r5: "soc_reach (on_cpu (\<lambda>c. c\<lparr>in_halt := True\<rparr>) m4)" by (rule cpu_bus_reach) simp
  have "gdb_continue (Suc k) c h n m =
     (if \<not> in_halt (cpu m) \<and> \<not> fault (cpu m) then
        if pc (cpu m1) \<in> cfg_breaks c then Some m1
        else if \<not> in_halt (cpu m3) \<and> pc (cpu m3) \<in> gdb_breaks h then Some m3
        else if total m3 \<ge> next_event_poll (run_of m3) \<and> quit (run_of m4)
             then Some (on_cpu (\<lambda>c. c\<lparr>in_halt := True\<rparr>) m4) else gdb_continue k c h n m4
      else Some m)"
    by (simp only: gdb_continue.simps Let_def m1_def m2_def m3_def m4_def)
  then show ?case
    using Suc.prems r1 r3 r5 Suc.IH [OF r4] by (simp split: if_splits)
qed (simp split: if_splits)

lemma gdb_halt_reach: "soc_reach m \<Longrightarrow> soc_reach (gdb_halt h n m)"
  using halt_wake_reach [of m] by (auto simp: gdb_halt_def case_prod_beta intro!: do_tick_reach on_front_reach)

lemma gdb_pass_reach:
  assumes "soc_reach m" "gdb_pass k c h n m = Some m'"
  shows "soc_reach m'"
proof -
  note r = looked_reach [OF assms(1)]
  have 1: "soc_reach (on_front (pace_anchor h) (poll_buttons h n (looked m)))"
    unfolding poll_buttons_def Let_def by (intro on_front_reach set_keys_reach looked_reach r)
  have 2: "soc_reach (do_tick h n (count_step h n (announce c (looked m))))"
    by (intro do_tick_reach count_step_reach announce_reach r)
  have 3: "gdb_continue k c h n (looked m) = Some x \<Longrightarrow> soc_reach (gdb_halt h n x)" for x
    by (intro gdb_halt_reach gdb_continue_reach [OF r])
  show ?thesis
    using assms(2) 1 2 3 by (simp add: gdb_pass_def split: option.splits if_splits) blast
qed

lemma outer_pass_cases:
  assumes "outer_pass p k c h n m0 = Some (stop, m')" "m = looked m0" "m1 = looked m"
  obtains (reset) cold where "m' = reset_handshake h n cold m"
  | (gdb) "gdb_pass k c h n m1 = Some m'"
  | (over) "inner_loop p k (fast_path c m1) c h n m1 = Some m'"
  | (jump) m2 where "inner_loop p k (fast_path c m1) c h n m1 = Some m2"
      "m' = snd (halt_jump h n m2) \<or> m' = frame_end h (snd (halt_jump h n m2))"
proof (cases "reset_at h (host_reads (run_of m0)) = 0")
  case False
  then show ?thesis
    using assms reset [of "reset_at h (host_reads (run_of m0)) = 2"] by (auto simp: outer_pass_def Let_def)
next
  case True
  note nr = this
  show ?thesis
  proof (cases "gdb_client_at h (host_reads (run_of m))")
    case c: True
    then have "map_option (Pair False) (gdb_pass k c h n m1) = Some (stop, m')"
      using assms nr unfolding outer_pass_def Let_def by (simp only: if_False if_True simp_thms)
    then show ?thesis using gdb by auto
  next
    case False
    then have e: "(case inner_loop p k (fast_path c m1) c h n m1 of
            None \<Rightarrow> None
          | Some m2 \<Rightarrow>
              if halted m2 then Some (True, m2)
              else case halt_jump h n m2 of (stop, m3) \<Rightarrow>
                if stop then Some (True, m3) else Some (False, frame_end h m3)) = Some (stop, m')"
      using assms nr unfolding outer_pass_def Let_def by (simp only: if_False if_True simp_thms)
    then obtain m2 where m2: "inner_loop p k (fast_path c m1) c h n m1 = Some m2" by (auto split: option.splits)
    show ?thesis
    proof (cases "halted m2")
      case True
      then show ?thesis using e m2 over by simp
    next
      case False
      then have "m' = snd (halt_jump h n m2) \<or> m' = frame_end h (snd (halt_jump h n m2))"
        using e m2 by (auto simp: case_prod_beta split: if_splits)
      then show ?thesis using m2 jump by blast
    qed
  qed
qed

lemma outer_pass_reach:
  assumes "soc_reach m" "outer_pass p k c h n m = Some (stop, m')"
  shows "soc_reach m'"
proof -
  note r1 = looked_reach [OF assms(1)]
  note r2 = looked_reach [OF r1]
  from assms(2) refl refl show ?thesis
  proof (cases rule: outer_pass_cases)
    case (reset cold) then show ?thesis using reset_handshake_reach [OF r1] by simp
  next
    case gdb then show ?thesis by (rule gdb_pass_reach [OF r2])
  next
    case over then show ?thesis by (rule inner_loop_reach [OF r2])
  next
    case (jump m2)
    note r = halt_jump_reach [OF inner_loop_reach [OF r2 jump(1)], of h n]
    then show ?thesis using jump(2) frame_end_reach [OF r] by blast
  qed
qed

lemma runner_loop_reach: "soc_reach m \<Longrightarrow> runner_loop r p k c h n m = Some m' \<Longrightarrow> soc_reach m'"
  by (induction r arbitrary: m) (auto split: if_splits option.splits dest: outer_pass_reach)

lemma runner_start_reach: "soc_reach m \<Longrightarrow> soc_reach (runner_start h n m)"
  unfolding runner_start_def rearm_render_def Let_def
  by (intro update_timer_wake_reach on_front_reach soc_reach.keys run_env_keeps(3))

section \<open>A halted CPU can turn the counter back\<close>

text \<open>
  C36: When the CPU halts with well-formed devices, the runner stops only when no clock that runs can wake it; otherwise the counter is set to
  the earliest of the next wake cycle (with \<open>slp\<close> that of the real-time clock alone) and the deadlines of the frame and of the
  look at the buttons, also when the wake cycle has passed: a burst runs up to 2,000 cycles past
  it, since the deadline of a tick is never set closer than that. The counter then goes back.
\<close>
theorem runner_halt_rewinds:
  assumes "soc_wf (dev m)" "in_halt (cpu m)" "halt_jump h n m = (stop, m')"
    and "wake = (if halt_mode (cpu m) = Slp then soc_sleep_wake (dev m) else fst (soc_next_wake (dev m)))"
  shows "(stop \<longleftrightarrow> wake = UINT64_MAX \<and> halt_mode (cpu m) \<noteq> Slp) \<and>
    total m' = (if stop then total m else min (min wake (next_render (run_of m))) (next_event_poll (run_of m))) \<and>
    (\<not> stop \<and> wake < total m \<longrightarrow> total m' < total m)"
proof -
  define m1 where "m1 = snd (halt_wake m)"
  have hw: "halt_wake m = (wake, m1)"
    by (simp add: m1_def halt_wake_def assms(4) next_wake_def case_prod_beta)
  have m1: "soc_wf (dev m1)" "run_of m1 = run_of m"
    using next_wake_wf [OF assms(1)] assms(1) by (simp_all add: m1_def halt_wake_def)
  define m2 where "m2 = on_front (\<lambda>f. f\<lparr>total_cycles := min (min wake (next_render f)) (next_event_poll f)\<rparr>) m1"
  have wf: "soc_wf (dev m2)" using m1(1) by (simp add: m2_def)
  have t: "total (event_poll h n (do_tick h n m2)) = total m2" using event_poll_kept(2) do_tick_kept(1,2) wf by metis
  have j: "halt_jump h n m = (if wake = UINT64_MAX \<and> halt_mode (cpu m) \<noteq> Slp then (True, m1)
      else (False, event_poll h n (do_tick h n m2)))"
    using assms(2) by (simp add: halt_jump_def hw m2_def)
  have "total m' = (if stop then total m else min (min wake (next_render (run_of m))) (next_event_poll (run_of m)))"
    "stop \<longleftrightarrow> wake = UINT64_MAX \<and> halt_mode (cpu m) \<noteq> Slp"
    using j assms(3) t m1(2) by (auto simp: m2_def split: if_splits)
  then show ?thesis by (auto simp: min_less_iff_disj)
qed

section \<open>The reset\<close>

text \<open>With every enable bit clear a raise sets its flag and nothing else happens.\<close>

definition no_ien :: "intc \<Rightarrow> bool" where "no_ien s \<longleftrightarrow> (\<forall>i<NUM_SOURCES. \<not> ien_set i s)"

definition untouched :: "soc machine \<Rightarrow> soc machine \<Rightarrow> bool" where
  "untouched m m' \<longleftrightarrow> cpu m' = cpu m \<and> bus m' = bus m \<and> front (dev m') = front (dev m) \<and> breakpoints m' = breakpoints m \<and>
     timer_active_mask (dev m') = timer_active_mask (dev m) \<and> no_ien (s_intc (dev m'))"

lemma untouched_trans: "untouched a b \<Longrightarrow> untouched b c \<Longrightarrow> untouched a c"
  by (simp add: untouched_def)

lemma raise_untouched: "no_ien (s_intc (dev m)) \<Longrightarrow> untouched m (soc_raise w lv src m)"
  using src_index_less [of src]
    ien_set_flagged [of _ src "s_intc (dev m)"]
  by (simp add: untouched_def soc_raise_def raise_eq Let_def no_ien_def ien_set_def deliver_def on_dev_def)

lemma raises_untouched: "no_ien (s_intc (dev m)) \<Longrightarrow> untouched m (fold (soc_raise w lv) irqs m)"
proof (induction irqs arbitrary: m)
  case Nil then show ?case by (simp add: untouched_def)
next
  case (Cons a irqs)
  have "untouched m (soc_raise w lv a m)" using raise_untouched [OF Cons.prems] .
  moreover from this have "untouched (soc_raise w lv a m) (fold (soc_raise w lv) irqs (soc_raise w lv a m))"
    by (intro Cons.IH) (simp add: untouched_def)
  ultimately show ?case using untouched_trans by simp
qed

lemma keys_untouched: "no_ien (s_intc (dev m)) \<Longrightarrow> untouched m (soc_set_keys w k5 k6 m)"
proof -
  assume no: "no_ien (s_intc (dev m))"
  define a where "a = fst (set_k5 k5 (s_portctrl (dev m)))"
  define x where "x = on_dev (\<lambda>d. d\<lparr>s_portctrl := a\<rparr>) m"
  define y where "y = fold (soc_raise w (- 1)) (snd (set_k5 k5 (s_portctrl (dev m)))) x"
  have x: "untouched m x" using no by (simp add: x_def untouched_def on_dev_def)
  then have y: "untouched m y"
    unfolding y_def by (intro untouched_trans [OF x] raises_untouched) (simp add: untouched_def)
  define b where "b = fst (set_k6 k6 (s_portctrl (dev y)))"
  define z where "z = on_dev (\<lambda>d. d\<lparr>s_portctrl := b\<rparr>) y"
  have z: "untouched m z" using y by (simp add: z_def untouched_def on_dev_def)
  have "soc_set_keys w k5 k6 m = fold (soc_raise w (- 1)) (snd (set_k6 k6 (s_portctrl (dev y)))) z"
    by (simp add: soc_set_keys_def y_def x_def a_def z_def b_def case_prod_beta Let_def)
  moreover have "no_ien (s_intc (dev z))" using z by (simp add: untouched_def)
  ultimately show ?thesis using untouched_trans [OF z raises_untouched] by simp
qed

lemma reset_no_ien: "no_ien (intc_reset s)"
proof -
  have "ien_byte (src_table ! i) \<noteq> 63" if "i < NUM_SOURCES" for i using src_table_row [OF that] by simp
  then show ?thesis by (simp add: no_ien_def ien_set_def intc_reset_def)
qed

lemma bcu_effects_frame:
  "dev (fold soc_bcu_effect es m) = dev m" "flash (bus (fold soc_bcu_effect es m)) = flash (bus m)"
proof -
  have "dev (soc_bcu_effect e m) = dev m \<and> flash (bus (soc_bcu_effect e m)) = flash (bus m)" for e m
    by (cases e) simp_all
  then show "dev (fold soc_bcu_effect es m) = dev m" "flash (bus (fold soc_bcu_effect es m)) = flash (bus m)"
    by (induction es arbitrary: m) simp_all
qed

lemma soc_reset_frame:
  "front (dev (soc_reset cold m)) = front (dev m)" "timer_active_mask (dev (soc_reset cold m)) = 0"
  "no_ien (s_intc (dev (soc_reset cold m)))" "flash (bus (soc_reset cold m)) = flash (bus m)"
  by (simp_all add: soc_reset_def soc_reset_core_def Let_def case_prod_beta bcu_effects_frame reset_no_ien
      on_dev_def)

lemma cpu_reset_pc:
  fixes w :: "'d wiring"
  assumes "wp_cb w = None" "flash_read_mode (flash (bus m))" "4 \<le> flash_size (flash (bus m))"
  shows "cpu (cpu_reset w m) = cpu_init\<lparr>pc := le32 (flash_mem (flash (bus m))) 0\<rparr>"
    "dev (cpu_reset w m) = dev m"
proof -
  have c: "classify (bus m) 0xC00000 = FLASH"
    using assms(3) by (simp add: classify_def Let_def a28_def flash_end_def)
  show "cpu (cpu_reset w m) = cpu_init\<lparr>pc := le32 (flash_mem (flash (bus m))) 0\<rparr>"
    using c assms(2) by (simp add: cpu_reset_def read32_def Let_def a28_def charge_def)
  show "dev (cpu_reset w m) = dev m"
    using read32_off_io(1) [OF assms(1), where m = "m\<lparr>cpu := cpu_init\<rparr>" and a = "0xC00000"]
    by (simp add: cpu_reset_def case_prod_beta flash_off_io)
qed

text \<open>
  A requested reset starts the machine again: the CPU is in its initial state with the first
  word of the flash as program counter, no timer runs, and the cycle counter goes on from where it
  was, with the next look at the buttons 10,000 cycles ahead and the next tick between 2,000 and
  10,000. No interrupt gets in between, whatever the keys do, since the controller has been reset.
\<close>
theorem runner_reset_restarts:
  assumes "flash_read_mode (flash (bus m))" "4 \<le> flash_size (flash (bus m))"
    and "unat (total m) + 10000 < 2 ^ 64" "m' = reset_handshake h n cold m"
  shows "cpu m' = cpu_init\<lparr>pc := le32 (flash_mem (flash (bus m))) 0\<rparr> \<and>
    timer_active_mask (dev m') = 0 \<and> total m' = total m \<and>
    unat (next_event_poll (run_of m')) = unat (total m) + 10000 \<and>
    unat (total m) + 2000 \<le> unat (next_timer_wake (run_of m')) \<and>
    unat (next_timer_wake (run_of m')) \<le> unat (total m) + 10000"
proof -
  define m1 where "m1 = soc_reset cold m"
  define m2 where "m2 = cpu_reset (run_wiring h n m1) m1"
  define m3 where "m3 = set_keys h n 0xFFFF m2"
  define m4 where "m4 = set_keys h n (buttons_at h (host_reads (run_of m3))) (looked m3)"
  define m5 where "m5 = on_front rearm_poll (rearm_render (on_front (pace_anchor h) m4))"
  have m': "m' = soc_sync_il (update_timer_wake m5)"
    unfolding assms(4) reset_handshake_def Let_def m5_def m4_def m3_def m2_def m1_def ..
  have m1: "front (dev m1) = front (dev m)" "timer_active_mask (dev m1) = 0" "no_ien (s_intc (dev m1))"
    "flash (bus m1) = flash (bus m)"
    by (simp_all add: m1_def soc_reset_frame)
  have m2: "cpu m2 = cpu_init\<lparr>pc := le32 (flash_mem (flash (bus m))) 0\<rparr>" "dev m2 = dev m1"
    unfolding m2_def using assms(1,2) cpu_reset_pc [of "run_wiring h n m1" m1]
    by (simp_all add: run_wiring_def m1(4))
  have m3: "untouched m2 m3" unfolding m3_def set_keys_def using m1(3) m2(2) by (intro keys_untouched) simp
  have "untouched (looked m3) m4"
    unfolding m4_def set_keys_def using m3 by (intro keys_untouched) (simp add: untouched_def)
  then have m4: "cpu m4 = cpu m2" "timer_active_mask (dev m4) = 0" "total m4 = total m"
    using m3 m1 m2 by (simp_all add: untouched_def)
  have mask: "timer_active_mask (dev (update_timer_wake x)) = timer_active_mask (dev x)" for x
  proof -
    have "timer_active_mask (snd (wake_t8 i acc)) = timer_active_mask d" if "timer_active_mask (snd acc) = timer_active_mask d"
      for i acc and d :: soc
      using that by (simp add: wake_t8_def case_prod_beta)
    then have "timer_active_mask (snd (fold wake_t8 is (y, d))) = timer_active_mask d" for "is" y and d :: soc
      using fold_keeps [where P = "\<lambda>a. timer_active_mask (snd a) = timer_active_mask d" and f = wake_t8] by simp
    then show ?thesis
      by (simp add: update_timer_wake_def next_wake_def case_prod_beta soc_next_wake_def Let_def)
  qed
  have m5: "cpu m5 = cpu m2" "timer_active_mask (dev m5) = 0" "total m5 = total m"
    "next_event_poll (run_of m5) = total m + EVENT_INTERVAL"
    using m4 by (simp_all add: m5_def rearm_render_def pace_anchor_def rearm_poll_def)
  have "unat (total m + EVENT_INTERVAL) = unat (total m) + 10000"
    using assms(3) by (simp add: EVENT_INTERVAL_def u64_add)
  then show ?thesis
    using m5 m2(1) wake_deadline_window [OF assms(3), of "fst (next_wake m5)"]
    by (simp add: m' soc_sync_il_def on_dev_def mask)
qed

section \<open>Runs of a small machine\<close>

text \<open>Internal RAM full of \<open>nop\<close>, the program counter at 0, and a host where nothing happens.\<close>

definition still_host :: host where
  "still_host = \<lparr> ns_at = (\<lambda>_. 0), buttons_at = (\<lambda>_. 0xFFFF), quit_at = (\<lambda>_. False), reset_at = (\<lambda>_. 0),
     gdb_client_at = (\<lambda>_. False), gdb_cmd_at = (\<lambda>_. None), gdb_breaks = {},
     tm_at = (\<lambda>_. env_tm soc_env0), audio_open = False, push_hook = False \<rparr>"

definition runner_sample :: "u64 \<Rightarrow> soc machine" where
  "runner_sample now = on_front (\<lambda>f. f\<lparr>total_cycles := now\<rparr>) soc_sample"

lemma runner_sample_simps [simp]:
  "cpu (runner_sample now) = cpu_init" "bus (runner_sample now) = bus_create 64 64"
  "dev (runner_sample now) = soc_init\<lparr>front := front_init\<lparr>total_cycles := now\<rparr>\<rparr>"
  "breakpoints (runner_sample now) = {}" "strict (runner_sample now) = False"
  by (simp_all add: runner_sample_def soc_sample_def soc_init_def on_front_def on_dev_def)

lemma nop_step:
  assumes "cpu m = cpu_init" "bus m = bus_create 64 64" "breakpoints m = {}"
  shows "fst (step w m) = 1"
proof -
  have z: "replicate IRAM_SIZE (0 :: u8) ! 0 = 0" "replicate IRAM_SIZE (0 :: u8) ! 1 = 0" by (subst nth_replicate; simp)+
  have f: "fetch16 0 m = (0, charge 1 m)"
    using z by (simp add: fetch16_def assms(2) bus_create_def Let_def le16_def a28_def flash_end_def)
  have d: "dispatch 0 = C0 H_nop"
    by (simp add: dispatch_def table_0a_def sel_def cls_def c0_op1_def c0_op2_def)
  show ?thesis
    by (simp add: step_def step_insn_def f d assms cpu_init_def Let_def ext_check_def step_tail_def flush_def flush_ext_def
        bus_fault_check_def take_fault_def fire_deferred_def slot_complete_def cycles_consumed_def charge_def bus_create_def)
qed

lemma nop_counts: "uint now + 1 < 2 ^ 64 \<Longrightarrow> counts_on h n (runner_sample now)"
  by (simp add: counts_on_def nop_step)

lemma runner_sample_wf: "soc_wf (dev (runner_sample now))"
  by (simp add: soc_init_wf)

lemma runner_sample_reach: "soc_reach (runner_sample now)"
  unfolding runner_sample_def by (rule on_front_reach, rule soc_reach.power_on) (simp add: soc_sample_def)

lemma runner_deadlines_ahead_witness:
  "total (after_burst still_host 2 (runner_sample 5000)) = 5000 \<and>
   5000 < next_timer_wake (run_of (after_burst still_host 2 (runner_sample 5000)))"
  using runner_deadlines_ahead [OF runner_sample_wf _ refl, of 5000 still_host 2] by simp

lemma runner_burst_ends_witness:
  "\<exists>m'. fast_burst 1 still_host 2 1 (runner_sample 0) = Some m' \<and> \<not> bursting 1 m'"
proof -
  have "\<forall>j<1. bursting 1 ((count_step still_host 2 ^^ j) (runner_sample 0)) \<longrightarrow>
      counts_on still_host 2 ((count_step still_host 2 ^^ j) (runner_sample 0))"
    using nop_counts [of 0] by simp
  then show ?thesis
    using runner_burst_ends [OF runner_sample_wf, of 1 1 0 still_host 2] by auto
qed

text \<open>
  A run from cycle 92,000: the real-time clock is due at 93,750, the next tick at 94,000, where the burst has come to when it halts.
\<close>

definition halt_sample :: "soc machine" where
  "halt_sample = (on_front (\<lambda>f. f\<lparr>total_cycles := 94000, next_render := 492000, next_event_poll := 102000, next_timer_wake := 94000\<rparr>)
     (runner_sample 92000))\<lparr>cpu := cpu_init\<lparr>in_halt := True, halt_mode := Hlt\<rparr>\<rparr>"

lemma u64_le_max [simp]: "(x :: u64) \<le> UINT64_MAX"
proof -
  have "UINT64_MAX = - 1" by simp
  then show ?thesis by (metis word_order.extremum)
qed

lemma idle_t8s: "s_t8 d = (\<lambda>_. t8_init) \<Longrightarrow> fold wake_t8 is (x, d) = (x, d)"
proof (induction "is" arbitrary: x)
  case (Cons i "is")
  have "d\<lparr>s_t8 := (\<lambda>_. t8_init)\<rparr> = d" using Cons.prems by (cases d) simp
  then have "wake_t8 i (x, d) = (x, d)"
    using Cons.prems by (simp add: wake_t8_def t8_next_wake_def t8_init_def min_def fun_upd_idem)
  then show ?case using Cons by simp
qed simp

lemma idle_t16s: "fold (\<lambda>i w. min w (t16_next_wake t16_init)) is x = x"
  by (induction "is" arbitrary: x) (simp_all add: t16_next_wake_def t16_init_def min_def)

lemma halt_sample_wake: "fst (soc_next_wake (dev halt_sample)) = 93750"
proof -
  have "prescaler_period (cpu_clock_hz clk_init) = 93750"
    by (simp add: prescaler_period_def cpu_clock_hz_def clk_init_def Let_def)
  then show ?thesis
    by (simp add: Let_def idle_t16s halt_sample_def soc_next_wake_def soc_init_def idle_t8s rtc_next_wake_def rtc_attached_def
        wdt_next_wake_def wdt_init_def sound_next_wake_def sound_init_def)
qed

lemma runner_halt_rewinds_witness:
  "total halt_sample = 94000 \<and> total (snd (halt_jump still_host 2 halt_sample)) = 93750"
proof -
  have "soc_wf (dev halt_sample)" "in_halt (cpu halt_sample)" by (simp_all add: halt_sample_def soc_init_wf)
  then show ?thesis
    using runner_halt_rewinds [of halt_sample still_host 2 "fst (halt_jump still_host 2 halt_sample)"
        "snd (halt_jump still_host 2 halt_sample)"] halt_sample_wake
    by (auto simp: halt_sample_def min_def split: if_splits)
qed

lemma runner_reset_restarts_witness:
  "total (reset_handshake still_host 2 True (runner_sample 7)) = 7 \<and>
   timer_active_mask (dev (reset_handshake still_host 2 True (runner_sample 7))) = 0"
proof -
  have "flash_read_mode (flash (bus (runner_sample 7)))" "4 \<le> flash_size (flash (bus (runner_sample 7)))"
    by (simp_all add: bus_create_def flat_create_def flash_size_def)
  then show ?thesis using runner_reset_restarts [OF _ _ _ refl, of "runner_sample 7" still_host 2 True] by simp
qed

text \<open>
  Whatever the host does, and however many passes, bursts and instructions its loop makes, the machine the runner stops
  with has well-formed devices. \<^const>\<open>soc_reach\<close> says no more than that: it lets CPU, memory and breakpoints change at will.
\<close>
lemma runner_stays_reachable:
  assumes "soc_reach m" "runner_run r p k c h n m = Some m'"
  shows "soc_reach m' \<and> soc_wf (dev m')"
  using runner_loop_reach [OF runner_start_reach [OF assms(1)] assms(2) [unfolded runner_run_def]]
  by (simp add: soc_reach_wf)

lemma runner_stays_reachable_witness:
  "\<exists>m'. runner_run 1 1 1 \<lparr> cfg_trace = False, cfg_breaks = {}, cfg_max = 1 \<rparr> still_host 2 (runner_sample 0) = Some m'
    \<and> soc_wf (dev m')"
proof -
  define c where "c = \<lparr> cfg_trace = False, cfg_breaks = {}, cfg_max = 1 \<rparr>"
  define m0 where "m0 = runner_start still_host 2 (runner_sample 0)"
  define m1 where "m1 = looked (looked m0)"
  have keys: "untouched (runner_sample 0) (soc_set_keys w k5 k6 (runner_sample 0))" for w k5 k6
    by (rule keys_untouched) (simp add: no_ien_def ien_set_def soc_init_def intc_attached_def src_table_row)
  have frame: "0 < (ucast (cpu_clock_hz clk div 60) :: u64)" for clk
    using cpu_clock_ge [of clk] by (simp add: word_less_nat_alt u64_of_u32 unat_div)
  have m0: "cpu m0 = cpu_init" "bus m0 = bus_create 64 64" "breakpoints m0 = {}" "total m0 = 0" "0 < next_render (run_of m0)" "\<not> quit (run_of m0)"
    "next_event_poll (run_of m0) = 10000" "2000 \<le> unat (next_timer_wake (run_of m0))"
    using keys frame wake_deadline_window(1) [of 0]
    by (simp_all add: m0_def runner_start_def Let_def rearm_render_def pace_anchor_def rearm_poll_def untouched_def
        EVENT_INTERVAL_def)
  have reach: "soc_reach m1"
    unfolding m1_def m0_def by (intro looked_reach runner_start_reach runner_sample_reach)
  have stop: "0 < burst_stop (run_of m1)"
    using m0 by (auto simp: m1_def burst_stop_def min_def word_less_nat_alt)
  have m1: "cpu m1 = cpu_init" "bus m1 = bus_create 64 64" "breakpoints m1 = {}" "total m1 = 0" "\<not> quit (run_of m1)"
    "bursting (burst_stop (run_of m1)) m1" "in_frame m1"
    using m0 stop by (simp_all add: m1_def cpu_init_def bursting_def in_frame_def halted_def word_less_nat_alt)
  have a: "announce c m1 = m1"
    using m1(2) by (simp add: announce_def c_def bus_create_def m1(1) cpu_init_def)
  define m2 where "m2 = count_step still_host 2 m1"
  have "total m2 = 1"
    unfolding m2_def using count_step_total(1) [OF soc_reach_wf [OF reach]] nop_step [OF m1(1-3)] m1(4) by simp
  define m3 where "m3 = on_front (\<lambda>f. f\<lparr>quit := True\<rparr>) m2"
  have "slow_burst 1 c still_host 2 (burst_stop (run_of m1)) m1 = Some m3"
    using m1(6) a \<open>total m2 = 1\<close> by (simp add: m2_def [symmetric] m3_def c_def)
  moreover have "halted m3" by (simp add: halted_def m3_def)
  moreover have fp: "fast_path c m1 = False" and h0: "reset_at still_host k = 0" "\<not> gdb_client_at still_host k" for k
    by (simp_all add: fast_path_def c_def still_host_def)
  ultimately have "inner_loop 1 1 False c still_host 2 m1 = Some m3"
    using m1(7) by (simp add: inner_pass_def in_frame_def)
  then have "outer_pass 1 1 c still_host 2 m0 = Some (True, m3)"
    using \<open>halted m3\<close> fp h0 by (simp add: outer_pass_def Let_def m1_def [symmetric] del: inner_loop.simps One_nat_def)
  then have "runner_run 1 1 1 c still_host 2 (runner_sample 0) = Some m3"
    using m0 by (simp add: runner_run_def m0_def [symmetric] halted_def cpu_init_def)
  then show ?thesis using runner_stays_reachable [OF runner_sample_reach] unfolding c_def by blast
qed

end
