(* ===== verification/PfiFormat.thy ===== *)
theory PfiFormat
  imports Flash
begin

text \<open>
  The flash image file, \<^verbatim>\<open>pfi_format.h\<close>: the hardware description \<open>SYSTEMINFO\<close> (32 bytes) and the
  file header \<open>PFIHEADER\<close> (40 bytes), as records and as the little-endian bytes the structs have in
  memory and in the file. Shared by the loaders of the emulator and by the tools.
\<close>

section \<open>Bytes of halfwords and words\<close>

definition bytes16 :: "u16 \<Rightarrow> u8 list" where
  "bytes16 v = [ucast v, ucast (drop_bit 8 v)]"

definition bytes32 :: "u32 \<Rightarrow> u8 list" where
  "bytes32 v = [ucast v, ucast (drop_bit 8 v), ucast (drop_bit 16 v), ucast (drop_bit 24 v)]"

lemma length_bytes [simp]: "length (bytes16 v) = 2" "length (bytes32 w) = 4"
  by (simp_all add: bytes16_def bytes32_def)

lemma le16_bytes16 [simp]: "le16 (bytes16 v @ r) 0 = v"
  by (simp add: le16_def bytes16_def join16_split)

lemma le32_bytes32 [simp]: "le32 (bytes32 v @ r) 0 = v"
  by (simp add: le32_def bytes32_def join32_split)

lemma le16_skip: "length a \<le> i \<Longrightarrow> le16 (a @ b) i = le16 b (i - length a)"
  by (simp add: le16_def nth_append Suc_diff_le)

lemma le32_skip: "length a \<le> i \<Longrightarrow> le32 (a @ b) i = le32 b (i - length a)"
  by (simp add: le32_def nth_append Suc_diff_le add.commute)

lemma le16_drop [simp]: "n \<le> length p \<Longrightarrow> le16 (drop n p) i = le16 p (n + i)"
  by (simp add: le16_def add.assoc)

lemma le32_drop [simp]: "n \<le> length p \<Longrightarrow> le32 (drop n p) i = le32 p (n + i)"
  by (simp add: le32_def add.assoc)

section \<open>SYSTEMINFO\<close>

record sysinfo =
  si_size :: u16
  hard_ver :: u16
  bios_ver :: u16
  bios_date :: u16
  sys_clock :: u32
  vdde_voltage :: u16
  resv1 :: u16
  sram_top :: u32
  sram_end :: u32
  pffs_top :: u32
  pffs_end :: u32

definition sysinfo_bytes :: "sysinfo \<Rightarrow> u8 list" where
  "sysinfo_bytes s = bytes16 (si_size s) @ bytes16 (hard_ver s) @ bytes16 (bios_ver s) @ bytes16 (bios_date s) @
     bytes32 (sys_clock s) @ bytes16 (vdde_voltage s) @ bytes16 (resv1 s) @
     bytes32 (sram_top s) @ bytes32 (sram_end s) @ bytes32 (pffs_top s) @ bytes32 (pffs_end s)"

definition sysinfo_at :: "u8 list \<Rightarrow> nat \<Rightarrow> sysinfo" where
  "sysinfo_at p i = \<lparr> si_size = le16 p i, hard_ver = le16 p (i + 2), bios_ver = le16 p (i + 4),
     bios_date = le16 p (i + 6), sys_clock = le32 p (i + 8), vdde_voltage = le16 p (i + 12),
     resv1 = le16 p (i + 14), sram_top = le32 p (i + 16), sram_end = le32 p (i + 20),
     pffs_top = le32 p (i + 24), pffs_end = le32 p (i + 28) \<rparr>"

lemma length_sysinfo_bytes [simp]: "length (sysinfo_bytes s) = 32"
  by (simp add: sysinfo_bytes_def)

section \<open>PFIHEADER\<close>

record pfi_header =
  signature :: u32
  img_offset :: u32
  sysinfo :: sysinfo

abbreviation (input) HEADER_SIZE :: nat where "HEADER_SIZE \<equiv> 40"
abbreviation (input) FLASH_TOP :: u32 where "FLASH_TOP \<equiv> 0x0C00000"
abbreviation (input) PFI_ALIGN :: nat where "PFI_ALIGN \<equiv> 16"

definition PFI_IMAGE_OFFSET :: nat where
  "PFI_IMAGE_OFFSET = (HEADER_SIZE + (PFI_ALIGN - 1)) div PFI_ALIGN * PFI_ALIGN"

definition header_bytes :: "pfi_header \<Rightarrow> u8 list" where
  "header_bytes h = bytes32 (signature h) @ bytes32 (img_offset h) @ sysinfo_bytes (sysinfo h)"

definition header_at :: "u8 list \<Rightarrow> pfi_header" where
  "header_at p = \<lparr> signature = le32 p 0, img_offset = le32 p 4, sysinfo = sysinfo_at p 8 \<rparr>"

lemma length_header_bytes [simp]: "length (header_bytes h) = 40"
  by (simp add: header_bytes_def)

lemma image_offset_48 [simp]: "PFI_IMAGE_OFFSET = 48"
  by (simp add: PFI_IMAGE_OFFSET_def)

lemma header_at_bytes [simp]: "header_at (header_bytes h @ rest) = h"
  by (simp add: header_at_def header_bytes_def sysinfo_at_def sysinfo_bytes_def le16_skip le32_skip)

text \<open>The signature bytes \<open>1IFP\<close>; readers ignore the version in the lowest byte.\<close>

definition PFI_SIGNATURE :: u32 where "PFI_SIGNATURE = 0x50464931"

definition signature_ok :: "u32 \<Rightarrow> bool" where
  "signature_ok s \<longleftrightarrow> s AND 0xFFFFFF00 = push_bit 24 0x50 OR push_bit 16 0x46 OR push_bit 8 0x49"

lemma signature_ok_default [simp]: "signature_ok PFI_SIGNATURE"
  by (simp add: signature_ok_def PFI_SIGNATURE_def)

end
