(* ===== verification/Pffs.thy ===== *)
theory Pffs
  imports PfiFormat
begin

text \<open>
  The flash file system of the host tools, \<^verbatim>\<open>tools/pffs.c\<close> with \<^verbatim>\<open>tools/pffs_types.h\<close> and the
  handle of \<^verbatim>\<open>tools/pfi_types.h\<close>. The master block (directory and allocation table) is the first
  sector of the file area; \<open>load_msb\<close> and \<open>store_msb\<close> are the struct laid over the buffer. An operation
  returns \<open>None\<close> where the C code would access memory outside an object. The contents of disk files are
  an argument.
\<close>

section \<open>Data of the file system\<close>

abbreviation (input) MAXDIR :: nat where "MAXDIR \<equiv> 96"
abbreviation (input) MAXFAT :: nat where "MAXFAT \<equiv> 496"
abbreviation (input) FAT_FREE :: u16 where "FAT_FREE \<equiv> 0xFFFF"
abbreviation (input) FAT_END :: u16 where "FAT_END \<equiv> 0xEEEE"

record pffs_mark =
  m_ptr :: u32
  m_resv :: u32
  m_signature :: "u8 list"

record dir_entry =
  d_name :: "u8 list"
  d_attr :: u8
  d_resv :: u8
  d_chain :: u16
  d_size :: u32

record masterblock =
  mark :: pffs_mark
  dir :: "dir_entry list"
  fat :: "u16 list"

record pfi =
  header :: pfi_header
  buffer :: "u8 list"

definition mark_bytes :: "pffs_mark \<Rightarrow> u8 list" where
  "mark_bytes k = bytes32 (m_ptr k) @ bytes32 (m_resv k) @ m_signature k"

definition entry_bytes :: "dir_entry \<Rightarrow> u8 list" where
  "entry_bytes e = d_name e @ [d_attr e, d_resv e] @ bytes16 (d_chain e) @ bytes32 (d_size e)"

definition entry_at :: "u8 list \<Rightarrow> nat \<Rightarrow> dir_entry" where
  "entry_at p i = \<lparr> d_name = take 24 (drop i p), d_attr = p ! (i + 24), d_resv = p ! (i + 25),
     d_chain = le16 p (i + 26), d_size = le32 p (i + 28) \<rparr>"

definition msb_bytes :: "masterblock \<Rightarrow> u8 list" where
  "msb_bytes m = mark_bytes (mark m) @ concat (map entry_bytes (dir m)) @ concat (map bytes16 (fat m))"

definition msb_at :: "u8 list \<Rightarrow> masterblock" where
  "msb_at p = \<lparr> mark = \<lparr> m_ptr = le32 p 0, m_resv = le32 p 4, m_signature = take 24 (drop 8 p) \<rparr>,
     dir = map (\<lambda>k. entry_at p (32 + 32 * k)) [0..<MAXDIR], fat = map (\<lambda>k. le16 p (3104 + 2 * k)) [0..<MAXFAT] \<rparr>"

section \<open>The master block in the buffer\<close>

text \<open>\<open>PFIGetPFFSTop\<close> is an offset into the buffer; \<open>PFFSLoadMasterBlock\<close> points the master block there.\<close>

definition PFIGetPFFSTop :: "pfi \<Rightarrow> nat" where
  "PFIGetPFFSTop p = unat (pffs_top (sysinfo (header p)) - FLASH_TOP)"

definition PFIGetPFFSMaxFAT :: "pfi \<Rightarrow> nat" where
  "PFIGetPFFSMaxFAT p =
    (let si = sysinfo (header p); maxfat = unat (drop_bit 12 (pffs_end si - pffs_top si))
     in if maxfat > MAXFAT then MAXFAT else maxfat)"

definition load_msb :: "pfi \<Rightarrow> masterblock option" where
  "load_msb p =
    (if PFIGetPFFSTop p + 4096 \<le> length (buffer p) then Some (msb_at (drop (PFIGetPFFSTop p) (buffer p))) else None)"

definition store_msb :: "masterblock \<Rightarrow> pfi \<Rightarrow> pfi" where
  "store_msb m p = p\<lparr>buffer := copy_image (PFIGetPFFSTop p) (msb_bytes m) (buffer p)\<rparr>"

definition PFFSSectorToPointer :: "pfi \<Rightarrow> nat \<Rightarrow> nat" where
  "PFFSSectorToPointer p sector = PFIGetPFFSTop p + sector * 4096"

section \<open>Names\<close>

text \<open>A C string is the list of its bytes before the terminating zero.\<close>

definition name_char :: "u8 \<Rightarrow> bool" where
  "name_char c \<longleftrightarrow> (c \<ge> 0x30 \<and> c \<le> 0x39) \<or> (c \<ge> 0x61 \<and> c \<le> 0x7A) \<or> c = 0x5F"

primrec scan_part :: "nat \<Rightarrow> u8 list \<Rightarrow> nat \<times> u8 list" where
  "scan_part len [] = (len, [])"
| "scan_part len (c # cs) = (if \<not> name_char c then (len, c # cs) else scan_part (len + 1) cs)"

definition CheckFileName :: "u8 list \<Rightarrow> nat" where
  "CheckFileName name =
    (case scan_part 0 name of (len, rest) \<Rightarrow>
       if len = 0 \<or> len > 8 then 1
       else case rest of
           [] \<Rightarrow> 0
         | c # ext \<Rightarrow>
             if c \<noteq> 0x2E then 2
             else case scan_part 0 ext of (len2, rest2) \<Rightarrow>
                    if len2 = 0 \<or> len2 > 3 then 3 else if rest2 = [] then 0 else 4)"

definition char_at :: "u8 list \<Rightarrow> u8" where
  "char_at s = (case s of [] \<Rightarrow> 0 | c # _ \<Rightarrow> c)"

primrec strncmp_eq :: "nat \<Rightarrow> u8 list \<Rightarrow> u8 list \<Rightarrow> bool" where
  "strncmp_eq 0 a b = True"
| "strncmp_eq (Suc n) a b = (char_at a = char_at b \<and> (char_at a = 0 \<or> strncmp_eq n (tl a) (tl b)))"

section \<open>Directory\<close>

definition in_use :: "dir_entry \<Rightarrow> bool" where
  "in_use e \<longleftrightarrow> d_name e ! 0 \<noteq> 0 \<and> d_name e ! 0 \<noteq> 0xFF"

function FindNextDirEntry :: "dir_entry list \<Rightarrow> nat \<Rightarrow> nat option" where
  "FindNextDirEntry ds k =
    (if k \<ge> MAXDIR then None else if in_use (ds ! k) then Some k else FindNextDirEntry ds (k + 1))"
  by pat_completeness auto
termination by (relation "measure (\<lambda>(ds, k). MAXDIR - k)") auto

declare FindNextDirEntry.simps [simp del]

lemma FindNextDirEntry_range: "FindNextDirEntry ds k = Some d \<Longrightarrow> k \<le> d \<and> d < MAXDIR \<and> in_use (ds ! d)"
proof (induction ds k rule: FindNextDirEntry.induct)
  case (1 ds k)
  then show ?case by (subst (asm) (2) FindNextDirEntry.simps) (fastforce split: if_splits)
qed

function find_from :: "dir_entry list \<Rightarrow> u8 list \<Rightarrow> nat \<Rightarrow> nat option" where
  "find_from ds name k =
    (case FindNextDirEntry ds k of
       None \<Rightarrow> None
     | Some d \<Rightarrow> if strncmp_eq 24 (d_name (ds ! d)) name then Some d else find_from ds name (d + 1))"
  by pat_completeness auto
termination by (relation "measure (\<lambda>(ds, name, k). MAXDIR - k)") (auto dest: FindNextDirEntry_range)

declare find_from.simps [simp del]

definition PFFSFindFile :: "masterblock \<Rightarrow> u8 list \<Rightarrow> nat option" where
  "PFFSFindFile m name = (if CheckFileName name \<noteq> 0 then None else find_from (dir m) name 0)"

function dir_count :: "dir_entry list \<Rightarrow> nat \<Rightarrow> nat" where
  "dir_count ds k = (case FindNextDirEntry ds k of None \<Rightarrow> 0 | Some d \<Rightarrow> dir_count ds (d + 1) + 1)"
  by pat_completeness auto
termination by (relation "measure (\<lambda>(ds, k). MAXDIR - k)") (auto dest: FindNextDirEntry_range)

declare dir_count.simps [simp del]

definition PFFSDirCount :: "masterblock \<Rightarrow> nat" where
  "PFFSDirCount m = dir_count (dir m) 0"

primrec dir_nth :: "dir_entry list \<Rightarrow> nat \<Rightarrow> nat \<Rightarrow> nat option" where
  "dir_nth ds k 0 = FindNextDirEntry ds k"
| "dir_nth ds k (Suc i) = (case FindNextDirEntry ds k of None \<Rightarrow> None | Some d \<Rightarrow> dir_nth ds (d + 1) i)"

definition PFFSDir :: "masterblock \<Rightarrow> nat \<Rightarrow> nat option" where
  "PFFSDir m index = dir_nth (dir m) 0 index"

function find_free :: "dir_entry list \<Rightarrow> nat \<Rightarrow> nat option" where
  "find_free ds k =
    (if k \<ge> MAXDIR then None else if d_name (ds ! k) ! 0 = 0xFF then Some k else find_free ds (k + 1))"
  by pat_completeness auto
termination by (relation "measure (\<lambda>(ds, k). MAXDIR - k)") auto

declare find_free.simps [simp del]

definition FindFreeDir :: "masterblock \<Rightarrow> nat option" where
  "FindFreeDir m = find_free (dir m) 0"

section \<open>Allocation table\<close>

function GetFreeFAT :: "nat \<Rightarrow> u16 list \<Rightarrow> nat \<Rightarrow> nat option" where
  "GetFreeFAT maxfat f start =
    (if start \<ge> maxfat then None else if f ! start = FAT_FREE then Some start else GetFreeFAT maxfat f (start + 1))"
  by pat_completeness auto
termination by (relation "measure (\<lambda>(maxfat, f, start). maxfat - start)") auto

declare GetFreeFAT.simps [simp del]

definition PFFSFree :: "pfi \<Rightarrow> masterblock \<Rightarrow> nat" where
  "PFFSFree p m = length (filter (\<lambda>i. fat m ! i = FAT_FREE) [0..<PFIGetPFFSMaxFAT p])"

text \<open>Reading \<open>fat[c]\<close>, with \<open>None\<close> behind the end of the table.\<close>

definition fat_at :: "u16 list \<Rightarrow> nat \<Rightarrow> u16 option" where
  "fat_at f c = (if c < length f then Some (f ! c) else None)"

primrec nth_sector :: "u16 list \<Rightarrow> u16 \<Rightarrow> nat \<Rightarrow> u16 option" where
  "nth_sector f c 0 = Some c"
| "nth_sector f c (Suc k) = (case fat_at f (unat c) of None \<Rightarrow> None | Some c' \<Rightarrow> nth_sector f c' k)"

definition PFFSGetFilesNthSector :: "pfi \<Rightarrow> masterblock \<Rightarrow> dir_entry \<Rightarrow> nat \<Rightarrow> nat option" where
  "PFFSGetFilesNthSector p m e sector = map_option (\<lambda>c. PFFSSectorToPointer p (unat c)) (nth_sector (fat m) (d_chain e) sector)"

section \<open>Extracting a file\<close>

text \<open>\<open>fwrite\<close> writes all it is given. The result is the bytes written.\<close>

function extract_loop :: "pfi \<Rightarrow> u16 list \<Rightarrow> nat \<Rightarrow> u16 \<Rightarrow> u8 list option" where
  "extract_loop p f remaining sector =
    (if remaining = 0 \<or> sector = FAT_END then Some []
     else let n = (if remaining > 4096 then 4096 else remaining); a = PFFSSectorToPointer p (unat sector)
          in if a + n > length (buffer p) then None
             else case fat_at f (unat sector) of
                 None \<Rightarrow> None
               | Some next \<Rightarrow> map_option ((@) (take n (drop a (buffer p)))) (extract_loop p f (remaining - n) next))"
  by pat_completeness auto
termination by (relation "measure (\<lambda>(p, f, remaining, sector). remaining)") auto

declare extract_loop.simps [simp del]

definition PFFSExtractFile :: "pfi \<Rightarrow> u8 list \<Rightarrow> u8 list option option" where
  "PFFSExtractFile p name =
    (case load_msb p of
       None \<Rightarrow> None
     | Some m \<Rightarrow>
         (case PFFSFindFile m name of
            None \<Rightarrow> Some None
          | Some d \<Rightarrow> map_option Some (extract_loop p (fat m) (unat (d_size (dir m ! d))) (d_chain (dir m ! d)))))"

section \<open>Deleting a file\<close>

definition nonfree :: "u16 list \<Rightarrow> nat" where
  "nonfree f = length (filter (\<lambda>x. x \<noteq> FAT_FREE) f)"

lemma nonfree_update:
  assumes "c < length f" "f ! c \<noteq> FAT_FREE" shows "nonfree (f[c := FAT_FREE]) < nonfree f"
  using assms
proof (induction f arbitrary: c)
  case (Cons x f) then show ?case by (cases c) (auto simp: nonfree_def)
qed simp

function free_chain :: "u16 list \<Rightarrow> u16 \<Rightarrow> u16 list option" where
  "free_chain f sector =
    (if sector = FAT_END then Some f
     else if unat sector \<ge> MAXFAT \<or> unat sector \<ge> length f then None
     else free_chain (f[unat sector := FAT_FREE]) (f ! unat sector))"
  by pat_completeness auto
termination
proof (relation "measure (\<lambda>(f, s). 2 * nonfree f + (if unat (s :: u16) < MAXFAT then 1 else 0))", goal_cases)
  case (2 f s)
  show ?case
  proof (cases "f ! unat s = FAT_FREE")
    case True
    then have "f[unat s := FAT_FREE] = f" by (metis list_update_id)
    then show ?thesis using 2 True by simp
  next
    case False
    then show ?thesis using 2 nonfree_update [of "unat s" f] by auto
  qed
qed simp

declare free_chain.simps [simp del]

definition blank_entry :: dir_entry where
  "blank_entry = \<lparr> d_name = replicate 24 0xFF, d_attr = 0xFF, d_resv = 0xFF, d_chain = 0xFFFF, d_size = 0xFFFFFFFF \<rparr>"

definition PFFSDeleteFile :: "u8 list \<Rightarrow> pfi \<Rightarrow> (bool \<times> pfi) option" where
  "PFFSDeleteFile name p =
    (case load_msb p of
       None \<Rightarrow> None
     | Some m \<Rightarrow>
         (case PFFSFindFile m name of
            None \<Rightarrow> Some (False, p)
          | Some d \<Rightarrow>
              (case free_chain (fat m) (d_chain (dir m ! d)) of
                 None \<Rightarrow> None
               | Some f \<Rightarrow> Some (True, store_msb (m\<lparr>fat := f, dir := (dir m)[d := blank_entry]\<rparr>) p))))"

section \<open>Adding a file\<close>

text \<open>The pointer \<open>chain\<close> of the allocation: the head in the directory entry, or a table entry.\<close>

datatype link = InDir nat | InFat nat

primrec get_link :: "link \<Rightarrow> masterblock \<Rightarrow> u16" where
  "get_link (InDir d) m = d_chain (dir m ! d)"
| "get_link (InFat n) m = fat m ! n"

primrec set_link :: "link \<Rightarrow> u16 \<Rightarrow> masterblock \<Rightarrow> masterblock" where
  "set_link (InDir d) v m = m\<lparr>dir := (dir m)[d := (dir m ! d)\<lparr>d_chain := v\<rparr>]\<rparr>"
| "set_link (InFat n) v m = m\<lparr>fat := (fat m)[n := v]\<rparr>"

text \<open>The first loop; \<open>Some None\<close> is the return of 0 when no sector is free.\<close>

primrec alloc_loop :: "nat \<Rightarrow> nat \<Rightarrow> link \<Rightarrow> nat \<Rightarrow> masterblock \<Rightarrow> (link \<times> masterblock) option option" where
  "alloc_loop maxfat 0 chain nn m = Some (Some (chain, m))"
| "alloc_loop maxfat (Suc k) chain nn m =
    (let n = get_link chain m
     in if n = FAT_FREE \<or> n = FAT_END
        then (case GetFreeFAT maxfat (fat m) nn of
                None \<Rightarrow> Some None
              | Some i \<Rightarrow> alloc_loop maxfat k (InFat i) (i + 1) (set_link chain (of_nat i) m))
        else if unat n \<ge> length (fat m) then None
        else alloc_loop maxfat k (InFat (unat n)) nn m)"

text \<open>The second loop releases what is left of a longer old version.\<close>

primrec release :: "nat \<Rightarrow> u16 \<Rightarrow> u16 list \<Rightarrow> u16 list option" where
  "release 0 nn f = Some f"
| "release (Suc k) nn f =
    (case fat_at f (unat nn) of
       None \<Rightarrow> None
     | Some nn' \<Rightarrow>
         let f' = f[unat nn := FAT_FREE]
         in if nn' = FAT_FREE \<or> nn' = FAT_END then Some f' else release k nn' f')"

definition AllocateSectors :: "nat \<Rightarrow> nat \<Rightarrow> nat \<Rightarrow> nat \<Rightarrow> masterblock \<Rightarrow> masterblock option option" where
  "AllocateSectors maxfat d nsectors old_nsectors m =
    (case alloc_loop maxfat nsectors (InDir d) 0 m of
       None \<Rightarrow> None
     | Some None \<Rightarrow> Some None
     | Some (Some (chain, m1)) \<Rightarrow>
         let nn = get_link chain m1; m2 = set_link chain FAT_END m1
         in case release (old_nsectors - nsectors) nn (fat m2) of
              None \<Rightarrow> None
            | Some f \<Rightarrow> Some (Some (m2\<lparr>fat := f\<rparr>)))"

text \<open>\<open>fread\<close> of at most a sector from the rest of the disk file.\<close>

primrec WriteFileToSectors :: "nat \<Rightarrow> u16 list \<Rightarrow> u16 \<Rightarrow> u8 list \<Rightarrow> pfi \<Rightarrow> pfi option" where
  "WriteFileToSectors 0 f sector data p = Some p"
| "WriteFileToSectors (Suc k) f sector data p =
    (let a = PFFSSectorToPointer p (unat sector); chunk = take 4096 data
     in if a + length chunk > length (buffer p) then None
        else case fat_at f (unat sector) of
            None \<Rightarrow> None
          | Some next \<Rightarrow>
              WriteFileToSectors k f next (drop 4096 data) (p\<lparr>buffer := copy_image a chunk (buffer p)\<rparr>))"

definition sectors_for :: "u32 \<Rightarrow> nat" where
  "sectors_for n = unat (drop_bit 12 (n + 4095))"

definition new_entry :: "u8 list \<Rightarrow> dir_entry" where
  "new_entry name = \<lparr> d_name = take 23 name @ replicate (24 - length (take 23 name)) 0, d_attr = 0, d_resv = 0,
     d_chain = FAT_FREE, d_size = 0 \<rparr>"

text \<open>The entry to write and the number of sectors it has: that of an old version, or a fresh one.\<close>

definition entry_for :: "u8 list \<Rightarrow> masterblock \<Rightarrow> (nat \<times> nat \<times> masterblock) option" where
  "entry_for name m =
    (case PFFSFindFile m name of
       Some d \<Rightarrow> Some (d, sectors_for (d_size (dir m ! d)), m)
     | None \<Rightarrow> (case FindFreeDir m of
           None \<Rightarrow> None
         | Some d \<Rightarrow> Some (d, 0, m\<lparr>dir := (dir m)[d := new_entry name]\<rparr>)))"

definition add_data :: "u8 list \<Rightarrow> u8 list \<Rightarrow> pfi \<Rightarrow> (bool \<times> pfi) option" where
  "add_data name data p =
    (case load_msb p of
       None \<Rightarrow> None
     | Some m \<Rightarrow>
         (let fsize = of_nat (length data); nsectors = sectors_for fsize
          in case entry_for name m of
               None \<Rightarrow> Some (False, p)
             | Some (d, old_nsectors, m1) \<Rightarrow>
                 let m2 = m1\<lparr>dir := (dir m1)[d := (dir m1 ! d)\<lparr>d_size := fsize\<rparr>]\<rparr>
                 in case AllocateSectors (PFIGetPFFSMaxFAT p) d nsectors old_nsectors m2 of
                      None \<Rightarrow> None
                    | Some None \<Rightarrow> Some (False, p)
                    | Some (Some m3) \<Rightarrow>
                        (case WriteFileToSectors nsectors (fat m3) (d_chain (dir m3 ! d)) data p of
                           None \<Rightarrow> None
                         | Some p1 \<Rightarrow> Some (True, store_msb m3 p1))))"

definition slash :: u8 where "slash = 0x2F"

definition base_name :: "u8 list \<Rightarrow> u8 list" where
  "base_name path = rev (takeWhile (\<lambda>c. c \<noteq> slash) (rev path))"

definition PFFSAddFileAs :: "(u8 list \<Rightarrow> u8 list option) \<Rightarrow> u8 list \<Rightarrow> u8 list \<Rightarrow> pfi \<Rightarrow> (bool \<times> pfi) option" where
  "PFFSAddFileAs disk filename pffs_name_in p =
    (if pffs_name_in \<noteq> [] \<and> slash \<in> set pffs_name_in then Some (False, p)
     else let pffs_name = (if pffs_name_in \<noteq> [] then pffs_name_in else base_name filename)
          in if CheckFileName pffs_name \<noteq> 0 then Some (False, p)
             else case disk filename of
                 None \<Rightarrow> Some (False, p)
               | Some data \<Rightarrow> add_data pffs_name data p)"

definition PFFSAddFile :: "(u8 list \<Rightarrow> u8 list option) \<Rightarrow> u8 list \<Rightarrow> pfi \<Rightarrow> (bool \<times> pfi) option" where
  "PFFSAddFile disk filename p = PFFSAddFileAs disk filename [] p"

end
