(* ===== verification/PffsFs.thy ===== *)
theory PffsFs
  imports Pffs
begin

text \<open>
  What the file system of \<open>Pffs\<close> promises. \<open>fs_ok\<close> is its invariant: every directory entry in use has a
  valid name of its own and a chain of sectors that ends, as many as its size needs, inside the file
  area and shared with no other file. Under it the image stands for a finite map from names to
  contents (\<open>pffs_files\<close>), and extracting, deleting and adding are lookup, removal and update of that map.
\<close>

section \<open>Searches are library searches\<close>

lemma find_upt: "find P [k..<n] = (if k < n then if P k then Some k else find P [Suc k..<n] else None)"
  by (simp add: upt_rec)

lemma FindNextDirEntry_find: "FindNextDirEntry ds k = find (\<lambda>d. in_use (ds ! d)) [k..<MAXDIR]"
proof (induction ds k rule: FindNextDirEntry.induct)
  case (1 ds k)
  then show ?case by (subst FindNextDirEntry.simps, subst find_upt) auto
qed

lemma find_free_find: "find_free ds k = find (\<lambda>d. d_name (ds ! d) ! 0 = 0xFF) [k..<MAXDIR]"
proof (induction ds k rule: find_free.induct)
  case (1 ds k)
  then show ?case by (subst find_free.simps, subst find_upt) auto
qed

lemma GetFreeFAT_find: "GetFreeFAT n f k = find (\<lambda>i. f ! i = FAT_FREE) [k..<n]"
proof (induction n f k rule: GetFreeFAT.induct)
  case (1 n f k)
  then show ?case by (subst GetFreeFAT.simps, subst find_upt) auto
qed

lemma find_upt_next:
  "find P [k..<n] = Some d \<Longrightarrow> (\<And>j. Q j \<Longrightarrow> P j) \<Longrightarrow> find Q [k..<n] = (if Q d then Some d else find Q [Suc d..<n])"
proof (induction "n - k" arbitrary: k)
  case (Suc x)
  show ?case
  proof (cases "P k")
    case True
    then have "d = k" using Suc.prems(1) Suc.hyps(2) by (subst (asm) find_upt) (auto split: if_splits)
    then show ?thesis using Suc.hyps(2) by (subst find_upt) auto
  next
    case False
    then have "find P [Suc k..<n] = Some d" using Suc.prems(1) by (subst (asm) find_upt) (auto split: if_splits)
    moreover have "x = n - Suc k" using Suc.hyps(2) by simp
    ultimately have "find Q [Suc k..<n] = (if Q d then Some d else find Q [Suc d..<n])"
      using Suc.hyps(1) Suc.prems(2) by blast
    moreover have "find Q [k..<n] = find Q [Suc k..<n]"
      using False Suc.prems(2) [of k] Suc.hyps(2) by (subst find_upt) auto
    ultimately show ?thesis by simp
  qed
qed simp

lemma find_upt_none: "find P [k..<n] = None \<Longrightarrow> (\<And>j. Q j \<Longrightarrow> P j) \<Longrightarrow> find Q [k..<n] = None"
  by (fastforce simp: find_None_iff)

definition matches :: "u8 list \<Rightarrow> dir_entry \<Rightarrow> bool" where
  "matches name e \<longleftrightarrow> in_use e \<and> strncmp_eq 24 (d_name e) name"

lemma find_from_find: "find_from ds name k = find (\<lambda>d. matches name (ds ! d)) [k..<MAXDIR]"
proof (induction ds name k rule: find_from.induct)
  case (1 ds name k)
  show ?case
  proof (cases "FindNextDirEntry ds k")
    case None
    then have "find (\<lambda>d. in_use (ds ! d)) [k..<MAXDIR] = None" by (simp add: FindNextDirEntry_find)
    then have "find (\<lambda>d. matches name (ds ! d)) [k..<MAXDIR] = None"
      by (rule find_upt_none) (simp add: matches_def)
    then show ?thesis using None by (subst find_from.simps) simp
  next
    case (Some d)
    then have "find (\<lambda>d. in_use (ds ! d)) [k..<MAXDIR] = Some d" by (simp add: FindNextDirEntry_find)
    then have "find (\<lambda>d. matches name (ds ! d)) [k..<MAXDIR]
        = (if matches name (ds ! d) then Some d else find (\<lambda>d. matches name (ds ! d)) [Suc d..<MAXDIR])"
      by (rule find_upt_next) (simp add: matches_def)
    then show ?thesis using Some 1 [OF Some] FindNextDirEntry_range [OF Some]
      by (subst find_from.simps) (simp add: matches_def)
  qed
qed

lemma dir_count_filter: "dir_count ds k = length (filter (\<lambda>d. in_use (ds ! d)) [k..<MAXDIR])"
proof (induction "MAXDIR - k" arbitrary: k rule: less_induct)
  case less
  show ?case
  proof (cases "FindNextDirEntry ds k")
    case None
    then have "\<forall>d\<in>set [k..<MAXDIR]. \<not> in_use (ds ! d)" by (auto simp: FindNextDirEntry_find find_None_iff)
    then show ?thesis using None by (subst dir_count.simps) (simp add: filter_empty_conv)
  next
    case (Some d)
    note r = FindNextDirEntry_range [OF Some]
    have no: "\<not> in_use (ds ! j)" if "k \<le> j" "j < d" for j
    proof
      assume u: "in_use (ds ! j)"
      obtain i where i: "i < length [k..<MAXDIR]" "[k..<MAXDIR] ! i = d"
        "\<forall>x<i. \<not> in_use (ds ! ([k..<MAXDIR] ! x))"
        using Some by (auto simp: FindNextDirEntry_find find_Some_iff)
      then have "j - k < i" and "k + (j - k) < MAXDIR" using that r by auto
      then show False using i(3) u that by (auto dest!: spec [of _ "j - k"])
    qed
    have "[k..<MAXDIR] = [k..<d] @ d # [Suc d..<MAXDIR]"
      using r by (metis upt_conv_Cons upt_add_eq_append le_add_diff_inverse nat_le_linear less_imp_le)
    moreover have "filter (\<lambda>d. in_use (ds ! d)) [k..<d] = []" using no by (auto simp: filter_empty_conv)
    moreover have "dir_count ds (d + 1) = length (filter (\<lambda>d. in_use (ds ! d)) [d + 1..<MAXDIR])"
      using r by (intro less) auto
    ultimately show ?thesis using Some r by (subst dir_count.simps) simp
  qed
qed

section \<open>Names\<close>

definition cstr :: "u8 list \<Rightarrow> u8 list" where "cstr bs = takeWhile (\<lambda>c. c \<noteq> 0) bs"

lemma strncmp_eq_cstr: "strncmp_eq n a b \<longleftrightarrow> take n (cstr a) = take n (cstr b)"
proof (induction n arbitrary: a b)
  case (Suc n)
  show ?case by (cases a; cases b) (auto simp: Suc char_at_def cstr_def)
qed simp

lemma scan_part_span: "scan_part n s = (n + length (takeWhile name_char s), dropWhile name_char s)"
  by (induction s arbitrary: n) auto

text \<open>The grammar of the comment: \<open>[a-z0-9_]{1,8}([.][a-z0-9_]{1,3})?\<close>.\<close>

definition valid_name :: "u8 list \<Rightarrow> bool" where
  "valid_name s \<longleftrightarrow> (\<exists>a ext. list_all name_char a \<and> 1 \<le> length a \<and> length a \<le> 8 \<and>
     (s = a \<or> s = a @ [0x2E] @ ext \<and> list_all name_char ext \<and> 1 \<le> length ext \<and> length ext \<le> 3))"

lemma not_name_char [simp]: "\<not> name_char 0x2E" "\<not> name_char 0" "\<not> name_char 0xFF"
  by (simp_all add: name_char_def)

lemma span_all: "list_all name_char a \<Longrightarrow> takeWhile name_char a = a" "list_all name_char a \<Longrightarrow> dropWhile name_char a = []"
  by (simp_all add: list_all_iff takeWhile_eq_all_conv)

lemma span_dot: "list_all name_char a \<Longrightarrow> takeWhile name_char (a @ 0x2E # ext) = a"
  "list_all name_char a \<Longrightarrow> dropWhile name_char (a @ 0x2E # ext) = 0x2E # ext"
  by (simp_all add: list_all_iff takeWhile_append dropWhile_append)

lemma takeWhile_all: "list_all P (takeWhile P s)"
  by (auto simp: list_all_iff dest: set_takeWhileD)

lemma name_grammar: "CheckFileName s = 0 \<longleftrightarrow> valid_name s"
proof
  assume ok: "CheckFileName s = 0"
  define a where "a = takeWhile name_char s"
  have s: "s = a @ dropWhile name_char s" and a: "list_all name_char a"
    by (simp_all add: a_def takeWhile_all)
  have len: "1 \<le> length a" "length a \<le> 8"
    using ok by (auto simp: CheckFileName_def scan_part_span a_def Suc_le_eq split: if_splits)
  show "valid_name s"
  proof (cases "dropWhile name_char s")
    case Nil
    then have "s = a" using s by (metis append_Nil2)
    then show ?thesis using a len unfolding valid_name_def by blast
  next
    case (Cons c ext)
    then have c: "c = 0x2E" and e: "1 \<le> length (takeWhile name_char ext)" "length (takeWhile name_char ext) \<le> 3"
      "dropWhile name_char ext = []"
      using ok by (auto simp: CheckFileName_def scan_part_span Suc_le_eq split: if_splits)
    then have "ext = takeWhile name_char ext" by (metis append_Nil2 takeWhile_dropWhile_id)
    then show ?thesis unfolding valid_name_def
      using s a len e c Cons takeWhile_all [of name_char ext] by (intro exI [of _ a] exI [of _ ext]) auto
  qed
next
  assume "valid_name s"
  then obtain a ext where a: "list_all name_char a" "1 \<le> length a" "length a \<le> 8"
    and "s = a \<or> s = a @ [0x2E] @ ext \<and> list_all name_char ext \<and> 1 \<le> length ext \<and> length ext \<le> 3"
    unfolding valid_name_def by blast
  then consider "s = a" | "s = a @ [0x2E] @ ext" "list_all name_char ext" "1 \<le> length ext" "length ext \<le> 3" by blast
  then show "CheckFileName s = 0"
  proof cases
    case 1
    then show ?thesis using a by (auto simp: CheckFileName_def scan_part_span span_all)
  next
    case 2
    then show ?thesis using a by (auto simp: CheckFileName_def scan_part_span span_all span_dot)
  qed
qed

text \<open>
  The check of a file name accepts exactly the names of the documented grammar: one to eight
  characters out of lower-case letters, digits and the underscore, and optionally a dot with one to
  three more of them.
\<close>
theorem pffs_name_grammar: "CheckFileName s = 0 \<longleftrightarrow> valid_name s"
  by (rule name_grammar)

lemma valid_name_chars: "valid_name s \<Longrightarrow> length s \<le> 12 \<and> s \<noteq> [] \<and> 0 \<notin> set s \<and> s ! 0 \<noteq> 0xFF"
proof -
  assume "valid_name s"
  then obtain a ext where a: "list_all name_char a" "1 \<le> length a" "length a \<le> 8"
    and s: "s = a \<or> s = a @ [0x2E] @ ext \<and> list_all name_char ext \<and> 1 \<le> length ext \<and> length ext \<le> 3"
    unfolding valid_name_def by blast
  then have "a ! 0 \<in> set a" by (intro nth_mem) linarith
  then have "name_char (a ! 0)" using a by (simp add: list_all_iff)
  moreover have "s ! 0 = a ! 0" using s a(2) by (auto simp: nth_append)
  moreover have "0 \<notin> set a" and "list_all name_char ext \<Longrightarrow> 0 \<notin> set ext" using a by (auto simp: list_all_iff)
  ultimately show ?thesis using s a by auto
qed

section \<open>The master block as bytes\<close>

definition msb_shape :: "masterblock \<Rightarrow> bool" where
  "msb_shape m \<longleftrightarrow> length (m_signature (mark m)) = 24 \<and> length (dir m) = MAXDIR \<and> length (fat m) = MAXFAT \<and>
     list_all (\<lambda>e. length (d_name e) = 24) (dir m)"

lemma length_concat_fixed: "list_all (\<lambda>x. length (f x) = n) xs \<Longrightarrow> length (concat (map f xs)) = n * length xs"
  by (induction xs) auto

lemma drop_concat_fixed:
  "list_all (\<lambda>x. length (f x) = n) xs \<Longrightarrow> k < length xs \<Longrightarrow>
   drop (n * k) (concat (map f xs)) = f (xs ! k) @ concat (map f (drop (Suc k) xs))"
proof (induction xs arbitrary: k)
  case (Cons x xs)
  then show ?case by (cases k) auto
qed simp

lemma length_entry_bytes: "length (d_name e) = 24 \<Longrightarrow> length (entry_bytes e) = 32"
  by (simp add: entry_bytes_def)

lemma le_after_two [simp]: "le16 (a # b # r) 2 = le16 r 0" "le32 (a # b # r) 4 = le32 r 2"
  by (simp_all add: le16_def le32_def eval_nat_numeral)

lemma entry_at_bytes: "length (d_name e) = 24 \<Longrightarrow> entry_at (entry_bytes e @ rest) 0 = e"
  by (simp add: entry_at_def entry_bytes_def nth_append le16_skip le32_skip)

lemma entry_at_drop: "i \<le> length p \<Longrightarrow> entry_at p i = entry_at (drop i p) 0"
  by (simp add: entry_at_def add.commute)

lemma le16_at_drop: "i \<le> length p \<Longrightarrow> le16 p i = le16 (drop i p) 0"
  by simp

lemma length_msb_bytes: "msb_shape m \<Longrightarrow> length (msb_bytes m) = 4096"
proof -
  assume m: "msb_shape m"
  then have "list_all (\<lambda>e. length (entry_bytes e) = 32) (dir m)"
    by (auto simp: msb_shape_def list_all_iff length_entry_bytes)
  then have "length (concat (map entry_bytes (dir m))) = 32 * MAXDIR"
    using length_concat_fixed [of entry_bytes 32 "dir m"] m by (simp add: msb_shape_def)
  moreover have "length (concat (map bytes16 (fat m))) = 2 * MAXFAT"
    using length_concat_fixed [of bytes16 2 "fat m"] m by (simp add: msb_shape_def list_all_iff)
  ultimately show ?thesis using m by (simp add: msb_bytes_def mark_bytes_def msb_shape_def)
qed

lemma msb_at_bytes:
  assumes m: "msb_shape m"
  shows "msb_at (msb_bytes m @ rest) = m"
proof -
  let ?D = "concat (map entry_bytes (dir m))" and ?F = "concat (map bytes16 (fat m))"
  have e: "list_all (\<lambda>e. length (entry_bytes e) = 32) (dir m)"
    using m by (auto simp: msb_shape_def list_all_iff length_entry_bytes)
  have D: "length ?D = 3072" using length_concat_fixed [OF e] m by (simp add: msb_shape_def)
  have k: "length (mark_bytes (mark m)) = 32" using m by (simp add: mark_bytes_def msb_shape_def)
  have dir: "entry_at (msb_bytes m @ rest) (32 + 32 * i) = dir m ! i" if "i < MAXDIR" for i
  proof -
    have "drop (32 * i) ?D = entry_bytes (dir m ! i) @ concat (map entry_bytes (drop (Suc i) (dir m)))"
      using that m by (intro drop_concat_fixed [OF e]) (simp add: msb_shape_def)
    then have "drop (32 + 32 * i) (msb_bytes m @ rest)
        = entry_bytes (dir m ! i) @ concat (map entry_bytes (drop (Suc i) (dir m))) @ ?F @ rest"
      using that k D by (simp add: msb_bytes_def)
    moreover have "length (d_name (dir m ! i)) = 24" using that m by (simp add: msb_shape_def list_all_length)
    moreover have "32 + 32 * i \<le> length (msb_bytes m @ rest)"
      using that length_msb_bytes [OF m] by (simp only: length_append)
    ultimately show ?thesis by (subst entry_at_drop) (simp_all only: entry_at_bytes)
  qed
  have fat: "le16 (msb_bytes m @ rest) (3104 + 2 * i) = fat m ! i" if "i < MAXFAT" for i
  proof -
    have "drop (2 * i) ?F = bytes16 (fat m ! i) @ concat (map bytes16 (drop (Suc i) (fat m)))"
      using that m by (intro drop_concat_fixed) (simp_all add: msb_shape_def list_all_iff)
    then have "drop (3104 + 2 * i) (msb_bytes m @ rest) = bytes16 (fat m ! i) @ concat (map bytes16 (drop (Suc i) (fat m))) @ rest"
      using that k D m length_concat_fixed [of bytes16 2 "fat m"] by (simp add: msb_bytes_def msb_shape_def list_all_iff)
    moreover have "3104 + 2 * i \<le> length (msb_bytes m @ rest)"
      using that length_msb_bytes [OF m] by (simp only: length_append)
    ultimately show ?thesis by (subst le16_at_drop) (simp_all only: le16_bytes16)
  qed
  have "mark m = \<lparr> m_ptr = le32 (msb_bytes m @ rest) 0, m_resv = le32 (msb_bytes m @ rest) 4,
      m_signature = take 24 (drop 8 (msb_bytes m @ rest)) \<rparr>"
    using m by (simp add: msb_bytes_def mark_bytes_def msb_shape_def le32_skip)
  moreover have "dir m = map (\<lambda>k. entry_at (msb_bytes m @ rest) (32 + 32 * k)) [0..<MAXDIR]"
    using m by (intro nth_equalityI) (simp_all add: msb_shape_def dir del: upt_rec_numeral)
  moreover have "fat m = map (\<lambda>k. le16 (msb_bytes m @ rest) (3104 + 2 * k)) [0..<MAXFAT]"
    using m by (intro nth_equalityI) (simp_all add: msb_shape_def fat del: upt_rec_numeral)
  ultimately show ?thesis by (simp add: msb_at_def del: upt_rec_numeral)
qed

lemma msb_shape_at: "4096 \<le> length p \<Longrightarrow> msb_shape (msb_at p)"
  by (auto simp: msb_shape_def msb_at_def entry_at_def list_all_length simp del: upt_rec_numeral)

section \<open>Chains\<close>

primrec chain_list :: "u16 list \<Rightarrow> u16 \<Rightarrow> nat list \<Rightarrow> bool" where
  "chain_list f c [] \<longleftrightarrow> c = FAT_END"
| "chain_list f c (s # ss) \<longleftrightarrow> unat c = s \<and> s < MAXFAT \<and> chain_list f (f ! s) ss"

primrec walk :: "u16 list \<Rightarrow> nat \<Rightarrow> u16 \<Rightarrow> nat list" where
  "walk f 0 c = []"
| "walk f (Suc k) c = unat c # walk f k (f ! unat c)"

lemma not_sector: "unat (c :: u16) < MAXFAT \<Longrightarrow> c \<noteq> FAT_FREE \<and> c \<noteq> FAT_END"
  by auto

lemma chain_walk: "chain_list f c ss \<Longrightarrow> walk f (length ss) c = ss"
  by (induction ss arbitrary: c) auto

lemma chain_unique: "chain_list f c as \<Longrightarrow> chain_list f c bs \<Longrightarrow> as = bs"
proof (induction as arbitrary: c bs)
  case Nil
  then show ?case by (cases bs) auto
next
  case (Cons a as)
  then show ?case by (cases bs) auto
qed

lemma chain_suffix: "chain_list f c (as @ bs) \<Longrightarrow> bs \<noteq> [] \<Longrightarrow> \<exists>c'. chain_list f c' bs"
  by (induction as arbitrary: c) auto

lemma chain_distinct: "chain_list f c ss \<Longrightarrow> distinct ss"
proof (induction ss arbitrary: c)
  case (Cons s ss)
  have "s \<notin> set ss"
  proof
    assume "s \<in> set ss"
    then obtain as bs where ss: "ss = as @ s # bs" by (auto simp: in_set_conv_decomp)
    then obtain c' where "chain_list f c' (s # bs)" using Cons.prems chain_suffix [of f "f ! s" as "s # bs"] by auto
    then have "chain_list f (f ! s) bs" by simp
    then show False using Cons.prems ss chain_unique [of f "f ! s" ss bs] by auto
  qed
  then show ?case using Cons by auto
qed simp

lemma chain_update: "s \<notin> set ss \<Longrightarrow> chain_list (f[s := v]) c ss = chain_list f c ss"
  by (induction ss arbitrary: c) auto

lemma chain_cong: "(\<And>s. s \<in> set ss \<Longrightarrow> f ! s = g ! s) \<Longrightarrow> chain_list f c ss = chain_list g c ss"
  by (induction ss arbitrary: c) auto

lemma chain_range: "chain_list f c ss \<Longrightarrow> s \<in> set ss \<Longrightarrow> s < MAXFAT"
  by (induction ss arbitrary: c) auto

lemma chain_nonfree: "chain_list f c ss \<Longrightarrow> s \<in> set ss \<Longrightarrow> f ! s \<noteq> FAT_FREE"
proof (induction ss arbitrary: c)
  case (Cons a ss)
  then show ?case by (cases ss) (auto dest: not_sector)
qed simp

definition free_all :: "nat list \<Rightarrow> u16 list \<Rightarrow> u16 list" where
  "free_all ss f = fold (\<lambda>s f. f[s := FAT_FREE]) ss f"

lemma length_free_all [simp]: "length (free_all ss f) = length f"
  by (induction ss arbitrary: f) (auto simp: free_all_def)

lemma nth_free_all: "i < length f \<Longrightarrow> free_all ss f ! i = (if i \<in> set ss then FAT_FREE else f ! i)"
  by (induction ss arbitrary: f) (auto simp: free_all_def nth_list_update)

lemma free_chain_all:
  "length f = MAXFAT \<Longrightarrow> chain_list f c ss \<Longrightarrow> free_chain f c = Some (free_all ss f)"
proof (induction ss arbitrary: f c)
  case Nil
  then show ?case by (subst free_chain.simps) (simp add: free_all_def)
next
  case (Cons s ss)
  then have "s \<notin> set ss" using chain_distinct [of f c "s # ss"] by simp
  then have "chain_list (f[s := FAT_FREE]) (f ! s) ss" using Cons.prems by (simp add: chain_update)
  then have "free_chain (f[s := FAT_FREE]) (f ! s) = Some (free_all ss (f[s := FAT_FREE]))"
    using Cons.prems by (intro Cons.IH) simp_all
  then show ?case using Cons.prems not_sector [of c] by (subst free_chain.simps) (auto simp: free_all_def)
qed

lemma release_all:
  "length f = MAXFAT \<Longrightarrow> chain_list f c ss \<Longrightarrow> release (length ss) c f = Some (free_all ss f)"
proof (induction ss arbitrary: f c)
  case Nil
  then show ?case by (simp add: free_all_def)
next
  case (Cons s ss)
  then have s: "unat c = s" "s < MAXFAT" "chain_list f (f ! s) ss" by simp_all
  have "s \<notin> set ss" using chain_distinct [OF Cons.prems(2)] by simp
  then have "chain_list (f[s := FAT_FREE]) (f ! s) ss" using s by (simp add: chain_update)
  then have "release (length ss) (f ! s) (f[s := FAT_FREE]) = Some (free_all ss (f[s := FAT_FREE]))"
    using Cons.prems by (intro Cons.IH) simp_all
  moreover have "ss = [] \<or> f ! s \<noteq> FAT_FREE \<and> f ! s \<noteq> FAT_END"
    using s not_sector [of "f ! s"] by (cases ss) auto
  ultimately show ?case using s Cons.prems by (cases ss) (auto simp: fat_at_def free_all_def)
qed

section \<open>The invariant and the map it stands for\<close>

definition file_sectors :: "masterblock \<Rightarrow> dir_entry \<Rightarrow> nat list" where
  "file_sectors m e = walk (fat m) (sectors_for (d_size e)) (d_chain e)"

definition file_ok :: "nat \<Rightarrow> masterblock \<Rightarrow> dir_entry \<Rightarrow> bool" where
  "file_ok maxfat m e \<longleftrightarrow> CheckFileName (cstr (d_name e)) = 0 \<and>
     chain_list (fat m) (d_chain e) (file_sectors m e) \<and> list_all (\<lambda>s. 0 < s \<and> s < maxfat) (file_sectors m e)"

definition apart :: "masterblock \<Rightarrow> dir_entry \<Rightarrow> dir_entry \<Rightarrow> bool" where
  "apart m e e' \<longleftrightarrow> cstr (d_name e) \<noteq> cstr (d_name e') \<and> set (file_sectors m e) \<inter> set (file_sectors m e') = {}"

definition msb_ok :: "nat \<Rightarrow> masterblock \<Rightarrow> bool" where
  "msb_ok maxfat m \<longleftrightarrow> msb_shape m \<and> fat m ! 0 \<noteq> FAT_FREE \<and> list_all (file_ok maxfat m) (filter in_use (dir m)) \<and>
     (\<forall>i<MAXDIR. \<forall>j<i. in_use (dir m ! i) \<and> in_use (dir m ! j) \<longrightarrow> apart m (dir m ! i) (dir m ! j))"

definition fs_ok :: "pfi \<Rightarrow> bool" where
  "fs_ok p \<longleftrightarrow> PFIGetPFFSTop p + 4096 * max 1 (PFIGetPFFSMaxFAT p) \<le> length (buffer p) \<and>
     msb_ok (PFIGetPFFSMaxFAT p) (msb_at (drop (PFIGetPFFSTop p) (buffer p)))"

definition sector_data :: "pfi \<Rightarrow> nat \<Rightarrow> u8 list" where
  "sector_data p s = take 4096 (drop (PFFSSectorToPointer p s) (buffer p))"

definition file_data :: "pfi \<Rightarrow> masterblock \<Rightarrow> dir_entry \<Rightarrow> u8 list" where
  "file_data p m e = take (unat (d_size e)) (concat (map (sector_data p) (file_sectors m e)))"

definition pffs_files :: "pfi \<Rightarrow> u8 list \<rightharpoonup> u8 list" where
  "pffs_files p = (case load_msb p of None \<Rightarrow> Map.empty
     | Some m \<Rightarrow> map_of (map (\<lambda>e. (cstr (d_name e), file_data p m e)) (filter in_use (dir m))))"

lemma apart_sym: "apart m e e' = apart m e' e"
  by (auto simp: apart_def)

lemma msb_okD:
  assumes "msb_ok n m"
  shows "msb_shape m" "fat m ! 0 \<noteq> FAT_FREE" "length (dir m) = MAXDIR" "length (fat m) = MAXFAT"
    and "\<And>i. i < MAXDIR \<Longrightarrow> in_use (dir m ! i) \<Longrightarrow> file_ok n m (dir m ! i)"
    and "\<And>i j. i < MAXDIR \<Longrightarrow> j < MAXDIR \<Longrightarrow> i \<noteq> j \<Longrightarrow> in_use (dir m ! i) \<Longrightarrow> in_use (dir m ! j) \<Longrightarrow>
      apart m (dir m ! i) (dir m ! j)"
proof -
  show s: "msb_shape m" "fat m ! 0 \<noteq> FAT_FREE" "length (dir m) = MAXDIR" "length (fat m) = MAXFAT"
    using assms by (auto simp: msb_ok_def msb_shape_def)
  show "file_ok n m (dir m ! i)" if "i < MAXDIR" "in_use (dir m ! i)" for i
    using assms that s by (auto simp: msb_ok_def list_all_iff)
  show "apart m (dir m ! i) (dir m ! j)"
    if "i < MAXDIR" "j < MAXDIR" "i \<noteq> j" "in_use (dir m ! i)" "in_use (dir m ! j)" for i j
  proof (cases "j < i")
    case True
    then show ?thesis using assms that unfolding msb_ok_def by blast
  next
    case False
    then have "i < j" using that by simp
    then show ?thesis using assms that unfolding msb_ok_def by (subst apart_sym) blast
  qed
qed

lemma msb_okI:
  assumes "msb_shape m" "fat m ! 0 \<noteq> FAT_FREE"
    and "\<And>i. i < MAXDIR \<Longrightarrow> in_use (dir m ! i) \<Longrightarrow> file_ok n m (dir m ! i)"
    and "\<And>i j. i < MAXDIR \<Longrightarrow> j < MAXDIR \<Longrightarrow> i \<noteq> j \<Longrightarrow> in_use (dir m ! i) \<Longrightarrow> in_use (dir m ! j) \<Longrightarrow>
      apart m (dir m ! i) (dir m ! j)"
  shows "msb_ok n m"
proof -
  have "length (dir m) = MAXDIR" using assms(1) by (simp add: msb_shape_def)
  then have "list_all (file_ok n m) (filter in_use (dir m))"
    using assms(3) by (auto simp: list_all_iff in_set_conv_nth)
  then show ?thesis unfolding msb_ok_def using assms(1,2,4) by (metis less_trans nat_neq_iff)
qed

lemma fs_load: "fs_ok p \<Longrightarrow> \<exists>m. load_msb p = Some m \<and> msb_ok (PFIGetPFFSMaxFAT p) m"
  by (auto simp: fs_ok_def load_msb_def)

lemma maxfat_le [simp]: "PFIGetPFFSMaxFAT p \<le> 496"
  by (simp add: PFIGetPFFSMaxFAT_def Let_def)

lemma fs_sector: "fs_ok p \<Longrightarrow> s < PFIGetPFFSMaxFAT p \<Longrightarrow> PFFSSectorToPointer p s + 4096 \<le> length (buffer p)"
proof -
  assume "fs_ok p" "s < PFIGetPFFSMaxFAT p"
  then have "PFIGetPFFSTop p + 4096 * PFIGetPFFSMaxFAT p \<le> length (buffer p)" and "s + 1 \<le> PFIGetPFFSMaxFAT p"
    by (auto simp: fs_ok_def)
  then show ?thesis by (simp add: PFFSSectorToPointer_def)
qed

lemma cstr_valid: "CheckFileName name = 0 \<Longrightarrow> cstr name = name \<and> length name \<le> 12"
  using valid_name_chars [of name] by (auto simp: name_grammar cstr_def takeWhile_eq_all_conv)

lemma length_cstr: "length (cstr bs) \<le> length bs"
  by (simp add: cstr_def length_takeWhile_le)

lemma matches_cstr:
  assumes "CheckFileName name = 0" "length (d_name e) = 24"
  shows "matches name e \<longleftrightarrow> in_use e \<and> cstr (d_name e) = name"
  using cstr_valid [OF assms(1)] length_cstr [of "d_name e"] assms(2)
  by (auto simp: matches_def strncmp_eq_cstr)

lemma find_file_cases:
  assumes m: "msb_ok n m"
  obtains d where "PFFSFindFile m name = Some d" "d < MAXDIR" "in_use (dir m ! d)" "cstr (d_name (dir m ! d)) = name"
  | "PFFSFindFile m name = None" "\<And>i. i < MAXDIR \<Longrightarrow> in_use (dir m ! i) \<Longrightarrow> cstr (d_name (dir m ! i)) \<noteq> name"
proof (cases "CheckFileName name = 0")
  case False
  then have "PFFSFindFile m name = None" by (simp add: PFFSFindFile_def)
  moreover have "cstr (d_name (dir m ! i)) \<noteq> name" if "i < MAXDIR" "in_use (dir m ! i)" for i
    using msb_okD(5) [OF m that] False by (auto simp: file_ok_def)
  ultimately show ?thesis using that by blast
next
  case True
  have "length (d_name (dir m ! i)) = 24" if "i < MAXDIR" for i
    using msb_okD(1) [OF m] that by (simp add: msb_shape_def list_all_length)
  then have mt: "matches name (dir m ! i) \<longleftrightarrow> in_use (dir m ! i) \<and> cstr (d_name (dir m ! i)) = name" if "i < MAXDIR" for i
    using True that by (intro matches_cstr) auto
  show ?thesis
  proof (cases "PFFSFindFile m name")
    case None
    then have "\<forall>i\<in>set [0..<MAXDIR]. \<not> matches name (dir m ! i)"
      using True by (simp add: PFFSFindFile_def find_from_find find_None_iff del: upt_rec_numeral)
    then have "cstr (d_name (dir m ! i)) \<noteq> name" if "i < MAXDIR" "in_use (dir m ! i)" for i
      using mt [of i] that by (auto simp del: upt_rec_numeral)
    then show ?thesis using None that by blast
  next
    case (Some d)
    then have f: "find (\<lambda>d. matches name (dir m ! d)) [0..<MAXDIR] = Some d"
      using True by (simp only: PFFSFindFile_def find_from_find) simp
    then have "d < MAXDIR \<and> matches name (dir m ! d)"
      by (auto simp: find_Some_iff simp del: upt_rec_numeral)
    then show ?thesis using mt [of d] Some that by blast
  qed
qed

lemma files_entry:
  assumes "load_msb p = Some m" "msb_ok n m" "i < MAXDIR" "in_use (dir m ! i)"
  shows "pffs_files p (cstr (d_name (dir m ! i))) = Some (file_data p m (dir m ! i))"
proof -
  let ?l = "map (\<lambda>e. (cstr (d_name e), file_data p m e)) (filter in_use (dir m))"
  have l: "length (dir m) = MAXDIR" by (rule msb_okD(3) [OF assms(2)])
  then have "dir m ! i \<in> set (filter in_use (dir m))" using assms by simp
  then have "(cstr (d_name (dir m ! i)), file_data p m (dir m ! i)) \<in> set ?l" by force
  from weak_map_of_SomeI [OF this] obtain y where y: "map_of ?l (cstr (d_name (dir m ! i))) = Some y" ..
  then have "(cstr (d_name (dir m ! i)), y) \<in> set ?l" by (rule map_of_SomeD)
  then obtain e where e: "e \<in> set (dir m)" "in_use e" "cstr (d_name e) = cstr (d_name (dir m ! i))" "y = file_data p m e"
    by auto
  then obtain j where "j < MAXDIR" "dir m ! j = e" using l by (metis in_set_conv_nth)
  moreover from this have "j = i"
    using msb_okD(6) [OF assms(2), of j i] assms(3,4) e by (auto simp: apart_def)
  ultimately have "e = dir m ! i" by simp
  then have "map_of ?l (cstr (d_name (dir m ! i))) = Some (file_data p m (dir m ! i))" using y e(4) by (simp only:)
  then show ?thesis unfolding pffs_files_def by (simp only: assms(1) option.case)
qed

lemma files_none:
  assumes "load_msb p = Some m" "length (dir m) = MAXDIR"
    "\<And>i. i < MAXDIR \<Longrightarrow> in_use (dir m ! i) \<Longrightarrow> cstr (d_name (dir m ! i)) \<noteq> name"
  shows "pffs_files p name = None"
proof -
  have "name \<noteq> cstr (d_name e)" if e: "e \<in> set (filter in_use (dir m))" for e
  proof -
    have "e \<in> set (dir m)" and u: "in_use e" using e by auto
    then obtain i where "i < MAXDIR" "dir m ! i = e" using assms(2) by (metis in_set_conv_nth)
    then show ?thesis using assms(3) [of i] u by blast
  qed
  then have "name \<notin> fst ` set (map (\<lambda>e. (cstr (d_name e), file_data p m e)) (filter in_use (dir m)))" by fastforce
  then have "map_of (map (\<lambda>e. (cstr (d_name e), file_data p m e)) (filter in_use (dir m))) name = None"
    by (simp only: map_of_eq_None_iff not_False_eq_True)
  then show ?thesis using assms(1) by (simp add: pffs_files_def)
qed

section \<open>Extracting is lookup\<close>

lemma extract_chain:
  assumes "chain_list f c ss" "length f = MAXFAT"
    and "\<And>s. s \<in> set ss \<Longrightarrow> PFFSSectorToPointer p s + 4096 \<le> length (buffer p)"
  shows "extract_loop p f n c = Some (take n (concat (map (sector_data p) ss)))"
  using assms
proof (induction ss arbitrary: c n)
  case Nil
  then show ?case by (subst extract_loop.simps) simp
next
  case (Cons s ss)
  then have s: "unat c = s" "s < MAXFAT" "chain_list f (f ! s) ss" "PFFSSectorToPointer p s + 4096 \<le> length (buffer p)"
    by auto
  have len: "length (sector_data p s) = 4096" using s(4) by (simp add: sector_data_def)
  have IH: "extract_loop p f k (f ! s) = Some (take k (concat (map (sector_data p) ss)))" for k
    using Cons.prems s by (intro Cons.IH) auto
  show ?case
  proof (cases "n = 0")
    case True
    then show ?thesis by (subst extract_loop.simps) simp
  next
    case False
    let ?k = "min n 4096"
    have "take ?k (drop (PFFSSectorToPointer p s) (buffer p)) = take n (sector_data p s)"
      by (simp add: sector_data_def)
    moreover have "(if n > 4096 then 4096 else n) = ?k" by simp
    moreover have "n - ?k = n - 4096" by simp
    moreover have "\<not> PFFSSectorToPointer p s + ?k > length (buffer p)" using s(4) by linarith
    moreover have "c \<noteq> FAT_END" using s not_sector [of c] by simp
    moreover have "take n (concat (map (sector_data p) (s # ss))) = take n (sector_data p s) @ take (n - 4096) (concat (map (sector_data p) ss))"
      using len by simp
    ultimately show ?thesis using False s Cons.prems(2) IH [of "n - 4096"]
      by (subst extract_loop.simps) (simp only: Let_def fat_at_def s(1) if_False option.simps map_option_case simp_thms, simp)
  qed
qed

lemma extract_is_lookup: "fs_ok p \<Longrightarrow> PFFSExtractFile p name = Some (pffs_files p name)"
proof -
  assume p: "fs_ok p"
  then obtain m where m: "load_msb p = Some m" "msb_ok (PFIGetPFFSMaxFAT p) m" using fs_load by blast
  show ?thesis
  proof (cases rule: find_file_cases [OF m(2), of name])
    case (1 d)
    then have ok: "file_ok (PFIGetPFFSMaxFAT p) m (dir m ! d)" using msb_okD(5) [OF m(2)] by blast
    then have "extract_loop p (fat m) (unat (d_size (dir m ! d))) (d_chain (dir m ! d)) = Some (file_data p m (dir m ! d))"
      unfolding file_data_def using fs_sector [OF p] msb_okD(4) [OF m(2)]
      by (intro extract_chain) (auto simp: file_ok_def list_all_iff)
    then show ?thesis using 1 m files_entry [OF m 1(2,3)] by (simp add: PFFSExtractFile_def)
  next
    case 2
    then have "pffs_files p name = None" by (intro files_none [OF m(1) msb_okD(3) [OF m(2)]]) blast
    then show ?thesis using 2 m by (simp add: PFFSExtractFile_def)
  qed
qed

section \<open>Writing the master block back\<close>

lemma store_top [simp]:
  "PFIGetPFFSTop (store_msb m p) = PFIGetPFFSTop p" "PFIGetPFFSMaxFAT (store_msb m p) = PFIGetPFFSMaxFAT p"
  "header (store_msb m p) = header p"
  by (simp_all add: store_msb_def PFIGetPFFSTop_def PFIGetPFFSMaxFAT_def)

lemma store_pointer [simp]: "PFFSSectorToPointer (store_msb m p) s = PFFSSectorToPointer p s"
  by (simp add: PFFSSectorToPointer_def)

lemma length_store:
  "msb_shape m \<Longrightarrow> PFIGetPFFSTop p + 4096 \<le> length (buffer p) \<Longrightarrow> length (buffer (store_msb m p)) = length (buffer p)"
  by (simp add: store_msb_def length_msb_bytes)

lemma store_at:
  assumes "msb_shape m" "PFIGetPFFSTop p + 4096 \<le> length (buffer p)"
  shows "msb_at (drop (PFIGetPFFSTop p) (buffer (store_msb m p))) = m"
proof -
  have "drop (PFIGetPFFSTop p) (buffer (store_msb m p))
      = msb_bytes m @ drop (PFIGetPFFSTop p + 4096) (buffer p)"
    using assms by (simp add: store_msb_def copy_image_def length_msb_bytes)
  then show ?thesis using assms by (simp only: msb_at_bytes)
qed

lemma reload_store:
  "msb_shape m \<Longrightarrow> PFIGetPFFSTop p + 4096 \<le> length (buffer p) \<Longrightarrow> load_msb (store_msb m p) = Some m"
  by (simp add: load_msb_def length_store store_at)

lemma sector_data_store:
  assumes "msb_shape m" "PFIGetPFFSTop p + 4096 \<le> length (buffer p)" "0 < s"
  shows "sector_data (store_msb m p) s = sector_data p s"
proof -
  have "PFIGetPFFSTop p + 4096 \<le> PFFSSectorToPointer p s" using assms(3) by (simp add: PFFSSectorToPointer_def)
  then have "drop (PFFSSectorToPointer p s) (buffer (store_msb m p)) = drop (PFFSSectorToPointer p s) (buffer p)"
    using assms by (simp add: store_msb_def copy_image_def length_msb_bytes)
  then show ?thesis by (simp add: sector_data_def)
qed

lemma file_sectors_pos: "file_ok n m e \<Longrightarrow> s \<in> set (file_sectors m e) \<Longrightarrow> 0 < s \<and> s < n"
  by (simp add: file_ok_def list_all_iff)

lemma file_data_cong:
  assumes "file_sectors m e = file_sectors m' e'" "d_size e = d_size e'"
    and "\<And>s. s \<in> set (file_sectors m e) \<Longrightarrow> sector_data p s = sector_data p' s"
  shows "file_data p m e = file_data p' m' e'"
  using assms by (metis file_data_def map_cong)

text \<open>An image with a well-formed master block written back is in order, and its files are those the
  master block describes in the sectors as they were before.\<close>

lemma commit:
  assumes "PFIGetPFFSTop p + 4096 * max 1 (PFIGetPFFSMaxFAT p) \<le> length (buffer p)" "msb_ok (PFIGetPFFSMaxFAT p) m"
  shows "fs_ok (store_msb m p)" "load_msb (store_msb m p) = Some m"
    and "\<And>i. i < MAXDIR \<Longrightarrow> in_use (dir m ! i) \<Longrightarrow>
      pffs_files (store_msb m p) (cstr (d_name (dir m ! i))) = Some (file_data p m (dir m ! i))"
proof -
  note sh = msb_okD(1) [OF assms(2)]
  have top: "PFIGetPFFSTop p + 4096 \<le> length (buffer p)" using assms(1) by linarith
  show fs: "fs_ok (store_msb m p)" using assms by (simp add: fs_ok_def length_store [OF sh top] store_at [OF sh top])
  show l: "load_msb (store_msb m p) = Some m" by (rule reload_store [OF sh top])
  show "pffs_files (store_msb m p) (cstr (d_name (dir m ! i))) = Some (file_data p m (dir m ! i))"
    if i: "i < MAXDIR" "in_use (dir m ! i)" for i
  proof -
    have "file_data (store_msb m p) m (dir m ! i) = file_data p m (dir m ! i)"
      using file_sectors_pos [OF msb_okD(5) [OF assms(2) i]]
      by (intro file_data_cong) (simp_all add: sector_data_store [OF sh top])
    then show ?thesis using files_entry [OF l assms(2) i] by simp
  qed
qed

text \<open>A file whose sectors a change of the table leaves alone keeps its chain.\<close>

lemma file_sectors_frame:
  assumes "chain_list (fat m) (d_chain e) (file_sectors m e)"
    and "\<And>s. s \<in> set (file_sectors m e) \<Longrightarrow> fat m' ! s = fat m ! s"
  shows "file_sectors m' e = file_sectors m e" "chain_list (fat m') (d_chain e) (file_sectors m' e)"
proof -
  have "length (file_sectors m e) = sectors_for (d_size e)" for m
  proof -
    have "length (walk f k c) = k" for f k c by (induction k arbitrary: c) auto
    then show ?thesis by (simp add: file_sectors_def)
  qed
  moreover have c: "chain_list (fat m') (d_chain e) (file_sectors m e)"
    using assms chain_cong [of "file_sectors m e" "fat m'" "fat m" "d_chain e"] by simp
  ultimately show "file_sectors m' e = file_sectors m e"
    using chain_walk [OF c] by (simp add: file_sectors_def)
  then show "chain_list (fat m') (d_chain e) (file_sectors m' e)" using c by simp
qed

lemma file_ok_frame:
  assumes "file_ok n m e" "\<And>s. s \<in> set (file_sectors m e) \<Longrightarrow> fat m' ! s = fat m ! s"
  shows "file_sectors m' e = file_sectors m e" "file_ok n m' e"
  using assms file_sectors_frame [of m e m'] by (auto simp: file_ok_def)

section \<open>Deleting is removal\<close>

lemma blank_not_in_use [simp]: "\<not> in_use blank_entry" "length (d_name blank_entry) = 24"
  by (simp_all add: in_use_def blank_entry_def)

definition erase_entry :: "nat \<Rightarrow> masterblock \<Rightarrow> masterblock" where
  "erase_entry d m = m\<lparr>fat := free_all (file_sectors m (dir m ! d)) (fat m), dir := (dir m)[d := blank_entry]\<rparr>"

lemma erase_entry_ok:
  assumes m: "msb_ok n m" and d: "d < MAXDIR" "in_use (dir m ! d)"
  shows "msb_ok n (erase_entry d m)"
    and "\<And>i. i < MAXDIR \<Longrightarrow> in_use (dir m ! i) \<Longrightarrow> i \<noteq> d \<Longrightarrow>
      file_sectors (erase_entry d m) (dir m ! i) = file_sectors m (dir m ! i)"
proof -
  let ?m = "erase_entry d m"
  note D = msb_okD [OF m]
  have fat: "fat ?m ! s = (if s \<in> set (file_sectors m (dir m ! d)) then FAT_FREE else fat m ! s)" if "s < MAXFAT" for s
    using that D(4) by (simp add: erase_entry_def nth_free_all)
  have keep: "file_sectors ?m (dir m ! i) = file_sectors m (dir m ! i)" "file_ok n ?m (dir m ! i)"
    if i: "i < MAXDIR" "in_use (dir m ! i)" "i \<noteq> d" for i
  proof -
    have ok: "file_ok n m (dir m ! i)" by (rule D(5) [OF i(1,2)])
    have ap: "apart m (dir m ! i) (dir m ! d)" by (rule D(6) [OF i(1) d(1) i(3) i(2) d(2)])
    have eq: "fat ?m ! s = fat m ! s" if s: "s \<in> set (file_sectors m (dir m ! i))" for s
    proof -
      have "s < MAXFAT" using ok s chain_range by (auto simp: file_ok_def)
      moreover have "s \<notin> set (file_sectors m (dir m ! d))" using ap s by (auto simp: apart_def)
      ultimately show ?thesis by (simp only: fat if_False)
    qed
    show "file_sectors ?m (dir m ! i) = file_sectors m (dir m ! i)" "file_ok n ?m (dir m ! i)"
      using file_ok_frame [OF ok eq] by blast+
  qed
  show "file_sectors ?m (dir m ! i) = file_sectors m (dir m ! i)"
    if "i < MAXDIR" "in_use (dir m ! i)" "i \<noteq> d" for i by (rule keep(1) [OF that])
  have ent: "dir ?m ! i = (if i = d then blank_entry else dir m ! i)" if "i < MAXDIR" for i
    using that D(3) by (simp add: erase_entry_def)
  have other: "i \<noteq> d \<and> dir ?m ! i = dir m ! i" if "i < MAXDIR" "in_use (dir ?m ! i)" for i
    using that ent by (cases "i = d") auto
  show "msb_ok n ?m"
  proof (rule msb_okI)
    show "msb_shape ?m"
      using D(1,3) d(1) by (auto simp: msb_shape_def erase_entry_def list_all_length nth_list_update)
    have "0 \<notin> set (file_sectors m (dir m ! d))" using file_sectors_pos [OF D(5) [OF d]] by blast
    then show "fat ?m ! 0 \<noteq> FAT_FREE" using fat [of 0] D(2) by simp
    show "file_ok n ?m (dir ?m ! i)" if "i < MAXDIR" "in_use (dir ?m ! i)" for i
      using other [OF that] that keep(2) by auto
    show "apart ?m (dir ?m ! i) (dir ?m ! j)"
      if "i < MAXDIR" "j < MAXDIR" "i \<noteq> j" "in_use (dir ?m ! i)" "in_use (dir ?m ! j)" for i j
    proof -
      have i: "i \<noteq> d" "dir ?m ! i = dir m ! i" and j: "j \<noteq> d" "dir ?m ! j = dir m ! j"
        using other that by blast+
      have "apart m (dir m ! i) (dir m ! j)" using D(6) that i j by simp
      then show ?thesis using i j that keep(1) by (simp add: apart_def)
    qed
  qed
qed

lemma delete_run:
  assumes "load_msb p = Some m" "msb_ok n m"
  shows "PFFSDeleteFile name p =
    (case PFFSFindFile m name of None \<Rightarrow> Some (False, p) | Some d \<Rightarrow> Some (True, store_msb (erase_entry d m) p))"
proof (cases rule: find_file_cases [OF assms(2), of name])
  case (1 d)
  then have "file_ok n m (dir m ! d)" using msb_okD(5) [OF assms(2)] by blast
  then have "free_chain (fat m) (d_chain (dir m ! d)) = Some (free_all (file_sectors m (dir m ! d)) (fat m))"
    using msb_okD(4) [OF assms(2)] by (intro free_chain_all) (simp_all add: file_ok_def)
  then show ?thesis using 1 assms by (simp add: PFFSDeleteFile_def erase_entry_def)
next
  case 2
  then show ?thesis using assms by (simp add: PFFSDeleteFile_def)
qed

lemma delete_files:
  assumes p: "fs_ok p" and l: "load_msb p = Some m" and d: "d < MAXDIR" "in_use (dir m ! d)"
  shows "fs_ok (store_msb (erase_entry d m) p)"
    and "pffs_files (store_msb (erase_entry d m) p) = (pffs_files p)(cstr (d_name (dir m ! d)) := None)"
proof -
  let ?n = "PFIGetPFFSMaxFAT p" and ?m = "erase_entry d m"
  have m: "msb_ok ?n m" using fs_load [OF p] l by simp
  note ok = erase_entry_ok [OF m d] and D = msb_okD [OF m]
  have lay: "PFIGetPFFSTop p + 4096 * max 1 ?n \<le> length (buffer p)" using p by (simp add: fs_ok_def)
  note c = commit [OF lay ok(1)]
  show "fs_ok (store_msb ?m p)" by (rule c(1))
  have ent: "dir ?m ! i = (if i = d then blank_entry else dir m ! i)" if "i < MAXDIR" for i
    using that D(3) by (simp add: erase_entry_def)
  show "pffs_files (store_msb ?m p) = (pffs_files p)(cstr (d_name (dir m ! d)) := None)"
  proof
    fix name
    show "pffs_files (store_msb ?m p) name = ((pffs_files p)(cstr (d_name (dir m ! d)) := None)) name"
    proof (cases "\<exists>i<MAXDIR. i \<noteq> d \<and> in_use (dir m ! i) \<and> cstr (d_name (dir m ! i)) = name")
      case True
      then obtain i where i: "i < MAXDIR" "i \<noteq> d" "in_use (dir m ! i)" "cstr (d_name (dir m ! i)) = name" by blast
      have e: "dir ?m ! i = dir m ! i" using ent [OF i(1)] i(2) by simp
      have "file_data p ?m (dir m ! i) = file_data p m (dir m ! i)"
        using ok(2) [OF i(1,3,2)] by (intro file_data_cong) simp_all
      then have "pffs_files (store_msb ?m p) name = Some (file_data p m (dir m ! i))"
        using c(3) [of i] i e by simp
      moreover have "name \<noteq> cstr (d_name (dir m ! d))"
        using D(6) [OF i(1) d(1) i(2) i(3) d(2)] i(4) by (simp add: apart_def)
      moreover have "pffs_files p name = Some (file_data p m (dir m ! i))" using files_entry [OF l m i(1,3)] i(4) by simp
      ultimately show ?thesis by simp
    next
      case False
      have "pffs_files (store_msb ?m p) name = None"
      proof (rule files_none [OF c(2)])
        show "length (dir ?m) = MAXDIR" using D(3) by (simp add: erase_entry_def)
        fix i assume "i < MAXDIR" "in_use (dir ?m ! i)"
        then show "cstr (d_name (dir ?m ! i)) \<noteq> name" using ent False by (cases "i = d") auto
      qed
      moreover have "pffs_files p name = None" if "name \<noteq> cstr (d_name (dir m ! d))"
      proof (rule files_none [OF l D(3)])
        fix i assume "i < MAXDIR" "in_use (dir m ! i)"
        then show "cstr (d_name (dir m ! i)) \<noteq> name" using False that by (cases "i = d") auto
      qed
      ultimately show ?thesis by auto
    qed
  qed
qed

lemma count_upt: "length (filter P [0..<n]) = card {i. i < n \<and> P i}"
  by (subst distinct_card [symmetric]) (auto intro: arg_cong [where f = card])

lemma delete_free:
  assumes "msb_ok n m" "d < MAXDIR" "in_use (dir m ! d)" "n = PFIGetPFFSMaxFAT p"
  shows "PFFSFree p (erase_entry d m) = PFFSFree p m + length (file_sectors m (dir m ! d))"
proof -
  let ?S = "file_sectors m (dir m ! d)"
  note D = msb_okD [OF assms(1)]
  have ok: "file_ok n m (dir m ! d)" using D(5) assms by blast
  then have ch: "chain_list (fat m) (d_chain (dir m ! d)) ?S" by (simp add: file_ok_def)
  have eq: "{i. i < n \<and> fat (erase_entry d m) ! i = FAT_FREE} = {i. i < n \<and> fat m ! i = FAT_FREE} \<union> set ?S"
  proof -
    have "n \<le> MAXFAT" using assms(4) by simp
    then have "fat (erase_entry d m) ! i = (if i \<in> set ?S then FAT_FREE else fat m ! i)" if "i < n" for i
      using that D(4) by (simp add: erase_entry_def nth_free_all)
    then show ?thesis using file_sectors_pos [OF ok] by auto
  qed
  have "card ({i. i < n \<and> fat m ! i = FAT_FREE} \<union> set ?S) = card {i. i < n \<and> fat m ! i = FAT_FREE} + card (set ?S)"
    using chain_nonfree [OF ch] by (intro card_Un_disjoint) auto
  then show ?thesis
    unfolding PFFSFree_def count_upt assms(4) [symmetric] eq using distinct_card [OF chain_distinct [OF ch]] by simp
qed

end
