(* ===== verification/PffsAdd.thy ===== *)
theory PffsAdd
  imports PffsFs
begin

text \<open>
  Adding a file. The first part shows what the allocation of sectors does to the chain of the file and
  to the rest of the table, the second what the write does to the sectors; together with the lemmas of
  \<open>PffsFs\<close> they give the three theorems on the operations of the file system.
\<close>

section \<open>Allocating the sectors of a file\<close>

primrec seg :: "u16 list \<Rightarrow> u16 \<Rightarrow> nat list \<Rightarrow> bool" where
  "seg f c [] \<longleftrightarrow> True"
| "seg f c (s # ss) \<longleftrightarrow> unat c = s \<and> s < MAXFAT \<and> seg f (f ! s) ss"

definition last_link :: "link \<Rightarrow> nat list \<Rightarrow> link" where
  "last_link l ss = (if ss = [] then l else InFat (last ss))"

lemma last_link_simps [simp]: "last_link l [] = l" "last_link l (s # ss) = last_link (InFat s) ss"
  by (auto simp: last_link_def)

lemma chain_seg: "chain_list f c (as @ bs) \<Longrightarrow> seg f c as"
  by (induction as arbitrary: c) auto

lemma chain_rest: "chain_list (fat m) (get_link l m) (as @ bs) \<Longrightarrow> chain_list (fat m) (get_link (last_link l as) m) bs"
  by (induction as arbitrary: l) auto

lemma alloc_walk:
  "seg (fat m) (get_link l m) ss \<Longrightarrow> length (fat m) = MAXFAT \<Longrightarrow>
   alloc_loop n (length ss + k) l nn m = alloc_loop n k (last_link l ss) nn m"
proof (induction ss arbitrary: l)
  case (Cons s ss)
  then have "unat (get_link l m) = s" "s < MAXFAT" "seg (fat m) (fat m ! s) ss" by simp_all
  then show ?case using Cons not_sector [of "get_link l m"] by (simp add: Let_def)
qed simp

lemma link_append:
  "seg (fat m) (get_link l m) as \<Longrightarrow> (\<And>j. j \<in> set (butlast as) \<Longrightarrow> fat M ! j = fat m ! j) \<Longrightarrow>
   (as \<noteq> [] \<Longrightarrow> get_link l M = get_link l m) \<Longrightarrow> chain_list (fat M) (get_link (last_link l as) M) bs \<Longrightarrow>
   chain_list (fat M) (get_link l M) (as @ bs)"
proof (induction as arbitrary: l)
  case (Cons s as)
  have "chain_list (fat M) (get_link (InFat s) M) (as @ bs)"
  proof (rule Cons.IH)
    show "fat M ! j = fat m ! j" if "j \<in> set (butlast as)" for j
      using that by (intro Cons.prems(2)) auto
    show "get_link (InFat s) M = get_link (InFat s) m" if "as \<noteq> []"
      using that Cons.prems(2) [of s] by simp
  qed (use Cons.prems in simp_all)
  then show ?case using Cons.prems by simp
qed simp

definition free_from :: "nat \<Rightarrow> nat \<Rightarrow> u16 list \<Rightarrow> nat list" where
  "free_from nn n f = filter (\<lambda>i. f ! i = FAT_FREE) [nn..<n]"

lemma free_from_find: "GetFreeFAT n f nn = (case free_from nn n f of [] \<Rightarrow> None | i # _ \<Rightarrow> Some i)"
proof -
  have "find P xs = (case filter P xs of [] \<Rightarrow> None | x # _ \<Rightarrow> Some x)" for P :: "nat \<Rightarrow> bool" and xs
    by (induction xs) auto
  then show ?thesis by (simp add: GetFreeFAT_find free_from_def)
qed

lemma free_from_Cons:
  "free_from nn n f = i # F \<Longrightarrow> nn \<le> i \<and> i < n \<and> f ! i = FAT_FREE \<and> F = free_from (i + 1) n f"
proof (induction "n - nn" arbitrary: nn)
  case 0
  then show ?case by (simp add: free_from_def)
next
  case (Suc x)
  have "[nn..<n] = nn # [Suc nn..<n]" using Suc.hyps(2) by (simp add: upt_rec)
  show ?case
  proof (cases "f ! nn = FAT_FREE")
    case True
    then show ?thesis using Suc.prems Suc.hyps(2) \<open>[nn..<n] = _\<close> by (auto simp: free_from_def)
  next
    case False
    then have "free_from (Suc nn) n f = i # F" using Suc.prems \<open>[nn..<n] = _\<close> by (simp add: free_from_def)
    from Suc.hyps(1) [OF _ this] have "Suc nn \<le> i \<and> i < n \<and> f ! i = FAT_FREE \<and> F = free_from (i + 1) n f"
      using Suc.hyps(2) by simp
    then show ?thesis by simp
  qed
qed

lemma set_free_from: "i \<in> set (free_from nn n f) \<longleftrightarrow> nn \<le> i \<and> i < n \<and> f ! i = FAT_FREE"
  by (auto simp: free_from_def)

lemma free_from_cong: "(\<And>i. nn \<le> i \<Longrightarrow> i < n \<Longrightarrow> (f ! i = FAT_FREE) = (g ! i = FAT_FREE)) \<Longrightarrow> free_from nn n f = free_from nn n g"
  unfolding free_from_def by (rule filter_cong) auto

definition link_ok :: "link \<Rightarrow> nat \<Rightarrow> masterblock \<Rightarrow> bool" where
  "link_ok l nn m \<longleftrightarrow> (get_link l m = FAT_FREE \<or> get_link l m = FAT_END) \<and>
     (case l of InDir d \<Rightarrow> d < length (dir m) | InFat j \<Rightarrow> j < MAXFAT \<and> (fat m ! j = FAT_FREE \<longrightarrow> j < nn))"

definition fresh_result :: "link \<Rightarrow> masterblock \<Rightarrow> nat list \<Rightarrow> masterblock \<Rightarrow> bool" where
  "fresh_result l m ns M \<longleftrightarrow> chain_list (fat M) (get_link l M) ns \<and> mark M = mark m \<and> length (fat M) = MAXFAT \<and>
     (\<forall>j<MAXFAT. j \<notin> set ns \<and> l \<noteq> InFat j \<longrightarrow> fat M ! j = fat m ! j) \<and> dir M = dir (set_link l (get_link l M) m)"

lemma sector_word: "i < 496 \<Longrightarrow> unat (of_nat i :: u16) = i \<and> (of_nat i :: u16) \<noteq> FAT_FREE \<and> (of_nat i :: u16) \<noteq> FAT_END"
proof -
  assume "i < 496"
  then have "unat (of_nat i :: u16) = i" by (simp add: unat_of_nat)
  then show ?thesis using \<open>i < 496\<close> not_sector [of "of_nat i"] by simp
qed

lemma length_fat_set_link [simp]: "length (fat (set_link l v m)) = length (fat m)"
  by (cases l) auto

lemma mark_set_link [simp]: "mark (set_link l v m) = mark m"
  by (cases l) auto

lemma alloc_fresh:
  "link_ok l nn m \<Longrightarrow> length (fat m) = MAXFAT \<Longrightarrow> n \<le> MAXFAT \<Longrightarrow>
   (k \<le> length (free_from nn n (fat m)) \<longrightarrow>
      (\<exists>l' m'. alloc_loop n k l nn m = Some (Some (l', m')) \<and>
        fresh_result l m (take k (free_from nn n (fat m))) (set_link l' FAT_END m'))) \<and>
   (length (free_from nn n (fat m)) < k \<longrightarrow> alloc_loop n k l nn m = Some None)"
proof (induction k arbitrary: l nn m)
  case 0
  have "get_link l (set_link l FAT_END m) = FAT_END"
    using 0 by (cases l) (auto simp: link_ok_def)
  moreover have "fat (set_link l FAT_END m) ! j = fat m ! j" if "l \<noteq> InFat j" for j
    using that by (cases l) auto
  ultimately show ?case using 0 by (auto simp: fresh_result_def)
next
  case (Suc k)
  note A = Suc.prems
  have c: "get_link l m = FAT_FREE \<or> get_link l m = FAT_END" using A by (simp add: link_ok_def)
  show ?case
  proof (cases "free_from nn n (fat m)")
    case Nil
    then show ?thesis using c by (auto simp: free_from_find Let_def)
  next
    case (Cons i F)
    note i = free_from_Cons [OF Cons]
    then have i496: "i < 496" using A(3) by simp
    note w = sector_word [OF i496]
    let ?m = "set_link l (of_nat i) m"
    have ne: "l \<noteq> InFat i" using A(1) i by (auto simp: link_ok_def)
    have fat: "fat ?m ! j = fat m ! j" if "l \<noteq> InFat j" for j using that by (cases l) auto
    have own: "get_link l ?m = of_nat i" using A by (cases l) (auto simp: link_ok_def)
    have lF: "fat m ! j = FAT_FREE \<Longrightarrow> l = InFat j \<Longrightarrow> j < nn" for j using A(1) by (auto simp: link_ok_def)
    have "F = free_from (i + 1) n (fat ?m)"
      unfolding i [THEN conjunct2, THEN conjunct2, THEN conjunct2]
    proof (rule free_from_cong)
      fix j assume j: "i + 1 \<le> j" "j < n"
      show "(fat m ! j = FAT_FREE) = (fat ?m ! j = FAT_FREE)"
      proof (cases "l = InFat j")
        case True
        then have "fat ?m ! j = of_nat i" using own by simp
        moreover have "fat m ! j \<noteq> FAT_FREE" using lF [OF _ True] j i by auto
        ultimately show ?thesis using w by simp
      qed (simp add: fat)
    qed
    note F = this
    have ok: "link_ok (InFat i) (i + 1) ?m" using i i496 fat [OF ne] by (simp add: link_ok_def)
    have step: "alloc_loop n (Suc k) l nn m = alloc_loop n k (InFat i) (i + 1) ?m"
      using c Cons by (auto simp: free_from_find Let_def)
    have IH: "(k \<le> length F \<longrightarrow> (\<exists>l' m'. alloc_loop n k (InFat i) (i + 1) ?m = Some (Some (l', m')) \<and>
        fresh_result (InFat i) ?m (take k F) (set_link l' FAT_END m'))) \<and>
      (length F < k \<longrightarrow> alloc_loop n k (InFat i) (i + 1) ?m = Some None)"
      using Suc.IH [of "InFat i" "i + 1" ?m] ok A unfolding F by simp
    have "fresh_result l m (i # take k F) M" if M: "fresh_result (InFat i) ?m (take k F) M" for M
    proof -
      note r = M [unfolded fresh_result_def]
      have nF: "j \<notin> set (take k F)" if "l = InFat j" for j
      proof
        assume "j \<in> set (take k F)"
        then have "fat ?m ! j = FAT_FREE" using F by (metis in_set_takeD set_free_from)
        then show False using own that w by simp
      qed
      have gl: "get_link l M = of_nat i"
      proof (cases l)
        case (InDir d)
        then show ?thesis using r own by simp
      next
        case (InFat j)
        then have "j < MAXFAT" "j \<noteq> i" using A(1) ne by (auto simp: link_ok_def)
        then have "fat M ! j = fat ?m ! j" using r nF [OF InFat] by simp
        then show ?thesis using own InFat by simp
      qed
      have "chain_list (fat M) (get_link l M) (i # take k F)" using gl w i496 r by simp
      moreover have "dir M = dir (set_link l (get_link l M) m)" using r gl by simp
      ultimately show ?thesis using r fat by (auto simp: fresh_result_def)
    qed
    then show ?thesis using IH step Cons by auto
  qed
qed

text \<open>What the allocation does to an entry whose chain is \<open>ss\<close> (or a fresh entry, with no chain): the
  file gets \<open>k\<close> sectors, the old ones first and then free ones in order, and the rest is released.\<close>

definition alloc_result :: "nat \<Rightarrow> nat list \<Rightarrow> nat list \<Rightarrow> masterblock \<Rightarrow> masterblock \<Rightarrow> bool" where
  "alloc_result d ss ns m M \<longleftrightarrow> chain_list (fat M) (d_chain (dir M ! d)) ns \<and> mark M = mark m \<and> length (fat M) = MAXFAT \<and>
     (\<forall>j<MAXFAT. j \<notin> set ns \<union> set ss \<longrightarrow> fat M ! j = fat m ! j) \<and>
     (\<forall>j\<in>set ss - set ns. fat M ! j = FAT_FREE) \<and>
     dir M = (dir m)[d := (dir m ! d)\<lparr>d_chain := d_chain (dir M ! d)\<rparr>]"

lemma last_link_in: "last_link (InDir d) as = InDir d \<and> as = [] \<or> (\<exists>bs s. as = bs @ [s] \<and> last_link (InDir d) as = InFat s)"
  by (cases as rule: rev_cases) (auto simp: last_link_def)

lemma allocate_shrink:
  assumes ch: "chain_list (fat m) (d_chain (dir m ! d)) ss \<or> ss = []" and k: "k \<le> length ss"
    and d: "d < length (dir m)" and len: "length (fat m) = MAXFAT"
  shows "\<exists>M. AllocateSectors n d k (length ss) m = Some (Some M) \<and> alloc_result d ss (take k ss) m M"
proof -
  let ?a = "take k ss" and ?b = "drop k ss" and ?l = "InDir d"
  let ?L = "last_link ?l ?a" and ?m = "set_link (last_link (InDir d) (take k ss)) FAT_END m"
  have dist: "distinct ss" using ch chain_distinct by auto
  have sg: "seg (fat m) (get_link ?l m) ?a" using ch chain_seg [of "fat m" "d_chain (dir m ! d)" ?a ?b] by auto
  have rest: "chain_list (fat m) (get_link ?L m) ?b \<or> ?b = []"
    using ch chain_rest [of m ?l ?a ?b] by auto
  have walk: "alloc_loop n k ?l 0 m = Some (Some (?L, m))"
    using alloc_walk [OF sg len, of n 0 0] k by (simp add: min_absorb2)
  have ab: "set ?a \<inter> set ?b = {}" using dist by (metis append_take_drop_id distinct_append)
  have Lb: "?L \<noteq> InFat s" if "s \<in> set ?b" for s
    using last_link_in [of d ?a] ab that by auto
  have fat: "fat ?m ! s = fat m ! s" if "?L \<noteq> InFat s" for s using that by (cases ?L) auto
  have "chain_list (fat ?m) (get_link ?L m) ?b \<or> ?b = []"
    using rest chain_cong [of ?b "fat ?m" "fat m"] fat Lb by blast
  then have rel: "release (length ss - k) (get_link ?L m) (fat ?m) = Some (free_all ?b (fat ?m))"
    using release_all [of "fat ?m" "get_link ?L m" ?b] len by (auto simp: free_all_def)
  let ?M = "?m\<lparr>fat := free_all ?b (fat ?m)\<rparr>"
  have run: "AllocateSectors n d k (length ss) m = Some (Some ?M)"
    by (simp add: AllocateSectors_def walk rel Let_def)
  have bF: "s < MAXFAT" if "s \<in> set ss" for s using ch chain_range that by auto
  have fM: "fat ?M ! s = (if s \<in> set ?b then FAT_FREE else fat ?m ! s)" if "s < MAXFAT" for s
    using that len by (simp add: nth_free_all)
  have "chain_list (fat ?M) (get_link ?l ?M) (?a @ [])"
  proof (rule link_append [OF sg])
    fix j assume j: "j \<in> set (butlast ?a)"
    then have ja: "j \<in> set ?a" by (rule in_set_butlastD)
    then have "j < MAXFAT" "j \<notin> set ?b" using bF ab by (auto dest: in_set_takeD)
    moreover have "?L \<noteq> InFat j"
    proof
      assume "?L = InFat j"
      then obtain bs where "?a = bs @ [j]" using last_link_in [of d ?a] by auto
      then show False using j dist by (metis butlast_snoc distinct_append distinct_take not_distinct_conv_prefix)
    qed
    ultimately show "fat ?M ! j = fat m ! j" using fM fat by simp
  next
    assume "?a \<noteq> []"
    then show "get_link ?l ?M = get_link ?l m" using last_link_in [of d ?a] by auto
  next
    have "get_link ?L ?M = FAT_END"
    proof (cases "?a = []")
      case True
      then have "?L = InDir d" by (simp add: last_link_def)
      then show ?thesis using d by simp
    next
      case False
      then obtain bs s where s: "?a = bs @ [s]" "?L = InFat s" using last_link_in [of d ?a] by auto
      then have "s \<in> set ?a" by simp
      then have "s < MAXFAT" "s \<notin> set ?b" using bF ab by (auto dest: in_set_takeD)
      then show ?thesis using s(2) fM len by simp
    qed
    then show "chain_list (fat ?M) (get_link ?L ?M) []" by simp
  qed
  moreover have "dir ?M = (dir m)[d := (dir m ! d)\<lparr>d_chain := d_chain (dir ?M ! d)\<rparr>]"
    using last_link_in [of d ?a] d by auto
  moreover have "fat ?M ! j = fat m ! j" if "j < MAXFAT" "j \<notin> set ss" for j
  proof -
    have "?L \<noteq> InFat j" using last_link_in [of d ?a] that(2) by (metis in_set_conv_decomp in_set_takeD link.inject(2) link.simps(4))
    moreover have "j \<notin> set ?b" using that(2) by (auto dest: in_set_dropD)
    ultimately show ?thesis using fM that(1) fat by simp
  qed
  moreover have "fat ?M ! j = FAT_FREE" if j: "j \<in> set ss - set ?a" for j
  proof -
    have "j \<in> set ?b" using j by (metis DiffD1 DiffD2 Un_iff append_take_drop_id set_append)
    then show ?thesis using fM bF j by simp
  qed
  ultimately have "alloc_result d ss ?a m ?M" using len by (simp add: alloc_result_def)
  then show ?thesis using run by blast
qed

lemma allocate_grow:
  assumes ch: "chain_list (fat m) (d_chain (dir m ! d)) ss \<or> ss = [] \<and> d_chain (dir m ! d) = FAT_FREE"
    and k: "length ss < k" and d: "d < length (dir m)" and len: "length (fat m) = MAXFAT" and n: "n \<le> MAXFAT"
  defines "ns \<equiv> ss @ take (k - length ss) (free_from 0 n (fat m))"
  shows "k \<le> length ss + length (free_from 0 n (fat m)) \<Longrightarrow>
      \<exists>M. AllocateSectors n d k (length ss) m = Some (Some M) \<and> alloc_result d ss ns m M"
    and "length ss + length (free_from 0 n (fat m)) < k \<Longrightarrow> AllocateSectors n d k (length ss) m = Some None"
proof -
  let ?l = "InDir d" and ?F = "free_from 0 n (fat m)" and ?L = "last_link (InDir d) ss" and ?j = "k - length ss"
  have sg: "seg (fat m) (get_link ?l m) ss" using ch chain_seg [of "fat m" "d_chain (dir m ! d)" ss "[]"] by auto
  have tail: "get_link ?L m = FAT_FREE \<or> get_link ?L m = FAT_END" and inf: "?L = InFat j \<Longrightarrow> get_link ?L m = FAT_END" for j
    using ch chain_rest [of m ?l ss "[]"] by auto
  have rng: "s \<in> set ss \<Longrightarrow> s < MAXFAT" for s using ch chain_range by auto
  have Lcase: "?L = ?l \<or> (\<exists>s\<in>set ss. ?L = InFat s)" using last_link_in [of d ss] by auto
  have ok: "link_ok ?L 0 m"
    using tail inf Lcase rng d by (auto simp: link_ok_def)
  have walk: "alloc_loop n k ?l 0 m = alloc_loop n ?j ?L 0 m"
    using alloc_walk [OF sg len, of n ?j 0] k by simp
  note fr = alloc_fresh [OF ok len n, of ?j]
  show "AllocateSectors n d k (length ss) m = Some None" if "length ss + length ?F < k"
  proof -
    have "length ?F < ?j" using that by linarith
    then show ?thesis using fr walk by (simp add: AllocateSectors_def)
  qed
  assume "k \<le> length ss + length ?F"
  then have "?j \<le> length ?F" by linarith
  then obtain l' m' where run: "alloc_loop n k ?l 0 m = Some (Some (l', m'))"
    and R: "fresh_result ?L m (take ?j ?F) (set_link l' FAT_END m')" using fr walk by auto
  let ?M = "set_link l' FAT_END m'"
  note r = R [unfolded fresh_result_def]
  have alloc: "AllocateSectors n d k (length ss) m = Some (Some ?M)"
    using run k by (simp add: AllocateSectors_def Let_def)
  have ssF: "s \<notin> set (take ?j ?F)" if "s \<in> set ss" for s
  proof
    assume "s \<in> set (take ?j ?F)"
    then have "s \<in> set ?F" by (rule in_set_takeD)
    then have "fat m ! s = FAT_FREE" by (simp add: set_free_from)
    moreover have "chain_list (fat m) (d_chain (dir m ! d)) ss" using ch that by auto
    ultimately show False using chain_nonfree that by blast
  qed
  have e: "dir ?M = dir (set_link ?L (get_link ?L ?M) m)" using r by blast
  have dirM: "dir ?M = (dir m)[d := (dir m ! d)\<lparr>d_chain := d_chain (dir ?M ! d)\<rparr>]"
  proof (cases "?L = ?l")
    case True
    have "dir (set_link (InDir d) v m) = (dir m)[d := (dir m ! d)\<lparr>d_chain := v\<rparr>]" for v by simp
    from e [unfolded True this] show ?thesis by (simp only: get_link.simps)
  next
    case False
    then obtain s where "?L = InFat s" using Lcase by auto
    moreover have "dir (set_link (InFat s) v m) = dir m" for v by simp
    ultimately have "dir ?M = dir m" using e by metis
    then show ?thesis by simp
  qed
  have "chain_list (fat ?M) (get_link ?l ?M) (ss @ take ?j ?F)"
  proof (rule link_append [OF sg])
    fix j assume j: "j \<in> set (butlast ss)"
    have "?L \<noteq> InFat j"
    proof
      assume "?L = InFat j"
      then obtain bs where "ss = bs @ [j]" using last_link_in [of d ss] by auto
      moreover have "distinct ss" using ch chain_distinct by auto
      ultimately show False using j by auto
    qed
    then show "fat ?M ! j = fat m ! j" using r in_set_butlastD [OF j] rng ssF by blast
  next
    assume "ss \<noteq> []"
    then show "get_link ?l ?M = get_link ?l m" using last_link_in [of d ss] r by auto
  next
    show "chain_list (fat ?M) (get_link ?L ?M) (take ?j ?F)" using r by blast
  qed
  moreover have "fat ?M ! j = fat m ! j" if "j < MAXFAT" "j \<notin> set ns \<union> set ss" for j
  proof -
    have "j \<notin> set (take ?j ?F)" "?L \<noteq> InFat j" using that(2) Lcase by (auto simp: ns_def)
    then show ?thesis using r that(1) by blast
  qed
  moreover have "set ss - set ns = {}" by (auto simp: ns_def)
  ultimately have "alloc_result d ss ns m ?M" using r dirM unfolding alloc_result_def ns_def get_link.simps by blast
  then show "\<exists>M. AllocateSectors n d k (length ss) m = Some (Some M) \<and> alloc_result d ss ns m M" using alloc by blast
qed

text \<open>The sectors of the new version of a file.\<close>

definition new_sectors :: "nat \<Rightarrow> nat \<Rightarrow> nat list \<Rightarrow> u16 list \<Rightarrow> nat list" where
  "new_sectors n k ss f = take k ss @ take (k - length ss) (free_from 0 n f)"

lemma allocate:
  assumes "chain_list (fat m) (d_chain (dir m ! d)) ss \<or> ss = [] \<and> d_chain (dir m ! d) = FAT_FREE"
    and "d < length (dir m)" "length (fat m) = MAXFAT" "n \<le> MAXFAT"
  shows "k \<le> length ss + length (free_from 0 n (fat m)) \<Longrightarrow>
      \<exists>M. AllocateSectors n d k (length ss) m = Some (Some M) \<and> alloc_result d ss (new_sectors n k ss (fat m)) m M"
    and "length ss + length (free_from 0 n (fat m)) < k \<Longrightarrow> AllocateSectors n d k (length ss) m = Some None"
proof (atomize(full), cases "k \<le> length ss")
  case True
  then have ns: "new_sectors n k ss (fat m) = take k ss" by (simp add: new_sectors_def)
  have "\<exists>M. AllocateSectors n d k (length ss) m = Some (Some M) \<and> alloc_result d ss (take k ss) m M"
    using assms True by (intro allocate_shrink) auto
  then show "(k \<le> length ss + length (free_from 0 n (fat m)) \<longrightarrow>
      (\<exists>M. AllocateSectors n d k (length ss) m = Some (Some M) \<and> alloc_result d ss (new_sectors n k ss (fat m)) m M)) \<and>
    (length ss + length (free_from 0 n (fat m)) < k \<longrightarrow> AllocateSectors n d k (length ss) m = Some None)"
    using True ns by simp
next
  case False
  then have k: "length ss < k" and ns: "new_sectors n k ss (fat m) = ss @ take (k - length ss) (free_from 0 n (fat m))"
    by (simp_all add: new_sectors_def)
  show "(k \<le> length ss + length (free_from 0 n (fat m)) \<longrightarrow>
      (\<exists>M. AllocateSectors n d k (length ss) m = Some (Some M) \<and> alloc_result d ss (new_sectors n k ss (fat m)) m M)) \<and>
    (length ss + length (free_from 0 n (fat m)) < k \<longrightarrow> AllocateSectors n d k (length ss) m = Some None)"
    unfolding ns using allocate_grow [OF assms(1) k assms(2-4)] by blast
qed

section \<open>Writing the contents\<close>

lemma sector_data_bound: "length (sector_data p s) \<le> 4096"
  by (simp add: sector_data_def)

lemma sector_write:
  assumes "PFFSSectorToPointer p s + 4096 \<le> length (buffer p)" "length xs \<le> 4096"
  defines "p' \<equiv> p\<lparr>buffer := copy_image (PFFSSectorToPointer p s) xs (buffer p)\<rparr>"
  shows "sector_data p' s = xs @ drop (length xs) (sector_data p s)"
    and "s \<noteq> s' \<Longrightarrow> sector_data p' s' = sector_data p s'"
    and "PFFSSectorToPointer p' = PFFSSectorToPointer p" "header p' = header p" "length (buffer p') = length (buffer p)"
proof -
  let ?a = "PFFSSectorToPointer p s"
  show ptr: "PFFSSectorToPointer p' = PFFSSectorToPointer p"
    by (simp add: p'_def PFFSSectorToPointer_def PFIGetPFFSTop_def fun_eq_iff)
  show "header p' = header p" by (simp add: p'_def)
  show len: "length (buffer p') = length (buffer p)" using assms(1,2) by (simp add: p'_def)
  have nth: "buffer p' ! i = (if ?a \<le> i \<and> i < ?a + length xs then xs ! (i - ?a) else buffer p ! i)" if "i < length (buffer p)" for i
    using that assms(1,2) by (simp add: p'_def nth_copy_image)
  show "sector_data p' s = xs @ drop (length xs) (sector_data p s)"
  proof (rule nth_equalityI)
    show "length (sector_data p' s) = length (xs @ drop (length xs) (sector_data p s))"
      using assms(1,2) by (simp add: sector_data_def ptr len)
    fix i assume "i < length (sector_data p' s)"
    then have "i < 4096" by (simp add: sector_data_def)
    then show "sector_data p' s ! i = (xs @ drop (length xs) (sector_data p s)) ! i"
      using assms(1,2) by (simp add: sector_data_def ptr nth len nth_append)
  qed
  show "sector_data p' s' = sector_data p s'" if "s \<noteq> s'"
  proof (rule nth_equalityI)
    show "length (sector_data p' s') = length (sector_data p s')" by (simp add: sector_data_def ptr len)
    fix i assume i: "i < length (sector_data p' s')"
    then have b: "i < 4096" "PFFSSectorToPointer p s' + i < length (buffer p)" by (auto simp: sector_data_def ptr len min_def split: if_splits)
    have "s * 4096 + 4096 \<le> s' * 4096 \<or> s' * 4096 + 4096 \<le> s * 4096" using that by linarith
    then have "\<not> (?a \<le> PFFSSectorToPointer p s' + i \<and> PFFSSectorToPointer p s' + i < ?a + length xs)"
      using b assms(2) by (auto simp: PFFSSectorToPointer_def)
    then have "buffer p' ! (PFFSSectorToPointer p s' + i) = buffer p ! (PFFSSectorToPointer p s' + i)"
      using nth [OF b(2)] by (simp only: if_False)
    then show "sector_data p' s' ! i = sector_data p s' ! i" using b by (simp add: sector_data_def ptr len)
  qed
qed

lemma write_chain:
  assumes "chain_list f c ns" "length f = MAXFAT" "length data \<le> 4096 * length ns"
    and "\<And>s. s \<in> set ns \<Longrightarrow> PFFSSectorToPointer p s + 4096 \<le> length (buffer p)"
  shows "\<exists>p'. WriteFileToSectors (length ns) f c data p = Some p' \<and> header p' = header p \<and>
     length (buffer p') = length (buffer p) \<and> (\<forall>s. s \<notin> set ns \<longrightarrow> sector_data p' s = sector_data p s) \<and>
     take (length data) (concat (map (sector_data p') ns)) = data"
  using assms
proof (induction ns arbitrary: c data p)
  case (Cons s ns)
  let ?x = "take 4096 data" and ?p = "p\<lparr>buffer := copy_image (PFFSSectorToPointer p s) (take 4096 data) (buffer p)\<rparr>"
  have s: "unat c = s" "s < MAXFAT" "chain_list f (f ! s) ns" and r: "PFFSSectorToPointer p s + 4096 \<le> length (buffer p)"
    using Cons.prems by auto
  have x: "length ?x \<le> 4096" by simp
  note w = sector_write [OF r x]
  have "\<exists>p'. WriteFileToSectors (length ns) f (f ! s) (drop 4096 data) ?p = Some p' \<and> header p' = header ?p \<and>
      length (buffer p') = length (buffer ?p) \<and> (\<forall>s. s \<notin> set ns \<longrightarrow> sector_data p' s = sector_data ?p s) \<and>
      take (length (drop 4096 data)) (concat (map (sector_data p') ns)) = drop 4096 data"
  proof (rule Cons.IH [OF s(3) Cons.prems(2)])
    show "length (drop 4096 data) \<le> 4096 * length ns" using Cons.prems(3) by simp
    show "PFFSSectorToPointer ?p t + 4096 \<le> length (buffer ?p)" if "t \<in> set ns" for t
      using Cons.prems(4) [of t] that by (simp only: w(3,5)) simp
  qed
  then obtain p' where p': "WriteFileToSectors (length ns) f (f ! s) (drop 4096 data) ?p = Some p'" "header p' = header ?p"
      "length (buffer p') = length (buffer ?p)" "\<forall>s. s \<notin> set ns \<longrightarrow> sector_data p' s = sector_data ?p s"
      "take (length data - 4096) (concat (map (sector_data p') ns)) = drop 4096 data" by auto
  have room: "\<not> PFFSSectorToPointer p s + length ?x > length (buffer p)" using r x by linarith
  have "WriteFileToSectors (length (s # ns)) f c data p = Some p'"
    using room s p'(1) Cons.prems(2) by (simp add: fat_at_def Let_def)
  moreover have "sector_data p' t = sector_data p t" if "t \<notin> set (s # ns)" for t
    using p'(4) that w(2) [of t] by auto
  moreover have "take (length data) (concat (map (sector_data p') (s # ns))) = data"
  proof -
    have "s \<notin> set ns" using chain_distinct [OF Cons.prems(1)] by simp
    then have sd: "sector_data p' s = ?x @ drop (length ?x) (sector_data p s)" using p'(4) w(1) by simp
    have l: "length (sector_data p' s) = 4096" using sd r by (simp add: sector_data_def)
    have "take (length data) (concat (map (sector_data p') (s # ns)))
        = take (length data) (sector_data p' s) @ take (length data - 4096) (concat (map (sector_data p') ns))"
      using l by simp
    also have "take (length data) (sector_data p' s) = ?x" unfolding sd using sector_data_bound [of p s] by (cases "length data \<le> 4096") simp_all
    finally show ?thesis by (simp only: p'(5) append_take_drop_id)
  qed
  ultimately show ?case using p'(2,3) w(4,5) by auto
qed simp

section \<open>Adding is update\<close>

lemma sectors_for_exact:
  assumes "len + 4095 < 2 ^ 32"
  shows "unat (of_nat len :: u32) = len" "sectors_for (of_nat len) = (len + 4095) div 4096" "len \<le> 4096 * sectors_for (of_nat len)"
proof -
  show l: "unat (of_nat len :: u32) = len" using assms by (intro u32_of_nat) simp
  have "unat (of_nat len + 4095 :: u32) = len + 4095" using l assms by (simp add: u32_add)
  then show s: "sectors_for (of_nat len) = (len + 4095) div 4096"
    by (simp add: sectors_for_def drop_bit_eq_div unat_div)
  then show "len \<le> 4096 * sectors_for (of_nat len)" by simp
qed

text \<open>What entry \<open>d\<close> of the master block \<open>m\<close> looks like when the sectors are allocated: it has the name
  and the size of the new file, and the chain \<open>ss\<close> of the old version, if there is one.\<close>

definition target :: "nat \<Rightarrow> u8 list \<Rightarrow> u32 \<Rightarrow> masterblock \<Rightarrow> nat \<Rightarrow> nat list \<Rightarrow> dir_entry \<Rightarrow> bool" where
  "target n name fsize m d ss e \<longleftrightarrow> d < MAXDIR \<and> d_size e = fsize \<and> cstr (d_name e) = name \<and> length (d_name e) = 24 \<and> in_use e \<and>
     (chain_list (fat m) (d_chain e) ss \<or> ss = [] \<and> d_chain e = FAT_FREE) \<and> (\<forall>s\<in>set ss. 0 < s \<and> s < n) \<and>
     (\<forall>i<MAXDIR. i \<noteq> d \<and> in_use (dir m ! i) \<longrightarrow> cstr (d_name (dir m ! i)) \<noteq> name \<and> set ss \<inter> set (file_sectors m (dir m ! i)) = {})"

lemma set_new_sectors: "s \<in> set (new_sectors n k ss f) \<Longrightarrow> s \<in> set ss \<or> s < n \<and> f ! s = FAT_FREE"
  by (auto simp: new_sectors_def set_free_from dest!: in_set_takeD)

lemma length_new_sectors: "k \<le> length ss + length (free_from 0 n f) \<Longrightarrow> length (new_sectors n k ss f) = k"
  by (auto simp: new_sectors_def min_def)

lemma add_entry_ok:
  assumes m: "msb_ok n m" and n: "n \<le> MAXFAT" and t: "target n name fsize m d ss e" and name: "CheckFileName name = 0"
    and k: "sectors_for fsize \<le> length ss + length (free_from 0 n (fat m))"
    and M: "alloc_result d ss (new_sectors n (sectors_for fsize) ss (fat m)) (m\<lparr>dir := (dir m)[d := e]\<rparr>) M"
  shows "msb_ok n M" "file_sectors M (dir M ! d) = new_sectors n (sectors_for fsize) ss (fat m)"
    and "in_use (dir M ! d)" "cstr (d_name (dir M ! d)) = name" "d_size (dir M ! d) = fsize"
    and "\<And>i. i < MAXDIR \<Longrightarrow> i \<noteq> d \<Longrightarrow> dir M ! i = dir m ! i"
    and "\<And>i. i < MAXDIR \<Longrightarrow> i \<noteq> d \<Longrightarrow> in_use (dir m ! i) \<Longrightarrow> file_sectors M (dir m ! i) = file_sectors m (dir m ! i)"
proof -
  let ?ns = "new_sectors n (sectors_for fsize) ss (fat m)"
  obtain c where c: "c = d_chain (dir M ! d)" by simp
  let ?e = "e\<lparr>d_chain := c\<rparr>"
  note D = msb_okD [OF m] and T = t [unfolded target_def] and R = M [unfolded alloc_result_def]
  have dirM: "dir M = (dir m)[d := ?e]"
  proof -
    have "dir M = (dir (m\<lparr>dir := (dir m)[d := e]\<rparr>))[d := (dir (m\<lparr>dir := (dir m)[d := e]\<rparr>) ! d)\<lparr>d_chain := c\<rparr>]"
      using R unfolding c by blast
    moreover have "dir (m\<lparr>dir := (dir m)[d := e]\<rparr>) = (dir m)[d := e]" by simp
    moreover have "(dir m)[d := e] ! d = e" using T D(3) by simp
    ultimately show ?thesis by (simp only: list_update_overwrite)
  qed
  have ent: "dir M ! d = ?e"
    using T D(3) by (subst dirM) simp
  show other: "dir M ! i = dir m ! i" if "i < MAXDIR" "i \<noteq> d" for i using that by (subst dirM) simp
  show use: "in_use (dir M ! d)" and nm: "cstr (d_name (dir M ! d)) = name" and sz: "d_size (dir M ! d) = fsize"
    using T unfolding ent by (simp_all add: in_use_def)
  have ch: "chain_list (fat M) (d_chain (dir M ! d)) ?ns" using R by blast
  show fs: "file_sectors M (dir M ! d) = ?ns"
    using chain_walk [OF ch] length_new_sectors [OF k] by (simp add: file_sectors_def sz)
  have rng: "0 < s \<and> s < n" if "s \<in> set ?ns" for s
  proof -
    from set_new_sectors [OF that] show ?thesis
    proof
      assume "s < n \<and> fat m ! s = FAT_FREE"
      then show ?thesis using D(2) by (cases s) auto
    qed (use T in blast)
  qed
  have mine: "s \<notin> set (file_sectors m (dir m ! i))" if i: "i < MAXDIR" "i \<noteq> d" "in_use (dir m ! i)" and s: "s \<in> set ?ns \<union> set ss" for i s
  proof
    assume a: "s \<in> set (file_sectors m (dir m ! i))"
    have c: "chain_list (fat m) (d_chain (dir m ! i)) (file_sectors m (dir m ! i))" using D(5) [OF i(1,3)] by (simp add: file_ok_def)
    have "s \<notin> set ss" using T i a by blast
    then have "fat m ! s = FAT_FREE" using s set_new_sectors by blast
    then show False using chain_nonfree [OF c a] by simp
  qed
  have keep: "file_sectors M (dir m ! i) = file_sectors m (dir m ! i)" "file_ok n M (dir m ! i)"
    if i: "i < MAXDIR" "i \<noteq> d" "in_use (dir m ! i)" for i
  proof -
    have ok: "file_ok n m (dir m ! i)" by (rule D(5) [OF i(1,3)])
    have "fat M ! s = fat m ! s" if s: "s \<in> set (file_sectors m (dir m ! i))" for s
    proof -
      have "s < MAXFAT" using ok s chain_range by (auto simp: file_ok_def)
      then have "fat M ! s = fat (m\<lparr>dir := (dir m)[d := e]\<rparr>) ! s" using R mine [OF i] s by blast
      then show ?thesis by simp
    qed
    then show "file_sectors M (dir m ! i) = file_sectors m (dir m ! i)" "file_ok n M (dir m ! i)"
      using file_ok_frame [OF ok] by blast+
  qed
  show "file_sectors M (dir m ! i) = file_sectors m (dir m ! i)"
    if "i < MAXDIR" "i \<noteq> d" "in_use (dir m ! i)" for i by (rule keep(1) [OF that])
  show "msb_ok n M"
  proof (rule msb_okI)
    have "mark M = mark m" "length (fat M) = MAXFAT" using R by auto
    moreover have "length (d_name (dir M ! i)) = 24" if "i < MAXDIR" for i
      using other [of i] that ent T D(1) by (cases "i = d") (auto simp: msb_shape_def list_all_length)
    moreover have "length (dir M) = MAXDIR" using D(3) by (subst dirM) simp
    ultimately show "msb_shape M" using D(1) by (simp add: msb_shape_def list_all_length)
    have "0 \<notin> set ?ns \<union> set ss" using rng T by blast
    then have "fat M ! 0 = fat (m\<lparr>dir := (dir m)[d := e]\<rparr>) ! 0" using R by (metis zero_less_numeral)
    then show "fat M ! 0 \<noteq> FAT_FREE" using D(2) by simp
    show "file_ok n M (dir M ! i)" if i: "i < MAXDIR" "in_use (dir M ! i)" for i
    proof (cases "i = d")
      case True
      then show ?thesis using ch rng name by (simp add: file_ok_def fs nm list_all_iff)
    next
      case False
      then show ?thesis using keep(2) [of i] other [of i] i by simp
    qed
    have one: "apart M (dir M ! i) (dir M ! d)" if i: "i < MAXDIR" "i \<noteq> d" "in_use (dir M ! i)" for i
    proof -
      have e: "dir M ! i = dir m ! i" by (rule other [OF i(1,2)])
      then have u: "in_use (dir m ! i)" using i by simp
      have "cstr (d_name (dir m ! i)) \<noteq> name" using T i(1,2) u by blast
      moreover have "set (file_sectors m (dir m ! i)) \<inter> set ?ns = {}" using mine [OF i(1,2) u] by blast
      ultimately show ?thesis by (simp add: apart_def e nm fs keep(1) [OF i(1,2) u])
    qed
    show "apart M (dir M ! i) (dir M ! j)"
      if ij: "i < MAXDIR" "j < MAXDIR" "i \<noteq> j" "in_use (dir M ! i)" "in_use (dir M ! j)" for i j
    proof -
      consider "i = d" | "j = d" | "i \<noteq> d" "j \<noteq> d" by blast
      then show ?thesis
      proof cases
        case 1
        then show ?thesis using one [of j] ij by (simp add: apart_sym)
      next
        case 2
        then show ?thesis using one [of i] ij by simp
      next
        case 3
        then have "apart m (dir m ! i) (dir m ! j)" using D(6) ij other by simp
        then show ?thesis using 3 ij other keep(1) by (simp add: apart_def)
      qed
    qed
  qed
qed

text \<open>Whether there is room: sectors of the old version may be used again, a new name needs an entry.\<close>

definition room :: "pfi \<Rightarrow> masterblock \<Rightarrow> u8 list \<Rightarrow> nat \<Rightarrow> bool" where
  "room p m name k \<longleftrightarrow>
    (case PFFSFindFile m name of
       Some d \<Rightarrow> k \<le> length (file_sectors m (dir m ! d)) + PFFSFree p m
     | None \<Rightarrow> FindFreeDir m \<noteq> None \<and> k \<le> PFFSFree p m)"

lemma cstr_new_entry: "CheckFileName name = 0 \<Longrightarrow> cstr (d_name (new_entry name)) = name \<and> in_use (new_entry name) \<and> length (d_name (new_entry name)) = 24"
proof -
  assume "CheckFileName name = 0"
  then have v: "length name \<le> 12" "name \<noteq> []" "0 \<notin> set name" "name ! 0 \<noteq> 0xFF"
    using valid_name_chars [of name] by (auto simp: name_grammar)
  then have "cstr (name @ replicate (24 - length name) 0) = name"
    by (subst cstr_def, subst takeWhile_append2) auto
  moreover have "name ! 0 \<noteq> 0" using v by (metis length_greater_0_conv nth_mem)
  ultimately show ?thesis using v by (simp add: new_entry_def in_use_def nth_append)
qed

lemma target_for:
  assumes m: "msb_ok n m" and name: "CheckFileName name = 0" and E: "entry_for name m = Some (d, old, m1)"
  shows "\<exists>ss e. target n name fsize m d ss e \<and> old = length ss \<and>
    m1\<lparr>dir := (dir m1)[d := (dir m1 ! d)\<lparr>d_size := fsize\<rparr>]\<rparr> = m\<lparr>dir := (dir m)[d := e]\<rparr> \<and>
    (\<forall>k. room p m name k = (k \<le> length ss + PFFSFree p m))"
proof (cases rule: find_file_cases [OF m, of name])
  case (1 x)
  note D = msb_okD [OF m]
  have d: "x = d" "m1 = m" "old = sectors_for (d_size (dir m ! d))" using E 1 by (auto simp: entry_for_def)
  let ?ss = "file_sectors m (dir m ! d)" and ?e = "(dir m ! d)\<lparr>d_size := fsize\<rparr>"
  have ok: "file_ok n m (dir m ! d)" using D(5) 1 d by blast
  have "length (walk f j c) = j" for f j c by (induction j arbitrary: c) auto
  then have "old = length ?ss" using d by (simp add: file_sectors_def)
  moreover have "length (d_name (dir m ! d)) = 24" using D(1) 1(2) d(1) by (simp add: msb_shape_def list_all_length)
  moreover have "cstr (d_name (dir m ! i)) \<noteq> name \<and> set ?ss \<inter> set (file_sectors m (dir m ! i)) = {}"
    if "i < MAXDIR" "i \<noteq> d" "in_use (dir m ! i)" for i
    using D(6) [of i d] that 1 d by (auto simp: apart_def)
  ultimately have "target n name fsize m d ?ss ?e \<and> old = length ?ss"
    using 1 d ok file_sectors_pos [OF ok] by (auto simp: target_def file_ok_def in_use_def)
  then show ?thesis using 1 d by (intro exI [of _ ?ss] exI [of _ ?e]) (simp add: room_def)
next
  case 2
  note D = msb_okD [OF m]
  from E 2 have f: "FindFreeDir m = Some d" and d: "old = 0" "m1 = m\<lparr>dir := (dir m)[d := new_entry name]\<rparr>"
    by (auto simp: entry_for_def split: option.splits)
  then have x: "d < MAXDIR" "d_name (dir m ! d) ! 0 = 0xFF"
    by (auto simp: FindFreeDir_def find_free_find find_Some_iff simp del: upt_rec_numeral)
  let ?e = "(new_entry name)\<lparr>d_size := fsize\<rparr>"
  have "target n name fsize m d [] ?e"
    using x cstr_new_entry [OF name] 2(2) by (auto simp: target_def in_use_def new_entry_def)
  moreover have "m1\<lparr>dir := (dir m1)[d := (dir m1 ! d)\<lparr>d_size := fsize\<rparr>]\<rparr> = m\<lparr>dir := (dir m)[d := ?e]\<rparr>"
    using d(2) x(1) D(3) by simp
  ultimately show ?thesis using d f 2 by (intro exI [of _ "[]"] exI [of _ ?e]) (simp add: room_def)
qed

lemma entry_name:
  assumes m: "msb_ok n m" and E: "entry_for name m = Some (d, old, m1)" and u: "in_use (dir m ! d)"
  shows "cstr (d_name (dir m ! d)) = name"
proof (cases rule: find_file_cases [OF m, of name])
  case (1 x)
  then show ?thesis using E by (auto simp: entry_for_def)
next
  case 2
  then have "FindFreeDir m = Some d" using E by (auto simp: entry_for_def split: option.splits)
  then have "d_name (dir m ! d) ! 0 = 0xFF"
    by (auto simp: FindFreeDir_def find_free_find find_Some_iff simp del: upt_rec_numeral)
  then show ?thesis using u by (simp add: in_use_def)
qed

text \<open>The header and the size of the buffer, which no operation changes.\<close>

definition same_shape :: "pfi \<Rightarrow> pfi \<Rightarrow> bool" where
  "same_shape p p' \<longleftrightarrow> header p' = header p \<and> length (buffer p') = length (buffer p)"

lemma add_run:
  assumes p: "fs_ok p" and l: "load_msb p = Some m" and name: "CheckFileName name = 0"
    and len: "length data + 4095 < 2 ^ 32"
  shows "\<not> room p m name ((length data + 4095) div 4096) \<Longrightarrow> add_data name data p = Some (False, p)"
    and "room p m name ((length data + 4095) div 4096) \<Longrightarrow>
      \<exists>p'. add_data name data p = Some (True, p') \<and> fs_ok p' \<and> pffs_files p' = (pffs_files p)(name \<mapsto> data) \<and> same_shape p p'"
proof -
  let ?n = "PFIGetPFFSMaxFAT p" and ?k = "(length data + 4095) div 4096" and ?z = "of_nat (length data) :: u32"
  have m: "msb_ok ?n m" using fs_load [OF p] l by simp
  note D = msb_okD [OF m] and z = sectors_for_exact [OF len]
  have free: "length (free_from 0 ?n (fat m)) = PFFSFree p m" by (simp add: free_from_def PFFSFree_def)
  have "add_data name data p = Some (False, p) \<and> \<not> room p m name ?k \<or>
      room p m name ?k \<and> (\<exists>p'. add_data name data p = Some (True, p') \<and> fs_ok p' \<and> pffs_files p' = (pffs_files p)(name \<mapsto> data) \<and> same_shape p p')"
  proof (cases "entry_for name m")
    case None
    then have "\<not> room p m name ?k" by (auto simp: entry_for_def room_def split: option.splits)
    then show ?thesis using None l by (simp add: add_data_def Let_def)
  next
    case (Some x)
    obtain d old m1 where x: "x = (d, old, m1)" by (cases x)
    obtain ss e where t: "target ?n name ?z m d ss e" and old: "old = length ss"
      and m2: "m1\<lparr>dir := (dir m1)[d := (dir m1 ! d)\<lparr>d_size := ?z\<rparr>]\<rparr> = m\<lparr>dir := (dir m)[d := e]\<rparr>"
      and rm: "\<And>k. room p m name k = (k \<le> length ss + PFFSFree p m)"
      using target_for [OF m name, of d old m1 ?z p] Some x by blast
    note T = t [unfolded target_def]
    let ?m2 = "m\<lparr>dir := (dir m)[d := e]\<rparr>"
    have e2: "dir ?m2 ! d = e" using T D(3) by simp
    have al: "?k \<le> length ss + PFFSFree p m \<Longrightarrow>
        \<exists>M. AllocateSectors ?n d ?k (length ss) ?m2 = Some (Some M) \<and> alloc_result d ss (new_sectors ?n ?k ss (fat m)) ?m2 M"
      "length ss + PFFSFree p m < ?k \<Longrightarrow> AllocateSectors ?n d ?k (length ss) ?m2 = Some None"
      using allocate [of ?m2 d ss ?n ?k] T D(3,4) e2 free by auto
    have run: "add_data name data p = (case AllocateSectors ?n d ?k (length ss) ?m2 of
        None \<Rightarrow> None | Some None \<Rightarrow> Some (False, p)
      | Some (Some m3) \<Rightarrow> (case WriteFileToSectors ?k (fat m3) (d_chain (dir m3 ! d)) data p of
            None \<Rightarrow> None | Some p1 \<Rightarrow> Some (True, store_msb m3 p1)))"
      using l Some x m2 old by (simp add: add_data_def Let_def z(2) cong: option.case_cong)
    show ?thesis
    proof (cases "?k \<le> length ss + PFFSFree p m")
      case False
      then show ?thesis using al(2) run rm by simp
    next
      case True
      then obtain M where A: "AllocateSectors ?n d ?k (length ss) ?m2 = Some (Some M)"
        and R: "alloc_result d ss (new_sectors ?n ?k ss (fat m)) ?m2 M" using al(1) by blast
      let ?ns = "new_sectors ?n ?k ss (fat m)"
      note E = add_entry_ok [OF m maxfat_le t name, unfolded z(2) free, OF True R]
      have ch: "chain_list (fat M) (d_chain (dir M ! d)) ?ns" and lM: "length (fat M) = MAXFAT"
        using R by (auto simp: alloc_result_def)
      have dM: "d < MAXDIR" using T by blast
      have pos: "0 < s \<and> s < ?n" if "s \<in> set ?ns" for s
        using file_sectors_pos [OF msb_okD(5) [OF E(1) dM E(3)]] that E(2) by simp
      have ln: "length ?ns = ?k" using length_new_sectors [of ?k ss ?n "fat m"] True free by simp
      have data: "length data \<le> 4096 * length ?ns" using z(3) unfolding z(2) ln .
      have rng: "PFFSSectorToPointer p s + 4096 \<le> length (buffer p)" if "s \<in> set ?ns" for s
        using fs_sector [OF p] pos [OF that] by blast
      obtain p1 where W: "WriteFileToSectors ?k (fat M) (d_chain (dir M ! d)) data p = Some p1"
        and p1: "header p1 = header p" "length (buffer p1) = length (buffer p)"
          "\<forall>s. s \<notin> set ?ns \<longrightarrow> sector_data p1 s = sector_data p s"
          "take (length data) (concat (map (sector_data p1) ?ns)) = data"
        using write_chain [OF ch lM data rng] unfolding ln by blast
      have same: "PFIGetPFFSTop p1 = PFIGetPFFSTop p" "PFIGetPFFSMaxFAT p1 = ?n"
        using p1(1) by (simp_all add: PFIGetPFFSTop_def PFIGetPFFSMaxFAT_def)
      have lay: "PFIGetPFFSTop p1 + 4096 * max 1 (PFIGetPFFSMaxFAT p1) \<le> length (buffer p1)"
        using p unfolding same p1(2) by (simp add: fs_ok_def)
      have okM: "msb_ok (PFIGetPFFSMaxFAT p1) M" using E(1) same by simp
      note C = commit [OF lay okM]
      have new: "pffs_files (store_msb M p1) name = Some data"
        using C(3) [OF dM E(3)] p1(4) z(1) by (simp add: E(2,4,5) file_data_def)
      have apartM: "set ?ns \<inter> set (file_sectors m (dir m ! i)) = {} \<and> cstr (d_name (dir m ! i)) \<noteq> name"
        if i: "i < MAXDIR" "i \<noteq> d" "in_use (dir m ! i)" for i
      proof -
        have "apart M (dir M ! i) (dir M ! d)"
          using msb_okD(6) [OF E(1) i(1) dM i(2)] E(3) E(6) [OF i(1,2)] i(3) by simp
        then show ?thesis using E(2,4) E(6) [OF i(1,2)] E(7) [OF i] by (auto simp: apart_def)
      qed
      have old_files: "pffs_files (store_msb M p1) (cstr (d_name (dir m ! i))) = pffs_files p (cstr (d_name (dir m ! i)))"
        if i: "i < MAXDIR" "i \<noteq> d" "in_use (dir m ! i)" for i
      proof -
        have "file_data p1 M (dir m ! i) = file_data p m (dir m ! i)"
          using E(7) [OF i] p1(3) apartM [OF i] by (intro file_data_cong) auto
        then show ?thesis
          using C(3) [of i] files_entry [OF l m i(1,3)] E(6) [OF i(1,2)] i by simp
      qed
      have "pffs_files (store_msb M p1) nm = ((pffs_files p)(name \<mapsto> data)) nm" for nm
      proof (cases "nm = name")
        case True
        then show ?thesis using new by simp
      next
        case False
        show ?thesis
        proof (cases "\<exists>i<MAXDIR. i \<noteq> d \<and> in_use (dir m ! i) \<and> cstr (d_name (dir m ! i)) = nm")
          case True
          then show ?thesis using old_files False by auto
        next
          case nf: False
          have "pffs_files (store_msb M p1) nm = None"
          proof (rule files_none [OF C(2) msb_okD(3) [OF E(1)]])
            fix i assume "i < MAXDIR" "in_use (dir M ! i)"
            then show "cstr (d_name (dir M ! i)) \<noteq> nm" using nf E(4) E(6) [of i] False by (cases "i = d") auto
          qed
          moreover have "pffs_files p nm = None"
          proof (rule files_none [OF l D(3)])
            fix i assume i: "i < MAXDIR" "in_use (dir m ! i)"
            show "cstr (d_name (dir m ! i)) \<noteq> nm"
            proof (cases "i = d")
              case True
              have "cstr (d_name (dir m ! d)) = name" if "in_use (dir m ! d)"
                using entry_name [OF m Some [unfolded x]] that by simp
              then show ?thesis using True i False by auto
            qed (use nf i in auto)
          qed
          ultimately show ?thesis using False by simp
        qed
      qed
      then have "pffs_files (store_msb M p1) = (pffs_files p)(name \<mapsto> data)" ..
      moreover have "PFIGetPFFSTop p1 + 4096 \<le> length (buffer p1)" using lay by linarith
      then have "same_shape p (store_msb M p1)"
        using length_store [OF msb_okD(1) [OF E(1)]] p1(1,2) by (simp add: same_shape_def)
      ultimately show ?thesis using run A W C(1) rm True by simp
    qed
  qed
  then show "\<not> room p m name ?k \<Longrightarrow> add_data name data p = Some (False, p)"
    "room p m name ?k \<Longrightarrow>
      \<exists>p'. add_data name data p = Some (True, p') \<and> fs_ok p' \<and> pffs_files p' = (pffs_files p)(name \<mapsto> data) \<and> same_shape p p'" by blast+
qed

section \<open>The image as a map of files\<close>

text \<open>An empty file area of three sectors, the first one taken by the master block.\<close>

definition sample_msb :: masterblock where
  "sample_msb = \<lparr> mark = \<lparr> m_ptr = 0, m_resv = 0, m_signature = replicate 24 0 \<rparr>,
     dir = replicate MAXDIR blank_entry, fat = 0xCCCC # replicate 495 FAT_FREE \<rparr>"

definition sample_info :: sysinfo where
  "sample_info = \<lparr> si_size = 32, hard_ver = 0x100, bios_ver = 0x11D, bios_date = 0xAA7, sys_clock = 24000000,
     vdde_voltage = 3300, resv1 = 0, sram_top = 0x100000, sram_end = 0x140000, pffs_top = 0xC00000, pffs_end = 0xC03000 \<rparr>"

definition sample_image :: pfi where
  "sample_image = store_msb sample_msb
     \<lparr> header = \<lparr> signature = PFI_SIGNATURE, img_offset = 48, sysinfo = sample_info \<rparr>, buffer = replicate 12288 0 \<rparr>"

lemma sample_msb_ok: "msb_ok n sample_msb"
  by (intro msb_okI) (simp_all add: sample_msb_def msb_shape_def list_all_iff)

lemma sample_geometry [simp]: "PFIGetPFFSTop sample_image = 0" "PFIGetPFFSMaxFAT sample_image = 3"
  by (simp_all add: sample_image_def PFIGetPFFSTop_def PFIGetPFFSMaxFAT_def sample_info_def)

lemma sample_image_ok: "fs_ok sample_image" "load_msb sample_image = Some sample_msb"
proof -
  let ?p = "\<lparr> header = \<lparr> signature = PFI_SIGNATURE, img_offset = 48, sysinfo = sample_info \<rparr>, buffer = replicate 12288 0 \<rparr>"
  have g: "PFIGetPFFSTop ?p = 0" "PFIGetPFFSMaxFAT ?p = 3"
    by (simp_all add: PFIGetPFFSTop_def PFIGetPFFSMaxFAT_def sample_info_def)
  have "PFIGetPFFSTop ?p + 4096 * max 1 (PFIGetPFFSMaxFAT ?p) \<le> length (buffer ?p)" unfolding g by simp
  from commit [OF this sample_msb_ok] show "fs_ok sample_image" "load_msb sample_image = Some sample_msb"
    by (simp_all add: sample_image_def)
qed

lemma sample_files: "pffs_files sample_image = Map.empty"
  by (simp add: pffs_files_def sample_image_ok sample_msb_def)

lemma sectors_for_size: "sectors_for z = (if unat z + 4095 < 2 ^ 32 then (unat z + 4095) div 4096 else 0)"
proof -
  have "unat (z + 4095) = (if unat z + 4095 < 2 ^ 32 then unat z + 4095 else unat z + 4095 - 2 ^ 32)"
    by (simp add: u32_add)
  moreover have "sectors_for z = unat (z + 4095) div 4096"
    by (simp add: sectors_for_def drop_bit_eq_div unat_div)
  ultimately show ?thesis using u32_less [of z] by auto
qed

lemma sectors_of_data:
  assumes p: "fs_ok p" and l: "load_msb p = Some m" and i: "i < MAXDIR" "in_use (dir m ! i)"
  shows "length (file_sectors m (dir m ! i)) = (length (file_data p m (dir m ! i)) + 4095) div 4096"
proof -
  let ?e = "dir m ! i"
  have m: "msb_ok (PFIGetPFFSMaxFAT p) m" using fs_load [OF p] l by simp
  have "length (walk f j c) = j" for f j c by (induction j arbitrary: c) auto
  then have len: "length (file_sectors m ?e) = sectors_for (d_size ?e)" by (simp add: file_sectors_def)
  have "list_all (\<lambda>s. length (sector_data p s) = 4096) (file_sectors m ?e)"
    using file_sectors_pos [OF msb_okD(5) [OF m i]] fs_sector [OF p]
    by (fastforce simp: list_all_iff sector_data_def)
  from length_concat_fixed [OF this] have "length (file_data p m ?e) = min (unat (d_size ?e)) (4096 * sectors_for (d_size ?e))"
    by (simp add: file_data_def len min.commute)
  then show ?thesis by (auto simp: len sectors_for_size)
qed

lemma delete_shape:
  assumes "fs_ok p" "PFFSDeleteFile name p = Some (b, p')" shows "same_shape p p'"
proof -
  obtain m where l: "load_msb p = Some m" and m: "msb_ok (PFIGetPFFSMaxFAT p) m" using fs_load [OF assms(1)] by blast
  have "PFIGetPFFSTop p + 4096 * max 1 (PFIGetPFFSMaxFAT p) \<le> length (buffer p)" using assms(1) by (simp add: fs_ok_def)
  then have top: "PFIGetPFFSTop p + 4096 \<le> length (buffer p)" by linarith
  show ?thesis
  proof (cases rule: find_file_cases [OF m, of name])
    case (1 d)
    then show ?thesis
      using assms(2) delete_run [OF l m, of name] length_store [OF msb_okD(1) [OF erase_entry_ok(1) [OF m 1(2,3)]] top]
      by (auto simp: same_shape_def)
  next
    case 2
    then show ?thesis using assms(2) delete_run [OF l m, of name] by (simp add: same_shape_def)
  qed
qed

lemma delete_in_place:
  assumes p: "fs_ok p" and l: "load_msb p = Some m" and d: "d < MAXDIR" "in_use (dir m ! d)"
  shows "PFFSFree (store_msb (erase_entry d m) p) (erase_entry d m)
     = PFFSFree p m + (length (file_data p m (dir m ! d)) + 4095) div 4096"
proof -
  have m: "msb_ok (PFIGetPFFSMaxFAT p) m" using fs_load [OF p] l by simp
  show ?thesis using delete_free [OF m d refl] sectors_of_data [OF p l d] by (simp add: PFFSFree_def)
qed

text \<open>
  C27: Deleting a file removes its name from the map of files and nothing else: every other file keeps
  its name and its contents, the image stays in order, and the free space grows by the sectors the
  file had. If there is no such file the image is left as it was. The walk over the chain never leaves
  the allocation table.
\<close>
theorem pffs_delete_removes:
  assumes "fs_ok p"
  shows "\<exists>p' m m'. PFFSDeleteFile name p = Some (name \<in> dom (pffs_files p), p') \<and> fs_ok p' \<and>
     pffs_files p' = (pffs_files p)(name := None) \<and> load_msb p = Some m \<and> load_msb p' = Some m' \<and>
     PFFSFree p' m' = PFFSFree p m + (case pffs_files p name of None \<Rightarrow> 0 | Some data \<Rightarrow> (length data + 4095) div 4096)"
proof -
  obtain m where l: "load_msb p = Some m" and m: "msb_ok (PFIGetPFFSMaxFAT p) m" using fs_load [OF assms] by blast
  show ?thesis
  proof (cases rule: find_file_cases [OF m, of name])
    case (1 d)
    have f: "pffs_files p name = Some (file_data p m (dir m ! d))" using files_entry [OF l m 1(2,3)] 1(4) by simp
    have "PFIGetPFFSTop p + 4096 * max 1 (PFIGetPFFSMaxFAT p) \<le> length (buffer p)" using assms by (simp add: fs_ok_def)
    then have top: "PFIGetPFFSTop p + 4096 \<le> length (buffer p)" by linarith
    have "load_msb (store_msb (erase_entry d m) p) = Some (erase_entry d m)"
      by (rule reload_store [OF msb_okD(1) [OF erase_entry_ok(1) [OF m 1(2,3)]] top])
    then show ?thesis
      using delete_files [OF assms l 1(2,3)] delete_run [OF l m, of name] delete_in_place [OF assms l 1(2,3)] 1 f l by auto
  next
    case 2
    have "pffs_files p name = None" using 2(2) by (intro files_none [OF l msb_okD(3) [OF m]]) blast
    then show ?thesis using delete_run [OF l m, of name] 2(1) assms l by (auto simp: fun_upd_idem)
  qed
qed

text \<open>
  C4: Adding a disk file makes the map of files hold its bytes under the given name, or under the last
  component of the path, and changes no other file. It fails, leaving the image as it was, exactly when
  the name is not a valid one, or there is no room: too few sectors, counting those of the old version
  of the file, or no directory entry for a new name. The image stays in order in either case.
\<close>
theorem pffs_add_updates:
  assumes "fs_ok p" "load_msb p = Some m" "disk path = Some data" "length data + 4095 < 2 ^ 32"
    and "name = (if given \<noteq> [] then given else base_name path)"
  shows "\<exists>ok p'. PFFSAddFileAs disk path given p = Some (ok, p') \<and> fs_ok p' \<and>
     ok = (CheckFileName name = 0 \<and> room p m name ((length data + 4095) div 4096)) \<and>
     pffs_files p' = (if ok then (pffs_files p)(name \<mapsto> data) else pffs_files p) \<and> (\<not> ok \<longrightarrow> p' = p)"
proof (cases "CheckFileName name = 0")
  case True
  then have "list_all (\<lambda>c. c \<noteq> slash) name"
    by (fastforce simp: name_grammar valid_name_def list_all_iff slash_def name_char_def)
  then have "\<not> (given \<noteq> [] \<and> slash \<in> set given)" using assms(5) by (auto simp: list_all_iff)
  then have run: "PFFSAddFileAs disk path given p = add_data name data p"
    using True assms(3,5) by (auto simp: PFFSAddFileAs_def)
  show ?thesis
    unfolding run using True add_run [OF assms(1,2) True assms(4)] assms(1)
    by (cases "room p m name ((length data + 4095) div 4096)") auto
next
  case False
  then have "PFFSAddFileAs disk path given p = Some (False, p)"
    using assms(5) by (auto simp: PFFSAddFileAs_def Let_def)
  then show ?thesis using assms(1) False by (intro exI [of _ False] exI [of _ p]) simp
qed

lemma sample_room: "room sample_image sample_msb [0x61] 1"
proof -
  have "PFFSFindFile sample_msb [0x61] = None"
    by (cases rule: find_file_cases [OF sample_msb_ok, of "[0x61]"]) (auto simp: sample_msb_def)
  moreover have "FindFreeDir sample_msb = Some 0"
    by (simp add: FindFreeDir_def find_free_find sample_msb_def blank_entry_def upt_rec)
  moreover have "PFFSFree sample_image sample_msb = 2" by (simp add: PFFSFree_def sample_msb_def upt_rec)
  ultimately show ?thesis by (simp add: room_def)
qed

theorem pffs_add_updates_witness:
  "\<exists>p'. PFFSAddFileAs [[0x2F, 0x61] \<mapsto> [1, 2, 3]] [0x2F, 0x61] [] sample_image = Some (True, p') \<and>
     PFFSExtractFile p' [0x61] = Some (Some [1, 2, 3])"
proof -
  have b: "base_name [0x2F, 0x61] = [0x61]" by (simp add: base_name_def slash_def)
  have n: "CheckFileName [0x61] = 0" by (simp add: CheckFileName_def name_char_def)
  have "room sample_image sample_msb [0x61] ((length [1, 2, 3 :: u8] + 4095) div 4096)" using sample_room by simp
  then obtain p' where p': "PFFSAddFileAs [[0x2F, 0x61] \<mapsto> [1, 2, 3]] [0x2F, 0x61] [] sample_image = Some (True, p')"
    "fs_ok p'" "pffs_files p' = (pffs_files sample_image)([0x61] \<mapsto> [1, 2, 3])"
    using pffs_add_updates [OF sample_image_ok, of "[[0x2F, 0x61] \<mapsto> [1, 2, 3]]" "[0x2F, 0x61]" "[1, 2, 3]" "[0x61]" "[]"] b n
    by auto
  then show ?thesis using extract_is_lookup [OF p'(2), of "[0x61]"] by auto
qed

lemma sample_added:
  "\<exists>p'. add_data [0x61] [1, 2, 3] sample_image = Some (True, p') \<and> fs_ok p' \<and> pffs_files p' = [[0x61] \<mapsto> [1, 2, 3]]"
  using add_run(2) [OF sample_image_ok, of "[0x61]" "[1, 2, 3]"] sample_room
  by (auto simp: CheckFileName_def name_char_def sample_files)

theorem pffs_delete_removes_witness:
  "\<exists>p p'. fs_ok p \<and> pffs_files p = [[0x61] \<mapsto> [1, 2, 3]] \<and> PFFSDeleteFile [0x61] p = Some (True, p') \<and>
     fs_ok p' \<and> pffs_files p' = Map.empty"
proof -
  obtain p where p: "fs_ok p" "pffs_files p = [[0x61] \<mapsto> [1, 2, 3]]" using sample_added by blast
  show ?thesis using pffs_delete_removes [OF p(1), of "[0x61]"] p by auto
qed

text \<open>
  Extracting gives the contents the map of files has under the name, byte for byte and cut at the
  size of the file, or reports that there is no such file, and never reads outside the image.
\<close>
theorem pffs_extract_lookup:
  "fs_ok p \<Longrightarrow> PFFSExtractFile p name = Some (pffs_files p name)"
  by (rule extract_is_lookup)

theorem pffs_extract_lookup_witness: "\<exists>p. fs_ok p \<and> PFFSExtractFile p [0x61] = Some (Some [1, 2, 3])"
proof -
  obtain p where p: "fs_ok p" "pffs_files p = [[0x61] \<mapsto> [1, 2, 3]]" using sample_added by blast
  show ?thesis using pffs_extract_lookup [OF p(1), of "[0x61]"] p by auto
qed

end
