(* ===== verification/PfiTools.thy ===== *)
theory PfiTools
  imports PffsAdd
begin

text \<open>
  The host tools around the file system: opening and saving an image (\<^verbatim>\<open>tools/pfi.c\<close>), making one from a
  kernel (\<^verbatim>\<open>tools/mkpfi.c\<close>), reading one from a device (\<^verbatim>\<open>tools/ripper.c\<close>) and the archiver
  (\<^verbatim>\<open>tools/pfar.c\<close>). Files are byte lists; what \<open>malloc\<close> returns, a fresh stack buffer and the memory
  of the device are arguments.
\<close>

section \<open>Opening and saving an image\<close>

text \<open>\<open>for (size = 1; size < flashsize; size <<= 1)\<close>, which need not end: the value is then \<open>None\<close>.\<close>

partial_function (option) size_loop :: "u32 \<Rightarrow> u32 \<Rightarrow> u32 option" where
  "size_loop s flashsize = (if s < flashsize then size_loop (push_bit 1 s) flashsize else Some s)"

definition flash_bytes :: "sysinfo \<Rightarrow> u32 option" where
  "flash_bytes si = size_loop 1 (pffs_end si - FLASH_TOP)"

text \<open>The loop over \<open>fread\<close>: sector by sector into the buffer, \<open>None\<close> if one would go over its end.\<close>

function read_sectors :: "nat \<Rightarrow> u8 list \<Rightarrow> u8 list \<Rightarrow> u8 list option" where
  "read_sectors pos data buf =
    (if pos \<ge> length buf then Some buf
     else let chunk = take 4096 data
          in if pos + length chunk > length buf then None
             else read_sectors (pos + 4096) (drop 4096 data) (copy_image pos chunk buf))"
  by pat_completeness auto
termination by (relation "measure (\<lambda>(pos, data, buf). length buf - pos)") auto

declare read_sectors.simps [simp del]

text \<open>
  What \<open>PFIOpen\<close> does: it opens the image, fails, or, when the size is below a sector, \<open>fread\<close> writes past the end of the
  buffer (behaviour the language leaves undefined). The value is \<open>None\<close> when the call does not return. The call of
  \<open>PFFSLoadMasterBlock\<close> at its end only sets a pointer into the buffer.
\<close>

datatype open_result = Opened pfi | NotOpened | Overrun

definition PFIOpen :: "(nat \<Rightarrow> u8 list option) \<Rightarrow> u8 list option \<Rightarrow> open_result option" where
  "PFIOpen malloc file =
    (case file of
       None \<Rightarrow> Some NotOpened
     | Some bs \<Rightarrow>
         if length bs < HEADER_SIZE then Some NotOpened
         else let h = header_at bs
              in if \<not> signature_ok (signature h) then Some NotOpened
                 else case flash_bytes (sysinfo h) of
                     None \<Rightarrow> None
                   | Some n \<Rightarrow>
                       (case malloc (unat n) of
                          None \<Rightarrow> Some NotOpened
                        | Some buf \<Rightarrow>
                            (case read_sectors 0 (drop (unat (img_offset h)) bs) buf of
                               None \<Rightarrow> Some Overrun
                             | Some b \<Rightarrow> Some (Opened \<lparr> header = h, buffer = b \<rparr>))))"

definition image_file :: "pfi_header \<Rightarrow> u8 list \<Rightarrow> u8 list" where
  "image_file h img = header_bytes h @ replicate (PFI_IMAGE_OFFSET - HEADER_SIZE) 0xFF @ img"

text \<open>The bytes written, and the image with the offset set; the file can be opened.\<close>

definition PFISave :: "pfi \<Rightarrow> u8 list \<times> pfi" where
  "PFISave p = (let q = p\<lparr>header := (header p)\<lparr>img_offset := of_nat PFI_IMAGE_OFFSET\<rparr>\<rparr>
     in (image_file (header q) (buffer q), q))"

lemma read_sectors_all:
  "4096 dvd length buf - pos \<Longrightarrow> pos \<le> length buf \<Longrightarrow>
   read_sectors pos data buf = Some (take pos buf @ take (length buf - pos) data @ drop (pos + min (length buf - pos) (length data)) buf)"
proof (induction pos data buf rule: read_sectors.induct)
  case (1 pos data buf)
  show ?case
  proof (cases "pos \<ge> length buf")
    case True
    then show ?thesis using 1 by (subst read_sectors.simps) simp
  next
    case False
    then obtain k where k: "length buf - pos = 4096 * k" "k \<noteq> 0" using 1(2) by (auto elim: dvdE)
    then have room: "pos + 4096 \<le> length buf" using False by (cases k) auto
    let ?x = "take 4096 data" and ?b = "copy_image pos (take 4096 data) buf"
    have fit: "pos + length ?x \<le> length buf" using room by simp
    then have len: "length ?b = length buf" by simp
    have "4096 dvd length ?b - (pos + 4096)" using k len by (metis diff_diff_left dvd_diff_nat dvd_refl dvd_triv_left)
    then have "read_sectors (pos + 4096) (drop 4096 data) ?b
        = Some (take (pos + 4096) ?b @ take (length buf - (pos + 4096)) (drop 4096 data) @
            drop (pos + 4096 + min (length buf - (pos + 4096)) (length data - 4096)) ?b)"
      using 1(1) [OF False refl] fit room len by simp
    moreover have "take (pos + 4096) ?b @ take (length buf - (pos + 4096)) (drop 4096 data) @
            drop (pos + 4096 + min (length buf - (pos + 4096)) (length data - 4096)) ?b
        = take pos buf @ take (length buf - pos) data @ drop (pos + min (length buf - pos) (length data)) buf"
    proof (cases "4096 \<le> length data")
      case True
      from True have "take (length buf - pos) data = ?x @ take (length buf - (pos + 4096)) (drop 4096 data)"
        using room by (metis (no_types, lifting) diff_diff_left le_add_diff_inverse nat_le_linear take_add add_le_imp_le_diff add.commute)
      moreover have "pos + 4096 + min (length buf - (pos + 4096)) (length data - 4096) = pos + min (length buf - pos) (length data)"
        using True room by linarith
      ultimately show ?thesis using True room by (simp add: copy_image_def add.commute)
    next
      case False
      then have "drop (4096 - length data) (drop (pos + length data) buf) = drop (pos + 4096) buf" by (simp add: add.commute)
      then have "take (4096 - length data) (drop (pos + length data) buf) @ drop (pos + 4096) buf = drop (pos + length data) buf"
        by (metis append_take_drop_id)
      then show ?thesis using False room by (simp add: copy_image_def) (metis add.commute)
    qed
    ultimately show ?thesis using False fit by (subst read_sectors.simps) (simp add: Let_def)
  qed
qed

section \<open>Rounding up the size\<close>

lemma u32_pow2: "k \<le> 31 \<Longrightarrow> unat (2 ^ k :: u32) = 2 ^ k"
proof -
  assume "k \<le> 31"
  then have "(2 :: nat) ^ k \<le> 2 ^ 31" by (intro power_increasing) simp_all
  then show ?thesis using u32_of_nat [of "2 ^ k"] by simp
qed

lemma shl_pow2: "k < 31 \<Longrightarrow> push_bit 1 (2 ^ k :: u32) = 2 ^ Suc k" "push_bit 1 (2 ^ 31 :: u32) = 0"
  by (simp_all add: push_bit_eq_mult)

lemma size_loop_ends:
  "k \<le> 31 \<Longrightarrow> unat n \<le> 2 ^ 31 \<Longrightarrow>
   \<exists>j\<ge>k. j \<le> 31 \<and> size_loop (2 ^ k) n = Some (2 ^ j) \<and> unat n \<le> 2 ^ j \<and> (j = k \<or> 2 ^ (j - 1) < unat n)"
proof (induction "31 - k" arbitrary: k)
  case 0
  then have k: "k = 31" by simp
  then have "\<not> (2 :: u32) ^ k < n" using 0 by (simp add: word_less_nat_alt)
  then show ?case using 0 k by (intro exI [of _ k]) (simp add: size_loop.simps)
next
  case (Suc x)
  then have k: "k < 31" by simp
  then have u: "unat (2 ^ k :: u32) = 2 ^ k" by (intro u32_pow2) simp
  show ?case
  proof (cases "(2 :: u32) ^ k < n")
    case False
    then have "unat n \<le> 2 ^ k" using u by (simp add: word_less_nat_alt)
    then show ?thesis using False k by (intro exI [of _ k]) (simp add: size_loop.simps)
  next
    case True
    obtain j where j: "j \<ge> Suc k" "j \<le> 31" "size_loop (2 ^ Suc k) n = Some (2 ^ j)" "unat n \<le> 2 ^ j"
      "j = Suc k \<or> 2 ^ (j - 1) < unat n"
    proof -
      have "x = 31 - Suc k" "Suc k \<le> 31" using Suc.hyps(2) by simp_all
      from Suc.hyps(1) [OF this Suc.prems(2)] show thesis using that by blast
    qed
    have "2 ^ k < unat n" using True u by (simp add: word_less_nat_alt)
    then have "2 ^ (j - 1) < unat n" using j(5) by auto
    moreover have "size_loop (2 ^ k) n = Some (2 ^ j)"
      using True j(3) by (subst size_loop.simps) (simp only: if_True shl_pow2(1) [OF k])
    ultimately show ?thesis using j by (intro exI [of _ j]) simp
  qed
qed

lemma size_loop_endless_aux:
  assumes "size_loop s0 n0 = Some y0" "s0 = 0 \<or> (\<exists>k\<le>31. s0 = 2 ^ k)"
  shows "unat n0 \<le> 2 ^ 31"
proof -
  let ?P = "\<lambda>s :: u32. s = 0 \<or> (\<exists>k\<le>31. s = 2 ^ k)"
  have step: "?P (push_bit 1 s)" if P: "?P s" for s
  proof (cases "s = 0")
    case False
    with P obtain k where k: "k \<le> 31" "s = 2 ^ k" by (elim disjE exE conjE) simp_all
    show ?thesis
    proof (cases "k = 31")
      case True
      then show ?thesis using k(2) shl_pow2(2) by simp
    next
      case False
      then have "push_bit 1 s = 2 ^ Suc k" using k shl_pow2(1) [of k] by simp
      then show ?thesis using k(1) False by (intro disjI2 exI [of _ "Suc k"]) simp
    qed
  qed simp
  have bound: "unat s \<le> 2 ^ 31" if P: "?P s" for s
  proof (cases "s = 0")
    case False
    with P obtain k where k: "k \<le> 31" "s = 2 ^ k" by (elim disjE exE conjE) simp_all
    have "(2 :: nat) ^ k \<le> 2 ^ 31" using k(1) by (intro power_increasing) simp_all
    then show ?thesis using u32_pow2 [OF k(1)] k(2) by simp
  qed simp
  have "?P s0 \<longrightarrow> unat n0 \<le> 2 ^ 31"
  proof (rule size_loop.raw_induct [of "\<lambda>s n y. ?P s \<longrightarrow> unat n \<le> 2 ^ 31", OF _ assms(1)], intro impI)
    fix loop :: "u32 \<Rightarrow> u32 \<Rightarrow> u32 option" and s n y
    assume IH: "\<And>s n y. loop s n = Some y \<Longrightarrow> ?P s \<longrightarrow> unat n \<le> 2 ^ 31"
      and run: "(if s < n then loop (push_bit 1 s) n else Some s) = Some y" and P: "?P s"
    show "unat n \<le> 2 ^ 31"
    proof (cases "s < n")
      case True
      then have "loop (push_bit 1 s) n = Some y" using run by (simp only: if_True)
      then show ?thesis using IH step [OF P] by blast
    next
      case False
      then show ?thesis using bound [OF P] by (simp add: word_less_nat_alt)
    qed
  qed
  then show ?thesis using assms(2) by blast
qed

lemma flash_bytes_cases:
  "flash_bytes si = None \<longleftrightarrow> unat (pffs_end si - FLASH_TOP) > 2 ^ 31"
  "flash_bytes si = Some n \<Longrightarrow> \<exists>j\<le>31. n = 2 ^ j \<and> unat (pffs_end si - FLASH_TOP) \<le> 2 ^ j \<and>
     (j = 0 \<or> 2 ^ (j - 1) < unat (pffs_end si - FLASH_TOP))"
proof -
  let ?n = "pffs_end si - FLASH_TOP"
  have one: "(1 :: u32) = 0 \<or> (\<exists>k\<le>31. (1 :: u32) = 2 ^ k)" by (intro disjI2 exI [of _ 0]) simp
  have ends: "unat ?n \<le> 2 ^ 31 \<Longrightarrow> \<exists>j\<le>31. size_loop 1 ?n = Some (2 ^ j) \<and> unat ?n \<le> 2 ^ j \<and> (j = 0 \<or> 2 ^ (j - 1) < unat ?n)"
    using size_loop_ends [of 0 ?n] by auto
  show "flash_bytes si = None \<longleftrightarrow> unat ?n > 2 ^ 31"
  proof (cases "flash_bytes si")
    case None
    then have "\<not> unat ?n \<le> 2 ^ 31" using ends by (auto simp: flash_bytes_def)
    then show ?thesis using None by simp
  next
    case (Some y)
    then show ?thesis using size_loop_endless_aux [of 1 ?n y] one by (simp add: flash_bytes_def)
  qed
  assume n: "flash_bytes si = Some n"
  then have "unat ?n \<le> 2 ^ 31" using size_loop_endless_aux [of 1 ?n n] one by (simp add: flash_bytes_def)
  then show "\<exists>j\<le>31. n = 2 ^ j \<and> unat ?n \<le> 2 ^ j \<and> (j = 0 \<or> 2 ^ (j - 1) < unat ?n)"
    using ends n by (auto simp: flash_bytes_def)
qed


section \<open>Saving and opening again\<close>

text \<open>An image whose buffer has the size its header calls for, a power of two of at least a sector.\<close>

definition image_ok :: "pfi \<Rightarrow> bool" where
  "image_ok p \<longleftrightarrow> signature_ok (signature (header p)) \<and> 4096 \<le> length (buffer p) \<and>
     (case flash_bytes (sysinfo (header p)) of None \<Rightarrow> False | Some n \<Rightarrow> length (buffer p) = unat n)"

lemma dvd_pow2: "(4096 :: nat) \<le> 2 ^ j \<Longrightarrow> 4096 dvd (2 :: nat) ^ j"
proof -
  assume "(4096 :: nat) \<le> 2 ^ j"
  then have "(2 :: nat) ^ 12 \<le> 2 ^ j" by simp
  then have "12 \<le> j" by (rule power_le_imp_le_exp [rotated]) simp
  then have "(2 :: nat) ^ 12 dvd 2 ^ j" by (rule le_imp_power_dvd)
  then show ?thesis by simp
qed

lemma image_size: "image_ok p \<Longrightarrow> 4096 dvd length (buffer p)"
proof -
  assume a: "image_ok p"
  then obtain n where n: "flash_bytes (sysinfo (header p)) = Some n" "length (buffer p) = unat n"
    by (auto simp: image_ok_def split: option.splits)
  then obtain j where "j \<le> 31" "n = 2 ^ j" using flash_bytes_cases(2) by blast
  then have "length (buffer p) = 2 ^ j" using n(2) u32_pow2 by simp
  then show ?thesis using dvd_pow2 [of j] a by (simp add: image_ok_def)
qed

lemma save_open:
  assumes p: "image_ok p" and mem: "\<And>n. \<exists>b. malloc n = Some b \<and> length b = n"
  shows "PFIOpen malloc (Some (fst (PFISave p))) = Some (Opened (snd (PFISave p)))"
proof -
  let ?h = "(header p)\<lparr>img_offset := 48\<rparr>"
  obtain n where n: "flash_bytes (sysinfo (header p)) = Some n" "length (buffer p) = unat n"
    using p by (auto simp: image_ok_def split: option.splits)
  obtain b where b: "malloc (unat n) = Some b" "length b = unat n" using mem by blast
  have "read_sectors 0 (buffer p) b = Some (buffer p)"
    using read_sectors_all [of b 0 "buffer p"] image_size [OF p] b n by simp
  moreover have "drop 48 (image_file ?h (buffer p)) = buffer p" by (simp add: image_file_def)
  moreover have "header_at (image_file ?h (buffer p)) = ?h" by (simp add: image_file_def)
  ultimately show ?thesis
    using p n b by (simp add: PFIOpen_def PFISave_def image_ok_def Let_def image_file_def)
qed

lemma save_keeps:
  "pffs_files (snd (PFISave p)) = pffs_files p" "fs_ok (snd (PFISave p)) = fs_ok p"
proof -
  let ?q = "p\<lparr>header := (header p)\<lparr>img_offset := 48\<rparr>\<rparr>"
  have g: "PFIGetPFFSTop ?q = PFIGetPFFSTop p" "PFIGetPFFSMaxFAT ?q = PFIGetPFFSMaxFAT p"
    by (simp_all add: PFIGetPFFSTop_def PFIGetPFFSMaxFAT_def)
  have "PFFSSectorToPointer ?q = PFFSSectorToPointer p" by (simp add: fun_eq_iff PFFSSectorToPointer_def g)
  then have "file_data ?q = file_data p" by (simp add: fun_eq_iff file_data_def sector_data_def cong: map_cong)
  then show "pffs_files (snd (PFISave p)) = pffs_files p" by (simp add: PFISave_def pffs_files_def load_msb_def g)
  show "fs_ok (snd (PFISave p)) = fs_ok p" by (simp add: PFISave_def fs_ok_def g)
qed

section \<open>mkpfi: an image from a kernel\<close>

definition KERNEL_SIGNATURE :: "u8 list" where
  "KERNEL_SIGNATURE = map of_char ''Piece Kernel Program''"

text \<open>\<open>boot_addr\<close> is the reset vector, \<open>0xC02004\<close>.\<close>

definition boot_addr :: "u8 list" where "boot_addr = [0x04, 0x20, 0xC0, 0x00]"

primrec pad_sectors :: "nat \<Rightarrow> u8 list" where
  "pad_sectors 0 = []"
| "pad_sectors (Suc n) = replicate 4096 0xFF @ pad_sectors n"

text \<open>The copy loop counts the sectors left down, below zero if the kernel is too long.\<close>

function copy_kernel :: "u8 list \<Rightarrow> int \<Rightarrow> u8 list \<times> int" where
  "copy_kernel src nsectors =
    (if src = [] then ([], nsectors)
     else case copy_kernel (drop 4096 src) (nsectors - 1) of (out, n) \<Rightarrow> (take 4096 src @ out, n))"
  by pat_completeness auto
termination by (relation "measure (\<lambda>(src, n). length src)") auto

declare copy_kernel.simps [simp del]

definition mkpfi_run :: "u8 list \<Rightarrow> u8 list \<Rightarrow> pfi_header \<Rightarrow> u8 list option" where
  "mkpfi_run stack src hdr =
    (let buf = copy_image 0 (take (8 + length KERNEL_SIGNATURE) src) stack
     in if \<not> strncmp_eq (length KERNEL_SIGNATURE) (drop 8 buf) KERNEL_SIGNATURE then None
        else let nsectors = int (unat (drop_bit 12 (pffs_end (sysinfo hdr) - FLASH_TOP))) - 2
             in case copy_kernel src nsectors of (ker, rest) \<Rightarrow>
               Some (header_bytes hdr @ replicate (PFI_IMAGE_OFFSET - HEADER_SIZE) 0xFF @
                 (boot_addr @ replicate 4092 0xFF) @ replicate 4096 0xFF @ ker @ pad_sectors (nat rest)))"

definition si_default :: sysinfo where
  "si_default = \<lparr> si_size = 0x20, hard_ver = 0x100, bios_ver = 0x11D, bios_date = 0xAA7, sys_clock = 0x016E3600,
     vdde_voltage = 0xCE4, resv1 = 0, sram_top = 0x100000, sram_end = 0x140000, pffs_top = 0xC28000, pffs_end = 0xC00000 \<rparr>"

datatype flash_option = Size512kb | Size2mb

definition mkpfi_header :: "flash_option \<Rightarrow> pfi_header" where
  "mkpfi_header opt = \<lparr> signature = 0x31 OR push_bit 8 0x49 OR push_bit 16 0x46 OR push_bit 24 0x50,
     img_offset = of_nat PFI_IMAGE_OFFSET,
     sysinfo = si_default\<lparr>pffs_end := pffs_end si_default + push_bit 10 (case opt of Size512kb \<Rightarrow> 512 | Size2mb \<Rightarrow> 2048)\<rparr> \<rparr>"

lemma copy_kernel_all: "copy_kernel src n = (src, n - int ((length src + 4095) div 4096))"
proof (induction src n rule: copy_kernel.induct)
  case (1 src n)
  show ?case
  proof (cases "src = []")
    case True
    then show ?thesis by (subst copy_kernel.simps) simp
  next
    case False
    then have "0 < length src" by simp
    then have "(length src + 4095) div 4096 = (length src - 4096 + 4095) div 4096 + 1"
      by (cases "length src \<le> 4096") (auto simp: le_div_geq Suc_le_eq)
    then show ?thesis using 1 [OF False] False by (subst copy_kernel.simps) simp
  qed
qed

lemma length_pad [simp]: "length (pad_sectors n) = 4096 * n"
  by (induction n) auto

section \<open>ripper: an image from a device\<close>

text \<open>\<open>ismReadMem\<close> of the device; where it fails the buffer keeps its \<open>0xFF\<close>.\<close>

primrec rip_sectors :: "(u32 \<Rightarrow> u8 list option) \<Rightarrow> nat \<Rightarrow> u32 \<Rightarrow> u8 list" where
  "rip_sectors read 0 a = []"
| "rip_sectors read (Suc n) a =
     (case read a of None \<Rightarrow> replicate 4096 0xFF | Some bs \<Rightarrow> bs) @ rip_sectors read n (a + 0x1000)"

definition ripper_header :: "sysinfo \<Rightarrow> pfi_header" where
  "ripper_header si = \<lparr> signature = 0x31 OR push_bit 8 0x49 OR push_bit 16 0x46 OR push_bit 24 0x50,
     img_offset = of_nat PFI_IMAGE_OFFSET, sysinfo = si \<rparr>"

text \<open>The loop runs while the address is below the end, both 32-bit numbers.\<close>

definition read_flash :: "(u32 \<Rightarrow> u8 list option) \<Rightarrow> sysinfo \<Rightarrow> u8 list option" where
  "read_flash read si =
    (case flash_bytes si of
       None \<Rightarrow> None
     | Some n \<Rightarrow>
         let k = (unat (FLASH_TOP + n) - unat FLASH_TOP + 4095) div 4096
         in Some (image_file (ripper_header si) (rip_sectors read k FLASH_TOP)))"

section \<open>pfar: the archiver\<close>

text \<open>Processing a list of arguments, up to the first that fails.\<close>

primrec run_all :: "('a \<Rightarrow> 's \<Rightarrow> (bool \<times> 's) option) \<Rightarrow> 'a list \<Rightarrow> 's \<Rightarrow> (bool \<times> 's) option" where
  "run_all f [] s = Some (True, s)"
| "run_all f (a # as) s =
     (case f a s of None \<Rightarrow> None | Some (b, s') \<Rightarrow> if b then run_all f as s' else Some (False, s'))"

text \<open>What a run leaves behind: its result, the image file if it was rewritten, and the extracted files.\<close>

record pfar_result =
  exit_code :: int
  saved :: "u8 list option"
  extracted :: "(u8 list \<times> u8 list option) list"

definition pfar_exit :: "int \<Rightarrow> pfar_result" where
  "pfar_exit c = \<lparr> exit_code = c, saved = None, extracted = [] \<rparr>"

text \<open>The archiver does not look whether \<open>PFISave\<close> could open the file; here it can.\<close>

definition pfar_save :: "(bool \<times> pfi) option \<Rightarrow> pfar_result option" where
  "pfar_save r = (case r of
       None \<Rightarrow> None
     | Some (ok, p) \<Rightarrow> Some (if ok then (pfar_exit 0)\<lparr>saved := Some (fst (PFISave p))\<rparr> else pfar_exit (- 1)))"

primrec extract_all :: "u8 list list \<Rightarrow> pfi \<Rightarrow> (u8 list \<times> u8 list option) list option" where
  "extract_all [] p = Some []"
| "extract_all (a # as) p =
     (case PFFSExtractFile p a of None \<Rightarrow> None | Some r \<Rightarrow> map_option (\<lambda>rs. (a, r) # rs) (extract_all as p))"

datatype action = ActAdd | ActAddAs | ActDelete | ActExtract | ActList | ActInfo

definition pfar_run :: "(u8 list \<Rightarrow> u8 list option) \<Rightarrow> action \<Rightarrow> u8 list list \<Rightarrow> pfi \<Rightarrow> pfar_result option" where
  "pfar_run disk act args p =
    (case act of
       ActAdd \<Rightarrow> if args = [] then Some (pfar_exit 1) else pfar_save (run_all (PFFSAddFile disk) args p)
     | ActAddAs \<Rightarrow> if length args \<noteq> 2 then Some (pfar_exit 1) else pfar_save (PFFSAddFileAs disk (args ! 0) (args ! 1) p)
     | ActDelete \<Rightarrow> if args = [] then Some (pfar_exit 1) else pfar_save (run_all PFFSDeleteFile args p)
     | ActExtract \<Rightarrow> if args = [] then Some (pfar_exit 1)
         else map_option (\<lambda>rs. (pfar_exit 0)\<lparr>extracted := rs\<rparr>) (extract_all args p)
     | ActList \<Rightarrow> Some (pfar_exit 0)
     | ActInfo \<Rightarrow> Some (pfar_exit 0))"

text \<open>The command line: the image path, the action and the remaining arguments.\<close>

definition action_of :: "u8 \<Rightarrow> action option" where
  "action_of c = (if c = 0x61 then Some ActAdd else if c = 0x41 then Some ActAddAs else if c = 0x64 then Some ActDelete
     else if c = 0x65 then Some ActExtract else if c = 0x6C then Some ActList else if c = 0x76 then Some ActInfo else None)"

fun parse_args :: "u8 list list \<Rightarrow> u8 list option \<Rightarrow> action \<Rightarrow> u8 list option \<times> action \<times> u8 list list" where
  "parse_args [] path act = (path, act, [])"
| "parse_args (a # as) path act =
     (if path = None \<and> char_at a \<noteq> 0x2D then parse_args as (Some a) act
      else if char_at a \<noteq> 0x2D then (path, act, a # as)
      else parse_args as path (case action_of (char_at (tl a)) of None \<Rightarrow> act | Some act' \<Rightarrow> act'))"

text \<open>The whole run: \<open>None\<close> when it does not end, or has no defined course after a write past the end of the buffer.\<close>

definition pfar_main :: "(nat \<Rightarrow> u8 list option) \<Rightarrow> (u8 list \<Rightarrow> u8 list option) \<Rightarrow> u8 list list \<Rightarrow> pfar_result option" where
  "pfar_main malloc disk argv =
    (case parse_args argv None ActList of (path, act, args) \<Rightarrow>
       (case path of
          None \<Rightarrow> Some (pfar_exit 1)
        | Some f \<Rightarrow>
            (case PFIOpen malloc (disk f) of
               None \<Rightarrow> None
             | Some Overrun \<Rightarrow> None
             | Some NotOpened \<Rightarrow> Some (pfar_exit 1)
             | Some (Opened p) \<Rightarrow> map_option (\<lambda>r. r\<lparr>exit_code := 0\<rparr>) (pfar_run disk act args p))))"


section \<open>What a batch of operations does\<close>

text \<open>A store of named contents whose operations may fail, as the archiver uses it.\<close>

locale file_store =
  fixes valid :: "'s \<Rightarrow> bool" and contents :: "'s \<Rightarrow> 'k \<rightharpoonup> 'v"
    and remove :: "'k \<Rightarrow> 's \<Rightarrow> (bool \<times> 's) option"
    and add :: "'a \<Rightarrow> 's \<Rightarrow> (bool \<times> 's) option" and key :: "'a \<Rightarrow> 'k" and val :: "'a \<Rightarrow> 'v option"
  assumes remove_spec: "valid s \<Longrightarrow> \<exists>s'. remove k s = Some (k \<in> dom (contents s), s') \<and> valid s' \<and>
      contents s' = (contents s)(k := None)"
    and add_spec: "valid s \<Longrightarrow> \<exists>b s'. add a s = Some (b, s') \<and> valid s' \<and>
      contents s' = (if b then (contents s)(key a := val a) else contents s) \<and> (b \<longrightarrow> val a \<noteq> None)"
begin

lemma remove_all:
  "valid s \<Longrightarrow> \<exists>b s'. run_all remove ks s = Some (b, s') \<and> valid s' \<and>
     b = (distinct ks \<and> set ks \<subseteq> dom (contents s)) \<and> (b \<longrightarrow> contents s' = contents s |` (- set ks))"
proof (induction ks arbitrary: s)
  case (Cons k ks)
  obtain s1 where s1: "remove k s = Some (k \<in> dom (contents s), s1)" "valid s1" "contents s1 = (contents s)(k := None)"
    using remove_spec [OF Cons.prems] by blast
  obtain b s2 where s2: "run_all remove ks s1 = Some (b, s2)" "valid s2" "b = (distinct ks \<and> set ks \<subseteq> dom (contents s1))"
    "b \<Longrightarrow> contents s2 = contents s1 |` (- set ks)"
    using Cons.IH [OF s1(2)] by blast
  show ?case
  proof (cases "k \<in> dom (contents s)")
    case True
    have "set ks \<subseteq> dom (contents s1) \<longleftrightarrow> k \<notin> set ks \<and> set ks \<subseteq> dom (contents s)" using s1(3) by (auto split: if_splits)
    then have "b = (distinct (k # ks) \<and> set (k # ks) \<subseteq> dom (contents s))" using s2(3) True by auto
    moreover have "contents s2 = contents s |` (- set (k # ks))" if b
      using s2(4) [OF that] s1(3) by (auto simp: restrict_map_def fun_eq_iff)
    ultimately show ?thesis using s1(1) s2 True by auto
  next
    case False
    then show ?thesis using s1 by auto
  qed
qed (auto simp: restrict_map_def)

lemma add_all:
  "valid s \<Longrightarrow> \<exists>b s'. run_all add xs s = Some (b, s') \<and> valid s' \<and>
     (b \<longrightarrow> contents s' = contents s ++ map_of (rev (map (\<lambda>a. (key a, the (val a))) xs)))"
proof (induction xs arbitrary: s)
  case (Cons a xs)
  obtain b s1 where s1: "add a s = Some (b, s1)" "valid s1"
    "contents s1 = (if b then (contents s)(key a := val a) else contents s)" "b \<Longrightarrow> val a \<noteq> None"
    using add_spec [OF Cons.prems] by blast
  obtain b2 s2 where s2: "run_all add xs s1 = Some (b2, s2)" "valid s2"
    "b2 \<Longrightarrow> contents s2 = contents s1 ++ map_of (rev (map (\<lambda>a. (key a, the (val a))) xs))"
    using Cons.IH [OF s1(2)] by blast
  show ?case
  proof (cases b)
    case True
    then have "val a = Some (the (val a))" using s1(4) by simp
    then have "contents s1 = (contents s)(key a \<mapsto> the (val a))" using s1(3) True by simp
    then have "contents s1 ++ map_of (rev (map (\<lambda>a. (key a, the (val a))) xs))
        = contents s ++ map_of (rev (map (\<lambda>a. (key a, the (val a))) (a # xs)))"
      by (auto simp: map_add_def fun_eq_iff split: option.splits)
    then show ?thesis using s1(1) s2 True by auto
  next
    case False
    then show ?thesis using s1 by auto
  qed
qed auto

end

text \<open>The operations on an image are such a store; files of 4 GB and more cannot be added.\<close>

definition small_files :: "(u8 list \<Rightarrow> u8 list option) \<Rightarrow> u8 list \<Rightarrow> u8 list option" where
  "small_files disk path = (case disk path of None \<Rightarrow> None | Some d \<Rightarrow> if length d + 4095 < 2 ^ 32 then Some d else None)"

definition image_valid :: "pfi \<Rightarrow> bool" where "image_valid p \<longleftrightarrow> fs_ok p \<and> image_ok p"

lemma same_shape_ok: "same_shape p p' \<Longrightarrow> image_ok p' = image_ok p"
  by (auto simp: same_shape_def image_ok_def split: option.splits)

lemma add_file_cases:
  assumes p: "fs_ok p"
  shows "\<exists>b p'. PFFSAddFile (small_files disk) a p = Some (b, p') \<and> fs_ok p' \<and> same_shape p p' \<and>
     pffs_files p' = (if b then (pffs_files p)(base_name a := small_files disk a) else pffs_files p) \<and>
     (b \<longrightarrow> small_files disk a \<noteq> None)"
proof (cases "CheckFileName (base_name a) \<noteq> 0 \<or> small_files disk a = None")
  case True
  then have "PFFSAddFile (small_files disk) a p = Some (False, p)"
    by (auto simp: PFFSAddFile_def PFFSAddFileAs_def Let_def)
  then show ?thesis using p by (intro exI [of _ False] exI [of _ p]) (simp add: same_shape_def)
next
  case False
  then obtain d where d: "small_files disk a = Some d" and n: "CheckFileName (base_name a) = 0" by auto
  have len: "length d + 4095 < 2 ^ 32" using d by (auto simp: small_files_def split: option.splits if_splits)
  obtain m where m: "load_msb p = Some m" using fs_load [OF p] by blast
  have run: "PFFSAddFile (small_files disk) a p = add_data (base_name a) d p"
    using d n by (simp add: PFFSAddFile_def PFFSAddFileAs_def)
  show ?thesis
  proof (cases "room p m (base_name a) ((length d + 4095) div 4096)")
    case True
    then obtain p' where "add_data (base_name a) d p = Some (True, p')" "fs_ok p'"
      "pffs_files p' = (pffs_files p)(base_name a \<mapsto> d)" "same_shape p p'"
      using add_run(2) [OF p m n len] by blast
    then show ?thesis unfolding run using d by (intro exI [of _ True] exI [of _ p']) simp
  next
    case False
    then show ?thesis unfolding run using add_run(1) [OF p m n len] p
      by (intro exI [of _ False] exI [of _ p]) (simp add: same_shape_def)
  qed
qed

interpretation pffs: file_store image_valid pffs_files PFFSDeleteFile "PFFSAddFile (small_files disk)" base_name "small_files disk"
  for disk
proof
  fix p k assume p: "image_valid p"
  then have f: "fs_ok p" by (simp add: image_valid_def)
  obtain m where l: "load_msb p = Some m" and m: "msb_ok (PFIGetPFFSMaxFAT p) m" using fs_load [OF f] by blast
  have "\<exists>p'. PFFSDeleteFile k p = Some (k \<in> dom (pffs_files p), p') \<and> fs_ok p' \<and> pffs_files p' = (pffs_files p)(k := None)"
  proof (cases rule: find_file_cases [OF m, of k])
    case (1 d)
    then show ?thesis using delete_files [OF f l 1(2,3)] delete_run [OF l m, of k] files_entry [OF l m 1(2,3)] by auto
  next
    case 2
    have "pffs_files p k = None" using 2(2) by (intro files_none [OF l msb_okD(3) [OF m]]) blast
    then show ?thesis using delete_run [OF l m, of k] 2(1) f by (auto simp: fun_upd_idem)
  qed
  then show "\<exists>p'. PFFSDeleteFile k p = Some (k \<in> dom (pffs_files p), p') \<and> image_valid p' \<and> pffs_files p' = (pffs_files p)(k := None)"
    using p delete_shape [OF f] same_shape_ok unfolding image_valid_def by blast
next
  fix p a assume p: "image_valid p"
  then show "\<exists>b p'. PFFSAddFile (small_files disk) a p = Some (b, p') \<and> image_valid p' \<and>
      pffs_files p' = (if b then (pffs_files p)(base_name a := small_files disk a) else pffs_files p) \<and>
      (b \<longrightarrow> small_files disk a \<noteq> None)"
    using add_file_cases [of p disk a] same_shape_ok unfolding image_valid_def by blast
qed

lemma saved_opens:
  assumes "image_valid p" "\<And>n. \<exists>b. malloc n = Some b \<and> length b = n"
  shows "\<exists>q. PFIOpen malloc (Some (fst (PFISave p))) = Some (Opened q) \<and> fs_ok q \<and> pffs_files q = pffs_files p"
  using assms save_open [of p malloc] save_keeps [of p] by (auto simp: image_valid_def)

text \<open>
  C33: A run of the archiver that adds files rewrites the image only if every one of them could be added.
  The rewritten file, opened again, then holds every added file under the last component of its path
  (the last one wins if two have the same), and all other files as they were.
\<close>
theorem pfar_adds_all_or_none:
  assumes "image_valid p" "args \<noteq> []" "\<forall>path d. disk path = Some d \<longrightarrow> length d + 4095 < 2 ^ 32"
    and "\<And>n. \<exists>b. malloc n = Some b \<and> length b = n"
  shows "\<exists>r. pfar_run disk ActAdd args p = Some r \<and>
     (saved r = None \<longrightarrow> exit_code r = - 1) \<and>
     (\<forall>file. saved r = Some file \<longrightarrow> exit_code r = 0 \<and>
        (\<exists>q. PFIOpen malloc (Some file) = Some (Opened q) \<and> fs_ok q \<and>
           pffs_files q = pffs_files p ++ map_of (rev (map (\<lambda>a. (base_name a, the (disk a))) args))))"
proof -
  have disk: "small_files disk = disk"
    using assms(3) by (auto simp: fun_eq_iff small_files_def split: option.splits)
  obtain b p' where r: "run_all (PFFSAddFile disk) args p = Some (b, p')" "image_valid p'"
    and f: "b \<Longrightarrow> pffs_files p' = pffs_files p ++ map_of (rev (map (\<lambda>a. (base_name a, the (disk a))) args))"
    using pffs.add_all [OF assms(1), of disk args, unfolded disk] by blast
  show ?thesis
  proof (cases b)
    case True
    then show ?thesis using r f saved_opens [OF r(2) assms(4)] assms(2)
      by (auto simp: pfar_run_def pfar_save_def pfar_exit_def)
  next
    case False
    then show ?thesis using r assms(2) by (simp add: pfar_run_def pfar_save_def pfar_exit_def)
  qed
qed

lemma pfar_deletes:
  assumes "image_valid p" "args \<noteq> []" "\<And>n. \<exists>b. malloc n = Some b \<and> length b = n"
  shows "\<exists>r. pfar_run disk ActDelete args p = Some r \<and>
     (saved r \<noteq> None \<longleftrightarrow> distinct args \<and> set args \<subseteq> dom (pffs_files p)) \<and>
     (\<forall>file. saved r = Some file \<longrightarrow>
        (\<exists>q. PFIOpen malloc (Some file) = Some (Opened q) \<and> fs_ok q \<and> pffs_files q = pffs_files p |` (- set args)))"
proof -
  obtain b p' where r: "run_all PFFSDeleteFile args p = Some (b, p')" "image_valid p'"
    "b = (distinct args \<and> set args \<subseteq> dom (pffs_files p))" "b \<Longrightarrow> pffs_files p' = pffs_files p |` (- set args)"
    using pffs.remove_all [OF assms(1), of args] by blast
  then show ?thesis using saved_opens [OF r(2) assms(3)] assms(2)
    by (cases b) (auto simp: pfar_run_def pfar_save_def pfar_exit_def)
qed


text \<open>An empty image of 16 KB, for which the size in the header and the buffer agree.\<close>

definition small_image :: pfi where
  "small_image = store_msb sample_msb
     \<lparr> header = \<lparr> signature = PFI_SIGNATURE, img_offset = 48, sysinfo = sample_info\<lparr>pffs_end := 0xC04000\<rparr> \<rparr>,
       buffer = replicate 16384 0 \<rparr>"

lemma small_image_valid: "image_valid small_image" "pffs_files small_image = Map.empty"
proof -
  let ?p = "\<lparr> header = \<lparr> signature = PFI_SIGNATURE, img_offset = 48, sysinfo = sample_info\<lparr>pffs_end := 0xC04000\<rparr> \<rparr>,
    buffer = replicate 16384 0 \<rparr>"
  have g: "PFIGetPFFSTop ?p = 0" "PFIGetPFFSMaxFAT ?p = 4"
    by (simp_all add: PFIGetPFFSTop_def PFIGetPFFSMaxFAT_def sample_info_def)
  have lay: "PFIGetPFFSTop ?p + 4096 * max 1 (PFIGetPFFSMaxFAT ?p) \<le> length (buffer ?p)" unfolding g by simp
  note c = commit [OF lay sample_msb_ok]
  have "flash_bytes (sysinfo (header ?p)) = Some 16384"
    by (simp add: flash_bytes_def sample_info_def size_loop.simps)
  then have "image_ok ?p" by (simp add: image_ok_def)
  moreover have "PFIGetPFFSTop ?p + 4096 \<le> length (buffer ?p)" using lay by linarith
  then have "same_shape ?p small_image"
    using length_store [OF msb_okD(1) [OF sample_msb_ok]] by (simp add: same_shape_def small_image_def)
  ultimately show "image_valid small_image"
    using c(1) same_shape_ok by (auto simp: image_valid_def small_image_def)
  show "pffs_files small_image = Map.empty"
    using c(2) by (simp add: pffs_files_def small_image_def sample_msb_def)
qed

theorem pfar_adds_all_or_none_witness:
  "\<exists>r. pfar_run [[0x61] \<mapsto> [1, 2, 3]] ActAdd [[0x61]] small_image = Some r \<and>
     (saved r = None \<longrightarrow> exit_code r = - 1) \<and>
     (\<forall>file. saved r = Some file \<longrightarrow>
        (\<exists>q. PFIOpen (\<lambda>n. Some (replicate n 0)) (Some file) = Some (Opened q) \<and> pffs_files q = [[0x61] \<mapsto> [1, 2, 3]]))"
proof -
  have b: "base_name [0x61] = [0x61]" by (simp add: base_name_def slash_def)
  have disk: "\<forall>path d. [[0x61 :: u8] \<mapsto> [1, 2, 3 :: u8]] path = Some d \<longrightarrow> length d + 4095 < 2 ^ 32" by auto
  from pfar_adds_all_or_none [where args = "[[0x61]]" and malloc = "\<lambda>n. Some (replicate n 0)"
      and disk = "[[0x61] \<mapsto> [1, 2, 3]]", OF small_image_valid(1) _ disk]
  show ?thesis using b small_image_valid(2) by auto
qed

lemma read_below_sector:
  assumes "0 < length buf" "length buf < 4096"
  shows "read_sectors 0 data buf = (if length data > length buf then None else Some (data @ drop (length data) buf))"
  using assms by (subst read_sectors.simps) (auto simp: Let_def read_sectors.simps copy_image_def)

text \<open>
  C34: What opening an image file with a valid header does, when \<open>malloc\<close> succeeds. It never returns when the header calls for
  more than 2 GB of flash: the loop that doubles the size does not reach it, since the 32-bit number becomes zero;
  this includes every header whose end of the file area lies below the base of the flash. Otherwise the buffer has the
  least power of two that is large enough. When that is less than a sector and the file holds more data than that from the image offset on, the
  read of the first sector writes past the end of the buffer; in every other case the image is opened with the
  bytes of the file in front of the buffer.
\<close>
theorem pfi_open_endless:
  assumes "HEADER_SIZE \<le> length bs" "signature_ok (signature (header_at bs))"
    and "\<And>n. malloc n = Some (fresh n) \<and> length (fresh n) = n"
    and "n = unat (pffs_end (sysinfo (header_at bs)) - FLASH_TOP)" "data = drop (unat (img_offset (header_at bs))) bs"
  shows "(PFIOpen malloc (Some bs) = None \<longleftrightarrow> n > 2 ^ 31) \<and>
     (n \<le> 2 ^ 31 \<longrightarrow> (\<exists>j. n \<le> 2 ^ j \<and> (j = 0 \<or> 2 ^ (j - 1) < n) \<and>
        PFIOpen malloc (Some bs) = Some (if j < 12 \<and> 2 ^ j < length data then Overrun
          else Opened \<lparr> header = header_at bs, buffer = take (2 ^ j) data @ drop (min (2 ^ j) (length data)) (fresh (2 ^ j)) \<rparr>)))"
proof -
  have "\<exists>j. n \<le> 2 ^ j \<and> (j = 0 \<or> 2 ^ (j - 1) < n) \<and>
      PFIOpen malloc (Some bs) = Some (if j < 12 \<and> 2 ^ j < length data then Overrun
        else Opened \<lparr> header = header_at bs, buffer = take (2 ^ j) data @ drop (min (2 ^ j) (length data)) (fresh (2 ^ j)) \<rparr>)"
    if "n \<le> 2 ^ 31"
  proof -
    obtain s where s: "flash_bytes (sysinfo (header_at bs)) = Some s"
      using flash_bytes_cases(1) [of "sysinfo (header_at bs)"] \<open>n \<le> 2 ^ 31\<close> assms(4)
      by (cases "flash_bytes (sysinfo (header_at bs))") auto
    obtain j where j: "j \<le> 31" "s = 2 ^ j" "n \<le> 2 ^ j" "j = 0 \<or> 2 ^ (j - 1) < n"
      using flash_bytes_cases(2) [OF s] assms(4) by blast
    have u: "unat s = 2 ^ j" using u32_pow2 [OF j(1)] j(2) by simp
    let ?b = "fresh (2 ^ j)"
    have b: "malloc (unat s) = Some ?b" "length ?b = 2 ^ j" using assms(3) u by simp_all
    have r: "read_sectors 0 data ?b = (if j < 12 \<and> 2 ^ j < length data then None
        else Some (take (2 ^ j) data @ drop (min (2 ^ j) (length data)) ?b))"
    proof (cases "j < 12")
      case True
      then have "(2 :: nat) ^ j < 2 ^ 12" by (intro power_strict_increasing) simp_all
      then show ?thesis using True b(2) read_below_sector [of ?b data] by simp
    next
      case False
      then have "(2 :: nat) ^ 12 \<le> 2 ^ j" by (intro power_increasing) simp_all
      then have "4096 dvd length ?b - 0" using dvd_pow2 [of j] b(2) by simp
      then show ?thesis using False b(2) read_sectors_all [of ?b 0 data] by simp
    qed
    show ?thesis
      using assms(1,2) s b r j(3,4) by (intro exI [of _ j]) (simp add: PFIOpen_def Let_def assms(5) [symmetric])
  qed
  moreover have "PFIOpen malloc (Some bs) = None" if "n > 2 ^ 31"
    using assms(1,2,4) that flash_bytes_cases(1) [of "sysinfo (header_at bs)"] by (simp add: PFIOpen_def Let_def)
  ultimately show ?thesis by (metis not_less option.distinct(1))
qed

text \<open>A header as \<open>mkpfi\<close> writes it, but with the end of the file area at zero.\<close>

theorem pfi_open_endless_witness:
  "PFIOpen (\<lambda>n. Some (replicate n 0)) (Some (header_bytes ((mkpfi_header Size512kb)\<lparr>sysinfo := si_default\<lparr>pffs_end := 0\<rparr>\<rparr>))) = None"
proof -
  let ?h = "(mkpfi_header Size512kb)\<lparr>sysinfo := si_default\<lparr>pffs_end := 0\<rparr>\<rparr>"
  have h: "header_at (header_bytes ?h) = ?h" using header_at_bytes [of ?h "[]"] by simp
  have "signature_ok (signature ?h)" by (simp add: mkpfi_header_def signature_ok_def)
  moreover have "unat (pffs_end (sysinfo ?h) - FLASH_TOP) > 2 ^ 31" by simp
  moreover have "Some (replicate n (0 :: u8)) = Some (replicate n 0) \<and> length (replicate n (0 :: u8)) = n" for n by simp
  ultimately show ?thesis
    using pfi_open_endless [of "header_bytes ?h" "\<lambda>n. Some (replicate n 0)" "\<lambda>n. replicate n 0", unfolded h, OF _ _ _ refl refl]
    by (simp only: length_header_bytes order_refl simp_thms)
qed

section \<open>An image made from a kernel\<close>

lemma strncmp_eq_append: "length xs = n \<Longrightarrow> strncmp_eq n (xs @ ys) k = strncmp_eq n xs k"
proof -
  assume n: "length xs = n"
  show "strncmp_eq n (xs @ ys) k = strncmp_eq n xs k"
  proof (cases "\<forall>x\<in>set xs. x \<noteq> 0")
    case True
    then have "cstr xs = xs" "take n (cstr (xs @ ys)) = xs"
      using n by (simp_all add: cstr_def takeWhile_eq_all_conv)
    then show ?thesis using n by (simp add: strncmp_eq_cstr)
  next
    case False
    then show ?thesis by (auto simp: strncmp_eq_cstr cstr_def takeWhile_append)
  qed
qed

lemma kernel_check:
  assumes "length stack = 4096" "28 \<le> length src" "take 20 (drop 8 src) = KERNEL_SIGNATURE"
  shows "strncmp_eq (length KERNEL_SIGNATURE) (drop 8 (copy_image 0 (take (8 + length KERNEL_SIGNATURE) src) stack)) KERNEL_SIGNATURE"
proof -
  have l: "length KERNEL_SIGNATURE = 20" by (simp add: KERNEL_SIGNATURE_def)
  have "drop 8 (copy_image 0 (take 28 src) stack) = take 20 (drop 8 src) @ drop 28 stack"
    using assms by (simp add: copy_image_def drop_take)
  then have "strncmp_eq 20 (drop 8 (copy_image 0 (take 28 src) stack)) KERNEL_SIGNATURE = strncmp_eq 20 KERNEL_SIGNATURE KERNEL_SIGNATURE"
    using strncmp_eq_append [of KERNEL_SIGNATURE 20 "drop 28 stack" KERNEL_SIGNATURE] l assms(3) by (simp only:)
  then show ?thesis by (simp add: l strncmp_eq_cstr)
qed

lemma mkpfi_flash_bytes:
  "flash_bytes (sysinfo (mkpfi_header opt)) = Some (case opt of Size512kb \<Rightarrow> 0x80000 | Size2mb \<Rightarrow> 0x200000)"
  by (cases opt) (simp_all add: flash_bytes_def mkpfi_header_def si_default_def size_loop.simps)

text \<open>The flash image \<open>mkpfi\<close> makes.\<close>

definition flash_image :: "nat \<Rightarrow> u8 list \<Rightarrow> u8 list" where
  "flash_image n src = (boot_addr @ replicate 4092 0xFF) @ replicate 4096 0xFF @ src @ replicate (n - (8192 + length src)) 0xFF"

lemma pad_sectors_replicate: "pad_sectors k = replicate (4096 * k) 0xFF"
  by (induction k) (simp_all only: pad_sectors.simps replicate_add [symmetric] mult_Suc_right mult_0_right replicate_0)

definition option_bytes :: "flash_option \<Rightarrow> nat" where
  "option_bytes opt = (case opt of Size512kb \<Rightarrow> 524288 | Size2mb \<Rightarrow> 2097152)"

lemma mkpfi_image:
  assumes "length stack = 4096" "28 \<le> length src" "take 20 (drop 8 src) = KERNEL_SIGNATURE"
    and "4096 dvd length src" "8192 + length src \<le> option_bytes opt"
  shows "mkpfi_run stack src (mkpfi_header opt) = Some (image_file (mkpfi_header opt) (flash_image (option_bytes opt) src))"
proof -
  obtain k where k: "length src = 4096 * k" using assms(4) by (auto elim: dvdE)
  have n: "int (unat (drop_bit 12 (pffs_end (sysinfo (mkpfi_header opt)) - FLASH_TOP))) = int (option_bytes opt div 4096)"
    by (cases opt) (simp_all add: mkpfi_header_def si_default_def option_bytes_def)
  then have n2: "uint (drop_bit 12 (pffs_end (sysinfo (mkpfi_header opt)) - FLASH_TOP)) = int (option_bytes opt div 4096)" by simp
  have d: "4096 dvd option_bytes opt" by (cases opt) (simp_all add: option_bytes_def)
  have "(length src + 4095) div 4096 = k" using k by simp
  moreover have "4096 * nat (int (option_bytes opt div 4096) - 2 - int k) = option_bytes opt - (8192 + length src)"
    using d k assms(5) by (auto elim!: dvdE simp: nat_diff_distrib')
  ultimately show ?thesis
    using kernel_check [OF assms(1-3)]
    by (simp add: mkpfi_run_def Let_def copy_kernel_all n2 pad_sectors_replicate image_file_def flash_image_def)
qed

lemma flash_image_facts:
  assumes "8192 + length src \<le> n"
  shows "length (flash_image n src) = n" "le32 (flash_image n src) 0 = 0x00C02004"
    "take (length src) (drop 0x2000 (flash_image n src)) = src"
  using assms by (simp_all add: flash_image_def boot_addr_def le32_def nth_append)

text \<open>
  An image made from a kernel of whole sectors that fits is one the tools open: the flash it gives
  has the size the header calls for, starts with the reset vector \<open>0xC02004\<close>, and holds the kernel from
  the third sector on.
\<close>
theorem mkpfi_opens:
  assumes "length stack = 4096" "28 \<le> length src" "take 20 (drop 8 src) = KERNEL_SIGNATURE"
    and "4096 dvd length src" "8192 + length src \<le> option_bytes opt" "\<And>n. \<exists>b. malloc n = Some b \<and> length b = n"
  shows "\<exists>file p. mkpfi_run stack src (mkpfi_header opt) = Some file \<and> PFIOpen malloc (Some file) = Some (Opened p) \<and>
     image_ok p \<and> header p = mkpfi_header opt \<and> length (buffer p) = option_bytes opt \<and>
     le32 (buffer p) 0 = 0x00C02004 \<and> take (length src) (drop 0x2000 (buffer p)) = src"
proof -
  let ?p = "\<lparr> header = mkpfi_header opt, buffer = flash_image (option_bytes opt) src \<rparr>"
  note f = flash_image_facts [OF assms(5)]
  have ok: "image_ok ?p"
    using f(1) mkpfi_flash_bytes [of opt]
    by (cases opt) (simp_all add: image_ok_def option_bytes_def signature_ok_def mkpfi_header_def)
  have "fst (PFISave ?p) = image_file (mkpfi_header opt) (flash_image (option_bytes opt) src)" "snd (PFISave ?p) = ?p"
    by (simp_all add: PFISave_def mkpfi_header_def)
  then show ?thesis using save_open [OF ok assms(6)] mkpfi_image [OF assms(1-5)] ok f
    by (intro exI [of _ "image_file (mkpfi_header opt) (flash_image (option_bytes opt) src)"] exI [of _ ?p]) simp
qed

text \<open>A kernel that is not whole sectors gives an image file shorter than the flash: the padding counts
  its last, partial sector as a whole one.\<close>

lemma mkpfi_short:
  assumes "length stack = 4096" "28 \<le> length src" "take 20 (drop 8 src) = KERNEL_SIGNATURE"
    and "\<not> 4096 dvd length src" "8192 + length src \<le> option_bytes opt" "mkpfi_run stack src (mkpfi_header opt) = Some f"
  shows "length f < 48 + option_bytes opt"
proof -
  let ?q = "(length src + 4095) div 4096"
  have n: "int (unat (drop_bit 12 (pffs_end (sysinfo (mkpfi_header opt)) - FLASH_TOP))) = int (option_bytes opt div 4096)"
    by (cases opt) (simp_all add: mkpfi_header_def si_default_def option_bytes_def)
  then have n2: "uint (drop_bit 12 (pffs_end (sysinfo (mkpfi_header opt)) - FLASH_TOP)) = int (option_bytes opt div 4096)" by simp
  have f: "length f = 48 + 8192 + length src + 4096 * nat (int (option_bytes opt div 4096) - 2 - int ?q)"
    using assms(6) kernel_check [OF assms(1-3)] by (auto simp: mkpfi_run_def Let_def copy_kernel_all n2 boot_addr_def)
  obtain N where N: "option_bytes opt = 4096 * N" by (cases opt) (auto simp: option_bytes_def intro: that [of 128] that [of 512])
  define a r where "a = length src div 4096" and "r = length src mod 4096"
  then have l: "length src = 4096 * a + r" and r: "0 < r" "r < 4096"
    using assms(4) by (simp_all add: dvd_eq_mod_eq_0)
  have q: "?q = a + 1" unfolding l by (rule div_nat_eqI) (use r in simp_all)
  have "8192 + (4096 * a + r) \<le> 4096 * N" using assms(5) unfolding l N .
  then have "a + 3 \<le> N" using r by simp
  then have "nat (int (option_bytes opt div 4096) - 2 - int ?q) = N - (a + 3)" unfolding q N by simp
  then show ?thesis unfolding f using l r N \<open>a + 3 \<le> N\<close> by simp
qed

definition sample_kernel :: "u8 list" where
  "sample_kernel = replicate 8 0 @ KERNEL_SIGNATURE @ replicate 4068 0"

theorem mkpfi_opens_witness:
  "\<exists>file p. mkpfi_run (replicate 4096 0) sample_kernel (mkpfi_header Size2mb) = Some file \<and>
     PFIOpen (\<lambda>n. Some (replicate n 0)) (Some file) = Some (Opened p) \<and> length (buffer p) = 2097152 \<and>
     take 4096 (drop 0x2000 (buffer p)) = sample_kernel"
proof -
  have k: "length sample_kernel = 4096" "take 20 (drop 8 sample_kernel) = KERNEL_SIGNATURE"
    by (simp_all add: sample_kernel_def KERNEL_SIGNATURE_def)
  have "8192 + length sample_kernel \<le> option_bytes Size2mb" "28 \<le> length sample_kernel" "4096 dvd length sample_kernel"
    by (simp_all add: k(1) option_bytes_def)
  then show ?thesis
    using mkpfi_opens [where stack = "replicate 4096 0" and src = sample_kernel and opt = Size2mb
        and malloc = "\<lambda>n. Some (replicate n 0)"] k
    by (auto simp: option_bytes_def)
qed

section \<open>The image of a device\<close>

lemma rip_sectors_copy:
  assumes "\<And>a. read a = Some (map (\<lambda>i. mem (a + of_nat i)) [0..<4096])"
  shows "rip_sectors read k a = map (\<lambda>i. mem (a + of_nat i)) [0..<4096 * k]"
proof (induction k arbitrary: a)
  case (Suc k)
  have "[0..<4096 * Suc k] = [0..<4096] @ map (\<lambda>i. i + 4096) [0..<4096 * k]"
    using upt_add_eq_append [of 0 4096 "4096 * k"] by (simp only: map_add_upt mult_Suc_right add_0 le0 add.commute)
  then show ?case using Suc assms by (simp add: comp_def algebra_simps del: upt_rec_numeral)
qed simp

lemma ripper_copies:
  assumes "\<And>a. read a = Some (map (\<lambda>i. mem (a + of_nat i)) [0..<4096])" "flash_bytes si = Some n" "4096 \<le> unat n"
  shows "read_flash read si = Some (image_file (ripper_header si) (map (\<lambda>i. mem (FLASH_TOP + of_nat i)) [0..<unat n]))"
proof -
  obtain j where j: "j \<le> 31" "n = 2 ^ j" using flash_bytes_cases(2) [OF assms(2)] by blast
  then have u: "unat n = 2 ^ j" by (simp add: u32_pow2)
  have "(2 :: nat) ^ j \<le> 2 ^ 31" using j(1) by (intro power_increasing) simp_all
  then have "unat (FLASH_TOP + n) = unat FLASH_TOP + 2 ^ j" using u by (simp add: u32_add)
  moreover have "4096 dvd (2 :: nat) ^ j" using assms(3) u by (intro dvd_pow2) simp
  then have "4096 * ((2 ^ j + 4095) div 4096) = (2 :: nat) ^ j" by (auto elim!: dvdE)
  ultimately show ?thesis
    using rip_sectors_copy [of read mem, OF assms(1)] assms(2) u by (simp add: read_flash_def Let_def)
qed

text \<open>The archiver reports success whatever its run did: the result of a run is dropped.\<close>

lemma pfar_reports_success:
  assumes "parse_args argv None ActList = (Some f, act, args)" "PFIOpen malloc (disk f) = Some (Opened p)"
    "pfar_run disk act args p = Some r"
  shows "pfar_main malloc disk argv = Some (r\<lparr>exit_code := 0\<rparr>)"
  using assms by (simp add: pfar_main_def)

end
