(* ===== verification/Loader.thy ===== *)
theory Loader
  imports PfiTools RunnerLoop
begin

text \<open>
  The loaders of program images: \<^verbatim>\<open>src/debug/pfi_loader.cpp\<close> (a flash image from a file),
  \<^verbatim>\<open>pfi_loader_blob.cpp\<close> (the same from memory) and \<^verbatim>\<open>elf_loader.cpp\<close> (the segments of an ELF file). A
  file is the list of its bytes, or \<open>None\<close> when it cannot be opened; a thrown exception is the left
  side of the result. The bus is returned in either case, because an exception leaves what was
  already copied.
\<close>

section \<open>Loading into the flash\<close>

primrec flash_put :: "nat \<Rightarrow> u8 list \<Rightarrow> flash_device \<Rightarrow> flash_device" where
  "flash_put off data (FlatFlashRom m) = FlatFlashRom (copy_image off data m)"
| "flash_put off data (Sst39vf f) = Sst39vf (f\<lparr>fmem := copy_image off data (fmem f)\<rparr>)"

lemma flash_put_mem [simp]: "flash_mem (flash_put off data d) = copy_image off data (flash_mem d)"
  by (cases d) simp_all

lemma flash_put_size [simp]: "off + length data \<le> flash_size d \<Longrightarrow> flash_size (flash_put off data d) = flash_size d"
  by (cases d) (simp_all add: flash_size_def)

lemma flash_put_mode [simp]: "flash_read_mode (flash_put off data d) = flash_read_mode d"
  by (cases d) simp_all

lemma load_flash_eq:
  "load_flash a data b =
    (if unat a + length data > flash_size (flash b) then Inl RuntimeError
     else Inr (b\<lparr>flash := flash_put (unat a) data (flash b)\<rparr>))"
  by (cases "flash b") (simp_all add: load_flash_def flash_size_def flat_load_image_def sst_load_image_def)

lemma copy_image_append:
  "off + length xs + length ys \<le> length m \<Longrightarrow> copy_image (off + length xs) ys (copy_image off xs m) = copy_image off (xs @ ys) m"
  by (rule nth_equalityI) (auto simp: nth_copy_image nth_append)

lemma copy_image_Nil [simp]: "copy_image off [] m = m"
  by (simp add: copy_image_def)

lemma flash_put_Nil [simp]: "flash_put off [] d = d"
  by (cases d) simp_all

lemma flash_put_append:
  "off + length xs + length ys \<le> flash_size d \<Longrightarrow>
   flash_put (off + length xs) ys (flash_put off xs d) = flash_put off (xs @ ys) d"
  by (cases d) (simp_all add: flash_size_def copy_image_append)

section \<open>The image header\<close>

datatype load_error = CannotOpen | ShortHeader | BadSignature | BadOffset | BadInfoSize | NoFlashSize
  | OffsetPastEnd | EmptyImage | NullData | OverCapacity

definition SYSINFO_EXPECTED_SIZE :: u16 where "SYSINFO_EXPECTED_SIZE = 32"

text \<open>The second part of the result is the file left open.\<close>

definition read_pfi_header :: "u8 list option \<Rightarrow> load_error + pfi_header \<times> u8 list" where
  "read_pfi_header f =
    (case f of
       None \<Rightarrow> Inl CannotOpen
     | Some bs \<Rightarrow>
         if length bs < HEADER_SIZE then Inl ShortHeader
         else let h = header_at bs
              in if \<not> signature_ok (signature h) then Inl BadSignature
                 else if unat (img_offset h) < HEADER_SIZE then Inl BadOffset
                 else if si_size (sysinfo h) \<noteq> SYSINFO_EXPECTED_SIZE then Inl BadInfoSize
                 else Inr (h, bs))"

definition pfi_read_sysinfo :: "u8 list option \<Rightarrow> load_error + sysinfo" where
  "pfi_read_sysinfo f = map_sum id (\<lambda>(h, bs). sysinfo h) (read_pfi_header f)"

record pfi_info =
  sys_info :: sysinfo
  loaded_size :: nat
  flash_offset_in_pfi :: u32

text \<open>The loop over chunks of 4 KB; what is left of the file is \<open>rest\<close>.\<close>

function load_chunks :: "nat \<Rightarrow> nat \<Rightarrow> u8 list \<Rightarrow> bus_state \<Rightarrow> (bus_error + nat) \<times> bus_state" where
  "load_chunks pos fsize rest b =
    (if pos \<ge> fsize then (Inr pos, b)
     else let chunk = take (min 4096 (fsize - pos)) rest
          in if length chunk = 0 then (Inr pos, b)
             else case load_flash (of_nat pos) chunk b of
                 Inl e \<Rightarrow> (Inl e, b)
               | Inr b1 \<Rightarrow> load_chunks (pos + length chunk) fsize (drop (length chunk) rest) b1)"
  by pat_completeness auto
termination
proof (relation "measure (\<lambda>(pos, fsize, rest, b). fsize - pos)", goal_cases)
  case (2 pos fsize rest b chunk b1)
  then have "pos < pos + length chunk" "pos < fsize" by auto
  then have "fsize - (pos + length chunk) < fsize - pos" by (intro diff_less_mono2)
  then show ?case by simp
qed simp

declare load_chunks.simps [simp del]

definition pfi_load :: "u8 list option \<Rightarrow> bus_state \<Rightarrow> (load_error + pfi_info) \<times> bus_state" where
  "pfi_load f b =
    (case read_pfi_header f of
       Inl e \<Rightarrow> (Inl e, b)
     | Inr (h, bs) \<Rightarrow>
         if pffs_end (sysinfo h) \<le> FLASH_BASE then (Inl NoFlashSize, b)
         else (case load_chunks 0 (unat (pffs_end (sysinfo h) - FLASH_BASE)) (drop (unat (img_offset h)) bs) b of
                 (Inl e, b1) \<Rightarrow> (Inl OverCapacity, b1)
               | (Inr pos, b1) \<Rightarrow>
                   if pos = 0 then (Inl EmptyImage, b1)
                   else (Inr \<lparr> sys_info = sysinfo h, loaded_size = pos, flash_offset_in_pfi = img_offset h \<rparr>, b1)))"

section \<open>The image in memory\<close>

text \<open>\<open>None\<close> is the null pointer.\<close>

definition read_pfi_header_blob :: "u8 list option \<Rightarrow> load_error + pfi_header" where
  "read_pfi_header_blob data =
    (case data of
       None \<Rightarrow> Inl NullData
     | Some bs \<Rightarrow>
         if length bs < HEADER_SIZE then Inl ShortHeader
         else let h = header_at bs
              in if \<not> signature_ok (signature h) then Inl BadSignature
                 else if unat (img_offset h) < HEADER_SIZE then Inl BadOffset
                 else if si_size (sysinfo h) \<noteq> SYSINFO_EXPECTED_SIZE then Inl BadInfoSize
                 else Inr h)"

definition pfi_read_sysinfo_blob :: "u8 list option \<Rightarrow> load_error + sysinfo" where
  "pfi_read_sysinfo_blob data = map_sum id sysinfo (read_pfi_header_blob data)"

definition pfi_load_blob :: "u8 list option \<Rightarrow> bus_state \<Rightarrow> (load_error + pfi_info) \<times> bus_state" where
  "pfi_load_blob data b =
    (case read_pfi_header_blob data of
       Inl e \<Rightarrow> (Inl e, b)
     | Inr h \<Rightarrow>
         if pffs_end (sysinfo h) \<le> FLASH_BASE then (Inl NoFlashSize, b)
         else let bs = (case data of None \<Rightarrow> [] | Some bs \<Rightarrow> bs); len = length bs; off = unat (img_offset h)
              in if off > len then (Inl OffsetPastEnd, b)
                 else let to_load = min (unat (pffs_end (sysinfo h) - FLASH_BASE)) (len - off)
                      in if to_load = 0 then (Inl EmptyImage, b)
                         else (case load_flash 0 (take to_load (drop off bs)) b of
                                 Inl e \<Rightarrow> (Inl OverCapacity, b)
                               | Inr b1 \<Rightarrow>
                                   (Inr \<lparr> sys_info = sysinfo h, loaded_size = to_load,
                                      flash_offset_in_pfi = img_offset h \<rparr>, b1)))"

section \<open>The two loaders agree\<close>

lemma chunks_fit:
  "pos \<le> fsize \<Longrightarrow> fsize < 2 ^ 32 \<Longrightarrow> n = min (fsize - pos) (length rest) \<Longrightarrow> pos + n \<le> flash_size (flash b) \<Longrightarrow>
   load_chunks pos fsize rest b = (Inr (pos + n), b\<lparr>flash := flash_put pos (take n rest) (flash b)\<rparr>)"
proof (induction pos fsize rest b arbitrary: n rule: load_chunks.induct)
  case (1 pos fsize rest b)
  let ?k = "min 4096 (fsize - pos)"
  show ?case
  proof (cases "pos \<ge> fsize \<or> rest = []")
    case True
    then show ?thesis using 1(2,4) by (subst load_chunks.simps) auto
  next
    case False
    define c where "c = take ?k rest"
    have c: "0 < length c" "length c \<le> n" "c = take (length c) rest"
      using False 1(4) by (auto simp: c_def min_def)
    have u: "unat (of_nat pos :: u32) = pos" using 1(2,3) by (simp add: u32_of_nat)
    define b1 where "b1 = b\<lparr>flash := flash_put pos c (flash b)\<rparr>"
    have l: "load_flash (of_nat pos) c b = Inr b1" using c(2) 1(5) by (simp add: load_flash_eq u b1_def)
    have step: "load_chunks pos fsize rest b = load_chunks (pos + length c) fsize (drop (length c) rest) b1"
      by (subst load_chunks.simps) (use False c(1) l in \<open>simp add: Let_def flip: c_def\<close>)
    have s: "flash_size (flash b1) = flash_size (flash b)" using c(2) 1(5) by (simp add: b1_def)
    have le: "pos + length c \<le> fsize" using c(2) 1(2,4) min.cobounded1 [of "fsize - pos" "length rest"] by linarith
    have n: "n - length c = min (fsize - (pos + length c)) (length (drop (length c) rest))" using 1(4) by auto
    have "load_chunks (pos + length c) fsize (drop (length c) rest) b1
        = (Inr (pos + length c + (n - length c)), b1\<lparr>flash := flash_put (pos + length c) (take (n - length c) (drop (length c) rest)) (flash b1)\<rparr>)"
      using 1(1) [OF _ c_def _ l _ _ n] False c 1(2-5) s le by (simp flip: c_def)
    moreover have "take n rest = c @ take (n - length c) (drop (length c) rest)"
      using c(2,3) take_add [of "length c" "n - length c" rest] by simp
    moreover have "pos + length c + length (take (n - length c) (drop (length c) rest)) \<le> flash_size (flash b)"
      using c(2) 1(4,5) by auto
    ultimately show ?thesis using step c(2) by (simp add: b1_def flash_put_append)
  qed
qed

lemma chunks_over:
  "pos \<le> fsize \<Longrightarrow> fsize < 2 ^ 32 \<Longrightarrow> pos \<le> flash_size (flash b) \<Longrightarrow>
   flash_size (flash b) < pos + min (fsize - pos) (length rest) \<Longrightarrow>
   \<exists>e xs. load_chunks pos fsize rest b = (Inl e, b\<lparr>flash := flash_put pos xs (flash b)\<rparr>) \<and> pos + length xs \<le> flash_size (flash b)"
proof (induction pos fsize rest b rule: load_chunks.induct)
  case (1 pos fsize rest b)
  define c where "c = take (min 4096 (fsize - pos)) rest"
  have ne: "\<not> pos \<ge> fsize" "0 < length c" using 1(4,5) by (auto simp: c_def)
  have u: "unat (of_nat pos :: u32) = pos" using 1(2,3) by (simp add: u32_of_nat)
  show ?case
  proof (cases "pos + length c \<le> flash_size (flash b)")
    case True
    define b1 where "b1 = b\<lparr>flash := flash_put pos c (flash b)\<rparr>"
    have l: "load_flash (of_nat pos) c b = Inr b1" using True by (simp add: load_flash_eq u b1_def)
    have step: "load_chunks pos fsize rest b = load_chunks (pos + length c) fsize (drop (length c) rest) b1"
      by (subst load_chunks.simps) (use ne l in \<open>simp add: Let_def flip: c_def\<close>)
    have s: "flash_size (flash b1) = flash_size (flash b)" using True by (simp add: b1_def)
    have "\<exists>e xs. load_chunks (pos + length c) fsize (drop (length c) rest) b1
        = (Inl e, b1\<lparr>flash := flash_put (pos + length c) xs (flash b1)\<rparr>) \<and> pos + length c + length xs \<le> flash_size (flash b1)"
      using 1(1) [OF ne(1) c_def _ l] ne True 1(2-5) s by (auto simp: c_def)
    then obtain e xs where r: "load_chunks (pos + length c) fsize (drop (length c) rest) b1
        = (Inl e, b1\<lparr>flash := flash_put (pos + length c) xs (flash b1)\<rparr>)" "pos + length c + length xs \<le> flash_size (flash b)"
      using s by auto
    then show ?thesis using step
      by (intro exI [of _ e] exI [of _ "c @ xs"]) (simp add: b1_def flash_put_append)
  next
    case False
    then have "load_flash (of_nat pos) c b = Inl RuntimeError" by (simp add: load_flash_eq u)
    then have "load_chunks pos fsize rest b = (Inl RuntimeError, b)"
      by (subst load_chunks.simps) (use ne in \<open>simp add: Let_def flip: c_def\<close>)
    then show ?thesis using 1(4) by (intro exI [of _ RuntimeError] exI [of _ "[]"]) simp
  qed
qed

definition image_part :: "pfi_header \<Rightarrow> u8 list \<Rightarrow> u8 list" where
  "image_part h bs = take (unat (pffs_end (sysinfo h) - FLASH_BASE)) (drop (unat (img_offset h)) bs)"

definition info_of :: "pfi_header \<Rightarrow> u8 list \<Rightarrow> pfi_info" where
  "info_of h bs = \<lparr> sys_info = sysinfo h, loaded_size = length (image_part h bs), flash_offset_in_pfi = img_offset h \<rparr>"

definition header_ok :: "u8 list \<Rightarrow> bool" where
  "header_ok bs \<longleftrightarrow> HEADER_SIZE \<le> length bs \<and> signature_ok (signature (header_at bs)) \<and>
     HEADER_SIZE \<le> unat (img_offset (header_at bs)) \<and> si_size (sysinfo (header_at bs)) = 32"

lemma header_cases:
  "read_pfi_header (Some bs) = (if header_ok bs then Inr (header_at bs, bs) else Inl e) \<Longrightarrow>
   read_pfi_header_blob (Some bs) = (if header_ok bs then Inr (header_at bs) else Inl e)"
  by (auto simp: read_pfi_header_def read_pfi_header_blob_def header_ok_def Let_def SYSINFO_EXPECTED_SIZE_def split: if_splits)

lemma header_error:
  "\<exists>e. read_pfi_header (Some bs) = (if header_ok bs then Inr (header_at bs, bs) else Inl e)"
  by (auto simp: read_pfi_header_def header_ok_def Let_def SYSINFO_EXPECTED_SIZE_def)

lemma pfi_load_success:
  "pfi_load (Some bs) b = (Inr i, b') \<longleftrightarrow>
    header_ok bs \<and> FLASH_BASE < pffs_end (sysinfo (header_at bs)) \<and> image_part (header_at bs) bs \<noteq> [] \<and>
    length (image_part (header_at bs) bs) \<le> flash_size (flash b) \<and>
    i = info_of (header_at bs) bs \<and> b' = b\<lparr>flash := flash_put 0 (image_part (header_at bs) bs) (flash b)\<rparr>"
proof -
  let ?h = "header_at bs"
  let ?n = "unat (pffs_end (sysinfo ?h) - FLASH_BASE)" and ?r = "drop (unat (img_offset ?h)) bs"
  have n: "?n < 2 ^ 32" by (rule order_less_le_trans [OF unsigned_less]) simp
  obtain e where h: "read_pfi_header (Some bs) = (if header_ok bs then Inr (?h, bs) else Inl e)" using header_error by blast
  have l: "length (image_part ?h bs) = min ?n (length ?r)" by (simp add: image_part_def)
  show ?thesis
  proof (cases "header_ok bs \<and> FLASH_BASE < pffs_end (sysinfo ?h)")
    case True
    show ?thesis
    proof (cases "length (image_part ?h bs) \<le> flash_size (flash b)")
      case fits: True
      have "load_chunks 0 ?n ?r b = (Inr (length (image_part ?h bs)), b\<lparr>flash := flash_put 0 (image_part ?h bs) (flash b)\<rparr>)"
        using chunks_fit [of 0 ?n "length (image_part ?h bs)" ?r b] n l fits
        by (simp add: image_part_def min_def split: if_splits)
      then show ?thesis using True fits by (auto simp: pfi_load_def h info_of_def)
    next
      case False
      then have "flash_size (flash b) < 0 + min (?n - 0) (length ?r)" using l by linarith
      then obtain e xs where "load_chunks 0 ?n ?r b = (Inl e, b\<lparr>flash := flash_put 0 xs (flash b)\<rparr>)"
        using chunks_over [OF _ n, of 0 b ?r] by auto
      then show ?thesis using True False by (auto simp: pfi_load_def h)
    qed
  qed (auto simp: pfi_load_def h)
qed

lemma pfi_load_blob_success:
  "pfi_load_blob (Some bs) b = (Inr i, b') \<longleftrightarrow>
    header_ok bs \<and> FLASH_BASE < pffs_end (sysinfo (header_at bs)) \<and> image_part (header_at bs) bs \<noteq> [] \<and>
    length (image_part (header_at bs) bs) \<le> flash_size (flash b) \<and>
    i = info_of (header_at bs) bs \<and> b' = b\<lparr>flash := flash_put 0 (image_part (header_at bs) bs) (flash b)\<rparr>"
proof -
  let ?h = "header_at bs"
  let ?n = "unat (pffs_end (sysinfo ?h) - FLASH_BASE)"
  obtain e where "read_pfi_header (Some bs) = (if header_ok bs then Inr (?h, bs) else Inl e)" using header_error by blast
  then have h: "read_pfi_header_blob (Some bs) = (if header_ok bs then Inr ?h else Inl e)" by (rule header_cases)
  have p: "image_part ?h bs = take (min ?n (length bs - unat (img_offset ?h))) (drop (unat (img_offset ?h)) bs)"
    by (simp add: image_part_def min_def)
  show ?thesis
    by (auto simp: pfi_load_blob_def h p load_flash_eq info_of_def Let_def)
qed

text \<open>
  The loader of an image file and the loader of the same bytes in memory succeed on the same inputs,
  with the same description of the image and the same bus: chunk by chunk or at once, what is copied is
  the part of the file from the stored offset on, at most as long as the header says.
\<close>
theorem pfi_loaders_agree:
  "(pfi_load (Some bs) b = (Inr i, b')) = (pfi_load_blob (Some bs) b = (Inr i, b'))"
  unfolding pfi_load_success pfi_load_blob_success ..

text \<open>They differ on failure: the loader of a file may have replaced the start of the flash by then.\<close>

lemma pfi_load_partial:
  assumes "header_ok bs" "FLASH_BASE < pffs_end (sysinfo (header_at bs))"
    "flash_size (flash b) < length (image_part (header_at bs) bs)"
  shows "\<exists>xs. pfi_load (Some bs) b = (Inl OverCapacity, b\<lparr>flash := flash_put 0 xs (flash b)\<rparr>)"
    "pfi_load_blob (Some bs) b = (Inl OverCapacity, b)"
proof -
  let ?h = "header_at bs"
  let ?n = "unat (pffs_end (sysinfo ?h) - FLASH_BASE)" and ?r = "drop (unat (img_offset ?h)) bs"
  have n: "?n < 2 ^ 32" by (rule order_less_le_trans [OF unsigned_less]) simp
  obtain e0 where e0: "read_pfi_header (Some bs) = (if header_ok bs then Inr (?h, bs) else Inl e0)" using header_error by blast
  have "flash_size (flash b) < 0 + min (?n - 0) (length ?r)" using assms(3) by (simp add: image_part_def)
  then obtain e xs where "load_chunks 0 ?n ?r b = (Inl e, b\<lparr>flash := flash_put 0 xs (flash b)\<rparr>)"
    using chunks_over [OF _ n, of 0 b ?r] by auto
  then show "\<exists>xs. pfi_load (Some bs) b = (Inl OverCapacity, b\<lparr>flash := flash_put 0 xs (flash b)\<rparr>)"
    using assms(1,2) e0 by (auto simp: pfi_load_def)
  have p: "image_part ?h bs = take (min ?n (length bs - unat (img_offset ?h))) ?r"
    by (simp add: image_part_def min_def)
  show "pfi_load_blob (Some bs) b = (Inl OverCapacity, b)"
    using assms header_cases [OF e0] by (auto simp: pfi_load_blob_def p load_flash_eq Let_def)
qed

section \<open>Booting an image\<close>

lemma flash_put_all: "length data = length m \<Longrightarrow> copy_image 0 data m = data"
  by (simp add: copy_image_def)

lemma image_file_parts:
  assumes "img_offset h = 48" "length img \<le> unat (pffs_end (sysinfo h) - FLASH_BASE)"
  shows "header_at (image_file h img) = h" "image_part h (image_file h img) = img" "40 \<le> length (image_file h img)"
  using assms by (simp_all add: image_file_def image_part_def)

lemma even_align: "even (unat a) \<Longrightarrow> a AND NOT 1 = (a :: u32)"
  by (simp only: word_unat_eq_iff and_not1 unat_align) simp

lemma fetch_flash:
  assumes "flash_size (flash (bus m)) = length img" "flash_mem (flash (bus m)) = img" "even k" "k + 2 \<le> length img" "length img \<le> 0x200000"
  shows "fst (fetch16 (FLASH_BASE + of_nat k) m) = le16 img k"
proof -
  define a :: u32 where "a = FLASH_BASE + of_nat k"
  have k: "unat a = 0xC00000 + k" "unat (a - FLASH_BASE) = k"
    using assms(4,5) by (simp_all add: a_def u32_add u32_of_nat)
  have e1: "a28 a = a" using k assms(4,5) by (intro a28_id) simp
  have e2: "a AND NOT 1 = a" using k assms(3) by (intro even_align) simp
  have "FLASH_BASE \<le> a" using k by (simp add: word_le_nat_alt)
  then show ?thesis using assms k e1 e2 by (simp add: fetch16_def Let_def flash_end_def flip: a_def)
qed

text \<open>
  C29: An image made from a kernel boots, when the length of the kernel is a multiple of 4096 bytes (the tool makes short
  images of others, \<open>mkpfi_short\<close>) and the kernel fits behind the first two sectors: loading it into a flash of its size in
  read mode succeeds, the reset that follows starts at the reset vector \<open>0xC02004\<close>, and the instructions fetched from
  \<open>0xC02000\<close> on are the kernel's halfwords. No watch callback is installed.
\<close>
theorem mkpfi_boots:
  assumes "length stack = 4096" "28 \<le> length src" "take 20 (drop 8 src) = KERNEL_SIGNATURE"
    and "4096 dvd length src" "8192 + length src \<le> option_bytes opt"
    and "flash_size (flash (bus m)) = option_bytes opt" "flash_read_mode (flash (bus m))" "wp_cb w = None"
  shows "\<exists>f i b'. mkpfi_run stack src (mkpfi_header opt) = Some f \<and> pfi_load (Some f) (bus m) = (Inr i, b') \<and>
     loaded_size i = option_bytes opt \<and> cpu (cpu_reset w (m\<lparr>bus := b'\<rparr>)) = cpu_init\<lparr>pc := 0xC02004\<rparr> \<and>
     list_all (\<lambda>k. fst (fetch16 (0xC02000 + of_nat (2 * k)) (m\<lparr>bus := b'\<rparr>)) = le16 src (2 * k)) [0..<length src div 2]"
proof -
  let ?h = "mkpfi_header opt" and ?img = "flash_image (option_bytes opt) src"
  let ?b = "(bus m)\<lparr>flash := flash_put 0 ?img (flash (bus m))\<rparr>"
  note img = flash_image_facts [OF assms(5)]
  have h: "img_offset ?h = 48" "unat (pffs_end (sysinfo ?h) - FLASH_BASE) = option_bytes opt" "FLASH_BASE < pffs_end (sysinfo ?h)"
    "signature_ok (signature ?h)" "si_size (sysinfo ?h) = 32"
    by (cases opt; simp add: mkpfi_header_def si_default_def option_bytes_def signature_ok_def)+
  note parts = image_file_parts [of ?h ?img, OF h(1)]
  have opt: "option_bytes opt \<le> 0x200000" "4 \<le> option_bytes opt" by (cases opt; simp add: option_bytes_def)+
  have mem: "flash_mem (flash ?b) = ?img" using assms(6) img(1) by (simp add: flash_put_all flash_size_def)
  have sz: "flash_size (flash ?b) = option_bytes opt" using mem img(1) by (simp add: flash_size_def)
  have load: "pfi_load (Some (image_file ?h ?img)) (bus m) = (Inr (info_of ?h (image_file ?h ?img)), ?b)"
    using h img(1) assms(6) opt(2) parts by (auto simp: pfi_load_success header_ok_def)
  have pc: "cpu (cpu_reset w (m\<lparr>bus := ?b\<rparr>)) = cpu_init\<lparr>pc := 0xC02004\<rparr>"
    using cpu_reset_pc(1) [of w "m\<lparr>bus := ?b\<rparr>"] assms(7,8) sz opt(2) mem img(2) by simp
  have fetch: "fst (fetch16 (0xC02000 + of_nat (2 * k)) (m\<lparr>bus := ?b\<rparr>)) = le16 src (2 * k)" if "k < length src div 2" for k
  proof -
    have k: "2 * k + 2 \<le> length src" using that by linarith
    have "0xC02000 + of_nat (2 * k) = FLASH_BASE + (of_nat (0x2000 + 2 * k) :: u32)" by simp
    then have "fst (fetch16 (0xC02000 + of_nat (2 * k)) (m\<lparr>bus := ?b\<rparr>)) = le16 ?img (0x2000 + 2 * k)"
      using fetch_flash [of "m\<lparr>bus := ?b\<rparr>" ?img "0x2000 + 2 * k"] sz mem img(1) k assms(5) opt(1) by simp
    also have "\<dots> = le16 (take (length src) (drop 0x2000 ?img)) (2 * k)" using k img(1) assms(5) by (simp add: le16_def)
    finally show ?thesis unfolding img(3) .
  qed
  show ?thesis
    using mkpfi_image [OF assms(1-5)] load pc fetch parts img(1) h(2)
    by (intro exI [of _ "image_file ?h ?img"] exI [of _ "info_of ?h (image_file ?h ?img)"] exI [of _ ?b])
      (simp add: info_of_def list_all_iff)
qed

theorem mkpfi_boots_witness:
  "\<exists>f i b'. mkpfi_run (replicate 4096 0) sample_kernel (mkpfi_header Size512kb) = Some f \<and>
     pfi_load (Some f) (bus_create 0x40000 0x80000) = (Inr i, b') \<and> loaded_size i = 0x80000"
proof -
  let ?m = "\<lparr> cpu = cpu_init, bus = bus_create 0x40000 0x80000, dev = (), diag_log = [], breakpoints = {}, strict = False \<rparr>"
  have k: "length sample_kernel = 4096" "take 20 (drop 8 sample_kernel) = KERNEL_SIGNATURE"
    by (simp_all add: sample_kernel_def KERNEL_SIGNATURE_def)
  have "8192 + length sample_kernel \<le> option_bytes Size512kb" "28 \<le> length sample_kernel" "4096 dvd length sample_kernel"
    by (simp_all add: k(1) option_bytes_def)
  moreover have "flash_size (flash (bus ?m)) = option_bytes Size512kb" "flash_read_mode (flash (bus ?m))"
    by (simp_all add: bus_create_def flash_size_def flat_create_def option_bytes_def)
  ultimately show ?thesis
    using mkpfi_boots [where stack = "replicate 4096 0" and src = sample_kernel and opt = Size512kb and m = ?m and w = no_wiring] k
    by (fastforce simp: option_bytes_def no_wiring_def)
qed

end
