(* ===== verification/ElfLoad.thy ===== *)
theory ElfLoad
  imports Loader
begin

text \<open>
  The ELF loader, \<^verbatim>\<open>src/debug/elf_loader.cpp\<close>. A read or write outside a buffer, which C++ leaves
  undefined, is the error \<open>Undefined\<close>. The file is the list of its bytes; the bus is returned together
  with the result, because an exception leaves the segments loaded so far.
\<close>

section \<open>Headers\<close>

datatype elf_error = ElfCannotOpen | TooSmall | NotElf | Not32Bit | NotLittleEndian | NoProgramHeaders
  | HeaderOutOfBounds | PastFileEnd | FlashOverflow | SramOverflow | IramOverflow | Undefined

abbreviation (input) EHDR_SIZE :: nat where "EHDR_SIZE \<equiv> 52"
abbreviation (input) PHDR_SIZE :: nat where "PHDR_SIZE \<equiv> 32"
abbreviation (input) PT_LOAD :: u32 where "PT_LOAD \<equiv> 1"

record elf_header =
  e_entry :: u32
  e_phoff :: u32
  e_phentsize :: u16
  e_phnum :: u16

definition ehdr_at :: "u8 list \<Rightarrow> elf_header" where
  "ehdr_at d = \<lparr> e_entry = le32 d 24, e_phoff = le32 d 28, e_phentsize = le16 d 42, e_phnum = le16 d 44 \<rparr>"

record program_header =
  p_type :: u32
  p_offset :: u32
  p_paddr :: u32
  p_filesz :: u32
  p_memsz :: u32

definition phdr_at :: "u8 list \<Rightarrow> nat \<Rightarrow> program_header" where
  "phdr_at d i = \<lparr> p_type = le32 d i, p_offset = le32 d (i + 4), p_paddr = le32 d (i + 12),
     p_filesz = le32 d (i + 16), p_memsz = le32 d (i + 20) \<rparr>"

section \<open>One segment\<close>

text \<open>The bytes from \<open>src\<close> on; \<open>None\<close> when they are not all in the file.\<close>

definition file_part :: "u8 list \<Rightarrow> u32 \<Rightarrow> u32 \<Rightarrow> u8 list option" where
  "file_part d off n = (if unat off + unat n \<le> length d then Some (take (unat n) (drop (unat off) d)) else None)"

definition put_iram :: "nat \<Rightarrow> u8 list \<Rightarrow> bus_state \<Rightarrow> bus_state" where
  "put_iram a data b = b\<lparr>iram := copy_image a data (iram b)\<rparr>"

text \<open>The copy of the file's bytes. \<open>Inr None\<close> is the segment outside the known memory, which is skipped.\<close>

definition place :: "u8 list \<Rightarrow> program_header \<Rightarrow> bus_state \<Rightarrow> elf_error + bus_state option" where
  "place d ph b =
    (if p_paddr ph \<ge> FLASH_BASE \<and> unat (p_paddr ph) < unat FLASH_BASE + flash_size (flash b) then
       (if p_filesz ph > 0 then
          (if unat (p_paddr ph - FLASH_BASE) + unat (p_filesz ph) > flash_size (flash b) then Inl FlashOverflow
           else case file_part d (p_offset ph) (p_filesz ph) of
               None \<Rightarrow> Inl Undefined
             | Some src \<Rightarrow> map_sum (\<lambda>_. FlashOverflow) Some (load_flash (p_paddr ph - FLASH_BASE) src b))
        else Inr (Some b))
     else if p_paddr ph \<ge> SRAM_BASE \<and> unat (p_paddr ph) < unat SRAM_BASE + length (sram b) then
       (if p_filesz ph > 0 then
          (if unat (p_paddr ph - SRAM_BASE) + unat (p_filesz ph) > length (sram b) then Inl SramOverflow
           else case file_part d (p_offset ph) (p_filesz ph) of
               None \<Rightarrow> Inl Undefined
             | Some src \<Rightarrow> map_sum (\<lambda>_. SramOverflow) Some (load_sram (p_paddr ph - SRAM_BASE) src b))
        else Inr (Some b))
     else if p_paddr ph < 0x2000 then
       (if p_filesz ph > 0 then
          (if p_paddr ph + p_filesz ph > 0x2000 then Inl IramOverflow
           else case file_part d (p_offset ph) (p_filesz ph) of
               None \<Rightarrow> Inl Undefined
             | Some src \<Rightarrow> if unat (p_paddr ph) + length src > length (iram b) then Inl Undefined
                          else Inr (Some (put_iram (unat (p_paddr ph)) src b)))
        else Inr (Some b))
     else Inr None)"

text \<open>The loop that clears what the file does not hold, through the bus.\<close>

primrec zero_fill :: "'d wiring \<Rightarrow> u32 \<Rightarrow> nat \<Rightarrow> 'd machine \<Rightarrow> 'd machine" where
  "zero_fill w a 0 m = m"
| "zero_fill w a (Suc n) m = zero_fill w (a + 1) n (write8 w a 0 m)"

definition load_segment :: "'d wiring \<Rightarrow> u8 list \<Rightarrow> program_header \<Rightarrow> 'd machine \<Rightarrow> elf_error + 'd machine" where
  "load_segment w d ph m =
    (if p_type ph \<noteq> PT_LOAD then Inr m
     else if p_filesz ph = 0 \<and> p_memsz ph = 0 then Inr m
     else if unat (p_offset ph + p_filesz ph) > length d then Inl PastFileEnd
     else case place d ph (bus m) of
         Inl e \<Rightarrow> Inl e
       | Inr None \<Rightarrow> Inr m
       | Inr (Some b) \<Rightarrow>
           let m1 = m\<lparr>bus := b\<rparr>
           in Inr (if p_memsz ph > p_filesz ph
                   then zero_fill w (p_paddr ph + p_filesz ph) (unat (p_memsz ph - p_filesz ph)) m1 else m1))"

section \<open>The loader\<close>

primrec load_headers :: "'d wiring \<Rightarrow> u8 list \<Rightarrow> u32 list \<Rightarrow> 'd machine \<Rightarrow> (elf_error + unit) \<times> 'd machine" where
  "load_headers w d [] m = (Inr (), m)"
| "load_headers w d (off # offs) m =
    (if unat off + PHDR_SIZE > length d then (Inl HeaderOutOfBounds, m)
     else case load_segment w d (phdr_at d (unat off)) m of
         Inl e \<Rightarrow> (Inl e, m)
       | Inr m1 \<Rightarrow> load_headers w d offs m1)"

text \<open>
  The offsets \<open>phoff + i * phentsz\<close>, computed in 32 bits. In the code the product is one of \<open>int\<close>: from \<open>2 ^ 31\<close> on the
  language leaves it undefined and here it wraps. A file below 2 GB is refused before, at the first offset outside it.
\<close>

definition phdr_offsets :: "elf_header \<Rightarrow> u32 list" where
  "phdr_offsets eh = map (\<lambda>i. e_phoff eh + of_nat i * ucast (e_phentsize eh)) [0..<unat (e_phnum eh)]"

definition elf_load :: "'d wiring \<Rightarrow> u8 list option \<Rightarrow> 'd machine \<Rightarrow> (elf_error + u32) \<times> 'd machine" where
  "elf_load w f m =
    (case f of
       None \<Rightarrow> (Inl ElfCannotOpen, m)
     | Some d \<Rightarrow>
         if length d < EHDR_SIZE then (Inl TooSmall, m)
         else if d ! 0 \<noteq> 0x7F \<or> d ! 1 \<noteq> 0x45 \<or> d ! 2 \<noteq> 0x4C \<or> d ! 3 \<noteq> 0x46 then (Inl NotElf, m)
         else if d ! 4 \<noteq> 1 then (Inl Not32Bit, m)
         else if d ! 5 \<noteq> 1 then (Inl NotLittleEndian, m)
         else let eh = ehdr_at d
              in if e_phnum eh = 0 then (Inl NoProgramHeaders, m)
                 else case load_headers w d (phdr_offsets eh) m of
                     (Inl e, m1) \<Rightarrow> (Inl e, m1)
                   | (Inr u, m1) \<Rightarrow> (Inr (e_entry eh), m1))"

section \<open>Segments in external RAM\<close>

lemma zero_fill_sram:
  "n = 0 \<or> in_sram m a n \<Longrightarrow> \<exists>k. zero_fill w a n m
     = (if n = 0 then m else charge k (store_sram (copy_image (sram_off a) (replicate n 0) (sram (bus m))) m))"
proof (induction n arbitrary: a m)
  case (Suc n)
  then have g: "in_sram m a (Suc n)" by simp
  define m1 where "m1 = write8 w a 0 m"
  have g1: "in_sram m a 1" and room: "sram_off a < length (sram (bus m))"
    using in_sramD(8) [OF g] g by (auto simp: in_sram_def)
  have m1: "m1 = charge (ext_write_cycles (bus m) (sram_wait (bus m))) (store_sram ((sram (bus m))[sram_off a := 0]) m)"
    by (simp add: m1_def write8_sram [OF g1] charge_store_sram)
  have one: "copy_image (sram_off a) [0] xs = xs[sram_off a := 0]" if "sram_off a < length xs" for xs :: "u8 list"
    using that by (simp add: copy_image_def upd_conv_take_nth_drop)
  show ?case
  proof (cases "n = 0")
    case True
    then show ?thesis using m1 room by (auto simp: one simp flip: m1_def)
  next
    case False
    have sub: "in_sram m (a + 1) n" "sram_off (a + 1) = sram_off a + 1"
      using in_sram_sub [OF g, of 1 n] False by auto
    then have "in_sram m1 (a + 1) n" using room by (simp add: m1)
    then obtain k where "zero_fill w (a + 1) n m1
        = charge k (store_sram (copy_image (sram_off (a + 1)) (replicate n 0) (sram (bus m1))) m1)"
      using Suc.IH [of m1 "a + 1"] False by auto
    moreover have "copy_image (sram_off a + 1) (replicate n 0) ((sram (bus m))[sram_off a := 0])
        = copy_image (sram_off a) (replicate (Suc n) 0) (sram (bus m))"
      using copy_image_append [of "sram_off a" "[0]" "replicate n 0" "sram (bus m)"] in_sramD(7) [OF g] room
      by (simp add: one)
    ultimately show ?thesis
      using room sub(2) by (auto simp: m1 charge_store_sram [symmetric] charge_charge simp flip: m1_def)
  qed
qed simp

definition seg_bytes :: "u8 list \<Rightarrow> program_header \<Rightarrow> u8 list" where
  "seg_bytes d ph = take (unat (p_filesz ph)) (drop (unat (p_offset ph)) d)
     @ replicate (unat (p_memsz ph) - unat (p_filesz ph)) 0"

text \<open>A segment that lies in the file and, with what is to be cleared, in the installed external RAM.\<close>

definition sram_segment :: "u8 list \<Rightarrow> nat \<Rightarrow> program_header \<Rightarrow> bool" where
  "sram_segment d n ph \<longleftrightarrow> p_filesz ph \<le> p_memsz ph \<and> unat (p_offset ph) + unat (p_filesz ph) \<le> length d \<and>
     0x100000 \<le> unat (p_paddr ph) \<and> 0 < p_memsz ph \<and> unat (p_paddr ph) + unat (p_memsz ph) \<le> 0x100000 + n \<and> n \<le> 0x100000"

text \<open>What a load leaves as it is.\<close>

definition only_sram :: "'d machine \<Rightarrow> 'd machine \<Rightarrow> bool" where
  "only_sram m m' \<longleftrightarrow> (\<exists>k xs. m' = charge k (store_sram xs m) \<and> length xs = length (sram (bus m)))"

lemma only_sram_trans:
  assumes "only_sram a b" "only_sram b c" shows "only_sram a c"
proof -
  obtain k xs where b: "b = charge k (store_sram xs a)" "length xs = length (sram (bus a))" using assms(1) by (auto simp: only_sram_def)
  obtain l ys where c: "c = charge l (store_sram ys b)" "length ys = length (sram (bus b))" using assms(2) by (auto simp: only_sram_def)
  have "c = charge (k + l) (store_sram ys a)" by (simp add: b c charge_store_sram [symmetric] charge_charge)
  then show ?thesis using b c by (auto simp: only_sram_def)
qed

lemma only_sramD:
  assumes "only_sram m m'"
  shows "length (sram (bus m')) = length (sram (bus m))" "watchpoints (bus m') = watchpoints (bus m)"
    "cpu m' = cpu m" "dev m' = dev m" "flash (bus m') = flash (bus m)" "iram (bus m') = iram (bus m)"
  using assms by (auto simp: only_sram_def)

lemma segment_sram:
  assumes "sram_segment d (length (sram (bus m))) ph" "p_type ph = PT_LOAD" "watchpoints (bus m) = []"
  shows "\<exists>m'. load_segment w d ph m = Inr m' \<and> only_sram m m' \<and>
    sram (bus m') = copy_image (sram_off (p_paddr ph)) (seg_bytes d ph) (sram (bus m))"
proof -
  note h = assms(1) [unfolded sram_segment_def]
  let ?n = "unat (p_filesz ph)" and ?off = "sram_off (p_paddr ph)" and ?b = "bus m"
  let ?src = "take ?n (drop (unat (p_offset ph)) d)"
  define xs where "xs = copy_image ?off ?src (sram ?b)"
  define m1 where "m1 = store_sram xs m"
  have mem: "?n \<le> unat (p_memsz ph)" "0 < unat (p_memsz ph)" using h by (auto simp: word_le_nat_alt word_less_nat_alt)
  have src: "length ?src = ?n" using h by (auto simp: min_def)
  have g: "in_sram m (p_paddr ph) (unat (p_memsz ph))" using h mem(2) assms(3) by (simp add: in_sram_def)
  note gD = in_sramD [OF g]
  have lo: "SRAM_BASE \<le> p_paddr ph" "\<not> FLASH_BASE \<le> p_paddr ph"
    using gD(2) h by (auto simp: word_le_nat_alt)
  have lt: "unat (p_paddr ph) < unat SRAM_BASE + length (sram ?b)" using h mem(2) by simp
  have sum: "unat (p_offset ph + p_filesz ph) \<le> length d"
    using h unat_plus_if' [of "p_offset ph" "p_filesz ph"] by (auto split: if_splits)
  have placed: "place d ph ?b = Inr (Some (bus m1))"
    using lo lt gD(6,7) mem(1) h src
    by (auto simp: place_def file_part_def load_sram_def m1_def store_sram_def xs_def word_gt_0)
  have len: "length xs = length (sram ?b)" using src gD(7) mem(1) by (simp add: xs_def)
  have only: "only_sram m m1" unfolding only_sram_def m1_def
    using len by (intro exI [of _ 0] exI [of _ xs]) (simp add: charge_def)
  have seg: "load_segment w d ph m = Inr (if p_memsz ph > p_filesz ph
      then zero_fill w (p_paddr ph + p_filesz ph) (unat (p_memsz ph - p_filesz ph)) m1 else m1)"
    using assms(2) mem(2) sum placed by (auto simp: load_segment_def m1_def store_sram_def Let_def)
  show ?thesis
  proof (cases "p_memsz ph > p_filesz ph")
    case False
    then have "p_memsz ph = p_filesz ph" using h by simp
    then show ?thesis using seg only by (auto simp: seg_bytes_def m1_def xs_def)
  next
    case True
    let ?z = "unat (p_memsz ph - p_filesz ph)"
    have z: "?z = unat (p_memsz ph) - ?n" "0 < ?z" using True by (simp_all add: u32_sub word_less_nat_alt)
    have sub: "in_sram m (p_paddr ph + p_filesz ph) ?z \<and> sram_off (p_paddr ph + p_filesz ph) = ?off + ?n"
      using in_sram_sub [OF g, of ?n ?z] z by simp
    then have "in_sram m1 (p_paddr ph + p_filesz ph) ?z" using len by (simp add: m1_def)
    then obtain k where k: "zero_fill w (p_paddr ph + p_filesz ph) ?z m1
        = charge k (store_sram (copy_image (?off + ?n) (replicate ?z 0) xs) m1)"
      using zero_fill_sram [of ?z m1 "p_paddr ph + p_filesz ph" w] z(2) sub by (auto simp: m1_def)
    have "copy_image (?off + ?n) (replicate ?z 0) xs = copy_image ?off (seg_bytes d ph) (sram ?b)"
      using copy_image_append [of ?off ?src "replicate ?z 0" "sram ?b"] src z(1) gD(7) mem(1)
      by (simp add: xs_def seg_bytes_def)
    moreover have "only_sram m1 (charge k (store_sram (copy_image (?off + ?n) (replicate ?z 0) xs) m1))"
      unfolding only_sram_def using gD(7) z mem(1) len
      by (intro exI [of _ k] exI [of _ "copy_image (?off + ?n) (replicate ?z 0) xs"]) (simp add: m1_def)
    ultimately show ?thesis using seg True k only only_sram_trans by auto
  qed
qed

section \<open>The whole file\<close>

definition loads :: "program_header \<Rightarrow> bool" where
  "loads ph \<longleftrightarrow> p_type ph = PT_LOAD \<and> (p_filesz ph \<noteq> 0 \<or> p_memsz ph \<noteq> 0)"

definition put_segment :: "u8 list \<Rightarrow> program_header \<Rightarrow> u8 list \<Rightarrow> u8 list" where
  "put_segment d ph xs = copy_image (sram_off (p_paddr ph)) (seg_bytes d ph) xs"

lemma load_segment_skip: "\<not> loads ph \<Longrightarrow> load_segment w d ph m = Inr m"
  by (auto simp: load_segment_def loads_def)

lemma headers_sram:
  "\<forall>off \<in> set offs. unat off + PHDR_SIZE \<le> length d \<Longrightarrow>
   \<forall>off \<in> set offs. loads (phdr_at d (unat off)) \<longrightarrow> sram_segment d (length (sram (bus m))) (phdr_at d (unat off)) \<Longrightarrow>
   watchpoints (bus m) = [] \<Longrightarrow>
   \<exists>m'. load_headers w d offs m = (Inr (), m') \<and> only_sram m m' \<and>
     sram (bus m') = fold (put_segment d) (filter loads (map (\<lambda>off. phdr_at d (unat off)) offs)) (sram (bus m))"
proof (induction offs arbitrary: m)
  case Nil
  have "only_sram m m" unfolding only_sram_def
    by (intro exI [of _ 0] exI [of _ "sram (bus m)"]) (simp add: charge_def store_sram_def)
  then show ?case by simp
next
  case (Cons off offs)
  let ?ph = "phdr_at d (unat off)"
  show ?case
  proof (cases "loads ?ph")
    case False
    then show ?thesis using Cons.IH [of m] Cons.prems by (simp add: load_segment_skip)
  next
    case True
    then obtain m1 where m1: "load_segment w d ?ph m = Inr m1" "only_sram m m1" "sram (bus m1) = put_segment d ?ph (sram (bus m))"
      using segment_sram [of d m ?ph w] Cons.prems by (auto simp: loads_def put_segment_def)
    obtain m' where "load_headers w d offs m1 = (Inr (), m')" "only_sram m1 m'"
      "sram (bus m') = fold (put_segment d) (filter loads (map (\<lambda>off. phdr_at d (unat off)) offs)) (sram (bus m1))"
      using Cons.IH [of m1] Cons.prems only_sramD [OF m1(2)] by auto
    then show ?thesis using m1 Cons.prems True only_sram_trans [OF m1(2)] by auto
  qed
qed

definition segments_apart :: "program_header \<Rightarrow> program_header \<Rightarrow> bool" where
  "segments_apart p q \<longleftrightarrow> unat (p_paddr p) + unat (p_memsz p) \<le> unat (p_paddr q) \<or>
     unat (p_paddr q) + unat (p_memsz q) \<le> unat (p_paddr p)"

lemma seg_bytes_length: "sram_segment d n ph \<Longrightarrow> length (seg_bytes d ph) = unat (p_memsz ph)"
  by (auto simp: sram_segment_def seg_bytes_def word_le_nat_alt min_def)

lemma put_segment_range:
  assumes "sram_segment d (length xs) ph"
  shows "length (put_segment d ph xs) = length xs"
    "take (unat (p_memsz ph)) (drop (sram_off (p_paddr ph)) (put_segment d ph xs)) = seg_bytes d ph"
proof -
  have fit: "sram_off (p_paddr ph) + length (seg_bytes d ph) \<le> length xs"
    using assms seg_bytes_length [OF assms] by (auto simp: sram_segment_def sram_off_def)
  show len: "length (put_segment d ph xs) = length xs" using fit by (simp add: put_segment_def)
  show "take (unat (p_memsz ph)) (drop (sram_off (p_paddr ph)) (put_segment d ph xs)) = seg_bytes d ph"
    using fit seg_bytes_length [OF assms] by (simp add: put_segment_def copy_image_def)
qed

lemma put_segment_other:
  assumes "sram_segment d (length xs) p" "sram_segment d (length xs) q" "segments_apart p q"
  shows "take (unat (p_memsz p)) (drop (sram_off (p_paddr p)) (put_segment d q xs))
    = take (unat (p_memsz p)) (drop (sram_off (p_paddr p)) xs)"
proof (rule nth_equalityI, goal_cases)
  case 1
  then show ?case by (simp add: put_segment_range(1) [OF assms(2)])
next
  case (2 i)
  have fit: "sram_off (p_paddr q) + length (seg_bytes d q) \<le> length xs"
    using assms(2) seg_bytes_length [OF assms(2)] by (auto simp: sram_segment_def sram_off_def)
  have i: "i < unat (p_memsz p)" "sram_off (p_paddr p) + i < length xs"
    using 2 by (auto simp: put_segment_range(1) [OF assms(2)])
  have "\<not> (sram_off (p_paddr q) \<le> sram_off (p_paddr p) + i \<and> sram_off (p_paddr p) + i < sram_off (p_paddr q) + length (seg_bytes d q))"
    using assms i seg_bytes_length [OF assms(2)] by (auto simp: segments_apart_def sram_segment_def sram_off_def)
  then show ?case using i fit by (auto simp: put_segment_def nth_copy_image)
qed

lemma put_segments:
  "\<forall>ph \<in> set phs. sram_segment d (length xs) ph \<Longrightarrow> sorted_wrt segments_apart phs \<Longrightarrow>
   length (fold (put_segment d) phs xs) = length xs \<and>
   (\<forall>ph \<in> set phs. take (unat (p_memsz ph)) (drop (sram_off (p_paddr ph)) (fold (put_segment d) phs xs)) = seg_bytes d ph)"
proof (induction phs rule: rev_induct)
  case (snoc q phs)
  then have IH: "length (fold (put_segment d) phs xs) = length xs"
    "\<forall>ph \<in> set phs. take (unat (p_memsz ph)) (drop (sram_off (p_paddr ph)) (fold (put_segment d) phs xs)) = seg_bytes d ph"
    by (simp_all add: sorted_wrt_append)
  have "\<forall>ph \<in> set phs. segments_apart ph q" using snoc.prems(2) by (simp add: sorted_wrt_append)
  then show ?case
    using IH snoc.prems(1) put_segment_range [of d "fold (put_segment d) phs xs" q]
      put_segment_other [of d "fold (put_segment d) phs xs" _ q]
    by simp
qed simp

definition elf_ident_ok :: "u8 list \<Rightarrow> bool" where
  "elf_ident_ok d \<longleftrightarrow> EHDR_SIZE \<le> length d \<and> take 6 d = [0x7F, 0x45, 0x4C, 0x46, 1, 1]"

definition elf_headers :: "u8 list \<Rightarrow> program_header list" where
  "elf_headers d = map (\<lambda>off. phdr_at d (unat off)) (phdr_offsets (ehdr_at d))"

lemma elf_ident: "elf_ident_ok d \<Longrightarrow> d ! 0 = 0x7F \<and> d ! 1 = 0x45 \<and> d ! 2 = 0x4C \<and> d ! 3 = 0x46 \<and> d ! 4 = 1 \<and> d ! 5 = 1"
proof -
  assume "elf_ident_ok d"
  then have t: "take 6 d = [0x7F, 0x45, 0x4C, 0x46, 1, 1]" by (simp add: elf_ident_ok_def)
  have "d ! i = [0x7F, 0x45, 0x4C, 0x46, 1, 1] ! i" if "i < 6" for i
    using nth_take [OF that, of d] t by simp
  from this [of 0] this [of 1] this [of 2] this [of 3] this [of 4] this [of 5] show ?thesis by simp
qed

lemma elf_load_eq:
  assumes "elf_ident_ok d" "e_phnum (ehdr_at d) \<noteq> 0" "load_headers w d (phdr_offsets (ehdr_at d)) m = (Inr (), m')"
  shows "elf_load w (Some d) m = (Inr (e_entry (ehdr_at d)), m')"
  using assms elf_ident [OF assms(1)] by (simp add: elf_load_def elf_ident_ok_def Let_def)

text \<open>
  C28: Loading an ELF file whose segments lie in external RAM, apart from one another, returns the entry
  point, and every segment reads back as its bytes of the file followed by zeros up to its size in
  memory. The CPU, the devices, the flash and internal RAM are left as they were.
\<close>
theorem elf_segments_loaded:
  assumes "elf_ident_ok d" "e_phnum (ehdr_at d) \<noteq> 0" "watchpoints (bus m) = []"
    and "\<forall>off \<in> set (phdr_offsets (ehdr_at d)). unat off + PHDR_SIZE \<le> length d"
    and "\<forall>ph \<in> set (filter loads (elf_headers d)). sram_segment d (length (sram (bus m))) ph"
    and "sorted_wrt segments_apart (filter loads (elf_headers d))"
  shows "\<exists>m'. elf_load w (Some d) m = (Inr (e_entry (ehdr_at d)), m') \<and> cpu m' = cpu m \<and> dev m' = dev m \<and>
     flash (bus m') = flash (bus m) \<and> iram (bus m') = iram (bus m) \<and> length (sram (bus m')) = length (sram (bus m)) \<and>
     list_all (\<lambda>ph. take (unat (p_memsz ph)) (drop (sram_off (p_paddr ph)) (sram (bus m'))) = seg_bytes d ph) (filter loads (elf_headers d))"
proof -
  obtain m' where m': "load_headers w d (phdr_offsets (ehdr_at d)) m = (Inr (), m')" "only_sram m m'"
    "sram (bus m') = fold (put_segment d) (filter loads (elf_headers d)) (sram (bus m))"
    using headers_sram [of "phdr_offsets (ehdr_at d)" d m w] assms(3-5) by (auto simp: elf_headers_def)
  show ?thesis
    using elf_load_eq [OF assms(1,2) m'(1)] only_sramD [OF m'(2)] put_segments [OF assms(5,6)] m'(3)
    by (simp add: list_all_iff)
qed

definition sample_elf :: "u8 list" where
  "sample_elf = [0x7F, 0x45, 0x4C, 0x46, 1, 1] @ replicate 18 0 @ [0x10, 0, 0x10, 0] @ [52, 0, 0, 0] @ replicate 10 0 @ [32, 0, 1, 0] @ replicate 6 0
     @ [1, 0, 0, 0] @ [84, 0, 0, 0] @ replicate 4 0 @ [0x10, 0, 0x10, 0] @ [2, 0, 0, 0] @ [4, 0, 0, 0] @ replicate 8 0 @ [0xAB, 0xCD]"

lemma sample_elf_parts:
  "elf_ident_ok sample_elf" "ehdr_at sample_elf = \<lparr> e_entry = 0x100010, e_phoff = 52, e_phentsize = 32, e_phnum = 1 \<rparr>"
  "phdr_at sample_elf 52 = \<lparr> p_type = 1, p_offset = 84, p_paddr = 0x100010, p_filesz = 2, p_memsz = 4 \<rparr>"
  "length sample_elf = 86" "drop 84 sample_elf = [0xAB, 0xCD]"
  by (simp_all add: sample_elf_def elf_ident_ok_def ehdr_at_def phdr_at_def le16_def le32_def nth_append)

lemma sample_elf_headers:
  "phdr_offsets (ehdr_at sample_elf) = [52]"
  "elf_headers sample_elf = [\<lparr> p_type = 1, p_offset = 84, p_paddr = 0x100010, p_filesz = 2, p_memsz = 4 \<rparr>]"
  by (simp_all add: elf_headers_def phdr_offsets_def sample_elf_parts)

theorem elf_segments_loaded_witness:
  "\<exists>m'. elf_load no_wiring (Some sample_elf) sample_bus = (Inr 0x100010, m') \<and>
     take 4 (drop 0x10 (sram (bus m'))) = [0xAB, 0xCD, 0, 0]"
proof -
  have s: "watchpoints (bus sample_bus) = []" "length (sram (bus sample_bus)) = 4096"
    by (simp_all add: sample_bus_parts)
  let ?ph = "\<lparr> p_type = 1, p_offset = 84, p_paddr = 0x100010, p_filesz = 2, p_memsz = 4 \<rparr>"
  have two: "replicate 2 (0 :: u8) = [0, 0]" by (simp add: numeral_2_eq_2)
  have l: "filter loads (elf_headers sample_elf) = [?ph]" by (simp add: sample_elf_headers loads_def)
  have "e_phnum (ehdr_at sample_elf) \<noteq> 0" "e_entry (ehdr_at sample_elf) = 0x100010" by (simp_all add: sample_elf_parts)
  moreover have "\<forall>off \<in> set (phdr_offsets (ehdr_at sample_elf)). unat off + PHDR_SIZE \<le> length sample_elf"
    unfolding sample_elf_headers(1) by (simp add: sample_elf_parts(4))
  moreover have "\<forall>ph \<in> set (filter loads (elf_headers sample_elf)). sram_segment sample_elf (length (sram (bus sample_bus))) ph"
    unfolding l s(2) sample_elf_parts sram_segment_def by simp
  moreover have "sorted_wrt segments_apart (filter loads (elf_headers sample_elf))" unfolding l by simp
  moreover have "seg_bytes sample_elf ?ph = [0xAB, 0xCD, 0, 0]"
    using two by (simp add: seg_bytes_def sample_elf_parts(5))
  ultimately show ?thesis
    using elf_segments_loaded [OF sample_elf_parts(1) _ s(1), of no_wiring] l by (auto simp: sram_off_def)
qed

section \<open>Reads outside the file\<close>

text \<open>
  C30: A segment is copied from outside the file or to outside internal RAM only when its offset, or its
  address, and its size add up to more than 32 bits hold: the sums the checks compare wrap around.
\<close>
theorem elf_outside_by_wrap:
  assumes "load_segment w d ph m = Inl Undefined" "length (iram (bus m)) = 0x2000"
  shows "2 ^ 32 \<le> unat (p_offset ph) + unat (p_filesz ph) \<or> 2 ^ 32 \<le> unat (p_paddr ph) + unat (p_filesz ph)"
proof (rule ccontr)
  assume "\<not> ?thesis"
  then have sums: "unat (p_offset ph + p_filesz ph) = unat (p_offset ph) + unat (p_filesz ph)"
    "unat (p_paddr ph + p_filesz ph) = unat (p_paddr ph) + unat (p_filesz ph)"
    by (simp_all add: u32_add)
  show False
    using assms sums
    by (auto simp: load_segment_def Let_def place_def file_part_def load_flash_def load_sram_def word_less_nat_alt word_le_nat_alt
        split: if_splits option.splits sum.splits flash_error.splits)
qed

theorem elf_outside_by_wrap_witness:
  "load_segment no_wiring (replicate 100 0) \<lparr> p_type = 1, p_offset = 0xFFFFFFF0, p_paddr = 0x100000, p_filesz = 0x20, p_memsz = 0x20 \<rparr> sample_bus
     = Inl Undefined \<and> (2 :: nat) ^ 32 \<le> 0xFFFFFFF0 + 0x20"
proof -
  have s: "length (sram (bus sample_bus)) = 4096" "length (iram (bus sample_bus)) = 0x2000"
    by (simp_all add: sample_bus_def bus_create_def)
  have u: "load_segment no_wiring (replicate 100 0) \<lparr> p_type = 1, p_offset = 0xFFFFFFF0, p_paddr = 0x100000, p_filesz = 0x20, p_memsz = 0x20 \<rparr> sample_bus
     = Inl Undefined"
    using s by (simp add: load_segment_def place_def file_part_def)
  then show ?thesis using elf_outside_by_wrap [OF u s(2)] by simp
qed

end
