(* ===== verification/Writeback.thy ===== *)
theory Writeback
  imports Loader
begin

text \<open>
  The writeback of the flash to the image file: \<^verbatim>\<open>src/system/pfi_writeback.cpp\<close> and the positional write
  of \<^verbatim>\<open>src/system/platform_file.cpp\<close> (POSIX). The open file is its bytes. What the system call \<open>pwrite\<close>
  answers is a list: an error, an interruption, or how many bytes it took; after the list every call
  takes all it is given. The last part lets the flush and the CPU, which run on two threads, alternate.
\<close>

section \<open>Positional writes\<close>

datatype pwrite_answer = Failed | Interrupted | Wrote nat

text \<open>Bytes put at an offset; a gap beyond the end reads as zeros.\<close>

definition file_put :: "nat \<Rightarrow> u8 list \<Rightarrow> u8 list \<Rightarrow> u8 list" where
  "file_put off data f = take off (f @ replicate (off - length f) 0) @ data @ drop (off + length data) f"

primrec write_at :: "pwrite_answer list \<Rightarrow> nat \<Rightarrow> u8 list \<Rightarrow> u8 list \<Rightarrow> bool \<times> u8 list \<times> pwrite_answer list" where
  "write_at [] off data f = (True, if data = [] then f else file_put off data f, [])"
| "write_at (a # as) off data f =
    (if data = [] then (True, f, a # as)
     else case a of
         Failed \<Rightarrow> (False, f, as)
       | Interrupted \<Rightarrow> write_at as off data f
       | Wrote n \<Rightarrow>
           if n = 0 then (False, f, as)
           else let k = min n (length data)
                in write_at as (off + k) (drop k data) (file_put off (take k data) f))"

section \<open>The flash device, as the writeback sees it\<close>

primrec dev_sector_size :: "flash_device \<Rightarrow> nat" where
  "dev_sector_size (FlatFlashRom m) = 0"
| "dev_sector_size (Sst39vf f) = SECTOR_SIZE"

primrec dev_any_dirty :: "flash_device \<Rightarrow> bool" where
  "dev_any_dirty (FlatFlashRom m) = False"
| "dev_any_dirty (Sst39vf f) = any_dirty f"

primrec dev_dirty_sectors :: "flash_device \<Rightarrow> nat list" where
  "dev_dirty_sectors (FlatFlashRom m) = []"
| "dev_dirty_sectors (Sst39vf f) = dirty_sectors f"

primrec dev_clear_dirty :: "flash_device \<Rightarrow> flash_device" where
  "dev_clear_dirty (FlatFlashRom m) = FlatFlashRom m"
| "dev_clear_dirty (Sst39vf f) = Sst39vf (clear_dirty f)"

primrec dev_set_callback :: "flash_device \<Rightarrow> flash_device" where
  "dev_set_callback (FlatFlashRom m) = FlatFlashRom m"
| "dev_set_callback (Sst39vf f) = Sst39vf (f\<lparr>on_dirty := True\<rparr>)"

section \<open>PfiWriteback\<close>

datatype wb_mode = ReadOnly | WriteBack

record writeback =
  mode :: wb_mode
  flash_offset :: u32
  debounce_ms :: int
  wb_file :: "u8 list option"
  last_dirty_us :: u64
  bytes_written :: u64
  flush_count :: u64

definition writeback_init :: writeback where
  "writeback_init = \<lparr> mode = ReadOnly, flash_offset = 0, debounce_ms = 2000, wb_file = None,
     last_dirty_us = 0, bytes_written = 0, flush_count = 0 \<rparr>"

text \<open>\<open>opened\<close> is the file \<open>open_rw\<close> gives, or \<open>None\<close> when it fails.\<close>

definition wb_attach :: "flash_device \<Rightarrow> wb_mode \<Rightarrow> u8 list option \<Rightarrow> u32 \<Rightarrow> int \<Rightarrow> writeback \<Rightarrow> flash_device \<times> writeback" where
  "wb_attach fd m opened off ms w =
    (let w1 = w\<lparr>flash_offset := off, debounce_ms := ms, mode := m\<rparr>;
         w2 = (if mode w1 = WriteBack \<and> dev_sector_size fd = 0 then w1\<lparr>mode := ReadOnly\<rparr> else w1);
         w3 = (if mode w2 = WriteBack
               then (case opened of Some bs \<Rightarrow> w2\<lparr>wb_file := Some bs\<rparr> | None \<Rightarrow> w2\<lparr>wb_file := None, mode := ReadOnly\<rparr>)
               else w2)
     in (dev_set_callback fd, w3))"

text \<open>The callback of the device, at time \<open>now\<close>.\<close>

definition on_dirty_callback :: "u64 \<Rightarrow> writeback \<Rightarrow> writeback" where
  "on_dirty_callback now w = w\<lparr>last_dirty_us := now\<rparr>"

definition has_pending_dirty :: "writeback \<Rightarrow> bool" where
  "has_pending_dirty w \<longleftrightarrow> last_dirty_us w \<noteq> 0"

text \<open>The loop over the dirty sectors: the number of sectors written, the bytes written, the file.\<close>

primrec flush_sectors :: "nat list \<Rightarrow> u32 \<Rightarrow> nat \<Rightarrow> u8 list \<Rightarrow> pwrite_answer list \<Rightarrow> nat \<times> u64 \<times> u8 list \<Rightarrow> (nat \<times> u64 \<times> u8 list) \<times> pwrite_answer list" where
  "flush_sectors [] off sz mem as r = (r, as)"
| "flush_sectors (s # ss) off sz mem as r =
    (case r of (count, written, f) \<Rightarrow>
       (case write_at as (unat off + s * sz) (take sz (drop (s * sz) mem)) f of
          (ok, f1, as1) \<Rightarrow>
            flush_sectors ss off sz mem as1 (if ok then (count + 1, written + of_nat sz, f1) else (count, written, f1))))"

definition flush_dirty_sectors :: "pwrite_answer list \<Rightarrow> flash_device \<Rightarrow> writeback \<Rightarrow> nat \<times> flash_device \<times> writeback \<times> pwrite_answer list" where
  "flush_dirty_sectors as fd w =
    (case wb_file w of
       None \<Rightarrow> (0, fd, w, as)
     | Some f \<Rightarrow>
         if dev_sector_size fd = 0 then (0, fd, w, as)
         else (case flush_sectors (dev_dirty_sectors fd) (flash_offset w) (dev_sector_size fd) (flash_mem fd) as
                    (0, bytes_written w, f) of
                 ((count, written, f1), as1) \<Rightarrow>
                   let w1 = w\<lparr>wb_file := Some f1, bytes_written := written\<rparr>
                   in if count > 0 then (count, dev_clear_dirty fd, w1\<lparr>flush_count := flush_count w1 + 1\<rparr>, as1)
                      else (count, fd, w1, as1)))"

definition wb_poll :: "u64 \<Rightarrow> pwrite_answer list \<Rightarrow> flash_device \<Rightarrow> writeback \<Rightarrow> flash_device \<times> writeback \<times> pwrite_answer list" where
  "wb_poll now as fd w =
    (if mode w \<noteq> WriteBack \<or> wb_file w = None then (fd, w, as)
     else let last = last_dirty_us w
          in if last = 0 then (fd, w, as)
             else if now < last then (fd, w, as)
             else if now - last < word_of_int (debounce_ms w) * 1000 then (fd, w, as)
             else snd (flush_dirty_sectors as fd (w\<lparr>last_dirty_us := 0\<rparr>)))"

definition shutdown_flush :: "pwrite_answer list \<Rightarrow> flash_device \<Rightarrow> writeback \<Rightarrow> flash_device \<times> writeback \<times> pwrite_answer list" where
  "shutdown_flush as fd w =
    (if mode w \<noteq> WriteBack \<or> wb_file w = None then (fd, w, as)
     else if \<not> dev_any_dirty fd then (fd, w, as)
     else snd (flush_dirty_sectors as fd w))"

text \<open>The destructor, a last flush.\<close>

definition wb_destroy :: "pwrite_answer list \<Rightarrow> flash_device \<Rightarrow> writeback \<Rightarrow> flash_device \<times> writeback \<times> pwrite_answer list" where
  "wb_destroy as fd w =
    (if mode w = WriteBack \<and> wb_file w \<noteq> None
     then (if dev_any_dirty fd then snd (flush_dirty_sectors as fd w) else (fd, w, as))
     else (fd, w, as))"

text \<open>A halfword the CPU stores to the flash at time \<open>now\<close>, with the callbacks it causes.\<close>

primrec dev_events :: "flash_device \<Rightarrow> u32 list" where
  "dev_events (FlatFlashRom m) = []"
| "dev_events (Sst39vf f) = dirty_events f"

definition flash_store :: "u64 \<Rightarrow> u32 \<Rightarrow> u16 \<Rightarrow> flash_device \<Rightarrow> writeback \<Rightarrow> flash_device \<times> writeback" where
  "flash_store now a v fd w =
    (let dev1 = flash_write16 a v fd
     in (dev1, if dev_events dev1 \<noteq> dev_events fd then on_dirty_callback now w else w))"

section \<open>What the file holds\<close>

definition flash_region :: "writeback \<Rightarrow> u8 list \<Rightarrow> nat \<Rightarrow> u8 list" where
  "flash_region w f n = take n (drop (unat (flash_offset w)) f)"

lemma file_put_inside:
  "off + length data \<le> length f \<Longrightarrow> file_put off data f = take off f @ data @ drop (off + length data) f"
  by (simp add: file_put_def)

lemma length_file_put: "off + length data \<le> length f \<Longrightarrow> length (file_put off data f) = length f"
  by (simp add: file_put_inside)

lemma nth_file_put:
  "off + length data \<le> length f \<Longrightarrow> i < length f \<Longrightarrow>
   file_put off data f ! i = (if off \<le> i \<and> i < off + length data then data ! (i - off) else f ! i)"
  by (auto simp: file_put_inside nth_append min_def)

text \<open>Answers that write: no error, and no call that takes nothing.\<close>

definition willing :: "pwrite_answer \<Rightarrow> bool" where
  "willing a \<longleftrightarrow> a \<noteq> Failed \<and> a \<noteq> Wrote 0"

lemma write_at_willing:
  "list_all willing as \<Longrightarrow> off + length data \<le> length f \<Longrightarrow>
   \<exists>as'. write_at as off data f = (True, file_put off data f, as') \<and> list_all willing as'"
proof (induction as arbitrary: off data f)
  case Nil
  then show ?case by (auto simp: file_put_inside)
next
  case (Cons a as)
  show ?case
  proof (cases "data = []")
    case False
    consider "a = Interrupted" | n where "a = Wrote n" "n \<noteq> 0" using Cons.prems(1) by (cases a) (auto simp: willing_def)
    then show ?thesis
    proof cases
      case 1
      then show ?thesis using Cons False by simp
    next
      case 2
      define k where "k = min n (length data)"
      have fit: "off + length (take k data) \<le> length f" using Cons.prems(2) by (simp add: k_def)
      have "off + k + length (drop k data) \<le> length (file_put off (take k data) f)"
        using Cons.prems(2) length_file_put [OF fit] by (simp add: k_def)
      then obtain as' where as': "write_at as (off + k) (drop k data) (file_put off (take k data) f)
          = (True, file_put (off + k) (drop k data) (file_put off (take k data) f), as')" "list_all willing as'"
        using Cons.IH Cons.prems(1) by fastforce
      have "file_put (off + k) (drop k data) (file_put off (take k data) f) = file_put off data f"
        by (rule nth_equalityI) (use Cons.prems(2) fit length_file_put [OF fit] in
          \<open>auto simp: length_file_put nth_file_put k_def min_def\<close>)
      then show ?thesis using as' 2 False by (simp add: k_def Let_def)
    qed
  qed (use Cons.prems in \<open>auto simp: file_put_inside\<close>)
qed

lemma flush_sectors_willing:
  "list_all willing as \<Longrightarrow> \<forall>s \<in> set ss. (s + 1) * 4096 \<le> length mem \<Longrightarrow> unat off + length mem \<le> length f \<Longrightarrow>
   \<exists>f' b' as'. flush_sectors ss off 4096 mem as (c, b, f) = ((c + length ss, b', f'), as') \<and>
     length f' = length f \<and>
     (\<forall>j < length f. f' ! j = (if unat off \<le> j \<and> (j - unat off) div 4096 \<in> set ss then mem ! (j - unat off) else f ! j))"
proof (induction ss arbitrary: as c b f)
  case (Cons s ss)
  have s: "s * 4096 + 4096 \<le> length mem" using Cons.prems(2) by simp
  let ?data = "take 4096 (drop (s * 4096) mem)"
  have fit: "unat off + s * 4096 + length ?data \<le> length f" using s Cons.prems(3) by simp
  obtain as1 where w: "write_at as (unat off + s * 4096) ?data f = (True, file_put (unat off + s * 4096) ?data f, as1)"
    "list_all willing as1" using write_at_willing [OF Cons.prems(1) fit] by blast
  define f1 where "f1 = file_put (unat off + s * 4096) ?data f"
  have l1: "length f1 = length f" using length_file_put [OF fit] by (simp add: f1_def)
  have n1: "f1 ! j = (if unat off \<le> j \<and> (j - unat off) div 4096 = s then mem ! (j - unat off) else f ! j)" if j: "j < length f" for j
  proof -
    have "(unat off + s * 4096 \<le> j \<and> j < unat off + s * 4096 + length ?data) = (unat off \<le> j \<and> (j - unat off) div 4096 = s)"
      using s by (auto simp: min_def div_nat_eqI) (simp_all add: div_less_iff_less_mult less_eq_div_iff_mult_less_eq; linarith)?
    moreover have "?data ! (j - (unat off + s * 4096)) = mem ! (j - unat off)"
      if b: "unat off + s * 4096 \<le> j \<and> j < unat off + s * 4096 + length ?data"
    proof -
      have i: "s * 4096 + (j - (unat off + s * 4096)) = j - unat off" using b by linarith
      have "length ?data = 4096" using s by simp
      then have "j - (unat off + s * 4096) < 4096" using b by linarith
      then show ?thesis using s by (simp only: nth_take nth_drop i)
    qed
    ultimately show ?thesis unfolding f1_def nth_file_put [OF fit j] by meson
  qed
  obtain f' b' as' where r: "flush_sectors ss off 4096 mem as1 (c + 1, b + 4096, f1) = ((c + 1 + length ss, b', f'), as')"
    "length f' = length f1"
    "\<forall>j < length f1. f' ! j = (if unat off \<le> j \<and> (j - unat off) div 4096 \<in> set ss then mem ! (j - unat off) else f1 ! j)"
    using Cons.IH [OF w(2), of f1 "c + 1" "b + 4096"] Cons.prems(2,3) l1 by auto
  have "flush_sectors (s # ss) off 4096 mem as (c, b, f) = flush_sectors ss off 4096 mem as1 (c + 1, b + 4096, f1)"
    using w(1) by (simp add: f1_def)
  then show ?case using r n1 l1 by (intro exI [of _ f'] exI [of _ b'] exI [of _ as']) auto
qed simp

text \<open>
  The file and the device agree but for sectors marked dirty; nothing outside the flash part of the
  file is touched.
\<close>

definition in_sync :: "flash_device \<Rightarrow> writeback \<Rightarrow> bool" where
  "in_sync fd w \<longleftrightarrow> mode w = WriteBack \<and>
    (case (fd, wb_file w) of
       (Sst39vf f, Some bs) \<Rightarrow> sst_wf f \<and> unat (flash_offset w) + length (fmem f) \<le> length bs \<and>
         dirty_covers (flash_region w bs (length (fmem f))) f
     | _ \<Rightarrow> False)"

definition same_frame :: "nat \<Rightarrow> writeback \<Rightarrow> writeback \<Rightarrow> bool" where
  "same_frame n w w' \<longleftrightarrow> flash_offset w' = flash_offset w \<and>
    (\<exists>bs bs'. wb_file w = Some bs \<and> wb_file w' = Some bs' \<and> length bs' = length bs \<and>
       take (unat (flash_offset w)) bs' = take (unat (flash_offset w)) bs \<and>
       drop (unat (flash_offset w) + n) bs' = drop (unat (flash_offset w) + n) bs)"

lemma same_frame_trans: "same_frame n a b \<Longrightarrow> same_frame n b c \<Longrightarrow> same_frame n a c"
  by (fastforce simp: same_frame_def)

lemma in_syncE:
  assumes "in_sync fd w"
  obtains f bs where "fd = Sst39vf f" "wb_file w = Some bs" "mode w = WriteBack" "sst_wf f"
    "unat (flash_offset w) + length (fmem f) \<le> length bs" "dirty_covers (flash_region w bs (length (fmem f))) f"
  using assms by (auto simp: in_sync_def split: flash_device.splits option.splits)

lemma same_frame_refl: "in_sync fd w \<Longrightarrow> same_frame n w w"
  by (auto simp: same_frame_def elim: in_syncE)

lemma sector_count: "sst_wf f \<Longrightarrow> length (fmem f) = length (fdirty f) * 4096"
proof -
  assume wf: "sst_wf f"
  obtain k where k: "length (fmem f) = 2 ^ k" "12 \<le> k" using wf by (auto simp: sst_wf_def pow2_size_def)
  have "(2 :: nat) ^ k = 2 ^ (k - 12) * 2 ^ 12" using k(2) by (metis le_add_diff_inverse2 power_add)
  then show ?thesis using wf k(1) by (simp add: sst_wf_def)
qed

text \<open>A flush whose writes succeed makes the flash part of the file equal to the memory of the device.\<close>

lemma flush_in_sync:
  assumes "in_sync fd w" "list_all willing as" "flush_dirty_sectors as fd w = (n, fd', w', as')"
  shows "in_sync fd' w'" "same_frame (flash_size fd) w w'" "flash_mem fd' = flash_mem fd"
    "\<exists>bs. wb_file w' = Some bs \<and> flash_region w' bs (flash_size fd) = flash_mem fd"
proof -
  obtain f bs where d: "fd = Sst39vf f" "wb_file w = Some bs" "mode w = WriteBack" "sst_wf f"
    "unat (flash_offset w) + length (fmem f) \<le> length bs" "dirty_covers (flash_region w bs (length (fmem f))) f"
    using assms(1) by (rule in_syncE)
  let ?o = "unat (flash_offset w)" and ?n = "length (fmem f)"
  have cnt: "?n = length (fdirty f) * 4096" by (rule sector_count [OF d(4)])
  have bound: "\<forall>s \<in> set (dirty_sectors f). (s + 1) * 4096 \<le> ?n"
  proof
    fix s assume "s \<in> set (dirty_sectors f)"
    then have "s + 1 \<le> length (fdirty f)" by (auto simp: dirty_sectors_def)
    then show "(s + 1) * 4096 \<le> ?n" unfolding cnt by (rule mult_le_mono1)
  qed
  obtain bs' b' as1 where r: "flush_sectors (dirty_sectors f) (flash_offset w) 4096 (fmem f) as (0, bytes_written w, bs)
      = ((0 + length (dirty_sectors f), b', bs'), as1)" "length bs' = length bs"
    "\<forall>j < length bs. bs' ! j = (if ?o \<le> j \<and> (j - ?o) div 4096 \<in> set (dirty_sectors f) then fmem f ! (j - ?o) else bs ! j)"
    using flush_sectors_willing [OF assms(2) bound d(5)] by blast
  have "fmem f ! i = bs' ! (?o + i)" if i: "i < ?n" for i
  proof (cases "i div 4096 \<in> set (dirty_sectors f)")
    case True
    then show ?thesis using r(3) i d(5) by simp
  next
    case False
    have "i div 4096 < length (fdirty f)" using sector_index_bound [OF d(4) i] by simp
    then have "\<not> fdirty f ! (i div 4096)" using False by (simp add: dirty_sectors_def)
    then have "fmem f ! i = flash_region w bs ?n ! i" using d(6) i by (auto simp: dirty_covers_def)
    also have "\<dots> = bs ! (?o + i)" using i d(5) by (simp add: flash_region_def)
    finally show ?thesis using False r(3) i d(5) by simp
  qed
  then have reg: "take ?n (drop ?o bs') = fmem f"
    using d(5) r(2) by (intro nth_equalityI) (simp, simp)
  have outside: "take ?o bs' = take ?o bs" "drop (?o + ?n) bs' = drop (?o + ?n) bs"
  proof -
    show "take ?o bs' = take ?o bs" using r(2,3) d(5) by (intro nth_equalityI) auto
    have "(?n + i) div 4096 \<notin> set (dirty_sectors f)" for i using cnt by (simp add: dirty_sectors_def)
    then show "drop (?o + ?n) bs' = drop (?o + ?n) bs" using r(2,3) d(5) by (intro nth_equalityI) auto
  qed
  have wf': "sst_wf (clear_dirty f)" "fmem (clear_dirty f) = fmem f" using d(4) by (simp_all add: clear_dirty_def sst_wf_def)
  have eq: "fd' = (if dirty_sectors f = [] then fd else Sst39vf (clear_dirty f)) \<and> wb_file w' = Some bs' \<and>
      flash_offset w' = flash_offset w \<and> mode w' = WriteBack"
    using assms(3) r(1) d(1-3) by (auto simp: flush_dirty_sectors_def split: if_splits)
  have mem: "flash_size fd = ?n" "flash_mem fd = fmem f" by (simp_all add: d(1) flash_size_def)
  show "in_sync fd' w'"
    using eq d(1,4,5) r(2) wf' reg by (auto simp: in_sync_def flash_region_def dirty_covers_def)
  show "same_frame (flash_size fd) w w'"
    using eq d(2) r(2) outside unfolding same_frame_def mem by auto
  show "flash_mem fd' = flash_mem fd" using eq d(1) wf'(2) by auto
  show "\<exists>bs. wb_file w' = Some bs \<and> flash_region w' bs (flash_size fd) = flash_mem fd"
    using eq reg unfolding flash_region_def mem by auto
qed

section \<open>Runs\<close>

datatype wb_event = Store u64 u32 u16 | Poll u64 "pwrite_answer list"

primrec wb_step :: "wb_event \<Rightarrow> flash_device \<times> writeback \<Rightarrow> flash_device \<times> writeback" where
  "wb_step (Store now a v) s = flash_store now a v (fst s) (snd s)"
| "wb_step (Poll now as) s = (case wb_poll now as (fst s) (snd s) of (fd, w, as') \<Rightarrow> (fd, w))"

definition wb_run :: "wb_event list \<Rightarrow> flash_device \<times> writeback \<Rightarrow> flash_device \<times> writeback" where
  "wb_run es s = fold wb_step es s"

primrec host_writes :: "wb_event \<Rightarrow> bool" where
  "host_writes (Store now a v) \<longleftrightarrow> True"
| "host_writes (Poll now as) \<longleftrightarrow> list_all willing as"

lemma in_sync_cong:
  "mode w' = mode w \<Longrightarrow> wb_file w' = wb_file w \<Longrightarrow> flash_offset w' = flash_offset w \<Longrightarrow> in_sync fd w' = in_sync fd w"
  by (simp add: in_sync_def flash_region_def split: flash_device.split option.split)

lemma same_frame_cong:
  "wb_file w' = wb_file w \<Longrightarrow> flash_offset w' = flash_offset w \<Longrightarrow> in_sync fd w \<Longrightarrow> same_frame n w w'"
  by (auto simp: same_frame_def elim: in_syncE)

lemma wb_step_sync:
  assumes "in_sync fd w" "host_writes e"
  shows "in_sync (fst (wb_step e (fd, w))) (snd (wb_step e (fd, w))) \<and> same_frame (flash_size fd) w (snd (wb_step e (fd, w))) \<and>
    flash_size (fst (wb_step e (fd, w))) = flash_size fd"
proof (cases e)
  case (Store now a v)
  obtain f bs where d: "fd = Sst39vf f" "wb_file w = Some bs" "mode w = WriteBack" "sst_wf f"
    "unat (flash_offset w) + length (fmem f) \<le> length bs" "dirty_covers (flash_region w bs (length (fmem f))) f"
    using assms(1) by (rule in_syncE)
  let ?w = "snd (flash_store now a v fd w)"
  have w: "mode ?w = mode w" "wb_file ?w = wb_file w" "flash_offset ?w = flash_offset w"
    by (simp_all add: flash_store_def on_dirty_callback_def Let_def)
  have "in_sync (Sst39vf (sst_write16 a v f)) w"
    using d dirty_covers_write16 [OF d(4,6), of a v] by (simp add: in_sync_def)
  then have "in_sync (fst (flash_store now a v fd w)) ?w"
    using in_sync_cong [OF w] d(1) by (simp add: flash_store_def Let_def)
  then show ?thesis
    using Store same_frame_cong [OF w(2,3) assms(1)] by (simp add: flash_store_def Let_def)
next
  case (Poll now as)
  show ?thesis
  proof (cases "wb_step e (fd, w) = (fd, w)")
    case True
    then show ?thesis using assms(1) same_frame_refl by simp
  next
    case False
    let ?w = "w\<lparr>last_dirty_us := 0\<rparr>"
    obtain n fd' w' as' where f: "flush_dirty_sectors as fd ?w = (n, fd', w', as')" by (cases "flush_dirty_sectors as fd ?w")
    have s: "in_sync fd ?w" using in_sync_cong [of ?w w fd] assms(1) by simp
    have r: "wb_step e (fd, w) = (fd', w')" using False Poll f by (auto simp: wb_poll_def Let_def split: if_splits)
    have "list_all willing as" using assms(2) Poll by simp
    note fl = flush_in_sync [OF s this f]
    have "same_frame (flash_size fd) w ?w" by (rule same_frame_cong [OF _ _ assms(1)]) simp_all
    then show ?thesis using fl(1-3) r same_frame_trans by (auto simp: flash_size_def)
  qed
qed

lemma wb_run_sync:
  "in_sync fd w \<Longrightarrow> list_all host_writes es \<Longrightarrow>
   in_sync (fst (wb_run es (fd, w))) (snd (wb_run es (fd, w))) \<and> same_frame (flash_size fd) w (snd (wb_run es (fd, w))) \<and>
   flash_size (fst (wb_run es (fd, w))) = flash_size fd"
proof (induction es arbitrary: fd w)
  case Nil
  then show ?case by (simp add: wb_run_def same_frame_refl)
next
  case (Cons e es)
  obtain fd1 w1 where s: "wb_step e (fd, w) = (fd1, w1)" by (cases "wb_step e (fd, w)")
  have h: "in_sync fd1 w1" "same_frame (flash_size fd) w w1" "flash_size fd1 = flash_size fd"
    using wb_step_sync [of fd w e] Cons.prems s by simp_all
  have r: "wb_run (e # es) (fd, w) = wb_run es (fd1, w1)" using s by (simp add: wb_run_def)
  have "list_all host_writes es" using Cons.prems(2) by simp
  note IH = Cons.IH [OF h(1) this, unfolded h(3)]
  show ?case unfolding r using IH same_frame_trans [OF h(2), of "snd (wb_run es (fd1, w1))"] by simp
qed

lemma shutdown_writes_all:
  assumes "in_sync fd w" "list_all willing as" "shutdown_flush as fd w = (fd', w', as')"
  shows "flash_mem fd' = flash_mem fd" "same_frame (flash_size fd) w w'"
    "\<exists>bs. wb_file w' = Some bs \<and> flash_region w' bs (flash_size fd) = flash_mem fd"
proof -
  obtain f bs where d: "fd = Sst39vf f" "wb_file w = Some bs" "mode w = WriteBack" "sst_wf f"
    "unat (flash_offset w) + length (fmem f) \<le> length bs" "dirty_covers (flash_region w bs (length (fmem f))) f"
    using assms(1) by (rule in_syncE)
  have "flash_mem fd' = flash_mem fd \<and> same_frame (flash_size fd) w w' \<and>
    (\<exists>bs. wb_file w' = Some bs \<and> flash_region w' bs (flash_size fd) = flash_mem fd)"
  proof (cases "any_dirty f")
    case True
    obtain n where "flush_dirty_sectors as fd w = (n, fd', w', as')"
      using assms(3) True d(1-3) by (cases "flush_dirty_sectors as fd w") (simp add: shutdown_flush_def)
    from flush_in_sync [OF assms(1,2) this] show ?thesis by blast
  next
    case False
    have "flash_region w bs (length (fmem f)) = fmem f"
    proof (rule nth_equalityI)
      show "length (flash_region w bs (length (fmem f))) = length (fmem f)" using d(5) by (simp add: flash_region_def)
      fix i assume "i < length (flash_region w bs (length (fmem f)))"
      then have i: "i < length (fmem f)" by (simp add: flash_region_def)
      have "\<not> fdirty f ! (i div 4096)" using False nth_mem [OF sector_index_bound [OF d(4) i]] unfolding any_dirty_def by metis
      with d(6) [unfolded dirty_covers_def, rule_format, OF i] show "flash_region w bs (length (fmem f)) ! i = fmem f ! i"
        by metis
    qed
    then have reg: "flash_region w bs (flash_size fd) = flash_mem fd" by (simp add: d(1) flash_size_def)
    have "fd' = fd \<and> w' = w" using assms(3) False d(1-3) by (simp add: shutdown_flush_def)
    then show ?thesis using reg d(2) same_frame_refl [OF assms(1)] by metis
  qed
  then show "flash_mem fd' = flash_mem fd" "same_frame (flash_size fd) w w'"
    "\<exists>bs. wb_file w' = Some bs \<and> flash_region w' bs (flash_size fd) = flash_mem fd" by blast+
qed

section \<open>From one start to the next\<close>

text \<open>The image loaded, the writeback attached, a run, and the flush at the end: the file it leaves.\<close>

definition wb_session :: "u8 list \<Rightarrow> bus_state \<Rightarrow> int \<Rightarrow> wb_event list \<Rightarrow> pwrite_answer list \<Rightarrow> (load_error + flash_device \<times> writeback)" where
  "wb_session bs b ms es as =
    (case pfi_load (Some bs) b of
       (Inl e, b1) \<Rightarrow> Inl e
     | (Inr i, b1) \<Rightarrow>
         (case wb_run es (wb_attach (flash b1) WriteBack (Some bs) (flash_offset_in_pfi i) ms writeback_init) of
            (fd, w) \<Rightarrow> (case shutdown_flush as fd w of (fd', w', as') \<Rightarrow> Inr (fd', w'))))"

lemma attach_in_sync:
  assumes "sst_wf f" "pfi_load (Some bs) b = (Inr i, b1)" "flash b = Sst39vf f" "loaded_size i = length (fmem f)"
  shows "in_sync (fst (wb_attach (flash b1) WriteBack (Some bs) (flash_offset_in_pfi i) ms w))
      (snd (wb_attach (flash b1) WriteBack (Some bs) (flash_offset_in_pfi i) ms w))"
    "wb_file (snd (wb_attach (flash b1) WriteBack (Some bs) (flash_offset_in_pfi i) ms w)) = Some bs"
    "flash_offset (snd (wb_attach (flash b1) WriteBack (Some bs) (flash_offset_in_pfi i) ms w)) = flash_offset_in_pfi i"
    "flash_size (fst (wb_attach (flash b1) WriteBack (Some bs) (flash_offset_in_pfi i) ms w)) = length (fmem f)"
proof -
  let ?part = "image_part (header_at bs) bs"
  have l: "i = info_of (header_at bs) bs" "b1 = b\<lparr>flash := flash_put 0 ?part (flash b)\<rparr>" "length ?part = length (fmem f)"
    using assms(2-4) by (auto simp: pfi_load_success info_of_def)
  have off: "flash_offset_in_pfi i = img_offset (header_at bs)" using l(1) by (simp add: info_of_def)
  have fl: "flash b1 = Sst39vf (f\<lparr>fmem := ?part\<rparr>)" using l(2,3) assms(3) by (simp add: flash_put_all)
  have reg: "take (length (fmem f)) (drop (unat (img_offset (header_at bs))) bs) = ?part"
    using l(3) by (simp add: image_part_def min_def split: if_splits)
  have len: "unat (img_offset (header_at bs)) + length (fmem f) \<le> length bs"
  proof -
    have "length ?part \<le> length bs - unat (img_offset (header_at bs))" by (simp add: image_part_def)
    moreover have "0 < length (fmem f)" using sst_wf_nonempty [OF assms(1)] by simp
    ultimately show ?thesis using l(3) by linarith
  qed
  show "in_sync (fst (wb_attach (flash b1) WriteBack (Some bs) (flash_offset_in_pfi i) ms w))
      (snd (wb_attach (flash b1) WriteBack (Some bs) (flash_offset_in_pfi i) ms w))"
    using assms(1) l(3) off reg len
    by (simp add: fl wb_attach_def Let_def in_sync_def sst_wf_def flash_region_def dirty_covers_def)
  show "wb_file (snd (wb_attach (flash b1) WriteBack (Some bs) (flash_offset_in_pfi i) ms w)) = Some bs"
    "flash_offset (snd (wb_attach (flash b1) WriteBack (Some bs) (flash_offset_in_pfi i) ms w)) = flash_offset_in_pfi i"
    "flash_size (fst (wb_attach (flash b1) WriteBack (Some bs) (flash_offset_in_pfi i) ms w)) = length (fmem f)"
    using l(3) by (simp_all add: fl wb_attach_def Let_def flash_size_def)
qed

lemma header_at_prefix: "take n xs = take n ys \<Longrightarrow> 40 \<le> n \<Longrightarrow> header_at xs = header_at ys"
proof -
  assume t: "take n xs = take n ys" "40 \<le> n"
  have "le32 xs k = le32 ys k" "le16 xs k = le16 ys k" if "k + 4 \<le> 40" for k
  proof -
    have "xs ! j = ys ! j" if "j < 40" for j using t that by (metis nth_take order_less_le_trans)
    then show "le32 xs k = le32 ys k" "le16 xs k = le16 ys k" using that by (simp_all add: le32_def le16_def)
  qed
  then show "header_at xs = header_at ys" by (simp add: header_at_def sysinfo_at_def)
qed

lemma take_full: "length (take m xs) = n \<Longrightarrow> take m xs = take n xs"
  by (simp add: min_def split: if_splits)

lemma image_part_region:
  assumes "length (image_part h bs) = n" "length bs' = length bs"
  shows "image_part h bs' = take n (drop (unat (img_offset h)) bs')"
proof -
  have "length (image_part h bs') = n" using assms by (simp add: image_part_def)
  then show ?thesis unfolding image_part_def by (rule take_full)
qed

text \<open>
  C5: What the flash holds when a session ends is what the next start loads, for an image file that fills the
  flash device exactly (a shorter one, as \<open>mkpfi\<close> makes from a kernel that is no multiple of 4096 bytes, has no place in the
  file for the last sectors): the image is loaded, the CPU stores to the flash in any way and polls of the writeback come in between, the flush at the end runs,
  and loading the file that is left gives the same description of the image and the flash as it was. The
  host's writes may be split or interrupted, but none of them fails.
\<close>
theorem writeback_survives_restart:
  assumes "sst_wf f" "flash b = Sst39vf f" "pfi_load (Some bs) b = (Inr i, b1)" "loaded_size i = length (fmem f)"
    and "list_all host_writes es" "list_all willing as"
  shows "\<exists>fd w bs' b2. wb_session bs b ms es as = Inr (fd, w) \<and> wb_file w = Some bs' \<and>
     pfi_load (Some bs') b = (Inr i, b2) \<and> flash_mem (flash b2) = flash_mem fd"
proof -
  let ?a = "wb_attach (flash b1) WriteBack (Some bs) (flash_offset_in_pfi i) ms writeback_init"
  obtain fd0 w0 where a: "?a = (fd0, w0)" by (cases ?a)
  note at = attach_in_sync [OF assms(1,3,2,4), of ms writeback_init, unfolded a fst_conv snd_conv]
  obtain fd1 w1 where r: "wb_run es (fd0, w0) = (fd1, w1)" by (cases "wb_run es (fd0, w0)")
  note run = wb_run_sync [OF at(1) assms(5), unfolded r fst_conv snd_conv at(4)]
  obtain fd w as' where sd: "shutdown_flush as fd1 w1 = (fd, w, as')" by (cases "shutdown_flush as fd1 w1")
  have sync1: "in_sync fd1 w1" and size1: "flash_size fd1 = length (fmem f)" using run by blast+
  note fin = shutdown_writes_all [OF sync1 assms(6) sd, unfolded size1]
  have frame: "same_frame (length (fmem f)) w0 w" using run fin(2) same_frame_trans by blast
  obtain bs' where bs': "wb_file w = Some bs'" "flash_region w bs' (length (fmem f)) = flash_mem fd"
    using fin(1,3) by auto
  have off: "flash_offset w0 = flash_offset_in_pfi i" by (rule at(3))
  have f': "length bs' = length bs" "take (unat (flash_offset_in_pfi i)) bs' = take (unat (flash_offset_in_pfi i)) bs"
    "flash_offset w = flash_offset_in_pfi i"
    using frame at(2) bs'(1) by (auto simp: same_frame_def off)
  have ld: "header_ok bs" "FLASH_BASE < pffs_end (sysinfo (header_at bs))" "image_part (header_at bs) bs \<noteq> []"
    "i = info_of (header_at bs) bs"
    using assms(3) by (simp_all add: pfi_load_success)
  have n: "length (image_part (header_at bs) bs) = length (fmem f)" using ld(4) assms(4) by (simp add: info_of_def)
  have o: "flash_offset_in_pfi i = img_offset (header_at bs)" using ld(4) by (simp add: info_of_def)
  have hd: "header_at bs' = header_at bs"
    by (rule header_at_prefix [OF f'(2) [unfolded o]]) (use ld(1) in \<open>simp only: header_ok_def\<close>)
  have part: "image_part (header_at bs) bs' = flash_mem fd"
    using image_part_region [OF n f'(1)] bs'(2) unfolding flash_region_def f'(3) o by simp
  have sz: "length (flash_mem fd) = length (fmem f)" using fin(1) size1 by (simp add: flash_size_def)
  have ne: "flash_mem fd \<noteq> []" using ld(3) n sz by (metis length_0_conv)
  have "pfi_load (Some bs') b = (Inr i, b\<lparr>flash := flash_put 0 (flash_mem fd) (flash b)\<rparr>)"
    using ld n sz ne f'(1) assms(2) unfolding pfi_load_success hd part info_of_def header_ok_def
    by (simp add: flash_size_def hd)
  moreover have "flash_mem (flash_put 0 (flash_mem fd) (flash b)) = flash_mem fd"
    using sz assms(2) by (simp add: flash_put_all)
  moreover have "wb_session bs b ms es as = Inr (fd, w)" using assms(3) a r sd by (simp add: wb_session_def)
  ultimately show ?thesis using bs'(1) by auto
qed

definition wb_sample_header :: pfi_header where
  "wb_sample_header = \<lparr> signature = PFI_SIGNATURE, img_offset = 48, sysinfo = si_default\<lparr>pffs_end := 0xC10000\<rparr> \<rparr>"

definition wb_sample_bus :: bus_state where
  "wb_sample_bus = (bus_create 4096 65536)\<lparr>flash := Sst39vf sample_flash\<rparr>"

lemma wb_sample_load:
  "\<exists>i b1. pfi_load (Some (image_file wb_sample_header (replicate 65536 7))) wb_sample_bus = (Inr i, b1) \<and> loaded_size i = 65536"
proof -
  let ?h = wb_sample_header and ?img = "replicate 65536 (7 :: u8)"
  have h: "img_offset ?h = 48" "length ?img \<le> unat (pffs_end (sysinfo ?h) - FLASH_BASE)"
    by (simp_all add: wb_sample_header_def)
  note parts = image_file_parts [OF h]
  have "flash_size (flash wb_sample_bus) = 65536" by (simp add: wb_sample_bus_def flash_size_def sample_flash_facts(2))
  then show ?thesis using parts
    by (simp add: pfi_load_success header_ok_def info_of_def) (simp add: wb_sample_header_def si_default_def)
qed

theorem writeback_survives_restart_witness:
  "\<exists>fd w bs' i b2. wb_session (image_file wb_sample_header (replicate 65536 7)) wb_sample_bus 2000
       (map (\<lambda>(a, v). Store 5 a v) (program_word 0 0x1234) @ [Poll 9000000 [Wrote 7, Interrupted]]) [] = Inr (fd, w) \<and>
     wb_file w = Some bs' \<and> pfi_load (Some bs') wb_sample_bus = (Inr i, b2) \<and> flash_mem (flash b2) = flash_mem fd"
proof -
  obtain i b1 where l: "pfi_load (Some (image_file wb_sample_header (replicate 65536 7))) wb_sample_bus = (Inr i, b1)"
    "loaded_size i = 65536" using wb_sample_load by blast
  have "flash wb_sample_bus = Sst39vf sample_flash" by (simp add: wb_sample_bus_def)
  moreover have "loaded_size i = length (fmem sample_flash)" using l(2) sample_flash_facts(2) by simp
  moreover have "list_all host_writes (map (\<lambda>(a, v). Store 5 a v) (program_word 0 0x1234) @ [Poll 9000000 [Wrote 7, Interrupted]])"
    by (simp add: program_word_def willing_def)
  ultimately show ?thesis
    using writeback_survives_restart [OF sample_flash_facts(1) _ l(1), of _ "[]" 2000] by fastforce
qed

section \<open>Writes that fail\<close>

text \<open>One sector written is enough to clear the marks of all: a sector whose write failed is never written again.\<close>

lemma flush_clears_failed:
  assumes "wb_file w = Some bs" "mode w = WriteBack" "fd = Sst39vf f" "dirty_sectors f = [s, t]"
    and "length (take 4096 (drop (t * 4096) (fmem f))) = 4096" "length (take 4096 (drop (s * 4096) (fmem f))) = 4096"
    and "unat (flash_offset w) + t * 4096 + 4096 \<le> length bs"
  shows "\<exists>w'. flush_dirty_sectors [Failed] fd w = (1, Sst39vf (clear_dirty f), w', []) \<and>
     wb_file w' = Some (file_put (unat (flash_offset w) + t * 4096) (take 4096 (drop (t * 4096) (fmem f))) bs) \<and>
     shutdown_flush [] (Sst39vf (clear_dirty f)) w' = (Sst39vf (clear_dirty f), w', [])"
proof -
  have ne: "take 4096 (drop (t * 4096) (fmem f)) \<noteq> []" "take 4096 (drop (s * 4096) (fmem f)) \<noteq> []"
    using assms(5,6) by (auto simp del: length_take)
  have "flush_sectors [s, t] (flash_offset w) 4096 (fmem f) [Failed] (0, bytes_written w, bs)
    = ((1, bytes_written w + 4096, file_put (unat (flash_offset w) + t * 4096) (take 4096 (drop (t * 4096) (fmem f))) bs), [])"
    using ne by simp
  moreover have "\<not> any_dirty (clear_dirty f)" by (simp add: any_dirty_def clear_dirty_def)
  ultimately show ?thesis using assms(1-4) by (simp add: flush_dirty_sectors_def shutdown_flush_def)
qed

section \<open>The flush and the CPU on two threads\<close>

text \<open>
  The main thread visits the sectors one by one, writes those marked, and clears all marks when it is
  through; the CPU thread stores to the flash in between. The writes succeed.
\<close>

datatype flusher = Idle | Visiting nat nat

record race_state =
  r_flash :: sst39vf
  r_file :: "u8 list"
  r_flusher :: flusher

inductive race_step :: "u32 \<Rightarrow> race_state \<Rightarrow> race_state \<Rightarrow> bool" for off where
  cpu_store: "race_step off s (s\<lparr>r_flash := sst_write16 a v (r_flash s)\<rparr>)"
| flush_start: "r_flusher s = Idle \<Longrightarrow> race_step off s (s\<lparr>r_flusher := Visiting 0 0\<rparr>)"
| flush_dirty: "r_flusher s = Visiting i n \<Longrightarrow> i < length (fdirty (r_flash s)) \<Longrightarrow> fdirty (r_flash s) ! i \<Longrightarrow>
    race_step off s (s\<lparr>r_file := file_put (unat off + i * 4096) (take 4096 (drop (i * 4096) (fmem (r_flash s)))) (r_file s),
      r_flusher := Visiting (i + 1) (n + 1)\<rparr>)"
| flush_clean: "r_flusher s = Visiting i n \<Longrightarrow> i < length (fdirty (r_flash s)) \<Longrightarrow> \<not> fdirty (r_flash s) ! i \<Longrightarrow>
    race_step off s (s\<lparr>r_flusher := Visiting (i + 1) n\<rparr>)"
| flush_end: "r_flusher s = Visiting i n \<Longrightarrow> i = length (fdirty (r_flash s)) \<Longrightarrow>
    race_step off s (s\<lparr>r_flash := (if 0 < n then clear_dirty (r_flash s) else r_flash s), r_flusher := Idle\<rparr>)"

definition race_reach :: "u32 \<Rightarrow> race_state \<Rightarrow> race_state \<Rightarrow> bool" where
  "race_reach off s t \<longleftrightarrow> (race_step off)\<^sup>*\<^sup>* s t"

lemma race_trans: "race_reach off a b \<Longrightarrow> race_reach off b c \<Longrightarrow> race_reach off a c"
  unfolding race_reach_def by (rule rtranclp_trans)

lemma race_one: "race_step off a b \<Longrightarrow> race_reach off a b"
  unfolding race_reach_def by blast

lemma race_stores: "race_reach off s (s\<lparr>r_flash := sst_run ws (r_flash s)\<rparr>)"
proof (induction ws arbitrary: s)
  case (Cons p ws)
  obtain a v where p: "p = (a, v)" by (cases p)
  let ?s = "s\<lparr>r_flash := sst_write16 a v (r_flash s)\<rparr>"
  have "race_reach off s ?s" by (rule race_one [OF cpu_store])
  then show ?case using Cons.IH [of ?s] race_trans p by (fastforce simp: sst_run_def)
qed (simp add: race_reach_def)

lemma race_skip:
  "k = length (fdirty (r_flash s)) - i \<Longrightarrow> i \<le> length (fdirty (r_flash s)) \<Longrightarrow> r_flusher s = Visiting i n \<Longrightarrow>
   \<forall>j. i \<le> j \<and> j < length (fdirty (r_flash s)) \<longrightarrow> \<not> fdirty (r_flash s) ! j \<Longrightarrow>
   race_reach off s (s\<lparr>r_flusher := Visiting (length (fdirty (r_flash s))) n\<rparr>)"
proof (induction k arbitrary: i s)
  case 0
  then have "s\<lparr>r_flusher := Visiting (length (fdirty (r_flash s))) n\<rparr> = s" by simp
  then show ?case by (simp add: race_reach_def)
next
  case (Suc k)
  let ?s = "s\<lparr>r_flusher := Visiting (i + 1) n\<rparr>"
  have i: "i < length (fdirty (r_flash s))" using Suc.prems(1) by linarith
  have "race_step off s ?s" by (rule flush_clean [OF Suc.prems(3) i]) (use Suc.prems(4) i in simp)
  then have "race_reach off s ?s" by (rule race_one)
  moreover have "race_reach off ?s (?s\<lparr>r_flusher := Visiting (length (fdirty (r_flash ?s))) n\<rparr>)"
    by (rule Suc.IH [of ?s "i + 1"]) (use Suc.prems i in auto)
  ultimately show ?case using race_trans by fastforce
qed

text \<open>
  C32: The flush of the main thread can lose a store of the CPU thread: from a flash whose first sector is
  marked, the flush writes that sector, the CPU programs another word of it, which the mark already
  covers, and the flush clears the marks. No mark is left, the flush at the end writes nothing, and the
  file does not hold the word.
\<close>
theorem writeback_race_loses_store:
  assumes "sst_wf f" "2 ^ 16 \<le> length (fmem f)" "fstate f = Normal" "dirty_sectors f = [0]" "length bs = length (fmem f)"
  shows "\<exists>t. race_reach 0 \<lparr> r_flash = f, r_file = bs, r_flusher = Idle \<rparr> t \<and> r_flusher t = Idle \<and>
     \<not> any_dirty (r_flash t) \<and> r_file t ! 2 \<noteq> fmem (r_flash t) ! 2"
proof -
  let ?s0 = "\<lparr> r_flash = f, r_file = bs, r_flusher = Idle \<rparr>" and ?n = "length (fdirty f)"
  define d :: u16 where "d = ucast (fmem f ! 2 + 1)"
  define bs1 where "bs1 = file_put 0 (take 4096 (fmem f)) bs"
  define g where "g = sst_run (program_word 2 d) f"
  have d0: "0 < ?n" "fdirty f ! 0" "\<forall>j. 1 \<le> j \<and> j < ?n \<longrightarrow> \<not> fdirty f ! j"
  proof -
    have mem: "(j < ?n \<and> fdirty f ! j) = (j = 0)" for j
    proof -
      have "(j < ?n \<and> fdirty f ! j) = (j \<in> set (dirty_sectors f))" by (auto simp: dirty_sectors_def)
      then show ?thesis using assms(4) by simp
    qed
    show "0 < ?n" "fdirty f ! 0" using mem [of 0] by simp_all
    show "\<forall>j. 1 \<le> j \<and> j < ?n \<longrightarrow> \<not> fdirty f ! j"
    proof (intro allI impI)
      fix j assume "1 \<le> j \<and> j < ?n"
      then show "\<not> fdirty f ! j" using mem [of j] by auto
    qed
  qed
  have dev: "dev_offset (length (fmem f)) 2 = 2" using assms(1,2) by (intro dev_offset_even_id) (auto simp: sst_wf_def)
  then have off: "unat (dev_offset (length (fmem f)) 2) = 2" by simp
  have g: "fmem g = put_le16 (fmem f) 2 d" "length (fdirty g) = ?n" "fdirty g = fdirty f"
  proof -
    show m: "fmem g = put_le16 (fmem f) 2 d" using sst_program [OF assms(1-3), of 2 d] off by (simp add: g_def)
    show l: "length (fdirty g) = ?n" by (simp add: g_def sst_run_lengths)
    let ?h = "f\<lparr>fstate := WordProgram, fmem := put_le16 (fmem f) 2 d\<rparr>"
    have md: "fdirty g = fdirty (mark_dirty 2 2 ?h)"
      using off dev by (simp add: g_def run_program_unlock [OF assms(1-3)] sst_write16_def Let_def)
    show "fdirty g = fdirty f"
    proof (rule nth_equalityI [OF l])
      fix i assume "i < length (fdirty g)"
      then have i: "i < length (fdirty ?h)" using l by simp
      have "length (fmem ?h) = length (fmem f)" by simp
      then have "fmem ?h \<noteq> []" using sst_wf_nonempty [OF assms(1)] by (metis length_0_conv)
      from nth_mark_dirty [OF i this, of 2 2] show "fdirty g ! i = fdirty f ! i" unfolding md using d0(2) by auto
    qed
  qed
  let ?s1 = "?s0\<lparr>r_flusher := Visiting 0 0\<rparr>"
  let ?s2 = "\<lparr> r_flash = f, r_file = bs1, r_flusher = Visiting 1 1 \<rparr>"
  let ?s3 = "\<lparr> r_flash = g, r_file = bs1, r_flusher = Visiting 1 1 \<rparr>"
  let ?s4 = "\<lparr> r_flash = g, r_file = bs1, r_flusher = Visiting ?n 1 \<rparr>"
  let ?s5 = "\<lparr> r_flash = clear_dirty g, r_file = bs1, r_flusher = Idle \<rparr>"
  have "race_step 0 ?s0 ?s1" by (rule flush_start) simp
  note r1 = race_one [OF this]
  have "race_step 0 ?s1 ?s2" using flush_dirty [of ?s1 0 0 0] d0 by (simp add: bs1_def)
  note r2 = race_trans [OF r1 race_one [OF this]]
  have "race_reach 0 ?s2 ?s3" using race_stores [of 0 ?s2 "program_word 2 d"] by (simp add: g_def)
  note r3 = race_trans [OF r2 this]
  have "race_reach 0 ?s3 ?s4" using race_skip [of _ ?s3 1 1 0] d0 g by simp
  note r4 = race_trans [OF r3 this]
  have "race_step 0 ?s4 ?s5" using flush_end [of ?s4 ?n 1 0] g(2) by simp
  then have "race_reach 0 ?s0 ?s5" by (rule race_trans [OF r4 race_one])
  moreover have "r_file ?s5 ! 2 \<noteq> fmem (r_flash ?s5) ! 2"
  proof -
    have "bs1 ! 2 = fmem f ! 2" using assms(2,5) by (simp add: bs1_def nth_file_put)
    moreover have "ucast (ucast x :: u16) = x" for x :: u8 by (rule bit_word_eqI) (simp add: bit_simps)
    then have "fmem (clear_dirty g) ! 2 = fmem f ! 2 + 1"
      using assms(2) by (simp add: clear_dirty_def g(1) put_le16_def d_def)
    ultimately show ?thesis by simp
  qed
  moreover have "\<not> any_dirty (clear_dirty g)" by (simp add: any_dirty_def clear_dirty_def)
  ultimately show ?thesis by (intro exI [of _ ?s5]) simp
qed

theorem writeback_race_loses_store_witness:
  "\<exists>t. race_reach 0 \<lparr> r_flash = sst_run (program_word 0 0x1234) sample_flash, r_file = replicate 65536 0xFF, r_flusher = Idle \<rparr> t \<and>
     \<not> any_dirty (r_flash t) \<and> r_file t ! 2 \<noteq> fmem (r_flash t) ! 2"
proof -
  let ?f = "sst_run (program_word 0 0x1234) sample_flash"
  have l: "2 ^ 16 \<le> length (fmem sample_flash)" "length (fmem sample_flash) = 65536" by (simp_all add: sample_flash_facts(2))
  have dev: "dev_offset (length (fmem sample_flash)) 0 = 0" by (simp add: dev_offset_def)
  have m: "fmem ?f = put_le16 (fmem sample_flash) 0 0x1234" and st: "fstate ?f = Normal"
    using sst_program [OF sample_flash_facts(1) l(1) sample_flash_facts(3), of 0 "0x1234"] dev by simp_all
  have wf: "sst_wf ?f" by (simp add: sample_flash_facts(1))
  have clean: "fdirty sample_flash = replicate 16 False"
    by (simp add: sample_flash_def sst_create_def is_power_of_two_def)
  have "dirty_sectors ?f = [0]"
  proof -
    let ?h = "sample_flash\<lparr>fstate := WordProgram, fmem := put_le16 (fmem sample_flash) 0 0x1234\<rparr>"
    have md: "fdirty ?f = fdirty (mark_dirty 0 2 ?h)"
      using dev by (simp add: run_program_unlock [OF sample_flash_facts(1) l(1) sample_flash_facts(3)] sst_write16_def Let_def)
    have len: "length (fdirty ?h) = 16" by (simp add: clean)
    have "length (fmem ?h) = 65536" by (simp add: l)
    then have ne: "fmem ?h \<noteq> []" by fastforce
    have "fdirty (mark_dirty 0 2 ?h) ! i = (i = 0)" if "i < 16" for i
      using nth_mark_dirty [of i ?h 2 0, OF _ ne] that len by (auto simp: clean)
    then have "dirty_sectors ?f = filter (\<lambda>i. i = 0) [0..<16]"
      unfolding dirty_sectors_def md mark_dirty_fields len by (intro filter_cong) auto
    then show ?thesis by (simp add: upt_rec)
  qed
  moreover have "2 ^ 16 \<le> length (fmem ?f)" "length (replicate 65536 (0xFF :: u8)) = length (fmem ?f)" using m l by simp_all
  ultimately show ?thesis using writeback_race_loses_store [OF wf _ st, of "replicate 65536 0xFF"] by blast
qed

end
