(* ===== verification/GdbWire.thy ===== *)
theory GdbWire
  imports CpuStep
begin

text \<open>
  The text side of the debugger protocol: \<^verbatim>\<open>src/debug/gdb_rsp_impl.hpp\<close> (hexadecimal, checksum, frame),
  \<^verbatim>\<open>gdb_rsp_regs.cpp\<close> (registers), and the parts of the C and C++ library it calls (\<open>sscanf\<close> with \<open>%x\<close>
  and \<open>%02hhx\<close>, \<open>std::stoi\<close> and \<open>std::stoul\<close> in base 16). Text is a \<open>string\<close>, a \<open>char\<close> a byte. What
  the library throws and what C++ leaves undefined are the left side of a result.
\<close>

datatype rsp_error = Throws | Unspecified

section \<open>Hexadecimal\<close>

definition hex_char :: "nat \<Rightarrow> char" where
  "hex_char n = (if n < 10 then char_of (48 + n) else char_of (87 + n))"

definition to_hex8 :: "u8 \<Rightarrow> string" where
  "to_hex8 v = [hex_char (unat v div 16), hex_char (unat v mod 16)]"

definition to_hex32 :: "u32 \<Rightarrow> string" where
  "to_hex32 v = to_hex8 (ucast (v AND 0xFF)) @ to_hex8 (ucast (drop_bit 8 v AND 0xFF)) @
     to_hex8 (ucast (drop_bit 16 v AND 0xFF)) @ to_hex8 (ucast (drop_bit 24 v AND 0xFF))"

definition code_of :: "char \<Rightarrow> nat" where "code_of c = of_char c"

text \<open>The value of a digit; any other character counts as 0.\<close>

definition hex_digit :: "char \<Rightarrow> nat option" where
  "hex_digit c =
    (if 48 \<le> code_of c \<and> code_of c \<le> 57 then Some (code_of c - 48)
     else if 97 \<le> code_of c \<and> code_of c \<le> 102 then Some (code_of c - 87)
     else if 65 \<le> code_of c \<and> code_of c \<le> 70 then Some (code_of c - 55)
     else None)"

definition hex_value :: "char \<Rightarrow> u32" where
  "hex_value c = (case hex_digit c of None \<Rightarrow> 0 | Some n \<Rightarrow> of_nat n)"

text \<open>\<open>s[i]\<close>: the terminating zero at the end, nothing defined beyond it.\<close>

definition char_of_str :: "string \<Rightarrow> nat \<Rightarrow> char option" where
  "char_of_str s i = (if i < length s then Some (s ! i) else if i = length s then Some (char_of (0 :: nat)) else None)"

definition from_hex32 :: "string \<Rightarrow> nat \<Rightarrow> rsp_error + u32" where
  "from_hex32 s off =
    (if off + 7 > length s then Inl Unspecified
     else let h = (\<lambda>i. case char_of_str s (off + i) of None \<Rightarrow> 0 | Some c \<Rightarrow> hex_value c);
              b0 = push_bit 4 (h 0) OR h 1; b1 = push_bit 4 (h 2) OR h 3;
              b2 = push_bit 4 (h 4) OR h 5; b3 = push_bit 4 (h 6) OR h 7
          in Inr (b0 OR push_bit 8 b1 OR push_bit 16 b2 OR push_bit 24 b3))"

definition rsp_checksum :: "string \<Rightarrow> u8" where
  "rsp_checksum s = fold (\<lambda>c sum. sum + of_nat (code_of c)) s 0"

definition rsp_packet :: "string \<Rightarrow> string" where
  "rsp_packet data = ''$'' @ data @ ''#'' @ to_hex8 (rsp_checksum data)"

section \<open>Numbers in text\<close>

definition is_space :: "char \<Rightarrow> bool" where
  "is_space c \<longleftrightarrow> code_of c = 32 \<or> (9 \<le> code_of c \<and> code_of c \<le> 13)"

definition is_hex :: "char \<Rightarrow> bool" where "is_hex c \<longleftrightarrow> hex_digit c \<noteq> None"

definition hex_nat :: "string \<Rightarrow> nat" where
  "hex_nat ds = foldl (\<lambda>n c. 16 * n + (case hex_digit c of None \<Rightarrow> 0 | Some d \<Rightarrow> d)) 0 ds"

text \<open>
  \<open>strtoul\<close> in base 16 behind all of them: white space, a sign, \<open>0x\<close> before a digit, the digits. The
  result is the sign, the magnitude and the rest; \<open>None\<close> when there is no digit.
\<close>

definition strip_sign :: "string \<Rightarrow> bool \<times> string" where
  "strip_sign s = (case s of [] \<Rightarrow> (False, []) | c # cs \<Rightarrow> if c = CHR ''-'' then (True, cs) else if c = CHR ''+'' then (False, cs) else (False, s))"

definition strip_0x :: "string \<Rightarrow> string" where
  "strip_0x s = (case s of c # d # e # cs \<Rightarrow> if c = CHR ''0'' \<and> (d = CHR ''x'' \<or> d = CHR ''X'') \<and> is_hex e then e # cs else s | _ \<Rightarrow> s)"

definition scan_hex :: "string \<Rightarrow> (bool \<times> nat \<times> string) option" where
  "scan_hex s =
    (case strip_sign (dropWhile is_space s) of (neg, s1) \<Rightarrow>
       let s2 = strip_0x s1; ds = takeWhile is_hex s2
       in if ds = [] then None else Some (neg, hex_nat ds, dropWhile is_hex s2))"

text \<open>A magnitude beyond 64 bits is cut to the largest one, then the sign is applied.\<close>

definition signed_word :: "bool \<Rightarrow> nat \<Rightarrow> u64" where
  "signed_word neg n = (if n \<ge> 2 ^ 64 then - 1 else if neg then - of_nat n else of_nat n)"

definition scan_u32 :: "string \<Rightarrow> (u32 \<times> string) option" where
  "scan_u32 s = (case scan_hex s of None \<Rightarrow> None | Some (neg, n, r) \<Rightarrow> Some (ucast (signed_word neg n), r))"

text \<open>\<open>sscanf(s, "%x,%x", &a, &b)\<close>, both set to 0 before.\<close>

definition scan_pair :: "string \<Rightarrow> u32 \<times> u32" where
  "scan_pair s =
    (case scan_u32 s of
       None \<Rightarrow> (0, 0)
     | Some (a, r) \<Rightarrow>
         (case r of
            [] \<Rightarrow> (a, 0)
          | c # r1 \<Rightarrow> if c = CHR '','' then (case scan_u32 r1 of None \<Rightarrow> (a, 0) | Some (b, r2) \<Rightarrow> (a, b)) else (a, 0)))"

text \<open>\<open>sscanf(s, "%02hhx", &b)\<close>, \<open>b\<close> set to 0 before: at most two characters after the white space.\<close>

definition scan_byte :: "string \<Rightarrow> u8" where
  "scan_byte s =
    (case scan_hex (take 2 (dropWhile is_space s)) of
       None \<Rightarrow> 0 | Some (neg, n, r) \<Rightarrow> ucast (signed_word neg n))"

text \<open>\<open>std::stoi(s, nullptr, 16)\<close>: no digit and a value beyond \<open>int\<close> throw.\<close>

definition stoi16 :: "string \<Rightarrow> rsp_error + int" where
  "stoi16 s =
    (case scan_hex s of
       None \<Rightarrow> Inl Throws
     | Some (neg, n, r) \<Rightarrow>
         let v = (if neg then - int n else int n)
         in if v < - (2 ^ 31) \<or> v \<ge> 2 ^ 31 then Inl Throws else Inr v)"

text \<open>\<open>std::stoul(s, nullptr, 16)\<close> stored in an \<open>unsigned\<close>.\<close>

definition stoul16 :: "string \<Rightarrow> rsp_error + u32" where
  "stoul16 s =
    (case scan_hex s of
       None \<Rightarrow> Inl Throws
     | Some (neg, n, r) \<Rightarrow> if n \<ge> 2 ^ 64 then Inl Throws else Inr (ucast (signed_word neg n)))"

definition find_char :: "char \<Rightarrow> nat \<Rightarrow> string \<Rightarrow> nat option" where
  "find_char c from s = find (\<lambda>i. s ! i = c) [from..<length s]"

definition rfind_char :: "char \<Rightarrow> string \<Rightarrow> nat option" where
  "rfind_char c s = find (\<lambda>i. s ! i = c) (rev [0..<length s])"

section \<open>Registers\<close>

text \<open>The order of the register block: the general registers, then these.\<close>

definition reg_value :: "cpu_state \<Rightarrow> nat \<Rightarrow> u32" where
  "reg_value c n = (if n < 16 then gpr c n else if n = 16 then sp c else if n = 17 then pc c else if n = 18 then psr c
     else if n = 19 then alr c else ahr c)"

definition reg_read_all :: "cpu_state \<Rightarrow> string" where
  "reg_read_all c = concat (map (\<lambda>i. to_hex32 (gpr c i)) [0..<16]) @ to_hex32 (sp c) @ to_hex32 (pc c) @
     to_hex32 (psr c) @ to_hex32 (alr c) @ to_hex32 (ahr c)"

text \<open>\<open>from_hex32\<close> at an offset that is known to be inside.\<close>

definition hex_at :: "string \<Rightarrow> nat \<Rightarrow> u32" where
  "hex_at s off = (case from_hex32 s off of Inl e \<Rightarrow> 0 | Inr v \<Rightarrow> v)"

definition reg_write_all :: "string \<Rightarrow> cpu_state \<Rightarrow> cpu_state" where
  "reg_write_all hex c =
    (if length hex < 21 * 8 then c
     else let c1 = fold (\<lambda>i c. c\<lparr>gpr := (gpr c)(i := hex_at hex (8 * i))\<rparr>) [0..<16] c
          in c1\<lparr>sp := hex_at hex 128, pc := hex_at hex 136, psr := hex_at hex 144, alr := hex_at hex 152, ahr := hex_at hex 160\<rparr>)"

definition reg_read_n :: "int \<Rightarrow> cpu_state \<Rightarrow> string" where
  "reg_read_n n c =
    (if n < 0 \<or> n > 20 then ''E00''
     else if n < 16 then to_hex32 (gpr c (nat n))
     else if n = 16 then to_hex32 (sp c) else if n = 17 then to_hex32 (pc c) else if n = 18 then to_hex32 (psr c)
     else if n = 19 then to_hex32 (alr c) else to_hex32 (ahr c))"

definition reg_write_n :: "int \<Rightarrow> u32 \<Rightarrow> cpu_state \<Rightarrow> cpu_state" where
  "reg_write_n n val c =
    (if n < 0 \<or> n > 20 then c
     else if n < 16 then c\<lparr>gpr := (gpr c)(nat n := val)\<rparr>
     else if n = 16 then c\<lparr>sp := val\<rparr> else if n = 17 then c\<lparr>pc := val\<rparr> else if n = 18 then c\<lparr>psr := val\<rparr>
     else if n = 19 then c\<lparr>alr := val\<rparr> else c\<lparr>ahr := val\<rparr>)"

fun digits :: "nat \<Rightarrow> string" where
  "digits n = (if n < 10 then [char_of (48 + n)] else digits (n div 10) @ [char_of (48 + n mod 10)])"

declare digits.simps [simp del]

text \<open>The table \<open>kInfo\<close>: name and generic role.\<close>

definition reg_names :: "(string \<times> string option) list" where
  "reg_names = map (\<lambda>i. (''r'' @ digits i, None)) [0..<16] @
     [(''sp'', Some ''sp''), (''pc'', Some ''pc''), (''psr'', Some ''flags''), (''alr'', None), (''ahr'', None)]"

definition reg_info :: "int \<Rightarrow> string" where
  "reg_info n =
    (if n < 0 \<or> n > 20 then ''E45''
     else let k = nat n; (name, generic) = reg_names ! k;
              group = (if k < 19 then ''General Purpose Registers'' else ''Multiply Registers'')
          in ''name:'' @ name @ '';bitsize:32;offset:'' @ digits (k * 4) @
             '';encoding:uint;format:hex;endian:little;set:'' @ group @ '';dwarf:'' @ digits k @ '';'' @
             (case generic of None \<Rightarrow> [] | Some g \<Rightarrow> ''generic:'' @ g @ '';''))"

definition newline :: string where "newline = [char_of (10 :: nat)]"

text \<open>The target description, line by line.\<close>

definition target_xml :: string where
  \<open>target_xml =
    ''<?xml version="1.0"?>'' @ newline @
    ''<!DOCTYPE target SYSTEM "gdb-target.dtd">'' @ newline @
    ''<target version="1.0">'' @ newline @
    ''  <feature name="org.gnu.gdb.s1c33.core">'' @ newline @
    ''    <reg name="r0"  bitsize="32" regnum="0"  type="uint32"/>'' @ newline @
    ''    <reg name="r1"  bitsize="32" regnum="1"  type="uint32"/>'' @ newline @
    ''    <reg name="r2"  bitsize="32" regnum="2"  type="uint32"/>'' @ newline @
    ''    <reg name="r3"  bitsize="32" regnum="3"  type="uint32"/>'' @ newline @
    ''    <reg name="r4"  bitsize="32" regnum="4"  type="uint32"/>'' @ newline @
    ''    <reg name="r5"  bitsize="32" regnum="5"  type="uint32"/>'' @ newline @
    ''    <reg name="r6"  bitsize="32" regnum="6"  type="uint32"/>'' @ newline @
    ''    <reg name="r7"  bitsize="32" regnum="7"  type="uint32"/>'' @ newline @
    ''    <reg name="r8"  bitsize="32" regnum="8"  type="uint32"/>'' @ newline @
    ''    <reg name="r9"  bitsize="32" regnum="9"  type="uint32"/>'' @ newline @
    ''    <reg name="r10" bitsize="32" regnum="10" type="uint32"/>'' @ newline @
    ''    <reg name="r11" bitsize="32" regnum="11" type="uint32"/>'' @ newline @
    ''    <reg name="r12" bitsize="32" regnum="12" type="uint32"/>'' @ newline @
    ''    <reg name="r13" bitsize="32" regnum="13" type="uint32"/>'' @ newline @
    ''    <reg name="r14" bitsize="32" regnum="14" type="uint32"/>'' @ newline @
    ''    <reg name="r15" bitsize="32" regnum="15" type="uint32"/>'' @ newline @
    ''    <reg name="sp"  bitsize="32" regnum="16" type="data_ptr"/>'' @ newline @
    ''    <reg name="pc"  bitsize="32" regnum="17" type="code_ptr"/>'' @ newline @
    ''    <reg name="psr" bitsize="32" regnum="18" type="uint32"/>'' @ newline @
    ''    <reg name="alr" bitsize="32" regnum="19" type="uint32"/>'' @ newline @
    ''    <reg name="ahr" bitsize="32" regnum="20" type="uint32"/>'' @ newline @
    ''  </feature>'' @ newline @
    ''</target>''\<close>

text \<open>A part of a text, as \<open>qXfer\<close> requests it.\<close>

definition xfer_chunk :: "string \<Rightarrow> nat \<Rightarrow> nat \<Rightarrow> string" where
  "xfer_chunk xml off len =
    (if off \<ge> length xml then ''l''
     else let chunk = take len (drop off xml)
          in (if off + length chunk \<ge> length xml then ''l'' else ''m'') @ chunk)"

definition handle_qXfer :: "string \<Rightarrow> rsp_error + string" where
  "handle_qXfer pkt =
    (case rfind_char (CHR '':'') pkt of
       None \<Rightarrow> Inl Throws
     | Some colon \<Rightarrow>
         let comma = find_char (CHR '','') colon pkt;
             first = (case comma of None \<Rightarrow> drop (colon + 1) pkt | Some k \<Rightarrow> take (k - colon - 1) (drop (colon + 1) pkt));
             second = (case comma of None \<Rightarrow> pkt | Some k \<Rightarrow> drop (k + 1) pkt)
         in case stoul16 first of
              Inl e \<Rightarrow> Inl e
            | Inr off \<Rightarrow> (case stoul16 second of
                  Inl e \<Rightarrow> Inl e
                | Inr len \<Rightarrow> Inr (xfer_chunk target_xml (unat off) (unat len))))"

section \<open>Digits there and back\<close>

lemma code_of_hex_char: "n < 16 \<Longrightarrow> code_of (hex_char n) = (if n < 10 then 48 + n else 87 + n)"
  by (simp add: code_of_def hex_char_def)

lemma hex_digit_hex_char [simp]: "n < 16 \<Longrightarrow> hex_digit (hex_char n) = Some n"
  by (simp add: hex_digit_def code_of_hex_char)

lemma hex_value_hex_char: "n < 16 \<Longrightarrow> hex_value (hex_char n) = of_nat n"
  by (simp add: hex_value_def)

lemma is_hex_hex_char [simp]: "n < 16 \<Longrightarrow> is_hex (hex_char n)"
  by (simp add: is_hex_def)

lemma length_to_hex [simp]: "length (to_hex8 b) = 2" "length (to_hex32 v) = 8"
  by (simp_all add: to_hex8_def to_hex32_def)

text \<open>The bytes of a word, as hexadecimal digits.\<close>

lemma u8_16 [simp]: "unat (b :: u8) div 16 < 16" "unat (b :: u8) mod 16 < 16"
proof -
  have "unat b < 256" using unsigned_less [of b, where ?'a = nat] by simp
  then show "unat b div 16 < 16" by linarith
qed simp

lemma digits_of_byte: "push_bit 4 (of_nat (unat b div 16)) OR of_nat (unat b mod 16) = (ucast (b :: u8) :: u32)"
proof -
  have 1: "unat b mod 16 = take_bit 4 (unat b)" "unat b div 16 = drop_bit 4 (unat b)"
    by (simp_all add: take_bit_eq_mod drop_bit_eq_div)
  have 2: "bit (unat b) n \<longleftrightarrow> bit b n" for n by (simp add: bit_unsigned_iff)
  have "bit b n \<Longrightarrow> n < 8" for n by (auto dest: bit_imp_le_length)
  then show ?thesis unfolding 1
    by (intro bit_word_eqI) (auto simp: bit_or_iff bit_push_bit_iff bit_of_nat_iff bit_take_bit_iff bit_drop_bit_eq bit_ucast_iff 2)
qed

text \<open>The four bytes of a word, from the low one.\<close>

lemma low_byte: "(ucast (x AND 0xFF) :: u8) = ucast (x :: u32)"
proof -
  have m: "(0xFF :: u32) = mask 8" by (simp add: mask_eq_exp_minus_1)
  show ?thesis unfolding m by (rule bit_word_eqI) (auto simp: bit_ucast_iff bit_and_iff bit_mask_iff)
qed

lemma from_hex32_to_hex32: "from_hex32 (a @ to_hex32 v @ b) (length a) = Inr v"
proof -
  let ?s = "a @ to_hex32 v @ b"
  have c: "char_of_str ?s (length a + i) = Some (to_hex32 v ! i)" if "i < 8" for i
    using that by (simp add: char_of_str_def nth_append)
  have h: "to_hex32 v ! 0 = hex_char (unat (ucast (v AND 0xFF) :: u8) div 16)" "to_hex32 v ! 1 = hex_char (unat (ucast (v AND 0xFF) :: u8) mod 16)"
    "to_hex32 v ! 2 = hex_char (unat (ucast (drop_bit 8 v AND 0xFF) :: u8) div 16)" "to_hex32 v ! 3 = hex_char (unat (ucast (drop_bit 8 v AND 0xFF) :: u8) mod 16)"
    "to_hex32 v ! 4 = hex_char (unat (ucast (drop_bit 16 v AND 0xFF) :: u8) div 16)" "to_hex32 v ! 5 = hex_char (unat (ucast (drop_bit 16 v AND 0xFF) :: u8) mod 16)"
    "to_hex32 v ! 6 = hex_char (unat (ucast (drop_bit 24 v AND 0xFF) :: u8) div 16)" "to_hex32 v ! 7 = hex_char (unat (ucast (drop_bit 24 v AND 0xFF) :: u8) mod 16)"
    by (simp_all add: to_hex32_def to_hex8_def nth_append)
  show ?thesis
    by (simp only: from_hex32_def Let_def c h option.case low_byte hex_value_hex_char u8_16 digits_of_byte low_byte join32_split)
      (simp add: c [of 0, simplified] h hex_value_hex_char digits_of_byte low_byte join32_split)
qed


lemma hex_at_here: "length a = off \<Longrightarrow> hex_at (a @ to_hex32 v @ b) off = v"
  using from_hex32_to_hex32 [of a v b] by (simp add: hex_at_def)

section \<open>The register block\<close>

lemma length_hexes: "length (concat (map (\<lambda>i. to_hex32 (f i)) is)) = 8 * length is"
  by (induction "is") auto

lemma hex_at_block:
  assumes "i < n"
  shows "hex_at (concat (map (\<lambda>i. to_hex32 (f i)) [0..<n]) @ rest) (8 * i) = f i"
proof -
  have "[0..<n] = [0..<i] @ i # [Suc i..<n]" using assms by (metis less_imp_le_nat upt_add_eq_append upt_conv_Cons le0 le_add_diff_inverse)
  then have "concat (map (\<lambda>i. to_hex32 (f i)) [0..<n]) @ rest
      = concat (map (\<lambda>i. to_hex32 (f i)) [0..<i]) @ to_hex32 (f i) @ (concat (map (\<lambda>i. to_hex32 (f i)) [Suc i..<n]) @ rest)" by simp
  then show ?thesis by (simp only:) (rule hex_at_here, simp add: length_hexes)
qed

lemma fold_gpr: "fold (\<lambda>i c. c\<lparr>gpr := (gpr c)(i := f i)\<rparr>) [0..<n] c = c\<lparr>gpr := (\<lambda>i. if i < n then f i else gpr c i)\<rparr>"
  by (induction n) (auto simp: fun_eq_iff)

text \<open>All 21 registers, as the client numbers them.\<close>

lemma reg_read_all_list: "reg_read_all c = concat (map (\<lambda>i. to_hex32 (reg_value c i)) [0..<21])"
proof -
  have "[0..<21] = [0..<16] @ [16, 17, 18, 19, 20]" by (simp add: upt_rec)
  moreover have g: "map (\<lambda>i. to_hex32 (reg_value c i)) [0..<16] = map (\<lambda>i. to_hex32 (gpr c i)) [0..<16]"
    by (rule map_cong) (auto simp: reg_value_def simp del: upt_rec_numeral)
  ultimately show ?thesis
    by (simp only: reg_read_all_def map_append concat_append g) (simp add: reg_value_def del: upt_rec_numeral)
qed

lemma reg_write_all_read:
  "reg_write_all (reg_read_all c @ rest) d =
     d\<lparr>gpr := (\<lambda>i. if i < 16 then gpr c i else gpr d i), sp := sp c, pc := pc c, psr := psr c, alr := alr c, ahr := ahr c\<rparr>"
proof -
  let ?s = "reg_read_all c @ rest"
  have h: "hex_at ?s (8 * i) = reg_value c i" if "i < 21" for i
    unfolding reg_read_all_list by (rule hex_at_block) (rule that)
  have l: "\<not> length ?s < 21 * 8" unfolding reg_read_all_list by (simp add: length_hexes del: upt_rec_numeral)
  have f: "fold (\<lambda>i c. c\<lparr>gpr := (gpr c)(i := hex_at ?s (8 * i))\<rparr>) [0..<16] d = d\<lparr>gpr := (\<lambda>i. if i < 16 then gpr c i else gpr d i)\<rparr>"
    unfolding fold_gpr by (auto simp: fun_eq_iff h reg_value_def)
  show ?thesis using h [of 16] h [of 17] h [of 18] h [of 19] h [of 20] l
    by (simp add: reg_write_all_def f reg_value_def del: upt_rec_numeral)
qed

lemma reg_read_n_value: "0 \<le> n \<Longrightarrow> n \<le> 20 \<Longrightarrow> reg_read_n n c = to_hex32 (reg_value c (nat n))"
  by (auto simp: reg_read_n_def reg_value_def nat_less_iff)

lemma reg_value_write:
  "0 \<le> n \<Longrightarrow> n \<le> 20 \<Longrightarrow> k < 21 \<Longrightarrow> reg_value (reg_write_n n v c) k = (if k = nat n then v else reg_value c k)"
proof -
  assume n: "0 \<le> n" "n \<le> 20" "k < 21"
  obtain j where j: "n = int j" using n(1) by (metis nonneg_int_cases)
  show ?thesis using n unfolding j by (auto simp: reg_value_def reg_write_n_def)
qed

section \<open>Numbers a client writes\<close>

fun hex_text :: "nat \<Rightarrow> string" where
  "hex_text n = (if n < 16 then [hex_char n] else hex_text (n div 16) @ [hex_char (n mod 16)])"

declare hex_text.simps [simp del]

lemma hex_text_hex: "list_all is_hex (hex_text n)" "hex_text n \<noteq> []"
  by (induction n rule: hex_text.induct) (subst hex_text.simps, simp)+

lemma hex_nat_snoc: "hex_nat (ds @ [c]) = 16 * hex_nat ds + (case hex_digit c of None \<Rightarrow> 0 | Some d \<Rightarrow> d)"
  by (simp add: hex_nat_def)

lemma hex_nat_text: "hex_nat (hex_text n) = n"
proof (induction n rule: hex_text.induct)
  case (1 n)
  then show ?case by (subst hex_text.simps) (auto simp: hex_nat_snoc, simp add: hex_nat_def)
qed

text \<open>What may follow a number.\<close>

definition stops :: "string \<Rightarrow> bool" where
  "stops r \<longleftrightarrow> (case r of [] \<Rightarrow> True | c # cs \<Rightarrow> \<not> is_hex c \<and> c \<noteq> CHR ''x'' \<and> c \<noteq> CHR ''X'')"

lemma hex_codes: "is_hex c \<Longrightarrow> c \<noteq> CHR ''x'' \<and> c \<noteq> CHR ''X'' \<and> c \<noteq> CHR ''-'' \<and> c \<noteq> CHR ''+'' \<and> \<not> is_space c"
proof -
  have n: "\<not> is_hex (CHR ''x'')" "\<not> is_hex (CHR ''X'')" "\<not> is_hex (CHR ''-'')" "\<not> is_hex (CHR ''+'')"
    by (simp_all add: is_hex_def hex_digit_def code_of_def)
  assume h: "is_hex c"
  then have "\<not> is_space c" by (auto simp: is_hex_def hex_digit_def is_space_def split: if_splits)
  with h n show ?thesis by auto
qed

lemma scan_hex_digits:
  assumes "list_all is_hex ds" "ds \<noteq> []" "stops r"
  shows "scan_hex (ds @ r) = Some (False, hex_nat ds, r)"
proof -
  obtain d es where d: "ds = d # es" using assms(2) by (cases ds) auto
  have h: "is_hex d" "list_all is_hex es" using assms(1) by (auto simp: d)
  have 1: "dropWhile is_space (ds @ r) = ds @ r" using hex_codes [OF h(1)] by (simp add: d)
  have 2: "strip_sign (ds @ r) = (False, ds @ r)" using hex_codes [OF h(1)] by (simp add: strip_sign_def d)
  have 3: "strip_0x (ds @ r) = ds @ r"
  proof (cases es)
    case Nil
    then show ?thesis using assms(3) by (auto simp: strip_0x_def d stops_def split: list.split)
  next
    case (Cons e fs)
    then have "e \<noteq> CHR ''x''" "e \<noteq> CHR ''X''" using h(2) hex_codes [of e] by auto
    then show ?thesis by (auto simp: strip_0x_def d Cons split: list.split)
  qed
  have 4: "takeWhile is_hex (ds @ r) = ds" "dropWhile is_hex (ds @ r) = r"
    using assms(1,3) by (auto simp: takeWhile_append dropWhile_append list_all_iff stops_def split: list.splits)
  show ?thesis by (simp add: scan_hex_def 1 2 3 4 assms(2))
qed

lemma u32_of_u64: "(ucast (of_nat n :: u64) :: u32) = of_nat n"
  by (rule bit_word_eqI) (auto simp: bit_ucast_iff bit_of_nat_iff)

lemma scan_u32_text: "n < 2 ^ 32 \<Longrightarrow> stops r \<Longrightarrow> scan_u32 (hex_text n @ r) = Some (of_nat n, r)"
  by (simp add: scan_u32_def scan_hex_digits hex_text_hex hex_nat_text signed_word_def u32_of_u64)

lemma stops_simps [simp]: "stops []" "stops (CHR '','' # r)" "stops (CHR '':'' # r)" "stops (CHR ''='' # r)"
  by (simp_all add: stops_def is_hex_def hex_digit_def code_of_def)

lemma scan_pair_text:
  "a < 2 ^ 32 \<Longrightarrow> n < 2 ^ 32 \<Longrightarrow> stops r \<Longrightarrow> scan_pair (hex_text a @ '','' @ hex_text n @ r) = (of_nat a, of_nat n)"
  by (simp add: scan_pair_def scan_u32_text)

lemma u8_of_u64: "(ucast (of_nat (unat b) :: u64) :: u8) = b"
  by (rule bit_word_eqI) (auto simp: bit_ucast_iff bit_unsigned_iff)

lemma scan_byte_hex8: "scan_byte (to_hex8 b @ r) = b"
proof -
  have h: "list_all is_hex (to_hex8 b)" "hd (to_hex8 b) = hex_char (unat b div 16)" by (simp_all add: to_hex8_def)
  have n: "\<not> is_space (hex_char (unat b div 16))" using hex_codes [of "hex_char (unat b div 16)"] by simp
  have "dropWhile is_space (to_hex8 b @ r) = to_hex8 b @ r" using n by (simp add: to_hex8_def)
  moreover have "scan_hex (to_hex8 b @ []) = Some (False, hex_nat (to_hex8 b), [])"
    by (rule scan_hex_digits [OF h(1)]) (simp_all add: to_hex8_def)
  moreover have "hex_nat (to_hex8 b) = unat b" by (simp add: hex_nat_def to_hex8_def)
  ultimately show ?thesis using unsigned_less [of b, where ?'a = nat]
    by (simp add: scan_byte_def signed_word_def u8_of_u64 del: of_nat_unat)
qed

end
