(* ===== verification/Gdb.thy ===== *)
theory Gdb
  imports GdbWire
begin

text \<open>
  The debugger server, \<^verbatim>\<open>src/debug/gdb_rsp.cpp\<close>: packets, breakpoints, watchpoints, the loop over the
  bytes a client sends, and the handshake between the server's thread and the main loop. The hit of a watchpoint is
  recorded by a callback while the CPU steps, so it is part of the state behind the bus (\<open>gdb_hits\<close>,
  extended by the devices); the rest of the server's state is \<open>gdb\<close>. A packet answers with one text.
  \<open>continue\<close> may run forever and has fuel, in instructions.
\<close>

section \<open>State\<close>

record gdb_hits =
  wp_hit :: bool
  wp_hit_addr :: u32
  wp_hit_ztype :: int

record gdb =
  no_ack_mode :: bool
  gdb_points :: "u32 set"

type_synonym 'a target = "'a gdb_hits_scheme machine"

definition on_hits :: "('a gdb_hits_scheme \<Rightarrow> 'a gdb_hits_scheme) \<Rightarrow> 'a target \<Rightarrow> 'a target" where
  "on_hits f m = m\<lparr>dev := f (dev m)\<rparr>"

text \<open>The callback installed in the bus: the first hit is recorded and stops the CPU.\<close>

definition hit_ztype :: "wp_type \<Rightarrow> int" where
  "hit_ztype t = (case t of WpWrite \<Rightarrow> 2 | WpRead \<Rightarrow> 3 | WpRW \<Rightarrow> 4)"

definition on_watch :: "watchpoint \<Rightarrow> u32 \<Rightarrow> u32 \<Rightarrow> int \<Rightarrow> bool \<Rightarrow> 'a target \<Rightarrow> 'a target" where
  "on_watch wp addr val width wr m =
    (if wp_hit (dev m) then m
     else on_cpu (\<lambda>c. c\<lparr>in_halt := True\<rparr>)
            (on_hits (\<lambda>h. h\<lparr>wp_hit := True, wp_hit_addr := addr, wp_hit_ztype := hit_ztype (wp_type wp)\<rparr>) m))"

definition gdb_wiring :: "'a gdb_hits_scheme wiring \<Rightarrow> 'a gdb_hits_scheme wiring" where
  "gdb_wiring w = w\<lparr>wp_cb := Some on_watch\<rparr>"

section \<open>Running\<close>

definition step_one :: "'a gdb_hits_scheme wiring \<Rightarrow> 'a target \<Rightarrow> 'a target" where
  "step_one w m = snd (step w (m\<lparr>bus := (bus m)\<lparr>debug_pc := pc (cpu m)\<rparr>\<rparr>))"

primrec run_loop :: "nat \<Rightarrow> u32 set \<Rightarrow> 'a gdb_hits_scheme wiring \<Rightarrow> 'a target \<Rightarrow> 'a target option" where
  "run_loop 0 bs w m = (if in_halt (cpu m) then Some m else None)"
| "run_loop (Suc k) bs w m =
    (if in_halt (cpu m) then Some m
     else let m1 = step_one w m
          in if wp_hit (dev m1) then Some m1
             else if \<not> in_halt (cpu m1) \<and> pc (cpu m1) \<in> bs then Some m1
             else run_loop k bs w m1)"

definition make_stop_reply :: "'a target \<Rightarrow> string" where
  "make_stop_reply m =
    (if fault (cpu m) then ''T04thread:1;''
     else if wp_hit (dev m)
     then let z = wp_hit_ztype (dev m);
              key = (if 2 \<le> z \<and> z \<le> 4 then (if z = 2 then ''watch'' else if z = 3 then ''rwatch'' else ''awatch'') else ''watch'')
          in ''T05'' @ key @ '':'' @ to_hex32 (wp_hit_addr (dev m)) @ '';thread:1;''
     else ''T05thread:1;'')"

text \<open>What \<open>run\<close> clears before it starts, as \<open>take_async_run_cmd\<close> does.\<close>

definition run_reset :: "'a target \<Rightarrow> 'a target" where
  "run_reset m = on_hits (\<lambda>h. h\<lparr>wp_hit := False\<rparr>) (on_cpu (\<lambda>c. c\<lparr>in_halt := False, halt_mode := HaltNone\<rparr>) m)"

definition gdb_run :: "nat \<Rightarrow> bool \<Rightarrow> u32 set \<Rightarrow> 'a gdb_hits_scheme wiring \<Rightarrow> 'a target \<Rightarrow> (string \<times> 'a target) option" where
  "gdb_run k single bs w m =
    (let m1 = run_reset m
     in case (if single then Some (step_one w m1) else run_loop k bs w m1) of
          None \<Rightarrow> None
        | Some m2 \<Rightarrow> Some (make_stop_reply m2, m2))"

section \<open>Packets\<close>

primrec read_bytes :: "'d wiring \<Rightarrow> u32 \<Rightarrow> nat \<Rightarrow> 'd machine \<Rightarrow> string \<times> 'd machine" where
  "read_bytes w a 0 m = ([], m)"
| "read_bytes w a (Suc n) m =
    (case read8 w a m of (b, m1) \<Rightarrow> (case read_bytes w (a + 1) n m1 of (s, m2) \<Rightarrow> (to_hex8 b @ s, m2)))"

text \<open>The loop of \<open>M\<close>: \<open>n\<close> more bytes, the next one at index \<open>i\<close> of the text.\<close>

primrec write_bytes :: "'d wiring \<Rightarrow> u32 \<Rightarrow> string \<Rightarrow> u32 \<Rightarrow> nat \<Rightarrow> 'd machine \<Rightarrow> 'd machine" where
  "write_bytes w a hex i 0 m = m"
| "write_bytes w a hex i (Suc n) m =
    (if unat (i * 2 + 1) < length hex
     then write_bytes w a hex (i + 1) n (write8 w (a + i) (scan_byte (drop (unat (i * 2)) hex)) m)
     else m)"

definition starts_with :: "string \<Rightarrow> string \<Rightarrow> bool" where
  "starts_with p s \<longleftrightarrow> take (length p) s = p"

definition on_watchpoints :: "(bus_state \<Rightarrow> bus_state) \<Rightarrow> 'd machine \<Rightarrow> 'd machine" where
  "on_watchpoints f m = m\<lparr>bus := f (bus m)\<rparr>"

type_synonym 'a answer = "rsp_error + string \<times> gdb \<times> 'a target"

text \<open>\<open>Z\<close> and \<open>z\<close>: the type is the second character, the numbers start behind the third.\<close>

definition handle_point :: "bool \<Rightarrow> string \<Rightarrow> gdb \<Rightarrow> 'a target \<Rightarrow> 'a answer" where
  "handle_point on pkt g m =
    (if length pkt < 3 then Inl Unspecified
     else let z = int (code_of (pkt ! 1)) - 48;
              (addr, kind0) = scan_pair (drop 3 pkt);
              kind = (if kind0 = 0 then 4 else kind0);
              watch = (\<lambda>t. on_watchpoints (if on then add_watchpoint addr kind t else remove_watchpoint addr kind t) m)
          in if z = 0 \<or> z = 1
             then Inr (''OK'', g\<lparr>gdb_points := (if on then insert addr (gdb_points g) else gdb_points g - {addr})\<rparr>, m)
             else if z = 2 then Inr (''OK'', g, watch WpWrite)
             else if z = 3 then Inr (''OK'', g, watch WpRead)
             else if z = 4 then Inr (''OK'', g, watch WpRW)
             else Inr ([], g, m))"

definition handle_Q :: "string \<Rightarrow> gdb \<Rightarrow> 'a target \<Rightarrow> 'a answer" where
  "handle_Q pkt g m =
    (if pkt = ''QStartNoAckMode'' then Inr (''OK'', g\<lparr>no_ack_mode := True\<rparr>, m)
     else if starts_with ''QThreadSuffixSupported'' pkt \<or> starts_with ''QListThreadsInStopReply'' pkt
       \<or> starts_with ''QEnableErrorStrings'' pkt then Inr (''OK'', g, m)
     else Inr ([], g, m))"

definition handle_q :: "string \<Rightarrow> rsp_error + string" where
  "handle_q pkt =
    (if starts_with ''qSupported:'' pkt
     then Inr ''PacketSize=4000;qXfer:features:read+;qRegisterInfo+;vContSupported+;hwbreak+;swbreak+''
     else if pkt = ''qAttached'' then Inr ''1''
     else if pkt = ''qC'' then Inr ''QC1''
     else if pkt = ''qfThreadInfo'' then Inr ''m1''
     else if pkt = ''qsThreadInfo'' then Inr ''l''
     else if pkt = ''qHostInfo'' then Inr ''triple:s1c33-unknown-none-elf;endian:little;ptrsize:4;''
     else if pkt = ''qProcessInfo'' then Inr ''pid:1;triple:s1c33-unknown-none-elf;endian:little;ptrsize:4;''
     else if starts_with ''qRegisterInfo'' pkt then (case stoi16 (drop 13 pkt) of Inl e \<Rightarrow> Inl e | Inr n \<Rightarrow> Inr (reg_info n))
     else if starts_with ''qXfer:features:read:target.xml:'' pkt then handle_qXfer pkt
     else Inr [])"

definition handle_p :: "string \<Rightarrow> 'a target \<Rightarrow> rsp_error + string" where
  "handle_p pkt m = (case stoi16 (drop 1 pkt) of Inl e \<Rightarrow> Inl e | Inr n \<Rightarrow> Inr (reg_read_n n (cpu m)))"

definition handle_P :: "string \<Rightarrow> gdb \<Rightarrow> 'a target \<Rightarrow> 'a answer" where
  "handle_P pkt g m =
    (case find_char (CHR ''='') 0 pkt of
       None \<Rightarrow> Inr (''E00'', g, m)
     | Some eq \<Rightarrow>
         (case stoi16 (take (eq - 1) (drop 1 pkt)) of
            Inl e \<Rightarrow> Inl e
          | Inr n \<Rightarrow>
              (case from_hex32 pkt (eq + 1) of
                 Inl e \<Rightarrow> Inl e
               | Inr v \<Rightarrow> Inr (''OK'', g, on_cpu (reg_write_n n v) m))))"

definition handle_m :: "'a gdb_hits_scheme wiring \<Rightarrow> string \<Rightarrow> 'a target \<Rightarrow> string \<times> 'a target" where
  "handle_m w pkt m = (case scan_pair (drop 1 pkt) of (addr, len) \<Rightarrow> read_bytes w addr (unat len) m)"

definition handle_M :: "'a gdb_hits_scheme wiring \<Rightarrow> string \<Rightarrow> 'a target \<Rightarrow> 'a target" where
  "handle_M w pkt m =
    (case scan_pair (drop 1 pkt) of (addr, len) \<Rightarrow>
       (case find_char (CHR '':'') 0 pkt of
          None \<Rightarrow> m
        | Some colon \<Rightarrow> write_bytes w addr (drop (colon + 1) pkt) 0 (unat len) m))"

definition answer :: "gdb \<Rightarrow> (string \<times> 'a target) option \<Rightarrow> 'a answer option" where
  "answer g r = map_option (\<lambda>(s, m). Inr (s, g, m)) r"

definition handle_packet :: "nat \<Rightarrow> 'a gdb_hits_scheme wiring \<Rightarrow> string \<Rightarrow> gdb \<Rightarrow> 'a target \<Rightarrow> 'a answer option" where
  "handle_packet k w pkt g m =
    (case pkt of
       [] \<Rightarrow> Some (Inr ([], g, m))
     | c # cs \<Rightarrow>
         if c = CHR ''?'' then Some (Inr (''T05thread:1;'', g, m))
         else if c = CHR ''g'' then Some (Inr (reg_read_all (cpu m), g, m))
         else if c = CHR ''G'' then Some (Inr (''OK'', g, on_cpu (reg_write_all cs) m))
         else if c = CHR ''p'' then Some (case handle_p pkt m of Inl e \<Rightarrow> Inl e | Inr s \<Rightarrow> Inr (s, g, m))
         else if c = CHR ''P'' then Some (handle_P pkt g m)
         else if c = CHR ''m'' then (case handle_m w pkt m of (s, m1) \<Rightarrow> Some (Inr (s, g, m1)))
         else if c = CHR ''M'' then Some (Inr (''OK'', g, handle_M w pkt m))
         else if c = CHR ''c'' \<or> c = CHR ''s'' then answer g (gdb_run k (c = CHR ''s'') (gdb_points g) w m)
         else if c = CHR ''H'' \<or> c = CHR ''T'' then Some (Inr (''OK'', g, m))
         else if c = CHR ''Z'' then Some (handle_point True pkt g m)
         else if c = CHR ''z'' then Some (handle_point False pkt g m)
         else if c = CHR ''Q'' then Some (handle_Q pkt g m)
         else if c = CHR ''v''
         then (if pkt = ''vCont?'' then Some (Inr (''vCont;c;s;'', g, m))
               else if starts_with ''vCont;'' pkt
               then answer g (gdb_run k (char_of_str pkt 6 = Some (CHR ''s'')) (gdb_points g) w m)
               else Some (Inr ([], g, m)))
         else if c = CHR ''q'' then Some (case handle_q pkt of Inl e \<Rightarrow> Inl e | Inr s \<Rightarrow> Inr (s, g, m))
         else Some (Inr ([], g, m)))"

section \<open>The byte stream\<close>

text \<open>
  The loop over the buffer: what is left of it, what was sent, server and machine. \<open>None\<close> when the fuel of a
  \<open>continue\<close> runs out, an error when an exception leaves the server.
\<close>

definition ctrl_c :: char where "ctrl_c = CHR 0x03"

function drain :: "nat \<Rightarrow> 'a gdb_hits_scheme wiring \<Rightarrow> string \<Rightarrow> string \<Rightarrow> gdb \<Rightarrow> 'a target \<Rightarrow>
    (rsp_error + string \<times> string \<times> gdb \<times> 'a target) option" where
  "drain k w buf out g m =
    (case buf of
       [] \<Rightarrow> Some (Inr ([], out, g, m))
     | c # cs \<Rightarrow>
         if c = CHR ''+'' \<or> c = CHR ''-'' then drain k w cs out g m
         else if c = ctrl_c
         then drain k w cs (out @ rsp_packet ''T02thread:1;'') g (on_cpu (\<lambda>c. c\<lparr>in_halt := True\<rparr>) m)
         else if c = CHR ''$''
         then (case find_char (CHR ''#'') 1 buf of
                 None \<Rightarrow> Some (Inr (buf, out, g, m))
               | Some hash \<Rightarrow>
                   if hash + 2 \<ge> length buf then Some (Inr (buf, out, g, m))
                   else let out1 = out @ (if no_ack_mode g then [] else ''+'')
                        in (case handle_packet k w (take (hash - 1) cs) g m of
                              None \<Rightarrow> None
                            | Some (Inl e) \<Rightarrow> Some (Inl e)
                            | Some (Inr (reply, g1, m1)) \<Rightarrow> drain k w (drop (hash + 3) buf) (out1 @ rsp_packet reply) g1 m1))
         else drain k w cs out g m)"
  by pat_completeness auto

termination by (relation "measure (\<lambda>(k, w, buf, out, g, m). length buf)") auto

declare drain.simps [simp del]

text \<open>The chunks \<open>recv\<close> returns, until the client leaves. The text of a chunk ends at a zero byte.\<close>

primrec serve_chunks :: "nat \<Rightarrow> 'a gdb_hits_scheme wiring \<Rightarrow> string list \<Rightarrow> string \<Rightarrow> string \<Rightarrow> gdb \<Rightarrow> 'a target \<Rightarrow>
    (rsp_error + string \<times> string \<times> gdb \<times> 'a target) option" where
  "serve_chunks k w [] buf out g m = Some (Inr (buf, out, g, m))"
| "serve_chunks k w (x # xs) buf out g m =
    (case drain k w (buf @ takeWhile (\<lambda>c. code_of c \<noteq> 0) x) out g m of
       None \<Rightarrow> None
     | Some (Inl e) \<Rightarrow> Some (Inl e)
     | Some (Inr (buf1, out1, g1, m1)) \<Rightarrow> serve_chunks k w xs buf1 out1 g1 m1)"

definition session_start :: "'a target \<Rightarrow> gdb \<times> 'a target" where
  "session_start m =
    (\<lparr> no_ack_mode = False, gdb_points = {} \<rparr>,
     (on_hits (\<lambda>h. h\<lparr>wp_hit := False\<rparr>) (on_watchpoints clear_watchpoints m))\<lparr>strict := True\<rparr>)"

definition session_end :: "'a target \<Rightarrow> 'a target" where
  "session_end m = on_watchpoints clear_watchpoints (m\<lparr>strict := False\<rparr>)"

definition serve :: "nat \<Rightarrow> 'a gdb_hits_scheme wiring \<Rightarrow> string list \<Rightarrow> 'a target \<Rightarrow> (rsp_error + string \<times> gdb \<times> 'a target) option" where
  "serve k w xs m =
    (case session_start m of (g, m1) \<Rightarrow>
       (case serve_chunks k (gdb_wiring w) xs [] [] g m1 of
          None \<Rightarrow> None
        | Some (Inl e) \<Rightarrow> Some (Inl e)
        | Some (Inr (buf, out, g1, m2)) \<Rightarrow> Some (Inr (out, g1, session_end m2))))"

section \<open>The stream does not depend on how it is cut\<close>

lemma find_append: "find P (xs @ ys) = (case find P xs of None \<Rightarrow> find P ys | Some x \<Rightarrow> Some x)"
  by (induction xs) auto

lemma find_char_append: "find_char c i a = Some h \<Longrightarrow> find_char c i (a @ b) = Some h"
proof -
  assume h: "find_char c i a = Some h"
  have eq: "find (\<lambda>j. (a @ b) ! j = c) [i..<length a] = find (\<lambda>j. a ! j = c) [i..<length a]"
    by (rule find_cong) (auto simp: nth_append)
  have "i \<le> length a"
  proof (rule ccontr)
    assume "\<not> i \<le> length a"
    then show False using h by (simp add: find_char_def)
  qed
  then have "[i..<length (a @ b)] = [i..<length a] @ [length a..<length (a @ b)]"
    unfolding length_append by (rule upt_add_eq_append)
  then show ?thesis using h unfolding find_char_def by (simp only: find_append eq option.case)
qed

definition then_drain :: "nat \<Rightarrow> 'a gdb_hits_scheme wiring \<Rightarrow> string \<Rightarrow> (rsp_error + string \<times> string \<times> gdb \<times> 'a target) option \<Rightarrow>
    (rsp_error + string \<times> string \<times> gdb \<times> 'a target) option" where
  "then_drain k w b r =
    (case r of None \<Rightarrow> None | Some (Inl e) \<Rightarrow> Some (Inl e) | Some (Inr (a, out, g, m)) \<Rightarrow> drain k w (a @ b) out g m)"

lemma then_drain_simps [simp]:
  "then_drain k w b None = None" "then_drain k w b (Some (Inl e)) = Some (Inl e)"
  "then_drain k w b (Some (Inr (a, out, g, m))) = drain k w (a @ b) out g m"
  by (simp_all add: then_drain_def)

lemma drain_packet:
  assumes "a = CHR ''$'' # cs" "find_char (CHR ''#'') 1 a = Some h" "\<not> h + 2 \<ge> length a"
  shows "drain k w a out g m =
    (case handle_packet k w (take (h - 1) cs) g m of
       None \<Rightarrow> None
     | Some (Inl e) \<Rightarrow> Some (Inl e)
     | Some (Inr (reply, g1, m1)) \<Rightarrow>
         drain k w (drop (h + 3) a) ((out @ (if no_ack_mode g then [] else ''+'')) @ rsp_packet reply) g1 m1)"
proof -
  have c: "CHR ''$'' \<noteq> ctrl_c" by (simp add: ctrl_c_def)
  show ?thesis unfolding drain.simps [of k w a] using assms c by (simp add: Let_def)
qed

text \<open>What is left of a buffer waits for more: another pass changes nothing.\<close>

definition waiting :: "string \<Rightarrow> bool" where
  "waiting r \<longleftrightarrow> (case r of [] \<Rightarrow> True | c # cs \<Rightarrow> c = CHR ''$'' \<and>
     (case find_char (CHR ''#'') 1 r of None \<Rightarrow> True | Some h \<Rightarrow> h + 2 \<ge> length r))"

lemma drain_waiting: "waiting r \<Longrightarrow> drain k w r out g m = Some (Inr (r, out, g, m))"
proof -
  have c: "CHR ''$'' \<noteq> ctrl_c" by (simp add: ctrl_c_def)
  assume "waiting r"
  then show ?thesis unfolding drain.simps [of k w r] by (auto simp: waiting_def c split: list.splits option.splits)
qed

lemma drain_append: "drain k w (a @ b) out g m = then_drain k w b (drain k w a out g m)"
proof (induction k w a out g m rule: drain.induct)
  case (1 k w a out g m)
  show ?case
  proof (cases a)
    case Nil
    then show ?thesis by (simp add: drain.simps [of k w "[]"])
  next
    case (Cons c cs)
    consider (ack) "c = CHR ''+'' \<or> c = CHR ''-''" | (brk) "\<not> (c = CHR ''+'' \<or> c = CHR ''-'')" "c = ctrl_c"
      | (pkt) "\<not> (c = CHR ''+'' \<or> c = CHR ''-'')" "c \<noteq> ctrl_c" "c = CHR ''$''"
      | (other) "\<not> (c = CHR ''+'' \<or> c = CHR ''-'')" "c \<noteq> ctrl_c" "c \<noteq> CHR ''$''" by blast
    then show ?thesis
    proof cases
      case ack
      then show ?thesis using 1(1) [OF Cons ack]
        by (subst (1 2) drain.simps) (simp add: Cons)
    next
      case brk
      then show ?thesis using 1(2) [OF Cons brk]
        by (subst (1 2) drain.simps) (simp add: Cons)
    next
      case other
      then show ?thesis using 1(4) [OF Cons other]
        by (subst (1 2) drain.simps) (simp add: Cons)
    next
      case pkt
      show ?thesis
      proof (cases "find_char (CHR ''#'') 1 a")
        case None
        then have "drain k w a out g m = Some (Inr (a, out, g, m))"
          using pkt by (subst drain.simps) (simp add: Cons)
        then show ?thesis by simp
      next
        case (Some h)
        show ?thesis
        proof (cases "h + 2 \<ge> length a")
          case True
          then have "drain k w a out g m = Some (Inr (a, out, g, m))"
            using pkt Some by (subst drain.simps) (simp add: Cons)
          then show ?thesis by simp
        next
          case False
          have f: "find_char (CHR ''#'') 1 (a @ b) = Some h" using Some by (rule find_char_append)
          have a: "a = CHR ''$'' # cs" "a @ b = CHR ''$'' # cs @ b" using Cons pkt(3) by simp_all
          have t: "take (h - 1) (cs @ b) = take (h - 1) cs" "drop (h + 3) (a @ b) = drop (h + 3) a @ b"
            using False Cons by (simp, use False in simp)
          have l: "\<not> h + 2 \<ge> length (a @ b)" using False by simp
          note e = drain_packet [OF a(1) Some False] and e2 = drain_packet [OF a(2) f l, unfolded t]
          show ?thesis
          proof (cases "handle_packet k w (take (h - 1) cs) g m")
            case None
            then show ?thesis by (simp add: e e2)
          next
            case (Some r)
            show ?thesis
            proof (cases r)
              case (Inl x)
              then show ?thesis using Some by (simp add: e e2)
            next
              case (Inr y)
              obtain reply g1 m1 where y: "y = (reply, g1, m1)" by (cases y) auto
              show ?thesis unfolding e e2 Some Inr y
                using 1(3) [OF Cons pkt \<open>find_char _ 1 a = Some h\<close> False refl Some Inr, of reply "(g1, m1)" g1 m1] y by simp
            qed
          qed
        qed
      qed
    qed
  qed
qed


lemma drain_leaves_waiting: "drain k w a out g m = Some (Inr (r, out1, g1, m1)) \<Longrightarrow> waiting r"
proof (induction k w a out g m rule: drain.induct)
  case (1 k w a out g m)
  show ?case
  proof (cases "waiting a")
    case True
    then show ?thesis using 1(5) by (simp add: drain_waiting)
  next
    case False
    then obtain c cs where a: "a = c # cs" by (cases a) (auto simp: waiting_def)
    show ?thesis
    proof (cases "c = CHR ''$''")
      case True
      then obtain h where h: "find_char (CHR ''#'') 1 a = Some h" "\<not> h + 2 \<ge> length a"
        using False a by (auto simp: waiting_def split: option.splits)
      have c: "\<not> (c = CHR ''+'' \<or> c = CHR ''-'')" "c \<noteq> ctrl_c" using True by (auto simp: ctrl_c_def)
      have d: "drain k w a out g m = (case handle_packet k w (take (h - 1) cs) g m of None \<Rightarrow> None | Some (Inl e) \<Rightarrow> Some (Inl e)
        | Some (Inr (reply, g1, m1)) \<Rightarrow> drain k w (drop (h + 3) a) ((out @ (if no_ack_mode g then [] else ''+'')) @ rsp_packet reply) g1 m1)"
        by (rule drain_packet [OF _ h]) (simp add: a True)
      then obtain reply g2 m2 where p: "handle_packet k w (take (h - 1) cs) g m = Some (Inr (reply, g2, m2))"
        using 1(5) by (auto split: option.splits sum.splits)
      show ?thesis
        by (rule 1(3) [OF a c True h(1,2) refl p refl, of reply "(g2, m2)" g2 m2]) (use 1(5) d p in simp_all)
    next
      case False
      then show ?thesis using 1(1) [OF a] 1(2) [OF a] 1(4) [OF a] 1(5) unfolding drain.simps [of k w a]
        by (auto simp: a split: if_splits)
    qed
  qed
qed

text \<open>The text a chunk adds to the buffer.\<close>

definition chunk_text :: "string \<Rightarrow> string" where
  "chunk_text x = takeWhile (\<lambda>c. code_of c \<noteq> 0) x"

lemma serve_chunks_drain:
  "waiting buf \<Longrightarrow> serve_chunks k w xs buf out g m = drain k w (buf @ concat (map chunk_text xs)) out g m"
proof (induction xs arbitrary: buf out g m)
  case Nil
  then show ?case by (simp add: drain_waiting)
next
  case (Cons x xs)
  have "serve_chunks k w (x # xs) buf out g m = then_drain k w (concat (map chunk_text xs)) (drain k w (buf @ chunk_text x) out g m)"
    unfolding serve_chunks.simps chunk_text_def [symmetric]
    using Cons.IH drain_leaves_waiting [of k w "buf @ chunk_text x" out g m]
    by (auto simp: then_drain_def split: option.split sum.split)
  also have "\<dots> = drain k w ((buf @ chunk_text x) @ concat (map chunk_text xs)) out g m" by (rule drain_append [symmetric])
  finally show ?case by simp
qed

text \<open>What follows a zero byte in a chunk is lost, as the chunk is appended as a C string.\<close>

lemma chunk_text_cut: "code_of z = 0 \<Longrightarrow> chunk_text (p @ z # q) = chunk_text p"
  by (induction p) (simp_all add: chunk_text_def)

lemma chunk_text_whole: "\<forall>x\<in>set xs. list_all (\<lambda>c. code_of c \<noteq> 0) x \<Longrightarrow> map chunk_text xs = xs"
  by (induction xs) (simp_all add: chunk_text_def list_all_iff)

lemma chunk_bytes:
  "list_all (\<lambda>c. code_of c \<noteq> 0) ys \<Longrightarrow> map chunk_text (map (\<lambda>c. [c]) ys) = map (\<lambda>c. [c]) ys"
  by (rule chunk_text_whole) (simp add: list_all_iff)

lemma serve_texts: "serve k w xs m = serve k w (map (\<lambda>c. [c]) (concat (map chunk_text xs))) m"
proof -
  have "list_all (\<lambda>c. code_of c \<noteq> 0) (concat (map chunk_text xs))"
    by (auto simp: list_all_iff chunk_text_def dest: set_takeWhileD)
  then have "concat (map chunk_text (map (\<lambda>c. [c]) (concat (map chunk_text xs)))) = concat (map chunk_text xs)"
    by (simp only: chunk_bytes concat_map_singleton map_ident)
  then show ?thesis
    by (simp only: serve_def serve_chunks_drain [of "[]", simplified waiting_def list.case] append_Nil)
qed

text \<open>
  C8: As long as no chunk holds a zero byte, which no packet of the protocol without binary data does, it does not matter how the
  bytes of a session are cut into chunks: the session is the one in which every byte comes alone, with packets cut
  anywhere, also inside the checksum, and several packets in one chunk. In general this holds of what each chunk has before its
  first zero byte, since the server appends a chunk as a C string and loses the rest of it.
\<close>
theorem gdb_stream_chunks:
  "serve k w xs m = serve k w (map (\<lambda>c. [c]) (concat (map chunk_text xs))) m \<and>
    ((\<forall>x\<in>set xs. list_all (\<lambda>c. code_of c \<noteq> 0) x) \<longrightarrow> serve k w xs m = serve k w (map (\<lambda>c. [c]) (concat xs)) m)"
  using serve_texts [of k w xs m] by (auto simp only: chunk_text_whole)

lemma gdb_stream_chunks_witness:
  "\<forall>m :: unit gdb_hits_scheme machine. serve 5 no_wiring [''$g'', ''#6'', ''7$?#3f''] m = serve 5 no_wiring (map (\<lambda>c. [c]) ''$g#67$?#3f'') m"
proof
  fix m :: "unit gdb_hits_scheme machine"
  have "\<forall>x\<in>set [''$g'', ''#6'', ''7$?#3f'']. list_all (\<lambda>c. code_of c \<noteq> 0) x" by (simp add: code_of_def)
  then have "serve 5 no_wiring [''$g'', ''#6'', ''7$?#3f''] m = serve 5 no_wiring (map (\<lambda>c. [c]) (concat [''$g'', ''#6'', ''7$?#3f''])) m"
    by (rule gdb_stream_chunks [THEN conjunct2, THEN mp])
  then show "serve 5 no_wiring [''$g'', ''#6'', ''7$?#3f''] m = serve 5 no_wiring (map (\<lambda>c. [c]) ''$g#67$?#3f'') m"
    by (simp only: concat.simps append.simps)
qed

text \<open>The two characters behind the hash are never looked at.\<close>

lemma checksum_ignored:
  "list_all (\<lambda>c. c \<noteq> CHR ''#'') p \<Longrightarrow>
     drain k w (CHR ''$'' # p @ [CHR ''#'', x, y] @ rest) out g m = drain k w (CHR ''$'' # p @ [CHR ''#'', x', y'] @ rest) out g m"
proof -
  assume p: "list_all (\<lambda>c. c \<noteq> CHR ''#'') p"
  have f: "find_char (CHR ''#'') 1 (CHR ''$'' # p @ CHR ''#'' # r) = Some (Suc (length p))" for r
  proof -
    have u: "[1..<length (CHR ''$'' # p @ CHR ''#'' # r)] = [1..<Suc (length p)] @ Suc (length p) # [Suc (Suc (length p))..<length (CHR ''$'' # p @ CHR ''#'' # r)]"
      using upt_add_eq_append [of 1 "Suc (length p)" "Suc (length r)"] by (simp add: upt_conv_Cons del: upt_Suc)
    have "find (\<lambda>i. (CHR ''$'' # p @ CHR ''#'' # r) ! i = CHR ''#'') [1..<Suc (length p)] = None"
      using p by (auto simp: find_None_iff nth_append list_all_length nth_Cons' simp del: upt_Suc)
    then show ?thesis unfolding find_char_def u by (simp only: find_append option.case) (simp add: nth_append del: upt_Suc)
  qed
  have d: "drop (Suc (length p) + 3) (CHR ''$'' # p @ CHR ''#'' # x # y # rest) = rest" for x y
  proof -
    have n: "Suc (length p) + 3 = length (CHR ''$'' # p @ [CHR ''#'', x, y])" by simp
    have s: "CHR ''$'' # p @ CHR ''#'' # x # y # rest = (CHR ''$'' # p @ [CHR ''#'', x, y]) @ rest" by simp
    show ?thesis unfolding n s by (simp only: append_eq_conv_conj drop_append drop_all diff_self_eq_0 drop_0 append_Nil order_refl)
  qed
  have "drain k w (CHR ''$'' # p @ CHR ''#'' # x # y # rest) out g m =
    (case handle_packet k w p g m of None \<Rightarrow> None | Some (Inl e) \<Rightarrow> Some (Inl e)
     | Some (Inr (reply, g1, m1)) \<Rightarrow> drain k w rest ((out @ (if no_ack_mode g then [] else ''+'')) @ rsp_packet reply) g1 m1)" for x y
  proof -
    have l: "\<not> Suc (length p) + 2 \<ge> length (CHR ''$'' # p @ CHR ''#'' # x # y # rest)" by simp
    show ?thesis using drain_packet [OF refl f l, of k w out g m, unfolded d] by simp
  qed
  then show ?thesis by simp
qed


section \<open>Registers and memory\<close>

lemma handle_g: "handle_packet k w ''g'' g m = Some (Inr (reg_read_all (cpu m), g, m))"
  by (simp add: handle_packet_def)

lemma handle_G: "handle_packet k w (CHR ''G'' # s) g m = Some (Inr (''OK'', g, on_cpu (reg_write_all s) m))"
  by (simp add: handle_packet_def)

lemma handle_p_packet: "handle_packet k w (CHR ''p'' # s) g m = Some (case handle_p (CHR ''p'' # s) m of Inl e \<Rightarrow> Inl e | Inr s \<Rightarrow> Inr (s, g, m))"
  by (simp add: handle_packet_def)

lemma handle_P_packet: "handle_packet k w (CHR ''P'' # s) g m = Some (handle_P (CHR ''P'' # s) g m)"
  by (simp add: handle_packet_def)

lemma handle_m_packet: "handle_packet k w (CHR ''m'' # s) g m = (case handle_m w (CHR ''m'' # s) m of (s, m1) \<Rightarrow> Some (Inr (s, g, m1)))"
  by (simp add: handle_packet_def)

lemma handle_M_packet: "handle_packet k w (CHR ''M'' # s) g m = Some (Inr (''OK'', g, handle_M w (CHR ''M'' # s) m))"
  by (simp add: handle_packet_def)

lemma stoi16_text: "n < 2 ^ 31 \<Longrightarrow> stops r \<Longrightarrow> stoi16 (hex_text n @ r) = Inr (int n)"
  by (simp add: stoi16_def scan_hex_digits hex_text_hex hex_nat_text Let_def)

lemma find_char_first: "list_all (\<lambda>x. x \<noteq> c) p \<Longrightarrow> find_char c 0 (p @ c # r) = Some (length p)"
proof -
  assume p: "list_all (\<lambda>x. x \<noteq> c) p"
  have u: "[0..<length (p @ c # r)] = [0..<length p] @ length p # [Suc (length p)..<length (p @ c # r)]"
    using upt_add_eq_append [of 0 "length p" "Suc (length r)"] by (simp add: upt_conv_Cons del: upt_Suc)
  have "find (\<lambda>i. (p @ c # r) ! i = c) [0..<length p] = None"
    using p by (auto simp: find_None_iff nth_append list_all_length)
  then show ?thesis unfolding find_char_def u by (simp only: find_append option.case) (simp add: nth_append)
qed

lemma hex_text_no: "\<not> is_hex c \<Longrightarrow> list_all (\<lambda>x. x \<noteq> c) (hex_text n)"
  using hex_text_hex(1) [of n] by (auto simp: list_all_iff)

lemma handle_P_text:
  assumes "n < 21"
  shows "handle_P (CHR ''P'' # hex_text n @ CHR ''='' # to_hex32 v) g m = Inr (''OK'', g, on_cpu (reg_write_n (int n) v) m)"
proof -
  let ?p = "CHR ''P'' # hex_text n @ CHR ''='' # to_hex32 v"
  have f: "find_char (CHR ''='') 0 ?p = Some (Suc (length (hex_text n)))"
    using find_char_first [of "CHR ''=''" "CHR ''P'' # hex_text n" "to_hex32 v"] hex_text_no [of "CHR ''=''" n]
    by (simp add: is_hex_def hex_digit_def code_of_def)
  have s: "stoi16 (hex_text n) = Inr (int n)" using stoi16_text [of n "[]"] assms by simp
  have h: "from_hex32 ?p (Suc (length (hex_text n)) + 1) = Inr v"
    using from_hex32_to_hex32 [of "CHR ''P'' # hex_text n @ [CHR ''='']" v "[]"] by simp
  show ?thesis unfolding handle_P_def f option.case h by (simp add: s)
qed

lemma handle_p_text: "n < 21 \<Longrightarrow> handle_p (CHR ''p'' # hex_text n) m = Inr (to_hex32 (reg_value (cpu m) n))"
  using stoi16_text [of n "[]"] by (simp add: handle_p_def reg_read_n_value)

text \<open>
  C18: the register packets round-trip. What \<open>g\<close> answers is the block of the 21 registers; sent back with \<open>G\<close>, to a CPU in
  any state, it restores all of them and touches nothing else. A value written with \<open>P\<close> is what \<open>p\<close> then reads, and no
  other register changes.
\<close>
theorem gdb_registers_roundtrip:
  "n < 21 \<Longrightarrow>
     (\<exists>s. handle_packet k w ''g'' g m = Some (Inr (s, g, m)) \<and>
        handle_packet k w (CHR ''G'' # s) g d = Some (Inr (''OK'', g, on_cpu (\<lambda>c.
          c\<lparr>gpr := (\<lambda>i. if i < 16 then gpr (cpu m) i else gpr c i), sp := sp (cpu m), pc := pc (cpu m), psr := psr (cpu m),
            alr := alr (cpu m), ahr := ahr (cpu m)\<rparr>) d))) \<and>
     (\<exists>m1. handle_packet k w (CHR ''P'' # hex_text n @ CHR ''='' # to_hex32 v) g m = Some (Inr (''OK'', g, m1)) \<and>
        (\<forall>j<21. handle_packet k w (CHR ''p'' # hex_text j) g m1 =
           Some (Inr (to_hex32 (if j = n then v else reg_value (cpu m) j), g, m1))))"
proof (intro conjI exI allI impI)
  assume n: "n < 21"
  show "handle_packet k w ''g'' g m = Some (Inr (reg_read_all (cpu m), g, m))" by (rule handle_g)
  show "handle_packet k w (CHR ''G'' # reg_read_all (cpu m)) g d = Some (Inr (''OK'', g, on_cpu (\<lambda>c.
      c\<lparr>gpr := (\<lambda>i. if i < 16 then gpr (cpu m) i else gpr c i), sp := sp (cpu m), pc := pc (cpu m), psr := psr (cpu m),
        alr := alr (cpu m), ahr := ahr (cpu m)\<rparr>) d))"
    using reg_write_all_read [of "cpu m" "[]"] by (simp add: handle_G)
  show "handle_packet k w (CHR ''P'' # hex_text n @ CHR ''='' # to_hex32 v) g m = Some (Inr (''OK'', g, on_cpu (reg_write_n (int n) v) m))"
    by (simp add: handle_P_packet handle_P_text n)
  fix j :: nat assume j: "j < 21"
  have "reg_value (reg_write_n (int n) v (cpu m)) j = (if j = n then v else reg_value (cpu m) j)"
    using reg_value_write [of "int n" j v "cpu m"] n j by simp
  then show "handle_packet k w (CHR ''p'' # hex_text j) g (on_cpu (reg_write_n (int n) v) m)
      = Some (Inr (to_hex32 (if j = n then v else reg_value (cpu m) j), g, on_cpu (reg_write_n (int n) v) m))"
    by (simp add: handle_p_packet handle_p_text j)
qed

text \<open>A register packet without a number: the exception is not caught.\<close>

lemma bad_number_throws: "handle_packet k w ''p'' g m = Some (Inl Throws)"
  by (simp add: handle_p_packet handle_p_def stoi16_def scan_hex_def strip_sign_def strip_0x_def)


definition hexes :: "u8 list \<Rightarrow> string" where "hexes bs = concat (map to_hex8 bs)"

lemma hexes_simps [simp]: "hexes [] = []" "hexes (b # bs) = to_hex8 b @ hexes bs" "length (hexes bs) = 2 * length bs"
  by (induction bs) (auto simp: hexes_def)

lemma drop_hexes: "i < length bs \<Longrightarrow> drop (2 * i) (hexes bs) = to_hex8 (bs ! i) @ hexes (drop (Suc i) bs)"
proof (induction bs arbitrary: i)
  case (Cons b bs)
  then show ?case by (cases i) (auto simp: to_hex8_def)
qed simp

definition put_run :: "nat \<Rightarrow> 'b list \<Rightarrow> 'b list \<Rightarrow> 'b list" where
  "put_run k ys xs = take k xs @ ys @ drop (k + length ys) xs"

lemma put_run_step:
  "k < length xs \<Longrightarrow> put_run (Suc k) ys (xs[k := y]) = put_run k (y # ys) xs"
  by (simp add: put_run_def take_Suc_conv_app_nth drop_update_cancel take_update_cancel)

lemma write_bytes_sram:
  "i + n = length bs \<Longrightarrow> in_sram m a (length bs) \<Longrightarrow> \<exists>k. write_bytes w a (hexes bs) (word_of_nat i) n m =
     store_sram (put_run (sram_off a + i) (drop i bs) (sram (bus m))) (charge k m)"
proof (induction n arbitrary: i m)
  case 0
  then have "write_bytes w a (hexes bs) (word_of_nat i) 0 m = store_sram (put_run (sram_off a + i) (drop i bs) (sram (bus m))) (charge 0 m)"
    by (simp add: put_run_def store_sram_def charge_def)
  then show ?case by blast
next
  case (Suc n)
  let ?xs = "sram (bus m)" and ?k = "sram_off a + i"
  have i: "i < length bs" "length bs < 2 ^ 31" using Suc.prems by (auto simp: in_sram_def)
  have u: "unat (word_of_nat i * 2 :: u32) = 2 * i" "unat (word_of_nat i * 2 + 1 :: u32) = 2 * i + 1"
    using i by (auto simp: unat_word_ariths unat_of_nat)
  have s: "in_sram m (a + word_of_nat i) 1" "sram_off (a + word_of_nat i) = ?k"
    using in_sram_sub [OF Suc.prems(2), of i 1] i(1) by auto
  have k: "?k < length ?xs" using s in_sramD [OF s(1)] by simp
  let ?m = "store_sram (?xs[?k := bs ! i]) (charge (ext_write_cycles (bus m) (sram_wait (bus m))) m)"
  have b: "scan_byte (drop (2 * i) (hexes bs)) = bs ! i" by (simp add: drop_hexes i(1) scan_byte_hex8)
  have w8: "write8 w (a + word_of_nat i) (bs ! i) m = ?m" by (simp add: write8_sram [OF s(1)] s(2))
  have "write_bytes w a (hexes bs) (word_of_nat i) (Suc n) m = write_bytes w a (hexes bs) (word_of_nat (Suc i)) n ?m"
    using i(1) by (simp only: write_bytes.simps u b w8 hexes_simps of_nat_Suc) (simp add: add.commute)
  moreover obtain c where "write_bytes w a (hexes bs) (word_of_nat (Suc i)) n ?m
      = store_sram (put_run (sram_off a + Suc i) (drop (Suc i) bs) (sram (bus ?m))) (charge c ?m)"
    using Suc.IH [of "Suc i" ?m] Suc.prems by auto
  moreover have "put_run (sram_off a + Suc i) (drop (Suc i) bs) (sram (bus ?m)) = put_run ?k (drop i bs) ?xs"
    using put_run_step [OF k, of "drop (Suc i) bs" "bs ! i"] by (simp add: Cons_nth_drop_Suc [OF i(1)])
  ultimately show ?case by (auto simp: charge_store_sram charge_charge)
qed

lemma read_bytes_sram:
  "n = 0 \<or> in_sram m a n \<Longrightarrow> \<exists>k. read_bytes w a n m = (hexes (take n (drop (sram_off a) (sram (bus m)))), charge k m)"
proof (induction n arbitrary: a m)
  case 0
  show ?case by (rule exI [of _ 0]) (simp add: charge_def)
next
  case (Suc n)
  then have s: "in_sram m a (Suc n)" by simp
  have a1: "in_sram m a 1" using in_sram_sub [OF s, of 0 1] by simp
  have k: "sram_off a < length (sram (bus m))" using in_sramD [OF a1] by simp
  let ?m = "charge (ext_read_cycles (bus m) (sram_wait (bus m))) m"
  have n: "n = 0 \<or> in_sram ?m (a + 1) n" "0 < n \<longrightarrow> sram_off (a + 1) = Suc (sram_off a)"
    using in_sram_sub [OF s, of 1 n] by auto
  obtain c where "read_bytes w (a + 1) n ?m = (hexes (take n (drop (sram_off (a + 1)) (sram (bus ?m)))), charge c ?m)"
    using Suc.IH [OF n(1)] by blast
  moreover have "take n (drop (sram_off (a + 1)) (sram (bus m))) = take n (drop (Suc (sram_off a)) (sram (bus m)))"
    using n(2) by (cases n) auto
  ultimately have "read_bytes w a (Suc n) m = (hexes (take (Suc n) (drop (sram_off a) (sram (bus m)))),
      charge (ext_read_cycles (bus m) (sram_wait (bus m)) + c) m)"
    using k by (simp add: read8_sram [OF a1] charge_charge Cons_nth_drop_Suc [symmetric])
  then show ?case by blast
qed

lemma put_run_back: "k + length ys \<le> length xs \<Longrightarrow> take (length ys) (drop k (put_run k ys xs)) = ys"
  by (simp add: put_run_def)

text \<open>
  C31: memory packets round-trip in external RAM while no watchpoint is set (one that is hit halts the CPU and is
  recorded). One or more bytes stored with \<open>M\<close> go to the addresses they name and nowhere else; \<open>m\<close> at the same place answers with the same digits. The numbers are written as \<open>%x\<close> prints them.
\<close>
theorem gdb_memory_roundtrip:
  assumes "in_sram m a (length bs)"
  shows "\<exists>m1 m2. handle_packet k w (''M'' @ hex_text (unat a) @ '','' @ hex_text (length bs) @ '':'' @ hexes bs) g m = Some (Inr (''OK'', g, m1)) \<and>
      handle_packet k w (''m'' @ hex_text (unat a) @ '','' @ hex_text (length bs)) g m1 = Some (Inr (hexes bs, g, m2)) \<and>
      sram (bus m1) = put_run (sram_off a) bs (sram (bus m)) \<and> sram (bus m2) = sram (bus m1) \<and>
      cpu m2 = cpu m \<and> flash (bus m2) = flash (bus m) \<and> dev m2 = dev m"
proof -
  let ?n = "length bs"
  have n: "0 < ?n" "?n < 2 ^ 32" "sram_off a + ?n \<le> length (sram (bus m))" using assms by (auto simp: in_sram_def sram_off_def)
  have a: "unat a < 2 ^ 32" by (rule u32_less)
  have len: "unat (word_of_nat ?n :: u32) = ?n" using n(2) by (simp add: unat_of_nat)
  have p1: "scan_pair (hex_text (unat a) @ '','' @ hex_text ?n @ '':'' @ hexes bs) = (a, word_of_nat ?n)"
    using scan_pair_text [OF a n(2), of "'':'' @ hexes bs"] by simp
  have p2: "scan_pair (hex_text (unat a) @ '','' @ hex_text ?n) = (a, word_of_nat ?n)"
    using scan_pair_text [OF a n(2), of "[]"] by simp
  let ?q = "''M'' @ hex_text (unat a) @ '','' @ hex_text ?n"
  have nc: "\<not> is_hex (CHR '':'')" by (simp add: is_hex_def hex_digit_def code_of_def)
  have f: "find_char (CHR '':'') 0 (''M'' @ hex_text (unat a) @ '','' @ hex_text ?n @ '':'' @ hexes bs) = Some (length ?q)"
    using find_char_first [of "CHR '':''" ?q "hexes bs"] hex_text_no [OF nc] by simp
  have d: "drop (length ?q + 1) (''M'' @ hex_text (unat a) @ '','' @ hex_text ?n @ '':'' @ hexes bs) = hexes bs" by simp
  obtain c where c: "write_bytes w a (hexes bs) 0 ?n m = store_sram (put_run (sram_off a) bs (sram (bus m))) (charge c m)"
    using write_bytes_sram [of 0 ?n bs m a w] assms by auto
  let ?m1 = "store_sram (put_run (sram_off a) bs (sram (bus m))) (charge c m)"
  have M: "handle_packet k w (''M'' @ hex_text (unat a) @ '','' @ hex_text ?n @ '':'' @ hexes bs) g m = Some (Inr (''OK'', g, ?m1))"
    using p1 f d len c by (simp add: handle_M_packet handle_M_def)
  have "length (put_run (sram_off a) bs (sram (bus m))) = length (sram (bus m))" using n(3) by (simp add: put_run_def)
  then have "in_sram ?m1 a ?n" using assms by simp
  then obtain c2 where c2: "read_bytes w a ?n ?m1 = (hexes (take ?n (drop (sram_off a) (sram (bus ?m1)))), charge c2 ?m1)"
    using read_bytes_sram [of ?n ?m1 a w] by blast
  have "handle_packet k w (''m'' @ hex_text (unat a) @ '','' @ hex_text ?n) g ?m1 = Some (Inr (hexes bs, g, charge c2 ?m1))"
    using p2 len c2 put_run_back [OF n(3)] by (simp add: handle_m_packet handle_m_def)
  with M show ?thesis by (intro exI [of _ ?m1] exI [of _ "charge c2 ?m1"]) simp
qed


section \<open>Stopping\<close>

definition stops_at :: "u32 set \<Rightarrow> 'a gdb_hits_scheme wiring \<Rightarrow> 'a target \<Rightarrow> nat \<Rightarrow> bool" where
  "stops_at bs w m n \<longleftrightarrow>
    (let x = (step_one w ^^ n) m in in_halt (cpu x) \<or> (0 < n \<and> (wp_hit (dev x) \<or> pc (cpu x) \<in> bs)))"

lemma find_upt_Suc: "find P [0..<Suc n] = (if P 0 then Some 0 else map_option Suc (find (\<lambda>i. P (Suc i)) [0..<n]))"
proof -
  have "find P (map Suc xs) = map_option Suc (find (\<lambda>i. P (Suc i)) xs)" for xs by (induction xs) auto
  then show ?thesis by (simp add: upt_conv_Cons map_Suc_upt [symmetric] del: upt_Suc)
qed

lemma run_loop_first:
  "run_loop k bs w m = map_option (\<lambda>n. (step_one w ^^ n) m) (find (stops_at bs w m) [0..<Suc k])"
proof (induction k arbitrary: m)
  case 0
  then show ?case by (simp add: stops_at_def)
next
  case (Suc k)
  let ?m1 = "step_one w m"
  have it: "(step_one w ^^ Suc n) m = (step_one w ^^ n) ?m1" for n by (simp add: funpow_swap1)
  show ?case
  proof (cases "in_halt (cpu m)")
    case True
    then show ?thesis by (simp add: find_upt_Suc stops_at_def del: upt_Suc)
  next
    case False
    then have s0: "\<not> stops_at bs w m 0" by (simp add: stops_at_def)
    show ?thesis
    proof (cases "wp_hit (dev ?m1) \<or> (\<not> in_halt (cpu ?m1) \<and> pc (cpu ?m1) \<in> bs)")
      case True
      then have "stops_at bs w m 1" by (auto simp: stops_at_def)
      then have "find (stops_at bs w m) [0..<Suc (Suc k)] = Some 1" using s0 by (simp add: find_upt_Suc del: upt_Suc)
      then show ?thesis using True False by (auto simp: Let_def simp del: upt_Suc)
    next
      case no: False
      have "stops_at bs w m (Suc n) = stops_at bs w ?m1 n" for n
        using no unfolding stops_at_def it by (cases n) (auto simp: Let_def)
      then have "find (stops_at bs w m) [0..<Suc (Suc k)] = map_option Suc (find (stops_at bs w ?m1) [0..<Suc k])"
        using s0 by (subst find_upt_Suc) (simp del: upt_Suc)
      then show ?thesis using no False Suc.IH [of ?m1] by (auto simp: option.map_comp comp_def it [simplified] Let_def simp del: upt_Suc)
    qed
  qed
qed

text \<open>
  C19: where a program stops. \<open>c\<close> and \<open>vCont;c\<close> step the CPU until the first step after which it has halted (or faulted), a
  watchpoint was hit, or the program counter is at a breakpoint, a breakpoint at the place where it started not counting;
  the answer describes that state. It is found exactly when there is one within the fuel.
\<close>
theorem gdb_continue_first_stop:
  "handle_packet k w ''c'' g m = handle_packet k w ''vCont;c'' g m \<and>
   handle_packet k w ''c'' g m =
     map_option (\<lambda>n. let x = (step_one w ^^ n) (run_reset m) in Inr (make_stop_reply x, g, x))
       (find (stops_at (gdb_points g) w (run_reset m)) [0..<Suc k])"
proof
  have r: "answer g (gdb_run k False (gdb_points g) w m) =
      map_option (\<lambda>n. let x = (step_one w ^^ n) (run_reset m) in Inr (make_stop_reply x, g, x))
       (find (stops_at (gdb_points g) w (run_reset m)) [0..<Suc k])"
    by (simp add: answer_def gdb_run_def run_loop_first Let_def option.map_comp comp_def split: option.split del: upt_Suc)
  have c: "handle_packet k w ''c'' g m = answer g (gdb_run k False (gdb_points g) w m)" by (simp add: handle_packet_def)
  have v: "handle_packet k w ''vCont;c'' g m = answer g (gdb_run k False (gdb_points g) w m)"
    by (simp add: handle_packet_def starts_with_def char_of_str_def)
  show "handle_packet k w ''c'' g m = handle_packet k w ''vCont;c'' g m" unfolding c v ..
  show "handle_packet k w ''c'' g m = map_option (\<lambda>n. let x = (step_one w ^^ n) (run_reset m) in Inr (make_stop_reply x, g, x))
       (find (stops_at (gdb_points g) w (run_reset m)) [0..<Suc k])" unfolding c by (rule r)
qed

section \<open>Watchpoints\<close>

lemma on_watch_hit: "wp_hit (dev m) \<Longrightarrow> on_watch wp a v n wr m = m"
  by (simp add: on_watch_def)

lemma fold_watch_hit:
  "wp_hit (dev m) \<Longrightarrow> fold (\<lambda>wp m. if wp_hits a n wr wp then on_watch wp a v n wr m else m) ps m = m"
  by (induction ps) (auto simp: on_watch_hit)

text \<open>Of several watchpoints that match an access, the one set first is recorded, and later accesses do not replace it.\<close>

lemma fire_first:
  "fire_wp (gdb_wiring w) a v n wr m =
    (if wp_hit (dev m) then m
     else case find (wp_hits a n wr) (watchpoints (bus m)) of
       None \<Rightarrow> m
     | Some wp \<Rightarrow> on_cpu (\<lambda>c. c\<lparr>in_halt := True\<rparr>)
         (on_hits (\<lambda>h. h\<lparr>wp_hit := True, wp_hit_addr := a, wp_hit_ztype := hit_ztype (wp_type wp)\<rparr>) m))"
proof -
  have "fold (\<lambda>wp m. if wp_hits a n wr wp then on_watch wp a v n wr m else m) ps m =
    (if wp_hit (dev m) then m else case find (wp_hits a n wr) ps of None \<Rightarrow> m
     | Some wp \<Rightarrow> on_cpu (\<lambda>c. c\<lparr>in_halt := True\<rparr>)
         (on_hits (\<lambda>h. h\<lparr>wp_hit := True, wp_hit_addr := a, wp_hit_ztype := hit_ztype (wp_type wp)\<rparr>) m))" for ps
  proof (induction ps)
    case (Cons p ps)
    show ?case
    proof (cases "wp_hit (dev m) \<or> \<not> wp_hits a n wr p")
      case True
      then show ?thesis using Cons by (auto simp: fold_watch_hit on_watch_hit)
    next
      case False
      then show ?thesis by (simp add: on_watch_def fold_watch_hit on_hits_def)
    qed
  qed simp
  then show ?thesis by (simp add: fire_wp_def gdb_wiring_def)
qed

text \<open>The stop reply gives the address byte by byte from the low one, where the client's numbers have the high digit first.\<close>

lemma watch_address_swapped:
  "make_stop_reply \<lparr> cpu = cpu_init, bus = bus_create 0 0, dev = \<lparr> wp_hit = True, wp_hit_addr = 0x00123456, wp_hit_ztype = 2 \<rparr>,
      diag_log = [], breakpoints = {}, strict = True \<rparr> = ''T05watch:56341200;thread:1;'' \<and>
   scan_u32 ''56341200;thread:1;'' = Some (0x56341200, '';thread:1;'')"
proof
  show "make_stop_reply \<lparr> cpu = cpu_init, bus = bus_create 0 0, dev = \<lparr> wp_hit = True, wp_hit_addr = 0x00123456, wp_hit_ztype = 2 \<rparr>,
      diag_log = [], breakpoints = {}, strict = True \<rparr> = ''T05watch:56341200;thread:1;''"
    by (simp add: make_stop_reply_def cpu_init_def to_hex32_def to_hex8_def hex_char_def char_of_def drop_bit_eq_div bit_Suc_0_iff)
  show "scan_u32 ''56341200;thread:1;'' = Some (0x56341200, '';thread:1;'')"
    by (simp add: scan_u32_def scan_hex_def strip_sign_def strip_0x_def is_space_def is_hex_def hex_digit_def code_of_def hex_nat_def signed_word_def)
qed

text \<open>Running again does not clear a fault: after one, every stop is reported as a fault.\<close>

lemma fault_reply: "fault (cpu m) \<Longrightarrow> make_stop_reply m = ''T04thread:1;''" "fault (cpu (run_reset m)) = fault (cpu m)"
  by (simp_all add: make_stop_reply_def run_reset_def on_hits_def)


section \<open>The handshake with the main loop\<close>

text \<open>
  With \<open>serve_async\<close> the server runs on a thread of its own and the main loop steps the CPU. \<open>run\<close> publishes a
  command, takes the lock, clears the flag and waits for it; the main loop takes the command, steps, and
  notifies. The lock makes \<open>rsp_wait\<close>, \<open>rsp_wake\<close> and \<open>main_notify\<close> single steps; publishing and taking are
  single atomic operations outside it. \<open>serve\<close> itself calls \<open>notify_async_stopped\<close> after the client has left, on the
  thread that would have to wait, so that call cannot come while it waits.
\<close>

datatype rsp_at = Serving | Published | Waiting

datatype main_at = Looking | Stepping

record handshake =
  run_cmd :: nat
  stopped :: bool
  rsp_at :: rsp_at
  main_at :: main_at

definition handshake_init :: handshake where
  "handshake_init = \<lparr> run_cmd = 0, stopped = False, rsp_at = Serving, main_at = Looking \<rparr>"

inductive hs_step :: "handshake \<Rightarrow> handshake \<Rightarrow> bool" where
  rsp_publish: "rsp_at s = Serving \<Longrightarrow> hs_step s (s\<lparr>run_cmd := (if single then 1 else 2), rsp_at := Published\<rparr>)"
| rsp_wait: "rsp_at s = Published \<Longrightarrow> hs_step s (s\<lparr>stopped := False, rsp_at := Waiting\<rparr>)"
| rsp_wake: "rsp_at s = Waiting \<Longrightarrow> stopped s \<Longrightarrow> hs_step s (s\<lparr>rsp_at := Serving\<rparr>)"
| main_take: "main_at s = Looking \<Longrightarrow> run_cmd s \<noteq> 0 \<Longrightarrow> hs_step s (s\<lparr>run_cmd := 0, main_at := Stepping\<rparr>)"
| main_notify: "main_at s = Stepping \<Longrightarrow> hs_step s (s\<lparr>stopped := True, main_at := Looking\<rparr>)"

inductive_cases hs_step_cases: "hs_step s t"

definition hs_reach :: "handshake \<Rightarrow> bool" where "hs_reach s \<longleftrightarrow> hs_step\<^sup>*\<^sup>* handshake_init s"

text \<open>Where the two threads can be: one command at a time.\<close>

definition hs_ok :: "handshake \<Rightarrow> bool" where
  "hs_ok s \<longleftrightarrow>
    (rsp_at s = Serving \<longrightarrow> run_cmd s = 0 \<and> main_at s = Looking) \<and>
    (run_cmd s \<noteq> 0 \<longrightarrow> main_at s = Looking \<and> (rsp_at s = Waiting \<longrightarrow> \<not> stopped s)) \<and>
    (main_at s = Stepping \<and> rsp_at s = Waiting \<longrightarrow> \<not> stopped s)"

lemma main_at_not [simp]: "main_at s \<noteq> Stepping \<longleftrightarrow> main_at s = Looking"
  by (cases "main_at s") simp_all

lemma hs_ok_step: "hs_step s t \<Longrightarrow> hs_ok s \<Longrightarrow> hs_ok t"
  by (erule hs_step_cases) (auto simp: hs_ok_def)

lemma hs_reach_ok: "hs_reach s \<Longrightarrow> hs_ok s"
proof -
  assume "hs_reach s"
  then have "hs_step\<^sup>*\<^sup>* handshake_init s" by (simp add: hs_reach_def)
  then show ?thesis by (induction rule: rtranclp_induct) (simp add: hs_ok_def handshake_init_def, rule hs_ok_step)
qed

lemma hs_reach_step: "hs_reach s \<Longrightarrow> hs_step s t \<Longrightarrow> hs_reach t"
  by (simp add: hs_reach_def)

definition hs_lost :: handshake where
  "hs_lost = \<lparr> run_cmd = 0, stopped = False, rsp_at = Waiting, main_at = Looking \<rparr>"

lemma hs_lost_reach: "hs_reach hs_lost"
proof -
  let ?s1 = "handshake_init\<lparr>run_cmd := 1, rsp_at := Published\<rparr>"
  let ?s2 = "?s1\<lparr>run_cmd := 0, main_at := Stepping\<rparr>"
  let ?s3 = "?s2\<lparr>stopped := True, main_at := Looking\<rparr>"
  have "hs_reach handshake_init" by (simp add: hs_reach_def)
  moreover have "hs_step handshake_init ?s1"
    using rsp_publish [of handshake_init True] by (simp add: handshake_init_def)
  moreover have "hs_step ?s1 ?s2" by (rule main_take) (simp_all add: handshake_init_def)
  moreover have "hs_step ?s2 ?s3" by (rule main_notify) simp
  moreover have "hs_step ?s3 (?s3\<lparr>stopped := False, rsp_at := Waiting\<rparr>)" by (rule rsp_wait) simp
  ultimately have "hs_reach (?s3\<lparr>stopped := False, rsp_at := Waiting\<rparr>)" by (blast intro: hs_reach_step)
  then show ?thesis by (simp add: handshake_init_def hs_lost_def)
qed

lemma stuck_is_lost: "hs_ok s \<Longrightarrow> (\<nexists>t. hs_step s t) \<Longrightarrow> s = hs_lost"
proof -
  assume ok: "hs_ok s" and no: "\<nexists>t. hs_step s t"
  have 1: "rsp_at s \<noteq> Serving" "rsp_at s \<noteq> Published" "main_at s \<noteq> Stepping" using no by (blast intro: hs_step.intros)+
  then have r: "rsp_at s = Waiting" "main_at s = Looking" by (cases "rsp_at s"; simp)+
  then have "\<not> stopped s" "run_cmd s = 0" using no by (auto intro: hs_step.intros)
  with r show ?thesis by (simp add: hs_lost_def)
qed

text \<open>
  C9: the handshake loses wake-ups. The server clears the stop flag only after it has published its command, so a main loop that
  takes the command and reports the stop in between is forgotten: the server waits, no command is pending, and neither
  thread can ever move again. This is the only state the two threads can get stuck in.
\<close>
theorem gdb_async_lost_wakeup:
  "hs_reach hs_lost \<and> (\<forall>s. hs_reach s \<longrightarrow> ((\<nexists>t. hs_step s t) \<longleftrightarrow> s = hs_lost))"
proof (intro conjI allI impI)
  show "hs_reach hs_lost" by (rule hs_lost_reach)
  fix s assume s: "hs_reach s"
  have "\<nexists>t. hs_step hs_lost t" by (auto simp: hs_lost_def elim: hs_step_cases)
  then show "(\<nexists>t. hs_step s t) \<longleftrightarrow> s = hs_lost" using stuck_is_lost [OF hs_reach_ok [OF s]] by blast
qed

lemma gdb_async_lost_wakeup_witness: "(\<nexists>t. hs_step hs_lost t) \<and> (\<exists>t. hs_step handshake_init t)"
proof -
  have "hs_reach handshake_init" by (simp add: hs_reach_def)
  then have "(\<nexists>t. hs_step handshake_init t) \<longleftrightarrow> handshake_init = hs_lost" using gdb_async_lost_wakeup by blast
  moreover have "handshake_init \<noteq> hs_lost" by (simp add: handshake_init_def hs_lost_def)
  ultimately show ?thesis using gdb_async_lost_wakeup by blast
qed

section \<open>Witnesses\<close>

definition gdb_sample :: "unit gdb_hits_scheme machine" where
  "gdb_sample = \<lparr> cpu = cpu_init, bus = bus_create 4096 64, dev = \<lparr> wp_hit = False, wp_hit_addr = 0, wp_hit_ztype = 2 \<rparr>,
     diag_log = [], breakpoints = {}, strict = False \<rparr>"

lemma gdb_registers_roundtrip_witness:
  "\<exists>m1. handle_packet 0 no_wiring (CHR ''P'' # hex_text 17 @ CHR ''='' # to_hex32 0xC02000) \<lparr> no_ack_mode = False, gdb_points = {} \<rparr> gdb_sample
     = Some (Inr (''OK'', \<lparr> no_ack_mode = False, gdb_points = {} \<rparr>, m1))"
proof -
  have n: "(17 :: nat) < 21" by simp
  show ?thesis
    using gdb_registers_roundtrip [OF n, where k = 0 and w = no_wiring and m = gdb_sample and d = gdb_sample and v = "0xC02000"] by blast
qed

lemma gdb_memory_roundtrip_witness:
  "\<exists>m1. handle_packet 0 no_wiring (''M'' @ hex_text (unat (0x100010 :: u32)) @ '','' @ hex_text (length [1 :: u8, 2]) @ '':'' @ hexes [1, 2]) \<lparr> no_ack_mode = False, gdb_points = {} \<rparr> gdb_sample
     = Some (Inr (''OK'', \<lparr> no_ack_mode = False, gdb_points = {} \<rparr>, m1))"
proof -
  have s: "in_sram gdb_sample 0x100010 (length [1 :: u8, 2])" by (simp add: in_sram_def gdb_sample_def bus_create_def)
  show ?thesis using gdb_memory_roundtrip [OF s, of 0 no_wiring] by blast
qed

end
