(* ===== verification/Script.thy ===== *)
theory Script
  imports GdbWire Rtc
begin

text \<open>
  What the headless frontend reads: the script of \<^verbatim>\<open>src/headless_system_main.cpp\<close> (lines, words, numbers,
  commands), button names (\<^verbatim>\<open>src/system/named_button_input.cpp\<close>), the pinned time, address options
  (\<^verbatim>\<open>src/debug/debug_utils.cpp\<close>), and the hash of a frame.
\<close>

section \<open>Numbers in any base\<close>

text \<open>\<open>std::stoul\<close> and \<open>std::stoull\<close> in base 0: a prefix chooses the base, what follows the digits is not read.\<close>

definition digit_in :: "nat \<Rightarrow> char \<Rightarrow> bool" where
  "digit_in b c \<longleftrightarrow> (case hex_digit c of None \<Rightarrow> False | Some d \<Rightarrow> d < b)"

definition num_value :: "nat \<Rightarrow> string \<Rightarrow> nat" where
  "num_value b ds = foldl (\<lambda>n c. b * n + (case hex_digit c of None \<Rightarrow> 0 | Some d \<Rightarrow> d)) 0 ds"

definition base_of :: "string \<Rightarrow> nat \<times> string" where
  "base_of s =
    (let s1 = strip_0x s
     in if s1 \<noteq> s then (16, s1) else if s \<noteq> [] \<and> hd s = CHR ''0'' then (8, s) else (10, s))"

definition stoull0 :: "string \<Rightarrow> rsp_error + u64" where
  "stoull0 s =
    (case strip_sign (dropWhile is_space s) of (neg, s1) \<Rightarrow>
       (case base_of s1 of (b, s2) \<Rightarrow>
          let ds = takeWhile (digit_in b) s2; n = num_value b ds
          in if ds = [] \<or> n \<ge> 2 ^ 64 then Inl Throws else Inr (signed_word neg n)))"

definition parse_u64 :: "string \<Rightarrow> rsp_error + u64" where "parse_u64 tok = stoull0 tok"

definition parse_addr_size :: "string \<Rightarrow> rsp_error + u32 \<times> u32" where
  "parse_addr_size s =
    (case find_char (CHR '':'') 0 s of
       None \<Rightarrow> (case stoull0 s of Inl e \<Rightarrow> Inl e | Inr a \<Rightarrow> Inr (ucast a, 4))
     | Some colon \<Rightarrow>
         (case stoull0 (take colon s) of
            Inl e \<Rightarrow> Inl e
          | Inr a \<Rightarrow> (case stoull0 (drop (colon + 1) s) of Inl e \<Rightarrow> Inl e | Inr n \<Rightarrow> Inr (ucast a, ucast n))))"

section \<open>Buttons\<close>

record button_state =
  k5 :: u8
  k6 :: u8

definition buttons_up :: button_state where "buttons_up = \<lparr> k5 = 0xFF, k6 = 0xFF \<rparr>"

definition to_upper :: "char \<Rightarrow> char" where
  "to_upper c = (if 97 \<le> code_of c \<and> code_of c \<le> 122 then char_of (code_of c - 32) else c)"

definition ieq :: "string \<Rightarrow> string \<Rightarrow> bool" where
  "ieq a b \<longleftrightarrow> length a = length b \<and> list_all2 (\<lambda>x y. to_upper x = to_upper y) a b"

definition press :: "nat \<Rightarrow> bool \<Rightarrow> u8 \<Rightarrow> u8" where
  "press n down r = (if down then r AND NOT (push_bit n 1) else r OR push_bit n 1)"

definition apply_named_button :: "string \<Rightarrow> bool \<Rightarrow> button_state \<Rightarrow> bool \<times> button_state" where
  "apply_named_button name d b =
    (if ieq name ''RIGHT'' then (True, b\<lparr>k6 := press 0 d (k6 b)\<rparr>)
     else if ieq name ''LEFT'' then (True, b\<lparr>k6 := press 1 d (k6 b)\<rparr>)
     else if ieq name ''DOWN'' then (True, b\<lparr>k6 := press 2 d (k6 b)\<rparr>)
     else if ieq name ''UP'' then (True, b\<lparr>k6 := press 3 d (k6 b)\<rparr>)
     else if ieq name ''B'' then (True, b\<lparr>k6 := press 4 d (k6 b)\<rparr>)
     else if ieq name ''A'' then (True, b\<lparr>k6 := press 5 d (k6 b)\<rparr>)
     else if ieq name ''START'' then (True, b\<lparr>k5 := press 4 d (k5 b)\<rparr>)
     else if ieq name ''SELECT'' then (True, b\<lparr>k5 := press 3 d (k5 b)\<rparr>)
     else (False, b))"

section \<open>The script\<close>

text \<open>\<open>std::getline\<close> until the end of the file.\<close>

definition is_newline :: "char \<Rightarrow> bool" where "is_newline c \<longleftrightarrow> code_of c = 10"

function lines_of :: "string \<Rightarrow> string list" where
  "lines_of s =
    (if s = [] then []
     else takeWhile (\<lambda>c. \<not> is_newline c) s # lines_of (drop 1 (dropWhile (\<lambda>c. \<not> is_newline c) s)))"
  by pat_completeness auto

termination
proof (relation "measure length", simp)
  fix s :: string assume "s \<noteq> []"
  then show "(drop 1 (dropWhile (\<lambda>c. \<not> is_newline c) s), s) \<in> measure length"
    using length_dropWhile_le [of "\<lambda>c. \<not> is_newline c" s] by (cases s) auto
qed

declare lines_of.simps [simp del]

definition strip :: "string \<Rightarrow> string" where
  "strip s =
    (let t = dropWhile is_space (takeWhile (\<lambda>c. c \<noteq> CHR ''#'') s)
     in rev (dropWhile is_space (rev t)))"

function split_ws :: "string \<Rightarrow> string list" where
  "split_ws s =
    (let t = dropWhile is_space s
     in if t = [] then [] else takeWhile (\<lambda>c. \<not> is_space c) t # split_ws (dropWhile (\<lambda>c. \<not> is_space c) t))"
  by pat_completeness auto

termination
proof (relation "measure length", simp)
  fix s t :: string assume t: "t = dropWhile is_space s" "t \<noteq> []"
  then have "\<not> is_space (hd t)" using hd_dropWhile [of is_space s] by simp
  then have "length (dropWhile (\<lambda>c. \<not> is_space c) t) < length t"
    using t(2) length_dropWhile_le [of "\<lambda>c. \<not> is_space c" "tl t"] by (cases t) auto
  then show "(dropWhile (\<lambda>c. \<not> is_space c) t, s) \<in> measure length"
    using t(1) length_dropWhile_le [of is_space s] by simp
qed

declare split_ws.simps [simp del]

datatype cmd_kind = Press | Release | Snapshot | HashLine | QuitScript

record script_cmd =
  cmd_frame :: u64
  cmd_kind :: cmd_kind
  cmd_arg :: string

datatype script_error = CannotOpenScript | BadWait | BadWaitCount | UnknownCommand | NeedsVerb | BadFrame | FrameDecreases
  | NeedsButton | UnknownButton | NeedsFilename | ExtraArgument | UnknownVerb

text \<open>A \<open>frame\<close> line from its verb on.\<close>

definition parse_verb :: "u64 \<Rightarrow> string list \<Rightarrow> script_error + script_cmd" where
  "parse_verb fr tk =
    (let verb = tk ! 2; cmd = (\<lambda>k a. Inr \<lparr> cmd_frame = fr, cmd_kind = k, cmd_arg = a \<rparr>)
     in if verb = ''press'' \<or> verb = ''release''
        then (if length tk \<noteq> 4 then Inl NeedsButton
              else if \<not> fst (apply_named_button (tk ! 3) False buttons_up) then Inl UnknownButton
              else cmd (if verb = ''press'' then Press else Release) (tk ! 3))
        else if verb = ''snapshot'' then (if length tk \<noteq> 4 then Inl NeedsFilename else cmd Snapshot (tk ! 3))
        else if verb = ''hash'' then (if length tk \<noteq> 3 then Inl ExtraArgument else cmd HashLine [])
        else if verb = ''quit'' then (if length tk \<noteq> 3 then Inl ExtraArgument else cmd QuitScript [])
        else Inl UnknownVerb)"

text \<open>One line: the command it gives, if any, with the last frame named and whether there was one.\<close>

definition parse_line :: "string \<Rightarrow> u64 \<Rightarrow> bool \<Rightarrow> script_error + script_cmd option \<times> u64 \<times> bool" where
  "parse_line line last_frame have_prev =
    (let tk = split_ws (strip line)
     in if strip line = [] \<or> tk = [] then Inr (None, last_frame, have_prev)
        else if hd tk = ''wait''
        then (if length tk \<noteq> 3 \<or> tk ! 2 \<noteq> ''frames'' then Inl BadWait
              else case parse_u64 (tk ! 1) of Inl e \<Rightarrow> Inl BadWaitCount | Inr delta \<Rightarrow> Inr (None, last_frame + delta, True))
        else if hd tk \<noteq> ''frame'' then Inl UnknownCommand
        else if length tk < 3 then Inl NeedsVerb
        else case parse_u64 (tk ! 1) of
            Inl e \<Rightarrow> Inl BadFrame
          | Inr fr \<Rightarrow>
              if have_prev \<and> fr < last_frame then Inl FrameDecreases
              else case parse_verb fr tk of Inl e \<Rightarrow> Inl e | Inr c \<Rightarrow> Inr (Some c, fr, True))"

text \<open>The error names the line.\<close>

primrec parse_lines :: "string list \<Rightarrow> nat \<Rightarrow> u64 \<Rightarrow> bool \<Rightarrow> nat \<times> script_error + script_cmd list" where
  "parse_lines [] lineno last_frame have_prev = Inr []"
| "parse_lines (l # ls) lineno last_frame have_prev =
    (case parse_line l last_frame have_prev of
       Inl e \<Rightarrow> Inl (lineno + 1, e)
     | Inr (c, last1, prev1) \<Rightarrow>
         (case parse_lines ls (lineno + 1) last1 prev1 of
            Inl e \<Rightarrow> Inl e
          | Inr cs \<Rightarrow> Inr (case c of None \<Rightarrow> cs | Some x \<Rightarrow> x # cs)))"

definition parse_script :: "string option \<Rightarrow> nat \<times> script_error + script_cmd list" where
  "parse_script f = (case f of None \<Rightarrow> Inl (0, CannotOpenScript) | Some s \<Rightarrow> parse_lines (lines_of s) 0 0 False)"

section \<open>The pinned time\<close>

definition days_from_2000_local :: "int \<Rightarrow> int \<Rightarrow> int \<Rightarrow> int" where
  "days_from_2000_local yy mm dd =
    (let y = yy - 2000; day = y * 365 + (y + 3) sdiv 4; is_leap = (y AND 3 = 0)
     in day + (if is_leap then mtblu else mtbl) ! nat (mm - 1) + (dd - 1))"

text \<open>\<open>%d\<close> of \<open>sscanf\<close>: a value beyond \<open>long\<close> is cut to the nearest one, then to 32 bits.\<close>

definition as_int32 :: "bool \<Rightarrow> nat \<Rightarrow> int" where
  "as_int32 neg n =
    (let v = (if neg then max (- (2 ^ 63)) (- int n) else min (2 ^ 63 - 1) (int n)) in sint (word_of_int v :: u32))"

definition scan_int :: "string \<Rightarrow> (int \<times> string) option" where
  "scan_int s =
    (case strip_sign (dropWhile is_space s) of (neg, s1) \<Rightarrow>
       let ds = takeWhile (digit_in 10) s1
       in if ds = [] then None else Some (as_int32 neg (num_value 10 ds), dropWhile (digit_in 10) s1))"

text \<open>Numbers with the characters of the format between them.\<close>

primrec scan_fields :: "string \<Rightarrow> string \<Rightarrow> int list option" where
  "scan_fields [] s = (case scan_int s of None \<Rightarrow> None | Some (v, r) \<Rightarrow> Some [v])"
| "scan_fields (c # cs) s =
    (case scan_int s of
       None \<Rightarrow> None
     | Some (v, r) \<Rightarrow>
         (case r of
            [] \<Rightarrow> None
          | d # ds \<Rightarrow> if d = c then map_option (\<lambda>vs. v # vs) (scan_fields cs ds) else None))"

datatype time_error = BadTime | TimeRange

definition parse_iso8601_to_sec2000 :: "string \<Rightarrow> time_error + int" where
  "parse_iso8601_to_sec2000 s =
    (case scan_fields ''--T::'' s of
       None \<Rightarrow> Inl BadTime
     | Some vs \<Rightarrow>
         let y = vs ! 0; mo = vs ! 1; d = vs ! 2; h = vs ! 3; mi = vs ! 4; se = vs ! 5
         in if y < 2000 \<or> y > 2099 \<or> mo < 1 \<or> mo > 12 \<or> d < 1 \<or> d > 31 then Inl TimeRange
            else Inr (days_from_2000_local y mo d * 86400 + h * 3600 + mi * 60 + se))"

section \<open>The hash of a frame\<close>

definition FNV_PRIME :: u64 where "FNV_PRIME = 0x100000001B3"

definition fnv_byte :: "u8 \<Rightarrow> u64 \<Rightarrow> u64" where
  "fnv_byte b h = (h XOR ucast b) * FNV_PRIME"

definition fnv1a64 :: "u8 list \<Rightarrow> u64" where
  "fnv1a64 bs = fold fnv_byte bs 0xCBF29CE484222325"

section \<open>Lemmas\<close>

text \<open>The prime is odd, so multiplying by it loses nothing.\<close>

lemma fnv_prime_inverse: "FNV_PRIME * 0xCE965057AFF6957B = 1"
  by (simp add: FNV_PRIME_def)

lemma fnv_byte_inj: "fnv_byte b h = fnv_byte c g \<longleftrightarrow> h XOR ucast b = g XOR ucast c"
proof
  assume "fnv_byte b h = fnv_byte c g"
  then have "(h XOR ucast b) * (FNV_PRIME * 0xCE965057AFF6957B) = (g XOR ucast c) * (FNV_PRIME * 0xCE965057AFF6957B)"
    by (simp only: fnv_byte_def mult.assoc [symmetric])
  then show "h XOR ucast b = g XOR ucast c" by (simp only: fnv_prime_inverse mult_1_right)
qed (simp add: fnv_byte_def)

lemma xor_cancel: "h XOR x = g XOR x \<longleftrightarrow> h = (g :: u64)"
proof
  assume "h XOR x = g XOR x"
  then have "(h XOR x) XOR x = (g XOR x) XOR x" by (rule arg_cong)
  then show "h = g" by (simp only: xor.assoc xor_self_eq xor.right_neutral)
qed simp

lemma xor_cancel_left: "h XOR x = h XOR y \<longleftrightarrow> x = (y :: u64)"
  using xor_cancel [of x h y] by (simp only: xor.commute [of h])

lemma fnv_fold_inj: "fold fnv_byte bs h = fold fnv_byte bs g \<longleftrightarrow> h = g"
  by (induction bs arbitrary: h g) (simp_all add: fnv_byte_inj xor_cancel)

lemma u8_in_u64: "(ucast (x :: u8) :: u64) = ucast y \<longleftrightarrow> x = y"
proof
  have rt: "(ucast (ucast z :: u64) :: u8) = z" for z :: u8
    by (rule bit_word_eqI) (auto simp: bit_ucast_iff)
  assume "(ucast x :: u64) = ucast y"
  then have "(ucast (ucast x :: u64) :: u8) = ucast (ucast y :: u64)" by (rule arg_cong)
  then show "x = y" by (simp only: rt)
qed simp

text \<open>
  Two frames that differ in one pixel never have the same hash, so the first difference between two runs shows up in
  the printed lines.
\<close>
theorem headless_hash_distinguishes: "fnv1a64 (a @ x # b) = fnv1a64 (a @ y # b) \<longleftrightarrow> x = y"
  by (simp add: fnv1a64_def fnv_fold_inj fnv_byte_inj xor_cancel_left u8_in_u64)

lemma days_local_eq: "days_from_2000_local y m d = days_from_2000 y m d"
  by (simp add: days_from_2000_local_def days_from_2000_def Let_def)

text \<open>The clock the frontend pins shows the date and the time of the option.\<close>

lemma pinned_date:
  assumes "valid_date y m d" "0 \<le> h" "h < 24" "0 \<le> mi" "mi < 60" "0 \<le> se" "se < 60"
  shows "days_to_ymd ((days_from_2000_local y m d * 86400 + h * 3600 + mi * 60 + se) div 86400) = (y, m, d) \<and>
    (days_from_2000_local y m d * 86400 + h * 3600 + mi * 60 + se) mod 86400 = h * 3600 + mi * 60 + se"
proof -
  have "0 \<le> h * 3600 + mi * 60 + se" "h * 3600 + mi * 60 + se < 86400" using assms(2-) by linarith+
  then have "(days_from_2000_local y m d * 86400 + (h * 3600 + mi * 60 + se)) div 86400 = days_from_2000_local y m d"
    "(days_from_2000_local y m d * 86400 + (h * 3600 + mi * 60 + se)) mod 86400 = h * 3600 + mi * 60 + se"
    by (simp_all add: div_mult_self3 mod_mult_self3)
  then show ?thesis using days_there_and_back [OF assms(1)] by (simp add: days_local_eq add.assoc)
qed

section \<open>Accepted scripts\<close>

definition waits :: "string \<Rightarrow> bool" where
  "waits line \<longleftrightarrow> (case split_ws (strip line) of [] \<Rightarrow> False | t # ts \<Rightarrow> t = ''wait'')"

lemma parse_verb_frame: "parse_verb fr tk = Inr c \<Longrightarrow> cmd_frame c = fr"
  by (auto simp: parse_verb_def Let_def split: if_splits)

lemma parse_line_frame:
  assumes "parse_line l lf prev = Inr (c, last1, prev1)" "\<not> waits l"
  shows "(c = None \<and> last1 = lf \<and> prev1 = prev) \<or> (\<exists>x. c = Some x \<and> cmd_frame x = last1 \<and> prev1 \<and> (prev \<longrightarrow> lf \<le> last1))"
  using assms
  by (auto simp: parse_line_def waits_def Let_def parse_verb_frame not_less split: if_splits sum.splits list.splits)

lemma parse_lines_sorted:
  "parse_lines ls n lf prev = Inr cs \<Longrightarrow> list_all (\<lambda>l. \<not> waits l) ls \<Longrightarrow>
     sorted (map cmd_frame cs) \<and> (prev \<longrightarrow> (\<forall>c\<in>set cs. lf \<le> cmd_frame c))"
proof (induction ls arbitrary: n lf prev cs)
  case (Cons l ls)
  obtain c last1 prev1 ds where p: "parse_line l lf prev = Inr (c, last1, prev1)" "parse_lines ls (n + 1) last1 prev1 = Inr ds"
      "cs = (case c of None \<Rightarrow> ds | Some x \<Rightarrow> x # ds)"
    using Cons.prems(1) by (auto split: sum.splits)
  have ih: "sorted (map cmd_frame ds)" "prev1 \<longrightarrow> (\<forall>c\<in>set ds. last1 \<le> cmd_frame c)"
    using Cons.IH [OF p(2)] Cons.prems(2) by auto
  show ?case using parse_line_frame [OF p(1)] Cons.prems(2) ih p(3) by (auto dest: order_trans)
qed simp

end
