(* ===== verification/Headless.thy ===== *)
theory Headless
  imports Script Loader
begin

text \<open>
  The headless frontend, \<^verbatim>\<open>src/headless_system_main.cpp\<close>: it boots an image, runs the machine from one
  display transfer to the next, applies the commands of the script to each frame and prints a hash line. The
  signal and the wall clock are numbered looks at the host, as in Runner. Printed lines are records.
\<close>

section \<open>State\<close>

record headless_config =
  hc_sram_size :: nat
  hc_flash_size :: nat
  hc_sram_explicit :: bool
  hc_flash_explicit :: bool
  hc_max_frames :: u64
  hc_max_cycles :: u64
  hc_wall_timeout :: int
  hc_rtc_fixed :: string
  hc_hash_every :: u64
  hc_snapshot_dir :: string
  hc_gdb_port :: u16
  hc_gdb_debug :: bool
  hc_trace :: bool
  hc_wp_write :: "string list"
  hc_wp_read :: "string list"
  hc_wp_rw :: "string list"
  hc_break :: "string list"

definition headless_defaults :: headless_config where
  "headless_defaults = \<lparr> hc_sram_size = 0x040000, hc_flash_size = 0x080000, hc_sram_explicit = False, hc_flash_explicit = False,
     hc_max_frames = 7200, hc_max_cycles = 0, hc_wall_timeout = 60, hc_rtc_fixed = ''2026-01-01T00:00:00'',
     hc_hash_every = 1, hc_snapshot_dir = ''.'', hc_gdb_port = 0, hc_gdb_debug = False, hc_trace = False,
     hc_wp_write = [], hc_wp_read = [], hc_wp_rw = [], hc_break = [] \<rparr>"

text \<open>
  Whether a signal has come and whether the wall-clock limit has passed, at the \<open>k\<close>-th look; the local time; whether the
  encoder could write the \<open>k\<close>-th picture of a frame.
\<close>

record headless_host =
  signal_at :: "nat \<Rightarrow> bool"
  late_at :: "nat \<Rightarrow> bool"
  hh_tm :: "u64 \<Rightarrow> host_tm"
  png_written :: "u64 \<Rightarrow> nat \<Rightarrow> bool"

section \<open>Callbacks and ticks\<close>

definition hl_update_wake :: "soc machine \<Rightarrow> soc machine" where
  "hl_update_wake m =
    (case next_wake m of (w, m1) \<Rightarrow>
       on_front (\<lambda>f. f\<lparr>next_timer_wake :=
         (if w = UINT64_MAX then total_cycles f + EVENT_INTERVAL
          else clamp w (total_cycles f + MIN_TICK_BURST) (total_cycles f + EVENT_INTERVAL))\<rparr>) m1)"

definition hl_clock_change :: "u32 \<Rightarrow> soc machine \<Rightarrow> soc machine" where
  "hl_clock_change hz m = hl_update_wake (m\<lparr>bus := set_bus_clock_div (sint (hz div PIECE_BCLK_HZ)) (bus m)\<rparr>)"

definition hl_frame_done :: "soc machine \<Rightarrow> soc machine" where
  "hl_frame_done m = on_front (\<lambda>f. f\<lparr>frame_pixels := to_pixels (s_lcd (dev m)) (frame_pixels f), frame_ready := True\<rparr>) m"

definition hl_env :: "headless_host \<Rightarrow> soc machine \<Rightarrow> soc_env" where
  "hl_env h m = \<lparr> env_tm = hh_tm h (total m), env_now = total m, env_clock_change = hl_clock_change,
     env_frame_done = hl_frame_done, env_ch1_done = (\<lambda>m. m), env_push_hook = False \<rparr>"

definition hl_wiring :: "headless_host \<Rightarrow> nat \<Rightarrow> soc machine \<Rightarrow> soc wiring" where
  "hl_wiring h n m = soc_wiring (hl_env h m) n"

definition hl_do_tick :: "bool \<Rightarrow> headless_host \<Rightarrow> nat \<Rightarrow> soc machine \<Rightarrow> soc machine" where
  "hl_do_tick wall h n m =
    (let m1 = soc_tick (hl_env h m) (hl_wiring h n m) (total m) m;
         m2 = hl_update_wake (soc_poll (hl_wiring h n m) (soc_sync_il m1))
     in if \<not> wall then m2
        else if late_at h (host_reads (run_of m2))
             then on_front (\<lambda>f. f\<lparr>host_reads := host_reads f + 1, timed_out := True, quit := True\<rparr>) m2
             else looked m2)"

section \<open>From one frame to the next\<close>

text \<open>\<open>quit_flag.load()\<close>: a signal may have set it since the last look.\<close>

definition hl_quits :: "headless_host \<Rightarrow> soc machine \<Rightarrow> bool \<times> soc machine" where
  "hl_quits h m =
    (let m1 = on_front (\<lambda>f. f\<lparr>quit := quit f \<or> signal_at h (host_reads f), host_reads := host_reads f + 1\<rparr>) m
     in (quit (run_of m1), m1))"

definition hl_pending :: "headless_host \<Rightarrow> soc machine \<Rightarrow> bool \<times> soc machine" where
  "hl_pending h m =
    (if frame_ready (run_of m) \<or> fault (cpu m) then (False, m)
     else case hl_quits h m of (q, m1) \<Rightarrow> (\<not> q, m1))"

definition hl_bursting :: "u64 \<Rightarrow> soc machine \<Rightarrow> bool" where
  "hl_bursting stop m \<longleftrightarrow> \<not> in_halt (cpu m) \<and> \<not> fault (cpu m) \<and> \<not> frame_ready (run_of m) \<and> total m < stop"

definition hl_count_step :: "headless_host \<Rightarrow> nat \<Rightarrow> soc machine \<Rightarrow> soc machine" where
  "hl_count_step h n m =
    (case step (hl_wiring h n m) m of (k, m1) \<Rightarrow>
       on_front (\<lambda>f. f\<lparr>total_cycles := total_cycles f + word_of_int k\<rparr>) m1)"

primrec hl_fast_burst :: "nat \<Rightarrow> headless_host \<Rightarrow> nat \<Rightarrow> u64 \<Rightarrow> soc machine \<Rightarrow> soc machine option" where
  "hl_fast_burst 0 h n stop m = (if hl_bursting stop m then None else Some m)"
| "hl_fast_burst (Suc k) h n stop m =
    (if hl_bursting stop m then hl_fast_burst k h n stop (hl_count_step h n m) else Some m)"

primrec hl_slow_burst :: "nat \<Rightarrow> config \<Rightarrow> headless_host \<Rightarrow> nat \<Rightarrow> u64 \<Rightarrow> soc machine \<Rightarrow> soc machine option" where
  "hl_slow_burst 0 c h n stop m = (if hl_bursting stop m then None else Some m)"
| "hl_slow_burst (Suc k) c h n stop m =
    (if hl_bursting stop m
     then let m1 = (if cfg_trace c then disasm_fetch (pc (cpu m)) m else m);
              m2 = m1\<lparr>bus := (bus m1)\<lparr>debug_pc := pc (cpu m1)\<rparr>\<rparr>;
              m3 = hl_count_step h n m2
          in if cfg_max c \<noteq> 0 \<and> total m3 \<ge> cfg_max c then Some (on_front (\<lambda>f. f\<lparr>quit := True\<rparr>) m3)
             else hl_slow_burst k c h n stop m3
     else Some m)"

text \<open>A halted CPU; the flag says that the loop ends, after the message about a deadlock.\<close>

definition hl_halt :: "bool \<Rightarrow> headless_host \<Rightarrow> nat \<Rightarrow> soc machine \<Rightarrow> bool \<times> soc machine" where
  "hl_halt wall h n m =
    (case (if halt_mode (cpu m) = Slp then (soc_sleep_wake (dev m), m) else next_wake m) of (wake, m1) \<Rightarrow>
       if wake = UINT64_MAX then (True, on_front (\<lambda>f. f\<lparr>quit := True\<rparr>) m1)
       else (False, hl_do_tick wall h n (if wake > total m1 then on_front (\<lambda>f. f\<lparr>total_cycles := wake\<rparr>) m1 else m1)))"

definition hl_pass :: "nat \<Rightarrow> bool \<Rightarrow> config \<Rightarrow> bool \<Rightarrow> headless_host \<Rightarrow> nat \<Rightarrow> soc machine \<Rightarrow> (bool \<times> soc machine) option" where
  "hl_pass k fast c wall h n m =
    (if in_halt (cpu m) then Some (hl_halt wall h n m)
     else case (if fast then hl_fast_burst k h n (next_timer_wake (run_of m)) m
                else hl_slow_burst k c h n (next_timer_wake (run_of m)) m) of
            None \<Rightarrow> None
          | Some m1 \<Rightarrow>
              if fault (cpu m1) then Some (True, m1)
              else Some (False, if total m1 \<ge> next_timer_wake (run_of m1) then hl_do_tick wall h n m1 else m1))"

primrec step_until_frame :: "nat \<Rightarrow> nat \<Rightarrow> bool \<Rightarrow> config \<Rightarrow> bool \<Rightarrow> headless_host \<Rightarrow> nat \<Rightarrow> soc machine \<Rightarrow> soc machine option" where
  "step_until_frame 0 k fast c wall h n m = (case hl_pending h m of (go, m1) \<Rightarrow> if go then None else Some m1)"
| "step_until_frame (Suc p) k fast c wall h n m =
    (case hl_pending h m of (go, m1) \<Rightarrow>
       if go
       then (case hl_pass k fast c wall h n m1 of
               None \<Rightarrow> None
             | Some (brk, m2) \<Rightarrow> if brk then Some m2 else step_until_frame p k fast c wall h n m2)
       else Some m1)"

section \<open>The commands of a frame\<close>

record frame_line =
  fl_frame :: u64
  fl_cycles :: u64
  fl_hash :: u64
  fl_press :: "string list"
  fl_release :: "string list"
  fl_snapshot :: "string list"

record frame_acts =
  fa_buttons :: button_state
  fa_press :: "string list"
  fa_release :: "string list"
  fa_snapshot :: "string list"
  fa_hash :: bool
  fa_quit :: bool

text \<open>\<open>std::filesystem::path\<close>: a name that starts at the root replaces the directory.\<close>

definition path_join :: "string \<Rightarrow> string \<Rightarrow> string" where
  "path_join p q =
    (if q \<noteq> [] \<and> hd q = CHR ''/'' then q
     else if p \<noteq> [] \<and> List.last p \<noteq> CHR ''/'' then p @ ''/'' @ q else p @ q)"

definition write_png_to_path :: "bool \<Rightarrow> string \<Rightarrow> string" where
  "write_png_to_path ok path = (if ok then path else [])"

definition snapshot_name :: "headless_config \<Rightarrow> headless_host \<Rightarrow> u64 \<Rightarrow> nat \<Rightarrow> string \<Rightarrow> string" where
  "snapshot_name c h no k arg =
    (let saved = write_png_to_path (png_written h no k) (path_join (hc_snapshot_dir c) arg) in if saved = [] then arg else saved)"

definition apply_cmd :: "headless_config \<Rightarrow> headless_host \<Rightarrow> u64 \<Rightarrow> script_cmd \<Rightarrow> frame_acts \<Rightarrow> frame_acts" where
  "apply_cmd hc h no c a =
    (case cmd_kind c of
       Press \<Rightarrow> a\<lparr>fa_buttons := snd (apply_named_button (cmd_arg c) True (fa_buttons a)), fa_press := fa_press a @ [cmd_arg c]\<rparr>
     | Release \<Rightarrow> a\<lparr>fa_buttons := snd (apply_named_button (cmd_arg c) False (fa_buttons a)), fa_release := fa_release a @ [cmd_arg c]\<rparr>
     | Snapshot \<Rightarrow> a\<lparr>fa_snapshot := fa_snapshot a @ [snapshot_name hc h no (length (fa_snapshot a)) (cmd_arg c)]\<rparr>
     | HashLine \<Rightarrow> a\<lparr>fa_hash := True\<rparr>
     | QuitScript \<Rightarrow> a\<lparr>fa_quit := True\<rparr>)"

primrec apply_frame :: "headless_config \<Rightarrow> headless_host \<Rightarrow> script_cmd list \<Rightarrow> u64 \<Rightarrow> frame_acts \<Rightarrow> script_cmd list \<times> frame_acts" where
  "apply_frame hc h [] no a = ([], a)"
| "apply_frame hc h (c # cs) no a = (if cmd_frame c = no then apply_frame hc h cs no (apply_cmd hc h no c a) else (c # cs, a))"

definition frame_bytes :: "frame \<Rightarrow> u8 list" where
  "frame_bytes px = concat (map (\<lambda>y. map (\<lambda>x. px y x) [0..<128]) [0..<88])"

record headless =
  hl_rest :: "script_cmd list"
  hl_frame_no :: u64
  hl_buttons :: button_state
  hl_quit :: bool
  hl_lines :: "frame_line list"

definition emits :: "headless_config \<Rightarrow> u64 \<Rightarrow> frame_acts \<Rightarrow> bool" where
  "emits c no a \<longleftrightarrow> fa_hash a \<or> hc_hash_every c \<le> 1 \<or> no mod hc_hash_every c = 0 \<or> fa_quit a"

text \<open>After a transfer: the commands, the keys, the line.\<close>

definition hl_frame :: "headless_config \<Rightarrow> headless_host \<Rightarrow> nat \<Rightarrow> headless \<times> soc machine \<Rightarrow> headless \<times> soc machine" where
  "hl_frame c h n sm =
    (case sm of (s, m) \<Rightarrow>
       (case apply_frame c h (hl_rest s) (hl_frame_no s)
               \<lparr> fa_buttons = hl_buttons s, fa_press = [], fa_release = [], fa_snapshot = [], fa_hash = False, fa_quit = False \<rparr> of
          (rest, a) \<Rightarrow>
            let m1 = soc_set_keys (hl_wiring h n m) (k5 (fa_buttons a)) (k6 (fa_buttons a)) m;
                line = \<lparr> fl_frame = hl_frame_no s, fl_cycles = total m1, fl_hash = fnv1a64 (frame_bytes (frame_pixels (run_of m1))),
                         fl_press = fa_press a, fl_release = fa_release a, fl_snapshot = fa_snapshot a \<rparr>
            in (s\<lparr>hl_rest := rest, hl_frame_no := hl_frame_no s + 1, hl_buttons := fa_buttons a, hl_quit := fa_quit a,
                  hl_lines := hl_lines s @ (if emits c (hl_frame_no s) a then [line] else [])\<rparr>, m1)))"

primrec hl_frames :: "nat \<Rightarrow> nat \<Rightarrow> nat \<Rightarrow> bool \<Rightarrow> config \<Rightarrow> headless_config \<Rightarrow> headless_host \<Rightarrow> nat \<Rightarrow> headless \<times> soc machine \<Rightarrow>
    (headless \<times> soc machine) option" where
  "hl_frames 0 p k fast rc c h n sm = None"
| "hl_frames (Suc r) p k fast rc c h n sm =
    (case hl_quits h (snd sm) of (q, m) \<Rightarrow>
       if q \<or> fault (cpu m) \<or> hl_quit (fst sm) \<or> hl_frame_no (fst sm) \<ge> hc_max_frames c then Some (fst sm, m)
       else case step_until_frame p k fast rc (hc_wall_timeout c > 0) h n (on_front (\<lambda>f. f\<lparr>frame_ready := False\<rparr>) m) of
              None \<Rightarrow> None
            | Some m1 \<Rightarrow>
                if \<not> frame_ready (run_of m1) then Some (fst sm, m1)
                else hl_frames r p k fast rc c h n (hl_frame c h n (fst sm, m1)))"

section \<open>The program\<close>

definition add_points :: "wp_type \<Rightarrow> string list \<Rightarrow> bus_state \<Rightarrow> rsp_error + bus_state" where
  "add_points t specs b =
    fold (\<lambda>s r. case r of Inl e \<Rightarrow> Inl e
                | Inr b1 \<Rightarrow> (case parse_addr_size s of Inl e \<Rightarrow> Inl e | Inr (a, sz) \<Rightarrow> Inr (add_watchpoint a sz t b1)))
      specs (Inr b)"

definition parse_breaks :: "string list \<Rightarrow> rsp_error + u32 set" where
  "parse_breaks specs =
    fold (\<lambda>s r. case r of Inl e \<Rightarrow> Inl e
                | Inr bs \<Rightarrow> (case stoull0 s of Inl e \<Rightarrow> Inl e | Inr a \<Rightarrow> Inr (insert (ucast a) bs)))
      specs (Inr {})"

definition boot_sizes :: "headless_config \<Rightarrow> sysinfo \<Rightarrow> nat \<times> nat" where
  "boot_sizes c si =
    (if \<not> hc_sram_explicit c \<and> sram_end si > sram_top si then unat (sram_end si - sram_top si) else hc_sram_size c,
     if \<not> hc_flash_explicit c \<and> pffs_end si > FLASH_BASE then unat (pffs_end si - FLASH_BASE) else hc_flash_size c)"

text \<open>Everything up to the frame loop; \<open>None\<close> is any exception.\<close>

definition hl_boot :: "headless_config \<Rightarrow> headless_host \<Rightarrow> nat \<Rightarrow> int \<Rightarrow> u8 list option \<Rightarrow> (config \<times> soc machine) option" where
  "hl_boot c h n epoch pfi =
    (case pfi_read_sysinfo pfi of
       Inl e \<Rightarrow> None
     | Inr si \<Rightarrow>
         (case boot_sizes c si of (ram, fsz) \<Rightarrow>
            (case add_points WpWrite (hc_wp_write c) (bus_create ram fsz) of Inl e \<Rightarrow> None | Inr b1 \<Rightarrow>
            (case add_points WpRead (hc_wp_read c) b1 of Inl e \<Rightarrow> None | Inr b2 \<Rightarrow>
            (case add_points WpRW (hc_wp_rw c) b2 of Inl e \<Rightarrow> None | Inr b3 \<Rightarrow>
            (case parse_breaks (hc_break c) of Inl e \<Rightarrow> None | Inr brk \<Rightarrow>
            (case sst_for_min_bytes fsz of Inl e \<Rightarrow> None | Inr f \<Rightarrow>
            (case pfi_load pfi (install_flash_device (Sst39vf f) b3) of (Inl e, b4) \<Rightarrow> None | (Inr info, b4) \<Rightarrow>
               let m0 = \<lparr> cpu = cpu_init, bus = b4, dev = soc_init\<lparr>s_rtc := set_fixed_epoch epoch (s_rtc soc_init)\<rparr>,
                          diag_log = [], breakpoints = {}, strict = False \<rparr>
               in case read32 (hl_wiring h n m0) FLASH_BASE m0 of (entry, m1) \<Rightarrow>
                    let m2 = on_cpu (\<lambda>c. c\<lparr>pc := entry\<rparr>) m1;
                        m3 = hl_update_wake (soc_set_keys (hl_wiring h n m2) 0xFF 0xFF
                               (on_front (\<lambda>f. f\<lparr>next_timer_wake := total_cycles f + EVENT_INTERVAL\<rparr>) m2))
                    in Some (\<lparr> cfg_trace = hc_trace c, cfg_breaks = brk, cfg_max = hc_max_cycles c \<rparr>, m3)))))))))"

definition headless_start :: "script_cmd list \<Rightarrow> headless" where
  "headless_start cs = \<lparr> hl_rest = cs, hl_frame_no = 0, hl_buttons = buttons_up, hl_quit = False, hl_lines = [] \<rparr>"

text \<open>The exit status and the lines printed.\<close>

definition hl_exit :: "soc machine \<Rightarrow> int" where
  "hl_exit m = (if fault (cpu m) then 1 else if timed_out (run_of m) then 3 else 0)"

definition headless_main :: "nat \<Rightarrow> nat \<Rightarrow> nat \<Rightarrow> headless_config \<Rightarrow> headless_host \<Rightarrow> nat \<Rightarrow> string option \<Rightarrow> u8 list option \<Rightarrow>
    (int \<times> frame_line list) option" where
  "headless_main r p k c h n script pfi =
    (if hc_gdb_port c > 0 \<or> hc_gdb_debug c then Some (2, [])
     else case parse_script script of Inl e \<Rightarrow> Some (1, []) | Inr cs \<Rightarrow>
       (case parse_iso8601_to_sec2000 (hc_rtc_fixed c) of Inl e \<Rightarrow> Some (1, []) | Inr epoch \<Rightarrow>
         (case hl_boot c h n epoch pfi of None \<Rightarrow> Some (1, []) | Some (rc, m) \<Rightarrow>
           map_option (\<lambda>(s, m1). (hl_exit m1, hl_lines s))
             (hl_frames r p k (fast_path rc m) rc c h n (headless_start cs, m)))))"

section \<open>The machine stays one the system can reach\<close>

lemma hl_front_reach: "soc_reach m \<Longrightarrow> soc_reach (on_front f m)"
  by (rule on_front_reach)

lemma hl_update_wake_reach: "soc_reach m \<Longrightarrow> soc_reach (hl_update_wake m)"
  unfolding hl_update_wake_def case_prod_beta by (intro on_front_reach next_wake_reach)

lemma next_wake_keeps: "soc_wf (dev m) \<Longrightarrow> soc_wf (dev (snd (next_wake m)))"
  using wf_plain(4) [of "dev m"] by (simp add: next_wake_def case_prod_beta)

lemma hl_env_keeps: "env_keeps soc_wf (hl_env h m)"
  by (auto simp: env_keeps_def hl_env_def hl_clock_change_def hl_update_wake_def hl_frame_done_def on_front_def on_dev_def case_prod_beta
      intro: next_wake_keeps dest: next_wake_keeps)

lemmas hl_machine_reach = soc_reach.insn [OF _ hl_env_keeps, folded hl_wiring_def]
  soc_reach.tick [OF _ hl_env_keeps, folded hl_wiring_def] soc_reach.poll [OF _ hl_env_keeps, folded hl_wiring_def]
  soc_reach.keys [OF _ hl_env_keeps, folded hl_wiring_def]

lemma hl_do_tick_reach: "soc_reach m \<Longrightarrow> soc_reach (hl_do_tick wall h n m)"
  unfolding hl_do_tick_def Let_def
  by (simp add: on_front_reach looked_reach hl_update_wake_reach hl_machine_reach soc_reach.level)

lemma hl_quits_reach: "soc_reach m \<Longrightarrow> soc_reach (snd (hl_quits h m))"
  by (simp add: hl_quits_def Let_def on_front_reach)

lemma hl_pending_reach: "soc_reach m \<Longrightarrow> soc_reach (snd (hl_pending h m))"
  using hl_quits_reach [of m h] by (simp add: hl_pending_def case_prod_beta)

lemma hl_count_step_reach: "soc_reach m \<Longrightarrow> soc_reach (hl_count_step h n m)"
  unfolding hl_count_step_def case_prod_beta by (intro on_front_reach hl_machine_reach)

lemma hl_bursts_reach:
  "soc_reach m \<Longrightarrow> hl_fast_burst k h n stop m = Some m' \<Longrightarrow> soc_reach m'"
  "soc_reach m \<Longrightarrow> hl_slow_burst k c h n stop m = Some m' \<Longrightarrow> soc_reach m'"
proof -
  show "soc_reach m \<Longrightarrow> hl_fast_burst k h n stop m = Some m' \<Longrightarrow> soc_reach m'"
  proof (induction k arbitrary: m)
    case (Suc k)
    then show ?case using Suc.IH [OF hl_count_step_reach [OF Suc.prems(1)]] by (auto split: if_splits)
  qed (auto split: if_splits)
  show "soc_reach m \<Longrightarrow> hl_slow_burst k c h n stop m = Some m' \<Longrightarrow> soc_reach m'"
  proof (induction k arbitrary: m)
    case (Suc k)
    let ?ma = "(if cfg_trace c then disasm_fetch (pc (cpu m)) m else m)"
    let ?mc = "hl_count_step h n (?ma\<lparr>bus := (bus ?ma)\<lparr>debug_pc := pc (cpu ?ma)\<rparr>\<rparr>)"
    have "soc_reach (?ma\<lparr>bus := (bus ?ma)\<lparr>debug_pc := pc (cpu ?ma)\<rparr>\<rparr>)"
      by (rule cpu_bus_reach [OF Suc.prems(1)]) simp
    then have r: "soc_reach ?mc" by (rule hl_count_step_reach)
    then have "soc_reach (on_front (\<lambda>f. f\<lparr>quit := True\<rparr>) ?mc)" by (rule on_front_reach)
    then show ?case using Suc r by (auto simp: Let_def split: if_splits)
  qed (auto split: if_splits)
qed

lemma hl_halt_reach: "soc_reach m \<Longrightarrow> soc_reach (snd (hl_halt wall h n m))"
  using next_wake_reach [of m]
  by (auto simp: hl_halt_def case_prod_beta on_front_reach intro!: hl_do_tick_reach)

lemma hl_pass_reach: "soc_reach m \<Longrightarrow> hl_pass k fast c wall h n m = Some (b, m') \<Longrightarrow> soc_reach m'"
  using hl_halt_reach [of m wall h n]
  by (auto simp: hl_pass_def hl_do_tick_reach dest: hl_bursts_reach split: if_splits option.splits)

lemma step_until_frame_reach: "soc_reach m \<Longrightarrow> step_until_frame p k fast c wall h n m = Some m' \<Longrightarrow> soc_reach m'"
proof (induction p arbitrary: m)
  case 0
  then show ?case using hl_pending_reach [of m h] by (auto split: if_splits prod.splits)
next
  case (Suc p)
  then show ?case using hl_pending_reach [of m h]
    by (auto dest: hl_pass_reach split: if_splits prod.splits option.splits)
qed

lemma hl_frame_reach: "soc_reach (snd sm) \<Longrightarrow> soc_reach (snd (hl_frame c h n sm))"
  by (auto simp: hl_frame_def case_prod_beta Let_def hl_machine_reach)

lemma hl_frames_reach: "soc_reach (snd sm) \<Longrightarrow> hl_frames r p k fast rc c h n sm = Some sm' \<Longrightarrow> soc_reach (snd sm')"
proof (induction r arbitrary: sm)
  case (Suc r)
  let ?m = "snd (hl_quits h (snd sm))"
  let ?mf = "on_front (\<lambda>f. f\<lparr>frame_ready := False\<rparr>) ?m"
  have r: "soc_reach ?m" "soc_reach ?mf" using Suc.prems(1) by (simp_all add: hl_quits_reach on_front_reach)
  show ?case
  proof (cases "fst (hl_quits h (snd sm)) \<or> fault (cpu ?m) \<or> hl_quit (fst sm) \<or> hl_frame_no (fst sm) \<ge> hc_max_frames c")
    case True
    then have "snd sm' = ?m" using Suc.prems(2) by (auto simp: case_prod_beta)
    then show ?thesis using r(1) by simp
  next
    case False
    then obtain m1 where m1: "step_until_frame p k fast rc (hc_wall_timeout c > 0) h n ?mf = Some m1"
      "(if \<not> frame_ready (run_of m1) then Some (fst sm, m1) else hl_frames r p k fast rc c h n (hl_frame c h n (fst sm, m1))) = Some sm'"
      using Suc.prems(2) by (auto simp: case_prod_beta split: option.splits)
    have "soc_reach m1" using step_until_frame_reach [OF r(2) m1(1)] .
    then show ?thesis using m1(2) Suc.IH [of "hl_frame c h n (fst sm, m1)"] hl_frame_reach [of "(fst sm, m1)" c h n]
      by (auto split: if_splits)
  qed
qed simp

text \<open>Reading the reset vector touches no device, so the machine that was booted is one of them.\<close>

lemma reset_vector_dev: "dev (snd (read32 w FLASH_BASE m)) = dev m"
  by (auto simp: read32_def Let_def a28_def classify_def)

lemma hl_boot_reach: "hl_boot c h n epoch pfi = Some (rc, m) \<Longrightarrow> soc_reach m"
proof -
  assume "hl_boot c h n epoch pfi = Some (rc, m)"
  then obtain b where m: "m = (let m0 = \<lparr> cpu = cpu_init, bus = b, dev = soc_init\<lparr>s_rtc := set_fixed_epoch epoch (s_rtc soc_init)\<rparr>,
        diag_log = [], breakpoints = {}, strict = False \<rparr>; r = read32 (hl_wiring h n m0) FLASH_BASE m0; m2 = on_cpu (\<lambda>c. c\<lparr>pc := fst r\<rparr>) (snd r)
      in hl_update_wake (soc_set_keys (hl_wiring h n m2) 0xFF 0xFF (on_front (\<lambda>f. f\<lparr>next_timer_wake := total_cycles f + EVENT_INTERVAL\<rparr>) m2)))"
    by (auto simp: hl_boot_def Let_def case_prod_beta split: sum.splits prod.splits)
  define m0 where "m0 = \<lparr> cpu = cpu_init, bus = b, dev = soc_init\<lparr>s_rtc := set_fixed_epoch epoch (s_rtc soc_init)\<rparr>,
        diag_log = [], breakpoints = {}, strict = False \<rparr>"
  define r where "r = read32 (hl_wiring h n m0) FLASH_BASE m0"
  define m2 where "m2 = on_cpu (\<lambda>c. c\<lparr>pc := fst r\<rparr>) (snd r)"
  have "soc_reach (m0\<lparr>dev := soc_init\<rparr>)" by (rule soc_reach.power_on) simp
  from soc_reach.pin [OF this, of epoch] have "soc_reach m0" by (rule cpu_bus_reach) (simp add: m0_def on_dev_def)
  then have "soc_reach m2" by (rule cpu_bus_reach) (simp add: m2_def r_def reset_vector_dev)
  moreover have "m = hl_update_wake (soc_set_keys (hl_wiring h n m2) 0xFF 0xFF (on_front (\<lambda>f. f\<lparr>next_timer_wake := total_cycles f + EVENT_INTERVAL\<rparr>) m2))"
    by (simp only: m Let_def m0_def r_def m2_def)
  moreover have "soc_set_keys (hl_wiring h n m2) a b' (on_front f m2) = soc_set_keys (soc_wiring (hl_env h m2) n) a b' (on_front f m2)" for a b' f
    by (simp add: hl_wiring_def)
  ultimately show ?thesis
    by (simp add: hl_update_wake_reach soc_reach.keys [OF _ hl_env_keeps] on_front_reach)
qed

lemma headless_reach:
  "hl_boot c h n epoch pfi = Some (rc, m) \<Longrightarrow> hl_frames r p k fast rc c h n (headless_start cs, m) = Some (s, m') \<Longrightarrow> soc_wf (dev m')"
  using hl_frames_reach [of "(headless_start cs, m)"] hl_boot_reach soc_reach_wf by fastforce

text \<open>The deadline the frontend keeps is the runner's.\<close>

lemma hl_update_wake_runner: "hl_update_wake = update_timer_wake"
  by (simp add: fun_eq_iff hl_update_wake_def update_timer_wake_def wake_deadline_def cong: if_cong)

section \<open>Which commands a frame gets\<close>

lemma apply_frame_while:
  "apply_frame hc h cs no a = (dropWhile (\<lambda>c. cmd_frame c = no) cs, fold (apply_cmd hc h no) (takeWhile (\<lambda>c. cmd_frame c = no) cs) a)"
  by (induction cs arbitrary: a) simp_all

lemma sorted_from:
  "sorted (map cmd_frame cs) \<Longrightarrow> \<forall>c\<in>set cs. no \<le> cmd_frame c \<Longrightarrow>
     takeWhile (\<lambda>c. cmd_frame c = no) cs = filter (\<lambda>c. cmd_frame c = no) cs \<and>
     dropWhile (\<lambda>c. cmd_frame c = no) cs = filter (\<lambda>c. no < cmd_frame c) cs"
proof (induction cs)
  case (Cons c cs)
  show ?case
  proof (cases "cmd_frame c = no")
    case False
    then have "\<forall>x\<in>set (c # cs). no < cmd_frame x" using Cons.prems by (auto intro: order.strict_trans2)
    then have "filter (\<lambda>c. cmd_frame c = no) (c # cs) = []" "filter (\<lambda>c. no < cmd_frame c) (c # cs) = c # cs"
      by (auto simp: filter_empty_conv filter_id_conv)
    then show ?thesis using False by simp
  qed (use Cons in auto)
qed simp

definition named :: "cmd_kind \<Rightarrow> script_cmd list \<Rightarrow> string list" where
  "named k cs = map cmd_arg (filter (\<lambda>c. cmd_kind c = k) cs)"

definition button_cmd :: "script_cmd \<Rightarrow> button_state \<Rightarrow> button_state" where
  "button_cmd c b =
    (case cmd_kind c of Press \<Rightarrow> snd (apply_named_button (cmd_arg c) True b) | Release \<Rightarrow> snd (apply_named_button (cmd_arg c) False b) | _ \<Rightarrow> b)"

definition snapshot_names :: "headless_config \<Rightarrow> headless_host \<Rightarrow> u64 \<Rightarrow> nat \<Rightarrow> string list \<Rightarrow> string list" where
  "snapshot_names hc h no k args = map (\<lambda>(i, arg). snapshot_name hc h no i arg) (enumerate k args)"

definition among :: "cmd_kind \<Rightarrow> script_cmd list \<Rightarrow> bool" where
  "among k cs \<longleftrightarrow> k \<in> cmd_kind ` set cs"

lemma fold_cmds:
  "fa_press (fold (apply_cmd hc h no) cs a) = fa_press a @ named Press cs"
  "fa_release (fold (apply_cmd hc h no) cs a) = fa_release a @ named Release cs"
  "fa_snapshot (fold (apply_cmd hc h no) cs a) = fa_snapshot a @ snapshot_names hc h no (length (fa_snapshot a)) (named Snapshot cs)"
  "fa_buttons (fold (apply_cmd hc h no) cs a) = fold button_cmd cs (fa_buttons a)"
  "fa_hash (fold (apply_cmd hc h no) cs a) = (fa_hash a \<or> among HashLine cs)"
  "fa_quit (fold (apply_cmd hc h no) cs a) = (fa_quit a \<or> among QuitScript cs)"
  by (induction cs arbitrary: a) (auto simp: apply_cmd_def named_def button_cmd_def among_def snapshot_names_def split: cmd_kind.split)

definition at_frame :: "u64 \<Rightarrow> script_cmd list \<Rightarrow> script_cmd list" where
  "at_frame no cs = filter (\<lambda>c. cmd_frame c = no) cs"

definition played :: "script_cmd list \<Rightarrow> headless \<Rightarrow> bool" where
  "played cs s \<longleftrightarrow>
     hl_rest s = filter (\<lambda>c. hl_frame_no s \<le> cmd_frame c) cs \<and>
     hl_buttons s = fold button_cmd (filter (\<lambda>c. cmd_frame c < hl_frame_no s) cs) buttons_up"

text \<open>The line of frame \<open>no\<close> when the script is \<open>cs\<close> and the transfer has left the machine \<open>m\<close>.\<close>

definition frame_shown :: "headless_config \<Rightarrow> headless_host \<Rightarrow> nat \<Rightarrow> script_cmd list \<Rightarrow> u64 \<Rightarrow> soc machine \<Rightarrow> frame_line list" where
  "frame_shown c h n cs no m =
    (let now = at_frame no cs; b = fold button_cmd (filter (\<lambda>x. cmd_frame x \<le> no) cs) buttons_up;
         m1 = soc_set_keys (hl_wiring h n m) (k5 b) (k6 b) m
     in if among HashLine now \<or> hc_hash_every c \<le> 1 \<or> no mod hc_hash_every c = 0 \<or> among QuitScript now
        then [\<lparr> fl_frame = no, fl_cycles = total m1, fl_hash = fnv1a64 (frame_bytes (frame_pixels (run_of m1))),
                fl_press = named Press now, fl_release = named Release now,
                fl_snapshot = snapshot_names c h no 0 (named Snapshot now) \<rparr>]
        else [])"

lemma less_next: "no \<noteq> - 1 \<Longrightarrow> x < no + 1 \<longleftrightarrow> x \<le> (no :: u64)" "no \<noteq> - 1 \<Longrightarrow> no + 1 \<le> x \<longleftrightarrow> no < (x :: u64)"
proof -
  assume "no \<noteq> - 1"
  then have "1 + no \<noteq> 0" by (metis add.inverse_inverse add_eq_0_iff)
  then have "unat (no + 1) = Suc (unat no)" by (metis unatSuc add.commute)
  then show "x < no + 1 \<longleftrightarrow> x \<le> no" "no + 1 \<le> x \<longleftrightarrow> no < x" by (auto simp: word_less_nat_alt word_le_nat_alt)
qed

lemma sorted_split:
  "sorted (map cmd_frame cs) \<Longrightarrow>
     filter (\<lambda>c. cmd_frame c \<le> no) cs = filter (\<lambda>c. cmd_frame c < no) cs @ filter (\<lambda>c. cmd_frame c = no) cs"
proof (induction cs)
  case (Cons c cs)
  show ?case
  proof (cases "cmd_frame c < no")
    case False
    then have "\<forall>x\<in>set (c # cs). no \<le> cmd_frame x" using Cons.prems by auto
    then have "filter (\<lambda>c. cmd_frame c < no) (c # cs) = []" "\<forall>x\<in>set (c # cs). cmd_frame x \<le> no \<longleftrightarrow> cmd_frame x = no"
      by (auto simp: filter_empty_conv)
    then show ?thesis by (simp only: append_Nil) (rule filter_cong, auto)
  qed (use Cons in auto)
qed simp

lemma played_start: "played cs (headless_start cs)"
proof -
  have "\<not> x < (0 :: u64)" for x by simp
  then show ?thesis by (simp add: played_def headless_start_def)
qed

lemma played_frame:
  assumes "sorted (map cmd_frame cs)" "played cs s" "hl_frame_no s \<noteq> - 1"
  shows "played cs (fst (hl_frame c h n (s, m)))"
    "hl_frame_no (fst (hl_frame c h n (s, m))) = hl_frame_no s + 1"
    "hl_quit (fst (hl_frame c h n (s, m))) = among QuitScript (at_frame (hl_frame_no s) cs)"
    "hl_lines (fst (hl_frame c h n (s, m))) = hl_lines s @ frame_shown c h n cs (hl_frame_no s) m"
proof -
  let ?no = "hl_frame_no s"
  let ?a = "\<lparr> fa_buttons = hl_buttons s, fa_press = [], fa_release = [], fa_snapshot = [], fa_hash = False, fa_quit = False \<rparr>"
  have rest: "hl_rest s = filter (\<lambda>c. ?no \<le> cmd_frame c) cs" using assms(2) by (simp add: played_def)
  have sr: "sorted (map cmd_frame (hl_rest s))" using assms(1) unfolding rest by (rule sorted_filter)
  have ge: "\<forall>c\<in>set (hl_rest s). ?no \<le> cmd_frame c" unfolding rest by simp
  have af: "apply_frame c h (hl_rest s) ?no ?a = (filter (\<lambda>c. ?no < cmd_frame c) cs, fold (apply_cmd c h ?no) (at_frame ?no cs) ?a)"
    unfolding apply_frame_while sorted_from [OF sr ge, THEN conjunct1] sorted_from [OF sr ge, THEN conjunct2]
    unfolding rest at_frame_def by (auto intro!: filter_cong arg_cong [where f = "\<lambda>x. fold (apply_cmd c h ?no) x ?a"])
  have b: "fold button_cmd (filter (\<lambda>c. cmd_frame c \<le> ?no) cs) buttons_up = fold button_cmd (at_frame ?no cs) (hl_buttons s)"
    using assms(2) by (simp add: sorted_split [OF assms(1)] played_def at_frame_def)
  show "played cs (fst (hl_frame c h n (s, m)))"
    by (auto simp: hl_frame_def af Let_def played_def fold_cmds b less_next [OF assms(3)])
  show "hl_frame_no (fst (hl_frame c h n (s, m))) = ?no + 1"
    "hl_quit (fst (hl_frame c h n (s, m))) = among QuitScript (at_frame ?no cs)"
    by (simp_all add: hl_frame_def af Let_def fold_cmds)
  show "hl_lines (fst (hl_frame c h n (s, m))) = hl_lines s @ frame_shown c h n cs ?no m"
    by (simp add: hl_frame_def af Let_def fold_cmds frame_shown_def b emits_def disj_ac)
qed

text \<open>The script state after display transfers that left the machines \<open>ms\<close>, one a frame.\<close>

definition play :: "headless_config \<Rightarrow> headless_host \<Rightarrow> nat \<Rightarrow> soc machine list \<Rightarrow> headless \<Rightarrow> headless" where
  "play c h n ms s = fold (\<lambda>m s. fst (hl_frame c h n (s, m))) ms s"

lemma u64_of_nat_next: "Suc k < 2 ^ 64 \<Longrightarrow> (word_of_nat k :: u64) \<noteq> - 1"
proof
  assume k: "Suc k < 2 ^ 64" and e: "(word_of_nat k :: u64) = - 1"
  have "unat (word_of_nat k :: u64) = 0xFFFFFFFFFFFFFFFF"
    unfolding e by (simp add: unsigned_minus_1_eq_mask mask_eq_exp_minus_1)
  then show False using k by (simp add: unat_of_nat)
qed

lemma play_frames:
  assumes "sorted (map cmd_frame cs)"
  shows "length ms < 2 ^ 64 \<Longrightarrow> played cs (play c h n ms (headless_start cs)) \<and>
     hl_frame_no (play c h n ms (headless_start cs)) = word_of_nat (length ms) \<and>
     hl_lines (play c h n ms (headless_start cs)) = concat (map (\<lambda>k. frame_shown c h n cs (word_of_nat k) (ms ! k)) [0..<length ms])"
proof (induction ms rule: rev_induct)
  case Nil then show ?case using played_start [of cs] by (simp add: play_def headless_start_def)
next
  case (snoc m ms)
  let ?s = "play c h n ms (headless_start cs)"
  have s: "played cs ?s" "hl_frame_no ?s = word_of_nat (length ms)"
    "hl_lines ?s = concat (map (\<lambda>k. frame_shown c h n cs (word_of_nat k) (ms ! k)) [0..<length ms])"
    using snoc by simp_all
  have no: "hl_frame_no ?s \<noteq> - 1" using s(2) u64_of_nat_next [of "length ms"] snoc.prems by simp
  have p: "play c h n (ms @ [m]) (headless_start cs) = fst (hl_frame c h n (?s, m))" by (simp add: play_def)
  have e: "map (\<lambda>k. frame_shown c h n cs (word_of_nat k) ((ms @ [m]) ! k)) [0..<length ms] =
      map (\<lambda>k. frame_shown c h n cs (word_of_nat k) (ms ! k)) [0..<length ms]"
    by (rule map_cong) (simp_all add: nth_append)
  have "concat (map (\<lambda>k. frame_shown c h n cs (word_of_nat k) ((ms @ [m]) ! k)) [0..<length (ms @ [m])]) =
      hl_lines ?s @ frame_shown c h n cs (hl_frame_no ?s) m"
    by (simp add: e s(2,3) del: map_eq_conv)
  then show ?case unfolding p using played_frame [OF assms s(1) no, of c h n m] s(2) by (simp add: add.commute)
qed

text \<open>The frame loop plays such a sequence, whatever it stops for, of at most as many frames as it is given.\<close>

lemma hl_frames_play:
  "hl_frames r p k fast rc c h n sm = Some (s, m') \<Longrightarrow>
     \<exists>ms. s = play c h n ms (fst sm) \<and> (ms = [] \<or> unat (hl_frame_no (fst sm)) + length ms \<le> unat (hc_max_frames c))"
proof (induction r arbitrary: sm)
  case (Suc r)
  let ?m = "snd (hl_quits h (snd sm))"
  let ?mf = "on_front (\<lambda>f. f\<lparr>frame_ready := False\<rparr>) ?m"
  show ?case
  proof (cases "fst (hl_quits h (snd sm)) \<or> fault (cpu ?m) \<or> hl_quit (fst sm) \<or> hl_frame_no (fst sm) \<ge> hc_max_frames c")
    case True
    then have "s = play c h n [] (fst sm)" using Suc.prems by (auto simp: case_prod_beta play_def)
    then show ?thesis by blast
  next
    case False
    then obtain m1 where m1:
      "(if \<not> frame_ready (run_of m1) then Some (fst sm, m1) else hl_frames r p k fast rc c h n (hl_frame c h n (fst sm, m1))) = Some (s, m')"
      using Suc.prems(1) by (auto simp: case_prod_beta split: option.splits)
    show ?thesis
    proof (cases "frame_ready (run_of m1)")
      case f: False
      then have "s = play c h n [] (fst sm)" using m1 by (simp add: play_def)
      then show ?thesis by blast
    next
      case True
      then have "hl_frames r p k fast rc c h n (hl_frame c h n (fst sm, m1)) = Some (s, m')" using m1 by simp
      then obtain ms where ms: "s = play c h n ms (fst (hl_frame c h n (fst sm, m1)))"
        "ms = [] \<or> unat (hl_frame_no (fst (hl_frame c h n (fst sm, m1)))) + length ms \<le> unat (hc_max_frames c)"
        using Suc.IH by blast
      have lt: "unat (hl_frame_no (fst sm)) < unat (hc_max_frames c)" using False by (simp add: word_less_nat_alt not_le)
      have "hl_frame_no (fst (hl_frame c h n (fst sm, m1))) = hl_frame_no (fst sm) + 1"
        by (simp add: hl_frame_def case_prod_beta Let_def)
      moreover have "unat (hl_frame_no (fst sm) + 1) = unat (hl_frame_no (fst sm)) + 1"
        using lt u64_less [of "hc_max_frames c"] by (simp add: u64_add)
      ultimately have "s = play c h n (m1 # ms) (fst sm) \<and> unat (hl_frame_no (fst sm)) + length (m1 # ms) \<le> unat (hc_max_frames c)"
        using ms lt by (auto simp: play_def)
      then show ?thesis by blast
    qed
  qed
qed simp

text \<open>
  C20: the script is played as written. When its frames do not decrease, the display transfers up to any point (fewer than \<open>2 ^ 64\<close>), whatever machines
  they leave, give every frame exactly the commands of its number, in their order. The lines printed are those of the frames that ask for
  one, by a command, by the period or by being the last, and line \<open>k\<close> shows frame number, cycles and hash, the presses and releases of
  frame \<open>k\<close> and for each of its snapshots the path that was written, or the name in the script when it could not be; the keys are
  those of all commands so far and what is left are the commands of the frames to come.
\<close>
theorem headless_commands_fire:
  assumes "sorted (map cmd_frame cs)" "length ms < 2 ^ 64" "s = play c h n ms (headless_start cs)"
  shows "hl_frame_no s = word_of_nat (length ms) \<and>
    hl_rest s = filter (\<lambda>c. hl_frame_no s \<le> cmd_frame c) cs \<and>
    hl_buttons s = fold button_cmd (filter (\<lambda>c. cmd_frame c < hl_frame_no s) cs) buttons_up \<and>
    hl_lines s = concat (map (\<lambda>k. frame_shown c h n cs (word_of_nat k) (ms ! k)) [0..<length ms])"
  using play_frames [OF assms(1,2), of c h n] by (simp add: assms(3) played_def)

section \<open>Scripts that go wrong\<close>

text \<open>\<open>wait\<close> adds to the last frame in 64 bits and a count may be negative, so an accepted script can go back; the command behind
  it is never played.\<close>

lemma wait_goes_back:
  "parse_lines [''frame 10 hash'', ''wait -5 frames'', ''frame 6 quit''] 0 0 False =
     Inr [\<lparr> cmd_frame = 10, cmd_kind = HashLine, cmd_arg = [] \<rparr>, \<lparr> cmd_frame = 6, cmd_kind = QuitScript, cmd_arg = [] \<rparr>]"
proof -
  note words = strip_def Let_def split_ws.simps is_space_def code_of_def
  note number = parse_u64_def stoull0_def strip_sign_def base_of_def strip_0x_def is_hex_def hex_digit_def digit_in_def num_value_def signed_word_def
  have 1: "parse_line ''frame 10 hash'' 0 False = Inr (Some \<lparr> cmd_frame = 10, cmd_kind = HashLine, cmd_arg = [] \<rparr>, 10, True)"
    by (simp add: parse_line_def parse_verb_def words number)
  have 2: "parse_line ''wait -5 frames'' 10 True = Inr (None, 5, True)"
    by (simp add: parse_line_def words number)
  have 3: "parse_line ''frame 6 quit'' 5 True = Inr (Some \<lparr> cmd_frame = 6, cmd_kind = QuitScript, cmd_arg = [] \<rparr>, 6, True)"
    by (simp add: parse_line_def parse_verb_def words number)
  show ?thesis by (simp add: 1 2 3)
qed

lemma back_never_fires:
  "hl_rest s = c # cs \<Longrightarrow> cmd_frame c < hl_frame_no s \<Longrightarrow> hl_rest (fst (hl_frame hc h n (s, m))) = c # cs"
  by (auto simp: hl_frame_def Let_def)

definition quiet_host :: headless_host where
  "quiet_host = \<lparr> signal_at = (\<lambda>_. False), late_at = (\<lambda>_. False), hh_tm = tm_at still_host, png_written = (\<lambda>_ k. k = 0) \<rparr>"

text \<open>Two pictures in the second of two frames; the second of them cannot be written.\<close>

lemma headless_commands_fire_witness:
  "map fl_snapshot (hl_lines (play headless_defaults quiet_host 0 [soc_sample, soc_sample] (headless_start
     [\<lparr> cmd_frame = 1, cmd_kind = Snapshot, cmd_arg = ''a.png'' \<rparr>, \<lparr> cmd_frame = 1, cmd_kind = Snapshot, cmd_arg = ''b.png'' \<rparr>])))
   = [[], [''./a.png'', ''b.png'']]"
proof -
  let ?cs = "[\<lparr> cmd_frame = 1, cmd_kind = Snapshot, cmd_arg = ''a.png'' \<rparr>, \<lparr> cmd_frame = 1, cmd_kind = Snapshot, cmd_arg = ''b.png'' \<rparr>]"
  have s: "sorted (map cmd_frame ?cs)" by simp
  have l: "length [soc_sample, soc_sample] < 2 ^ 64" by simp
  note f = headless_commands_fire [OF s l refl, of headless_defaults quiet_host 0, THEN conjunct2, THEN conjunct2, THEN conjunct2]
  show ?thesis unfolding f
    by (simp add: frame_shown_def Let_def at_frame_def headless_defaults_def named_def snapshot_names_def snapshot_name_def
        write_png_to_path_def path_join_def quiet_host_def)
qed

end
