(* ===== verification/SystemKeep.thy ===== *)
theory SystemKeep
  imports SocWf
begin

text \<open>
  Properties of the machine under the whole system. \<open>system_property\<close> says which properties: those the devices'
  state does not enter, that bus reads, a trap and the wait states keep and that survive the registration of a
  handler that keeps them. Inside it ticks, polls, resets, key changes and all of the wiring keep such a property. It is
  interpreted twice: for a property of the flash chip that every halfword write keeps, and for the bounds of the
  CPU's indices.
\<close>

section \<open>The contract\<close>

text \<open>A handler, and the frontend's callbacks, keep a property of the machine.\<close>

definition io_preserves :: "('d machine \<Rightarrow> bool) \<Rightarrow> 'd io_handler \<Rightarrow> bool" where
  "io_preserves K h \<longleftrightarrow>
    (\<forall>f a m. io_read h = Some f \<longrightarrow> K m \<longrightarrow> K (snd (f a m))) \<and>
    (\<forall>f a v m. io_write h = Some f \<longrightarrow> K m \<longrightarrow> K (f a v m)) \<and>
    (\<forall>f a v m. io_write_byte h = Some f \<longrightarrow> K m \<longrightarrow> K (f a v m))"

definition env_preserves :: "(soc machine \<Rightarrow> bool) \<Rightarrow> soc_env \<Rightarrow> bool" where
  "env_preserves K env \<longleftrightarrow>
    (\<forall>hz m. K m \<longrightarrow> K (env_clock_change env hz m)) \<and>
    (\<forall>m. K m \<longrightarrow> K (env_frame_done env m)) \<and> (\<forall>m. K m \<longrightarrow> K (env_ch1_done env m))"

lemma all_append: "(\<forall>h\<in>snd ` set (xs @ ys). Q h) \<longleftrightarrow> (\<forall>h\<in>snd ` set xs. Q h) \<and> (\<forall>h\<in>snd ` set ys. Q h)"
  by auto

lemma all_concat: "(\<forall>h\<in>snd ` set (concat (map f is)). Q h) \<longleftrightarrow> (\<forall>i\<in>set is. \<forall>h\<in>snd ` set (f i). Q h)"
  by auto

locale system_property =
  fixes K :: "soc machine \<Rightarrow> bool"
    and W :: "soc wiring \<Rightarrow> bool"
  assumes k_dev: "K (m\<lparr>dev := d\<rparr>) = K m"
    and k_bcu: "K m \<Longrightarrow> K (soc_bcu_effect e m)"
    and k_assert: "W w \<Longrightarrow> K m \<Longrightarrow> K (assert_trap w no lv m)"
    and k_read8: "W w \<Longrightarrow> K m \<Longrightarrow> K (snd (read8 w a m))"
    and k_read16: "W w \<Longrightarrow> K m \<Longrightarrow> K (snd (read16 w a m))"
    and k_register: "io_preserves K h \<Longrightarrow> W w \<Longrightarrow> register_io a h w = Inr w1 \<Longrightarrow> W w1"
begin

lemma k_on_dev [simp]: "K (on_dev f m) = K m"
  by (simp add: on_dev_def k_dev)

lemma sys_deliver: "W w \<Longrightarrow> K m \<Longrightarrow> K (deliver w req m)"
  by (auto simp: deliver_def k_assert split: option.split)

lemma sys_raise: "W w \<Longrightarrow> K m \<Longrightarrow> K (soc_raise w lv src m)"
  by (simp add: soc_raise_def case_prod_beta sys_deliver)

lemma sys_raises: "W w \<Longrightarrow> K m \<Longrightarrow> K (fold (soc_raise w lv) irqs m)"
  by (induction irqs arbitrary: m) (simp_all add: sys_raise)

lemma sys_poll: "W w \<Longrightarrow> K m \<Longrightarrow> K (soc_poll w m)"
  by (simp add: soc_poll_def case_prod_beta sys_deliver)

lemma sys_active [simp]: "K (soc_active k run m) = K m"
  by (simp add: soc_active_def)

lemma sys_p07: "env_preserves K env \<Longrightarrow> K m \<Longrightarrow> K (soc_p07 env slow m)"
proof -
  assume env: "env_preserves K env"
  have "K m \<Longrightarrow> K (fold (env_clock_change env) es m)" for es m
    by (induction es arbitrary: m) (use env in \<open>simp_all add: env_preserves_def\<close>)
  then show "K m \<Longrightarrow> K (soc_p07 env slow m)" by (simp add: soc_p07_def case_prod_beta)
qed

lemma sys_lcd_byte [simp]: "K (soc_lcd_byte b m) = K m"
  by (simp add: soc_lcd_byte_def)

lemma sys_sound_event:
  "env_preserves K env \<Longrightarrow> W w \<Longrightarrow> K m \<Longrightarrow> K (soc_sound_event env w e m)"
  by (cases e) (simp_all add: env_preserves_def sys_raise)

lemma sys_sound_events:
  "env_preserves K env \<Longrightarrow> W w \<Longrightarrow> K m \<Longrightarrow> K (fold (soc_sound_event env w) es m)"
  by (induction es arbitrary: m) (simp_all add: sys_sound_event)

lemma sys_push_samples: "W w \<Longrightarrow> K m \<Longrightarrow> K (snd (push_samples (read16 w) p n a s m))"
  by (induction n arbitrary: a s m) (simp_all add: case_prod_beta k_read16)

lemma sys_ch1_start:
  "W w \<Longrightarrow> K m \<Longrightarrow> K (snd (snd (handle_ch1_start (read16 w) cra now hz hook sadr cnt s m)))"
  by (simp add: handle_ch1_start_def case_prod_beta Let_def sys_push_samples)

lemma sys_dma_event:
  "env_preserves K env \<Longrightarrow> W w \<Longrightarrow> K m \<Longrightarrow> K (soc_dma_event env w e m)"
proof (cases e)
  case (Ch1Start sadr cnt)
  assume "env_preserves K env" "W w" "K m"
  then show "K (soc_dma_event env w e m)"
    unfolding Ch1Start soc_dma_event.simps case_prod_beta
    by (intro sys_sound_events) (simp_all add: sys_ch1_start)
qed (simp_all add: env_preserves_def)

lemma sys_dma_events:
  "env_preserves K env \<Longrightarrow> W w \<Longrightarrow> K m \<Longrightarrow> K (fold (soc_dma_event env w) es m)"
  by (induction es arbitrary: m) (simp_all add: sys_dma_event)

lemma sys_ch0_loop:
  assumes "W w"
  shows "K m \<Longrightarrow> K (snd (snd (ch0_loop (read8 w) soc_lcd_byte h c m)))"
proof (induction "unat (ch0_cnt h)" arbitrary: h c m rule: less_induct)
  case less
  show ?case
  proof (cases "ch0_en h \<and> ch0_cnt h > 0")
    case True
    have "unat (ch0_cnt (ch0_step h)) < unat (ch0_cnt h)" using True u32_pred [of "ch0_cnt h"] by simp
    moreover have "K (soc_lcd_byte b (snd (read8 w (ch0_sadr h) m)))" for b
      using less.prems by (simp add: k_read8 [OF assms])
    ultimately show ?thesis using True less.hyps by (subst ch0_loop.simps) (simp add: case_prod_beta)
  next
    case False
    then have "ch0_loop (read8 w) soc_lcd_byte h c m = (h, c, m)" by (subst ch0_loop.simps) (rule if_not_P)
    then show ?thesis using less.prems by simp
  qed
qed

lemma sys_txd:
  assumes "env_preserves K env" "W w" "K m"
  shows "K (soc_txd env w b m)"
proof -
  have "K (snd (snd (on_txd_write (read8 w) soc_lcd_byte b (s_hsdma (dev m)) m)))"
    using sys_ch0_loop [OF assms(2)] assms(3) by (simp add: on_txd_write_def do_ch0_inline_def case_prod_beta Let_def)
  then show ?thesis unfolding soc_txd_def case_prod_beta
    by (intro sys_dma_events assms) simp
qed

section \<open>The wiring\<close>

text \<open>A port performs its events; those that keep the property make a handler that does.\<close>

lemma sys_lift:
  assumes ev: "\<And>e m. K m \<Longrightarrow> K (ev e m)"
  shows "\<forall>h\<in>snd ` set (lift_ports ps get put ev). io_preserves K h"
proof -
  have "K m \<Longrightarrow> K (fold ev es m)" for es m by (induction es arbitrary: m) (simp_all add: ev)
  then have "K m \<Longrightarrow> K (perform put ev r m)" for r m by (simp add: perform_def)
  then show ?thesis by (auto simp: lift_ports_def io_preserves_def split: option.splits)
qed

lemma sys_io:
  assumes env: "env_preserves K env" and w: "W w"
  shows "\<forall>h\<in>snd ` set (soc_io env w). io_preserves K h"
proof -
  have clk: "K m \<Longrightarrow> K (env_clock_change env e m)" for e m using env by (simp add: env_preserves_def)
  have none: "K m \<Longrightarrow> K (no_event e m)" for e m by (simp add: no_event_def)
  have act: "K m \<Longrightarrow> K (soc_active k e m)" "K m \<Longrightarrow> K (soc_bcu_effect e' m)" for k e e' m by (simp_all add: k_bcu)
  note lifts = sys_lift [of no_event, OF none] sys_lift [of "env_clock_change env", OF clk] sys_lift [of "soc_active _", OF act(1)]
    sys_lift [of soc_bcu_effect, OF act(2)] sys_lift [of "soc_p07 env", OF sys_p07 [OF env]]
    sys_lift [of "soc_dma_event env w", OF sys_dma_event [OF env w]] sys_lift [of "soc_txd env w", OF sys_txd [OF env w]]
  show ?thesis unfolding soc_io_def all_append all_concat by (intro conjI lifts ballI [OF lifts(3)])
qed

lemma sys_attach: "\<forall>h\<in>snd ` set hs. io_preserves K h \<Longrightarrow> W w0 \<Longrightarrow> attach_io hs w0 = Inr w \<Longrightarrow> W w"
proof (induction hs arbitrary: w0)
  case (Cons ah hs)
  then show ?case by (cases ah) (auto split: sum.splits dest: k_register)
qed simp

lemma sys_wiring: "env_preserves K env \<Longrightarrow> W no_wiring \<Longrightarrow> W (soc_wiring env n)"
  by (induction n) (auto split: sum.split intro: sys_attach [OF sys_io])

section \<open>Ticks, resets, keys\<close>

lemma sys_timers: "W w \<Longrightarrow> K m \<Longrightarrow> K (soc_timers w cyc m)"
proof -
  assume w: "W w"
  have "K m \<Longrightarrow> K (soc_t8_tick w cyc i m)" "K m \<Longrightarrow> K (soc_t16_tick w cyc i m)" for i m
    by (simp_all add: soc_t16_tick_def soc_t8_tick_def case_prod_beta sys_raises [OF w])
  then show "K m \<Longrightarrow> K (soc_timers w cyc m)"
    unfolding soc_timers_def Let_def by (intro scan_bits_keeps [where P = K])
qed

lemma sys_wdt_tick:
  assumes "W w" "K m"
  shows "K (soc_wdt_tick w cyc m)"
proof -
  have "K m \<Longrightarrow> K (soc_nmi w e m)" for e m
    by (simp add: soc_nmi_def k_assert [OF assms(1)])
  then show ?thesis
    using assms(2) fold_keeps [where P = K and f = "soc_nmi w"]
    by (simp add: soc_wdt_tick_def case_prod_beta)
qed

lemma sys_tick:
  assumes "env_preserves K env" "W w" "K m"
  shows "K (soc_tick env w cyc m)"
  using assms by (simp add: soc_tick_def soc_sound_tick_def case_prod_beta sys_sound_events sys_wdt_tick sys_timers)

lemma sys_set_keys: "W w \<Longrightarrow> K m \<Longrightarrow> K (soc_set_keys w a b m)"
  by (simp add: soc_set_keys_def case_prod_beta Let_def sys_raises)

lemma sys_reset: "K m \<Longrightarrow> K (soc_reset cold m)"
proof -
  have "K m \<Longrightarrow> K (fold soc_bcu_effect es m)" for es m by (induction es arbitrary: m) (simp_all add: k_bcu)
  then show "K m \<Longrightarrow> K (soc_reset cold m)" by (simp add: soc_reset_def case_prod_beta Let_def)
qed

lemma sys_sync_il: "K (soc_sync_il m) = K m"
  by (simp add: soc_sync_il_def)

end

section \<open>The flash\<close>

lemma flash_register:
  assumes "io_preserves (\<lambda>m. P (rom m)) h" "flash_invariant w P" "register_io a h w = Inr w1"
  shows "flash_invariant w1 P"
proof -
  have w: "machine_invariant w (\<lambda>fd _. P fd)" using assms(2) by (simp add: flash_invariant_def machine_invariant_def)
  have h: "\<forall>x\<in>snd ` set [(a, h)]. handler_keeps (\<lambda>fd _. P fd) x"
    using assms(1) by (simp add: io_preserves_def handler_keeps_def)
  have "attach_io [(a, h)] w = Inr w1" using assms(3) by simp
  then show ?thesis by (rule flash_invariantI [OF attach_keeps [OF h w]])
qed

interpretation flash_system: system_property "\<lambda>m. P (rom m)" "\<lambda>w. flash_invariant w P" for P
proof (rule system_property.intro)
  show "P (rom (soc_bcu_effect e m))" if "P (rom m)" for e m using that by (cases e) simp_all
qed (auto simp: flash_invariant.rom_assert flash_invariant.rom_read8 flash_invariant.rom_read16 intro: flash_register)

lemma no_wiring_flash: "(\<And>fd a v. P fd \<Longrightarrow> P (flash_write16 a v fd)) \<Longrightarrow> flash_invariant no_wiring P"
  by (simp add: flash_invariantI no_wiring_invariant)

lemmas rom_tick = flash_system.sys_tick
  and rom_poll = flash_system.sys_poll
  and rom_set_keys = flash_system.sys_set_keys

lemma soc_wiring_keeps_rom:
  "env_preserves (\<lambda>m. P (rom m)) env \<Longrightarrow> (\<And>fd a v. P fd \<Longrightarrow> P (flash_write16 a v fd)) \<Longrightarrow> flash_invariant (soc_wiring env n) P"
  by (simp add: flash_system.sys_wiring no_wiring_flash)

lemma rom_reset [simp]: "rom (soc_reset cold m) = rom m"
  by (rule flash_system.sys_reset [where P = "\<lambda>x. x = rom m"]) simp

lemma rom_sync_il [simp]: "rom (soc_sync_il m) = rom m"
  by (simp add: soc_sync_il_def)

section \<open>The indices of the CPU\<close>

text \<open>The wiring that keeps the bounds of the CPU's indices, \<^const>\<open>cpu_safe\<close> of CpuCtl, is kept by registrations.\<close>

lemma cpu_register:
  "io_preserves (\<lambda>m. P (cpu m)) h \<Longrightarrow> wiring_keeps P w \<Longrightarrow> register_io a h w = Inr w1 \<Longrightarrow> wiring_keeps P w1"
  by (auto simp: register_io_def Let_def io_preserves_def wiring_keeps_def split: if_splits)

interpretation cpu_system: system_property "\<lambda>m. cpu_safe (cpu m)" "wiring_keeps cpu_safe"
proof
  show "cpu_safe (cpu (soc_bcu_effect e m))" if "cpu_safe (cpu m)" for e m
    using that by (cases e) (simp_all add: cpu_safe_def)
qed (auto intro: cpu_register [where P = cpu_safe])

text \<open>What the main loops do to the machine, one call at a time, each with the wiring over the frontend of that moment.\<close>

datatype soc_act = Execute | TickTo u64 | Poll | MoveKeys u8 u8 | Restart | ResetDevices bool

fun soc_do :: "(soc machine \<Rightarrow> soc_env) \<Rightarrow> nat \<Rightarrow> soc_act \<Rightarrow> soc machine \<Rightarrow> soc machine" where
  "soc_do env n Execute m = snd (step (soc_wiring (env m) n) m)"
| "soc_do env n (TickTo cyc) m = soc_tick (env m) (soc_wiring (env m) n) cyc m"
| "soc_do env n Poll m = soc_poll (soc_wiring (env m) n) (soc_sync_il m)"
| "soc_do env n (MoveKeys a b) m = soc_set_keys (soc_wiring (env m) n) a b m"
| "soc_do env n Restart m = cpu_reset (soc_wiring (env m) n) m"
| "soc_do env n (ResetDevices cold) m = soc_reset cold m"

lemma cpu_reset_safe: "wiring_keeps cpu_safe w \<Longrightarrow> cpu_safe (cpu (cpu_reset w m))"
proof -
  assume w: "wiring_keeps cpu_safe w"
  have "cpu_safe cpu_init" by (simp add: cpu_safe_def cpu_init_def)
  then show "cpu_safe (cpu (cpu_reset w m))" using w by (simp add: cpu_reset_def case_prod_beta)
qed

lemma safe_step: "wiring_keeps cpu_safe w \<Longrightarrow> cpu_safe (cpu m) \<Longrightarrow> cpu_safe (cpu (snd (step w m)))"
  by (simp add: step_def Let_def safe_step_insn)

text \<open>
  C37: on the system as it is wired, no sequence of instructions, device ticks, interrupt polls, key changes and
  resets takes an index of the CPU state out of its array: at most two EXT prefixes are pending, the delay-slot caller
  is 0, 1 or 2, and every EXT operand fits 13 bits. The frontend is asked only not to damage them in its own callbacks.
\<close>
theorem cpu_indices_safe:
  assumes "\<And>m. env_preserves (\<lambda>x. cpu_safe (cpu x)) (env m)" "cpu_safe (cpu m)"
  shows "cpu_safe (cpu (fold (soc_do env n) acts m))"
proof -
  have w: "wiring_keeps cpu_safe (soc_wiring (env x) n)" for x
    by (rule cpu_system.sys_wiring [OF assms(1) no_wiring_keeps])
  have "cpu_safe (cpu (soc_do env n a x))" if "cpu_safe (cpu x)" for a x
    using that w assms(1) by (cases a) (simp_all add: safe_step cpu_system.sys_tick cpu_system.sys_poll
      cpu_system.sys_sync_il cpu_system.sys_set_keys cpu_system.sys_reset cpu_reset_safe)
  then show ?thesis using assms(2) by (rule fold_keeps [where P = "\<lambda>m. cpu_safe (cpu m)"])
qed

text \<open>The system with two \<open>ext\<close> instructions at the start of SRAM.\<close>

definition ext_sample :: "soc machine" where
  "ext_sample = soc_sample\<lparr>cpu := cpu_init\<lparr>pc := 0x100000\<rparr>, bus := (bus_create 64 64)\<lparr>sram := [0x34, 0xD2, 0x01, 0xC0] @ replicate 60 0\<rparr>\<rparr>"

lemma ext_sample_runs:
  "pending_ext_count (cpu (fold (soc_do (\<lambda>_. soc_env0) n) [Execute, Execute] ext_sample)) = 2"
  "unat (pending_ext (cpu (fold (soc_do (\<lambda>_. soc_env0) n) [Execute, Execute] ext_sample)) 0) = 0x1234"
  by (simp_all add: step_def ext_sample_def soc_sample_def cpu_init_def step_insn_def fetch16_def Let_def bus_create_def a28_def
      flash_end_def le16_def ext_check_def ext_capable_def step_tail_def fire_deferred_def bus_fault_check_def take_fault_def
      slot_complete_def charge_def ext_read_cycles_def dispatch_def cls_def h_ext_def imm13_def)

lemma cpu_indices_safe_witness:
  "\<exists>m. pending_ext_count (cpu (fold (soc_do (\<lambda>_. soc_env0) 2) [Execute, Execute] m)) = 2 \<and>
    (\<forall>acts. pending_ext_count (cpu (fold (soc_do (\<lambda>_. soc_env0) 2) acts m)) \<le> 2)"
proof (intro exI conjI allI)
  show "pending_ext_count (cpu (fold (soc_do (\<lambda>_. soc_env0) 2) [Execute, Execute] ext_sample)) = 2" by (rule ext_sample_runs)
  have "env_preserves (\<lambda>x. cpu_safe (cpu x)) soc_env0" by (simp add: env_preserves_def soc_env0_def)
  moreover have "cpu_safe (cpu ext_sample)" by (simp add: ext_sample_def cpu_safe_def cpu_init_def)
  ultimately have "cpu_safe (cpu (fold (soc_do (\<lambda>_. soc_env0) 2) acts ext_sample))" for acts by (rule cpu_indices_safe)
  then show "pending_ext_count (cpu (fold (soc_do (\<lambda>_. soc_env0) 2) acts ext_sample)) \<le> 2" for acts
    unfolding cpu_safe_def by blast
qed

end
