(* ===== verification/Libretro.thy ===== *)
theory Libretro
  imports Headless Writeback SystemKeep
begin

text \<open>
  The libretro core, \<^verbatim>\<open>src/libretro/piece_libretro.cpp\<close>: one machine per process, run for a sixtieth of a second
  per call on one thread, with the flash mirrored into a buffer that the host program saves and restores
  (\<open>SAVE_RAM\<close>). What the host answers during a call is one record per call. The counters that the callbacks
  reach (\<open>g_total_cycles\<close>, \<open>g_next_timer_wake\<close>, \<open>g_frame_pending\<close>, \<open>g_cached_cpu_hz\<close>) are members of \<open>front\<close>.
\<close>

section \<open>State\<close>

text \<open>
  The three pointers \<open>g_bus\<close>, \<open>g_cpu\<close> and \<open>g_periph\<close> are set and cleared together: \<open>rt_alive\<close>; while it is false only
  the counters of \<open>rt_machine\<close> mean anything. \<open>rt_lcd\<close> is static memory and survives a game.
\<close>

record retro =
  rt_machine :: "soc machine"
  rt_alive :: bool
  srm_buffer :: "u8 list"
  srm_header_bytes :: nat
  srm_flash_bytes :: nat
  srm_overlay_pending :: bool
  rt_lcd :: frame
  swap_ab :: bool
  tick_burst :: u64

text \<open>
  What the host answers in one call: the pad by button number, the values of the two options (no value when the
  host has none) and whether they changed, the local time, the number of sample frames the accumulator of
  fractions gives this time, and which of the callbacks are set.
\<close>

record retro_host =
  pad :: "nat \<Rightarrow> bool"
  opt_swap :: "string option"
  opt_burst :: "string option"
  opts_dirty :: bool
  rh_tm :: "u64 \<Rightarrow> host_tm"
  want_frames :: nat
  has_environ :: bool
  has_input :: bool
  has_video :: bool
  has_audio :: bool

abbreviation (input) JOYPAD_B :: nat where "JOYPAD_B \<equiv> 0"
abbreviation (input) JOYPAD_SELECT :: nat where "JOYPAD_SELECT \<equiv> 2"
abbreviation (input) JOYPAD_START :: nat where "JOYPAD_START \<equiv> 3"
abbreviation (input) JOYPAD_UP :: nat where "JOYPAD_UP \<equiv> 4"
abbreviation (input) JOYPAD_DOWN :: nat where "JOYPAD_DOWN \<equiv> 5"
abbreviation (input) JOYPAD_LEFT :: nat where "JOYPAD_LEFT \<equiv> 6"
abbreviation (input) JOYPAD_RIGHT :: nat where "JOYPAD_RIGHT \<equiv> 7"
abbreviation (input) JOYPAD_A :: nat where "JOYPAD_A \<equiv> 8"

definition new_machine :: "bus_state \<Rightarrow> front \<Rightarrow> soc machine" where
  "new_machine b f = \<lparr> cpu = cpu_init, bus = b, dev = soc_init\<lparr>front := f\<rparr>, diag_log = [], breakpoints = {}, strict = False \<rparr>"

text \<open>The process at start.\<close>

definition retro_start :: retro where
  "retro_start = \<lparr> rt_machine = new_machine (bus_create 0 0) front_init, rt_alive = False, srm_buffer = [], srm_header_bytes = 0,
     srm_flash_bytes = 0, srm_overlay_pending = False, rt_lcd = (\<lambda>_ _. 0), swap_ab = False, tick_burst = 4000 \<rparr>"

definition on_machine :: "(soc machine \<Rightarrow> soc machine) \<Rightarrow> retro \<Rightarrow> retro" where
  "on_machine g r = r\<lparr>rt_machine := g (rt_machine r)\<rparr>"

section \<open>Options and keys\<close>

text \<open>\<open>strtoul\<close> in base ten, for 64-bit \<open>unsigned long\<close>: too large a number saturates, a sign negates.\<close>

definition strtoul10 :: "string \<Rightarrow> u64" where
  "strtoul10 s =
    (case strip_sign (dropWhile is_space s) of (neg, s1) \<Rightarrow>
       let n = num_value 10 (takeWhile (digit_in 10) s1)
       in if 2 ^ 64 \<le> n then - 1 else if neg then - word_of_nat n else word_of_nat n)"

definition update_core_options :: "retro_host \<Rightarrow> retro \<Rightarrow> retro" where
  "update_core_options h r =
    (if \<not> has_environ h then r
     else let r1 = (case opt_swap h of None \<Rightarrow> r | Some v \<Rightarrow> r\<lparr>swap_ab := (v = ''on'')\<rparr>)
          in (case opt_burst h of None \<Rightarrow> r1
              | Some v \<Rightarrow> if strtoul10 v \<ge> 500 then r1\<lparr>tick_burst := strtoul10 v\<rparr> else r1))"

definition press_bit :: "bool \<Rightarrow> nat \<Rightarrow> u8 \<Rightarrow> u8" where
  "press_bit down k v = (if down then v AND NOT (push_bit k 1) else v)"

text \<open>The two key ports; a pressed key is a cleared bit.\<close>

definition pad_k6 :: "bool \<Rightarrow> (nat \<Rightarrow> bool) \<Rightarrow> u8" where
  "pad_k6 swap joy =
    press_bit (joy (if swap then JOYPAD_B else JOYPAD_A)) 5
      (press_bit (joy (if swap then JOYPAD_A else JOYPAD_B)) 4
        (press_bit (joy JOYPAD_UP) 3 (press_bit (joy JOYPAD_DOWN) 2 (press_bit (joy JOYPAD_LEFT) 1 (press_bit (joy JOYPAD_RIGHT) 0 0xFF)))))"

definition pad_k5 :: "(nat \<Rightarrow> bool) \<Rightarrow> u8" where
  "pad_k5 joy = press_bit (joy JOYPAD_START) 4 (press_bit (joy JOYPAD_SELECT) 3 0xFF)"

section \<open>Callbacks and ticks\<close>

definition lr_env :: "retro_host \<Rightarrow> soc machine \<Rightarrow> soc_env" where
  "lr_env h m = \<lparr> env_tm = rh_tm h (total m), env_now = total m,
     env_clock_change = (\<lambda>hz. on_front (\<lambda>f. f\<lparr>cached_hz := hz\<rparr>)),
     env_frame_done = on_front (\<lambda>f. f\<lparr>frame_ready := True\<rparr>), env_ch1_done = (\<lambda>m. m), env_push_hook = False \<rparr>"

definition lr_wiring :: "retro_host \<Rightarrow> nat \<Rightarrow> soc machine \<Rightarrow> soc wiring" where
  "lr_wiring h n m = soc_wiring (lr_env h m) n"

definition lr_deadline :: "u64 \<Rightarrow> u64 \<Rightarrow> u64 \<Rightarrow> u64" where
  "lr_deadline burst now w = (if w = UINT64_MAX then now + burst * 4 else clamp w (now + burst) (now + burst * 4))"

definition lr_do_tick :: "u64 \<Rightarrow> retro_host \<Rightarrow> nat \<Rightarrow> soc machine \<Rightarrow> soc machine" where
  "lr_do_tick burst h n m =
    (let m1 = soc_tick (lr_env h m) (lr_wiring h n m) (total m) m;
         m2 = soc_poll (lr_wiring h n m) (soc_sync_il m1)
     in case next_wake m2 of (w, m3) \<Rightarrow>
          on_front (\<lambda>f. f\<lparr>next_timer_wake := lr_deadline burst (total_cycles f) w\<rparr>) m3)"

section \<open>One frame of the CPU\<close>

definition lr_count_step :: "retro_host \<Rightarrow> nat \<Rightarrow> soc machine \<Rightarrow> soc machine" where
  "lr_count_step h n m =
    (case step (lr_wiring h n m) m of (k, m1) \<Rightarrow> on_front (\<lambda>f. f\<lparr>total_cycles := total_cycles f + word_of_int k\<rparr>) m1)"

primrec lr_burst :: "nat \<Rightarrow> retro_host \<Rightarrow> nat \<Rightarrow> u64 \<Rightarrow> soc machine \<Rightarrow> soc machine option" where
  "lr_burst 0 h n stop m = (if bursting stop m then None else Some m)"
| "lr_burst (Suc k) h n stop m = (if bursting stop m then lr_burst k h n stop (lr_count_step h n m) else Some m)"

text \<open>A halted CPU: the jump to the wake point, at least \<open>burst\<close> cycles ahead and at most the end of the frame.\<close>

definition lr_halt :: "u64 \<Rightarrow> u64 \<Rightarrow> retro_host \<Rightarrow> nat \<Rightarrow> soc machine \<Rightarrow> soc machine" where
  "lr_halt burst until h n m =
    (case (if halt_mode (cpu m) = Slp then (soc_sleep_wake (dev m), m) else next_wake m) of (wake, m1) \<Rightarrow>
       let raw = (if wake = UINT64_MAX then until else wake);
           advance_to = min (max raw (total m1 + burst)) until
       in lr_do_tick burst h n (on_front (\<lambda>f. f\<lparr>total_cycles := advance_to\<rparr>) m1))"

text \<open>The body of the loop; the flag says that a fault ended it.\<close>

definition lr_pass :: "nat \<Rightarrow> u64 \<Rightarrow> u64 \<Rightarrow> retro_host \<Rightarrow> nat \<Rightarrow> soc machine \<Rightarrow> (bool \<times> soc machine) option" where
  "lr_pass k burst until h n m =
    (case lr_burst k h n (min (next_timer_wake (run_of m)) until) m of
       None \<Rightarrow> None
     | Some m1 \<Rightarrow>
         if fault (cpu m1) then Some (True, m1)
         else let m2 = (if total m1 \<ge> next_timer_wake (run_of m1) then lr_do_tick burst h n m1 else m1)
              in Some (False, if in_halt (cpu m2) then lr_halt burst until h n m2 else m2))"

primrec lr_loop :: "nat \<Rightarrow> nat \<Rightarrow> u64 \<Rightarrow> u64 \<Rightarrow> retro_host \<Rightarrow> nat \<Rightarrow> soc machine \<Rightarrow> soc machine option" where
  "lr_loop 0 k burst until h n m = (if total m < until \<and> \<not> fault (cpu m) then None else Some m)"
| "lr_loop (Suc p) k burst until h n m =
    (if total m < until \<and> \<not> fault (cpu m)
     then (case lr_pass k burst until h n m of
             None \<Rightarrow> None
           | Some (brk, m1) \<Rightarrow> if brk then Some m1 else lr_loop p k burst until h n m1)
     else Some m)"

text \<open>
  The end of the frame. The code divides in floating point and truncates; both numbers are exact as doubles and the
  quotient of a 32-bit number by 60 is never rounded up to an integer, so this is the integer quotient.
\<close>

definition frame_target :: "soc machine \<Rightarrow> u64" where
  "frame_target m = total m + word_of_nat (unat (cached_hz (run_of m)) div 60)"

section \<open>The buffer of the saved flash\<close>

definition header_span :: "u8 list \<Rightarrow> nat" where
  "header_span data = min (max HEADER_SIZE (unat (img_offset (header_at data)))) (length data)"

text \<open>
  The buffer of a freshly loaded image: its header bytes, then as many bytes of flash as the image announces.
  \<open>None\<close>: the device is smaller and the copy reads past its end, which is undefined.
\<close>

definition build_srm :: "u8 list \<Rightarrow> nat \<Rightarrow> flash_device \<Rightarrow> u8 list option" where
  "build_srm data fsz fd =
    (if length (flash_mem fd) < fsz then None else Some (take (header_span data) data @ take fsz (flash_mem fd)))"

text \<open>The host may have put a saved buffer over it before the first frame.\<close>

definition apply_overlay :: "retro \<Rightarrow> flash_error + retro" where
  "apply_overlay r =
    (if \<not> srm_overlay_pending r then Inr r
     else let r1 = r\<lparr>srm_overlay_pending := False\<rparr>; buf = srm_buffer r
          in if length buf \<ge> srm_header_bytes r + srm_flash_bytes r \<and>
                signature_ok (signature (header_at buf)) \<and> si_size (sysinfo (header_at buf)) = 32
             then (case flash_load_image 0 (take (srm_flash_bytes r) (drop (srm_header_bytes r) buf)) (rom (rt_machine r)) of
                     Inl e \<Rightarrow> Inl e
                   | Inr fd \<Rightarrow> Inr (on_machine (\<lambda>m. m\<lparr>bus := (bus m)\<lparr>flash := fd\<rparr>\<rparr>) r1))
             else Inr r1)"

definition copy_sector :: "nat \<Rightarrow> nat \<Rightarrow> nat \<Rightarrow> u8 list \<Rightarrow> nat \<Rightarrow> u8 list \<Rightarrow> u8 list" where
  "copy_sector hdr fsz ssz mem s buf =
    (let off = s * ssz
     in if off \<ge> fsz then buf else copy_image (hdr + off) (take (min ssz (fsz - off)) (drop off mem)) buf)"

definition sync_srm :: "retro \<Rightarrow> retro" where
  "sync_srm r =
    (let fd = rom (rt_machine r); ssz = dev_sector_size fd
     in if srm_buffer r \<noteq> [] \<and> ssz > 0 \<and> dev_any_dirty fd
        then on_machine (\<lambda>m. m\<lparr>bus := (bus m)\<lparr>flash := dev_clear_dirty fd\<rparr>\<rparr>)
               (r\<lparr>srm_buffer := fold (copy_sector (srm_header_bytes r) (srm_flash_bytes r) ssz (flash_mem fd))
                                  (dev_dirty_sectors fd) (srm_buffer r)\<rparr>)
        else r)"

section \<open>The entry points\<close>

text \<open>\<open>unique_ptr::reset\<close> and the counters; \<open>retro_unload_game\<close> and \<open>retro_deinit\<close> have the same body.\<close>

definition clear_counters :: "soc machine \<Rightarrow> soc machine" where
  "clear_counters = on_front (\<lambda>f. f\<lparr>total_cycles := 0, next_timer_wake := 0, frame_ready := False\<rparr>)"

definition retro_unload_game :: "retro \<Rightarrow> retro" where
  "retro_unload_game r = (on_machine clear_counters r)\<lparr>rt_alive := False, srm_buffer := [], srm_header_bytes := 0,
     srm_flash_bytes := 0, srm_overlay_pending := False\<rparr>"

definition retro_deinit :: "retro \<Rightarrow> retro" where
  "retro_deinit r = (on_machine clear_counters r)\<lparr>rt_alive := False, srm_buffer := [], srm_header_bytes := 0,
     srm_flash_bytes := 0, srm_overlay_pending := False\<rparr>"

definition retro_sizes :: "sysinfo \<Rightarrow> nat \<times> nat" where
  "retro_sizes si =
    (if sram_end si > sram_top si then unat (sram_end si - sram_top si) else 0x040000,
     if pffs_end si > FLASH_BASE then unat (pffs_end si - FLASH_BASE) else 0x080000)"

text \<open>
  \<open>retro_load_game\<close>: the value returned and the core, which keeps a new machine even when the image is refused
  late. \<open>None\<close> is undefined behaviour (\<open>build_srm\<close>) or an exception out of the call.
\<close>

definition retro_load_game :: "retro_host \<Rightarrow> nat \<Rightarrow> u8 list option \<Rightarrow> retro \<Rightarrow> (bool \<times> retro) option" where
  "retro_load_game h n game r =
    (if game = None \<or> game = Some [] then Some (False, r)
     else let data = the game
          in case pfi_read_sysinfo_blob game of
               Inl e \<Rightarrow> Some (False, r)
             | Inr si \<Rightarrow>
                 (case retro_sizes si of (ram, fsz) \<Rightarrow>
                    (case sst_for_min_bytes fsz of
                       Inl e \<Rightarrow> None
                     | Inr f \<Rightarrow>
                         (case pfi_load_blob game (install_flash_device (Sst39vf f) (bus_create ram fsz)) of
                            (Inl e, b) \<Rightarrow> Some (False, r\<lparr>rt_machine := new_machine b (run_of (rt_machine r)), rt_alive := True\<rparr>)
                          | (Inr i, b) \<Rightarrow>
                              let m0 = new_machine b (run_of (rt_machine r))
                              in case read32 (lr_wiring h n m0) FLASH_BASE m0 of (entry, m1) \<Rightarrow>
                                   let m2 = on_cpu (\<lambda>c. c\<lparr>pc := entry\<rparr>) m1;
                                       m3 = clear_counters (on_front (\<lambda>f. f\<lparr>cached_hz := cpu_clock_hz (s_clk (dev m2))\<rparr>) m2)
                                   in case build_srm data fsz (rom m3) of
                                        None \<Rightarrow> None
                                      | Some buf \<Rightarrow>
                                          Some (True, update_core_options h
                                            (r\<lparr>rt_machine := m3, rt_alive := True, srm_buffer := buf, srm_header_bytes := header_span data,
                                               srm_flash_bytes := fsz, srm_overlay_pending := True\<rparr>))))))"

definition retro_reset :: "retro_host \<Rightarrow> nat \<Rightarrow> retro \<Rightarrow> retro" where
  "retro_reset h n r =
    (if \<not> rt_alive r then r
     else on_machine (\<lambda>m.
       let m1 = soc_reset True m;
           m2 = cpu_reset (lr_wiring h n m1) m1
       in case read32 (lr_wiring h n m2) FLASH_BASE m2 of (entry, m3) \<Rightarrow>
            clear_counters (on_cpu (\<lambda>c. c\<lparr>pc := entry\<rparr>) m3)) r)"

text \<open>What a call hands to the host: the picture and the samples, when the callbacks are set.\<close>

record retro_out =
  out_video :: "u16 list option"
  out_audio :: "u16 list option"

definition kPalette :: "u16 list" where
  "kPalette = [0xFFFF, 0xAD55, 0x52AA, 0x0000]"

definition video_pixels :: "frame \<Rightarrow> u16 list" where
  "video_pixels px = concat (map (\<lambda>y. map (\<lambda>x. kPalette ! unat (px y x AND 3)) [0..<128]) [0..<88])"

definition AUDIO_DRAIN :: nat where "AUDIO_DRAIN = 4096"

definition stereo :: "nat \<Rightarrow> u16 list \<Rightarrow> u16 list" where
  "stereo want xs = concat (map (\<lambda>x. [x, x]) xs) @ replicate (2 * (want - length xs)) 0"

definition retro_video :: "retro_host \<Rightarrow> retro \<Rightarrow> u16 list option \<times> retro" where
  "retro_video h r =
    (let m = rt_machine r;
         r1 = (if frame_ready (run_of m)
               then on_machine (on_front (\<lambda>f. f\<lparr>frame_ready := False\<rparr>)) (r\<lparr>rt_lcd := to_pixels (s_lcd (dev m)) (rt_lcd r)\<rparr>)
               else r)
     in (if has_video h then Some (video_pixels (rt_lcd r1)) else None, r1))"

definition retro_audio :: "retro_host \<Rightarrow> retro \<Rightarrow> u16 list option \<times> retro" where
  "retro_audio h r =
    (if \<not> has_audio h then (None, r)
     else let want = min (want_frames h) AUDIO_DRAIN
          in case snd_pop want (s_sound (dev (rt_machine r))) of (xs, s) \<Rightarrow>
               (Some (stereo want xs), on_machine (on_dev (\<lambda>d. d\<lparr>s_sound := s\<rparr>)) r))"

definition retro_input :: "retro_host \<Rightarrow> nat \<Rightarrow> retro \<Rightarrow> retro" where
  "retro_input h n r0 =
    (let r = (if has_environ h \<and> opts_dirty h then update_core_options h r0 else r0);
         m = rt_machine r
     in r\<lparr>rt_machine := soc_set_keys (lr_wiring h n m) (if has_input h then pad_k5 (pad h) else 0xFF)
            (if has_input h then pad_k6 (swap_ab r) (pad h) else 0xFF) m\<rparr>)"

text \<open>\<open>None\<close>: the fuel is spent, or the copy of the overlay throws. A core without a game does nothing.\<close>

definition retro_run :: "nat \<Rightarrow> nat \<Rightarrow> retro_host \<Rightarrow> nat \<Rightarrow> retro \<Rightarrow> (retro_out \<times> retro) option" where
  "retro_run p k h n r =
    (if \<not> rt_alive r then Some (\<lparr> out_video = None, out_audio = None \<rparr>, r)
     else case apply_overlay r of
       Inl e \<Rightarrow> None
     | Inr r0 \<Rightarrow>
         let r1 = retro_input h n r0; m = rt_machine r1
         in case lr_loop p k (tick_burst r1) (frame_target m) h n m of
              None \<Rightarrow> None
            | Some m1 \<Rightarrow>
                let r2 = r1\<lparr>rt_machine := on_front (\<lambda>f. f\<lparr>cached_hz := cpu_clock_hz (s_clk (dev m1))\<rparr>) m1\<rparr>
                in case retro_video h r2 of (v, r3) \<Rightarrow>
                     case retro_audio h (sync_srm r3) of (a, r4) \<Rightarrow>
                       Some (\<lparr> out_video = v, out_audio = a \<rparr>, r4))"

abbreviation (input) MEMORY_SAVE_RAM :: nat where "MEMORY_SAVE_RAM \<equiv> 0"

definition retro_get_memory_data :: "nat \<Rightarrow> retro \<Rightarrow> u8 list option" where
  "retro_get_memory_data i r = (if i \<noteq> MEMORY_SAVE_RAM then None else if srm_buffer r = [] then None else Some (srm_buffer r))"

definition retro_get_memory_size :: "nat \<Rightarrow> retro \<Rightarrow> nat" where
  "retro_get_memory_size i r = (if i \<noteq> MEMORY_SAVE_RAM then 0 else length (srm_buffer r))"

text \<open>The host writes through the pointer it was given; the length stays.\<close>

definition host_fills_srm :: "u8 list \<Rightarrow> retro \<Rightarrow> retro" where
  "host_fills_srm bs r = (if length bs = length (srm_buffer r) then r\<lparr>srm_buffer := bs\<rparr> else r)"

end
