(* ===== verification/RetroLoop.thy ===== *)
theory RetroLoop
  imports Libretro
begin

text \<open>
  The loop of a frame in the libretro core: what its parts leave of the counters, and that it ends.
\<close>

section \<open>The counters\<close>

text \<open>The callbacks change neither the cycle counter nor the deadline.\<close>

definition holds_at :: "u64 \<Rightarrow> u64 \<Rightarrow> front \<Rightarrow> bool" where
  "holds_at t w f \<longleftrightarrow> total_cycles f = t \<and> next_timer_wake f = w"

lemma lr_env_keeps: "env_keeps (soc_inv (holds_at t w)) (lr_env h m)" "env_keeps soc_wf (lr_env h m)"
  by (auto simp: env_keeps_def lr_env_def soc_inv_def holds_at_def)

interpretation retro_held: device_invariant "lr_wiring h n m" "soc_inv (holds_at t w)" for h n m t w
  unfolding lr_wiring_def by (rule soc_wiring_wf [OF lr_env_keeps(1)])

lemma held_here: "soc_wf (dev m) \<Longrightarrow> soc_inv (holds_at (total m) (next_timer_wake (run_of m))) (dev m)"
  by (simp add: soc_inv_def holds_at_def)

lemma lr_step_front:
  assumes "soc_wf (dev m)"
  shows "soc_wf (dev (lr_count_step h n m))" "next_timer_wake (run_of (lr_count_step h n m)) = next_timer_wake (run_of m)"
    "total (lr_count_step h n m) = total m + word_of_int (fst (step (lr_wiring h n m) m))"
  using retro_held.stays_step [OF held_here [OF assms], of h n m]
  by (simp_all add: lr_count_step_def case_prod_beta soc_inv_def holds_at_def)

lemma lr_tick_front:
  assumes "soc_wf (dev m)"
  shows "soc_wf (dev (lr_do_tick burst h n m))" "total (lr_do_tick burst h n m) = total m"
    "\<exists>w. next_timer_wake (run_of (lr_do_tick burst h n m)) = lr_deadline burst (total m) w"
proof -
  define x where "x = soc_poll (lr_wiring h n m) (soc_sync_il (soc_tick (lr_env h m) (lr_wiring h n m) (total m) m))"
  have "soc_inv (holds_at (total m) (next_timer_wake (run_of m))) (dev x)"
    unfolding x_def using held_here [OF assms]
    by (intro wf_poll sync_il_inv wf_tick lr_env_keeps retro_held.device_invariant_axioms)
  then have x: "soc_wf (dev x)" "total x = total m" by (simp_all add: soc_inv_def holds_at_def)
  have e: "lr_do_tick burst h n m = on_front (\<lambda>f. f\<lparr>next_timer_wake := lr_deadline burst (total_cycles f) (fst (next_wake x))\<rparr>) (snd (next_wake x))"
    by (simp add: lr_do_tick_def x_def Let_def case_prod_beta)
  show "soc_wf (dev (lr_do_tick burst h n m))" using next_wake_wf [OF x(1)] by (simp add: e)
  show "total (lr_do_tick burst h n m) = total m" using x(2) by (simp add: e)
  show "\<exists>w. next_timer_wake (run_of (lr_do_tick burst h n m)) = lr_deadline burst (total m) w"
    using x(2) by (auto simp: e)
qed

lemma lr_halt_front:
  assumes "soc_wf (dev m)" "unat (total m) + 4 * unat burst < 2 ^ 64" "0 < burst"
  shows "soc_wf (dev (lr_halt burst until h n m))" "min (unat (total m) + 1) (unat until) \<le> unat (total (lr_halt burst until h n m))"
    "total (lr_halt burst until h n m) \<le> until"
proof -
  obtain wake m1 where m1: "(if halt_mode (cpu m) = Slp then (soc_sleep_wake (dev m), m) else next_wake m) = (wake, m1)" by force
  have r: "soc_wf (dev m1)" "total m1 = total m"
  proof -
    have "m1 = m \<or> m1 = snd (next_wake m)" using m1 by (auto split: if_splits)
    then show "soc_wf (dev m1)" "total m1 = total m" using next_wake_wf [OF assms(1)] assms(1) by auto
  qed
  define a where "a = min (max (if wake = UINT64_MAX then until else wake) (total m1 + burst)) until"
  define m2 where "m2 = on_front (\<lambda>f. f\<lparr>total_cycles := a\<rparr>) m1"
  have e: "lr_halt burst until h n m = lr_do_tick burst h n m2" by (simp add: lr_halt_def m1 m2_def a_def Let_def)
  have w2: "soc_wf (dev m2)" using r(1) by (simp add: m2_def)
  have "unat (total m + burst) = unat (total m) + unat burst" using assms(2) by (simp add: u64_add)
  moreover have "0 < unat burst" using assms(3) by (simp add: word_less_nat_alt)
  ultimately have "unat (total m) + 1 \<le> unat (max x (total m + burst))" for x
    by (auto simp: max_def word_le_nat_alt)
  moreover have "unat (min x until) = min (unat x) (unat until)" for x by (simp add: min_def word_le_nat_alt)
  ultimately have "min (unat (total m) + 1) (unat until) \<le> unat a" unfolding a_def r(2) by (simp add: min.coboundedI1)
  then show "min (unat (total m) + 1) (unat until) \<le> unat (total (lr_halt burst until h n m))"
    unfolding e lr_tick_front(2) [OF w2] by (simp add: m2_def)
  show "total (lr_halt burst until h n m) \<le> until" unfolding e lr_tick_front(2) [OF w2] by (simp add: m2_def a_def)
  show "soc_wf (dev (lr_halt burst until h n m))" unfolding e by (rule lr_tick_front(1) [OF w2])
qed

lemma lr_deadline_ahead:
  assumes "unat now + 4 * unat burst < 2 ^ 64" "0 < burst"
  shows "now < lr_deadline burst now w"
proof -
  have "unat (burst * 4) = 4 * unat burst" using assms(1) by (simp add: u64_mult)
  then have "unat (now + burst * 4) = unat now + 4 * unat burst" "unat (now + burst) = unat now + unat burst"
    using assms(1) by (simp_all add: u64_add)
  moreover have "0 < unat burst" using assms(2) by (simp add: word_less_nat_alt)
  ultimately show ?thesis by (auto simp: lr_deadline_def clamp_def word_less_nat_alt)
qed

section \<open>The loop ends\<close>

text \<open>The machines a frame passes through.\<close>

inductive lr_visits :: "u64 \<Rightarrow> u64 \<Rightarrow> retro_host \<Rightarrow> nat \<Rightarrow> soc machine \<Rightarrow> soc machine \<Rightarrow> bool" for burst until h n m where
  start: "lr_visits burst until h n m m"
| insn: "lr_visits burst until h n m x \<Longrightarrow> bursting until x \<Longrightarrow> lr_visits burst until h n m (lr_count_step h n x)"
| tick: "lr_visits burst until h n m x \<Longrightarrow> next_timer_wake (run_of x) \<le> total x \<Longrightarrow> lr_visits burst until h n m (lr_do_tick burst h n x)"
| halt: "lr_visits burst until h n m x \<Longrightarrow> in_halt (cpu x) \<Longrightarrow> lr_visits burst until h n m (lr_halt burst until h n x)"

text \<open>Every instruction is charged a cycle, and the counter stays clear of its end.\<close>

definition lr_counts :: "u64 \<Rightarrow> retro_host \<Rightarrow> nat \<Rightarrow> soc machine \<Rightarrow> bool" where
  "lr_counts burst h n m \<longleftrightarrow> 0 < fst (step (lr_wiring h n m) m) \<and>
     uint (total m) + fst (step (lr_wiring h n m) m) + 4 * uint burst < 2 ^ 64"

lemma lr_step_advances:
  assumes "soc_wf (dev m)" "lr_counts burst h n m"
  shows "unat (total m) < unat (total (lr_count_step h n m))" "unat (total (lr_count_step h n m)) + 4 * unat burst < 2 ^ 64"
proof -
  let ?k = "fst (step (lr_wiring h n m) m)"
  have k: "0 < ?k" "uint (total m) + ?k + 4 * uint burst < 2 ^ 64" using assms(2) by (simp_all add: lr_counts_def)
  have "0 \<le> uint (total m) + ?k" "uint (total m) + ?k < 2 ^ 64" using k uint_ge_0 [of burst] uint_ge_0 [of "total m"] by linarith+
  then have "(uint (total m) + ?k) mod 2 ^ 64 = uint (total m) + ?k" by (rule mod_pos_pos_trivial)
  then have "uint (total (lr_count_step h n m)) = uint (total m) + ?k"
    by (simp add: lr_step_front(3) [OF assms(1)] uint_word_ariths uint_word_of_int_eq take_bit_eq_mod mod_simps)
  then have "int (unat (total (lr_count_step h n m))) = int (unat (total m)) + ?k" by simp
  moreover have "int (unat burst) = uint burst" "int (unat (total m)) = uint (total m)" by simp_all
  ultimately have "unat (total m) < unat (total (lr_count_step h n m))"
    "int (unat (total (lr_count_step h n m)) + 4 * unat burst) < int (2 ^ 64)"
    using k by (linarith, simp)
  then show "unat (total m) < unat (total (lr_count_step h n m))" "unat (total (lr_count_step h n m)) + 4 * unat burst < 2 ^ 64"
    by (simp_all only: of_nat_less_iff)
qed

lemma lr_burst_ends:
  assumes "\<forall>x. lr_visits burst until h n m0 x \<and> bursting until x \<longrightarrow> lr_counts burst h n x" "stop \<le> until"
  shows "lr_visits burst until h n m0 m \<Longrightarrow> soc_wf (dev m) \<Longrightarrow> unat (total m) + 4 * unat burst < 2 ^ 64 \<Longrightarrow>
    unat stop - unat (total m) \<le> k \<Longrightarrow>
    \<exists>m1. lr_burst k h n stop m = Some m1 \<and> lr_visits burst until h n m0 m1 \<and> soc_wf (dev m1) \<and>
      unat (total m1) + 4 * unat burst < 2 ^ 64 \<and> next_timer_wake (run_of m1) = next_timer_wake (run_of m) \<and> \<not> bursting stop m1 \<and>
      unat (total m) \<le> unat (total m1) \<and> (bursting stop m \<longrightarrow> unat (total m) < unat (total m1)) \<and> (\<not> bursting stop m \<longrightarrow> m1 = m)"
proof (induction k arbitrary: m)
  case 0
  then have "\<not> bursting stop m" by (auto simp: bursting_def word_less_nat_alt)
  then show ?case using 0 by simp
next
  case (Suc k)
  show ?case
  proof (cases "bursting stop m")
    case True
    let ?x = "lr_count_step h n m"
    have b: "bursting until m" using True assms(2) by (auto simp: bursting_def)
    note c = lr_step_advances [OF Suc.prems(2), of burst h n]
    have ct: "lr_counts burst h n m" using assms(1) Suc.prems(1) b by blast
    have "unat stop - unat (total ?x) \<le> k" using c(1) [OF ct] Suc.prems(4) by linarith
    from Suc.IH [OF lr_visits.insn [OF Suc.prems(1) b] lr_step_front(1) [OF Suc.prems(2)] c(2) [OF ct] this]
    obtain m1 where m1: "lr_burst k h n stop ?x = Some m1" "lr_visits burst until h n m0 m1" "soc_wf (dev m1)"
      "unat (total m1) + 4 * unat burst < 2 ^ 64" "next_timer_wake (run_of m1) = next_timer_wake (run_of ?x)" "\<not> bursting stop m1"
      "unat (total ?x) \<le> unat (total m1)" by blast
    then show ?thesis using True c(1) [OF ct] lr_step_front(2) [OF Suc.prems(2), of h n] by (intro exI [of _ m1]) simp
  qed (use Suc.prems in simp)
qed

text \<open>How far a frame is from its end: twice the cycles left, and one for a tick that is due.\<close>

definition cycles_left :: "u64 \<Rightarrow> soc machine \<Rightarrow> nat" where
  "cycles_left until m = 2 * (unat until - unat (total m)) + (if next_timer_wake (run_of m) \<le> total m then 1 else 0)"

lemma lr_pass_ends:
  assumes "\<forall>x. lr_visits burst until h n m0 x \<and> bursting until x \<longrightarrow> lr_counts burst h n x"
    and "lr_visits burst until h n m0 m" "soc_wf (dev m)" "total m < until" "\<not> fault (cpu m)"
    and "unat until + 4 * unat burst < 2 ^ 64" "0 < burst" "unat until \<le> k"
  shows "\<exists>brk m'. lr_pass k burst until h n m = Some (brk, m') \<and> lr_visits burst until h n m0 m' \<and> soc_wf (dev m') \<and>
    (if brk then fault (cpu m') else cycles_left until m' < cycles_left until m)"
proof -
  let ?w = "next_timer_wake (run_of m)" and ?stop = "min (next_timer_wake (run_of m)) until"
  have t: "unat (total m) < unat until" using assms(4) by (simp add: word_less_nat_alt)
  have "unat ?stop - unat (total m) \<le> k" using assms(8) by (auto simp: min_def word_le_nat_alt)
  moreover have "unat (total m) + 4 * unat burst < 2 ^ 64" using t assms(6) by linarith
  ultimately obtain m1 where m1: "lr_burst k h n ?stop m = Some m1" "lr_visits burst until h n m0 m1" "soc_wf (dev m1)"
    "unat (total m1) + 4 * unat burst < 2 ^ 64" "next_timer_wake (run_of m1) = ?w" "\<not> bursting ?stop m1"
    "unat (total m) \<le> unat (total m1)" "bursting ?stop m \<longrightarrow> unat (total m) < unat (total m1)" "\<not> bursting ?stop m \<longrightarrow> m1 = m"
    using lr_burst_ends [OF assms(1) min.cobounded2 assms(2,3)] by blast
  show ?thesis
  proof (cases "fault (cpu m1)")
    case True
    then show ?thesis using m1 by (intro exI [of _ True] exI [of _ m1]) (simp add: lr_pass_def)
  next
    case False
    define m2 where "m2 = (if total m1 \<ge> ?w then lr_do_tick burst h n m1 else m1)"
    have m2: "soc_wf (dev m2)" "total m2 = total m1" "lr_visits burst until h n m0 m2"
      using lr_tick_front [OF m1(3)] m1(2,3,5) lr_visits.tick by (auto simp: m2_def)
    have due: "\<not> next_timer_wake (run_of m2) \<le> total m2"
      using lr_tick_front(3) [OF m1(3), of burst h n] lr_deadline_ahead [OF m1(4) assms(7)] m1(5) m2(2)
      by (auto simp: m2_def not_le)
    define m3 where "m3 = (if in_halt (cpu m2) then lr_halt burst until h n m2 else m2)"
    have p: "lr_pass k burst until h n m = Some (False, m3)" using m1(1,5) False by (simp add: lr_pass_def m2_def m3_def Let_def)
    have bound: "unat (total m2) + 4 * unat burst < 2 ^ 64" using m1(4) m2(2) by simp
    note hf = lr_halt_front [OF m2(1) bound assms(7), of until h n]
    have m3: "lr_visits burst until h n m0 m3" "soc_wf (dev m3)"
      using m2 hf(1) lr_visits.halt by (auto simp: m3_def)
    have "cycles_left until m3 < cycles_left until m"
    proof (cases "in_halt (cpu m2)")
      case True
      then have "min (unat (total m1) + 1) (unat until) \<le> unat (total m3)" using hf(2) m2(2) by (simp add: m3_def)
      then have "unat until - unat (total m3) < unat until - unat (total m)" using m1(7) t by (simp add: min_def split: if_splits)
      then show ?thesis by (simp add: cycles_left_def)
    next
      case nh: False
      have flag: "cycles_left until m3 = 2 * (unat until - unat (total m1))"
        using due nh m2(2) by (simp add: cycles_left_def m3_def)
      show ?thesis
      proof (cases "?w \<le> total m")
        case True
        then show ?thesis unfolding flag using m1(7) by (simp add: cycles_left_def)
      next
        case w: False
        have "\<not> in_halt (cpu m)"
        proof
          assume h: "in_halt (cpu m)"
          then have "m1 = m" using m1(9) by (simp add: bursting_def)
          then have "m2 = m" using w by (simp add: m2_def)
          then show False using h nh by simp
        qed
        then have "bursting ?stop m" using w assms(4,5) by (simp add: bursting_def not_le)
        then show ?thesis unfolding flag using m1(8) t by (simp add: cycles_left_def)
      qed
    qed
    then show ?thesis using p m3 by auto
  qed
qed

text \<open>
  C15: a frame ends. As long as every instruction the frame executes is charged at least one cycle and the 64-bit counter
  stays clear of its end, twice as many passes as there are cycles up to the end of the frame are enough, however the
  program halts and whatever deadlines the devices give: the loop returns a machine that has reached the end of the
  frame or has faulted.
\<close>
theorem libretro_frame_ends:
  assumes "soc_wf (dev m)" "unat until + 4 * unat burst < 2 ^ 64" "0 < burst"
    and "\<forall>x. lr_visits burst until h n m x \<and> bursting until x \<longrightarrow> lr_counts burst h n x"
  shows "\<exists>m'. lr_loop (2 * unat until + 1) (unat until) burst until h n m = Some m' \<and> (fault (cpu m') \<or> until \<le> total m')"
proof -
  have "\<exists>m'. lr_loop p (unat until) burst until h n x = Some m' \<and> (fault (cpu m') \<or> until \<le> total m')"
    if "lr_visits burst until h n m x" "soc_wf (dev x)" "cycles_left until x \<le> p" for p x
    using that
  proof (induction p arbitrary: x)
    case 0
    then have "\<not> total x < until" by (auto simp: cycles_left_def word_less_nat_alt)
    then show ?case by (simp add: not_less)
  next
    case (Suc p)
    show ?case
    proof (cases "total x < until \<and> \<not> fault (cpu x)")
      case True
      then obtain brk y where y: "lr_pass (unat until) burst until h n x = Some (brk, y)" "lr_visits burst until h n m y" "soc_wf (dev y)"
        "if brk then fault (cpu y) else cycles_left until y < cycles_left until x"
        using lr_pass_ends [OF assms(4) Suc.prems(1,2) _ _ assms(2,3) order.refl] by blast
      then show ?thesis using True Suc.IH [OF y(2,3)] Suc.prems(3) by (cases brk) auto
    qed (auto simp: not_less)
  qed
  moreover have "cycles_left until m \<le> 2 * unat until + 1" unfolding cycles_left_def by (auto intro: le_SucI)
  ultimately show ?thesis using lr_visits.start assms(1) by blast
qed


section \<open>A frame on a blank flash\<close>

text \<open>With interrupts disabled a raised interrupt is only noted.\<close>

lemma raise_noted:
  assumes "\<not> psr_ie (psr (cpu m))" "intc_wf (s_intc (dev m))"
  shows "\<exists>i. soc_raise w lv src m = on_dev (\<lambda>d. d\<lparr>s_intc := i\<rparr>) m \<and> intc_wf i"
proof -
  obtain i req where r: "intc_raise src lv (s_intc (dev m)) = (i, req)" by force
  have "deliver w req x = x" if "cpu x = cpu m" for x
    using try_deliver_no [of src lv "s_intc (dev m)" i] assms that r
    by (auto simp: deliver_def assert_trap_def do_trap_def trap_masked_def split: option.splits)
  then show ?thesis using r intc_wf_raise [OF assms(2), of src lv] by (auto simp: soc_raise_def on_dev_def)
qed

lemma raises_noted:
  "\<not> psr_ie (psr (cpu m)) \<Longrightarrow> intc_wf (s_intc (dev m)) \<Longrightarrow>
   \<exists>i. fold (soc_raise w lv) irqs m = on_dev (\<lambda>d. d\<lparr>s_intc := i\<rparr>) m \<and> intc_wf i"
proof (induction irqs arbitrary: m)
  case Nil
  then show ?case by (intro exI [of _ "s_intc (dev m)"]) (simp add: on_dev_def)
next
  case (Cons q irqs)
  obtain i where i: "soc_raise w lv q m = on_dev (\<lambda>d. d\<lparr>s_intc := i\<rparr>) m" "intc_wf i" using raise_noted [OF Cons.prems] by blast
  obtain j where "fold (soc_raise w lv) irqs (on_dev (\<lambda>d. d\<lparr>s_intc := i\<rparr>) m) = on_dev (\<lambda>d. d\<lparr>s_intc := j\<rparr>) (on_dev (\<lambda>d. d\<lparr>s_intc := i\<rparr>) m)"
    "intc_wf j"
    using Cons.IH [of "on_dev (\<lambda>d. d\<lparr>s_intc := i\<rparr>) m"] Cons.prems i(2) by (auto simp: on_dev_def)
  then show ?case by (auto simp: i on_dev_def)
qed

text \<open>Devices as they are at power on, but for key lines, controller and counters.\<close>

definition asleep :: "soc \<Rightarrow> bool" where
  "asleep d \<longleftrightarrow> timer_active_mask d = 0 \<and> wdt_ewd (s_wdt d) = 0 \<and> \<not> snd_pending (s_sound d)"

lemma poll_noted: "\<not> psr_ie (psr (cpu m)) \<Longrightarrow> intc_wf (s_intc (dev m)) \<Longrightarrow> \<exists>i. soc_poll w m = on_dev (\<lambda>d. d\<lparr>s_intc := i\<rparr>) m"
proof -
  assume a: "\<not> psr_ie (psr (cpu m))" "intc_wf (s_intc (dev m))"
  obtain i req where r: "intc_poll (s_intc (dev m)) = (i, req)" by force
  have "req = None \<or> (\<exists>no lv. req = Some (no, lv) \<and> 16 \<le> no)"
  proof (cases "poll_dirty (s_intc (dev m))")
    case True
    have "best_of NUM_SOURCES (s_intc (dev m)) (poll_scan (s_intc (dev m)))" by (rule poll_scan_best [OF a(2)])
    then show ?thesis using r True src_table_row by (auto simp: intc_poll_def best_of_def split: option.splits prod.splits)
  next
    case False
    then show ?thesis using r by (simp add: intc_poll_def)
  qed
  then have "deliver w req x = x" if "cpu x = cpu m" for x
    using a(1) that by (auto simp: deliver_def assert_trap_def do_trap_def trap_masked_def)
  then show ?thesis using r by (auto simp: soc_poll_def on_dev_def)
qed

lemma tick_asleep:
  assumes "\<not> psr_ie (psr (cpu m))" "asleep (dev m)" "intc_wf (s_intc (dev m))" "soc_wf (dev m)"
  shows "cpu (lr_do_tick burst h n m) = cpu m" "bus (lr_do_tick burst h n m) = bus m"
    "breakpoints (lr_do_tick burst h n m) = breakpoints m"
proof -
  let ?w = "lr_wiring h n m"
  have timers: "soc_timers ?w c m = m" for c using assms(2) by (simp add: soc_timers_def asleep_def scan_bits.simps)
  obtain g where g: "soc_tick (lr_env h m) ?w (total m) m = on_dev g m" "s_intc (g (dev m)) = s_intc (dev m)"
  proof
    define x where "x = (\<lambda>d :: soc. d\<lparr>s_wdt := fst (wdt_tick (s_clk d) (total m) (s_wdt d))\<rparr>)"
    define y where "y = (\<lambda>d :: soc. (x d)\<lparr>s_rtc := rtc_tick (s_clk (x d)) (total m) (s_rtc (x d))\<rparr>)"
    define z where "z = (\<lambda>d :: soc. (y d)\<lparr>s_sound := fst (sound_tick (total m) (s_sound (y d))), wake_valid := False\<rparr>)"
    show "soc_tick (lr_env h m) ?w (total m) m = on_dev z m"
      using assms(2) by (simp add: soc_tick_def timers soc_wdt_tick_def soc_sound_tick_def case_prod_beta wdt_tick_def sound_tick_def
          asleep_def x_def y_def z_def on_dev_def)
    show "s_intc (z (dev m)) = s_intc (dev m)" by (simp add: x_def y_def z_def)
  qed
  let ?m1 = "soc_sync_il (on_dev g m)"
  have c: "cpu ?m1 = cpu m" "bus ?m1 = bus m" "breakpoints ?m1 = breakpoints m"
    by (simp_all add: soc_sync_il_def on_dev_def)
  have "intc_wf (s_intc (dev ?m1))" using assms(3) g(2) by (simp add: soc_sync_il_def intc_wf_il)
  then obtain i where i: "soc_poll ?w ?m1 = on_dev (\<lambda>d. d\<lparr>s_intc := i\<rparr>) ?m1" using poll_noted [of ?m1 ?w] assms(1) c(1) by auto
  show "cpu (lr_do_tick burst h n m) = cpu m" "bus (lr_do_tick burst h n m) = bus m"
    "breakpoints (lr_do_tick burst h n m) = breakpoints m"
    by (simp_all add: lr_do_tick_def Let_def g(1) i case_prod_beta) (simp_all add: on_dev_def soc_sync_il_def)
qed

text \<open>A flash that holds nothing but ones starts at the last address of the space, where no memory answers.\<close>

lemma blank_step:
  assumes "cpu m = cpu_init\<lparr>pc := 0xFFFFFFFF\<rparr>" "breakpoints m = {}" "flash_size (flash (bus m)) \<le> 0x200000"
  shows "fault (cpu (snd (step w m)))" "fst (step w m) = 1"
proof -
  have f: "fetch16 0xFFFFFFFF m = (0xFFFF, charge 1 m)"
    using assms(3) by (simp add: fetch16_def Let_def a28_def flash_end_def)
  have d: "dispatch 0xFFFF = H_undef" by (simp add: dispatch_def cls_def)
  have u: "pending_ext_count (cpu (charge 1 m)) = 0" "in_delay_slot (cpu (charge 1 m)) = False" "cycles (bus (charge 1 m)) = cycles (bus m) + 1"
    by (simp_all add: assms(1) cpu_init_def charge_def)
  show "fault (cpu (snd (step w m)))" "fst (step w m) = 1"
    by (simp_all add: step_def assms(1,2) cpu_init_def step_insn_def f d Let_def ext_check_def h_undef_def step_tail_def
        bus_fault_check_def take_fault_def fire_deferred_def slot_complete_def diag_fault_def cycles_consumed_def charge_def case_prod_beta)
qed


text \<open>A machine about to execute it, with nothing to wait for.\<close>

definition blank :: "soc machine \<Rightarrow> bool" where
  "blank m \<longleftrightarrow> cpu m = cpu_init\<lparr>pc := 0xFFFFFFFF\<rparr> \<and> breakpoints m = {} \<and> flash_size (flash (bus m)) \<le> 0x200000 \<and>
    asleep (dev m) \<and> intc_wf (s_intc (dev m)) \<and> soc_wf (dev m) \<and> total m = 0"

lemma blank_fields: "blank m \<Longrightarrow> \<not> psr_ie (psr (cpu m))" "blank m \<Longrightarrow> \<not> in_halt (cpu m)" "blank m \<Longrightarrow> \<not> fault (cpu m)"
  by (simp_all add: blank_def cpu_init_def psr_ie_def)

lemma blank_keys: "blank m \<Longrightarrow> blank (soc_set_keys (lr_wiring h n x) a b m)"
  "blank m \<Longrightarrow> next_timer_wake (run_of (soc_set_keys (lr_wiring h n x) a b m)) = next_timer_wake (run_of m)"
proof -
  assume bl: "blank m"
  let ?w = "lr_wiring h n x" and ?x = "soc_set_keys (lr_wiring h n x) a b m"
  define p1 where "p1 = fst (set_k5 a (s_portctrl (dev m)))"
  define irqs1 where "irqs1 = snd (set_k5 a (s_portctrl (dev m)))"
  let ?y = "on_dev (\<lambda>d. d\<lparr>s_portctrl := p1\<rparr>) m"
  have y: "\<not> psr_ie (psr (cpu ?y))" "intc_wf (s_intc (dev ?y))" using bl blank_fields(1) [OF bl] by (simp_all add: blank_def on_dev_def)
  obtain i where i: "fold (soc_raise ?w (- 1)) irqs1 ?y = on_dev (\<lambda>d. d\<lparr>s_intc := i\<rparr>) ?y" "intc_wf i" using raises_noted [OF y] by blast
  define q where "q = fold (soc_raise ?w (- 1)) irqs1 ?y"
  define p2 where "p2 = fst (set_k6 b (s_portctrl (dev q)))"
  define irqs2 where "irqs2 = snd (set_k6 b (s_portctrl (dev q)))"
  let ?z = "on_dev (\<lambda>d. d\<lparr>s_portctrl := p2\<rparr>) q"
  have z: "\<not> psr_ie (psr (cpu ?z))" "intc_wf (s_intc (dev ?z))" using y i unfolding q_def by (simp_all add: on_dev_def)
  obtain j where j: "fold (soc_raise ?w (- 1)) irqs2 ?z = on_dev (\<lambda>d. d\<lparr>s_intc := j\<rparr>) ?z" "intc_wf j" using raises_noted [OF z] by blast
  have e: "?x = on_dev (\<lambda>d. d\<lparr>s_intc := j\<rparr>) ?z"
    using j(1) by (simp add: soc_set_keys_def case_prod_beta Let_def p1_def irqs1_def q_def p2_def irqs2_def)
  have w: "wf_wiring (\<lambda>_. True) ?w" unfolding lr_wiring_def by (rule soc_wiring_wf) (simp add: soc_inv_True lr_env_keeps)
  have "soc_wf (dev ?x)" using wf_set_keys [OF w] bl by (simp add: soc_inv_True blank_def)
  moreover have "cpu ?x = cpu m" "bus ?x = bus m" "breakpoints ?x = breakpoints m" "asleep (dev ?x) = asleep (dev m)"
    "run_of ?x = run_of m" "s_intc (dev ?x) = j"
    unfolding e unfolding q_def i(1) by (simp_all add: on_dev_def asleep_def)
  ultimately show "blank ?x" "next_timer_wake (run_of ?x) = next_timer_wake (run_of m)" using bl j(2) by (simp_all add: blank_def)
qed

lemma blank_frame:
  assumes "blank m" "next_timer_wake (run_of m) = 0" "0 < burst" "unat burst < 2 ^ 62"
  shows "\<exists>m'. lr_loop 2 1 burst until h n m = Some m'"
proof (cases "total m < until \<and> \<not> fault (cpu m)")
  case True
  have b: "\<not> psr_ie (psr (cpu m))" "asleep (dev m)" "intc_wf (s_intc (dev m))" "soc_wf (dev m)" "total m = 0"
    using assms(1) blank_fields(1) [OF assms(1)] by (simp_all add: blank_def)
  define y where "y = lr_do_tick burst h n m"
  note t = tick_asleep [OF b(1-4), of burst h n, folded y_def] and f = lr_tick_front [OF b(4), of burst h n, folded y_def]
  have 1: "lr_pass 1 burst until h n m = Some (False, y)"
    using assms(2) b(5) blank_fields [OF assms(1)] t(1) by (simp add: lr_pass_def bursting_def y_def Let_def)
  have ahead: "0 < next_timer_wake (run_of y)"
    using f(3) lr_deadline_ahead [of 0 burst] assms(3,4) b(5) by auto
  let ?x = "lr_count_step h n y"
  have st: "fault (cpu (snd (step (lr_wiring h n y) y)))"
    by (rule blank_step(1)) (use assms(1) t in \<open>simp_all add: blank_def\<close>)
  have fx: "fault (cpu ?x)" using st by (simp add: lr_count_step_def case_prod_beta)
  have bst: "bursting (min (next_timer_wake (run_of y)) until) y"
    using ahead True f(2) b(5) blank_fields [OF assms(1)] by (simp add: bursting_def t(1))
  have "lr_pass 1 burst until h n y = Some (True, ?x)"
    using bst fx by (simp add: lr_pass_def) (simp add: bursting_def)
  then have "lr_loop 2 1 burst until h n m = Some ?x"
    using True 1 f(2) t(1) by (simp add: numeral_2_eq_2)
  then show ?thesis by blast
next
  case False
  then show ?thesis by (auto simp: numeral_2_eq_2)
qed

lemma blank_start:
  assumes "flash_size (flash b) \<le> 0x200000"
  shows "blank (on_front (\<lambda>f. f\<lparr>total_cycles := 0, next_timer_wake := w\<rparr>) (on_cpu (\<lambda>c. c\<lparr>pc := 0xFFFFFFFF\<rparr>) (new_machine b f0)))"
proof -
  have "asleep soc_init" by (simp add: asleep_def soc_init_def wdt_init_def sound_init_def)
  moreover have "intc_wf (s_intc soc_init)" using quiet_start(2) by (simp add: quiet_def soc_init_def)
  ultimately show ?thesis using assms soc_init_wf by (simp add: blank_def new_machine_def on_front_def on_dev_def asleep_def)
qed

definition quiet_pad :: retro_host where
  "quiet_pad = \<lparr> pad = (\<lambda>_. False), opt_swap = None, opt_burst = None, opts_dirty = False, rh_tm = tm_at still_host,
     want_frames = 533, has_environ = True, has_input = True, has_video = True, has_audio = True \<rparr>"

lemma libretro_frame_ends_witness:
  "\<exists>m'. lr_loop 3 1 4000 1 quiet_pad 2 (on_front (\<lambda>f. f\<lparr>total_cycles := 0, next_timer_wake := 5000\<rparr>)
       (on_cpu (\<lambda>c. c\<lparr>pc := 0xFFFFFFFF\<rparr>) (new_machine (bus_create 64 64) front_init))) = Some m' \<and> (fault (cpu m') \<or> 1 \<le> total m')"
proof -
  define m where "m = on_front (\<lambda>f. f\<lparr>total_cycles := 0, next_timer_wake := 5000\<rparr>)
       (on_cpu (\<lambda>c. c\<lparr>pc := 0xFFFFFFFF\<rparr>) (new_machine (bus_create 64 64) front_init))"
  have bl: "blank m" unfolding m_def by (rule blank_start) (simp add: bus_create_def flat_create_def flash_size_def)
  have wk: "next_timer_wake (run_of m) = 5000" by (simp add: m_def)
  have wf: "soc_wf (dev m)" and t0: "total m = 0" using bl by (simp_all add: blank_def)
  have k: "fst (step (lr_wiring quiet_pad 2 m) m) = 1" by (rule blank_step(2)) (use bl in \<open>simp_all add: blank_def\<close>)
  have seen: "x = m \<or> total x = 1 \<and> soc_wf (dev x)" if "lr_visits 4000 1 quiet_pad 2 m x" for x
    using that
  proof (induction rule: lr_visits.induct)
    case (insn x)
    then have "x = m" by (auto simp: bursting_def)
    then show ?case using lr_step_front [OF wf, of quiet_pad 2] k t0 by simp
  next
    case (tick x)
    then show ?case using lr_tick_front wk t0 by auto
  next
    case (halt x)
    then have x: "total x = 1" "soc_wf (dev x)" using blank_fields(2) [OF bl] by auto
    note hf = lr_halt_front [OF x(2), of "4000" "1" quiet_pad 2]
    have "1 \<le> unat (total (lr_halt 4000 1 quiet_pad 2 x))" using hf(2) x(1) by simp
    moreover have "unat (total (lr_halt 4000 1 quiet_pad 2 x)) \<le> 1" using hf(3) x(1) by (simp add: word_le_nat_alt)
    ultimately have "total (lr_halt 4000 1 quiet_pad 2 x) = 1" by (simp add: word_unat_eq_iff)
    then show ?case using hf(1) x(1) by simp
  qed simp
  have "lr_counts 4000 quiet_pad 2 m" using k t0 by (simp add: lr_counts_def)
  then have "\<forall>x. lr_visits 4000 1 quiet_pad 2 m x \<and> bursting 1 x \<longrightarrow> lr_counts 4000 quiet_pad 2 x"
    using seen by (force simp: bursting_def)
  from libretro_frame_ends [OF wf _ _ this] show ?thesis unfolding m_def [symmetric] by (simp add: numeral_3_eq_3)
qed

end
