(* ===== verification/SaveRam.thy ===== *)
theory SaveRam
  imports RetroLoop
begin

text \<open>
  The buffer the libretro core hands out as \<open>SAVE_RAM\<close>. Once a frame has run it is the header and the flash as it
  stands, whatever the program stored, because every store leaves its sector marked and the end of the frame copies
  the marked sectors; so a saved buffer brings the flash back in the next session. A buffer whose header the core
  refuses is never put right again.
\<close>

section \<open>What a frame does to the flash\<close>

text \<open>A flash whose bytes differ from \<open>m0\<close> only in marked sectors.\<close>

definition chip :: "u8 list \<Rightarrow> flash_device \<Rightarrow> bool" where
  "chip m0 fd \<longleftrightarrow> (\<exists>f. fd = Sst39vf f \<and> sst_wf f \<and> length (fmem f) = length m0 \<and> dirty_covers m0 f)"

lemma chip_write16: "chip m0 fd \<Longrightarrow> chip m0 (flash_write16 a v fd)"
  by (auto simp: chip_def dirty_covers_write16)

text \<open>The callbacks of the libretro core and of the headless frontend keep the flash and the CPU's indices.\<close>

lemma lr_env_cpu: "env_preserves (\<lambda>m. cpu_safe (cpu m)) (lr_env h m)"
  by (simp add: env_preserves_def lr_env_def)

lemma hl_env_cpu: "env_preserves (\<lambda>m. cpu_safe (cpu m)) (hl_env h m)"
  by (simp add: env_preserves_def hl_env_def hl_clock_change_def hl_update_wake_def hl_frame_done_def on_front_def case_prod_beta)

lemma lr_env_rom: "env_preserves (\<lambda>m. P (rom m)) (lr_env h m)"
  by (simp add: env_preserves_def lr_env_def)

interpretation retro_flash: flash_invariant "lr_wiring h n m" "chip m0" for h n m m0
  unfolding lr_wiring_def by (rule soc_wiring_keeps_rom [where P = "chip m0", OF lr_env_rom chip_write16])

lemma chip_tick: "chip m0 (rom m) \<Longrightarrow> chip m0 (rom (lr_do_tick burst h n m))"
  unfolding lr_do_tick_def Let_def case_prod_beta
  by (simp add: rom_poll [where P = "chip m0", OF retro_flash.flash_invariant_axioms]
      rom_tick [where P = "chip m0", OF lr_env_rom retro_flash.flash_invariant_axioms])

lemma chip_step: "chip m0 (rom m) \<Longrightarrow> chip m0 (rom (lr_count_step h n m))"
  by (simp add: lr_count_step_def case_prod_beta retro_flash.rom_step)

lemma chip_burst: "chip m0 (rom m) \<Longrightarrow> lr_burst k h n stop m = Some m' \<Longrightarrow> chip m0 (rom m')"
  by (induction k arbitrary: m) (auto intro: chip_step split: if_splits)

lemma chip_halt: "chip m0 (rom m) \<Longrightarrow> chip m0 (rom (lr_halt burst until h n m))"
  by (auto simp: lr_halt_def case_prod_beta Let_def intro!: chip_tick)

lemma chip_pass: "chip m0 (rom m) \<Longrightarrow> lr_pass k burst until h n m = Some (brk, m') \<Longrightarrow> chip m0 (rom m')"
  by (auto simp: lr_pass_def Let_def intro!: chip_tick chip_halt dest: chip_burst split: option.splits if_splits)

lemma chip_loop: "chip m0 (rom m) \<Longrightarrow> lr_loop p k burst until h n m = Some m' \<Longrightarrow> chip m0 (rom m')"
  by (induction p arbitrary: m) (auto dest: chip_pass split: if_splits option.splits)

section \<open>Copying the marked sectors\<close>

text \<open>The buffer has its size and the flash device is the chip, no smaller than the part that is saved.\<close>

definition shape :: "retro \<Rightarrow> bool" where
  "shape r \<longleftrightarrow> rt_alive r \<and> 40 \<le> srm_header_bytes r \<and> length (srm_buffer r) = srm_header_bytes r + srm_flash_bytes r \<and>
    (\<exists>f. rom (rt_machine r) = Sst39vf f \<and> sst_wf f \<and> srm_flash_bytes r \<le> length (fmem f))"

text \<open>The part of the buffer behind the header, and that it is the flash.\<close>

definition saved :: "retro \<Rightarrow> u8 list" where "saved r = drop (srm_header_bytes r) (srm_buffer r)"

definition current :: "retro \<Rightarrow> bool" where
  "current r \<longleftrightarrow> shape r \<and> saved r = take (srm_flash_bytes r) (flash_mem (rom (rt_machine r)))"

lemma copy_sectors:
  "length buf = hdr + fsz \<Longrightarrow> fsz \<le> length mem \<Longrightarrow>
   length (fold (copy_sector hdr fsz 4096 mem) ss buf) = length buf \<and>
   take hdr (fold (copy_sector hdr fsz 4096 mem) ss buf) = take hdr buf \<and>
   (\<forall>j<fsz. fold (copy_sector hdr fsz 4096 mem) ss buf ! (hdr + j) = (if j div 4096 \<in> set ss then mem ! j else buf ! (hdr + j)))"
proof (induction ss arbitrary: buf)
  case (Cons s ss)
  define b1 where "b1 = copy_sector hdr fsz 4096 mem s buf"
  let ?data = "take (min 4096 (fsz - s * 4096)) (drop (s * 4096) mem)"
  have b1: "length b1 = length buf" "take hdr b1 = take hdr buf"
    "\<forall>j<fsz. b1 ! (hdr + j) = (if j div 4096 = s then mem ! j else buf ! (hdr + j))"
  proof -
    have fit: "hdr + s * 4096 + length ?data \<le> length buf" if "s * 4096 < fsz" using Cons.prems that by simp
    show l: "length b1 = length buf" using fit by (auto simp: b1_def copy_sector_def Let_def)
    show "take hdr b1 = take hdr buf"
      by (rule nth_equalityI) (use fit l in \<open>auto simp: b1_def copy_sector_def Let_def nth_copy_image\<close>)
    show "\<forall>j<fsz. b1 ! (hdr + j) = (if j div 4096 = s then mem ! j else buf ! (hdr + j))"
    proof (intro allI impI)
      fix j assume j: "j < fsz"
      show "b1 ! (hdr + j) = (if j div 4096 = s then mem ! j else buf ! (hdr + j))"
      proof (cases "s * 4096 < fsz")
        case True
        have len: "length ?data = min 4096 (fsz - s * 4096)" using Cons.prems(2) True by simp
        have "(hdr + s * 4096 \<le> hdr + j \<and> hdr + j < hdr + s * 4096 + length ?data) = (j div 4096 = s)"
          unfolding len using j by (auto simp: min_def div_nat_eqI) (simp_all add: div_less_iff_less_mult less_eq_div_iff_mult_less_eq; linarith)?
        moreover have "?data ! (hdr + j - (hdr + s * 4096)) = mem ! j" if "s * 4096 \<le> j" "j < s * 4096 + length ?data"
        proof -
          have "j - s * 4096 < min 4096 (fsz - s * 4096)" "s * 4096 + (j - s * 4096) = j" using that len by linarith+
          then show ?thesis using Cons.prems(2) True by simp
        qed
        moreover have "b1 = copy_image (hdr + s * 4096) ?data buf" using True by (simp add: b1_def copy_sector_def Let_def)
        ultimately show ?thesis using nth_copy_image [OF fit [OF True], of "hdr + j"] Cons.prems(1) j by auto
      next
        case False
        have "j div 4096 \<noteq> s" using False j by (metis div_times_less_eq_dividend not_less order_le_less_trans)
        then show ?thesis using False by (simp add: b1_def copy_sector_def)
      qed
    qed
  qed
  from Cons.IH [of b1] show ?case using b1 Cons.prems by (auto simp flip: b1_def)
qed simp

lemma dirty_set: "(s \<in> set (dirty_sectors f)) = (s < length (fdirty f) \<and> fdirty f ! s)"
  by (auto simp: dirty_sectors_def)

lemma sync_srm_copies:
  assumes "shape r" "rom (rt_machine r) = Sst39vf f"
  shows "shape (sync_srm r)" "take (srm_header_bytes r) (srm_buffer (sync_srm r)) = take (srm_header_bytes r) (srm_buffer r)"
    "flash_mem (rom (rt_machine (sync_srm r))) = fmem f"
    "srm_header_bytes (sync_srm r) = srm_header_bytes r" "srm_flash_bytes (sync_srm r) = srm_flash_bytes r"
    "srm_overlay_pending (sync_srm r) = srm_overlay_pending r"
    "j < srm_flash_bytes r \<Longrightarrow> saved (sync_srm r) ! j = (if fdirty f ! (j div 4096) then fmem f ! j else saved r ! j)"
proof -
  let ?hdr = "srm_header_bytes r" and ?n = "srm_flash_bytes r"
  have s: "40 \<le> ?hdr" "length (srm_buffer r) = ?hdr + ?n" "sst_wf f" "?n \<le> length (fmem f)" "rt_alive r"
    using assms by (auto simp: shape_def)
  define buf where "buf = fold (copy_sector ?hdr ?n 4096 (fmem f)) (dirty_sectors f) (srm_buffer r)"
  note c = copy_sectors [OF s(2,4), of "dirty_sectors f", folded buf_def]
  have ne: "srm_buffer r \<noteq> []" using s(1,2) by auto
  have clean: "dirty_sectors f = []" if d: "\<not> any_dirty f"
  proof -
    have "\<not> fdirty f ! i" if "i < length (fdirty f)" for i using nth_mem [OF that] d unfolding any_dirty_def by blast
    then show ?thesis unfolding dirty_sectors_def filter_empty_conv by simp
  qed
  have e: "srm_buffer (sync_srm r) = buf"
  proof (cases "any_dirty f")
    case False
    then show ?thesis using clean assms(2) by (simp add: sync_srm_def buf_def Let_def)
  qed (use ne assms(2) in \<open>simp add: sync_srm_def buf_def on_machine_def Let_def\<close>)
  have fl: "rom (rt_machine (sync_srm r)) = Sst39vf (if any_dirty f then clear_dirty f else f)"
    using ne assms(2) by (cases "any_dirty f") (simp_all add: sync_srm_def on_machine_def Let_def)
  show f: "srm_header_bytes (sync_srm r) = ?hdr" "srm_flash_bytes (sync_srm r) = ?n" "srm_overlay_pending (sync_srm r) = srm_overlay_pending r"
    by (simp_all add: sync_srm_def Let_def on_machine_def)
  have al: "rt_alive (sync_srm r)" using s(5) by (simp add: sync_srm_def Let_def on_machine_def)
  show "shape (sync_srm r)"
    using s c al by (auto simp: shape_def e f fl sst_wf_def clear_dirty_def)
  show "take ?hdr (srm_buffer (sync_srm r)) = take ?hdr (srm_buffer r)" using c e by simp
  show "flash_mem (rom (rt_machine (sync_srm r))) = fmem f" by (simp add: fl clear_dirty_def)
  assume j: "j < ?n"
  have "j div 4096 < length (fdirty f)" using sector_index_bound [OF s(3), of j] j s(4) by simp
  then show "saved (sync_srm r) ! j = (if fdirty f ! (j div 4096) then fmem f ! j else saved r ! j)"
    using c j s(2) by (simp add: saved_def e f dirty_set)
qed

lemma sync_srm_current:
  assumes "shape r" "chip m0 (rom (rt_machine r))" "saved r = take (srm_flash_bytes r) m0"
  shows "current (sync_srm r)"
proof -
  obtain f where f: "rom (rt_machine r) = Sst39vf f" "sst_wf f" "length (fmem f) = length m0" "dirty_covers m0 f"
    using assms(2) by (auto simp: chip_def)
  note s = sync_srm_copies [OF assms(1) f(1)]
  have n: "srm_flash_bytes r \<le> length (fmem f)" using assms(1) f(1) by (auto simp: shape_def)
  have "saved (sync_srm r) = take (srm_flash_bytes r) (fmem f)"
  proof (rule nth_equalityI)
    show l: "length (saved (sync_srm r)) = length (take (srm_flash_bytes r) (fmem f))"
      using s(1,4,5) n by (auto simp: shape_def saved_def)
    fix j assume "j < length (saved (sync_srm r))"
    then have j: "j < srm_flash_bytes r" "j < length (fmem f)" using l n by auto
    then show "saved (sync_srm r) ! j = take (srm_flash_bytes r) (fmem f) ! j"
      using s(7) [OF j(1)] f(4) assms(3) by (auto simp: dirty_covers_def)
  qed
  then show ?thesis using s(1,3,5) by (simp add: current_def)
qed

section \<open>Loading and the overlay\<close>

definition srm_header_ok :: "u8 list \<Rightarrow> bool" where
  "srm_header_ok bs \<longleftrightarrow> signature_ok (signature (header_at bs)) \<and> si_size (sysinfo (header_at bs)) = 32"

lemma read_vector_rom: "rom (snd (read32 w FLASH_BASE m)) = rom m"
  by (auto simp: read32_def Let_def a28_def classify_def)

lemma options_frame [simp]:
  "rt_machine (update_core_options h r) = rt_machine r" "rt_alive (update_core_options h r) = rt_alive r"
  "srm_buffer (update_core_options h r) = srm_buffer r" "srm_header_bytes (update_core_options h r) = srm_header_bytes r"
  "srm_flash_bytes (update_core_options h r) = srm_flash_bytes r"
  "srm_overlay_pending (update_core_options h r) = srm_overlay_pending r"
  by (auto simp: update_core_options_def Let_def split: option.splits)

lemma sst_for_min_wf:
  assumes "sst_for_min_bytes k = Inr f"
  shows "sst_wf f"
proof -
  have "(if k \<le> 0x80000 then 0x80000 else 0x200000) \<le> (2 :: nat) ^ 32" by simp
  then show ?thesis using sst_create_wf assms unfolding sst_for_min_bytes_def by blast
qed

lemma load_game_rom:
  assumes "retro_load_game h n (Some data) r = Some (True, r1)"
  shows "current r1 \<and> srm_overlay_pending r1 \<and> srm_header_ok data \<and> 40 \<le> srm_header_bytes r1 \<and> srm_header_bytes r1 \<le> length data \<and>
    take (srm_header_bytes r1) (srm_buffer r1) = take (srm_header_bytes r1) data \<and>
    srm_header_bytes r1 = header_span data \<and> srm_flash_bytes r1 = snd (retro_sizes (sysinfo (header_at data)))"
proof -
  have ne: "data \<noteq> []" using assms by (auto simp: retro_load_game_def)
  obtain si where si: "pfi_read_sysinfo_blob (Some data) = Inr si"
    using assms ne by (cases "pfi_read_sysinfo_blob (Some data)") (simp_all add: retro_load_game_def)
  obtain ram fsz where sz: "retro_sizes si = (ram, fsz)" by force
  obtain f where f: "sst_for_min_bytes fsz = Inr f"
    using assms ne si sz by (cases "sst_for_min_bytes fsz") (simp_all add: retro_load_game_def)
  obtain i b where ld: "pfi_load_blob (Some data) (install_flash_device (Sst39vf f) (bus_create ram fsz)) = (Inr i, b)"
    using assms ne si sz f
    by (cases "pfi_load_blob (Some data) (install_flash_device (Sst39vf f) (bus_create ram fsz))" rule: prod.exhaust, rename_tac x y, case_tac x)
      (simp_all add: retro_load_game_def)
  define m0 where "m0 = new_machine b (run_of (rt_machine r))"
  define m2 where "m2 = on_cpu (\<lambda>c. c\<lparr>pc := fst (read32 (lr_wiring h n m0) FLASH_BASE m0)\<rparr>) (snd (read32 (lr_wiring h n m0) FLASH_BASE m0))"
  define m3 where "m3 = clear_counters (on_front (\<lambda>f. f\<lparr>cached_hz := cpu_clock_hz (s_clk (dev m2))\<rparr>) m2)"
  have r3: "rom m3 = flash b" by (simp add: m3_def clear_counters_def m2_def read_vector_rom) (simp add: m0_def new_machine_def)
  have game: "retro_load_game h n (Some data) r = (case build_srm data fsz (rom m3) of None \<Rightarrow> None | Some buf \<Rightarrow>
      Some (True, update_core_options h (r\<lparr>rt_machine := m3, rt_alive := True, srm_buffer := buf, srm_header_bytes := header_span data,
         srm_flash_bytes := fsz, srm_overlay_pending := True\<rparr>)))"
    using ne by (simp add: retro_load_game_def si sz f ld case_prod_beta m3_def m2_def m0_def Let_def cong: option.case_cong)
  then obtain buf where buf: "build_srm data fsz (rom m3) = Some buf" using assms by (cases "build_srm data fsz (rom m3)") simp_all
  have r1: "r1 = update_core_options h (r\<lparr>rt_machine := m3, rt_alive := True, srm_buffer := buf, srm_header_bytes := header_span data,
         srm_flash_bytes := fsz, srm_overlay_pending := True\<rparr>)" using game buf assms by simp
  have fb: "flash (install_flash_device (Sst39vf f) (bus_create ram fsz)) = Sst39vf f" by (simp add: install_flash_device_def)
  have ok: "header_ok data" "image_part (header_at data) data \<noteq> []"
    "length (image_part (header_at data) data) \<le> length (fmem f)"
    "flash b = flash_put 0 (image_part (header_at data) data) (Sst39vf f)"
    using ld unfolding pfi_load_blob_success fb by (auto simp: fb flash_size_def)
  have off: "40 \<le> unat (img_offset (header_at data))" "unat (img_offset (header_at data)) \<le> length data"
    using ok(1,2) by (auto simp: header_ok_def image_part_def)
  then have span: "header_span data = unat (img_offset (header_at data))" by (simp add: header_span_def)
  have wf: "sst_wf f" by (rule sst_for_min_wf [OF f])
  have bb: "fsz \<le> length (flash_mem (flash b))" "buf = take (header_span data) data @ take fsz (flash_mem (flash b))"
    using buf by (auto simp: build_srm_def r3 split: if_splits)
  have "si = sysinfo (header_at data)" using si ok(1)
    by (auto simp: pfi_read_sysinfo_blob_def read_pfi_header_blob_def header_ok_def Let_def SYSINFO_EXPECTED_SIZE_def split: if_splits)
  moreover have "\<exists>g. flash b = Sst39vf g \<and> sst_wf g \<and> fsz \<le> length (fmem g)"
    using ok(3) wf bb(1) by (simp add: ok(4) sst_wf_def)
  moreover have "srm_header_ok data" using ok(1) by (simp add: header_ok_def srm_header_ok_def)
  ultimately show ?thesis
    using off span bb sz by (simp add: r1 r3 current_def shape_def saved_def)
qed

lemma overlay_accepted:
  assumes "shape r" "srm_overlay_pending r" "srm_header_ok (srm_buffer r)"
  shows "\<exists>r0. apply_overlay r = Inr r0 \<and> current r0 \<and> srm_buffer r0 = srm_buffer r \<and> srm_header_bytes r0 = srm_header_bytes r \<and>
    srm_flash_bytes r0 = srm_flash_bytes r \<and> \<not> srm_overlay_pending r0"
proof -
  obtain f where f: "rom (rt_machine r) = Sst39vf f" "sst_wf f" "srm_flash_bytes r \<le> length (fmem f)"
    using assms(1) by (auto simp: shape_def)
  have s: "length (srm_buffer r) = srm_header_bytes r + srm_flash_bytes r" "40 \<le> srm_header_bytes r" "rt_alive r"
    using assms(1) by (simp_all add: shape_def)
  let ?d = "drop (srm_header_bytes r) (srm_buffer r)"
  have d: "length ?d = srm_flash_bytes r" using s by simp
  let ?g = "f\<lparr>fmem := copy_image 0 ?d (fmem f)\<rparr>"
  have fit: "0 + length ?d \<le> length (fmem f)" using d f(3) by simp
  have wf: "sst_wf ?g" using f(2) length_copy_image [OF fit] by (simp add: sst_wf_def)
  have "take (srm_flash_bytes r) (copy_image 0 ?d (fmem f)) = ?d" using d by (simp add: copy_image_def)
  moreover have "flash_load_image 0 (take (srm_flash_bytes r) ?d) (rom (rt_machine r)) = Inr (Sst39vf ?g)"
    using d f(3) by (simp add: f(1) sst_load_image_def)
  then have "apply_overlay r = Inr (on_machine (\<lambda>m. m\<lparr>bus := (bus m)\<lparr>flash := Sst39vf ?g\<rparr>\<rparr>) (r\<lparr>srm_overlay_pending := False\<rparr>))"
    using assms(2,3) s(1) by (simp add: apply_overlay_def srm_header_ok_def)
  ultimately show ?thesis using s wf f(3) length_copy_image [OF fit] by (simp add: current_def shape_def saved_def on_machine_def)
qed

lemma overlay_refused:
  "\<not> srm_header_ok (srm_buffer r) \<Longrightarrow> apply_overlay r = Inr (r\<lparr>srm_overlay_pending := False\<rparr>)"
  by (cases "srm_overlay_pending r") (auto simp: apply_overlay_def srm_header_ok_def Let_def)

section \<open>Frames\<close>

text \<open>A frame, as far as flash and buffer go: the overlay, the loop, the copy of the marked sectors.\<close>

lemma run_parts:
  assumes "retro_run p k h n r = Some (o', r')" "rt_alive r"
  shows "\<exists>r0 m1. apply_overlay r = Inr r0 \<and> (\<forall>m0. chip m0 (rom (rt_machine r0)) \<longrightarrow> chip m0 (rom m1)) \<and>
    (\<forall>r2. r2 = sync_srm (r0\<lparr>rt_machine := m1\<rparr>) \<longrightarrow> rom (rt_machine r') = rom (rt_machine r2) \<and> srm_buffer r' = srm_buffer r2 \<and>
       srm_header_bytes r' = srm_header_bytes r2 \<and> srm_flash_bytes r' = srm_flash_bytes r2 \<and> rt_alive r' = rt_alive r2 \<and>
       srm_overlay_pending r' = srm_overlay_pending r2)"
proof -
  obtain r0 where r0: "apply_overlay r = Inr r0" using assms by (cases "apply_overlay r") (simp_all add: retro_run_def)
  define r1 where "r1 = retro_input h n r0"
  obtain m1 where m1: "lr_loop p k (tick_burst r1) (frame_target (rt_machine r1)) h n (rt_machine r1) = Some m1"
    using assms by (cases "lr_loop p k (tick_burst r1) (frame_target (rt_machine r1)) h n (rt_machine r1)")
      (simp_all add: retro_run_def r0 r1_def Let_def)
  have in1: "srm_buffer r1 = srm_buffer r0" "srm_header_bytes r1 = srm_header_bytes r0" "srm_flash_bytes r1 = srm_flash_bytes r0"
    "rt_alive r1 = rt_alive r0" "srm_overlay_pending r1 = srm_overlay_pending r0"
    by (simp_all add: r1_def retro_input_def Let_def)
  have keys: "chip m0 (rom (rt_machine r1))" if "chip m0 (rom (rt_machine r0))" for m0
    using that rom_set_keys [where P = "chip m0", OF retro_flash.flash_invariant_axioms] by (simp add: r1_def retro_input_def Let_def)
  define m2 where "m2 = on_front (\<lambda>f. f\<lparr>cached_hz := cpu_clock_hz (s_clk (dev m1))\<rparr>) m1"
  define r3 where "r3 = snd (retro_video h (r1\<lparr>rt_machine := m2\<rparr>))"
  have v: "rom (rt_machine r3) = rom m1" "srm_buffer r3 = srm_buffer r0" "srm_header_bytes r3 = srm_header_bytes r0"
    "srm_flash_bytes r3 = srm_flash_bytes r0" "rt_alive r3 = rt_alive r0" "srm_overlay_pending r3 = srm_overlay_pending r0"
    by (simp_all add: r3_def retro_video_def Let_def on_machine_def in1 m2_def)
  have r': "r' = snd (retro_audio h (sync_srm r3))"
    using assms m1 by (auto simp: retro_run_def r0 Let_def case_prod_beta r1_def r3_def m2_def)
  have a: "rom (rt_machine r') = rom (rt_machine (sync_srm r3))" "srm_buffer r' = srm_buffer (sync_srm r3)"
    "srm_header_bytes r' = srm_header_bytes (sync_srm r3)" "srm_flash_bytes r' = srm_flash_bytes (sync_srm r3)"
    "rt_alive r' = rt_alive (sync_srm r3)" "srm_overlay_pending r' = srm_overlay_pending (sync_srm r3)"
    by (simp_all add: r' retro_audio_def Let_def case_prod_beta on_machine_def)
  have "chip m0 (rom m1)" if "chip m0 (rom (rt_machine r0))" for m0 using chip_loop [OF keys [OF that] m1] .
  then show ?thesis using r0
    by (intro exI [of _ r0] exI [of _ m1]) (simp add: a sync_srm_def v on_machine_def Let_def)
qed

text \<open>What a frame keeps in any case, and what it gives when flash and buffer agreed.\<close>

lemma shape_chip: "shape r \<Longrightarrow> \<exists>m0. chip m0 (rom (rt_machine r)) \<and> m0 = flash_mem (rom (rt_machine r))"
  by (auto simp: shape_def chip_def dirty_covers_def)

lemma run_from:
  assumes "retro_run p k h n r = Some (o', r')" "apply_overlay r = Inr r0" "shape r0" "rt_alive r"
  shows "shape r' \<and> take (srm_header_bytes r0) (srm_buffer r') = take (srm_header_bytes r0) (srm_buffer r0) \<and>
    srm_header_bytes r' = srm_header_bytes r0 \<and> srm_flash_bytes r' = srm_flash_bytes r0 \<and>
    srm_overlay_pending r' = srm_overlay_pending r0 \<and> (current r0 \<longrightarrow> current r')"
proof -
  obtain m1 where m1: "\<forall>m0. chip m0 (rom (rt_machine r0)) \<longrightarrow> chip m0 (rom m1)"
    "\<forall>r2. r2 = sync_srm (r0\<lparr>rt_machine := m1\<rparr>) \<longrightarrow> rom (rt_machine r') = rom (rt_machine r2) \<and> srm_buffer r' = srm_buffer r2 \<and>
       srm_header_bytes r' = srm_header_bytes r2 \<and> srm_flash_bytes r' = srm_flash_bytes r2 \<and> rt_alive r' = rt_alive r2 \<and>
       srm_overlay_pending r' = srm_overlay_pending r2"
    using run_parts [OF assms(1,4)] assms(2) by auto
  define q where "q = r0\<lparr>rt_machine := m1\<rparr>"
  obtain m0 where m0: "chip m0 (rom (rt_machine r0))" "m0 = flash_mem (rom (rt_machine r0))" using shape_chip [OF assms(3)] by blast
  then have c: "chip m0 (rom m1)" using m1(1) by blast
  then obtain f where f: "rom m1 = Sst39vf f" "sst_wf f" "length (fmem f) = length m0" by (auto simp: chip_def)
  have "srm_flash_bytes r0 \<le> length m0" using assms(3) m0(2) by (auto simp: shape_def)
  then have sq: "shape q" using assms(3) f by (auto simp: shape_def q_def)
  have fq: "rom (rt_machine q) = Sst39vf f" using f(1) by (simp add: q_def)
  note s = sync_srm_copies [OF sq fq]
  have e: "rom (rt_machine r') = rom (rt_machine (sync_srm q))" "srm_buffer r' = srm_buffer (sync_srm q)"
    "srm_header_bytes r' = srm_header_bytes (sync_srm q)" "srm_flash_bytes r' = srm_flash_bytes (sync_srm q)"
    "rt_alive r' = rt_alive (sync_srm q)" "srm_overlay_pending r' = srm_overlay_pending (sync_srm q)"
    using m1(2) by (auto simp: q_def)
  have q: "srm_header_bytes q = srm_header_bytes r0" "srm_flash_bytes q = srm_flash_bytes r0" "srm_buffer q = srm_buffer r0"
    "srm_overlay_pending q = srm_overlay_pending r0" by (simp_all add: q_def)
  have "current r'" if "current r0"
  proof -
    have "current (sync_srm q)"
      by (rule sync_srm_current [OF sq, of m0]) (use c that m0(2) in \<open>simp_all add: q_def current_def saved_def\<close>)
    then show ?thesis using e by (simp add: current_def shape_def saved_def)
  qed
  then show ?thesis using s(1,2,4-6) e q by (auto simp: shape_def)
qed

section \<open>Sessions\<close>

text \<open>The calls of a host between loading and unloading a game.\<close>

datatype retro_call = RunFrame retro_host | ResetGame retro_host

definition retro_call :: "nat \<Rightarrow> nat \<Rightarrow> nat \<Rightarrow> retro_call \<Rightarrow> retro \<Rightarrow> retro option" where
  "retro_call p k n c r =
    (case c of RunFrame h \<Rightarrow> map_option snd (retro_run p k h n r) | ResetGame h \<Rightarrow> Some (retro_reset h n r))"

primrec retro_calls :: "nat \<Rightarrow> nat \<Rightarrow> nat \<Rightarrow> retro_call list \<Rightarrow> retro \<Rightarrow> retro option" where
  "retro_calls p k n [] r = Some r"
| "retro_calls p k n (c # cs) r = (case retro_call p k n c r of None \<Rightarrow> None | Some r1 \<Rightarrow> retro_calls p k n cs r1)"

lemma reset_frame:
  "rom (rt_machine (retro_reset h n r)) = rom (rt_machine r)" "srm_buffer (retro_reset h n r) = srm_buffer r"
  "srm_header_bytes (retro_reset h n r) = srm_header_bytes r" "srm_flash_bytes (retro_reset h n r) = srm_flash_bytes r"
  "rt_alive (retro_reset h n r) = rt_alive r" "srm_overlay_pending (retro_reset h n r) = srm_overlay_pending r"
proof -
  have "rom (cpu_reset w m) = rom m" for w :: "soc wiring" and m
    using read_vector_rom [of w "m\<lparr>cpu := cpu_init\<rparr>"] by (simp add: cpu_reset_def case_prod_beta)
  then show "rom (rt_machine (retro_reset h n r)) = rom (rt_machine r)"
    by (simp add: retro_reset_def on_machine_def Let_def case_prod_beta clear_counters_def read_vector_rom)
qed (simp_all add: retro_reset_def on_machine_def)

text \<open>Fit for a frame: the overlay still to come has a header the core accepts, or buffer and flash agree.\<close>

definition ready :: "retro \<Rightarrow> bool" where
  "ready r \<longleftrightarrow> shape r \<and> (if srm_overlay_pending r then srm_header_ok (srm_buffer r) else current r)"

text \<open>What all calls leave alone.\<close>

definition same_frame_of :: "retro \<Rightarrow> retro \<Rightarrow> bool" where
  "same_frame_of r r' \<longleftrightarrow> srm_header_bytes r' = srm_header_bytes r \<and> srm_flash_bytes r' = srm_flash_bytes r \<and>
    take (srm_header_bytes r) (srm_buffer r') = take (srm_header_bytes r) (srm_buffer r)"

lemma same_header: "shape r \<Longrightarrow> same_frame_of r r' \<Longrightarrow> srm_header_ok (srm_buffer r') = srm_header_ok (srm_buffer r)"
  using header_at_prefix [of "srm_header_bytes r" "srm_buffer r'" "srm_buffer r"]
  by (simp add: shape_def same_frame_of_def srm_header_ok_def)

lemma run_ready:
  assumes "ready r" "retro_run p k h n r = Some (o', r')"
  shows "current r' \<and> ready r' \<and> same_frame_of r r'"
proof -
  have s: "shape r" "rt_alive r" using assms(1) by (simp_all add: ready_def shape_def)
  obtain r0 where r0: "apply_overlay r = Inr r0" "current r0" "srm_buffer r0 = srm_buffer r"
    "srm_header_bytes r0 = srm_header_bytes r" "srm_flash_bytes r0 = srm_flash_bytes r" "\<not> srm_overlay_pending r0"
  proof (cases "srm_overlay_pending r")
    case True
    then show ?thesis using overlay_accepted [OF s(1)] assms(1) that by (auto simp: ready_def)
  next
    case False
    then show ?thesis using assms(1) that [of r] by (simp add: ready_def apply_overlay_def)
  qed
  have "shape r0" using r0(2) by (simp add: current_def)
  from run_from [OF assms(2) r0(1) this s(2)] r0 show ?thesis
    by (auto simp: ready_def same_frame_of_def current_def)
qed

lemma run_refused:
  assumes "shape r" "\<not> srm_header_ok (srm_buffer r)" "retro_run p k h n r = Some (o', r')"
  shows "shape r' \<and> same_frame_of r r'"
proof -
  have "shape (r\<lparr>srm_overlay_pending := False\<rparr>)" using assms(1) by (simp add: shape_def)
  moreover have "rt_alive r" using assms(1) by (simp add: shape_def)
  ultimately show ?thesis using run_from [OF assms(3) overlay_refused [OF assms(2)]] by (simp add: same_frame_of_def)
qed

lemma reset_ready: "ready (retro_reset h n r) = ready r" "current (retro_reset h n r) = current r"
  "shape (retro_reset h n r) = shape r" "same_frame_of r (retro_reset h n r)"
  by (simp_all add: ready_def current_def shape_def saved_def same_frame_of_def reset_frame)

lemma same_frame_of_trans: "same_frame_of r r1 \<Longrightarrow> same_frame_of r1 r2 \<Longrightarrow> same_frame_of r r2"
  by (simp add: same_frame_of_def)

lemma calls_ready:
  "ready r \<Longrightarrow> retro_calls p k n cs r = Some r' \<Longrightarrow>
   ready r' \<and> same_frame_of r r' \<and> (current r \<or> (\<exists>h. RunFrame h \<in> set cs) \<longrightarrow> current r')"
proof (induction cs arbitrary: r)
  case (Cons c cs)
  obtain r1 where r1: "retro_call p k n c r = Some r1" "retro_calls p k n cs r1 = Some r'"
    using Cons.prems(2) by (auto split: option.splits)
  have "ready r1 \<and> same_frame_of r r1 \<and> (current r \<or> (\<exists>h. c = RunFrame h) \<longrightarrow> current r1)"
  proof (cases c)
    case (RunFrame h)
    then show ?thesis using r1(1) run_ready [OF Cons.prems(1)] by (auto simp: retro_call_def)
  next
    case (ResetGame h)
    then show ?thesis using r1(1) Cons.prems(1) by (auto simp: retro_call_def reset_ready)
  qed
  with Cons.IH [OF _ r1(2)] same_frame_of_trans show ?case by auto
qed (simp add: same_frame_of_def)

lemma calls_refused:
  "shape r \<Longrightarrow> \<not> srm_header_ok (srm_buffer r) \<Longrightarrow> retro_calls p k n cs r = Some r' \<Longrightarrow> shape r' \<and> same_frame_of r r'"
proof (induction cs arbitrary: r)
  case (Cons c cs)
  obtain r1 where r1: "retro_call p k n c r = Some r1" "retro_calls p k n cs r1 = Some r'"
    using Cons.prems(3) by (auto split: option.splits)
  have s: "shape r1" "same_frame_of r r1"
    using r1(1) run_refused [OF Cons.prems(1,2)] Cons.prems(1) by (auto simp: retro_call_def reset_ready split: retro_call.splits)
  then have "\<not> srm_header_ok (srm_buffer r1)" using same_header [OF Cons.prems(1)] Cons.prems(2) by blast
  with Cons.IH [OF s(1) _ r1(2)] same_frame_of_trans [OF s(2)] show ?case by blast
qed (simp add: same_frame_of_def)

lemma fills_ready:
  assumes "retro_load_game h n (Some data) r = Some (True, r1)" "length bs = length (srm_buffer r1)"
  shows "shape (host_fills_srm bs r1)" "srm_buffer (host_fills_srm bs r1) = bs"
    "srm_header_ok bs \<Longrightarrow> ready (host_fills_srm bs r1)"
    "srm_header_bytes (host_fills_srm bs r1) = header_span data"
    "srm_flash_bytes (host_fills_srm bs r1) = snd (retro_sizes (sysinfo (header_at data)))"
    "srm_overlay_pending (host_fills_srm bs r1)" "rom (rt_machine (host_fills_srm bs r1)) = rom (rt_machine r1)"
  using load_game_rom [OF assms(1)] assms(2) by (auto simp: host_fills_srm_def current_def shape_def ready_def)

lemma loaded_header_ok: "retro_load_game h n (Some data) r = Some (True, r1) \<Longrightarrow> srm_header_ok (srm_buffer r1)"
proof -
  assume "retro_load_game h n (Some data) r = Some (True, r1)"
  note ld = load_game_rom [OF this]
  have "take (srm_header_bytes r1) (srm_buffer r1) = take (srm_header_bytes r1) data" "40 \<le> srm_header_bytes r1" using ld by blast+
  then show ?thesis using ld header_at_prefix [of "srm_header_bytes r1" "srm_buffer r1" data] by (simp add: srm_header_ok_def)
qed

text \<open>The bytes of flash an image saves: what its header announces.\<close>

definition saved_bytes :: "u8 list \<Rightarrow> nat" where
  "saved_bytes data = snd (retro_sizes (sysinfo (header_at data)))"

text \<open>
  C6: what the host can save is what the machine has. Load a game, let the host put any buffer with a valid header over
  the one it was given (its own, or the one it got), and make any calls with a frame among them: whatever the program
  stored to the flash, the memory handed out is then the header of that buffer and the flash as it stands.
\<close>
theorem libretro_save_ram_current:
  assumes "retro_load_game h n (Some data) r = Some (True, r1)"
    and "length bs = length (srm_buffer r1)" "srm_header_ok bs"
    and "retro_calls p k n cs (host_fills_srm bs r1) = Some r2" "RunFrame h' \<in> set cs"
  shows "retro_get_memory_data 0 r2 =
    Some (take (header_span data) bs @ take (saved_bytes data) (flash_mem (rom (rt_machine r2))))"
proof -
  note f = fills_ready [OF assms(1,2)]
  have c: "current r2" "same_frame_of (host_fills_srm bs r1) r2"
    using calls_ready [OF f(3) [OF assms(3)] assms(4)] assms(5) by blast+
  let ?n = "srm_header_bytes r2"
  have "srm_buffer r2 = take ?n (srm_buffer r2) @ drop ?n (srm_buffer r2)" by simp
  also have "\<dots> = take (header_span data) bs @ take (saved_bytes data) (flash_mem (rom (rt_machine r2)))"
    using c f(2,4,5) by (simp add: same_frame_of_def current_def saved_def saved_bytes_def)
  finally have e: "srm_buffer r2 = take (header_span data) bs @ take (saved_bytes data) (flash_mem (rom (rt_machine r2)))" .
  have "srm_buffer r2 \<noteq> []" using c(1) by (auto simp: current_def shape_def)
  with e show ?thesis by (simp add: retro_get_memory_data_def)
qed

text \<open>
  C7: a saved game comes back. When the host keeps the memory of a session in which a frame ran and fills it in after
  loading the same game again, the first thing the next frame does is to make the flash of that machine what the
  first session left, as far as the game's image reaches.
\<close>
theorem libretro_save_resumes:
  assumes "retro_load_game h n (Some data) r = Some (True, r1)" "retro_calls p k n cs r1 = Some r2" "RunFrame h' \<in> set cs"
    and "retro_get_memory_data 0 r2 = Some bs" "retro_load_game h2 n (Some data) r3 = Some (True, r4)"
  shows "\<exists>r5. apply_overlay (host_fills_srm bs r4) = Inr r5 \<and>
    take (saved_bytes data) (flash_mem (rom (rt_machine r5))) = take (saved_bytes data) (flash_mem (rom (rt_machine r2)))"
proof -
  note ld1 = load_game_rom [OF assms(1)] and ld4 = load_game_rom [OF assms(5)]
  have id: "host_fills_srm (srm_buffer r1) r1 = r1" by (simp add: host_fills_srm_def)
  note ok = loaded_header_ok [OF assms(1)]
  note f1 = fills_ready [OF assms(1) refl, unfolded id]
  have c: "current r2" "same_frame_of r1 r2"
    using calls_ready [OF f1(3) [OF ok] assms(2)] assms(3) by blast+
  have bs: "bs = srm_buffer r2" using assms(4) by (simp add: retro_get_memory_data_def split: if_splits)
  have okbs: "srm_header_ok bs" unfolding bs using same_header [OF f1(1) c(2)] ok by simp
  have len: "length bs = length (srm_buffer r4)"
    using c ld1 ld4 by (simp add: bs current_def shape_def same_frame_of_def)
  note f4 = fills_ready [OF assms(5) len]
  have "srm_header_ok (srm_buffer (host_fills_srm bs r4))" using okbs f4(2) by simp
  from overlay_accepted [OF f4(1,6) this] obtain r5 where r5: "apply_overlay (host_fills_srm bs r4) = Inr r5" "current r5"
    "srm_buffer r5 = bs" "srm_header_bytes r5 = header_span data" "srm_flash_bytes r5 = saved_bytes data"
    using f4(2,4,5) by (auto simp: saved_bytes_def)
  have "take (saved_bytes data) (flash_mem (rom (rt_machine r5))) = drop (header_span data) bs"
    using r5 by (simp add: current_def saved_def)
  also have "\<dots> = take (saved_bytes data) (flash_mem (rom (rt_machine r2)))"
    using c ld1 by (simp add: current_def saved_def same_frame_of_def saved_bytes_def bs)
  finally show ?thesis using r5(1) by blast
qed

text \<open>
  C16: a save whose header is damaged is never repaired. The core leaves such a buffer aside and runs the fresh image, but
  keeps it as the memory it hands out: after any calls, whatever the program saved, the memory still has the damaged
  header, and the next session that is given it starts from the fresh image again.
\<close>
theorem libretro_damaged_save_stays:
  assumes "retro_load_game h n (Some data) r = Some (True, r1)"
    and "length bs = length (srm_buffer r1)" "\<not> srm_header_ok bs"
    and "retro_calls p k n cs (host_fills_srm bs r1) = Some r2" "retro_load_game h2 n (Some data) r3 = Some (True, r4)"
  shows "\<exists>bs' r5. retro_get_memory_data 0 r2 = Some bs' \<and> \<not> srm_header_ok bs' \<and>
    apply_overlay (host_fills_srm bs' r4) = Inr r5 \<and> rom (rt_machine r5) = rom (rt_machine r4)"
proof -
  note f = fills_ready [OF assms(1,2)]
  have bad: "\<not> srm_header_ok (srm_buffer (host_fills_srm bs r1))" using assms(3) f(2) by simp
  have c: "shape r2" "same_frame_of (host_fills_srm bs r1) r2" using calls_refused [OF f(1) bad assms(4)] by blast+
  let ?bs = "srm_buffer r2"
  have bad2: "\<not> srm_header_ok ?bs" using same_header [OF f(1) c(2)] bad by simp
  have len: "length ?bs = length (srm_buffer r4)"
    using c f(4,5) load_game_rom [OF assms(5)] by (simp add: shape_def same_frame_of_def current_def)
  note f4 = fills_ready [OF assms(5) len]
  have "\<not> srm_header_ok (srm_buffer (host_fills_srm ?bs r4))" using bad2 f4(2) by simp
  note o4 = overlay_refused [OF this]
  have ne: "srm_buffer r2 \<noteq> []" using c(1) by (auto simp: shape_def)
  show ?thesis
    by (rule exI [of _ ?bs], rule exI [of _ "(host_fills_srm ?bs r4)\<lparr>srm_overlay_pending := False\<rparr>"])
      (use ne bad2 o4 f4(7) in \<open>simp add: retro_get_memory_data_def\<close>)
qed

section \<open>A session on a blank flash\<close>

definition blank_game :: "u8 list" where
  "blank_game = image_file wb_sample_header (replicate 65536 0xFF)"

lemma le32_ones: "4 \<le> N \<Longrightarrow> le32 (replicate N 0xFF) 0 = 0xFFFFFFFF"
  by (simp add: le32_def)

lemma read_ones:
  assumes "flash_mem (flash (bus m)) = copy_image 0 (replicate 65536 0xFF) (replicate 524288 0xFF)" "flash_read_mode (flash (bus m))"
  shows "\<exists>k. read32 w FLASH_BASE m = (0xFFFFFFFF, charge k m)"
proof -
  have mem: "flash_mem (flash (bus m)) = replicate 524288 0xFF"
    unfolding assms(1) copy_image_def take_replicate drop_replicate length_replicate replicate_add [symmetric] by simp
  then have "le32 (flash_mem (flash (bus m))) 0 = 0xFFFFFFFF" "flash_size (flash (bus m)) = 524288"
    unfolding flash_size_def by (simp_all only: mem le32_ones length_replicate)
  then show ?thesis using assms(2) by (auto simp: read32_def Let_def a28_def classify_def flash_end_def)
qed

lemma blank_game_loads:
  "\<exists>r1. retro_load_game quiet_pad 2 (Some blank_game) r = Some (True, r1) \<and> blank (rt_machine r1) \<and>
     next_timer_wake (run_of (rt_machine r1)) = 0 \<and> tick_burst r1 = tick_burst r"
proof -
  let ?img = "replicate 65536 (0xFF :: u8)" and ?h = wb_sample_header
  have h: "img_offset ?h = 48" "length ?img \<le> unat (pffs_end (sysinfo ?h) - FLASH_BASE)" by (simp_all add: wb_sample_header_def)
  note parts = image_file_parts [OF h, folded blank_game_def]
  have hok: "header_ok blank_game" using parts by (simp add: header_ok_def) (simp add: wb_sample_header_def si_default_def)
  have si: "pfi_read_sysinfo_blob (Some blank_game) = Inr (sysinfo ?h)"
    using hok parts(1) by (simp add: pfi_read_sysinfo_blob_def read_pfi_header_blob_def header_ok_def Let_def SYSINFO_EXPECTED_SIZE_def)
  obtain ram where sz: "retro_sizes (sysinfo ?h) = (ram, 65536)" by (simp add: retro_sizes_def wb_sample_header_def)
  obtain f where f: "sst_for_min_bytes 65536 = Inr f" "fmem f = replicate 524288 0xFF" "fstate f = Normal"
    by (simp add: sst_for_min_bytes_def sst_create_def is_power_of_two_def)
  define b where "b = (install_flash_device (Sst39vf f) (bus_create ram 65536))\<lparr>flash := flash_put 0 ?img (Sst39vf f)\<rparr>"
  have ld: "pfi_load_blob (Some blank_game) (install_flash_device (Sst39vf f) (bus_create ram 65536)) = (Inr (info_of ?h blank_game), b)"
    using hok parts by (simp add: pfi_load_blob_success b_def install_flash_device_def flash_size_def f(2))
      (simp add: wb_sample_header_def)
  define m0 where "m0 = new_machine b (run_of (rt_machine r))"
  have fl: "flash (bus m0) = flash_put 0 ?img (Sst39vf f)" by (simp add: m0_def new_machine_def b_def)
  obtain k where rd: "read32 (lr_wiring quiet_pad 2 m0) FLASH_BASE m0 = (0xFFFFFFFF, charge k m0)"
    using read_ones [of m0 "lr_wiring quiet_pad 2 m0"] by (auto simp: fl f)
  define m3 where "m3 = clear_counters (on_front (\<lambda>g. g\<lparr>cached_hz := cpu_clock_hz (s_clk (dev m0))\<rparr>) (on_cpu (\<lambda>c. c\<lparr>pc := 0xFFFFFFFF\<rparr>) (charge k m0)))"
  have len: "length (flash_mem (rom m3)) = 524288" "flash_size (rom m3) = 524288"
    by (simp_all add: m3_def clear_counters_def fl f(2) flash_size_def)
  then have "build_srm blank_game 65536 (rom m3) \<noteq> None" by (simp add: build_srm_def)
  then obtain buf where buf: "build_srm blank_game 65536 (rom m3) = Some buf" by blast
  have ne: "blank_game \<noteq> []" using parts(3) by auto
  let ?r1 = "update_core_options quiet_pad (r\<lparr>rt_machine := m3, rt_alive := True, srm_buffer := buf, srm_header_bytes := header_span blank_game,
     srm_flash_bytes := 65536, srm_overlay_pending := True\<rparr>)"
  have "retro_load_game quiet_pad 2 (Some blank_game) r = Some (True, ?r1)"
    using ne buf by (simp add: retro_load_game_def si sz f(1) ld rd Let_def flip: m0_def) (simp add: m3_def)
  moreover have "blank m3"
  proof -
    obtain x where dm: "dev m3 = soc_init\<lparr>front := x\<rparr>" by (simp add: m3_def clear_counters_def m0_def new_machine_def charge_def)
    have "asleep (dev m3)" unfolding dm by (simp add: asleep_def soc_init_def wdt_init_def sound_init_def)
    moreover have "intc_wf (s_intc (dev m3))" unfolding dm using quiet_start(2) by (simp add: quiet_def soc_init_def)
    moreover have "soc_wf (dev m3)" unfolding dm by (simp add: soc_init_wf)
    moreover have "cpu m3 = cpu_init\<lparr>pc := 0xFFFFFFFF\<rparr>" "breakpoints m3 = {}" "total m3 = 0"
      by (simp_all add: m3_def clear_counters_def m0_def new_machine_def charge_def)
    ultimately show ?thesis using len(2) by (simp add: blank_def)
  qed
  moreover have "next_timer_wake (run_of m3) = 0" by (simp add: m3_def clear_counters_def)
  moreover have "tick_burst ?r1 = tick_burst r" by (simp add: update_core_options_def quiet_pad_def Let_def)
  ultimately show ?thesis by (intro exI [of _ ?r1]) simp
qed

lemma overlay_blank:
  assumes "blank (rt_machine r)" "apply_overlay r = Inr r0"
  shows "blank (rt_machine r0)" "run_of (rt_machine r0) = run_of (rt_machine r)" "tick_burst r0 = tick_burst r"
proof -
  have size: "flash_size fd' = flash_size fd" if "flash_load_image a d fd = Inr fd'" for a d fd fd'
    using that by (cases fd) (auto simp: flash_size_def flat_load_image_def sst_load_image_def split: if_splits)
  show "blank (rt_machine r0)" "run_of (rt_machine r0) = run_of (rt_machine r)" "tick_burst r0 = tick_burst r"
    using assms by (auto simp: apply_overlay_def on_machine_def blank_def Let_def size split: if_splits sum.splits)
qed

lemma blank_runs:
  assumes "blank (rt_machine r)" "next_timer_wake (run_of (rt_machine r)) = 0" "tick_burst r = 4000" "apply_overlay r = Inr r0"
  shows "\<exists>o' r'. retro_run 2 1 quiet_pad 2 r = Some (o', r')"
proof (cases "rt_alive r")
  case True
  note o = overlay_blank [OF assms(1,4)]
  define r1 where "r1 = retro_input quiet_pad 2 r0"
  have b1: "blank (rt_machine r1)" "next_timer_wake (run_of (rt_machine r1)) = 0" "tick_burst r1 = 4000"
    using blank_keys [OF o(1)] assms(2,3) o(2,3) by (simp_all add: r1_def retro_input_def quiet_pad_def Let_def)
  obtain m1 where "lr_loop 2 1 (tick_burst r1) (frame_target (rt_machine r1)) quiet_pad 2 (rt_machine r1) = Some m1"
    using blank_frame [OF b1(1,2)] b1(3) by fastforce
  then show ?thesis using True assms(4) by (simp add: retro_run_def r1_def Let_def case_prod_beta)
qed (simp add: retro_run_def)

lemma blank_session:
  assumes "retro_load_game quiet_pad 2 (Some blank_game) retro_start = Some (True, r1)" "length bs = length (srm_buffer r1)"
  shows "\<exists>r2. retro_calls 2 1 2 [RunFrame quiet_pad] (host_fills_srm bs r1) = Some r2"
proof -
  have m: "blank (rt_machine r1)" "next_timer_wake (run_of (rt_machine r1)) = 0" "tick_burst r1 = 4000"
    using blank_game_loads [of retro_start] assms(1) by (auto simp: retro_start_def)
  note f = fills_ready [OF assms]
  obtain r0 where "apply_overlay (host_fills_srm bs r1) = Inr r0"
    using overlay_accepted [OF f(1,6)] overlay_refused [of "host_fills_srm bs r1"] by blast
  then have "\<exists>o' r'. retro_run 2 1 quiet_pad 2 (host_fills_srm bs r1) = Some (o', r')"
    using blank_runs [of "host_fills_srm bs r1"] m by (simp add: host_fills_srm_def assms(2))
  then show ?thesis by (auto simp: retro_call_def)
qed

lemma libretro_save_ram_current_witness:
  "\<exists>r1 r2. retro_load_game quiet_pad 2 (Some blank_game) retro_start = Some (True, r1) \<and>
     retro_calls 2 1 2 [RunFrame quiet_pad] (host_fills_srm (srm_buffer r1) r1) = Some r2 \<and>
     retro_get_memory_data 0 r2 = Some (take (header_span blank_game) (srm_buffer r1) @
       take (saved_bytes blank_game) (flash_mem (rom (rt_machine r2))))"
proof -
  obtain r1 where r1: "retro_load_game quiet_pad 2 (Some blank_game) retro_start = Some (True, r1)"
    using blank_game_loads by blast
  obtain r2 where r2: "retro_calls 2 1 2 [RunFrame quiet_pad] (host_fills_srm (srm_buffer r1) r1) = Some r2"
    using blank_session [OF r1 refl] by blast
  from libretro_save_ram_current [OF r1 refl loaded_header_ok [OF r1] r2, of quiet_pad] r1 r2 show ?thesis by auto
qed

lemma libretro_save_resumes_witness:
  "\<exists>r1 r2 bs r4 r5. retro_load_game quiet_pad 2 (Some blank_game) retro_start = Some (True, r1) \<and>
     retro_calls 2 1 2 [RunFrame quiet_pad] r1 = Some r2 \<and> retro_get_memory_data 0 r2 = Some bs \<and>
     retro_load_game quiet_pad 2 (Some blank_game) (retro_unload_game r2) = Some (True, r4) \<and>
     apply_overlay (host_fills_srm bs r4) = Inr r5 \<and>
     take (saved_bytes blank_game) (flash_mem (rom (rt_machine r5))) = take (saved_bytes blank_game) (flash_mem (rom (rt_machine r2)))"
proof -
  obtain r1 where r1: "retro_load_game quiet_pad 2 (Some blank_game) retro_start = Some (True, r1)"
    using blank_game_loads by blast
  have id: "host_fills_srm (srm_buffer r1) r1 = r1" by (simp add: host_fills_srm_def)
  obtain r2 where r2: "retro_calls 2 1 2 [RunFrame quiet_pad] r1 = Some r2"
    using blank_session [OF r1 refl] unfolding id by blast
  note f = fills_ready [OF r1 refl, unfolded id]
  have "current r2" using calls_ready [OF f(3) [OF loaded_header_ok [OF r1]] r2] by auto
  then have "srm_buffer r2 \<noteq> []" by (auto simp: current_def shape_def)
  then obtain bs where bs: "retro_get_memory_data 0 r2 = Some bs" by (auto simp: retro_get_memory_data_def)
  obtain r4 where r4: "retro_load_game quiet_pad 2 (Some blank_game) (retro_unload_game r2) = Some (True, r4)"
    using blank_game_loads by blast
  from libretro_save_resumes [OF r1 r2 _ bs r4, of quiet_pad] show ?thesis using r1 r2 bs r4 by auto
qed

lemma libretro_damaged_save_stays_witness:
  "\<exists>r1 r2 r4 bs' r5. retro_load_game quiet_pad 2 (Some blank_game) retro_start = Some (True, r1) \<and>
     retro_calls 2 1 2 [RunFrame quiet_pad] (host_fills_srm (replicate (length (srm_buffer r1)) 0) r1) = Some r2 \<and>
     retro_get_memory_data 0 r2 = Some bs' \<and> \<not> srm_header_ok bs' \<and>
     retro_load_game quiet_pad 2 (Some blank_game) (retro_unload_game r2) = Some (True, r4) \<and>
     apply_overlay (host_fills_srm bs' r4) = Inr r5 \<and> rom (rt_machine r5) = rom (rt_machine r4)"
proof -
  obtain r1 where r1: "retro_load_game quiet_pad 2 (Some blank_game) retro_start = Some (True, r1)"
    using blank_game_loads by blast
  let ?bs = "replicate (length (srm_buffer r1)) (0 :: u8)"
  have "40 \<le> length (srm_buffer r1)" using load_game_rom [OF r1] by (auto simp: current_def shape_def)
  then have "?bs ! 0 = 0" "?bs ! 1 = 0" "?bs ! 2 = 0" "?bs ! 3 = 0" by (intro nth_replicate, linarith)+
  then have "signature (header_at ?bs) = 0" by (simp add: header_at_def le32_def numeral_eq_Suc)
  then have bad: "\<not> srm_header_ok ?bs" by (simp add: srm_header_ok_def signature_ok_def)
  obtain r2 where r2: "retro_calls 2 1 2 [RunFrame quiet_pad] (host_fills_srm ?bs r1) = Some r2"
    using blank_session [OF r1, of ?bs] by auto
  obtain r4 where r4: "retro_load_game quiet_pad 2 (Some blank_game) (retro_unload_game r2) = Some (True, r4)"
    using blank_game_loads by blast
  from libretro_damaged_save_stays [OF r1 _ bad r2 r4] show ?thesis using r1 r2 r4 by auto
qed

end
