(* ===== verification/Semihost.thy ===== *)
theory Semihost
  imports SocPaths
begin

text \<open>
  The debug ports at 0x060000, \<^verbatim>\<open>src/debug/semihosting.{hpp,cpp}\<close>: a console, a test result, the cycle counter and the
  host clock in halves, register dumps, tracing and breakpoints. The state the handlers capture is a record that the
  devices of the program extend; what the program supplies (\<open>SemiConfig\<close>) is a record of optional functions. The last part
  is the configuration \<^verbatim>\<open>src/main.cpp\<close> supplies.
\<close>

section \<open>State and configuration\<close>

text \<open>Lines printed to the error stream.\<close>

datatype semi_line = TestPass | TestFail u16 | BkptSet u32 | BkptCleared u32

record semi =
  str_addr_lo :: u16
  bkpt_set_lo :: u16
  bkpt_clr_lo :: u16
  latched_cycles :: u64
  latched_time :: u64
  test_result :: int
  con_out :: "u8 list"
  semi_log :: "semi_line list"

definition semi_init :: semi where
  "semi_init = \<lparr> str_addr_lo = 0, bkpt_set_lo = 0, bkpt_clr_lo = 0, latched_cycles = 0, latched_time = 0, test_result = - 1,
     con_out = [], semi_log = [] \<rparr>"

record 'd semi_config =
  get_cycles :: "('d machine \<Rightarrow> u64) option"
  set_trace :: "(bool \<Rightarrow> 'd machine \<Rightarrow> 'd machine) option"
  halt_hook :: "('d machine \<Rightarrow> 'd machine) option"
  snapshot_regs :: "('d machine \<Rightarrow> 'd machine) option"
  set_breakpoint :: "(u32 \<Rightarrow> 'd machine \<Rightarrow> 'd machine) option"
  clear_breakpoint :: "(u32 \<Rightarrow> 'd machine \<Rightarrow> 'd machine) option"

abbreviation (input) SEMI_BASE :: u32 where "SEMI_BASE \<equiv> 0x060000"

section \<open>Handlers\<close>

definition emit :: "u8 \<Rightarrow> 'a semi_scheme machine \<Rightarrow> 'a semi_scheme machine" where
  "emit c = on_dev (\<lambda>d. d\<lparr>con_out := con_out d @ [c]\<rparr>)"

definition semi_print :: "semi_line \<Rightarrow> 'a semi_scheme machine \<Rightarrow> 'a semi_scheme machine" where
  "semi_print l = on_dev (\<lambda>d. d\<lparr>semi_log := semi_log d @ [l]\<rparr>)"

definition run_hook :: "('d machine \<Rightarrow> 'd machine) option \<Rightarrow> 'd machine \<Rightarrow> 'd machine" where
  "run_hook f m = (case f of None \<Rightarrow> m | Some g \<Rightarrow> g m)"

definition addr_of :: "u16 \<Rightarrow> u16 \<Rightarrow> u32" where
  "addr_of lo hi = push_bit 16 (ucast hi) OR ucast lo"

text \<open>The loop of \<open>CONSOLE_STR\<close> over at most 4096 bytes, read over the bus.\<close>

primrec put_string :: "nat \<Rightarrow> 'a semi_scheme wiring \<Rightarrow> u32 \<Rightarrow> 'a semi_scheme machine \<Rightarrow> 'a semi_scheme machine" where
  "put_string 0 w a m = m"
| "put_string (Suc k) w a m = (case read8 w a m of (c, m1) \<Rightarrow> if c = 0 then m1 else put_string k w (a + 1) (emit c m1))"

definition console_str :: "'a semi_scheme wiring \<Rightarrow> u16 \<Rightarrow> 'a semi_scheme machine \<Rightarrow> 'a semi_scheme machine" where
  "console_str w val m = put_string 4096 w (addr_of (str_addr_lo (dev m)) val) m"

definition write_result :: "'a semi_scheme semi_config \<Rightarrow> u16 \<Rightarrow> 'a semi_scheme machine \<Rightarrow> 'a semi_scheme machine" where
  "write_result cfg val m =
    semi_print (if val = 0 then TestPass else TestFail val)
      (run_hook (halt_hook cfg) (on_dev (\<lambda>d. d\<lparr>test_result := uint val\<rparr>) m))"

definition latch_cycles :: "'a semi_scheme semi_config \<Rightarrow> 'a semi_scheme machine \<Rightarrow> u16 \<times> 'a semi_scheme machine" where
  "latch_cycles cfg m =
    (let c = (case get_cycles cfg of None \<Rightarrow> 0 | Some g \<Rightarrow> g m) in (ucast c, on_dev (\<lambda>d. d\<lparr>latched_cycles := c\<rparr>) m))"

definition latch_time :: "u64 \<Rightarrow> 'a semi_scheme machine \<Rightarrow> u16 \<times> 'a semi_scheme machine" where
  "latch_time now m = (ucast now, on_dev (\<lambda>d. d\<lparr>latched_time := now\<rparr>) m)"

definition bkpt_set :: "'a semi_scheme semi_config \<Rightarrow> u16 \<Rightarrow> 'a semi_scheme machine \<Rightarrow> 'a semi_scheme machine" where
  "bkpt_set cfg val m =
    (let a = addr_of (bkpt_set_lo (dev m)) val
     in semi_print (BkptSet a) (run_hook (map_option (\<lambda>f. f a) (set_breakpoint cfg)) m))"

definition bkpt_clr :: "'a semi_scheme semi_config \<Rightarrow> u16 \<Rightarrow> 'a semi_scheme machine \<Rightarrow> 'a semi_scheme machine" where
  "bkpt_clr cfg val m =
    (let a = addr_of (bkpt_clr_lo (dev m)) val
     in semi_print (BkptCleared a) (run_hook (map_option (\<lambda>f. f a) (clear_breakpoint cfg)) m))"

text \<open>A port that is only written reads as 0; one that is only read ignores stores. No port has a byte handler.\<close>

definition wr_port :: "(u16 \<Rightarrow> 'd machine \<Rightarrow> 'd machine) \<Rightarrow> 'd io_handler" where
  "wr_port g = \<lparr> io_read = Some (\<lambda>_ m. (0, m)), io_write = Some (\<lambda>_. g), io_write_byte = None \<rparr>"

definition rd_port :: "('d machine \<Rightarrow> u16 \<times> 'd machine) \<Rightarrow> 'd io_handler" where
  "rd_port f = \<lparr> io_read = Some (\<lambda>_. f), io_write = Some (\<lambda>_ _ m. m), io_write_byte = None \<rparr>"

definition half :: "('d \<Rightarrow> u64) \<Rightarrow> nat \<Rightarrow> 'd machine \<Rightarrow> u16 \<times> 'd machine" where
  "half get k m = (ucast (drop_bit (16 * k) (get (dev m))), m)"

text \<open>The registrations, in their order. \<open>w\<close> is the bus the handlers read, \<open>now\<close> the clock of the host.\<close>

definition semi_io :: "'a semi_scheme semi_config \<Rightarrow> ('a semi_scheme machine \<Rightarrow> u64) \<Rightarrow> 'a semi_scheme wiring \<Rightarrow>
    (u32 \<times> 'a semi_scheme io_handler) list" where
  "semi_io cfg now w =
    [(SEMI_BASE + 0x00, wr_port (\<lambda>v. emit (ucast v))),
     (SEMI_BASE + 0x02, wr_port (\<lambda>v. on_dev (\<lambda>d. d\<lparr>str_addr_lo := v\<rparr>))),
     (SEMI_BASE + 0x04, wr_port (console_str w)),
     (SEMI_BASE + 0x06, wr_port (\<lambda>_ m. m)),
     (SEMI_BASE + 0x08, wr_port (write_result cfg)),
     (SEMI_BASE + 0x0A, wr_port (\<lambda>_ m. m)),
     (SEMI_BASE + 0x0C, rd_port (latch_cycles cfg)),
     (SEMI_BASE + 0x0E, rd_port (half latched_cycles 1)),
     (SEMI_BASE + 0x10, rd_port (half latched_cycles 2)),
     (SEMI_BASE + 0x12, rd_port (half latched_cycles 3)),
     (SEMI_BASE + 0x14, wr_port (\<lambda>_. run_hook (snapshot_regs cfg))),
     (SEMI_BASE + 0x16, wr_port (\<lambda>_ m. m)),
     (SEMI_BASE + 0x18, wr_port (\<lambda>v. run_hook (map_option (\<lambda>f. f (v \<noteq> 0)) (set_trace cfg)))),
     (SEMI_BASE + 0x1A, wr_port (\<lambda>_ m. m)),
     (SEMI_BASE + 0x1C, wr_port (\<lambda>v. on_dev (\<lambda>d. d\<lparr>bkpt_set_lo := v\<rparr>))),
     (SEMI_BASE + 0x1E, wr_port (bkpt_set cfg)),
     (SEMI_BASE + 0x20, wr_port (\<lambda>v. on_dev (\<lambda>d. d\<lparr>bkpt_clr_lo := v\<rparr>))),
     (SEMI_BASE + 0x22, wr_port (bkpt_clr cfg)),
     (SEMI_BASE + 0x24, rd_port (\<lambda>m. latch_time (now m) m)),
     (SEMI_BASE + 0x26, rd_port (half latched_time 1))]"

text \<open>The other devices' wiring with the ports added; level \<open>n\<close> serves reads nested \<open>n\<close> deep in the handlers.\<close>

primrec semi_wiring :: "'a semi_scheme semi_config \<Rightarrow> ('a semi_scheme machine \<Rightarrow> u64) \<Rightarrow> 'a semi_scheme wiring \<Rightarrow> nat \<Rightarrow>
    'a semi_scheme wiring" where
  "semi_wiring cfg now base 0 = base"
| "semi_wiring cfg now base (Suc n) =
    (case attach_io (semi_io cfg now (semi_wiring cfg now base n)) base of Inl _ \<Rightarrow> base | Inr w \<Rightarrow> w)"

text \<open>\<open>semihosting_init\<close> starts from a fresh state.\<close>

definition semihosting_init :: "'a semi_scheme machine \<Rightarrow> 'a semi_scheme machine" where
  "semihosting_init = on_dev (\<lambda>d. d\<lparr>str_addr_lo := 0, bkpt_set_lo := 0, bkpt_clr_lo := 0, latched_cycles := 0, latched_time := 0,
     test_result := - 1\<rparr>)"

definition semihosting_test_result :: "'a semi_scheme machine \<Rightarrow> int" where
  "semihosting_test_result m = test_result (dev m)"

section \<open>The configuration of the program\<close>

record semi_main = semi +
  em_total :: u64
  em_trace :: bool
  em_stop :: bool
  em_gdb :: bool
  em_dumps :: "cpu_state list"

definition main_config :: "'a semi_main_scheme semi_config" where
  "main_config = \<lparr> get_cycles = Some (\<lambda>m. em_total (dev m)),
     set_trace = Some (\<lambda>on. on_dev (\<lambda>d. d\<lparr>em_trace := on\<rparr>)),
     halt_hook = Some (\<lambda>m. on_dev (\<lambda>d. if em_gdb d then d else d\<lparr>em_stop := True\<rparr>) (on_cpu (\<lambda>c. c\<lparr>in_halt := True\<rparr>) m)),
     snapshot_regs = Some (\<lambda>m. on_dev (\<lambda>d. d\<lparr>em_dumps := em_dumps d @ [cpu m]\<rparr>) m),
     set_breakpoint = Some (\<lambda>a m. m\<lparr>breakpoints := insert a (breakpoints m)\<rparr>),
     clear_breakpoint = Some (\<lambda>a m. m\<lparr>breakpoints := breakpoints m - {a}\<rparr>) \<rparr>"

text \<open>The exit status of the program: with a debugger and without.\<close>

definition exit_status :: "bool \<Rightarrow> bool \<Rightarrow> int \<Rightarrow> int" where
  "exit_status gdb faulted result =
    (if gdb then (if result \<noteq> 0 then 1 else 0)
     else if faulted then 1
     else if result = 0 then 0
     else if result = - 1 then 0
     else 1)"

section \<open>The ports are where they are looked for\<close>

lemma semi_slots:
  "map (\<lambda>ah. normalize_io (fst ah)) (semi_io cfg now w) = map fst (semi_io cfg now w)"
  "map (io_index \<circ> fst) (semi_io cfg now w) = [65536..<65556]"
  by (simp_all add: semi_io_def normalize_io_def io_index_def upt_rec)

lemma semi_attached:
  "attach_io (semi_io cfg now (semi_wiring cfg now base n)) base = Inr (semi_wiring cfg now base (Suc n))"
  "(a, h) \<in> set (semi_io cfg now (semi_wiring cfg now base n)) \<Longrightarrow> io_handlers (semi_wiring cfg now base (Suc n)) (io_index a) = h"
  "wp_cb (semi_wiring cfg now base (Suc n)) = wp_cb base"
  "k < 65536 \<Longrightarrow> io_handlers (semi_wiring cfg now base (Suc n)) k = io_handlers base k"
proof -
  let ?hs = "semi_io cfg now (semi_wiring cfg now base n)"
  have "\<forall>a\<in>fst ` set ?hs. 0x40000 \<le> normalize_io a \<and> normalize_io a < 0x80000 \<and> normalize_io a AND 1 = 0"
    by (simp add: semi_io_def normalize_io_def)
  moreover have "distinct (map (io_index \<circ> fst) ?hs)" unfolding semi_slots by simp
  ultimately obtain w where w: "attach_io ?hs base = Inr w" "wp_cb w = wp_cb base" "\<forall>(a, h)\<in>set ?hs. io_handlers w (io_index a) = h"
    "\<forall>k. k \<notin> (io_index \<circ> fst) ` set ?hs \<longrightarrow> io_handlers w k = io_handlers base k"
    using attach_lookup [of ?hs base] by blast
  then show "attach_io ?hs base = Inr (semi_wiring cfg now base (Suc n))" "wp_cb (semi_wiring cfg now base (Suc n)) = wp_cb base"
    "(a, h) \<in> set ?hs \<Longrightarrow> io_handlers (semi_wiring cfg now base (Suc n)) (io_index a) = h" by auto
  have "(io_index \<circ> fst) ` set ?hs = set [65536..<65556]" unfolding semi_slots(2) [of cfg now "semi_wiring cfg now base n", symmetric] by simp
  then show "k < 65536 \<Longrightarrow> io_handlers (semi_wiring cfg now base (Suc n)) k = io_handlers base k" using w by auto
qed

lemma semi_ports:
  "io_handlers (semi_wiring cfg now base (Suc n)) 65536 = wr_port (\<lambda>v. emit (ucast v))"
  "io_handlers (semi_wiring cfg now base (Suc n)) 65537 = wr_port (\<lambda>v. on_dev (\<lambda>d. d\<lparr>str_addr_lo := v\<rparr>))"
  "io_handlers (semi_wiring cfg now base (Suc n)) 65538 = wr_port (console_str (semi_wiring cfg now base n))"
  "io_handlers (semi_wiring cfg now base (Suc n)) 65540 = wr_port (write_result cfg)"
  "io_handlers (semi_wiring cfg now base (Suc n)) 65541 = wr_port (\<lambda>_ m. m)"
  "io_handlers (semi_wiring cfg now base (Suc n)) 65542 = rd_port (latch_cycles cfg)"
  "io_handlers (semi_wiring cfg now base (Suc n)) 65543 = rd_port (half latched_cycles 1)"
  "io_handlers (semi_wiring cfg now base (Suc n)) 65544 = rd_port (half latched_cycles 2)"
  "io_handlers (semi_wiring cfg now base (Suc n)) 65545 = rd_port (half latched_cycles 3)"
proof -
  let ?hs = "semi_io cfg now (semi_wiring cfg now base n)"
  have at: "io_handlers (semi_wiring cfg now base (Suc n)) (io_index (fst (?hs ! i))) = snd (?hs ! i)" if "i < 20" for i
  proof -
    have "?hs ! i \<in> set ?hs" using that by (intro nth_mem) (simp add: semi_io_def)
    then show ?thesis using semi_attached(2) [of "fst (?hs ! i)" "snd (?hs ! i)"] by simp
  qed
  show "io_handlers (semi_wiring cfg now base (Suc n)) 65536 = wr_port (\<lambda>v. emit (ucast v))"
    "io_handlers (semi_wiring cfg now base (Suc n)) 65537 = wr_port (\<lambda>v. on_dev (\<lambda>d. d\<lparr>str_addr_lo := v\<rparr>))"
    "io_handlers (semi_wiring cfg now base (Suc n)) 65538 = wr_port (console_str (semi_wiring cfg now base n))"
    "io_handlers (semi_wiring cfg now base (Suc n)) 65540 = wr_port (write_result cfg)"
    "io_handlers (semi_wiring cfg now base (Suc n)) 65541 = wr_port (\<lambda>_ m. m)"
    "io_handlers (semi_wiring cfg now base (Suc n)) 65542 = rd_port (latch_cycles cfg)"
    "io_handlers (semi_wiring cfg now base (Suc n)) 65543 = rd_port (half latched_cycles 1)"
    "io_handlers (semi_wiring cfg now base (Suc n)) 65544 = rd_port (half latched_cycles 2)"
    "io_handlers (semi_wiring cfg now base (Suc n)) 65545 = rd_port (half latched_cycles 3)"
    using at [of 0] at [of 1] at [of 2] at [of 4] at [of 5] at [of 6] at [of 7] at [of 8] at [of 9]
    by (simp_all add: semi_io_def io_index_def normalize_io_def del: semi_wiring.simps)
qed

text \<open>Accesses of the CPU to the ports, by address.\<close>

lemmas port_access = a28_def classify_def normalize_io_def io_index_def io_slots_def io_read16_def semi_ports wr_port_def rd_port_def

lemma semi_accesses:
  "write16 (semi_wiring cfg now base (Suc n)) 0x060002 v m = on_dev (\<lambda>d. d\<lparr>str_addr_lo := v\<rparr>) m"
  "write16 (semi_wiring cfg now base (Suc n)) 0x060004 v m = console_str (semi_wiring cfg now base n) v m"
  "write32 (semi_wiring cfg now base (Suc n)) 0x060008 x m = write_result cfg (ucast x) m"
  "write32 (semi_wiring cfg now base (Suc n)) 0x060000 x m =
     on_dev (\<lambda>d. d\<lparr>str_addr_lo := ucast (drop_bit 16 x)\<rparr>) (emit (ucast (ucast x :: u16)) m)"
  "read32 (semi_wiring cfg now base (Suc n)) 0x06000C m =
     (case latch_cycles cfg m of (lo, m1) \<Rightarrow> (join16 lo (fst (half latched_cycles 1 m1)), m1))"
  "read32 (semi_wiring cfg now base (Suc n)) 0x060010 m =
     (join16 (fst (half latched_cycles 2 m)) (fst (half latched_cycles 3 m)), m)"
  by (simp_all add: write16_def write32_def read16_def read32_def Let_def port_access half_def case_prod_beta del: semi_wiring.simps)

section \<open>The cycle counter in halves\<close>

lemma join16_halves:
  "push_bit 32 (ucast (join16 (ucast (drop_bit 32 c)) (ucast (drop_bit 48 c)))) OR
    ucast (join16 (ucast c) (ucast (drop_bit 16 c))) = (c :: u64)"
proof (rule bit_word_eqI)
  fix k assume "k < LENGTH(64)"
  then consider "k < 16" | "16 \<le> k" "k < 32" | "32 \<le> k" "k < 48" | "48 \<le> k" "k < 64" by force
  then show "bit (push_bit 32 (ucast (join16 (ucast (drop_bit 32 c)) (ucast (drop_bit 48 c)))) OR
      ucast (join16 (ucast c) (ucast (drop_bit 16 c))) :: u64) k = bit c k"
    by cases (auto simp: join16_def bit_simps)
qed

text \<open>
  C24: a program that reads the cycle counter as two words gets one value of it. The word at 0x06000C takes the count of
  that moment, whatever the counter does afterwards, and as long as nothing reads that port again the word at
  0x060010 is the upper half of the same count.
\<close>
theorem semi_cycles_consistent:
  assumes "get_cycles cfg = Some count" "read32 (semi_wiring cfg now base (Suc n)) 0x06000C m = (lo, m1)"
    and "latched_cycles (dev m2) = latched_cycles (dev m1)" "read32 (semi_wiring cfg now base (Suc n)) 0x060010 m2 = (hi, m3)"
  shows "push_bit 32 (ucast hi) OR ucast lo = count m"
proof -
  have l: "lo = join16 (ucast (count m)) (ucast (drop_bit 16 (count m)))" "latched_cycles (dev m1) = count m"
    using assms(1,2) by (auto simp: semi_accesses latch_cycles_def Let_def half_def simp del: semi_wiring.simps)
  have "hi = join16 (ucast (drop_bit 32 (count m))) (ucast (drop_bit 48 (count m)))"
    using assms(3,4) l(2) by (auto simp: semi_accesses half_def simp del: semi_wiring.simps)
  then show ?thesis using l(1) by (simp only: join16_halves)
qed

section \<open>The console\<close>





section \<open>Results and words\<close>

text \<open>A word stored as the result is judged by its low half, so a code with zeros there passes.\<close>

lemma semi_failed_test_passes:
  "semihosting_test_result (write32 (semi_wiring main_config now base (Suc n)) 0x060008 0x00010000 m) = 0"
  "exit_status False False 0 = 0"
  by (simp_all only: semi_accesses write_result_def semihosting_test_result_def)
    (simp_all add: semi_print_def run_hook_def main_config_def on_dev_def exit_status_def)

text \<open>A debugger session without a result ends with the status of a failure, a plain run without one with success.\<close>

lemma exit_without_result: "exit_status True False (- 1) = 1" "exit_status False False (- 1) = 0"
  by (simp_all add: exit_status_def)

text \<open>A word stored to the console port prints its low byte and loads the address port with its upper half.\<close>

lemma semi_console_word:
  "str_addr_lo (dev (write32 (semi_wiring cfg now base (Suc n)) 0x060000 x m)) = ucast (drop_bit 16 x)"
  by (simp add: semi_accesses(4) del: semi_wiring.simps)

section \<open>Sample accesses\<close>

definition semi_sample :: "u64 \<Rightarrow> semi_main machine" where
  "semi_sample t = \<lparr> cpu = cpu_init, bus = (bus_create 4096 4096)\<lparr>sram := [72, 105] @ replicate 4094 0\<rparr>,
     dev = semi.extend semi_init (semi_main.fields t False False False []), diag_log = [], breakpoints = {}, strict = False \<rparr>"

lemma semi_sample_parts:
  "watchpoints (bus (semi_sample t)) = []" "length (sram (bus (semi_sample t))) = 4096" "con_out (dev (semi_sample t)) = []"
  "em_total (dev (semi_sample t)) = t"
  by (simp_all add: semi_sample_def bus_create_def semi_init_def semi.defs semi_main.defs)

lemma semi_cycles_consistent_witness:
  "\<exists>lo hi m1 m3. read32 (semi_wiring main_config (\<lambda>_. 0) no_wiring 1) 0x06000C (semi_sample 0x123456789ABCDEF0) = (lo, m1) \<and>
     read32 (semi_wiring main_config (\<lambda>_. 0) no_wiring 1) 0x060010 (on_dev (\<lambda>d. d\<lparr>em_total := 7\<rparr>) m1) = (hi, m3) \<and>
     push_bit 32 (ucast hi) OR ucast lo = (0x123456789ABCDEF0 :: u64)"
proof -
  let ?w = "semi_wiring main_config (\<lambda>_. 0) no_wiring 1 :: semi_main wiring" and ?m = "semi_sample 0x123456789ABCDEF0"
  obtain lo m1 where 1: "read32 ?w 0x06000C ?m = (lo, m1)" by force
  let ?m2 = "on_dev (\<lambda>d. d\<lparr>em_total := 7\<rparr>) m1"
  obtain hi m3 where 2: "read32 ?w 0x060010 ?m2 = (hi, m3)" by force
  have g: "get_cycles main_config = Some (\<lambda>m :: semi_main machine. em_total (dev m))" by (simp add: main_config_def)
  have "latched_cycles (dev ?m2) = latched_cycles (dev m1)" by simp
  from semi_cycles_consistent [OF g 1 [unfolded One_nat_def] this 2 [unfolded One_nat_def]] 1 2 show ?thesis by (auto simp: semi_sample_parts)
qed


end
