(* ===== verification/StrFmt.thy ===== *)
theory StrFmt
  imports Prelude
begin

text \<open>
  \<open>piece::format\<close>, the formatter of \<^verbatim>\<open>src/core/strfmt.hpp\<close> for toolchains without \<open>std::format\<close>: a format string with
  replacement fields, decimal and hexadecimal numbers with a width and leading zeros, and the exceptions for what it
  does not support.
\<close>

section \<open>Arguments and fields\<close>

text \<open>Integers are 64 bits wide in the code; an argument here is the value of one, so \<open>fits\<close> below bounds it.\<close>

datatype fmt_arg = ArgSigned int | ArgUnsigned nat | ArgStr string

datatype fmt_error = UnsupportedSpec | BadTypeString | BadTypeInteger | UnterminatedField | PositionalArgs | TooFewArguments

abbreviation (input) NO_TYPE :: char where "NO_TYPE \<equiv> CHR 0x00"

definition is_dec :: "char \<Rightarrow> bool" where
  "is_dec c \<longleftrightarrow> (of_char c :: nat) \<ge> 48 \<and> (of_char c :: nat) \<le> 57"

definition spec_width :: "string \<Rightarrow> nat" where
  "spec_width = foldl (\<lambda>w c. (w * 10 + (of_char c - 48)) mod 2 ^ 64) 0"

text \<open>The digits of a number in the base that the table of digits has, most significant first.\<close>

function radix_text :: "string \<Rightarrow> nat \<Rightarrow> string" where
  "radix_text ds n =
    (if length ds < 2 \<or> n < length ds then [ds ! (n mod length ds)]
     else radix_text ds (n div length ds) @ [ds ! (n mod length ds)])"
  by pat_completeness auto
termination by (relation "measure snd") (auto intro!: div_less_dividend)

declare radix_text.simps [simp del]

definition type_digits :: "char \<Rightarrow> string option" where
  "type_digits ty =
    (if ty = NO_TYPE \<or> ty = CHR ''d'' then Some ''0123456789''
     else if ty = CHR ''x'' then Some ''0123456789abcdef''
     else if ty = CHR ''X'' then Some ''0123456789ABCDEF''
     else None)"

text \<open>Zeros go between the sign and the digits, blanks before the sign.\<close>

definition pad_number :: "bool \<Rightarrow> nat \<Rightarrow> bool \<Rightarrow> string \<Rightarrow> string" where
  "pad_number zero width neg body =
    (let len = length body + (if neg then 1 else 0); sign = (if neg then ''-'' else [])
     in if zero then sign @ replicate (width - len) CHR ''0'' @ body
        else replicate (width - len) CHR '' '' @ sign @ body)"

definition append_field :: "fmt_arg \<Rightarrow> string \<Rightarrow> fmt_error + string" where
  "append_field a spec =
    (let zero = (spec \<noteq> [] \<and> hd spec = CHR ''0'');
         s1 = (if zero then tl spec else spec);
         width = spec_width (takeWhile is_dec s1);
         s2 = dropWhile is_dec s1;
         ty = (if s2 = [] then NO_TYPE else hd s2)
     in if drop 1 s2 \<noteq> [] then Inl UnsupportedSpec
        else case a of
          ArgStr t \<Rightarrow> if ty \<noteq> NO_TYPE \<and> ty \<noteq> CHR ''s'' then Inl BadTypeString else Inr (t @ replicate (width - length t) CHR '' '')
        | ArgUnsigned u \<Rightarrow>
            (case type_digits ty of None \<Rightarrow> Inl BadTypeInteger | Some ds \<Rightarrow> Inr (pad_number zero width False (radix_text ds u)))
        | ArgSigned k \<Rightarrow>
            (case type_digits ty of None \<Rightarrow> Inl BadTypeInteger
             | Some ds \<Rightarrow> Inr (pad_number zero width (k < 0) (radix_text ds (nat \<bar>k\<bar>)))))"

section \<open>The formatter\<close>

abbreviation (input) prepend :: "string \<Rightarrow> fmt_error + string \<Rightarrow> fmt_error + string" where
  "prepend t \<equiv> map_sum id ((@) t)"

function vformat :: "string \<Rightarrow> fmt_arg list \<Rightarrow> fmt_error + string" where
  "vformat [] args = Inr []"
| "vformat (c # cs) args =
    (if c = CHR ''}'' then prepend ''}'' (vformat (if cs \<noteq> [] \<and> hd cs = CHR ''}'' then tl cs else cs) args)
     else if c \<noteq> CHR ''{'' then prepend [c] (vformat cs args)
     else if cs \<noteq> [] \<and> hd cs = CHR ''{'' then prepend ''{'' (vformat (tl cs) args)
     else if CHR ''}'' \<notin> set cs then Inl UnterminatedField
     else let field = takeWhile (\<lambda>d. d \<noteq> CHR ''}'') cs
          in if field \<noteq> [] \<and> hd field \<noteq> CHR '':'' then Inl PositionalArgs
             else if args = [] then Inl TooFewArguments
             else case append_field (hd args) (drop 1 field) of
               Inl e \<Rightarrow> Inl e
             | Inr t \<Rightarrow> prepend t (vformat (drop (Suc (length field)) cs) (tl args)))"
  by pat_completeness auto
termination by (relation "measure (length \<circ> fst)") auto

declare vformat.simps(2) [simp del]

section \<open>Literal text\<close>

lemma vformat_char [simp]: "c \<noteq> CHR ''{'' \<Longrightarrow> c \<noteq> CHR ''}'' \<Longrightarrow> vformat (c # cs) args = prepend [c] (vformat cs args)"
  by (simp add: vformat.simps)

lemma prepend_Inr [simp]: "prepend t (Inr u) = Inr (t @ u)" by simp

text \<open>Doubling the braces of a text.\<close>

definition escape :: "string \<Rightarrow> string" where
  "escape s = concat (map (\<lambda>c. if c = CHR ''{'' \<or> c = CHR ''}'' then [c, c] else [c]) s)"

lemma vformat_escape: "vformat (escape s @ rest) args = prepend s (vformat rest args)"
proof (induction s)
  case Nil
  then show ?case by (cases "vformat rest args") (simp_all add: escape_def)
next
  case (Cons c s)
  have e: "escape (c # s) = (if c = CHR ''{'' \<or> c = CHR ''}'' then [c, c] else [c]) @ escape s" by (simp add: escape_def)
  show ?case using Cons
    by (cases "vformat rest args") (auto simp: e vformat.simps(2) [of c])
qed

section \<open>Fields and numbers\<close>

abbreviation (input) DEC :: string where "DEC \<equiv> ''0123456789''"
abbreviation (input) HEX :: string where "HEX \<equiv> ''0123456789ABCDEF''"

lemma append_field_plain [simp]:
  "append_field (ArgStr t) [] = Inr t"
  "append_field (ArgUnsigned n) [] = Inr (radix_text DEC n)"
  "append_field (ArgSigned k) [] = Inr ((if k < 0 then ''-'' else []) @ radix_text DEC (nat \<bar>k\<bar>))"
  by (simp_all add: append_field_def spec_width_def type_digits_def pad_number_def)

lemma append_field_hex [simp]:
  "append_field (ArgUnsigned n) ''06X'' = Inr (pad_number True 6 False (radix_text HEX n))"
  "append_field (ArgUnsigned n) ''04X'' = Inr (pad_number True 4 False (radix_text HEX n))"
  by (simp_all add: append_field_def spec_width_def type_digits_def is_dec_def)

lemma vformat_field:
  assumes "CHR ''}'' \<notin> set spec" "spec = [] \<or> hd spec = CHR '':''"
  shows "vformat (CHR ''{'' # spec @ CHR ''}'' # cs) (a # args) =
    (case append_field a (drop 1 spec) of Inl e \<Rightarrow> Inl e | Inr t \<Rightarrow> prepend t (vformat cs args))"
proof -
  have tw: "takeWhile (\<lambda>d. d \<noteq> CHR ''}'') (spec @ CHR ''}'' # cs) = spec" using assms(1) by (induction spec) auto
  have h: "spec @ CHR ''}'' # cs \<noteq> [] \<and> hd (spec @ CHR ''}'' # cs) = CHR ''{'' \<longleftrightarrow> False" using assms(2) by (cases spec) auto
  show ?thesis
    by (subst vformat.simps(2), subst h) (simp only: Let_def tw, use assms(2) in \<open>auto split: sum.splits\<close>)
qed

lemmas vformat_plain [simp] = vformat_field [of "[]", simplified]

text \<open>The value of a number in text, and the number a text was made from.\<close>

primrec position :: "char \<Rightarrow> string \<Rightarrow> nat" where
  "position c [] = 0"
| "position c (d # ds) = (if c = d then 0 else Suc (position c ds))"

definition radix_value :: "string \<Rightarrow> string \<Rightarrow> nat" where
  "radix_value ds = foldl (\<lambda>v c. v * length ds + position c ds) 0"

lemma position_nth: "distinct ds \<Longrightarrow> i < length ds \<Longrightarrow> position (ds ! i) ds = i"
  by (induction ds arbitrary: i) (auto simp: nth_Cons split: nat.splits)

lemma radix_value_text:
  assumes "distinct ds" "2 \<le> length ds"
  shows "radix_value ds (radix_text ds n) = n"
proof (induction n rule: less_induct)
  case (less n)
  have b: "position (ds ! (n mod length ds)) ds = n mod length ds"
    using assms by (intro position_nth) (auto intro!: mod_less_divisor)
  show ?case
  proof (cases "n < length ds")
    case True
    then show ?thesis using b by (subst radix_text.simps) (simp add: radix_value_def)
  next
    case False
    then have "radix_value ds (radix_text ds (n div length ds)) = n div length ds"
      using assms by (intro less) (auto intro!: div_less_dividend)
    then show ?thesis using b assms False
      by (subst radix_text.simps) (simp add: radix_value_def)
  qed
qed

section \<open>What a format string gives\<close>

text \<open>A format string from its parts: texts, each followed by a field, and a last text.\<close>

definition fmt_string :: "(string \<times> string \<times> fmt_arg) list \<Rightarrow> string \<Rightarrow> string" where
  "fmt_string ps z = concat (map (\<lambda>(t, spec, a). escape t @ ''{'' @ spec @ ''}'') ps) @ escape z"

definition field_ok :: "string \<times> string \<times> fmt_arg \<Rightarrow> bool" where
  "field_ok p = (case p of (t, spec, a) \<Rightarrow> CHR ''}'' \<notin> set spec \<and> (spec = [] \<or> hd spec = CHR '':''))"

text \<open>
  A format string is filled in from left to right. Literal text, with its braces doubled, comes out as it is, and
  the fields are replaced by the arguments in order; arguments left over are not looked at, and the first field
  that cannot be formatted is the exception of the whole call.
\<close>
theorem format_fills_fields:
  assumes "\<forall>p\<in>set ps. field_ok p"
  shows "vformat (fmt_string ps z) (map (snd \<circ> snd) ps @ extra) =
    foldr (\<lambda>(t, spec, a) r. case append_field a (drop 1 spec) of Inl e \<Rightarrow> Inl e | Inr u \<Rightarrow> prepend (t @ u) r) ps (Inr z)"
  using assms
proof (induction ps)
  case Nil
  then show ?case using vformat_escape [of z "[]" extra] by (simp add: fmt_string_def)
next
  case (Cons p ps)
  obtain t spec a where p: "p = (t, spec, a)" by (cases p)
  have ok: "CHR ''}'' \<notin> set spec" "spec = [] \<or> hd spec = CHR '':''" using Cons.prems p by (auto simp: field_ok_def)
  have s: "fmt_string ((t, spec, a) # ps) z = escape t @ (CHR ''{'' # spec @ CHR ''}'' # fmt_string ps z)"
    by (simp add: fmt_string_def)
  have IH: "vformat (fmt_string ps z) (map (\<lambda>q. snd (snd q)) ps @ extra) = foldr (\<lambda>(t, spec, a) r.
      case append_field a (drop 1 spec) of Inl e \<Rightarrow> Inl e | Inr u \<Rightarrow> prepend (t @ u) r) ps (Inr z)"
    using Cons.IH Cons.prems by (simp add: comp_def)
  have two: "prepend x (prepend y q) = prepend (x @ y) q" for x y q by (cases q) simp_all
  show ?case
    by (simp add: p s vformat_escape vformat_field [OF ok] IH [simplified] two comp_def split: sum.split)
qed

theorem format_fills_fields_witness:
  "vformat ''a{{{}:{:04X}'' [ArgSigned (- 7), ArgUnsigned 0x2F] = Inr ''a{-7:002F''"
  using format_fills_fields [of "[(''a{'', [], ArgSigned (- 7)), ('':'', '':04X'', ArgUnsigned 0x2F)]" "[]" "[]"]
  by (simp add: field_ok_def fmt_string_def escape_def append_field_hex pad_number_def radix_text.simps numeral_2_eq_2)

end
