(* ===== verification/Asm.thy ===== *)
theory Asm
  imports Decode
begin

unbundle bit_operations_syntax

text \<open>
  The encoders of \<^verbatim>\<open>src/core/c33insn.hpp\<close>: one function per instruction form, built from one function per layout of
  fields. A register or small operand is a byte of which the low bits count, a signed one the same byte.
\<close>

definition c33_class :: "u8 \<Rightarrow> u16" where
  "c33_class c = push_bit 13 (ucast (c AND 7))"

section \<open>Class 0\<close>

definition c33_c0a :: "u8 \<Rightarrow> u8 \<Rightarrow> u8 \<Rightarrow> u8 \<Rightarrow> u16" where
  "c33_c0a o1 d o2 r = c33_class 0 OR push_bit 9 (ucast (o1 AND 15)) OR push_bit 8 (ucast (d AND 1)) OR push_bit 6 (ucast (o2 AND 3)) OR ucast (r AND 15)"
definition c33_nop :: "u16" where "c33_nop = c33_c0a 0 0 0 0"
definition c33_slp :: "u16" where "c33_slp = c33_c0a 0 1 0 0"
definition c33_halt :: "u16" where "c33_halt = c33_c0a 0 2 0 0"
definition c33_pushn :: "u8 \<Rightarrow> u16" where "c33_pushn y = c33_c0a 1 0 0 y"
definition c33_popn :: "u8 \<Rightarrow> u16" where "c33_popn x = c33_c0a 1 1 0 x"
definition c33_brk :: "u16" where "c33_brk = c33_c0a 2 0 0 0"
definition c33_retd :: "u16" where "c33_retd = c33_c0a 2 1 0 0"
definition c33_int :: "u8 \<Rightarrow> u16" where "c33_int k = c33_c0a 2 2 0 (k AND 3)"
definition c33_reti :: "u16" where "c33_reti = c33_c0a 2 3 0 0"
definition c33_call :: "u8 \<Rightarrow> u8 \<Rightarrow> u16" where "c33_call b d = c33_c0a 3 0 d b"
definition c33_ret :: "u8 \<Rightarrow> u16" where "c33_ret d = c33_c0a 3 1 d 0"
definition c33_jp_rb :: "u8 \<Rightarrow> u8 \<Rightarrow> u16" where "c33_jp_rb b d = c33_c0a 3 2 d b"
definition c33_c0b :: "u8 \<Rightarrow> u8 \<Rightarrow> u8 \<Rightarrow> u16" where
  "c33_c0b o1 d k = c33_class 0 OR push_bit 9 (ucast (o1 AND 15)) OR push_bit 8 (ucast (d AND 1)) OR ucast (k AND 0xff)"
definition c33_jrgt_sign8 :: "u8 \<Rightarrow> u8 \<Rightarrow> u16" where "c33_jrgt_sign8 k d = c33_c0b 4 d k"
definition c33_jrge_sign8 :: "u8 \<Rightarrow> u8 \<Rightarrow> u16" where "c33_jrge_sign8 k d = c33_c0b 5 d k"
definition c33_jrlt_sign8 :: "u8 \<Rightarrow> u8 \<Rightarrow> u16" where "c33_jrlt_sign8 k d = c33_c0b 6 d k"
definition c33_jrle_sign8 :: "u8 \<Rightarrow> u8 \<Rightarrow> u16" where "c33_jrle_sign8 k d = c33_c0b 7 d k"
definition c33_jrugt_sign8 :: "u8 \<Rightarrow> u8 \<Rightarrow> u16" where "c33_jrugt_sign8 k d = c33_c0b 8 d k"
definition c33_jruge_sign8 :: "u8 \<Rightarrow> u8 \<Rightarrow> u16" where "c33_jruge_sign8 k d = c33_c0b 9 d k"
definition c33_jrult_sign8 :: "u8 \<Rightarrow> u8 \<Rightarrow> u16" where "c33_jrult_sign8 k d = c33_c0b 10 d k"
definition c33_jrule_sign8 :: "u8 \<Rightarrow> u8 \<Rightarrow> u16" where "c33_jrule_sign8 k d = c33_c0b 11 d k"
definition c33_jreq_sign8 :: "u8 \<Rightarrow> u8 \<Rightarrow> u16" where "c33_jreq_sign8 k d = c33_c0b 12 d k"
definition c33_jrne_sign8 :: "u8 \<Rightarrow> u8 \<Rightarrow> u16" where "c33_jrne_sign8 k d = c33_c0b 13 d k"
definition c33_call_sign8 :: "u8 \<Rightarrow> u8 \<Rightarrow> u16" where "c33_call_sign8 k d = c33_c0b 14 d k"
definition c33_jp_sign8 :: "u8 \<Rightarrow> u8 \<Rightarrow> u16" where "c33_jp_sign8 k d = c33_c0b 15 d k"

section \<open>Class 1\<close>

definition c33_c1a :: "u8 \<Rightarrow> u8 \<Rightarrow> u8 \<Rightarrow> u8 \<Rightarrow> u16" where
  "c33_c1a o1 o2 b r = c33_class 1 OR push_bit 10 (ucast (o1 AND 7)) OR push_bit 8 (ucast (o2 AND 3)) OR push_bit 4 (ucast (b AND 15)) OR ucast (r AND 15)"
definition c33_ld_b_rd_ind_rb :: "u8 \<Rightarrow> u8 \<Rightarrow> u16" where "c33_ld_b_rd_ind_rb x b = c33_c1a 0 0 b x"
definition c33_ld_ub_rd_ind_rb :: "u8 \<Rightarrow> u8 \<Rightarrow> u16" where "c33_ld_ub_rd_ind_rb x b = c33_c1a 1 0 b x"
definition c33_ld_h_rd_ind_rb :: "u8 \<Rightarrow> u8 \<Rightarrow> u16" where "c33_ld_h_rd_ind_rb x b = c33_c1a 2 0 b x"
definition c33_ld_uh_rd_ind_rb :: "u8 \<Rightarrow> u8 \<Rightarrow> u16" where "c33_ld_uh_rd_ind_rb x b = c33_c1a 3 0 b x"
definition c33_ld_w_rd_ind_rb :: "u8 \<Rightarrow> u8 \<Rightarrow> u16" where "c33_ld_w_rd_ind_rb x b = c33_c1a 4 0 b x"
definition c33_ld_b_ind_rb_rs :: "u8 \<Rightarrow> u8 \<Rightarrow> u16" where "c33_ld_b_ind_rb_rs b y = c33_c1a 5 0 b y"
definition c33_ld_h_ind_rb_rs :: "u8 \<Rightarrow> u8 \<Rightarrow> u16" where "c33_ld_h_ind_rb_rs b y = c33_c1a 6 0 b y"
definition c33_ld_w_ind_rb_rs :: "u8 \<Rightarrow> u8 \<Rightarrow> u16" where "c33_ld_w_ind_rb_rs b y = c33_c1a 7 0 b y"
definition c33_ld_b_rd_ind_rb_PI :: "u8 \<Rightarrow> u8 \<Rightarrow> u16" where "c33_ld_b_rd_ind_rb_PI x b = c33_c1a 0 1 b x"
definition c33_ld_ub_rd_ind_rb_PI :: "u8 \<Rightarrow> u8 \<Rightarrow> u16" where "c33_ld_ub_rd_ind_rb_PI x b = c33_c1a 1 1 b x"
definition c33_ld_h_rd_ind_rb_PI :: "u8 \<Rightarrow> u8 \<Rightarrow> u16" where "c33_ld_h_rd_ind_rb_PI x b = c33_c1a 2 1 b x"
definition c33_ld_uh_rd_ind_rb_PI :: "u8 \<Rightarrow> u8 \<Rightarrow> u16" where "c33_ld_uh_rd_ind_rb_PI x b = c33_c1a 3 1 b x"
definition c33_ld_w_rd_ind_rb_PI :: "u8 \<Rightarrow> u8 \<Rightarrow> u16" where "c33_ld_w_rd_ind_rb_PI x b = c33_c1a 4 1 b x"
definition c33_ld_b_ind_rb_PI_rs :: "u8 \<Rightarrow> u8 \<Rightarrow> u16" where "c33_ld_b_ind_rb_PI_rs b y = c33_c1a 5 1 b y"
definition c33_ld_h_ind_rb_PI_rs :: "u8 \<Rightarrow> u8 \<Rightarrow> u16" where "c33_ld_h_ind_rb_PI_rs b y = c33_c1a 6 1 b y"
definition c33_ld_w_ind_rb_PI_rs :: "u8 \<Rightarrow> u8 \<Rightarrow> u16" where "c33_ld_w_ind_rb_PI_rs b y = c33_c1a 7 1 b y"
definition c33_c1b :: "u8 \<Rightarrow> u8 \<Rightarrow> u8 \<Rightarrow> u8 \<Rightarrow> u16" where
  "c33_c1b o1 o2 s r = c33_class 1 OR push_bit 10 (ucast (o1 AND 7)) OR push_bit 8 (ucast (o2 AND 3)) OR push_bit 4 (ucast (s AND 15)) OR ucast (r AND 15)"
definition c33_add_rd_rs :: "u8 \<Rightarrow> u8 \<Rightarrow> u16" where "c33_add_rd_rs x y = c33_c1b 0 2 y x"
definition c33_sub_rd_rs :: "u8 \<Rightarrow> u8 \<Rightarrow> u16" where "c33_sub_rd_rs x y = c33_c1b 1 2 y x"
definition c33_cmp_rd_rs :: "u8 \<Rightarrow> u8 \<Rightarrow> u16" where "c33_cmp_rd_rs x y = c33_c1b 2 2 y x"
definition c33_ld_w_rd_rs :: "u8 \<Rightarrow> u8 \<Rightarrow> u16" where "c33_ld_w_rd_rs x y = c33_c1b 3 2 y x"
definition c33_and_rd_rs :: "u8 \<Rightarrow> u8 \<Rightarrow> u16" where "c33_and_rd_rs x y = c33_c1b 4 2 y x"
definition c33_or_rd_rs :: "u8 \<Rightarrow> u8 \<Rightarrow> u16" where "c33_or_rd_rs x y = c33_c1b 5 2 y x"
definition c33_xor_rd_rs :: "u8 \<Rightarrow> u8 \<Rightarrow> u16" where "c33_xor_rd_rs x y = c33_c1b 6 2 y x"
definition c33_not_rd_rs :: "u8 \<Rightarrow> u8 \<Rightarrow> u16" where "c33_not_rd_rs x y = c33_c1b 7 2 y x"

section \<open>Class 2\<close>

definition c33_c2 :: "u8 \<Rightarrow> u8 \<Rightarrow> u8 \<Rightarrow> u16" where
  "c33_c2 o1 k r = c33_class 2 OR push_bit 10 (ucast (o1 AND 7)) OR push_bit 4 (ucast (k AND 63)) OR ucast (r AND 15)"
definition c33_ld_b_rd_ind_sp_imm6 :: "u8 \<Rightarrow> u8 \<Rightarrow> u16" where "c33_ld_b_rd_ind_sp_imm6 x k = c33_c2 0 k x"
definition c33_ld_ub_rd_ind_sp_imm6 :: "u8 \<Rightarrow> u8 \<Rightarrow> u16" where "c33_ld_ub_rd_ind_sp_imm6 x k = c33_c2 1 k x"
definition c33_ld_h_rd_ind_sp_imm6 :: "u8 \<Rightarrow> u8 \<Rightarrow> u16" where "c33_ld_h_rd_ind_sp_imm6 x k = c33_c2 2 k x"
definition c33_ld_uh_rd_ind_sp_imm6 :: "u8 \<Rightarrow> u8 \<Rightarrow> u16" where "c33_ld_uh_rd_ind_sp_imm6 x k = c33_c2 3 k x"
definition c33_ld_w_rd_ind_sp_imm6 :: "u8 \<Rightarrow> u8 \<Rightarrow> u16" where "c33_ld_w_rd_ind_sp_imm6 x k = c33_c2 4 k x"
definition c33_ld_b_ind_sp_imm6_rs :: "u8 \<Rightarrow> u8 \<Rightarrow> u16" where "c33_ld_b_ind_sp_imm6_rs k y = c33_c2 5 k y"
definition c33_ld_h_ind_sp_imm6_rs :: "u8 \<Rightarrow> u8 \<Rightarrow> u16" where "c33_ld_h_ind_sp_imm6_rs k y = c33_c2 6 k y"
definition c33_ld_w_ind_sp_imm6_rs :: "u8 \<Rightarrow> u8 \<Rightarrow> u16" where "c33_ld_w_ind_sp_imm6_rs k y = c33_c2 7 k y"

section \<open>Class 3\<close>

definition c33_c3 :: "u8 \<Rightarrow> u8 \<Rightarrow> u8 \<Rightarrow> u16" where
  "c33_c3 o1 k r = c33_class 3 OR push_bit 10 (ucast (o1 AND 7)) OR push_bit 4 (ucast (k AND 63)) OR ucast (r AND 15)"
definition c33_add_rd_imm6 :: "u8 \<Rightarrow> u8 \<Rightarrow> u16" where "c33_add_rd_imm6 x k = c33_c3 0 k x"
definition c33_sub_rd_imm6 :: "u8 \<Rightarrow> u8 \<Rightarrow> u16" where "c33_sub_rd_imm6 x k = c33_c3 1 k x"
definition c33_cmp_rd_sign6 :: "u8 \<Rightarrow> u8 \<Rightarrow> u16" where "c33_cmp_rd_sign6 x k = c33_c3 2 k x"
definition c33_ld_w_rd_sign6 :: "u8 \<Rightarrow> u8 \<Rightarrow> u16" where "c33_ld_w_rd_sign6 x k = c33_c3 3 k x"
definition c33_and_rd_sign6 :: "u8 \<Rightarrow> u8 \<Rightarrow> u16" where "c33_and_rd_sign6 x k = c33_c3 4 k x"
definition c33_or_rd_sign6 :: "u8 \<Rightarrow> u8 \<Rightarrow> u16" where "c33_or_rd_sign6 x k = c33_c3 5 k x"
definition c33_xor_rd_sign6 :: "u8 \<Rightarrow> u8 \<Rightarrow> u16" where "c33_xor_rd_sign6 x k = c33_c3 6 k x"
definition c33_not_rd_sign6 :: "u8 \<Rightarrow> u8 \<Rightarrow> u16" where "c33_not_rd_sign6 x k = c33_c3 7 k x"

section \<open>Class 4\<close>

definition c33_c4a :: "u8 \<Rightarrow> u16 \<Rightarrow> u16" where
  "c33_c4a o1 k = c33_class 4 OR push_bit 10 (ucast (o1 AND 7)) OR (k AND 0x3ff)"
definition c33_add_sp_imm10 :: "u16 \<Rightarrow> u16" where "c33_add_sp_imm10 k = c33_c4a 0 k"
definition c33_sub_sp_imm10 :: "u16 \<Rightarrow> u16" where "c33_sub_sp_imm10 k = c33_c4a 1 k"
definition c33_c4b :: "u8 \<Rightarrow> u8 \<Rightarrow> u8 \<Rightarrow> u8 \<Rightarrow> u16" where
  "c33_c4b o1 o2 k r = c33_class 4 OR push_bit 10 (ucast (o1 AND 7)) OR push_bit 8 (ucast (o2 AND 3)) OR push_bit 4 (ucast (k AND 15)) OR ucast (r AND 15)"
definition c33_srl_rd_imm4 :: "u8 \<Rightarrow> u8 \<Rightarrow> u16" where "c33_srl_rd_imm4 x k = c33_c4b 2 0 k x"
definition c33_sll_rd_imm4 :: "u8 \<Rightarrow> u8 \<Rightarrow> u16" where "c33_sll_rd_imm4 x k = c33_c4b 3 0 k x"
definition c33_sra_rd_imm4 :: "u8 \<Rightarrow> u8 \<Rightarrow> u16" where "c33_sra_rd_imm4 x k = c33_c4b 4 0 k x"
definition c33_sla_rd_imm4 :: "u8 \<Rightarrow> u8 \<Rightarrow> u16" where "c33_sla_rd_imm4 x k = c33_c4b 5 0 k x"
definition c33_rr_rd_imm4 :: "u8 \<Rightarrow> u8 \<Rightarrow> u16" where "c33_rr_rd_imm4 x k = c33_c4b 6 0 k x"
definition c33_rl_rd_imm4 :: "u8 \<Rightarrow> u8 \<Rightarrow> u16" where "c33_rl_rd_imm4 x k = c33_c4b 7 0 k x"
definition c33_srl_rd_rs :: "u8 \<Rightarrow> u8 \<Rightarrow> u16" where "c33_srl_rd_rs x y = c33_c4b 2 1 y x"
definition c33_sll_rd_rs :: "u8 \<Rightarrow> u8 \<Rightarrow> u16" where "c33_sll_rd_rs x y = c33_c4b 3 1 y x"
definition c33_sra_rd_rs :: "u8 \<Rightarrow> u8 \<Rightarrow> u16" where "c33_sra_rd_rs x y = c33_c4b 4 1 y x"
definition c33_sla_rd_rs :: "u8 \<Rightarrow> u8 \<Rightarrow> u16" where "c33_sla_rd_rs x y = c33_c4b 5 1 y x"
definition c33_rr_rd_rs :: "u8 \<Rightarrow> u8 \<Rightarrow> u16" where "c33_rr_rd_rs x y = c33_c4b 6 1 y x"
definition c33_rl_rd_rs :: "u8 \<Rightarrow> u8 \<Rightarrow> u16" where "c33_rl_rd_rs x y = c33_c4b 7 1 y x"
definition c33_c4c :: "u8 \<Rightarrow> u8 \<Rightarrow> u8 \<Rightarrow> u8 \<Rightarrow> u16" where
  "c33_c4c o1 o2 s r = c33_class 4 OR push_bit 10 (ucast (o1 AND 7)) OR push_bit 8 (ucast (o2 AND 3)) OR push_bit 4 (ucast (s AND 15)) OR ucast (r AND 15)"
definition c33_scan0_rd_rs :: "u8 \<Rightarrow> u8 \<Rightarrow> u16" where "c33_scan0_rd_rs x y = c33_c4c 2 2 y x"
definition c33_scan1_rd_rs :: "u8 \<Rightarrow> u8 \<Rightarrow> u16" where "c33_scan1_rd_rs x y = c33_c4c 3 2 y x"
definition c33_swap_rd_rs :: "u8 \<Rightarrow> u8 \<Rightarrow> u16" where "c33_swap_rd_rs x y = c33_c4c 4 2 y x"
definition c33_mirror_rd_rs :: "u8 \<Rightarrow> u8 \<Rightarrow> u16" where "c33_mirror_rd_rs x y = c33_c4c 5 2 y x"
definition c33_div0s_rs :: "u8 \<Rightarrow> u16" where "c33_div0s_rs y = c33_c4c 2 3 y 0"
definition c33_div0u_rs :: "u8 \<Rightarrow> u16" where "c33_div0u_rs y = c33_c4c 3 3 y 0"
definition c33_div1_rs :: "u8 \<Rightarrow> u16" where "c33_div1_rs y = c33_c4c 4 3 y 0"
definition c33_div2s_rs :: "u8 \<Rightarrow> u16" where "c33_div2s_rs y = c33_c4c 5 3 y 0"
definition c33_div3s :: "u16" where "c33_div3s = c33_c4c 6 3 0 0"

section \<open>Class 5\<close>

definition c33_c5a :: "u8 \<Rightarrow> u8 \<Rightarrow> u8 \<Rightarrow> u8 \<Rightarrow> u16" where
  "c33_c5a o1 o2 s r = c33_class 5 OR push_bit 10 (ucast (o1 AND 7)) OR push_bit 8 (ucast (o2 AND 3)) OR push_bit 4 (ucast (s AND 15)) OR ucast (r AND 15)"
definition c33_ld_w_sd_rs :: "u8 \<Rightarrow> u8 \<Rightarrow> u16" where "c33_ld_w_sd_rs x y = c33_c5a 0 0 y x"
definition c33_ld_w_rd_ss :: "u8 \<Rightarrow> u8 \<Rightarrow> u16" where "c33_ld_w_rd_ss x y = c33_c5a 1 0 y x"
definition c33_c5b :: "u8 \<Rightarrow> u8 \<Rightarrow> u8 \<Rightarrow> u8 \<Rightarrow> u16" where
  "c33_c5b o1 o2 b k = c33_class 5 OR push_bit 10 (ucast (o1 AND 7)) OR push_bit 8 (ucast (o2 AND 3)) OR push_bit 4 (ucast (b AND 15)) OR ucast (k AND 7)"
definition c33_btst_ind_rb_imm3 :: "u8 \<Rightarrow> u8 \<Rightarrow> u16" where "c33_btst_ind_rb_imm3 b k = c33_c5b 2 0 b k"
definition c33_bclr_ind_rb_imm3 :: "u8 \<Rightarrow> u8 \<Rightarrow> u16" where "c33_bclr_ind_rb_imm3 b k = c33_c5b 3 0 b k"
definition c33_bset_ind_rb_imm3 :: "u8 \<Rightarrow> u8 \<Rightarrow> u16" where "c33_bset_ind_rb_imm3 b k = c33_c5b 4 0 b k"
definition c33_bnot_ind_rb_imm3 :: "u8 \<Rightarrow> u8 \<Rightarrow> u16" where "c33_bnot_ind_rb_imm3 b k = c33_c5b 5 0 b k"
definition c33_c5c :: "u8 \<Rightarrow> u8 \<Rightarrow> u8 \<Rightarrow> u8 \<Rightarrow> u16" where
  "c33_c5c o1 o2 s r = c33_class 5 OR push_bit 10 (ucast (o1 AND 7)) OR push_bit 8 (ucast (o2 AND 3)) OR push_bit 4 (ucast (s AND 15)) OR ucast (r AND 15)"
definition c33_adc_rd_rs :: "u8 \<Rightarrow> u8 \<Rightarrow> u16" where "c33_adc_rd_rs x y = c33_c5c 6 0 y x"
definition c33_sbc_rd_rs :: "u8 \<Rightarrow> u8 \<Rightarrow> u16" where "c33_sbc_rd_rs x y = c33_c5c 7 0 y x"
definition c33_ld_b_rd_rs :: "u8 \<Rightarrow> u8 \<Rightarrow> u16" where "c33_ld_b_rd_rs x y = c33_c5c 0 1 y x"
definition c33_ld_ub_rd_rs :: "u8 \<Rightarrow> u8 \<Rightarrow> u16" where "c33_ld_ub_rd_rs x y = c33_c5c 1 1 y x"
definition c33_ld_h_rd_rs :: "u8 \<Rightarrow> u8 \<Rightarrow> u16" where "c33_ld_h_rd_rs x y = c33_c5c 2 1 y x"
definition c33_ld_uh_rd_rs :: "u8 \<Rightarrow> u8 \<Rightarrow> u16" where "c33_ld_uh_rd_rs x y = c33_c5c 3 1 y x"
definition c33_mlt_h_rd_rs :: "u8 \<Rightarrow> u8 \<Rightarrow> u16" where "c33_mlt_h_rd_rs x y = c33_c5c 0 2 y x"
definition c33_mltu_h_rd_rs :: "u8 \<Rightarrow> u8 \<Rightarrow> u16" where "c33_mltu_h_rd_rs x y = c33_c5c 1 2 y x"
definition c33_mlt_w_rd_rs :: "u8 \<Rightarrow> u8 \<Rightarrow> u16" where "c33_mlt_w_rd_rs x y = c33_c5c 2 2 y x"
definition c33_mltu_w_rd_rs :: "u8 \<Rightarrow> u8 \<Rightarrow> u16" where "c33_mltu_w_rd_rs x y = c33_c5c 3 2 y x"
definition c33_mac_rs :: "u8 \<Rightarrow> u16" where "c33_mac_rs y = c33_c5c 4 2 y 0"

section \<open>Class 6\<close>

definition c33_c6 :: "u16 \<Rightarrow> u16" where
  "c33_c6 k = c33_class 6 OR (k AND 0x1fff)"
definition c33_ext_imm13 :: "u16 \<Rightarrow> u16" where "c33_ext_imm13 k = c33_c6 k"

section \<open>Class 7\<close>

definition c33_c7 :: "u16" where
  "c33_c7 = c33_class 7"

section \<open>The fields of an encoded instruction\<close>

text \<open>One layout at a time, bit by bit: what the decoder reads is what the encoder was given, cut to its width.\<close>

lemma u16_eqI: "(\<And>n. n < 16 \<Longrightarrow> bit (x :: u16) n = bit y n) \<Longrightarrow> x = y"
  by (rule bit_word_eqI) simp

lemma asm_masks:
  "(3 :: 'a::len word) = mask 2" "(7 :: 'a::len word) = mask 3" "(15 :: 'a::len word) = mask 4" "(63 :: 'a::len word) = mask 6"
  "(255 :: 'a::len word) = mask 8" "(1023 :: 'a::len word) = mask 10" "(8191 :: 'a::len word) = mask 13"
  by (simp_all add: mask_eq_exp_minus_1)

lemma regs_fields:
  fixes c o1 o2 b r :: u8
  defines "i \<equiv> c33_class c OR push_bit 10 (ucast (o1 AND 7)) OR push_bit 8 (ucast (o2 AND 3)) OR push_bit 4 (ucast (b AND 15)) OR ucast (r AND 15)"
  shows "drop_bit 13 i AND 7 = ucast (c AND 7)" "drop_bit 10 i AND 7 = ucast (o1 AND 7)" "drop_bit 8 i AND 3 = ucast (o2 AND 3)"
    "drop_bit 4 i AND 15 = ucast (b AND 15)" "i AND 15 = ucast (r AND 15)"
  unfolding i_def c33_class_def asm_masks by (rule u16_eqI; auto simp: bit_simps)+

lemma bit_op_fields:
  fixes c o1 o2 b r :: u8
  defines "i \<equiv> c33_class c OR push_bit 10 (ucast (o1 AND 7)) OR push_bit 8 (ucast (o2 AND 3)) OR push_bit 4 (ucast (b AND 15)) OR ucast (r AND 7)"
  shows "drop_bit 13 i AND 7 = ucast (c AND 7)" "drop_bit 10 i AND 7 = ucast (o1 AND 7)" "drop_bit 8 i AND 3 = ucast (o2 AND 3)"
    "drop_bit 4 i AND 15 = ucast (b AND 15)" "i AND 7 = ucast (r AND 7)"
  unfolding i_def c33_class_def asm_masks by (rule u16_eqI; auto simp: bit_simps)+

lemma imm_fields:
  fixes c o1 k r :: u8
  defines "i \<equiv> c33_class c OR push_bit 10 (ucast (o1 AND 7)) OR push_bit 4 (ucast (k AND 63)) OR ucast (r AND 15)"
  shows "drop_bit 13 i AND 7 = ucast (c AND 7)" "drop_bit 10 i AND 7 = ucast (o1 AND 7)"
    "drop_bit 4 i AND 63 = ucast (k AND 63)" "i AND 15 = ucast (r AND 15)"
  unfolding i_def c33_class_def asm_masks by (rule u16_eqI; auto simp: bit_simps)+

lemma sp_fields:
  fixes c o1 :: u8 and k :: u16
  defines "i \<equiv> c33_class c OR push_bit 10 (ucast (o1 AND 7)) OR k AND 1023"
  shows "drop_bit 13 i AND 7 = ucast (c AND 7)" "drop_bit 10 i AND 7 = ucast (o1 AND 7)" "i AND 1023 = k AND 1023"
  unfolding i_def c33_class_def asm_masks by (rule u16_eqI; auto simp: bit_simps)+

lemma branch_fields:
  fixes o1 d k :: u8
  defines "i \<equiv> c33_class 0 OR push_bit 9 (ucast (o1 AND 15)) OR push_bit 8 (ucast (d AND 1)) OR ucast (k AND 255)"
  shows "drop_bit 13 i AND 7 = 0" "drop_bit 9 i AND 15 = ucast (o1 AND 15)" "drop_bit 8 i AND 1 = ucast (d AND 1)"
    "i AND 255 = ucast (k AND 255)"
  unfolding i_def c33_class_def asm_masks by (rule u16_eqI; auto simp: bit_simps)+

lemma single_fields:
  fixes o1 d o2 r :: u8
  defines "i \<equiv> c33_class 0 OR push_bit 9 (ucast (o1 AND 15)) OR push_bit 8 (ucast (d AND 1)) OR push_bit 6 (ucast (o2 AND 3)) OR ucast (r AND 15)"
  shows "drop_bit 13 i AND 7 = 0" "drop_bit 9 i AND 15 = ucast (o1 AND 15)" "drop_bit 8 i AND 1 = ucast (d AND 1)"
    "drop_bit 6 i AND 3 = ucast (o2 AND 3)" "i AND 15 = ucast (r AND 15)" "i AND 3 = ucast (r AND 3)"
  unfolding i_def c33_class_def asm_masks by (rule u16_eqI; auto simp: bit_simps)+

lemma ext_fields:
  fixes c :: u8 and k :: u16
  defines "i \<equiv> c33_class c OR k AND 8191"
  shows "drop_bit 13 i AND 7 = ucast (c AND 7)" "i AND 8191 = k AND 8191"
  unfolding i_def c33_class_def asm_masks by (rule u16_eqI; auto simp: bit_simps)+

section \<open>Through the accessors of the decoder\<close>

lemmas accessors = cls_def op1_def op2_def c0_op1_def c0_op2_def rd_def rs_def rb_def dbit_def imm2_def imm3_def imm6_def
  imm10_def imm13_def sign8_def

lemma unat_u8_u16 [simp]: "unat (ucast (x :: u8) :: u16) = unat x"
proof -
  have "unat x < 2 ^ 16" using unsigned_less [of x, where ?'a = nat] by simp
  then show ?thesis by (simp add: unsigned_ucast_eq take_bit_nat_eq_self)
qed

lemma u8_u16_u32 [simp]: "(ucast (ucast (x :: u8) :: u16) :: u32) = ucast x"
  by (rule bit_word_eqI) (auto simp: bit_simps dest: bit_imp_le_length)

lemma u8_u16_zero [simp]: "(ucast (x :: u8) :: u16) = 0 \<longleftrightarrow> x = 0"
  by (simp flip: unat_eq_zero)

lemma c1a_fields [simp]:
  "cls (c33_c1a o1 o2 b r) = 1"
  "op1 (c33_c1a o1 o2 b r) = unat (o1 AND 7)"
  "op2 (c33_c1a o1 o2 b r) = unat (o2 AND 3)"
  "rb (c33_c1a o1 o2 b r) = unat (b AND 15)"
  "rs (c33_c1a o1 o2 b r) = unat (b AND 15)"
  "rd (c33_c1a o1 o2 b r) = unat (r AND 15)"
  by (simp_all only: c33_c1a_def accessors regs_fields unat_u8_u16) simp_all

lemma c1b_fields [simp]:
  "cls (c33_c1b o1 o2 b r) = 1"
  "op1 (c33_c1b o1 o2 b r) = unat (o1 AND 7)"
  "op2 (c33_c1b o1 o2 b r) = unat (o2 AND 3)"
  "rb (c33_c1b o1 o2 b r) = unat (b AND 15)"
  "rs (c33_c1b o1 o2 b r) = unat (b AND 15)"
  "rd (c33_c1b o1 o2 b r) = unat (r AND 15)"
  by (simp_all only: c33_c1b_def accessors regs_fields unat_u8_u16) simp_all

lemma c4b_fields [simp]:
  "cls (c33_c4b o1 o2 b r) = 4"
  "op1 (c33_c4b o1 o2 b r) = unat (o1 AND 7)"
  "op2 (c33_c4b o1 o2 b r) = unat (o2 AND 3)"
  "rb (c33_c4b o1 o2 b r) = unat (b AND 15)"
  "rs (c33_c4b o1 o2 b r) = unat (b AND 15)"
  "rd (c33_c4b o1 o2 b r) = unat (r AND 15)"
  by (simp_all only: c33_c4b_def accessors regs_fields unat_u8_u16) simp_all

lemma c4c_fields [simp]:
  "cls (c33_c4c o1 o2 b r) = 4"
  "op1 (c33_c4c o1 o2 b r) = unat (o1 AND 7)"
  "op2 (c33_c4c o1 o2 b r) = unat (o2 AND 3)"
  "rb (c33_c4c o1 o2 b r) = unat (b AND 15)"
  "rs (c33_c4c o1 o2 b r) = unat (b AND 15)"
  "rd (c33_c4c o1 o2 b r) = unat (r AND 15)"
  by (simp_all only: c33_c4c_def accessors regs_fields unat_u8_u16) simp_all

lemma c5a_fields [simp]:
  "cls (c33_c5a o1 o2 b r) = 5"
  "op1 (c33_c5a o1 o2 b r) = unat (o1 AND 7)"
  "op2 (c33_c5a o1 o2 b r) = unat (o2 AND 3)"
  "rb (c33_c5a o1 o2 b r) = unat (b AND 15)"
  "rs (c33_c5a o1 o2 b r) = unat (b AND 15)"
  "rd (c33_c5a o1 o2 b r) = unat (r AND 15)"
  by (simp_all only: c33_c5a_def accessors regs_fields unat_u8_u16) simp_all

lemma c5c_fields [simp]:
  "cls (c33_c5c o1 o2 b r) = 5"
  "op1 (c33_c5c o1 o2 b r) = unat (o1 AND 7)"
  "op2 (c33_c5c o1 o2 b r) = unat (o2 AND 3)"
  "rb (c33_c5c o1 o2 b r) = unat (b AND 15)"
  "rs (c33_c5c o1 o2 b r) = unat (b AND 15)"
  "rd (c33_c5c o1 o2 b r) = unat (r AND 15)"
  by (simp_all only: c33_c5c_def accessors regs_fields unat_u8_u16) simp_all

lemma c5b_fields [simp]:
  "cls (c33_c5b o1 o2 b r) = 5"
  "op1 (c33_c5b o1 o2 b r) = unat (o1 AND 7)"
  "op2 (c33_c5b o1 o2 b r) = unat (o2 AND 3)"
  "rb (c33_c5b o1 o2 b r) = unat (b AND 15)"
  "rs (c33_c5b o1 o2 b r) = unat (b AND 15)"
  "imm3 (c33_c5b o1 o2 b r) = unat (r AND 7)"
  by (simp_all only: c33_c5b_def accessors bit_op_fields unat_u8_u16) simp_all

lemma c2_fields [simp]:
  "cls (c33_c2 o1 k r) = 2"
  "op1 (c33_c2 o1 k r) = unat (o1 AND 7)"
  "imm6 (c33_c2 o1 k r) = ucast (k AND 63)"
  "rd (c33_c2 o1 k r) = unat (r AND 15)"
  by (simp_all only: c33_c2_def accessors imm_fields unat_u8_u16) simp_all

lemma c3_fields [simp]:
  "cls (c33_c3 o1 k r) = 3"
  "op1 (c33_c3 o1 k r) = unat (o1 AND 7)"
  "imm6 (c33_c3 o1 k r) = ucast (k AND 63)"
  "rd (c33_c3 o1 k r) = unat (r AND 15)"
  by (simp_all only: c33_c3_def accessors imm_fields unat_u8_u16) simp_all

lemma c4a_fields [simp]:
  "cls (c33_c4a o1 k) = 4"
  "op1 (c33_c4a o1 k) = unat (o1 AND 7)"
  "imm10 (c33_c4a o1 k) = ucast (k AND 1023)"
  by (simp_all only: c33_c4a_def accessors sp_fields unat_u8_u16) simp_all

lemma c0a_fields [simp]:
  "cls (c33_c0a o1 d o2 r) = 0"
  "c0_op1 (c33_c0a o1 d o2 r) = unat (o1 AND 15)"
  "c0_op2 (c33_c0a o1 d o2 r) = unat (o2 AND 3)"
  "dbit (c33_c0a o1 d o2 r) = (d AND 1 \<noteq> 0)"
  "rd (c33_c0a o1 d o2 r) = unat (r AND 15)"
  "imm2 (c33_c0a o1 d o2 r) = unat (r AND 3)"
  by (simp_all only: c33_c0a_def accessors single_fields unat_u8_u16) simp_all

lemma c0b_fields [simp]:
  "cls (c33_c0b o1 d k) = 0"
  "c0_op1 (c33_c0b o1 d k) = unat (o1 AND 15)"
  "dbit (c33_c0b o1 d k) = (d AND 1 \<noteq> 0)"
  "sign8 (c33_c0b o1 d k) = ucast (k AND 255)"
  by (simp_all only: c33_c0b_def accessors branch_fields unat_u8_u16) simp_all

lemma c6_fields [simp]:
  "cls (c33_c6 k) = 6"
  "imm13 (c33_c6 k) = ucast (k AND 8191)"
  by (simp_all only: c33_c6_def accessors ext_fields unat_u8_u16) simp_all

lemmas c33_defs =
  c33_nop_def c33_slp_def c33_halt_def c33_pushn_def c33_popn_def c33_brk_def c33_retd_def c33_int_def c33_reti_def
  c33_call_def c33_ret_def c33_jp_rb_def c33_jrgt_sign8_def c33_jrge_sign8_def c33_jrlt_sign8_def c33_jrle_sign8_def
  c33_jrugt_sign8_def c33_jruge_sign8_def c33_jrult_sign8_def c33_jrule_sign8_def c33_jreq_sign8_def
  c33_jrne_sign8_def c33_call_sign8_def c33_jp_sign8_def c33_ld_b_rd_ind_rb_def c33_ld_ub_rd_ind_rb_def
  c33_ld_h_rd_ind_rb_def c33_ld_uh_rd_ind_rb_def c33_ld_w_rd_ind_rb_def c33_ld_b_ind_rb_rs_def c33_ld_h_ind_rb_rs_def
  c33_ld_w_ind_rb_rs_def c33_ld_b_rd_ind_rb_PI_def c33_ld_ub_rd_ind_rb_PI_def c33_ld_h_rd_ind_rb_PI_def
  c33_ld_uh_rd_ind_rb_PI_def c33_ld_w_rd_ind_rb_PI_def c33_ld_b_ind_rb_PI_rs_def c33_ld_h_ind_rb_PI_rs_def
  c33_ld_w_ind_rb_PI_rs_def c33_add_rd_rs_def c33_sub_rd_rs_def c33_cmp_rd_rs_def c33_ld_w_rd_rs_def c33_and_rd_rs_def
  c33_or_rd_rs_def c33_xor_rd_rs_def c33_not_rd_rs_def c33_ld_b_rd_ind_sp_imm6_def c33_ld_ub_rd_ind_sp_imm6_def
  c33_ld_h_rd_ind_sp_imm6_def c33_ld_uh_rd_ind_sp_imm6_def c33_ld_w_rd_ind_sp_imm6_def c33_ld_b_ind_sp_imm6_rs_def
  c33_ld_h_ind_sp_imm6_rs_def c33_ld_w_ind_sp_imm6_rs_def c33_add_rd_imm6_def c33_sub_rd_imm6_def c33_cmp_rd_sign6_def
  c33_ld_w_rd_sign6_def c33_and_rd_sign6_def c33_or_rd_sign6_def c33_xor_rd_sign6_def c33_not_rd_sign6_def
  c33_add_sp_imm10_def c33_sub_sp_imm10_def c33_srl_rd_imm4_def c33_sll_rd_imm4_def c33_sra_rd_imm4_def
  c33_sla_rd_imm4_def c33_rr_rd_imm4_def c33_rl_rd_imm4_def c33_srl_rd_rs_def c33_sll_rd_rs_def c33_sra_rd_rs_def
  c33_sla_rd_rs_def c33_rr_rd_rs_def c33_rl_rd_rs_def c33_scan0_rd_rs_def c33_scan1_rd_rs_def c33_swap_rd_rs_def
  c33_mirror_rd_rs_def c33_div0s_rs_def c33_div0u_rs_def c33_div1_rs_def c33_div2s_rs_def c33_div3s_def
  c33_ld_w_sd_rs_def c33_ld_w_rd_ss_def c33_btst_ind_rb_imm3_def c33_bclr_ind_rb_imm3_def c33_bset_ind_rb_imm3_def
  c33_bnot_ind_rb_imm3_def c33_adc_rd_rs_def c33_sbc_rd_rs_def c33_ld_b_rd_rs_def c33_ld_ub_rd_rs_def
  c33_ld_h_rd_rs_def c33_ld_uh_rd_rs_def c33_mlt_h_rd_rs_def c33_mltu_h_rd_rs_def c33_mlt_w_rd_rs_def
  c33_mltu_w_rd_rs_def c33_mac_rs_def c33_ext_imm13_def

end
