(* ===== verification/Disasm.thy ===== *)
theory Disasm
  imports CpuInsn StrFmt Asm
begin

text \<open>
  \<open>Cpu::disasm\<close> of \<^verbatim>\<open>src/core/cpu_disasm.cpp\<close>: the text of an instruction. The program shows it in traces and
  diagnostics; here it is compared with what the CPU executes and with the encoders of Asm.
\<close>

section \<open>The text of an instruction\<close>

abbreviation (input) TAB :: char where "TAB \<equiv> CHR 0x09"
abbreviation (input) num :: "nat \<Rightarrow> fmt_arg" where "num n \<equiv> ArgSigned (int n)"

text \<open>A sign-extended field as the \<open>int32_t\<close> it is printed as.\<close>

definition sx :: "u32 \<Rightarrow> nat \<Rightarrow> int" where "sx v bits = sint (sign_ext v bits)"

definition dot_d :: "u16 \<Rightarrow> fmt_arg" where "dot_d i = ArgStr (if dbit i then ''.d'' else [])"

definition mnem_0a :: "u16 \<Rightarrow> fmt_error + string" where
  "mnem_0a i =
    (let o1 = c0_op1 i; o2 = c0_op2 i
     in if o1 = 0 then
          (if o2 = 0 then Inr ''nop'' else if o2 = 1 then Inr ''slp'' else if o2 = 2 then Inr ''halt'' else Inr ''?0a_0_3'')
        else if o1 = 1 then
          (if o2 = 0 then vformat (''pushn'' @ TAB # ''%r{}'') [num (rd i)]
           else if o2 = 1 then vformat (''popn'' @ TAB # ''%r{}'') [num (rd i)]
           else if o2 = 3 then vformat (''jpr{}'' @ TAB # ''%r{}'') [dot_d i, num (rd i)]
           else Inr ''?0a_1'')
        else if o1 = 2 then
          (if o2 = 0 then Inr ''brk'' else if o2 = 1 then Inr ''retd''
           else if o2 = 2 then vformat (''int'' @ TAB # ''{}'') [num (imm2 i)] else Inr ''reti'')
        else
          (if o2 = 0 then vformat (''call{}'' @ TAB # ''%r{}'') [dot_d i, num (rd i)]
           else if o2 = 1 then vformat ''ret{}'' [dot_d i]
           else if o2 = 2 then vformat (''jp{}'' @ TAB # ''%r{}'') [dot_d i, num (rd i)]
           else Inr ''?0a_3_3''))"

definition branch_names :: "string list" where
  "branch_names = [''jrgt'', ''jrge'', ''jrlt'', ''jrle'', ''jrugt'', ''jruge'', ''jrult'', ''jrule'', ''jreq'', ''jrne'', ''call'', ''jp'']"

definition mnem_0b :: "u32 \<Rightarrow> u16 \<Rightarrow> fmt_error + string" where
  "mnem_0b addr i =
    (let target = addr + 2 * sign_ext (sign8 i) 8; k = c0_op1 i - 4
     in if k < 12 then vformat (''{}{}'' @ TAB # ''0x{:06X}'') [ArgStr (branch_names ! k), dot_d i, ArgUnsigned (unat target)]
        else vformat ''?0b_{}'' [num (c0_op1 i)])"

definition alu_names :: "string list" where
  "alu_names = [''add'', ''sub'', ''cmp'', ''ld.w'', ''and'', ''or'', ''xor'', ''not'']"

definition load_names :: "string list" where "load_names = [''ld.b'', ''ld.ub'', ''ld.h'', ''ld.uh'']"

definition mnem_1 :: "u16 \<Rightarrow> fmt_error + string" where
  "mnem_1 i =
    (let o1 = op1 i; pi = ArgStr (if op2 i = 1 then ''+'' else [])
     in if op2 i = 2 then vformat (''{}'' @ TAB # ''%r{}, %r{}'') [ArgStr (alu_names ! o1), num (rd i), num (rb i)]
        else if o1 \<le> 3 then vformat (''{}'' @ TAB # ''%r{}, [%r{}]{}'') [ArgStr (load_names ! o1), num (rd i), num (rb i), pi]
        else if o1 = 4 then vformat (''ld.w'' @ TAB # ''%r{}, [%r{}]{}'') [num (rd i), num (rb i), pi]
        else if o1 = 5 then vformat (''ld.b'' @ TAB # ''[%r{}]{}, %r{}'') [num (rb i), pi, num (rd i)]
        else if o1 = 6 then vformat (''ld.h'' @ TAB # ''[%r{}]{}, %r{}'') [num (rb i), pi, num (rd i)]
        else vformat (''ld.w'' @ TAB # ''[%r{}]{}, %r{}'') [num (rb i), pi, num (rd i)])"

definition ldst2 :: "string list" where
  "ldst2 = [''ld.b'', ''ld.ub'', ''ld.h'', ''ld.uh'', ''ld.w'', ''st.b'', ''st.h'', ''st.w'']"

definition scales2 :: "int list" where "scales2 = [1, 1, 2, 2, 4, 1, 2, 4]"

definition mnem_2 :: "u16 \<Rightarrow> fmt_error + string" where
  "mnem_2 i =
    (let o1 = op1 i; off = ArgSigned (sx (imm6 i) 6 * scales2 ! o1)
     in if o1 \<le> 4 then vformat (''{}'' @ TAB # ''%r{}, [%sp+{}]'') [ArgStr (ldst2 ! o1), num (rd i), off]
        else vformat (''{}'' @ TAB # ''[%sp+{}], %r{}'') [ArgStr (ldst2 ! o1), off, num (rd i)])"

definition mnem_3 :: "u16 \<Rightarrow> fmt_error + string" where
  "mnem_3 i = vformat (''{}'' @ TAB # ''%r{}, {}'') [ArgStr (alu_names ! op1 i), num (rd i), ArgSigned (sx (imm6 i) 6)]"

definition shift_names :: "string list" where
  "shift_names = [''?'', ''?'', ''srl'', ''sll'', ''sra'', ''sla'', ''rr'', ''rl'']"

definition misc_names :: "string list" where
  "misc_names = [''?'', ''?'', ''scan0'', ''scan1'', ''swap'', ''mirror'', ''?'', ''?'']"

definition div_names :: "string list" where
  "div_names = [''?'', ''?'', ''div0s'', ''div0u'', ''div1'', ''div2s'', ''div3s'', ''?'']"

definition mnem_4 :: "u16 \<Rightarrow> fmt_error + string" where
  "mnem_4 i =
    (let o1 = op1 i; o2 = op2 i
     in if o1 = 0 then vformat (''add'' @ TAB # ''%sp, {}'') [ArgUnsigned (unat (imm10 i * 4))]
        else if o1 = 1 then vformat (''sub'' @ TAB # ''%sp, {}'') [ArgUnsigned (unat (imm10 i * 4))]
        else if o2 = 0 then vformat (''{}'' @ TAB # ''%r{}, {}'') [ArgStr (shift_names ! o1), num (rd i), num (rs i)]
        else if o2 = 1 then vformat (''{}'' @ TAB # ''%r{}, %r{}'') [ArgStr (shift_names ! o1), num (rd i), num (rs i)]
        else if o2 = 2 then vformat (''{}'' @ TAB # ''%r{}, %r{}'') [ArgStr (misc_names ! o1), num (rd i), num (rs i)]
        else vformat (''{}'' @ TAB # ''%r{}'') [ArgStr (div_names ! o1), num (rs i)])"

definition special_names :: "string list" where "special_names = [''%psr'', ''%sp'', ''%alr'', ''%ahr'']"

definition bit_names :: "string list" where "bit_names = [''btst'', ''bclr'', ''bset'', ''bnot'']"

definition mult_names :: "string list" where "mult_names = [''mlt.h'', ''mltu.h'', ''mlt.w'', ''mltu.w'']"

definition mnem_5 :: "u16 \<Rightarrow> fmt_error + string" where
  "mnem_5 i =
    (let o1 = op1 i; o2 = op2 i; unknown = vformat ''?5_{}{}'' [num o1, num o2]
     in if o2 = 0 then
          (if o1 = 0 then vformat (''ld.w'' @ TAB # ''{}, %r{}'') [ArgStr (special_names ! (rd i mod 4)), num (rs i)]
           else if o1 = 1 then vformat (''ld.w'' @ TAB # ''%r{}, {}'') [num (rd i), ArgStr (special_names ! (rs i mod 4))]
           else if o1 \<le> 5 then vformat (''{}'' @ TAB # ''[%r{}], {}'') [ArgStr (bit_names ! (o1 - 2)), num (rs i), num (imm3 i)]
           else if o1 = 6 then vformat (''adc'' @ TAB # ''%r{}, %r{}'') [num (rd i), num (rs i)]
           else vformat (''sbc'' @ TAB # ''%r{}, %r{}'') [num (rd i), num (rs i)])
        else if o2 = 1 then
          (if o1 \<le> 3 then vformat (''{}'' @ TAB # ''%r{}, %r{}'') [ArgStr (load_names ! o1), num (rd i), num (rs i)] else unknown)
        else if o2 = 2 then
          (if o1 \<le> 3 then vformat (''{}'' @ TAB # ''%r{}, %r{}'') [ArgStr (mult_names ! o1), num (rd i), num (rs i)]
           else if o1 = 4 then vformat (''mac'' @ TAB # ''%r{}'') [num (rs i)]
           else unknown)
        else unknown)"

definition mnem :: "u32 \<Rightarrow> u16 \<Rightarrow> fmt_error + string" where
  "mnem addr i =
    (let c = cls i
     in if c = 6 then vformat (''ext'' @ TAB # ''{}'') [ArgUnsigned (unat (imm13 i))]
        else if c = 0 then (if c0_op1 i < 4 then mnem_0a i else mnem_0b addr i)
        else if c = 1 then mnem_1 i
        else if c = 2 then mnem_2 i
        else if c = 3 then mnem_3 i
        else if c = 4 then mnem_4 i
        else if c = 5 then mnem_5 i
        else vformat ''?cls{}'' [num c])"

text \<open>The line, and the machine after the fetch it makes.\<close>

definition disasm :: "u32 \<Rightarrow> 'd machine \<Rightarrow> (fmt_error + string) \<times> 'd machine" where
  "disasm addr m =
    (case fetch16 addr m of (raw, m1) \<Rightarrow>
       (case mnem addr raw of
          Inl e \<Rightarrow> Inl e
        | Inr t \<Rightarrow> vformat ''0x{:06X}: {:04X}  {}'' [ArgUnsigned (unat addr), ArgUnsigned (unat raw), ArgStr t], m1))"

section \<open>Names\<close>

text \<open>The mnemonic of what the dispatch table calls; the jumps and calls that have a delayed form take \<open>.d\<close>.\<close>

primrec name0 :: "class0 \<Rightarrow> string" where
  "name0 H_nop = ''nop''" | "name0 H_slp = ''slp''" | "name0 H_halt = ''halt''" | "name0 H_pushn = ''pushn''"
| "name0 H_popn = ''popn''" | "name0 H_brk = ''brk''" | "name0 H_retd = ''retd''" | "name0 H_int = ''int''"
| "name0 H_reti = ''reti''" | "name0 H_call_rb = ''call''" | "name0 H_ret = ''ret''" | "name0 H_jp_rb = ''jp''"
| "name0 H_jrgt = ''jrgt''" | "name0 H_jrge = ''jrge''" | "name0 H_jrlt = ''jrlt''" | "name0 H_jrle = ''jrle''"
| "name0 H_jrugt = ''jrugt''" | "name0 H_jruge = ''jruge''" | "name0 H_jrult = ''jrult''" | "name0 H_jrule = ''jrule''"
| "name0 H_jreq = ''jreq''" | "name0 H_jrne = ''jrne''" | "name0 H_call_simm8 = ''call''" | "name0 H_jp_simm8 = ''jp''"

primrec name1 :: "class1 \<Rightarrow> string" where
  "name1 H_ld_b_rd_rb = ''ld.b''" | "name1 H_ld_ub_rd_rb = ''ld.ub''" | "name1 H_ld_h_rd_rb = ''ld.h''"
| "name1 H_ld_uh_rd_rb = ''ld.uh''" | "name1 H_ld_w_rd_rb = ''ld.w''" | "name1 H_st_b_rb_rs = ''ld.b''"
| "name1 H_st_h_rb_rs = ''ld.h''" | "name1 H_st_w_rb_rs = ''ld.w''" | "name1 H_ld_b_rd_rbx = ''ld.b''"
| "name1 H_ld_ub_rd_rbx = ''ld.ub''" | "name1 H_ld_h_rd_rbx = ''ld.h''" | "name1 H_ld_uh_rd_rbx = ''ld.uh''"
| "name1 H_ld_w_rd_rbx = ''ld.w''" | "name1 H_st_b_rbx_rs = ''ld.b''" | "name1 H_st_h_rbx_rs = ''ld.h''"
| "name1 H_st_w_rbx_rs = ''ld.w''" | "name1 H_add_rd_rs = ''add''" | "name1 H_sub_rd_rs = ''sub''"
| "name1 H_cmp_rd_rs = ''cmp''" | "name1 H_ld_w_rd_rs = ''ld.w''" | "name1 H_and_rd_rs = ''and''"
| "name1 H_or_rd_rs = ''or''" | "name1 H_xor_rd_rs = ''xor''" | "name1 H_not_rd_rs = ''not''"

primrec name2 :: "class2 \<Rightarrow> string" where
  "name2 H_ld_b_rd_sp = ''ld.b''" | "name2 H_ld_ub_rd_sp = ''ld.ub''" | "name2 H_ld_h_rd_sp = ''ld.h''"
| "name2 H_ld_uh_rd_sp = ''ld.uh''" | "name2 H_ld_w_rd_sp = ''ld.w''" | "name2 H_st_b_sp_rs = ''st.b''"
| "name2 H_st_h_sp_rs = ''st.h''" | "name2 H_st_w_sp_rs = ''st.w''"

primrec name3 :: "class3 \<Rightarrow> string" where
  "name3 H_add_rd_imm6 = ''add''" | "name3 H_sub_rd_imm6 = ''sub''" | "name3 H_cmp_rd_simm6 = ''cmp''"
| "name3 H_ld_w_rd_simm6 = ''ld.w''" | "name3 H_and_rd_simm6 = ''and''" | "name3 H_or_rd_simm6 = ''or''"
| "name3 H_xor_rd_simm6 = ''xor''" | "name3 H_not_rd_simm6 = ''not''"

primrec name4 :: "class4 \<Rightarrow> string" where
  "name4 H_add_sp_imm10 = ''add''" | "name4 H_sub_sp_imm10 = ''sub''" | "name4 H_srl_rd_imm4 = ''srl''"
| "name4 H_sll_rd_imm4 = ''sll''" | "name4 H_sra_rd_imm4 = ''sra''" | "name4 H_sla_rd_imm4 = ''sla''"
| "name4 H_rr_rd_imm4 = ''rr''" | "name4 H_rl_rd_imm4 = ''rl''" | "name4 H_srl_rd_rs = ''srl''"
| "name4 H_sll_rd_rs = ''sll''" | "name4 H_sra_rd_rs = ''sra''" | "name4 H_sla_rd_rs = ''sla''"
| "name4 H_rr_rd_rs = ''rr''" | "name4 H_rl_rd_rs = ''rl''" | "name4 H_scan0 = ''scan0''" | "name4 H_scan1 = ''scan1''"
| "name4 H_swap = ''swap''" | "name4 H_mirror = ''mirror''" | "name4 H_div0s = ''div0s''" | "name4 H_div0u = ''div0u''"
| "name4 H_div1 = ''div1''" | "name4 H_div2s = ''div2s''" | "name4 H_div3s = ''div3s''"

primrec name5 :: "class5 \<Rightarrow> string" where
  "name5 H_ld_w_sd_rs = ''ld.w''" | "name5 H_ld_w_rd_ss = ''ld.w''" | "name5 H_btst = ''btst''" | "name5 H_bclr = ''bclr''"
| "name5 H_bset = ''bset''" | "name5 H_bnot = ''bnot''" | "name5 H_adc = ''adc''" | "name5 H_sbc = ''sbc''"
| "name5 H_ld_b_rd_rs2 = ''ld.b''" | "name5 H_ld_ub_rd_rs2 = ''ld.ub''" | "name5 H_ld_h_rd_rs2 = ''ld.h''"
| "name5 H_ld_uh_rd_rs2 = ''ld.uh''" | "name5 H_mlt_h = ''mlt.h''" | "name5 H_mltu_h = ''mltu.h''" | "name5 H_mlt_w = ''mlt.w''"
| "name5 H_mltu_w = ''mltu.w''" | "name5 H_mac = ''mac''"

primrec handler_name :: "handler \<Rightarrow> string" where
  "handler_name H_undef = ''?''" | "handler_name (C0 h) = name0 h" | "handler_name (C1 h) = name1 h" | "handler_name (C2 h) = name2 h"
| "handler_name (C3 h) = name3 h" | "handler_name (C4 h) = name4 h" | "handler_name (C5 h) = name5 h" | "handler_name H_ext = ''ext''"

definition has_delayed :: "handler \<Rightarrow> bool" where
  "has_delayed h \<longleftrightarrow> (\<exists>k. h = C0 k \<and> k \<notin> {H_nop, H_slp, H_halt, H_pushn, H_popn, H_brk, H_retd, H_int, H_reti})"

text \<open>What stands before the operands.\<close>

definition head_of :: "fmt_error + string \<Rightarrow> string option" where
  "head_of t = (case t of Inl e \<Rightarrow> None | Inr s \<Rightarrow> Some (takeWhile (\<lambda>c. c \<noteq> TAB) s))"

lemmas vformat_hex [simp] =
  vformat_field [of "'':06X''", simplified append_field_hex, simplified] vformat_field [of "'':04X''", simplified append_field_hex, simplified]

lemma small_cases:
  "(k :: nat) < 4 \<Longrightarrow> k = 0 \<or> k = 1 \<or> k = 2 \<or> k = 3"
  "k < 8 \<Longrightarrow> k = 0 \<or> k = 1 \<or> k = 2 \<or> k = 3 \<or> k = 4 \<or> k = 5 \<or> k = 6 \<or> k = 7"
  "k < 16 \<Longrightarrow> k < 4 \<or> k = 4 \<or> k = 5 \<or> k = 6 \<or> k = 7 \<or> k = 8 \<or> k = 9 \<or> k = 10 \<or> k = 11 \<or> k = 12 \<or> k = 13 \<or> k = 14 \<or> k = 15"
  by presburger+

definition names_right :: "fmt_error + string \<Rightarrow> handler \<Rightarrow> bool \<Rightarrow> bool \<Rightarrow> bool" where
  "names_right t h delayed hole \<longleftrightarrow> (\<exists>u. head_of t = Some u \<and>
    (if h \<noteq> H_undef then u = handler_name h @ (if has_delayed h \<and> delayed then ''.d'' else []) else hole \<or> u \<noteq> [] \<and> hd u = CHR ''?''))"

lemmas names = names_right_def head_of_def sel_def has_delayed_def dot_d_def

lemma names_0a:
  assumes "c0_op1 i < 4"
  shows "names_right (mnem_0a i) (table_0a (c0_op1 i) (c0_op2 i)) (dbit i) (c0_op1 i = 1 \<and> c0_op2 i = 3)"
  using small_cases(1) [OF assms] small_cases(1) [OF field_bounds(5) [of i]]
  by (elim disjE; simp add: mnem_0a_def table_0a_def names; auto)

lemma names_0b:
  assumes "\<not> c0_op1 i < 4"
  shows "names_right (mnem_0b a i) (table_0b (c0_op1 i)) (dbit i) False"
  using small_cases(3) [OF field_bounds(4) [of i]]
  by (elim disjE; use assms in \<open>simp add: mnem_0b_def table_0b_def names branch_names_def\<close>)

lemma names_1: "names_right (mnem_1 i) (table_1 (op2 i) (op1 i)) (dbit i) (op2 i = 3)"
  using small_cases(1) [OF field_bounds(3) [of i]] small_cases(2) [OF field_bounds(2) [of i]]
  by (elim disjE; simp add: mnem_1_def table_1_def names alu_names_def load_names_def)

lemma names_2: "names_right (mnem_2 i) (table_2 (op1 i)) (dbit i) False"
  using small_cases(2) [OF field_bounds(2) [of i]] by (elim disjE; simp add: mnem_2_def table_2_def names ldst2_def)

lemma names_3: "names_right (mnem_3 i) (table_3 (op1 i)) (dbit i) False"
  using small_cases(2) [OF field_bounds(2) [of i]] by (elim disjE; simp add: mnem_3_def table_3_def names alu_names_def)

lemma names_4: "names_right (mnem_4 i) (table_4 (op1 i) (op2 i)) (dbit i) False"
  using small_cases(1) [OF field_bounds(3) [of i]] small_cases(2) [OF field_bounds(2) [of i]]
  by (elim disjE; simp add: mnem_4_def table_4_def names shift_names_def misc_names_def div_names_def)

lemma names_5: "names_right (mnem_5 i) (table_5 (op2 i) (op1 i)) (dbit i) False"
  using small_cases(1) [OF field_bounds(3) [of i]] small_cases(2) [OF field_bounds(2) [of i]]
  by (elim disjE; simp add: mnem_5_def table_5_def names load_names_def bit_names_def mult_names_def radix_text.simps)

text \<open>Class 1 with 3 in the second field is no instruction, but is printed as a load or store; so is a third jump.\<close>

definition misprinted :: "u16 \<Rightarrow> bool" where
  "misprinted i \<longleftrightarrow> cls i = 0 \<and> c0_op1 i = 1 \<and> c0_op2 i = 3 \<or> cls i = 1 \<and> op2 i = 3"

lemma names_mnem: "names_right (mnem a i) (dispatch i) (dbit i) (misprinted i)"
proof -
  have hole: "names_right t h d False \<Longrightarrow> names_right t h d b" for t h d b by (auto simp: names_right_def)
  have "cls i = 0 \<or> cls i = 1 \<or> cls i = 2 \<or> cls i = 3 \<or> cls i = 4 \<or> cls i = 5 \<or> cls i = 6 \<or> cls i = 7"
    by (rule small_cases(2) [OF field_bounds(1)])
  then show ?thesis
  proof (elim disjE)
    assume c: "cls i = 0"
    show ?thesis
    proof (cases "c0_op1 i < 4")
      case True
      then show ?thesis using names_0a [OF True] c by (simp add: mnem_def dispatch_def misprinted_def Let_def)
    next
      case False
      then show ?thesis using hole [OF names_0b [OF False]] c by (simp add: mnem_def dispatch_def Let_def)
    qed
  next
    assume "cls i = 1"
    then show ?thesis using names_1 [of i] by (simp add: mnem_def dispatch_def misprinted_def Let_def)
  next
    assume "cls i = 2"
    then show ?thesis using hole [OF names_2] by (simp add: mnem_def dispatch_def Let_def)
  next
    assume "cls i = 3"
    then show ?thesis using hole [OF names_3] by (simp add: mnem_def dispatch_def Let_def)
  next
    assume "cls i = 4"
    then show ?thesis using hole [OF names_4] by (simp add: mnem_def dispatch_def Let_def)
  next
    assume "cls i = 5"
    then show ?thesis using hole [OF names_5] by (simp add: mnem_def dispatch_def Let_def)
  qed (simp_all add: mnem_def dispatch_def Let_def names)
qed

text \<open>
  The disassembler names what the CPU executes. Its text is there for every instruction word, no format in it is
  refused, and it begins with the mnemonic of the handler the dispatch table calls, with \<open>.d\<close> for the delayed form of
  a jump or call; a word that is no instruction starts with a question mark, but for the two groups of \<open>misprinted\<close>.
\<close>
theorem disasm_names_executed:
  "\<exists>s. mnem a i = Inr s \<and>
    (if dispatch i \<noteq> H_undef
     then takeWhile (\<lambda>c. c \<noteq> TAB) s = handler_name (dispatch i) @ (if has_delayed (dispatch i) \<and> dbit i then ''.d'' else [])
     else misprinted i \<or> s \<noteq> [] \<and> hd s = CHR ''?'')"
proof -
  obtain s where s: "mnem a i = Inr s" using names_mnem [of a i] by (auto simp: names_right_def head_of_def split: sum.splits)
  have "hd (takeWhile P s) = hd s" if "takeWhile P s \<noteq> []" for P :: "char \<Rightarrow> bool"
    using that by (cases s) (auto split: if_splits)
  then show ?thesis using names_mnem [of a i] s by (auto simp: names_right_def head_of_def split: if_splits)
qed

end
