(* ===== verification/AsmText.thy ===== *)
theory AsmText
  imports CpuAlu Disasm
begin

text \<open>
  Encoders against disassembler and dispatch table: what c33insn.hpp encodes is the instruction its name says, for every
  form but those of class 0 with one operand, whose fields are passed in the wrong order.
\<close>

section \<open>Operands in text\<close>

definition reg_text :: "u8 \<Rightarrow> string" where "reg_text x = ''%r'' @ radix_text DEC (unat (x AND 15))"

definition int_text :: "int \<Rightarrow> string" where "int_text k = (if k < 0 then ''-'' else []) @ radix_text DEC (nat \<bar>k\<bar>)"

definition hex_text6 :: "u32 \<Rightarrow> string" where "hex_text6 a = pad_number True 6 False (radix_text HEX (unat a))"

text \<open>A form: encoder of two bytes, handler, text for them at an address.\<close>

type_synonym form = "(u8 \<Rightarrow> u8 \<Rightarrow> u16) \<times> handler \<times> (u32 \<Rightarrow> u8 \<Rightarrow> u8 \<Rightarrow> string)"

definition rr_form :: "string \<Rightarrow> handler \<Rightarrow> (u8 \<Rightarrow> u8 \<Rightarrow> u16) \<Rightarrow> form" where
  "rr_form n h e = (e, h, \<lambda>a x y. n @ TAB # reg_text x @ '', '' @ reg_text y)"

definition load_form :: "string \<Rightarrow> string \<Rightarrow> handler \<Rightarrow> (u8 \<Rightarrow> u8 \<Rightarrow> u16) \<Rightarrow> form" where
  "load_form pi n h e = (e, h, \<lambda>a x b. n @ TAB # reg_text x @ '', ['' @ reg_text b @ '']'' @ pi)"

definition store_form :: "string \<Rightarrow> string \<Rightarrow> handler \<Rightarrow> (u8 \<Rightarrow> u8 \<Rightarrow> u16) \<Rightarrow> form" where
  "store_form pi n h e = (e, h, \<lambda>a b y. n @ TAB # ''['' @ reg_text b @ '']'' @ pi @ '', '' @ reg_text y)"

definition ri_form :: "string \<Rightarrow> handler \<Rightarrow> (u8 \<Rightarrow> u8 \<Rightarrow> u16) \<Rightarrow> form" where
  "ri_form n h e = (e, h, \<lambda>a x k. n @ TAB # reg_text x @ '', '' @ radix_text DEC (unat (k AND 15)))"

definition bit_form :: "string \<Rightarrow> handler \<Rightarrow> (u8 \<Rightarrow> u8 \<Rightarrow> u16) \<Rightarrow> form" where
  "bit_form n h e = (e, h, \<lambda>a b k. n @ TAB # ''['' @ reg_text b @ ''], '' @ radix_text DEC (unat (k AND 7)))"

definition one_form :: "string \<Rightarrow> handler \<Rightarrow> (u8 \<Rightarrow> u16) \<Rightarrow> form" where
  "one_form n h e = ((\<lambda>x y. e y), h, \<lambda>a x y. n @ TAB # reg_text y)"

definition branch_form :: "string \<Rightarrow> handler \<Rightarrow> (u8 \<Rightarrow> u8 \<Rightarrow> u16) \<Rightarrow> form" where
  "branch_form n h e = (e, h, \<lambda>a k d. n @ (if d AND 1 \<noteq> 0 then ''.d'' else []) @ TAB # ''0x'' @ hex_text6 (a + 2 * sign_ext (ucast k) 8))"

definition alu_forms :: "form list" where
  "alu_forms =
    [rr_form ''add'' (C1 H_add_rd_rs) c33_add_rd_rs, rr_form ''sub'' (C1 H_sub_rd_rs) c33_sub_rd_rs,
     rr_form ''cmp'' (C1 H_cmp_rd_rs) c33_cmp_rd_rs, rr_form ''ld.w'' (C1 H_ld_w_rd_rs) c33_ld_w_rd_rs,
     rr_form ''and'' (C1 H_and_rd_rs) c33_and_rd_rs, rr_form ''or'' (C1 H_or_rd_rs) c33_or_rd_rs,
     rr_form ''xor'' (C1 H_xor_rd_rs) c33_xor_rd_rs, rr_form ''not'' (C1 H_not_rd_rs) c33_not_rd_rs,
     rr_form ''adc'' (C5 H_adc) c33_adc_rd_rs, rr_form ''sbc'' (C5 H_sbc) c33_sbc_rd_rs,
     rr_form ''ld.b'' (C5 H_ld_b_rd_rs2) c33_ld_b_rd_rs, rr_form ''ld.ub'' (C5 H_ld_ub_rd_rs2) c33_ld_ub_rd_rs,
     rr_form ''ld.h'' (C5 H_ld_h_rd_rs2) c33_ld_h_rd_rs, rr_form ''ld.uh'' (C5 H_ld_uh_rd_rs2) c33_ld_uh_rd_rs,
     rr_form ''mlt.h'' (C5 H_mlt_h) c33_mlt_h_rd_rs, rr_form ''mltu.h'' (C5 H_mltu_h) c33_mltu_h_rd_rs,
     rr_form ''mlt.w'' (C5 H_mlt_w) c33_mlt_w_rd_rs, rr_form ''mltu.w'' (C5 H_mltu_w) c33_mltu_w_rd_rs,
     one_form ''mac'' (C5 H_mac) c33_mac_rs]"

definition shift_forms :: "form list" where
  "shift_forms =
    [rr_form ''srl'' (C4 H_srl_rd_rs) c33_srl_rd_rs, rr_form ''sll'' (C4 H_sll_rd_rs) c33_sll_rd_rs,
     rr_form ''sra'' (C4 H_sra_rd_rs) c33_sra_rd_rs, rr_form ''sla'' (C4 H_sla_rd_rs) c33_sla_rd_rs,
     rr_form ''rr'' (C4 H_rr_rd_rs) c33_rr_rd_rs, rr_form ''rl'' (C4 H_rl_rd_rs) c33_rl_rd_rs,
     ri_form ''srl'' (C4 H_srl_rd_imm4) c33_srl_rd_imm4, ri_form ''sll'' (C4 H_sll_rd_imm4) c33_sll_rd_imm4,
     ri_form ''sra'' (C4 H_sra_rd_imm4) c33_sra_rd_imm4, ri_form ''sla'' (C4 H_sla_rd_imm4) c33_sla_rd_imm4,
     ri_form ''rr'' (C4 H_rr_rd_imm4) c33_rr_rd_imm4, ri_form ''rl'' (C4 H_rl_rd_imm4) c33_rl_rd_imm4,
     rr_form ''scan0'' (C4 H_scan0) c33_scan0_rd_rs, rr_form ''scan1'' (C4 H_scan1) c33_scan1_rd_rs,
     rr_form ''swap'' (C4 H_swap) c33_swap_rd_rs, rr_form ''mirror'' (C4 H_mirror) c33_mirror_rd_rs,
     one_form ''div0s'' (C4 H_div0s) c33_div0s_rs, one_form ''div0u'' (C4 H_div0u) c33_div0u_rs,
     one_form ''div1'' (C4 H_div1) c33_div1_rs, one_form ''div2s'' (C4 H_div2s) c33_div2s_rs]"

definition memory_forms :: "form list" where
  "memory_forms =
    [load_form [] ''ld.b'' (C1 H_ld_b_rd_rb) c33_ld_b_rd_ind_rb, load_form [] ''ld.ub'' (C1 H_ld_ub_rd_rb) c33_ld_ub_rd_ind_rb,
     load_form [] ''ld.h'' (C1 H_ld_h_rd_rb) c33_ld_h_rd_ind_rb, load_form [] ''ld.uh'' (C1 H_ld_uh_rd_rb) c33_ld_uh_rd_ind_rb,
     load_form [] ''ld.w'' (C1 H_ld_w_rd_rb) c33_ld_w_rd_ind_rb,
     load_form ''+'' ''ld.b'' (C1 H_ld_b_rd_rbx) c33_ld_b_rd_ind_rb_PI, load_form ''+'' ''ld.ub'' (C1 H_ld_ub_rd_rbx) c33_ld_ub_rd_ind_rb_PI,
     load_form ''+'' ''ld.h'' (C1 H_ld_h_rd_rbx) c33_ld_h_rd_ind_rb_PI, load_form ''+'' ''ld.uh'' (C1 H_ld_uh_rd_rbx) c33_ld_uh_rd_ind_rb_PI,
     load_form ''+'' ''ld.w'' (C1 H_ld_w_rd_rbx) c33_ld_w_rd_ind_rb_PI,
     store_form [] ''ld.b'' (C1 H_st_b_rb_rs) c33_ld_b_ind_rb_rs, store_form [] ''ld.h'' (C1 H_st_h_rb_rs) c33_ld_h_ind_rb_rs,
     store_form [] ''ld.w'' (C1 H_st_w_rb_rs) c33_ld_w_ind_rb_rs,
     store_form ''+'' ''ld.b'' (C1 H_st_b_rbx_rs) c33_ld_b_ind_rb_PI_rs, store_form ''+'' ''ld.h'' (C1 H_st_h_rbx_rs) c33_ld_h_ind_rb_PI_rs,
     store_form ''+'' ''ld.w'' (C1 H_st_w_rbx_rs) c33_ld_w_ind_rb_PI_rs,
     bit_form ''btst'' (C5 H_btst) c33_btst_ind_rb_imm3, bit_form ''bclr'' (C5 H_bclr) c33_bclr_ind_rb_imm3,
     bit_form ''bset'' (C5 H_bset) c33_bset_ind_rb_imm3, bit_form ''bnot'' (C5 H_bnot) c33_bnot_ind_rb_imm3]"

definition branch_forms :: "form list" where
  "branch_forms =
    [branch_form ''jrgt'' (C0 H_jrgt) c33_jrgt_sign8, branch_form ''jrge'' (C0 H_jrge) c33_jrge_sign8,
     branch_form ''jrlt'' (C0 H_jrlt) c33_jrlt_sign8, branch_form ''jrle'' (C0 H_jrle) c33_jrle_sign8,
     branch_form ''jrugt'' (C0 H_jrugt) c33_jrugt_sign8, branch_form ''jruge'' (C0 H_jruge) c33_jruge_sign8,
     branch_form ''jrult'' (C0 H_jrult) c33_jrult_sign8, branch_form ''jrule'' (C0 H_jrule) c33_jrule_sign8,
     branch_form ''jreq'' (C0 H_jreq) c33_jreq_sign8, branch_form ''jrne'' (C0 H_jrne) c33_jrne_sign8,
     branch_form ''call'' (C0 H_call_simm8) c33_call_sign8, branch_form ''jp'' (C0 H_jp_simm8) c33_jp_sign8]"

text \<open>The word an encoder gives is that instruction and prints as it.\<close>

definition form_ok :: "form \<Rightarrow> bool" where
  "form_ok f = (case f of (e, h, t) \<Rightarrow> \<forall>a x y. dispatch (e x y) = h \<and> mnem a (e x y) = Inr (t a x y))"

lemma int_nat_text [simp]: "nat \<bar>int n\<bar> = n" by simp

lemmas forms = form_ok_def rr_form_def load_form_def store_form_def ri_form_def bit_form_def one_form_def branch_form_def
  c33_defs dispatch_def sel_def mnem_def reg_text_def hex_text6_def dot_d_def

lemma alu_forms_ok: "f \<in> set alu_forms \<Longrightarrow> form_ok f"
  by (auto simp: alu_forms_def forms table_1_def table_5_def mnem_1_def mnem_5_def alu_names_def load_names_def mult_names_def)

lemma shift_forms_ok: "f \<in> set shift_forms \<Longrightarrow> form_ok f"
  by (auto simp: shift_forms_def forms table_4_def mnem_4_def shift_names_def misc_names_def div_names_def)

lemma memory_forms_ok: "f \<in> set memory_forms \<Longrightarrow> form_ok f"
  by (auto simp: memory_forms_def forms table_1_def table_5_def mnem_1_def mnem_5_def load_names_def bit_names_def)

lemma u8_and_255 [simp]: "(k :: u8) AND 255 = k"
  by (rule bit_word_eqI) (auto simp: asm_masks bit_simps)

lemma branch_forms_ok: "f \<in> set branch_forms \<Longrightarrow> form_ok f"
  by (auto simp: branch_forms_def forms table_0b_def mnem_0b_def branch_names_def)

text \<open>
  C21: what is assembled is what is executed and shown. For the 71 encoders in \<open>alu_forms\<close>, \<open>shift_forms\<close>, \<open>memory_forms\<close> and \<open>branch_forms\<close> (register forms, multiplications, loads and
  stores through a register, shifts, bit operations, the first four division steps and branches), and for every choice of the operands, the word
  the encoder gives is dispatched to the handler of that instruction and the disassembler prints its mnemonic and
  those operands.
\<close>
theorem asm_disasm_roundtrip:
  assumes "(e, h, t) \<in> set (alu_forms @ shift_forms @ memory_forms @ branch_forms)"
  shows "dispatch (e x y) = h \<and> mnem a (e x y) = Inr (t a x y)"
proof -
  have "form_ok (e, h, t)" using assms alu_forms_ok shift_forms_ok memory_forms_ok branch_forms_ok by auto
  then show ?thesis by (simp add: form_ok_def)
qed

theorem asm_disasm_roundtrip_witness:
  "dispatch (c33_add_rd_rs 3 12) = C1 H_add_rd_rs \<and> mnem 0x100000 (c33_add_rd_rs 3 12) = Inr (''add'' @ TAB # ''%r3, %r12'')"
proof -
  have "(c33_add_rd_rs, C1 H_add_rd_rs, \<lambda>a x y. ''add'' @ TAB # reg_text x @ '', '' @ reg_text y)
      \<in> set (alu_forms @ shift_forms @ memory_forms @ branch_forms)"
    by (simp add: alu_forms_def rr_form_def)
  from asm_disasm_roundtrip [OF this, of 3 12 "0x100000"] show ?thesis
    by (simp add: reg_text_def radix_text.simps)
qed

section \<open>Immediates\<close>

lemma sx_sign6:
  assumes "- 32 \<le> sint (k :: u8)" "sint k < 32"
  shows "sx (ucast (k AND 63)) 6 = sint k"
proof -
  have u: "uint (ucast (k AND 63) :: u32) = take_bit 6 (uint k)"
    unfolding asm_masks(4) by (simp add: take_bit_eq_mask [symmetric] unsigned_ucast_eq unsigned_take_bit_eq)
  have "unat (ucast (k AND 63) :: u32) < 2 ^ Suc 5"
  proof -
    have "int (unat (ucast (k AND 63) :: u32)) < int (2 ^ Suc 5)" using u take_bit_int_less_exp [of 6 "uint k"] by simp
    then show ?thesis by (simp only: of_nat_less_iff)
  qed
  then have "sign_ext (ucast (k AND 63)) 6 = word_of_int (signed_take_bit 5 (uint k))"
    using sign_ext_eq [of 5 "ucast (k AND 63)"] by (simp add: u signed_take_bit_take_bit)
  moreover have "signed_take_bit 5 (uint k) = sint k"
  proof -
    have "signed_take_bit 5 (uint k) = signed_take_bit 5 (sint k)" by (simp add: sint_uint)
    also have "\<dots> = sint k" by (rule signed_take_bit_int_eq_self) (use assms in simp_all)
    finally show ?thesis .
  qed
  ultimately have "sign_ext (ucast (k AND 63)) 6 = (word_of_int (sint k) :: u32)" by (simp only:)
  then show ?thesis using assms by (simp only: sx_def signed_of_int) (simp add: signed_take_bit_int_eq_self)
qed

text \<open>With a signed operand of six bits, the number given is the number printed.\<close>

lemma sign6_forms:
  assumes "- 32 \<le> sint (k :: u8)" "sint k < 32"
    and "(n, e) \<in> set [(''cmp'', c33_cmp_rd_sign6), (''ld.w'', c33_ld_w_rd_sign6), (''and'', c33_and_rd_sign6),
      (''or'', c33_or_rd_sign6), (''xor'', c33_xor_rd_sign6), (''not'', c33_not_rd_sign6)]"
  shows "mnem a (e x k) = Inr (n @ TAB # reg_text x @ '', '' @ int_text (sint k))"
  using assms(3) by (auto simp: c33_defs mnem_def mnem_3_def int_text_def sx_sign6 [OF assms(1,2)] reg_text_def alu_names_def)

text \<open>The unsigned operands are printed as signed ones: 63 as -1, an offset of 252 bytes as -4.\<close>

lemma disasm_add_sign:
  "mnem a (c33_add_rd_imm6 0 63) = Inr (''add'' @ TAB # ''%r0, -1'')"
  "pending_ext_count c = 0 \<Longrightarrow> ext_imm c (imm6 (c33_add_rd_imm6 0 63)) 6 = 63"
  by (simp_all add: c33_defs mnem_def mnem_3_def alu_names_def sx_def sign_ext_def radix_text.simps ext_imm_def)

lemma disasm_sp_sign:
  "mnem a (c33_ld_w_rd_ind_sp_imm6 0 63) = Inr (''ld.w'' @ TAB # ''%r0, [%sp+-4]'')"
  "pending_ext_count c = 0 \<Longrightarrow> sp_ea c (c33_ld_w_rd_ind_sp_imm6 0 63) 4 = sp c + 252"
  by (simp_all add: c33_defs mnem_def mnem_2_def ldst2_def scales2_def sx_def sign_ext_def radix_text.simps sp_ea_def)

section \<open>The single-operand encoders\<close>

text \<open>
  The encoders of class 0 with one operand give other instructions. They pass the second opcode field where the
  layout has the delay flag and the delay flag where it has that field: a sleep or halt is encoded as a \<open>nop\<close>, a \<open>popn\<close> as a
  \<open>pushn\<close>, an \<open>int\<close>, \<open>retd\<close> or \<open>reti\<close> as a breakpoint, a return as a call, and a delayed call as a return.
\<close>
theorem asm_single_operand_swapped:
  "dispatch c33_slp = C0 H_nop \<and> dispatch c33_halt = C0 H_nop \<and> dispatch (c33_popn x) = C0 H_pushn \<and>
   dispatch (c33_int x) = C0 H_brk \<and> dispatch c33_retd = C0 H_brk \<and> dispatch c33_reti = C0 H_brk \<and>
   dispatch (c33_ret 0) = C0 H_call_rb \<and> dispatch (c33_call x 1) = C0 H_ret \<and>
   dispatch (c33_jp_rb x 0) = C0 H_call_rb \<and> dispatch (c33_jp_rb x 1) = C0 H_ret"
  by (simp add: c33_defs dispatch_def table_0a_def sel_def)

section \<open>Branch targets\<close>

lemma radix_value_zeros: "radix_value HEX (replicate k CHR ''0'' @ t) = radix_value HEX t"
proof -
  have z: "foldl (\<lambda>v c. v * length HEX + position c HEX) 0 (replicate k CHR ''0'') = 0" by (induction k) simp_all
  then show ?thesis by (simp only: radix_value_def foldl_append)
qed

lemma hex_text6_value: "radix_value HEX (hex_text6 a) = unat a"
  using radix_value_text [of HEX "unat a"] by (simp add: hex_text6_def pad_number_def radix_value_zeros)

text \<open>
  The address the disassembler prints for a branch, call or jump is the one the CPU goes to, when no prefix is
  pending: read back as a hexadecimal number it is the target of \<open>pcrel_target\<close>.
\<close>
theorem disasm_branch_target:
  assumes "cls i = 0" "4 \<le> c0_op1 i" "pending_ext_count c = 0"
  shows "\<exists>s. mnem (pc c - 2) i = Inr s \<and> radix_value HEX (drop 3 (dropWhile (\<lambda>ch. ch \<noteq> TAB) s)) = unat (pcrel_target c i)"
proof -
  define d where "d = (if dbit i then ''.d'' else [])"
  define n where "n = branch_names ! (c0_op1 i - 4)"
  define h where "h = hex_text6 (pcrel_target c i)"
  have k: "c0_op1 i - 4 < 12" using field_bounds(4) [of i] by simp
  have t: "pcrel_target c i = (pc c - 2) + 2 * sign_ext (sign8 i) 8"
  proof -
    have "sign8 i AND 255 = sign8 i" unfolding sign8_def asm_masks by (rule bit_word_eqI) (auto simp: bit_simps)
    then show ?thesis using assms(3) by (simp add: pcrel_target_def ext_pcrel_def Let_def)
  qed
  have "mnem (pc c - 2) i = Inr (n @ d @ TAB # ''0x'' @ h)"
    using assms(1,2) k by (simp add: mnem_def mnem_0b_def dot_d_def d_def n_def h_def hex_text6_def t Let_def)
  moreover have "TAB \<notin> set (n @ d)"
  proof -
    have "n \<in> set branch_names" using k unfolding n_def by (intro nth_mem) (simp add: branch_names_def)
    then show ?thesis by (auto simp: branch_names_def d_def)
  qed
  then have "drop 3 (dropWhile (\<lambda>ch. ch \<noteq> TAB) ((n @ d) @ TAB # ''0x'' @ h)) = h"
    by (subst dropWhile_append2) auto
  ultimately show ?thesis by (simp add: h_def hex_text6_value)
qed

theorem disasm_branch_target_witness:
  "\<exists>s. mnem (0x100002 - 2) (c33_jp_sign8 0xFC 0) = Inr s \<and> radix_value HEX (drop 3 (dropWhile (\<lambda>ch. ch \<noteq> TAB) s)) =
    unat (pcrel_target (cpu_init\<lparr>pc := 0x100002\<rparr>) (c33_jp_sign8 0xFC 0))"
  using disasm_branch_target [of "c33_jp_sign8 0xFC 0" "cpu_init\<lparr>pc := 0x100002\<rparr>"]
  by (simp add: c33_jp_sign8_def cpu_init_def)

end
