(* ===== verification/Spec2Isabelle.thy ===== *)
theory Spec2Isabelle
  imports Flash CpuDiv CpuMac Intc RunnerLoop PfiTools ElfLoad Writeback Gdb Headless SaveRam Semihost AsmText
begin

text \<open>
  Verification library of piece-emu, an emulator of the P/ECE handheld (EPSON S1C33209).

  The program. \<^verbatim>\<open>src/core\<close> is the S1C33 CPU and the bus, \<^verbatim>\<open>src/board\<close> the flash chip and the display
  controller, \<^verbatim>\<open>src/soc\<close> the on-chip peripherals, \<^verbatim>\<open>src/system\<close> puts them together and drives them.
  The CPU fetches, loads and stores through the bus; the bus decodes the address into internal
  RAM, external RAM, flash, I/O or nothing, and calls the I/O handler a peripheral registered. A
  peripheral changes its registers and may call another: a timer raises an interrupt source, the
  interrupt controller asserts a trap in the CPU, a byte written to the serial port reaches the
  display and starts a DMA transfer, which reads the bus. Between bursts of instructions the runner
  ticks the peripherals with the cycle counter.

  Conventions. A struct or class is a record, an enum a datatype, a register a word of its width
  with its wrap-around. \<open>machine\<close> (Machine) is CPU, bus and devices, with a type parameter for the
  devices, the log of diagnostics, the breakpoints and the strict flag; \<open>wiring\<close> holds the I/O
  handlers and the watch callback, functions on the machine. An operation takes the state and
  returns it updated, with its result. A callback into another device is a value the operation
  returns (a trap request, a list of events), which the system performs at the place of the call.
  Exceptions are the left side of a sum, faults and halts are fields of the state as in the code.

  Theories, in the order of the imports, and what each models and shows.
    \<^item> Prelude: words, bits, bytes, folds and list updates shared by all.
    \<^item> Flash (\<^verbatim>\<open>core/flash_device.hpp\<close>, \<^verbatim>\<open>board/flash_sst39vf\<close>): the flash devices and the command state
      machine. A word changes only after an unlock sequence, programming replaces exactly its word (it can
      set bits, unlike the chip), an erase sets exactly its block, and every sector that differs from the loaded image is marked dirty.
    \<^item> Machine, Bus (\<^verbatim>\<open>core/bus\<close>, \<^verbatim>\<open>core/diag\<close>, the state of \<^verbatim>\<open>core/cpu.hpp\<close>): decoding, accesses of the three
      widths, wait cycles, misalignment, watchpoints. Stores are read back, a word is two halfwords,
      the fast paths agree with the slow ones; the contract \<open>word_memory\<close>.
    \<^item> Decode, CpuCore, CpuInsn, CpuStep (\<^verbatim>\<open>core/insn.hpp\<close>, \<^verbatim>\<open>core/cpu_dispatch.cpp\<close>, \<^verbatim>\<open>core/cpu_core.cpp\<close>,
      \<^verbatim>\<open>core/cpu_class0.cpp\<close> to \<^verbatim>\<open>cpu_class6.cpp\<close>): the dispatch table, EXT prefixes, traps, delay slots,
      all instruction handlers, and one step.
    \<^item> CpuDiv, CpuStack, CpuCtl, CpuAlu, CpuMac: what the instructions compute. The division steps give
      quotient and remainder, push and pop and call and return are inverse, traps nest and wait for
      atomic sequences, comparisons and conditional jumps agree, the fast paths of \<open>mac\<close> are its loop.
    \<^item> Ports: a register port of a peripheral and the contract \<open>byte_pair\<close> of two byte registers in a
      halfword. Timing: 64-bit cycle numbers and the contract \<open>paced_counter\<close>.
    \<^item> Intc, ClkCtl, Timer8, Timer16, Wdt, Rtc, PortCtrl, Bcu, SerialDma, Lcd, Sound (\<^verbatim>\<open>soc/peripheral_*\<close>,
      \<^verbatim>\<open>board/s6b0741\<close>): one peripheral each (SerialDma two). The timers are related to counting clock
      by clock, the calendar and the time registers round-trip, the controller picks the highest
      request and loses none that is enabled, the ring of samples is a queue under every
      interleaving of its two threads.
    \<^item> Soc (\<^verbatim>\<open>system/piece_peripherals\<close>): all devices as one system, with its register map, tick, wake
      cycle and resets. Invariant: what a property of flash and devices needs so that the CPU and the bus
      keep it (\<open>machine_invariant\<close>), with the cases \<open>device_invariant\<close> and \<open>flash_invariant\<close>. SocWf: the
      well-formedness of every machine that can come about; \<open>soc_reach\<close> lets CPU, memory and breakpoints
      change at will, so it serves invariants of the devices only. SystemKeep: a property of the flash that
      stores keep, and the bounds of the CPU's indices, are kept by everything the system does (the contract
      \<open>system_property\<close>). SocPaths: paths through several devices.
    \<^item> Runner, RunnerLoop (\<^verbatim>\<open>system/cpu_runner\<close>): the loop that drives the machine. Bursts of instructions
      up to the nearest deadline, ticks, polls of the keys, the jump ahead when the CPU halts, pacing
      against the host clock, the reset handshake and the debugger mode. What the host does is a
      stream of answers (\<open>host\<close>); what the runner asks of it (sleeps, messages) is left out of the state.
      The deadlines stay ahead of the counter within their window, a burst ends, a halt sets the counter to
      the earliest of wake cycle and deadlines, which may move it back, and the devices stay well-formed.
    \<^item> PfiFormat (\<^verbatim>\<open>pfi_format.h\<close>), Pffs, PffsFs, PffsAdd (\<^verbatim>\<open>tools/pffs.c\<close>, \<^verbatim>\<open>tools/pfi.c\<close>): the image file
      and the flash file system in it, with its directory and its chains of sectors. An image in order
      (\<open>fs_ok\<close>) stands for a map from names to contents; extracting is lookup in it, deleting and
      adding are its updates, an addition fails exactly when the name is not valid or there is no room.
    \<^item> PfiTools (\<^verbatim>\<open>tools/mkpfi.c\<close>, \<^verbatim>\<open>tools/pfar.c\<close>, \<^verbatim>\<open>tools/ripper.c\<close>, \<open>PFIOpen\<close>, \<open>PFISave\<close>): the command line
      tools on images, over the contract \<open>file_store\<close>. A batch is written back only as a whole, what is
      made or saved can be opened again; for some headers opening never returns or reads past its buffer.
    \<^item> Loader, ElfLoad (\<^verbatim>\<open>debug/pfi_loader\<close>, \<^verbatim>\<open>debug/elf_loader\<close>): how a program gets into memory. The two
      image loaders agree, a full image of \<open>mkpfi\<close> boots its kernel, an ELF file leaves exactly its segments
      and zeroed BSS, and a segment near the end of the 32-bit range escapes the bounds check.
    \<^item> Writeback (\<^verbatim>\<open>system/pfi_writeback\<close>, \<^verbatim>\<open>system/platform_file\<close>): changed flash sectors go back to the
      image file. With an image as large as the flash a new start after the last flush loads the flash the program left, also when writes
      are cut short or interrupted; a flush that runs beside the CPU thread can lose a store.
    \<^item> GdbWire, Gdb (\<^verbatim>\<open>debug/gdb_rsp\<close>): the debugger server. Packets, numbers in text, registers, the loop
      over the bytes received, and the handshake with the main loop as a step relation of two threads.
      The server depends on the bytes only, not on how they are cut, but for a zero byte in a chunk; registers and memory round-trip;
      a program stops at the first place it has to; the handshake can lose a wake-up, and only that way
      get stuck.
    \<^item> Script, Headless (\<^verbatim>\<open>headless_system_main.cpp\<close>, \<^verbatim>\<open>system/named_button_input\<close>): the frontend driven by a
      script, from the text of the script to the exit status. Every frame gets exactly its commands and its
      line, and frames that differ in one pixel have different hashes.
    \<^item> Libretro, RetroLoop, SaveRam (\<^verbatim>\<open>libretro/piece_libretro.cpp\<close>): the core for RetroArch, one call per
      frame, with its options, keys, picture and samples. A frame ends; what the host is handed as
      save memory is the flash as it stands, it brings the flash back in the next session, and a
      save with a damaged header is never repaired.
    \<^item> Semihost (\<^verbatim>\<open>debug/semihosting\<close>, its configuration in \<^verbatim>\<open>main.cpp\<close>): the debug ports of a test program:
      console, result, cycle counter, host clock, dumps, trace and breakpoints. The console prints
      the string up to its zero, the counter read in two words is one count.
    \<^item> StrFmt, Asm, Disasm, AsmText (\<^verbatim>\<open>core/strfmt.hpp\<close>, \<^verbatim>\<open>core/c33insn.hpp\<close>, \<^verbatim>\<open>core/cpu_disasm.cpp\<close>): the
      formatter used where the library has no \<^verbatim>\<open>std::format\<close>, the instruction encoders and the disassembler. The
      text of a word names the handler it is dispatched to, what is encoded is dispatched and printed as
      what it is, but for the encoders of class 0 with one operand, and a branch shows its target.

  Bounds. Loops are structural recursions or functions with a termination proof (a division, a
  \<open>mac\<close> of at most \<open>2 ^ 32\<close> rounds, a DMA transfer, the scan of a bitmap, the calendar); none needs
  fuel. The size loop of \<open>PFIOpen\<close>, which may not end, is a partial function; a read past its
  buffer is a result of its own. The loops of the runner end when the host quits, so they have fuel (for the instructions of a
  burst, the bursts of a frame and the frames) and return \<open>None\<close> when it runs out; for a burst one
  instruction per cycle is enough (\<open>runner_burst_ends\<close>). The frame loop of Headless and the run of a debugger until a
  breakpoint have the same kind of fuel, and so has a frame of the libretro core, where twice as many
  passes as cycles are enough (\<open>libretro_frame_ends\<close>). The console of Semihost stops after 4096 bytes, as in the code. The wiring of Soc has a level: a handler of level \<open>n + 1\<close> reaches the bus with the
  handlers of level \<open>n\<close>. A serial DMA needs level one, and level two when its source address is
  itself an I/O register; the theorems hold at every level.

  Not modelled. The printing of register dumps, traces and messages: the text of an instruction and the wait
  cycles of the fetch a disassembly makes are modelled. \<^verbatim>\<open>pfar\<close> ignores a failed save, and the model
  takes every save to succeed. SDL and the two
  programs \<^verbatim>\<open>main.cpp\<close> and \<^verbatim>\<open>system_main.cpp\<close>, which construct and connect the parts above: their callbacks
  are arguments (\<open>soc_env\<close>), the exit status and the debug ports of the first are in Semihost. The libretro core
  counts the samples due per frame in floating point: that number is an input.
  A socket is the chunks received and the bytes sent.
  A file is its bytes, or absent; what \<open>pwrite\<close> answers is an input. Memory order of the sample ring: the
  step relation interleaves whole loads and stores, which the acquire and release pairs of the
  code justify. The transfer to a unit over USB: calls of libusb.
\<close>

end
